(* ===== verification/Prelude.thy ===== *)
theory Prelude
  imports Main "HOL-Library.Monad_Syntax" "HOL-Library.Product_Lexorder"
begin

text \<open>
  Shared vocabulary of the development: C++ \<open>size_t\<close> arithmetic with its
  wrap-around, the outcome of a \<open>fenix_assert\<close>, and \<open>std::set\<close> as a strictly
  sorted list.  Every component theory builds on this file.
\<close>

named_theorems sz "size_t operations that do not wrap are the operations on natural numbers"
named_theorems sset "the set of elements and the ordering of a sorted-list set"

section \<open>\<open>size_t\<close>\<close>

text \<open>
  A \<open>size_t\<close> value is a natural number at most \<open>SIZE_MAX\<close>; the operators of the
  64-bit type wrap modulo \<open>SIZE_MAX + 1\<close>.
\<close>

definition SIZE_MAX :: nat where
  "SIZE_MAX = 18446744073709551615"

definition sz_add :: "nat \<Rightarrow> nat \<Rightarrow> nat" where
  "sz_add a b = (a + b) mod (SIZE_MAX + 1)"

definition sz_sub :: "nat \<Rightarrow> nat \<Rightarrow> nat" where
  "sz_sub a b = (a + (SIZE_MAX + 1) - b) mod (SIZE_MAX + 1)"

definition sz_mul :: "nat \<Rightarrow> nat \<Rightarrow> nat" where
  "sz_mul a b = (a * b) mod (SIZE_MAX + 1)"

text \<open>
  The largest index an object can have: no object is larger than \<open>PTRDIFF_MAX\<close> bytes.
\<close>

definition IDX_MAX :: nat where
  "IDX_MAX = 9223372036854775807"

lemma SIZE_IDX: "SIZE_MAX = 2 * IDX_MAX + 1"
  by (simp add: SIZE_MAX_def IDX_MAX_def)

lemma IDX_MAX_pos [simp]: "0 < IDX_MAX" "IDX_MAX \<noteq> 0"
  by (simp_all add: IDX_MAX_def)

lemma IDX_MAX_lt [simp]: "IDX_MAX < SIZE_MAX" "IDX_MAX \<noteq> SIZE_MAX" "SIZE_MAX \<noteq> IDX_MAX"
    "\<not> SIZE_MAX \<le> IDX_MAX"
  by (simp_all add: SIZE_MAX_def IDX_MAX_def)

lemma SIZE_MAX_pos [simp]: "0 < SIZE_MAX" "SIZE_MAX \<noteq> 0"
  by (simp_all add: SIZE_MAX_def)

lemma SIZE_MAX_gt_1: "1 < SIZE_MAX"
  by (simp add: SIZE_MAX_def)

lemma sz_add_exact [sz]: "a + b \<le> SIZE_MAX \<Longrightarrow> sz_add a b = a + b"
  by (simp add: sz_add_def)

lemma sz_mul_exact [sz]: "a * b \<le> SIZE_MAX \<Longrightarrow> sz_mul a b = a * b"
  by (simp add: sz_mul_def)

lemma sz_sub_exact [sz]:
  assumes "b \<le> a" "a \<le> SIZE_MAX"
  shows "sz_sub a b = a - b"
proof -
  have "a + (SIZE_MAX + 1) - b = (a - b) + (SIZE_MAX + 1)"
    using assms(1) by simp
  then show ?thesis
    unfolding sz_sub_def using assms(2) by (simp only: mod_add_self2) simp
qed

lemma sz_add_le [simp]: "sz_add a b \<le> SIZE_MAX"
  using mod_less_divisor [of "SIZE_MAX + 1" "a + b"] by (simp add: sz_add_def)

lemma sz_sub_le [simp]: "sz_sub a b \<le> SIZE_MAX"
  using mod_less_divisor [of "SIZE_MAX + 1" "a + (SIZE_MAX + 1) - b"] by (simp add: sz_sub_def)

lemma sz_mul_le [simp]: "sz_mul a b \<le> SIZE_MAX"
  using mod_less_divisor [of "SIZE_MAX + 1" "a * b"] by (simp add: sz_mul_def)

lemma sz_mul_0 [simp]: "sz_mul 0 b = 0" "sz_mul a 0 = 0"
  by (simp_all add: sz_mul_def)

lemma sz_add_0 [simp]: "a \<le> SIZE_MAX \<Longrightarrow> sz_add a 0 = a"
  by (simp add: sz_add_def)

lemma sz_add_max: "0 < a \<Longrightarrow> a \<le> SIZE_MAX \<Longrightarrow> sz_add a SIZE_MAX = a - 1"
proof -
  assume a: "0 < a" "a \<le> SIZE_MAX"
  then have "a + SIZE_MAX = (a - 1) + (SIZE_MAX + 1)" by simp
  then show ?thesis
    unfolding sz_add_def using a by (simp only: mod_add_self2) simp
qed

lemma sz_max_succ [simp]: "sz_add SIZE_MAX 1 = 0" "sz_add SIZE_MAX (Suc 0) = 0"
  by (simp_all add: sz_add_def)

lemma sz_sub_zero_one [simp]: "sz_sub 0 1 = SIZE_MAX" "sz_sub 0 (Suc 0) = SIZE_MAX"
  by (simp_all add: sz_sub_def)

section \<open>Assertions\<close>

text \<open>
  \<open>fenix_assert\<close> ends the program when its condition fails (the build without
  \<open>NDEBUG\<close>); the code after it only runs when the condition holds.  In a function
  whose only failure is an assertion the outcome is an \<open>option\<close>: \<open>None\<close> is the abort.
\<close>

definition fenix_assert :: "bool \<Rightarrow> unit option" where
  "fenix_assert b = (if b then Some () else None)"

lemma fenix_assert_True [simp]: "fenix_assert True = Some ()"
  by (simp add: fenix_assert_def)

lemma fenix_assert_eq_Some [simp]: "fenix_assert b = Some u \<longleftrightarrow> b"
  by (simp add: fenix_assert_def)

lemma fenix_assert_bind: "b \<Longrightarrow> Option.bind (fenix_assert b) f = f ()"
  by (simp add: fenix_assert_def)

section \<open>\<open>std::set\<close>\<close>

text \<open>
  A \<open>std::set\<close> of ordered values is the strictly increasing list of its elements, so
  that iteration in order is recursion on the list.  \<open>insert\<close> leaves the set alone when
  the value is present, \<open>merge\<close> moves the elements of its argument in, \<open>next\<close> is the
  successor of an iterator.
\<close>

definition sset_ok :: "'a::linorder list \<Rightarrow> bool" where
  "sset_ok s \<longleftrightarrow> sorted_wrt (<) s"

definition sset_insert :: "'a::linorder \<Rightarrow> 'a list \<Rightarrow> 'a list" where
  "sset_insert x s = filter (\<lambda>y. y < x) s @ x # filter (\<lambda>y. x < y) s"

definition sset_merge :: "'a::linorder list \<Rightarrow> 'a list \<Rightarrow> 'a list" where
  "sset_merge s t = fold sset_insert t s"

definition sset_erase :: "'a::linorder \<Rightarrow> 'a list \<Rightarrow> 'a list" where
  "sset_erase x s = filter (\<lambda>y. y \<noteq> x) s"

definition sset_next :: "'a::linorder \<Rightarrow> 'a list \<Rightarrow> 'a option" where
  "sset_next x s = List.find (\<lambda>y. x < y) s"

lemma sset_ok_Nil [simp]: "sset_ok []"
  by (simp add: sset_ok_def)

lemma sset_ok_single [simp]: "sset_ok [x]"
  by (simp add: sset_ok_def)

lemma sset_ok_Cons: "sset_ok (x # s) \<longleftrightarrow> (\<forall>y \<in> set s. x < y) \<and> sset_ok s"
  by (simp add: sset_ok_def)

lemma sset_ok_append:
  "sset_ok (s @ t) \<longleftrightarrow> sset_ok s \<and> sset_ok t \<and> (\<forall>x \<in> set s. \<forall>y \<in> set t. x < y)"
  by (auto simp: sset_ok_def sorted_wrt_append)

lemma sset_ok_distinct: "sset_ok s \<Longrightarrow> distinct s"
  unfolding sset_ok_def by (induction s) auto

lemma sset_ok_filter: "sset_ok s \<Longrightarrow> sset_ok (filter P s)"
  by (simp add: sset_ok_def sorted_wrt_filter)

lemma sset_insert_set [sset]: "set (sset_insert x s) = insert x (set s)"
  by (auto simp: sset_insert_def)

lemma sset_insert_ok [sset]: "sset_ok s \<Longrightarrow> sset_ok (sset_insert x s)"
  by (auto simp: sset_insert_def sset_ok_append sset_ok_Cons sset_ok_filter)

lemma sset_merge_set [sset]: "set (sset_merge s t) = set s \<union> set t"
  unfolding sset_merge_def by (induction t arbitrary: s) (auto simp: sset_insert_set)

lemma sset_merge_ok [sset]: "sset_ok s \<Longrightarrow> sset_ok (sset_merge s t)"
  unfolding sset_merge_def by (induction t arbitrary: s) (auto simp: sset_insert_ok)

lemma sset_erase_set [sset]: "set (sset_erase x s) = set s - {x}"
  by (auto simp: sset_erase_def)

lemma sset_erase_ok [sset]: "sset_ok s \<Longrightarrow> sset_ok (sset_erase x s)"
  by (simp add: sset_erase_def sset_ok_filter)

lemma sset_next_SomeD: "sset_next x s = Some y \<Longrightarrow> y \<in> set s \<and> x < y"
  by (auto simp: sset_next_def find_Some_iff)

lemma sset_insert_snoc:
  assumes "\<forall>y \<in> set s. y < x"
  shows "sset_insert x s = s @ [x]"
proof -
  have "filter (\<lambda>y. y < x) s = s" using assms by simp
  moreover have "filter (\<lambda>y. x < y) s = []"
    using assms by (auto simp: filter_empty_conv dest: less_not_sym)
  ultimately show ?thesis by (simp add: sset_insert_def)
qed

lemma sset_length_insert: "x \<notin> set s \<Longrightarrow> length (sset_insert x s) = Suc (length s)"
proof -
  assume "x \<notin> set s"
  then have "length (filter (\<lambda>y. y < x) s) + length (filter (\<lambda>y. x < y) s) = length s"
    by (induction s) (auto simp: not_less_iff_gr_or_eq)
  then show ?thesis by (simp add: sset_insert_def)
qed

lemma sset_length_insert_le: "length (sset_insert x s) \<le> Suc (length s)"
proof -
  have "length (filter (\<lambda>y. y < x) s) + length (filter (\<lambda>y. x < y) s) \<le> length s"
    by (induction s) (auto dest: less_not_sym)
  then show ?thesis by (simp add: sset_insert_def)
qed

lemma sset_eq: "sset_ok s \<Longrightarrow> sset_ok t \<Longrightarrow> set s = set t \<Longrightarrow> s = t"
  unfolding sset_ok_def by (metis strict_sorted_equal)

section \<open>Overwriting\<close>

text \<open>The bytes \<open>bs\<close> put into \<open>xs\<close> from a position on.\<close>

definition overwrite :: "nat \<Rightarrow> 'a list \<Rightarrow> 'a list \<Rightarrow> 'a list" where
  "overwrite p bs xs = take p xs @ bs @ drop (p + length bs) xs"

lemma overwrite_all: "length bs = length xs \<Longrightarrow> overwrite 0 bs xs = bs"
  by (simp add: overwrite_def)

lemma length_overwrite: "p + length bs \<le> length xs \<Longrightarrow> length (overwrite p bs xs) = length xs"
  by (simp add: overwrite_def)

end
