(* ===== verification/Region.thy ===== *)
theory Region
  imports Prelude
begin

text \<open>
  \<open>fenix::detail::DataRegion\<close> (include/fenix/data/subset.hpp, src/data/subset.cpp): a
  block of consecutive element indices, repeated \<open>reps\<close> more times at distance
  \<open>stride\<close>, and its set operations.  \<open>None\<close> is a failed \<open>fenix_assert\<close>.
  \<open>region_elems\<close> is the abstract value of a region, the set of its indices.
\<close>

section \<open>The data\<close>

record data_region =
  r_start :: nat
  r_end :: nat
  r_reps :: nat
  r_stride :: nat

text \<open>\<open>DataRegion::operator<\<close>: by start, then end, then reps, then stride.\<close>

instantiation data_region_ext :: (linorder) linorder
begin

definition less_eq_data_region_ext :: "'a data_region_scheme \<Rightarrow> 'a data_region_scheme \<Rightarrow> bool" where
  "less_eq_data_region_ext a b \<longleftrightarrow>
     (r_start a, r_end a, r_reps a, r_stride a, data_region.more a)
       \<le> (r_start b, r_end b, r_reps b, r_stride b, data_region.more b)"

definition less_data_region_ext :: "'a data_region_scheme \<Rightarrow> 'a data_region_scheme \<Rightarrow> bool" where
  "less_data_region_ext a b \<longleftrightarrow>
     (r_start a, r_end a, r_reps a, r_stride a, data_region.more a)
       < (r_start b, r_end b, r_reps b, r_stride b, data_region.more b)"

instance
proof
  fix a b c :: "'a data_region_scheme"
  show "(a < b) = (a \<le> b \<and> \<not> b \<le> a)"
    unfolding less_eq_data_region_ext_def less_data_region_ext_def by (rule less_le_not_le)
  show "a \<le> a"
    unfolding less_eq_data_region_ext_def by (rule order_refl)
  show "a \<le> b \<Longrightarrow> b \<le> c \<Longrightarrow> a \<le> c"
    unfolding less_eq_data_region_ext_def by (rule order_trans)
  show "a \<le> b \<or> b \<le> a"
    unfolding less_eq_data_region_ext_def by (rule linear)
  assume "a \<le> b" "b \<le> a"
  then have "(r_start a, r_end a, r_reps a, r_stride a, data_region.more a)
      = (r_start b, r_end b, r_reps b, r_stride b, data_region.more b)"
    unfolding less_eq_data_region_ext_def by (rule order_antisym)
  then show "a = b" by (intro data_region.equality) simp_all
qed

end

lemma region_less_iff:
  "(a :: data_region) < b \<longleftrightarrow>
     (if r_start a \<noteq> r_start b then r_start a < r_start b
      else if r_end a \<noteq> r_end b then r_end a < r_end b
      else if r_reps a \<noteq> r_reps b then r_reps a < r_reps b
      else r_stride a < r_stride b)"
  by (auto simp: less_data_region_ext_def)

text \<open>The two constructors; the second one turns touching repetitions into one block.\<close>

definition mk_region :: "nat \<times> nat \<Rightarrow> nat \<Rightarrow> nat \<Rightarrow> data_region option" where
  "mk_region b m_reps m_stride =
     (let touching = (sz_add (snd b) 1 = sz_add (fst b) m_stride);
          e = (if snd b \<noteq> SIZE_MAX \<and> touching
               then sz_add (snd b) (sz_mul m_reps m_stride) else snd b);
          n = (if snd b = SIZE_MAX \<or> touching then 0 else m_reps);
          s = (if n = 0 then SIZE_MAX else m_stride)
      in do {
        fenix_assert (fst b \<le> e);
        fenix_assert (s \<noteq> SIZE_MAX \<or> n = 0);
        fenix_assert (n = 0 \<or> sz_add (fst b) s > e);
        Some \<lparr>r_start = fst b, r_end = e, r_reps = n, r_stride = s\<rparr>
      })"

definition mk_block :: "nat \<times> nat \<Rightarrow> data_region option" where
  "mk_block b = mk_region b 0 SIZE_MAX"

definition region_range :: "data_region \<Rightarrow> nat \<times> nat" where
  "region_range r =
     (r_start r,
      if r_reps r = SIZE_MAX then SIZE_MAX
      else sz_add (r_end r) (sz_mul (r_stride r) (r_reps r)))"

definition region_count :: "data_region \<Rightarrow> nat" where
  "region_count r =
     (if r_end r = SIZE_MAX \<or> r_reps r = SIZE_MAX then SIZE_MAX
      else sz_mul (sz_add (sz_sub (r_end r) (r_start r)) 1) (sz_add (r_reps r) 1))"

definition region_get_rep :: "data_region \<Rightarrow> nat \<Rightarrow> data_region option" where
  "region_get_rep r n = do {
     fenix_assert (n \<le> r_reps r);
     mk_block (sz_add (r_start r) (sz_mul n (r_stride r)),
               sz_add (r_end r) (sz_mul n (r_stride r)))
   }"

definition region_get_reps :: "data_region \<Rightarrow> nat \<Rightarrow> nat \<Rightarrow> data_region option" where
  "region_get_reps r n1 n2 = do {
     fenix_assert (n1 \<le> n2);
     fenix_assert (n2 \<le> r_reps r);
     mk_region (sz_add (r_start r) (sz_mul n1 (r_stride r)),
                sz_add (r_end r) (sz_mul n1 (r_stride r)))
       (sz_sub n2 n1) (r_stride r)
   }"

definition region_inverted :: "data_region \<Rightarrow> data_region option" where
  "region_inverted r = do {
     fenix_assert (r_reps r \<noteq> 0);
     mk_region (sz_add (r_end r) 1, sz_sub (sz_add (r_start r) (r_stride r)) 1)
       (if r_reps r = SIZE_MAX then SIZE_MAX else sz_sub (r_reps r) 1) (r_stride r)
   }"

section \<open>Well-formed regions and their elements\<close>

text \<open>
  The invariant of the regions the constructors build.  Only a block may be unbounded
  (its end is \<open>MAX\<close>); every finite index is at most \<open>IDX_MAX\<close>, so no address
  computation on the region wraps; a strided region has a gap between repetitions.
\<close>

definition region_ok :: "data_region \<Rightarrow> bool" where
  "region_ok r \<longleftrightarrow> r_start r \<le> r_end r \<and>
     (if r_reps r = 0
      then r_stride r = SIZE_MAX \<and>
        (r_end r \<le> IDX_MAX \<or> r_end r = SIZE_MAX \<and> r_start r \<le> IDX_MAX + 1)
      else r_end r + 1 < r_start r + r_stride r \<and>
        r_end r + r_stride r * r_reps r \<le> IDX_MAX)"

definition region_elems :: "data_region \<Rightarrow> nat set" where
  "region_elems r =
     (\<Union>k \<in> {0..r_reps r}. {r_start r + k * r_stride r .. r_end r + k * r_stride r})"

lemma region_elems_iff:
  "x \<in> region_elems r \<longleftrightarrow>
     (\<exists>k \<le> r_reps r. r_start r + k * r_stride r \<le> x \<and> x \<le> r_end r + k * r_stride r)"
  by (auto simp: region_elems_def)

lemma region_elems_block: "r_reps r = 0 \<Longrightarrow> region_elems r = {r_start r .. r_end r}"
  by (simp add: region_elems_def)

lemma region_ok_start_end: "region_ok r \<Longrightarrow> r_start r \<le> r_end r"
  by (simp add: region_ok_def)

lemma region_ok_blockD:
  assumes "region_ok r" "r_reps r = 0"
  shows "r_stride r = SIZE_MAX" "r_start r \<le> IDX_MAX + 1"
    "r_end r \<le> IDX_MAX \<or> r_end r = SIZE_MAX" "r_end r \<le> SIZE_MAX"
  using assms by (auto simp: region_ok_def SIZE_IDX)

lemma region_ok_stridedD:
  assumes "region_ok r" "r_reps r \<noteq> 0"
  shows "r_end r + 1 < r_start r + r_stride r"
    and "r_end r + r_stride r * r_reps r \<le> IDX_MAX"
    and "r_end r + r_stride r \<le> IDX_MAX" "r_end r + r_reps r \<le> IDX_MAX"
    and "1 < r_stride r"
proof -
  show gap: "r_end r + 1 < r_start r + r_stride r"
    and top: "r_end r + r_stride r * r_reps r \<le> IDX_MAX"
    using assms by (simp_all add: region_ok_def)
  show one: "1 < r_stride r" using gap region_ok_start_end [OF assms(1)] by linarith
  have "r_stride r \<le> r_stride r * r_reps r" "r_reps r \<le> r_stride r * r_reps r"
    using assms(2) one by simp_all
  with top show "r_end r + r_stride r \<le> IDX_MAX" "r_end r + r_reps r \<le> IDX_MAX"
    by linarith+
qed

lemma region_ok_end: "region_ok r \<Longrightarrow> r_end r \<le> SIZE_MAX"
  using region_ok_blockD(4) region_ok_stridedD(3) [of r] IDX_MAX_lt(1)
  by (cases "r_reps r = 0") (auto simp: SIZE_IDX)

lemma region_rep_bound:
  assumes "region_ok r" "k \<le> r_reps r"
  shows "r_end r + k * r_stride r \<le> SIZE_MAX"
    and "r_reps r \<noteq> 0 \<Longrightarrow> r_end r + k * r_stride r \<le> IDX_MAX"
proof -
  show strided: "r_end r + k * r_stride r \<le> IDX_MAX" if "r_reps r \<noteq> 0"
  proof -
    have "k * r_stride r \<le> r_stride r * r_reps r" using assms(2) by (simp add: mult.commute)
    with region_ok_stridedD(2) [OF assms(1) that] show ?thesis by linarith
  qed
  then show "r_end r + k * r_stride r \<le> SIZE_MAX"
    using assms region_ok_end [OF assms(1)] by (cases "r_reps r = 0") (auto simp: SIZE_IDX)
qed

lemma region_reps_lt_max:
  assumes "region_ok r" shows "r_reps r < SIZE_MAX"
  using region_ok_stridedD(4) [OF assms] by (cases "r_reps r = 0") (auto simp: SIZE_IDX)

lemma region_range_ok:
  assumes "region_ok r"
  shows "region_range r = (r_start r, r_end r + r_stride r * r_reps r)"
proof -
  have "r_end r + r_stride r * r_reps r \<le> SIZE_MAX"
    using region_rep_bound(1) [OF assms, of "r_reps r"] by (simp add: mult.commute)
  then show ?thesis
    using region_reps_lt_max [OF assms] by (simp add: region_range_def sz)
qed

lemma region_range_block:
  assumes "region_ok r" "r_reps r = 0"
  shows "region_range r = (r_start r, r_end r)"
  using assms by (simp add: region_range_ok)

lemma region_range_bound:
  assumes "region_ok r" "r_reps r \<noteq> 0"
  shows "snd (region_range r) \<le> IDX_MAX"
  using region_ok_stridedD(2) [OF assms] by (simp add: region_range_ok [OF assms(1)])

lemma region_elems_range:
  assumes "region_ok r" "x \<in> region_elems r"
  shows "r_start r \<le> x" "x \<le> snd (region_range r)"
proof -
  obtain k where k: "k \<le> r_reps r" "r_start r + k * r_stride r \<le> x" "x \<le> r_end r + k * r_stride r"
    using assms(2) by (auto simp: region_elems_iff)
  have "k * r_stride r \<le> r_stride r * r_reps r" using k(1) by (simp add: mult.commute)
  with k have "r_start r \<le> x" "x \<le> r_end r + r_stride r * r_reps r" by linarith+
  then show "r_start r \<le> x" "x \<le> snd (region_range r)"
    by (simp_all add: region_range_ok [OF assms(1)])
qed

lemma region_elems_ends:
  assumes "region_ok r"
  shows "r_start r \<in> region_elems r" "snd (region_range r) \<in> region_elems r"
proof -
  have "r_start r \<le> r_end r" using assms by (rule region_ok_start_end)
  then show "r_start r \<in> region_elems r" "snd (region_range r) \<in> region_elems r"
    unfolding region_range_ok [OF assms] region_elems_iff
    by (auto intro: exI [of _ 0] exI [of _ "r_reps r"] simp: mult.commute)
qed

subsection \<open>What the constructors build\<close>

abbreviation block :: "nat \<Rightarrow> nat \<Rightarrow> data_region" where
  "block a b \<equiv> \<lparr>r_start = a, r_end = b, r_reps = 0, r_stride = SIZE_MAX\<rparr>"

lemma region_ok_is_block: "region_ok r \<Longrightarrow> r_reps r = 0 \<Longrightarrow> r = block (r_start r) (r_end r)"
  by (simp add: region_ok_def)

lemma mk_region_no_reps:
  assumes "a \<le> b" "b \<le> SIZE_MAX"
  shows "mk_region (a, b) 0 s = Some (block a b)"
  using assms by (simp add: mk_region_def Let_def)

lemma mk_block_eq:
  "a \<le> b \<Longrightarrow> b \<le> SIZE_MAX \<Longrightarrow> mk_block (a, b) = Some (block a b)"
  by (simp add: mk_block_def mk_region_no_reps)

text \<open>
  One fact for all the calls of the two-argument constructor: it succeeds, the region is
  well formed, and it stands for the blocks it was asked for.
\<close>

definition rep_elems :: "nat \<Rightarrow> nat \<Rightarrow> nat \<Rightarrow> nat \<Rightarrow> nat set" where
  "rep_elems a b n s = (\<Union>k \<in> {0..n}. {a + k * s .. b + k * s})"

lemma region_elems_rep: "region_elems r = rep_elems (r_start r) (r_end r) (r_reps r) (r_stride r)"
  by (simp add: region_elems_def rep_elems_def)

lemma rep_elems_0 [simp]: "rep_elems a b 0 s = {a..b}"
  by (simp add: rep_elems_def)

lemma rep_elems_touching:
  assumes "a \<le> b" "b + 1 = a + s"
  shows "rep_elems a b n s = {a .. b + n * s}"
proof (induction n)
  case (Suc n)
  have "rep_elems a b (Suc n) s = rep_elems a b n s \<union> {a + Suc n * s .. b + Suc n * s}"
    by (auto simp: rep_elems_def atLeastAtMostSuc_conv)
  also have "\<dots> = {a .. b + n * s} \<union> {b + n * s + 1 .. b + Suc n * s}"
    using Suc assms(2) by (metis add.commute add.left_commute mult_Suc)
  also have "\<dots> = {a .. b + Suc n * s}"
    using assms(1) by (auto simp: algebra_simps)
  finally show ?case .
qed simp

lemma mk_region_correct:
  assumes "a \<le> b" "b + 1 \<le> a + s" "b + s * n \<le> IDX_MAX" "s \<le> IDX_MAX"
  obtains r where "mk_region (a, b) n s = Some r" "region_ok r" "r_start r = a"
    "region_elems r = rep_elems a b n s" "r_reps r = 0 \<or> r_reps r = n \<and> r_stride r = s"
    "snd (region_range r) = b + s * n"
proof (cases "n = 0")
  case True
  with assms show ?thesis
    by (intro that [of "block a b"])
      (auto simp: mk_region_no_reps region_ok_def region_elems_rep SIZE_IDX region_range_ok)
next
  case n: False
  have fits: "b + 1 \<le> SIZE_MAX" "a + s \<le> SIZE_MAX" "b + n * s \<le> SIZE_MAX" "n * s \<le> SIZE_MAX"
      "b + 1 < SIZE_MAX" "s \<noteq> SIZE_MAX" "b \<noteq> SIZE_MAX"
    using assms by (auto simp: SIZE_IDX mult.commute)
  show ?thesis
  proof (cases "b + 1 = a + s")
    case True
    have mk: "mk_region (a, b) n s = Some (block a (b + n * s))"
      using fits assms(1) True by (simp add: mk_region_def Let_def sz)
    have ok: "region_ok (block a (b + n * s))"
      using assms by (simp add: region_ok_def mult.commute)
    show ?thesis using True assms
      by (intro that [OF mk ok])
        (auto simp: region_elems_rep rep_elems_touching region_range_ok [OF ok] mult.commute)
  next
    case False
    then have gap: "b + 1 < a + s" using assms(2) by simp
    let ?r = "\<lparr>r_start = a, r_end = b, r_reps = n, r_stride = s\<rparr>"
    have mk: "mk_region (a, b) n s = Some ?r"
      using fits assms(1) n gap by (simp add: mk_region_def Let_def sz)
    have ok: "region_ok ?r" using assms gap n by (simp add: region_ok_def)
    show ?thesis by (rule that [OF mk ok]) (auto simp: region_elems_rep region_range_ok [OF ok])
  qed
qed

lemma region_get_rep_eq:
  assumes "region_ok r" "k \<le> r_reps r"
  shows "region_get_rep r k
    = Some (block (r_start r + k * r_stride r) (r_end r + k * r_stride r))"
proof -
  have b: "r_end r + k * r_stride r \<le> SIZE_MAX" by (rule region_rep_bound(1) [OF assms])
  moreover have "r_start r \<le> r_end r" using assms(1) by (rule region_ok_start_end)
  ultimately show ?thesis
    using assms(2) by (simp add: region_get_rep_def sz mk_block_eq)
qed

lemma region_rep_ok:
  assumes "region_ok r" "k \<le> r_reps r"
  shows "region_ok (block (r_start r + k * r_stride r) (r_end r + k * r_stride r))"
  using assms region_rep_bound(2) [OF assms] region_ok_start_end [OF assms(1)]
  by (cases "r_reps r = 0") (auto simp: region_ok_def)

lemma region_get_reps_correct:
  assumes "region_ok r" "i \<le> j" "j \<le> r_reps r"
  obtains q where "region_get_reps r i j = Some q" "region_ok q"
    "r_start q = r_start r + i * r_stride r"
    "region_elems q = (\<Union>k \<in> {i..j}. {r_start r + k * r_stride r .. r_end r + k * r_stride r})"
    "r_reps q = 0 \<or> r_stride q = r_stride r"
    "snd (region_range q) = r_end r + j * r_stride r" "r_reps q \<le> j - i"
proof (cases "r_reps r = 0")
  case True
  with assms have ij: "i = 0" "j = 0" by simp_all
  note b = region_ok_is_block [OF assms(1) True]
  have le: "r_start r \<le> r_end r" "r_end r \<le> SIZE_MAX"
    using assms(1) by (simp_all add: region_ok_start_end region_ok_end)
  have "mk_region (r_start r, r_end r) 0 (r_stride r) = Some r"
    using le b by (metis mk_region_no_reps)
  then have "region_get_reps r 0 0 = Some r"
    using le by (simp add: region_get_reps_def sz)
  then show ?thesis using ij assms(1) True
    by (intro that [of r]) (auto simp: region_elems_block region_range_block)
next
  case False
  let ?a = "r_start r + i * r_stride r" and ?b = "r_end r + i * r_stride r"
  note le = region_ok_start_end [OF assms(1)] and st = region_ok_stridedD [OF assms(1) False]
  have bj: "r_end r + j * r_stride r \<le> IDX_MAX"
    using region_rep_bound(2) [OF assms(1) assms(3)] False by simp
  have j: "i * r_stride r + r_stride r * (j - i) = j * r_stride r"
    using assms(2) by (simp add: algebra_simps flip: add_mult_distrib2)
  have sum: "?b + r_stride r * (j - i) \<le> IDX_MAX" using bj j by linarith
  have bi: "?b \<le> SIZE_MAX" "j \<le> SIZE_MAX"
    using sum assms(3) st(4) by (auto simp: SIZE_IDX)
  have call: "region_get_reps r i j = mk_region (?a, ?b) (j - i) (r_stride r)"
    using assms(2,3) le bi by (simp add: region_get_reps_def sz)
  have elems: "rep_elems ?a ?b (j - i) (r_stride r)
      = (\<Union>k \<in> {i..j}. {r_start r + k * r_stride r .. r_end r + k * r_stride r})"
  proof -
    have img: "{i..j} = (\<lambda>m. i + m) ` {0..j - i}"
      using assms(2) by (simp add: image_add_atLeastAtMost)
    show ?thesis unfolding img rep_elems_def
      by (simp add: algebra_simps del: image_add_atLeastAtMost image_add_atLeastAtMost')
  qed
  have "?a \<le> ?b" "?b + 1 \<le> ?a + r_stride r" "r_stride r \<le> IDX_MAX" using le st by linarith+
  from mk_region_correct [OF this(1,2) sum this(3)] obtain q where
    "mk_region (?a, ?b) (j - i) (r_stride r) = Some q" "region_ok q" "r_start q = ?a"
    "region_elems q = rep_elems ?a ?b (j - i) (r_stride r)"
    "r_reps q = 0 \<or> r_reps q = j - i \<and> r_stride q = r_stride r"
    "snd (region_range q) = ?b + r_stride r * (j - i)" .
  then show ?thesis using call elems j by (intro that [of q]) auto
qed

end
