(* ===== verification/Region_Ops.thy ===== *)
theory Region_Ops
  imports Region
begin

text \<open>
  Overlap, intersection, merging and subtraction of regions (\<open>DataRegion\<close> in
  src/data/subset.cpp).  Each operation is shown to compute the corresponding operation
  on the sets of indices, without failing an assertion, for regions that satisfy
  \<open>region_ok\<close> and, where both are strided, have the same stride.
\<close>

section \<open>Collections of regions\<close>

definition regions_elems :: "data_region list \<Rightarrow> nat set" where
  "regions_elems R = (\<Union>r \<in> set R. region_elems r)"

definition regions_disjoint :: "data_region list \<Rightarrow> bool" where
  "regions_disjoint R \<longleftrightarrow>
     (\<forall>x \<in> set R. \<forall>y \<in> set R. x \<noteq> y \<longrightarrow> region_elems x \<inter> region_elems y = {})"

definition same_stride :: "nat \<Rightarrow> data_region \<Rightarrow> bool" where
  "same_stride s r \<longleftrightarrow> r_reps r = 0 \<or> r_stride r = s"

text \<open>A set of regions as the operations keep it: ordered, well formed, without overlaps.\<close>

definition regions_ok :: "nat \<Rightarrow> data_region list \<Rightarrow> bool" where
  "regions_ok s R \<longleftrightarrow>
     sset_ok R \<and> regions_disjoint R \<and> (\<forall>r \<in> set R. region_ok r \<and> same_stride s r)"

named_theorems regions "facts on collections of regions"

lemma regions_elems_Nil [simp]: "regions_elems [] = {}"
  by (simp add: regions_elems_def)

lemma regions_elems_Cons [simp]: "regions_elems (r # R) = region_elems r \<union> regions_elems R"
  by (simp add: regions_elems_def)

lemma regions_elems_append [simp]: "regions_elems (R @ S) = regions_elems R \<union> regions_elems S"
  by (auto simp: regions_elems_def)

lemma regions_elems_insert [regions]:
  "regions_elems (sset_insert r R) = region_elems r \<union> regions_elems R"
  by (auto simp: regions_elems_def sset_insert_set)

lemma regions_elems_merge [regions]:
  "regions_elems (sset_merge R S) = regions_elems R \<union> regions_elems S"
  by (auto simp: regions_elems_def sset_merge_set)

lemma regions_ok_Nil [simp]: "regions_ok s []"
  by (simp add: regions_ok_def regions_disjoint_def)

lemma regions_ok_single: "regions_ok s [r] \<longleftrightarrow> region_ok r \<and> same_stride s r"
  by (simp add: regions_ok_def regions_disjoint_def)

lemma regions_ok_merge:
  assumes "regions_ok s R" "regions_ok s S" "regions_elems R \<inter> regions_elems S = {}"
  shows "regions_ok s (sset_merge R S)"
proof -
  have cross: "region_elems x \<inter> region_elems y = {}" if "x \<in> set R" "y \<in> set S" for x y
    using assms(3) that unfolding regions_elems_def by blast
  then have "regions_disjoint (sset_merge R S)"
    using assms(1,2) cross
    unfolding regions_disjoint_def regions_ok_def sset_merge_set by (metis UnE inf_commute)
  then show ?thesis
    using assms by (auto simp: regions_ok_def sset_merge_ok sset_merge_set)
qed

lemma regions_ok_insert:
  assumes "regions_ok s R" "region_ok r" "same_stride s r" "region_elems r \<inter> regions_elems R = {}"
  shows "regions_ok s (sset_insert r R)"
proof -
  have "sset_insert r R = sset_merge R [r]" by (simp add: sset_merge_def)
  moreover have "regions_ok s [r]" using assms by (simp add: regions_ok_single)
  ultimately show ?thesis using regions_ok_merge [of s R "[r]"] assms by (simp add: inf_commute)
qed

lemma region_elems_nonempty: "region_ok r \<Longrightarrow> region_elems r \<noteq> {}"
  using region_elems_ends(1) by blast

section \<open>The repetitions of a region\<close>

abbreviation rep_block :: "data_region \<Rightarrow> nat \<Rightarrow> nat set" where
  "rep_block r k \<equiv> {r_start r + k * r_stride r .. r_end r + k * r_stride r}"

lemma rep_block_index:
  assumes "region_ok r" "r_reps r \<noteq> 0" "x \<in> rep_block r k"
  shows "(x - r_start r) div r_stride r = k"
proof -
  have "k * r_stride r \<le> x - r_start r" "x - r_start r < k * r_stride r + r_stride r"
    using assms(3) region_ok_stridedD(1) [OF assms(1,2)] by auto
  then show ?thesis
    by (metis add.commute div_nat_eqI mult.commute mult_Suc)
qed

lemma rep_block_disjoint:
  assumes "region_ok r" "r_reps r \<noteq> 0" "i \<noteq> j"
  shows "rep_block r i \<inter> rep_block r j = {}"
  using rep_block_index [OF assms(1,2)] assms(3) by blast

lemma region_elems_reps: "region_elems r = (\<Union>k \<in> {0..r_reps r}. rep_block r k)"
  by (simp add: region_elems_def)

text \<open>An index computed by division finds the repetition at or before an address.\<close>

lemma rep_at:
  assumes "r_start r \<le> x" "x \<le> r_end r + r_stride r * r_reps r" "region_ok r" "r_reps r \<noteq> 0"
  shows "(x - r_start r) div r_stride r \<le> r_reps r"
    and "r_start r + (x - r_start r) div r_stride r * r_stride r \<le> x"
    and "x < r_start r + Suc ((x - r_start r) div r_stride r) * r_stride r"
proof -
  let ?q = "(x - r_start r) div r_stride r"
  note st = region_ok_stridedD [OF assms(3,4)]
  have "?q * r_stride r \<le> x - r_start r" by (simp add: div_times_less_eq_dividend)
  then show lo: "r_start r + ?q * r_stride r \<le> x" using assms(1) by linarith
  have "x - r_start r < Suc ?q * r_stride r"
    using st(5) by (metis div_less_iff_less_mult lessI less_trans zero_less_one)
  then show "x < r_start r + Suc ?q * r_stride r" using assms(1) by linarith
  have "x - r_start r < Suc (r_reps r) * r_stride r"
    using assms(1,2) st(1) by (simp add: mult.commute)
  then show "?q \<le> r_reps r"
    using st(5) by (metis div_less_iff_less_mult less_Suc_eq_le less_trans zero_less_one)
qed

lemma rep_block_before:
  assumes "region_ok r" "r_reps r \<noteq> 0" "i < j"
  shows "r_end r + i * r_stride r + 1 < r_start r + j * r_stride r"
proof -
  have "Suc i * r_stride r \<le> j * r_stride r" using assms(3) by (intro mult_le_mono1) simp
  with region_ok_stridedD(1) [OF assms(1,2)] show ?thesis by simp
qed

section \<open>Overlap\<close>

text \<open>
  \<open>operator&&\<close>.  On two blocks only the first test of the function is reached; that part
  is also what its own recursive calls on single repetitions compute.
\<close>

definition block_overlaps :: "data_region \<Rightarrow> data_region \<Rightarrow> bool" where
  "block_overlaps a b \<longleftrightarrow>
     \<not> (fst (region_range a) > snd (region_range b) \<or> fst (region_range b) > snd (region_range a))"

definition region_overlaps :: "data_region \<Rightarrow> data_region \<Rightarrow> bool option" where
  "region_overlaps a b =
     (if \<not> block_overlaps a b then Some False
      else if r_reps a = 0 \<or> r_reps b = 0 then Some True
      else do {
        fenix_assert (r_stride a = r_stride b);
        (let ostart = max (r_start a) (r_start b);
             arep = sz_sub ostart (r_start a) div r_stride a;
             brep = sz_sub ostart (r_start b) div r_stride a
         in do {
           ablock \<leftarrow> region_get_rep a arep;
           bblock \<leftarrow> region_get_rep b brep;
           if block_overlaps ablock bblock then Some True
           else do {
             a1 \<leftarrow> (if arep < r_reps a
                    then map_option (block_overlaps bblock) (region_get_rep a (sz_add arep 1))
                    else Some False);
             if a1 then Some True
             else if brep < r_reps b
                  then map_option (block_overlaps ablock) (region_get_rep b (sz_add brep 1))
                  else Some False
           }
         })
      })"

lemma block_overlaps_iff:
  assumes "region_ok a" "region_ok b" "r_reps a = 0" "r_reps b = 0"
  shows "block_overlaps a b \<longleftrightarrow> region_elems a \<inter> region_elems b \<noteq> {}"
  using region_ok_start_end [OF assms(1)] region_ok_start_end [OF assms(2)] assms
  by (auto simp: block_overlaps_def region_range_ok region_elems_block)

lemma block_overlaps_necessary:
  assumes "region_ok a" "region_ok b" "region_elems a \<inter> region_elems b \<noteq> {}"
  shows "block_overlaps a b"
proof -
  obtain x where "x \<in> region_elems a" "x \<in> region_elems b" using assms(3) by blast
  from region_elems_range [OF assms(1) this(1)] region_elems_range [OF assms(2) this(2)]
  show ?thesis using assms by (auto simp: block_overlaps_def region_range_ok)
qed

lemma block_overlaps_sym: "block_overlaps a b = block_overlaps b a"
  by (auto simp: block_overlaps_def)


text \<open>
  Two strided regions with the same stride repeat together: if they meet anywhere then the
  first repetition of the later one meets one of two neighbouring repetitions of the other.
\<close>

lemma reps_meet:
  assumes "region_ok a" "region_ok b" "r_reps a \<noteq> 0" "r_reps b \<noteq> 0" "r_stride a = r_stride b"
    and "r_start a \<le> r_start b" "x \<in> rep_block a i" "x \<in> rep_block b j"
  defines "q \<equiv> (r_start b - r_start a) div r_stride a"
  shows "j \<le> i" "i - j = q \<or> i - j = Suc q" "rep_block a (i - j) \<inter> rep_block b 0 \<noteq> {}"
proof -
  let ?s = "r_stride a"
  note sa = region_ok_stridedD [OF assms(1,3)] and sb = region_ok_stridedD [OF assms(2,4)]
  have q: "q * ?s \<le> r_start b - r_start a" "r_start b - r_start a < Suc q * ?s"
    unfolding q_def using sa(5)
    by (simp add: div_times_less_eq_dividend, metis div_less_iff_less_mult lessI less_trans zero_less_one)
  have "(q + j) * ?s \<le> x - r_start a" "x - r_start a < Suc i * ?s"
    using assms(5-8) q sa(1) sb(1) by (auto simp: algebra_simps)
  then have "(q + j) * ?s < Suc i * ?s" by linarith
  then have lo: "q + j \<le> i" by (metis less_Suc_eq_le mult_less_cancel2)
  have "i * ?s \<le> x - r_start a" "x - r_start a < (Suc (Suc q) + j) * ?s"
    using assms(5-8) q sa(1) sb(1) by (auto simp: algebra_simps)
  then have "i * ?s < (Suc (Suc q) + j) * ?s" by linarith
  then have hi: "i < Suc (Suc q) + j" by (metis mult_less_cancel2)
  show ij: "j \<le> i" using lo by simp
  show "i - j = q \<or> i - j = Suc q" using lo hi by linarith
  have "(i - j) * ?s + j * ?s = i * ?s" using ij by (simp flip: add_mult_distrib)
  then have "x - j * ?s \<in> rep_block a (i - j) \<inter> rep_block b 0"
    using assms(5,7,8) by auto
  then show "rep_block a (i - j) \<inter> rep_block b 0 \<noteq> {}" by blast
qed

lemma rep_block_elems: "k \<le> r_reps r \<Longrightarrow> rep_block r k \<subseteq> region_elems r"
  by (auto simp: region_elems_reps)

lemma block_overlaps_reps:
  assumes "region_ok a" "region_ok b" "i \<le> r_reps a" "j \<le> r_reps b"
  shows "block_overlaps (block (r_start a + i * r_stride a) (r_end a + i * r_stride a))
      (block (r_start b + j * r_stride b) (r_end b + j * r_stride b))
    \<longleftrightarrow> rep_block a i \<inter> rep_block b j \<noteq> {}"
  by (subst block_overlaps_iff) (simp_all add: region_rep_ok assms region_elems_block)

lemma region_overlaps_strided:
  assumes ok: "region_ok a" "region_ok b" and st: "r_reps a \<noteq> 0" "r_reps b \<noteq> 0"
    and eq: "r_stride a = r_stride b"
  shows "region_overlaps a b = Some (region_elems a \<inter> region_elems b \<noteq> {})"
proof (cases "block_overlaps a b")
  case False
  then show ?thesis
    using block_overlaps_necessary [OF ok] by (auto simp: region_overlaps_def)
next
  case True
  define o' where "o' = max (r_start a) (r_start b)"
  define i where "i = (o' - r_start a) div r_stride a"
  define j where "j = (o' - r_start b) div r_stride a"
  have "r_start a \<le> r_end b + r_stride b * r_reps b" "r_start b \<le> r_end a + r_stride a * r_reps a"
    using True ok by (auto simp: block_overlaps_def region_range_ok)
  moreover have "r_end r \<le> r_end r + r_stride r * r_reps r" for r by simp
  ultimately have o: "r_start a \<le> o'" "r_start b \<le> o'"
      "o' \<le> r_end a + r_stride a * r_reps a" "o' \<le> r_end b + r_stride b * r_reps b"
    using region_ok_start_end [OF ok(1)] region_ok_start_end [OF ok(2)]
    by (auto simp: o'_def max_def intro: order_trans)
  have i: "i \<le> r_reps a" unfolding i_def by (rule rep_at [OF o(1,3) ok(1) st(1)])
  have j: "j \<le> r_reps b" unfolding j_def eq by (rule rep_at [OF o(2,4) ok(2) st(2)])
  have bound: "o' \<le> SIZE_MAX" "r_reps a < SIZE_MAX" "r_reps b < SIZE_MAX"
    using o(3) region_ok_stridedD(2) [OF ok(1) st(1)] region_reps_lt_max ok by (auto simp: SIZE_IDX)
  define P where "P \<longleftrightarrow> rep_block a i \<inter> rep_block b j \<noteq> {}
      \<or> i < r_reps a \<and> rep_block a (Suc i) \<inter> rep_block b j \<noteq> {}
      \<or> j < r_reps b \<and> rep_block a i \<inter> rep_block b (Suc j) \<noteq> {}"
  have fold: "sz_sub o' (r_start a) div r_stride b = i" "sz_sub o' (r_start b) div r_stride b = j"
    unfolding i_def j_def using o bound eq by (simp_all add: sz)
  define A where "A k = block (r_start a + k * r_stride a) (r_end a + k * r_stride a)" for k
  define B where "B k = block (r_start b + k * r_stride b) (r_end b + k * r_stride b)" for k
  have get: "region_get_rep a k = Some (A k)" if "k \<le> r_reps a" for k
    using region_get_rep_eq [OF ok(1) that] by (simp add: A_def)
  have getB: "region_get_rep b k = Some (B k)" if "k \<le> r_reps b" for k
    using region_get_rep_eq [OF ok(2) that] by (simp add: B_def)
  define M where "M k l \<longleftrightarrow> rep_block a k \<inter> rep_block b l \<noteq> {}" for k l
  have AB: "block_overlaps (A k) (B l) \<longleftrightarrow> M k l" if "k \<le> r_reps a" "l \<le> r_reps b" for k l
    unfolding A_def B_def M_def by (rule block_overlaps_reps [OF ok that])
  have sym: "block_overlaps (B l) (A k) = block_overlaps (A k) (B l)" for k l
    by (rule block_overlaps_sym)
  have "region_overlaps a b =
      (if block_overlaps (A i) (B j) then Some True
       else if i < r_reps a \<and> block_overlaps (A (Suc i)) (B j) then Some True
       else if j < r_reps b then Some (block_overlaps (A i) (B (Suc j))) else Some False)"
    using True st eq i j bound
    by (simp add: region_overlaps_def Let_def fold get getB sz sym
        flip: o'_def)
  also have "\<dots> = Some P"
    using i j unfolding P_def M_def [symmetric] by (auto simp: AB Suc_le_eq)
  finally have "region_overlaps a b = Some P" .
  moreover have "P \<longleftrightarrow> region_elems a \<inter> region_elems b \<noteq> {}"
  proof
    have hit: "region_elems a \<inter> region_elems b \<noteq> {}"
      if "M k l" "k \<le> r_reps a" "l \<le> r_reps b" for k l
      using that(1) rep_block_elems [OF that(2)] rep_block_elems [OF that(3)] unfolding M_def by blast
    assume P
    then show "region_elems a \<inter> region_elems b \<noteq> {}"
      using i j hit unfolding P_def M_def [symmetric] by (metis Suc_leI)
  next
    assume "region_elems a \<inter> region_elems b \<noteq> {}"
    then obtain x where "x \<in> region_elems a" "x \<in> region_elems b" by blast
    then obtain k l where "k \<in> {0..r_reps a}" "l \<in> {0..r_reps b}"
      and xx: "x \<in> rep_block a k" "x \<in> rep_block b l"
      unfolding region_elems_reps by blast
    then have x: "k \<le> r_reps a" "x \<in> rep_block a k" "l \<le> r_reps b" "x \<in> rep_block b l"
      by simp_all
    show P
    proof (cases "r_start a \<le> r_start b")
      case True
      then have "o' = r_start b" by (simp add: o'_def)
      then have "j = 0" "i = (r_start b - r_start a) div r_stride a" by (simp_all add: i_def j_def)
      then show P
        using reps_meet [OF ok st eq True x(2,4)] x(1) unfolding P_def M_def [symmetric]
        by (metis Suc_le_eq diff_le_self order_trans)
    next
      case False
      then have le: "r_start b \<le> r_start a" by simp
      then have "o' = r_start a" by (simp add: o'_def)
      then have "i = 0" "j = (r_start a - r_start b) div r_stride b"
        by (simp_all add: i_def j_def eq)
      then show P
        using reps_meet [OF ok(2,1) st(2,1) eq [symmetric] le x(4,2)] x(3)
        unfolding P_def M_def [symmetric] inf_commute [of "rep_block b _"]
        by (metis Suc_le_eq diff_le_self order_trans)
    qed
  qed
  ultimately show ?thesis by simp
qed

end
