(* ===== verification/Region_And.thy ===== *)
theory Region_And
  imports Region_Ops
begin

text \<open>
  Intersection of regions, \<open>DataRegion::operator&\<close>.  At most one operand may be strided.
  The intersection of a strided region with a block is computed from both ends: the first
  and the last repetition that the block can cut are intersected one by one, the
  repetitions between them are kept as one strided region.
\<close>

definition block_and :: "data_region \<Rightarrow> data_region \<Rightarrow> data_region list option" where
  "block_and a b =
     (if \<not> block_overlaps a b then Some []
      else do {
        r \<leftarrow> mk_block (max (r_start a) (r_start b), min (r_end a) (r_end b));
        Some [r]
      })"

text \<open>
  The two halves of the strided case, each with the value of \<open>ret\<close>, the repetition index
  it settles on, and whether it returns from the function.
\<close>

definition and_first :: "data_region \<Rightarrow> data_region \<Rightarrow> (data_region list \<times> nat \<times> bool) option" where
  "and_first a b =
     (if r_start b > r_start a then
        (let n = sz_sub (r_start b) (r_start a) div r_stride a
         in do {
           blk \<leftarrow> region_get_rep a n;
           valid \<leftarrow> block_and blk b;
           if blk \<notin> set valid
           then Some (sset_merge [] valid, (if n = r_reps a then n else sz_add n 1), n = r_reps a)
           else Some ([], n, False)
         })
      else Some ([], 0, False))"

definition and_last ::
  "data_region \<Rightarrow> data_region \<Rightarrow> data_region list \<Rightarrow> nat \<Rightarrow> (data_region list \<times> nat \<times> bool) option"
where
  "and_last a b ret n1 =
     (if r_end b < snd (region_range a) then
        (let n2 = sz_sub (r_end b) (r_start a) div r_stride a
         in if n2 < n1 then Some (ret, n2, True)
            else do {
              blk \<leftarrow> region_get_rep a n2;
              valid \<leftarrow> block_and blk b;
              if blk \<notin> set valid
              then Some (sset_merge ret valid, (if n2 = n1 then n2 else sz_sub n2 1), n2 = n1)
              else Some (ret, n2, False)
            })
      else Some (ret, r_reps a, False))"

definition strided_and :: "data_region \<Rightarrow> data_region \<Rightarrow> data_region list option" where
  "strided_and a b = do {
     (ret, n1, stop1) \<leftarrow> and_first a b;
     if stop1 then Some ret
     else do {
       (ret, n2, stop2) \<leftarrow> and_last a b ret n1;
       if stop2 then Some ret
       else do {
         q \<leftarrow> region_get_reps a n1 n2;
         Some (sset_insert q ret)
       }
     }
   }"

definition region_and :: "data_region \<Rightarrow> data_region \<Rightarrow> data_region list option" where
  "region_and x y = do {
     fenix_assert (r_reps x = 0 \<or> r_reps y = 0);
     (let (a, b) = (if r_reps y \<noteq> 0 then (y, x) else (x, y))
      in do {
        ov \<leftarrow> region_overlaps a b;
        if \<not> ov then Some []
        else if r_reps a = 0 then do {
          r \<leftarrow> mk_block (max (r_start a) (r_start b), min (r_end a) (r_end b));
          Some [r]
        }
        else strided_and a b
      })
   }"

section \<open>Blocks\<close>

definition all_blocks :: "data_region list \<Rightarrow> bool" where
  "all_blocks R \<longleftrightarrow> (\<forall>r \<in> set R. r_reps r = 0)"

lemma region_elems_block_conv: "region_elems (block a b) = {a..b}"
  by (simp add: region_elems_block)

lemma block_meet:
  assumes "region_ok a" "region_ok b" "r_reps a = 0" "r_reps b = 0" "block_overlaps a b"
  defines "m \<equiv> block (max (r_start a) (r_start b)) (min (r_end a) (r_end b))"
  shows "mk_block (max (r_start a) (r_start b), min (r_end a) (r_end b)) = Some m"
    and "region_ok m" "region_elems m = region_elems a \<inter> region_elems b"
proof -
  note a = region_ok_start_end [OF assms(1)] region_ok_blockD [OF assms(1,3)]
  note b = region_ok_start_end [OF assms(2)] region_ok_blockD [OF assms(2,4)]
  have le: "max (r_start a) (r_start b) \<le> min (r_end a) (r_end b)"
    using assms(3-5) a(1) b(1) assms(1,2) by (auto simp: block_overlaps_def region_range_ok)
  moreover have "min (r_end a) (r_end b) \<le> SIZE_MAX" using a(5) by simp
  ultimately show "mk_block (max (r_start a) (r_start b), min (r_end a) (r_end b)) = Some m"
    unfolding m_def by (rule mk_block_eq)
  show "region_ok m" using le a b by (auto simp: m_def region_ok_def min_def max_def)
  show "region_elems m = region_elems a \<inter> region_elems b"
    using assms(3,4) by (auto simp: m_def region_elems_block)
qed

lemma block_and_correct:
  assumes "region_ok a" "region_ok b" "r_reps a = 0" "r_reps b = 0"
  obtains V where "block_and a b = Some V" "regions_ok s V" "all_blocks V"
    "regions_elems V = region_elems a \<inter> region_elems b"
    "a \<in> set V \<longleftrightarrow> region_elems a \<subseteq> region_elems b"
proof (cases "block_overlaps a b")
  case False
  then have "region_elems a \<inter> region_elems b = {}"
    using block_overlaps_necessary [OF assms(1,2)] by blast
  moreover have "\<not> region_elems a \<subseteq> region_elems b"
    using calculation region_elems_nonempty [OF assms(1)] by blast
  ultimately show ?thesis
    using False by (intro that [of "[]"]) (simp_all add: block_and_def all_blocks_def)
next
  case True
  let ?m = "block (max (r_start a) (r_start b)) (min (r_end a) (r_end b))"
  note m = block_meet [OF assms True]
  have "a = ?m \<longleftrightarrow> region_elems a \<subseteq> region_elems b"
  proof
    assume "region_elems a \<subseteq> region_elems b"
    then have "r_start b \<le> r_start a" "r_end a \<le> r_end b"
      using region_ok_start_end [OF assms(1)] assms(3,4) by (simp_all add: region_elems_block)
    then show "a = ?m"
      using region_ok_is_block [OF assms(1,3)] by (simp add: max_absorb1 min_absorb1)
  qed (metis m(3) inf.cobounded2)
  with True m show ?thesis
    by (intro that [of "[?m]"])
      (simp_all add: block_and_def regions_ok_single same_stride_def all_blocks_def)
qed


section \<open>A strided region and a block\<close>

text \<open>The indices of the repetitions in \<open>I\<close>.\<close>

definition reps_in :: "data_region \<Rightarrow> nat set \<Rightarrow> nat set" where
  "reps_in a I = (\<Union>k \<in> I. rep_block a k)"

lemma region_elems_reps_in: "region_elems a = reps_in a {0..r_reps a}"
  by (simp add: region_elems_reps reps_in_def)

lemma reps_in_Un: "reps_in a (I \<union> J) = reps_in a I \<union> reps_in a J"
  by (simp add: reps_in_def)

lemma reps_in_disjoint:
  assumes "region_ok a" "r_reps a \<noteq> 0" "I \<inter> J = {}"
  shows "reps_in a I \<inter> reps_in a J = {}"
proof -
  have "rep_block a i \<inter> rep_block a j = {}" if "i \<in> I" "j \<in> J" for i j
    using rep_block_disjoint [OF assms(1,2), of i j] that assms(3) by blast
  then show ?thesis unfolding reps_in_def by blast
qed

lemma rep_block_mono:
  assumes "i \<le> j"
  shows "r_start a + i * r_stride a \<le> r_start a + j * r_stride a"
    "r_end a + i * r_stride a \<le> r_end a + j * r_stride a"
  using assms by simp_all

lemma reps_in_below:
  assumes "region_ok a" "r_reps a \<noteq> 0" "r_start a + n * r_stride a \<le> r_start b" "r_reps b = 0"
  shows "reps_in a {..<n} \<inter> region_elems b = {}"
  using rep_block_before [OF assms(1,2)] assms(3,4)
  by (fastforce simp: reps_in_def region_elems_block)

lemma reps_in_above:
  assumes "r_end b < r_start a + Suc n * r_stride a" "r_reps b = 0"
  shows "reps_in a {Suc n..m} \<inter> region_elems b = {}"
proof -
  have "r_end b < r_start a + k * r_stride a" if "Suc n \<le> k" for k
    using rep_block_mono(1) [OF that, of a] assms(1) by linarith
  then show ?thesis using assms(2) by (fastforce simp: reps_in_def region_elems_block)
qed

lemma reps_in_inside:
  assumes "r_start b \<le> r_start a + n1 * r_stride a" "r_end a + n2 * r_stride a \<le> r_end b"
    and "r_reps b = 0"
  shows "reps_in a {n1..n2} \<subseteq> region_elems b"
proof
  fix x
  assume "x \<in> reps_in a {n1..n2}"
  then obtain k where k: "n1 \<le> k" "k \<le> n2" "x \<in> rep_block a k" by (auto simp: reps_in_def)
  then have "r_start a + k * r_stride a \<le> x" "x \<le> r_end a + k * r_stride a" by simp_all
  then have "r_start b \<le> x" "x \<le> r_end b"
    using assms(1,2) rep_block_mono(1) [OF k(1), of a] rep_block_mono(2) [OF k(2), of a]
    by linarith+
  then show "x \<in> region_elems b" using assms(3) by (simp add: region_elems_block)
qed

lemma and_first_correct:
  assumes a: "region_ok a" "r_reps a \<noteq> 0" and b: "region_ok b" "r_reps b = 0"
    and reach: "r_start b \<le> snd (region_range a)"
  obtains ret n stop where "and_first a b = Some (ret, n, stop)" "regions_ok s ret" "all_blocks ret"
    "n \<le> r_reps a" "stop \<longrightarrow> n = r_reps a"
    "regions_elems ret = reps_in a (if stop then {..n} else {..<n}) \<inter> region_elems b"
    "\<not> stop \<longrightarrow> r_start b \<le> r_start a + n * r_stride a"
proof (cases "r_start b > r_start a")
  case False
  then show ?thesis
    by (intro that [of "[]" 0 False]) (simp_all add: and_first_def all_blocks_def reps_in_def)
next
  case True
  define q where "q = (r_start b - r_start a) div r_stride a"
  have "r_start b \<le> r_end a + r_stride a * r_reps a"
    using reach by (simp add: region_range_ok a)
  note at = rep_at [OF less_imp_le [OF True] this a, folded q_def]
  let ?blk = "block (r_start a + q * r_stride a) (r_end a + q * r_stride a)"
  have "r_start b \<le> SIZE_MAX" using region_ok_blockD(2) [OF b] by (simp add: SIZE_IDX)
  then have call: "sz_sub (r_start b) (r_start a) div r_stride a = q"
    using True by (simp add: q_def sz)
  obtain V where V: "block_and ?blk b = Some V" "regions_ok s V" "all_blocks V"
      "regions_elems V = region_elems ?blk \<inter> region_elems b"
      "?blk \<in> set V \<longleftrightarrow> region_elems ?blk \<subseteq> region_elems b"
    by (rule block_and_correct [OF region_rep_ok [OF a(1) at(1)] b(1) _ b(2), where s = s]) simp_all
  have below: "reps_in a {..<q} \<inter> region_elems b = {}"
    by (rule reps_in_below [OF a at(2) b(2)])
  show ?thesis
  proof (cases "?blk \<in> set V")
    case inside: True
    then have "r_start b \<le> r_start a + q * r_stride a"
      using V(5) region_ok_start_end [OF a(1)] b(2)
      by (simp add: region_elems_block atLeastatMost_subset_iff)
    then show ?thesis using True inside V(1) at(1) below
      by (intro that [of "[]" q False])
        (simp_all add: and_first_def call region_get_rep_eq a all_blocks_def)
  next
    case cut: False
    have m: "sset_merge [] V = V"
      using V(2) by (intro sset_eq) (auto simp: sset_merge_ok sset_merge_set regions_ok_def)
    have elems: "regions_elems V = reps_in a {..q} \<inter> region_elems b"
    proof -
      have "{..q} = {..<q} \<union> {q}" by auto
      then have "reps_in a {..q} = reps_in a {..<q} \<union> region_elems ?blk"
        by (simp only: reps_in_Un) (simp add: reps_in_def region_elems_block)
      with below V(4) show ?thesis by blast
    qed
    have "q < SIZE_MAX" using at(1) region_reps_lt_max [OF a(1)] by simp
    then have "and_first a b = Some (V, if q = r_reps a then q else Suc q, q = r_reps a)"
      using True cut V(1) at(1) m
      by (simp add: and_first_def call region_get_rep_eq a sz)
    note call2 = this
    have near: "r_start b \<le> r_start a + Suc q * r_stride a" using at(3) by simp
    show ?thesis
    proof (cases "q = r_reps a")
      case True
      show ?thesis by (rule that [OF call2 V(2,3)]) (use True elems in simp_all)
    next
      case False
      show ?thesis
        by (rule that [OF call2 V(2,3)]) (use False elems near at(1) in \<open>simp_all add: lessThan_Suc_atMost\<close>)
    qed
  qed
qed


lemma and_last_correct:
  assumes a: "region_ok a" "r_reps a \<noteq> 0" and b: "region_ok b" "r_reps b = 0"
    and reach: "r_start a \<le> r_end b"
    and n1: "n1 \<le> r_reps a" and ret: "regions_ok s ret"
    and low: "regions_elems ret \<subseteq> reps_in a {..<n1}"
  obtains ret' n2 stop where "and_last a b ret n1 = Some (ret', n2, stop)" "regions_ok s ret'"
    "all_blocks ret \<longrightarrow> all_blocks ret'"
    "\<not> stop \<longrightarrow> n1 \<le> n2" "n2 \<le> r_reps a"
    "regions_elems ret' = regions_elems ret \<union>
       reps_in a (if stop then {n1..r_reps a} else {Suc n2..r_reps a}) \<inter> region_elems b"
    "\<not> stop \<longrightarrow> r_end a + n2 * r_stride a \<le> r_end b"
proof (cases "r_end b < snd (region_range a)")
  case False
  then have "r_end a + r_reps a * r_stride a \<le> r_end b"
    by (simp add: region_range_ok a mult.commute)
  then show ?thesis using False ret n1
    by (intro that [of ret "r_reps a" False]) (simp_all add: and_last_def reps_in_def)
next
  case True
  define q where "q = (r_end b - r_start a) div r_stride a"
  have "r_end b \<le> r_end a + r_stride a * r_reps a"
    using True by (simp add: region_range_ok a)
  note at = rep_at [OF reach this a, folded q_def]
  let ?blk = "block (r_start a + q * r_stride a) (r_end a + q * r_stride a)"
  have call: "sz_sub (r_end b) (r_start a) div r_stride a = q"
    using reach region_ok_end [OF b(1)] by (simp add: q_def sz)
  have above: "reps_in a {Suc q..r_reps a} \<inter> region_elems b = {}"
    using reps_in_above [OF at(3) b(2)] .
  show ?thesis
  proof (cases "q < n1")
    case early: True
    then have "{n1..r_reps a} \<subseteq> {Suc q..r_reps a}" by auto
    then have "reps_in a {n1..r_reps a} \<inter> region_elems b = {}"
      using above unfolding reps_in_def by blast
    then show ?thesis using True early ret at(1)
      by (intro that [of ret q True]) (simp_all add: and_last_def call)
  next
    case q: False
    obtain V where V: "block_and ?blk b = Some V" "regions_ok s V" "all_blocks V"
        "regions_elems V = region_elems ?blk \<inter> region_elems b"
        "?blk \<in> set V \<longleftrightarrow> region_elems ?blk \<subseteq> region_elems b"
      by (rule block_and_correct [OF region_rep_ok [OF a(1) at(1)] b(1) _ b(2), where s = s]) simp_all
    show ?thesis
    proof (cases "?blk \<in> set V")
      case inside: True
      then have "r_end a + q * r_stride a \<le> r_end b"
        using V(5) region_ok_start_end [OF a(1)] b(2)
        by (simp add: region_elems_block atLeastatMost_subset_iff)
      then show ?thesis using True q inside V(1) at(1) above ret
        by (intro that [of ret q False])
          (simp_all add: and_last_def call region_get_rep_eq a)
    next
      case cut: False
      let ?m = "if q = n1 then q else q - 1"
      have "n1 \<le> q" using q by simp
      have "q \<le> SIZE_MAX" using at(1) region_reps_lt_max [OF a(1)] by simp
      then have call2: "and_last a b ret n1 = Some (sset_merge ret V, ?m, q = n1)"
        using True q cut V(1) at(1)
        by (simp add: and_last_def call region_get_rep_eq a sz)
      have blk: "region_elems ?blk = reps_in a {q}"
        by (simp add: reps_in_def region_elems_block)
      have "{..<n1} \<inter> {q} = {}" using q by auto
      from reps_in_disjoint [OF a this]
      have "regions_elems ret \<inter> regions_elems V = {}" using low V(4) blk by blast
      then have ok: "regions_ok s (sset_merge ret V)" by (rule regions_ok_merge [OF ret V(2)])
      let ?I = "if q = n1 then {n1..r_reps a} else {Suc ?m..r_reps a}"
      have "?I = {q} \<union> {Suc q..r_reps a}" using at(1) \<open>n1 \<le> q\<close> by auto
      then have "reps_in a ?I \<inter> region_elems b = region_elems ?blk \<inter> region_elems b"
        using above blk by (simp only: reps_in_Un) blast
      then have elems: "regions_elems (sset_merge ret V)
          = regions_elems ret \<union> reps_in a ?I \<inter> region_elems b"
        using V(4) by (simp add: regions_elems_merge)
      have before: "r_end a + ?m * r_stride a \<le> r_end b" if "q \<noteq> n1"
      proof -
        have "?m < q" using that \<open>n1 \<le> q\<close> by simp
        from rep_block_before [OF a this] have "r_end a + ?m * r_stride a + 1 < r_start a + q * r_stride a" .
        with at(2) show ?thesis by linarith
      qed
      show ?thesis
        by (rule that [OF call2 ok]) (use V(3) elems before \<open>n1 \<le> q\<close> at(1) in
            \<open>auto simp: all_blocks_def sset_merge_set split: if_splits\<close>)
    qed
  qed
qed

lemma get_reps_list:
  assumes "region_ok r" "same_stride s r" "m \<le> n" "n \<le> r_reps r"
  obtains q where "region_get_reps r m n = Some q" "regions_ok s [q]"
    "region_elems q = reps_in r {m..n}" "r_reps q \<le> n - m"
proof (rule region_get_reps_correct [OF assms(1,3,4)])
  fix q
  assume q: "region_get_reps r m n = Some q" "region_ok q"
    "region_elems q = (\<Union>k \<in> {m..n}. rep_block r k)"
    "r_reps q = 0 \<or> r_stride q = r_stride r" "r_reps q \<le> n - m"
  have "same_stride s q"
    using q(4,5) assms(2,4) by (cases "r_reps r = 0") (auto simp: same_stride_def)
  then have "regions_ok s [q]" using q(2) by (simp add: regions_ok_single)
  then show thesis using q(1,3,5) by (intro that [of q]) (simp_all add: reps_in_def)
qed

lemma strided_and_correct:
  assumes a: "region_ok a" "r_reps a \<noteq> 0" and b: "region_ok b" "r_reps b = 0"
    and reach: "r_start b \<le> snd (region_range a)" "r_start a \<le> r_end b"
  obtains R where "strided_and a b = Some R" "regions_ok (r_stride a) R"
    "regions_elems R = region_elems a \<inter> region_elems b"
    "\<exists>q. \<forall>r \<in> set R. r_reps r \<noteq> 0 \<longrightarrow> r = q"
proof -
  obtain ret n1 stop where f: "and_first a b = Some (ret, n1, stop)" "regions_ok (r_stride a) ret"
      "all_blocks ret" "n1 \<le> r_reps a" "stop \<longrightarrow> n1 = r_reps a"
      "regions_elems ret = reps_in a (if stop then {..n1} else {..<n1}) \<inter> region_elems b"
      "\<not> stop \<longrightarrow> r_start b \<le> r_start a + n1 * r_stride a"
    by (rule and_first_correct [OF a b reach(1), where s = "r_stride a"])
  have all: "region_elems a = reps_in a {..<n1} \<union> reps_in a {n1..r_reps a}"
  proof -
    have "{0..r_reps a} = {..<n1} \<union> {n1..r_reps a}" using f(4) by auto
    then show ?thesis by (simp only: region_elems_reps_in reps_in_Un)
  qed
  show ?thesis
  proof (cases stop)
    case True
    have "{..r_reps a} = {0..r_reps a}" by auto
    then have "regions_elems ret = region_elems a \<inter> region_elems b"
      using True f(5,6) by (simp add: region_elems_reps_in)
    with True f show ?thesis
      by (intro that [of ret]) (auto simp: strided_and_def all_blocks_def)
  next
    case go: False
    then have low: "regions_elems ret \<subseteq> reps_in a {..<n1}" using f(6) by simp
    obtain ret' n2 stop2 where l: "and_last a b ret n1 = Some (ret', n2, stop2)"
        "regions_ok (r_stride a) ret'" "all_blocks ret \<longrightarrow> all_blocks ret'"
        "\<not> stop2 \<longrightarrow> n1 \<le> n2" "n2 \<le> r_reps a"
        "regions_elems ret' = regions_elems ret \<union>
           reps_in a (if stop2 then {n1..r_reps a} else {Suc n2..r_reps a}) \<inter> region_elems b"
        "\<not> stop2 \<longrightarrow> r_end a + n2 * r_stride a \<le> r_end b"
      by (rule and_last_correct [OF a b reach(2) f(4) f(2) low])
    show ?thesis
    proof (cases stop2)
      case True
      with go f l show ?thesis
        by (intro that [of ret']) (auto simp: strided_and_def all all_blocks_def Int_Un_distrib2)
    next
      case False
      note n12 = l(4) [rule_format, OF False]
      have "same_stride (r_stride a) a" by (simp add: same_stride_def)
      then obtain q where q1: "region_get_reps a n1 n2 = Some q" "regions_ok (r_stride a) [q]"
            "region_elems q = reps_in a {n1..n2}" "r_reps q \<le> n2 - n1"
        by (rule get_reps_list [OF a(1) _ n12 l(5)])
      then have q: "region_get_reps a n1 n2 = Some q" "region_ok q"
            "region_elems q = reps_in a {n1..n2}" "r_reps q = 0 \<or> r_stride q = r_stride a"
        by (simp_all add: regions_ok_single same_stride_def)
      have inside: "reps_in a {n1..n2} \<subseteq> region_elems b"
        by (rule reps_in_inside [OF _ _ b(2)]) (use f(7) go l(7) False in simp_all)
      have "{n1..r_reps a} = {n1..n2} \<union> {Suc n2..r_reps a}" using n12 l(5) by auto
      then have elems: "region_elems q \<union> regions_elems ret' = region_elems a \<inter> region_elems b"
        using f(6) l(6) go False inside q(3) by (simp only: all reps_in_Un) auto
      have "reps_in a {n1..n2} \<inter> reps_in a ({..<n1} \<union> {Suc n2..r_reps a}) = {}"
        by (rule reps_in_disjoint [OF a]) auto
      then have "region_elems q \<inter> regions_elems ret' = {}"
        using q(3) low l(6) False by (simp only: reps_in_Un) auto
      then have "regions_ok (r_stride a) (sset_insert q ret')"
        using l(2) q by (intro regions_ok_insert) (auto simp: same_stride_def)
      moreover have "\<forall>r \<in> set (sset_insert q ret'). r_reps r \<noteq> 0 \<longrightarrow> r = q"
        using l(3) [rule_format, OF f(3)] by (auto simp: sset_insert_set all_blocks_def)
      ultimately show ?thesis using go False f(1) l(1) q(1) elems
        by (intro that [of "sset_insert q ret'"]) (auto simp: strided_and_def regions_elems_insert)
    qed
  qed
qed


lemma block_meet_strided:
  assumes a: "region_ok a" "r_reps a \<noteq> 0" and b: "region_ok b" "r_reps b = 0"
  obtains R where "region_and a b = Some R" "regions_ok (r_stride a) R"
    "regions_elems R = region_elems a \<inter> region_elems b"
    "\<exists>q. \<forall>r \<in> set R. r_reps r \<noteq> 0 \<longrightarrow> r = q"
proof (cases "block_overlaps a b")
  case False
  then have "region_elems a \<inter> region_elems b = {}"
    using block_overlaps_necessary [OF a(1) b(1)] by blast
  with False b(2) show ?thesis
    by (intro that [of "[]"]) (simp_all add: region_and_def region_overlaps_def)
next
  case True
  then have reach: "r_start b \<le> snd (region_range a)" "r_start a \<le> r_end b"
    using b by (simp_all add: block_overlaps_def region_range_ok a)
  obtain R where "strided_and a b = Some R" "regions_ok (r_stride a) R"
    "regions_elems R = region_elems a \<inter> region_elems b"
    "\<exists>q. \<forall>r \<in> set R. r_reps r \<noteq> 0 \<longrightarrow> r = q"
    by (rule strided_and_correct [OF a b reach])
  with True a(2) b(2) show ?thesis
    by (intro that [of R]) (simp_all add: region_and_def region_overlaps_def)
qed

text \<open>
  \<open>operator&\<close> is the intersection.  At most one region of the result is strided; the
  stride is that of the strided operand.
\<close>

lemma region_and_correct:
  assumes "region_ok a" "region_ok b" "r_reps a = 0 \<or> r_reps b = 0"
    "same_stride s a" "same_stride s b"
  obtains R where "region_and a b = Some R" "regions_ok s R"
    "regions_elems R = region_elems a \<inter> region_elems b"
    "\<exists>q. \<forall>r \<in> set R. r_reps r \<noteq> 0 \<longrightarrow> r = q"
    "r_reps a = 0 \<longrightarrow> r_reps b = 0 \<longrightarrow> all_blocks R"
proof -
  consider (blocks) "r_reps a = 0" "r_reps b = 0"
    | (left) "r_reps a \<noteq> 0" "r_reps b = 0" | (right) "r_reps a = 0" "r_reps b \<noteq> 0"
    using assms(3) by fastforce
  then show ?thesis
  proof cases
    case blocks
    obtain V where V: "block_and a b = Some V" "regions_ok s V" "all_blocks V"
        "regions_elems V = region_elems a \<inter> region_elems b"
        "a \<in> set V \<longleftrightarrow> region_elems a \<subseteq> region_elems b"
      by (rule block_and_correct [OF assms(1,2) blocks, where s = s])
    have "region_and a b = Some V"
      using blocks V(1) by (simp add: region_and_def region_overlaps_def block_and_def split: if_splits)
    then show ?thesis using V(2-4) by (intro that [of V]) (auto simp: all_blocks_def)
  next
    case left
    then have s: "s = r_stride a" using assms(4) by (simp add: same_stride_def)
    obtain R where R: "region_and a b = Some R" "regions_ok (r_stride a) R"
      "regions_elems R = region_elems a \<inter> region_elems b"
      "\<exists>q. \<forall>r \<in> set R. r_reps r \<noteq> 0 \<longrightarrow> r = q"
      by (rule block_meet_strided [OF assms(1) left(1) assms(2) left(2)])
    show ?thesis by (rule that [OF R(1) _ R(3,4)]) (use R(2) s left in simp_all)
  next
    case right
    then have s: "s = r_stride b" using assms(5) by (simp add: same_stride_def)
    have swap: "region_and a b = region_and b a"
      using right by (simp add: region_and_def)
    obtain R where R: "region_and b a = Some R" "regions_ok (r_stride b) R"
      "regions_elems R = region_elems b \<inter> region_elems a"
      "\<exists>q. \<forall>r \<in> set R. r_reps r \<noteq> 0 \<longrightarrow> r = q"
      by (rule block_meet_strided [OF assms(2) right(2) assms(1) right(1)])
    show ?thesis
      by (rule that [OF _ _ _ R(4)]) (use R(1-3) s swap right in \<open>simp_all add: Int_commute\<close>)
  qed
qed

end
