(* ===== verification/Region_Merge.thy ===== *)
theory Region_Merge
  imports Region_And
begin

text \<open>
  The gaps of a strided region (\<open>inverted\<close>) and the simplifications of a set of regions:
  \<open>try_merge\<close> of two regions into one, \<open>merge_adjacent_sets\<close> of two sets of which the
  first lies before the second.
\<close>

section \<open>\<open>inverted\<close>\<close>

text \<open>Positions of a strided region are periodic between its first and its last index.\<close>

definition in_gap :: "data_region \<Rightarrow> nat \<Rightarrow> bool" where
  "in_gap r x \<longleftrightarrow> (x - r_start r) mod r_stride r > r_end r - r_start r"

lemma in_gap_shift:
  assumes "r_start r \<le> x"
  shows "in_gap r (x + k * r_stride r) = in_gap r x"
proof -
  have "x + k * r_stride r - r_start r = (x - r_start r) + k * r_stride r" using assms by simp
  then show ?thesis unfolding in_gap_def by (simp only: mod_mult_self1)
qed

lemma strided_elems_iff:
  assumes "region_ok r" "r_reps r \<noteq> 0" "r_start r \<le> x" "x \<le> snd (region_range r)"
  shows "x \<in> region_elems r \<longleftrightarrow> \<not> in_gap r x"
proof -
  let ?s = "r_stride r"
  note st = region_ok_stridedD [OF assms(1,2)] and le = region_ok_start_end [OF assms(1)]
  have top: "x \<le> r_end r + ?s * r_reps r" using assms(4) by (simp add: region_range_ok assms(1))
  have dm: "x = r_start r + (x - r_start r) div ?s * ?s + (x - r_start r) mod ?s"
    using assms(3) by simp
  show ?thesis
  proof
    assume "x \<in> region_elems r"
    then obtain k where k: "x \<in> rep_block r k" by (auto simp: region_elems_reps)
    then have "(x - r_start r) mod ?s = x - r_start r - k * ?s"
      using rep_block_index [OF assms(1,2) k] by (simp add: minus_div_mult_eq_mod [symmetric])
    moreover have "x - r_start r - k * ?s \<le> r_end r - r_start r" using k by simp linarith
    ultimately show "\<not> in_gap r x" by (simp add: in_gap_def)
  next
    assume "\<not> in_gap r x"
    then have "x \<in> rep_block r ((x - r_start r) div ?s)"
      using dm le unfolding in_gap_def atLeastAtMost_iff by linarith
    then show "x \<in> region_elems r"
      using rep_at(1) [OF assms(3) top assms(1,2)] rep_block_elems by blast
  qed
qed

lemma gap_elems_iff:
  assumes "region_ok r" "r_reps r \<noteq> 0"
  shows "x \<in> rep_elems (r_end r + 1) (r_start r + r_stride r - 1) (r_reps r - 1) (r_stride r)
    \<longleftrightarrow> r_start r \<le> x \<and> x \<le> snd (region_range r) \<and> in_gap r x"
proof -
  let ?s = "r_stride r"
  note st = region_ok_stridedD [OF assms] and le = region_ok_start_end [OF assms(1)]
  have rng: "snd (region_range r) = r_end r + ?s * r_reps r" by (simp add: region_range_ok assms(1))
  have dm: "x = r_start r + (x - r_start r) div ?s * ?s + (x - r_start r) mod ?s" if "r_start r \<le> x"
    using that by simp
  show ?thesis
  proof
    assume "x \<in> rep_elems (r_end r + 1) (r_start r + ?s - 1) (r_reps r - 1) ?s"
    then obtain k where k: "k < r_reps r" "r_end r + 1 + k * ?s \<le> x" "x \<le> r_start r + ?s - 1 + k * ?s"
      unfolding rep_elems_def using assms(2) by (metis (no_types, lifting) UN_iff atLeastAtMost_iff
        One_nat_def Suc_pred less_Suc_eq_le neq0_conv)
    then have "Suc k * ?s \<le> r_reps r * ?s" by (intro mult_le_mono1) simp
    then have bounds: "r_start r \<le> x" "x \<le> r_end r + ?s * r_reps r"
      using k le st(1) by (simp_all add: mult.commute)
    have "k * ?s \<le> x - r_start r" "x - r_start r < Suc k * ?s" using k le st(1) by auto
    then have "(x - r_start r) div ?s = k" by (metis div_nat_eqI mult.commute)
    then have "(x - r_start r) mod ?s = x - r_start r - k * ?s"
      by (simp add: minus_div_mult_eq_mod [symmetric])
    then show "r_start r \<le> x \<and> x \<le> snd (region_range r) \<and> in_gap r x"
      using bounds k le by (simp add: rng in_gap_def)
  next
    assume R: "r_start r \<le> x \<and> x \<le> snd (region_range r) \<and> in_gap r x"
    let ?q = "(x - r_start r) div ?s"
    note at = rep_at [of r x, OF _ _ assms]
    have "?q \<le> r_reps r" using R at(1) by (simp add: rng)
    moreover have "?q \<noteq> r_reps r"
    proof
      assume q: "?q = r_reps r"
      from dm R have x: "x = r_start r + r_reps r * ?s + (x - r_start r) mod ?s" unfolding q by simp
      have "(x - r_start r) mod ?s > r_end r - r_start r" using R by (simp add: in_gap_def)
      then have "r_end r + r_reps r * ?s < x" using x le by linarith
      with R show False by (simp add: rng mult.commute)
    qed
    ultimately have q: "?q \<le> r_reps r - 1" by simp
    have m: "r_end r - r_start r < (x - r_start r) mod ?s" "(x - r_start r) mod ?s < ?s"
      using R st(5) by (simp_all add: in_gap_def)
    have "x = r_start r + ?q * ?s + (x - r_start r) mod ?s" using dm R by blast
    then have "r_end r + 1 + ?q * ?s \<le> x" "x \<le> r_start r + ?s - 1 + ?q * ?s"
      using m le by linarith+
    with q show "x \<in> rep_elems (r_end r + 1) (r_start r + ?s - 1) (r_reps r - 1) ?s"
      unfolding rep_elems_def by auto
  qed
qed

text \<open>\<open>inverted\<close> is the complement of a strided region inside its own range.\<close>

lemma region_inverted_correct:
  assumes "region_ok r" "r_reps r \<noteq> 0"
  obtains q where "region_inverted r = Some q" "region_ok q" "same_stride (r_stride r) q"
    "region_elems q = {r_start r .. snd (region_range r)} - region_elems r"
    "\<And>x. x \<in> region_elems q \<longleftrightarrow> r_start r \<le> x \<and> x \<le> snd (region_range r) \<and> in_gap r x"
proof -
  let ?s = "r_stride r"
  note st = region_ok_stridedD [OF assms] and le = region_ok_start_end [OF assms(1)]
  have call: "region_inverted r = mk_region (r_end r + 1, r_start r + ?s - 1) (r_reps r - 1) ?s"
    using st le assms(2) region_reps_lt_max [OF assms(1)]
    by (simp add: region_inverted_def sz SIZE_IDX)
  have "r_start r + ?s - 1 + ?s * (r_reps r - 1) = r_start r + ?s * r_reps r - 1"
    using assms(2) st(5) by (cases "r_reps r") auto
  then have sum: "r_start r + ?s - 1 + ?s * (r_reps r - 1) \<le> IDX_MAX" using st(2) le by linarith
  have "r_end r + 1 \<le> r_start r + ?s - 1" "r_start r + ?s - 1 + 1 \<le> r_end r + 1 + ?s" "?s \<le> IDX_MAX"
    using st le by linarith+
  from mk_region_correct [OF this(1,2) sum this(3)] obtain q where
    q: "mk_region (r_end r + 1, r_start r + ?s - 1) (r_reps r - 1) ?s = Some q" "region_ok q"
      "region_elems q = rep_elems (r_end r + 1) (r_start r + ?s - 1) (r_reps r - 1) ?s"
      "r_reps q = 0 \<or> r_reps q = r_reps r - 1 \<and> r_stride q = ?s"
    by metis
  have iff: "x \<in> region_elems q \<longleftrightarrow> r_start r \<le> x \<and> x \<le> snd (region_range r) \<and> in_gap r x" for x
    using gap_elems_iff [OF assms] q(3) by simp
  have "region_elems q = {r_start r .. snd (region_range r)} - region_elems r"
    using strided_elems_iff [OF assms] iff by auto
  with call q iff show ?thesis by (intro that [of q]) (auto simp: same_stride_def)
qed

section \<open>\<open>try_merge\<close>\<close>

definition region_try_merge :: "data_region \<Rightarrow> data_region \<Rightarrow> data_region option option" where
  "region_try_merge x y =
     (let (a, b) = (if y < x then (y, x) else (x, y))
      in if snd (region_range a) = SIZE_MAX then Some None
         else if r_reps a = 0 \<and> r_reps b = 0 then
           (if sz_add (r_end a) 1 = r_start b
            then map_option Some (mk_block (r_start a, r_end b)) else Some None)
         else
           (let s = (if r_reps a \<noteq> 0 then r_stride a else r_stride b)
            in if sz_add (r_start a) (sz_mul s (sz_add (r_reps a) 1)) = r_start b
                 \<and> sz_add (r_end a) (sz_mul s (sz_add (r_reps a) 1)) = r_end b
               then map_option Some
                 (mk_region (r_start a, r_end a) (sz_add (sz_add (r_reps a) (r_reps b)) 1) s)
               else Some None))"

lemma rep_elems_append:
  "rep_elems a b n s \<union> rep_elems (a + s * (n + 1)) (b + s * (n + 1)) m s = rep_elems a b (n + m + 1) s"
proof -
  have img: "{n + 1..n + m + 1} = (\<lambda>k. (n + 1) + k) ` {0..m}"
    by (simp only: image_add_atLeastAtMost) simp
  have "rep_elems (a + s * (n + 1)) (b + s * (n + 1)) m s
      = (\<Union>k \<in> {n + 1..n + m + 1}. {a + k * s .. b + k * s})"
    unfolding img rep_elems_def
    by (simp add: algebra_simps del: image_add_atLeastAtMost image_add_atLeastAtMost')
  moreover have "{0..n + m + 1} = {0..n} \<union> {n + 1..n + m + 1}" by auto
  ultimately show ?thesis by (simp only: rep_elems_def UN_Un)
qed

text \<open>The parameters that the strided case of \<open>try_merge\<close> computes with do not wrap.\<close>

lemma try_merge_fits:
  assumes "region_ok a" "region_ok b" "r_reps a \<noteq> 0 \<or> r_reps b \<noteq> 0" "same_stride s a" "same_stride s b"
    "snd (region_range a) \<noteq> SIZE_MAX"
  shows "s \<le> IDX_MAX" "1 < s" "r_end a + s * r_reps a \<le> IDX_MAX" "r_reps a \<le> IDX_MAX"
    "r_start a + s * (r_reps a + 1) < SIZE_MAX" "r_end a + s * (r_reps a + 1) < SIZE_MAX"
proof -
  show s: "s \<le> IDX_MAX" and one: "1 < s"
    using assms(3-5) region_ok_stridedD [OF assms(1)] region_ok_stridedD [OF assms(2)]
    by (auto simp: same_stride_def)
  have "r_end a \<le> IDX_MAX" if "r_reps a = 0"
    using assms(1,6) that by (auto simp: region_ok_def region_range_ok)
  then show top: "r_end a + s * r_reps a \<le> IDX_MAX"
    using region_ok_stridedD(2) [OF assms(1)] assms(4) by (cases "r_reps a = 0") (auto simp: same_stride_def)
  have "r_reps a \<le> s * r_reps a" using one by simp
  then show "r_reps a \<le> IDX_MAX" using top by linarith
  have "r_end a + s * (r_reps a + 1) \<le> 2 * IDX_MAX" using top s by simp
  then show "r_end a + s * (r_reps a + 1) < SIZE_MAX" by (simp add: SIZE_IDX)
  then show "r_start a + s * (r_reps a + 1) < SIZE_MAX"
    using region_ok_start_end [OF assms(1)] by linarith
qed

text \<open>
  \<open>try_merge\<close> never fails; when it merges, the result is one region for both operands.
\<close>

lemma try_merge_sorted:
  assumes ok: "region_ok a" "region_ok b" "same_stride s a" "same_stride s b" and "\<not> b < a"
  shows "region_try_merge a b = Some None \<or>
    (\<exists>m. region_try_merge a b = Some (Some m) \<and> region_ok m \<and> same_stride s m
      \<and> region_elems m = region_elems a \<union> region_elems b)"
proof (cases "snd (region_range a) = SIZE_MAX")
  case True
  then show ?thesis using assms(5) by (simp add: region_try_merge_def)
next
  case fin: False
  show ?thesis
  proof (cases "r_reps a = 0 \<and> r_reps b = 0")
    case True
    have ea: "r_end a \<le> IDX_MAX" using fin True ok(1) by (auto simp: region_ok_def region_range_ok)
    then have add: "sz_add (r_end a) 1 = r_end a + 1" by (simp add: sz SIZE_IDX)
    show ?thesis
    proof (cases "r_end a + 1 = r_start b")
      case False
      then show ?thesis using fin True assms(5) add by (simp add: region_try_merge_def)
    next
      case eq: True
      have le: "r_start a \<le> r_end b" "r_end b \<le> SIZE_MAX"
        using eq region_ok_start_end [OF ok(1)] region_ok_start_end [OF ok(2)] region_ok_end [OF ok(2)]
        by simp_all
      let ?m = "block (r_start a) (r_end b)"
      have "region_try_merge a b = Some (Some ?m)"
        using fin True assms(5) add eq le by (simp add: region_try_merge_def mk_block_eq)
      moreover have "region_ok ?m"
        using ok True le ea region_ok_start_end [OF ok(1)] by (auto simp: region_ok_def)
      moreover have "region_elems ?m = region_elems a \<union> region_elems b"
        using True eq region_ok_start_end [OF ok(1)] region_ok_start_end [OF ok(2)]
        by (auto simp: region_elems_block)
      ultimately show ?thesis by (auto simp: same_stride_def)
    qed
  next
    case False
    then have st: "r_reps a \<noteq> 0 \<or> r_reps b \<noteq> 0" by simp
    note fits = try_merge_fits [OF ok(1,2) st ok(3,4) fin]
    have s: "(if r_reps a \<noteq> 0 then r_stride a else r_stride b) = s"
      using st ok(3,4) by (auto simp: same_stride_def)
    have mul: "s * (r_reps a + 1) \<le> SIZE_MAX" "r_reps a + 1 \<le> SIZE_MAX"
      using fits(5,4) IDX_MAX_lt(1) by linarith+
    have adds: "sz_add (r_start a) (sz_mul s (sz_add (r_reps a) 1)) = r_start a + s * (r_reps a + 1)"
      "sz_add (r_end a) (sz_mul s (sz_add (r_reps a) 1)) = r_end a + s * (r_reps a + 1)"
      using fits mul by (simp_all add: sz)
    have call: "region_try_merge a b =
        (if r_start a + s * (r_reps a + 1) = r_start b \<and> r_end a + s * (r_reps a + 1) = r_end b
         then map_option Some
           (mk_region (r_start a, r_end a) (sz_add (sz_add (r_reps a) (r_reps b)) 1) s)
         else Some None)"
      unfolding region_try_merge_def if_not_P [OF assms(5)] Let_def prod.case
        if_not_P [OF fin] if_not_P [OF False] s adds ..
    show ?thesis
    proof (cases "r_start a + s * (r_reps a + 1) = r_start b \<and> r_end a + s * (r_reps a + 1) = r_end b")
      case False
      then have "region_try_merge a b = Some None" by (simp only: call) simp
      then show ?thesis ..
    next
      case eq: True
      have eb: "r_end b + s * r_reps b \<le> IDX_MAX"
      proof (cases "r_reps b = 0")
        case True
        then show ?thesis using ok(2) eq fits(6) by (auto simp: region_ok_def)
      next
        case False
        then show ?thesis using region_ok_stridedD(2) [OF ok(2)] ok(4) by (simp add: same_stride_def)
      qed
      have n: "r_reps a + r_reps b + 1 \<le> SIZE_MAX"
        using fits(4) region_ok_stridedD(4) [OF ok(2)] by (cases "r_reps b = 0") (auto simp: SIZE_IDX)
      have add_n: "sz_add (sz_add (r_reps a) (r_reps b)) 1 = r_reps a + r_reps b + 1"
        using n by (simp add: sz)
      have gap: "r_end a + 1 \<le> r_start a + s"
        using st region_ok_stridedD(1) [OF ok(1)] region_ok_stridedD(1) [OF ok(2)] ok(3,4) eq
        by (auto simp: same_stride_def)
      have sum: "r_end a + s * (r_reps a + r_reps b + 1) \<le> IDX_MAX"
        using eb eq by (simp add: algebra_simps)
      obtain m where m: "mk_region (r_start a, r_end a) (r_reps a + r_reps b + 1) s = Some m"
          "region_ok m" "region_elems m = rep_elems (r_start a) (r_end a) (r_reps a + r_reps b + 1) s"
          "r_reps m = 0 \<or> r_stride m = s"
        using mk_region_correct [OF region_ok_start_end [OF ok(1)] gap sum fits(1)] by metis
      have "region_try_merge a b = Some (Some m)"
        using eq m(1) by (simp only: call add_n) simp
      moreover have "region_elems m = region_elems a \<union> region_elems b"
      proof -
        have "region_elems a = rep_elems (r_start a) (r_end a) (r_reps a) s"
          "region_elems b = rep_elems (r_start a + s * (r_reps a + 1)) (r_end a + s * (r_reps a + 1)) (r_reps b) s"
          using ok(3,4) eq by (auto simp: region_elems_rep same_stride_def)
        then show ?thesis using m(3) by (simp only: rep_elems_append)
      qed
      ultimately show ?thesis using m by (auto simp: same_stride_def)
    qed
  qed
qed

lemma region_try_merge_swap: "b < a \<Longrightarrow> region_try_merge a b = region_try_merge b a"
  by (auto simp: region_try_merge_def dest: less_asym)

lemma region_try_merge_correct:
  assumes "region_ok a" "region_ok b" "same_stride s a" "same_stride s b"
  obtains "region_try_merge a b = Some None"
  | m where "region_try_merge a b = Some (Some m)" "region_ok m" "same_stride s m"
      "region_elems m = region_elems a \<union> region_elems b"
proof (cases "b < a")
  case True
  then show ?thesis
    using try_merge_sorted [OF assms(2,1,4,3)] that
    by (metis Un_commute less_asym region_try_merge_swap)
next
  case False
  then show ?thesis using try_merge_sorted [OF assms] that by blast
qed

end
