(* ===== verification/Region_Sub.thy ===== *)
theory Region_Sub
  imports Region_Merge
begin

text \<open>
  \<open>merge_adjacent_sets\<close> and the difference of regions, \<open>DataRegion::operator-\<close>.  The
  difference is built in three parts, the indices before, inside and after the range of
  the subtracted region, which \<open>merge_adjacent_sets\<close> then joins.
\<close>

section \<open>\<open>merge_adjacent_sets\<close>\<close>

text \<open>The first loop moves \<open>b\<close> into \<open>a\<close>, merging while the ends touch.\<close>

fun merge_front :: "data_region list \<Rightarrow> data_region list \<Rightarrow> data_region list option" where
  "merge_front a [] = Some a"
| "merge_front a (y # b) = do {
     merged \<leftarrow> region_try_merge (last a) y;
     (case merged of
        None \<Rightarrow> Some (sset_merge a (y # b))
      | Some m \<Rightarrow> merge_front (sset_insert m (butlast a)) b)
   }"

text \<open>The second loop merges the last two elements as long as that is possible.\<close>

function merge_back :: "data_region list \<Rightarrow> data_region list option" where
  "merge_back a =
     (if length a > 1 then do {
        merged \<leftarrow> region_try_merge (last (butlast a)) (last a);
        (case merged of
           None \<Rightarrow> Some a
         | Some m \<Rightarrow> merge_back (sset_insert m (butlast (butlast a))))
      } else Some a)"
  by auto
termination
proof (relation "measure length", simp)
  fix a :: "data_region list" and m and mm :: data_region
  assume "1 < length a"
  then show "(sset_insert mm (butlast (butlast a)), a) \<in> measure length"
    using sset_length_insert_le [of mm "butlast (butlast a)"] by simp
qed

definition merge_adjacent_sets ::
  "data_region list \<Rightarrow> data_region list \<Rightarrow> data_region list option" where
  "merge_adjacent_sets a b = do {
     a \<leftarrow> (if a = [] then merge_front b [] else merge_front a b);
     merge_back a
   }"

lemma regions_okD:
  assumes "regions_ok s a" "r \<in> set a"
  shows "region_ok r" "same_stride s r"
  using assms unfolding regions_ok_def by simp_all

lemma regions_ok_subset:
  assumes "regions_ok s a" "sset_ok b" "set b \<subseteq> set a"
  shows "regions_ok s b"
proof -
  have "x \<in> set a" if "x \<in> set b" for x using assms(3) that ..
  then show ?thesis using assms(1,2) unfolding regions_ok_def regions_disjoint_def by simp
qed

lemma regions_ok_apart:
  assumes "regions_ok s a" "set b \<subseteq> set a" "r \<in> set a" "r \<notin> set b"
  shows "region_elems r \<inter> regions_elems b = {}"
proof -
  have "region_elems r \<inter> region_elems x = {}" if x: "x \<in> set b" for x
  proof -
    have "x \<in> set a" "r \<noteq> x" using assms(2,4) x by auto
    then show ?thesis using assms(1,3) unfolding regions_ok_def regions_disjoint_def by simp
  qed
  then show ?thesis unfolding regions_elems_def by blast
qed

lemma regions_ok_snocD:
  assumes "regions_ok s a" "a \<noteq> []"
  shows "regions_ok s (butlast a)" "region_ok (last a)" "same_stride s (last a)"
    "region_elems (last a) \<inter> regions_elems (butlast a) = {}"
    "regions_elems a = regions_elems (butlast a) \<union> region_elems (last a)"
proof -
  have "sset_ok (butlast a @ [last a])" using assms by (simp add: regions_ok_def)
  then have ok: "sset_ok (butlast a)" "last a \<notin> set (butlast a)"
    unfolding sset_ok_append by (simp, metis less_irrefl list.set_intros(1))
  have sub: "set (butlast a) \<subseteq> set a" "last a \<in> set a"
    using assms(2) by (auto dest: in_set_butlastD)
  show "regions_ok s (butlast a)" by (rule regions_ok_subset [OF assms(1) ok(1) sub(1)])
  show "region_ok (last a)" "same_stride s (last a)" by (rule regions_okD [OF assms(1) sub(2)])+
  show "region_elems (last a) \<inter> regions_elems (butlast a) = {}"
    by (rule regions_ok_apart [OF assms(1) sub ok(2)])
  have "regions_elems (butlast a @ [last a]) = regions_elems (butlast a) \<union> region_elems (last a)"
    by (simp only: regions_elems_append regions_elems_Cons regions_elems_Nil Un_empty_right)
  then show "regions_elems a = regions_elems (butlast a) \<union> region_elems (last a)"
    using assms(2) by simp
qed

lemma regions_ok_ConsD:
  assumes "regions_ok s (y # b)"
  shows "regions_ok s b" "region_ok y" "same_stride s y" "region_elems y \<inter> regions_elems b = {}"
proof -
  have ok: "sset_ok b" "y \<notin> set b"
    using assms by (auto simp: regions_ok_def sset_ok_Cons)
  have sub: "set b \<subseteq> set (y # b)" "y \<in> set (y # b)" by auto
  show "regions_ok s b" by (rule regions_ok_subset [OF assms ok(1) sub(1)])
  show "region_ok y" "same_stride s y" by (rule regions_okD [OF assms sub(2)])+
  show "region_elems y \<inter> regions_elems b = {}" by (rule regions_ok_apart [OF assms sub ok(2)])
qed

lemma merge_front_correct:
  assumes "regions_ok s a" "regions_ok s b" "regions_elems a \<inter> regions_elems b = {}" "a \<noteq> []"
  shows "\<exists>R. merge_front a b = Some R \<and> regions_ok s R \<and> regions_elems R = regions_elems a \<union> regions_elems b"
  using assms
proof (induction b arbitrary: a)
  case Nil
  then show ?case by simp
next
  case (Cons y b)
  note l = regions_ok_snocD [OF Cons.prems(1,4)] and c = regions_ok_ConsD [OF Cons.prems(2)]
  show ?case
  proof (cases rule: region_try_merge_correct [OF l(2) c(2) l(3) c(3)])
    case 1
    have "regions_ok s (sset_merge a (y # b))"
      by (rule regions_ok_merge [OF Cons.prems(1,2,3)])
    then show ?thesis using 1 regions_elems_merge [of a "y # b"] by simp
  next
    case (2 m)
    let ?a = "sset_insert m (butlast a)"
    have "region_elems m \<inter> regions_elems (butlast a) = {}"
      using 2(4) l(4,5) Cons.prems(3) by (simp only: regions_elems_Cons) blast
    then have ok: "regions_ok s ?a" by (rule regions_ok_insert [OF l(1) 2(2,3)])
    have el: "regions_elems ?a = regions_elems a \<union> region_elems y"
      using 2(4) l(5) by (simp only: regions_elems_insert) blast
    then have dis: "regions_elems ?a \<inter> regions_elems b = {}"
      using Cons.prems(3) c(4) by (simp only: regions_elems_Cons) blast
    have "?a \<noteq> []" by (simp add: sset_insert_def)
    from Cons.IH [OF ok c(1) dis this] obtain R where
      "merge_front ?a b = Some R" "regions_ok s R" "regions_elems R = regions_elems ?a \<union> regions_elems b"
      by blast
    then show ?thesis using 2(1) el by auto
  qed
qed

declare merge_back.simps [simp del]

lemma merge_back_correct:
  assumes "regions_ok s a"
  shows "\<exists>R. merge_back a = Some R \<and> regions_ok s R \<and> regions_elems R = regions_elems a"
  using assms
proof (induction "length a" arbitrary: a rule: less_induct)
  case less
  show ?case
  proof (cases "length a > 1")
    case False
    then show ?thesis using less.prems by (subst merge_back.simps) simp
  next
    case True
    then have ne: "a \<noteq> []" "butlast a \<noteq> []" by (auto simp: butlast_conv_take)
    note l = regions_ok_snocD [OF less.prems ne(1)]
    note l2 = regions_ok_snocD [OF l(1) ne(2)]
    show ?thesis
    proof (cases rule: region_try_merge_correct [OF l2(2) l(2) l2(3) l(3)])
      case 1
      then show ?thesis using True less.prems by (subst merge_back.simps) simp
    next
      case (2 m)
      let ?a = "sset_insert m (butlast (butlast a))"
      have "region_elems m \<inter> regions_elems (butlast (butlast a)) = {}"
        using 2(4) l(4,5) l2(4,5) by blast
      then have ok: "regions_ok s ?a" by (rule regions_ok_insert [OF l2(1) 2(2,3)])
      have el: "regions_elems ?a = regions_elems a"
        using 2(4) l(5) l2(5) by (simp only: regions_elems_insert) blast
      have "length ?a < length a"
        using sset_length_insert_le [of m "butlast (butlast a)"] True by simp
      from less.hyps [OF this ok] show ?thesis
        using True 2(1) el by (subst merge_back.simps) auto
    qed
  qed
qed

lemma merge_adjacent_correct:
  assumes "regions_ok s a" "regions_ok s b" "regions_elems a \<inter> regions_elems b = {}"
  obtains R where "merge_adjacent_sets a b = Some R" "regions_ok s R"
    "regions_elems R = regions_elems a \<union> regions_elems b"
proof (cases "a = []")
  case True
  with merge_back_correct [OF assms(2)] that show ?thesis
    by (auto simp: merge_adjacent_sets_def)
next
  case False
  from merge_front_correct [OF assms False] obtain F where
    F: "merge_front a b = Some F" "regions_ok s F" "regions_elems F = regions_elems a \<union> regions_elems b"
    by blast
  with merge_back_correct [OF F(2)] that False show ?thesis
    by (auto simp: merge_adjacent_sets_def)
qed

section \<open>\<open>operator-\<close>\<close>

text \<open>
  The part of the difference inside the range of a strided \<open>b\<close>: \<open>gaps\<close> (the code's \<open>inv\<close>) are the gaps of
  \<open>b\<close>, \<open>parts\<close> the regions of \<open>a\<close> inside that range.
\<close>

fun sub_blocks ::
  "data_region list \<Rightarrow> data_region \<Rightarrow> data_region list \<Rightarrow> data_region list option" where
  "sub_blocks mid gaps [] = Some mid"
| "sub_blocks mid gaps (p # parts) =
     (if r_reps p \<noteq> 0 then sub_blocks mid gaps parts
      else do {
        v \<leftarrow> region_and p gaps;
        sub_blocks (sset_merge mid v) gaps parts
      })"

fun sub_middle :: "nat \<Rightarrow> nat \<Rightarrow> data_region list \<Rightarrow> data_region list \<Rightarrow> data_region list option" where
  "sub_middle n s mid [] = Some mid"
| "sub_middle n s mid (blk # v) = do {
     fenix_assert (r_reps blk = 0);
     m \<leftarrow> mk_region (r_start blk, r_end blk) n s;
     sub_middle n s (sset_insert m mid) v
   }"

definition sub_strided ::
  "data_region list \<Rightarrow> data_region \<Rightarrow> data_region \<Rightarrow> nat \<Rightarrow> data_region list option" where
  "sub_strided mid a gaps s = do {
     blk0 \<leftarrow> region_get_rep a 0;
     v0 \<leftarrow> region_and blk0 gaps;
     (let mid = sset_merge mid v0
      in do {
        mid \<leftarrow> (if r_reps a > 1 then do {
                  blk1 \<leftarrow> region_get_rep a 1;
                  v1 \<leftarrow> region_and blk1 gaps;
                  sub_middle (sz_sub (r_reps a) 2) s mid v1
                } else Some mid);
        blkn \<leftarrow> region_get_rep a (r_reps a);
        vn \<leftarrow> region_and blkn gaps;
        Some (sset_merge mid vn)
      })
   }"

definition sub_inside :: "data_region \<Rightarrow> data_region \<Rightarrow> data_region list option" where
  "sub_inside a b = do {
     gaps \<leftarrow> region_inverted b;
     bnds \<leftarrow> mk_block (region_range b);
     parts \<leftarrow> region_and a bnds;
     mid \<leftarrow> sub_blocks [] gaps parts;
     (case filter (\<lambda>p. r_reps p \<noteq> 0) parts of
        [] \<Rightarrow> Some mid
      | p # rest \<Rightarrow> do {
          fenix_assert (rest = []);
          sub_strided mid p gaps (r_stride b)
        })
   }"

definition region_sub :: "data_region \<Rightarrow> data_region \<Rightarrow> data_region list option" where
  "region_sub a b = do {
     ov \<leftarrow> region_overlaps a b;
     if \<not> ov then Some [a]
     else do {
       fenix_assert (r_reps a = 0 \<or> r_reps b = 0 \<or> r_stride a = r_stride b);
       (let (bstart, bend) = region_range b
        in do {
          ret \<leftarrow> (if bstart > 0
                  then do { pre \<leftarrow> mk_block (0, sz_sub bstart 1); region_and a pre }
                  else Some []);
          ret \<leftarrow> (if r_reps b \<noteq> 0
                  then do { mid \<leftarrow> sub_inside a b; merge_adjacent_sets ret mid }
                  else Some ret);
          (if bend \<noteq> SIZE_MAX
           then do {
             post \<leftarrow> mk_block (sz_add bend 1, SIZE_MAX);
             v \<leftarrow> region_and a post;
             merge_adjacent_sets ret v
           }
           else Some ret)
        })
     }
   }"

end
