(* ===== verification/Region_Diff.thy ===== *)
theory Region_Diff
  imports Region_Sub
begin

text \<open>
  Correctness of \<open>DataRegion::operator-\<close>: no assertion fails, the result is an ordered
  set of well-formed, pairwise disjoint regions of the same stride, and it holds exactly
  the indices of the first operand that are not in the second.
\<close>

section \<open>The single blocks\<close>

lemma sub_blocks_correct:
  assumes "regions_ok s mid" "regions_ok s parts" "region_ok g" "same_stride s g"
    "regions_elems mid \<inter> regions_elems parts = {}"
  shows "\<exists>R. sub_blocks mid g parts = Some R \<and> regions_ok s R \<and>
    regions_elems R = regions_elems mid \<union>
      regions_elems (filter (\<lambda>p. r_reps p = 0) parts) \<inter> region_elems g"
  using assms(1,2,5)
proof (induction parts arbitrary: mid)
  case Nil
  then show ?case by simp
next
  case (Cons p parts)
  note c = regions_ok_ConsD [OF Cons.prems(2)]
  have dis: "regions_elems mid \<inter> region_elems p = {}" "regions_elems mid \<inter> regions_elems parts = {}"
    using Cons.prems(3) by (simp_all only: regions_elems_Cons) blast+
  show ?case
  proof (cases "r_reps p = 0")
    case False
    with Cons.IH [OF Cons.prems(1) c(1) dis(2)] show ?thesis by simp
  next
    case True
    obtain V where V: "region_and p g = Some V" "regions_ok s V"
        "regions_elems V = region_elems p \<inter> region_elems g"
      using region_and_correct [OF c(2) assms(3) _ c(3) assms(4)] True by metis
    let ?m = "sset_merge mid V"
    have "regions_elems mid \<inter> regions_elems V = {}" using V(3) dis(1) by blast
    then have ok: "regions_ok s ?m" by (rule regions_ok_merge [OF Cons.prems(1) V(2)])
    have "regions_elems ?m \<inter> regions_elems parts = {}"
      unfolding regions_elems_merge using V(3) dis(2) c(4) by blast
    from Cons.IH [OF ok c(1) this] obtain R where
      "sub_blocks ?m g parts = Some R" "regions_ok s R"
      "regions_elems R = regions_elems ?m \<union>
        regions_elems (filter (\<lambda>p. r_reps p = 0) parts) \<inter> region_elems g"
      by blast
    then show ?thesis using True V(1,3) by (auto simp: regions_elems_merge)
  qed
qed

section \<open>The middle repetitions\<close>

definition rep_shift :: "nat \<Rightarrow> nat \<Rightarrow> nat set \<Rightarrow> nat set" where
  "rep_shift n s X = (\<Union>k \<in> {0..n}. (\<lambda>x. x + k * s) ` X)"

lemma rep_shift_Un: "rep_shift n s (X \<union> Y) = rep_shift n s X \<union> rep_shift n s Y"
  by (auto simp: rep_shift_def)

lemma rep_shift_empty [simp]: "rep_shift n s {} = {}"
  by (simp add: rep_shift_def)

lemma rep_shift_block: "rep_shift n s {a..b} = rep_elems a b n s"
  by (simp add: rep_shift_def rep_elems_def add.commute)

lemma rep_shift_disjoint:
  assumes "X \<subseteq> {p..q}" "Y \<subseteq> {p..q}" "q < p + s" "X \<inter> Y = {}"
  shows "rep_shift n s X \<inter> rep_shift n s Y = {}"
proof -
  have "False" if xy: "x \<in> X" "y \<in> Y" "x + k * s = y + l * s" for x y k l
  proof -
    have b: "p \<le> x" "x \<le> q" "p \<le> y" "y \<le> q" using assms(1,2) xy(1,2) by auto
    have "\<not> k < l"
    proof
      assume "k < l"
      then have "Suc k * s \<le> l * s" by (intro mult_le_mono1) simp
      then show False using b assms(3) xy(3) by simp
    qed
    moreover have "\<not> l < k"
    proof
      assume "l < k"
      then have "Suc l * s \<le> k * s" by (intro mult_le_mono1) simp
      then show False using b assms(3) xy(3) by simp
    qed
    ultimately have "x = y" using xy(3) by simp
    then show False using assms(4) xy(1,2) by blast
  qed
  then show ?thesis unfolding rep_shift_def by blast
qed

lemma sub_middle_correct:
  assumes "regions_ok s V" "all_blocks V" "regions_elems V \<subseteq> {p..q}" "q + 1 < p + s"
    "q + s * n \<le> IDX_MAX" "s \<le> IDX_MAX"
    "regions_ok s mid" "regions_elems mid \<inter> rep_shift n s (regions_elems V) = {}"
  shows "\<exists>R. sub_middle n s mid V = Some R \<and> regions_ok s R \<and>
    regions_elems R = regions_elems mid \<union> rep_shift n s (regions_elems V)"
  using assms(1-3,7,8)
proof (induction V arbitrary: mid)
  case Nil
  then show ?case by simp
next
  case (Cons v V)
  note c = regions_ok_ConsD [OF Cons.prems(1)]
  have v: "r_reps v = 0" "all_blocks V" using Cons.prems(2) by (simp_all add: all_blocks_def)
  have le: "r_start v \<le> r_end v" by (rule region_ok_start_end [OF c(2)])
  have elems_v: "region_elems v = {r_start v..r_end v}" by (rule region_elems_block [OF v(1)])
  have sub: "region_elems v \<subseteq> {p..q}" "regions_elems V \<subseteq> {p..q}"
    using Cons.prems(3) by (simp_all only: regions_elems_Cons) blast+
  then have b: "p \<le> r_start v" "r_end v \<le> q" using le elems_v by auto
  have fit: "r_end v + 1 \<le> r_start v + s" "r_end v + s * n \<le> IDX_MAX" using b assms(4,5) by linarith+
  obtain m where m: "mk_region (r_start v, r_end v) n s = Some m" "region_ok m"
      "region_elems m = rep_elems (r_start v) (r_end v) n s" "r_reps m = 0 \<or> r_stride m = s"
    using mk_region_correct [OF le fit assms(6)] by metis
  have m_elems: "region_elems m = rep_shift n s (region_elems v)"
    using m(3) by (simp only: elems_v rep_shift_block)
  let ?mid = "sset_insert m mid"
  have dis: "regions_elems mid \<inter> region_elems m = {}"
      "regions_elems mid \<inter> rep_shift n s (regions_elems V) = {}"
    using Cons.prems(5) by (simp_all only: regions_elems_Cons rep_shift_Un m_elems) blast+
  have "region_elems m \<inter> regions_elems mid = {}" using dis(1) by blast
  then have ok: "regions_ok s ?mid"
    using m(4) by (intro regions_ok_insert [OF Cons.prems(4) m(2)]) (auto simp: same_stride_def)
  have "q < p + s" using assms(4) by simp
  from rep_shift_disjoint [OF sub this c(4), of n]
  have "regions_elems ?mid \<inter> rep_shift n s (regions_elems V) = {}"
    using dis(2) unfolding regions_elems_insert m_elems by blast
  from Cons.IH [OF c(1) v(2) sub(2) ok this] obtain R where
    "sub_middle n s ?mid V = Some R" "regions_ok s R"
    "regions_elems R = regions_elems ?mid \<union> rep_shift n s (regions_elems V)"
    by blast
  then show ?case
    using v(1) m(1) by (auto simp: rep_shift_Un regions_elems_insert m_elems)
qed

text \<open>What a region shorter than the stride keeps of the gaps are single blocks.\<close>

lemma short_all_blocks:
  assumes "regions_ok s V" "regions_elems V \<subseteq> {p..q}" "q + 1 < p + s"
  shows "all_blocks V"
  unfolding all_blocks_def
proof
  fix r
  assume r: "r \<in> set V"
  note ok = regions_okD [OF assms(1) r]
  show "r_reps r = 0"
  proof (rule ccontr)
    assume n: "r_reps r \<noteq> 0"
    then have s: "r_stride r = s" using ok(2) by (simp add: same_stride_def)
    have "r_start r \<in> region_elems r" "snd (region_range r) \<in> region_elems r"
      by (rule region_elems_ends [OF ok(1)])+
    then have "p \<le> r_start r" "r_end r + s * r_reps r \<le> q"
      using assms(2) r s by (auto simp: regions_elems_def region_range_ok ok(1))
    moreover have "s \<le> s * r_reps r" using n by simp
    ultimately show False using assms(3) region_ok_start_end [OF ok(1)] by linarith
  qed
qed

lemma reps_in_shift:
  assumes "r_reps a > 1" "\<And>x. x \<in> reps_in a {1..r_reps a - 1} \<Longrightarrow> x \<in> G \<longleftrightarrow> P x"
    "\<And>x k. x \<in> rep_block a 1 \<Longrightarrow> P (x + k * r_stride a) = P x"
  shows "reps_in a {1..r_reps a - 1} \<inter> G = rep_shift (r_reps a - 2) (r_stride a) (rep_block a 1 \<inter> G)"
proof -
  let ?s = "r_stride a"
  have one: "rep_block a 1 \<subseteq> reps_in a {1..r_reps a - 1}"
    unfolding reps_in_def using assms(1) by (intro UN_upper) simp
  show ?thesis
  proof (intro equalityI subsetI)
    fix x
    assume x: "x \<in> reps_in a {1..r_reps a - 1} \<inter> G"
    then obtain k where k: "1 \<le> k" "k \<le> r_reps a - 1" "x \<in> rep_block a k"
      by (auto simp: reps_in_def)
    obtain j where j: "k = Suc j" using k(1) by (cases k) auto
    define y where "y = x - j * ?s"
    have y: "x = y + j * ?s" "y \<in> rep_block a 1" using k(3) j by (auto simp: y_def)
    have "P x" using x assms(2) by blast
    then have "P y" using assms(3) [OF y(2), of j] y(1) by simp
    then have "y \<in> rep_block a 1 \<inter> G" using y(2) one assms(2) by blast
    moreover have "j \<in> {0..r_reps a - 2}" using k(2) j by simp
    ultimately show "x \<in> rep_shift (r_reps a - 2) ?s (rep_block a 1 \<inter> G)"
      unfolding rep_shift_def using y(1) by blast
  next
    fix x
    assume "x \<in> rep_shift (r_reps a - 2) ?s (rep_block a 1 \<inter> G)"
    then obtain j y where j: "j \<le> r_reps a - 2" and y: "x = y + j * ?s" "y \<in> rep_block a 1" "y \<in> G"
      by (auto simp: rep_shift_def)
    have "x \<in> rep_block a (Suc j)" using y by auto
    then have x: "x \<in> reps_in a {1..r_reps a - 1}"
      unfolding reps_in_def using j assms(1) by (intro UN_I [of "Suc j"]) auto
    have "P y" using y(2,3) one assms(2) by blast
    then have "P x" using assms(3) [OF y(2), of j] y(1) by simp
    then show "x \<in> reps_in a {1..r_reps a - 1} \<inter> G" using x assms(2) by blast
  qed
qed

text \<open>One step of \<open>sub_strided\<close>: the gaps in one repetition join the middle.\<close>

lemma rep_and_correct:
  assumes "region_ok a" "k \<le> r_reps a" "region_ok g" "same_stride s g"
  obtains blk V where "region_get_rep a k = Some blk" "region_and blk g = Some V" "regions_ok s V"
    "regions_elems V = rep_block a k \<inter> region_elems g"
proof -
  let ?blk = "block (r_start a + k * r_stride a) (r_end a + k * r_stride a)"
  have ok: "region_ok ?blk" by (rule region_rep_ok [OF assms(1,2)])
  have ss: "same_stride s ?blk" by (simp add: same_stride_def)
  have elems: "region_elems ?blk = rep_block a k" by (simp add: region_elems_block)
  obtain V where "region_and ?blk g = Some V" "regions_ok s V"
      "regions_elems V = region_elems ?blk \<inter> region_elems g"
    by (rule region_and_correct [OF ok assms(3) _ ss assms(4)]) simp
  then show ?thesis
    using that [OF region_get_rep_eq [OF assms(1,2)]] elems by simp
qed

lemma reps_in_single: "reps_in a {k} = rep_block a k"
  by (simp add: reps_in_def)

lemma reps_in_mono: "I \<subseteq> J \<Longrightarrow> reps_in a I \<subseteq> reps_in a J"
  by (auto simp: reps_in_def)

lemma sub_strided_correct:
  assumes a: "region_ok a" "r_reps a \<noteq> 0" "r_stride a = s"
    and g: "region_ok g" "same_stride s g"
    and mid: "regions_ok s mid" "regions_elems mid \<inter> region_elems a = {}"
    and P: "\<And>x. x \<in> region_elems a \<Longrightarrow> x \<in> region_elems g \<longleftrightarrow> P x"
      "\<And>x k. x \<in> rep_block a 1 \<Longrightarrow> P (x + k * s) = P x"
  shows "\<exists>R. sub_strided mid a g s = Some R \<and> regions_ok s R \<and>
    regions_elems R = regions_elems mid \<union> region_elems a \<inter> region_elems g"
proof -
  let ?G = "region_elems g" and ?n = "r_reps a"
  note st = region_ok_stridedD [OF a(1,2)]
  obtain b0 V0 where V0: "region_get_rep a 0 = Some b0" "region_and b0 g = Some V0" "regions_ok s V0"
      "regions_elems V0 = rep_block a 0 \<inter> ?G"
    by (rule rep_and_correct [OF a(1) _ g, of 0]) simp_all
  obtain b1 V1 where V1: "region_get_rep a 1 = Some b1" "region_and b1 g = Some V1" "regions_ok s V1"
      "regions_elems V1 = rep_block a 1 \<inter> ?G"
    by (rule rep_and_correct [OF a(1) _ g, of 1]) (use a(2) in simp_all)
  obtain bn Vn where Vn: "region_get_rep a ?n = Some bn" "region_and bn g = Some Vn" "regions_ok s Vn"
      "regions_elems Vn = rep_block a ?n \<inter> ?G"
    by (rule rep_and_correct [OF a(1) _ g, of ?n]) simp_all
  have sub: "reps_in a I \<subseteq> region_elems a" if "I \<subseteq> {0..?n}" for I
    unfolding region_elems_reps_in by (rule reps_in_mono [OF that])
  let ?m0 = "sset_merge mid V0"
  let ?M = "if ?n > 1 then {1..?n - 1} else {}"
  have "{0} \<subseteq> {0..?n}" "{?n} \<subseteq> {0..?n}" "?M \<subseteq> {0..?n}" by auto
  note inside = this [THEN sub, unfolded reps_in_single]
  have "regions_elems mid \<inter> regions_elems V0 = {}"
    unfolding V0(4) using mid(2) inside(1) by blast
  then have m0: "regions_ok s ?m0" by (rule regions_ok_merge [OF mid(1) V0(3)])
  have "{0} \<inter> ?M = {}" "({0} \<union> ?M) \<inter> {?n} = {}" using a(2) by auto
  note dis = this [THEN reps_in_disjoint [OF a(1,2)], unfolded reps_in_Un reps_in_single]
  have m0_dis: "regions_elems ?m0 \<inter> reps_in a ?M = {}"
    unfolding regions_elems_merge V0(4) using mid(2) inside(3) dis(1) by blast
  have step: "\<exists>R. (if ?n > 1 then do {
                  blk1 \<leftarrow> region_get_rep a 1;
                  v1 \<leftarrow> region_and blk1 g;
                  sub_middle (sz_sub ?n 2) s ?m0 v1
                } else Some ?m0) = Some R \<and> regions_ok s R \<and>
      regions_elems R = regions_elems ?m0 \<union> reps_in a ?M \<inter> ?G"
  proof (cases "?n > 1")
    case False
    then show ?thesis using m0 by (simp add: reps_in_def)
  next
    case True
    let ?p = "r_start a + r_stride a" and ?q = "r_end a + r_stride a"
    have V1_sub: "regions_elems V1 \<subseteq> {?p..?q}" using V1(4) by auto
    have gap: "?q + 1 < ?p + s" using st(1) a(3) by simp
    have blocks: "all_blocks V1" by (rule short_all_blocks [OF V1(3) V1_sub gap])
    have fit: "?q + s * (?n - 2) \<le> IDX_MAX"
    proof -
      have "r_stride a + s * (?n - 2) = s * (?n - 1)" using True a(3) by (cases "?n - 1") auto
      also have "\<dots> \<le> s * ?n" by simp
      finally show ?thesis using st(2) a(3) by simp
    qed
    have shift: "reps_in a ?M \<inter> ?G = rep_shift (?n - 2) s (regions_elems V1)"
      using reps_in_shift [OF True, of ?G P] P sub [of "{1..?n - 1}"] a(3) V1(4) True by auto
    have "regions_elems ?m0 \<inter> rep_shift (?n - 2) s (regions_elems V1) = {}"
      unfolding shift [symmetric] using m0_dis by blast
    from sub_middle_correct [OF V1(3) blocks V1_sub gap fit _ m0 this] st(3) a(3) obtain R where
      "sub_middle (?n - 2) s ?m0 V1 = Some R" "regions_ok s R"
      "regions_elems R = regions_elems ?m0 \<union> rep_shift (?n - 2) s (regions_elems V1)"
      by auto
    moreover have "sz_sub ?n 2 = ?n - 2"
      using True region_reps_lt_max [OF a(1)] by (intro sz_sub_exact) auto
    ultimately show ?thesis using True V1(1,2) shift by simp
  qed
  then obtain M where M: "(if ?n > 1 then do {
                  blk1 \<leftarrow> region_get_rep a 1;
                  v1 \<leftarrow> region_and blk1 g;
                  sub_middle (sz_sub ?n 2) s ?m0 v1
                } else Some ?m0) = Some M" "regions_ok s M"
      "regions_elems M = regions_elems ?m0 \<union> reps_in a ?M \<inter> ?G" by blast
  have "regions_elems M \<inter> regions_elems Vn = {}"
    unfolding regions_elems_merge M(3) V0(4) Vn(4) using dis(2) mid(2) inside(2) by blast
  then have ok: "regions_ok s (sset_merge M Vn)" by (rule regions_ok_merge [OF M(2) Vn(3)])
  have "{0..?n} = {0} \<union> ?M \<union> {?n}" by auto
  then have "region_elems a = rep_block a 0 \<union> reps_in a ?M \<union> rep_block a ?n"
    unfolding region_elems_reps_in by (simp only: reps_in_Un reps_in_single)
  then have el: "regions_elems (sset_merge M Vn) = regions_elems mid \<union> region_elems a \<inter> ?G"
    unfolding regions_elems_merge M(3) V0(4) Vn(4) by blast
  have "sub_strided mid a g s = Some (sset_merge M Vn)"
    unfolding sub_strided_def V0(1) Option.bind.bind_lunit V0(2) Let_def M(1) Vn(1) Vn(2) ..
  with ok el show ?thesis by blast
qed

section \<open>Inside the range of a strided region\<close>

lemma regions_elems_split:
  "regions_elems R = regions_elems (filter P R) \<union> regions_elems (filter (\<lambda>r. \<not> P r) R)"
  unfolding regions_elems_def by auto

lemma one_strided:
  assumes "sset_ok R" "\<forall>r \<in> set R. r_reps r \<noteq> 0 \<longrightarrow> r = q"
  shows "filter (\<lambda>r. r_reps r \<noteq> 0) R = [] \<or> filter (\<lambda>r. r_reps r \<noteq> 0) R = [q]"
proof -
  let ?F = "filter (\<lambda>r. r_reps r \<noteq> 0) R"
  have "distinct ?F" using assms(1) by (simp add: sset_ok_distinct)
  moreover have "set ?F \<subseteq> {q}" using assms(2) by auto
  ultimately show ?thesis
    by (cases ?F; cases "tl ?F") auto
qed

lemma sub_inside_correct:
  assumes a: "region_ok a" "same_stride s a" and b: "region_ok b" "r_reps b \<noteq> 0" "r_stride b = s"
  shows "\<exists>R. sub_inside a b = Some R \<and> regions_ok s R \<and>
    regions_elems R = region_elems a \<inter> {r_start b .. snd (region_range b)} - region_elems b"
proof -
  let ?lo = "r_start b" and ?hi = "snd (region_range b)"
  obtain g where g: "region_inverted b = Some g" "region_ok g" "same_stride (r_stride b) g"
      "region_elems g = {?lo .. ?hi} - region_elems b"
      "\<And>x. x \<in> region_elems g \<longleftrightarrow> ?lo \<le> x \<and> x \<le> ?hi \<and> in_gap b x"
    by (rule region_inverted_correct [OF b(1,2)]) blast
  have ss: "same_stride s g" using g(3) b(3) by simp
  have hi: "?hi \<le> IDX_MAX" by (rule region_range_bound [OF b(1,2)])
  have lohi: "?lo \<le> ?hi"
    using region_ok_start_end [OF b(1)] by (simp add: region_range_ok b(1))
  let ?w = "block ?lo ?hi"
  have "region_range b = (?lo, ?hi)" by (simp add: region_range_ok b(1))
  moreover have "mk_block (?lo, ?hi) = Some ?w"
    using lohi hi by (intro mk_block_eq) (simp_all add: SIZE_IDX)
  ultimately have w: "mk_block (region_range b) = Some ?w" by metis
  have w_ok: "region_ok ?w" using lohi hi by (simp add: region_ok_def)
  obtain parts where parts: "region_and a ?w = Some parts" "regions_ok s parts"
      "regions_elems parts = region_elems a \<inter> region_elems ?w"
      "\<exists>q. \<forall>r \<in> set parts. r_reps r \<noteq> 0 \<longrightarrow> r = q"
    by (rule region_and_correct [OF a(1) w_ok _ a(2)]) (simp_all add: same_stride_def)
  have el: "regions_elems parts = region_elems a \<inter> {?lo .. ?hi}"
    using parts(3) by (simp add: region_elems_block)
  let ?B = "filter (\<lambda>r. r_reps r = 0) parts" and ?S = "filter (\<lambda>r. r_reps r \<noteq> 0) parts"
  have split: "regions_elems parts = regions_elems ?B \<union> regions_elems ?S"
    by (rule regions_elems_split)
  from sub_blocks_correct [OF regions_ok_Nil parts(2) g(2) ss] obtain mid where
    mid: "sub_blocks [] g parts = Some mid" "regions_ok s mid"
      "regions_elems mid = regions_elems ?B \<inter> region_elems g" by auto
  have goal: "regions_elems parts \<inter> region_elems g
      = region_elems a \<inter> {?lo .. ?hi} - region_elems b"
    using el g(4) by blast
  from parts(4) obtain q where q: "\<forall>r \<in> set parts. r_reps r \<noteq> 0 \<longrightarrow> r = q" by blast
  have "sset_ok parts" using parts(2) by (simp add: regions_ok_def)
  from one_strided [OF this q] show ?thesis
  proof
    assume none: "?S = []"
    then have "regions_elems mid = regions_elems parts \<inter> region_elems g"
      using mid(3) split by simp
    then show ?thesis
      using g(1) w parts(1) mid none goal by (simp add: sub_inside_def)
  next
    assume one: "?S = [q]"
    then have "q \<in> set ?S" by simp
    then have in_parts: "q \<in> set parts" and n: "r_reps q \<noteq> 0" by auto
    note ok = regions_okD [OF parts(2) in_parts]
    have st: "r_stride q = s" using ok(2) n by (simp add: same_stride_def)
    have qS: "regions_elems ?S = region_elems q"
      unfolding one by (simp only: regions_elems_Cons regions_elems_Nil Un_empty_right)
    have inside: "region_elems q \<subseteq> {?lo .. ?hi}" using split qS el by blast
    have "region_elems q \<inter> regions_elems ?B = {}"
      by (rule regions_ok_apart [OF parts(2) _ in_parts]) (use n in auto)
    then have dis: "regions_elems mid \<inter> region_elems q = {}" using mid(3) by blast
    have P: "x \<in> region_elems g \<longleftrightarrow> in_gap b x" if "x \<in> region_elems q" for x
      using g(5) inside that by auto
    have P2: "in_gap b (x + k * s) = in_gap b x" if x: "x \<in> rep_block q 1" for x k
    proof -
      have "x \<in> region_elems q" using x rep_block_elems [of 1 q] n by auto
      then have "r_start b \<le> x" using inside by auto
      then show ?thesis using in_gap_shift b(3) by metis
    qed
    from sub_strided_correct [OF ok(1) n st g(2) ss mid(2) dis P P2] obtain R where
      R: "sub_strided mid q g s = Some R" "regions_ok s R"
        "regions_elems R = regions_elems mid \<union> region_elems q \<inter> region_elems g" by blast
    have "regions_elems R = regions_elems parts \<inter> region_elems g"
      using R(3) mid(3) split qS by blast
    moreover have "sub_inside a b = Some R"
      using g(1) w parts(1) mid(1) one R(1) b(3) by (simp add: sub_inside_def)
    ultimately show ?thesis using R(2) goal by blast
  qed
qed

section \<open>The difference\<close>

lemma region_overlaps_total:
  assumes "region_ok a" "region_ok b" "same_stride s a" "same_stride s b"
  obtains ov where "region_overlaps a b = Some ov" "\<not> ov \<longrightarrow> region_elems a \<inter> region_elems b = {}"
proof (cases "r_reps a = 0 \<or> r_reps b = 0")
  case True
  have "region_overlaps a b = Some (block_overlaps a b)"
    using True by (simp add: region_overlaps_def)
  then show ?thesis
    using block_overlaps_necessary [OF assms(1,2)] by (intro that) auto
next
  case False
  then have n: "r_reps a \<noteq> 0" "r_reps b \<noteq> 0" by simp_all
  then have "r_stride a = r_stride b" using assms(3,4) by (simp add: same_stride_def)
  from region_overlaps_strided [OF assms(1,2) n this] show ?thesis by (intro that) auto
qed

lemma cut_range: "(l :: nat) \<le> h \<Longrightarrow> X \<inter> {..<l} = X \<inter> {..h} - {l..h}"
  by auto

lemma region_sub_correct:
  assumes ok: "region_ok a" "region_ok b" "same_stride s a" "same_stride s b"
  obtains R where "region_sub a b = Some R" "regions_ok s R"
    "regions_elems R = region_elems a - region_elems b"
proof -
  obtain ov where ov: "region_overlaps a b = Some ov"
      "\<not> ov \<longrightarrow> region_elems a \<inter> region_elems b = {}"
    by (rule region_overlaps_total [OF ok])
  let ?lo = "r_start b" and ?hi = "snd (region_range b)"
  have rng: "fst (region_range b) = ?lo" by (simp add: region_range_ok ok(2))
  have in_range: "region_elems b \<subseteq> {?lo .. ?hi}"
    using region_elems_range [OF ok(2)] by auto
  have hi: "?hi \<le> IDX_MAX \<or> ?hi = SIZE_MAX"
    using region_range_bound [OF ok(2)] region_ok_blockD(3) [OF ok(2)]
    by (cases "r_reps b = 0") (auto simp: region_range_block ok(2))
  have lo: "?lo \<le> IDX_MAX + 1"
    using region_ok_blockD(2) [OF ok(2)] region_ok_stridedD(3) [OF ok(2)] region_ok_start_end [OF ok(2)]
    by (cases "r_reps b = 0") auto
  have lohi: "?lo \<le> ?hi"
    using region_ok_start_end [OF ok(2)] by (simp add: region_range_ok ok(2))
  have pre: "\<exists>R. (if ?lo > 0 then do { pre \<leftarrow> mk_block (0, sz_sub ?lo 1); region_and a pre } else Some [])
        = Some R \<and> regions_ok s R \<and> regions_elems R = region_elems a \<inter> {..<?lo}"
  proof (cases "?lo > 0")
    case False
    then show ?thesis by simp
  next
    case True
    have "?lo \<le> SIZE_MAX" using lo by (simp add: SIZE_IDX)
    with True have sub: "sz_sub ?lo 1 = ?lo - 1" by (intro sz_sub_exact) simp_all
    have mk: "mk_block (0, ?lo - 1) = Some (block 0 (?lo - 1))"
      using lo by (intro mk_block_eq) (simp_all add: SIZE_IDX)
    have "?lo - 1 \<le> IDX_MAX" using lo by linarith
    then have w: "region_ok (block 0 (?lo - 1))" by (simp add: region_ok_def)
    obtain R where "region_and a (block 0 (?lo - 1)) = Some R" "regions_ok s R"
        "regions_elems R = region_elems a \<inter> region_elems (block 0 (?lo - 1))"
      by (rule region_and_correct [OF ok(1) w _ ok(3)]) (simp_all add: same_stride_def)
    moreover have "{0 .. ?lo - 1} = {..<?lo}" using True by auto
    ultimately show ?thesis
      using True mk unfolding sub by (simp add: region_elems_block)
  qed
  have post: "\<exists>w R. mk_block (sz_add ?hi 1, SIZE_MAX) = Some w \<and> region_and a w = Some R
      \<and> regions_ok s R \<and> regions_elems R = region_elems a \<inter> {?hi<..}" if "?hi \<noteq> SIZE_MAX"
  proof -
    have h: "?hi \<le> IDX_MAX" using hi that by blast
    then have add: "sz_add ?hi 1 = ?hi + 1" by (intro sz_add_exact) (simp add: SIZE_IDX)
    have mk: "mk_block (?hi + 1, SIZE_MAX) = Some (block (?hi + 1) SIZE_MAX)"
      using h by (intro mk_block_eq) (simp_all add: SIZE_IDX)
    have w: "region_ok (block (?hi + 1) SIZE_MAX)" using h by (simp add: region_ok_def SIZE_IDX)
    obtain R where R: "region_and a (block (?hi + 1) SIZE_MAX) = Some R" "regions_ok s R"
        "regions_elems R = region_elems a \<inter> region_elems (block (?hi + 1) SIZE_MAX)"
      by (rule region_and_correct [OF ok(1) w _ ok(3)]) (simp_all add: same_stride_def)
    have "region_elems a \<subseteq> {..SIZE_MAX}"
    proof
      fix x assume "x \<in> region_elems a"
      from region_elems_range(2) [OF ok(1) this] show "x \<in> {..SIZE_MAX}"
        using region_range_bound [OF ok(1)] region_ok_end [OF ok(1)]
        by (cases "r_reps a = 0") (auto simp: region_range_block ok(1) SIZE_IDX)
    qed
    then have "regions_elems R = region_elems a \<inter> {?hi<..}"
      using R(3) by (auto simp: region_elems_block)
    then show ?thesis using add mk R(1,2) by auto
  qed
  show ?thesis
  proof (cases ov)
    case False
    have "regions_ok s [a]" using ok by (simp add: regions_ok_single)
    with False ov show ?thesis by (intro that [of "[a]"]) (auto simp: region_sub_def)
  next
    case True
    have strides: "r_reps a = 0 \<or> r_reps b = 0 \<or> r_stride a = r_stride b"
      using ok(3,4) by (auto simp: same_stride_def)
    from pre obtain R1 where R1: "(if ?lo > 0 then do { pre \<leftarrow> mk_block (0, sz_sub ?lo 1); region_and a pre }
        else Some []) = Some R1" "regions_ok s R1" "regions_elems R1 = region_elems a \<inter> {..<?lo}" by blast
    have "\<exists>R2. (if r_reps b \<noteq> 0 then do { mid \<leftarrow> sub_inside a b; merge_adjacent_sets R1 mid } else Some R1)
        = Some R2 \<and> regions_ok s R2 \<and> regions_elems R2 = region_elems a \<inter> {..?hi} - region_elems b"
    proof (cases "r_reps b = 0")
      case True
      then have "region_elems b = {?lo .. ?hi}" by (simp add: region_elems_block region_range_block ok(2))
      then have "region_elems a \<inter> {..<?lo} = region_elems a \<inter> {..?hi} - region_elems b"
        using cut_range [OF lohi] by simp
      then show ?thesis using True R1(2,3) by simp
    next
      case False
      then have st: "r_stride b = s" using ok(4) by (simp add: same_stride_def)
      from sub_inside_correct [OF ok(1,3,2) False st] obtain M where
        M: "sub_inside a b = Some M" "regions_ok s M"
          "regions_elems M = region_elems a \<inter> {?lo .. ?hi} - region_elems b" by blast
      have "regions_elems R1 \<inter> regions_elems M = {}" unfolding R1(3) M(3) by auto
      then obtain R where R: "merge_adjacent_sets R1 M = Some R" "regions_ok s R"
          "regions_elems R = regions_elems R1 \<union> regions_elems M"
        by (rule merge_adjacent_correct [OF R1(2) M(2)])
      have "regions_elems R = region_elems a \<inter> {..?hi} - region_elems b"
        unfolding R(3) R1(3) M(3) using in_range lohi by auto
      then show ?thesis using False M(1) R(1,2) by simp
    qed
    then obtain R2 where R2: "(if r_reps b \<noteq> 0 then do { mid \<leftarrow> sub_inside a b; merge_adjacent_sets R1 mid }
          else Some R1) = Some R2" "regions_ok s R2"
        "regions_elems R2 = region_elems a \<inter> {..?hi} - region_elems b" by blast
    have call: "region_sub a b = (if ?hi \<noteq> SIZE_MAX
           then do {
             post \<leftarrow> mk_block (sz_add ?hi 1, SIZE_MAX);
             v \<leftarrow> region_and a post;
             merge_adjacent_sets R2 v
           }
           else Some R2)"
      by (simp only: region_sub_def ov(1) True fenix_assert_bind [OF strides] Let_def case_prod_beta
          rng R1(1) R2(1) Option.bind.bind_lunit if_False not_True_eq_False)
    show ?thesis
    proof (cases "?hi = SIZE_MAX")
      case True
      have "region_elems a \<subseteq> {..?hi}"
      proof
        fix x assume "x \<in> region_elems a"
        from region_elems_range(2) [OF ok(1) this] show "x \<in> {..?hi}"
          using region_range_bound [OF ok(1)] region_ok_end [OF ok(1)] True
          by (cases "r_reps a = 0") (auto simp: region_range_block ok(1) SIZE_IDX)
      qed
      then have "regions_elems R2 = region_elems a - region_elems b" using R2(3) by blast
      then show ?thesis using True call R2(2) by (intro that [of R2]) simp_all
    next
      case False
      from post [OF False] obtain w R3 where R3: "mk_block (sz_add ?hi 1, SIZE_MAX) = Some w"
          "region_and a w = Some R3" "regions_ok s R3" "regions_elems R3 = region_elems a \<inter> {?hi<..}"
        by blast
      have "regions_elems R2 \<inter> regions_elems R3 = {}" unfolding R2(3) R3(4) by auto
      then obtain R where R: "merge_adjacent_sets R2 R3 = Some R" "regions_ok s R"
          "regions_elems R = regions_elems R2 \<union> regions_elems R3"
        by (rule merge_adjacent_correct [OF R2(2) R3(3)])
      have "regions_elems R = region_elems a - region_elems b"
        unfolding R(3) R2(3) R3(4) using in_range by auto
      then show ?thesis using False call R3(1,2) R(1,2) by (intro that [of R]) simp_all
    qed
  qed
qed

end
