(* ===== verification/Subset_Merge.thy ===== *)
theory Subset_Merge
  imports Region_Diff
begin

text \<open>
  \<open>DataSubset::merge_regions\<close> (src/data/subset.cpp): the pass over an ordered set of
  regions that joins neighbours.  Where one region begins just after a repetition of
  another ends, the repetitions that touch become one wider strided region, and the
  repetitions on either side stay as regions of their own.
\<close>

section \<open>One pair of regions\<close>

text \<open>
  What the body of the inner loop inserts for the region \<open>check\<close> and a later region \<open>i\<close>:
  nothing, or the merged region, the repetitions before it and those after it.  Then both
  \<open>check\<close> and \<open>i\<close> are erased.
\<close>

definition merge_found ::
  "data_region \<Rightarrow> data_region \<Rightarrow> nat \<Rightarrow> nat \<Rightarrow> nat \<times> nat \<Rightarrow> data_region list option" where
  "merge_found check i idx n bnds = do {
     merged \<leftarrow> mk_region bnds n (r_stride check);
     before \<leftarrow> (if idx > 0
       then map_option (\<lambda>r. [r]) (mk_region (r_start check, r_end check) (sz_sub idx 1) (r_stride check))
       else Some []);
     after \<leftarrow> (if sz_add idx n < r_reps check then
         (let n_pre = sz_add (sz_add idx n) 1; offset = sz_mul n_pre (r_stride check)
          in map_option (\<lambda>r. [r])
            (mk_region (sz_add (r_start check) offset, sz_add (r_end check) offset)
              (sz_sub (r_reps check) n_pre) (r_stride check)))
       else if n < r_reps i then
         (let n_pre = sz_add n 1; offset = sz_mul n_pre (r_stride i)
          in map_option (\<lambda>r. [r])
            (mk_region (sz_add (r_start i) offset, sz_add (r_end i) offset)
              (sz_sub (r_reps i) n_pre) (r_stride i)))
       else Some []);
     Some (merged # before @ after)
   }"

definition merge_pair :: "data_region \<Rightarrow> data_region \<Rightarrow> data_region list option option" where
  "merge_pair check i =
     (let matching_end = sz_sub (r_start i) 1; matching_start = sz_add (r_end i) 1;
          de = sz_sub matching_end (r_end check); ds = sz_sub matching_start (r_start check);
          s = r_stride check
      in if de mod s = 0 then
           (let idx = de div s; n = min (sz_sub (r_reps check) idx) (r_reps i)
            in map_option Some (merge_found check i idx n
                 (sz_add (r_start check) (sz_mul idx s), r_end i)))
         else if ds mod s = 0 then
           (let idx = ds div s; n = min (sz_sub (r_reps check) idx) (r_reps i)
            in map_option Some (merge_found check i idx n
                 (r_start i, sz_add (r_end check) (sz_mul idx s))))
         else Some None)"

text \<open>The inner loop: the first later region in reach that merges with \<open>check\<close>.\<close>

fun merge_scan ::
  "data_region \<Rightarrow> data_region list \<Rightarrow> (data_region \<times> data_region list) option option" where
  "merge_scan check [] = Some None"
| "merge_scan check (i # later) =
     (if snd (region_range check) < sz_sub (r_start i) 1 then Some None
      else do {
        p \<leftarrow> merge_pair check i;
        (case p of
           Some new \<Rightarrow> Some (Some (i, new))
         | None \<Rightarrow> merge_scan check later)
      })"

partial_function (option) merge_loop ::
  "data_region list \<Rightarrow> data_region option \<Rightarrow> data_region list option" where
  "merge_loop R it =
     (case it of
        None \<Rightarrow> Some R
      | Some check \<Rightarrow> do {
          m \<leftarrow> merge_scan check (filter (\<lambda>r. check < r) R);
          (case m of
             None \<Rightarrow> merge_loop R (sset_next check R)
           | Some (i, new) \<Rightarrow>
               (let R' = sset_erase i (sset_merge R new)
                in merge_loop (sset_erase check R') (sset_next check R')))
        })"

declare merge_loop.simps [code]

definition merge_regions :: "data_region list \<Rightarrow> data_region list option" where
  "merge_regions R = merge_loop R (case R of [] \<Rightarrow> None | r # _ \<Rightarrow> Some r)"

section \<open>The pair step preserves the indices\<close>

definition n_blocks :: "data_region list \<Rightarrow> nat" where
  "n_blocks L = sum_list (map (\<lambda>r. r_reps r + 1) L)"

lemma n_blocks_simps [simp]:
  "n_blocks [] = 0" "n_blocks (r # L) = r_reps r + 1 + n_blocks L"
  "n_blocks (L @ M) = n_blocks L + n_blocks M"
  by (simp_all add: n_blocks_def)

text \<open>What a merging pair leaves behind: the same indices in fewer blocks.\<close>

definition new_regions :: "nat \<Rightarrow> data_region \<Rightarrow> data_region \<Rightarrow> data_region list \<Rightarrow> bool" where
  "new_regions s c i L \<longleftrightarrow> regions_ok s (sset_merge [] L) \<and>
     regions_elems L = region_elems c \<union> region_elems i \<and>
     c \<notin> set L \<and> i \<notin> set L \<and> n_blocks L < r_reps c + r_reps i + 2"

lemma reps_in_sub: "I \<subseteq> {0..r_reps a} \<Longrightarrow> reps_in a I \<subseteq> region_elems a"
  unfolding region_elems_reps_in by (rule reps_in_mono)

lemma reps_in_apart:
  assumes "region_ok a" "I \<subseteq> {0..r_reps a}" "J \<subseteq> {0..r_reps a}" "I \<inter> J = {}"
  shows "reps_in a I \<inter> reps_in a J = {}"
proof (cases "r_reps a = 0")
  case True
  then have "I = {} \<or> J = {}" using assms(2-4) by auto
  then show ?thesis by (auto simp: reps_in_def)
next
  case False
  then show ?thesis by (rule reps_in_disjoint [OF assms(1) _ assms(4)])
qed

text \<open>The repetitions before and after the merged ones.\<close>

lemma before_correct:
  assumes "region_ok c" "same_stride s c" "k \<le> r_reps c"
  shows "\<exists>B. (if k > 0 then map_option (\<lambda>r. [r]) (mk_region (r_start c, r_end c) (sz_sub k 1) (r_stride c))
      else Some []) = Some B \<and> regions_ok s B \<and> regions_elems B = reps_in c {..<k} \<and> n_blocks B \<le> k"
proof (cases "k = 0")
  case True
  then show ?thesis by (simp add: reps_in_def)
next
  case False
  have k: "k - 1 \<le> r_reps c" "k \<le> SIZE_MAX" using assms(3) region_reps_lt_max [OF assms(1)] by simp_all
  have sub: "sz_sub k 1 = k - 1" "sz_sub (k - 1) 0 = k - 1"
    using False k(2) by (simp_all add: sz)
  have b: "r_start c \<le> SIZE_MAX" "r_end c \<le> SIZE_MAX"
    using region_ok_end [OF assms(1)] region_ok_start_end [OF assms(1)] by simp_all
  obtain q where q: "region_get_reps c 0 (k - 1) = Some q" "regions_ok s [q]"
    "region_elems q = reps_in c {0..k - 1}" "r_reps q \<le> k - 1 - 0"
    by (rule get_reps_list [OF assms(1,2) le0 k(1)])
  have "mk_region (r_start c, r_end c) (k - 1) (r_stride c) = Some q"
    using q(1) k(1) b unfolding region_get_reps_def sub by (simp add: fenix_assert_bind)
  moreover have "{0..k - 1} = {..<k}" using False by auto
  ultimately show ?thesis using False sub q(2-4) by auto
qed

lemma after_rest:
  assumes "region_ok r" "same_stride s r" "n < r_reps r"
  shows "\<exists>A. (let n_pre = sz_add n 1; offset = sz_mul n_pre (r_stride r)
      in map_option (\<lambda>r. [r]) (mk_region (sz_add (r_start r) offset, sz_add (r_end r) offset)
        (sz_sub (r_reps r) n_pre) (r_stride r))) = Some A
    \<and> regions_ok s A \<and> regions_elems A = reps_in r {n<..r_reps r} \<and> n_blocks A \<le> r_reps r - n"
proof -
  have n: "Suc n \<le> r_reps r" using assms(3) by simp
  obtain q where q: "region_get_reps r (Suc n) (r_reps r) = Some q" "regions_ok s [q]"
    "region_elems q = reps_in r {Suc n..r_reps r}" "r_reps q \<le> r_reps r - Suc n"
    by (rule get_reps_list [OF assms(1,2) n order_refl])
  have "sz_add n 1 = Suc n" using n region_reps_lt_max [OF assms(1)] by (simp add: sz)
  moreover have "mk_region (sz_add (r_start r) (sz_mul (Suc n) (r_stride r)),
      sz_add (r_end r) (sz_mul (Suc n) (r_stride r))) (sz_sub (r_reps r) (Suc n)) (r_stride r) = Some q"
    using q(1) n by (simp add: region_get_reps_def fenix_assert_bind)
  moreover have "{Suc n..r_reps r} = {n<..r_reps r}" by auto
  ultimately show ?thesis using q(2-4) n by (auto simp: Let_def)
qed

lemma merge_found_correct:
  assumes c: "region_ok c" "same_stride s c" and i: "region_ok i" "same_stride s i"
    and dis: "region_elems c \<inter> region_elems i = {}"
    and k: "k \<le> r_reps c" and n: "n = min (r_reps c - k) (r_reps i)"
    and m: "mk_region bnds n (r_stride c) = Some m" "region_ok m" "same_stride s m"
      "region_elems m = reps_in c {k..k + n} \<union> reps_in i {0..n}" "r_reps m \<le> n"
  obtains L where "merge_found c i k n bnds = Some L" "new_regions s c i L"
proof -
  have kn: "k + n \<le> r_reps c" "n \<le> r_reps i" using k n by simp_all
  then have add: "sz_add k n = k + n" using region_reps_lt_max [OF c(1)] by (simp add: sz)
  from before_correct [OF c k] obtain B where
    B: "(if k > 0 then map_option (\<lambda>r. [r]) (mk_region (r_start c, r_end c) (sz_sub k 1) (r_stride c))
      else Some []) = Some B" "regions_ok s B" "regions_elems B = reps_in c {..<k}" "n_blocks B \<le> k"
    by blast
  let ?after = "if sz_add k n < r_reps c then
         (let n_pre = sz_add (sz_add k n) 1; offset = sz_mul n_pre (r_stride c)
          in map_option (\<lambda>r. [r])
            (mk_region (sz_add (r_start c) offset, sz_add (r_end c) offset)
              (sz_sub (r_reps c) n_pre) (r_stride c)))
       else if n < r_reps i then
         (let n_pre = sz_add n 1; offset = sz_mul n_pre (r_stride i)
          in map_option (\<lambda>r. [r])
            (mk_region (sz_add (r_start i) offset, sz_add (r_end i) offset)
              (sz_sub (r_reps i) n_pre) (r_stride i)))
       else Some []"
  have "\<exists>A. ?after = Some A \<and> regions_ok s A
      \<and> regions_elems A = reps_in c {k + n<..r_reps c} \<union> reps_in i {n<..r_reps i}
      \<and> n_blocks A \<le> (r_reps c - (k + n)) + (r_reps i - n)"
  proof (cases "k + n < r_reps c")
    case True
    then have "n = r_reps i" using n k by auto
    then have "reps_in i {n<..r_reps i} = {}" by (simp add: reps_in_def)
    with after_rest [OF c True] True show ?thesis by (auto simp: add)
  next
    case False
    then have e: "reps_in c {k + n<..r_reps c} = {}" by (simp add: reps_in_def)
    show ?thesis
    proof (cases "n < r_reps i")
      case True
      with after_rest [OF i True] False e show ?thesis by (auto simp: add)
    next
      case n': False
      then have "reps_in i {n<..r_reps i} = {}" by (simp add: reps_in_def)
      then show ?thesis using False n' e by (auto simp: add)
    qed
  qed
  then obtain A where A: "?after = Some A" "regions_ok s A"
      "regions_elems A = reps_in c {k + n<..r_reps c} \<union> reps_in i {n<..r_reps i}"
      "n_blocks A \<le> (r_reps c - (k + n)) + (r_reps i - n)" by blast
  let ?L = "m # B @ A"
  have call: "merge_found c i k n bnds = Some ?L"
    unfolding merge_found_def m(1) B(1) A(1) Option.bind.bind_lunit ..
  have subs: "{..<k} \<subseteq> {0..r_reps c}" "{k..k + n} \<subseteq> {0..r_reps c}" "{k + n<..r_reps c} \<subseteq> {0..r_reps c}"
    "{0..n} \<subseteq> {0..r_reps i}" "{n<..r_reps i} \<subseteq> {0..r_reps i}"
    using k kn by auto
  have gaps: "{..<k} \<inter> {k..k + n} = {}" "{..<k} \<inter> {k + n<..r_reps c} = {}"
    "{k..k + n} \<inter> {k + n<..r_reps c} = {}" "{0..n} \<inter> {n<..r_reps i} = {}" by auto
  note cut = reps_in_apart [OF c(1) subs(1,2) gaps(1)] reps_in_apart [OF c(1) subs(1,3) gaps(2)]
    reps_in_apart [OF c(1) subs(2,3) gaps(3)] reps_in_apart [OF i(1) subs(4,5) gaps(4)]
  note inside = subs(1-3) [THEN reps_in_sub] subs(4-5) [THEN reps_in_sub]
  have "regions_elems [m] \<inter> regions_elems B = {}"
    using m(4) B(3) cut(1) inside dis by (simp only: regions_elems_Cons regions_elems_Nil) blast
  moreover have "regions_ok s [m]" using m(2,3) by (simp add: regions_ok_single)
  ultimately have ok1: "regions_ok s (sset_merge [m] B)" by (intro regions_ok_merge B(2))
  have "regions_elems (sset_merge [m] B) \<inter> regions_elems A = {}"
    unfolding regions_elems_merge A(3) B(3) regions_elems_Cons regions_elems_Nil m(4)
    using cut inside dis by blast
  then have ok2: "regions_ok s (sset_merge (sset_merge [m] B) A)" by (rule regions_ok_merge [OF ok1 A(2)])
  have fold: "sset_merge [] ?L = sset_merge (sset_merge [m] B) A"
    by (simp add: sset_merge_def sset_insert_def)
  have "{0..r_reps c} = {..<k} \<union> {k..k + n} \<union> {k + n<..r_reps c}"
    "{0..r_reps i} = {0..n} \<union> {n<..r_reps i}" using k kn by auto
  then have "region_elems c = reps_in c {..<k} \<union> reps_in c {k..k + n} \<union> reps_in c {k + n<..r_reps c}"
    "region_elems i = reps_in i {0..n} \<union> reps_in i {n<..r_reps i}"
    by (simp_all only: region_elems_reps_in reps_in_Un)
  then have el: "regions_elems ?L = region_elems c \<union> region_elems i"
    unfolding regions_elems_Cons regions_elems_append A(3) B(3) m(4) by blast
  have meets: "region_elems m \<inter> region_elems c \<noteq> {}" "region_elems m \<inter> region_elems i \<noteq> {}"
  proof -
    have "rep_block c k \<noteq> {}" "rep_block i 0 \<noteq> {}"
      using region_ok_start_end [OF c(1)] region_ok_start_end [OF i(1)] by simp_all
    moreover have "rep_block c k \<subseteq> reps_in c {k..k + n}" "rep_block i 0 \<subseteq> reps_in i {0..n}"
      unfolding reps_in_def by (rule UN_upper, simp)+
    ultimately show "region_elems m \<inter> region_elems c \<noteq> {}" "region_elems m \<inter> region_elems i \<noteq> {}"
      using m(4) inside(2,4) by blast+
  qed
  have out: "r \<notin> set ?L" if "region_elems m \<inter> region_elems r \<noteq> {}" "m \<noteq> r" for r
  proof
    assume "r \<in> set ?L"
    then have "r \<in> set (sset_merge (sset_merge [m] B) A)" "m \<in> set (sset_merge (sset_merge [m] B) A)"
      by (auto simp: sset_merge_set)
    then show False using ok2 that unfolding regions_ok_def regions_disjoint_def by metis
  qed
  have "c \<notin> set ?L" "i \<notin> set ?L" using out meets dis by (metis inf_commute)+
  moreover have "n_blocks ?L < r_reps c + r_reps i + 2" using m(5) B(4) A(4) kn by simp
  ultimately show ?thesis using call ok2 el by (intro that [of ?L]) (simp_all add: new_regions_def fold)
qed

section \<open>When a pair merges\<close>

text \<open>Two ordered disjoint regions, the second in reach of the first.\<close>

lemma pair_position:
  assumes "region_ok c" "region_ok i" "c < i" "region_elems c \<inter> region_elems i = {}"
  shows "r_end c < r_start i" "r_start i \<le> IDX_MAX + 1" "r_end c \<le> IDX_MAX"
    "k \<le> r_reps c \<Longrightarrow> x \<in> rep_block c k \<Longrightarrow> y \<le> r_reps i \<Longrightarrow> x \<notin> rep_block i y"
proof -
  have c0: "rep_block c 0 \<subseteq> region_elems c" by (rule rep_block_elems) simp
  have i0: "r_start i \<in> region_elems i" by (rule region_elems_ends [OF assms(2)])
  have "r_start c \<le> r_start i" using assms(3) by (auto simp: region_less_iff split: if_splits)
  then show lt: "r_end c < r_start i"
    using c0 i0 assms(4) by (metis atLeastAtMost_iff disjoint_iff add.right_neutral mult_zero_left
      not_less subsetD)
  show "r_start i \<le> IDX_MAX + 1"
    using region_ok_blockD(2) [OF assms(2)] region_ok_stridedD(3) [OF assms(2)] region_ok_start_end [OF assms(2)]
    by (cases "r_reps i = 0") auto
  then show "r_end c \<le> IDX_MAX" using lt by simp
  show "x \<notin> rep_block i y" if "k \<le> r_reps c" "x \<in> rep_block c k" "y \<le> r_reps i"
    using that rep_block_elems [of k c] rep_block_elems [of y i] assms(4) by blast
qed

text \<open>The merged region, where the second region starts right after repetition \<open>k\<close>.\<close>

lemma merged_after:
  assumes c: "region_ok c" "same_stride s c" and i: "region_ok i" "same_stride s i"
    and pos: "r_start i = r_end c + k * r_stride c + 1" "k \<le> r_reps c"
    and lt: "c < i" and dis: "region_elems c \<inter> region_elems i = {}"
    and n: "n = min (r_reps c - k) (r_reps i)"
  obtains m where "mk_region (r_start c + k * r_stride c, r_end i) n (r_stride c) = Some m"
    "region_ok m" "same_stride s m" "r_reps m \<le> n"
    "region_elems m = reps_in c {k..k + n} \<union> reps_in i {0..n}"
proof -
  let ?S = "r_stride c" and ?lo = "r_start c + k * r_stride c"
  note p = pair_position [OF c(1) i(1) lt dis]
  have le: "r_start c \<le> r_end c" "r_start i \<le> r_end i"
    by (rule region_ok_start_end [OF c(1)] region_ok_start_end [OF i(1)])+
  show ?thesis
  proof (cases "n = 0")
    case True
    have lohi: "?lo \<le> r_end i" "r_end i \<le> SIZE_MAX" using pos le region_ok_end [OF i(1)] by simp_all
    have "?lo \<le> IDX_MAX + 1" using pos p(2) le(1) by linarith
    moreover have "r_end i \<le> IDX_MAX \<or> r_end i = SIZE_MAX"
      using region_ok_blockD(3) [OF i(1)] region_ok_stridedD(3) [OF i(1)] by (cases "r_reps i = 0") auto
    ultimately have ok: "region_ok (block ?lo (r_end i))" using lohi by (simp add: region_ok_def)
    have "{?lo..r_end i} = rep_block c k \<union> rep_block i 0" using pos(1) le by auto
    then have "region_elems (block ?lo (r_end i)) = reps_in c {k..k + n} \<union> reps_in i {0..n}"
      using True by (simp add: region_elems_block reps_in_def)
    with ok show ?thesis using True mk_region_no_reps [OF lohi]
      by (intro that [of "block ?lo (r_end i)"]) (simp_all add: same_stride_def)
  next
    case False
    then have st: "k < r_reps c" "r_reps i \<noteq> 0" "r_reps c \<noteq> 0" using n by auto
    then have S: "r_stride i = ?S" using c(2) i(2) by (simp add: same_stride_def)
    note sc = region_ok_stridedD [OF c(1) st(3)] and si = region_ok_stridedD [OF i(1) st(2)]
    have fit: "r_end i + 1 \<le> ?lo + ?S"
    proof (rule ccontr)
      assume far: "\<not> r_end i + 1 \<le> ?lo + ?S"
      have "?lo + ?S \<in> rep_block c (Suc k)" using le(1) by simp
      moreover have "?lo + ?S \<in> rep_block i 0" using far pos(1) sc(1) by simp
      ultimately show False using p(4) [of "Suc k" _ 0] st(1) by auto
    qed
    have "?S * n \<le> ?S * r_reps i" using n by simp
    then have top: "r_end i + ?S * n \<le> IDX_MAX" using si(2) [unfolded S] by linarith
    have lohi: "?lo \<le> r_end i" "?S \<le> IDX_MAX" using pos le sc(3) by simp_all
    obtain m where m: "mk_region (?lo, r_end i) n ?S = Some m" "region_ok m"
        "region_elems m = rep_elems ?lo (r_end i) n ?S" "r_reps m = 0 \<or> r_reps m = n \<and> r_stride m = ?S"
      using mk_region_correct [OF lohi(1) fit top lohi(2)] by metis
    have "rep_elems ?lo (r_end i) n ?S = reps_in c {k..k + n} \<union> reps_in i {0..n}"
    proof -
      have "{?lo + j * ?S .. r_end i + j * ?S} = rep_block c (k + j) \<union> rep_block i j" for j
        using pos(1) le S by (auto simp: algebra_simps)
      moreover have "{k..k + n} = (\<lambda>j. k + j) ` {0..n}" by (simp add: image_add_atLeastAtMost)
      ultimately show ?thesis
        unfolding rep_elems_def reps_in_def by (auto simp del: image_add_atLeastAtMost image_add_atLeastAtMost')
    qed
    moreover have "?S = s" using c(2) st(3) by (simp add: same_stride_def)
    ultimately show ?thesis using m by (intro that [of m]) (auto simp: same_stride_def)
  qed
qed

text \<open>The merged region, where the second region ends right before repetition \<open>k\<close>.\<close>

lemma merged_before:
  assumes c: "region_ok c" "same_stride s c" and i: "region_ok i" "same_stride s i"
    and pos: "r_end i + 1 = r_start c + k * r_stride c" "k \<le> r_reps c" "k \<noteq> 0"
    and lt: "c < i" and dis: "region_elems c \<inter> region_elems i = {}"
    and n: "n = min (r_reps c - k) (r_reps i)"
  obtains m where "mk_region (r_start i, r_end c + k * r_stride c) n (r_stride c) = Some m"
    "region_ok m" "same_stride s m" "r_reps m \<le> n"
    "region_elems m = reps_in c {k..k + n} \<union> reps_in i {0..n}"
proof -
  let ?S = "r_stride c" and ?hi = "r_end c + k * r_stride c"
  note p = pair_position [OF c(1) i(1) lt dis]
  have le: "r_start c \<le> r_end c" "r_start i \<le> r_end i"
    by (rule region_ok_start_end [OF c(1)] region_ok_start_end [OF i(1)])+
  have st: "r_reps c \<noteq> 0" using pos by simp
  note sc = region_ok_stridedD [OF c(1) st]
  have fit: "?hi + 1 \<le> r_start i + ?S"
  proof (rule ccontr)
    assume far: "\<not> ?hi + 1 \<le> r_start i + ?S"
    obtain j where j: "k = Suc j" using pos(3) by (cases k) auto
    let ?x = "r_end c + j * ?S"
    have "?x \<in> rep_block c j" using le(1) by simp
    moreover have "?x \<in> rep_block i 0" using far j pos(1) sc(1) by simp
    ultimately show False using p(4) [of j ?x 0] pos(2) j by auto
  qed
  have "(k + n) * ?S \<le> r_reps c * ?S" using n pos(2) by (intro mult_le_mono1) simp
  then have top: "?hi + ?S * n \<le> IDX_MAX" using sc(2) by (simp add: algebra_simps)
  have lohi: "r_start i \<le> ?hi" "?S \<le> IDX_MAX" using pos le sc(3) by simp_all
  obtain m where m: "mk_region (r_start i, ?hi) n ?S = Some m" "region_ok m"
      "region_elems m = rep_elems (r_start i) ?hi n ?S" "r_reps m = 0 \<or> r_reps m = n \<and> r_stride m = ?S"
    using mk_region_correct [OF lohi(1) fit top lohi(2)] by metis
  have "rep_elems (r_start i) ?hi n ?S = reps_in c {k..k + n} \<union> reps_in i {0..n}"
  proof -
    have "{r_start i + j * ?S .. ?hi + j * ?S} = rep_block c (k + j) \<union> rep_block i j" if "j \<le> n" for j
    proof -
      have "j = 0 \<or> r_stride i = ?S"
        using that n c(2) i(2) st by (cases "r_reps i = 0") (auto simp: same_stride_def)
      then show ?thesis using pos(1) le by (auto simp: algebra_simps)
    qed
    moreover have "{k..k + n} = (\<lambda>j. k + j) ` {0..n}" by (simp add: image_add_atLeastAtMost)
    ultimately show ?thesis
      unfolding rep_elems_def reps_in_def by (auto simp del: image_add_atLeastAtMost image_add_atLeastAtMost')
  qed
  moreover have "?S = s" using c(2) st by (simp add: same_stride_def)
  ultimately show ?thesis using m by (intro that [of m]) (auto simp: same_stride_def)
qed

lemma merge_pair_correct:
  assumes c: "region_ok c" "same_stride s c" and i: "region_ok i" "same_stride s i"
    and lt: "c < i" and dis: "region_elems c \<inter> region_elems i = {}"
    and reach: "r_start i - 1 \<le> snd (region_range c)"
  shows "merge_pair c i = Some None \<or> (\<exists>L. merge_pair c i = Some (Some L) \<and> new_regions s c i L)"
proof -
  let ?S = "r_stride c"
  note p = pair_position [OF c(1) i(1) lt dis]
  have le: "r_start c \<le> r_end c" "r_start i \<le> r_end i"
    by (rule region_ok_start_end [OF c(1)] region_ok_start_end [OF i(1)])+
  have rng: "snd (region_range c) = r_end c + ?S * r_reps c" by (simp add: region_range_ok c(1))
  have small: "r_start i \<le> SIZE_MAX" "r_end c \<le> SIZE_MAX" "r_reps c \<le> SIZE_MAX"
    using p(2,3) region_reps_lt_max [OF c(1)] by (simp_all add: SIZE_IDX)
  have subs: "sz_sub (r_start i) 1 = r_start i - 1"
    using p(1) small(1) by (intro sz_sub_exact) simp_all
  have de: "sz_sub (sz_sub (r_start i) 1) (r_end c) = r_start i - 1 - r_end c"
    unfolding subs using p(1) small(1) by (intro sz_sub_exact) simp_all
  show ?thesis
  proof (cases "(r_start i - 1 - r_end c) mod ?S = 0")
    case True
    define k where "k = (r_start i - 1 - r_end c) div ?S"
    have "r_start i - 1 - r_end c = k * ?S" using True by (auto simp: k_def)
    then have pos: "r_start i = r_end c + k * ?S + 1" using p(1) by linarith
    have k: "k \<le> r_reps c"
    proof (cases "r_reps c = 0")
      case True
      then have "k * ?S = 0" using pos reach rng by simp
      then show ?thesis using region_ok_blockD(1) [OF c(1) True] by simp
    next
      case False
      have "k * ?S \<le> r_reps c * ?S" using pos reach rng by (simp add: mult.commute)
      then show ?thesis using region_ok_stridedD(5) [OF c(1) False] by simp
    qed
    define n where "n = min (r_reps c - k) (r_reps i)"
    have nk: "min (sz_sub (r_reps c) k) (r_reps i) = n"
      using k small(3) by (simp add: n_def sz)
    have "k * ?S \<le> SIZE_MAX" "r_start c + k * ?S \<le> SIZE_MAX" using pos small(1) le(1) by simp_all
    then have lo: "sz_add (r_start c) (sz_mul k ?S) = r_start c + k * ?S" by (simp add: sz)
    obtain m where m: "mk_region (r_start c + k * ?S, r_end i) n ?S = Some m"
        "region_ok m" "same_stride s m" "r_reps m \<le> n"
        "region_elems m = reps_in c {k..k + n} \<union> reps_in i {0..n}"
      by (rule merged_after [OF c i pos k lt dis n_def])
    obtain L where "merge_found c i k n (r_start c + k * ?S, r_end i) = Some L" "new_regions s c i L"
      by (rule merge_found_correct [OF c i dis k n_def m(1-3,5,4)])
    moreover have "merge_pair c i = map_option Some (merge_found c i k n (r_start c + k * ?S, r_end i))"
      unfolding merge_pair_def Let_def de if_P [OF True] k_def [symmetric] nk lo ..
    ultimately show ?thesis by simp
  next
    case no_end: False
    have far: "r_start i \<noteq> snd (region_range c) + 1" using no_end by (auto simp: rng)
    have hit: "snd (region_range c) \<in> region_elems c" "r_start i \<in> region_elems i"
      using region_elems_ends [OF c(1)] region_elems_ends [OF i(1)] by auto
    have inside: "r_start i \<le> snd (region_range c)" using far reach by linarith
    have i0: "rep_block i 0 \<subseteq> region_elems i" by (rule rep_block_elems) simp
    have below: "r_end i < snd (region_range c)"
    proof (rule ccontr)
      assume "\<not> r_end i < snd (region_range c)"
      then have "snd (region_range c) \<in> rep_block i 0" using inside by simp
      then show False using i0 hit(1) dis by blast
    qed
    have st: "r_reps c \<noteq> 0"
    proof
      assume "r_reps c = 0"
      then show False using inside p(1) by (simp add: rng)
    qed
    note sc = region_ok_stridedD [OF c(1) st]
    have e: "r_end i + 1 \<le> IDX_MAX" using below region_range_bound [OF c(1) st] by linarith
    then have me: "sz_add (r_end i) 1 = r_end i + 1" by (intro sz_add_exact) (simp add: SIZE_IDX)
    have ds: "sz_sub (sz_add (r_end i) 1) (r_start c) = r_end i + 1 - r_start c"
      unfolding me using p(1) le e by (intro sz_sub_exact) (simp_all add: SIZE_IDX)
    show ?thesis
    proof (cases "(r_end i + 1 - r_start c) mod ?S = 0")
      case False
      then show ?thesis
        unfolding merge_pair_def Let_def de ds if_not_P [OF no_end] if_not_P [OF False] by simp
    next
      case True
      define k where "k = (r_end i + 1 - r_start c) div ?S"
      have "r_end i + 1 - r_start c = k * ?S" using True by (auto simp: k_def)
      then have pos: "r_end i + 1 = r_start c + k * ?S" using p(1) le by linarith
      have k0: "k \<noteq> 0" using pos p(1) le by (cases k) auto
      have k: "k \<le> r_reps c"
      proof (rule ccontr)
        assume "\<not> k \<le> r_reps c"
        then have "Suc (r_reps c) * ?S \<le> k * ?S" by (intro mult_le_mono1) simp
        then show False using pos below sc(1) by (simp add: rng algebra_simps)
      qed
      define n where "n = min (r_reps c - k) (r_reps i)"
      have nk: "min (sz_sub (r_reps c) k) (r_reps i) = n"
        using k small(3) by (simp add: n_def sz)
      have "r_end c + k * ?S \<le> SIZE_MAX" by (rule region_rep_bound(1) [OF c(1) k])
      then have hi: "sz_add (r_end c) (sz_mul k ?S) = r_end c + k * ?S" by (simp add: sz)
      obtain m where m: "mk_region (r_start i, r_end c + k * ?S) n ?S = Some m"
          "region_ok m" "same_stride s m" "r_reps m \<le> n"
          "region_elems m = reps_in c {k..k + n} \<union> reps_in i {0..n}"
        by (rule merged_before [OF c i pos k k0 lt dis n_def])
      obtain L where "merge_found c i k n (r_start i, r_end c + k * ?S) = Some L" "new_regions s c i L"
        by (rule merge_found_correct [OF c i dis k n_def m(1-3,5,4)])
      moreover have "merge_pair c i = map_option Some (merge_found c i k n (r_start i, r_end c + k * ?S))"
        unfolding merge_pair_def Let_def de ds if_not_P [OF no_end] if_P [OF True] k_def [symmetric] nk hi ..
      ultimately show ?thesis by simp
    qed
  qed
qed

lemma merge_scan_correct:
  assumes c: "region_ok c" "same_stride s c"
    and "\<forall>i \<in> set later. region_ok i \<and> same_stride s i \<and> c < i \<and> region_elems c \<inter> region_elems i = {}"
  shows "merge_scan c later = Some None \<or>
    (\<exists>i \<in> set later. \<exists>L. merge_scan c later = Some (Some (i, L)) \<and> new_regions s c i L)"
  using assms(3)
proof (induction later)
  case Nil
  then show ?case by simp
next
  case (Cons i later)
  then have i: "region_ok i" "same_stride s i" "c < i" "region_elems c \<inter> region_elems i = {}" by simp_all
  note p = pair_position [OF c(1) i(1,3,4)]
  have "r_start i \<le> SIZE_MAX" using p(2) by (simp add: SIZE_IDX)
  then have sub: "sz_sub (r_start i) 1 = r_start i - 1" using p(1) by (intro sz_sub_exact) simp_all
  show ?case
  proof (cases "snd (region_range c) < r_start i - 1")
    case True
    then show ?thesis by (simp add: sub [simplified])
  next
    case False
    then have "r_start i - 1 \<le> snd (region_range c)" by simp
    from merge_pair_correct [OF c i(1,2,3,4) this] show ?thesis
    proof
      assume "merge_pair c i = Some None"
      then show ?thesis using Cons False by (auto simp: sub [simplified])
    next
      assume "\<exists>L. merge_pair c i = Some (Some L) \<and> new_regions s c i L"
      then show ?thesis using False by (auto simp: sub [simplified])
    qed
  qed
qed

section \<open>The whole pass\<close>

text \<open>The pass ends: a merge lowers the number of blocks, otherwise the iterator moves on.\<close>

definition region_weight :: "data_region list \<Rightarrow> nat" where
  "region_weight R = (\<Sum>r \<in> set R. r_reps r + 1)"

lemma sum_insert_le: "sum (f :: 'a \<Rightarrow> nat) (insert x A) \<le> f x + sum f A" if "finite A"
  using that by (cases "x \<in> A") (simp_all add: insert_absorb)

lemma weight_list_le: "region_weight L \<le> n_blocks L"
proof (induction L)
  case (Cons r L)
  have "region_weight (r # L) \<le> (r_reps r + 1) + region_weight L"
    unfolding region_weight_def list.set by (rule sum_insert_le) simp
  then show ?case using Cons by simp
qed (simp add: region_weight_def)

lemma UN_pair_split:
  "c \<in> A \<Longrightarrow> i \<in> A \<Longrightarrow> (\<Union>r \<in> A. f r) = (\<Union>r \<in> A - {c, i}. f r) \<union> (f c \<union> f i)"
  by blast

lemma replace_pair_correct:
  assumes R: "regions_ok s R" and mem: "c \<in> set R" "i \<in> set R" "c \<noteq> i" and L: "new_regions s c i L"
  defines "R' \<equiv> sset_erase c (sset_erase i (sset_merge R L))"
  shows "regions_ok s R'" "regions_elems R' = regions_elems R" "region_weight R' < region_weight R"
    "set R' = set R - {c, i} \<union> set L"
proof -
  let ?K = "sset_erase c (sset_erase i R)"
  have sok: "sset_ok R" using R by (simp add: regions_ok_def)
  have K: "set ?K = set R - {c, i}" "sset_ok ?K" using sok by (auto simp: sset)
  have Kok: "regions_ok s ?K" by (rule regions_ok_subset [OF R K(2)]) (use K(1) in blast)
  have new: "regions_ok s (sset_merge [] L)" "regions_elems L = region_elems c \<union> region_elems i"
    "c \<notin> set L" "i \<notin> set L" "n_blocks L < r_reps c + r_reps i + 2"
    using L by (simp_all add: new_regions_def)
  have apart: "region_elems r \<inter> regions_elems ?K = {}" if "r = c \<or> r = i" for r
    by (rule regions_ok_apart [OF R]) (use K(1) mem that in auto)
  have "regions_elems ?K \<inter> regions_elems (sset_merge [] L) = {}"
    using apart [of c] apart [of i] new(2) unfolding regions_elems_merge by auto
  then have ok: "regions_ok s (sset_merge ?K (sset_merge [] L))" by (rule regions_ok_merge [OF Kok new(1)])
  show set: "set R' = set R - {c, i} \<union> set L"
    using new(3,4) by (auto simp: R'_def sset)
  then have "set R' = set (sset_merge ?K (sset_merge [] L))" using K(1) by (simp add: sset_merge_set)
  moreover have "sset_ok R'" using sok by (simp add: R'_def sset)
  ultimately have "R' = sset_merge ?K (sset_merge [] L)"
    using ok by (intro sset_eq) (auto simp: regions_ok_def)
  then show "regions_ok s R'" using ok by simp
  have "regions_elems R = (\<Union>r \<in> set R - {c, i}. region_elems r) \<union> (region_elems c \<union> region_elems i)"
    unfolding regions_elems_def by (rule UN_pair_split [OF mem(1,2)])
  then show "regions_elems R' = regions_elems R"
    using new(2) unfolding regions_elems_def set by simp
  let ?f = "\<lambda>r :: data_region. r_reps r + 1"
  have "sum ?f (set R') \<le> sum ?f (set R - {c, i}) + sum ?f (set L)"
    unfolding set by (simp add: sum_Un_nat)
  also have "sum ?f (set L) \<le> n_blocks L" using weight_list_le [of L] by (simp add: region_weight_def)
  also have "n_blocks L < ?f c + ?f i" using new(5) by simp
  also have "sum ?f (set R - {c, i}) + (?f c + ?f i) = sum ?f (set R)"
  proof -
    have "sum ?f (set R) = sum ?f (set R - {c, i}) + sum ?f {c, i}"
      using mem by (intro sum.subset_diff) auto
    then show ?thesis using mem(3) by simp
  qed
  finally show "region_weight R' < region_weight R" by (simp add: region_weight_def)
qed

lemma sset_next_card:
  "sset_next c R = Some d \<Longrightarrow> card {r \<in> set R. d < r} < card {r \<in> set R. c < r}"
proof -
  assume "sset_next c R = Some d"
  then have d: "d \<in> set R" "c < d" by (auto dest: sset_next_SomeD)
  then have "{r \<in> set R. d < r} \<subset> {r \<in> set R. c < r}" by (auto dest: less_trans)
  then show ?thesis by (intro psubset_card_mono) simp_all
qed

lemma merge_loop_correct:
  assumes "regions_ok s R" "\<forall>c. it = Some c \<longrightarrow> c \<in> set R"
  shows "\<exists>R'. merge_loop R it = Some R' \<and> regions_ok s R' \<and> regions_elems R' = regions_elems R"
  using assms
proof (induction "(region_weight R, case it of None \<Rightarrow> 0 | Some c \<Rightarrow> Suc (card {r \<in> set R. c < r}))"
    arbitrary: R it rule: wf_induct_rule [OF wf_lex_prod [OF wf_less wf_less]])
  case 1
  note IH = 1(1)
  show ?case
  proof (cases it)
    case None
    then show ?thesis using 1 by (subst merge_loop.simps) simp
  next
    case (Some c)
    then have mem: "c \<in> set R" using 1(3) by simp
    note c = regions_okD [OF 1(2) mem]
    let ?later = "filter (\<lambda>r. c < r) R"
    have later: "\<forall>i \<in> set ?later. region_ok i \<and> same_stride s i \<and> c < i \<and> region_elems c \<inter> region_elems i = {}"
    proof
      fix i
      assume "i \<in> set ?later"
      then have i: "i \<in> set R" "c < i" by auto
      then have "region_elems c \<inter> region_elems i = {}"
        using 1(2) mem unfolding regions_ok_def regions_disjoint_def by auto
      with i regions_okD [OF 1(2) i(1)] show
        "region_ok i \<and> same_stride s i \<and> c < i \<and> region_elems c \<inter> region_elems i = {}" by simp
    qed
    show ?thesis using merge_scan_correct [OF c later]
    proof
      assume none: "merge_scan c ?later = Some None"
      have "((region_weight R, case sset_next c R of None \<Rightarrow> 0 | Some c \<Rightarrow> Suc (card {r \<in> set R. c < r})),
          (region_weight R, case it of None \<Rightarrow> 0 | Some c \<Rightarrow> Suc (card {r \<in> set R. c < r})))
          \<in> {(x, y). x < y} <*lex*> {(x, y). x < y}"
        using Some sset_next_card [of c R] by (auto split: option.split)
      then obtain R' where "merge_loop R (sset_next c R) = Some R'" "regions_ok s R'"
          "regions_elems R' = regions_elems R"
        using IH [of R "sset_next c R"] 1(2) sset_next_SomeD [of c R] by auto
      then show ?thesis using none Some by (subst merge_loop.simps) simp
    next
      assume "\<exists>i \<in> set ?later. \<exists>L. merge_scan c ?later = Some (Some (i, L)) \<and> new_regions s c i L"
      then obtain i L where i: "i \<in> set R" "c < i" and
          scan: "merge_scan c ?later = Some (Some (i, L))" and L: "new_regions s c i L" by auto
      have "c \<noteq> i" using i(2) by auto
      note rp = replace_pair_correct [OF 1(2) mem i(1) this L]
      let ?R1 = "sset_erase i (sset_merge R L)"
      let ?R' = "sset_erase c ?R1" and ?it = "sset_next c ?R1"
      have nxt: "\<forall>d. ?it = Some d \<longrightarrow> d \<in> set ?R'"
        using sset_next_SomeD [of c ?R1] by (auto simp: sset)
      obtain R' where "merge_loop ?R' ?it = Some R'" "regions_ok s R'"
          "regions_elems R' = regions_elems ?R'"
        using IH [of ?R' ?it] rp(1,3) nxt by auto
      then show ?thesis using scan Some rp(2) by (subst merge_loop.simps) (simp add: Let_def)
    qed
  qed
qed

lemma merge_regions_correct:
  assumes "regions_ok s R"
  obtains R' where "merge_regions R = Some R'" "regions_ok s R'" "regions_elems R' = regions_elems R"
proof -
  let ?it = "case R of [] \<Rightarrow> None | r # _ \<Rightarrow> Some r"
  have "\<forall>c. ?it = Some c \<longrightarrow> c \<in> set R" by (auto split: list.splits)
  from merge_loop_correct [OF assms this] that show ?thesis by (auto simp: merge_regions_def)
qed

end
