(* ===== verification/Subset.thy ===== *)
theory Subset
  imports Subset_Merge
begin

text \<open>
  \<open>fenix::DataSubset\<close> (include/fenix/data/subset.hpp, src/data/subset.cpp): a set of
  element indices kept as an ordered set of regions.  This theory holds the definitions;
  the set operations are shown to be the operations on sets of indices in the theories
  that follow.  \<open>None\<close> is a failed assertion.
\<close>

datatype subset_type = BasicSubset | PrestagedSubset

record data_subset =
  ss_regions :: "data_region list"
  ss_type :: subset_type

definition basic_subset :: "data_region list \<Rightarrow> data_subset" where
  "basic_subset R = \<lparr>ss_regions = R, ss_type = BasicSubset\<rparr>"

definition is_basic :: "data_subset \<Rightarrow> bool" where
  "is_basic d \<longleftrightarrow> ss_type d = BasicSubset"

section \<open>Constructors\<close>

text \<open>\<open>n\<close> blocks at distance \<open>stride\<close>; the single block and \<open>[0, end]\<close> are special cases.\<close>

definition subset_strided :: "nat \<times> nat \<Rightarrow> nat \<Rightarrow> nat \<Rightarrow> data_subset option" where
  "subset_strided b n stride = do {
     fenix_assert (fst b \<le> snd b);
     fenix_assert (n > 0);
     fenix_assert (n = 1 \<or> sz_add (fst b) stride > snd b);
     r \<leftarrow> mk_region b (sz_sub n 1) stride;
     Some (basic_subset [r])
   }"

definition subset_block :: "nat \<times> nat \<Rightarrow> data_subset option" where
  "subset_block b = subset_strided b 1 SIZE_MAX"

definition subset_upto :: "nat \<Rightarrow> data_subset option" where
  "subset_upto e = subset_block (0, e)"

text \<open>A list of blocks, in any order.\<close>

fun insert_blocks :: "data_region list \<Rightarrow> (nat \<times> nat) list \<Rightarrow> data_region list option" where
  "insert_blocks R [] = Some R"
| "insert_blocks R (b # bs) = do {
     fenix_assert (fst b \<le> snd b);
     r \<leftarrow> mk_block b;
     insert_blocks (sset_insert r R) bs
   }"

definition subset_blocks :: "(nat \<times> nat) list \<Rightarrow> data_subset option" where
  "subset_blocks bs = do {
     R \<leftarrow> insert_blocks [] bs;
     R \<leftarrow> merge_regions R;
     Some (basic_subset R)
   }"

text \<open>The C interface passes two arrays of \<open>int\<close>, converted to \<open>size_t\<close>.\<close>

definition size_of_int :: "int \<Rightarrow> nat" where
  "size_of_int i = nat (i mod (int SIZE_MAX + 1))"

definition subset_arrays :: "int \<Rightarrow> int list \<Rightarrow> int list \<Rightarrow> data_subset option" where
  "subset_arrays num_blocks firsts seconds = do {
     fenix_assert (num_blocks > 0);
     subset_blocks (map (\<lambda>k. (size_of_int (firsts ! k), size_of_int (seconds ! k)))
       [0..<nat num_blocks])
   }"

section \<open>Queries\<close>

definition subset_empty :: "data_subset \<Rightarrow> bool option" where
  "subset_empty d = do { fenix_assert (is_basic d); Some (ss_regions d = []) }"

definition regions_start :: "data_region list \<Rightarrow> nat" where
  "regions_start R = (case R of [] \<Rightarrow> SIZE_MAX | r # _ \<Rightarrow> r_start r)"

definition regions_end :: "data_region list \<Rightarrow> nat" where
  "regions_end R =
     (if R = [] then SIZE_MAX else fold (\<lambda>r m. max m (snd (region_range r))) R 0)"

definition subset_start :: "data_subset \<Rightarrow> nat option" where
  "subset_start d = do { fenix_assert (is_basic d); Some (regions_start (ss_regions d)) }"

definition subset_end :: "data_subset \<Rightarrow> nat option" where
  "subset_end d = do { fenix_assert (is_basic d); Some (regions_end (ss_regions d)) }"

definition subset_range :: "data_subset \<Rightarrow> (nat \<times> nat) option" where
  "subset_range d = do { s \<leftarrow> subset_start d; e \<leftarrow> subset_end d; Some (s, e) }"

definition subset_is_bounded :: "data_subset \<Rightarrow> bool option" where
  "subset_is_bounded d = do {
     em \<leftarrow> subset_empty d;
     if em then Some True else map_option (\<lambda>e. e \<noteq> SIZE_MAX) (subset_end d)
   }"

text \<open>The regions cut to an interval.\<close>

fun bound_loop ::
  "data_region \<Rightarrow> data_region list \<Rightarrow> data_region list \<Rightarrow> data_region list option" where
  "bound_loop bnds ret [] = Some ret"
| "bound_loop bnds ret (r # R) =
     (if r_start r > r_end bnds then Some ret
      else if snd (region_range r) < r_start bnds then bound_loop bnds ret R
      else do { v \<leftarrow> region_and r bnds; bound_loop bnds (sset_merge ret v) R })"

definition bounded_range :: "data_subset \<Rightarrow> nat \<Rightarrow> nat \<Rightarrow> data_region list option" where
  "bounded_range d lo hi = do {
     fenix_assert (is_basic d);
     if ss_regions d = [] then Some []
     else if regions_start (ss_regions d) \<ge> lo \<and> regions_end (ss_regions d) \<le> hi
     then Some (ss_regions d)
     else do { bnds \<leftarrow> mk_block (lo, hi); bound_loop bnds [] (ss_regions d) }
   }"

definition bounded_regions :: "data_subset \<Rightarrow> nat \<Rightarrow> data_region list option" where
  "bounded_regions d max_idx = bounded_range d 0 max_idx"

definition subset_bounded :: "data_subset \<Rightarrow> nat \<Rightarrow> data_subset option" where
  "subset_bounded d max_idx = map_option basic_subset (bounded_regions d max_idx)"

definition subset_bound :: "data_subset \<Rightarrow> nat \<Rightarrow> data_subset option" where
  "subset_bound d max_idx =
     (if max_idx = SIZE_MAX then Some d
      else do {
        em \<leftarrow> subset_empty d;
        if em then Some d
        else do {
          e \<leftarrow> subset_end d;
          if e \<le> max_idx then Some d
          else map_option (\<lambda>R. d\<lparr>ss_regions := R\<rparr>) (bounded_regions d max_idx)
        }
      })"

fun count_loop :: "nat \<Rightarrow> data_region list \<Rightarrow> nat" where
  "count_loop ret [] = ret"
| "count_loop ret (r # R) =
     (if region_count r = SIZE_MAX then 0 else count_loop (sz_add ret (region_count r)) R)"

definition subset_count :: "data_subset \<Rightarrow> nat \<Rightarrow> nat option" where
  "subset_count d max_index = do {
     fenix_assert (is_basic d);
     map_option (count_loop 0) (bounded_regions d max_index)
   }"

definition subset_max_count :: "data_subset \<Rightarrow> nat option" where
  "subset_max_count d = map_option (\<lambda>e. sz_add e 1) (subset_end d)"

definition subset_includes :: "data_subset \<Rightarrow> nat \<Rightarrow> bool option" where
  "subset_includes d idx = do {
     fenix_assert (is_basic d);
     map_option (\<lambda>R. R \<noteq> []) (bounded_range d idx idx)
   }"

section \<open>Sweeping a set\<close>

text \<open>
  Three loops of the class walk an ordered set with an iterator while they replace
  elements by what is left of them.  The iterator moves to the next element before the
  replacement is merged in, so that a merged element is visited only if it lies after
  that element.  What a loop does at one element is a \<open>sweep_step\<close>: leave it, leave the
  loop, or replace it.
\<close>

datatype sweep_step = Keep | Stop | Replace "data_region list"

partial_function (option) sweep ::
  "(data_region \<Rightarrow> sweep_step option) \<Rightarrow> data_region list \<Rightarrow> data_region option
    \<Rightarrow> data_region list option" where
  "sweep f S it =
     (case it of
        None \<Rightarrow> Some S
      | Some x \<Rightarrow> do {
          st \<leftarrow> f x;
          (case st of
             Keep \<Rightarrow> sweep f S (sset_next x S)
           | Stop \<Rightarrow> Some S
           | Replace v \<Rightarrow> sweep f (sset_merge (sset_erase x S) v) (sset_next x S))
        })"

declare sweep.simps [code]

definition sweep_all ::
  "(data_region \<Rightarrow> sweep_step option) \<Rightarrow> data_region list \<Rightarrow> data_region list option" where
  "sweep_all f S = sweep f S (case S of [] \<Rightarrow> None | x # _ \<Rightarrow> Some x)"

text \<open>The steps of the union, of the difference and of \<open>includes_all\<close>.\<close>

definition add_step :: "data_region \<Rightarrow> data_region \<Rightarrow> sweep_step option" where
  "add_step r x = do {
     valid \<leftarrow> region_sub x r;
     Some (if valid = [x] then Keep else Replace valid)
   }"

definition diff_step :: "data_region \<Rightarrow> data_region \<Rightarrow> sweep_step option" where
  "diff_step b x =
     (if r_start b > snd (region_range x) then Some Keep
      else if r_start x > snd (region_range b) then Some Stop
      else map_option Replace (region_sub x b))"

definition all_step :: "data_region \<Rightarrow> data_region \<Rightarrow> sweep_step option" where
  "all_step r x = map_option Replace (region_sub x r)"

section \<open>Union\<close>

definition last_stride :: "data_region list \<Rightarrow> nat" where
  "last_stride R = fold (\<lambda>r s. if r_reps r \<noteq> 0 then r_stride r else s) R 0"

definition full_region :: data_region where
  "full_region = block 0 SIZE_MAX"

text \<open>
  All repetitions of all regions as single blocks.  The loop counts with an \<open>int\<close>, so a
  region with more repetitions than \<open>INT_MAX\<close> overflows it; that is \<open>None\<close> here.
\<close>

definition INT_MAX :: nat where
  "INT_MAX = 2147483647"

fun get_all_reps :: "data_region \<Rightarrow> nat list \<Rightarrow> data_region list option" where
  "get_all_reps r [] = Some []"
| "get_all_reps r (k # ks) = do {
     b \<leftarrow> region_get_rep r k;
     bs \<leftarrow> get_all_reps r ks;
     Some (b # bs)
   }"

fun destride :: "data_region list \<Rightarrow> data_region list \<Rightarrow> data_region list option" where
  "destride acc [] = Some acc"
| "destride acc (r # R) = do {
     fenix_assert (r_reps r \<noteq> SIZE_MAX);
     fenix_assert (r_reps r \<le> INT_MAX);
     bs \<leftarrow> get_all_reps r [0..<r_reps r + 1];
     destride (sset_merge acc bs) R
   }"

text \<open>What a region \<open>br\<close> of the second operand adds to the regions collected so far.\<close>

fun add_against :: "nat \<times> nat \<Rightarrow> data_region list \<Rightarrow> data_region list \<Rightarrow> data_region list option" where
  "add_against brange adding [] = Some adding"
| "add_against brange adding (r # R) =
     (if fst (region_range r) > snd brange then Some adding
      else if snd (region_range r) < fst brange then add_against brange adding R
      else do {
        adding \<leftarrow> sweep_all (add_step r) adding;
        add_against brange adding R
      })"

fun union_loop :: "data_region list \<Rightarrow> data_region list \<Rightarrow> data_region list option" where
  "union_loop R [] = Some R"
| "union_loop R (br # B) = do {
     adding \<leftarrow> add_against (region_range br) [br] R;
     union_loop (sset_merge R adding) B
   }"

definition subset_union :: "data_subset \<Rightarrow> data_subset \<Rightarrow> data_subset option" where
  "subset_union a b = do {
     fenix_assert (is_basic a \<and> is_basic b);
     if ss_regions a = [] \<or> ss_regions b = [] then Some (if ss_regions a = [] then b else a)
     else if full_region \<in> set (ss_regions a) \<or> full_region \<in> set (ss_regions b)
     then Some (basic_subset [full_region])
     else do {
       R \<leftarrow> (let sa = last_stride (ss_regions a); sb = last_stride (ss_regions b)
            in if sa \<noteq> 0 \<and> sb \<noteq> 0 \<and> sa \<noteq> sb then destride [] (ss_regions a)
               else Some (ss_regions a));
       R \<leftarrow> union_loop R (ss_regions b);
       R \<leftarrow> merge_regions R;
       Some (basic_subset R)
     }
   }"

section \<open>Difference, equality, inclusion\<close>

text \<open>The blocks of a set of regions in order, as \<open>BlockIter\<close> visits them.\<close>

fun block_iter :: "data_region list \<Rightarrow> data_region list option" where
  "block_iter [] = Some []"
| "block_iter (r # R) = do {
     bs \<leftarrow> get_all_reps r [0..<r_reps r + 1];
     rest \<leftarrow> block_iter R;
     Some (bs @ rest)
   }"

fun diff_loop :: "data_region list \<Rightarrow> data_region list \<Rightarrow> data_region list option" where
  "diff_loop remaining [] = Some remaining"
| "diff_loop remaining (b # B) = do {
     remaining \<leftarrow> sweep_all (diff_step b) remaining;
     diff_loop remaining B
   }"

definition subset_diff :: "data_subset \<Rightarrow> data_subset \<Rightarrow> data_subset option" where
  "subset_diff a b = do {
     fenix_assert (is_basic a \<and> is_basic b);
     if ss_regions a = [] \<or> ss_regions b = [] then Some a
     else (let sa = last_stride (ss_regions a); sb = last_stride (ss_regions b);
               mixed = (sa \<noteq> 0 \<and> sb \<noteq> 0 \<and> sa \<noteq> sb);
               b_end = regions_end (ss_regions b)
           in do {
             fenix_assert (\<not> (mixed \<and> regions_end (ss_regions a) = SIZE_MAX \<and> b_end = SIZE_MAX));
             remaining \<leftarrow>
               (if mixed then do {
                  low \<leftarrow> bounded_range a 0 b_end;
                  blocks \<leftarrow> block_iter low;
                  (if b_end \<noteq> SIZE_MAX then do {
                     high \<leftarrow> bounded_range a (sz_add b_end 1) SIZE_MAX;
                     Some (sset_merge (sset_merge [] blocks) high)
                   } else Some (sset_merge [] blocks))
                } else Some (ss_regions a));
             remaining \<leftarrow> diff_loop remaining (ss_regions b);
             R \<leftarrow> merge_regions remaining;
             Some (basic_subset R)
           })
   }"

definition subset_equal :: "data_subset \<Rightarrow> data_subset \<Rightarrow> bool option" where
  "subset_equal a b =
     (if \<not> is_basic a \<or> \<not> is_basic b then Some (ss_type a = ss_type b)
      else let A = ss_regions a; B = ss_regions b; sa = last_stride A; sb = last_stride B
           in if regions_start A \<noteq> regions_start B then Some False
              else if (A = []) \<noteq> (B = []) then Some False
              else if A = B then Some True
              else if regions_end A \<noteq> regions_end B then Some False
              else if sa \<noteq> 0 \<and> sb \<noteq> 0 \<and> sa \<noteq> sb \<and> regions_end A = SIZE_MAX then Some False
              else do {
                ab \<leftarrow> subset_diff a b;
                em \<leftarrow> subset_empty ab;
                if \<not> em then Some False
                else do { ba \<leftarrow> subset_diff b a; subset_empty ba }
              })"

fun includes_loop :: "nat \<Rightarrow> data_region list \<Rightarrow> data_region list \<Rightarrow> data_region list option" where
  "includes_loop e remaining [] = Some remaining"
| "includes_loop e remaining (r # R) =
     (if r_start r > e then Some remaining
      else do {
        remaining \<leftarrow> sweep_all (all_step r) remaining;
        includes_loop e remaining R
      })"

definition subset_includes_all :: "data_subset \<Rightarrow> nat \<Rightarrow> bool option" where
  "subset_includes_all d e = do {
     fenix_assert (is_basic d);
     r \<leftarrow> mk_block (0, e);
     remaining \<leftarrow> includes_loop e [r] (ss_regions d);
     Some (remaining = [])
   }"

end
