(* ===== verification/Subset_Ops.thy ===== *)
theory Subset_Ops
  imports Subset
begin

text \<open>
  Correctness of the set operations of \<open>DataSubset\<close>: union, difference and the inclusion
  tests compute the operations on the sets of indices, keep the representation invariant,
  and end.
\<close>

definition subset_elems :: "data_subset \<Rightarrow> nat set" where
  "subset_elems d = regions_elems (ss_regions d)"

text \<open>
  The invariant of a basic subset: ordered, disjoint, well-formed regions whose strided
  members all have the stride \<open>s\<close>.
\<close>

definition subset_ok :: "nat \<Rightarrow> data_subset \<Rightarrow> bool" where
  "subset_ok s d \<longleftrightarrow> is_basic d \<and> regions_ok s (ss_regions d)"

lemma basic_subset_sel [simp]:
  "ss_regions (basic_subset R) = R" "is_basic (basic_subset R) = True" "ss_type (basic_subset R) = BasicSubset"
  by (simp_all add: basic_subset_def is_basic_def)

lemma basic_subset_eta: "is_basic d \<Longrightarrow> basic_subset (ss_regions d) = d"
  by (simp add: basic_subset_def is_basic_def)

section \<open>A region is determined by its indices\<close>

lemma region_range_top:
  assumes "region_ok r"
  shows "snd (region_range r) \<le> SIZE_MAX"
  using region_rep_bound(1) [OF assms order_refl] by (simp add: mult.commute region_range_ok assms)

lemma region_top: "region_ok r \<Longrightarrow> x \<in> region_elems r \<Longrightarrow> x \<le> SIZE_MAX"
  by (rule order_trans [OF region_elems_range(2) region_range_top])

lemma region_finite:
  assumes "region_ok r"
  shows "finite (region_elems r)"
proof -
  have "region_elems r \<subseteq> {..SIZE_MAX}" using region_top [OF assms] by blast
  then show ?thesis by (rule finite_subset) simp
qed

lemma region_same_ends:
  assumes "region_ok a" "region_ok b" "region_elems a = region_elems b"
  shows "r_start a = r_start b" "snd (region_range a) = snd (region_range b)"
proof -
  have "r_start b \<in> region_elems a" "snd (region_range b) \<in> region_elems a"
    "r_start a \<in> region_elems b" "snd (region_range a) \<in> region_elems b"
    using region_elems_ends [OF assms(1)] region_elems_ends [OF assms(2)] assms(3) by simp_all
  from this(1,2) [THEN region_elems_range(1) [OF assms(1)]] this(1,2) [THEN region_elems_range(2) [OF assms(1)]]
    this(3,4) [THEN region_elems_range(1) [OF assms(2)]] this(3,4) [THEN region_elems_range(2) [OF assms(2)]]
  show "r_start a = r_start b" "snd (region_range a) = snd (region_range b)" by linarith+
qed

text \<open>The first index after the first block is missing in a strided region.\<close>

lemma region_first_gap:
  assumes "region_ok r" "r_reps r \<noteq> 0"
  shows "r_end r + 1 \<notin> region_elems r" "r_end r + 1 \<le> snd (region_range r)"
    "\<And>x. r_start r \<le> x \<Longrightarrow> x \<le> r_end r \<Longrightarrow> x \<in> region_elems r"
proof -
  note st = region_ok_stridedD [OF assms] and le = region_ok_start_end [OF assms(1)]
  have "r_stride r * 1 \<le> r_stride r * r_reps r" using assms(2) by (intro mult_le_mono2) simp
  then show top: "r_end r + 1 \<le> snd (region_range r)" using st(5) by (simp add: region_range_ok assms(1))
  have "(r_end r + 1 - r_start r) mod r_stride r = r_end r + 1 - r_start r"
    using st(1) le by (intro mod_less) linarith
  then have "in_gap r (r_end r + 1)" using le by (simp add: in_gap_def)
  then show "r_end r + 1 \<notin> region_elems r"
    using strided_elems_iff [OF assms _ top] le by simp
  show "x \<in> region_elems r" if "r_start r \<le> x" "x \<le> r_end r" for x
    using that rep_block_elems [of 0 r] by auto
qed

lemma region_second_start:
  assumes "region_ok r" "r_reps r \<noteq> 0"
  shows "r_start r + r_stride r \<in> region_elems r" "r_end r < r_start r + r_stride r"
    "\<And>x. r_end r < x \<Longrightarrow> x < r_start r + r_stride r \<Longrightarrow> x \<notin> region_elems r"
proof -
  note st = region_ok_stridedD [OF assms] and le = region_ok_start_end [OF assms(1)]
  show "r_start r + r_stride r \<in> region_elems r"
    using rep_block_elems [of 1 r] assms(2) le by auto
  show "r_end r < r_start r + r_stride r" using st(1) by simp
  show "x \<notin> region_elems r" if x: "r_end r < x" "x < r_start r + r_stride r" for x
  proof
    assume "x \<in> region_elems r"
    then obtain k where k: "x \<in> rep_block r k" by (auto simp: region_elems_reps)
    show False
    proof (cases k)
      case 0
      then show ?thesis using k x(1) by simp
    next
      case (Suc j)
      then have "r_start r + r_stride r \<le> x" using k by simp
      then show ?thesis using x(2) by simp
    qed
  qed
qed

lemma first_end_le:
  assumes "r_start x = r_start y" "region_elems x = region_elems y"
    "r_end x + 1 \<notin> region_elems x" "r_start x \<le> r_end x"
    "\<And>z. r_start y \<le> z \<Longrightarrow> z \<le> r_end y \<Longrightarrow> z \<in> region_elems y"
  shows "\<not> r_end x < r_end y"
proof
  assume "r_end x < r_end y"
  then have "r_end x + 1 \<in> region_elems y" using assms(1,4) by (intro assms(5)) simp_all
  then show False using assms(2,3) by simp
qed

lemma region_elems_inj:
  assumes a: "region_ok a" and b: "region_ok b" and eq: "region_elems a = region_elems b"
  shows "a = b"
proof -
  note ends = region_same_ends [OF a b eq]
  have block: "x \<in> region_elems r" if "region_ok r" "r_reps r = 0" "r_start r \<le> x" "x \<le> snd (region_range r)"
    for r x using that by (simp add: region_elems_block region_range_block)
  have kind: "r_reps a = 0 \<longleftrightarrow> r_reps b = 0"
  proof -
    have "r_reps y = 0" if "region_ok x" "region_ok y" "region_elems x = region_elems y" "r_reps x = 0" for x y
    proof (rule ccontr)
      assume n: "r_reps y \<noteq> 0"
      note g = region_first_gap [OF that(2) n] and e = region_same_ends [OF that(1-3)]
      have "r_end y + 1 \<in> region_elems x"
        using g(2) e region_ok_start_end [OF that(2)] by (intro block [OF that(1,4)]) simp_all
      then show False using g(1) that(3) by simp
    qed
    from this [OF a b eq] this [OF b a eq [symmetric]] show ?thesis by blast
  qed
  show ?thesis
  proof (cases "r_reps a = 0")
    case True
    then have "r_end a = r_end b" using kind ends(2) a b by (simp add: region_range_block)
    then show ?thesis using True kind ends(1) region_ok_is_block [OF a] region_ok_is_block [OF b] by metis
  next
    case False
    then have nb: "r_reps b \<noteq> 0" using kind by simp
    note ga = region_first_gap [OF a False] and gb = region_first_gap [OF b nb]
    from first_end_le [OF ends(1) eq ga(1) region_ok_start_end [OF a] gb(3)]
      first_end_le [OF ends(1) [symmetric] eq [symmetric] gb(1) region_ok_start_end [OF b] ga(3)]
    have e: "r_end a = r_end b" by linarith
    note sa = region_second_start [OF a False] and sb = region_second_start [OF b nb]
    have "\<not> r_stride a < r_stride b" using sb(3) [of "r_start a + r_stride a"] sa(1,2) ends(1) e eq by auto
    moreover have "\<not> r_stride b < r_stride a" using sa(3) [of "r_start b + r_stride b"] sb(1,2) ends(1) e eq by auto
    ultimately have s: "r_stride a = r_stride b" by simp
    have "r_reps a = r_reps b"
      using ends(2) e s region_ok_stridedD(5) [OF a False] by (simp add: region_range_ok a b)
    with ends(1) e s show ?thesis by simp
  qed
qed

section \<open>Sweeping ends and removes\<close>

text \<open>What a step must do to be one that removes the indices \<open>B\<close>.\<close>

definition removes :: "nat \<Rightarrow> nat set \<Rightarrow> (data_region \<Rightarrow> sweep_step option) \<Rightarrow> bool" where
  "removes s B f \<longleftrightarrow> (\<forall>x. region_ok x \<longrightarrow> same_stride s x \<longrightarrow>
     (case f x of
        None \<Rightarrow> False
      | Some Keep \<Rightarrow> region_elems x \<inter> B = {}
      | Some Stop \<Rightarrow> B \<inter> {r_start x..} = {}
      | Some (Replace v) \<Rightarrow> regions_ok s v \<and> regions_elems v = region_elems x - B))"

definition pending :: "data_region list \<Rightarrow> data_region option \<Rightarrow> data_region set" where
  "pending S it = (case it of None \<Rightarrow> {} | Some x \<Rightarrow> {y \<in> set S. x \<le> y})"

definition region_size :: "data_region \<Rightarrow> nat" where
  "region_size r = 2 * card (region_elems r) - 1"

lemma region_card_pos: "region_ok r \<Longrightarrow> 1 \<le> card (region_elems r)"
  using region_elems_nonempty [of r] region_finite [of r] by (simp add: Suc_le_eq card_gt_0_iff)

lemma region_size_pos: "region_ok r \<Longrightarrow> 0 < region_size r"
  using region_card_pos [of r] unfolding region_size_def by linarith

lemma sset_next_Some:
  assumes "sset_ok S" "sset_next x S = Some z"
  shows "z \<in> set S" "x < z" "\<forall>y \<in> set S. x < y \<longrightarrow> z \<le> y"
proof -
  from assms(2) obtain i where i: "i < length S" "x < S ! i" "z = S ! i" "\<forall>j<i. \<not> x < S ! j"
    by (auto simp: sset_next_def find_Some_iff)
  then show "z \<in> set S" "x < z" by auto
  show "\<forall>y \<in> set S. x < y \<longrightarrow> z \<le> y"
  proof (intro ballI impI)
    fix y
    assume "y \<in> set S" "x < y"
    then obtain j where j: "j < length S" "S ! j = y" by (auto simp: in_set_conv_nth)
    with i(4) \<open>x < y\<close> have "i \<le> j" by (metis not_less)
    then show "z \<le> y"
      using assms(1) j i(3)
      by (cases "i = j") (auto simp: sset_ok_def sorted_wrt_iff_nth_less intro: less_imp_le)
  qed
qed

lemma sset_next_None: "sset_next x S = None \<longleftrightarrow> (\<forall>y \<in> set S. \<not> x < y)"
  unfolding sset_next_def find_None_iff by blast

lemma pending_next:
  assumes "sset_ok S" "x \<in> set S"
  shows "pending S (sset_next x S) = pending S (Some x) - {x}"
proof (cases "sset_next x S")
  case None
  then have "\<forall>y \<in> set S. \<not> x < y" by (simp only: sset_next_None)
  then have "{y \<in> set S. x \<le> y} - {x} = {}" by (auto simp: order.strict_iff_order)
  then show ?thesis using None by (simp add: pending_def)
next
  case (Some z)
  note n = sset_next_Some [OF assms(1) Some]
  have "z \<le> y \<longleftrightarrow> x \<le> y \<and> y \<noteq> x" if "y \<in> set S" for y
  proof
    assume "z \<le> y"
    with n(2) have "x < y" by (rule less_le_trans)
    then show "x \<le> y \<and> y \<noteq> x" by (metis less_imp_le less_irrefl)
  next
    assume "x \<le> y \<and> y \<noteq> x"
    then have "x < y" by (metis le_neq_trans)
    then show "z \<le> y" using n(3) that by blast
  qed
  then show ?thesis using Some by (auto simp: pending_def)
qed

lemma card_disjoint_regions:
  assumes "finite V" "\<forall>y \<in> V. region_ok y" "\<forall>y \<in> V. \<forall>z \<in> V. y \<noteq> z \<longrightarrow> region_elems y \<inter> region_elems z = {}"
  shows "card (\<Union>y \<in> V. region_elems y) = (\<Sum>y \<in> V. card (region_elems y))"
  using assms by (intro card_UN_disjoint) (auto intro: region_finite)

text \<open>Parts of a region, without the region itself, weigh less than the region.\<close>

lemma split_weighs_less:
  assumes x: "region_ok x" and V: "finite V" "\<forall>y \<in> V. region_ok y" "x \<notin> V"
    and dis: "\<forall>y \<in> V. \<forall>z \<in> V. y \<noteq> z \<longrightarrow> region_elems y \<inter> region_elems z = {}"
    and sub: "(\<Union>y \<in> V. region_elems y) \<subseteq> region_elems x"
  shows "sum region_size V < region_size x"
proof -
  have le: "(\<Sum>y \<in> V. card (region_elems y)) \<le> card (region_elems x)"
    using card_mono [OF region_finite [OF x] sub] card_disjoint_regions [OF V(1,2) dis] by simp
  have size: "sum region_size V + card V = 2 * (\<Sum>y \<in> V. card (region_elems y))"
  proof -
    have "sum region_size V + card V = (\<Sum>y \<in> V. region_size y + 1)" by (simp only: sum.distrib card_eq_sum)
    also have "\<dots> = (\<Sum>y \<in> V. 2 * card (region_elems y))"
    proof (rule sum.cong [OF refl])
      fix y
      assume "y \<in> V"
      then have "1 \<le> card (region_elems y)" using V(2) region_card_pos by blast
      then show "region_size y + 1 = 2 * card (region_elems y)"
        unfolding region_size_def by linarith
    qed
    finally show ?thesis by (simp add: sum_distrib_left)
  qed
  show ?thesis
  proof (cases "card V \<le> 1")
    case False
    then show ?thesis using size le region_card_pos [OF x] unfolding region_size_def by linarith
  next
    case True
    show ?thesis
    proof (cases "V = {}")
      case True
      then show ?thesis using region_size_pos [OF x] by simp
    next
      case False
      with True V(1) have "card V = 1" by (simp add: card_gt_0_iff le_Suc_eq)
      then obtain y where y: "V = {y}" by (auto simp: card_1_singleton_iff)
      have "region_elems y \<noteq> region_elems x"
        using region_elems_inj [of y x] V(2,3) x y by auto
      then have "card (region_elems y) < card (region_elems x)"
        using sub y by (intro psubset_card_mono region_finite [OF x]) auto
      then show ?thesis using y by (simp add: region_size_def)
    qed
  qed
qed

lemma sweep_correct:
  assumes f: "removes s B f" and S: "regions_ok s S" and it: "\<forall>x. it = Some x \<longrightarrow> x \<in> set S"
    and clean: "\<forall>y \<in> set S. y \<notin> pending S it \<longrightarrow> region_elems y \<inter> B = {}"
  shows "\<exists>S'. sweep f S it = Some S' \<and> regions_ok s S' \<and> regions_elems S' = regions_elems S - B"
  using S it clean
proof (induction "sum region_size (pending S it)" arbitrary: S it rule: less_induct)
  case less
  have sok: "sset_ok S" using less.prems(1) by (simp add: regions_ok_def)
  show ?case
  proof (cases it)
    case None
    then have "regions_elems S \<inter> B = {}"
      using less.prems(3) by (auto simp: pending_def regions_elems_def)
    then have "regions_elems S - B = regions_elems S" by blast
    then show ?thesis using None less.prems(1) by (subst sweep.simps) simp
  next
    case (Some x)
    then have x: "x \<in> set S" using less.prems(2) by simp
    note okx = regions_okD [OF less.prems(1) x]
    let ?nxt = "sset_next x S"
    have fx: "case f x of None \<Rightarrow> False | Some Keep \<Rightarrow> region_elems x \<inter> B = {}
      | Some Stop \<Rightarrow> B \<inter> {r_start x..} = {}
      | Some (Replace v) \<Rightarrow> regions_ok s v \<and> regions_elems v = region_elems x - B"
      using f okx unfolding removes_def by blast
    have px: "x \<in> pending S it" "finite (pending S it)" using x Some by (auto simp: pending_def)
    have pn: "pending S ?nxt = pending S it - {x}" using pending_next [OF sok x] Some by simp
    have nxt_in: "\<forall>y. ?nxt = Some y \<longrightarrow> y \<in> set S \<and> x < y"
      using sset_next_SomeD by blast
    from fx obtain st where st: "f x = Some st" by (cases "f x") auto
    show ?thesis
    proof (cases st)
      case Keep
      then have free: "region_elems x \<inter> B = {}" using fx st by simp
      have "sum region_size (pending S ?nxt) < sum region_size (pending S it)"
        unfolding pn using px region_size_pos [OF okx(1)] by (simp add: sum.remove [OF px(2,1)])
      moreover have "\<forall>y \<in> set S. y \<notin> pending S ?nxt \<longrightarrow> region_elems y \<inter> B = {}"
        unfolding pn using less.prems(3) free by blast
      ultimately show ?thesis
        using less.hyps [of S ?nxt] less.prems(1) nxt_in Some st Keep by (subst sweep.simps) auto
    next
      case Stop
      then have B: "B \<inter> {r_start x..} = {}" using fx st by simp
      have "region_elems y \<inter> B = {}" if y: "y \<in> set S" for y
      proof (cases "y \<in> pending S it")
        case False
        then show ?thesis using less.prems(3) y by blast
      next
        case True
        then have "r_start x \<le> r_start y"
          using Some by (auto simp: pending_def less_eq_data_region_ext_def)
        moreover have "region_elems y \<subseteq> {r_start y..}"
          using region_elems_range(1) regions_okD(1) [OF less.prems(1) y] by auto
        ultimately have "region_elems y \<subseteq> {r_start x..}" by auto
        then show ?thesis using B by blast
      qed
      then have "regions_elems S - B = regions_elems S" by (auto simp: regions_elems_def)
      then show ?thesis using less.prems(1) Some st Stop by (subst sweep.simps) simp
    next
      case (Replace v)
      then have v: "regions_ok s v" "regions_elems v = region_elems x - B" using fx st by simp_all
      let ?E = "sset_erase x S"
      let ?S = "sset_merge ?E v"
      have E: "regions_ok s ?E"
        by (rule regions_ok_subset [OF less.prems(1)]) (use sok in \<open>auto simp: sset\<close>)
      have apart: "region_elems x \<inter> regions_elems ?E = {}"
        by (rule regions_ok_apart [OF less.prems(1) _ x]) (auto simp: sset)
      then have ok: "regions_ok s ?S" using v by (intro regions_ok_merge [OF E]) auto
      have setS: "set ?S = (set S - {x}) \<union> set v" by (auto simp: sset)
      have "regions_elems S = regions_elems ?E \<union> region_elems x"
        using x by (auto simp: regions_elems_def sset)
      moreover have "regions_elems ?S = regions_elems ?E \<union> regions_elems v"
        by (rule regions_elems_merge)
      ultimately have same: "regions_elems ?S - B = regions_elems S - B" using v(2) by blast
      let ?V = "{y \<in> set v. y \<noteq> x \<and> y \<in> pending ?S ?nxt}"
      have pend: "pending ?S ?nxt \<subseteq> (pending S it - {x}) \<union> ?V"
        unfolding pn [symmetric] using nxt_in by (auto simp: pending_def setS split: option.splits)
      have Vok: "\<forall>y \<in> ?V. region_ok y" using regions_okD(1) [OF v(1)] by blast
      have Vdis: "\<forall>y \<in> ?V. \<forall>z \<in> ?V. y \<noteq> z \<longrightarrow> region_elems y \<inter> region_elems z = {}"
        using v(1) by (auto simp: regions_ok_def regions_disjoint_def)
      have Vsub: "(\<Union>y \<in> ?V. region_elems y) \<subseteq> region_elems x"
        using v(2) by (auto simp: regions_elems_def)
      have "sum region_size ?V < region_size x"
        by (rule split_weighs_less [OF okx(1) _ Vok _ Vdis Vsub]) auto
      moreover have "sum region_size (pending ?S ?nxt) \<le> sum region_size ((pending S it - {x}) \<union> ?V)"
        using px(2) by (intro sum_mono2 pend) auto
      moreover have "\<dots> \<le> sum region_size (pending S it - {x}) + sum region_size ?V"
        using px(2) by (simp add: sum_Un_nat)
      ultimately have "sum region_size (pending ?S ?nxt) < sum region_size (pending S it)"
        by (simp add: sum.remove [OF px(2,1)])
      moreover have "\<forall>y. ?nxt = Some y \<longrightarrow> y \<in> set ?S" using nxt_in setS by auto
      moreover have "\<forall>y \<in> set ?S. y \<notin> pending ?S ?nxt \<longrightarrow> region_elems y \<inter> B = {}"
      proof (intro ballI impI)
        fix y
        assume y: "y \<in> set ?S" "y \<notin> pending ?S ?nxt"
        show "region_elems y \<inter> B = {}"
        proof (cases "y \<in> set v")
          case True
          then show ?thesis using v(2) by (auto simp: regions_elems_def)
        next
          case False
          then have yS: "y \<in> set S" "y \<noteq> x" using y(1) setS by auto
          then have "y \<notin> pending S ?nxt" using y setS by (auto simp: pending_def split: option.splits)
          then show ?thesis using less.prems(3) yS pn by blast
        qed
      qed
      ultimately obtain S' where "sweep f ?S ?nxt = Some S'" "regions_ok s S'"
          "regions_elems S' = regions_elems ?S - B"
        using less.hyps [of ?S ?nxt] ok by blast
      then show ?thesis using Some st Replace same by (subst sweep.simps) simp
    qed
  qed
qed

lemma sweep_all_correct:
  assumes "removes s B f" "regions_ok s S"
  obtains S' where "sweep_all f S = Some S'" "regions_ok s S'" "regions_elems S' = regions_elems S - B"
proof -
  let ?it = "case S of [] \<Rightarrow> None | x # _ \<Rightarrow> Some x"
  have it: "\<forall>x. ?it = Some x \<longrightarrow> x \<in> set S" by (auto split: list.splits)
  have "\<forall>y \<in> set S. y \<in> pending S ?it"
    using assms(2) by (cases S) (auto simp: pending_def regions_ok_def sset_ok_Cons less_imp_le)
  then show ?thesis
    using sweep_correct [OF assms it] that by (auto simp: sweep_all_def)
qed

section \<open>The steps of the loops\<close>

lemma add_step_removes:
  assumes r: "region_ok r" "same_stride s r"
  shows "removes s (region_elems r) (add_step r)"
  unfolding removes_def
proof (intro allI impI)
  fix x
  assume x: "region_ok x" "same_stride s x"
  obtain R where R: "region_sub x r = Some R" "regions_ok s R" "regions_elems R = region_elems x - region_elems r"
    by (rule region_sub_correct [OF x(1) r(1) x(2) r(2)])
  show "case add_step r x of None \<Rightarrow> False | Some Keep \<Rightarrow> region_elems x \<inter> region_elems r = {}
      | Some Stop \<Rightarrow> region_elems r \<inter> {r_start x..} = {}
      | Some (Replace v) \<Rightarrow> regions_ok s v \<and> regions_elems v = region_elems x - region_elems r"
  proof (cases "R = [x]")
    case True
    then have "region_elems x \<inter> region_elems r = {}" using R(3) by auto
    with True R(1) show ?thesis by (simp add: add_step_def)
  next
    case False
    with R show ?thesis by (simp add: add_step_def)
  qed
qed

lemma all_step_removes:
  assumes r: "region_ok r" "same_stride s r"
  shows "removes s (region_elems r) (all_step r)"
  unfolding removes_def
proof (intro allI impI)
  fix x
  assume x: "region_ok x" "same_stride s x"
  obtain R where "region_sub x r = Some R" "regions_ok s R" "regions_elems R = region_elems x - region_elems r"
    by (rule region_sub_correct [OF x(1) r(1) x(2) r(2)])
  then show "case all_step r x of None \<Rightarrow> False | Some Keep \<Rightarrow> region_elems x \<inter> region_elems r = {}
      | Some Stop \<Rightarrow> region_elems r \<inter> {r_start x..} = {}
      | Some (Replace v) \<Rightarrow> regions_ok s v \<and> regions_elems v = region_elems x - region_elems r"
    by (simp add: all_step_def)
qed

lemma elems_apart_before:
  assumes "region_ok a" "snd (region_range a) < n"
  shows "region_elems a \<inter> {n..} = {}"
  using region_elems_range(2) [OF assms(1)] assms(2) by fastforce

lemma elems_after_start: "region_ok a \<Longrightarrow> n \<le> r_start a \<Longrightarrow> region_elems a \<subseteq> {n..}"
  using region_elems_range(1) [of a] by fastforce

lemma diff_step_removes:
  assumes b: "region_ok b" "same_stride s b"
  shows "removes s (region_elems b) (diff_step b)"
  unfolding removes_def
proof (intro allI impI)
  fix x
  assume x: "region_ok x" "same_stride s x"
  obtain R where R: "region_sub x b = Some R" "regions_ok s R" "regions_elems R = region_elems x - region_elems b"
    by (rule region_sub_correct [OF x(1) b(1) x(2) b(2)])
  have 1: "region_elems x \<inter> region_elems b = {}" if "r_start b > snd (region_range x)"
    using elems_apart_before [OF x(1) that] elems_after_start [OF b(1) order_refl] by blast
  have 2: "region_elems b \<inter> {r_start x..} = {}" if "r_start x > snd (region_range b)"
    by (rule elems_apart_before [OF b(1) that])
  show "case diff_step b x of None \<Rightarrow> False | Some Keep \<Rightarrow> region_elems x \<inter> region_elems b = {}
      | Some Stop \<Rightarrow> region_elems b \<inter> {r_start x..} = {}
      | Some (Replace v) \<Rightarrow> regions_ok s v \<and> regions_elems v = region_elems x - region_elems b"
    unfolding diff_step_def using R 1 2 by simp
qed

section \<open>Union\<close>

lemma sset_tail_starts:
  "sset_ok (r # R) \<Longrightarrow> y \<in> set R \<Longrightarrow> r_start r \<le> r_start (y :: data_region)"
  by (auto simp: sset_ok_Cons region_less_iff split: if_splits)

lemma elems_beyond:
  assumes "regions_ok s (r # R)" "n \<le> r_start r"
  shows "regions_elems (r # R) \<subseteq> {n..}"
proof -
  have "region_elems y \<subseteq> {n..}" if "y \<in> set (r # R)" for y
  proof -
    have "r_start r \<le> r_start y"
      using assms(1) that sset_tail_starts [of r R y] by (auto simp: regions_ok_def)
    then show ?thesis
      using elems_after_start regions_okD(1) [OF assms(1) that] assms(2) by (meson order_trans)
  qed
  then show ?thesis unfolding regions_elems_def by blast
qed

lemma add_against_correct:
  assumes "regions_ok s A" "regions_ok s R" "regions_elems A \<subseteq> {fst rng..snd rng}"
  shows "\<exists>A'. add_against rng A R = Some A' \<and> regions_ok s A' \<and>
    regions_elems A' = regions_elems A - regions_elems R"
  using assms
proof (induction R arbitrary: A)
  case Nil
  then show ?case by simp
next
  case (Cons r R)
  note c = regions_ok_ConsD [OF Cons.prems(2)]
  have start: "fst (region_range r) = r_start r" by (simp add: region_range_ok c(2))
  show ?case
  proof (cases "r_start r > snd rng")
    case True
    then have "regions_elems (r # R) \<subseteq> {Suc (snd rng)..}" by (intro elems_beyond [OF Cons.prems(2)]) simp
    then have "regions_elems A - regions_elems (r # R) = regions_elems A"
      using Cons.prems(3) by fastforce
    then show ?thesis using True Cons.prems(1) by (simp add: start)
  next
    case near: False
    show ?thesis
    proof (cases "snd (region_range r) < fst rng")
      case True
      have "regions_elems A \<inter> region_elems r = {}"
        using elems_apart_before [OF c(2) True] Cons.prems(3) by fastforce
      then have "regions_elems A - regions_elems (r # R) = regions_elems A - regions_elems R"
        by (simp only: regions_elems_Cons) blast
      then show ?thesis using Cons.IH [OF Cons.prems(1) c(1) Cons.prems(3)] near True
        by (simp add: start del: regions_elems_Cons)
    next
      case False
      obtain A' where A': "sweep_all (add_step r) A = Some A'" "regions_ok s A'"
          "regions_elems A' = regions_elems A - region_elems r"
        by (rule sweep_all_correct [OF add_step_removes [OF c(2,3)] Cons.prems(1)])
      have "regions_elems A' \<subseteq> {fst rng..snd rng}" using A'(3) Cons.prems(3) by blast
      from Cons.IH [OF A'(2) c(1) this] obtain A'' where A'': "add_against rng A' R = Some A''"
          "regions_ok s A''" "regions_elems A'' = regions_elems A' - regions_elems R" by blast
      have "regions_elems A'' = regions_elems A - regions_elems (r # R)"
        unfolding A''(3) A'(3) regions_elems_Cons by blast
      then show ?thesis using near False A'(1) A''(1,2) by (simp add: start del: regions_elems_Cons)
    qed
  qed
qed

lemma region_elems_within: "region_ok r \<Longrightarrow> region_elems r \<subseteq> {fst (region_range r)..snd (region_range r)}"
  using region_elems_range [of r] by (auto simp: region_range_ok)

lemma union_loop_correct:
  assumes "regions_ok s R" "regions_ok s B"
  shows "\<exists>R'. union_loop R B = Some R' \<and> regions_ok s R' \<and> regions_elems R' = regions_elems R \<union> regions_elems B"
  using assms
proof (induction B arbitrary: R)
  case Nil
  then show ?case by simp
next
  case (Cons b B)
  note c = regions_ok_ConsD [OF Cons.prems(2)]
  have one: "regions_ok s [b]" using c by (simp add: regions_ok_single)
  have "regions_elems [b] \<subseteq> {fst (region_range b)..snd (region_range b)}"
    using region_elems_within [OF c(2)] by (simp only: regions_elems_Cons regions_elems_Nil Un_empty_right)
  from add_against_correct [OF one Cons.prems(1) this] obtain A where
    A: "add_against (region_range b) [b] R = Some A" "regions_ok s A"
      "regions_elems A = region_elems b - regions_elems R"
    by (auto simp only: regions_elems_Cons regions_elems_Nil Un_empty_right)
  have "regions_elems R \<inter> regions_elems A = {}" using A(3) by blast
  then have ok: "regions_ok s (sset_merge R A)" by (rule regions_ok_merge [OF Cons.prems(1) A(2)])
  from Cons.IH [OF ok c(1)] obtain R' where R': "union_loop (sset_merge R A) B = Some R'" "regions_ok s R'"
    "regions_elems R' = regions_elems (sset_merge R A) \<union> regions_elems B" by blast
  have "regions_elems R' = regions_elems R \<union> regions_elems (b # B)"
    unfolding R'(3) regions_elems_merge A(3) regions_elems_Cons by blast
  then show ?case using A(1) R'(1,2) by (simp del: regions_elems_Cons)
qed

text \<open>The stride that the loops over the operands find.\<close>

lemma last_stride_acc:
  assumes "\<forall>r \<in> set R. same_stride s r"
  shows "fold (\<lambda>r t. if r_reps r \<noteq> 0 then r_stride r else t) R t
    = (if all_blocks R then t else s)"
  using assms
proof (induction R arbitrary: t)
  case Nil
  then show ?case by (simp add: all_blocks_def)
next
  case (Cons r R)
  then have "same_stride s r" by simp
  then show ?case using Cons by (auto simp: all_blocks_def same_stride_def)
qed

lemma last_stride_eq:
  assumes "regions_ok s R"
  shows "last_stride R = (if all_blocks R then 0 else s)"
  unfolding last_stride_def by (rule last_stride_acc) (use assms in \<open>simp add: regions_ok_def\<close>)

lemma all_blocks_any_stride: "regions_ok s R \<Longrightarrow> all_blocks R \<Longrightarrow> regions_ok t R"
  by (simp add: regions_ok_def all_blocks_def same_stride_def)

lemma stride_pos:
  assumes "regions_ok s R" "\<not> all_blocks R"
  shows "s \<noteq> 0"
proof -
  obtain r where r: "r \<in> set R" "r_reps r \<noteq> 0" using assms(2) by (auto simp: all_blocks_def)
  then show ?thesis
    using region_ok_stridedD(5) [OF regions_okD(1) [OF assms(1) r(1)] r(2)]
      regions_okD(2) [OF assms(1) r(1)] by (simp add: same_stride_def)
qed

text \<open>De-striding replaces the regions by their single blocks.\<close>

lemma get_all_reps_correct:
  assumes "region_ok r" "\<forall>k \<in> set ks. k \<le> r_reps r"
  shows "get_all_reps r ks =
    Some (map (\<lambda>k. block (r_start r + k * r_stride r) (r_end r + k * r_stride r)) ks)"
  using assms(2) by (induction ks) (simp_all add: region_get_rep_eq [OF assms(1)])

lemma reps_blocks_ok:
  assumes r: "region_ok r"
  defines "bs \<equiv> map (\<lambda>k. block (r_start r + k * r_stride r) (r_end r + k * r_stride r)) [0..<r_reps r + 1]"
  shows "regions_elems bs = region_elems r"
    "\<forall>b \<in> set bs. region_ok b \<and> r_reps b = 0"
    "regions_disjoint bs"
proof -
  let ?b = "\<lambda>k. block (r_start r + k * r_stride r) (r_end r + k * r_stride r)"
  have set: "set bs = ?b ` {0..r_reps r}" unfolding bs_def by (simp add: atLeastLessThanSuc_atLeastAtMost del: upt_Suc)
  have elems: "region_elems (?b k) = rep_block r k" for k by (simp add: region_elems_block)
  show "regions_elems bs = region_elems r"
    unfolding regions_elems_def set by (simp add: elems region_elems_reps)
  show "\<forall>b \<in> set bs. region_ok b \<and> r_reps b = 0"
    unfolding set using region_rep_ok [OF r] by auto
  show "regions_disjoint bs"
    unfolding regions_disjoint_def set
  proof (intro ballI impI)
    fix x y
    assume "x \<in> ?b ` {0..r_reps r}" "y \<in> ?b ` {0..r_reps r}" and ne: "x \<noteq> y"
    from this(1,2) obtain i j where ij0: "x = ?b i" "y = ?b j" "i \<le> r_reps r" "j \<le> r_reps r"
      by (elim imageE) (metis atLeastAtMost_iff)
    then have ij: "x = ?b i" "y = ?b j" "i \<noteq> j" using ne by auto
    then have "r_reps r \<noteq> 0" using ij0(3,4) by auto
    from rep_block_disjoint [OF r this ij(3)] show "region_elems x \<inter> region_elems y = {}"
      unfolding ij(1,2) elems .
  qed
qed

lemma destride_correct:
  assumes "regions_ok t acc" "all_blocks acc" "regions_ok s R" "regions_elems acc \<inter> regions_elems R = {}"
    "\<forall>r \<in> set R. r_reps r \<le> INT_MAX"
  shows "\<exists>R'. destride acc R = Some R' \<and> regions_ok t R' \<and> all_blocks R' \<and>
    regions_elems R' = regions_elems acc \<union> regions_elems R"
  using assms
proof (induction R arbitrary: acc)
  case Nil
  then show ?case by simp
next
  case (Cons r R)
  note c = regions_ok_ConsD [OF Cons.prems(3)]
  define bs where "bs = map (\<lambda>k. block (r_start r + k * r_stride r) (r_end r + k * r_stride r)) [0..<r_reps r + 1]"
  note b = reps_blocks_ok [OF c(2), folded bs_def]
  have get: "get_all_reps r [0..<r_reps r + 1] = Some bs"
    unfolding bs_def by (rule get_all_reps_correct [OF c(2)]) auto
  let ?acc = "sset_merge acc bs"
  have merged: "sset_merge acc bs = sset_merge acc (sset_merge [] bs)"
  proof (rule sset_eq)
    show "sset_ok (sset_merge acc bs)" "sset_ok (sset_merge acc (sset_merge [] bs))"
      using Cons.prems(1) by (simp_all add: regions_ok_def sset)
  qed (simp add: sset)
  have "regions_ok t (sset_merge [] bs)"
    using b by (auto simp: regions_ok_def sset same_stride_def regions_disjoint_def)
  moreover have "regions_elems acc \<inter> regions_elems (sset_merge [] bs) = {}"
    using Cons.prems(4) b(1) unfolding regions_elems_merge by (simp only: regions_elems_Cons regions_elems_Nil) blast
  ultimately have ok: "regions_ok t ?acc" unfolding merged by (rule regions_ok_merge [OF Cons.prems(1)])
  have blocks: "all_blocks ?acc" using Cons.prems(2) b(2) by (auto simp: all_blocks_def sset)
  have "regions_elems ?acc \<inter> regions_elems R = {}"
    using Cons.prems(4) c(4) b(1) unfolding regions_elems_merge regions_elems_Cons by blast
  from Cons.IH [OF ok blocks c(1) this] Cons.prems(5) obtain R' where
    "destride ?acc R = Some R'" "regions_ok t R'" "all_blocks R'"
    "regions_elems R' = regions_elems ?acc \<union> regions_elems R" by auto
  then show ?case
    using get b(1) Cons.prems(5) region_reps_lt_max [OF c(2)]
    by (auto simp: regions_elems_merge fenix_assert_bind)
qed

text \<open>
  The union.  When both operands are strided with different strides, the loop that
  de-strides the first one must be able to count its repetitions.
\<close>

lemma full_region_elems: "region_elems full_region = {..SIZE_MAX}"
  by (auto simp: full_region_def region_elems_block)

lemma regions_top: "regions_ok s R \<Longrightarrow> regions_elems R \<subseteq> {..SIZE_MAX}"
  using region_top regions_okD(1) unfolding regions_elems_def by blast

lemma union_regions_correct:
  assumes A: "regions_ok s A" and B: "regions_ok t B"
    and small: "s = t \<or> (\<forall>r \<in> set A. r_reps r \<le> INT_MAX)"
  obtains D u where "subset_union (basic_subset A) (basic_subset B) = Some (basic_subset D)" "regions_ok u D"
    "regions_elems D = regions_elems A \<union> regions_elems B" "u = s \<or> u = t"
proof -
  consider (empty) "A = [] \<or> B = []" | (full) "A \<noteq> []" "B \<noteq> []" "full_region \<in> set A \<or> full_region \<in> set B"
    | (main) "A \<noteq> []" "B \<noteq> []" "\<not> (full_region \<in> set A \<or> full_region \<in> set B)" by blast
  then show ?thesis
  proof cases
    case empty
    then show ?thesis using A B
      by (intro that [of "if A = [] then B else A" "if A = [] then t else s"])
        (auto simp: subset_union_def basic_subset_def is_basic_def)
  next
    case full
    then have "{..SIZE_MAX} \<subseteq> regions_elems A \<union> regions_elems B"
      using full_region_elems unfolding regions_elems_def by blast
    then have "regions_elems A \<union> regions_elems B = {..SIZE_MAX}"
      using regions_top [OF A] regions_top [OF B] by blast
    moreover have "regions_ok s [full_region]"
      by (simp add: regions_ok_single full_region_def region_ok_def same_stride_def)
    ultimately show ?thesis using full full_region_elems
      by (intro that [of "[full_region]" s]) (simp_all add: subset_union_def basic_subset_def is_basic_def)
  next
    case main
    let ?m = "last_stride A \<noteq> 0 \<and> last_stride B \<noteq> 0 \<and> last_stride A \<noteq> last_stride B"
    have "\<exists>R u. (if ?m then destride [] A else Some A) = Some R \<and> regions_ok u R \<and> regions_ok u B \<and>
        regions_elems R = regions_elems A \<and> (u = s \<or> u = t)"
    proof (cases ?m)
      case True
      then have "s \<noteq> t" using last_stride_eq [OF A] last_stride_eq [OF B] by (auto split: if_splits)
      then have "\<forall>r \<in> set A. r_reps r \<le> INT_MAX" using small by blast
      from destride_correct [OF regions_ok_Nil _ A _ this, of t] show ?thesis
        using True B by (auto simp: all_blocks_def)
    next
      case False
      then have "last_stride A = 0 \<or> last_stride B = 0 \<or> s = t"
        using last_stride_eq [OF A] last_stride_eq [OF B] by (auto split: if_splits)
      then have "all_blocks A \<or> all_blocks B \<or> s = t"
        using last_stride_eq [OF A] last_stride_eq [OF B] stride_pos [OF A] stride_pos [OF B]
        by (auto split: if_splits)
      then show ?thesis
        using A B all_blocks_any_stride [OF A, of t] all_blocks_any_stride [OF B, of s]
        unfolding if_not_P [OF False] by blast
    qed
    then obtain R u where R: "(if ?m then destride [] A else Some A) = Some R" "regions_ok u R" "regions_ok u B"
        "regions_elems R = regions_elems A" "u = s \<or> u = t" by blast
    from union_loop_correct [OF R(2,3)] obtain R' where R': "union_loop R B = Some R'" "regions_ok u R'"
        "regions_elems R' = regions_elems R \<union> regions_elems B" by blast
    obtain D where D: "merge_regions R' = Some D" "regions_ok u D" "regions_elems D = regions_elems R'"
      by (rule merge_regions_correct [OF R'(2)])
    have "\<not> (A = [] \<or> B = [])" using main by blast
    then have "subset_union (basic_subset A) (basic_subset B) = Some (basic_subset D)"
      by (simp only: subset_union_def basic_subset_sel simp_thms fenix_assert_True Let_def R(1) R'(1) D(1)
          main(3) Option.bind.bind_lunit if_False)
    then show ?thesis using D R' R by (intro that [of D u]) simp_all
  qed
qed

section \<open>Difference\<close>

lemma diff_loop_correct:
  assumes "regions_ok s R" "regions_ok s B"
  shows "\<exists>R'. diff_loop R B = Some R' \<and> regions_ok s R' \<and> regions_elems R' = regions_elems R - regions_elems B"
  using assms
proof (induction B arbitrary: R)
  case Nil
  then show ?case by simp
next
  case (Cons b B)
  note c = regions_ok_ConsD [OF Cons.prems(2)]
  obtain S where S: "sweep_all (diff_step b) R = Some S" "regions_ok s S"
      "regions_elems S = regions_elems R - region_elems b"
    by (rule sweep_all_correct [OF diff_step_removes [OF c(2,3)] Cons.prems(1)])
  from Cons.IH [OF S(2) c(1)] obtain R' where R': "diff_loop S B = Some R'" "regions_ok s R'"
    "regions_elems R' = regions_elems S - regions_elems B" by blast
  have "regions_elems R' = regions_elems R - regions_elems (b # B)"
    unfolding R'(3) S(3) regions_elems_Cons by blast
  then show ?case using S(1) R'(1,2) by (simp del: regions_elems_Cons)
qed

lemma same_strides_not_mixed:
  assumes "regions_ok s A" "regions_ok s B"
  shows "\<not> (last_stride A \<noteq> 0 \<and> last_stride B \<noteq> 0 \<and> last_stride A \<noteq> last_stride B)"
  using last_stride_eq [OF assms(1)] last_stride_eq [OF assms(2)] by (auto split: if_splits)

lemma diff_regions_correct:
  assumes A: "regions_ok s A" and B: "regions_ok s B"
  obtains D where "subset_diff (basic_subset A) (basic_subset B) = Some (basic_subset D)" "regions_ok s D"
    "regions_elems D = regions_elems A - regions_elems B"
proof (cases "A = [] \<or> B = []")
  case True
  then show ?thesis using A
    by (intro that [of A]) (auto simp: subset_diff_def basic_subset_def is_basic_def)
next
  case False
  from diff_loop_correct [OF A B] obtain R where R: "diff_loop A B = Some R" "regions_ok s R"
    "regions_elems R = regions_elems A - regions_elems B" by blast
  obtain D where D: "merge_regions R = Some D" "regions_ok s D" "regions_elems D = regions_elems R"
    by (rule merge_regions_correct [OF R(2)])
  have "subset_diff (basic_subset A) (basic_subset B) = Some (basic_subset D)"
    using False R(1) D(1) same_strides_not_mixed [OF A B]
    by (auto simp: subset_diff_def basic_subset_def is_basic_def Let_def fenix_assert_bind)
  then show ?thesis using D R by (intro that [of D]) simp_all
qed

section \<open>Bounding\<close>

lemma regions_end_acc:
  "fold (\<lambda>r m. max m (snd (region_range r))) R n \<le> e
    \<longleftrightarrow> n \<le> e \<and> (\<forall>r \<in> set R. snd (region_range r) \<le> e)"
  by (induction R arbitrary: n) auto

lemma regions_end_le: "R \<noteq> [] \<Longrightarrow> regions_end R \<le> e \<longleftrightarrow> (\<forall>r \<in> set R. snd (region_range r) \<le> e)"
  by (simp add: regions_end_def regions_end_acc)

lemma regions_le_end:
  assumes "regions_ok s R" "x \<in> regions_elems R"
  shows "x \<le> regions_end R"
proof -
  obtain r where r: "r \<in> set R" "x \<in> region_elems r" using assms(2) by (auto simp: regions_elems_def)
  then have "R \<noteq> []" by auto
  then have "snd (region_range r) \<le> regions_end R" using regions_end_le [of R "regions_end R"] r(1) by simp
  then show ?thesis using region_elems_range(2) [OF regions_okD(1) [OF assms(1) r(1)] r(2)] by simp
qed

lemma regions_end_in:
  assumes "regions_ok s R" "R \<noteq> []"
  shows "regions_end R \<in> regions_elems R"
proof -
  have "\<exists>r \<in> set R. snd (region_range r) = regions_end R"
  proof (rule ccontr)
    assume "\<not> (\<exists>r \<in> set R. snd (region_range r) = regions_end R)"
    then have lt: "\<forall>r \<in> set R. snd (region_range r) < regions_end R"
      using regions_end_le [OF assms(2), of "regions_end R"] by (auto simp: order.strict_iff_order)
    then have "\<forall>r \<in> set R. snd (region_range r) \<le> regions_end R - 1" by auto
    then have "regions_end R \<le> regions_end R - 1" using regions_end_le [OF assms(2)] by blast
    then have "regions_end R = 0" by simp
    then show False using lt assms(2) by (cases R) auto
  qed
  then show ?thesis
    using region_elems_ends(2) regions_okD(1) [OF assms(1)] unfolding regions_elems_def by fastforce
qed

lemma regions_start_le:
  assumes "regions_ok s R" "x \<in> regions_elems R"
  shows "regions_start R \<le> x"
proof (cases R)
  case (Cons r T)
  then have "regions_elems R \<subseteq> {r_start r..}" using elems_beyond [of s r T "r_start r"] assms(1) by simp
  then show ?thesis using assms(2) Cons by (auto simp: regions_start_def)
qed (use assms in simp)

lemma regions_start_in:
  assumes "regions_ok s R" "R \<noteq> []"
  shows "regions_start R \<in> regions_elems R"
  using assms region_elems_ends(1) [OF regions_okD(1) [OF assms(1)]]
  by (cases R) (auto simp: regions_start_def)

lemma bound_loop_correct:
  assumes "regions_ok s R" "region_ok w" "r_reps w = 0" "regions_ok s ret"
    "regions_elems ret \<inter> regions_elems R = {}"
  shows "\<exists>R'. bound_loop w ret R = Some R' \<and> regions_ok s R' \<and>
    regions_elems R' = regions_elems ret \<union> regions_elems R \<inter> region_elems w"
  using assms(1,4,5)
proof (induction R arbitrary: ret)
  case Nil
  then show ?case by simp
next
  case (Cons r R)
  note c = regions_ok_ConsD [OF Cons.prems(1)]
  have w: "region_elems w = {r_start w..r_end w}" by (rule region_elems_block [OF assms(3)])
  have dis: "regions_elems ret \<inter> region_elems r = {}" "regions_elems ret \<inter> regions_elems R = {}"
    using Cons.prems(3) by (simp_all only: regions_elems_Cons) blast+
  show ?case
  proof (cases "r_start r > r_end w")
    case True
    then have "regions_elems (r # R) \<subseteq> {Suc (r_end w)..}" by (intro elems_beyond [OF Cons.prems(1)]) simp
    then have "regions_elems (r # R) \<inter> region_elems w = {}" unfolding w by fastforce
    then show ?thesis using True Cons.prems(2) by (simp del: regions_elems_Cons)
  next
    case near: False
    show ?thesis
    proof (cases "snd (region_range r) < r_start w")
      case True
      have "region_elems r \<inter> region_elems w = {}"
        using elems_apart_before [OF c(2) True] unfolding w by fastforce
      then have "regions_elems (r # R) \<inter> region_elems w = regions_elems R \<inter> region_elems w"
        by (simp only: regions_elems_Cons) blast
      then show ?thesis using Cons.IH [OF c(1) Cons.prems(2) dis(2)] near True
        by (simp del: regions_elems_Cons)
    next
      case False
      obtain V where V: "region_and r w = Some V" "regions_ok s V"
          "regions_elems V = region_elems r \<inter> region_elems w"
        by (rule region_and_correct [OF c(2) assms(2) _ c(3)]) (simp_all add: assms(3) same_stride_def)
      have "regions_elems ret \<inter> regions_elems V = {}" using V(3) dis(1) by blast
      then have ok: "regions_ok s (sset_merge ret V)" by (rule regions_ok_merge [OF Cons.prems(2) V(2)])
      have "regions_elems (sset_merge ret V) \<inter> regions_elems R = {}"
        unfolding regions_elems_merge V(3) using dis(2) c(4) by blast
      from Cons.IH [OF c(1) ok this] obtain R' where R': "bound_loop w (sset_merge ret V) R = Some R'"
        "regions_ok s R'" "regions_elems R' = regions_elems (sset_merge ret V) \<union> regions_elems R \<inter> region_elems w"
        by blast
      have "regions_elems R' = regions_elems ret \<union> regions_elems (r # R) \<inter> region_elems w"
        unfolding R'(3) regions_elems_merge V(3) regions_elems_Cons by blast
      then show ?thesis using near False V(1) R'(1,2) by (simp del: regions_elems_Cons)
    qed
  qed
qed

lemma bounded_range_correct:
  assumes R: "regions_ok s R" and lohi: "lo \<le> hi" "lo \<le> IDX_MAX + 1" "hi \<le> IDX_MAX \<or> hi = SIZE_MAX"
  obtains D where "bounded_range (basic_subset R) lo hi = Some D" "regions_ok s D"
    "regions_elems D = regions_elems R \<inter> {lo..hi}"
proof (cases "R = [] \<or> (regions_start R \<ge> lo \<and> regions_end R \<le> hi)")
  case True
  then have "regions_elems R \<inter> {lo..hi} = regions_elems R"
    using regions_start_le [OF R] regions_le_end [OF R] by fastforce
  then show ?thesis using True R
    by (intro that [of R]) (auto simp: bounded_range_def basic_subset_def is_basic_def)
next
  case False
  have "hi \<le> SIZE_MAX" using lohi(3) by (auto simp: SIZE_IDX)
  with lohi(1) have mk: "mk_block (lo, hi) = Some (block lo hi)" by (rule mk_block_eq)
  have w: "region_ok (block lo hi)" "r_reps (block lo hi) = 0" using lohi by (simp_all add: region_ok_def)
  from bound_loop_correct [OF R w regions_ok_Nil] obtain D where
    "bound_loop (block lo hi) [] R = Some D" "regions_ok s D"
    "regions_elems D = regions_elems R \<inter> region_elems (block lo hi)" by auto
  then show ?thesis using False mk
    by (intro that [of D]) (auto simp: bounded_range_def basic_subset_def is_basic_def region_elems_block)
qed

section \<open>Inclusion\<close>

lemma regions_empty_iff: "regions_ok s R \<Longrightarrow> R = [] \<longleftrightarrow> regions_elems R = {}"
  using region_elems_nonempty regions_okD(1) by (cases R) auto

lemma includes_loop_correct:
  assumes "regions_ok s S" "regions_ok s R" "regions_elems S \<subseteq> {..e}"
  shows "\<exists>S'. includes_loop e S R = Some S' \<and> regions_ok s S' \<and>
    regions_elems S' = regions_elems S - regions_elems R"
  using assms
proof (induction R arbitrary: S)
  case Nil
  then show ?case by simp
next
  case (Cons r R)
  note c = regions_ok_ConsD [OF Cons.prems(2)]
  show ?case
  proof (cases "r_start r > e")
    case True
    then have "regions_elems (r # R) \<subseteq> {Suc e..}" by (intro elems_beyond [OF Cons.prems(2)]) simp
    then have "regions_elems S - regions_elems (r # R) = regions_elems S" using Cons.prems(3) by fastforce
    then show ?thesis using True Cons.prems(1) by (simp del: regions_elems_Cons)
  next
    case False
    obtain T where T: "sweep_all (all_step r) S = Some T" "regions_ok s T"
        "regions_elems T = regions_elems S - region_elems r"
      by (rule sweep_all_correct [OF all_step_removes [OF c(2,3)] Cons.prems(1)])
    have "regions_elems T \<subseteq> {..e}" using T(3) Cons.prems(3) by blast
    from Cons.IH [OF T(2) c(1) this] obtain S' where S': "includes_loop e T R = Some S'" "regions_ok s S'"
      "regions_elems S' = regions_elems T - regions_elems R" by blast
    have "regions_elems S' = regions_elems S - regions_elems (r # R)"
      unfolding S'(3) T(3) regions_elems_Cons by blast
    then show ?thesis using False T(1) S'(1,2) by (simp del: regions_elems_Cons)
  qed
qed

lemma includes_all_regions:
  assumes R: "regions_ok s R" and e: "e \<le> IDX_MAX \<or> e = SIZE_MAX"
  shows "subset_includes_all (basic_subset R) e = Some ({..e} \<subseteq> regions_elems R)"
proof -
  have w: "mk_block (0, e) = Some (block 0 e)" using e by (intro mk_block_eq) (auto simp: SIZE_IDX)
  have ok: "regions_ok s [block 0 e]"
    using e by (auto simp: regions_ok_single region_ok_def same_stride_def)
  have el: "regions_elems [block 0 e] = {..e}" by (auto simp: region_elems_block)
  from includes_loop_correct [OF ok R, of e] el obtain S where
    S: "includes_loop e [block 0 e] R = Some S" "regions_ok s S" "regions_elems S = {..e} - regions_elems R"
    by (metis order_refl)
  have "S = [] \<longleftrightarrow> {..e} \<subseteq> regions_elems R"
    using regions_empty_iff [OF S(2)] S(3) by blast
  then show ?thesis using w S(1) by (simp add: subset_includes_all_def basic_subset_def is_basic_def)
qed

end
