(* ===== verification/Subset_Data.thy ===== *)
theory Subset_Data
  imports Subset_Ops
begin

text \<open>
  What a \<open>DataSubset\<close> does with data: counting its elements, comparing, packing the
  selected elements of a buffer and unpacking them again, its own serialised form and the
  MPI block list (src/data/subset.cpp).  A buffer is the list of its bytes.
\<close>

section \<open>Counting\<close>

lemma region_count_card:
  assumes "region_ok r" "r_end r \<noteq> SIZE_MAX"
  shows "region_count r = card (region_elems r)" "region_count r = (r_end r - r_start r + 1) * (r_reps r + 1)"
    "region_count r \<noteq> SIZE_MAX"
proof -
  note le = region_ok_start_end [OF assms(1)]
  have dis: "\<forall>i \<in> {0..r_reps r}. \<forall>j \<in> {0..r_reps r}. i \<noteq> j \<longrightarrow> rep_block r i \<inter> rep_block r j = {}"
  proof (intro ballI impI)
    fix i j
    assume ij: "i \<in> {0..r_reps r}" "j \<in> {0..r_reps r}" "i \<noteq> j"
    then have "r_reps r \<noteq> 0" by auto
    then show "rep_block r i \<inter> rep_block r j = {}" by (rule rep_block_disjoint [OF assms(1) _ ij(3)])
  qed
  have "card (region_elems r) = (\<Sum>k \<in> {0..r_reps r}. card (rep_block r k))"
    unfolding region_elems_reps by (rule card_UN_disjoint) (use dis in simp_all)
  also have "\<dots> = (\<Sum>k \<in> {0..r_reps r}. r_end r - r_start r + 1)"
    using le by (intro sum.cong) simp_all
  finally have card: "card (region_elems r) = (r_end r - r_start r + 1) * (r_reps r + 1)" by simp
  have "region_elems r \<subseteq> {..IDX_MAX}"
  proof
    fix x
    assume "x \<in> region_elems r"
    from region_elems_range(2) [OF assms(1) this] show "x \<in> {..IDX_MAX}"
      using region_range_bound [OF assms(1)] region_ok_blockD(3) [OF assms(1)] assms(2)
      by (cases "r_reps r = 0") (auto simp: region_range_block assms(1))
  qed
  then have "card (region_elems r) \<le> card {..IDX_MAX}" by (rule card_mono [OF finite_atMost])
  then have small: "card (region_elems r) \<le> IDX_MAX + 1" by simp
  then have prod: "(r_end r - r_start r + 1) * (r_reps r + 1) \<le> SIZE_MAX"
    "(r_end r - r_start r + 1) * (r_reps r + 1) \<noteq> SIZE_MAX"
    unfolding card [symmetric] by (simp_all add: SIZE_MAX_def IDX_MAX_def)
  have fits: "r_end r - r_start r + 1 \<le> SIZE_MAX" "r_reps r + 1 \<le> SIZE_MAX" "r_end r \<le> SIZE_MAX"
    using region_reps_lt_max [OF assms(1)] region_ok_end [OF assms(1)] assms(2) by simp_all
  have "region_count r = sz_mul (sz_add (sz_sub (r_end r) (r_start r)) 1) (sz_add (r_reps r) 1)"
    using assms(2) region_reps_lt_max [OF assms(1)] by (simp add: region_count_def)
  also have "\<dots> = (r_end r - r_start r + 1) * (r_reps r + 1)"
    unfolding sz_sub_exact [OF le fits(3)] sz_add_exact [OF fits(1)] sz_add_exact [OF fits(2)]
    by (rule sz_mul_exact [OF prod(1)])
  finally show "region_count r = (r_end r - r_start r + 1) * (r_reps r + 1)" .
  then show "region_count r = card (region_elems r)" "region_count r \<noteq> SIZE_MAX"
    using card prod(2) by simp_all
qed

lemma regions_card:
  assumes "regions_ok s (r # R)"
  shows "card (regions_elems (r # R)) = card (region_elems r) + card (regions_elems R)"
proof -
  note c = regions_ok_ConsD [OF assms]
  have "finite (regions_elems R)"
    using region_finite regions_okD(1) [OF c(1)] by (simp add: regions_elems_def)
  then show ?thesis
    using card_Un_disjoint [OF region_finite [OF c(2)] _ c(4)] by simp
qed

lemma bounded_end: "regions_elems R \<subseteq> {..IDX_MAX} \<Longrightarrow> regions_ok s R \<Longrightarrow> r \<in> set R \<Longrightarrow> r_end r \<noteq> SIZE_MAX"
proof
  assume "regions_elems R \<subseteq> {..IDX_MAX}" "regions_ok s R" "r \<in> set R" "r_end r = SIZE_MAX"
  moreover have "r_end r \<in> region_elems r"
    using rep_block_elems [of 0 r] region_ok_start_end regions_okD(1) calculation(2,3) by fastforce
  ultimately have "SIZE_MAX \<le> IDX_MAX" unfolding regions_elems_def by auto
  then show False by simp
qed

lemma count_loop_correct:
  assumes "regions_ok s R" "regions_elems R \<subseteq> {..IDX_MAX}" "n + card (regions_elems R) \<le> SIZE_MAX"
  shows "count_loop n R = n + card (regions_elems R)"
  using assms
proof (induction R arbitrary: n)
  case Nil
  then show ?case by simp
next
  case (Cons r R)
  note c = regions_ok_ConsD [OF Cons.prems(1)]
  have "r_end r \<noteq> SIZE_MAX" by (rule bounded_end [OF Cons.prems(2,1)]) simp
  note rc = region_count_card [OF c(2) this]
  note card = regions_card [OF Cons.prems(1)]
  have "n + region_count r \<le> SIZE_MAX" using Cons.prems(3) card rc(1) by linarith
  then have add: "sz_add n (region_count r) = n + card (region_elems r)" using rc(1) by (simp add: sz)
  have "regions_elems R \<subseteq> {..IDX_MAX}" using Cons.prems(2) by (simp only: regions_elems_Cons) blast
  from Cons.IH [OF c(1) this, of "n + card (region_elems r)"] Cons.prems(3) card
  have "count_loop (n + card (region_elems r)) R = n + card (regions_elems (r # R))" by linarith
  then show ?case using rc(3) add by (simp del: regions_elems_Cons)
qed

text \<open>The number of elements up to an index is their cardinality.\<close>

lemma subset_count_regions:
  assumes R: "regions_ok s R" and m: "m \<le> IDX_MAX"
  shows "subset_count (basic_subset R) m = Some (card (regions_elems R \<inter> {..m}))"
proof -
  obtain D where D: "bounded_range (basic_subset R) 0 m = Some D" "regions_ok s D"
      "regions_elems D = regions_elems R \<inter> {0..m}"
    by (rule bounded_range_correct [OF R, of 0 m]) (use m in simp_all)
  have sub: "regions_elems D \<subseteq> {..IDX_MAX}" using D(3) m by auto
  have "card (regions_elems D) \<le> card {..IDX_MAX}" by (rule card_mono [OF finite_atMost sub])
  then have "0 + card (regions_elems D) \<le> SIZE_MAX" by (simp add: SIZE_IDX)
  from count_loop_correct [OF D(2) sub this] show ?thesis
    using D(1,3) by (simp add: subset_count_def bounded_regions_def atLeast0AtMost)
qed

section \<open>Equality\<close>

lemma subset_equal_regions:
  assumes A: "regions_ok s A" and B: "regions_ok s B"
  shows "subset_equal (basic_subset A) (basic_subset B) = Some (regions_elems A = regions_elems B)"
proof -
  have start: "regions_elems A \<noteq> regions_elems B" if "regions_start A \<noteq> regions_start B"
  proof
    assume eq: "regions_elems A = regions_elems B"
    then have "A = [] \<longleftrightarrow> B = []" using regions_empty_iff [OF A] regions_empty_iff [OF B] by simp
    then have "A \<noteq> []" "B \<noteq> []" using that by auto
    from regions_start_in [OF A this(1)] regions_start_in [OF B this(2)]
    show False using regions_start_le [OF A] regions_start_le [OF B] eq that by fastforce
  qed
  have "end": "regions_elems A \<noteq> regions_elems B" if "regions_end A \<noteq> regions_end B" "(A = []) = (B = [])"
  proof
    assume eq: "regions_elems A = regions_elems B"
    have "A \<noteq> []" "B \<noteq> []" using that by auto
    from regions_end_in [OF A this(1)] regions_end_in [OF B this(2)]
    show False using regions_le_end [OF A] regions_le_end [OF B] eq that by fastforce
  qed
  have empty: "regions_elems A \<noteq> regions_elems B" if "(A = []) \<noteq> (B = [])"
    using that regions_empty_iff [OF A] regions_empty_iff [OF B] by auto
  obtain D where D: "subset_diff (basic_subset A) (basic_subset B) = Some (basic_subset D)" "regions_ok s D"
      "regions_elems D = regions_elems A - regions_elems B" by (rule diff_regions_correct [OF A B])
  obtain E where E: "subset_diff (basic_subset B) (basic_subset A) = Some (basic_subset E)" "regions_ok s E"
      "regions_elems E = regions_elems B - regions_elems A" by (rule diff_regions_correct [OF B A])
  have iff: "D = [] \<and> E = [] \<longleftrightarrow> regions_elems A = regions_elems B"
    using regions_empty_iff [OF D(2)] regions_empty_iff [OF E(2)] D(3) E(3) by blast
  show ?thesis
    using start "end" empty iff same_strides_not_mixed [OF A B] D(1) E(1)
    by (auto simp: subset_equal_def subset_empty_def Let_def)
qed

section \<open>The blocks of a subset\<close>

lemma block_iter_correct:
  assumes "regions_ok s R"
  shows "\<exists>bs. block_iter R = Some bs \<and> regions_elems bs = regions_elems R \<and>
    (\<forall>b \<in> set bs. region_ok b \<and> r_reps b = 0) \<and>
    ((\<forall>r \<in> set R. r_end r \<noteq> SIZE_MAX) \<longrightarrow>
      sum_list (map (\<lambda>b. r_end b - r_start b + 1) bs) = card (regions_elems R))"
  using assms
proof (induction R)
  case Nil
  then show ?case by simp
next
  case (Cons r R)
  note c = regions_ok_ConsD [OF Cons.prems]
  define rb where "rb = map (\<lambda>k. block (r_start r + k * r_stride r) (r_end r + k * r_stride r)) [0..<r_reps r + 1]"
  note b = reps_blocks_ok [OF c(2), folded rb_def]
  have get: "get_all_reps r [0..<r_reps r + 1] = Some rb"
    unfolding rb_def by (rule get_all_reps_correct [OF c(2)]) auto
  have "map (\<lambda>b. r_end b - r_start b + 1) rb = map (\<lambda>_. r_end r - r_start r + 1) [0..<r_reps r + 1]"
    unfolding rb_def by (simp del: upt_Suc)
  then have len: "sum_list (map (\<lambda>b. r_end b - r_start b + 1) rb) = (r_end r - r_start r + 1) * (r_reps r + 1)"
    by (simp only: map_replicate_const sum_list_replicate length_upt) (simp add: mult.commute)
  from Cons.IH [OF c(1)] obtain bs where bs: "block_iter R = Some bs" "regions_elems bs = regions_elems R"
    "\<forall>b \<in> set bs. region_ok b \<and> r_reps b = 0"
    "(\<forall>r \<in> set R. r_end r \<noteq> SIZE_MAX) \<longrightarrow>
      sum_list (map (\<lambda>b. r_end b - r_start b + 1) bs) = card (regions_elems R)" by blast
  have "block_iter (r # R) = Some (rb @ bs)"
    using get bs(1) by (simp del: upt_Suc)
  moreover have "regions_elems (rb @ bs) = regions_elems (r # R)" using b(1) bs(2) by simp
  moreover have "\<forall>x \<in> set (rb @ bs). region_ok x \<and> r_reps x = 0" using b(2) bs(3) by auto
  moreover have "(\<forall>x \<in> set (r # R). r_end x \<noteq> SIZE_MAX) \<longrightarrow>
      sum_list (map (\<lambda>b. r_end b - r_start b + 1) (rb @ bs)) = card (regions_elems (r # R))"
  proof
    assume "\<forall>x \<in> set (r # R). r_end x \<noteq> SIZE_MAX"
    then show "sum_list (map (\<lambda>b. r_end b - r_start b + 1) (rb @ bs)) = card (regions_elems (r # R))"
      using len bs(4) region_count_card(1,2) [OF c(2)] regions_card [OF Cons.prems]
      by (simp del: regions_elems_Cons)
  qed
  ultimately show ?case by blast
qed

section \<open>Packing and unpacking\<close>

text \<open>
  The copy loops.  An element size of zero divides by zero; that trap is \<open>None\<close> too.
\<close>

definition block_bytes :: "nat \<Rightarrow> data_region \<Rightarrow> nat \<times> nat" where
  "block_bytes es b =
     (sz_mul (r_start b) es, sz_mul (sz_add (sz_sub (r_end b) (r_start b)) 1) es)"

fun pack_loop :: "nat \<Rightarrow> 'b list \<Rightarrow> nat \<Rightarrow> 'b list \<Rightarrow> data_region list \<Rightarrow> 'b list option" where
  "pack_loop es src cap out [] = Some out"
| "pack_loop es src cap out (b # bs) =
     (let (start, len) = block_bytes es b
      in do {
        fenix_assert (length out + len \<le> cap);
        fenix_assert (sz_add start len \<le> length src);
        pack_loop es src cap (out @ take len (drop start src)) bs
      })"

definition pack_data :: "data_subset \<Rightarrow> nat \<Rightarrow> 'b list \<Rightarrow> 'b list option" where
  "pack_data d es src = do {
     fenix_assert (is_basic d);
     if ss_regions d = [] then Some []
     else do {
       fenix_assert (es \<noteq> 0 \<and> length src mod es = 0);
       (let max_elm = sz_sub (length src div es) 1
        in do {
          n \<leftarrow> subset_count d max_elm;
          R \<leftarrow> bounded_regions d max_elm;
          bs \<leftarrow> block_iter R;
          out \<leftarrow> pack_loop es src (sz_mul n es) [] bs;
          fenix_assert (length out = sz_mul n es);
          Some out
        })
     }
   }"

fun unpack_loop :: "nat \<Rightarrow> 'b list \<Rightarrow> nat \<Rightarrow> 'b list \<Rightarrow> data_region list \<Rightarrow> ('b list \<times> nat) option" where
  "unpack_loop es src off dst [] = Some (dst, off)"
| "unpack_loop es src off dst (b # bs) =
     (let (start, len) = block_bytes es b
      in do {
        fenix_assert (off + len \<le> length src);
        fenix_assert (sz_add start len \<le> length dst);
        unpack_loop es src (off + len)
          (take start dst @ take len (drop off src) @ drop (start + len) dst) bs
      })"

text \<open>
  An empty destination is first resized to hold the whole subset; \<open>fresh n\<close> is what the
  \<open>n\<close> bytes of newly allocated memory contain.
\<close>

definition unpack_data ::
  "(nat \<Rightarrow> 'b list) \<Rightarrow> data_subset \<Rightarrow> nat \<Rightarrow> 'b list \<Rightarrow> 'b list \<Rightarrow> 'b list option" where
  "unpack_data fresh d es src dst = do {
     fenix_assert (is_basic d);
     if ss_regions d = [] then Some dst
     else do {
       fenix_assert (es \<noteq> 0 \<and> length dst mod es = 0);
       (max_elm, dst) \<leftarrow>
         (let m = sz_sub (length dst div es) 1
          in if m = SIZE_MAX then
               (let e = regions_end (ss_regions d)
                in do {
                  fenix_assert (e \<noteq> SIZE_MAX);
                  Some (e, fresh (sz_mul (sz_add e 1) es))
                })
             else Some (m, dst));
       n \<leftarrow> subset_count d max_elm;
       fenix_assert (length src = sz_mul n es);
       R \<leftarrow> bounded_regions d max_elm;
       bs \<leftarrow> block_iter R;
       (dst, off) \<leftarrow> unpack_loop es src 0 dst bs;
       fenix_assert (off = length src);
       Some dst
     }
   }"

text \<open>A block lies in a buffer of \<open>n\<close> elements, whose size in bytes does not wrap.\<close>

definition in_buffer :: "nat \<Rightarrow> nat \<Rightarrow> data_region \<Rightarrow> bool" where
  "in_buffer es n b \<longleftrightarrow> r_start b \<le> r_end b \<and> r_end b < n"

lemma block_bytes_eq:
  assumes "in_buffer es n b" "n * es \<le> SIZE_MAX" "es \<noteq> 0"
  shows "block_bytes es b = (r_start b * es, (r_end b - r_start b + 1) * es)"
    "sz_add (r_start b * es) ((r_end b - r_start b + 1) * es) = (r_end b + 1) * es"
    "r_start b * es + (r_end b - r_start b + 1) * es = (r_end b + 1) * es" "(r_end b + 1) * es \<le> n * es"
proof -
  have b: "r_start b \<le> r_end b" "r_end b + 1 \<le> n" using assms(1) by (simp_all add: in_buffer_def)
  show top: "(r_end b + 1) * es \<le> n * es" using b(2) by (rule mult_le_mono1)
  have "r_start b + (r_end b - r_start b + 1) = r_end b + 1" using b(1) by simp
  then show sum: "r_start b * es + (r_end b - r_start b + 1) * es = (r_end b + 1) * es"
    by (metis add_mult_distrib)
  have "n \<le> n * es" using assms(3) by simp
  then have n: "r_end b \<le> SIZE_MAX" "r_end b - r_start b + 1 \<le> SIZE_MAX" using b assms(2) by linarith+
  have p: "r_start b * es \<le> SIZE_MAX" "(r_end b - r_start b + 1) * es \<le> SIZE_MAX"
    using sum top assms(2) by linarith+
  show "block_bytes es b = (r_start b * es, (r_end b - r_start b + 1) * es)"
    unfolding block_bytes_def sz_sub_exact [OF b(1) n(1)] sz_add_exact [OF n(2)]
      sz_mul_exact [OF p(1)] sz_mul_exact [OF p(2)] ..
  show "sz_add (r_start b * es) ((r_end b - r_start b + 1) * es) = (r_end b + 1) * es"
    unfolding sum [symmetric] using sum top assms(2) by (intro sz_add_exact) linarith
qed

definition block_len :: "data_region \<Rightarrow> nat" where
  "block_len b = r_end b - r_start b + 1"

definition slice :: "nat \<Rightarrow> 'b list \<Rightarrow> data_region \<Rightarrow> 'b list" where
  "slice es src b = take (block_len b * es) (drop (r_start b * es) src)"

lemma slice_length:
  assumes "in_buffer es n b" "length src = n * es" "n * es \<le> SIZE_MAX" "es \<noteq> 0"
  shows "length (slice es src b) = block_len b * es"
  using block_bytes_eq(3,4) [OF assms(1,3,4)] assms(2) by (simp add: slice_def block_len_def)

lemma splice_nth:
  assumes "length m = l" "s + l \<le> length d" "i < length d"
  shows "(take s d @ m @ drop (s + l) d) ! i = (if s \<le> i \<and> i < s + l then m ! (i - s) else d ! i)"
  using assms by (auto simp: nth_append min_def)

lemma pack_loop_eq:
  assumes "\<forall>b \<in> set bs. in_buffer es n b" "length src = n * es" "n * es \<le> SIZE_MAX" "es \<noteq> 0"
    "length out + sum_list (map block_len bs) * es \<le> cap"
  shows "pack_loop es src cap out bs = Some (out @ concat (map (slice es src) bs))
    \<and> length (out @ concat (map (slice es src) bs)) = length out + sum_list (map block_len bs) * es"
  using assms(1,5)
proof (induction bs arbitrary: out)
  case Nil
  then show ?case by simp
next
  case (Cons b bs)
  then have b: "in_buffer es n b" by simp
  note e = block_bytes_eq [OF b assms(3,4)]
  have len: "length (slice es src b) = block_len b * es" by (rule slice_length [OF b assms(2-4)])
  have fit: "length out + block_len b * es \<le> cap" using Cons.prems(2) by (simp add: add_mult_distrib)
  have "pack_loop es src cap out (b # bs) = pack_loop es src cap (out @ slice es src b) bs"
    using fit e(2,4) assms(2)
    by (simp add: e(1) slice_def block_len_def fenix_assert_bind)
  moreover have "length (out @ slice es src b) + sum_list (map block_len bs) * es \<le> cap"
    using Cons.prems(2) len by (simp add: add_mult_distrib)
  ultimately show ?case
    using Cons.IH [of "out @ slice es src b"] Cons.prems(1) len by (simp add: add_mult_distrib)
qed

lemma unpack_loop_eq:
  assumes "\<forall>b \<in> set bs. in_buffer es n b" "length src = n * es" "n * es \<le> SIZE_MAX" "es \<noteq> 0"
    "length dst = n * es" "p = pre @ concat (map (slice es src) bs)"
  shows "\<exists>dst'. unpack_loop es p (length pre) dst bs = Some (dst', length p) \<and> length dst' = n * es \<and>
    (\<forall>i < n * es. dst' ! i = (if i div es \<in> regions_elems (map (\<lambda>b. block (r_start b) (r_end b)) bs)
       then src ! i else dst ! i))"
  using assms(1,5,6)
proof (induction bs arbitrary: dst pre)
  case Nil
  then show ?case by simp
next
  case (Cons b bs)
  then have b: "in_buffer es n b" by simp
  note e = block_bytes_eq [OF b assms(3,4), folded block_len_def]
  let ?s = "r_start b * es" and ?l = "block_len b * es"
  have len: "length (slice es src b) = ?l" by (rule slice_length [OF b assms(2-4)])
  have sl: "?s + ?l = (r_end b + 1) * es" "(r_end b + 1) * es \<le> n * es"
    using e(3,4) by simp_all
  let ?pre = "pre @ slice es src b"
  let ?d = "take ?s dst @ slice es src b @ drop (?s + ?l) dst"
  have take: "take ?l (drop (length pre) p) = slice es src b"
    using Cons.prems(3) len by simp
  have fit: "length pre + ?l \<le> length p" using Cons.prems(3) len by simp
  have dlen: "length ?d = n * es" using Cons.prems(2) len sl by simp
  have step: "unpack_loop es p (length pre) dst (b # bs) = unpack_loop es p (length ?pre) ?d bs"
    unfolding unpack_loop.simps(2) e(1) Let_def prod.case e(2) take
    using fit sl Cons.prems(2) len by (simp add: fenix_assert_bind)
  have "\<forall>b \<in> set bs. in_buffer es n b" "p = ?pre @ concat (map (slice es src) bs)"
    using Cons.prems(1,3) by simp_all
  from Cons.IH [OF this(1) dlen this(2)] obtain dst' where d: "unpack_loop es p (length ?pre) ?d bs = Some (dst', length p)"
    "length dst' = n * es"
    "\<forall>i < n * es. dst' ! i = (if i div es \<in> regions_elems (map (\<lambda>b. block (r_start b) (r_end b)) bs)
       then src ! i else ?d ! i)" by blast
  have nth: "?d ! i = (if i div es \<in> {r_start b..r_end b} then src ! i else dst ! i)" if i: "i < n * es" for i
  proof -
    have iff: "i div es \<in> {r_start b..r_end b} \<longleftrightarrow> ?s \<le> i \<and> i < ?s + ?l"
    proof -
      have pos: "0 < es" using assms(4) by simp
      have "r_start b \<le> i div es \<longleftrightarrow> ?s \<le> i" by (rule less_eq_div_iff_mult_less_eq [OF pos])
      moreover have "i div es \<le> r_end b \<longleftrightarrow> i div es < r_end b + 1" by auto
      moreover have "i div es < r_end b + 1 \<longleftrightarrow> i < (r_end b + 1) * es" by (rule div_less_iff_less_mult [OF pos])
      ultimately show ?thesis unfolding sl(1) by simp
    qed
    have at: "?d ! i = (if ?s \<le> i \<and> i < ?s + ?l then slice es src b ! (i - ?s) else dst ! i)"
      using sl Cons.prems(2) i by (intro splice_nth [OF len]) linarith+
    show ?thesis
    proof (cases "?s \<le> i \<and> i < ?s + ?l")
      case True
      have "?s \<le> length src" using sl assms(2) by linarith
      then have "drop ?s src ! (i - ?s) = src ! i" using True by (simp add: nth_drop)
      moreover have "i - ?s < ?l" using True by linarith
      ultimately have "slice es src b ! (i - ?s) = src ! i" by (simp add: slice_def)
      with True show ?thesis unfolding at iff by simp
    next
      case False
      then show ?thesis unfolding at iff by (simp only: if_False)
    qed
  qed
  show ?case
    unfolding step using d nth by (intro exI [of _ dst']) (auto simp: region_elems_block)
qed

lemma blocks_eta: "\<forall>b \<in> set bs. region_ok b \<and> r_reps b = 0 \<Longrightarrow> map (\<lambda>b. block (r_start b) (r_end b)) bs = bs"
  using region_ok_is_block by (intro map_idI) metis

text \<open>The blocks that both loops run over, for a buffer of \<open>n > 0\<close> elements.\<close>

lemma buffer_blocks:
  assumes R: "regions_ok s R" and n: "0 < n" "n \<le> IDX_MAX"
  obtains D bs where "bounded_regions (basic_subset R) (n - 1) = Some D" "block_iter D = Some bs"
    "\<forall>b \<in> set bs. in_buffer es n b" "regions_elems bs = regions_elems R \<inter> {..<n}"
    "\<forall>b \<in> set bs. region_ok b \<and> r_reps b = 0"
    "sum_list (map block_len bs) = card (regions_elems R \<inter> {..<n})"
    "subset_count (basic_subset R) (n - 1) = Some (card (regions_elems R \<inter> {..<n}))"
proof -
  have rng: "{..n - 1} = {..<n}" "{0..n - 1} = {..<n}" using n(1) by auto
  have n1: "n - 1 \<le> IDX_MAX" using n(2) by linarith
  obtain D where D: "bounded_range (basic_subset R) 0 (n - 1) = Some D" "regions_ok s D"
      "regions_elems D = regions_elems R \<inter> {0..n - 1}"
    by (rule bounded_range_correct [OF R, of 0 "n - 1"]) (use n1 in simp_all)
  have sub: "regions_elems D \<subseteq> {..IDX_MAX}" using D(3) n by auto
  from block_iter_correct [OF D(2)] obtain bs where bs: "block_iter D = Some bs"
    "regions_elems bs = regions_elems D" "\<forall>b \<in> set bs. region_ok b \<and> r_reps b = 0"
    "(\<forall>r \<in> set D. r_end r \<noteq> SIZE_MAX) \<longrightarrow>
      sum_list (map (\<lambda>b. r_end b - r_start b + 1) bs) = card (regions_elems D)" by blast
  have "\<forall>r \<in> set D. r_end r \<noteq> SIZE_MAX" using bounded_end [OF sub D(2)] by blast
  then have sum: "sum_list (map block_len bs) = card (regions_elems D)"
    using bs(4) by (simp add: block_len_def cong: map_cong)
  have inb: "in_buffer es n b" if b: "b \<in> set bs" for b
  proof -
    have "region_ok b" "r_reps b = 0" using bs(3) b by auto
    then have "r_start b \<le> r_end b" "r_end b \<in> region_elems b"
      using region_ok_start_end [of b] by (simp_all add: region_elems_block)
    moreover have "region_elems b \<subseteq> {..<n}" using bs(2) D(3) rng b by (auto simp: regions_elems_def)
    ultimately show ?thesis by (auto simp: in_buffer_def)
  qed
  have "subset_count (basic_subset R) (n - 1) = Some (card (regions_elems R \<inter> {..<n}))"
    using subset_count_regions [OF R, of "n - 1"] n rng by simp
  then show ?thesis
    using D(1,3) bs(1-3) sum inb rng by (intro that [of D bs]) (auto simp: bounded_regions_def)
qed

lemma max_element:
  assumes "0 < n" "n \<le> IDX_MAX" "es \<noteq> 0"
  shows "sz_sub (n * es div es) 1 = n - 1" "n - 1 \<noteq> SIZE_MAX"
  using assms by (simp_all add: sz SIZE_IDX)

lemma pack_data_correct:
  assumes R: "regions_ok s R" "R \<noteq> []" and n: "0 < n" "n * es \<le> IDX_MAX" "es \<noteq> 0"
    and src: "length src = n * es"
  obtains bs where "pack_data (basic_subset R) es src = Some (concat (map (slice es src) bs))"
    "length (concat (map (slice es src) bs)) = card (regions_elems R \<inter> {..<n}) * es"
    "block_iter (the (bounded_regions (basic_subset R) (n - 1))) = Some bs"
proof -
  have "n \<le> n * es" using n(3) by simp
  then have nI: "n \<le> IDX_MAX" using n(2) by linarith
  have top: "n * es \<le> SIZE_MAX" using n(2) by (simp add: SIZE_IDX)
  obtain D bs where b: "bounded_regions (basic_subset R) (n - 1) = Some D" "block_iter D = Some bs"
    "\<forall>b \<in> set bs. in_buffer es n b"
    "sum_list (map block_len bs) = card (regions_elems R \<inter> {..<n})"
    "subset_count (basic_subset R) (n - 1) = Some (card (regions_elems R \<inter> {..<n}))"
    by (rule buffer_blocks [OF R(1) n(1) nI, of es])
  let ?c = "card (regions_elems R \<inter> {..<n})"
  have "?c \<le> card {..<n}" by (intro card_mono) auto
  then have "?c * es \<le> n * es" by (intro mult_le_mono1) simp
  then have "?c * es \<le> SIZE_MAX" using top by linarith
  then have mul: "sz_mul ?c es = ?c * es" by (rule sz_mul_exact)
  have "length [] + sum_list (map block_len bs) * es \<le> ?c * es" by (simp add: b(4))
  from pack_loop_eq [OF b(3) src top n(3) this]
  have p: "pack_loop es src (?c * es) [] bs = Some (concat (map (slice es src) bs))"
    "length (concat (map (slice es src) bs)) = ?c * es" by (simp_all add: b(4))
  have "pack_data (basic_subset R) es src = Some (concat (map (slice es src) bs))"
    unfolding pack_data_def basic_subset_sel src max_element(1) [OF n(1) nI n(3)] Let_def
    using R(2) n(3) p by (simp add: b(1,2,5) [simplified One_nat_def] mul fenix_assert_bind)
  then show ?thesis using that p(2) b(1,2) by simp
qed

text \<open>
  Packing a buffer and unpacking the result into a buffer of the same size overwrites the
  selected elements, and only those.
\<close>

lemma unpack_pack_data:
  assumes R: "regions_ok s R" and n: "0 < n" "n * es \<le> IDX_MAX" "es \<noteq> 0"
    and src: "length src = n * es" and dst: "length dst = n * es"
  obtains p dst' where "pack_data (basic_subset R) es src = Some p"
    "unpack_data fresh (basic_subset R) es p dst = Some dst'" "length dst' = n * es"
    "\<forall>i < n * es. dst' ! i = (if i div es \<in> regions_elems R then src ! i else dst ! i)"
proof (cases "R = []")
  case True
  then show ?thesis using dst
    by (intro that [of "[]" dst]) (simp_all add: pack_data_def unpack_data_def)
next
  case False
  have "n \<le> n * es" using n(3) by simp
  then have nI: "n \<le> IDX_MAX" using n(2) by linarith
  have top: "n * es \<le> SIZE_MAX" using n(2) by (simp add: SIZE_IDX)
  obtain D bs where b: "bounded_regions (basic_subset R) (n - 1) = Some D" "block_iter D = Some bs"
    "\<forall>b \<in> set bs. in_buffer es n b" "regions_elems bs = regions_elems R \<inter> {..<n}"
    "\<forall>b \<in> set bs. region_ok b \<and> r_reps b = 0"
    "subset_count (basic_subset R) (n - 1) = Some (card (regions_elems R \<inter> {..<n}))"
    by (rule buffer_blocks [OF R(1) n(1) nI, of es])
  let ?c = "card (regions_elems R \<inter> {..<n})" and ?p = "concat (map (slice es src) bs)"
  have p: "pack_data (basic_subset R) es src = Some ?p" "length ?p = ?c * es"
    using b(1,2) by (rule_tac pack_data_correct [OF R(1) False n src], simp)+
  have "length ?p \<le> SIZE_MAX"
  proof -
    have "?c \<le> card {..<n}" by (intro card_mono) auto
    then have "?c * es \<le> n * es" by (intro mult_le_mono1) simp
    then show ?thesis using top p(2) by linarith
  qed
  then have mul: "sz_mul ?c es = length ?p" unfolding p(2) by (rule sz_mul_exact)
  have "?p = [] @ ?p" by simp
  from unpack_loop_eq [OF b(3) src top n(3) dst this] obtain dst' where
    d: "unpack_loop es ?p 0 dst bs = Some (dst', length ?p)" "length dst' = n * es"
      "\<forall>i < n * es. dst' ! i = (if i div es \<in> regions_elems bs then src ! i else dst ! i)"
    unfolding blocks_eta [OF b(5)] by auto
  have u: "unpack_data fresh (basic_subset R) es ?p dst = Some dst'"
    unfolding unpack_data_def basic_subset_sel dst max_element(1) [OF n(1) nI n(3)] Let_def
    using False n(3) nI d(1) max_element(2) [OF n(1) nI n(3)]
    by (simp add: b(1,2,6) [simplified One_nat_def] mul fenix_assert_bind)
  have "i div es < n" if "i < n * es" for i
    using that n(3) by (simp add: div_less_iff_less_mult)
  then have "\<forall>i < n * es. dst' ! i = (if i div es \<in> regions_elems R then src ! i else dst ! i)"
    using d(3) unfolding b(4) by simp
  with p(1) u d(2) show ?thesis by (rule that)
qed

end
