(* ===== verification/Subset_Form.thy ===== *)
theory Subset_Form
  imports Subset_Data
begin

text \<open>
  The external forms of a \<open>DataSubset\<close>: its serialised bytes, its text and the block list
  of its MPI datatype (src/data/subset.cpp).
\<close>

section \<open>Serialisation\<close>

text \<open>The memory of a \<open>size_t\<close>: eight bytes, least significant first.\<close>

definition size_bytes :: "nat \<Rightarrow> nat list" where
  "size_bytes n = map (\<lambda>k. n div 256 ^ k mod 256) [0..<8]"

fun bytes_size :: "nat list \<Rightarrow> nat" where
  "bytes_size [] = 0"
| "bytes_size (b # bs) = b + 256 * bytes_size bs"

definition region_bytes :: "data_region \<Rightarrow> nat list" where
  "region_bytes r =
     size_bytes (r_start r) @ size_bytes (r_end r) @ size_bytes (r_reps r) @ size_bytes (r_stride r)"

definition bytes_region :: "nat list \<Rightarrow> data_region" where
  "bytes_region bs =
     \<lparr>r_start = bytes_size (take 8 bs), r_end = bytes_size (take 8 (drop 8 bs)),
      r_reps = bytes_size (take 8 (drop 16 bs)), r_stride = bytes_size (take 8 (drop 24 bs))\<rparr>"

definition sizeof_region :: nat where
  "sizeof_region = 32"

definition subset_serialize :: "data_subset \<Rightarrow> nat list" where
  "subset_serialize d = concat (map region_bytes (ss_regions d))"

fun read_regions :: "data_region list \<Rightarrow> nat \<Rightarrow> nat list \<Rightarrow> data_region list" where
  "read_regions R 0 buf = R"
| "read_regions R (Suc n) buf =
     read_regions (sset_insert (bytes_region buf) R) n (drop sizeof_region buf)"

definition subset_deserialize :: "nat list \<Rightarrow> data_subset option" where
  "subset_deserialize buf = do {
     fenix_assert (length buf mod sizeof_region = 0);
     Some (basic_subset (read_regions [] (length buf div sizeof_region) buf))
   }"

lemma bytes_size_digits: "bytes_size (map (\<lambda>k. n div 256 ^ k mod 256) [0..<m]) = n mod 256 ^ m"
proof (induction m arbitrary: n)
  case (Suc m)
  have "map (\<lambda>k. n div 256 ^ k mod 256) [0..<Suc m]
      = n mod 256 # map (\<lambda>k. n div 256 div 256 ^ k mod 256) [0..<m]"
    by (simp add: upt_conv_Cons map_Suc_upt [symmetric] div_mult2_eq del: upt_Suc)
  then show ?case
    using Suc [of "n div 256"] mod_mult2_eq [of n 256 "256 ^ m"] by (simp add: add.commute)
qed simp

lemma bytes_size_bytes: "n \<le> SIZE_MAX \<Longrightarrow> bytes_size (size_bytes n) = n"
  unfolding size_bytes_def bytes_size_digits by (simp add: SIZE_MAX_def)

lemma length_size_bytes [simp]: "length (size_bytes n) = 8"
  by (simp add: size_bytes_def)

lemma length_region_bytes [simp]: "length (region_bytes r) = 32"
  by (simp add: region_bytes_def)

lemma region_fields_bound:
  assumes "region_ok r"
  shows "r_start r \<le> SIZE_MAX" "r_end r \<le> SIZE_MAX" "r_reps r \<le> SIZE_MAX" "r_stride r \<le> SIZE_MAX"
  using region_ok_end [OF assms] region_ok_start_end [OF assms] region_reps_lt_max [OF assms]
    region_ok_blockD(1) [OF assms] region_ok_stridedD(3) [OF assms]
  by (cases "r_reps r = 0"; simp add: SIZE_IDX)+

lemma bytes_region_bytes: "region_ok r \<Longrightarrow> bytes_region (region_bytes r @ rest) = r"
  by (simp add: bytes_region_def region_bytes_def bytes_size_bytes region_fields_bound)

lemma read_regions_correct:
  assumes "\<forall>r \<in> set R. region_ok r" "sset_ok (S @ R)"
  shows "read_regions S (length R) (concat (map region_bytes R)) = S @ R"
  using assms
proof (induction R arbitrary: S)
  case (Cons r R)
  have "sset_insert r S = S @ [r]"
    using Cons.prems(2) by (intro sset_insert_snoc) (simp add: sset_ok_append)
  then show ?case
    using Cons.IH [of "S @ [r]"] Cons.prems by (simp add: bytes_region_bytes sizeof_region_def)
qed simp

lemma deserialize_serialize:
  assumes "regions_ok s R"
  shows "subset_deserialize (subset_serialize (basic_subset R)) = Some (basic_subset R)"
proof -
  have len: "length (concat (map region_bytes R)) = 32 * length R"
    by (induction R) simp_all
  have "read_regions [] (length R) (concat (map region_bytes R)) = [] @ R"
    using assms by (intro read_regions_correct) (simp_all add: regions_ok_def)
  then show ?thesis
    by (simp add: subset_deserialize_def subset_serialize_def sizeof_region_def len)
qed

section \<open>Text\<close>

fun nat_str :: "nat \<Rightarrow> string" where
  "nat_str n = (if n < 10 then [char_of (48 + n)] else nat_str (n div 10) @ [char_of (48 + n mod 10)])"

declare nat_str.simps [simp del]

definition index_str :: "nat \<Rightarrow> string" where
  "index_str n = (if n = SIZE_MAX then ''MAX'' else nat_str n)"

definition region_str :: "data_region \<Rightarrow> string" where
  "region_str r =
     ''['' @ index_str (r_start r) @ '','' @ index_str (r_end r) @ '']'' @
     (if r_reps r \<noteq> 0 then ''x'' @ nat_str (r_reps r + 1) @ ''s'' @ nat_str (r_stride r) else [])"

definition subset_str :: "data_subset \<Rightarrow> string" where
  "subset_str d =
     (if ss_type d = PrestagedSubset then ''fenix::SUBSET_PRESTAGED''
      else let body = ''{'' @ concat (map (\<lambda>r. region_str r @ '', '') (ss_regions d))
           in (if ss_regions d = [] then body else butlast (butlast body)) @ ''}'')"

text \<open>Reading a decimal number back.\<close>

definition str_nat :: "string \<Rightarrow> nat" where
  "str_nat cs = fold (\<lambda>c n. 10 * n + (of_char c - 48)) cs 0"

lemma str_nat_str: "str_nat (nat_str n) = n"
proof (induction n rule: nat_str.induct)
  case (1 n)
  have digit: "(of_char (char_of (48 + d) :: char) :: nat) = 48 + d" if "d < 10" for d :: nat
    using that by (simp add: of_char_of)
  show ?case
  proof (cases "n < 10")
    case True
    then show ?thesis by (simp add: nat_str.simps [of n] str_nat_def digit)
  next
    case False
    then have "str_nat (nat_str (n div 10)) = n div 10" using 1 by simp
    then show ?thesis using False by (simp add: nat_str.simps [of n] str_nat_def digit)
  qed
qed

section \<open>MPI datatype\<close>

text \<open>
  \<open>static_cast<int>\<close> of a \<open>size_t\<close>, and the arguments that \<open>to_datatype\<close> passes to
  \<open>mpixx::Datatype::indexed\<close>: displacements and block lengths in elements.
\<close>

definition int_of_size :: "nat \<Rightarrow> int" where
  "int_of_size n = (int n + 2147483648) mod 4294967296 - 2147483648"

definition to_datatype :: "data_subset \<Rightarrow> (int list \<times> int list) option" where
  "to_datatype d = do {
     fenix_assert (is_basic d);
     bd \<leftarrow> subset_is_bounded d;
     fenix_assert bd;
     bs \<leftarrow> block_iter (ss_regions d);
     Some (map (\<lambda>b. int_of_size (r_start b)) bs,
           map (\<lambda>b. int_of_size (sz_add (sz_sub (r_end b) (r_start b)) 1)) bs)
   }"

lemma int_of_size_exact: "n \<le> INT_MAX \<Longrightarrow> int_of_size n = int n"
  by (simp add: int_of_size_def INT_MAX_def)

text \<open>The elements that an indexed datatype selects from an array.\<close>

definition indexed_elems :: "int list \<times> int list \<Rightarrow> int set" where
  "indexed_elems t = (\<Union>(d, l) \<in> set (zip (fst t) (snd t)). {d..<d + l})"

lemma to_datatype_correct:
  assumes R: "regions_ok s R" and small: "regions_elems R \<subseteq> {..<INT_MAX}"
  obtains t where "to_datatype (basic_subset R) = Some t" "indexed_elems t = int ` regions_elems R"
    "length (fst t) = length (snd t)"
proof -
  from block_iter_correct [OF R] obtain bs where bs: "block_iter R = Some bs"
    "regions_elems bs = regions_elems R" "\<forall>b \<in> set bs. region_ok b \<and> r_reps b = 0" by blast
  have IM: "INT_MAX < SIZE_MAX" by (simp add: INT_MAX_def SIZE_MAX_def)
  have bound: "R = [] \<or> regions_end R \<noteq> SIZE_MAX"
    using regions_end_in [OF R] small IM by fastforce
  let ?t = "(map (\<lambda>b. int_of_size (r_start b)) bs,
      map (\<lambda>b. int_of_size (sz_add (sz_sub (r_end b) (r_start b)) 1)) bs)"
  have call: "to_datatype (basic_subset R) = Some ?t"
    using bs(1) bound
    by (auto simp: to_datatype_def subset_is_bounded_def subset_empty_def subset_end_def)
  have b: "{int_of_size (r_start b)..<int_of_size (r_start b) + int_of_size (sz_add (sz_sub (r_end b) (r_start b)) 1)}
      = int ` region_elems b" if "b \<in> set bs" for b
  proof -
    have ok: "region_ok b" "r_reps b = 0" using bs(3) that by auto
    have le: "r_start b \<le> r_end b" by (rule region_ok_start_end [OF ok(1)])
    then have "r_end b \<in> region_elems b" using ok(2) by (simp add: region_elems_block)
    then have "r_end b \<in> regions_elems bs" using that unfolding regions_elems_def by blast
    then have e: "r_end b < INT_MAX" using bs(2) small by auto
    then have "sz_sub (r_end b) (r_start b) = r_end b - r_start b" using le IM by (intro sz_sub_exact) simp_all
    moreover have "sz_add (r_end b - r_start b) 1 = r_end b - r_start b + 1"
      using e IM by (intro sz_add_exact) simp
    moreover have "int_of_size (r_start b) = int (r_start b)" using e le by (intro int_of_size_exact) simp
    moreover have "int_of_size (r_end b - r_start b + 1) = int (r_end b - r_start b + 1)"
      using e by (intro int_of_size_exact) simp
    moreover have "int ` {r_start b..r_end b} = {int (r_start b)..<int (r_start b) + int (r_end b - r_start b + 1)}"
      using le image_int_atLeastAtMost [of "r_start b" "r_end b"] by auto
    ultimately show ?thesis using ok(2) by (simp only: region_elems_block)
  qed
  have "indexed_elems ?t = (\<Union>b \<in> set bs. int ` region_elems b)"
    using b by (auto simp: indexed_elems_def zip_map_map zip_same_conv_map)
  also have "\<dots> = int ` regions_elems bs" by (simp only: regions_elems_def image_UN)
  finally have "indexed_elems ?t = int ` regions_elems R" unfolding bs(2) .
  then show ?thesis using call by (intro that [of ?t]) simp_all
qed

end
