(* ===== verification/Subset_Build.thy ===== *)
theory Subset_Build
  imports Subset_Form
begin

text \<open>
  What the constructors of \<open>DataSubset\<close> (src/data/subset.cpp) build: the strided blocks,
  and the list of blocks given in any order.
\<close>

section \<open>Strided blocks\<close>

lemma strided_regions:
  assumes "a \<le> b" "0 < n" "n = 1 \<or> b < a + s" "b + s * (n - 1) \<le> IDX_MAX" "n = 1 \<or> s \<le> IDX_MAX"
  obtains r where "subset_strided (a, b) n s = Some (basic_subset [r])" "regions_ok s [r]"
    "region_elems r = rep_elems a b (n - 1) s"
proof (cases "n = 1")
  case True
  have b: "b \<le> SIZE_MAX" using assms(4) True by (simp add: SIZE_IDX)
  have "sz_sub n 1 = 0" using True by (simp add: sz_sub_def)
  then have "subset_strided (a, b) n s = Some (basic_subset [block a b])"
    using assms(1) True b by (simp add: subset_strided_def mk_region_no_reps)
  then show ?thesis using assms(1,4) True
    by (intro that [of "block a b"])
      (auto simp: regions_ok_single region_ok_def same_stride_def region_elems_block rep_elems_def)
next
  case False
  then have s: "b < a + s" "s \<le> IDX_MAX" using assms(3,5) by simp_all
  have "s * 1 \<le> s * (n - 1)" using False assms(2) by (intro mult_le_mono2) simp
  then have le: "b + s \<le> IDX_MAX" using assms(4) by linarith
  obtain r where r: "mk_region (a, b) (n - 1) s = Some r" "region_ok r"
    "region_elems r = rep_elems a b (n - 1) s" "r_reps r = 0 \<or> r_reps r = n - 1 \<and> r_stride r = s"
    by (rule mk_region_correct [OF assms(1), of s "n - 1"]) (use s assms(4) in simp_all)
  have "1 * (n - 1) \<le> s * (n - 1)" using s(1) assms(1) by (intro mult_le_mono1) linarith
  then have "n \<le> SIZE_MAX" using assms(4) IDX_MAX_lt(1) by linarith
  then have "sz_sub n 1 = n - 1" using assms(2) by (intro sz_sub_exact) simp_all
  moreover have "sz_add a s = a + s" using le assms(1) by (intro sz_add_exact) (simp add: SIZE_IDX)
  ultimately have "subset_strided (a, b) n s = Some (basic_subset [r])"
    using assms(1,2) s(1) r(1) by (simp add: subset_strided_def)
  then show ?thesis using r(2-4)
    by (intro that [of r]) (auto simp: regions_ok_single same_stride_def)
qed

section \<open>A list of blocks\<close>

definition blocks_elems :: "(nat \<times> nat) list \<Rightarrow> nat set" where
  "blocks_elems bs = (\<Union>b \<in> set bs. {fst b .. snd b})"

text \<open>No two blocks of the list share an index.\<close>

fun blocks_apart :: "(nat \<times> nat) list \<Rightarrow> bool" where
  "blocks_apart [] = True"
| "blocks_apart (b # bs) =
     (fst b \<le> snd b \<and> snd b \<le> IDX_MAX \<and> (\<forall>c \<in> set bs. snd b < fst c \<or> snd c < fst b) \<and> blocks_apart bs)"

lemma insert_blocks_correct:
  assumes "blocks_apart bs" "regions_ok s R" "\<forall>b \<in> set bs. {fst b .. snd b} \<inter> regions_elems R = {}"
  shows "\<exists>R'. insert_blocks R bs = Some R' \<and> regions_ok s R' \<and>
    regions_elems R' = regions_elems R \<union> blocks_elems bs"
  using assms
proof (induction bs arbitrary: R)
  case Nil
  then show ?case by (simp add: blocks_elems_def)
next
  case (Cons b bs)
  let ?r = "block (fst b) (snd b)"
  have b: "fst b \<le> snd b" "snd b \<le> IDX_MAX" "\<forall>c \<in> set bs. snd b < fst c \<or> snd c < fst b" "blocks_apart bs"
    using Cons.prems(1) by simp_all
  have mk: "mk_block b = Some ?r" using b(1,2) mk_block_eq [of "fst b" "snd b"] by (simp add: SIZE_IDX)
  have dis: "region_elems ?r \<inter> regions_elems R = {}" using Cons.prems(3) by (simp add: region_elems_block)
  have ok: "regions_ok s (sset_insert ?r R)"
    using b(1,2) dis Cons.prems(2) by (intro regions_ok_insert) (simp_all add: region_ok_def same_stride_def)
  have el: "regions_elems (sset_insert ?r R) = {fst b .. snd b} \<union> regions_elems R"
    by (simp add: regions_elems_insert region_elems_block)
  have "{fst c .. snd c} \<inter> regions_elems (sset_insert ?r R) = {}" if c: "c \<in> set bs" for c
  proof -
    have "{fst c .. snd c} \<inter> {fst b .. snd b} = {}" using b(3) c by fastforce
    moreover have "{fst c .. snd c} \<inter> regions_elems R = {}" using Cons.prems(3) c by simp
    ultimately show ?thesis unfolding el by blast
  qed
  then obtain R' where R': "insert_blocks (sset_insert ?r R) bs = Some R'" "regions_ok s R'"
    "regions_elems R' = regions_elems (sset_insert ?r R) \<union> blocks_elems bs"
    using Cons.IH [OF b(4) ok] by blast
  have "insert_blocks R (b # bs) = Some R'" using b(1) mk R'(1) by simp
  moreover have "regions_elems R' = regions_elems R \<union> blocks_elems (b # bs)"
    unfolding R'(3) el by (auto simp: blocks_elems_def)
  ultimately show ?case using R'(2) by blast
qed

lemma blocks_regions:
  assumes "blocks_apart bs"
  obtains R where "subset_blocks bs = Some (basic_subset R)" "regions_ok s R" "regions_elems R = blocks_elems bs"
proof -
  obtain R where R: "insert_blocks [] bs = Some R" "regions_ok s R" "regions_elems R = blocks_elems bs"
    using insert_blocks_correct [OF assms, of s "[]"] by auto
  obtain R' where "merge_regions R = Some R'" "regions_ok s R'" "regions_elems R' = regions_elems R"
    by (rule merge_regions_correct [OF R(2)])
  with R show ?thesis by (intro that [of R']) (simp_all add: subset_blocks_def)
qed

text \<open>
  Two blocks that share an end.  \<open>matching_end - check->end\<close> is then \<open>-1\<close>, which the stride
  of a block divides, so the merged region starts one index before the first block.
\<close>

lemma shared_end:
  assumes "a \<le> b" "b < c" "c \<le> IDX_MAX" "0 < b"
  shows "subset_blocks [(a, b), (b, c)] = (if a = 0 then None else Some (basic_subset [block (a - 1) c]))"
proof -
  have mk: "mk_block (a, b) = Some (block a b)" "mk_block (b, c) = Some (block b c)"
    using assms by (simp_all add: mk_block_eq SIZE_IDX)
  have lt: "block a b < block b c" "\<not> block b c < block a b" "block a b \<noteq> block b c" "block b c \<noteq> block a b"
    using assms by (auto simp: region_less_iff)
  have ins: "insert_blocks [] [(a, b), (b, c)] = Some [block a b, block b c]"
    using assms mk lt by (simp add: sset_insert_def)
  have sub: "sz_sub b 1 = b - 1" using assms by (intro sz_sub_exact) (simp_all add: SIZE_IDX)
  have "b - 1 + (SIZE_MAX + 1) - b = SIZE_MAX" using assms(4) by simp
  then have de: "sz_sub (b - 1) b = SIZE_MAX" by (simp add: sz_sub_def)
  have rng: "snd (region_range (block a b)) = b"
    using assms by (simp add: region_range_def SIZE_IDX)
  have found: "merge_found (block a b) (block b c) 1 0 (sz_add a SIZE_MAX, c)
      = (if a = 0 then None else Some [block (a - 1) c, block a b])"
  proof (cases "a = 0")
    case True
    then have "mk_region (sz_add a SIZE_MAX, c) 0 SIZE_MAX = None"
      using assms by (simp add: mk_region_def Let_def fenix_assert_def sz_add_def SIZE_IDX)
    then show ?thesis using True by (simp add: merge_found_def)
  next
    case False
    have "sz_add a SIZE_MAX = a - 1" using False assms by (intro sz_add_max) (simp_all add: SIZE_IDX)
    moreover have "sz_sub 1 1 = 0" by (simp add: sz_sub_def)
    ultimately show ?thesis using assms False
      by (simp add: merge_found_def mk_region_no_reps SIZE_IDX sz_add_def)
  qed
  have pair: "merge_pair (block a b) (block b c) = map_option Some (merge_found (block a b) (block b c) 1 0 (sz_add a SIZE_MAX, c))"
    using sub de by (simp add: merge_pair_def Let_def sz_mul_def)
  have scan: "merge_scan (block a b) [block b c]
      = (if a = 0 then None else Some (Some (block b c, [block (a - 1) c, block a b])))"
  proof (cases "a = 0")
    case True
    have "\<not> b < sz_sub b 1" unfolding sub by simp
    then show ?thesis using pair found rng True by simp
  next
    case False
    have "\<not> b < sz_sub b 1" unfolding sub by simp
    then show ?thesis using pair found rng False by simp
  qed
  show ?thesis
  proof (cases "a = 0")
    case True
    then show ?thesis using ins scan lt
      by (simp add: subset_blocks_def merge_regions_def merge_loop.simps)
  next
    case False
    let ?m = "block (a - 1) c"
    have m: "?m < block a b" "?m < block b c" "\<not> block a b < ?m" "\<not> block b c < ?m" "?m \<noteq> block a b"
        "?m \<noteq> block b c"
      using assms False by (auto simp: region_less_iff)
    have merged: "sset_merge [block a b, block b c] [?m, block a b] = [?m, block a b, block b c]"
      using m lt by (simp add: sset_merge_def sset_insert_def)
    then have "merge_loop [block a b, block b c] (Some (block a b)) = merge_loop [?m] None"
      using scan False m lt
      by (simp add: merge_loop.simps [of "[block a b, block b c]"] sset_erase_def sset_next_def)
    then show ?thesis using ins False
      by (simp add: subset_blocks_def merge_regions_def merge_loop.simps)
  qed
qed

end
