(* ===== verification/Subset_Properties.thy ===== *)
theory Subset_Properties
  imports Subset_Build
begin

text \<open>
  The properties of data subsets (src/data/subset.cpp): the set operations, the queries, the
  constructors, and the uses of a subset as a selection of elements.
\<close>


text \<open>
  C36. The union of two subsets never fails an assertion, keeps the representation
  invariant and holds exactly the indices of both operands; with different strides this
  needs the repetitions of the first operand to be countable by an \<open>int\<close>.
\<close>

theorem subset_union_correct:
  assumes "subset_ok s a" "subset_ok t b" "s = t \<or> (\<forall>r \<in> set (ss_regions a). r_reps r \<le> INT_MAX)"
  shows "\<exists>d u. subset_union a b = Some d \<and> subset_ok u d \<and> subset_elems d = subset_elems a \<union> subset_elems b"
proof -
  have a: "is_basic a" "regions_ok s (ss_regions a)" and b: "is_basic b" "regions_ok t (ss_regions b)"
    using assms(1,2) by (simp_all add: subset_ok_def)
  obtain D u where D: "subset_union (basic_subset (ss_regions a)) (basic_subset (ss_regions b)) = Some (basic_subset D)"
    "regions_ok u D" "regions_elems D = regions_elems (ss_regions a) \<union> regions_elems (ss_regions b)"
    by (rule union_regions_correct [OF a(2) b(2) assms(3)])
  then show ?thesis
    unfolding basic_subset_eta [OF a(1)] basic_subset_eta [OF b(1)]
    by (intro exI [of _ "basic_subset D"] exI [of _ u]) (simp add: subset_ok_def subset_elems_def)
qed

definition example_a :: data_subset where
  "example_a = basic_subset [\<lparr>r_start = 0, r_end = 1, r_reps = 3, r_stride = 10\<rparr>]"

definition example_b :: data_subset where
  "example_b = basic_subset [block 4 25]"

lemma example_ok: "subset_ok 10 example_a" "subset_ok 10 example_b"
  by (simp_all add: subset_ok_def example_a_def example_b_def regions_ok_single region_ok_def
      same_stride_def IDX_MAX_def)

lemma example_elems: "subset_elems example_b = {4..25}"
  by (simp add: subset_elems_def example_b_def region_elems_block)

lemma subset_okE:
  assumes "subset_ok s d"
  obtains R where "d = basic_subset R" "regions_ok s R" "subset_elems d = regions_elems R"
  using assms basic_subset_eta [of d] that [of "ss_regions d"] by (simp add: subset_ok_def subset_elems_def)

lemma basic_subset_okI: "regions_ok s R \<Longrightarrow> subset_ok s (basic_subset R)"
  by (simp add: subset_ok_def)

lemma subset_elems_basic [simp]: "subset_elems (basic_subset R) = regions_elems R"
  by (simp add: subset_elems_def)

lemma subset_union_correct_witness:
  "\<exists>d u. subset_union example_a example_b = Some d \<and> subset_ok u d \<and>
    subset_elems d = subset_elems example_a \<union> subset_elems example_b"
  by (rule subset_union_correct [OF example_ok]) simp

text \<open>
  C37. The difference of two subsets with the same stride never fails an assertion, keeps
  the representation invariant and holds exactly the indices of the first operand that
  are not in the second.
\<close>

theorem subset_diff_correct:
  assumes "subset_ok s a" "subset_ok s b"
  shows "\<exists>d. subset_diff a b = Some d \<and> subset_ok s d \<and> subset_elems d = subset_elems a - subset_elems b"
proof -
  obtain A B where A: "a = basic_subset A" "regions_ok s A" and B: "b = basic_subset B" "regions_ok s B"
    using assms subset_okE by metis
  obtain D where "subset_diff a b = Some (basic_subset D)" "regions_ok s D"
      "regions_elems D = regions_elems A - regions_elems B"
    unfolding A(1) B(1) by (rule diff_regions_correct [OF A(2) B(2)])
  then show ?thesis by (intro exI [of _ "basic_subset D"]) (simp add: basic_subset_okI A(1) B(1))
qed

lemma subset_diff_correct_witness:
  "\<exists>d. subset_diff example_b example_a = Some d \<and> subset_ok 10 d \<and>
    subset_elems d = subset_elems example_b - subset_elems example_a"
  by (rule subset_diff_correct [OF example_ok(2,1)])

text \<open>
  C38. \<open>operator==\<close> on two subsets with the same stride decides equality of the sets of
  indices, whatever regions represent them.
\<close>

theorem subset_equal_correct:
  assumes "subset_ok s a" "subset_ok s b"
  shows "subset_equal a b = Some (subset_elems a = subset_elems b)"
proof -
  obtain A B where A: "a = basic_subset A" "regions_ok s A" and B: "b = basic_subset B" "regions_ok s B"
    using assms subset_okE by metis
  then show ?thesis using subset_equal_regions [OF A(2) B(2)] by simp
qed

lemma subset_equal_correct_witness:
  "subset_equal example_a example_b = Some (subset_elems example_a = subset_elems example_b)"
  by (rule subset_equal_correct [OF example_ok])

text \<open>
  \<open>bounded\<close> cuts a subset to the indices up to a bound and keeps the invariant.
\<close>

theorem subset_bounded_correct:
  assumes "subset_ok s d" "m \<le> IDX_MAX \<or> m = SIZE_MAX"
  shows "\<exists>e. subset_bounded d m = Some e \<and> subset_ok s e \<and> subset_elems e = subset_elems d \<inter> {..m}"
proof -
  obtain R where R: "d = basic_subset R" "regions_ok s R" "subset_elems d = regions_elems R"
    by (rule subset_okE [OF assms(1)])
  obtain D where D: "bounded_range (basic_subset R) 0 m = Some D" "regions_ok s D"
      "regions_elems D = regions_elems R \<inter> {0..m}"
    by (rule bounded_range_correct [OF R(2), of 0 m]) (use assms(2) in simp_all)
  then show ?thesis
    by (intro exI [of _ "basic_subset D"])
      (simp add: subset_bounded_def bounded_regions_def R(1) basic_subset_okI atLeast0AtMost)
qed

lemma subset_bounded_correct_witness:
  "\<exists>e. subset_bounded example_b 10 = Some e \<and> subset_ok 10 e \<and> subset_elems e = subset_elems example_b \<inter> {..10}"
  by (rule subset_bounded_correct [OF example_ok(2)]) (simp add: IDX_MAX_def)

text \<open>
  \<open>includes_all(e)\<close> holds exactly when every index from \<open>0\<close> to \<open>e\<close> is in the subset.
\<close>

theorem subset_includes_all_correct:
  assumes "subset_ok s d" "e \<le> IDX_MAX \<or> e = SIZE_MAX"
  shows "subset_includes_all d e = Some ({..e} \<subseteq> subset_elems d)"
proof -
  obtain R where R: "d = basic_subset R" "regions_ok s R" "subset_elems d = regions_elems R"
    by (rule subset_okE [OF assms(1)])
  then show ?thesis using includes_all_regions [OF R(2) assms(2)] by simp
qed

lemma subset_includes_all_correct_witness:
  "subset_includes_all example_b 3 = Some ({..3} \<subseteq> subset_elems example_b)"
  by (rule subset_includes_all_correct [OF example_ok(2)]) (simp add: IDX_MAX_def)

text \<open>
  C39. \<open>count(m)\<close> is the number of indices of the subset that are at most \<open>m\<close>; nothing
  wraps on the way.
\<close>

theorem subset_count_correct:
  assumes "subset_ok s d" "m \<le> IDX_MAX"
  shows "subset_count d m = Some (card (subset_elems d \<inter> {..m}))"
proof -
  obtain R where R: "d = basic_subset R" "regions_ok s R" "subset_elems d = regions_elems R"
    by (rule subset_okE [OF assms(1)])
  then show ?thesis using subset_count_regions [OF R(2) assms(2)] by simp
qed

lemma subset_count_correct_witness:
  "subset_count example_b 10 = Some (card (subset_elems example_b \<inter> {..10}))"
  by (rule subset_count_correct [OF example_ok(2)]) (simp add: IDX_MAX_def)

text \<open>
  The strided constructor builds exactly the requested blocks.
\<close>

theorem subset_strided_correct:
  assumes "a \<le> b" "0 < n" "n = 1 \<or> b < a + s" "b + s * (n - 1) \<le> IDX_MAX" "n = 1 \<or> s \<le> IDX_MAX"
  shows "\<exists>d. subset_strided (a, b) n s = Some d \<and> subset_ok s d \<and>
    subset_elems d = (\<Union>k \<in> {..<n}. {a + k * s .. b + k * s})"
proof -
  obtain r where r: "subset_strided (a, b) n s = Some (basic_subset [r])" "regions_ok s [r]"
      "region_elems r = rep_elems a b (n - 1) s"
    by (rule strided_regions [OF assms])
  have "{0..n - 1} = {..<n}" using assms(2) by auto
  then have "region_elems r = (\<Union>k \<in> {..<n}. {a + k * s .. b + k * s})"
    using r(3) by (simp add: rep_elems_def)
  with r(1,2) show ?thesis
    by (intro exI [of _ "basic_subset [r]"] conjI) (simp_all add: basic_subset_okI)
qed

lemma subset_strided_correct_witness:
  "\<exists>d. subset_strided (2, 4) 5 10 = Some d \<and> subset_ok 10 d \<and>
    subset_elems d = (\<Union>k \<in> {..<5}. {2 + k * 10 .. 4 + k * 10})"
  by (rule subset_strided_correct) (simp_all add: IDX_MAX_def)

text \<open>
  The constructor from a list of blocks that share no index, in any order, merges them
  into a subset with exactly their indices.
\<close>

theorem subset_blocks_correct:
  assumes "blocks_apart bs"
  shows "\<exists>d. subset_blocks bs = Some d \<and> subset_ok s d \<and> subset_elems d = blocks_elems bs"
proof -
  obtain R where "subset_blocks bs = Some (basic_subset R)" "regions_ok s R" "regions_elems R = blocks_elems bs"
    by (rule blocks_regions [OF assms])
  then show ?thesis by (intro exI [of _ "basic_subset R"]) (simp add: basic_subset_okI)
qed

lemma subset_blocks_correct_witness:
  "\<exists>d. subset_blocks [(10, 12), (0, 4), (5, 9)] = Some d \<and> subset_ok 1 d \<and>
    subset_elems d = blocks_elems [(10, 12), (0, 4), (5, 9)]"
  by (rule subset_blocks_correct) (simp add: IDX_MAX_def)

text \<open>
  Two blocks that share one index: the constructor either fails an assertion (first
  block at 0) or returns a subset that also holds the index before the first block.
\<close>

theorem subset_blocks_shared_end:
  assumes "a \<le> b" "b < c" "c \<le> IDX_MAX" "0 < b"
  shows "map_option subset_elems (subset_blocks [(a, b), (b, c)]) = (if a = 0 then None else Some {a - 1 .. c})"
  using shared_end [OF assms] assms by (simp add: region_elems_block)

lemma subset_blocks_shared_end_witness:
  "map_option subset_elems (subset_blocks [(3, 5), (5, 9)]) = Some {2..9}"
  using subset_blocks_shared_end [of 3 5 9] by (simp add: IDX_MAX_def)

text \<open>
  C40. Packing the selected elements of a buffer and unpacking them into another buffer of
  the same size copies the selected elements, and leaves every other byte alone.
\<close>

theorem pack_unpack_correct:
  assumes "subset_ok s d" "0 < n" "n * es \<le> IDX_MAX" "es \<noteq> 0" "length src = n * es" "length dst = n * es"
  shows "\<exists>p dst'. pack_data d es src = Some p \<and> unpack_data fresh d es p dst = Some dst' \<and>
    length dst' = n * es \<and>
    (\<forall>i < n * es. dst' ! i = (if i div es \<in> subset_elems d then src ! i else dst ! i))"
proof -
  obtain R where R: "d = basic_subset R" "regions_ok s R" "subset_elems d = regions_elems R"
    by (rule subset_okE [OF assms(1)])
  show ?thesis
    unfolding R(1) subset_elems_basic
    by (rule unpack_pack_data [OF R(2) assms(2-6), of fresh]) blast
qed

lemma pack_unpack_correct_witness:
  "\<exists>p dst'. pack_data example_a 2 [0..<60] = Some p \<and> unpack_data (\<lambda>k. replicate k 0) example_a 2 p (replicate 60 7) = Some dst' \<and>
    length dst' = 30 * 2 \<and>
    (\<forall>i < 30 * 2. dst' ! i = (if i div 2 \<in> subset_elems example_a then [0..<60] ! i else replicate 60 7 ! i))"
  by (rule pack_unpack_correct [OF example_ok(1), of 30 2]) (simp_all add: IDX_MAX_def)

text \<open>
  A subset survives serialisation.
\<close>

theorem subset_serialize_roundtrip:
  assumes "subset_ok s d"
  shows "subset_deserialize (subset_serialize d) = Some d"
  using assms deserialize_serialize by (elim subset_okE) simp

lemma subset_serialize_roundtrip_witness: "subset_deserialize (subset_serialize example_a) = Some example_a"
  by (rule subset_serialize_roundtrip [OF example_ok(1)])

text \<open>
  The displacements and block lengths that \<open>to_datatype\<close> hands to MPI select exactly
  the elements of the subset, when they fit an \<open>int\<close>.
\<close>

theorem to_datatype_selects:
  assumes "subset_ok s d" "subset_elems d \<subseteq> {..<INT_MAX}"
  shows "\<exists>t. to_datatype d = Some t \<and> indexed_elems t = int ` subset_elems d \<and> length (fst t) = length (snd t)"
proof -
  obtain R where R: "d = basic_subset R" "regions_ok s R" "subset_elems d = regions_elems R"
    by (rule subset_okE [OF assms(1)])
  show ?thesis
    unfolding R(1) subset_elems_basic
    by (rule to_datatype_correct [OF R(2)]) (use assms(2) R(3) in auto)
qed

lemma to_datatype_selects_witness:
  "\<exists>t. to_datatype example_b = Some t \<and> indexed_elems t = int ` subset_elems example_b \<and>
    length (fst t) = length (snd t)"
  by (rule to_datatype_selects [OF example_ok(2)]) (auto simp: example_elems INT_MAX_def)

text \<open>
  The intersection of a block with any region is exact.
\<close>

theorem region_and_exact:
  assumes "region_ok a" "region_ok b" "r_reps a = 0 \<or> r_reps b = 0" "same_stride s a" "same_stride s b"
  shows "\<exists>R. region_and a b = Some R \<and> regions_ok s R \<and> regions_elems R = region_elems a \<inter> region_elems b"
  by (rule region_and_correct [OF assms]) blast

lemma region_and_exact_witness:
  "\<exists>R. region_and \<lparr>r_start = 0, r_end = 1, r_reps = 3, r_stride = 10\<rparr> (block 4 25) = Some R \<and>
    regions_ok 10 R \<and> regions_elems R
      = region_elems \<lparr>r_start = 0, r_end = 1, r_reps = 3, r_stride = 10\<rparr> \<inter> region_elems (block 4 25)"
  by (rule region_and_exact) (simp_all add: region_ok_def same_stride_def IDX_MAX_def)

text \<open>
  The difference of two regions with one stride is exact, in disjoint regions of that
  stride.
\<close>

theorem region_sub_exact:
  assumes "region_ok a" "region_ok b" "same_stride s a" "same_stride s b"
  shows "\<exists>R. region_sub a b = Some R \<and> regions_ok s R \<and> regions_elems R = region_elems a - region_elems b"
  by (rule region_sub_correct [OF assms]) blast

lemma region_sub_exact_witness:
  "\<exists>R. region_sub (block 4 25) \<lparr>r_start = 0, r_end = 1, r_reps = 3, r_stride = 10\<rparr> = Some R \<and>
    regions_ok 10 R \<and> regions_elems R
      = region_elems (block 4 25) - region_elems \<lparr>r_start = 0, r_end = 1, r_reps = 3, r_stride = 10\<rparr>"
  by (rule region_sub_exact) (simp_all add: region_ok_def same_stride_def IDX_MAX_def)

end
