(* ===== verification/Outcome.thy ===== *)
theory Outcome
  imports Prelude
begin

text \<open>
  The outcome of an operation of the library: its error codes (include/fenix.h), the two
  ways an operation ends without a value, a thrown \<open>RuntimeException\<close>
  (include/fenix_exception.hpp) and an abort, and computations over a state that keep the
  state they have reached when they fail, as the C++ code does.
\<close>

section \<open>Error codes\<close>

datatype fenix_code =
    FENIX_ERROR_UNINITIALIZED
  | FENIX_ERROR_NOCATEGORY
  | FENIX_ERROR_CALLBACK_NOT_REGISTERED
  | FENIX_ERROR_GROUP_CREATE
  | FENIX_ERROR_MEMBER_CREATE
  | FENIX_ERROR_MEMBER_EXISTS
  | FENIX_ERROR_MEMBER_STAGING
  | FENIX_ERROR_MEMBER_LOADING
  | FENIX_ERROR_MEMBER_UNSTORED
  | FENIX_ERROR_COMMIT_BARRIER
  | FENIX_ERROR_INVALID_GROUPID
  | FENIX_ERROR_INVALID_MEMBERID
  | FENIX_ERROR_INVALID_LOGIC_CALL
  | FENIX_ERROR_INVALID_POLICY_NAME
  | FENIX_ERROR_INVALID_POLICY_VALUE
  | FENIX_ERROR_INVALID_TIMESTAMP
  | FENIX_ERROR_INVALID_TIMESTART
  | FENIX_ERROR_INVALID_DEPTH
  | FENIX_ERROR_INVALID_ATTRIBUTE_NAME
  | FENIX_ERROR_INVALID_ATTRIBUTE_VALUE
  | FENIX_ERROR_INVALID_ROLE
  | FENIX_ERROR_INVALID_POSITION
  | FENIX_ERROR_INVALID_SUBSET
  | FENIX_ERROR_DATA_WAIT
  | FENIX_ERROR_SUBSET_NUM_BLOCKS
  | FENIX_ERROR_SUBSET_START_OFFSET
  | FENIX_ERROR_SUBSET_END_OFFSET
  | FENIX_ERROR_SUBSET_STRIDE
  | FENIX_ERROR_NODATA_FOUND
  | FENIX_ERROR_INTERN
  | FENIX_ERROR_CANCELLED
  | FENIX_ERROR_INVALID_SETTING_NAME
  | FENIX_ERROR_INVALID_SETTING_OPTION
  | FENIX_ERROR_INVALID_MLOGID
  | FENIX_ERROR_MLOG_EXISTS
  | FENIX_ERROR_MLOG_LIBRARY_UNAVAILABLE
  | FENIX_ERROR_PROCESS_FAILURE
  | FENIX_SUCCESS
  | FENIX_WARNING_SPARE_RANKS_DEPLETED
  | FENIX_WARNING_PARTIAL_RESTORE

text \<open>
  \<open>Abort\<close> is a failed assertion or a \<open>fatal_print\<close>; \<open>Throw\<close> a \<open>RuntimeException\<close>;
  \<open>Comm\<close> a \<open>CommException\<close>, raised when a communicator was repaired under the caller.
\<close>

datatype failure = Abort | Throw fenix_code | Comm

section \<open>Computations\<close>

type_synonym ('s, 'a) comp = "'s \<Rightarrow> (failure + 'a) \<times> 's"

definition ret :: "'a \<Rightarrow> ('s, 'a) comp" where
  "ret x s = (Inr x, s)"

definition fail :: "failure \<Rightarrow> ('s, 'a) comp" where
  "fail e s = (Inl e, s)"

definition andThen :: "('s, 'a) comp \<Rightarrow> ('a \<Rightarrow> ('s, 'b) comp) \<Rightarrow> ('s, 'b) comp" where
  "andThen m f s = (case m s of (Inl e, s') \<Rightarrow> (Inl e, s') | (Inr x, s') \<Rightarrow> f x s')"

definition getS :: "('s, 's) comp" where
  "getS s = (Inr s, s)"

definition modS :: "('s \<Rightarrow> 's) \<Rightarrow> ('s, unit) comp" where
  "modS f s = (Inr (), f s)"

definition throwIf :: "bool \<Rightarrow> fenix_code \<Rightarrow> ('s, unit) comp" where
  "throwIf b e s = (if b then Inl (Throw e) else Inr (), s)"

definition assertS :: "bool \<Rightarrow> ('s, unit) comp" where
  "assertS b s = (if b then Inr () else Inl Abort, s)"

text \<open>A pure function that may fail an assertion.\<close>

definition liftO :: "'a option \<Rightarrow> ('s, 'a) comp" where
  "liftO x s = (case x of None \<Rightarrow> Inl Abort | Some y \<Rightarrow> Inr y, s)"

named_theorems comp "how the computations run"

lemma ret_run [comp]: "ret x s = (Inr x, s)"
  by (simp add: ret_def)

lemma fail_run [comp]: "fail e s = (Inl e, s)"
  by (simp add: fail_def)

lemma getS_run [comp]: "getS s = (Inr s, s)"
  by (simp add: getS_def)

lemma modS_run [comp]: "modS f s = (Inr (), f s)"
  by (simp add: modS_def)

lemma throwIf_run [comp]: "throwIf b e s = (if b then Inl (Throw e) else Inr (), s)"
  by (simp add: throwIf_def)

lemma assertS_run [comp]: "assertS b s = (if b then Inr () else Inl Abort, s)"
  by (simp add: assertS_def)

lemma liftO_run [comp]:
  "liftO None s = (Inl Abort, s)" "liftO (Some x) s = (Inr x, s)"
  by (simp_all add: liftO_def)

lemma andThen_run [comp]: "andThen m f s = (case m s of (Inl e, s') \<Rightarrow> (Inl e, s') | (Inr x, s') \<Rightarrow> f x s')"
  by (simp add: andThen_def)

text \<open>A pure function that may throw.\<close>

definition liftE :: "failure + 'a \<Rightarrow> ('s, 'a) comp" where
  "liftE r s = (r, s)"

lemma liftE_run [comp]: "liftE r s = (r, s)"
  by (simp add: liftE_def)

text \<open>One step at a time.\<close>

lemma andThen_Inr: "m s = (Inr x, s') \<Longrightarrow> andThen m f s = f x s'"
  by (simp add: andThen_def)

lemma andThen_Inl: "m s = (Inl e, s') \<Longrightarrow> andThen m f s = (Inl e, s')"
  by (simp add: andThen_def)

lemma andThen_getS: "andThen getS f s = f s s"
  by (simp add: andThen_def getS_def)

text \<open>A property that a computation keeps, whether it fails or not.\<close>

definition keeps :: "('s \<Rightarrow> bool) \<Rightarrow> ('s, 'a) comp \<Rightarrow> bool" where
  "keeps I m \<longleftrightarrow> (\<forall>s. I s \<longrightarrow> I (snd (m s)))"

named_theorems keep "computations that keep an invariant"

lemma keeps_ret [keep]: "keeps I (ret x)"
  by (simp add: keeps_def comp)

lemma keeps_fail [keep]: "keeps I (fail e)"
  by (simp add: keeps_def comp)

lemma keeps_getS [keep]: "keeps I getS"
  by (simp add: keeps_def comp)

lemma keeps_throwIf [keep]: "keeps I (throwIf b e)"
  by (simp add: keeps_def comp)

lemma keeps_assertS [keep]: "keeps I (assertS b)"
  by (simp add: keeps_def comp)

lemma keeps_liftO [keep]: "keeps I (liftO x)"
  by (cases x) (simp_all add: keeps_def comp)

lemma keeps_modS: "(\<And>s. I s \<Longrightarrow> I (f s)) \<Longrightarrow> keeps I (modS f)"
  by (simp add: keeps_def comp)

lemma keeps_andThen [keep]:
  assumes "keeps I m" "\<And>x. keeps I (f x)"
  shows "keeps I (andThen m f)"
  using assms unfolding keeps_def by (fastforce simp: comp split: prod.splits sum.splits)

lemma keepsD: "keeps I m \<Longrightarrow> I s \<Longrightarrow> m s = (r, s') \<Longrightarrow> I s'"
  unfolding keeps_def by (metis snd_conv)

text \<open>A computation over a part of the state.\<close>

definition zoom :: "('s \<Rightarrow> 't) \<Rightarrow> ('t \<Rightarrow> 's \<Rightarrow> 's) \<Rightarrow> ('t, 'a) comp \<Rightarrow> ('s, 'a) comp" where
  "zoom get put m s = (case m (get s) of (r, t) \<Rightarrow> (r, put t s))"

lemma zoom_run [comp]: "zoom get put m s = (case m (get s) of (r, t) \<Rightarrow> (r, put t s))"
  by (simp add: zoom_def)

text \<open>A loop over a list that stops at the first failure.\<close>

fun forEach :: "'a list \<Rightarrow> ('a \<Rightarrow> ('s, unit) comp) \<Rightarrow> ('s, unit) comp" where
  "forEach [] f = ret ()"
| "forEach (x # xs) f = andThen (f x) (\<lambda>_. forEach xs f)"

lemma keeps_forEach [keep]:
  "(\<And>x. x \<in> set xs \<Longrightarrow> keeps I (f x)) \<Longrightarrow> keeps I (forEach xs f)"
  by (induction xs) (auto intro!: keep)

end
