(* ===== verification/Buffer.thy ===== *)
theory Buffer
  imports Outcome
begin

text \<open>
  \<open>fenix::data::util::DataBuffer\<close> (include/fenix/data/util/buffer.hpp,
  src/data/util/buffer.cpp): an owned block of memory of which the first \<open>user_size\<close>
  bytes are in use.  \<open>fresh n\<close> stands for the contents of \<open>n\<close> newly allocated bytes.
\<close>

type_synonym byte = nat

record data_buffer =
  db_mem :: "byte list"
  db_size :: nat
  db_mmap :: bool

definition alloc_size :: "data_buffer \<Rightarrow> nat" where
  "alloc_size b = length (db_mem b)"

definition db_data :: "data_buffer \<Rightarrow> byte list" where
  "db_data b = take (db_size b) (db_mem b)"

definition db_ok :: "data_buffer \<Rightarrow> bool" where
  "db_ok b \<longleftrightarrow> db_size b \<le> alloc_size b"

definition empty_buffer :: data_buffer where
  "empty_buffer = \<lparr>db_mem = [], db_size = 0, db_mmap = False\<rparr>"

section \<open>Memory\<close>

text \<open>Whatever \<open>free\<close> or \<open>munmap\<close> is called, \<open>release_buf\<close> leaves the buffer empty.\<close>

definition free_buf :: "data_buffer \<Rightarrow> data_buffer" where
  "free_buf b = empty_buffer"

text \<open>
  \<open>realloc_buf\<close>.  A memory-mapped block is copied to a new one (freeing the old one also
  resets \<open>user_size\<close>), an unused one is replaced, any other goes through \<open>realloc\<close>.
\<close>

definition realloc_buf :: "(nat \<Rightarrow> byte list) \<Rightarrow> nat \<Rightarrow> data_buffer \<Rightarrow> data_buffer" where
  "realloc_buf fresh n b =
     (if n = 0 then free_buf b
      else let (new_buf, b) =
             (if db_mmap b then
                (let copy_size = (if db_size b < n then db_size b else n)
                 in (take copy_size (db_mem b) @ drop copy_size (fresh n), free_buf b))
              else if db_size b = 0 then (fresh n, free_buf b)
              else (take n (db_mem b) @ drop (alloc_size b) (fresh n), b))
           in b\<lparr>db_mem := new_buf, db_size := (if db_size b > n then n else db_size b)\<rparr>)"

definition resize :: "(nat \<Rightarrow> byte list) \<Rightarrow> nat \<Rightarrow> data_buffer \<Rightarrow> data_buffer" where
  "resize fresh n b =
     (let b = (if n \<ge> alloc_size b then realloc_buf fresh n b else b) in b\<lparr>db_size := n\<rparr>)"

definition shrink_to_fit :: "(nat \<Rightarrow> byte list) \<Rightarrow> data_buffer \<Rightarrow> data_buffer" where
  "shrink_to_fit fresh b =
     (if db_size b < alloc_size b then realloc_buf fresh (db_size b) b else b)"

definition db_clear :: "(nat \<Rightarrow> byte list) \<Rightarrow> data_buffer \<Rightarrow> data_buffer" where
  "db_clear fresh b = resize fresh 0 b"

definition db_reset :: "(nat \<Rightarrow> byte list) \<Rightarrow> nat \<Rightarrow> data_buffer \<Rightarrow> data_buffer" where
  "db_reset fresh n b = resize fresh n (resize fresh 0 b)"

definition reserve :: "(nat \<Rightarrow> byte list) \<Rightarrow> nat \<Rightarrow> data_buffer \<Rightarrow> data_buffer" where
  "reserve fresh n b = (let old_size = db_size b in resize fresh old_size (resize fresh n b))"

definition take_ownership :: "byte list \<Rightarrow> data_buffer \<Rightarrow> data_buffer" where
  "take_ownership new_buf b = (free_buf b)\<lparr>db_mem := new_buf, db_size := length new_buf\<rparr>"

definition take_ownership_mmapped :: "byte list \<Rightarrow> data_buffer \<Rightarrow> data_buffer" where
  "take_ownership_mmapped new_buf b =
     (free_buf b)\<lparr>db_mem := new_buf, db_size := length new_buf, db_mmap := True\<rparr>"

text \<open>Move assignment: the target takes the block, the source is released.\<close>

definition move_assign :: "data_buffer \<Rightarrow> data_buffer \<Rightarrow> data_buffer \<times> data_buffer" where
  "move_assign this other = (other, empty_buffer)"

section \<open>What a growing byte store promises\<close>

text \<open>
  The contract that the snapshots rely on: resizing sets the size and keeps the bytes
  that both sizes have.
\<close>

locale byte_store =
  fixes ok :: "'s \<Rightarrow> bool"
    and bytes :: "'s \<Rightarrow> byte list"
    and set_size :: "nat \<Rightarrow> 's \<Rightarrow> 's"
    and adopt :: "byte list \<Rightarrow> 's \<Rightarrow> 's"
  assumes ok_set_size: "ok s \<Longrightarrow> ok (set_size n s)"
    and ok_adopt: "ok (adopt xs s)"
    and length_set_size: "ok s \<Longrightarrow> length (bytes (set_size n s)) = n"
    and keeps_bytes: "ok s \<Longrightarrow> i < length (bytes s) \<Longrightarrow> i < n \<Longrightarrow> bytes (set_size n s) ! i = bytes s ! i"
    and bytes_adopt: "bytes (adopt xs s) = xs"
begin

lemma bytes_grow: "ok s \<Longrightarrow> length (bytes s) \<le> n \<Longrightarrow> take (length (bytes s)) (bytes (set_size n s)) = bytes s"
  by (rule nth_equalityI) (auto simp: length_set_size keeps_bytes min_absorb1 min_absorb2)

lemma bytes_shrink: "ok s \<Longrightarrow> n \<le> length (bytes s) \<Longrightarrow> bytes (set_size n s) = take n (bytes s)"
  by (rule nth_equalityI) (auto simp: length_set_size keeps_bytes min_absorb1 min_absorb2)

lemma set_size_same: "ok s \<Longrightarrow> n = length (bytes s) \<Longrightarrow> bytes (set_size n s) = bytes s"
  using bytes_shrink [of s n] by simp

lemma grow_shrink: "ok s \<Longrightarrow> length (bytes s) \<le> n \<Longrightarrow> bytes (set_size (length (bytes s)) (set_size n s)) = bytes s"
  by (simp add: bytes_shrink ok_set_size length_set_size bytes_grow)

end

section \<open>\<open>DataBuffer\<close> provides it\<close>

definition malloc_ok :: "(nat \<Rightarrow> byte list) \<Rightarrow> bool" where
  "malloc_ok fresh \<longleftrightarrow> (\<forall>n. length (fresh n) = n)"

lemma realloc_alloc:
  assumes "malloc_ok fresh" "db_ok b"
  shows "alloc_size (realloc_buf fresh n b) = n"
  using assms by (auto simp: realloc_buf_def alloc_size_def malloc_ok_def free_buf_def
      empty_buffer_def db_ok_def Let_def split: if_splits)

lemma resize_ok: "malloc_ok fresh \<Longrightarrow> db_ok b \<Longrightarrow> db_ok (resize fresh n b)"
  using realloc_alloc [of fresh b n] by (simp add: resize_def Let_def db_ok_def alloc_size_def)

lemma db_data_length: "db_ok b \<Longrightarrow> length (db_data b) = db_size b"
  by (simp add: db_data_def db_ok_def alloc_size_def)

lemma resize_size [simp]: "db_size (resize fresh n b) = n"
  by (simp add: resize_def Let_def)

lemma realloc_mem:
  assumes "malloc_ok fresh" "db_ok b" "i < db_size b" "i < n"
  shows "db_mem (realloc_buf fresh n b) ! i = db_mem b ! i"
  using assms by (auto simp: realloc_buf_def db_ok_def alloc_size_def malloc_ok_def nth_append Let_def)

lemma resize_bytes:
  assumes "malloc_ok fresh" "db_ok b" "i < db_size b" "i < n"
  shows "db_data (resize fresh n b) ! i = db_data b ! i"
  using assms realloc_mem [OF assms] by (simp add: resize_def Let_def db_data_def)

lemma buffer_store:
  assumes "malloc_ok fresh"
  shows "byte_store db_ok db_data (resize fresh) take_ownership"
proof
  show "db_ok (resize fresh n b)" if "db_ok b" for b n
    using resize_ok [OF assms that] .
  show "db_ok (take_ownership xs b)" for xs b
    by (simp add: take_ownership_def db_ok_def alloc_size_def)
  show "length (db_data (resize fresh n b)) = n" if "db_ok b" for b n
    using db_data_length [OF resize_ok [OF assms that]] by simp
  show "db_data (resize fresh n b) ! i = db_data b ! i"
    if "db_ok b" "i < length (db_data b)" "i < n" for b i n
    using resize_bytes [OF assms that(1)] that db_data_length by simp
  show "db_data (take_ownership xs b) = xs" for xs b
    by (simp add: take_ownership_def db_data_def)
qed

text \<open>Allocation that clears its memory is one \<open>fresh\<close>; it interprets the contract.\<close>

definition zeroed :: "nat \<Rightarrow> byte list" where
  "zeroed n = replicate n 0"

lemma zeroed_ok: "malloc_ok zeroed"
  by (simp add: malloc_ok_def zeroed_def)

interpretation zeroed_store: byte_store db_ok db_data "resize zeroed" take_ownership
  by (rule buffer_store [OF zeroed_ok])

lemma reserve_keeps:
  assumes "malloc_ok fresh" "db_ok b" "db_size b \<le> n"
  shows "db_data (reserve fresh n b) = db_data b"
  using byte_store.grow_shrink [OF buffer_store [OF assms(1)] assms(2), of n] assms(2,3)
  by (simp add: reserve_def Let_def db_data_length)

lemma shrink_keeps:
  assumes "malloc_ok fresh" "db_ok b" "\<not> db_mmap b"
  shows "db_data (shrink_to_fit fresh b) = db_data b"
  using assms
  by (auto simp: shrink_to_fit_def realloc_buf_def db_data_def db_ok_def alloc_size_def free_buf_def
      empty_buffer_def Let_def)

text \<open>On a memory-mapped buffer \<open>shrink_to_fit\<close> drops the contents.\<close>

lemma shrink_mmapped_empty:
  assumes "db_mmap b" "db_size b < alloc_size b"
  shows "db_data (shrink_to_fit fresh b) = []"
  using assms
  by (simp add: shrink_to_fit_def realloc_buf_def db_data_def free_buf_def empty_buffer_def Let_def)

end
