(* ===== verification/Keyed.thy ===== *)
theory Keyed
  imports Prelude
begin

text \<open>
  \<open>std::set\<close> of objects ordered by a key of theirs, with lookup by key (the
  \<open>is_transparent\<close> comparators of the library).  The set is the list of its objects with
  strictly increasing keys.
\<close>

definition kset_ok :: "('a \<Rightarrow> 'k::linorder) \<Rightarrow> 'a list \<Rightarrow> bool" where
  "kset_ok key s \<longleftrightarrow> sorted_wrt (\<lambda>x y. key x < key y) s"

definition kset_find :: "('a \<Rightarrow> 'k::linorder) \<Rightarrow> 'k \<Rightarrow> 'a list \<Rightarrow> 'a option" where
  "kset_find key k s = List.find (\<lambda>x. key x = k) s"

definition kset_insert :: "('a \<Rightarrow> 'k::linorder) \<Rightarrow> 'a \<Rightarrow> 'a list \<Rightarrow> 'a list" where
  "kset_insert key x s =
     (if \<exists>y \<in> set s. key y = key x then s
      else filter (\<lambda>y. key y < key x) s @ x # filter (\<lambda>y. key x < key y) s)"

definition kset_erase :: "('a \<Rightarrow> 'k::linorder) \<Rightarrow> 'k \<Rightarrow> 'a list \<Rightarrow> 'a list" where
  "kset_erase key k s = filter (\<lambda>x. key x \<noteq> k) s"

text \<open>An object changed in place, through a pointer to it; the change keeps its key.\<close>

definition kset_update :: "('a \<Rightarrow> 'k::linorder) \<Rightarrow> 'a \<Rightarrow> 'a list \<Rightarrow> 'a list" where
  "kset_update key x s = map (\<lambda>y. if key y = key x then x else y) s"

section \<open>The interface\<close>

text \<open>What the clients of these sets rely on.\<close>

locale keyed_set =
  fixes key :: "'a \<Rightarrow> 'k::linorder"
    and ok :: "'a list \<Rightarrow> bool"
    and look :: "'k \<Rightarrow> 'a list \<Rightarrow> 'a option"
    and add :: "'a \<Rightarrow> 'a list \<Rightarrow> 'a list"
    and rem :: "'k \<Rightarrow> 'a list \<Rightarrow> 'a list"
  assumes ok_empty: "ok []"
    and ok_add: "ok s \<Longrightarrow> ok (add x s)"
    and ok_rem: "ok s \<Longrightarrow> ok (rem k s)"
    and look_iff: "ok s \<Longrightarrow> look k s = Some x \<longleftrightarrow> x \<in> set s \<and> key x = k"
    and set_add: "ok s \<Longrightarrow> set (add x s) = (if key x \<in> key ` set s then set s else insert x (set s))"
    and set_rem: "ok s \<Longrightarrow> set (rem k s) = {x \<in> set s. key x \<noteq> k}"
begin

lemma look_None: "ok s \<Longrightarrow> look k s = None \<longleftrightarrow> k \<notin> key ` set s"
proof -
  assume s: "ok s"
  have "(\<exists>x. look k s = Some x) \<longleftrightarrow> k \<in> key ` set s"
    unfolding look_iff [OF s] by blast
  then show ?thesis by auto
qed

lemma same_key: "ok s \<Longrightarrow> x \<in> set s \<Longrightarrow> y \<in> set s \<Longrightarrow> key x = key y \<Longrightarrow> x = y"
  using look_iff [of s "key y" x] look_iff [of s "key y" y] by simp

lemma keys_add: "ok s \<Longrightarrow> key ` set (add x s) = insert (key x) (key ` set s)"
  by (auto simp: set_add)

lemma keys_rem: "ok s \<Longrightarrow> key ` set (rem k s) = key ` set s - {k}"
  by (auto simp: set_rem)

lemma look_add_fresh: "ok s \<Longrightarrow> look (key x) s = None \<Longrightarrow> look (key x) (add x s) = Some x"
  by (simp add: look_iff [OF ok_add] set_add look_None)

lemma look_add_other:
  assumes "ok s" "k \<noteq> key x"
  shows "look k (add x s) = look k s"
proof (cases "look k s")
  case None
  then have "k \<notin> key ` set (add x s)" using assms look_None [OF assms(1)] keys_add [OF assms(1)] by simp
  then show ?thesis using None look_None [OF ok_add [OF assms(1)]] by simp
next
  case (Some y)
  then have "y \<in> set s \<and> key y = k" using look_iff [OF assms(1)] by simp
  then have "y \<in> set (add x s) \<and> key y = k" by (simp add: set_add [OF assms(1)])
  then show ?thesis using Some look_iff [OF ok_add [OF assms(1)]] by simp
qed

lemma look_rem_same: "ok s \<Longrightarrow> look k (rem k s) = None"
  by (simp add: look_None [OF ok_rem] keys_rem)

lemma look_rem_other:
  assumes "ok s" "k \<noteq> l"
  shows "look k (rem l s) = look k s"
proof (cases "look k s")
  case None
  then have "k \<notin> key ` set (rem l s)" using look_None [OF assms(1)] keys_rem [OF assms(1)] by simp
  then show ?thesis using None look_None [OF ok_rem [OF assms(1)]] by simp
next
  case (Some y)
  then have "y \<in> set s \<and> key y = k" using look_iff [OF assms(1)] by simp
  then have "y \<in> set (rem l s) \<and> key y = k" using assms(2) by (simp add: set_rem [OF assms(1)])
  then show ?thesis using Some look_iff [OF ok_rem [OF assms(1)]] by simp
qed

lemma card_add: "ok s \<Longrightarrow> look (key x) s = None \<Longrightarrow> card (set (add x s)) = Suc (card (set s))"
proof -
  assume s: "ok s" "look (key x) s = None"
  then have "key x \<notin> key ` set s" by (simp add: look_None)
  moreover from this have "x \<notin> set s" by (metis imageI)
  ultimately show ?thesis using s(1) by (simp add: set_add)
qed

end

section \<open>The lists provide it\<close>

lemma kset_ok_Cons: "kset_ok key (y # s) \<longleftrightarrow> (\<forall>x \<in> set s. key y < key x) \<and> kset_ok key s"
  by (simp add: kset_ok_def)

lemma kset_find_Cons: "kset_find key k (y # s) = (if key y = k then Some y else kset_find key k s)"
  by (simp add: kset_find_def)

lemma kset_find_mem: "kset_ok key s \<Longrightarrow> kset_find key k s = Some x \<longleftrightarrow> x \<in> set s \<and> key x = k"
proof (induction s)
  case Nil
  then show ?case by (simp add: kset_find_def)
next
  case (Cons y s)
  have lt: "\<forall>z \<in> set s. key y < key z" and ok: "kset_ok key s" using Cons.prems by (simp_all add: kset_ok_Cons)
  show ?case
  proof (cases "key y = k")
    case True
    have "x \<in> set s \<Longrightarrow> key x \<noteq> k" using lt True by auto
    then show ?thesis using True by (auto simp: kset_find_Cons)
  next
    case False
    then show ?thesis using Cons.IH [OF ok] by (auto simp: kset_find_Cons)
  qed
qed

lemma kset_ok_insert: "kset_ok key s \<Longrightarrow> kset_ok key (kset_insert key x s)"
  by (auto simp: kset_insert_def kset_ok_def sorted_wrt_append sorted_wrt_filter)

lemma kset_insert_set:
  "set (kset_insert key x s) = (if key x \<in> key ` set s then set s else insert x (set s))"
proof (cases "key x \<in> key ` set s")
  case True
  then have "\<exists>y \<in> set s. key y = key x" by (metis imageE)
  then show ?thesis using True by (simp add: kset_insert_def)
next
  case False
  then have "\<forall>y \<in> set s. key y \<noteq> key x" by (metis imageI)
  then have "{y \<in> set s. key y < key x} \<union> {y \<in> set s. key x < key y} = set s" by (auto simp: neq_iff)
  then show ?thesis using False \<open>\<forall>y \<in> set s. key y \<noteq> key x\<close> by (auto simp: kset_insert_def)
qed

lemma kset_keyed: "keyed_set key (kset_ok key) (kset_find key) (kset_insert key) (kset_erase key)"
proof
  show "kset_ok key []" by (simp add: kset_ok_def)
  show "kset_ok key (kset_insert key x s)" if "kset_ok key s" for x s
    using that by (rule kset_ok_insert)
  show "kset_ok key (kset_erase key k s)" if "kset_ok key s" for k s
    using that by (simp add: kset_erase_def kset_ok_def sorted_wrt_filter)
  show "kset_find key k s = Some x \<longleftrightarrow> x \<in> set s \<and> key x = k" if "kset_ok key s" for k s x
    using that by (rule kset_find_mem)
  show "set (kset_insert key x s) = (if key x \<in> key ` set s then set s else insert x (set s))" for x s
    by (rule kset_insert_set)
  show "set (kset_erase key k s) = {x \<in> set s. key x \<noteq> k}" for k s
    by (auto simp: kset_erase_def)
qed

lemma kset_update_keys: "map key (kset_update key x s) = map key s"
  by (simp add: kset_update_def)

lemma kset_update_ok: "kset_ok key s \<Longrightarrow> kset_ok key (kset_update key x s)"
  unfolding kset_ok_def kset_update_def by (auto simp: sorted_wrt_map elim!: sorted_wrt_mono_rel [rotated])

lemma kset_update_set:
  "set (kset_update key x s) = (if key x \<in> key ` set s then insert x {y \<in> set s. key y \<noteq> key x} else set s)"
proof (cases "key x \<in> key ` set s")
  case True
  then obtain y where "y \<in> set s" "key y = key x" by (metis imageE)
  then show ?thesis using True by (auto simp: kset_update_def)
next
  case False
  then have "\<forall>y \<in> set s. key y \<noteq> key x" by (metis imageI)
  then have "kset_update key x s = s" by (simp add: kset_update_def map_idI)
  then show ?thesis using False by simp
qed

lemma kset_find_update:
  "kset_find key k (kset_update key x s)
    = (if k = key x \<and> kset_find key k s \<noteq> None then Some x else kset_find key k s)"
  by (induction s) (auto simp: kset_find_def kset_update_def)

lemma kset_last_max: "kset_ok key s \<Longrightarrow> x \<in> set s \<Longrightarrow> key x \<le> key (last s)"
proof (induction s)
  case (Cons y s)
  then show ?case by (cases "s = []") (auto simp: kset_ok_Cons intro: less_imp_le)
qed simp

lemma kset_hd_min: "kset_ok key s \<Longrightarrow> x \<in> set s \<Longrightarrow> key (hd s) \<le> key x"
  by (cases s) (auto simp: kset_ok_Cons intro: less_imp_le)

lemma kset_ok_distinct: "kset_ok key s \<Longrightarrow> distinct s"
  by (induction s) (auto simp: kset_ok_Cons kset_ok_def)

lemma kset_insert_last: "\<forall>y \<in> set s. key y < key x \<Longrightarrow> kset_insert key x s = s @ [x]"
  by (auto simp: kset_insert_def filter_empty_conv)

end
