(* ===== verification/Snapshot.thy ===== *)
theory Snapshot
  imports Buffer Subset_Build Keyed
begin

text \<open>
  \<open>fenix::data::DataSnapshot\<close> (include/fenix/data/snapshot.hpp, src/data/snapshot.cpp), the
  references to user memory it is filled from (include/fenix/data/util/data_ref.hpp) and the
  copies of a \<open>Serializer\<close> without a user function (src/data/util/serializer.cpp,
  \<open>DataSubset::copy_data\<close>).  A pure operation returns an option, \<open>None\<close> being a failed
  assertion or an access outside of an object; an operation that can throw is a \<open>comp\<close>.
\<close>

section \<open>\<open>int\<close>\<close>

text \<open>
  A 32-bit \<open>int\<close> as compiled, with wrap-around.  \<open>size_of_int\<close> and \<open>int_of_size\<close> are the
  conversions to and from \<open>size_t\<close>.
\<close>

definition i32 :: "int \<Rightarrow> int" where
  "i32 x = (x + 2147483648) mod 4294967296 - 2147483648"

definition INT32_MAX :: int where
  "INT32_MAX = 2147483647"

lemma i32_exact: "- 2147483648 \<le> x \<Longrightarrow> x \<le> INT32_MAX \<Longrightarrow> i32 x = x"
  by (simp add: i32_def INT32_MAX_def)

lemma int_of_size_i32: "int_of_size n = i32 (int n)"
  by (simp add: int_of_size_def i32_def)

lemma size_of_int_exact: "0 \<le> x \<Longrightarrow> x \<le> INT32_MAX \<Longrightarrow> size_of_int x = nat x"
  by (simp add: size_of_int_def INT32_MAX_def SIZE_MAX_def)

lemma INT_MAX_32: "int INT_MAX = INT32_MAX"
  by (simp add: INT_MAX_def INT32_MAX_def)

lemma size_i32: "m \<le> INT_MAX \<Longrightarrow> size_of_int (i32 (int m)) = m"
  using INT_MAX_32 by (simp add: i32_exact size_of_int_exact)

lemma INT_MAX_lt: "INT_MAX < IDX_MAX" "INT_MAX < SIZE_MAX"
  by (simp_all add: INT_MAX_def IDX_MAX_def SIZE_MAX_def)

section \<open>References to memory\<close>

text \<open>
  A pointer is null or the start of one of the user's objects; the heap gives the bytes of
  each object.
\<close>

datatype ptr = Null | At nat

type_synonym heap = "nat \<Rightarrow> byte list"

definition load_obj :: "heap \<Rightarrow> ptr \<Rightarrow> byte list" where
  "load_obj h p = (case p of Null \<Rightarrow> [] | At a \<Rightarrow> h a)"

definition store_obj :: "ptr \<Rightarrow> byte list \<Rightarrow> heap \<Rightarrow> heap" where
  "store_obj p xs h = (case p of Null \<Rightarrow> h | At a \<Rightarrow> h(a := xs))"

record data_ref =
  dr_data :: ptr
  dr_size :: nat

definition unbounded_ref :: "ptr \<Rightarrow> data_ref" where
  "unbounded_ref p = \<lparr>dr_data = p, dr_size = SIZE_MAX\<rparr>"

definition ref_is_bounded :: "data_ref \<Rightarrow> bool" where
  "ref_is_bounded r \<longleftrightarrow> dr_size r \<noteq> SIZE_MAX"

definition ref_bounded :: "data_ref \<Rightarrow> nat \<Rightarrow> data_ref" where
  "ref_bounded r max_size = (if max_size < dr_size r then r\<lparr>dr_size := max_size\<rparr> else r)"

section \<open>Copying elements\<close>

datatype direction = Serialize | Deserialize

text \<open>
  A serializer without a user function.  The staging buffer it refers to is passed to its
  operations.  It is \<open>dynamic\<close> when it serializes an unbounded reference.
\<close>

record serializer =
  sr_user :: data_ref
  sr_dir :: direction
  sr_dynamic :: bool
  sr_elm_size :: nat

definition serializer_size :: "serializer \<Rightarrow> data_buffer \<Rightarrow> nat option" where
  "serializer_size s stage = do {
     fenix_assert (sr_elm_size s \<noteq> 0);
     fenix_assert (\<not> ref_is_bounded (sr_user s) \<or> dr_size (sr_user s) mod sr_elm_size s = 0);
     fenix_assert (db_size stage mod sr_elm_size s = 0);
     Some (if sr_dynamic s then SIZE_MAX
           else if \<not> ref_is_bounded (sr_user s) then db_size stage
           else min (db_size stage) (dr_size (sr_user s)))
   }"

definition max_element_of :: "serializer \<Rightarrow> data_buffer \<Rightarrow> nat option" where
  "max_element_of s stage =
     (if sr_dynamic s then Some SIZE_MAX
      else map_option (\<lambda>n. sz_sub (n div sr_elm_size s) 1) (serializer_size s stage))"

definition mk_serializer :: "data_buffer \<Rightarrow> data_ref \<Rightarrow> direction \<Rightarrow> nat \<Rightarrow> serializer option" where
  "mk_serializer stage user dir elm =
     (let s = \<lparr>sr_user = user, sr_dir = dir,
               sr_dynamic = (\<not> ref_is_bounded user \<and> dir = Serialize), sr_elm_size = elm\<rparr>
      in do {
        fenix_assert (\<not> sr_dynamic s);
        n \<leftarrow> serializer_size s stage;
        fenix_assert (n mod elm = 0);
        Some s
      })"

text \<open>
  \<open>serialize_elements\<close>: its two \<open>int\<close> parameters are converted from the bounds of a block,
  and the offset is computed in \<open>int\<close>.  The bytes must lie in both objects.
\<close>

definition copy_elements ::
  "nat \<Rightarrow> nat \<Rightarrow> byte list \<Rightarrow> byte list \<Rightarrow> data_region \<Rightarrow> byte list option" where
  "copy_elements elm max_elm src dst b =
     (let first = int_of_size (r_start b); last = int_of_size (r_end b);
          count = i32 (last - first + 1);
          off = size_of_int (i32 (first * int elm)); len = size_of_int (i32 (count * int elm))
      in do {
        fenix_assert (first \<ge> 0 \<and> size_of_int last \<le> max_elm);
        fenix_assert (off + len \<le> length src \<and> off + len \<le> length dst);
        Some (take off dst @ take len (drop off src) @ drop (off + len) dst)
      })"

fun copy_blocks :: "nat \<Rightarrow> nat \<Rightarrow> byte list \<Rightarrow> byte list \<Rightarrow> data_region list \<Rightarrow> byte list option" where
  "copy_blocks elm max_elm src dst [] = Some dst"
| "copy_blocks elm max_elm src dst (b # bs) = do {
     dst \<leftarrow> copy_elements elm max_elm src dst b;
     copy_blocks elm max_elm src dst bs
   }"

text \<open>\<open>copy_data\<close>: into the stage buffer or out of it, the result being the new target.\<close>

definition copy_data :: "data_subset \<Rightarrow> serializer \<Rightarrow> data_buffer \<Rightarrow> byte list \<Rightarrow> byte list option" where
  "copy_data d s stage user = do {
     m \<leftarrow> max_element_of s stage;
     R \<leftarrow> bounded_regions d m;
     bs \<leftarrow> block_iter R;
     (if sr_dir s = Serialize then copy_blocks (sr_elm_size s) m user (db_data stage) bs
      else copy_blocks (sr_elm_size s) m (db_data stage) user bs)
   }"

definition put_data :: "byte list \<Rightarrow> data_buffer \<Rightarrow> data_buffer" where
  "put_data xs b = b\<lparr>db_mem := xs @ drop (db_size b) (db_mem b)\<rparr>"

section \<open>Snapshots\<close>

definition subset_full :: data_subset where
  "subset_full = basic_subset [full_region]"

definition empty_subset :: data_subset where
  "empty_subset = basic_subset []"

definition subset_prestaged :: data_subset where
  "subset_prestaged = \<lparr>ss_regions = [], ss_type = PrestagedSubset\<rparr>"

text \<open>A communicator is its members in rank order and the rank of this process.\<close>

record comm =
  cm_ranks :: "nat list"
  cm_rank :: nat

definition comm_size :: "comm \<Rightarrow> nat" where
  "comm_size c = length (cm_ranks c)"

record snapshot =
  sn_buf :: data_buffer
  sn_timestamp :: int
  sn_elm_size :: nat
  sn_max_count :: int
  sn_cohort :: "nat list option"
  sn_rank :: int
  sn_protected :: "data_subset list"
  sn_staged :: "data_subset list"

text \<open>An allocation of more than \<open>PTRDIFF_MAX\<close> bytes fails, and the buffer aborts.\<close>

definition snap_resize :: "(nat \<Rightarrow> byte list) \<Rightarrow> nat \<Rightarrow> snapshot \<Rightarrow> snapshot option" where
  "snap_resize fresh n s = do {
     fenix_assert (n \<le> IDX_MAX);
     Some (s\<lparr>sn_buf := resize fresh n (sn_buf s)\<rparr>)
   }"

definition new_snapshot :: "(nat \<Rightarrow> byte list) \<Rightarrow> nat \<Rightarrow> int \<Rightarrow> snapshot option" where
  "new_snapshot fresh elm_size max_count =
     (let s = \<lparr>sn_buf = empty_buffer, sn_timestamp = -2, sn_elm_size = elm_size, sn_max_count = max_count,
               sn_cohort = None, sn_rank = -1, sn_protected = [], sn_staged = []\<rparr>;
          n = size_of_int (i32 (int elm_size * max_count))
      in if max_count \<noteq> -1 then do {
           fenix_assert (n \<le> IDX_MAX);
           Some (s\<lparr>sn_buf := reserve fresh n (sn_buf s)\<rparr>)
         } else Some s)"

definition snap_reset :: "(nat \<Rightarrow> byte list) \<Rightarrow> snapshot \<Rightarrow> snapshot" where
  "snap_reset fresh s = s\<lparr>sn_timestamp := -2, sn_buf := db_clear fresh (sn_buf s),
     sn_protected := [], sn_staged := [], sn_rank := -1, sn_cohort := None\<rparr>"

definition vec_resize :: "nat \<Rightarrow> data_subset list \<Rightarrow> data_subset list" where
  "vec_resize n xs = take n xs @ replicate (n - length xs) empty_subset"

definition reinit_cohort :: "comm \<Rightarrow> snapshot \<Rightarrow> snapshot" where
  "reinit_cohort c s = s\<lparr>sn_cohort := Some (cm_ranks c), sn_rank := int (cm_rank c),
     sn_protected := vec_resize (comm_size c) (sn_protected s),
     sn_staged := vec_resize (comm_size c) (sn_staged s)\<rparr>"

definition init_cohort :: "comm \<Rightarrow> snapshot \<Rightarrow> snapshot" where
  "init_cohort c s = (if sn_cohort s = None then reinit_cohort c s else s)"

definition at_rank :: "'a list \<Rightarrow> int \<Rightarrow> 'a option" where
  "at_rank xs i = (if 0 \<le> i \<and> nat i < length xs then Some (xs ! nat i) else None)"

definition staged_subset :: "snapshot \<Rightarrow> data_subset option" where
  "staged_subset s = at_rank (sn_staged s) (sn_rank s)"

definition protected_subset :: "snapshot \<Rightarrow> data_subset option" where
  "protected_subset s = at_rank (sn_protected s) (sn_rank s)"

definition set_staged :: "data_subset \<Rightarrow> snapshot \<Rightarrow> snapshot" where
  "set_staged d s = s\<lparr>sn_staged := (sn_staged s)[nat (sn_rank s) := d]\<rparr>"

definition create_serializer ::
  "(nat \<Rightarrow> byte list) \<Rightarrow> data_ref \<Rightarrow> data_subset \<Rightarrow> (snapshot, serializer) comp" where
  "create_serializer fresh source d =
     andThen (liftO (subset_is_bounded d)) (\<lambda>bd.
     andThen (liftO (subset_max_count d)) (\<lambda>mc.
     andThen getS (\<lambda>s.
     (let output = (if bd then ref_bounded source (sz_mul mc (sn_elm_size s)) else source)
      in andThen (throwIf (\<not> ref_is_bounded output) FENIX_ERROR_INVALID_SUBSET) (\<lambda>_.
         andThen (if db_size (sn_buf s) < dr_size output
                  then andThen (liftO (snap_resize fresh (dr_size output) s)) (\<lambda>s. modS (\<lambda>_. s))
                  else ret ()) (\<lambda>_.
         andThen getS (\<lambda>s.
         liftO (mk_serializer (sn_buf s) output Serialize (sn_elm_size s)))))))))"

definition create_deserializer :: "snapshot \<Rightarrow> data_ref \<Rightarrow> serializer option" where
  "create_deserializer s dst = mk_serializer (sn_buf s) dst Deserialize (sn_elm_size s)"

definition add_and_fit :: "(nat \<Rightarrow> byte list) \<Rightarrow> data_subset \<Rightarrow> snapshot \<Rightarrow> snapshot option" where
  "add_and_fit fresh d s = do {
     pre \<leftarrow> subset_equal d subset_prestaged;
     fenix_assert (\<not> pre);
     st \<leftarrow> staged_subset s;
     pre \<leftarrow> subset_equal st subset_prestaged;
     fenix_assert (\<not> pre);
     mc \<leftarrow> subset_max_count st;
     em \<leftarrow> subset_empty st;
     fenix_assert (mc > 0 \<or> em);
     st \<leftarrow> subset_union st d;
     st \<leftarrow> (if sn_max_count s \<noteq> 0 then subset_bound st (size_of_int (i32 (sn_max_count s - 1))) else Some st);
     new_count \<leftarrow> (if sn_max_count s = 0 then map_option int_of_size (subset_max_count st) else Some (sn_max_count s));
     em \<leftarrow> subset_empty st;
     fenix_assert (new_count \<noteq> 0 \<or> em);
     (let s = set_staged st s; new_size = size_of_int (i32 (new_count * int (sn_elm_size s)))
      in if new_size > db_size (sn_buf s) then snap_resize fresh new_size s else Some s)
   }"

end
