(* ===== verification/Snapshot_Copy.thy ===== *)
theory Snapshot_Copy
  imports Snapshot
begin

text \<open>
  The copies between a snapshot and user memory move exactly the selected elements
  (src/data/util/serializer.cpp, \<open>DataSubset::copy_data\<close>).
\<close>

section \<open>One block\<close>

lemma copy_elements_eq:
  assumes b: "in_buffer es n b" and n: "n * es \<le> INT_MAX" "es \<noteq> 0"
    and len: "n * es \<le> length src" "n * es \<le> length dst"
  shows "copy_elements es (n - 1) src dst b
    = Some (take (r_start b * es) dst @ slice es src b @ drop ((r_end b + 1) * es) dst)"
proof -
  have le: "r_start b \<le> r_end b" "r_end b + 1 \<le> n" using b by (simp_all add: in_buffer_def)
  have "n \<le> n * es" using n(2) by simp
  then have nI: "n \<le> INT_MAX" using n(1) by linarith
  have top: "n * es \<le> SIZE_MAX" using n(1) INT_MAX_lt(2) by linarith
  note e = block_bytes_eq [OF b top n(2), folded block_len_def]
  have fits: "r_start b * es \<le> INT_MAX" "block_len b * es \<le> INT_MAX" using e(3,4) n(1) by linarith+
  have ints: "int_of_size (r_start b) = int (r_start b)" "int_of_size (r_end b) = int (r_end b)"
    using le nI by (intro int_of_size_exact, linarith)+
  have "int (r_end b) - int (r_start b) + 1 = int (block_len b)" using le(1) by (simp add: block_len_def)
  moreover have "block_len b \<le> INT_MAX" using le nI by (simp add: block_len_def)
  ultimately have count: "i32 (int (r_end b) - int (r_start b) + 1) = int (block_len b)"
    using INT_MAX_32 by (simp add: i32_exact)
  have prod: "int (r_start b) * int es = int (r_start b * es)" "int (block_len b) * int es = int (block_len b * es)"
    by simp_all
  have size: "size_of_int (i32 (int m)) = m" if "m \<le> INT_MAX" for m
  proof -
    have "int m \<le> INT32_MAX" using that INT_MAX_32 by simp
    then show ?thesis by (simp add: i32_exact size_of_int_exact)
  qed
  have last: "size_of_int (int (r_end b)) = r_end b"
  proof -
    have "int (r_end b) \<le> INT32_MAX" using le nI INT_MAX_32 by simp
    then show ?thesis by (simp add: size_of_int_exact)
  qed
  have "r_end b \<le> n - 1" using le by simp
  then show ?thesis
    unfolding copy_elements_def ints count Let_def prod size [OF fits(1)] size [OF fits(2)] last
    using e(3,4) len by (simp add: slice_def)
qed

text \<open>Which bytes the copy of a block changes.\<close>

definition moved :: "nat \<Rightarrow> nat set \<Rightarrow> byte list \<Rightarrow> byte list \<Rightarrow> byte list \<Rightarrow> bool" where
  "moved es X src dst dst' \<longleftrightarrow> length dst' = length dst \<and>
     (\<forall>i < length dst. dst' ! i = (if i div es \<in> X then src ! i else dst ! i))"

lemma moved_empty [simp]: "moved es {} src dst dst"
  by (simp add: moved_def)

lemma moved_trans:
  assumes "moved es X src dst d" "moved es Y src d d'"
  shows "moved es (X \<union> Y) src dst d'"
  using assms by (simp add: moved_def)

lemma copy_elements_moved:
  assumes b: "in_buffer es n b" and n: "n * es \<le> INT_MAX" "es \<noteq> 0"
    and len: "n * es \<le> length src" "n * es \<le> length dst"
  shows "\<exists>dst'. copy_elements es (n - 1) src dst b = Some dst' \<and>
    moved es {r_start b .. r_end b} src dst dst'"
proof -
  have top: "n * es \<le> SIZE_MAX" using n(1) INT_MAX_lt(2) by linarith
  note e = block_bytes_eq [OF b top n(2), folded block_len_def]
  let ?s = "r_start b * es" and ?l = "block_len b * es"
  let ?d = "take ?s dst @ slice es src b @ drop ((r_end b + 1) * es) dst"
  have sum: "?s + ?l = (r_end b + 1) * es" and le: "(r_end b + 1) * es \<le> n * es" using e(3,4) by simp_all
  have sl: "length (slice es src b) = ?l" using sum le len(1) by (simp add: slice_def)
  have lend: "length ?d = length dst" using sl sum le len(2) by simp
  have pos: "0 < es" using n(2) by simp
  have nth: "?d ! i = (if i div es \<in> {r_start b .. r_end b} then src ! i else dst ! i)" if i: "i < length dst" for i
  proof -
    have "r_start b \<le> i div es \<longleftrightarrow> ?s \<le> i" by (rule less_eq_div_iff_mult_less_eq [OF pos])
    moreover have "i div es < r_end b + 1 \<longleftrightarrow> i < (r_end b + 1) * es" by (rule div_less_iff_less_mult [OF pos])
    ultimately have iff: "i div es \<in> {r_start b .. r_end b} \<longleftrightarrow> ?s \<le> i \<and> i < ?s + ?l" unfolding sum by auto
    have at: "?d ! i = (if ?s \<le> i \<and> i < ?s + ?l then slice es src b ! (i - ?s) else dst ! i)"
      unfolding sum [symmetric] using sum le len(2) i by (intro splice_nth [OF sl]) linarith+
    show ?thesis
    proof (cases "?s \<le> i \<and> i < ?s + ?l")
      case True
      have "?s \<le> length src" using sum le len(1) by linarith
      then have "drop ?s src ! (i - ?s) = src ! i" using True by simp
      moreover have "i - ?s < ?l" using True by linarith
      ultimately have "slice es src b ! (i - ?s) = src ! i" by (simp add: slice_def)
      with True show ?thesis unfolding at iff by simp
    next
      case False
      then show ?thesis unfolding at iff by (simp only: if_False)
    qed
  qed
  show ?thesis
    unfolding copy_elements_eq [OF b n len] using lend nth by (auto simp: moved_def)
qed

lemma copy_blocks_moved:
  assumes "\<forall>b \<in> set bs. in_buffer es n b" "n * es \<le> INT_MAX" "es \<noteq> 0"
    "n * es \<le> length src" "n * es \<le> length dst"
  shows "\<exists>dst'. copy_blocks es (n - 1) src dst bs = Some dst' \<and>
    moved es (\<Union>b \<in> set bs. {r_start b .. r_end b}) src dst dst'"
  using assms(1,5)
proof (induction bs arbitrary: dst)
  case Nil
  then show ?case by simp
next
  case (Cons b bs)
  then have b: "in_buffer es n b" "\<forall>b \<in> set bs. in_buffer es n b" by simp_all
  obtain d where d: "copy_elements es (n - 1) src dst b = Some d" "moved es {r_start b .. r_end b} src dst d"
    using copy_elements_moved [OF b(1) assms(2-4) Cons.prems(2)] by blast
  have "n * es \<le> length d" using d(2) Cons.prems(2) by (simp add: moved_def)
  from Cons.IH [OF b(2) this] obtain d' where d': "copy_blocks es (n - 1) src d bs = Some d'"
    "moved es (\<Union>b \<in> set bs. {r_start b .. r_end b}) src d d'" by blast
  from moved_trans [OF d(2) d'(2)] show ?case using d(1) d'(1) by simp
qed

section \<open>A whole subset\<close>

text \<open>
  The bounded regions of a buffer of \<open>n > 0\<close> elements, as the loop of \<open>copy_data\<close> gets them.
\<close>

lemma copy_regions:
  assumes R: "regions_ok s R" and n: "0 < n" "n * es \<le> INT_MAX" "es \<noteq> 0"
    and len: "n * es \<le> length src" "n * es \<le> length dst"
  obtains D bs dst' where "bounded_regions (basic_subset R) (n - 1) = Some D" "block_iter D = Some bs"
    "copy_blocks es (n - 1) src dst bs = Some dst'" "moved es (regions_elems R \<inter> {..<n}) src dst dst'"
proof -
  have "n \<le> n * es" using n(3) by simp
  then have nI: "n \<le> IDX_MAX" using n(2) INT_MAX_lt(1) by linarith
  obtain D bs where b: "bounded_regions (basic_subset R) (n - 1) = Some D" "block_iter D = Some bs"
    "\<forall>b \<in> set bs. in_buffer es n b" "regions_elems bs = regions_elems R \<inter> {..<n}"
    "\<forall>b \<in> set bs. region_ok b \<and> r_reps b = 0"
    by (rule buffer_blocks [OF R n(1) nI, of es])
  have "(\<Union>b \<in> set bs. {r_start b .. r_end b}) = regions_elems bs"
  proof -
    have "region_elems b = {r_start b .. r_end b}" if "b \<in> set bs" for b
      using b(5) that by (auto simp: region_elems_def)
    then show ?thesis by (simp add: regions_elems_def)
  qed
  then show ?thesis
    using copy_blocks_moved [OF b(3) n(2,3) len] b(1,2,4) that by metis
qed

text \<open>The number of elements both sides of a serializer have.\<close>

lemma max_element_eq:
  assumes "\<not> sr_dynamic s" "sr_elm_size s = es" "es \<noteq> 0" "0 < n" "n * es \<le> INT_MAX"
    "serializer_size s stage = Some (n * es)"
  shows "max_element_of s stage = Some (n - 1)"
proof -
  have "n \<le> n * es" using assms(3) by simp
  then have "n \<le> IDX_MAX" using assms(5) INT_MAX_lt(1) by linarith
  from max_element(1) [OF assms(4) this assms(3)] show ?thesis
    using assms(1,2,6) by (simp add: max_element_of_def)
qed

lemma copy_data_in:
  assumes R: "regions_ok st R" and s: "sr_dir s = Serialize" "\<not> sr_dynamic s" "sr_elm_size s = es"
    and n: "0 < n" "n * es \<le> INT_MAX" "es \<noteq> 0" "serializer_size s stage = Some (n * es)"
    and len: "n * es \<le> length user" "n * es \<le> length (db_data stage)"
  shows "\<exists>dst. copy_data (basic_subset R) s stage user = Some dst \<and>
    moved es (regions_elems R \<inter> {..<n}) user (db_data stage) dst"
proof -
  obtain D bs dst where c: "bounded_regions (basic_subset R) (n - 1) = Some D" "block_iter D = Some bs"
    "copy_blocks es (n - 1) user (db_data stage) bs = Some dst"
    "moved es (regions_elems R \<inter> {..<n}) user (db_data stage) dst"
    by (rule copy_regions [OF R n(1-3) len])
  then show ?thesis using max_element_eq [OF s(2,3) n(3,1,2,4)] s by (simp add: copy_data_def)
qed

lemma copy_data_out:
  assumes R: "regions_ok st R" and s: "sr_dir s = Deserialize" "\<not> sr_dynamic s" "sr_elm_size s = es"
    and n: "0 < n" "n * es \<le> INT_MAX" "es \<noteq> 0" "serializer_size s stage = Some (n * es)"
    and len: "n * es \<le> length user" "n * es \<le> length (db_data stage)"
  shows "\<exists>dst. copy_data (basic_subset R) s stage user = Some dst \<and>
    moved es (regions_elems R \<inter> {..<n}) (db_data stage) user dst"
proof -
  obtain D bs dst where c: "bounded_regions (basic_subset R) (n - 1) = Some D" "block_iter D = Some bs"
    "copy_blocks es (n - 1) (db_data stage) user bs = Some dst"
    "moved es (regions_elems R \<inter> {..<n}) (db_data stage) user dst"
    by (rule copy_regions [OF R n(1-3) len(2,1)])
  then show ?thesis using max_element_eq [OF s(2,3) n(3,1,2,4)] s by (simp add: copy_data_def)
qed

end
