(* ===== verification/Member.thy ===== *)
theory Member
  imports Snapshot_Copy Outcome
begin

text \<open>
  \<open>fenix::data::DataMember\<close> (include/fenix/data/member.hpp, src/data/member.cpp) with its
  default, local operations: a member of a data group is a user buffer, a staging snapshot,
  the committed snapshots by timestamp and a pool of unused snapshots.  Members with a user
  serialize function are not modelled; the \<open>fresh\<close> argument is the contents of newly
  allocated memory.
\<close>

section \<open>The data\<close>

text \<open>
  An MPI datatype is what the code asks MPI about it.  \<open>ds_put\<close> and \<open>ds_get\<close>, where an
  operation takes them, are \<open>mpixx::Datatype::serialize\<close> and \<open>deserialize\<close>.
\<close>

record mpi_type =
  mt_id :: nat
  mt_extent :: nat
  mt_size :: nat

text \<open>An open serializer: its direction and the bytes written to its stream.\<close>

record open_ser =
  os_dir :: direction
  os_dynamic :: bool
  os_bytes :: "byte list"

record member =
  mb_id :: int
  mb_type :: mpi_type
  mb_user :: data_ref
  mb_depth :: int
  mb_stage :: "snapshot option"
  mb_commits :: "snapshot list"
  mb_avail :: "snapshot list"
  mb_open :: "open_ser option"
  mb_ser :: "nat option"

abbreviation commit_insert :: "snapshot \<Rightarrow> snapshot list \<Rightarrow> snapshot list" where
  "commit_insert \<equiv> kset_insert sn_timestamp"

abbreviation commit_find :: "int \<Rightarrow> snapshot list \<Rightarrow> snapshot option" where
  "commit_find \<equiv> kset_find sn_timestamp"

abbreviation commit_erase :: "int \<Rightarrow> snapshot list \<Rightarrow> snapshot list" where
  "commit_erase \<equiv> kset_erase sn_timestamp"

section \<open>Construction\<close>

definition new_member :: "int \<Rightarrow> ptr \<Rightarrow> int \<Rightarrow> mpi_type \<Rightarrow> int \<Rightarrow> member" where
  "new_member mid d c dt depth =
     \<lparr>mb_id = mid, mb_type = dt,
      mb_user = (if c = 0 then unbounded_ref d
                 else \<lparr>dr_data = d, dr_size = size_of_int (i32 (c * int (mt_extent dt)))\<rparr>),
      mb_depth = depth, mb_stage = None, mb_commits = [], mb_avail = [], mb_open = None, mb_ser = None\<rparr>"

definition elm_count :: "member \<Rightarrow> int option" where
  "elm_count m =
     (if \<not> ref_is_bounded (mb_user m) then Some 0
      else do {
        fenix_assert (mt_extent (mb_type m) \<noteq> 0);
        fenix_assert (dr_size (mb_user m) mod mt_extent (mb_type m) = 0);
        Some (int_of_size (dr_size (mb_user m) div mt_extent (mb_type m)))
      })"

definition create_snapshot :: "(nat \<Rightarrow> byte list) \<Rightarrow> member \<Rightarrow> snapshot option" where
  "create_snapshot fresh m = do {
     c \<leftarrow> elm_count m;
     new_snapshot fresh (mt_extent (mb_type m)) c
   }"

text \<open>\<open>cc\<close> is the group's \<open>cohort_comm\<close>, \<open>None\<close> when it is null.\<close>

definition init_snapshots :: "(nat \<Rightarrow> byte list) \<Rightarrow> comm option \<Rightarrow> member \<Rightarrow> member option" where
  "init_snapshots fresh cc m = do {
     s \<leftarrow> create_snapshot fresh m;
     (let st = (case cc of None \<Rightarrow> s | Some c \<Rightarrow> init_cohort c s);
          n = nat (mb_depth m + 1)
      in Some (m\<lparr>mb_stage := Some st, mb_avail := mb_avail m @ replicate n s\<rparr>))
   }"

text \<open>The bytes of an \<open>int\<close>, least significant first.\<close>

definition int_bytes :: "int \<Rightarrow> byte list" where
  "int_bytes i = map (\<lambda>k. nat (i mod 4294967296) div 256 ^ k mod 256) [0..<4]"

definition bytes_int :: "byte list \<Rightarrow> int" where
  "bytes_int bs = i32 (int (bytes_size (take 4 bs)))"

definition member_serialize :: "(mpi_type \<Rightarrow> byte list) \<Rightarrow> member \<Rightarrow> byte list option" where
  "member_serialize ds_put m = do {
     c \<leftarrow> elm_count m;
     Some (int_bytes (mb_id m) @ int_bytes c @ int_bytes (int_of_size (length (ds_put (mb_type m))))
       @ ds_put (mb_type m))
   }"

definition member_deserialize ::
  "(byte list \<Rightarrow> failure + mpi_type) \<Rightarrow> byte list \<Rightarrow> int \<Rightarrow> failure + member" where
  "member_deserialize ds_get buf depth =
     (let mid = bytes_int buf; count = bytes_int (drop 4 buf); dt_size = bytes_int (drop 8 buf)
      in if length buf < 12 \<or> length buf < size_of_int (i32 (12 + dt_size)) then Inl Abort
         else (case ds_get (take (size_of_int dt_size) (drop 12 buf)) of
             Inl e \<Rightarrow> Inl e
           | Inr dt \<Rightarrow> Inr (new_member mid Null count dt depth)))"

section \<open>Staging\<close>

text \<open>A member in an operation always has a staging snapshot; a null one is a crash.\<close>

definition on_stage :: "(snapshot, 'a) comp \<Rightarrow> (member, 'a) comp" where
  "on_stage c m = (case mb_stage m of
       None \<Rightarrow> (Inl Abort, m)
     | Some s \<Rightarrow> (case c s of (r, s') \<Rightarrow> (r, m\<lparr>mb_stage := Some s'\<rparr>)))"

lemma on_stage_run [comp]:
  "on_stage c m = (case mb_stage m of
       None \<Rightarrow> (Inl Abort, m)
     | Some s \<Rightarrow> (case c s of (r, s') \<Rightarrow> (r, m\<lparr>mb_stage := Some s'\<rparr>)))"
  by (simp add: on_stage_def)

text \<open>An operation on a snapshot that can only fail an assertion.\<close>

definition snap_do :: "(snapshot \<Rightarrow> snapshot option) \<Rightarrow> (snapshot, unit) comp" where
  "snap_do f s = (case f s of None \<Rightarrow> (Inl Abort, s) | Some s' \<Rightarrow> (Inr (), s'))"

lemma snap_do_run [comp]:
  "snap_do f s = (case f s of None \<Rightarrow> (Inl Abort, s) | Some s' \<Rightarrow> (Inr (), s'))"
  by (simp add: snap_do_def)

definition not_prestaged :: "data_subset \<Rightarrow> ('s, unit) comp" where
  "not_prestaged d = andThen (liftO (subset_equal d subset_prestaged))
     (\<lambda>pre. throwIf pre FENIX_ERROR_NOCATEGORY)"

definition member_stage :: "(nat \<Rightarrow> byte list) \<Rightarrow> heap \<Rightarrow> data_subset \<Rightarrow> (member, unit) comp" where
  "member_stage fresh h d =
     andThen (not_prestaged d) (\<lambda>_.
     andThen getS (\<lambda>m. (let es = mt_extent (mb_type m); user = mb_user m in
     andThen (on_stage (
       andThen (create_serializer fresh user d) (\<lambda>sr.
       andThen getS (\<lambda>s.
       andThen (liftO (copy_data d sr (sn_buf s) (load_obj h (dr_data user)))) (\<lambda>bytes.
       modS (\<lambda>s. s\<lparr>sn_buf := put_data bytes (sn_buf s)\<rparr>))))))
     (\<lambda>_. on_stage (
       andThen getS (\<lambda>s.
       andThen (assertS (es \<noteq> 0 \<and> db_size (sn_buf s) mod es = 0)) (\<lambda>_.
       andThen (assertS (db_size (sn_buf s) \<le> dr_size user)) (\<lambda>_.
       andThen (liftO (subset_bounded d (sz_sub (db_size (sn_buf s) div es) 1))) (\<lambda>b.
       snap_do (add_and_fit fresh b))))))))))"

text \<open>Takes over a buffer of the user's, which must hold the bytes it is said to hold.\<close>

definition stage_inplace :: "(nat \<Rightarrow> byte list) \<Rightarrow> heap \<Rightarrow> ptr \<Rightarrow> data_subset \<Rightarrow> (member, unit) comp" where
  "stage_inplace fresh h p d =
     andThen (not_prestaged d) (\<lambda>_.
     andThen getS (\<lambda>m.
     andThen (liftO (subset_is_bounded d)) (\<lambda>bd.
     andThen (throwIf (\<not> ref_is_bounded (mb_user m) \<and> \<not> bd) FENIX_ERROR_NOCATEGORY) (\<lambda>_.
     andThen (liftO (elm_count m)) (\<lambda>count.
     andThen (liftO (subset_max_count d)) (\<lambda>mc.
     (let count = (if bd \<and> size_of_int count > mc then int_of_size mc else count) in
      on_stage (
        andThen getS (\<lambda>s. (let n = size_of_int (i32 (count * int (sn_elm_size s))) in
        andThen (assertS (n \<le> length (load_obj h p))) (\<lambda>_.
        andThen (modS (\<lambda>s. s\<lparr>sn_buf := take_ownership (take n (load_obj h p)) (sn_buf s)\<rparr>)) (\<lambda>_.
        andThen (liftO (subset_bounded d (size_of_int (i32 (count - 1))))) (\<lambda>b.
        snap_do (add_and_fit fresh b))))))))))))))"

text \<open>
  \<open>stage_begin\<close> opens a stream on the emptied staging buffer; the user writes to it;
  \<open>stage_end\<close> closes it and stages every element that is in the buffer.  An unbounded member
  has a stream that grows, a bounded one writes over the buffer itself.
\<close>

definition stage_begin :: "(nat \<Rightarrow> byte list) \<Rightarrow> (member, unit) comp" where
  "stage_begin fresh =
     andThen (on_stage (snap_do (snap_resize fresh 0))) (\<lambda>_.
     andThen getS (\<lambda>m.
     andThen (if ref_is_bounded (mb_user m)
              then andThen (on_stage (create_serializer fresh (mb_user m) subset_full)) (\<lambda>_. ret ())
              else ret ()) (\<lambda>_.
     modS (\<lambda>m. m\<lparr>mb_open := Some \<lparr>os_dir = Serialize, os_dynamic = (\<not> ref_is_bounded (mb_user m)),
       os_bytes = []\<rparr>\<rparr>))))"

definition stream_write :: "byte list \<Rightarrow> (member, unit) comp" where
  "stream_write xs =
     andThen getS (\<lambda>m. (case mb_open m of
       None \<Rightarrow> fail Abort
     | Some o' \<Rightarrow>
         if os_dynamic o' then modS (\<lambda>m. m\<lparr>mb_open := Some (o'\<lparr>os_bytes := os_bytes o' @ xs\<rparr>)\<rparr>)
         else on_stage (
           andThen getS (\<lambda>s. (let k = length (os_bytes o') in
           andThen (assertS (k + length xs \<le> db_size (sn_buf s))) (\<lambda>_.
           modS (\<lambda>s. s\<lparr>sn_buf := put_data (take k (db_data (sn_buf s)) @ xs
             @ drop (k + length xs) (db_data (sn_buf s))) (sn_buf s)\<rparr>)))))))"

definition stage_end :: "(nat \<Rightarrow> byte list) \<Rightarrow> (member, unit) comp" where
  "stage_end fresh =
     andThen getS (\<lambda>m. (case mb_open m of
       None \<Rightarrow> fail (Throw FENIX_ERROR_INVALID_LOGIC_CALL)
     | Some o' \<Rightarrow>
         andThen (throwIf (os_dir o' \<noteq> Serialize) FENIX_ERROR_MEMBER_LOADING) (\<lambda>_.
         andThen (modS (\<lambda>m. m\<lparr>mb_open := None\<rparr>)) (\<lambda>_.
         on_stage (
           andThen (modS (\<lambda>s. if os_dynamic o'
             then s\<lparr>sn_buf := take_ownership (os_bytes o') (sn_buf s)\<rparr> else s)) (\<lambda>_.
           andThen getS (\<lambda>s. (let es = mt_extent (mb_type m) in
           andThen (assertS (es \<noteq> 0 \<and> db_size (sn_buf s) mod es = 0)) (\<lambda>_.
           andThen (liftO (subset_block (0, sz_sub (db_size (sn_buf s) div es) 1))) (\<lambda>d.
           snap_do (add_and_fit fresh d)))))))))))"

section \<open>Looking up and loading\<close>

text \<open>\<open>FENIX_DATA_SNAPSHOT_LATEST\<close>, \<open>FENIX_DATA_SNAPSHOT_ALL\<close>, \<open>FENIX_DATA_RESTORE_FULL\<close>.\<close>

definition SNAPSHOT_LATEST :: int where
  "SNAPSHOT_LATEST = -1"

definition SNAPSHOT_ALL :: int where
  "SNAPSHOT_ALL = -2"

definition RESTORE_FULL :: int where
  "RESTORE_FULL = INT32_MAX"

definition search_snapshot :: "member \<Rightarrow> int \<Rightarrow> failure + snapshot option" where
  "search_snapshot m ts =
     (if ts = SNAPSHOT_LATEST then Inr (if mb_commits m = [] then None else Some (last (mb_commits m)))
      else if ts < 0 then Inl (Throw FENIX_ERROR_INVALID_TIMESTAMP)
      else Inr (commit_find ts (mb_commits m)))"

definition find_snapshot :: "member \<Rightarrow> int \<Rightarrow> failure + snapshot" where
  "find_snapshot m ts = (case search_snapshot m ts of
       Inl e \<Rightarrow> Inl e
     | Inr None \<Rightarrow> Inl (Throw FENIX_ERROR_NODATA_FOUND)
     | Inr (Some s) \<Rightarrow> Inr s)"

text \<open>What a load changes: user memory and the caller's \<open>data_found\<close>.\<close>

record load_state =
  ls_heap :: heap
  ls_found :: data_subset

text \<open>One copy out of a snapshot.\<close>

definition copy_out :: "snapshot \<Rightarrow> data_ref \<Rightarrow> data_subset \<Rightarrow> (load_state, unit) comp" where
  "copy_out s dst d =
     andThen (liftO (create_deserializer s dst)) (\<lambda>sr.
     andThen getS (\<lambda>l.
     andThen (liftO (copy_data d sr (sn_buf s) (load_obj (ls_heap l) (dr_data dst)))) (\<lambda>bytes.
     modS (\<lambda>l. l\<lparr>ls_heap := store_obj (dr_data dst) bytes (ls_heap l)\<rparr>))))"

text \<open>The loop of \<open>FENIX_DATA_SNAPSHOT_ALL\<close>, over the snapshots from newest to oldest.\<close>

fun load_all :: "data_ref \<Rightarrow> int \<Rightarrow> snapshot list \<Rightarrow> (load_state, unit) comp" where
  "load_all dst count [] = ret ()"
| "load_all dst count (s # older) =
     andThen (assertS (sn_timestamp s \<ge> 0)) (\<lambda>_.
     andThen (liftO (protected_subset s)) (\<lambda>prot.
     andThen (if count > 0 then
         andThen getS (\<lambda>l.
         andThen (liftO (subset_diff prot (ls_found l))) (\<lambda>partial. copy_out s dst partial))
       else ret ()) (\<lambda>_.
     andThen getS (\<lambda>l.
     andThen (liftO (subset_union (ls_found l) prot)) (\<lambda>found.
     andThen (modS (\<lambda>l. l\<lparr>ls_found := found\<rparr>)) (\<lambda>_.
     andThen (if count > 0 then liftO (subset_includes_all found (size_of_int (i32 (count - 1)))) else ret False) (\<lambda>done.
     if done then ret () else load_all dst count older)))))))"

definition load_target :: "member \<Rightarrow> ptr \<Rightarrow> int \<Rightarrow> data_ref" where
  "load_target m target count =
     (let dst = \<lparr>dr_data = target, dr_size = size_of_int (i32 (count * int (mt_extent (mb_type m))))\<rparr>;
          dst = (if target = Null then dst\<lparr>dr_data := dr_data (mb_user m)\<rparr> else dst)
      in if count = RESTORE_FULL then unbounded_ref (dr_data dst) else dst)"

definition member_load :: "member \<Rightarrow> ptr \<Rightarrow> int \<Rightarrow> int \<Rightarrow> (load_state, unit) comp" where
  "member_load m target count ts =
     (let dst = load_target m target count in
      andThen (if ts \<noteq> SNAPSHOT_ALL then
          andThen (liftE (find_snapshot m ts)) (\<lambda>s.
          andThen (liftO (protected_subset s)) (\<lambda>prot.
          andThen (modS (\<lambda>l. l\<lparr>ls_found := prot\<rparr>)) (\<lambda>_.
          if count > 0 then copy_out s dst prot else ret ())))
        else
          andThen (throwIf (mb_commits m = []) FENIX_ERROR_NODATA_FOUND) (\<lambda>_.
          andThen (modS (\<lambda>l. l\<lparr>ls_found := empty_subset\<rparr>)) (\<lambda>_.
          load_all dst count (rev (mb_commits m))))) (\<lambda>_.
      andThen getS (\<lambda>l.
      andThen (if count = RESTORE_FULL then liftO (map_option int_of_size (subset_max_count (ls_found l)))
               else ret count) (\<lambda>n.
      andThen (if n > 0 then liftO (subset_includes_all (ls_found l) (size_of_int (i32 (n - 1)))) else ret True) (\<lambda>full.
      throwIf (\<not> full) FENIX_WARNING_PARTIAL_RESTORE)))))"

definition load_begin :: "int \<Rightarrow> (member, data_subset) comp" where
  "load_begin ts =
     andThen getS (\<lambda>m.
     andThen (liftE (find_snapshot m ts)) (\<lambda>s.
     andThen (liftO (protected_subset s)) (\<lambda>prot.
     andThen (liftO (create_deserializer s (unbounded_ref Null))) (\<lambda>_.
     andThen (modS (\<lambda>m. m\<lparr>mb_open := Some \<lparr>os_dir = Deserialize, os_dynamic = False, os_bytes = db_data (sn_buf s)\<rparr>\<rparr>)) (\<lambda>_.
     ret prot)))))"

definition load_end :: "(member, unit) comp" where
  "load_end =
     andThen getS (\<lambda>m. (case mb_open m of
       None \<Rightarrow> fail (Throw FENIX_ERROR_INVALID_LOGIC_CALL)
     | Some o' \<Rightarrow>
         andThen (throwIf (os_dir o' \<noteq> Deserialize) FENIX_ERROR_MEMBER_STAGING) (\<lambda>_.
         modS (\<lambda>m. m\<lparr>mb_open := None\<rparr>))))"

end
