(* ===== verification/Member_Store.thy ===== *)
theory Member_Store
  imports Member
begin

text \<open>
  \<open>fenix::data::DataMember\<close>, second part (src/data/member.cpp): storing, committing, deleting
  snapshots, the attributes, and the exchange of subsets within a cohort.
\<close>

section \<open>Storing\<close>

text \<open>\<open>iprotect\<close> of the base class: staged data becomes protected, without redundancy.\<close>

fun protect_all :: "data_subset list \<Rightarrow> data_subset list \<Rightarrow> data_subset list option" where
  "protect_all [] st = Some []"
| "protect_all (p # ps) [] = None"
| "protect_all (p # ps) (s # st) = do {
     q \<leftarrow> subset_union p s;
     qs \<leftarrow> protect_all ps st;
     Some (q # qs)
   }"

definition iprotect :: "snapshot \<Rightarrow> snapshot option" where
  "iprotect s = do {
     ps \<leftarrow> protect_all (sn_protected s) (sn_staged s);
     Some (s\<lparr>sn_protected := ps,
       sn_staged := replicate (length ps) empty_subset @ drop (length ps) (sn_staged s)\<rparr>)
   }"

definition unless_prestaged :: "data_subset \<Rightarrow> ('s, unit) comp \<Rightarrow> ('s, unit) comp" where
  "unless_prestaged d c = andThen (liftO (subset_equal d subset_prestaged))
     (\<lambda>pre. if \<not> pre then c else ret ())"

text \<open>\<open>istore\<close>: every cohort member is taken to have staged what this rank has.\<close>

definition same_for_all :: "snapshot \<Rightarrow> snapshot option" where
  "same_for_all s =
     (if \<forall>i < length (sn_staged s). int i = sn_rank s then Some s
      else do {
        own \<leftarrow> staged_subset s;
        Some (s\<lparr>sn_staged := map (\<lambda>_. own) (sn_staged s)\<rparr>)
      })"

definition member_store :: "(nat \<Rightarrow> byte list) \<Rightarrow> heap \<Rightarrow> data_subset \<Rightarrow> (member, fenix_code) comp" where
  "member_store fresh h d =
     andThen (unless_prestaged d (member_stage fresh h d)) (\<lambda>_.
     andThen (on_stage (snap_do same_for_all)) (\<lambda>_.
     andThen (on_stage (snap_do iprotect)) (\<lambda>_.
     ret FENIX_SUCCESS)))"

text \<open>
  \<open>exchange_subsets\<close>.  The collectives of the cohort communicator are parameters:
  \<open>allgather\<close> of one \<open>int\<close>, \<open>allgatherv\<close> of bytes; either may be interrupted.
\<close>

record collectives =
  co_allgather :: "int \<Rightarrow> failure + int list"
  co_allgatherv :: "byte list \<Rightarrow> failure + byte list"

fun displs :: "int \<Rightarrow> int list \<Rightarrow> int list" where
  "displs pos [] = []"
| "displs pos (n # ns) = pos # displs (i32 (pos + n)) ns"

fun split_subsets :: "byte list \<Rightarrow> (int \<times> int) list \<Rightarrow> data_subset list option" where
  "split_subsets buf [] = Some []"
| "split_subsets buf ((pos, n) # rest) = do {
     fenix_assert (0 \<le> n \<and> 0 \<le> pos \<and> nat (pos + n) \<le> length buf);
     d \<leftarrow> subset_deserialize (take (nat n) (drop (nat pos) buf));
     ds \<leftarrow> split_subsets buf rest;
     Some (d # ds)
   }"

definition exchange_subsets :: "collectives \<Rightarrow> comm \<Rightarrow> data_subset list \<Rightarrow> failure + data_subset list" where
  "exchange_subsets co c subsets =
     (if length subsets \<noteq> comm_size c \<or> \<not> cm_rank c < length subsets then Inl Abort
      else let send_buf = subset_serialize (subsets ! cm_rank c) in
        (case co_allgather co (int_of_size (length send_buf)) of
           Inl e \<Rightarrow> Inl e
         | Inr sizes \<Rightarrow>
             (case co_allgatherv co send_buf of
                Inl e \<Rightarrow> Inl e
              | Inr recv_buf \<Rightarrow>
                  (case split_subsets recv_buf (zip (displs 0 sizes) sizes) of
                     None \<Rightarrow> Inl Abort
                   | Some ds \<Rightarrow> Inr ds))))"

definition member_storev ::
  "(nat \<Rightarrow> byte list) \<Rightarrow> collectives \<Rightarrow> comm \<Rightarrow> heap \<Rightarrow> data_subset \<Rightarrow> (member, fenix_code) comp" where
  "member_storev fresh co c h d =
     andThen (unless_prestaged d (member_stage fresh h d)) (\<lambda>_.
     andThen (on_stage (
       andThen getS (\<lambda>s.
       andThen (liftE (exchange_subsets co c (sn_staged s))) (\<lambda>ds.
       modS (\<lambda>s. s\<lparr>sn_staged := ds\<rparr>))))) (\<lambda>_.
     andThen (on_stage (snap_do iprotect)) (\<lambda>_.
     ret FENIX_SUCCESS)))"

text \<open>\<open>broadcast_subsets\<close>: what the root packs and what every rank unpacks.\<close>

definition pack_subset :: "data_subset \<Rightarrow> byte list" where
  "pack_subset d = (let b = subset_serialize d in int_bytes (int_of_size (length b)) @ b)"

definition pack_subsets :: "data_subset list \<Rightarrow> byte list" where
  "pack_subsets ds = int_bytes (int_of_size (length ds)) @ concat (map pack_subset ds)"

fun unpack_subsets :: "nat \<Rightarrow> byte list \<Rightarrow> data_subset list option" where
  "unpack_subsets 0 buf = Some []"
| "unpack_subsets (Suc k) buf = do {
     fenix_assert (4 \<le> length buf \<and> 0 \<le> bytes_int buf \<and> 4 + nat (bytes_int buf) \<le> length buf);
     d \<leftarrow> subset_deserialize (take (nat (bytes_int buf)) (drop 4 buf));
     ds \<leftarrow> unpack_subsets k (drop (4 + nat (bytes_int buf)) buf);
     Some (d # ds)
   }"

definition broadcast_subsets :: "(byte list \<Rightarrow> failure + byte list) \<Rightarrow> bool \<Rightarrow> data_subset list \<Rightarrow> failure + data_subset list" where
  "broadcast_subsets bcast is_root input =
     (case bcast (if is_root then pack_subsets input else []) of
        Inl e \<Rightarrow> Inl e
      | Inr buf \<Rightarrow>
          (if length buf < 4 \<or> bytes_int buf < 0 then Inl Abort
           else (case unpack_subsets (nat (bytes_int buf)) (drop 4 buf) of
               None \<Rightarrow> Inl Abort
             | Some ds \<Rightarrow> Inr ds)))"

section \<open>Committing and deleting\<close>

definition snapshot_delete_at :: "(nat \<Rightarrow> byte list) \<Rightarrow> int \<Rightarrow> member \<Rightarrow> member" where
  "snapshot_delete_at fresh ts m =
     (case commit_find ts (mb_commits m) of
        None \<Rightarrow> m
      | Some s \<Rightarrow> m\<lparr>mb_commits := commit_erase ts (mb_commits m),
                   mb_avail := mb_avail m @ [snap_reset fresh s]\<rparr>)"

text \<open>The \<open>int\<close> \<open>depth_ + 1\<close> is compared with the size of the set as a \<open>size_t\<close>.\<close>

definition trim_commits :: "(nat \<Rightarrow> byte list) \<Rightarrow> member \<Rightarrow> member" where
  "trim_commits fresh m =
     (if length (mb_commits m) > size_of_int (i32 (mb_depth m + 1))
      then snapshot_delete_at fresh (sn_timestamp (hd (mb_commits m))) m else m)"

definition next_stage :: "(nat \<Rightarrow> byte list) \<Rightarrow> comm \<Rightarrow> member \<Rightarrow> member option" where
  "next_stage fresh c m =
     (if mb_avail m \<noteq> []
      then Some (m\<lparr>mb_stage := Some (init_cohort c (last (mb_avail m))), mb_avail := butlast (mb_avail m)\<rparr>)
      else do {
        s \<leftarrow> create_snapshot fresh m;
        Some (m\<lparr>mb_stage := Some (init_cohort c s)\<rparr>)
      })"

definition member_commit :: "(nat \<Rightarrow> byte list) \<Rightarrow> comm \<Rightarrow> int \<Rightarrow> member \<Rightarrow> member option" where
  "member_commit fresh c ts m = do {
     s \<leftarrow> mb_stage m;
     st \<leftarrow> staged_subset s;
     eq \<leftarrow> subset_equal st empty_subset;
     fenix_assert eq;
     (let m = m\<lparr>mb_stage := None, mb_commits := commit_insert (s\<lparr>sn_timestamp := ts\<rparr>) (mb_commits m)\<rparr>
      in next_stage fresh c (trim_commits fresh m))
   }"

definition has_unstored_data :: "member \<Rightarrow> bool option" where
  "has_unstored_data m = (case mb_stage m of
       None \<Rightarrow> Some False
     | Some s \<Rightarrow> do { st \<leftarrow> staged_subset s; eq \<leftarrow> subset_equal st empty_subset; Some (\<not> eq) })"

definition cleanup_timestamps :: "(nat \<Rightarrow> byte list) \<Rightarrow> int list \<Rightarrow> member \<Rightarrow> member" where
  "cleanup_timestamps fresh valid m =
     m\<lparr>mb_commits := filter (\<lambda>s. sn_timestamp s \<in> set valid) (mb_commits m),
       mb_avail := mb_avail m @ map (snap_reset fresh) (filter (\<lambda>s. sn_timestamp s \<notin> set valid) (mb_commits m))\<rparr>"

section \<open>Attributes\<close>

text \<open>The value that comes with an attribute name, by the name.\<close>

datatype attr_value = BufferAttr ptr | CountAttr int | TypeAttr mpi_type | SizeAttr nat | OtherAttr int

definition member_in_use :: "member \<Rightarrow> bool option" where
  "member_in_use m =
     (if mb_commits m \<noteq> [] then Some True
      else do {
        s \<leftarrow> mb_stage m;
        st \<leftarrow> staged_subset s;
        eq \<leftarrow> subset_equal st empty_subset;
        if \<not> eq then Some True
        else do { pr \<leftarrow> protected_subset s; eq \<leftarrow> subset_equal pr empty_subset; Some (\<not> eq) }
      })"

definition attr_set :: "attr_value \<Rightarrow> (member, unit) comp" where
  "attr_set v =
     andThen getS (\<lambda>m. (case v of
       BufferAttr p \<Rightarrow> modS (\<lambda>m. m\<lparr>mb_user := \<lparr>dr_data = p, dr_size = dr_size (mb_user m)\<rparr>\<rparr>)
     | CountAttr new_count \<Rightarrow>
         andThen (liftO (elm_count m)) (\<lambda>c.
         andThen (if new_count \<noteq> c then liftO (member_in_use m) else ret False) (\<lambda>used.
         andThen (throwIf used FENIX_ERROR_INVALID_LOGIC_CALL) (\<lambda>_.
         modS (\<lambda>m. m\<lparr>mb_user := (if new_count = 0 then unbounded_ref (dr_data (mb_user m))
           else \<lparr>dr_data = dr_data (mb_user m),
                 dr_size = sz_mul (size_of_int new_count) (mt_extent (mb_type m))\<rparr>)\<rparr>))))
     | TypeAttr dt \<Rightarrow>
         andThen (if mt_size dt \<noteq> mt_extent (mb_type m) then liftO (member_in_use m) else ret False) (\<lambda>used.
         andThen (throwIf used FENIX_ERROR_INVALID_LOGIC_CALL) (\<lambda>_.
         andThen (liftO (elm_count m)) (\<lambda>old_count.
         andThen (modS (\<lambda>m. m\<lparr>mb_type := dt\<rparr>)) (\<lambda>_.
         andThen (modS (\<lambda>m. if ref_is_bounded (mb_user m)
           then m\<lparr>mb_user := \<lparr>dr_data = dr_data (mb_user m),
                 dr_size = size_of_int (i32 (old_count * int (mt_size dt)))\<rparr>\<rparr> else m)) (\<lambda>_.
         andThen (on_stage (modS (\<lambda>s. s\<lparr>sn_elm_size := mt_size dt\<rparr>))) (\<lambda>_.
         modS (\<lambda>m. m\<lparr>mb_avail := map (\<lambda>s. s\<lparr>sn_elm_size := mt_size dt\<rparr>) (mb_avail m)\<rparr>)))))))
     | _ \<Rightarrow> fail (Throw FENIX_ERROR_INVALID_ATTRIBUTE_NAME)))"

text \<open>\<open>attr_get\<close>, given the number of the attribute.\<close>

definition attr_get :: "int \<Rightarrow> member \<Rightarrow> failure + attr_value" where
  "attr_get a m =
     (if a = 11 then Inr (BufferAttr (dr_data (mb_user m)))
      else if a = 12 then (case elm_count m of None \<Rightarrow> Inl Abort | Some c \<Rightarrow> Inr (CountAttr c))
      else if a = 13 then Inr (TypeAttr (mb_type m))
      else if a = 14 then Inr (SizeAttr (dr_size (mb_user m)))
      else Inl (Throw FENIX_ERROR_INVALID_ATTRIBUTE_NAME))"

end
