(* ===== verification/Snapshot_Facts.thy ===== *)
theory Snapshot_Facts
  imports Member_Store
begin

text \<open>
  Staging and protecting data in a snapshot (src/data/snapshot.cpp, src/data/member.cpp), for
  a member with a fixed number of elements.
\<close>

section \<open>Queries on basic subsets\<close>

lemma basic_queries [simp]:
  "subset_empty (basic_subset R) = Some (R = [])"
  "subset_is_bounded (basic_subset R) = Some (R = [] \<or> regions_end R \<noteq> SIZE_MAX)"
  "subset_max_count (basic_subset R) = Some (sz_add (regions_end R) 1)"
  "subset_equal (basic_subset R) subset_prestaged = Some False"
  by (simp_all add: subset_empty_def subset_is_bounded_def subset_end_def subset_max_count_def
      subset_equal_def subset_prestaged_def is_basic_def basic_subset_def)

lemma regions_end_Nil [simp]: "regions_end [] = SIZE_MAX"
  by (simp add: regions_end_def)

lemma subset_equal_empty:
  assumes "regions_ok s R"
  shows "subset_equal (basic_subset R) empty_subset = Some (R = [])"
  using subset_equal_regions [OF assms, of "[]"] regions_empty_iff [OF assms] by (simp add: empty_subset_def)

lemma empty_subset_ok [simp]: "subset_ok s empty_subset" "subset_elems empty_subset = {}"
  by (simp_all add: subset_ok_def subset_elems_def empty_subset_def)

lemma subset_ok_basic: "subset_ok s d \<Longrightarrow> d = basic_subset (ss_regions d) \<and> regions_ok s (ss_regions d)"
  using basic_subset_eta by (auto simp: subset_ok_def)

section \<open>The serializer of a stage\<close>

text \<open>
  How much of a member of \<open>n\<close> elements a subset can touch: \<open>create_serializer\<close> bounds the
  user buffer by the last index of the subset.
\<close>

definition touched :: "nat \<Rightarrow> data_region list \<Rightarrow> nat" where
  "touched n R = (if R = [] then 0 else if regions_end R = SIZE_MAX then n else min n (regions_end R + 1))"

lemma touched_le: "touched n R \<le> n"
  by (simp add: touched_def)

lemma touched_pos: "R \<noteq> [] \<Longrightarrow> 0 < n \<Longrightarrow> 0 < touched n R"
  by (simp add: touched_def)

lemma touched_0: "0 < n \<Longrightarrow> touched n R = 0 \<longleftrightarrow> R = []"
  by (simp add: touched_def)

lemma touched_elems:
  assumes "regions_ok s R"
  shows "regions_elems R \<inter> {..<n} = regions_elems R \<inter> {..<touched n R}"
proof (cases "R = []")
  case False
  have "x < touched n R" if "x \<in> regions_elems R" "x < n" for x
    using regions_le_end [OF assms that(1)] that(2) False by (simp add: touched_def)
  then show ?thesis using touched_le [of n R] by auto
qed simp

lemma touched_between:
  assumes "regions_ok s R" "touched n R \<le> q" "q \<le> n"
  shows "regions_elems R \<inter> {..<q} = regions_elems R \<inter> {..<n}"
proof -
  have "regions_elems R \<inter> {..<touched n R} \<subseteq> regions_elems R \<inter> {..<q}" using assms(2) by auto
  moreover have "regions_elems R \<inter> {..<q} \<subseteq> regions_elems R \<inter> {..<n}" using assms(3) by auto
  ultimately show ?thesis using touched_elems [OF assms(1), of n] by blast
qed

text \<open>The last index is small enough for its product with the element size, or unbounded.\<close>

definition end_fits :: "nat \<Rightarrow> data_region list \<Rightarrow> bool" where
  "end_fits es R \<longleftrightarrow> R = [] \<or> regions_end R = SIZE_MAX \<or> (regions_end R + 1) * es \<le> SIZE_MAX"

lemma end_mul:
  assumes "end_fits es R" "R \<noteq> []" "regions_end R \<noteq> SIZE_MAX" "0 < es"
  shows "sz_mul (sz_add (regions_end R) 1) es = (regions_end R + 1) * es"
proof -
  have le: "(regions_end R + 1) * es \<le> SIZE_MAX" using assms by (simp add: end_fits_def)
  have "(regions_end R + 1) * 1 \<le> (regions_end R + 1) * es" using assms(4) by (intro mult_le_mono2) simp
  then have "regions_end R + 1 \<le> SIZE_MAX" using le unfolding mult_1_right by (rule order_trans)
  then show ?thesis using le by (simp add: sz_add_exact sz_mul_exact)
qed

lemma source_bound:
  assumes "end_fits es R" "0 < es" "0 < n" "n * es \<le> INT_MAX" "dr_size src = n * es"
  shows "(if R = [] \<or> regions_end R \<noteq> SIZE_MAX
      then ref_bounded src (sz_mul (sz_add (regions_end R) 1) es) else src)
    = src\<lparr>dr_size := touched n R * es\<rparr>"
proof (cases "R = [] \<or> regions_end R = SIZE_MAX")
  case True
  then show ?thesis using assms by (auto simp: ref_bounded_def touched_def)
next
  case False
  then have m: "sz_mul (sz_add (regions_end R) 1) es = (regions_end R + 1) * es"
    using end_mul [OF assms(1) _ _ assms(2)] by simp
  have "(regions_end R + 1) * es < n * es \<longleftrightarrow> regions_end R + 1 < n" using assms(2) mult_less_cancel2 [of "regions_end R + 1" es n] by blast
  then show ?thesis using False assms(5) unfolding ref_bounded_def m
    by (cases "regions_end R + 1 < n") (simp_all add: touched_def min_def)
qed

text \<open>The buffer after \<open>create_serializer\<close>.\<close>

definition grow :: "(nat \<Rightarrow> byte list) \<Rightarrow> nat \<Rightarrow> data_buffer \<Rightarrow> data_buffer" where
  "grow fresh n b = (if db_size b < n then resize fresh n b else b)"

lemma grow_ok: "malloc_ok fresh \<Longrightarrow> db_ok b \<Longrightarrow> db_ok (grow fresh n b)"
  by (simp add: grow_def resize_ok)

lemma grow_size [simp]: "db_size (grow fresh n b) = max n (db_size b)"
  by (simp add: grow_def)

lemma grow_nth:
  assumes "malloc_ok fresh" "db_ok b" "i < db_size b"
  shows "db_data (grow fresh n b) ! i = db_data b ! i"
  using resize_bytes [OF assms(1,2,3)] assms(3) by (simp add: grow_def)

lemma create_serializer_eq:
  assumes R: "end_fits es R" and n: "0 < es" "0 < n" "n * es \<le> INT_MAX"
    and src: "dr_size src = n * es" and s: "sn_elm_size s = es" "db_size (sn_buf s) mod es = 0"
  shows "create_serializer fresh src (basic_subset R) s =
    (Inr \<lparr>sr_user = src\<lparr>dr_size := touched n R * es\<rparr>, sr_dir = Serialize, sr_dynamic = False, sr_elm_size = es\<rparr>,
     s\<lparr>sn_buf := grow fresh (touched n R * es) (sn_buf s)\<rparr>)"
proof -
  let ?k = "touched n R * es" and ?b = "grow fresh (touched n R * es) (sn_buf s)"
  have "?k \<le> n * es" using touched_le by simp
  then have kI: "?k \<le> IDX_MAX" "?k \<noteq> SIZE_MAX" using n(3) INT_MAX_lt by linarith+
  have bound: "ref_is_bounded (src\<lparr>dr_size := ?k\<rparr>)" using kI(2) by (simp add: ref_is_bounded_def)
  have md: "max ?k (db_size (sn_buf s)) mod es = 0" using s(2) by (simp add: max_def)
  have ser: "mk_serializer ?b (src\<lparr>dr_size := ?k\<rparr>) Serialize es
      = Some \<lparr>sr_user = src\<lparr>dr_size := ?k\<rparr>, sr_dir = Serialize, sr_dynamic = False, sr_elm_size = es\<rparr>"
    using bound md n(1) by (simp add: mk_serializer_def serializer_size_def min_def)
  have res: "snap_resize fresh ?k s = Some (s\<lparr>sn_buf := resize fresh ?k (sn_buf s)\<rparr>)"
    using kI(1) by (simp add: snap_resize_def)
  note out = source_bound [OF R n src]
  note run = create_serializer_def comp basic_queries sum.case prod.case s(1) out Let_def simp_thms if_False if_True
  show ?thesis
  proof (cases "db_size (sn_buf s) < ?k")
    case True
    then have b: "?b = resize fresh ?k (sn_buf s)" by (simp add: grow_def)
    show ?thesis using ser res bound True unfolding run b using s(1) by (simp add: comp)
  next
    case False
    then have b: "?b = sn_buf s" by (simp add: grow_def)
    have "s\<lparr>sn_buf := sn_buf s\<rparr> = s" by simp
    then show ?thesis using ser bound False unfolding run b using s(1) by (simp add: comp)
  qed
qed

section \<open>Fitting a subset\<close>

lemma regions_end_lt: "regions_ok s R \<Longrightarrow> R \<noteq> [] \<Longrightarrow> regions_elems R \<subseteq> {..<n} \<Longrightarrow> regions_end R < n"
  using regions_end_in by blast

lemma union_own:
  assumes "regions_ok s A" "regions_ok s B"
  obtains U where "subset_union (basic_subset A) (basic_subset B) = Some (basic_subset U)" "regions_ok s U"
    "regions_elems U = regions_elems A \<union> regions_elems B"
  using union_regions_correct [OF assms] by metis

lemma fixed_count:
  assumes "0 < n" "n * es \<le> INT_MAX" "0 < es"
  shows "size_of_int (i32 (int n - 1)) = n - 1" "size_of_int (i32 (int n * int es)) = n * es" "n \<le> INT_MAX"
proof -
  have "n * 1 \<le> n * es" using assms(3) by (intro mult_le_mono2) simp
  then show n: "n \<le> INT_MAX" using assms(2) unfolding mult_1_right by (rule order_trans)
  have e: "int n - 1 = int (n - 1)" "int n * int es = int (n * es)" using assms(1) by simp_all
  have size: "size_of_int (i32 (int m)) = m" if "m \<le> INT_MAX" for m
    using that INT_MAX_32 by (simp add: i32_exact size_of_int_exact)
  show "size_of_int (i32 (int n - 1)) = n - 1" unfolding e using n by (intro size) simp
  show "size_of_int (i32 (int n * int es)) = n * es" unfolding e by (rule size [OF assms(2)])
qed

lemma subset_bound_same:
  assumes "regions_ok s R" "regions_elems R \<subseteq> {..<n}" "0 < n"
  shows "subset_bound (basic_subset R) (n - 1) = Some (basic_subset R)"
proof (cases "R = []")
  case False
  then have "regions_end R \<le> n - 1" using regions_end_lt [OF assms(1) False assms(2)] by simp
  then show ?thesis by (simp add: subset_bound_def subset_end_def)
qed (simp add: subset_bound_def)

lemma set_staged_sel [simp]:
  "sn_buf (set_staged d s) = sn_buf s" "sn_elm_size (set_staged d s) = sn_elm_size s"
  "sn_max_count (set_staged d s) = sn_max_count s" "sn_rank (set_staged d s) = sn_rank s"
  "sn_protected (set_staged d s) = sn_protected s" "sn_timestamp (set_staged d s) = sn_timestamp s"
  "sn_cohort (set_staged d s) = sn_cohort s" "sn_staged (set_staged d s) = (sn_staged s)[nat (sn_rank s) := d]"
  by (simp_all add: set_staged_def)

lemma add_and_fit_union:
  assumes n: "0 < es" "0 < n" "n * es \<le> INT_MAX" and s: "sn_elm_size s = es" "sn_max_count s = int n"
    and A: "staged_subset s = Some (basic_subset A)" "regions_ok st A" "regions_elems A \<subseteq> {..<n}"
    and B: "regions_elems B \<subseteq> {..<n}"
    and U: "subset_union (basic_subset A) (basic_subset B) = Some (basic_subset U)" "regions_ok st U"
      "regions_elems U = regions_elems A \<union> regions_elems B"
  shows "add_and_fit fresh (basic_subset B) s
    = Some ((set_staged (basic_subset U) s)\<lparr>sn_buf := grow fresh (n * es) (sn_buf s)\<rparr>)"
proof -
  have sub: "regions_elems U \<subseteq> {..<n}" using U(3) A(3) B by simp
  note c = fixed_count [OF n(2,3,1)]
  have max0: "0 < sz_add (regions_end A) 1 \<or> A = []"
  proof (cases "A = []")
    case False
    then have "regions_end A < n" by (rule regions_end_lt [OF A(2) _ A(3)])
    then have "regions_end A + 1 \<le> SIZE_MAX" using c(3) INT_MAX_lt(2) by linarith
    then show ?thesis by (simp add: sz_add_exact)
  qed simp
  have bound: "subset_bound (basic_subset U) (size_of_int (i32 (sn_max_count s - 1))) = Some (basic_subset U)"
    unfolding s(2) c(1) by (rule subset_bound_same [OF U(2) sub n(2)])
  have ne: "sn_max_count s \<noteq> 0" using s(2) n(2) by simp
  have nI: "n * es \<le> IDX_MAX" using n(3) INT_MAX_lt(1) by linarith
  have res: "(if n * es > db_size (sn_buf (set_staged (basic_subset U) s))
      then snap_resize fresh (n * es) (set_staged (basic_subset U) s)
      else Some (set_staged (basic_subset U) s))
    = Some ((set_staged (basic_subset U) s)\<lparr>sn_buf := grow fresh (n * es) (sn_buf s)\<rparr>)"
    using nI by (simp add: snap_resize_def grow_def)
  show ?thesis
    using A(1) max0 U(1) bound ne res s c(2)
    by (simp add: add_and_fit_def fenix_assert_bind Let_def split: if_splits)
qed

lemma add_and_fit_eq:
  assumes n: "0 < es" "0 < n" "n * es \<le> INT_MAX" and s: "sn_elm_size s = es" "sn_max_count s = int n"
    and A: "staged_subset s = Some (basic_subset A)" "regions_ok st A" "regions_elems A \<subseteq> {..<n}"
    and B: "regions_ok st B" "regions_elems B \<subseteq> {..<n}"
  obtains U where "add_and_fit fresh (basic_subset B) s
      = Some ((set_staged (basic_subset U) s)\<lparr>sn_buf := grow fresh (n * es) (sn_buf s)\<rparr>)"
    "regions_ok st U" "regions_elems U = regions_elems A \<union> regions_elems B"
proof -
  obtain U where U: "subset_union (basic_subset A) (basic_subset B) = Some (basic_subset U)" "regions_ok st U"
    "regions_elems U = regions_elems A \<union> regions_elems B" by (rule union_own [OF A(2) B(1)])
  show ?thesis by (rule that [OF add_and_fit_union [OF n s A B(2) U] U(2,3)])
qed

section \<open>The snapshots of a member with \<open>n\<close> elements\<close>

definition subsets_within :: "nat \<Rightarrow> nat \<Rightarrow> data_subset list \<Rightarrow> bool" where
  "subsets_within st n ds \<longleftrightarrow> (\<forall>d \<in> set ds. subset_ok st d \<and> subset_elems d \<subseteq> {..<n})"

definition fixed_snap :: "nat \<Rightarrow> nat \<Rightarrow> nat \<Rightarrow> snapshot \<Rightarrow> bool" where
  "fixed_snap st es n s \<longleftrightarrow>
     db_ok (sn_buf s) \<and> sn_elm_size s = es \<and> sn_max_count s = int n \<and>
     (db_size (sn_buf s) = 0 \<or> db_size (sn_buf s) = n * es) \<and>
     0 \<le> sn_rank s \<and> nat (sn_rank s) < length (sn_staged s) \<and>
     length (sn_protected s) = length (sn_staged s) \<and>
     subsets_within st n (sn_staged s) \<and> subsets_within st n (sn_protected s) \<and>
     (db_size (sn_buf s) = 0 \<longrightarrow> (\<forall>d \<in> set (sn_staged s) \<union> set (sn_protected s). subset_elems d = {}))"

lemma subsets_within_update:
  assumes "subsets_within st n ds" "subset_ok st d" "subset_elems d \<subseteq> {..<n}"
  shows "subsets_within st n (ds[i := d])"
  using assms set_update_subset_insert [of ds i d] by (fastforce simp: subsets_within_def)

lemma own_staged:
  assumes "fixed_snap st es n s"
  obtains A where "staged_subset s = Some (basic_subset A)" "sn_staged s ! nat (sn_rank s) = basic_subset A"
    "regions_ok st A" "regions_elems A \<subseteq> {..<n}"
proof -
  let ?d = "sn_staged s ! nat (sn_rank s)"
  have "?d \<in> set (sn_staged s)" using assms by (simp add: fixed_snap_def)
  then have d: "subset_ok st ?d" "subset_elems ?d \<subseteq> {..<n}" using assms by (simp_all add: fixed_snap_def subsets_within_def)
  then obtain A where A: "?d = basic_subset A" "regions_ok st A" using subset_ok_basic [OF d(1)] by metis
  moreover have "staged_subset s = Some ?d" using assms by (simp add: staged_subset_def at_rank_def fixed_snap_def)
  ultimately show ?thesis using that d(2) by (simp add: subset_elems_def)
qed

lemma put_data_sel:
  assumes "length xs = db_size b"
  shows "db_data (put_data xs b) = xs" "db_size (put_data xs b) = db_size b" "db_ok (put_data xs b)"
  using assms by (simp_all add: put_data_def db_data_def db_ok_def alloc_size_def)

section \<open>Staging\<close>

text \<open>The copy into the staging buffer.\<close>

lemma stage_copy:
  assumes mal: "malloc_ok fresh" and n: "0 < es" "0 < n" "n * es \<le> INT_MAX"
    and b: "db_ok b" "db_size b = 0 \<or> db_size b = n * es"
    and R: "regions_ok st R" and user: "n * es \<le> length user" and src: "sr_user sr = src\<lparr>dr_size := touched n R * es\<rparr>"
      "sr_dir sr = Serialize" "\<not> sr_dynamic sr" "sr_elm_size sr = es"
  obtains xs where "copy_data (basic_subset R) sr (grow fresh (touched n R * es) b) user = Some xs"
    "length xs = db_size (grow fresh (touched n R * es) b)"
    "\<forall>i < length xs. i div es \<in> regions_elems R \<longrightarrow> xs ! i = user ! i"
    "\<forall>i < db_size b. i div es \<notin> regions_elems R \<longrightarrow> xs ! i = db_data b ! i"
proof -
  let ?k = "touched n R" and ?b = "grow fresh (touched n R * es) b"
  have bok: "db_ok ?b" by (rule grow_ok [OF mal b(1)])
  have len: "length (db_data ?b) = db_size ?b" by (rule db_data_length [OF bok])
  have kn: "?k * es \<le> n * es" using touched_le by simp
  then have kI: "?k * es \<le> INT_MAX" using n(3) by linarith
  have md: "db_size ?b mod es = 0" using b(2) by (auto simp: max_def)
  have bound: "ref_is_bounded (sr_user sr)" using src(1) kI INT_MAX_lt(2) by (simp add: ref_is_bounded_def)
  have size: "serializer_size sr ?b = Some (?k * es)"
    using src md bound n(1) by (simp add: serializer_size_def)
  have "\<exists>xs. copy_data (basic_subset R) sr ?b user = Some xs \<and> moved es (regions_elems R \<inter> {..<n}) user (db_data ?b) xs"
  proof (cases "R = []")
    case True
    have "bounded_regions (basic_subset []) m = Some []" for m
      by (simp add: bounded_regions_def bounded_range_def)
    then show ?thesis using True size src by (simp add: copy_data_def max_element_of_def)
  next
    case False
    have k: "0 < ?k" by (rule touched_pos [OF False n(2)])
    have le: "?k * es \<le> length user" "?k * es \<le> length (db_data ?b)"
      by (rule order_trans [OF kn user]) (simp add: len)
    from copy_data_in [OF R src(2-4) k kI _ size le] n(1)
    show ?thesis using touched_elems [OF R, of n] by simp
  qed
  then obtain xs where xs: "copy_data (basic_subset R) sr ?b user = Some xs"
    "moved es (regions_elems R \<inter> {..<n}) user (db_data ?b) xs" by blast
  have lx: "length xs = db_size ?b" using xs(2) len by (simp add: moved_def)
  have "db_size ?b \<le> n * es" using kn b(2) by auto
  then have small: "i div es < n" if "i < db_size ?b" for i
    using that n(1) by (intro less_mult_imp_div_less) linarith
  have nth: "\<forall>i < db_size ?b. xs ! i = (if i div es \<in> regions_elems R \<inter> {..<n} then user ! i else db_data ?b ! i)"
    using xs(2) len by (simp add: moved_def)
  show ?thesis
  proof (rule that [OF xs(1) lx])
    show "\<forall>i < length xs. i div es \<in> regions_elems R \<longrightarrow> xs ! i = user ! i"
      using nth small lx by simp
    show "\<forall>i < db_size b. i div es \<notin> regions_elems R \<longrightarrow> xs ! i = db_data b ! i"
      using nth grow_nth [OF mal b(1)] by simp
  qed
qed

text \<open>What \<open>stage\<close> does to the staging snapshot \<open>s\<close>.\<close>

definition staged_by :: "nat \<Rightarrow> nat \<Rightarrow> nat \<Rightarrow> data_subset \<Rightarrow> byte list \<Rightarrow> snapshot \<Rightarrow> snapshot \<Rightarrow> bool" where
  "staged_by st es n d user s s' \<longleftrightarrow>
     fixed_snap st es n s' \<and> db_size (sn_buf s') = n * es \<and>
     sn_protected s' = sn_protected s \<and> sn_rank s' = sn_rank s \<and>
     sn_timestamp s' = sn_timestamp s \<and> sn_cohort s' = sn_cohort s \<and>
     (\<exists>u. sn_staged s' = (sn_staged s)[nat (sn_rank s) := u] \<and>
       subset_elems u = subset_elems (sn_staged s ! nat (sn_rank s)) \<union> (subset_elems d \<inter> {..<n})) \<and>
     (\<forall>i < n * es. i div es \<in> subset_elems d \<longrightarrow> db_data (sn_buf s') ! i = user ! i) \<and>
     (\<forall>i < db_size (sn_buf s). i div es \<notin> subset_elems d \<longrightarrow> db_data (sn_buf s') ! i = db_data (sn_buf s) ! i)"

lemma bounded_upto:
  assumes R: "regions_ok st R" and q: "q \<le> IDX_MAX" "q = 0 \<longrightarrow> R = []"
  obtains D where "subset_bounded (basic_subset R) (sz_sub q 1) = Some (basic_subset D)" "regions_ok st D"
    "regions_elems D = regions_elems R \<inter> {..<q}"
proof (cases "q = 0")
  case True
  then have "R = []" using q(2) by simp
  then show ?thesis
    by (intro that [of "[]"]) (simp_all add: subset_bounded_def bounded_regions_def bounded_range_def)
next
  case False
  then have sub: "sz_sub q 1 = q - 1" using q(1) by (simp add: sz SIZE_IDX)
  obtain D where "bounded_range (basic_subset R) 0 (q - 1) = Some D" "regions_ok st D"
      "regions_elems D = regions_elems R \<inter> {0..q - 1}"
    by (rule bounded_range_correct [OF R, of 0 "q - 1"]) (use q(1) in linarith)+
  moreover have "{0..q - 1} = {..<q}" using False by auto
  ultimately show ?thesis using that sub by (simp add: subset_bounded_def bounded_regions_def)
qed

lemma member_stage_fixed:
  assumes mal: "malloc_ok fresh" and n: "0 < es" "0 < n" "n * es \<le> INT_MAX"
    and s: "fixed_snap st es n s" and m: "mb_stage m = Some s" "mt_extent (mb_type m) = es"
      "dr_size (mb_user m) = n * es" "n * es \<le> length (load_obj h (dr_data (mb_user m)))"
    and R: "regions_ok st R" "end_fits es R"
  shows "\<exists>s'. member_stage fresh h (basic_subset R) m = (Inr (), m\<lparr>mb_stage := Some s'\<rparr>) \<and>
    staged_by st es n (basic_subset R) (load_obj h (dr_data (mb_user m))) s s'"
proof -
  let ?user = "load_obj h (dr_data (mb_user m))" and ?k = "touched n R" and ?b = "grow fresh (touched n R * es) (sn_buf s)"
  let ?sr = "\<lparr>sr_user = (mb_user m)\<lparr>dr_size := ?k * es\<rparr>, sr_dir = Serialize, sr_dynamic = False, sr_elm_size = es\<rparr>"
  have b: "db_ok (sn_buf s)" "db_size (sn_buf s) = 0 \<or> db_size (sn_buf s) = n * es" "sn_elm_size s = es"
      "sn_max_count s = int n"
    using s by (simp_all add: fixed_snap_def)
  have "db_size (sn_buf s) mod es = 0" using b(2) by auto
  note ser = create_serializer_eq [OF R(2) n m(3) b(3) this, of fresh]
  obtain xs where xs: "copy_data (basic_subset R) ?sr ?b ?user = Some xs" "length xs = db_size ?b"
    "\<forall>i < length xs. i div es \<in> regions_elems R \<longrightarrow> xs ! i = ?user ! i"
    "\<forall>i < db_size (sn_buf s). i div es \<notin> regions_elems R \<longrightarrow> xs ! i = db_data (sn_buf s) ! i"
    by (rule stage_copy [OF mal n b(1,2) R(1) m(4), of ?sr "mb_user m"]) simp_all
  let ?c = "put_data xs ?b" and ?s = "s\<lparr>sn_buf := put_data xs (grow fresh (touched n R * es) (sn_buf s))\<rparr>"
  note c = put_data_sel [OF xs(2)]
  have c': "db_data (sn_buf ?s) = xs" "db_size (sn_buf ?s) = db_size ?b" "db_ok (sn_buf ?s)" using c by simp_all
  obtain q where q: "db_size ?b = q * es" "q \<le> n" "q = 0 \<longrightarrow> R = []" "?k \<le> q"
  proof (cases "db_size (sn_buf s) = 0")
    case True
    then show ?thesis using touched_le [of n R] touched_0 [OF n(2), of R] by (intro that [of ?k]) simp_all
  next
    case False
    then have "?k * es \<le> n * es" "db_size (sn_buf s) = n * es" using b(2) touched_le by simp_all
    then show ?thesis using n(2) touched_le by (intro that [of n]) simp_all
  qed
  have "q \<le> IDX_MAX" using q(2) fixed_count(3) [OF n(2,3,1)] INT_MAX_lt(1) by linarith
  from bounded_upto [OF R(1) this q(3)] obtain D where D:
    "subset_bounded (basic_subset R) (sz_sub q 1) = Some (basic_subset D)" "regions_ok st D"
    "regions_elems D = regions_elems R \<inter> {..<q}" by blast
  have De: "regions_elems D = regions_elems R \<inter> {..<n}"
    unfolding D(3) by (rule touched_between [OF R(1) q(4,2)])
  obtain A where A: "staged_subset s = Some (basic_subset A)" "sn_staged s ! nat (sn_rank s) = basic_subset A"
    "regions_ok st A" "regions_elems A \<subseteq> {..<n}" by (rule own_staged [OF s])
  have sA: "staged_subset ?s = Some (basic_subset A)" using A(1) by (simp add: staged_subset_def)
  obtain U where U: "add_and_fit fresh (basic_subset D) ?s
      = Some ((set_staged (basic_subset U) ?s)\<lparr>sn_buf := grow fresh (n * es) (sn_buf ?s)\<rparr>)"
    "regions_ok st U" "regions_elems U = regions_elems A \<union> regions_elems D"
    by (rule add_and_fit_eq [OF n _ _ sA A(3,4) D(2)]) (use b De in simp_all)
  let ?s' = "(set_staged (basic_subset U) ?s)\<lparr>sn_buf := grow fresh (n * es) (sn_buf ?s)\<rparr>"
  have qs: "db_size (sn_buf ?s) = q * es" unfolding c'(2) q(1) ..
  have bytes: "q * es mod es = 0" "q * es \<le> n * es" "q * es div es = q"
    using q(2) n(1) by simp_all
  have es: "es \<noteq> 0" using n(1) by simp
  have run: "member_stage fresh h (basic_subset R) m = (Inr (), m\<lparr>mb_stage := Some ?s'\<rparr>)"
  proof -
    have first: "andThen (on_stage (andThen (create_serializer fresh (mb_user m) (basic_subset R)) (\<lambda>sr.
        andThen getS (\<lambda>s. andThen (liftO (copy_data (basic_subset R) sr (sn_buf s) ?user)) (\<lambda>bytes.
        modS (\<lambda>s. s\<lparr>sn_buf := put_data bytes (sn_buf s)\<rparr>)))))) f m = f () (m\<lparr>mb_stage := Some ?s\<rparr>)" for f :: "unit \<Rightarrow> (member, unit) comp"
      using m(1) ser xs(1) by (simp add: comp)
    have second: "on_stage (andThen getS (\<lambda>s.
        andThen (assertS (es \<noteq> 0 \<and> db_size (sn_buf s) mod es = 0)) (\<lambda>_.
        andThen (assertS (db_size (sn_buf s) \<le> dr_size (mb_user m))) (\<lambda>_.
        andThen (liftO (subset_bounded (basic_subset R) (sz_sub (db_size (sn_buf s) div es) 1))) (\<lambda>b.
        snap_do (add_and_fit fresh b)))))) (m\<lparr>mb_stage := Some ?s\<rparr>) = (Inr (), m\<lparr>mb_stage := Some ?s'\<rparr>)"
      using qs bytes es m(3) D(1) U(1) by (simp add: comp)
    have pre: "andThen (not_prestaged (basic_subset R)) f m = f () m" for f :: "unit \<Rightarrow> (member, unit) comp"
      by (simp add: not_prestaged_def comp)
    show ?thesis
      by (simp only: member_stage_def pre andThen_getS m(2) Let_def first second)
  qed
  have "db_size ?c = q * es" using qs by simp
  then have big: "db_size (sn_buf ?s') = n * es" using bytes(2) es by (auto simp: max_def)
  have old: "db_data (sn_buf ?s') ! i = xs ! i" if "i < db_size ?b" for i
    using grow_nth [OF mal c'(3), of i "n * es"] that unfolding c'(1,2) by simp
  have "staged_by st es n (basic_subset R) ?user s ?s'"
    unfolding staged_by_def
  proof (intro conjI)
    show "db_size (sn_buf ?s') = n * es" by (rule big)
    have U': "regions_elems U = regions_elems A \<union> (regions_elems R \<inter> {..<n})" using U(3) De by simp
    then show "\<exists>u. sn_staged ?s' = (sn_staged s)[nat (sn_rank s) := u] \<and>
        subset_elems u = subset_elems (sn_staged s ! nat (sn_rank s)) \<union> (subset_elems (basic_subset R) \<inter> {..<n})"
      using A(2) by (intro exI [of _ "basic_subset U"]) (simp add: subset_elems_def)
    have "subset_ok st (basic_subset U)" "subset_elems (basic_subset U) \<subseteq> {..<n}"
      using U(2) U' A(4) by (auto simp: subset_ok_def subset_elems_def)
    then have "subsets_within st n (sn_staged ?s')"
      using s subsets_within_update by (simp add: fixed_snap_def)
    then show "fixed_snap st es n ?s'"
      using s big grow_ok [OF mal c'(3)] es n(2) by (simp add: fixed_snap_def)
    show "\<forall>i < n * es. i div es \<in> subset_elems (basic_subset R) \<longrightarrow> db_data (sn_buf ?s') ! i = ?user ! i"
    proof (intro allI impI)
      fix i
      assume i: "i < n * es" "i div es \<in> subset_elems (basic_subset R)"
      then have mem: "i div es \<in> regions_elems R" by (simp add: subset_elems_def)
      have "i div es < n" using i(1) by (rule less_mult_imp_div_less)
      then have "i div es \<in> regions_elems R \<inter> {..<q}" unfolding touched_between [OF R(1) q(4,2)] using mem by simp
      then have "i < q * es" using n(1) by (simp add: div_less_iff_less_mult)
      then show "db_data (sn_buf ?s') ! i = ?user ! i" using old [of i] xs(2,3) mem q(1) by simp
    qed
    show "\<forall>i < db_size (sn_buf s). i div es \<notin> subset_elems (basic_subset R) \<longrightarrow>
        db_data (sn_buf ?s') ! i = db_data (sn_buf s) ! i"
      using old xs(4) by (simp add: subset_elems_def)
  qed (simp_all add: A)
  with run show ?thesis by blast
qed

end
