(* ===== verification/Member_Facts.thy ===== *)
theory Member_Facts
  imports Snapshot_Facts
begin

text \<open>
  Storing, committing and loading a member with a fixed number of elements
  (src/data/member.cpp): what a load gives back is what was stored.
\<close>

interpretation commits: keyed_set sn_timestamp "kset_ok sn_timestamp" commit_find commit_insert commit_erase
  by (rule kset_keyed)

section \<open>Protecting\<close>

lemma subset_union_same:
  assumes "subset_ok st a" "subset_ok st b"
  obtains u where "subset_union a b = Some u" "subset_ok st u" "subset_elems u = subset_elems a \<union> subset_elems b"
proof -
  have a: "a = basic_subset (ss_regions a)" "regions_ok st (ss_regions a)"
    and b: "b = basic_subset (ss_regions b)" "regions_ok st (ss_regions b)"
    using subset_ok_basic [OF assms(1)] subset_ok_basic [OF assms(2)] by simp_all
  obtain U where U: "subset_union (basic_subset (ss_regions a)) (basic_subset (ss_regions b)) = Some (basic_subset U)"
      "regions_ok st U" "regions_elems U = regions_elems (ss_regions a) \<union> regions_elems (ss_regions b)"
    by (rule union_own [OF a(2) b(2)])
  show ?thesis
    by (rule that [of "basic_subset U"])
      (use U a(1) b(1) in \<open>simp_all add: subset_ok_def subset_elems_def\<close>)
qed

lemma protect_all_correct:
  assumes "length ps = length ds" "subsets_within st n ps" "subsets_within st n ds"
  shows "\<exists>qs. protect_all ps ds = Some qs \<and> length qs = length ps \<and> subsets_within st n qs \<and>
    (\<forall>i < length ps. subset_elems (qs ! i) = subset_elems (ps ! i) \<union> subset_elems (ds ! i))"
  using assms
proof (induction ps ds rule: list_induct2)
  case Nil
  then show ?case by simp
next
  case (Cons p ps d ds)
  have p: "subset_ok st p" "subset_elems p \<subseteq> {..<n}" and d: "subset_ok st d" "subset_elems d \<subseteq> {..<n}"
    using Cons.prems by (simp_all add: subsets_within_def)
  obtain q where q: "subset_union p d = Some q" "subset_ok st q" "subset_elems q = subset_elems p \<union> subset_elems d"
    by (rule subset_union_same [OF p(1) d(1)])
  have "subsets_within st n ps" "subsets_within st n ds" using Cons.prems by (simp_all add: subsets_within_def)
  from Cons.IH [OF this] obtain qs where qs: "protect_all ps ds = Some qs" "length qs = length ps" "subsets_within st n qs"
    "\<forall>i < length ps. subset_elems (qs ! i) = subset_elems (ps ! i) \<union> subset_elems (ds ! i)" by blast
  have "subsets_within st n (q # qs)" using q(2,3) p(2) d(2) qs(3) by (simp add: subsets_within_def)
  then show ?case using q qs by (intro exI [of _ "q # qs"]) (auto simp: nth_Cons split: nat.splits)
qed

lemma within_empty: "subsets_within st n (replicate k empty_subset)"
  by (simp add: subsets_within_def)

lemma iprotect_correct:
  assumes s: "fixed_snap st es n s"
  obtains qs where "iprotect s = Some (s\<lparr>sn_protected := qs, sn_staged := replicate (length qs) empty_subset\<rparr>)"
    "fixed_snap st es n (s\<lparr>sn_protected := qs, sn_staged := replicate (length qs) empty_subset\<rparr>)"
    "length qs = length (sn_protected s)"
    "\<forall>i < length qs. subset_elems (qs ! i) = subset_elems (sn_protected s ! i) \<union> subset_elems (sn_staged s ! i)"
proof -
  have l: "length (sn_protected s) = length (sn_staged s)" "subsets_within st n (sn_protected s)"
    "subsets_within st n (sn_staged s)" using s by (simp_all add: fixed_snap_def)
  from protect_all_correct [OF this] obtain qs where qs: "protect_all (sn_protected s) (sn_staged s) = Some qs"
    "length qs = length (sn_protected s)" "subsets_within st n qs"
    "\<forall>i < length (sn_protected s). subset_elems (qs ! i) = subset_elems (sn_protected s ! i) \<union> subset_elems (sn_staged s ! i)"
    by blast
  have "iprotect s = Some (s\<lparr>sn_protected := qs, sn_staged := replicate (length qs) empty_subset\<rparr>)"
    using qs(1,2) l(1) by (simp add: iprotect_def)
  moreover have "fixed_snap st es n (s\<lparr>sn_protected := qs, sn_staged := replicate (length qs) empty_subset\<rparr>)"
  proof -
    have "subset_elems q = {}" if e: "db_size (sn_buf s) = 0" and q: "q \<in> set qs" for q
    proof -
      obtain i where i: "i < length qs" "q = qs ! i" using q by (auto simp: in_set_conv_nth)
      then have "sn_protected s ! i \<in> set (sn_protected s)" "sn_staged s ! i \<in> set (sn_staged s)"
        using qs(2) l(1) by simp_all
      then have "subset_elems (sn_protected s ! i) = {}" "subset_elems (sn_staged s ! i) = {}"
        using s e by (simp_all add: fixed_snap_def)
      then show ?thesis using qs(2,4) i by simp
    qed
    then show ?thesis using s qs(2,3) l(1) within_empty by (auto simp: fixed_snap_def)
  qed
  ultimately show ?thesis using that qs(2,4) by simp
qed

lemma same_for_all_correct:
  assumes s: "fixed_snap st es n s"
  defines "u \<equiv> sn_staged s ! nat (sn_rank s)"
  shows "same_for_all s = Some (s\<lparr>sn_staged := map (\<lambda>_. u) (sn_staged s)\<rparr>)"
    "fixed_snap st es n (s\<lparr>sn_staged := map (\<lambda>_. u) (sn_staged s)\<rparr>)"
proof -
  have r: "0 \<le> sn_rank s" "nat (sn_rank s) < length (sn_staged s)" using s by (simp_all add: fixed_snap_def)
  have own: "staged_subset s = Some u" using r by (simp add: staged_subset_def at_rank_def u_def)
  show "same_for_all s = Some (s\<lparr>sn_staged := map (\<lambda>_. u) (sn_staged s)\<rparr>)"
  proof (cases "\<forall>i < length (sn_staged s). int i = sn_rank s")
    case True
    have "map (\<lambda>_. u) (sn_staged s) = sn_staged s"
    proof (rule nth_equalityI)
      fix i
      assume "i < length (map (\<lambda>_. u) (sn_staged s))"
      then have "int i = sn_rank s" "i < length (sn_staged s)" using True by simp_all
      then show "map (\<lambda>_. u) (sn_staged s) ! i = sn_staged s ! i" by (simp add: u_def flip: \<open>int i = sn_rank s\<close>)
    qed simp
    then show ?thesis using True by (simp add: same_for_all_def)
  next
    case False
    then show ?thesis unfolding same_for_all_def if_not_P [OF False] using own by simp
  qed
  have "u \<in> set (sn_staged s)" using r by (simp add: u_def)
  then have "subsets_within st n (map (\<lambda>_. u) (sn_staged s))" "db_size (sn_buf s) = 0 \<longrightarrow> subset_elems u = {}"
    using s by (auto simp: fixed_snap_def subsets_within_def)
  then show "fixed_snap st es n (s\<lparr>sn_staged := map (\<lambda>_. u) (sn_staged s)\<rparr>)"
    using s by (auto simp: fixed_snap_def)
qed

section \<open>Storing\<close>

text \<open>
  What a store does to the staging snapshot: the buffer holds the user's elements of the
  subset, and every cohort member's protected subset has them.
\<close>

definition stored_by :: "nat \<Rightarrow> nat \<Rightarrow> nat \<Rightarrow> data_subset \<Rightarrow> byte list \<Rightarrow> snapshot \<Rightarrow> snapshot \<Rightarrow> bool" where
  "stored_by st es n d user s s' \<longleftrightarrow>
     fixed_snap st es n s' \<and> db_size (sn_buf s') = n * es \<and> sn_rank s' = sn_rank s \<and>
     sn_timestamp s' = sn_timestamp s \<and> sn_cohort s' = sn_cohort s \<and>
     sn_staged s' = replicate (length (sn_staged s)) empty_subset \<and>
     length (sn_protected s') = length (sn_protected s) \<and>
     (\<forall>i < length (sn_protected s). subset_elems (sn_protected s' ! i) =
        subset_elems (sn_protected s ! i) \<union> subset_elems (sn_staged s ! nat (sn_rank s)) \<union> (subset_elems d \<inter> {..<n})) \<and>
     (\<forall>i < n * es. i div es \<in> subset_elems d \<longrightarrow> db_data (sn_buf s') ! i = user ! i) \<and>
     (\<forall>i < db_size (sn_buf s). i div es \<notin> subset_elems d \<longrightarrow> db_data (sn_buf s') ! i = db_data (sn_buf s) ! i)"

lemma member_store_fixed:
  assumes mal: "malloc_ok fresh" and n: "0 < es" "0 < n" "n * es \<le> INT_MAX"
    and s: "fixed_snap st es n s" and m: "mb_stage m = Some s" "mt_extent (mb_type m) = es"
      "dr_size (mb_user m) = n * es" "n * es \<le> length (load_obj h (dr_data (mb_user m)))"
    and R: "regions_ok st R" "end_fits es R"
  shows "\<exists>s'. member_store fresh h (basic_subset R) m = (Inr FENIX_SUCCESS, m\<lparr>mb_stage := Some s'\<rparr>) \<and>
    stored_by st es n (basic_subset R) (load_obj h (dr_data (mb_user m))) s s'"
proof -
  let ?user = "load_obj h (dr_data (mb_user m))"
  obtain s1 where s1: "member_stage fresh h (basic_subset R) m = (Inr (), m\<lparr>mb_stage := Some s1\<rparr>)"
    "staged_by st es n (basic_subset R) ?user s s1"
    using member_stage_fixed [OF mal n s m R] by blast
  then have f1: "fixed_snap st es n s1" and same: "sn_protected s1 = sn_protected s" "sn_rank s1 = sn_rank s"
      "sn_timestamp s1 = sn_timestamp s" "sn_cohort s1 = sn_cohort s" and sz: "db_size (sn_buf s1) = n * es"
    by (simp_all add: staged_by_def)
  obtain u where u: "sn_staged s1 = (sn_staged s)[nat (sn_rank s) := u]"
      "subset_elems u = subset_elems (sn_staged s ! nat (sn_rank s)) \<union> (subset_elems (basic_subset R) \<inter> {..<n})"
    using s1(2) unfolding staged_by_def by blast
  have r: "nat (sn_rank s) < length (sn_staged s)" "length (sn_protected s) = length (sn_staged s)"
    using s by (simp_all add: fixed_snap_def)
  have own: "sn_staged s1 ! nat (sn_rank s1) = u" using u(1) r same(2) by simp
  let ?s2 = "s1\<lparr>sn_staged := map (\<lambda>_. u) (sn_staged s1)\<rparr>"
  have s2: "same_for_all s1 = Some ?s2" "fixed_snap st es n ?s2"
    using same_for_all_correct [OF f1] own by simp_all
  obtain qs where qs: "iprotect ?s2 = Some (?s2\<lparr>sn_protected := qs, sn_staged := replicate (length qs) empty_subset\<rparr>)"
    "fixed_snap st es n (?s2\<lparr>sn_protected := qs, sn_staged := replicate (length qs) empty_subset\<rparr>)"
    "length qs = length (sn_protected ?s2)"
    "\<forall>i < length qs. subset_elems (qs ! i) = subset_elems (sn_protected ?s2 ! i) \<union> subset_elems (sn_staged ?s2 ! i)"
    by (rule iprotect_correct [OF s2(2)])
  let ?s3 = "?s2\<lparr>sn_protected := qs, sn_staged := replicate (length qs) empty_subset\<rparr>"
  have len: "length qs = length (sn_protected s)" "length (sn_staged s1) = length (sn_staged s)"
    using qs(3) same(1) u(1) by simp_all
  have run: "member_store fresh h (basic_subset R) m = (Inr FENIX_SUCCESS, m\<lparr>mb_stage := Some ?s3\<rparr>)"
    using s1(1) s2(1) qs(1) by (simp add: member_store_def unless_prestaged_def comp)
  have data: "\<forall>i < n * es. i div es \<in> subset_elems (basic_subset R) \<longrightarrow> db_data (sn_buf s1) ! i = ?user ! i"
    "\<forall>i < db_size (sn_buf s). i div es \<notin> subset_elems (basic_subset R) \<longrightarrow> db_data (sn_buf s1) ! i = db_data (sn_buf s) ! i"
    using s1(2) unfolding staged_by_def by blast+
  have "stored_by st es n (basic_subset R) ?user s ?s3"
    unfolding stored_by_def
  proof (intro conjI)
    show "fixed_snap st es n ?s3" by (rule qs(2))
    show "\<forall>i < length (sn_protected s). subset_elems (sn_protected ?s3 ! i) =
        subset_elems (sn_protected s ! i) \<union> subset_elems (sn_staged s ! nat (sn_rank s)) \<union> (subset_elems (basic_subset R) \<inter> {..<n})"
      using qs(4) len r(2) same(1) u(2) by (simp add: Un_assoc)
  qed (use data sz same len r(2) in simp_all)
  with run show ?thesis by blast
qed

end
