(* ===== verification/Member_Load.thy ===== *)
theory Member_Load
  imports Member_Facts
begin

text \<open>
  Committing a member and loading from its committed snapshots (src/data/member.cpp).
\<close>

section \<open>The invariant of a member\<close>

text \<open>A snapshot in the pool of unused ones.\<close>

definition idle_snap :: "nat \<Rightarrow> nat \<Rightarrow> snapshot \<Rightarrow> bool" where
  "idle_snap es n s \<longleftrightarrow>
     db_ok (sn_buf s) \<and> db_size (sn_buf s) = 0 \<and> sn_elm_size s = es \<and> sn_max_count s = int n \<and>
     sn_cohort s = None \<and> sn_protected s = [] \<and> sn_staged s = []"

definition member_ok :: "nat \<Rightarrow> nat \<Rightarrow> nat \<Rightarrow> member \<Rightarrow> bool" where
  "member_ok st es n m \<longleftrightarrow>
     0 < es \<and> 0 < n \<and> n * es \<le> INT_MAX \<and>
     mt_extent (mb_type m) = es \<and> dr_size (mb_user m) = n * es \<and>
     0 \<le> mb_depth m \<and> mb_depth m < INT32_MAX \<and>
     (\<exists>s. mb_stage m = Some s \<and> fixed_snap st es n s) \<and>
     kset_ok sn_timestamp (mb_commits m) \<and>
     (\<forall>s \<in> set (mb_commits m). fixed_snap st es n s \<and> 0 \<le> sn_timestamp s) \<and>
     (\<forall>s \<in> set (mb_avail m). idle_snap es n s)"

lemma init_cohort_fixed:
  assumes "idle_snap es n s" "cm_rank c < comm_size c"
  shows "fixed_snap st es n (init_cohort c s)"
  using assms within_empty
  by (simp add: idle_snap_def fixed_snap_def init_cohort_def reinit_cohort_def vec_resize_def)

lemma reset_idle:
  assumes "malloc_ok fresh" "fixed_snap st es n s"
  shows "idle_snap es n (snap_reset fresh s)"
  using assms by (simp add: idle_snap_def fixed_snap_def snap_reset_def db_clear_def resize_ok)

lemma new_idle:
  assumes "malloc_ok fresh" "0 < n" "n * es \<le> INT_MAX" "0 < es"
  shows "\<exists>s. new_snapshot fresh es (int n) = Some s \<and> idle_snap es n s"
proof -
  note c = fixed_count [OF assms(2-4)]
  have e: "db_ok empty_buffer" by (simp add: db_ok_def empty_buffer_def)
  have "n * es \<le> IDX_MAX" using assms(3) INT_MAX_lt(1) by linarith
  moreover have "size_of_int (i32 (int es * int n)) = n * es" using c(2) by (simp add: mult.commute)
  ultimately show ?thesis
    using e assms(1) by (simp add: new_snapshot_def Let_def idle_snap_def reserve_def resize_ok empty_buffer_def)
qed

lemma elm_count_fixed:
  assumes "member_ok st es n m"
  shows "elm_count m = Some (int n)"
proof -
  have m: "0 < es" "n * es \<le> INT_MAX" "mt_extent (mb_type m) = es" "dr_size (mb_user m) = n * es" "0 < n"
    using assms by (simp_all add: member_ok_def)
  have "n \<le> INT_MAX" by (rule fixed_count(3) [OF m(5,2,1)])
  moreover have "n * es \<noteq> SIZE_MAX" using m(2) INT_MAX_lt(2) by linarith
  ultimately show ?thesis using m by (simp add: elm_count_def ref_is_bounded_def int_of_size_exact)
qed

lemma create_snapshot_fixed:
  assumes "malloc_ok fresh" "member_ok st es n m"
  shows "\<exists>s. create_snapshot fresh m = Some s \<and> idle_snap es n s"
proof -
  have m: "0 < n" "n * es \<le> INT_MAX" "0 < es" "mt_extent (mb_type m) = es" using assms(2) by (simp_all add: member_ok_def)
  from new_idle [OF assms(1) m(1-3)] show ?thesis
    using elm_count_fixed [OF assms(2)] m(4) by (simp add: create_snapshot_def)
qed

section \<open>Committing\<close>

definition trimmed :: "int \<Rightarrow> 'a list \<Rightarrow> 'a list" where
  "trimmed depth L = (if int (length L) > depth + 1 then tl L else L)"

lemma kset_erase_hd: "kset_ok key (x # s) \<Longrightarrow> kset_erase key (key x) (x # s) = s"
  by (auto simp: kset_ok_Cons kset_erase_def filter_id_conv)

lemma depth_size: "0 \<le> d \<Longrightarrow> d < INT32_MAX \<Longrightarrow> size_of_int (i32 (d + 1)) = nat (d + 1)"
  by (simp add: i32_exact size_of_int_exact)

lemma trim_commits_eq:
  assumes "0 \<le> mb_depth m" "mb_depth m < INT32_MAX" "kset_ok sn_timestamp (mb_commits m)"
  shows "trim_commits fresh m = m\<lparr>mb_commits := trimmed (mb_depth m) (mb_commits m),
    mb_avail := mb_avail m @ (if int (length (mb_commits m)) > mb_depth m + 1
      then [snap_reset fresh (hd (mb_commits m))] else [])\<rparr>"
proof -
  note size = depth_size [OF assms(1,2)]
  show ?thesis
  proof (cases "int (length (mb_commits m)) > mb_depth m + 1")
    case True
    then obtain x L where L: "mb_commits m = x # L" using assms(1) by (cases "mb_commits m") auto
    have "commit_find (sn_timestamp x) (x # L) = Some x" by (simp add: kset_find_def)
    moreover have "commit_erase (sn_timestamp x) (x # L) = L" using assms(3) L by (intro kset_erase_hd) simp
    moreover have "length (mb_commits m) > nat (mb_depth m + 1)" using True assms(1) by linarith
    ultimately have "trim_commits fresh m = m\<lparr>mb_commits := L, mb_avail := mb_avail m @ [snap_reset fresh x]\<rparr>"
      unfolding trim_commits_def size by (simp add: snapshot_delete_at_def L)
    then show ?thesis using True L by (simp add: trimmed_def)
  next
    case False
    then show ?thesis using assms(1) by (simp add: trim_commits_def size trimmed_def)
  qed
qed

lemma trimmed_ok:
  assumes "kset_ok key L"
  shows "kset_ok key (trimmed d L)" "set (trimmed d L) \<subseteq> set L"
proof -
  show "kset_ok key (trimmed d L)"
    using assms by (cases L) (simp_all add: trimmed_def kset_ok_Cons)
  show "set (trimmed d L) \<subseteq> set L"
    by (cases L) (auto simp: trimmed_def)
qed

text \<open>
  With nothing left staged, a commit succeeds: the staging snapshot becomes the committed one,
  the oldest snapshot goes when there are more than \<open>depth + 1\<close>, and an empty snapshot takes
  its place.
\<close>

lemma member_commit_fixed:
  assumes mal: "malloc_ok fresh" and m: "member_ok st es n m" and s: "mb_stage m = Some s"
    and un: "subset_elems (sn_staged s ! nat (sn_rank s)) = {}" and c: "cm_rank c < comm_size c" and ts: "0 \<le> ts"
  shows "\<exists>m'. member_commit fresh c ts m = Some m' \<and> member_ok st es n m' \<and>
    mb_commits m' = trimmed (mb_depth m) (commit_insert (s\<lparr>sn_timestamp := ts\<rparr>) (mb_commits m)) \<and>
    mb_depth m' = mb_depth m \<and> mb_user m' = mb_user m \<and> mb_id m' = mb_id m \<and>
    (\<exists>s'. mb_stage m' = Some (init_cohort c s') \<and> idle_snap es n s')"
proof -
  have fs: "fixed_snap st es n s" using m s by (simp add: member_ok_def)
  obtain A where A: "staged_subset s = Some (basic_subset A)" "sn_staged s ! nat (sn_rank s) = basic_subset A"
    "regions_ok st A" by (rule own_staged [OF fs])
  have "A = []" using un A(2) regions_empty_iff [OF A(3)] by (simp add: subset_elems_def)
  then have eq: "subset_equal (basic_subset A) empty_subset = Some True" using subset_equal_empty [OF A(3)] by simp
  let ?s = "s\<lparr>sn_timestamp := ts\<rparr>" and ?L = "commit_insert (s\<lparr>sn_timestamp := ts\<rparr>) (mb_commits m)"
  let ?m = "m\<lparr>mb_stage := None, mb_commits := ?L\<rparr>"
  have fs': "fixed_snap st es n ?s" using fs by (simp add: fixed_snap_def)
  have L: "kset_ok sn_timestamp ?L" "\<forall>x \<in> set ?L. fixed_snap st es n x \<and> 0 \<le> sn_timestamp x"
    using m ts fs' kset_ok_insert kset_insert_set [of sn_timestamp ?s "mb_commits m"]
    by (auto simp: member_ok_def split: if_splits)
  have d: "0 \<le> mb_depth ?m" "mb_depth ?m < INT32_MAX" "kset_ok sn_timestamp (mb_commits ?m)"
    using m L(1) by (simp_all add: member_ok_def)
  let ?t = "trim_commits fresh ?m"
  have t: "mb_commits ?t = trimmed (mb_depth m) ?L" "mb_depth ?t = mb_depth m" "mb_user ?t = mb_user m"
      "mb_type ?t = mb_type m" "mb_id ?t = mb_id m"
    "mb_avail ?t = mb_avail m @ (if int (length ?L) > mb_depth m + 1 then [snap_reset fresh (hd ?L)] else [])"
    using trim_commits_eq [OF d] by simp_all
  have hd: "idle_snap es n (snap_reset fresh (hd ?L))" if "int (length ?L) > mb_depth m + 1"
  proof -
    have "?L \<noteq> []" using that d(1) by auto
    then show ?thesis using L(2) reset_idle [OF mal] by (meson hd_in_set)
  qed
  have av: "\<forall>x \<in> set (mb_avail ?t). idle_snap es n x"
    using m hd unfolding t(6) by (auto simp: member_ok_def)
  have kept: "kset_ok sn_timestamp (mb_commits ?t)" "\<forall>x \<in> set (mb_commits ?t). fixed_snap st es n x \<and> 0 \<le> sn_timestamp x"
    using trimmed_ok [OF L(1)] L(2) unfolding t(1) by (simp, meson subsetD)
  have base: "0 < es \<and> 0 < n \<and> n * es \<le> INT_MAX \<and> mt_extent (mb_type ?t) = es \<and> dr_size (mb_user ?t) = n * es \<and>
      0 \<le> mb_depth ?t \<and> mb_depth ?t < INT32_MAX"
    using m unfolding t by (simp add: member_ok_def)
  obtain m' s' where next': "next_stage fresh c ?t = Some m'" "mb_stage m' = Some (init_cohort c s')" "idle_snap es n s'"
    "mb_commits m' = mb_commits ?t" "mb_depth m' = mb_depth ?t" "mb_user m' = mb_user ?t" "mb_type m' = mb_type ?t"
    "mb_id m' = mb_id ?t" "set (mb_avail m') \<subseteq> set (mb_avail ?t)"
  proof (cases "mb_avail ?t = []")
    case True
    have "elm_count ?t = elm_count m" using t(3,4) by (simp add: elm_count_def)
    then have "create_snapshot fresh ?t = create_snapshot fresh m" using t(4) by (simp add: create_snapshot_def)
    then obtain x where "create_snapshot fresh ?t = Some x" "idle_snap es n x"
      using create_snapshot_fixed [OF mal m] by metis
    then show ?thesis using True by (intro that [of "?t\<lparr>mb_stage := Some (init_cohort c x)\<rparr>" x]) (simp_all add: next_stage_def)
  next
    case False
    then have "idle_snap es n (last (mb_avail ?t))" using av by simp
    then show ?thesis using False
      by (intro that [of "?t\<lparr>mb_stage := Some (init_cohort c (last (mb_avail ?t))), mb_avail := butlast (mb_avail ?t)\<rparr>"])
        (auto simp: next_stage_def dest: in_set_butlastD)
  qed
  have "member_ok st es n m'"
    using base kept av next'(2-9) init_cohort_fixed [OF next'(3) c, of st] unfolding member_ok_def by auto
  moreover have "member_commit fresh c ts m = Some m'"
    using s A(1) eq next'(1) by (simp add: member_commit_def)
  ultimately show ?thesis using next' t by auto
qed

section \<open>Copying out of a snapshot\<close>

definition own_protected :: "snapshot \<Rightarrow> data_subset" where
  "own_protected s = sn_protected s ! nat (sn_rank s)"

lemma protected_own:
  assumes "fixed_snap st es n s"
  shows "protected_subset s = Some (own_protected s)" "subset_ok st (own_protected s)"
    "subset_elems (own_protected s) \<subseteq> {..<n}" "db_size (sn_buf s) = 0 \<longrightarrow> subset_elems (own_protected s) = {}"
proof -
  have r: "0 \<le> sn_rank s" "nat (sn_rank s) < length (sn_protected s)" using assms by (simp_all add: fixed_snap_def)
  then show "protected_subset s = Some (own_protected s)"
    by (simp add: protected_subset_def at_rank_def own_protected_def)
  have "own_protected s \<in> set (sn_protected s)" using r by (simp add: own_protected_def)
  then show "subset_ok st (own_protected s)" "subset_elems (own_protected s) \<subseteq> {..<n}"
    "db_size (sn_buf s) = 0 \<longrightarrow> subset_elems (own_protected s) = {}"
    using assms by (simp_all add: fixed_snap_def subsets_within_def)
qed

text \<open>A target with room for \<open>k\<close> elements, or one that is trusted to have room for \<open>n\<close>.\<close>

definition target_ok :: "nat \<Rightarrow> nat \<Rightarrow> nat \<Rightarrow> data_ref \<Rightarrow> bool" where
  "target_ok es n k dst \<longleftrightarrow> 0 < k \<and> k * es \<le> INT_MAX \<and>
     (dr_size dst = k * es \<or> dr_size dst = SIZE_MAX \<and> k = n)"

lemma copy_out_fixed:
  assumes n: "0 < es" "0 < n" "n * es \<le> INT_MAX" and s: "fixed_snap st es n s"
    and d: "subset_ok st d" "subset_elems d \<subseteq> {..<n}" "db_size (sn_buf s) = 0 \<longrightarrow> subset_elems d = {}"
    and t: "target_ok es n k dst" "k * es \<le> length (load_obj (ls_heap l) (dr_data dst))"
  shows "\<exists>bytes. copy_out s dst d l = (Inr (), l\<lparr>ls_heap := store_obj (dr_data dst) bytes (ls_heap l)\<rparr>) \<and>
    moved es (subset_elems d \<inter> {..<k}) (db_data (sn_buf s)) (load_obj (ls_heap l) (dr_data dst)) bytes"
proof -
  let ?user = "load_obj (ls_heap l) (dr_data dst)"
  let ?sr = "\<lparr>sr_user = dst, sr_dir = Deserialize, sr_dynamic = False, sr_elm_size = es\<rparr>"
  obtain R where R: "d = basic_subset R" "regions_ok st R" using subset_ok_basic [OF d(1)] by blast
  then have el: "subset_elems d = regions_elems R" by (simp add: subset_elems_def)
  have b: "db_ok (sn_buf s)" "db_size (sn_buf s) = 0 \<or> db_size (sn_buf s) = n * es" "sn_elm_size s = es"
    using s by (simp_all add: fixed_snap_def)
  have md: "db_size (sn_buf s) mod es = 0" "\<not> ref_is_bounded dst \<or> dr_size dst mod es = 0"
    using b(2) t(1) by (auto simp: target_ok_def ref_is_bounded_def)
  have k: "0 < k" "k * es \<le> INT_MAX" using t(1) by (simp_all add: target_ok_def)
  have kS: "k * es \<noteq> SIZE_MAX" using k(2) INT_MAX_lt(2) by linarith
  have mm: "min (n * es) (k * es) = min n k * es" using n(1) by (auto simp: min_def)
  have size: "serializer_size ?sr (sn_buf s) = Some (if db_size (sn_buf s) = 0 then 0 else min n k * es)"
    using md n(1) b(2) t(1) kS by (auto simp: serializer_size_def target_ok_def ref_is_bounded_def mm)
  have "create_deserializer s dst = Some ?sr"
    using size b(3) by (simp add: create_deserializer_def mk_serializer_def)
  moreover have "\<exists>xs. copy_data d ?sr (sn_buf s) ?user = Some xs \<and>
      moved es (subset_elems d \<inter> {..<k}) (db_data (sn_buf s)) ?user xs"
  proof (cases "db_size (sn_buf s) = 0")
    case True
    then have "R = []" using d(3) el regions_empty_iff [OF R(2)] by simp
    moreover have "bounded_regions (basic_subset []) m = Some []" for m
      by (simp add: bounded_regions_def bounded_range_def)
    ultimately show ?thesis using size R(1) el by (simp add: copy_data_def max_element_of_def)
  next
    case False
    have m: "0 < min n k" "min n k * es \<le> INT_MAX" "es \<noteq> 0" using n k by (simp_all add: min_def)
    have "min n k * es \<le> k * es" "min n k * es \<le> n * es" by (simp_all add: min_def)
    then have le: "min n k * es \<le> length ?user" "min n k * es \<le> length (db_data (sn_buf s))"
      using t(2) b(2) False db_data_length [OF b(1)] by linarith+
    have sz: "serializer_size ?sr (sn_buf s) = Some (min n k * es)" using size False by simp
    have "regions_elems R \<inter> {..<min n k} = regions_elems R \<inter> {..<k}" using d(2) el by auto
    then show ?thesis using copy_data_out [OF R(2) _ _ _ m sz le] R(1) el by simp
  qed
  ultimately show ?thesis by (auto simp: copy_out_def comp)
qed

section \<open>Loading from all snapshots\<close>

text \<open>The newest snapshot that has an element; the list is from newest to oldest.\<close>

definition newest :: "snapshot list \<Rightarrow> nat \<Rightarrow> snapshot option" where
  "newest L x = List.find (\<lambda>s. x \<in> subset_elems (own_protected s)) L"

lemma newest_Cons: "newest (s # L) x = (if x \<in> subset_elems (own_protected s) then Some s else newest L x)"
  by (simp add: newest_def)

text \<open>What a load has put into the target: \<open>old\<close> are the bytes before, \<open>skip\<close> the elements found before.\<close>

definition loaded :: "nat \<Rightarrow> nat \<Rightarrow> nat set \<Rightarrow> snapshot list \<Rightarrow> byte list \<Rightarrow> byte list \<Rightarrow> bool" where
  "loaded es k skip L old new \<longleftrightarrow> length new = length old \<and>
     (\<forall>i < length old. new ! i =
        (case newest L (i div es) of
           Some s \<Rightarrow> if i div es < k \<and> i div es \<notin> skip then db_data (sn_buf s) ! i else old ! i
         | None \<Rightarrow> old ! i))"

lemma load_store_obj: "p \<noteq> Null \<Longrightarrow> load_obj (store_obj p xs h) p = xs"
  by (cases p) (simp_all add: load_obj_def store_obj_def)

lemma store_store_obj: "store_obj p ys (store_obj p xs h) = store_obj p ys h"
  by (cases p) (simp_all add: store_obj_def)

lemma store_load_obj: "store_obj p (load_obj h p) h = h"
  by (cases p) (simp_all add: load_obj_def store_obj_def)

lemma subset_diff_same:
  assumes "subset_ok st a" "subset_ok st b"
  obtains d where "subset_diff a b = Some d" "subset_ok st d" "subset_elems d = subset_elems a - subset_elems b"
proof -
  obtain A B where A: "a = basic_subset A" "regions_ok st A" and B: "b = basic_subset B" "regions_ok st B"
    using subset_ok_basic [OF assms(1)] subset_ok_basic [OF assms(2)] by blast
  obtain D where "subset_diff a b = Some (basic_subset D)" "regions_ok st D"
      "regions_elems D = regions_elems A - regions_elems B"
    unfolding A(1) B(1) by (rule diff_regions_correct [OF A(2) B(2)])
  then show ?thesis by (rule_tac that [of "basic_subset D"]) (simp_all add: subset_ok_def subset_elems_def A B)
qed

lemma loaded_step:
  assumes "moved es ((subset_elems (own_protected s) - F) \<inter> {..<k}) (db_data (sn_buf s)) old mid"
    "loaded es k (F \<union> subset_elems (own_protected s)) L mid new"
  shows "loaded es k F (s # L) old new"
  unfolding loaded_def
proof (intro conjI allI impI)
  show "length new = length old" using assms by (simp add: loaded_def moved_def)
  fix i
  assume i: "i < length old"
  let ?x = "i div es" and ?P = "subset_elems (own_protected s)"
  have mid: "mid ! i = (if ?x \<in> (?P - F) \<inter> {..<k} then db_data (sn_buf s) ! i else old ! i)"
    using assms(1) i by (simp add: moved_def)
  have new: "new ! i = (case newest L ?x of
      Some t \<Rightarrow> if ?x < k \<and> ?x \<notin> F \<union> ?P then db_data (sn_buf t) ! i else mid ! i | None \<Rightarrow> mid ! i)"
    using assms i by (simp add: loaded_def moved_def)
  show "new ! i = (case newest (s # L) ?x of
      Some t \<Rightarrow> if ?x < k \<and> ?x \<notin> F then db_data (sn_buf t) ! i else old ! i | None \<Rightarrow> old ! i)"
    using new mid by (cases "?x \<in> ?P") (auto simp: newest_Cons split: option.splits)
qed

lemma loaded_covered:
  assumes "{..<k} \<subseteq> F"
  shows "loaded es k F L old old"
  using assms by (auto simp: loaded_def split: option.splits)

lemma loaded_Nil: "loaded es k F [] old old"
  by (simp add: loaded_def newest_def)

text \<open>
  The loop stops early only when everything wanted is there, and every element comes from
  the newest snapshot that has it.
\<close>

lemma load_all_correct:
  assumes n: "0 < es" "0 < n" "n * es \<le> INT_MAX" and count: "0 < count" "nat count \<le> INT_MAX"
    and L: "\<forall>s \<in> set L. fixed_snap st es n s \<and> 0 \<le> sn_timestamp s"
    and t: "target_ok es n k dst" "k \<le> nat count" "dr_data dst \<noteq> Null"
    and f: "subset_ok st (ls_found l)" "subset_elems (ls_found l) \<subseteq> {..<n}"
    and len: "k * es \<le> length (load_obj (ls_heap l) (dr_data dst))"
  shows "\<exists>new found P. load_all dst count L l
      = (Inr (), \<lparr>ls_heap = store_obj (dr_data dst) new (ls_heap l), ls_found = found\<rparr>) \<and>
    loaded es k (subset_elems (ls_found l)) L (load_obj (ls_heap l) (dr_data dst)) new \<and>
    subset_ok st found \<and> set P \<subseteq> set L \<and>
    subset_elems found = subset_elems (ls_found l) \<union> (\<Union>s \<in> set P. subset_elems (own_protected s)) \<and>
    (P = L \<or> {..<nat count} \<subseteq> subset_elems found)"
  using L f len
proof (induction L arbitrary: l)
  case Nil
  then show ?case
    by (intro exI [of _ "load_obj (ls_heap l) (dr_data dst)"] exI [of _ "ls_found l"] exI [of _ "[]"])
      (simp add: comp loaded_Nil store_load_obj)
next
  case (Cons s L)
  let ?p = "dr_data dst" and ?F = "subset_elems (ls_found l)" and ?P = "subset_elems (own_protected s)"
  let ?old = "load_obj (ls_heap l) (dr_data dst)"
  have s: "fixed_snap st es n s" "0 \<le> sn_timestamp s" using Cons.prems(1) by simp_all
  note own = protected_own [OF s(1)]
  obtain d where d: "subset_diff (own_protected s) (ls_found l) = Some d" "subset_ok st d" "subset_elems d = ?P - ?F"
    by (rule subset_diff_same [OF own(2) Cons.prems(2)])
  have dn: "subset_elems d \<subseteq> {..<n}" "db_size (sn_buf s) = 0 \<longrightarrow> subset_elems d = {}" using d(3) own(3,4) by auto
  obtain mid where mid: "copy_out s dst d l = (Inr (), l\<lparr>ls_heap := store_obj ?p mid (ls_heap l)\<rparr>)"
    "moved es ((?P - ?F) \<inter> {..<k}) (db_data (sn_buf s)) ?old mid"
    using copy_out_fixed [OF n s(1) d(2) dn t(1) Cons.prems(4)] d(3) by auto
  obtain u where u: "subset_union (ls_found l) (own_protected s) = Some u" "subset_ok st u" "subset_elems u = ?F \<union> ?P"
    by (rule subset_union_same [OF Cons.prems(2) own(2)])
  let ?l = "\<lparr>ls_heap = store_obj ?p mid (ls_heap l), ls_found = u\<rparr>"
  have c: "size_of_int (i32 (count - 1)) = nat count - 1"
  proof -
    have "count - 1 \<le> INT32_MAX" using count INT_MAX_32 by linarith
    then show ?thesis using count(1) by (simp add: i32_exact size_of_int_exact nat_diff_distrib)
  qed
  have cI: "nat count - 1 \<le> IDX_MAX" using count(2) INT_MAX_lt(1) by linarith
  have upto: "{..nat count - 1} = {..<nat count}" using count(1) by auto
  obtain U where U: "u = basic_subset U" "regions_ok st U" using subset_ok_basic [OF u(2)] by blast
  have done': "subset_includes_all u (size_of_int (i32 (count - 1))) = Some ({..<nat count} \<subseteq> subset_elems u)"
    using includes_all_regions [OF U(2), of "nat count - 1"] cI unfolding c U(1) upto by (simp add: subset_elems_def)
  have eta: "l\<lparr>ls_heap := store_obj ?p mid (ls_heap l), ls_found := u\<rparr> = ?l" by (cases l) simp
  have step: "load_all dst count (s # L) l =
      (if {..<nat count} \<subseteq> subset_elems u then (Inr (), ?l) else load_all dst count L ?l)"
    using s(2) own(1) count(1) d(1) mid(1) u(1) done' by (simp add: comp) (simp only: eta simp_thms)
  have mlen: "length mid = length ?old" using mid(2) by (simp add: moved_def)
  have at: "load_obj (ls_heap ?l) ?p = mid" using t(3) by (simp add: load_store_obj)
  show ?case
  proof (cases "{..<nat count} \<subseteq> subset_elems u")
    case True
    have "{..<k} \<subseteq> subset_elems u" using True t(2) by auto
    then have "loaded es k (?F \<union> ?P) L mid mid" using loaded_covered u(3) by simp
    from loaded_step [OF mid(2) this] show ?thesis
      using step True u by (intro exI [of _ mid] exI [of _ u] exI [of _ "[s]"]) auto
  next
    case False
    have "subset_elems (ls_found ?l) \<subseteq> {..<n}" using u(3) Cons.prems(3) own(3) by simp
    moreover have "k * es \<le> length (load_obj (ls_heap ?l) ?p)" using mlen Cons.prems(4) at by simp
    ultimately obtain new found Q where r: "load_all dst count L ?l
        = (Inr (), \<lparr>ls_heap = store_obj ?p new (ls_heap ?l), ls_found = found\<rparr>)"
      "loaded es k (subset_elems (ls_found ?l)) L (load_obj (ls_heap ?l) ?p) new" "subset_ok st found" "set Q \<subseteq> set L"
      "subset_elems found = subset_elems (ls_found ?l) \<union> (\<Union>s \<in> set Q. subset_elems (own_protected s))"
      "Q = L \<or> {..<nat count} \<subseteq> subset_elems found"
      using Cons.IH [of ?l] Cons.prems(1) u(2) by auto
    have "loaded es k (?F \<union> ?P) L mid new" using r(2) at u(3) by simp
    from loaded_step [OF mid(2) this] show ?thesis
      using step False r u(3)
      by (intro exI [of _ new] exI [of _ found] exI [of _ "s # Q"]) (auto simp: store_store_obj)
  qed
qed

end
