(* ===== verification/Member_Run.thy ===== *)
theory Member_Run
  imports Member_Load
begin

text \<open>
  Whole runs of a member (src/data/member.cpp): \<open>load\<close> with its checks, and the round trip of
  \<open>store\<close>, \<open>commit\<close> and \<open>load\<close>.
\<close>

section \<open>The result of a load\<close>

text \<open>\<open>all\<close>: everything that was asked for has been found.\<close>

definition load_result :: "bool \<Rightarrow> failure + unit" where
  "load_result all = (if all then Inr () else Inl (Throw FENIX_WARNING_PARTIAL_RESTORE))"

lemma count_check:
  assumes d: "subset_ok st d" and k: "0 < k" "k \<le> INT_MAX"
  shows "subset_includes_all d (size_of_int (i32 (int k - 1))) = Some ({..<k} \<subseteq> subset_elems d)"
proof -
  obtain R where R: "d = basic_subset R" "regions_ok st R" using subset_ok_basic [OF d] by blast
  have e: "int k - 1 = int (k - 1)" using k(1) by simp
  have c: "size_of_int (i32 (int k - 1)) = k - 1" unfolding e using k(2) by (intro size_i32) simp
  have "k - 1 \<le> IDX_MAX" using k(2) INT_MAX_lt(1) by linarith
  moreover have "{..k - 1} = {..<k}" using k(1) by auto
  ultimately show ?thesis
    using includes_all_regions [OF R(2), of "k - 1"] unfolding c R(1) by (simp add: subset_elems_def)
qed

text \<open>The check at the end of \<open>load\<close>, for a count and for \<open>FENIX_DATA_RESTORE_FULL\<close>.\<close>

definition load_check :: "int \<Rightarrow> (load_state, unit) comp" where
  "load_check count =
     andThen getS (\<lambda>l.
     andThen (if count = RESTORE_FULL then liftO (map_option int_of_size (subset_max_count (ls_found l)))
              else ret count) (\<lambda>n.
     andThen (if n > 0 then liftO (subset_includes_all (ls_found l) (size_of_int (i32 (n - 1)))) else ret True) (\<lambda>full.
     throwIf (\<not> full) FENIX_WARNING_PARTIAL_RESTORE)))"

lemma load_check_count:
  assumes "subset_ok st (ls_found l)" "0 < k" "k < INT_MAX"
  shows "load_check (int k) l = (load_result ({..<k} \<subseteq> subset_elems (ls_found l)), l)"
proof -
  have "int k \<noteq> RESTORE_FULL" using assms(3) INT_MAX_32 unfolding RESTORE_FULL_def by linarith
  then show ?thesis using count_check [OF assms(1,2)] assms(2,3) by (simp add: load_check_def comp load_result_def)
qed

lemma load_check_full:
  assumes d: "subset_ok st (ls_found l)" "subset_elems (ls_found l) \<subseteq> {..<n}" and n: "n \<le> INT_MAX"
  shows "load_check RESTORE_FULL l = (load_result (\<exists>j. subset_elems (ls_found l) = {..<j}), l)"
proof -
  obtain R where R: "ls_found l = basic_subset R" "regions_ok st R" using subset_ok_basic [OF d(1)] by blast
  have el: "subset_elems (ls_found l) = regions_elems R" using R(1) by (simp add: subset_elems_def)
  show ?thesis
  proof (cases "R = []")
    case True
    have "int_of_size 0 = 0" by (simp add: int_of_size_def)
    moreover have "\<exists>j. regions_elems [] = {..<j}" by (rule exI [of _ 0]) simp
    ultimately show ?thesis using R(1) el True by (simp add: load_check_def comp load_result_def)
  next
    case False
    have lt: "regions_end R < n" by (rule regions_end_lt [OF R(2) False]) (use d(2) el in simp)
    then have sz: "sz_add (regions_end R) 1 = regions_end R + 1" "regions_end R + 1 \<le> INT_MAX"
      using n INT_MAX_lt(2) by (simp_all add: sz_add_exact)
    then have io: "int_of_size (sz_add (regions_end R) 1) = int (regions_end R + 1)" by (simp only: int_of_size_exact)
    have ck: "subset_includes_all (ls_found l) (size_of_int (i32 (int (regions_end R + 1) - 1)))
        = Some ({..<regions_end R + 1} \<subseteq> subset_elems (ls_found l))"
      using count_check [OF d(1) _ sz(2)] by simp
    have "{..<regions_end R + 1} \<subseteq> regions_elems R \<longleftrightarrow> (\<exists>j. regions_elems R = {..<j})"
    proof
      assume "{..<regions_end R + 1} \<subseteq> regions_elems R"
      moreover have "regions_elems R \<subseteq> {..<regions_end R + 1}" using regions_le_end [OF R(2)] by fastforce
      ultimately show "\<exists>j. regions_elems R = {..<j}" by blast
    next
      assume "\<exists>j. regions_elems R = {..<j}"
      then obtain j where j: "regions_elems R = {..<j}" by blast
      then have "regions_end R < j" using regions_end_in [OF R(2) False] by simp
      then show "{..<regions_end R + 1} \<subseteq> regions_elems R" unfolding j by auto
    qed
    then show ?thesis
      using R(1) el io ck by (simp add: load_check_def comp load_result_def)
  qed
qed

lemma member_load_eq:
  "member_load m target count ts = andThen (if ts \<noteq> SNAPSHOT_ALL then
      andThen (liftE (find_snapshot m ts)) (\<lambda>s.
      andThen (liftO (protected_subset s)) (\<lambda>prot.
      andThen (modS (\<lambda>l. l\<lparr>ls_found := prot\<rparr>)) (\<lambda>_.
      if count > 0 then copy_out s (load_target m target count) prot else ret ())))
    else
      andThen (throwIf (mb_commits m = []) FENIX_ERROR_NODATA_FOUND) (\<lambda>_.
      andThen (modS (\<lambda>l. l\<lparr>ls_found := empty_subset\<rparr>)) (\<lambda>_.
      load_all (load_target m target count) count (rev (mb_commits m))))) (\<lambda>_. load_check count)"
  by (simp add: member_load_def load_check_def Let_def)

section \<open>Targets\<close>

text \<open>
  A load of \<open>count\<close> elements into \<open>target\<close>: \<open>k\<close> elements are wanted, \<open>n\<close> when the count is
  \<open>FENIX_DATA_RESTORE_FULL\<close>; \<open>p\<close> is where they go, the member's own buffer for a null target.
\<close>

definition load_into :: "member \<Rightarrow> ptr \<Rightarrow> ptr" where
  "load_into m target = (if target = Null then dr_data (mb_user m) else target)"

definition wanted :: "nat \<Rightarrow> int \<Rightarrow> nat" where
  "wanted n count = (if count = RESTORE_FULL then n else nat count)"

definition load_args_ok :: "nat \<Rightarrow> nat \<Rightarrow> member \<Rightarrow> ptr \<Rightarrow> int \<Rightarrow> heap \<Rightarrow> bool" where
  "load_args_ok es n m target count h \<longleftrightarrow>
     0 < count \<and> count \<le> INT32_MAX \<and> load_into m target \<noteq> Null \<and>
     wanted n count * es \<le> INT_MAX \<and> wanted n count * es \<le> length (load_obj h (load_into m target))"

lemma load_target_eq:
  assumes "mt_extent (mb_type m) = es" "load_args_ok es n m target count h"
  shows "load_target m target count = \<lparr>dr_data = load_into m target,
    dr_size = (if count = RESTORE_FULL then SIZE_MAX else wanted n count * es)\<rparr>"
proof (cases "count = RESTORE_FULL")
  case True
  then show ?thesis by (simp add: load_target_def Let_def unbounded_ref_def load_into_def)
next
  case False
  have w: "wanted n count * es \<le> INT_MAX" "0 < count" using assms(2) by (simp_all add: load_args_ok_def)
  then have e: "count * int es = int (wanted n count * es)" using False by (simp add: wanted_def)
  have "size_of_int (i32 (count * int es)) = wanted n count * es" unfolding e by (rule size_i32 [OF w(1)])
  then show ?thesis using False assms(1) by (simp add: load_target_def Let_def load_into_def)
qed

lemma load_target_ok:
  assumes "0 < n" "n * es \<le> INT_MAX" "load_args_ok es n m target count h"
  shows "target_ok es n (wanted n count) \<lparr>dr_data = load_into m target,
    dr_size = (if count = RESTORE_FULL then SIZE_MAX else wanted n count * es)\<rparr>"
  using assms by (auto simp: target_ok_def load_args_ok_def wanted_def)

lemma load_check_wanted:
  assumes d: "subset_ok st (ls_found l)" "subset_elems (ls_found l) \<subseteq> {..<n}" and n: "n \<le> INT_MAX"
    and c: "0 < count" "count \<le> INT32_MAX"
  shows "load_check count l = (load_result (if count = RESTORE_FULL then \<exists>j. subset_elems (ls_found l) = {..<j}
    else {..<wanted n count} \<subseteq> subset_elems (ls_found l)), l)"
proof (cases "count = RESTORE_FULL")
  case True
  then show ?thesis using load_check_full [OF d n] by simp
next
  case False
  have k: "int (nat count) = count" "0 < nat count" using c(1) by simp_all
  have "nat count < INT_MAX" using False c k(1) INT_MAX_32 unfolding RESTORE_FULL_def by linarith
  from load_check_count [OF d(1) k(2) this] show ?thesis using False k(1) by (simp add: wanted_def)
qed

section \<open>Loading one snapshot\<close>

lemma member_load_one:
  assumes m: "member_ok st es n m" and s: "find_snapshot m ts = Inr s" "s \<in> set (mb_commits m)" "ts \<noteq> SNAPSHOT_ALL"
    and a: "load_args_ok es n m target count (ls_heap l)"
  shows "\<exists>new. member_load m target count ts l =
    (load_result (if count = RESTORE_FULL then \<exists>j. subset_elems (own_protected s) = {..<j}
       else {..<wanted n count} \<subseteq> subset_elems (own_protected s)),
     \<lparr>ls_heap = store_obj (load_into m target) new (ls_heap l), ls_found = own_protected s\<rparr>) \<and>
    moved es (subset_elems (own_protected s) \<inter> {..<wanted n count}) (db_data (sn_buf s))
      (load_obj (ls_heap l) (load_into m target)) new"
proof -
  have n: "0 < es" "0 < n" "n * es \<le> INT_MAX" "mt_extent (mb_type m) = es" "fixed_snap st es n s"
    using m s(2) by (simp_all add: member_ok_def)
  note own = protected_own [OF n(5)] and tgt = load_target_eq [OF n(4) a] and tok = load_target_ok [OF n(2,3) a]
  have nI: "n \<le> INT_MAX" by (rule fixed_count(3) [OF n(2,3,1)])
  have c: "0 < count" "count \<le> INT32_MAX" using a by (simp_all add: load_args_ok_def)
  let ?l = "l\<lparr>ls_found := own_protected s\<rparr>"
  have len: "wanted n count * es \<le> length (load_obj (ls_heap ?l) (load_into m target))"
    using a by (simp add: load_args_ok_def)
  obtain new where new: "copy_out s (load_target m target count) (own_protected s) ?l
      = (Inr (), ?l\<lparr>ls_heap := store_obj (load_into m target) new (ls_heap l)\<rparr>)"
    "moved es (subset_elems (own_protected s) \<inter> {..<wanted n count}) (db_data (sn_buf s))
      (load_obj (ls_heap l) (load_into m target)) new"
    using copy_out_fixed [OF n(1-3,5) own(2-4) tok, of ?l] len unfolding tgt by auto
  let ?l' = "?l\<lparr>ls_heap := store_obj (load_into m target) new (ls_heap l)\<rparr>"
  have eta: "?l' = \<lparr>ls_heap = store_obj (load_into m target) new (ls_heap l), ls_found = own_protected s\<rparr>"
    by (cases l) simp
  have "load_check count ?l' = (load_result (if count = RESTORE_FULL then \<exists>j. subset_elems (own_protected s) = {..<j}
      else {..<wanted n count} \<subseteq> subset_elems (own_protected s)), ?l')"
    using load_check_wanted [of st ?l' n count] own(2,3) nI c by simp
  then have "member_load m target count ts l = (load_result (if count = RESTORE_FULL
      then \<exists>j. subset_elems (own_protected s) = {..<j}
      else {..<wanted n count} \<subseteq> subset_elems (own_protected s)), ?l')"
    using s(1,3) own(1) c(1) new(1) unfolding member_load_eq by (simp add: comp)
  then show ?thesis using new(2) unfolding eta by blast
qed

section \<open>Loading from all snapshots\<close>

lemma member_load_newest:
  assumes m: "member_ok st es n m" and ne: "mb_commits m \<noteq> []"
    and a: "load_args_ok es n m target count (ls_heap l)"
  shows "\<exists>r new found. member_load m target count SNAPSHOT_ALL l =
      (r, \<lparr>ls_heap = store_obj (load_into m target) new (ls_heap l), ls_found = found\<rparr>) \<and>
    loaded es (wanted n count) {} (rev (mb_commits m)) (load_obj (ls_heap l) (load_into m target)) new \<and>
    subset_elems found \<subseteq> (\<Union>s \<in> set (mb_commits m). subset_elems (own_protected s)) \<and>
    (count \<noteq> RESTORE_FULL \<longrightarrow> r = load_result ({..<wanted n count}
      \<subseteq> (\<Union>s \<in> set (mb_commits m). subset_elems (own_protected s))))"
proof -
  have n: "0 < es" "0 < n" "n * es \<le> INT_MAX" "mt_extent (mb_type m) = es"
    and L: "\<forall>s \<in> set (rev (mb_commits m)). fixed_snap st es n s \<and> 0 \<le> sn_timestamp s"
    using m by (simp_all add: member_ok_def)
  note tgt = load_target_eq [OF n(4) a] and tok = load_target_ok [OF n(2,3) a]
  have nI: "n \<le> INT_MAX" by (rule fixed_count(3) [OF n(2,3,1)])
  have c: "0 < count" "count \<le> INT32_MAX" "load_into m target \<noteq> Null" using a by (simp_all add: load_args_ok_def)
  have cI: "nat count \<le> INT_MAX" using c(2) INT_MAX_32 by linarith
  have wc: "wanted n count \<le> nat count"
    using nI INT_MAX_32 by (auto simp: wanted_def RESTORE_FULL_def simp flip: INT_MAX_32)
  let ?l = "l\<lparr>ls_found := empty_subset\<rparr>" and ?U = "\<Union>s \<in> set (mb_commits m). subset_elems (own_protected s)"
  have len: "wanted n count * es \<le> length (load_obj (ls_heap ?l) (load_into m target))"
    using a by (simp add: load_args_ok_def)
  obtain new found P where r: "load_all (load_target m target count) count (rev (mb_commits m)) ?l
      = (Inr (), \<lparr>ls_heap = store_obj (load_into m target) new (ls_heap l), ls_found = found\<rparr>)"
    "loaded es (wanted n count) {} (rev (mb_commits m)) (load_obj (ls_heap l) (load_into m target)) new"
    "subset_ok st found" "set P \<subseteq> set (rev (mb_commits m))"
    "subset_elems found = (\<Union>s \<in> set P. subset_elems (own_protected s))"
    "P = rev (mb_commits m) \<or> {..<nat count} \<subseteq> subset_elems found"
    using load_all_correct [OF n(1-3) c(1) cI L tok wc, of ?l] len c(3) unfolding tgt by auto
  let ?l' = "\<lparr>ls_heap = store_obj (load_into m target) new (ls_heap l), ls_found = found\<rparr>"
  have sub: "subset_elems found \<subseteq> ?U" using r(4,5) by auto
  moreover have "?U \<subseteq> {..<n}" using L protected_own(3) by fastforce
  ultimately have fn: "subset_elems found \<subseteq> {..<n}" by blast
  have chk: "load_check count ?l' = (load_result (if count = RESTORE_FULL then \<exists>j. subset_elems found = {..<j}
      else {..<wanted n count} \<subseteq> subset_elems found), ?l')"
    using load_check_wanted [of st ?l' n count] r(3) fn nI c(1,2) by simp
  have run: "member_load m target count SNAPSHOT_ALL l = (load_result (if count = RESTORE_FULL
      then \<exists>j. subset_elems found = {..<j} else {..<wanted n count} \<subseteq> subset_elems found), ?l')"
    using ne r(1) chk unfolding member_load_eq by (simp add: comp)
  have "{..<wanted n count} \<subseteq> subset_elems found \<longleftrightarrow> {..<wanted n count} \<subseteq> ?U"
  proof
    assume "{..<wanted n count} \<subseteq> subset_elems found"
    then show "{..<wanted n count} \<subseteq> ?U" using sub by (rule subset_trans)
  next
    assume U: "{..<wanted n count} \<subseteq> ?U"
    show "{..<wanted n count} \<subseteq> subset_elems found"
    proof (cases "P = rev (mb_commits m)")
      case True
      then show ?thesis using U r(5) by simp
    next
      case False
      then show ?thesis using r(6) wc by auto
    qed
  qed
  then show ?thesis using run r(2) sub by auto
qed

section \<open>Store, commit, load\<close>

lemma trimmed_snoc: "0 \<le> d \<Longrightarrow> x \<in> set (trimmed d (L @ [x])) \<and> (trimmed d (L @ [x]) \<noteq> [] \<and> last (trimmed d (L @ [x])) = x)"
  by (cases L) (auto simp: trimmed_def)

lemma within_end_fits:
  assumes "regions_ok st R" "regions_elems R \<subseteq> {..<n}" "n * es \<le> INT_MAX"
  shows "end_fits es R"
proof (cases "R = []")
  case False
  then have "regions_end R + 1 \<le> n" using regions_end_lt [OF assms(1) False assms(2)] by simp
  then have "(regions_end R + 1) * es \<le> n * es" by (rule mult_le_mono1)
  then show ?thesis using assms(3) INT_MAX_lt(2) by (simp add: end_fits_def)
qed (simp add: end_fits_def)

text \<open>A subset that a member of \<open>n\<close> elements can store: some of its elements, or all.\<close>

definition storable :: "nat \<Rightarrow> nat \<Rightarrow> data_subset \<Rightarrow> bool" where
  "storable st n d \<longleftrightarrow> subset_ok st d \<and> (subset_elems d \<subseteq> {..<n} \<or> d = subset_full)"

lemma full_fits: "end_fits es [full_region]"
  by (simp add: end_fits_def regions_end_def full_region_def region_range_def)

lemma storableE:
  assumes "storable st n d" "n * es \<le> INT_MAX"
  obtains R where "d = basic_subset R" "regions_ok st R" "end_fits es R"
proof -
  obtain R where R: "d = basic_subset R" "regions_ok st R"
    using assms(1) subset_ok_basic [of st d] by (auto simp: storable_def)
  have "end_fits es R"
  proof (cases "d = subset_full")
    case True
    then have "R = [full_region]" using R(1) by (simp add: subset_full_def basic_subset_def)
    then show ?thesis using full_fits by simp
  next
    case False
    then have "regions_elems R \<subseteq> {..<n}" using assms(1) R(1) by (simp add: storable_def subset_elems_def)
    then show ?thesis by (rule within_end_fits [OF R(2) _ assms(2)])
  qed
  then show ?thesis using R that by blast
qed

lemma store_member_ok:
  assumes mal: "malloc_ok fresh" and m: "member_ok st es n m" and d: "storable st n d"
    and h: "n * es \<le> length (load_obj h (dr_data (mb_user m)))"
  shows "\<exists>s s'. mb_stage m = Some s \<and> member_store fresh h d m = (Inr FENIX_SUCCESS, m\<lparr>mb_stage := Some s'\<rparr>) \<and>
    stored_by st es n d (load_obj h (dr_data (mb_user m))) s s' \<and> member_ok st es n (m\<lparr>mb_stage := Some s'\<rparr>)"
proof -
  have n: "0 < es" "0 < n" "n * es \<le> INT_MAX" "mt_extent (mb_type m) = es" "dr_size (mb_user m) = n * es"
    using m by (simp_all add: member_ok_def)
  obtain s where s: "mb_stage m = Some s" "fixed_snap st es n s" using m by (auto simp: member_ok_def)
  obtain R where R: "d = basic_subset R" "regions_ok st R" "end_fits es R" by (rule storableE [OF d n(3)])
  obtain s' where s': "member_store fresh h d m = (Inr FENIX_SUCCESS, m\<lparr>mb_stage := Some s'\<rparr>)"
    "stored_by st es n d (load_obj h (dr_data (mb_user m))) s s'"
    using member_store_fixed [OF mal n(1-3) s(2,1) n(4,5) h R(2,3)] unfolding R(1) by blast
  then have "fixed_snap st es n s'" by (simp add: stored_by_def)
  then have "member_ok st es n (m\<lparr>mb_stage := Some s'\<rparr>)" using m by (simp add: member_ok_def)
  then show ?thesis using s(1) s' by blast
qed

lemma store_commit:
  assumes mal: "malloc_ok fresh" and m: "member_ok st es n m" and d: "storable st n d"
    and h: "n * es \<le> length (load_obj h (dr_data (mb_user m)))"
    and c: "cm_rank c < comm_size c" and ts: "0 \<le> ts" "\<forall>s \<in> set (mb_commits m). sn_timestamp s < ts"
  obtains m1 m2 s where "member_store fresh h d m = (Inr FENIX_SUCCESS, m1)" "member_commit fresh c ts m1 = Some m2"
    "member_ok st es n m2" "s \<in> set (mb_commits m2)" "last (mb_commits m2) = s" "sn_timestamp s = ts"
    "subset_elems d \<inter> {..<n} \<subseteq> subset_elems (own_protected s)" "mb_user m2 = mb_user m"
    "\<forall>i < n * es. i div es \<in> subset_elems d \<longrightarrow> db_data (sn_buf s) ! i = load_obj h (dr_data (mb_user m)) ! i"
proof -
  let ?user = "load_obj h (dr_data (mb_user m))"
  obtain s s' where s: "mb_stage m = Some s" "member_store fresh h d m = (Inr FENIX_SUCCESS, m\<lparr>mb_stage := Some s'\<rparr>)"
    "stored_by st es n d ?user s s'" "member_ok st es n (m\<lparr>mb_stage := Some s'\<rparr>)"
    using store_member_ok [OF mal m d h] by blast
  let ?m1 = "m\<lparr>mb_stage := Some s'\<rparr>" and ?s = "s'\<lparr>sn_timestamp := ts\<rparr>"
  have fs: "fixed_snap st es n s" using m s(1) by (simp add: member_ok_def)
  have r: "nat (sn_rank s) < length (sn_staged s)" "length (sn_protected s) = length (sn_staged s)"
    using fs by (simp_all add: fixed_snap_def)
  have st: "sn_staged s' = replicate (length (sn_staged s)) empty_subset" "sn_rank s' = sn_rank s"
    "length (sn_protected s') = length (sn_protected s)"
    and el: "\<forall>i < length (sn_protected s). subset_elems (sn_protected s' ! i) = subset_elems (sn_protected s ! i)
        \<union> subset_elems (sn_staged s ! nat (sn_rank s)) \<union> (subset_elems d \<inter> {..<n})"
    and data: "\<forall>i < n * es. i div es \<in> subset_elems d \<longrightarrow> db_data (sn_buf s') ! i = ?user ! i"
    using s(3) unfolding stored_by_def by blast+
  have un: "subset_elems (sn_staged s' ! nat (sn_rank s')) = {}" using st r(1) by simp
  have stage: "mb_stage ?m1 = Some s'" by simp
  obtain m2 where m2: "member_commit fresh c ts ?m1 = Some m2" "member_ok st es n m2"
    "mb_commits m2 = trimmed (mb_depth m) (commit_insert ?s (mb_commits m))" "mb_user m2 = mb_user m"
    using member_commit_fixed [OF mal s(4) stage un c ts(1)] by auto
  have "commit_insert ?s (mb_commits m) = mb_commits m @ [?s]" using ts(2) by (intro kset_insert_last) simp
  moreover have "0 \<le> mb_depth m" using m by (simp add: member_ok_def)
  ultimately have mem: "?s \<in> set (mb_commits m2)" "last (mb_commits m2) = ?s"
    using trimmed_snoc [of "mb_depth m" ?s "mb_commits m"] m2(3) by simp_all
  have "subset_elems d \<inter> {..<n} \<subseteq> subset_elems (own_protected ?s)"
    using el st(2) r by (auto simp: own_protected_def)
  then show ?thesis using that [OF s(2) m2(1,2) mem] m2(4) data by simp
qed

text \<open>A committed snapshot is found by its timestamp, the newest one also as the latest.\<close>

lemma find_snapshot_commit:
  assumes "kset_ok sn_timestamp (mb_commits m)" "s \<in> set (mb_commits m)" "0 \<le> sn_timestamp s"
  shows "find_snapshot m (sn_timestamp s) = Inr s"
proof -
  have "commit_find (sn_timestamp s) (mb_commits m) = Some s"
    using commits.look_iff [OF assms(1)] assms(2) by simp
  then show ?thesis using assms(3) by (simp add: find_snapshot_def search_snapshot_def SNAPSHOT_LATEST_def)
qed

lemma find_snapshot_latest: "mb_commits m \<noteq> [] \<Longrightarrow> find_snapshot m SNAPSHOT_LATEST = Inr (last (mb_commits m))"
  by (simp add: find_snapshot_def search_snapshot_def)

section \<open>A new member\<close>

lemma new_member_ok:
  assumes mal: "malloc_ok fresh" and n: "0 < mt_extent dt" "0 < n" "n * mt_extent dt \<le> INT_MAX"
    and d: "0 \<le> depth" "depth < INT32_MAX" and c: "cm_rank c < comm_size c"
  shows "\<exists>m s. init_snapshots fresh (Some c) (new_member mid p (int n) dt depth) = Some m \<and>
    member_ok st (mt_extent dt) n m \<and> mb_id m = mid \<and> mb_commits m = [] \<and> mb_depth m = depth \<and>
    mb_user m = \<lparr>dr_data = p, dr_size = n * mt_extent dt\<rparr> \<and>
    mb_stage m = Some (init_cohort c s) \<and> idle_snap (mt_extent dt) n s"
proof -
  let ?es = "mt_extent dt"
  have e: "int n * int ?es = int (n * ?es)" by simp
  have sz: "size_of_int (i32 (int n * int ?es)) = n * ?es" unfolding e by (rule size_i32 [OF n(3)])
  have user: "mb_user (new_member mid p (int n) dt depth) = \<lparr>dr_data = p, dr_size = n * ?es\<rparr>"
    using n(2) sz by (simp add: new_member_def)
  have "n \<le> INT_MAX" by (rule fixed_count(3) [OF n(2,3,1)])
  moreover have "n * ?es \<noteq> SIZE_MAX" using n(3) INT_MAX_lt(2) by linarith
  moreover have "mb_type (new_member mid p (int n) dt depth) = dt" by (simp add: new_member_def)
  ultimately have "elm_count (new_member mid p (int n) dt depth) = Some (int n)"
    using n(1) user int_of_size_exact [of n]
    by (simp add: elm_count_def ref_is_bounded_def)
  moreover obtain s where s: "new_snapshot fresh ?es (int n) = Some s" "idle_snap ?es n s"
    using new_idle [OF mal n(2,3,1)] by blast
  ultimately have cs: "create_snapshot fresh (new_member mid p (int n) dt depth) = Some s"
    by (simp add: create_snapshot_def) (simp add: new_member_def)
  let ?m = "(new_member mid p (int n) dt depth)\<lparr>mb_stage := Some (init_cohort c s),
    mb_avail := replicate (nat (depth + 1)) s\<rparr>"
  have "init_snapshots fresh (Some c) (new_member mid p (int n) dt depth) = Some ?m"
    using cs by (simp add: init_snapshots_def Let_def new_member_def)
  moreover have "member_ok st ?es n ?m"
    using n d user init_cohort_fixed [OF s(2) c, of st] s(2)
    by (auto simp: member_ok_def new_member_def kset_ok_def)
  ultimately show ?thesis using s(2) user by (intro exI [of _ ?m] exI [of _ s]) (auto simp: new_member_def)
qed

end
