(* ===== verification/Member_Exchange.thy ===== *)
theory Member_Exchange
  imports Member_Run
begin

text \<open>
  What the ranks of a cohort tell each other about a member (src/data/member.cpp): the
  exchange and the broadcast of subsets, and the metadata that recreates a member on a rank
  that lost it; and buffers as messages and the move of a member.
\<close>

section \<open>Integers as bytes\<close>

lemma length_int_bytes [simp]: "length (int_bytes i) = 4"
  by (simp add: int_bytes_def)

lemma bytes_int_bytes:
  assumes "- 2147483648 \<le> i" "i \<le> INT32_MAX"
  shows "bytes_int (int_bytes i @ rest) = i"
proof -
  have "nat (i mod 4294967296) < 256 ^ 4" by (simp add: nat_less_iff)
  then have "bytes_size (int_bytes i) = nat (i mod 4294967296)" unfolding int_bytes_def bytes_size_digits by simp
  then have "bytes_int (int_bytes i @ rest) = i32 (i mod 4294967296)" by (simp add: bytes_int_def)
  also have "\<dots> = i32 i" by (simp add: i32_def mod_add_left_eq)
  finally show ?thesis using assms by (simp add: i32_exact)
qed

lemma int_of_size_small: "n \<le> INT_MAX \<Longrightarrow> int_of_size n = int n \<and> int n \<le> INT32_MAX"
  using INT_MAX_32 int_of_size_exact by simp

lemma deserialize_ok: "subset_ok st d \<Longrightarrow> subset_deserialize (subset_serialize d) = Some d"
  using subset_ok_basic [of st d] deserialize_serialize by metis

section \<open>The exchange\<close>

lemma split_subsets_concat:
  assumes "\<forall>d \<in> set ds. subset_ok st d" "length pre + length (concat (map subset_serialize ds)) \<le> INT_MAX"
  shows "split_subsets (pre @ concat (map subset_serialize ds))
    (zip (displs (int (length pre)) (map (\<lambda>d. int (length (subset_serialize d))) ds))
      (map (\<lambda>d. int (length (subset_serialize d))) ds)) = Some ds"
  using assms
proof (induction ds arbitrary: pre)
  case Nil
  then show ?case by simp
next
  case (Cons d ds)
  let ?b = "subset_serialize d"
  have le: "length pre + length ?b \<le> INT_MAX" "length (pre @ ?b) + length (concat (map subset_serialize ds)) \<le> INT_MAX"
    using Cons.prems(2) by simp_all
  have "int (length pre + length ?b) \<le> INT32_MAX" using le(1) INT_MAX_32 by linarith
  then have next': "i32 (int (length pre) + int (length ?b)) = int (length (pre @ ?b))" by (simp add: i32_exact)
  have "nat (int (length pre) + int (length ?b)) = length pre + length ?b" by simp
  then show ?case
    using Cons.IH [of "pre @ ?b"] Cons.prems(1) le(2) deserialize_ok [of st d] next'
    by (simp add: fenix_assert_bind)
qed

text \<open>
  The collectives of a cohort in which rank \<open>i\<close> contributes \<open>bufs ! i\<close>, as MPI documents
  them: the counts of all ranks, and all the bytes in rank order.
\<close>

definition gather_all :: "byte list list \<Rightarrow> collectives" where
  "gather_all bufs = \<lparr>co_allgather = (\<lambda>_. Inr (map (\<lambda>b. int_of_size (length b)) bufs)),
     co_allgatherv = (\<lambda>_. Inr (concat bufs))\<rparr>"

text \<open>\<open>rows ! r\<close> is the vector of rank \<open>r\<close>; each rank sends the entry at its own index.\<close>

definition sent :: "data_subset list list \<Rightarrow> data_subset list" where
  "sent rows = map (\<lambda>r. rows ! r ! r) [0..<length rows]"

lemma exchange_all:
  assumes rows: "\<forall>row \<in> set rows. length row = length rows \<and> (\<forall>d \<in> set row. subset_ok st d)"
    and r: "r < length rows" and c: "comm_size c = length rows" "cm_rank c = r"
    and small: "length (concat (map subset_serialize (sent rows))) \<le> INT_MAX"
  shows "exchange_subsets (gather_all (map subset_serialize (sent rows))) c (rows ! r) = Inr (sent rows)"
proof -
  have ok: "\<forall>d \<in> set (sent rows). subset_ok st d"
  proof
    fix d
    assume "d \<in> set (sent rows)"
    then obtain i where i: "i < length rows" "d = rows ! i ! i" by (auto simp: sent_def)
    then have "length (rows ! i) = length rows \<and> (\<forall>d \<in> set (rows ! i). subset_ok st d)" using rows nth_mem by blast
    then show "subset_ok st d" using i by simp
  qed
  have each: "length (subset_serialize d) \<le> INT_MAX" if "d \<in> set (sent rows)" for d
  proof -
    have "length (subset_serialize d) \<le> sum_list (map (length \<circ> subset_serialize) (sent rows))"
      using that by (intro member_le_sum_list) auto
    then show ?thesis using small by (simp add: length_concat o_def)
  qed
  have sizes: "map (\<lambda>b. int_of_size (length b)) (map subset_serialize (sent rows))
      = map (\<lambda>d. int (length (subset_serialize d))) (sent rows)"
    using each int_of_size_small by simp
  have "split_subsets (concat (map subset_serialize (sent rows)))
      (zip (displs 0 (map (\<lambda>d. int (length (subset_serialize d))) (sent rows)))
        (map (\<lambda>d. int (length (subset_serialize d))) (sent rows))) = Some (sent rows)"
    using split_subsets_concat [OF ok, of "[]"] small by simp
  then show ?thesis
    using rows r c by (simp add: exchange_subsets_def gather_all_def Let_def sizes del: map_map)
qed

section \<open>The broadcast\<close>

lemma unpack_pack:
  assumes "\<forall>d \<in> set ds. subset_ok st d \<and> length (subset_serialize d) \<le> INT_MAX"
  shows "unpack_subsets (length ds) (concat (map pack_subset ds)) = Some ds"
  using assms
proof (induction ds)
  case Nil
  then show ?case by simp
next
  case (Cons d ds)
  let ?b = "subset_serialize d"
  have n: "int_of_size (length ?b) = int (length ?b)" "int (length ?b) \<le> INT32_MAX"
    using Cons.prems int_of_size_small by simp_all
  have pk: "pack_subset d = int_bytes (int (length ?b)) @ ?b" using n(1) by (simp add: pack_subset_def Let_def)
  have "bytes_int (int_bytes (int (length ?b)) @ ?b @ concat (map pack_subset ds)) = int (length ?b)"
    using n(2) by (intro bytes_int_bytes) simp_all
  then show ?case
    using Cons pk deserialize_ok [of st d] by (simp add: fenix_assert_bind)
qed

text \<open>\<open>bcast\<close> delivers the root's bytes to every rank, whatever a rank passes in.\<close>

lemma broadcast_root:
  assumes "\<forall>d \<in> set ds. subset_ok st d \<and> length (subset_serialize d) \<le> INT_MAX" "length ds \<le> INT_MAX"
    "\<And>x. bcast x = Inr (pack_subsets ds)"
  shows "broadcast_subsets bcast is_root input = Inr ds"
proof -
  have n: "int_of_size (length ds) = int (length ds)" "int (length ds) \<le> INT32_MAX"
    using int_of_size_small [OF assms(2)] by simp_all
  have "bytes_int (int_bytes (int (length ds)) @ concat (map pack_subset ds)) = int (length ds)"
    using n(2) by (intro bytes_int_bytes) simp_all
  then show ?thesis
    using unpack_pack [OF assms(1)] n(1) by (simp add: broadcast_subsets_def assms(3) pack_subsets_def)
qed

section \<open>Metadata\<close>

lemma metadata_roundtrip:
  assumes id: "- 2147483648 \<le> mb_id m" "mb_id m \<le> INT32_MAX"
    and c: "elm_count m = Some c" "- 2147483648 \<le> c" "c \<le> INT32_MAX"
    and dt: "length (ds_put (mb_type m)) + 12 \<le> INT_MAX" "ds_get (ds_put (mb_type m)) = Inr (mb_type m)"
  shows "\<exists>buf. member_serialize ds_put m = Some buf \<and>
    member_deserialize ds_get buf depth = Inr (new_member (mb_id m) Null c (mb_type m) depth)"
proof -
  let ?d = "ds_put (mb_type m)"
  have "length ?d \<le> INT_MAX" using dt(1) by linarith
  then have n: "int_of_size (length ?d) = int (length ?d)" "int (length ?d) \<le> INT32_MAX"
    using int_of_size_small by simp_all
  let ?buf = "int_bytes (mb_id m) @ int_bytes c @ int_bytes (int (length ?d)) @ ?d"
  have s: "member_serialize ds_put m = Some ?buf" using c(1) n(1) by (simp add: member_serialize_def)
  have rd: "bytes_int ?buf = mb_id m" "bytes_int (drop 4 ?buf) = c" "bytes_int (drop 8 ?buf) = int (length ?d)"
    using id c n(2) by (simp_all add: bytes_int_bytes)
  have dr: "drop 12 ?buf = ?d" by simp
  have "12 + int (length ?d) = int (12 + length ?d)" by simp
  moreover have "size_of_int (i32 (int (12 + length ?d))) = 12 + length ?d" using dt(1) by (intro size_i32) simp
  ultimately have sz: "size_of_int (i32 (12 + int (length ?d))) = 12 + length ?d" by (simp only:)
  have "size_of_int (int (length ?d)) = length ?d" using n(2) by (simp add: size_of_int_exact)
  then have "member_deserialize ds_get ?buf depth = Inr (new_member (mb_id m) Null c (mb_type m) depth)"
    unfolding member_deserialize_def rd dr Let_def sz using dt(2) by simp
  then show ?thesis using s by blast
qed

text \<open>
  Handing data over: the messages of a \<open>DataBuffer\<close> (src/data/util/buffer.cpp), and the move constructor of a data member
  (src/data/member.cpp).
\<close>

section \<open>Buffers as messages\<close>

definition buf_send :: "data_buffer \<Rightarrow> byte list" where
  "buf_send b = db_data b"

text \<open>\<open>msg\<close> is the message that arrives; one that is longer than the receive is an error of MPI.\<close>

definition buf_recv :: "(nat \<Rightarrow> byte list) \<Rightarrow> nat \<Rightarrow> byte list \<Rightarrow> data_buffer \<Rightarrow> data_buffer option" where
  "buf_recv fresh n msg b =
     (let b = db_reset fresh n b in
      if length msg \<le> db_size b then Some (b\<lparr>db_mem := msg @ drop (length msg) (db_mem b)\<rparr>) else None)"

text \<open>The probe finds the message, or fails.\<close>

definition buf_recv_unknown :: "(nat \<Rightarrow> byte list) \<Rightarrow> byte list option \<Rightarrow> data_buffer \<Rightarrow> data_buffer option" where
  "buf_recv_unknown fresh probe b = (case probe of None \<Rightarrow> None | Some msg \<Rightarrow> buf_recv fresh (length msg) msg b)"

lemma reset_size: "db_ok b \<Longrightarrow> db_ok (db_reset zeroed n b) \<and> length (db_data (db_reset zeroed n b)) = n"
  unfolding db_reset_def by (simp add: zeroed_store.ok_set_size zeroed_store.length_set_size)

lemma sent_received:
  assumes "db_ok b" "db_ok c"
  shows "\<exists>c'. buf_recv_unknown zeroed (Some (buf_send b)) c = Some c' \<and> db_data c' = db_data b \<and> db_ok c'"
proof -
  let ?n = "length (db_data b)" and ?c = "db_reset zeroed (length (db_data b)) c"
  have r: "db_ok ?c" "length (db_data ?c) = ?n" using reset_size [OF assms(2)] by simp_all
  then have s: "db_size ?c = ?n" by (simp add: db_data_def db_ok_def alloc_size_def)
  have "buf_recv_unknown zeroed (Some (buf_send b)) c = Some (?c\<lparr>db_mem := db_data b @ drop ?n (db_mem ?c)\<rparr>)"
    by (simp add: buf_recv_unknown_def buf_recv_def buf_send_def s Let_def)
  moreover have "?n \<le> length (db_mem ?c)" using r(1) s by (simp add: db_ok_def alloc_size_def)
  moreover have "db_size b \<le> length (db_mem b)" using assms(1) by (simp add: db_ok_def alloc_size_def)
  ultimately show ?thesis using s by (auto simp: db_data_def db_ok_def alloc_size_def min_def)
qed

section \<open>Members that move\<close>

text \<open>
  The new member, and what is left of the old one, whose datatype is the null one of MPI.  A member must not move while its serializer is
  open.
\<close>

definition move_member :: "mpi_type \<Rightarrow> member \<Rightarrow> (member \<times> member) option" where
  "move_member null m = do {
     fenix_assert (mb_open m = None);
     Some (m, m\<lparr>mb_id := -1, mb_type := null, mb_user := unbounded_ref Null, mb_depth := 0, mb_stage := None, mb_commits := [], mb_avail := [], mb_ser := None\<rparr>)
   }"

end
