(* ===== verification/Cohort.thy ===== *)
theory Cohort
  imports Snapshot_Copy Outcome "HOL-Library.Signed_Division"
begin

text \<open>
  The cohorts: which ranks of a group's communicator keep each other's data.
  \<open>LocalGroup::create_cohort\<close> (include/fenix/data/policy_local.hpp) and
  \<open>IMRGroup::create_cohort\<close> (src/data/policy_imr.cpp).
\<close>

text \<open>The policies and their parameters: local, or in-memory with a mode.\<close>

datatype policy = LocalPolicy | ImrPolicy (imr_mode: int) (imr_sep: int) (imr_set_size: int)

text \<open>\<open>std::set<int>\<close> as the increasing list of its elements.\<close>

definition int_set :: "int list \<Rightarrow> int list" where
  "int_set xs = sort (remdups xs)"

section \<open>Buddies\<close>

text \<open>
  Mode 1, by the rank and the size of the communicator.  With an odd size the first, the middle
  and the last rank form a cohort of three; \<open>rank_sep\<close> apart within blocks of \<open>2 * rank_sep\<close>
  are the others, and a smaller block is split over both ends.
\<close>

record buddy_layout =
  bl_start :: int
  bl_mid :: int
  bl_end :: int
  bl_mini :: int
  bl_first :: int

definition layout :: "int \<Rightarrow> int \<Rightarrow> buddy_layout" where
  "layout csz sep =
     (let odd = (if csz smod 2 \<noteq> 0 then 1 else 0);
          remaining = csz - 3 * odd;
          full = remaining sdiv (sep * 2);
          mini = (remaining - full * sep * 2) sdiv 2
      in \<lparr>bl_start = mini + odd, bl_mid = csz sdiv 2, bl_end = csz - mini - odd,
          bl_mini = mini, bl_first = odd\<rparr>)"

definition is_normal :: "int \<Rightarrow> buddy_layout \<Rightarrow> int \<Rightarrow> bool" where
  "is_normal csz b r \<longleftrightarrow> bl_start b \<le> r \<and> r < bl_end b \<and> (csz smod 2 = 0 \<or> r \<noteq> bl_mid b)"

definition normal_partner :: "int \<Rightarrow> int \<Rightarrow> buddy_layout \<Rightarrow> int \<Rightarrow> int" where
  "normal_partner csz sep b r =
     (let odd = (csz smod 2 \<noteq> 0);
          e = r - bl_start b - (if odd \<and> bl_mid b < r then 1 else 0)
      in if (e sdiv sep) smod 2 = 0
         then (let p = r + sep in if odd \<and> r < bl_mid b \<and> bl_mid b \<le> p then p + 1 else p)
         else (let p = r - sep in if odd \<and> bl_mid b < r \<and> p \<le> bl_mid b then p - 1 else p))"

definition in_start_mini :: "buddy_layout \<Rightarrow> int \<Rightarrow> bool" where
  "in_start_mini b r \<longleftrightarrow> bl_first b \<le> r \<and> r < bl_first b + bl_mini b"

definition in_end_mini :: "int \<Rightarrow> buddy_layout \<Rightarrow> int \<Rightarrow> bool" where
  "in_end_mini csz b r \<longleftrightarrow> bl_end b \<le> r \<and> r < csz - bl_first b"

definition buddies :: "int \<Rightarrow> int \<Rightarrow> int \<Rightarrow> int list option" where
  "buddies csz sep r = do {
     fenix_assert (sep * 2 \<noteq> 0);
     (let b = layout csz sep in
      if is_normal csz b r then Some (int_set [r, normal_partner csz sep b r])
      else if in_start_mini b r then Some (int_set [r, bl_end b + (r - bl_first b)])
      else if in_end_mini csz b r then Some (int_set [r, bl_first b + (r - bl_end b)])
      else (let s = int_set [r, 0, bl_mid b, csz - 1] in do {
        fenix_assert (length s = 3 \<or> csz = 1 \<and> length s = 1);
        Some s
      }))
   }"

section \<open>Parity sets\<close>

text \<open>Mode 5: \<open>set_size\<close> ranks, \<open>rank_sep\<close> apart.\<close>

definition parity_set :: "int \<Rightarrow> int \<Rightarrow> int \<Rightarrow> int \<Rightarrow> int list option" where
  "parity_set csz sep n r = do {
     fenix_assert (sep \<noteq> 0 \<and> n \<noteq> 0);
     (let pos = (r sdiv sep) smod n
      in Some (int_set (r # map (\<lambda>i. (csz + r - sep * (pos - i)) smod csz) [0..n - 1])))
   }"

section \<open>The cohort\<close>

definition imr_partners :: "int \<Rightarrow> int \<Rightarrow> int \<Rightarrow> int \<Rightarrow> int \<Rightarrow> int list option" where
  "imr_partners mode sep n csz r =
     (if mode = 1 then buddies csz sep r
      else if mode = 5 then parity_set csz sep n r
      else Some [r])"

text \<open>
  The communicator of the cohort, in the order of the ranks of the parent.  \<open>Group::incl\<close>
  throws when a rank is not in the group.
\<close>

definition incl_ranks :: "comm \<Rightarrow> int list \<Rightarrow> failure + comm" where
  "incl_ranks c ps =
     (if \<exists>p \<in> set ps. p < 0 \<or> int (comm_size c) \<le> p then Inl (Throw FENIX_ERROR_INTERN)
      else Inr \<lparr>cm_ranks = map (\<lambda>p. cm_ranks c ! nat p) ps,
                cm_rank = length (takeWhile (\<lambda>p. p \<noteq> int (cm_rank c)) ps)\<rparr>)"

definition cohort_of :: "policy \<Rightarrow> comm \<Rightarrow> failure + comm" where
  "cohort_of pol c =
     (case pol of
        LocalPolicy \<Rightarrow> incl_ranks c [int (cm_rank c)]
      | ImrPolicy mode sep n \<Rightarrow>
          (case imr_partners mode sep n (int (comm_size c)) (int (cm_rank c)) of
             None \<Rightarrow> Inl Abort
           | Some ps \<Rightarrow> incl_ranks c ps))"

text \<open>\<open>get_mode\<close>, \<open>get_rank_sep\<close> and the constructor of \<open>IMRGroup\<close>; \<open>None\<close> is a null pointer.\<close>

definition get_mode :: "int list option \<Rightarrow> int" where
  "get_mode vals = (case vals of None \<Rightarrow> 1 | Some v \<Rightarrow> v ! 0)"

definition get_rank_sep :: "int list option \<Rightarrow> comm \<Rightarrow> int" where
  "get_rank_sep vals c = (case vals of None \<Rightarrow> int (comm_size c) sdiv 2 | Some v \<Rightarrow> v ! 1)"

definition imr_policy :: "int list option \<Rightarrow> comm \<Rightarrow> policy" where
  "imr_policy vals c = ImrPolicy (get_mode vals) (get_rank_sep vals c)
     (case vals of None \<Rightarrow> 0 | Some v \<Rightarrow> if get_mode vals = 5 then v ! 2 else 0)"

section \<open>Buddies agree\<close>

lemma sdiv_nonneg: "0 \<le> a \<Longrightarrow> 0 < b \<Longrightarrow> a sdiv b = a div (b :: int)"
  by (cases "a = 0") (simp_all add: signed_divide_int_def)

lemma smod_nonneg: "0 \<le> a \<Longrightarrow> 0 < b \<Longrightarrow> a smod b = a mod (b :: int)"
  by (cases "a = 0") (simp_all add: signed_modulo_int_def)

lemma int_set_cong: "set xs = set ys \<Longrightarrow> int_set xs = int_set ys"
  by (simp add: int_set_def sorted_distinct_set_unique)

lemma set_int_set [simp]: "set (int_set xs) = set xs"
  by (simp add: int_set_def)

text \<open>The buddy of a position in \<open>2 * full\<close> blocks of \<open>s\<close> positions each.\<close>

definition other_block :: "int \<Rightarrow> int \<Rightarrow> int" where
  "other_block s e = (if (e div s) mod 2 = 0 then e + s else e - s)"

lemma other_block:
  assumes "0 < s" "0 \<le> e" "e < 2 * full * s"
  shows "0 \<le> other_block s e" "other_block s e < 2 * full * s" "other_block s (other_block s e) = e"
    "other_block s e \<noteq> e"
proof -
  let ?q = "e div s"
  have par: "x mod 2 = 0 \<Longrightarrow> (x + 1) mod 2 \<noteq> 0" "x mod 2 \<noteq> 0 \<Longrightarrow> (x - 1) mod 2 = 0"
    "x mod 2 \<noteq> 0 \<Longrightarrow> 0 \<le> x \<Longrightarrow> 1 \<le> x" "x mod 2 = 0 \<Longrightarrow> x < 2 * y \<Longrightarrow> x + 2 \<le> 2 * y" for x y :: int
    by presburger+
  have q: "0 \<le> ?q" using assms by (simp add: pos_imp_zdiv_nonneg_iff)
  have p: "(e + s) div s = ?q + 1" "(e - s) div s = ?q - 1"
    using assms(1) div_mult_self1 [of s e 1] div_mult_self1 [of s e "-1"] by simp_all
  have "e = ?q * s + e mod s" "0 \<le> e mod s" "e mod s < s" using assms(1) by simp_all
  then have lo: "?q * s \<le> e" and hi: "e < ?q * s + s" by linarith+
  have q2: "?q < 2 * full"
  proof (rule ccontr)
    assume "\<not> ?q < 2 * full"
    then have "2 * full * s \<le> ?q * s" using assms(1) by (intro mult_right_mono) simp_all
    then show False using lo assms(3) by linarith
  qed
  show "other_block s (other_block s e) = e"
  proof (cases "?q mod 2 = 0")
    case True
    then have "(?q + 1) mod 2 \<noteq> 0" by (rule par(1))
    then show ?thesis using True p by (simp add: other_block_def)
  next
    case False
    then have "(?q - 1) mod 2 = 0" by (rule par(2))
    then show ?thesis using False p by (simp add: other_block_def)
  qed
  show "other_block s e \<noteq> e" using assms(1) by (simp add: other_block_def)
  show "0 \<le> other_block s e"
  proof (cases "?q mod 2 = 0")
    case False
    then have "1 \<le> ?q" using q by (rule par(3))
    then have "1 * s \<le> ?q * s" using assms(1) by (intro mult_right_mono) simp_all
    then show ?thesis using False lo by (simp add: other_block_def)
  qed (use assms in \<open>simp add: other_block_def\<close>)
  show "other_block s e < 2 * full * s"
  proof (cases "?q mod 2 = 0")
    case True
    then have "?q + 2 \<le> 2 * full" using q2 by (rule par(4))
    then have "(?q + 2) * s \<le> 2 * full * s" using assms(1) by (intro mult_right_mono) simp_all
    then show ?thesis using True hi by (simp add: other_block_def algebra_simps)
  qed (use assms in \<open>simp add: other_block_def\<close>)
qed

text \<open>
  The layout: \<open>2 * H\<close> ranks in full blocks, \<open>mini\<close> at each end, and three with an odd size.
\<close>

lemma layout_eq:
  assumes "2 \<le> csz" "0 < s"
  obtains full mini od where "0 \<le> full" "0 \<le> mini" "od = 0 \<and> csz mod 2 = 0 \<or> od = 1 \<and> csz mod 2 = 1"
    "csz = 2 * full * s + 2 * mini + 3 * od"
    "layout csz s = \<lparr>bl_start = mini + od, bl_mid = csz div 2, bl_end = 2 * full * s + mini + 2 * od,
      bl_mini = mini, bl_first = od\<rparr>"
proof -
  define od :: int where "od = csz mod 2"
  define R where "R = csz - 3 * od"
  define full where "full = R div (2 * s)"
  define mini where "mini = (R - 2 * full * s) div 2"
  have o: "od = 0 \<and> csz mod 2 = 0 \<or> od = 1 \<and> csz mod 2 = 1" unfolding od_def by presburger
  have R: "0 \<le> R" "R mod 2 = 0" using assms(1) unfolding R_def od_def by presburger+
  have f: "0 \<le> full" using R(1) assms(2) by (simp add: full_def pos_imp_zdiv_nonneg_iff)
  have mod: "R - 2 * full * s = R mod (2 * s)" using minus_mult_div_eq_mod [of R "2 * s"] by (simp add: full_def mult.assoc mult.left_commute mult.commute)
  have m0: "0 \<le> R - 2 * full * s" unfolding mod using assms(2) by simp
  then have m: "0 \<le> mini" by (simp add: mini_def pos_imp_zdiv_nonneg_iff)
  have "(R - 2 * (full * s)) mod 2 = 0" using R(2) by presburger
  then have "2 * ((R - 2 * (full * s)) div 2) = R - 2 * (full * s)" by presburger
  then have m2: "2 * mini = R - 2 * full * s" by (simp add: mini_def mult.assoc)
  have odd_eq: "(if csz smod 2 \<noteq> 0 then 1 else 0) = od" using o assms(1) by (auto simp: smod_nonneg)
  have full_eq: "R sdiv (s * 2) = full" using R(1) assms(2) by (simp add: sdiv_nonneg full_def mult.commute)
  have mini_eq: "(R - full * s * 2) sdiv 2 = mini" using m0 by (simp add: sdiv_nonneg mini_def mult.commute mult.left_commute)
  have lay: "layout csz s = \<lparr>bl_start = mini + od, bl_mid = csz div 2, bl_end = csz - mini - od, bl_mini = mini, bl_first = od\<rparr>"
    using assms(1) unfolding layout_def Let_def odd_eq R_def [symmetric] full_eq mini_eq by (simp add: sdiv_nonneg)
  have c: "csz = 2 * full * s + 2 * mini + 3 * od" using m2 R_def by linarith
  then have "csz - mini - od = 2 * full * s + mini + 2 * od" by linarith
  then show ?thesis using that [OF f m o c] lay by simp
qed

text \<open>The rank at a position of the full blocks: the middle rank is skipped.\<close>

definition at_position :: "int \<Rightarrow> int \<Rightarrow> int \<Rightarrow> int \<Rightarrow> int" where
  "at_position H mini od e = e + mini + od + (if od = 1 \<and> H \<le> e then 1 else 0)"

lemma middle_rank: "od = 1 \<Longrightarrow> (2 * H + 2 * mini + 3 * od) div 2 = H + mini + (1 :: int)"
  by simp

definition laid_out :: "int \<Rightarrow> int \<Rightarrow> int \<Rightarrow> int \<Rightarrow> int \<Rightarrow> buddy_layout \<Rightarrow> bool" where
  "laid_out csz s full mini od b \<longleftrightarrow>
     0 < s \<and> 0 \<le> full \<and> 0 \<le> mini \<and> (od = 0 \<and> csz mod 2 = 0 \<or> od = 1 \<and> csz mod 2 = 1) \<and>
     csz = 2 * (full * s) + 2 * mini + 3 * od \<and>
     b = \<lparr>bl_start = mini + od, bl_mid = csz div 2, bl_end = 2 * (full * s) + mini + 2 * od,
       bl_mini = mini, bl_first = od\<rparr>"

lemma normal_iff:
  assumes "laid_out csz s full mini od b"
  shows "is_normal csz b r \<longleftrightarrow> (\<exists>e. 0 \<le> e \<and> e < 2 * (full * s) \<and> r = at_position (full * s) mini od e)"
proof -
  let ?H = "full * s"
  have csz: "csz = 2 * ?H + 2 * mini + 3 * od" using assms by (simp add: laid_out_def)
  consider "od = 0" "csz mod 2 = 0" | "od = 1" "csz mod 2 = 1" using assms by (auto simp: laid_out_def)
  then show ?thesis
  proof cases
    case 1
    have "csz smod 2 = 0" using 1 csz assms by (simp add: laid_out_def smod_nonneg)
    then have "is_normal csz b r \<longleftrightarrow> mini \<le> r \<and> r < 2 * ?H + mini"
      using assms 1 by (auto simp: is_normal_def laid_out_def)
    moreover have "(\<exists>e. 0 \<le> e \<and> e < 2 * ?H \<and> r = at_position ?H mini od e) \<longleftrightarrow> mini \<le> r \<and> r < 2 * ?H + mini"
      using 1 by (auto simp: at_position_def intro: exI [of _ "r - mini"])
    ultimately show ?thesis by simp
  next
    case 2
    have mid: "csz div 2 = ?H + mini + 1" unfolding csz using middle_rank [OF 2(1)] .
    have "0 \<le> csz" using assms 2 by (simp add: laid_out_def)
    then have "csz smod 2 = 1" using 2 by (simp add: smod_nonneg)
    then have "is_normal csz b r \<longleftrightarrow> mini + 1 \<le> r \<and> r < 2 * ?H + mini + 2 \<and> r \<noteq> ?H + mini + 1"
      using assms 2 mid by (auto simp: is_normal_def laid_out_def)
    also have "\<dots> \<longleftrightarrow> (\<exists>e. 0 \<le> e \<and> e < 2 * ?H \<and> r = at_position ?H mini od e)"
    proof
      assume r: "mini + 1 \<le> r \<and> r < 2 * ?H + mini + 2 \<and> r \<noteq> ?H + mini + 1"
      then show "\<exists>e. 0 \<le> e \<and> e < 2 * ?H \<and> r = at_position ?H mini od e"
        by (intro exI [of _ "if r < ?H + mini + 1 then r - mini - 1 else r - mini - 2"])
          (auto simp: at_position_def 2)
    qed (auto simp: at_position_def 2 split: if_splits)
    finally show ?thesis .
  qed
qed

lemma normal_partner_at:
  assumes l: "laid_out csz s full mini od b" and e: "0 \<le> e" "e < 2 * (full * s)"
  shows "normal_partner csz s b (at_position (full * s) mini od e) = at_position (full * s) mini od (other_block s e)"
proof -
  let ?H = "full * s" and ?r = "at_position (full * s) mini od e"
  have s: "0 < s" and csz: "csz = 2 * ?H + 2 * mini + 3 * od" using l by (simp_all add: laid_out_def)
  have q: "(e sdiv s) smod 2 = (e div s) mod 2"
    using e(1) s by (simp add: sdiv_nonneg smod_nonneg pos_imp_zdiv_nonneg_iff)
  consider "od = 0" "csz mod 2 = 0" | "od = 1" "csz mod 2 = 1" using l by (auto simp: laid_out_def)
  then show ?thesis
  proof cases
    case 1
    have "csz smod 2 = 0" using 1 csz l by (simp add: laid_out_def smod_nonneg)
    moreover have "?r - bl_start b = e" using 1 l by (simp add: at_position_def laid_out_def)
    ultimately show ?thesis using 1 q by (simp add: normal_partner_def Let_def other_block_def at_position_def)
  next
    case 2
    have mid: "bl_mid b = ?H + mini + 1" using l middle_rank [OF 2(1)] unfolding laid_out_def by simp
    have "0 \<le> csz" using l 2 by (simp add: laid_out_def)
    then have odd: "csz smod 2 \<noteq> 0" using 2 by (simp add: smod_nonneg)
    have start: "bl_start b = mini + 1" using l 2 by (simp add: laid_out_def)
    have lt: "bl_mid b < ?r \<longleftrightarrow> ?H \<le> e" using 2 mid by (simp add: at_position_def)
    have gt: "?r < bl_mid b \<longleftrightarrow> e < ?H" using 2 mid by (auto simp: at_position_def)
    have pos: "?r - bl_start b - (if ?H \<le> e then 1 else 0) = e"
      using 2 start by (simp add: at_position_def)
    show ?thesis
    proof (cases "(e div s) mod 2 = 0")
      case True
      have "normal_partner csz s b ?r = (if e < ?H \<and> ?H + mini + 1 \<le> ?r + s then ?r + s + 1 else ?r + s)"
        by (simp only: normal_partner_def Let_def odd simp_thms lt gt pos q True if_True) (simp only: mid)
      then show ?thesis using True 2 s by (simp add: other_block_def at_position_def)
    next
      case False
      have "normal_partner csz s b ?r = (if ?H \<le> e \<and> ?r - s \<le> ?H + mini + 1 then ?r - s - 1 else ?r - s)"
        by (simp only: normal_partner_def Let_def odd simp_thms lt gt pos q False if_False) (simp only: mid)
      then show ?thesis using False 2 s by (simp add: other_block_def at_position_def)
    qed
  qed
qed

lemma at_position_inj: "at_position H mini od e = at_position H mini od e' \<Longrightarrow> e = e'"
  by (auto simp: at_position_def split: if_splits)

lemma at_position_range:
  assumes "laid_out csz s full mini od b" "0 \<le> e" "e < 2 * (full * s)"
  shows "0 \<le> at_position (full * s) mini od e" "at_position (full * s) mini od e < csz"
  using assms by (auto simp: laid_out_def at_position_def)

lemma layout_cases:
  assumes "2 \<le> csz" "0 < s"
  obtains full mini od where "laid_out csz s full mini od (layout csz s)"
proof -
  obtain full mini od where "0 \<le> full" "0 \<le> mini" "od = 0 \<and> csz mod 2 = 0 \<or> od = 1 \<and> csz mod 2 = 1"
    "csz = 2 * full * s + 2 * mini + 3 * od"
    "layout csz s = \<lparr>bl_start = mini + od, bl_mid = csz div 2, bl_end = 2 * full * s + mini + 2 * od,
      bl_mini = mini, bl_first = od\<rparr>"
    using layout_eq [OF assms] by blast
  then have "laid_out csz s full mini od (layout csz s)"
    using assms(2) by (simp add: laid_out_def mult.assoc)
  then show thesis by (rule that)
qed

lemma buddies_normal:
  assumes l: "laid_out csz s full mini od (layout csz s)" and e: "0 \<le> e" "e < 2 * (full * s)"
  shows "buddies csz s (at_position (full * s) mini od e) =
    Some (int_set [at_position (full * s) mini od e, at_position (full * s) mini od (other_block s e)])"
proof -
  have "is_normal csz (layout csz s) (at_position (full * s) mini od e)"
    using normal_iff [OF l] e by blast
  moreover have "s * 2 \<noteq> 0" using l by (simp add: laid_out_def)
  ultimately show ?thesis
    by (simp add: buddies_def Let_def fenix_assert_def normal_partner_at [OF l e])
qed

lemma buddies_mini:
  assumes l: "laid_out csz s full mini od (layout csz s)" and k: "0 \<le> k" "k < mini"
  shows "buddies csz s (od + k) = Some (int_set [od + k, csz - od - mini + k])"
    and "buddies csz s (csz - od - mini + k) = Some (int_set [csz - od - mini + k, od + k])"
proof -
  let ?b = "layout csz s"
  have b: "bl_first ?b = od" "bl_mini ?b = mini" "bl_end ?b = csz - od - mini" "bl_start ?b = mini + od"
    and s: "s * 2 \<noteq> 0" and f: "0 \<le> full * s"
    using l by (auto simp: laid_out_def)
  have n: "\<not> is_normal csz ?b (od + k)" "\<not> is_normal csz ?b (csz - od - mini + k)"
    using k by (simp_all add: is_normal_def b)
  have od: "0 \<le> od" and c: "csz = 2 * (full * s) + 2 * mini + 3 * od" using l by (auto simp: laid_out_def)
  show "buddies csz s (od + k) = Some (int_set [od + k, csz - od - mini + k])"
    using k s n(1) by (simp add: buddies_def Let_def fenix_assert_def in_start_mini_def b)
  have "\<not> in_start_mini ?b (csz - od - mini + k)" "in_end_mini csz ?b (csz - od - mini + k)"
    using k od c f unfolding in_start_mini_def in_end_mini_def b by linarith+
  then show "buddies csz s (csz - od - mini + k) = Some (int_set [csz - od - mini + k, od + k])"
    using s n(2) by (simp add: buddies_def Let_def fenix_assert_def b)
qed

lemma length_int_set: "distinct xs \<Longrightarrow> length (int_set xs) = length xs"
  by (simp add: int_set_def distinct_remdups_id)

lemma buddies_odd:
  assumes l: "laid_out csz s full mini 1 (layout csz s)" and r: "r = 0 \<or> r = csz div 2 \<or> r = csz - 1"
  shows "buddies csz s r = Some (int_set [0, csz div 2, csz - 1])" "length (int_set [0, csz div 2, csz - 1]) = 3"
proof -
  let ?b = "layout csz s"
  have b: "bl_first ?b = 1" "bl_mini ?b = mini" "bl_end ?b = csz - 1 - mini" "bl_start ?b = mini + 1" "bl_mid ?b = csz div 2"
    and s: "s * 2 \<noteq> 0" and f: "0 \<le> full * s" and m: "0 \<le> mini"
    and c: "csz = 2 * (full * s) + 2 * mini + 3 * 1"
    using l by (auto simp: laid_out_def)
  have mid: "csz div 2 = full * s + mini + 1" using c middle_rank [of 1 "full * s" mini] by simp
  have "csz mod 2 = 1" using l zero_neq_one [where 'a = int] unfolding laid_out_def by (elim conjE disjE) simp_all
  moreover have "0 \<le> csz" using c f m by linarith
  ultimately have o: "csz smod 2 \<noteq> 0" by (simp add: smod_nonneg)
  have n: "\<not> is_normal csz ?b r" "\<not> in_start_mini ?b r" "\<not> in_end_mini csz ?b r"
    using r o f m unfolding is_normal_def in_start_mini_def in_end_mini_def b mid by (auto simp: c)
  have d: "distinct [0, csz div 2, csz - 1]" using f m unfolding mid by (auto simp: c)
  then show len: "length (int_set [0, csz div 2, csz - 1]) = 3" by (simp add: length_int_set)
  have "int_set [r, 0, csz div 2, csz - 1] = int_set [0, csz div 2, csz - 1]"
    using r by (intro int_set_cong) auto
  then show "buddies csz s r = Some (int_set [0, csz div 2, csz - 1])"
    using s n len by (simp add: buddies_def Let_def fenix_assert_def b)
qed

text \<open>Every rank is in the full blocks, in a small block, or one of the three.\<close>

lemma rank_cases:
  assumes l: "laid_out csz s full mini od b" and r: "0 \<le> r" "r < csz"
  obtains (normal) e where "0 \<le> e" "e < 2 * (full * s)" "r = at_position (full * s) mini od e"
    | (first) k where "0 \<le> k" "k < mini" "r = od + k"
    | (final) k where "0 \<le> k" "k < mini" "r = csz - od - mini + k"
    | (three) "od = 1" "r = 0 \<or> r = csz div 2 \<or> r = csz - 1"
proof -
  have c: "csz = 2 * (full * s) + 2 * mini + 3 * od" and od: "od = 0 \<or> od = 1" and m: "0 \<le> mini"
    using l by (auto simp: laid_out_def)
  show thesis
  proof (cases "is_normal csz b r")
    case True
    then show thesis using normal_iff [OF l] normal by blast
  next
    case False
    have "r < mini + od \<or> csz - mini - od \<le> r \<or> od = 1 \<and> r = csz div 2"
      using False od l by (auto simp: is_normal_def laid_out_def smod_nonneg)
    then consider "od \<le> r" "r < mini + od" | "csz - mini - od \<le> r" "r < csz - od"
      | "od = 1" "r = 0 \<or> r = csz div 2 \<or> r = csz - 1"
      using od r by fastforce
    then show thesis
    proof cases
      case 1
      then show thesis by (intro first [of "r - od"]) simp_all
    next
      case 2
      then show thesis by (intro final [of "r - (csz - od - mini)"]) simp_all
    qed (rule three)
  qed
qed

theorem buddies_agree_core:
  assumes "2 \<le> csz" "0 < s" "0 \<le> r" "r < csz"
  shows "\<exists>ps. buddies csz s r = Some ps \<and> 2 \<le> length ps \<and> r \<in> set ps \<and>
    (\<forall>p \<in> set ps. 0 \<le> p \<and> p < csz \<and> buddies csz s p = Some ps)"
proof -
  obtain full mini od where l: "laid_out csz s full mini od (layout csz s)" using layout_cases assms by blast
  have f: "0 \<le> full * s" and s: "0 < s" and m: "0 \<le> mini" and od: "0 \<le> od"
    and c: "csz = 2 * (full * s) + 2 * mini + 3 * od" using l by (auto simp: laid_out_def)
  from l assms(3, 4) show ?thesis
  proof (cases rule: rank_cases)
    case (normal e)
    have e2: "e < 2 * full * s" using normal(2) by (simp add: mult.assoc)
    note o = other_block [OF s normal(1) e2]
    have o2: "other_block s e < 2 * (full * s)" using o(2) by (simp add: mult.assoc)
    let ?p = "at_position (full * s) mini od (other_block s e)"
    have ps: "int_set [?p, r] = int_set [r, ?p]" by (intro int_set_cong) auto
    have 1: "buddies csz s r = Some (int_set [r, ?p])"
      using buddies_normal [OF l normal(1, 2)] normal(3) by simp
    have 2: "buddies csz s ?p = Some (int_set [r, ?p])"
      using buddies_normal [OF l o(1) o2] o(3) normal(3) ps by simp
    have "r \<noteq> ?p" using at_position_inj o(4) normal(3) by metis
    then have "length (int_set [r, ?p]) = 2" by (simp add: length_int_set)
    then show ?thesis
      using 1 2 at_position_range [OF l o(1) o2] assms(3, 4) by (intro exI [of _ "int_set [r, ?p]"]) auto
  next
    case (first k)
    let ?p = "csz - od - mini + k"
    have ps: "int_set [?p, r] = int_set [r, ?p]" by (intro int_set_cong) auto
    have "r \<noteq> ?p" using first f m od c by auto
    then have "length (int_set [r, ?p]) = 2" by (simp add: length_int_set)
    then show ?thesis
      using buddies_mini [OF l first(1, 2)] first ps assms(3, 4) od c m f
      by (intro exI [of _ "int_set [r, ?p]"]) auto
  next
    case (final k)
    let ?p = "od + k"
    have ps: "int_set [?p, r] = int_set [r, ?p]" by (intro int_set_cong) auto
    have "r \<noteq> ?p" using final f m od c by auto
    then have "length (int_set [r, ?p]) = 2" by (simp add: length_int_set)
    then show ?thesis
      using buddies_mini [OF l final(1, 2)] final ps assms(3, 4) od c m f
      by (intro exI [of _ "int_set [r, ?p]"]) auto
  next
    case three
    have l1: "laid_out csz s full mini 1 (layout csz s)" using l three(1) by simp
    have "\<forall>p \<in> set (int_set [0, csz div 2, csz - 1]). 0 \<le> p \<and> p < csz" using assms(1) by auto
    then show ?thesis
      using buddies_odd [OF l1] three(2) by (intro exI [of _ "int_set [0, csz div 2, csz - 1]"]) auto
  qed
qed

end
