(* ===== verification/Group.thy ===== *)
theory Group
  imports Member_Exchange Cohort
begin

text \<open>
  \<open>fenix::data::DataGroup\<close> (include/fenix/data/group.hpp, src/data/group.cpp): the members of
  a group by id, the committed timestamps from newest to oldest, and the operations that
  involve the cohort.  The collectives of \<open>cohort_comm\<close> are parameters; any of them may be
  interrupted by a failure.  Members have the default, local operations.
\<close>

section \<open>The data\<close>

record group =
  gr_id :: int
  gr_comm :: comm
  gr_timestart :: int
  gr_timestamp :: int
  gr_depth :: int
  gr_policy :: policy
  gr_members :: "member list"
  gr_order :: "int list"
  gr_timestamps :: "int list"
  gr_cohort :: "comm option"

text \<open>\<open>std::set<int, std::greater<int>>\<close>: a list in decreasing order.\<close>

abbreviation ts_insert :: "int \<Rightarrow> int list \<Rightarrow> int list" where
  "ts_insert \<equiv> kset_insert uminus"

abbreviation ts_ok :: "int list \<Rightarrow> bool" where
  "ts_ok \<equiv> kset_ok uminus"

definition new_group :: "int \<Rightarrow> comm \<Rightarrow> int \<Rightarrow> int \<Rightarrow> policy \<Rightarrow> group" where
  "new_group gid c timestart depth pol =
     \<lparr>gr_id = gid, gr_comm = c, gr_timestart = timestart, gr_timestamp = -1, gr_depth = depth,
      gr_policy = pol, gr_members = [], gr_order = [], gr_timestamps = [], gr_cohort = None\<rparr>"

section \<open>Members\<close>

definition search_member :: "int \<Rightarrow> group \<Rightarrow> member option" where
  "search_member mid g = kset_find mb_id mid (gr_members g)"

definition find_member :: "int \<Rightarrow> group \<Rightarrow> failure + member" where
  "find_member mid g = (case search_member mid g of
       None \<Rightarrow> Inl (Throw FENIX_ERROR_INVALID_MEMBERID) | Some m \<Rightarrow> Inr m)"

text \<open>A member changed through the pointer that a search returned.\<close>

definition put_member :: "member \<Rightarrow> group \<Rightarrow> group" where
  "put_member m g = g\<lparr>gr_members := kset_update mb_id m (gr_members g)\<rparr>"

definition emplace_member :: "member \<Rightarrow> group \<Rightarrow> group" where
  "emplace_member m g = g\<lparr>gr_members := kset_insert mb_id m (gr_members g)\<rparr>"

text \<open>An operation on a member of the group, given by a pointer to it.\<close>

definition on_member :: "int \<Rightarrow> (member, 'a) comp \<Rightarrow> (group, 'a) comp" where
  "on_member mid c g =
     (case search_member mid g of
        None \<Rightarrow> (Inl Abort, g)
      | Some m \<Rightarrow> (case c m of (r, m') \<Rightarrow> (r, put_member m' g)))"

text \<open>The tail that the three \<open>member_create\<close> share.\<close>

definition push_order :: "int \<Rightarrow> group \<Rightarrow> group" where
  "push_order mid g = g\<lparr>gr_order := gr_order g @ [mid]\<rparr>"

definition start_member :: "(nat \<Rightarrow> byte list) \<Rightarrow> comm option \<Rightarrow> (member, unit) comp" where
  "start_member fresh cc m = (case init_snapshots fresh cc m of
       None \<Rightarrow> (Inl Abort, m) | Some m' \<Rightarrow> (Inr (), m'))"

definition add_member :: "(nat \<Rightarrow> byte list) \<Rightarrow> member \<Rightarrow> (group, unit) comp" where
  "add_member fresh m =
     andThen getS (\<lambda>g.
     andThen (throwIf (search_member (mb_id m) g \<noteq> None) FENIX_ERROR_MEMBER_EXISTS) (\<lambda>_.
     andThen (modS (emplace_member m)) (\<lambda>_.
     andThen getS (\<lambda>g'.
     andThen (assertS (search_member (mb_id m) g' \<noteq> None)) (\<lambda>_.
     andThen (modS (push_order (mb_id m))) (\<lambda>_.
     on_member (mb_id m) (start_member fresh (gr_cohort g))))))))"

definition group_member_create ::
  "(nat \<Rightarrow> byte list) \<Rightarrow> int \<Rightarrow> ptr \<Rightarrow> int \<Rightarrow> mpi_type \<Rightarrow> (group, unit) comp" where
  "group_member_create fresh mid p count dt =
     andThen getS (\<lambda>g. add_member fresh (new_member mid p count dt (gr_depth g)))"

text \<open>A member with a function of the application, which is given by its number.\<close>

definition group_member_create_fun ::
  "(nat \<Rightarrow> byte list) \<Rightarrow> int \<Rightarrow> ptr \<Rightarrow> int \<Rightarrow> mpi_type \<Rightarrow> nat \<Rightarrow> (group, unit) comp" where
  "group_member_create_fun fresh mid p count dt k =
     andThen getS (\<lambda>g. add_member fresh (new_member mid p count dt (gr_depth g)\<lparr>mb_ser := Some k\<rparr>))"

definition group_member_create_from ::
  "(nat \<Rightarrow> byte list) \<Rightarrow> (byte list \<Rightarrow> failure + mpi_type) \<Rightarrow> byte list \<Rightarrow> (group, unit) comp" where
  "group_member_create_from fresh ds_get buf =
     andThen getS (\<lambda>g.
     andThen (liftE (member_deserialize ds_get buf (gr_depth g))) (add_member fresh))"

definition group_member_delete :: "int \<Rightarrow> (group, unit) comp" where
  "group_member_delete mid =
     andThen getS (\<lambda>g.
     andThen (throwIf (search_member mid g = None) FENIX_ERROR_INVALID_MEMBERID) (\<lambda>_.
     modS (\<lambda>g. g\<lparr>gr_members := kset_erase mb_id mid (gr_members g),
               gr_order := remove1 mid (gr_order g)\<rparr>)))"

definition get_member_ids :: "group \<Rightarrow> int list" where
  "get_member_ids g = gr_order g"

section \<open>Snapshots\<close>

text \<open>An operation on every member in the order of their ids, stopping at a failure.\<close>

fun each_member :: "(member \<Rightarrow> member option) \<Rightarrow> member list \<Rightarrow> member list option" where
  "each_member f [] = Some []"
| "each_member f (m # ms) = do {
     m' \<leftarrow> f m;
     ms' \<leftarrow> each_member f ms;
     Some (m' # ms')
   }"

fun any_unstored :: "member list \<Rightarrow> bool option" where
  "any_unstored [] = Some False"
| "any_unstored (m # ms) = do { u \<leftarrow> has_unstored_data m; if u then Some True else any_unstored ms }"

text \<open>The set has \<open>depth + 1\<close> elements; with an empty set the decrement of \<open>end()\<close> is undefined.\<close>

definition make_room :: "int \<Rightarrow> int list \<Rightarrow> int list option" where
  "make_room depth ts =
     (if length ts = size_of_int (i32 (depth + 1)) then
        do { fenix_assert (ts \<noteq> []); Some (butlast ts) }
      else Some ts)"

definition commit_all :: "(nat \<Rightarrow> byte list) \<Rightarrow> comm \<Rightarrow> group \<Rightarrow> group option" where
  "commit_all fresh c g = do {
     ts \<leftarrow> make_room (gr_depth g) (gr_timestamps g);
     ms \<leftarrow> each_member (member_commit fresh c (gr_timestamp g)) (gr_members g);
     Some (g\<lparr>gr_timestamps := ts_insert (gr_timestamp g) ts, gr_members := ms\<rparr>)
   }"

definition group_do :: "(group \<Rightarrow> group option) \<Rightarrow> (group, unit) comp" where
  "group_do f g = (case f g of None \<Rightarrow> (Inl Abort, g) | Some g' \<Rightarrow> (Inr (), g'))"

definition group_commit :: "(nat \<Rightarrow> byte list) \<Rightarrow> (group, unit) comp" where
  "group_commit fresh =
     andThen getS (\<lambda>g.
     andThen (liftO (any_unstored (gr_members g))) (\<lambda>unstored.
     andThen (throwIf unstored FENIX_ERROR_MEMBER_UNSTORED) (\<lambda>_.
     andThen (liftO (gr_cohort g)) (\<lambda>c.
     group_do (commit_all fresh c)))))"

definition delete_one :: "(nat \<Rightarrow> byte list) \<Rightarrow> int \<Rightarrow> group \<Rightarrow> group" where
  "delete_one fresh ts g = g\<lparr>gr_timestamps := kset_erase uminus (- ts) (gr_timestamps g),
     gr_members := map (snapshot_delete_at fresh ts) (gr_members g)\<rparr>"

text \<open>The loop of \<open>FENIX_DATA_SNAPSHOT_ALL\<close> deletes the newest until none is left.\<close>

function delete_all :: "(nat \<Rightarrow> byte list) \<Rightarrow> group \<Rightarrow> group" where
  "delete_all fresh g =
     (if gr_timestamps g = [] then g else delete_all fresh (delete_one fresh (hd (gr_timestamps g)) g))"
  by pat_completeness auto

lemma delete_one_fewer:
  "gr_timestamps g \<noteq> [] \<Longrightarrow> length (gr_timestamps (delete_one fresh (hd (gr_timestamps g)) g)) < length (gr_timestamps g)"
  by (cases "gr_timestamps g") (simp_all add: delete_one_def kset_erase_def le_imp_less_Suc)

termination delete_all
  by (relation "measure (\<lambda>(fresh, g). length (gr_timestamps g))") (use delete_one_fewer in auto)

declare delete_all.simps [simp del]

definition group_snapshot_delete :: "(nat \<Rightarrow> byte list) \<Rightarrow> int \<Rightarrow> (group, unit) comp" where
  "group_snapshot_delete fresh ts =
     andThen getS (\<lambda>g.
     andThen (throwIf (gr_timestamps g = []) FENIX_ERROR_INVALID_TIMESTAMP) (\<lambda>_.
     if ts = SNAPSHOT_ALL then modS (delete_all fresh)
     else (let ts = (if ts = SNAPSHOT_LATEST then hd (gr_timestamps g) else ts) in
       andThen (throwIf (ts \<notin> set (gr_timestamps g)) FENIX_ERROR_INVALID_TIMESTAMP) (\<lambda>_.
       modS (delete_one fresh ts)))))"

definition get_number_of_snapshots :: "group \<Rightarrow> nat" where
  "get_number_of_snapshots g = length (gr_timestamps g)"

definition get_snapshot_at_position :: "int \<Rightarrow> group \<Rightarrow> failure + int" where
  "get_snapshot_at_position pos g =
     (if pos < 0 \<or> size_of_int pos \<ge> length (gr_timestamps g) then Inl (Throw FENIX_ERROR_INVALID_POSITION)
      else Inr (gr_timestamps g ! nat pos))"

definition get_snapshots :: "group \<Rightarrow> int list" where
  "get_snapshots g = gr_timestamps g"

definition group_revoke :: "group \<Rightarrow> group" where
  "group_revoke g = g\<lparr>gr_cohort := None\<rparr>"

section \<open>Agreement within the cohort\<close>

text \<open>
  The creation of the cohort communicator, the barrier on the parent, \<open>MPI_Allreduce\<close> with
  \<open>MPI_MAX\<close> on one \<open>int\<close> and on a vector, \<open>MPI_Allgather\<close> of one \<open>int\<close> and
  \<open>MPI_Bcast\<close> from a root, as this rank calls them.
\<close>

record group_coll =
  gc_create :: "comm \<Rightarrow> failure + comm"
  gc_barrier :: "failure + unit"
  gc_max :: "int \<Rightarrow> failure + int"
  gc_max_vec :: "int list \<Rightarrow> failure + int list"
  gc_gather :: "int \<Rightarrow> failure + int list"
  gc_bcast :: "nat \<Rightarrow> byte list \<Rightarrow> failure + byte list"

definition pad_timestamps :: "nat \<Rightarrow> int list \<Rightarrow> int list" where
  "pad_timestamps n ts = take n ts @ replicate (n - length ts) (-1)"

text \<open>The set that \<open>sync_timestamps\<close> rebuilds from the reduced vector, and the clean-up.\<close>

definition adopt_timestamps :: "(nat \<Rightarrow> byte list) \<Rightarrow> int list \<Rightarrow> group \<Rightarrow> group" where
  "adopt_timestamps fresh ts g =
     (let tset = fold ts_insert ts [] in
      g\<lparr>gr_timestamps := tset, gr_timestamp := (if tset \<noteq> [] then hd tset else -1),
        gr_members := map (cleanup_timestamps fresh tset) (gr_members g)\<rparr>)"

definition sync_timestamps :: "(nat \<Rightarrow> byte list) \<Rightarrow> group_coll \<Rightarrow> (group, unit) comp" where
  "sync_timestamps fresh co =
     andThen getS (\<lambda>g.
     andThen (assertS (gr_cohort g \<noteq> None)) (\<lambda>_.
     andThen (liftE (gc_max co (int (length (gr_timestamps g))))) (\<lambda>n.
     andThen (liftE (gc_max_vec co (pad_timestamps (nat n) (gr_timestamps g)))) (\<lambda>ts.
     modS (adopt_timestamps fresh ts)))))"

text \<open>
  The constructor's second half: the cohort of the policy, its communicator, the barrier on the
  parent and the agreement on the timestamps.  \<open>create_cohort\<close> throws or aborts before
  anything of the group changes.
\<close>

definition group_init :: "(nat \<Rightarrow> byte list) \<Rightarrow> group_coll \<Rightarrow> (group, unit) comp" where
  "group_init fresh co =
     andThen getS (\<lambda>g.
     andThen (liftE (cohort_of (gr_policy g) (gr_comm g))) (\<lambda>ranks.
     andThen (liftE (gc_create co ranks)) (\<lambda>c.
     andThen (modS (\<lambda>g. g\<lparr>gr_cohort := Some c\<rparr>)) (\<lambda>_.
     andThen (liftE (gc_barrier co)) (\<lambda>_.
     sync_timestamps fresh co)))))"

definition first_found :: "int list \<Rightarrow> nat option" where
  "first_found found = List.find (\<lambda>i. found ! i \<noteq> 0) [0..<length found]"

definition n_missing :: "int list \<Rightarrow> nat" where
  "n_missing found = length (filter (\<lambda>f. f = 0) found)"

text \<open>
  \<open>member_repair\<close>: a rank that lacks the member creates it from the metadata of the first
  rank that has it; then the member repairs itself, which is nothing for the local policy.
\<close>

definition root_metadata :: "(mpi_type \<Rightarrow> byte list) \<Rightarrow> nat \<Rightarrow> comm \<Rightarrow> int \<Rightarrow> group \<Rightarrow> byte list option" where
  "root_metadata ds_put root c mid g =
     (if cm_rank c = root
      then (case search_member mid g of None \<Rightarrow> None | Some m \<Rightarrow> member_serialize ds_put m)
      else Some [])"

definition group_member_repair ::
  "(nat \<Rightarrow> byte list) \<Rightarrow> (mpi_type \<Rightarrow> byte list) \<Rightarrow> (byte list \<Rightarrow> failure + mpi_type) \<Rightarrow> group_coll
    \<Rightarrow> int \<Rightarrow> (group, unit) comp" where
  "group_member_repair fresh ds_put ds_get co mid =
     andThen getS (\<lambda>g.
     andThen (liftO (gr_cohort g)) (\<lambda>c.
     andThen (liftE (gc_gather co (if search_member mid g \<noteq> None then 1 else 0))) (\<lambda>found.
     andThen (throwIf (n_missing found = comm_size c) FENIX_ERROR_INVALID_MEMBERID) (\<lambda>_.
     if n_missing found = 0 then ret ()
     else
       andThen (liftO (first_found found)) (\<lambda>root.
       andThen (liftO (root_metadata ds_put root c mid g)) (\<lambda>mine.
       andThen (liftE (gc_bcast co root mine)) (\<lambda>meta.
       if found ! cm_rank c = 0 then
         andThen (group_member_create_from fresh ds_get meta) (\<lambda>_.
         andThen getS (\<lambda>g. throwIf (search_member mid g = None) FENIX_ERROR_INVALID_MEMBERID))
       else ret ())))))))"

end
