(* ===== verification/Group_Facts.thy ===== *)
theory Group_Facts
  imports Group
begin

text \<open>
  Facts about groups: the well-formedness invariant, committing, deleting snapshots, the
  registry of members, and the agreement on timestamps.
\<close>

interpretation ids: keyed_set mb_id "kset_ok mb_id" "kset_find mb_id" "kset_insert mb_id" "kset_erase mb_id"
  by (rule kset_keyed)

interpretation stamps: keyed_set "uminus :: int \<Rightarrow> int" ts_ok "kset_find uminus" ts_insert "kset_erase uminus"
  by (rule kset_keyed)

section \<open>The invariant\<close>

definition some_member :: "member \<Rightarrow> bool" where
  "some_member m \<longleftrightarrow> (\<exists>st es n. member_ok st es n m)"

text \<open>A member as the group keeps it: its commits are bounded in number and in time.\<close>

definition member_of :: "int \<Rightarrow> int \<Rightarrow> member \<Rightarrow> bool" where
  "member_of depth now m \<longleftrightarrow>
     some_member m \<and> mb_depth m = depth \<and> int (length (mb_commits m)) \<le> depth + 1 \<and>
     (\<forall>s \<in> set (mb_commits m). sn_timestamp s \<le> now)"

definition cohort_ok :: "group \<Rightarrow> bool" where
  "cohort_ok g \<longleftrightarrow> (\<forall>c. gr_cohort g = Some c \<longrightarrow> cm_rank c < comm_size c)"

definition registry_ok :: "group \<Rightarrow> bool" where
  "registry_ok g \<longleftrightarrow> kset_ok mb_id (gr_members g) \<and> distinct (gr_order g) \<and>
     set (gr_order g) = mb_id ` set (gr_members g)"

definition group_ok :: "group \<Rightarrow> bool" where
  "group_ok g \<longleftrightarrow>
     registry_ok g \<and> cohort_ok g \<and>
     0 \<le> gr_depth g \<and> gr_depth g < INT32_MAX \<and> - 1 \<le> gr_timestamp g \<and>
     ts_ok (gr_timestamps g) \<and> int (length (gr_timestamps g)) \<le> gr_depth g + 1 \<and>
     (\<forall>t \<in> set (gr_timestamps g). 0 \<le> t \<and> t \<le> gr_timestamp g) \<and>
     (\<forall>m \<in> set (gr_members g). member_of (gr_depth g) (gr_timestamp g) m)"

section \<open>Members that have stored everything\<close>

text \<open>What this rank has staged of a member and not stored.\<close>

definition unstored :: "member \<Rightarrow> nat set" where
  "unstored m = (case mb_stage m of None \<Rightarrow> {}
     | Some s \<Rightarrow> subset_elems (sn_staged s ! nat (sn_rank s)))"

lemma has_unstored_eq:
  assumes "member_ok st es n m"
  shows "has_unstored_data m = Some (unstored m \<noteq> {})"
proof -
  obtain s where s: "mb_stage m = Some s" "fixed_snap st es n s" using assms by (auto simp: member_ok_def)
  obtain A where A: "staged_subset s = Some (basic_subset A)" "sn_staged s ! nat (sn_rank s) = basic_subset A"
    "regions_ok st A" by (rule own_staged [OF s(2)])
  have "subset_equal (basic_subset A) empty_subset = Some (regions_elems A = {})"
    using subset_equal_empty [OF A(3)] regions_empty_iff [OF A(3)] by simp
  then show ?thesis using s(1) A(1,2) by (simp add: has_unstored_data_def unstored_def subset_elems_def)
qed

lemma any_unstored_eq:
  "\<forall>m \<in> set ms. some_member m \<Longrightarrow> any_unstored ms = Some (\<exists>m \<in> set ms. unstored m \<noteq> {})"
proof (induction ms)
  case (Cons m ms)
  then obtain st es n where "member_ok st es n m" by (auto simp: some_member_def)
  then show ?case using Cons has_unstored_eq by simp
qed simp

section \<open>Committing\<close>

text \<open>What a commit at \<open>ts\<close> does to one member.\<close>

definition committed :: "comm \<Rightarrow> int \<Rightarrow> member \<Rightarrow> member \<Rightarrow> bool" where
  "committed c ts m m' \<longleftrightarrow>
     mb_id m' = mb_id m \<and> mb_depth m' = mb_depth m \<and> mb_user m' = mb_user m \<and> some_member m' \<and>
     (\<exists>s. mb_stage m = Some s \<and>
       mb_commits m' = trimmed (mb_depth m) (commit_insert (s\<lparr>sn_timestamp := ts\<rparr>) (mb_commits m)))"

lemma member_commit_some:
  assumes "malloc_ok fresh" "some_member m" "unstored m = {}" "cm_rank c < comm_size c" "0 \<le> ts"
  shows "\<exists>m'. member_commit fresh c ts m = Some m' \<and> committed c ts m m'"
proof -
  obtain st es n where m: "member_ok st es n m" using assms(2) by (auto simp: some_member_def)
  then obtain s where s: "mb_stage m = Some s" by (auto simp: member_ok_def)
  have "subset_elems (sn_staged s ! nat (sn_rank s)) = {}" using assms(3) s by (simp add: unstored_def)
  from member_commit_fixed [OF assms(1) m s this assms(4,5)] show ?thesis
    using s by (fastforce simp: committed_def some_member_def)
qed

lemma each_member_all:
  "\<forall>m \<in> set ms. \<exists>m'. f m = Some m' \<and> P m m' \<Longrightarrow> \<exists>ms'. each_member f ms = Some ms' \<and> list_all2 P ms ms'"
  by (induction ms) auto

lemma committed_last:
  assumes "committed c ts m m'" "member_of depth now m" "now < ts"
  shows "\<exists>s. mb_stage m = Some s \<and> mb_commits m' = trimmed depth (mb_commits m @ [s\<lparr>sn_timestamp := ts\<rparr>])"
proof -
  obtain s where s: "mb_stage m = Some s"
      "mb_commits m' = trimmed (mb_depth m) (commit_insert (s\<lparr>sn_timestamp := ts\<rparr>) (mb_commits m))"
    using assms(1) by (auto simp: committed_def)
  have "\<forall>y \<in> set (mb_commits m). sn_timestamp y < sn_timestamp (s\<lparr>sn_timestamp := ts\<rparr>)"
    using assms(2,3) by (auto simp: member_of_def)
  then have "commit_insert (s\<lparr>sn_timestamp := ts\<rparr>) (mb_commits m) = mb_commits m @ [s\<lparr>sn_timestamp := ts\<rparr>]"
    by (rule kset_insert_last)
  then show ?thesis using s assms(2) by (simp add: member_of_def)
qed

lemma committed_of:
  assumes "committed c ts m m'" "member_of depth now m" "now < ts"
  shows "member_of depth ts m'"
proof -
  obtain s where s: "mb_commits m' = trimmed depth (mb_commits m @ [s\<lparr>sn_timestamp := ts\<rparr>])"
    using committed_last [OF assms] by blast
  have "int (length (mb_commits m')) \<le> depth + 1"
    using assms(2) unfolding s by (auto simp: trimmed_def member_of_def)
  moreover have "set (mb_commits m') \<subseteq> insert (s\<lparr>sn_timestamp := ts\<rparr>) (set (mb_commits m))"
    unfolding s by (cases "mb_commits m") (auto simp: trimmed_def)
  ultimately show ?thesis using assms by (fastforce simp: member_of_def committed_def)
qed

lemma ts_insert_new: "\<forall>t \<in> set ts. t < now \<Longrightarrow> ts_insert now ts = now # ts"
  by (auto simp: kset_insert_def filter_empty_conv filter_id_conv)

lemma ts_trim_ok:
  assumes "ts_ok ts"
  shows "ts_ok (take n ts)"
  using assms by (simp add: kset_ok_def sorted_wrt_take)

lemma make_room_ok:
  assumes "0 \<le> depth" "depth < INT32_MAX" "int (length ts) \<le> depth + 1"
  shows "make_room depth ts = Some (take (nat depth) ts)"
proof -
  have "size_of_int (i32 (depth + 1)) = nat (depth + 1)" by (rule depth_size [OF assms(1,2)])
  moreover have "butlast ts = take (nat depth) ts" if "length ts = nat (depth + 1)"
    using that assms(1) by (simp add: butlast_conv_take nat_add_distrib)
  moreover have "take (nat depth) ts = ts" if "length ts \<noteq> nat (depth + 1)"
    using that assms by (intro take_all) linarith
  moreover have "ts \<noteq> []" if "length ts = nat (depth + 1)" using that assms(1) by auto
  ultimately show ?thesis by (auto simp: make_room_def)
qed

text \<open>
  A commit with everything stored, at a timestamp newer than any committed one: the newest
  \<open>depth + 1\<close> timestamps stay, every member commits, and the invariant holds.
\<close>

definition commit_at :: "int \<Rightarrow> group \<Rightarrow> group" where
  "commit_at ts g = g\<lparr>gr_timestamp := ts\<rparr>"

lemma group_commit_ok:
  assumes mal: "malloc_ok fresh" and g: "group_ok g" and c: "gr_cohort g = Some c"
    and ts: "gr_timestamp g < ts" and st: "\<forall>m \<in> set (gr_members g). unstored m = {}"
  shows "\<exists>ms. group_commit fresh (commit_at ts g) =
      (Inr (), (commit_at ts g)\<lparr>gr_timestamps := ts # take (nat (gr_depth g)) (gr_timestamps g), gr_members := ms\<rparr>) \<and>
    list_all2 (committed c ts) (gr_members g) ms \<and>
    group_ok ((commit_at ts g)\<lparr>gr_timestamps := ts # take (nat (gr_depth g)) (gr_timestamps g), gr_members := ms\<rparr>)"
proof -
  have mem: "\<forall>m \<in> set (gr_members g). member_of (gr_depth g) (gr_timestamp g) m" using g by (simp add: group_ok_def)
  then have some: "\<forall>m \<in> set (gr_members g). some_member m" by (simp add: member_of_def)
  have d: "0 \<le> gr_depth g" "gr_depth g < INT32_MAX" "int (length (gr_timestamps g)) \<le> gr_depth g + 1"
    and t: "ts_ok (gr_timestamps g)" "\<forall>t \<in> set (gr_timestamps g). 0 \<le> t \<and> t \<le> gr_timestamp g" "0 \<le> ts"
    using g ts by (simp_all add: group_ok_def)
  have rank: "cm_rank c < comm_size c" using g c by (simp add: group_ok_def cohort_ok_def)
  have "\<forall>m \<in> set (gr_members g). \<exists>m'. member_commit fresh c ts m = Some m' \<and> committed c ts m m'"
    using member_commit_some [OF mal _ _ rank t(3)] some st by blast
  then obtain ms where ms: "each_member (member_commit fresh c ts) (gr_members g) = Some ms"
      "list_all2 (committed c ts) (gr_members g) ms" using each_member_all by blast
  let ?ts = "take (nat (gr_depth g)) (gr_timestamps g)"
  have ins: "ts_insert ts ?ts = ts # ?ts"
    using t(2) ts by (intro ts_insert_new) (auto dest!: in_set_takeD)
  have run: "group_commit fresh (commit_at ts g) = (Inr (), (commit_at ts g)\<lparr>gr_timestamps := ts # ?ts, gr_members := ms\<rparr>)"
    using any_unstored_eq [OF some] st c make_room_ok [OF d] ms(1) ins
    by (simp add: group_commit_def comp commit_at_def group_do_def commit_all_def)
  have id: "map mb_id ms = map mb_id (gr_members g)"
    using ms(2) by (induction rule: list_all2_induct) (simp_all add: committed_def)
  have ok: "\<forall>m \<in> set ms. member_of (gr_depth g) ts m"
  proof
    fix m'
    assume "m' \<in> set ms"
    then obtain m where "m \<in> set (gr_members g)" "committed c ts m m'" using ms(2) by (metis list_all2_conv_all_nth in_set_conv_nth)
    then show "member_of (gr_depth g) ts m'" using committed_of mem ts by blast
  qed
  have len: "int (length (ts # ?ts)) \<le> gr_depth g + 1" using d by simp
  have ord: "ts_ok (ts # ?ts)"
    using t ts ts_trim_ok [OF t(1)] by (auto simp: kset_ok_Cons dest!: in_set_takeD)
  have reg: "kset_ok mb_id ms \<and> mb_id ` set ms = mb_id ` set (gr_members g)"
  proof -
    have "kset_ok mb_id (gr_members g)" using g by (simp add: group_ok_def registry_ok_def)
    then have "sorted_wrt (<) (map mb_id ms)" unfolding id by (simp add: kset_ok_def sorted_wrt_map)
    then have "kset_ok mb_id ms" by (simp add: kset_ok_def sorted_wrt_map)
    moreover have "set (map mb_id ms) = set (map mb_id (gr_members g))" unfolding id ..
    ultimately show ?thesis by simp
  qed
  have "group_ok ((commit_at ts g)\<lparr>gr_timestamps := ts # ?ts, gr_members := ms\<rparr>)"
    using g len ord ok reg t ts
    by (auto simp: group_ok_def registry_ok_def cohort_ok_def commit_at_def dest!: in_set_takeD)
  with run ms(2) show ?thesis by blast
qed

lemma group_commit_unstored:
  assumes "\<forall>m \<in> set (gr_members g). some_member m" "\<exists>m \<in> set (gr_members g). unstored m \<noteq> {}"
  shows "group_commit fresh g = (Inl (Throw FENIX_ERROR_MEMBER_UNSTORED), g)"
  using any_unstored_eq [OF assms(1)] assms(2) by (simp add: group_commit_def comp)

section \<open>Deleting snapshots\<close>

lemma delete_one_timestamps:
  "gr_timestamps (delete_one fresh t g) = filter (\<lambda>x. x \<noteq> t) (gr_timestamps g)"
  by (simp add: delete_one_def kset_erase_def)

lemma delete_at_commits:
  assumes "kset_ok sn_timestamp (mb_commits m)"
  shows "mb_commits (snapshot_delete_at fresh t m) = filter (\<lambda>s. sn_timestamp s \<noteq> t) (mb_commits m)"
proof (cases "commit_find t (mb_commits m)")
  case None
  then have "\<forall>s \<in> set (mb_commits m). sn_timestamp s \<noteq> t" using commits.look_None [OF assms] by blast
  then show ?thesis using None by (simp add: snapshot_delete_at_def filter_id_conv)
next
  case (Some s)
  then show ?thesis by (simp add: snapshot_delete_at_def kset_erase_def)
qed

lemma delete_at_same:
  "mb_id (snapshot_delete_at fresh t m) = mb_id m" "mb_depth (snapshot_delete_at fresh t m) = mb_depth m"
  "mb_user (snapshot_delete_at fresh t m) = mb_user m" "mb_stage (snapshot_delete_at fresh t m) = mb_stage m"
  by (simp_all add: snapshot_delete_at_def split: option.splits)

lemma delete_at_ok:
  assumes mal: "malloc_ok fresh" and m: "member_ok st es n m"
  shows "member_ok st es n (snapshot_delete_at fresh t m)"
proof -
  have k: "kset_ok sn_timestamp (mb_commits m)" using m by (simp add: member_ok_def)
  show ?thesis
  proof (cases "commit_find t (mb_commits m)")
    case None
    then show ?thesis using m by (simp add: snapshot_delete_at_def)
  next
    case (Some s)
    then have "s \<in> set (mb_commits m)" using commits.look_iff [OF k] by simp
    then have "fixed_snap st es n s" using m by (simp add: member_ok_def)
    then have "idle_snap es n (snap_reset fresh s)" by (rule reset_idle [OF mal])
    then show ?thesis using m Some commits.ok_rem [OF k, of t]
      by (auto simp: snapshot_delete_at_def member_ok_def kset_erase_def)
  qed
qed

lemma delete_at_of:
  assumes "malloc_ok fresh" "member_of depth now m"
  shows "member_of depth now (snapshot_delete_at fresh t m)"
proof -
  obtain st es n where m: "member_ok st es n m" using assms(2) by (auto simp: member_of_def some_member_def)
  have "mb_commits (snapshot_delete_at fresh t m) = filter (\<lambda>s. sn_timestamp s \<noteq> t) (mb_commits m)"
    using m by (intro delete_at_commits) (simp add: member_ok_def)
  moreover have "length (filter (\<lambda>s. sn_timestamp s \<noteq> t) (mb_commits m)) \<le> length (mb_commits m)" by simp
  ultimately show ?thesis using assms(2) delete_at_ok [OF assms(1) m, of t]
    unfolding member_of_def some_member_def delete_at_same by (auto simp del: length_filter_le)
qed

lemma registry_map:
  assumes "\<forall>m \<in> set ms. mb_id (f m) = mb_id m"
  shows "kset_ok mb_id (map f ms) = kset_ok mb_id ms" "mb_id ` set (map f ms) = mb_id ` set ms"
proof -
  have e: "map mb_id (map f ms) = map mb_id ms" using assms by simp
  have "kset_ok mb_id xs = sorted_wrt (<) (map mb_id xs)" for xs by (simp add: kset_ok_def sorted_wrt_map)
  then show "kset_ok mb_id (map f ms) = kset_ok mb_id ms" unfolding e by (metis e)
  show "mb_id ` set (map f ms) = mb_id ` set ms" using e by (metis list.set_map)
qed

lemma delete_one_ok:
  assumes "malloc_ok fresh" "group_ok g"
  shows "group_ok (delete_one fresh t g)"
proof -
  let ?f = "snapshot_delete_at fresh t"
  have "kset_ok mb_id (map ?f (gr_members g)) = kset_ok mb_id (gr_members g)"
    "mb_id ` set (map ?f (gr_members g)) = mb_id ` set (gr_members g)"
    by (rule registry_map, simp add: delete_at_same)+
  moreover have "\<forall>m \<in> set (map ?f (gr_members g)). member_of (gr_depth g) (gr_timestamp g) m"
    using assms delete_at_of by (auto simp: group_ok_def)
  moreover have "length (kset_erase uminus (- t) (gr_timestamps g)) \<le> length (gr_timestamps g)"
    by (simp add: kset_erase_def)
  moreover have "ts_ok (kset_erase uminus (- t) (gr_timestamps g))"
    using assms(2) stamps.ok_rem by (simp add: group_ok_def)
  moreover have "set (kset_erase uminus (- t) (gr_timestamps g)) \<subseteq> set (gr_timestamps g)"
    by (auto simp: kset_erase_def)
  ultimately show ?thesis
    using assms(2) by (auto simp: group_ok_def registry_ok_def cohort_ok_def delete_one_def)
qed

lemma delete_all_ok:
  assumes "malloc_ok fresh" "group_ok g"
  shows "group_ok (delete_all fresh g) \<and> gr_timestamps (delete_all fresh g) = []"
  using assms(2)
proof (induction "length (gr_timestamps g)" arbitrary: g rule: less_induct)
  case less
  show ?case
  proof (cases "gr_timestamps g = []")
    case True
    then show ?thesis using less.prems by (subst (1 2) delete_all.simps) simp
  next
    case False
    let ?g = "delete_one fresh (hd (gr_timestamps g)) g"
    have "delete_all fresh g = delete_all fresh ?g" using False by (subst delete_all.simps) simp
    moreover have "group_ok ?g" by (rule delete_one_ok [OF assms(1) less.prems])
    ultimately show ?thesis using less.hyps [OF delete_one_fewer [OF False]] by simp
  qed
qed

text \<open>What \<open>snapshot_delete\<close> does, on every branch.\<close>

lemma group_snapshot_delete_cases:
  "gr_timestamps g = [] \<Longrightarrow> group_snapshot_delete fresh ts g = (Inl (Throw FENIX_ERROR_INVALID_TIMESTAMP), g)"
  "gr_timestamps g \<noteq> [] \<Longrightarrow> group_snapshot_delete fresh SNAPSHOT_ALL g = (Inr (), delete_all fresh g)"
  "gr_timestamps g \<noteq> [] \<Longrightarrow> group_snapshot_delete fresh SNAPSHOT_LATEST g
     = (Inr (), delete_one fresh (hd (gr_timestamps g)) g)"
  "0 \<le> ts \<Longrightarrow> ts \<in> set (gr_timestamps g) \<Longrightarrow> group_snapshot_delete fresh ts g = (Inr (), delete_one fresh ts g)"
  "0 \<le> ts \<Longrightarrow> ts \<notin> set (gr_timestamps g) \<Longrightarrow>
     group_snapshot_delete fresh ts g = (Inl (Throw FENIX_ERROR_INVALID_TIMESTAMP), g)"
  by (auto simp: group_snapshot_delete_def comp SNAPSHOT_ALL_def SNAPSHOT_LATEST_def Let_def)

section \<open>The registry of members\<close>

lemma kset_update_insert:
  assumes "key x \<notin> key ` set s" "key y = key x"
  shows "kset_update key y (kset_insert key x s) = kset_insert key y s"
proof -
  have n: "\<not> (\<exists>z \<in> set s. key z = key x)" using assms(1) by (metis imageI)
  have "map (\<lambda>z. if key z = key y then y else z) (filter P s) = filter P s" for P
    by (rule map_idI) (use n assms(2) in auto)
  then show ?thesis using n assms(2) by (simp add: kset_insert_def kset_update_def)
qed

lemma new_id: "registry_ok g \<Longrightarrow> search_member mid g = None \<Longrightarrow> mid \<notin> mb_id ` set (gr_members g)"
  using ids.look_None [of "gr_members g" mid] by (simp add: registry_ok_def search_member_def)

lemma search_emplaced:
  assumes "registry_ok g" "search_member (mb_id m) g = None"
  shows "search_member (mb_id m) (emplace_member m g) = Some m"
  using ids.look_add_fresh [of "gr_members g" m] assms
  by (simp add: registry_ok_def search_member_def emplace_member_def)

lemma add_member_eq:
  assumes g: "registry_ok g" and new: "search_member (mb_id m) g = None"
    and m': "init_snapshots fresh (gr_cohort g) m = Some m'" "mb_id m' = mb_id m"
  shows "add_member fresh m g = (Inr (), push_order (mb_id m) (emplace_member m' g))"
proof -
  have up: "kset_update mb_id m' (kset_insert mb_id m (gr_members g)) = kset_insert mb_id m' (gr_members g)"
    by (rule kset_update_insert [OF new_id [OF g new] m'(2)])
  have s: "search_member (mb_id m) (push_order (mb_id m) (emplace_member m g)) = Some m"
    using search_emplaced [OF g new] by (simp add: search_member_def push_order_def emplace_member_def)
  show ?thesis
    using new search_emplaced [OF g new] s m' up
    by (simp add: add_member_def comp on_member_def start_member_def put_member_def emplace_member_def push_order_def)
qed

lemma registry_add:
  assumes "registry_ok g" "search_member (mb_id m) g = None"
  shows "registry_ok (push_order (mb_id m) (emplace_member m g))"
  using assms new_id [OF assms] ids.ok_add [of "gr_members g" m] ids.keys_add [of "gr_members g" m]
  by (simp add: registry_ok_def push_order_def emplace_member_def)

lemma member_create_ok:
  assumes mal: "malloc_ok fresh" and g: "group_ok g" and c: "gr_cohort g = Some c"
    and new: "search_member mid g = None"
    and n: "0 < mt_extent dt" "0 < n" "n * mt_extent dt \<le> INT_MAX"
  shows "\<exists>m. group_member_create fresh mid p (int n) dt g = (Inr (), push_order mid (emplace_member m g)) \<and>
    member_ok st (mt_extent dt) n m \<and> mb_id m = mid \<and> mb_commits m = [] \<and> unstored m = {} \<and>
    mb_user m = \<lparr>dr_data = p, dr_size = n * mt_extent dt\<rparr> \<and>
    group_ok (push_order mid (emplace_member m g)) \<and>
    search_member mid (push_order mid (emplace_member m g)) = Some m"
proof -
  have reg: "registry_ok g" and d: "0 \<le> gr_depth g" "gr_depth g < INT32_MAX" and rank: "cm_rank c < comm_size c"
    using g c by (simp_all add: group_ok_def cohort_ok_def)
  obtain m s where m: "init_snapshots fresh (Some c) (new_member mid p (int n) dt (gr_depth g)) = Some m"
    "member_ok st (mt_extent dt) n m" "mb_id m = mid" "mb_commits m = []" "mb_depth m = gr_depth g"
    "mb_user m = \<lparr>dr_data = p, dr_size = n * mt_extent dt\<rparr>" "mb_stage m = Some (init_cohort c s)"
    "idle_snap (mt_extent dt) n s"
    using new_member_ok [OF mal n d rank, of mid p st] by blast
  have new0: "search_member (mb_id (new_member mid p (int n) dt (gr_depth g))) g = None" using new by (simp add: new_member_def)
  have run: "group_member_create fresh mid p (int n) dt g = (Inr (), push_order mid (emplace_member m g))"
    using add_member_eq [OF reg new0, of fresh m] m(1,3) c
    by (simp add: group_member_create_def comp new_member_def)
  have un: "unstored m = {}"
    using m(7,8) rank by (simp add: unstored_def init_cohort_def idle_snap_def reinit_cohort_def vec_resize_def)
  have mo: "member_of (gr_depth g) (gr_timestamp g) m"
    using m(2,4,5) d by (auto simp: member_of_def some_member_def)
  have "set (kset_insert mb_id m (gr_members g)) \<subseteq> insert m (set (gr_members g))"
    by (auto simp: kset_insert_set)
  then have "\<forall>x \<in> set (kset_insert mb_id m (gr_members g)). member_of (gr_depth g) (gr_timestamp g) x"
    using g mo by (auto simp: group_ok_def)
  moreover have "registry_ok (push_order mid (emplace_member m g))"
    using registry_add [OF reg, of m] new m(3) by simp
  ultimately have ok: "group_ok (push_order mid (emplace_member m g))"
    using g by (simp add: group_ok_def cohort_ok_def push_order_def emplace_member_def)
  have "search_member mid (push_order mid (emplace_member m g)) = Some m"
    using search_emplaced [OF reg, of m] new m(3) by (simp add: search_member_def push_order_def emplace_member_def)
  with run m un ok show ?thesis by blast
qed

lemma member_create_exists:
  "search_member mid g \<noteq> None \<Longrightarrow> group_member_create fresh mid p count dt g = (Inl (Throw FENIX_ERROR_MEMBER_EXISTS), g)"
  by (simp add: group_member_create_def add_member_def comp new_member_def)

lemma member_delete_ok:
  assumes "group_ok g" "search_member mid g \<noteq> None"
  shows "\<exists>g'. group_member_delete mid g = (Inr (), g') \<and> group_ok g' \<and> search_member mid g' = None \<and>
    (\<forall>k. k \<noteq> mid \<longrightarrow> search_member k g' = search_member k g) \<and> gr_order g' = remove1 mid (gr_order g)"
proof -
  let ?g = "g\<lparr>gr_members := kset_erase mb_id mid (gr_members g), gr_order := remove1 mid (gr_order g)\<rparr>"
  have k: "kset_ok mb_id (gr_members g)" "distinct (gr_order g)" "set (gr_order g) = mb_id ` set (gr_members g)"
    using assms(1) by (simp_all add: group_ok_def registry_ok_def)
  have "registry_ok ?g"
    using k ids.ok_rem [OF k(1)] ids.keys_rem [OF k(1)] by (simp add: registry_ok_def)
  moreover have "set (kset_erase mb_id mid (gr_members g)) \<subseteq> set (gr_members g)" by (auto simp: kset_erase_def)
  ultimately have "group_ok ?g" using assms(1) by (auto simp: group_ok_def cohort_ok_def)
  moreover have "search_member mid ?g = None" using ids.look_rem_same [OF k(1)] by (simp add: search_member_def)
  moreover have "\<forall>k. k \<noteq> mid \<longrightarrow> search_member k ?g = search_member k g"
    using ids.look_rem_other [OF k(1)] by (simp add: search_member_def)
  moreover have "group_member_delete mid g = (Inr (), ?g)" using assms(2) by (simp add: group_member_delete_def comp)
  ultimately show ?thesis by simp
qed

section \<open>Agreement on the timestamps\<close>

text \<open>
  \<open>rows\<close> are the timestamps that the ranks of a cohort have; the two reductions give every
  rank the longest length and the maximum of each column.
\<close>

definition longest :: "int list list \<Rightarrow> nat" where
  "longest rows = Max (length ` set rows)"

definition column_max :: "int list list \<Rightarrow> int list" where
  "column_max rows = map (\<lambda>i. Max ((\<lambda>r. pad_timestamps (longest rows) r ! i) ` set rows)) [0..<longest rows]"

definition reduces_max :: "int list list \<Rightarrow> group_coll \<Rightarrow> bool" where
  "reduces_max rows co \<longleftrightarrow>
     (\<forall>r \<in> set rows. gc_max co (int (length r)) = Inr (int (longest rows)) \<and>
        gc_max_vec co (pad_timestamps (longest rows) r) = Inr (column_max rows))"

lemma longest_ge: "r \<in> set rows \<Longrightarrow> length r \<le> longest rows"
  by (simp add: longest_def)

lemma longest_row:
  assumes "rows \<noteq> []"
  obtains r where "r \<in> set rows" "length r = longest rows"
proof -
  have "longest rows \<in> length ` set rows" unfolding longest_def using assms by (intro Max_in) auto
  then show ?thesis using that by auto
qed

lemma pad_nth: "length r \<le> n \<Longrightarrow> i < n \<Longrightarrow> pad_timestamps n r ! i = (if i < length r then r ! i else - 1)"
  by (simp add: pad_timestamps_def nth_append)

lemma column_nth:
  "i < longest rows \<Longrightarrow> column_max rows ! i = Max ((\<lambda>r. if i < length r then r ! i else - 1) ` set rows)"
  using longest_ge [of _ rows] by (simp add: column_max_def pad_nth cong: image_cong)

lemma column_ge:
  assumes "r \<in> set rows" "i < length r"
  shows "r ! i \<le> column_max rows ! i"
proof -
  have "i < longest rows" using assms longest_ge [OF assms(1)] by simp
  moreover have "(if i < length r then r ! i else - 1) \<le> Max ((\<lambda>r. if i < length r then r ! i else - 1) ` set rows)"
    by (rule Max_ge) (use assms(1) in auto)
  ultimately show ?thesis using assms(2) by (simp add: column_nth)
qed

lemma column_row:
  assumes "rows \<noteq> []" "i < longest rows" "\<forall>r \<in> set rows. \<forall>t \<in> set r. 0 \<le> t"
  obtains r where "r \<in> set rows" "i < length r" "column_max rows ! i = r ! i"
proof -
  let ?f = "\<lambda>r :: int list. if i < length r then r ! i else - 1"
  have "?f ` set rows \<noteq> {}" using assms(1) by (simp only: image_is_empty set_empty not_False_eq_True)
  then have "Max (?f ` set rows) \<in> ?f ` set rows" by (intro Max_in finite_imageI finite_set)
  then obtain r where r: "r \<in> set rows" "column_max rows ! i = ?f r" using column_nth [OF assms(2)] by auto
  obtain l where l: "l \<in> set rows" "length l = longest rows" by (rule longest_row [OF assms(1)])
  have i: "i < length l" using assms(2) l(2) by simp
  have "0 \<le> l ! i" using assms(3) l(1) nth_mem [OF i] by blast
  then have "0 \<le> column_max rows ! i" using column_ge [OF l(1) i] by linarith
  then have "i < length r" using r(2) by (auto split: if_splits)
  then show ?thesis using that r by simp
qed

lemma length_column [simp]: "length (column_max rows) = longest rows"
  by (simp add: column_max_def)

lemma column_ok:
  assumes "rows \<noteq> []" "\<forall>r \<in> set rows. ts_ok r \<and> (\<forall>t \<in> set r. 0 \<le> t)"
  shows "ts_ok (column_max rows)" "\<forall>t \<in> set (column_max rows). 0 \<le> t"
proof -
  have nn: "\<forall>r \<in> set rows. \<forall>t \<in> set r. 0 \<le> t" using assms(2) by blast
  show "ts_ok (column_max rows)"
    unfolding kset_ok_def sorted_wrt_iff_nth_less
  proof (intro allI impI)
    fix i j
    assume ij: "i < j" "j < length (column_max rows)"
    obtain r where r: "r \<in> set rows" "j < length r" "column_max rows ! j = r ! j"
      using column_row [OF assms(1) _ nn, of j] ij(2) by auto
    have "ts_ok r" using assms(2) r(1) by blast
    then have "- (r ! i) < - (r ! j)" using ij(1) r(2) by (simp add: kset_ok_def sorted_wrt_iff_nth_less)
    moreover have "r ! i \<le> column_max rows ! i" using ij(1) r(2) by (intro column_ge [OF r(1)]) simp
    ultimately show "- (column_max rows ! i) < - (column_max rows ! j)" using r(3) by linarith
  qed
  show "\<forall>t \<in> set (column_max rows). 0 \<le> t"
  proof
    fix t
    assume "t \<in> set (column_max rows)"
    then obtain i where i: "i < longest rows" "t = column_max rows ! i" by (auto simp: in_set_conv_nth)
    obtain r where "r \<in> set rows" "i < length r" "column_max rows ! i = r ! i" by (rule column_row [OF assms(1) i(1) nn])
    then show "0 \<le> t" using i(2) nn nth_mem by metis
  qed
qed

lemma fold_ts_insert: "ts_ok (acc @ ts) \<Longrightarrow> fold ts_insert ts acc = acc @ ts"
proof (induction ts arbitrary: acc)
  case (Cons t ts)
  have "\<forall>y \<in> set acc. - y < - t" using Cons.prems by (auto simp: kset_ok_def sorted_wrt_append)
  then have "ts_insert t acc = acc @ [t]" by (rule kset_insert_last)
  then show ?case using Cons by simp
qed simp

lemma cleanup_of:
  assumes "malloc_ok fresh" "member_of depth now m" "\<forall>t \<in> set valid. t \<le> now'"
  shows "member_of depth now' (cleanup_timestamps fresh valid m)"
proof -
  obtain st es n where m: "member_ok st es n m" using assms(2) by (auto simp: member_of_def some_member_def)
  have "\<forall>s \<in> set (mb_commits m). fixed_snap st es n s" using m by (simp add: member_ok_def)
  then have "\<forall>s \<in> set (map (snap_reset fresh) (filter (\<lambda>s. sn_timestamp s \<notin> set valid) (mb_commits m))). idle_snap es n s"
    using reset_idle [OF assms(1)] by auto
  moreover have "kset_ok sn_timestamp (filter (\<lambda>s. sn_timestamp s \<in> set valid) (mb_commits m))"
    using m by (simp add: member_ok_def kset_ok_def sorted_wrt_filter)
  ultimately have "member_ok st es n (cleanup_timestamps fresh valid m)"
    using m by (auto simp: member_ok_def cleanup_timestamps_def)
  moreover have "length (filter (\<lambda>s. sn_timestamp s \<in> set valid) (mb_commits m)) \<le> length (mb_commits m)" by simp
  ultimately show ?thesis using assms(2,3)
    by (auto simp: member_of_def some_member_def cleanup_timestamps_def simp del: length_filter_le)
qed

text \<open>
  Every rank of the cohort ends with the same timestamps, newest first; its members keep no
  snapshot with another timestamp.
\<close>

lemma sync_agrees:
  assumes mal: "malloc_ok fresh" and g: "group_ok g" and c: "gr_cohort g \<noteq> None"
    and rows: "gr_timestamps g \<in> set rows"
      "\<forall>r \<in> set rows. ts_ok r \<and> (\<forall>t \<in> set r. 0 \<le> t) \<and> int (length r) \<le> gr_depth g + 1"
    and co: "reduces_max rows co"
  shows "\<exists>g'. sync_timestamps fresh co g = (Inr (), g') \<and> group_ok g' \<and>
    gr_timestamps g' = column_max rows \<and>
    gr_timestamp g' = (if longest rows = 0 then - 1 else hd (column_max rows)) \<and>
    gr_members g' = map (cleanup_timestamps fresh (column_max rows)) (gr_members g)"
proof -
  let ?V = "column_max rows"
  have ne: "rows \<noteq> []" using rows(1) by auto
  have V: "ts_ok ?V" "\<forall>t \<in> set ?V. 0 \<le> t" using column_ok [OF ne] rows(2) by simp_all
  have f: "fold ts_insert ?V [] = ?V" using fold_ts_insert [of "[]" ?V] V(1) by simp
  let ?g = "g\<lparr>gr_timestamps := ?V, gr_timestamp := (if longest rows = 0 then - 1 else hd ?V),
    gr_members := map (cleanup_timestamps fresh ?V) (gr_members g)\<rparr>"
  have z: "?V = [] \<longleftrightarrow> longest rows = 0" by (metis length_column length_0_conv)
  have run: "sync_timestamps fresh co g = (Inr (), ?g)"
    using c co rows(1) f z by (simp add: sync_timestamps_def comp reduces_max_def adopt_timestamps_def Let_def)
  have le: "\<forall>t \<in> set ?V. t \<le> (if longest rows = 0 then - 1 else hd ?V)"
  proof
    fix t
    assume t: "t \<in> set ?V"
    then have "- hd ?V \<le> - t" by (rule kset_hd_min [OF V(1)])
    then show "t \<le> (if longest rows = 0 then - 1 else hd ?V)" using t z by auto
  qed
  have hd: "- 1 \<le> (if longest rows = 0 then - 1 else hd ?V)"
  proof (cases "longest rows = 0")
    case False
    then have "hd ?V \<in> set ?V" using z by simp
    then have "0 \<le> hd ?V" using V(2) by blast
    then show ?thesis by simp
  qed simp
  obtain l where "l \<in> set rows" "length l = longest rows" by (rule longest_row [OF ne])
  then have len: "int (length ?V) \<le> gr_depth g + 1" using rows(2) by fastforce
  have reg: "kset_ok mb_id (gr_members ?g) = kset_ok mb_id (gr_members g)" "mb_id ` set (gr_members ?g) = mb_id ` set (gr_members g)"
    using registry_map [of "gr_members g" "cleanup_timestamps fresh ?V"] by (simp_all add: cleanup_timestamps_def)
  have mem: "\<forall>m \<in> set (gr_members ?g). member_of (gr_depth g) (if longest rows = 0 then - 1 else hd ?V) m"
    using g cleanup_of [OF mal _ le] by (auto simp: group_ok_def)
  have "group_ok ?g"
    using g V le hd len reg mem unfolding group_ok_def registry_ok_def cohort_ok_def by simp
  then show ?thesis using run by auto
qed

end
