(* ===== verification/Component.thy ===== *)
theory Component
  imports Group_Facts
begin

text \<open>
  \<open>fenix::data::DataComponent\<close> (include/fenix/data/component.hpp, src/data/component.cpp): the
  registry of the data groups, and what it promises about creating, renewing and removing them.
\<close>

section \<open>The registry\<close>

record component =
  cp_groups :: "group list"
  cp_order :: "int list"

definition no_groups :: component where
  "no_groups = \<lparr>cp_groups = [], cp_order = []\<rparr>"

definition search_group :: "int \<Rightarrow> component \<Rightarrow> group option" where
  "search_group gid cp = kset_find gr_id gid (cp_groups cp)"

definition find_group :: "int \<Rightarrow> component \<Rightarrow> failure + group" where
  "find_group gid cp = (case search_group gid cp of
       None \<Rightarrow> Inl (Throw FENIX_ERROR_INVALID_GROUPID) | Some g \<Rightarrow> Inr g)"

definition put_group :: "group \<Rightarrow> component \<Rightarrow> component" where
  "put_group g cp = cp\<lparr>cp_groups := kset_update gr_id g (cp_groups cp)\<rparr>"

text \<open>An operation on a group found by its id, and on a member of it.\<close>

definition in_group :: "int \<Rightarrow> (group, 'a) comp \<Rightarrow> (component, 'a) comp" where
  "in_group gid c cp =
     (case find_group gid cp of
        Inl e \<Rightarrow> (Inl e, cp)
      | Inr g \<Rightarrow> (case c g of (r, g') \<Rightarrow> (r, put_group g' cp)))"

definition with_member :: "int \<Rightarrow> (member, 'a) comp \<Rightarrow> (group, 'a) comp" where
  "with_member mid c g =
     (case find_member mid g of
        Inl e \<Rightarrow> (Inl e, g)
      | Inr m \<Rightarrow> (case c m of (r, m') \<Rightarrow> (r, put_member m' g)))"

definition in_member :: "int \<Rightarrow> int \<Rightarrow> (member, 'a) comp \<Rightarrow> (component, 'a) comp" where
  "in_member gid mid c = in_group gid (with_member mid c)"

definition component_search_member :: "int \<Rightarrow> int \<Rightarrow> component \<Rightarrow> member option" where
  "component_search_member gid mid cp =
     (case search_group gid cp of None \<Rightarrow> None | Some g \<Rightarrow> search_member mid g)"

section \<open>Creating and removing groups\<close>

text \<open>\<open>FENIX_DATA_POLICY_IN_MEMORY_RAID\<close> and \<open>FENIX_DATA_POLICY_LOCAL\<close>.\<close>

definition policy_named :: "int \<Rightarrow> int list option \<Rightarrow> comm \<Rightarrow> policy option" where
  "policy_named name vals c =
     (if name = 13 then Some (imr_policy vals c)
      else if name = 14 then Some LocalPolicy
      else None)"

definition register_group :: "group \<Rightarrow> component \<Rightarrow> component" where
  "register_group g cp = cp\<lparr>cp_groups := kset_insert gr_id g (cp_groups cp), cp_order := cp_order cp @ [gr_id g]\<rparr>"

text \<open>
  A new group is in the registry before it is initialised; an existing one takes the new
  communicator before it is initialised again.  Nothing is undone when that fails.
\<close>

definition component_group_create ::
  "(nat \<Rightarrow> byte list) \<Rightarrow> group_coll \<Rightarrow> int \<Rightarrow> comm \<Rightarrow> int \<Rightarrow> int \<Rightarrow> int \<Rightarrow> int list option \<Rightarrow> (component, unit) comp" where
  "component_group_create fresh co gid c timestart depth name vals =
     andThen getS (\<lambda>cp. (case search_group gid cp of
       None \<Rightarrow> (case policy_named name vals c of
           None \<Rightarrow> fail (Throw FENIX_ERROR_INVALID_POLICY_NAME)
         | Some pol \<Rightarrow>
             andThen (modS (register_group (new_group gid c timestart depth pol))) (\<lambda>_.
             in_group gid (group_init fresh co)))
     | Some _ \<Rightarrow>
         in_group gid (andThen (modS (\<lambda>g. g\<lparr>gr_comm := c\<rparr>)) (\<lambda>_. group_init fresh co))))"

definition remove_group :: "int \<Rightarrow> (component, unit) comp" where
  "remove_group gid =
     andThen getS (\<lambda>cp.
     andThen (throwIf (search_group gid cp = None) FENIX_ERROR_INVALID_GROUPID) (\<lambda>_.
     modS (\<lambda>cp. cp\<lparr>cp_groups := kset_erase gr_id gid (cp_groups cp), cp_order := remove1 gid (cp_order cp)\<rparr>)))"

definition component_revoke :: "component \<Rightarrow> component" where
  "component_revoke cp = cp\<lparr>cp_groups := map group_revoke (cp_groups cp)\<rparr>"

section \<open>What the registry promises\<close>

interpretation gids: keyed_set gr_id "kset_ok gr_id" "kset_find gr_id" "kset_insert gr_id" "kset_erase gr_id"
  by (rule kset_keyed)

definition component_ok :: "component \<Rightarrow> bool" where
  "component_ok cp \<longleftrightarrow> kset_ok gr_id (cp_groups cp) \<and> distinct (cp_order cp) \<and>
     set (cp_order cp) = gr_id ` set (cp_groups cp)"

lemma no_groups_ok: "component_ok no_groups"
  by (simp add: component_ok_def no_groups_def kset_ok_def)

lemma search_group_None: "component_ok cp \<Longrightarrow> search_group gid cp = None \<longleftrightarrow> gid \<notin> set (cp_order cp)"
  unfolding component_ok_def search_group_def using gids.look_None [of "cp_groups cp" gid] by simp

lemma put_group_order [simp]: "cp_order (put_group g cp) = cp_order cp"
  by (simp add: put_group_def)

lemma search_put: "search_group gid (put_group g cp) =
    (if gid = gr_id g \<and> search_group gid cp \<noteq> None then Some g else search_group gid cp)"
  by (auto simp: search_group_def put_group_def kset_find_update)

lemma put_group_ok:
  assumes "component_ok cp"
  shows "component_ok (put_group g cp)"
proof -
  have "gr_id ` set (kset_update gr_id g (cp_groups cp)) = gr_id ` set (cp_groups cp)"
    using arg_cong [OF kset_update_keys [of gr_id g "cp_groups cp"], of set] by simp
  then show ?thesis using assms by (simp add: component_ok_def put_group_def kset_update_ok)
qed

lemma in_group_keeps: "keeps component_ok (in_group gid c)"
  unfolding keeps_def in_group_def by (auto simp: put_group_ok split: sum.split prod.split)

lemma register_group_ok:
  assumes "component_ok cp" "search_group (gr_id g) cp = None"
  shows "component_ok (register_group g cp)" "search_group (gr_id g) (register_group g cp) = Some g"
proof -
  have ks: "kset_ok gr_id (cp_groups cp)" using assms(1) by (simp add: component_ok_def)
  have new: "gr_id g \<notin> set (cp_order cp)" using assms search_group_None by simp
  show "component_ok (register_group g cp)"
    using assms(1) new gids.ok_add [OF ks, of g] gids.keys_add [OF ks, of g]
    by (simp add: component_ok_def register_group_def)
  show "search_group (gr_id g) (register_group g cp) = Some g"
    using gids.look_add_fresh [OF ks, of g] assms(2) by (simp add: search_group_def register_group_def)
qed

lemma group_create_keeps: "keeps component_ok (component_group_create fresh co gid c ts depth name vals)"
proof (unfold keeps_def, intro allI impI)
  fix cp assume ok: "component_ok cp"
  let ?new = "new_group gid c ts depth"
  have reg: "component_ok (register_group (?new pol) cp)" if "search_group gid cp = None" for pol
    using register_group_ok(1) [OF ok, of "?new pol"] that by (simp add: new_group_def)
  have ig: "component_ok (snd (in_group gid m s))" if "component_ok s" for m :: "(group, unit) comp" and s
    using in_group_keeps [of gid m] that by (simp add: keeps_def)
  show "component_ok (snd (component_group_create fresh co gid c ts depth name vals cp))"
    using ok reg ig unfolding component_group_create_def by (auto simp: comp split: option.split)
qed

lemma remove_group_keeps: "keeps component_ok (remove_group gid)"
proof (unfold keeps_def, intro allI impI)
  fix cp assume ok: "component_ok cp"
  then have ks: "kset_ok gr_id (cp_groups cp)" by (simp add: component_ok_def)
  show "component_ok (snd (remove_group gid cp))"
    using ok gids.ok_rem [OF ks, of gid] gids.keys_rem [OF ks, of gid]
    by (auto simp: remove_group_def comp component_ok_def)
qed

lemma group_init_id: "group_init fresh co g = (r, g') \<Longrightarrow> gr_id g' = gr_id g"
  by (auto simp: group_init_def sync_timestamps_def adopt_timestamps_def Let_def comp
      split: sum.splits prod.splits if_splits option.splits)

text \<open>
  Creating a group under a new id: whatever its initialisation does, the group is registered
  last; it is gone again after a removal.
\<close>

lemma group_create_registers:
  assumes ok: "component_ok cp" and new: "search_group gid cp = None" and pol: "policy_named name vals c = Some p"
    and init: "group_init fresh co (new_group gid c ts depth p) = (r, g)"
  shows "\<exists>cp'. component_group_create fresh co gid c ts depth name vals cp = (r, cp') \<and>
    search_group gid cp' = Some g \<and> cp_order cp' = cp_order cp @ [gid] \<and>
    (\<forall>k. k \<noteq> gid \<longrightarrow> search_group k cp' = search_group k cp)"
proof -
  let ?new = "new_group gid c ts depth p"
  have gid: "gr_id ?new = gid" by (simp add: new_group_def)
  have g: "gr_id g = gid" using group_init_id [OF init] gid by simp
  note reg = register_group_ok [OF ok, of ?new, unfolded gid, OF new]
  have ks: "kset_ok gr_id (cp_groups cp)" using ok by (simp add: component_ok_def)
  have other: "search_group k (register_group ?new cp) = search_group k cp" if "k \<noteq> gid" for k
    using gids.look_add_other [OF ks, of k ?new] that gid by (simp add: search_group_def register_group_def)
  show ?thesis
  proof (intro exI conjI allI impI)
    show "component_group_create fresh co gid c ts depth name vals cp = (r, put_group g (register_group ?new cp))"
      using new pol reg(2) init by (simp add: component_group_create_def comp in_group_def find_group_def)
    show "search_group gid (put_group g (register_group ?new cp)) = Some g"
      using reg(2) g by (simp add: search_put)
    show "cp_order (put_group g (register_group ?new cp)) = cp_order cp @ [gid]"
      by (simp add: register_group_def gid)
    show "search_group k (put_group g (register_group ?new cp)) = search_group k cp" if "k \<noteq> gid" for k
      using that g other by (simp add: search_put)
  qed
qed

lemma remove_group_removes:
  assumes ok: "component_ok cp" and g: "search_group gid cp = Some g"
  shows "\<exists>cp'. remove_group gid cp = (Inr (), cp') \<and> search_group gid cp' = None \<and> gid \<notin> set (cp_order cp') \<and>
    (\<forall>k. k \<noteq> gid \<longrightarrow> search_group k cp' = search_group k cp)"
proof -
  have ks: "kset_ok gr_id (cp_groups cp)" using ok by (simp add: component_ok_def)
  have d: "distinct (cp_order cp)" using ok by (simp add: component_ok_def)
  show ?thesis
    using g gids.look_rem_same [OF ks, of gid] gids.look_rem_other [OF ks, of _ gid] d
    by (simp add: remove_group_def comp search_group_def)
qed

text \<open>
  An IMR policy that its operations do not know is not rejected when the group is created:
  every rank is alone in its cohort.
\<close>

lemma unknown_mode_alone:
  assumes "cm_rank c < comm_size c" "mode \<noteq> 1" "mode \<noteq> 5"
  shows "cohort_of (ImrPolicy mode s n) c = cohort_of LocalPolicy c"
  using assms by (simp add: cohort_of_def imr_partners_def)

end
