(* ===== verification/Rank_Log.thy ===== *)
theory Rank_Log
  imports Member_Exchange
begin

text \<open>
  The log of the point-to-point messages with one remote rank: \<open>MsgRange\<close>, \<open>Region\<close> and
  \<open>RankLog\<close> (include/fenix/logging/rank_log.h, src/logging/rank_log.cpp), \<open>SendLog\<close> and
  \<open>IrecvLog\<close> (include/fenix/logging/ops).  Calls to MPI are parameters; one may be interrupted
  by a repair, during which the log itself may change.  The coroutine \<open>form_consistency\<close> is
  its part up to the exchange with the remote rank and its part after it.
\<close>

section \<open>Data\<close>

record msg_range =
  mr_first :: int
  mr_next :: int

definition no_range :: msg_range where
  "no_range = \<lparr>mr_first = -1, mr_next = -1\<rparr>"

definition range_at :: "int \<Rightarrow> msg_range" where
  "range_at first = \<lparr>mr_first = first, mr_next = first\<rparr>"

definition range_valid :: "msg_range \<Rightarrow> bool" where
  "range_valid r \<longleftrightarrow> 0 \<le> mr_first r \<and> mr_first r \<le> mr_next r"

definition range_empty :: "msg_range \<Rightarrow> bool" where
  "range_empty r \<longleftrightarrow> 0 \<le> mr_first r \<and> mr_first r = mr_next r"

definition range_fresh :: "msg_range \<Rightarrow> bool" where
  "range_fresh r \<longleftrightarrow> 0 = mr_first r \<and> mr_first r = mr_next r"

record log_region =
  lr_id :: int
  lr_send :: msg_range
  lr_recv :: msg_range

definition no_region :: log_region where
  "no_region = \<lparr>lr_id = -1, lr_send = no_range, lr_recv = no_range\<rparr>"

definition region_named :: "int \<Rightarrow> log_region" where
  "region_named k = no_region\<lparr>lr_id := k\<rparr>"

definition region_from :: "int \<Rightarrow> int \<Rightarrow> int \<Rightarrow> log_region" where
  "region_from k s r = \<lparr>lr_id = k, lr_send = range_at s, lr_recv = range_at r\<rparr>"

definition region_after :: "int \<Rightarrow> log_region \<Rightarrow> log_region option" where
  "region_after k p = do {
     fenix_assert (k > lr_id p);
     Some (region_from k (mr_next (lr_send p)) (mr_next (lr_recv p)))
   }"

definition lr_valid :: "log_region \<Rightarrow> bool" where
  "lr_valid r \<longleftrightarrow> 0 \<le> lr_id r \<and> range_valid (lr_send r) \<and> range_valid (lr_recv r)"

definition lr_empty :: "log_region \<Rightarrow> bool" where
  "lr_empty r \<longleftrightarrow> 0 \<le> lr_id r \<and> range_empty (lr_send r) \<and> range_empty (lr_recv r)"

definition lr_fresh :: "log_region \<Rightarrow> bool" where
  "lr_fresh r \<longleftrightarrow> 0 \<le> lr_id r \<and> range_fresh (lr_send r) \<and> range_fresh (lr_recv r)"

text \<open>\<open>std::lower_bound\<close> and \<open>std::upper_bound\<close> on regions in the order of their ids.\<close>

definition lower_bound :: "int \<Rightarrow> log_region list \<Rightarrow> nat" where
  "lower_bound k rs = length (takeWhile (\<lambda>r. lr_id r < k) rs)"

definition upper_bound :: "int \<Rightarrow> log_region list \<Rightarrow> nat" where
  "upper_bound k rs = length (takeWhile (\<lambda>r. lr_id r \<le> k) rs)"

text \<open>\<open>MPIBuffer\<close> with its own copy of the data, and the logs of a send and of a receive.\<close>

record mpi_buffer =
  bf_type :: int
  bf_count :: int
  bf_data :: "byte list"

record send_log =
  sl_idx :: int
  sl_buf :: mpi_buffer
  sl_tag :: int

record irecv_log =
  ir_buf :: ptr
  ir_count :: int
  ir_type :: int
  ir_tag :: int
  ir_request :: nat

record rank_log =
  rl_rank :: int
  rl_task :: bool
  rl_irecv :: "irecv_log option"
  rl_sends :: "send_log list"
  rl_already :: int
  rl_regions :: "log_region list"

definition new_rank_log :: "nat \<Rightarrow> int \<Rightarrow> rank_log" where
  "new_rank_log max_regions r =
     \<lparr>rl_rank = r, rl_task = False, rl_irecv = None, rl_sends = [], rl_already = -1,
      rl_regions = replicate max_regions no_region\<rparr>"

definition cur_region :: "'a rank_log_scheme \<Rightarrow> log_region" where
  "cur_region l = last (rl_regions l)"

definition next_send :: "'a rank_log_scheme \<Rightarrow> int" where
  "next_send l = mr_next (lr_send (cur_region l))"

definition next_recv :: "'a rank_log_scheme \<Rightarrow> int" where
  "next_recv l = mr_next (lr_recv (cur_region l))"

definition set_cur :: "log_region \<Rightarrow> 'a rank_log_scheme \<Rightarrow> 'a rank_log_scheme" where
  "set_cur r l = l\<lparr>rl_regions := butlast (rl_regions l) @ [r]\<rparr>"

definition set_next_send :: "int \<Rightarrow> 'a rank_log_scheme \<Rightarrow> 'a rank_log_scheme" where
  "set_next_send n l = set_cur ((cur_region l)\<lparr>lr_send := (lr_send (cur_region l))\<lparr>mr_next := n\<rparr>\<rparr>) l"

definition set_next_recv :: "int \<Rightarrow> 'a rank_log_scheme \<Rightarrow> 'a rank_log_scheme" where
  "set_next_recv n l = set_cur ((cur_region l)\<lparr>lr_recv := (lr_recv (cur_region l))\<lparr>mr_next := n\<rparr>\<rparr>) l"

section \<open>Regions\<close>

definition erase_sends :: "log_region \<Rightarrow> 'a rank_log_scheme \<Rightarrow> 'a rank_log_scheme" where
  "erase_sends r l =
     (if \<not> lr_valid r then l
      else l\<lparr>rl_sends := filter (\<lambda>s. sl_idx s < mr_first (lr_send r) \<or> mr_next (lr_send r) \<le> sl_idx s) (rl_sends l)\<rparr>)"

definition append_region :: "log_region \<Rightarrow> 'a rank_log_scheme \<Rightarrow> 'a rank_log_scheme option" where
  "append_region r l = do {
     fenix_assert (rl_regions l \<noteq> [] \<and> lr_id (cur_region l) < lr_id r);
     (let l = erase_sends (hd (rl_regions l)) l
      in Some (l\<lparr>rl_regions := tl (rl_regions l) @ [r]\<rparr>))
   }"

text \<open>Erases the regions from a position on; those before it move to the end.\<close>

definition erase_regions :: "nat \<Rightarrow> 'a rank_log_scheme \<Rightarrow> 'a rank_log_scheme" where
  "erase_regions b l =
     (let l' = fold erase_sends (drop b (rl_regions l)) l
      in l'\<lparr>rl_regions := replicate (length (rl_regions l) - b) no_region @ take b (rl_regions l)\<rparr>)"

definition begin_region :: "int \<Rightarrow> 'a rank_log_scheme \<Rightarrow> 'a rank_log_scheme option" where
  "begin_region k l = do {
     fenix_assert (0 \<le> k);
     if lr_id (cur_region l) > k then do {
       fenix_assert (lr_empty (cur_region l));
       Some l
     } else do {
       l \<leftarrow> (if lr_id (cur_region l) = k then do {
               fenix_assert (lr_valid (cur_region l));
               fenix_assert (lr_empty (cur_region l));
               Some l
             } else if lr_valid (cur_region l) then do {
               r \<leftarrow> region_after k (cur_region l);
               append_region r l
             } else append_region (region_from k 0 0) l);
       fenix_assert (lr_valid (cur_region l) \<and> lr_empty (cur_region l) \<and> lr_id (cur_region l) = k);
       Some l
     }
   }"

section \<open>Consistency\<close>

text \<open>
  \<open>check_consistent\<close> for two valid vectors: the one that is ahead comes first; a fresh region
  takes over the start indices of the other side.
\<close>

definition take_starts :: "log_region \<Rightarrow> log_region \<Rightarrow> log_region" where
  "take_starts from r = r\<lparr>lr_send := range_at (mr_first (lr_recv from)), lr_recv := range_at (mr_first (lr_send from))\<rparr>"

definition check_ahead :: "log_region list \<Rightarrow> log_region list \<Rightarrow> (log_region list \<times> log_region list) option" where
  "check_ahead a b =
     (let i = lower_bound (lr_id (last b)) a; ra = a ! i; rb = last b in do {
        fenix_assert (i < length a);
        fenix_assert (lr_id rb = lr_id ra);
        if mr_first (lr_send ra) = mr_first (lr_recv rb) \<and> mr_first (lr_recv ra) = mr_first (lr_send rb)
        then Some (a, b)
        else if lr_fresh rb then Some (a, butlast b @ [take_starts ra rb])
        else if lr_fresh ra \<and> lr_id ra = lr_id (last a) then Some (a[i := take_starts rb ra], b)
        else None
      })"

definition check_consistent :: "log_region list \<Rightarrow> log_region list \<Rightarrow> (log_region list \<times> log_region list) option" where
  "check_consistent a b = do {
     fenix_assert (lr_valid (last a) \<and> lr_valid (last b));
     if lr_id (last a) < lr_id (last b) then map_option (\<lambda>(y, x). (x, y)) (check_ahead b a)
     else check_ahead a b
   }"

text \<open>\<open>recover_invalid\<close>: the side with a valid region tells the other where it is.\<close>

definition recover_from :: "log_region list \<Rightarrow> log_region list \<Rightarrow> (log_region list \<times> log_region list) option" where
  "recover_from a b =
     (let i = lower_bound (lr_id (last b)) a; ra = a ! i; rb = last b in do {
        fenix_assert (0 \<le> lr_id rb);
        fenix_assert (i < length a \<and> (lr_id ra = lr_id rb \<or> lr_fresh ra));
        Some (a, butlast b @ [if lr_id ra \<noteq> lr_id rb then region_from (lr_id ra) 0 0 else take_starts ra rb])
      })"

definition recover_invalid :: "log_region list \<Rightarrow> log_region list \<Rightarrow> (log_region list \<times> log_region list) option" where
  "recover_invalid a b =
     (if lr_valid (last a) then recover_from a b
      else do {
        fenix_assert (lr_valid (last b));
        map_option (\<lambda>(y, x). (x, y)) (recover_from b a)
      })"

text \<open>What \<open>replay_messages\<close> hands to MPI.\<close>

datatype log_op = Isend send_log | Irecv irecv_log

fun consecutive :: "int \<Rightarrow> send_log list \<Rightarrow> bool" where
  "consecutive p [] = True"
| "consecutive p (s # ss) = (sl_idx s = p + 1 \<and> consecutive (sl_idx s) ss)"

definition replay_messages :: "'a rank_log_scheme \<Rightarrow> log_op list option" where
  "replay_messages l =
     (let todo = filter (\<lambda>s. rl_already l < sl_idx s) (rl_sends l) in do {
        fenix_assert (todo \<noteq> [] \<or> next_send l - 1 \<le> rl_already l);
        fenix_assert (consecutive (rl_already l) todo);
        Some (map Isend todo @ (case rl_irecv l of None \<Rightarrow> [] | Some i \<Rightarrow> [Irecv i]))
      })"

text \<open>The part of \<open>form_consistency\<close> before the exchange: the regions that are sent.\<close>

definition start_consistency :: "int \<Rightarrow> 'a rank_log_scheme \<Rightarrow> 'a rank_log_scheme option" where
  "start_consistency active l =
     (if lr_valid (cur_region l) then Some l
      else do {
        fenix_assert (rl_irecv l = None);
        Some (set_cur (region_named active) l)
      })"

text \<open>The part after it, with the regions of the remote rank.\<close>

definition merge_regions_of :: "log_region list \<Rightarrow> log_region list \<Rightarrow> (log_region list \<times> log_region list) option" where
  "merge_regions_of mine remote = do {
     fenix_assert (lr_valid (last remote) \<or> lr_valid (last mine));
     (mine', remote') \<leftarrow> (if lr_valid (last remote) \<and> lr_valid (last mine)
        then check_consistent mine remote else recover_invalid mine remote);
     fenix_assert (lr_valid (last mine') \<and> lr_valid (last remote'));
     Some (mine', remote')
   }"

definition finish_consistency :: "log_region list \<Rightarrow> 'a rank_log_scheme \<Rightarrow> ('a rank_log_scheme \<times> log_op list) option" where
  "finish_consistency remote l = do {
     (mine, remote) \<leftarrow> merge_regions_of (rl_regions l) remote;
     (let l = l\<lparr>rl_regions := mine, rl_already := mr_next (lr_recv (last remote)) - 1\<rparr> in do {
        ops \<leftarrow> replay_messages l;
        Some (l\<lparr>rl_task := False\<rparr>, ops)
      })
   }"

text \<open>
  \<open>reset_consistency\<close>; \<open>True\<close> when it creates a task, which runs when it is first resumed.
\<close>

definition reset_current :: "'a rank_log_scheme \<Rightarrow> 'a rank_log_scheme" where
  "reset_current l =
     (let l = erase_sends (cur_region l) l
      in set_next_recv (mr_first (lr_recv (cur_region l))) (set_next_send (mr_first (lr_send (cur_region l))) l))"

definition leave_future :: "int \<Rightarrow> 'a rank_log_scheme \<Rightarrow> (bool \<times> 'a rank_log_scheme) option" where
  "leave_future target l =
     (let l = erase_regions (upper_bound target (rl_regions l)) l in
      if \<not> lr_valid (cur_region l) then Some (False, l)
      else do { fenix_assert (lr_id (cur_region l) = target); Some (True, l) })"

definition reset_consistency :: "int \<Rightarrow> 'a rank_log_scheme \<Rightarrow> (bool \<times> 'a rank_log_scheme) option" where
  "reset_consistency target l = do {
     fenix_assert (\<not> rl_task l);
     fenix_assert (- 1 \<le> target);
     fenix_assert (target < 0 \<or> rl_irecv l = None);
     if \<not> lr_valid (cur_region l) then Some (False, l)
     else do {
       (go, l) \<leftarrow> (if 0 \<le> target \<and> target < lr_id (cur_region l) then leave_future target l
         else if target > lr_id (cur_region l) then do {
           r \<leftarrow> region_after target (cur_region l);
           l \<leftarrow> append_region r l;
           Some (True, l)
         } else Some (True, l));
       if \<not> go then Some (False, l)
       else do {
         (let l = (if lr_id (cur_region l) = target then reset_current l else l) in do {
            fenix_assert (lr_valid (cur_region l));
            fenix_assert (lr_id (cur_region l) = target \<or> target = -1);
            Some (True, l\<lparr>rl_task := True\<rparr>)
          })
       }
     }
   }"

definition reply_consistency :: "'a rank_log_scheme \<Rightarrow> 'a rank_log_scheme" where
  "reply_consistency l = l\<lparr>rl_task := True\<rparr>"

definition rank_pre_recovery :: "'a rank_log_scheme \<Rightarrow> 'a rank_log_scheme" where
  "rank_pre_recovery l = l\<lparr>rl_task := False\<rparr>"

section \<open>Logged operations\<close>

definition ensure_consistency :: "int \<Rightarrow> 'a rank_log_scheme \<Rightarrow> 'a rank_log_scheme option" where
  "ensure_consistency active l = do {
     fenix_assert (\<not> rl_task l);
     l \<leftarrow> (if lr_valid (cur_region l) then Some l else append_region (region_from active 0 0) l);
     fenix_assert (active \<le> lr_id (cur_region l));
     Some l
   }"

definition log_send :: "int \<Rightarrow> mpi_buffer \<Rightarrow> int \<Rightarrow> 'a rank_log_scheme \<Rightarrow> (send_log \<times> 'a rank_log_scheme) option" where
  "log_send active b tag l = do {
     l \<leftarrow> ensure_consistency active l;
     fenix_assert (lr_id (cur_region l) = active);
     fenix_assert (rl_sends l = [] \<or> sl_idx (last (rl_sends l)) = next_send l - 1);
     (let s = \<lparr>sl_idx = next_send l, sl_buf = b, sl_tag = tag\<rparr>;
          l = set_next_send (next_send l + 1) l
      in Some (s, l\<lparr>rl_sends := rl_sends l @ [s]\<rparr>))
   }"

text \<open>A step that returns a value or fails an assertion.\<close>

definition stepO :: "('s \<Rightarrow> ('a \<times> 's) option) \<Rightarrow> ('s, 'a) comp" where
  "stepO f s = (case f s of None \<Rightarrow> (Inl Abort, s) | Some (x, s') \<Rightarrow> (Inr x, s'))"

lemma stepO_run [comp]:
  "stepO f s = (case f s of None \<Rightarrow> (Inl Abort, s) | Some (x, s') \<Rightarrow> (Inr x, s'))"
  by (simp add: stepO_def)

text \<open>\<open>try ... catch (CommException)\<close>: the handler runs in the state that the exception left.\<close>

definition catchComm :: "('s, 'a) comp \<Rightarrow> ('s, 'a) comp \<Rightarrow> ('s, 'a) comp" where
  "catchComm body handler s = (case body s of (Inl Comm, s') \<Rightarrow> handler s' | r \<Rightarrow> r)"

definition MPI_SUCCESS :: int where
  "MPI_SUCCESS = 0"

definition rank_send ::
  "(send_log \<Rightarrow> ('a rank_log_scheme, int) comp) \<Rightarrow> ('a rank_log_scheme, int) comp \<Rightarrow> bool \<Rightarrow> int \<Rightarrow> mpi_buffer \<Rightarrow> int
    \<Rightarrow> ('a rank_log_scheme, int) comp" where
  "rank_send isend progress manual active b tag =
     andThen (stepO (log_send active b tag)) (\<lambda>s.
     andThen getS (\<lambda>l.
     if sl_idx s \<le> rl_already l then ret MPI_SUCCESS
     else catchComm
       (andThen (isend s) (\<lambda>r. if r = MPI_SUCCESS then progress else ret r))
       (if manual then fail Comm else ret MPI_SUCCESS)))"

definition unitO :: "('s \<Rightarrow> 's option) \<Rightarrow> ('s, unit) comp" where
  "unitO f = stepO (\<lambda>s. map_option (Pair ()) (f s))"

definition rank_irecv ::
  "(irecv_log \<Rightarrow> ('a rank_log_scheme, int) comp) \<Rightarrow> bool \<Rightarrow> int \<Rightarrow> irecv_log \<Rightarrow> ('a rank_log_scheme, int) comp" where
  "rank_irecv irecv manual active i =
     andThen getS (\<lambda>l.
     andThen (assertS (rl_irecv l = None)) (\<lambda>_.
     andThen (unitO (ensure_consistency active)) (\<lambda>_.
     andThen getS (\<lambda>l.
     andThen (assertS (lr_id (cur_region l) = active)) (\<lambda>_.
     andThen (modS (\<lambda>l. l\<lparr>rl_irecv := Some i\<rparr>)) (\<lambda>_.
     catchComm (irecv i)
       (if manual then andThen (modS (\<lambda>l. l\<lparr>rl_irecv := None\<rparr>)) (\<lambda>_. fail Comm)
        else andThen (unitO (ensure_consistency active)) (\<lambda>_. ret MPI_SUCCESS))))))))"

text \<open>
  \<open>wait\<close> retries after every repair; \<open>tries\<close> are the calls of \<open>progress_through\<close> as they turn
  out.  \<open>None\<close>: still waiting after all of them.
\<close>

fun wait_loop :: "bool \<Rightarrow> nat \<Rightarrow> ('a rank_log_scheme, unit) comp list \<Rightarrow> 'a rank_log_scheme \<Rightarrow> ((failure + unit) \<times> 'a rank_log_scheme) option" where
  "wait_loop manual r [] l = None"
| "wait_loop manual r (try # tries) l =
     (if \<not> lr_valid (cur_region l) \<or> map_option ir_request (rl_irecv l) \<noteq> Some r then Some (Inl Abort, l)
      else (case try l of
          (Inl Comm, l') \<Rightarrow> if manual then Some (Inl Comm, l') else wait_loop manual r tries l'
        | (Inl e, l') \<Rightarrow> Some (Inl e, l')
        | (Inr _, l') \<Rightarrow> Some (Inr (), set_next_recv (next_recv l' + 1) l'\<lparr>rl_irecv := None\<rparr>)))"

definition rank_wait :: "bool \<Rightarrow> nat \<Rightarrow> ('a rank_log_scheme, unit) comp list \<Rightarrow> 'a rank_log_scheme \<Rightarrow> ((failure + unit) \<times> 'a rank_log_scheme) option" where
  "rank_wait manual r tries l =
     (if map_option ir_request (rl_irecv l) \<noteq> Some r then Some (Inl Abort, l)
      else wait_loop manual r tries l)"

end
