(* ===== verification/Rank_Facts.thy ===== *)
theory Rank_Facts
  imports Rank_Log
begin

text \<open>
  Facts about the log of one remote rank: both ranks agree on their regions, and the messages
  that reach MPI after a recovery are exactly those that the remote rank has not received,
  once each and in order.
\<close>

section \<open>Agreement\<close>

definition log_sorted :: "log_region list \<Rightarrow> bool" where
  "log_sorted rs \<longleftrightarrow> rs \<noteq> [] \<and>
     sorted_wrt (\<lambda>x y. lr_id x < lr_id y \<or> lr_id x < 0 \<and> lr_id y < 0) rs"

lemma takeWhile_butlast:
  assumes "rs \<noteq> []" "\<forall>r \<in> set (butlast rs). P r" "\<not> P (last rs)"
  shows "takeWhile P rs = butlast rs"
proof -
  have "takeWhile P (butlast rs @ [last rs]) = butlast rs @ takeWhile P [last rs]"
    using assms(2) by (intro takeWhile_append2) blast
  then show ?thesis using assms(1,3) by simp
qed

lemma log_sorted_last:
  assumes "log_sorted rs" "0 \<le> lr_id (last rs)"
  shows "\<forall>r \<in> set (butlast rs). lr_id r < lr_id (last rs)"
proof -
  have "sorted_wrt (\<lambda>x y. lr_id x < lr_id y \<or> lr_id x < 0 \<and> lr_id y < 0) (butlast rs @ [last rs])"
    using assms(1) by (simp add: log_sorted_def)
  then show ?thesis using assms(2) by (auto simp: sorted_wrt_append)
qed

lemma lower_bound_last:
  assumes "log_sorted rs" "0 \<le> lr_id (last rs)"
  shows "lower_bound (lr_id (last rs)) rs = length rs - 1"
proof -
  have "takeWhile (\<lambda>r. lr_id r < lr_id (last rs)) rs = butlast rs"
    using assms log_sorted_last [OF assms] by (intro takeWhile_butlast) (auto simp: log_sorted_def)
  then show ?thesis by (simp add: lower_bound_def)
qed

lemma list_update_last: "rs \<noteq> [] \<Longrightarrow> rs[length rs - Suc 0 := x] = butlast rs @ [x]"
  by (induction rs rule: rev_induct) simp_all

text \<open>Both ranks in the same region.\<close>

lemma check_ahead_same:
  assumes "log_sorted a" "0 \<le> lr_id (last a)" "lr_id (last b) = lr_id (last a)"
  shows "check_ahead a b =
    (if mr_first (lr_send (last a)) = mr_first (lr_recv (last b)) \<and> mr_first (lr_recv (last a)) = mr_first (lr_send (last b))
     then Some (a, b)
     else if lr_fresh (last b) then Some (a, butlast b @ [take_starts (last a) (last b)])
     else if lr_fresh (last a) then Some (butlast a @ [take_starts (last b) (last a)], b)
     else None)"
proof -
  have ne: "a \<noteq> []" using assms(1) by (simp add: log_sorted_def)
  have i: "lower_bound (lr_id (last b)) a = length a - 1" using lower_bound_last [OF assms(1,2)] assms(3) by simp
  have l: "a ! (length a - Suc 0) = last a" using last_conv_nth [OF ne] by simp
  show ?thesis using ne assms(3) unfolding check_ahead_def i by (simp add: l list_update_last [OF ne] Let_def)
qed

lemma check_consistent_sym:
  assumes "log_sorted a" "log_sorted b" "check_consistent a b = Some (a', b')"
  shows "check_consistent b a = Some (b', a')"
proof -
  have v: "lr_valid (last a)" "lr_valid (last b)"
    using assms(3) by (simp_all add: check_consistent_def split: if_splits bind_splits)
  then have nn: "0 \<le> lr_id (last a)" "0 \<le> lr_id (last b)" by (simp_all add: lr_valid_def)
  consider "lr_id (last a) = lr_id (last b)" | "lr_id (last a) < lr_id (last b)" | "lr_id (last b) < lr_id (last a)"
    by linarith
  then show ?thesis
  proof cases
    case 1
    then have "check_ahead a b = Some (a', b')" using assms(3) v by (simp add: check_consistent_def)
    then have "check_ahead b a = Some (b', a')"
      unfolding check_ahead_same [OF assms(1) nn(1) 1 [symmetric]] check_ahead_same [OF assms(2) nn(2) 1]
      by (auto simp: lr_fresh_def range_fresh_def split: if_splits)
    then show ?thesis using 1 v by (simp add: check_consistent_def)
  next
    case 2
    then have "check_ahead b a = Some (b', a')" using assms(3) v by (auto simp: check_consistent_def)
    then show ?thesis using 2 v by (simp add: check_consistent_def)
  next
    case 3
    then have "check_ahead a b = Some (a', b')" using assms(3) v by (simp add: check_consistent_def)
    then show ?thesis using 3 v by (simp add: check_consistent_def)
  qed
qed

lemma recover_invalid_sym:
  assumes "lr_valid (last a) \<noteq> lr_valid (last b)" "recover_invalid a b = Some (a', b')"
  shows "recover_invalid b a = Some (b', a')"
proof (cases "lr_valid (last a)")
  case True
  then have "\<not> lr_valid (last b)" "recover_from a b = Some (a', b')" using assms by (simp_all add: recover_invalid_def)
  then show ?thesis using True by (simp add: recover_invalid_def)
next
  case False
  then have "lr_valid (last b)" "recover_from b a = Some (b', a')"
    using assms by (auto simp: recover_invalid_def)
  then show ?thesis by (simp add: recover_invalid_def)
qed

lemma guarded_pair:
  "(do { fenix_assert p; (x, y) \<leftarrow> X; fenix_assert (q x y); Some (x, y) }) = Some (a, b) \<longleftrightarrow>
     p \<and> q a b \<and> X = Some (a, b)"
  by (cases p; cases X) (auto simp: fenix_assert_def split: if_splits)

lemma merge_regions_iff:
  "merge_regions_of a b = Some (a', b') \<longleftrightarrow>
     (lr_valid (last b) \<or> lr_valid (last a)) \<and> (lr_valid (last a') \<and> lr_valid (last b')) \<and>
     (if lr_valid (last b) \<and> lr_valid (last a) then check_consistent a b else recover_invalid a b) = Some (a', b')"
  unfolding merge_regions_of_def by (rule guarded_pair)

lemma merge_regions_sym:
  assumes "log_sorted a" "log_sorted b" "merge_regions_of a b = Some (a', b')"
  shows "merge_regions_of b a = Some (b', a')"
proof (cases "lr_valid (last a) \<and> lr_valid (last b)")
  case True
  then show ?thesis using assms(3) check_consistent_sym [OF assms(1,2)] unfolding merge_regions_iff by simp
next
  case False
  then have v: "lr_valid (last a) \<noteq> lr_valid (last b)" "recover_invalid a b = Some (a', b')"
    using assms(3) unfolding merge_regions_iff by (auto split: if_splits)
  have "recover_invalid b a = Some (b', a')" by (rule recover_invalid_sym [OF v])
  then show ?thesis using assms(3) False unfolding merge_regions_iff by (auto split: if_splits)
qed

section \<open>Exactly once\<close>

text \<open>
  The sends in the log have consecutive indices, the last of them just below the next one.
\<close>

definition rank_ok :: "'a rank_log_scheme \<Rightarrow> bool" where
  "rank_ok l \<longleftrightarrow> rl_regions l \<noteq> [] \<and> (\<forall>s \<in> set (rl_sends l). 0 \<le> sl_idx s) \<and>
     map sl_idx (rl_sends l) = [next_send l - int (length (rl_sends l)) .. next_send l - 1]"

lemma new_rank_ok: "0 < n \<Longrightarrow> rank_ok (new_rank_log n r)"
  by (simp add: rank_ok_def new_rank_log_def)

text \<open>The log with the messages that have been handed to MPI.\<close>

record wired = rank_log +
  wire :: "send_log list"

text \<open>An MPI that takes every message.\<close>

definition good_isend :: "send_log \<Rightarrow> (wired, int) comp" where
  "good_isend s = andThen (modS (\<lambda>l. l\<lparr>wire := wire l @ [s]\<rparr>)) (\<lambda>_. ret MPI_SUCCESS)"

definition send_msg :: "int \<Rightarrow> mpi_buffer \<times> int \<Rightarrow> (wired, unit) comp" where
  "send_msg active msg = andThen (rank_send good_isend (ret MPI_SUCCESS) False active (fst msg) (snd msg)) (\<lambda>_. ret ())"

definition replayed :: "log_op list \<Rightarrow> send_log list" where
  "replayed ops = concat (map (\<lambda>x. case x of Isend s \<Rightarrow> [s] | Irecv i \<Rightarrow> []) ops)"

lemma replayed_app: "replayed (map Isend ss @ ops) = ss @ replayed ops"
  by (induction ss) (simp_all add: replayed_def)

lemma consecutive_upto: "consecutive p ss \<longleftrightarrow> map sl_idx ss = [p + 1 .. p + int (length ss)]"
proof (induction ss arbitrary: p)
  case (Cons s ss)
  have "[p + 1 .. p + int (length (s # ss))] = (p + 1) # [p + 2 .. p + 1 + int (length ss)]"
    by (simp add: upto_rec1 algebra_simps)
  then show ?case using Cons.IH [of "sl_idx s"] by (auto simp: algebra_simps)
qed simp

lemma filter_upto: "filter (\<lambda>i. k < i) [m .. n] = [max (k + 1) m .. n]"
proof (induction "nat (n - m + 1)" arbitrary: m)
  case 0
  then show ?case by simp
next
  case (Suc x)
  then have m: "m \<le> n" by simp
  have "filter (\<lambda>i. k < i) [m + 1 .. n] = [max (k + 1) (m + 1) .. n]" using Suc by (intro Suc.hyps(1)) simp
  then show ?case using m by (auto simp: upto_rec1 [OF m] max_def)
qed

lemma replay_indices:
  assumes "rank_ok l" "replay_messages l = Some ops"
  shows "map sl_idx (replayed ops) = [rl_already l + 1 .. next_send l - 1]"
proof -
  let ?todo = "filter (\<lambda>s. rl_already l < sl_idx s) (rl_sends l)"
  have c: "consecutive (rl_already l) ?todo" and e: "?todo \<noteq> [] \<or> next_send l - 1 \<le> rl_already l"
    and ops: "ops = map Isend ?todo @ (case rl_irecv l of None \<Rightarrow> [] | Some i \<Rightarrow> [Irecv i])"
    using assms(2) by (auto simp: replay_messages_def Let_def split: bind_splits)
  have rep: "replayed ops = ?todo" unfolding ops replayed_app by (cases "rl_irecv l") (simp_all add: replayed_def)
  let ?lo = "next_send l - int (length (rl_sends l))"
  have "map sl_idx ?todo = filter (\<lambda>i. rl_already l < i) (map sl_idx (rl_sends l))" by (simp add: filter_map comp_def)
  also have "\<dots> = [max (rl_already l + 1) ?lo .. next_send l - 1]"
    using assms(1) unfolding rank_ok_def by (simp add: filter_upto)
  finally have m: "map sl_idx ?todo = [max (rl_already l + 1) ?lo .. next_send l - 1]" .
  show ?thesis
  proof (cases "?todo = []")
    case True
    then have "next_send l - 1 \<le> rl_already l" using e by blast
    then show ?thesis using True rep by simp
  next
    case False
    then have "max (rl_already l + 1) ?lo \<le> next_send l - 1" using m by (metis Nil_is_map_conv upto_empty not_less)
    then have "hd (map sl_idx ?todo) = max (rl_already l + 1) ?lo" unfolding m by (simp add: upto_rec1)
    moreover have "hd (map sl_idx ?todo) = rl_already l + 1" using c False by (cases ?todo) simp_all
    ultimately have "max (rl_already l + 1) ?lo = rl_already l + 1" by simp
    then show ?thesis using m rep by simp
  qed
qed

text \<open>The replay fails no assertion when every message that is missing is in the log.\<close>

lemma replay_runs:
  assumes "rank_ok l" "next_send l - int (length (rl_sends l)) \<le> rl_already l + 1"
  shows "replay_messages l \<noteq> None"
proof -
  let ?todo = "filter (\<lambda>s. rl_already l < sl_idx s) (rl_sends l)"
  have "map sl_idx ?todo = filter (\<lambda>i. rl_already l < i) (map sl_idx (rl_sends l))" by (simp add: filter_map comp_def)
  also have "\<dots> = [rl_already l + 1 .. next_send l - 1]"
    using assms unfolding rank_ok_def by (simp add: filter_upto max_def)
  finally have m: "map sl_idx ?todo = [rl_already l + 1 .. next_send l - 1]" .
  have "length [rl_already l + 1 .. next_send l - 1] = length ?todo" unfolding m [symmetric] by simp
  then have "int (length ?todo) = max 0 (next_send l - 1 - rl_already l)" by simp
  then have "[rl_already l + 1 .. rl_already l + int (length ?todo)] = [rl_already l + 1 .. next_send l - 1]"
    by (auto simp: max_def split: if_splits)
  then have "consecutive (rl_already l) ?todo" unfolding consecutive_upto m by simp
  moreover have "?todo \<noteq> [] \<or> next_send l - 1 \<le> rl_already l"
    using \<open>int (length ?todo) = _\<close> by (cases "?todo = []") simp_all
  ultimately show ?thesis by (simp add: replay_messages_def Let_def)
qed

text \<open>What a recovery leaves: the log that is merged, and what it hands to MPI.\<close>

lemma set_cur_simps [simp]:
  "cur_region (set_cur r l) = r" "rl_sends (set_cur r l) = rl_sends l" "rl_already (set_cur r l) = rl_already l"
  "rl_irecv (set_cur r l) = rl_irecv l" "rl_task (set_cur r l) = rl_task l" "wire (set_cur r w) = wire w"
  by (simp_all add: set_cur_def cur_region_def)

lemma set_next_send_simps [simp]:
  "next_send (set_next_send n l) = n" "rl_sends (set_next_send n l) = rl_sends l"
  "rl_already (set_next_send n l) = rl_already l" "lr_id (cur_region (set_next_send n l)) = lr_id (cur_region l)"
  "rl_regions (set_next_send n l) \<noteq> []" "rl_task (set_next_send n l) = rl_task l" "wire (set_next_send n w) = wire w"
  by (simp_all add: set_next_send_def next_send_def) (simp add: set_cur_def)

text \<open>
  One send in the region that is active, over a log in order.
\<close>

definition sending :: "int \<Rightarrow> wired \<Rightarrow> bool" where
  "sending active l \<longleftrightarrow> rank_ok l \<and> \<not> rl_task l \<and> lr_valid (cur_region l) \<and> lr_id (cur_region l) = active"

lemma last_upto: "m \<le> n \<Longrightarrow> last [m .. n] = (n :: int)"
  by (simp add: upto_rec2)

lemma sends_last:
  assumes "rank_ok l" "rl_sends l \<noteq> []"
  shows "sl_idx (last (rl_sends l)) = next_send l - 1"
proof -
  have "map sl_idx (rl_sends l) = [next_send l - int (length (rl_sends l)) .. next_send l - 1]"
    using assms(1) by (simp add: rank_ok_def)
  then have "last (map sl_idx (rl_sends l)) = last [next_send l - int (length (rl_sends l)) .. next_send l - 1]" by simp
  moreover have "0 < length (rl_sends l)" using assms(2) by simp
  then have "next_send l - int (length (rl_sends l)) \<le> next_send l - 1" by linarith
  ultimately show ?thesis using assms(2) by (simp add: last_map last_upto)
qed

lemma log_send_ok:
  assumes "sending active l"
  shows "\<exists>l'. log_send active b tag l = Some (\<lparr>sl_idx = next_send l, sl_buf = b, sl_tag = tag\<rparr>, l') \<and>
    sending active l' \<and> next_send l' = next_send l + 1 \<and> rl_already l' = rl_already l \<and> wire l' = wire l"
proof -
  have l: "rank_ok l" "\<not> rl_task l" "lr_valid (cur_region l)" "lr_id (cur_region l) = active"
    using assms by (simp_all add: sending_def)
  let ?s = "\<lparr>sl_idx = next_send l, sl_buf = b, sl_tag = tag\<rparr>"
  let ?l = "(set_next_send (next_send l + 1) l)\<lparr>rl_sends := rl_sends l @ [?s]\<rparr>"
  have reg: "rl_regions ?l = rl_regions (set_next_send (next_send l + 1) l)" by simp
  have cur: "cur_region ?l = cur_region (set_next_send (next_send l + 1) l)" by (simp add: cur_region_def)
  have "next_send ?l = next_send (set_next_send (next_send l + 1) l)"
    unfolding next_send_def [of ?l] next_send_def [of "set_next_send (next_send l + 1) l"] cur ..
  then have nx: "next_send ?l = next_send l + 1" by simp
  have run: "log_send active b tag l = Some (?s, ?l)"
  proof -
    have "rl_sends l = [] \<or> sl_idx (last (rl_sends l)) = next_send l - 1" using sends_last [OF l(1)] by blast
    then show ?thesis using l by (simp add: log_send_def ensure_consistency_def Let_def fenix_assert_bind)
  qed
  have "0 \<le> next_send l" using l(3) by (auto simp: next_send_def lr_valid_def range_valid_def)
  moreover have "[next_send l + 1 - int (Suc (length (rl_sends l))) .. next_send l]
      = [next_send l - int (length (rl_sends l)) .. next_send l - 1] @ [next_send l]"
    by (simp add: upto_rec2)
  ultimately have "rank_ok ?l" using l(1) nx reg unfolding rank_ok_def by (simp add: algebra_simps)
  moreover have "lr_valid (cur_region ?l)"
    using l(3) unfolding cur by (auto simp: set_next_send_def lr_valid_def range_valid_def next_send_def)
  ultimately have "sending active ?l" using l cur by (simp add: sending_def)
  then show ?thesis using run nx by simp
qed

lemma wire_send:
  assumes "sending active l"
  shows "\<exists>l'. send_msg active msg l = (Inr (), l') \<and> sending active l' \<and> next_send l' = next_send l + 1 \<and>
    rl_already l' = rl_already l \<and>
    map sl_idx (wire l') = map sl_idx (wire l) @ (if next_send l \<le> rl_already l then [] else [next_send l])"
proof -
  obtain l1 where l1: "log_send active (fst msg) (snd msg) l
      = Some (\<lparr>sl_idx = next_send l, sl_buf = fst msg, sl_tag = snd msg\<rparr>, l1)"
    "sending active l1" "next_send l1 = next_send l + 1" "rl_already l1 = rl_already l" "wire l1 = wire l"
    using log_send_ok [OF assms] by blast
  have w: "sending active (l1\<lparr>wire := xs\<rparr>)" "next_send (l1\<lparr>wire := xs\<rparr>) = next_send l1" for xs
    using l1(2) by (simp_all add: sending_def rank_ok_def next_send_def cur_region_def)
  show ?thesis
    using l1 w by (simp add: send_msg_def rank_send_def comp catchComm_def good_isend_def)
qed

lemma wire_sends:
  assumes "sending active l"
  shows "\<exists>l'. forEach msgs (send_msg active) l = (Inr (), l') \<and> sending active l' \<and>
    next_send l' = next_send l + int (length msgs) \<and> rl_already l' = rl_already l \<and>
    map sl_idx (wire l') = map sl_idx (wire l) @
      [max (rl_already l + 1) (next_send l) .. next_send l + int (length msgs) - 1]"
  using assms
proof (induction msgs arbitrary: l)
  case Nil
  then show ?case by (simp add: comp)
next
  case (Cons msg msgs)
  obtain l1 where l1: "send_msg active msg l = (Inr (), l1)" "sending active l1" "next_send l1 = next_send l + 1"
    "rl_already l1 = rl_already l"
    "map sl_idx (wire l1) = map sl_idx (wire l) @ (if next_send l \<le> rl_already l then [] else [next_send l])"
    using wire_send [OF Cons.prems, of msg] by blast
  obtain l' where l': "forEach msgs (send_msg active) l1 = (Inr (), l')" "sending active l'"
    "next_send l' = next_send l1 + int (length msgs)" "rl_already l' = rl_already l1"
    "map sl_idx (wire l') = map sl_idx (wire l1) @
      [max (rl_already l1 + 1) (next_send l1) .. next_send l1 + int (length msgs) - 1]"
    using Cons.IH [OF l1(2)] by blast
  have "(if next_send l \<le> rl_already l then [] else [next_send l])
      @ [max (rl_already l + 1) (next_send l + 1) .. next_send l + 1 + int (length msgs) - 1]
      = [max (rl_already l + 1) (next_send l) .. next_send l + int (length (msg # msgs)) - 1]"
  proof (cases "next_send l \<le> rl_already l")
    case True
    then show ?thesis by (simp add: max_def)
  next
    case False
    then have "[next_send l .. next_send l + int (length msgs)]
        = next_send l # [next_send l + 1 .. next_send l + int (length msgs)]" by (intro upto_rec1) simp
    then show ?thesis using False by (simp add: max_def)
  qed
  then have "map sl_idx (wire l') = map sl_idx (wire l) @
      [max (rl_already l + 1) (next_send l) .. next_send l + int (length (msg # msgs)) - 1]"
    unfolding l'(5) l1(3,4,5) by simp
  then show ?case using l1 l' by (simp add: andThen_Inr)
qed

text \<open>
  Exactly once: what the recovery replays and what the application sends next, up to an index
  beyond what the remote rank had received.
\<close>

lemma finish_ok:
  assumes "finish_consistency remote l = Some (l', ops)"
  shows "\<exists>mine' remote'. merge_regions_of (rl_regions l) remote = Some (mine', remote') \<and>
    l' = l\<lparr>rl_regions := mine', rl_already := mr_next (lr_recv (last remote')) - 1, rl_task := False\<rparr> \<and>
    replay_messages (l\<lparr>rl_regions := mine', rl_already := mr_next (lr_recv (last remote')) - 1\<rparr>) = Some ops"
  using assms unfolding finish_consistency_def
  by (cases "merge_regions_of (rl_regions l) remote") (auto simp: Let_def bind_eq_Some_conv)

lemma exactly_once:
  fixes l :: wired
  assumes fin: "finish_consistency remote l = Some (l1, ops)"
    and ok: "rank_ok l1" "lr_id (cur_region l1) = active" and w: "wire l = []"
    and past: "rl_already l1 < next_send l1 + int (length msgs)"
  shows "\<exists>l2. forEach msgs (send_msg active) l1 = (Inr (), l2) \<and>
    map sl_idx (replayed ops @ wire l2) = [rl_already l1 + 1 .. next_send l1 + int (length msgs) - 1]"
proof -
  obtain mine' remote' where m: "merge_regions_of (rl_regions l) remote = Some (mine', remote')"
    "l1 = l\<lparr>rl_regions := mine', rl_already := mr_next (lr_recv (last remote')) - 1, rl_task := False\<rparr>"
    "replay_messages (l\<lparr>rl_regions := mine', rl_already := mr_next (lr_recv (last remote')) - 1\<rparr>) = Some ops"
    using finish_ok [OF fin] by blast
  have "replay_messages l1 = Some ops" using m(2,3) by (simp add: replay_messages_def next_send_def cur_region_def)
  then have rep: "map sl_idx (replayed ops) = [rl_already l1 + 1 .. next_send l1 - 1]" by (rule replay_indices [OF ok(1)])
  have "lr_valid (last mine')" using m(1) unfolding merge_regions_iff by blast
  then have "sending active l1" using ok m(2) by (simp add: sending_def cur_region_def)
  then obtain l2 where l2: "forEach msgs (send_msg active) l1 = (Inr (), l2)"
    "map sl_idx (wire l2) = map sl_idx (wire l1) @
      [max (rl_already l1 + 1) (next_send l1) .. next_send l1 + int (length msgs) - 1]"
    using wire_sends by blast
  have "wire l1 = []" using m(2) w by simp
  then have "map sl_idx (replayed ops @ wire l2) = [rl_already l1 + 1 .. next_send l1 - 1]
      @ [max (rl_already l1 + 1) (next_send l1) .. next_send l1 + int (length msgs) - 1]"
    using rep l2(2) by simp
  also have "\<dots> = [rl_already l1 + 1 .. next_send l1 + int (length msgs) - 1]"
  proof (cases "rl_already l1 + 1 \<le> next_send l1")
    case True
    then have m: "max (rl_already l1 + 1) (next_send l1) = next_send l1" by simp
    show ?thesis
    proof (cases "msgs = []")
      case False
      then show ?thesis unfolding m using True by (intro upto_split1 [symmetric]) simp_all
    qed simp
  next
    case False
    then show ?thesis by (simp add: max_def)
  qed
  finally show ?thesis using l2(1) by blast
qed

section \<open>What a recovery does to the log\<close>

lemma check_ahead_Some:
  "check_ahead a b = Some (a', b') \<longleftrightarrow>
     (let i = lower_bound (lr_id (last b)) a; ra = a ! i; rb = last b in
        i < length a \<and> lr_id rb = lr_id ra \<and>
        (if mr_first (lr_send ra) = mr_first (lr_recv rb) \<and> mr_first (lr_recv ra) = mr_first (lr_send rb)
         then (a', b') = (a, b)
         else if lr_fresh rb then (a', b') = (a, butlast b @ [take_starts ra rb])
         else lr_fresh ra \<and> lr_id ra = lr_id (last a) \<and> (a', b') = (a[i := take_starts rb ra], b)))"
  unfolding check_ahead_def Let_def by (auto simp: fenix_assert_def)

lemma lower_bound_id:
  assumes "log_sorted a" "i = lower_bound k a" "i < length a" "lr_id (a ! i) = lr_id (last a)" "0 \<le> lr_id (last a)"
  shows "i = length a - 1"
proof (rule ccontr)
  assume "i \<noteq> length a - 1"
  then have "i < length (butlast a)" using assms(3) by simp
  then have "a ! i \<in> set (butlast a)" by (metis nth_butlast nth_mem)
  then show False using log_sorted_last [OF assms(1,5)] assms(4) by auto
qed

lemma check_ahead_changes:
  assumes "log_sorted a" "b \<noteq> []" "0 \<le> lr_id (last a)" "check_ahead a b = Some (a', b')"
  shows "(a' = a \<or> lr_fresh (last a) \<and> a' \<noteq> []) \<and> (b' = b \<or> lr_fresh (last b) \<and> b' \<noteq> [])"
proof -
  let ?i = "lower_bound (lr_id (last b)) a"
  have ne: "a \<noteq> []" using assms(1) by (simp add: log_sorted_def)
  have "lr_fresh (last a)" if "lr_fresh (a ! ?i)" "lr_id (a ! ?i) = lr_id (last a)" "?i < length a"
  proof -
    have "?i = length a - 1" by (rule lower_bound_id [OF assms(1) refl that(3,2) assms(3)])
    then show ?thesis using that(1) last_conv_nth [OF ne] by simp
  qed
  then show ?thesis using assms(4) ne unfolding check_ahead_Some Let_def by (auto split: if_splits)
qed

lemma recover_from_changes: "recover_from a b = Some (a', b') \<Longrightarrow> a' = a \<and> b' \<noteq> []"
  unfolding recover_from_def Let_def by (auto simp: fenix_assert_def split: if_splits)

lemma check_consistent_changes:
  assumes "log_sorted a" "log_sorted b" "check_consistent a b = Some (a', b')"
  shows "a' = a \<or> lr_fresh (last a) \<and> a' \<noteq> []"
proof -
  have v: "lr_valid (last a)" "lr_valid (last b)"
    using assms(3) by (simp_all add: check_consistent_def split: if_splits bind_splits)
  then have nn: "0 \<le> lr_id (last a)" "0 \<le> lr_id (last b)" by (simp_all add: lr_valid_def)
  have ne: "a \<noteq> []" "b \<noteq> []" using assms by (simp_all add: log_sorted_def)
  show ?thesis
  proof (cases "lr_id (last a) < lr_id (last b)")
    case True
    then have "check_ahead b a = Some (b', a')" using assms(3) v by (auto simp: check_consistent_def)
    then show ?thesis using check_ahead_changes [OF assms(2) ne(1) nn(2)] by blast
  next
    case False
    then have "check_ahead a b = Some (a', b')" using assms(3) v by (simp add: check_consistent_def)
    then show ?thesis using check_ahead_changes [OF assms(1) ne(2) nn(1)] by blast
  qed
qed

lemma recover_invalid_changes:
  assumes "recover_invalid a b = Some (a', b')"
  shows "a' = a \<or> \<not> lr_valid (last a) \<and> a' \<noteq> []"
proof (cases "lr_valid (last a)")
  case True
  then have "recover_from a b = Some (a', b')" using assms by (simp add: recover_invalid_def)
  then show ?thesis using recover_from_changes by blast
next
  case False
  then have "recover_from b a = Some (b', a')" using assms by (auto simp: recover_invalid_def split: bind_splits)
  then show ?thesis using recover_from_changes False by blast
qed

lemma merge_changes:
  assumes "log_sorted a" "log_sorted b" "merge_regions_of a b = Some (a', b')"
  shows "a' = a \<or> (lr_fresh (last a) \<or> \<not> lr_valid (last a)) \<and> a' \<noteq> []"
proof (cases "lr_valid (last a) \<and> lr_valid (last b)")
  case True
  then have "check_consistent a b = Some (a', b')" using assms(3) unfolding merge_regions_iff by simp
  then show ?thesis using check_consistent_changes [OF assms(1,2)] by blast
next
  case False
  then have "recover_invalid a b = Some (a', b')" using assms(3) unfolding merge_regions_iff by (auto split: if_splits)
  then show ?thesis using recover_invalid_changes by blast
qed

text \<open>A log without a valid region holds no message.\<close>

definition log_ok :: "'a rank_log_scheme \<Rightarrow> bool" where
  "log_ok l \<longleftrightarrow> rank_ok l \<and> log_sorted (rl_regions l) \<and> (lr_valid (cur_region l) \<or> rl_sends l = [])"

lemma fresh_no_sends:
  assumes "rank_ok l" "lr_fresh (cur_region l)"
  shows "rl_sends l = []"
proof -
  have "next_send l = 0" using assms(2) by (simp add: next_send_def lr_fresh_def range_fresh_def)
  then have "map sl_idx (rl_sends l) = [- int (length (rl_sends l)) .. - 1]" "\<forall>s \<in> set (rl_sends l). 0 \<le> sl_idx s"
    using assms(1) by (simp_all add: rank_ok_def)
  then have "\<forall>i \<in> set [- int (length (rl_sends l)) .. - 1]. 0 \<le> i" by (metis imageE list.set_map)
  then have "- 1 \<notin> set [- int (length (rl_sends l)) .. - 1]" by force
  then show ?thesis by (cases "rl_sends l") simp_all
qed

lemma finish_rank_ok:
  assumes l: "log_ok l" and remote: "log_sorted remote" and fin: "finish_consistency remote l = Some (l', ops)"
  shows "rank_ok l'" "rl_sends l' = rl_sends l" "lr_valid (cur_region l')"
proof -
  obtain mine' remote' where m: "merge_regions_of (rl_regions l) remote = Some (mine', remote')"
    "l' = l\<lparr>rl_regions := mine', rl_already := mr_next (lr_recv (last remote')) - 1, rl_task := False\<rparr>"
    using finish_ok [OF fin] by blast
  show "rl_sends l' = rl_sends l" using m(2) by simp
  show "lr_valid (cur_region l')" using m unfolding merge_regions_iff by (simp add: cur_region_def)
  have s: "log_sorted (rl_regions l)" and r: "rank_ok l" using l by (simp_all add: log_ok_def)
  show "rank_ok l'"
  proof (cases "mine' = rl_regions l")
    case True
    then show ?thesis using r m(2) by (simp add: rank_ok_def next_send_def cur_region_def)
  next
    case False
    then have "mine' \<noteq> []" "lr_fresh (cur_region l) \<or> \<not> lr_valid (cur_region l)"
      using merge_changes [OF s remote m(1)] by (auto simp: cur_region_def)
    then have "mine' \<noteq> []" "rl_sends l = []" using fresh_no_sends [OF r] l by (auto simp: log_ok_def)
    then show ?thesis using m(2) by (simp add: rank_ok_def)
  qed
qed

end
