(* ===== verification/Comm_Log.thy ===== *)
theory Comm_Log
  imports Rank_Facts Keyed
begin

text \<open>
  The message log of one communicator: \<open>CRegion\<close> and \<open>CommLog\<close> (include/fenix/logging/comm_log.h,
  src/logging/comm_log.cpp) with the logs of the collective operations
  (include/fenix/logging/ops).  The collectives that \<open>form_consistency\<close> and the logged
  operations run are parameters.
\<close>

section \<open>Data\<close>

record cregion =
  cr_id :: int
  cr_first :: int
  cr_next :: int

definition no_cregion :: cregion where
  "no_cregion = \<lparr>cr_id = -1, cr_first = -1, cr_next = -1\<rparr>"

definition cregion_at :: "int \<Rightarrow> int \<Rightarrow> cregion" where
  "cregion_at k idx = \<lparr>cr_id = k, cr_first = idx, cr_next = idx\<rparr>"

definition cr_valid :: "cregion \<Rightarrow> bool" where
  "cr_valid r \<longleftrightarrow> 0 \<le> cr_id r \<and> 0 \<le> cr_first r \<and> 0 \<le> cr_next r"

definition cr_empty :: "cregion \<Rightarrow> bool" where
  "cr_empty r \<longleftrightarrow> cr_valid r \<and> cr_first r = cr_next r"

definition cr_fresh :: "cregion \<Rightarrow> bool" where
  "cr_fresh r \<longleftrightarrow> cr_empty r \<and> cr_first r = 0"

definition cr_lower_bound :: "int \<Rightarrow> cregion list \<Rightarrow> nat" where
  "cr_lower_bound k rs = length (takeWhile (\<lambda>r. cr_id r < k) rs)"

definition cr_upper_bound :: "int \<Rightarrow> cregion list \<Rightarrow> nat" where
  "cr_upper_bound k rs = length (takeWhile (\<lambda>r. cr_id r \<le> k) rs)"

text \<open>
  What a logged collective keeps: copies of the data this rank contributes.  A broadcast
  copies on the root only; reductions copy the send buffer, or the receive buffer in place.
\<close>

datatype coll_op =
    BarrierOp
  | BcastOp int mpi_buffer
  | ReduceOp int int mpi_buffer
  | AllreduceOp int mpi_buffer

record coll_log =
  cg_idx :: int
  cg_op :: coll_op

definition copy_buffer :: "nat \<Rightarrow> int \<Rightarrow> int \<Rightarrow> byte list \<Rightarrow> mpi_buffer" where
  "copy_buffer type_size ty count user =
     \<lparr>bf_type = ty, bf_count = count, bf_data = take (nat count * type_size) user\<rparr>"

definition wrap_buffer :: "int \<Rightarrow> int \<Rightarrow> mpi_buffer" where
  "wrap_buffer ty count = \<lparr>bf_type = ty, bf_count = count, bf_data = []\<rparr>"

definition bcast_log :: "nat \<Rightarrow> int \<Rightarrow> int \<Rightarrow> byte list \<Rightarrow> int \<Rightarrow> int \<Rightarrow> int \<Rightarrow> coll_log" where
  "bcast_log type_size my_rank root user count ty idx =
     \<lparr>cg_idx = idx, cg_op = BcastOp root (if root = my_rank then copy_buffer type_size ty count user
       else wrap_buffer ty count)\<rparr>"

definition reduce_log :: "nat \<Rightarrow> byte list option \<Rightarrow> byte list \<Rightarrow> int \<Rightarrow> int \<Rightarrow> int \<Rightarrow> int \<Rightarrow> int \<Rightarrow> coll_log" where
  "reduce_log type_size send recv count ty op root idx =
     \<lparr>cg_idx = idx, cg_op = ReduceOp root op
       (copy_buffer type_size ty count (case send of None \<Rightarrow> recv | Some xs \<Rightarrow> xs))\<rparr>"

definition allreduce_log :: "nat \<Rightarrow> byte list option \<Rightarrow> byte list \<Rightarrow> int \<Rightarrow> int \<Rightarrow> int \<Rightarrow> int \<Rightarrow> coll_log" where
  "allreduce_log type_size send recv count ty op idx =
     \<lparr>cg_idx = idx, cg_op = AllreduceOp op
       (copy_buffer type_size ty count (case send of None \<Rightarrow> recv | Some xs \<Rightarrow> xs))\<rparr>"

definition barrier_log :: "int \<Rightarrow> coll_log" where
  "barrier_log idx = \<lparr>cg_idx = idx, cg_op = BarrierOp\<rparr>"

text \<open>\<open>cl_task\<close>: the collective consistency task is set; \<open>cl_tasks\<close>: the number of active tasks.\<close>

record comm_log =
  cl_rank :: int
  cl_max :: nat
  cl_active :: int
  cl_ranks :: "rank_log list"
  cl_tasks :: nat
  cl_regions :: "cregion list"
  cl_colls :: "coll_log list"
  cl_op :: "coll_log option"
  cl_done_all :: int
  cl_done_any :: int
  cl_task :: bool

definition new_comm_log :: "int \<Rightarrow> nat \<Rightarrow> comm_log" where
  "new_comm_log r n =
     \<lparr>cl_rank = r, cl_max = n, cl_active = 0, cl_ranks = [], cl_tasks = 0,
      cl_regions = replicate n no_cregion, cl_colls = [], cl_op = None,
      cl_done_all = -1, cl_done_any = -1, cl_task = False\<rparr>"

definition coll_region :: "comm_log \<Rightarrow> cregion" where
  "coll_region c = last (cl_regions c)"

definition set_coll_region :: "cregion \<Rightarrow> comm_log \<Rightarrow> comm_log" where
  "set_coll_region r c = c\<lparr>cl_regions := butlast (cl_regions c) @ [r]\<rparr>"

text \<open>\<open>logs(r)\<close> finds the log of a rank or creates it.\<close>

definition logs_of :: "int \<Rightarrow> comm_log \<Rightarrow> (rank_log \<times> comm_log) option" where
  "logs_of r c = do {
     fenix_assert (0 \<le> r);
     (case kset_find rl_rank r (cl_ranks c) of
        Some l \<Rightarrow> Some (l, c)
      | None \<Rightarrow> (let l = new_rank_log (cl_max c) r in
          Some (l, c\<lparr>cl_ranks := kset_insert rl_rank l (cl_ranks c)\<rparr>)))
   }"

section \<open>Regions and logs\<close>

definition erase_logs :: "cregion \<Rightarrow> comm_log \<Rightarrow> comm_log" where
  "erase_logs r c =
     (if \<not> cr_valid r then c
      else c\<lparr>cl_colls := filter (\<lambda>x. cg_idx x < cr_first r \<or> cr_next r \<le> cg_idx x) (cl_colls c)\<rparr>)"

definition append_cregion :: "cregion \<Rightarrow> comm_log \<Rightarrow> comm_log option" where
  "append_cregion r c = do {
     fenix_assert (cl_regions c \<noteq> [] \<and> cr_id (coll_region c) < cr_id r);
     (let c = erase_logs (hd (cl_regions c)) c
      in Some (c\<lparr>cl_regions := tl (cl_regions c) @ [r]\<rparr>))
   }"

definition erase_cregions :: "nat \<Rightarrow> comm_log \<Rightarrow> comm_log" where
  "erase_cregions b c =
     (let c' = fold erase_logs (drop b (cl_regions c)) c
      in c'\<lparr>cl_regions := replicate (length (cl_regions c) - b) no_cregion @ take b (cl_regions c)\<rparr>)"

text \<open>An operation on every rank log, in the order of the ranks.\<close>

fun each_log :: "(rank_log \<Rightarrow> rank_log option) \<Rightarrow> rank_log list \<Rightarrow> rank_log list option" where
  "each_log f [] = Some []"
| "each_log f (l # ls) = do { l' \<leftarrow> f l; ls' \<leftarrow> each_log f ls; Some (l' # ls') }"

definition comm_begin_region :: "int \<Rightarrow> comm_log \<Rightarrow> comm_log option" where
  "comm_begin_region k c = do {
     fenix_assert (0 \<le> k);
     ls \<leftarrow> each_log (begin_region k) (cl_ranks c);
     (let c = c\<lparr>cl_ranks := ls, cl_active := k\<rparr> in
      if cr_id (coll_region c) > k then do { fenix_assert (cr_empty (coll_region c)); Some c }
      else if cr_id (coll_region c) = k then do {
        fenix_assert (cr_valid (coll_region c));
        fenix_assert (cr_empty (coll_region c));
        Some c
      } else if cr_valid (coll_region c) then append_cregion (cregion_at k (cr_next (coll_region c))) c
      else append_cregion (cregion_at k 0) c)
   }"

section \<open>Logged collectives\<close>

text \<open>
  \<open>begin\<close> takes the next index; \<open>tries\<close> are the calls of the operation's own \<open>begin\<close> as they
  turn out, one after every repair.  With manual recovery an interrupted operation is dropped,
  and what \<open>resume_application\<close> does is left to the caller (the outcome \<open>Comm\<close>).
\<close>

definition take_index :: "comm_log \<Rightarrow> (int \<times> comm_log) option" where
  "take_index c = do {
     c \<leftarrow> (if cr_valid (coll_region c) then Some c else append_cregion (cregion_at (cl_active c) 0) c);
     (let r = coll_region c in Some (cr_next r, set_coll_region (r\<lparr>cr_next := cr_next r + 1\<rparr>) c))
   }"

definition may_begin :: "int \<Rightarrow> comm_log \<Rightarrow> bool" where
  "may_begin idx c \<longleftrightarrow> \<not> cl_task c \<and> cr_valid (coll_region c) \<and> cr_id (coll_region c) = cl_active c \<and>
     map_option cg_idx (cl_op c) = Some idx"

definition log_done :: "comm_log \<Rightarrow> comm_log" where
  "log_done c = (case cl_op c of None \<Rightarrow> c
     | Some x \<Rightarrow> c\<lparr>cl_colls := kset_insert cg_idx x (cl_colls c), cl_op := None\<rparr>)"

fun begin_loop :: "bool \<Rightarrow> int \<Rightarrow> (comm_log, int) comp list \<Rightarrow> comm_log \<Rightarrow> ((failure + int) \<times> comm_log) option" where
  "begin_loop manual idx [] c = None"
| "begin_loop manual idx (try # tries) c =
     (if \<not> may_begin idx c then Some (Inl Abort, c)
      else (case try c of
          (Inl Comm, c') \<Rightarrow> if manual then Some (Inl Comm, c'\<lparr>cl_op := None\<rparr>) else begin_loop manual idx tries c'
        | (Inl e, c') \<Rightarrow> Some (Inl e, c')
        | (Inr r, c') \<Rightarrow> if r \<noteq> MPI_SUCCESS then Some (Inl Abort, c') else Some (Inr r, log_done c')))"

definition comm_begin ::
  "bool \<Rightarrow> (int \<Rightarrow> coll_log) \<Rightarrow> (comm_log, int) comp list \<Rightarrow> comm_log \<Rightarrow> ((failure + int) \<times> comm_log) option" where
  "comm_begin manual mk tries c =
     (case take_index c of
        None \<Rightarrow> Some (Inl Abort, c)
      | Some (idx, c) \<Rightarrow>
          (if cl_op c \<noteq> None then Some (Inl Abort, c)
           else begin_loop manual idx tries (c\<lparr>cl_op := Some (mk idx)\<rparr>)))"

section \<open>Recovery\<close>

definition comm_pre_recovery :: "comm_log \<Rightarrow> comm_log" where
  "comm_pre_recovery c = c\<lparr>cl_tasks := 0, cl_ranks := map rank_pre_recovery (cl_ranks c)\<rparr>"

text \<open>\<open>reset_consistency\<close>, the part before any communication; \<open>True\<close>: start a collective task.\<close>

fun reset_ranks :: "int \<Rightarrow> rank_log list \<Rightarrow> (nat \<times> rank_log list) option" where
  "reset_ranks target [] = Some (0, [])"
| "reset_ranks target (l # ls) = do {
     (go, l') \<leftarrow> reset_consistency target l;
     (n, ls') \<leftarrow> reset_ranks target ls;
     Some ((if go then Suc n else n), l' # ls')
   }"

definition reset_cregion :: "int \<Rightarrow> comm_log \<Rightarrow> comm_log option" where
  "reset_cregion target c =
     (if cr_valid (coll_region c) \<and> target \<noteq> -1 \<and> cr_id (coll_region c) > target then
        (let c = erase_cregions (cr_upper_bound target (cl_regions c)) c in do {
           fenix_assert (\<not> cr_valid (coll_region c) \<or> cr_id (coll_region c) = target);
           Some c
         })
      else if cr_valid (coll_region c) \<and> target > cr_id (coll_region c) then
        append_cregion (cregion_at target (cr_next (coll_region c))) c
      else if cr_valid (coll_region c) \<and> cr_id (coll_region c) = target then
        (let c = erase_logs (coll_region c) c; r = coll_region c
         in Some (set_coll_region (r\<lparr>cr_next := cr_first r\<rparr>) c))
      else Some c)"

definition comm_reset :: "int \<Rightarrow> comm_log \<Rightarrow> (bool \<times> comm_log) option" where
  "comm_reset target c = do {
     fenix_assert (- 1 \<le> target);
     fenix_assert (cl_tasks c = 0);
     (let c = (if 0 \<le> target then c\<lparr>cl_active := target\<rparr> else c) in do {
        (n, ls) \<leftarrow> reset_ranks target (cl_ranks c);
        c \<leftarrow> reset_cregion target (c\<lparr>cl_ranks := ls, cl_tasks := n\<rparr>);
        (let go = cr_valid (coll_region c) \<and> \<not> cr_fresh (coll_region c) in
         Some (go, if go then c\<lparr>cl_task := True, cl_tasks := cl_tasks c + 1\<rparr> else c))
      })
   }"

text \<open>
  The collective \<open>form_consistency\<close>: what this rank takes over from the regions of the rank
  that is furthest, and, with the smallest index of all ranks, what is left to replay.
\<close>

definition adopt_region :: "int \<Rightarrow> cregion list \<Rightarrow> comm_log \<Rightarrow> comm_log option" where
  "adopt_region latest_idx latest c = do {
     fenix_assert (0 \<le> latest_idx);
     (let m = (if cr_valid (coll_region c) then coll_region c else (coll_region c)\<lparr>cr_id := cl_active c\<rparr>);
          c = set_coll_region m c;
          i = cr_lower_bound (cr_id m) latest;
          it = latest ! i
      in if i = length latest then
           (if \<not> cr_valid m \<or> cr_fresh m then Some (set_coll_region (m\<lparr>cr_first := latest_idx, cr_next := latest_idx\<rparr>) c)
            else do { fenix_assert (cr_first m = latest_idx); Some c })
         else if cr_id it \<noteq> cr_id m then do {
           fenix_assert (\<not> (i \<noteq> 0 \<and> cr_valid (latest ! (i - 1))));
           fenix_assert (cr_valid m \<and> cr_next m = cr_first it);
           append_cregion (cregion_at (cr_id it) (cr_next m)) c
         }
         else if \<not> cr_valid m \<or> cr_fresh m then Some (set_coll_region (m\<lparr>cr_first := cr_first it, cr_next := cr_first it\<rparr>) c)
         else do { fenix_assert (cr_first m = cr_first it); Some c })
   }"

definition end_consistency :: "int \<Rightarrow> int \<Rightarrow> comm_log \<Rightarrow> comm_log" where
  "end_consistency latest_idx earliest_idx c =
     c\<lparr>cl_done_any := latest_idx - 1, cl_done_all := earliest_idx - 1, cl_task := False, cl_tasks := cl_tasks c - 1\<rparr>"

fun in_order :: "int \<Rightarrow> coll_log list \<Rightarrow> bool" where
  "in_order p [] = True"
| "in_order p (x # xs) = (cg_idx x = p + 1 \<and> in_order (p + 1) xs)"

definition replay_collectives :: "int \<Rightarrow> comm_log \<Rightarrow> coll_log list option" where
  "replay_collectives start c = do {
     fenix_assert (cr_valid (coll_region c));
     if cr_next (coll_region c) \<le> start then Some []
     else if start \<notin> cg_idx ` set (cl_colls c) then Some []
     else (let xs = filter (\<lambda>x. start \<le> cg_idx x) (cl_colls c) in do {
       fenix_assert (in_order (start - 1) xs);
       Some xs
     })
   }"

end
