(* ===== verification/Comm_Facts.thy ===== *)
theory Comm_Facts
  imports Comm_Log
begin

text \<open>
  Facts about the log of a communicator: a collective that completes is logged under the next
  index, the replay repeats the collectives from an index on without a gap, and the cases in
  which recovery loses track of the indices.
\<close>

lemma cl_regions_set [simp]: "cl_regions (set_coll_region r c) = butlast (cl_regions c) @ [r]"
  by (simp add: set_coll_region_def)

lemma set_coll_region_simps [simp]:
  "coll_region (set_coll_region r c) = r" "cl_colls (set_coll_region r c) = cl_colls c"
  "cl_op (set_coll_region r c) = cl_op c" "cl_task (set_coll_region r c) = cl_task c"
  "cl_active (set_coll_region r c) = cl_active c" "cl_ranks (set_coll_region r c) = cl_ranks c"
  by (simp_all add: set_coll_region_def coll_region_def)

section \<open>Logging\<close>

text \<open>The logged collectives have consecutive indices up to the next one.\<close>

definition colls_ok :: "comm_log \<Rightarrow> bool" where
  "colls_ok c \<longleftrightarrow> cl_regions c \<noteq> [] \<and>
     map cg_idx (cl_colls c) = [cr_next (coll_region c) - int (length (cl_colls c)) .. cr_next (coll_region c) - 1]"

definition ready :: "comm_log \<Rightarrow> bool" where
  "ready c \<longleftrightarrow> colls_ok c \<and> \<not> cl_task c \<and> cl_op c = None \<and>
     cr_valid (coll_region c) \<and> cr_id (coll_region c) = cl_active c"

lemma take_index_valid:
  "cr_valid (coll_region c) \<Longrightarrow> take_index c =
     Some (cr_next (coll_region c), set_coll_region ((coll_region c)\<lparr>cr_next := cr_next (coll_region c) + 1\<rparr>) c)"
  by (simp add: take_index_def Let_def)

text \<open>An MPI operation that completes at its first try.\<close>

definition completes :: "(comm_log, int) comp" where
  "completes = ret MPI_SUCCESS"

lemma comm_begin_ok:
  assumes c: "ready c" and mk: "\<And>i. cg_idx (mk i) = i"
  shows "\<exists>c'. comm_begin manual mk [completes] c = Some (Inr MPI_SUCCESS, c') \<and> ready c' \<and>
    cl_colls c' = cl_colls c @ [mk (cr_next (coll_region c))] \<and>
    cr_next (coll_region c') = cr_next (coll_region c) + 1"
proof -
  let ?i = "cr_next (coll_region c)"
  let ?c = "set_coll_region ((coll_region c)\<lparr>cr_next := ?i + 1\<rparr>) c"
  have r: "cr_valid (coll_region c)" "\<not> cl_task c" "cl_op c = None" "cr_id (coll_region c) = cl_active c"
    and ok: "map cg_idx (cl_colls c) = [?i - int (length (cl_colls c)) .. ?i - 1]" "cl_regions c \<noteq> []"
    using c by (simp_all add: ready_def colls_ok_def)
  have lt: "\<forall>y \<in> set (cl_colls c). cg_idx y < cg_idx (mk ?i)"
  proof
    fix y
    assume "y \<in> set (cl_colls c)"
    then have "cg_idx y \<in> set (map cg_idx (cl_colls c))" by simp
    then show "cg_idx y < cg_idx (mk ?i)" unfolding ok(1) mk by simp
  qed
  then have ins: "kset_insert cg_idx (mk ?i) (cl_colls c) = cl_colls c @ [mk ?i]" by (rule kset_insert_last)
  have v: "cr_valid ((coll_region c)\<lparr>cr_next := ?i + 1\<rparr>)" using r(1) by (simp add: cr_valid_def)
  let ?c' = "?c\<lparr>cl_colls := cl_colls c @ [mk ?i], cl_op := None\<rparr>"
  have cur: "coll_region ?c' = (coll_region c)\<lparr>cr_next := ?i + 1\<rparr>" by (simp add: coll_region_def)
  have may: "may_begin ?i (?c\<lparr>cl_op := Some (mk ?i)\<rparr>)"
    using r v mk by (simp add: may_begin_def coll_region_def [of "_\<lparr>cl_op := _\<rparr>"])
  have run: "comm_begin manual mk [completes] c = Some (Inr MPI_SUCCESS, ?c')"
    using r may ins by (simp add: comm_begin_def take_index_valid completes_def comp log_done_def)
  have "[?i - int (length (cl_colls c)) .. ?i] = [?i - int (length (cl_colls c)) .. ?i - 1] @ [?i]"
    by (rule upto_rec2) simp
  then have "colls_ok ?c'" using ok cur mk by (simp add: colls_ok_def)
  then have "ready ?c'" using r v cur by (simp add: ready_def)
  then show ?thesis using run cur by auto
qed

text \<open>
  With manual recovery, an interrupted collective has used up its index and left no log.
\<close>

definition interrupted :: "(comm_log, int) comp" where
  "interrupted = fail Comm"

lemma comm_begin_interrupted:
  assumes c: "ready c" and mk: "\<And>i. cg_idx (mk i) = i"
  shows "\<exists>c'. comm_begin True mk [interrupted] c = Some (Inl Comm, c') \<and>
    cl_colls c' = cl_colls c \<and> cr_next (coll_region c') = cr_next (coll_region c) + 1"
proof -
  let ?i = "cr_next (coll_region c)"
  let ?c = "set_coll_region ((coll_region c)\<lparr>cr_next := ?i + 1\<rparr>) c"
  have r: "cr_valid (coll_region c)" "\<not> cl_task c" "cl_op c = None" "cr_id (coll_region c) = cl_active c"
    using c by (simp_all add: ready_def)
  have v: "cr_valid ((coll_region c)\<lparr>cr_next := ?i + 1\<rparr>)" using r(1) by (simp add: cr_valid_def)
  have may: "may_begin ?i (?c\<lparr>cl_op := Some (mk ?i)\<rparr>)"
    using r v mk by (simp add: may_begin_def coll_region_def [of "_\<lparr>cl_op := _\<rparr>"])
  have "comm_begin True mk [interrupted] c = Some (Inl Comm, ?c\<lparr>cl_op := None\<rparr>)"
    using r may by (simp add: comm_begin_def take_index_valid interrupted_def comp)
  moreover have "coll_region (?c\<lparr>cl_op := None\<rparr>) = (coll_region c)\<lparr>cr_next := ?i + 1\<rparr>" by (simp add: coll_region_def)
  ultimately show ?thesis by simp
qed

section \<open>Replaying\<close>

lemma in_order_upto: "in_order p xs \<longleftrightarrow> map cg_idx xs = [p + 1 .. p + int (length xs)]"
proof (induction xs arbitrary: p)
  case (Cons x xs)
  have "[p + 1 .. p + int (length (x # xs))] = (p + 1) # [p + 2 .. p + 1 + int (length xs)]"
    by (simp add: upto_rec1 algebra_simps)
  then show ?case using Cons.IH [of "p + 1"] by (auto simp: algebra_simps)
qed simp

text \<open>
  A replay from the smallest index of all ranks repeats the collectives of this rank from
  there, in order, when they are all in the log.
\<close>

lemma filter_upto_from: "filter (\<lambda>i. k \<le> i) [m .. n] = [max k m .. n]"
proof -
  have "(\<lambda>i. k \<le> i) = (\<lambda>i. k - 1 < i)" by auto
  then show ?thesis using filter_upto [of "k - 1" m n] by simp
qed

lemma replay_from:
  assumes c: "colls_ok c" "cr_valid (coll_region c)"
    and s: "cr_next (coll_region c) - int (length (cl_colls c)) \<le> start"
  shows "\<exists>xs. replay_collectives start c = Some xs \<and> map cg_idx xs = [start .. cr_next (coll_region c) - 1]"
proof (cases "cr_next (coll_region c) \<le> start")
  case True
  then show ?thesis using c(2) by (simp add: replay_collectives_def)
next
  case False
  let ?n = "cr_next (coll_region c)" and ?xs = "filter (\<lambda>x. start \<le> cg_idx x) (cl_colls c)"
  have m: "map cg_idx (cl_colls c) = [?n - int (length (cl_colls c)) .. ?n - 1]" using c(1) by (simp add: colls_ok_def)
  have "map cg_idx ?xs = filter (\<lambda>i. start \<le> i) (map cg_idx (cl_colls c))" by (simp add: filter_map comp_def)
  also have "\<dots> = [start .. ?n - 1]" unfolding m using s by (simp add: filter_upto_from max_def)
  finally have xs: "map cg_idx ?xs = [start .. ?n - 1]" .
  then have "length ?xs = length [start .. ?n - 1]" by (metis length_map)
  then have len: "int (length ?xs) = ?n - start" using False by simp
  have "in_order (start - 1) ?xs" unfolding in_order_upto xs len by simp
  moreover have "start \<in> set (map cg_idx (cl_colls c))" unfolding m using s False by simp
  then have "start \<in> cg_idx ` set (cl_colls c)" by simp
  ultimately show ?thesis using c(2) False xs by (simp add: replay_collectives_def Let_def)
qed

lemma replay_missing:
  assumes "cr_valid (coll_region c)" "start \<notin> cg_idx ` set (cl_colls c)"
  shows "replay_collectives start c = Some []"
  using assms by (simp add: replay_collectives_def)

lemma replay_no_region:
  "\<not> cr_valid (coll_region c) \<Longrightarrow> replay_collectives start c = None"
  by (simp add: replay_collectives_def fenix_assert_def)

section \<open>Resetting to an earlier region\<close>

text \<open>
  The log of a rank rewinds to the beginning of the region; the log of the collectives keeps
  the region as it ended.
\<close>

lemma takeWhile_pos:
  assumes "\<forall>x \<in> set xs. P x" "\<forall>y \<in> set ys. \<not> P y"
  shows "takeWhile P (xs @ ys) = xs"
  using assms by (cases ys) (simp_all add: takeWhile_append)

lemma fold_erase_logs_regions: "cl_regions (fold erase_logs rs c) = cl_regions c"
  by (induction rs arbitrary: c) (simp_all add: erase_logs_def)

lemma fold_erase_logs_kept:
  assumes "x \<in> set (cl_colls c)" "\<forall>r \<in> set rs. cg_idx x < cr_first r"
  shows "x \<in> set (cl_colls (fold erase_logs rs c))"
  using assms
proof (induction rs arbitrary: c)
  case (Cons r rs)
  then have "x \<in> set (cl_colls (erase_logs r c))" by (simp add: erase_logs_def)
  then show ?case using Cons by simp
qed simp

lemma reset_earlier:
  assumes reg: "cl_regions c = old @ r # new" and new: "new \<noteq> []" "\<forall>x \<in> set new. target < cr_id x \<and> cr_valid x"
    and r: "cr_id r = target" "cr_valid r" and old: "\<forall>x \<in> set old. cr_id x < target"
  shows "\<exists>c'. reset_cregion target c = Some c' \<and> coll_region c' = r \<and>
    (\<forall>x \<in> set (cl_colls c). (\<forall>y \<in> set new. cg_idx x < cr_first y) \<longrightarrow> x \<in> set (cl_colls c'))"
proof -
  have "takeWhile (\<lambda>x. cr_id x \<le> target) ((old @ [r]) @ new) = old @ [r]"
    by (rule takeWhile_pos) (use r old new(2) in auto)
  then have u: "cr_upper_bound target (cl_regions c) = length (old @ [r])" by (simp add: cr_upper_bound_def reg)
  have "last new \<in> set new" using new(1) by simp
  then have l: "target < cr_id (coll_region c)" "cr_valid (coll_region c)"
    using new reg by (simp_all add: coll_region_def)
  have t: "target \<noteq> -1" using r by (auto simp: cr_valid_def)
  let ?c = "erase_cregions (length (old @ [r])) c"
  have regs: "cl_regions ?c = replicate (length new) no_cregion @ old @ [r]"
    by (simp add: erase_cregions_def reg Let_def)
  then have cur: "coll_region ?c = r" by (simp add: coll_region_def)
  have run: "reset_cregion target c = Some ?c"
    using l t cur r unfolding reset_cregion_def u by (simp add: Let_def)
  have "\<forall>x \<in> set (cl_colls c). (\<forall>y \<in> set new. cg_idx x < cr_first y) \<longrightarrow> x \<in> set (cl_colls ?c)"
    using fold_erase_logs_kept by (simp add: erase_cregions_def reg Let_def)
  then show ?thesis using run cur by blast
qed

text \<open>The log of a rank, for comparison.\<close>

lemma fold_erase_sends_simps:
  "rl_regions (fold erase_sends rs l) = rl_regions l" "rl_task (fold erase_sends rs l) = rl_task l"
  "rl_irecv (fold erase_sends rs l) = rl_irecv l"
  by (induction rs arbitrary: l) (simp_all add: erase_sends_def)

lemma cur_region_erase [simp]: "cur_region (erase_sends r l) = cur_region l"
  by (simp add: erase_sends_def cur_region_def)

lemma reset_current_cur:
  "cur_region (reset_current l) = (cur_region l)\<lparr>
     lr_send := (lr_send (cur_region l))\<lparr>mr_next := mr_first (lr_send (cur_region l))\<rparr>,
     lr_recv := (lr_recv (cur_region l))\<lparr>mr_next := mr_first (lr_recv (cur_region l))\<rparr>\<rparr>"
  by (simp add: reset_current_def Let_def set_next_send_def set_next_recv_def)

lemma rank_reset_earlier:
  assumes reg: "rl_regions l = old @ r # new" and new: "new \<noteq> []" "\<forall>x \<in> set new. target < lr_id x \<and> lr_valid x"
    and r: "lr_id r = target" "lr_valid r" and old: "\<forall>x \<in> set old. lr_id x < target"
    and idle: "\<not> rl_task l" "rl_irecv l = None"
  shows "\<exists>l'. reset_consistency target l = Some (True, l') \<and> lr_id (cur_region l') = target \<and>
    next_send l' = mr_first (lr_send r) \<and> next_recv l' = mr_first (lr_recv r)"
proof -
  have "takeWhile (\<lambda>x. lr_id x \<le> target) ((old @ [r]) @ new) = old @ [r]"
    by (rule takeWhile_pos) (use r old new(2) in auto)
  then have u: "upper_bound target (rl_regions l) = length (old @ [r])" by (simp add: upper_bound_def reg)
  have "last new \<in> set new" using new(1) by simp
  then have l: "target < lr_id (cur_region l)" "lr_valid (cur_region l)"
    using new reg by (simp_all add: cur_region_def)
  have t: "0 \<le> target" using r by (auto simp: lr_valid_def)
  let ?l = "erase_regions (length (old @ [r])) l"
  have regs: "rl_regions ?l = replicate (length new) no_region @ old @ [r]"
    by (simp add: erase_regions_def reg Let_def)
  then have cur: "cur_region ?l = r" by (simp add: cur_region_def)
  have lf: "leave_future target l = Some (True, ?l)"
    using cur r unfolding leave_future_def u by (simp add: Let_def)
  have rc: "cur_region (reset_current ?l) = r\<lparr>lr_send := (lr_send r)\<lparr>mr_next := mr_first (lr_send r)\<rparr>,
      lr_recv := (lr_recv r)\<lparr>mr_next := mr_first (lr_recv r)\<rparr>\<rparr>"
    unfolding reset_current_cur cur ..
  have v: "lr_valid (cur_region (reset_current ?l))" "lr_id (cur_region (reset_current ?l)) = target"
    unfolding rc using r by (simp_all add: lr_valid_def range_valid_def)
  have "reset_consistency target l = Some (True, (reset_current ?l)\<lparr>rl_task := True\<rparr>)"
    using idle t l lf cur r(1) v by (simp add: reset_consistency_def Let_def)
  moreover have "cur_region ((reset_current ?l)\<lparr>rl_task := True\<rparr>) = cur_region (reset_current ?l)"
    by (simp add: cur_region_def)
  ultimately show ?thesis using rc v by (simp add: next_send_def next_recv_def)
qed

section \<open>A failure during the collective consistency task\<close>

lemma pre_recovery_task: "cl_task (comm_pre_recovery c) = cl_task c"
  by (simp add: comm_pre_recovery_def)

end
