(* ===== verification/Log_Serial.thy ===== *)
theory Log_Serial
  imports Comm_Facts
begin

text \<open>
  Writing the message logs to a stream and reading them back (include/fenix/logging/serialize.h,
  the \<open>serialize\<close> functions of the logs, src/logging/msg_log.cpp for the table of MPI types).
  A stream is the list of bytes that are left; reading past its end is \<open>None\<close>.
\<close>

section \<open>Types\<close>

text \<open>\<open>MPIObjectRecords\<close>: the recorded objects with their index.\<close>

type_synonym mpi_records = "(int \<times> int) list"

definition next_idx :: "mpi_records \<Rightarrow> int" where
  "next_idx rs = (if rs = [] then 0 else fst (last rs) + 1)"

definition has_object :: "int \<Rightarrow> mpi_records \<Rightarrow> bool" where
  "has_object d rs \<longleftrightarrow> d \<in> snd ` set rs"

definition add_object :: "int \<Rightarrow> mpi_records \<Rightarrow> mpi_records" where
  "add_object d rs = (if has_object d rs then rs else rs @ [(next_idx rs, d)])"

definition find_index :: "int \<Rightarrow> mpi_records \<Rightarrow> int option" where
  "find_index d rs = map_option fst (List.find (\<lambda>r. snd r = d) rs)"

definition find_object :: "int \<Rightarrow> mpi_records \<Rightarrow> int option" where
  "find_object i rs = map_option snd (List.find (\<lambda>r. fst r = i) rs)"

section \<open>Streams\<close>

type_synonym 'a reader = "byte list \<Rightarrow> ('a \<times> byte list) option"

definition read_int :: "int reader" where
  "read_int bs = (if length bs < 4 then None else Some (bytes_int bs, drop 4 bs))"

definition read_bytes :: "nat \<Rightarrow> byte list reader" where
  "read_bytes n bs = (if length bs < n then None else Some (take n bs, drop n bs))"

fun write_each :: "('a \<Rightarrow> byte list option) \<Rightarrow> 'a list \<Rightarrow> byte list option" where
  "write_each w [] = Some []"
| "write_each w (x # xs) = do { b \<leftarrow> w x; bs \<leftarrow> write_each w xs; Some (b @ bs) }"

fun read_times :: "'a reader \<Rightarrow> nat \<Rightarrow> 'a list reader" where
  "read_times r 0 bs = Some ([], bs)"
| "read_times r (Suc n) bs = do { (x, bs) \<leftarrow> r bs; (xs, bs) \<leftarrow> read_times r n bs; Some (x # xs, bs) }"

text \<open>Vectors and sets: the number of elements, then the elements.\<close>

definition write_list :: "('a \<Rightarrow> byte list option) \<Rightarrow> 'a list \<Rightarrow> byte list option" where
  "write_list w xs = do { bs \<leftarrow> write_each w xs; Some (int_bytes (int (length xs)) @ bs) }"

definition read_list :: "'a reader \<Rightarrow> 'a list reader" where
  "read_list r bs = do { (n, bs) \<leftarrow> read_int bs; fenix_assert (0 \<le> n); read_times r (nat n) bs }"

section \<open>Point-to-point logs\<close>

definition write_buffer :: "mpi_records \<Rightarrow> mpi_buffer \<Rightarrow> byte list option" where
  "write_buffer ty b = do {
     i \<leftarrow> find_index (bf_type b) ty;
     Some (int_bytes i @ int_bytes (bf_count b) @ int_bytes (int (length (bf_data b))) @ bf_data b)
   }"

definition read_buffer :: "mpi_records \<Rightarrow> mpi_buffer reader" where
  "read_buffer ty bs = do {
     (i, bs) \<leftarrow> read_int bs;
     d \<leftarrow> find_object i ty;
     (n, bs) \<leftarrow> read_int bs;
     (size, bs) \<leftarrow> read_int bs;
     (xs, bs) \<leftarrow> (if 0 < size then read_bytes (nat size) bs else Some ([], bs));
     Some (\<lparr>bf_type = d, bf_count = n, bf_data = xs\<rparr>, bs)
   }"

definition write_send :: "mpi_records \<Rightarrow> send_log \<Rightarrow> byte list option" where
  "write_send ty s = do {
     b \<leftarrow> write_buffer ty (sl_buf s);
     Some (int_bytes (sl_idx s) @ b @ int_bytes (sl_tag s))
   }"

definition read_send :: "mpi_records \<Rightarrow> send_log reader" where
  "read_send ty bs = do {
     (i, bs) \<leftarrow> read_int bs;
     (b, bs) \<leftarrow> read_buffer ty bs;
     (t, bs) \<leftarrow> read_int bs;
     Some (\<lparr>sl_idx = i, sl_buf = b, sl_tag = t\<rparr>, bs)
   }"

definition range_bytes :: "msg_range \<Rightarrow> byte list" where
  "range_bytes r = int_bytes (mr_first r) @ int_bytes (mr_next r)"

definition write_region :: "log_region \<Rightarrow> byte list option" where
  "write_region r = Some (int_bytes (lr_id r) @ range_bytes (lr_send r) @ range_bytes (lr_recv r))"

definition read_range :: "msg_range reader" where
  "read_range bs = do {
     (a, bs) \<leftarrow> read_int bs;
     (b, bs) \<leftarrow> read_int bs;
     Some (\<lparr>mr_first = a, mr_next = b\<rparr>, bs)
   }"

definition read_region :: "log_region reader" where
  "read_region bs = do {
     (k, bs) \<leftarrow> read_int bs;
     (s, bs) \<leftarrow> read_range bs;
     (r, bs) \<leftarrow> read_range bs;
     Some (\<lparr>lr_id = k, lr_send = s, lr_recv = r\<rparr>, bs)
   }"

definition write_rank_log :: "mpi_records \<Rightarrow> rank_log \<Rightarrow> byte list option" where
  "write_rank_log ty l = do {
     fenix_assert (lr_valid (cur_region l) \<and> rl_irecv l = None);
     s \<leftarrow> write_list (write_send ty) (rl_sends l);
     r \<leftarrow> write_list write_region (rl_regions l);
     Some (s @ int_bytes (rl_already l) @ r)
   }"

text \<open>The constructor of a \<open>RankLog\<close> from a stream.\<close>

definition read_rank_log :: "mpi_records \<Rightarrow> nat \<Rightarrow> int \<Rightarrow> rank_log reader" where
  "read_rank_log ty max_regions rank bs = do {
     (ss, bs) \<leftarrow> read_list (read_send ty) bs;
     (a, bs) \<leftarrow> read_int bs;
     (rs, bs) \<leftarrow> read_list read_region bs;
     fenix_assert (length rs = max_regions);
     (let l = (new_rank_log max_regions rank)\<lparr>rl_sends := ss, rl_already := a, rl_regions := rs\<rparr> in do {
        fenix_assert (lr_valid (cur_region l));
        Some (l, bs)
      })
   }"

section \<open>The log of a communicator\<close>

definition write_cregion :: "cregion \<Rightarrow> byte list option" where
  "write_cregion r = Some (int_bytes (cr_id r) @ int_bytes (cr_first r) @ int_bytes (cr_next r))"

definition read_cregion :: "cregion reader" where
  "read_cregion bs = do {
     (k, bs) \<leftarrow> read_int bs;
     (a, bs) \<leftarrow> read_int bs;
     (b, bs) \<leftarrow> read_int bs;
     Some (\<lparr>cr_id = k, cr_first = a, cr_next = b\<rparr>, bs)
   }"

definition write_ranked :: "mpi_records \<Rightarrow> rank_log \<Rightarrow> byte list option" where
  "write_ranked ty l = do { b \<leftarrow> write_rank_log ty l; Some (int_bytes (rl_rank l) @ b) }"

definition read_ranked :: "mpi_records \<Rightarrow> nat \<Rightarrow> rank_log reader" where
  "read_ranked ty n bs = do { (r, bs) \<leftarrow> read_int bs; read_rank_log ty n r bs }"

text \<open>Only the logs with a valid region are written; the logged collectives are not.\<close>

definition write_comm_log :: "mpi_records \<Rightarrow> comm_log \<Rightarrow> byte list option" where
  "write_comm_log ty c = do {
     rs \<leftarrow> write_list write_cregion (cl_regions c);
     ls \<leftarrow> write_list (write_ranked ty) (filter (\<lambda>l. lr_valid (cur_region l)) (cl_ranks c));
     Some (int_bytes (cl_rank c) @ int_bytes (int (cl_max c)) @ int_bytes (cl_active c) @ rs @ ls)
   }"

definition read_comm_log :: "mpi_records \<Rightarrow> int \<Rightarrow> comm_log reader" where
  "read_comm_log ty my_rank bs = do {
     (r, bs) \<leftarrow> read_int bs;
     fenix_assert (r = my_rank);
     (n, bs) \<leftarrow> read_int bs;
     (a, bs) \<leftarrow> read_int bs;
     (rs, bs) \<leftarrow> read_list read_cregion bs;
     (ls, bs) \<leftarrow> read_list (read_ranked ty (nat n)) bs;
     fenix_assert (distinct (map rl_rank ls));
     Some ((new_comm_log my_rank (nat n))\<lparr>cl_active := a, cl_regions := rs,
       cl_ranks := fold (kset_insert rl_rank) ls []\<rparr>, bs)
   }"

section \<open>Round trips\<close>

definition fits :: "int \<Rightarrow> bool" where
  "fits i \<longleftrightarrow> - 2147483648 \<le> i \<and> i \<le> INT32_MAX"

text \<open>A reader that gives back what a writer wrote.\<close>

definition inverts :: "('a \<Rightarrow> byte list option) \<Rightarrow> 'a reader \<Rightarrow> 'a \<Rightarrow> bool" where
  "inverts w r x \<longleftrightarrow> (\<exists>b. w x = Some b \<and> (\<forall>rest. r (b @ rest) = Some (x, rest)))"

lemma read_int_bytes [simp]: "fits i \<Longrightarrow> read_int (int_bytes i @ rest) = Some (i, rest)"
  by (simp add: read_int_def fits_def bytes_int_bytes)

lemma read_bytes_app [simp]: "length xs = n \<Longrightarrow> read_bytes n (xs @ rest) = Some (xs, rest)"
  by (auto simp: read_bytes_def)

lemma inverts_each:
  "\<forall>x \<in> set xs. inverts w r x \<Longrightarrow>
    \<exists>b. write_each w xs = Some b \<and> (\<forall>rest. read_times r (length xs) (b @ rest) = Some (xs, rest))"
proof (induction xs)
  case (Cons x xs)
  then obtain bs where bs: "write_each w xs = Some bs" "\<forall>rest. read_times r (length xs) (bs @ rest) = Some (xs, rest)"
    by auto
  obtain b where b: "w x = Some b" "\<forall>rest. r (b @ rest) = Some (x, rest)" using Cons.prems by (auto simp: inverts_def)
  show ?case using b bs by (intro exI [of _ "b @ bs"]) simp
qed simp

lemma inverts_list:
  assumes "\<forall>x \<in> set xs. inverts w r x" "int (length xs) \<le> INT32_MAX"
  shows "inverts (write_list w) (read_list r) xs"
proof -
  obtain b where b: "write_each w xs = Some b" "\<forall>rest. read_times r (length xs) (b @ rest) = Some (xs, rest)"
    using inverts_each [OF assms(1)] by blast
  have "fits (int (length xs))" using assms(2) by (simp add: fits_def)
  then show ?thesis using b by (simp add: inverts_def write_list_def read_list_def)
qed

definition types_ok :: "mpi_records \<Rightarrow> bool" where
  "types_ok ty \<longleftrightarrow> distinct (map fst ty) \<and> (\<forall>r \<in> set ty. fits (fst r))"

lemma find_index_object:
  assumes "types_ok ty" "has_object d ty"
  shows "\<exists>i. find_index d ty = Some i \<and> fits i \<and> find_object i ty = Some d"
  using assms
proof (induction ty)
  case Nil
  then show ?case by (simp add: has_object_def)
next
  case (Cons r ty)
  show ?case
  proof (cases "snd r = d")
    case True
    then show ?thesis using Cons.prems by (cases r) (simp add: find_index_def find_object_def types_ok_def)
  next
    case False
    then have "types_ok ty" "has_object d ty" using Cons.prems by (auto simp: types_ok_def has_object_def)
    then obtain i where i: "find_index d ty = Some i" "fits i" "find_object i ty = Some d" using Cons.IH by blast
    then obtain p where p: "List.find (\<lambda>r. snd r = d) ty = Some p" "fst p = i" by (auto simp: find_index_def)
    then have "p \<in> set ty" by (metis find_Some_iff nth_mem)
    then have "i \<in> fst ` set ty" using p(2) by blast
    then have "fst r \<noteq> i" using Cons.prems(1) by (auto simp: types_ok_def)
    then have "find_index d (r # ty) = Some i \<and> fits i \<and> find_object i (r # ty) = Some d"
      using i False by (simp add: find_index_def find_object_def)
    then show ?thesis ..
  qed
qed

definition buffer_fits :: "mpi_records \<Rightarrow> mpi_buffer \<Rightarrow> bool" where
  "buffer_fits ty b \<longleftrightarrow> has_object (bf_type b) ty \<and> fits (bf_count b) \<and> int (length (bf_data b)) \<le> INT32_MAX"

lemma inverts_buffer:
  assumes "types_ok ty" "buffer_fits ty b"
  shows "inverts (write_buffer ty) (read_buffer ty) b"
proof -
  obtain i where i: "find_index (bf_type b) ty = Some i" "fits i" "find_object i ty = Some (bf_type b)"
    using find_index_object assms by (metis buffer_fits_def)
  have f: "fits (bf_count b)" "fits (int (length (bf_data b)))" using assms(2) by (simp_all add: buffer_fits_def fits_def)
  show ?thesis using i f by (cases "bf_data b = []") (simp_all add: inverts_def write_buffer_def read_buffer_def)
qed

definition send_fits :: "mpi_records \<Rightarrow> send_log \<Rightarrow> bool" where
  "send_fits ty s \<longleftrightarrow> fits (sl_idx s) \<and> fits (sl_tag s) \<and> buffer_fits ty (sl_buf s)"

lemma inverts_send:
  assumes "types_ok ty" "send_fits ty s"
  shows "inverts (write_send ty) (read_send ty) s"
proof -
  obtain b where b: "write_buffer ty (sl_buf s) = Some b" "\<forall>rest. read_buffer ty (b @ rest) = Some (sl_buf s, rest)"
    using inverts_buffer [OF assms(1)] assms(2) by (auto simp: send_fits_def inverts_def)
  then show ?thesis using assms(2) by (simp add: inverts_def write_send_def read_send_def send_fits_def)
qed

definition range_fits :: "msg_range \<Rightarrow> bool" where
  "range_fits r \<longleftrightarrow> fits (mr_first r) \<and> fits (mr_next r)"

definition region_fits :: "log_region \<Rightarrow> bool" where
  "region_fits r \<longleftrightarrow> fits (lr_id r) \<and> range_fits (lr_send r) \<and> range_fits (lr_recv r)"

lemma read_range_bytes: "range_fits r \<Longrightarrow> read_range (range_bytes r @ rest) = Some (r, rest)"
  by (simp add: read_range_def range_bytes_def range_fits_def)

lemma inverts_region: "region_fits r \<Longrightarrow> inverts write_region read_region r"
  by (simp add: inverts_def write_region_def read_region_def region_fits_def read_range_bytes)

text \<open>A log that can be written: what it holds fits an \<open>int\<close>, and nothing is being received.\<close>

definition rank_log_fits :: "mpi_records \<Rightarrow> nat \<Rightarrow> rank_log \<Rightarrow> bool" where
  "rank_log_fits ty n l \<longleftrightarrow> fits (rl_rank l) \<and> rl_irecv l = None \<and> \<not> rl_task l \<and> fits (rl_already l) \<and>
     (\<forall>s \<in> set (rl_sends l). send_fits ty s) \<and> int (length (rl_sends l)) \<le> INT32_MAX \<and>
     (\<forall>r \<in> set (rl_regions l). region_fits r) \<and> length (rl_regions l) = n"

lemma inverts_ranked:
  assumes "types_ok ty" "rank_log_fits ty n l" "lr_valid (cur_region l)" "int n \<le> INT32_MAX"
  shows "inverts (write_ranked ty) (read_ranked ty n) l"
proof -
  have f: "fits (rl_rank l)" "rl_irecv l = None" "\<not> rl_task l" "fits (rl_already l)" "length (rl_regions l) = n"
    and s: "\<forall>s \<in> set (rl_sends l). inverts (write_send ty) (read_send ty) s" "int (length (rl_sends l)) \<le> INT32_MAX"
    and r: "\<forall>r \<in> set (rl_regions l). inverts write_region read_region r"
    using assms(1,2) inverts_send inverts_region by (simp_all add: rank_log_fits_def)
  obtain bs where bs: "write_list (write_send ty) (rl_sends l) = Some bs"
      "\<forall>rest. read_list (read_send ty) (bs @ rest) = Some (rl_sends l, rest)"
    using inverts_list [OF s] by (auto simp: inverts_def)
  have "int (length (rl_regions l)) \<le> INT32_MAX" using f(5) assms(4) by simp
  then obtain br where br: "write_list write_region (rl_regions l) = Some br"
      "\<forall>rest. read_list read_region (br @ rest) = Some (rl_regions l, rest)"
    using inverts_list [OF r] by (auto simp: inverts_def)
  have l: "(new_rank_log n (rl_rank l))\<lparr>rl_sends := rl_sends l, rl_already := rl_already l, rl_regions := rl_regions l\<rparr> = l"
    using f by (simp add: new_rank_log_def)
  have v: "lr_valid (last (rl_regions l))" using assms(3) by (simp add: cur_region_def)
  show ?thesis using f bs br assms(3) l v
    by (simp add: inverts_def write_ranked_def write_rank_log_def read_ranked_def read_rank_log_def Let_def cur_region_def)
qed

definition cregion_fits :: "cregion \<Rightarrow> bool" where
  "cregion_fits r \<longleftrightarrow> fits (cr_id r) \<and> fits (cr_first r) \<and> fits (cr_next r)"

lemma inverts_cregion: "cregion_fits r \<Longrightarrow> inverts write_cregion read_cregion r"
  by (simp add: inverts_def write_cregion_def read_cregion_def cregion_fits_def)

definition comm_log_fits :: "mpi_records \<Rightarrow> comm_log \<Rightarrow> bool" where
  "comm_log_fits ty c \<longleftrightarrow> fits (cl_rank c) \<and> int (cl_max c) \<le> INT32_MAX \<and> fits (cl_active c) \<and>
     (\<forall>r \<in> set (cl_regions c). cregion_fits r) \<and> int (length (cl_regions c)) \<le> INT32_MAX \<and>
     (\<forall>l \<in> set (cl_ranks c). rank_log_fits ty (cl_max c) l) \<and> int (length (cl_ranks c)) \<le> INT32_MAX \<and>
     kset_ok rl_rank (cl_ranks c)"

lemma fold_kset_insert:
  "kset_ok key (acc @ xs) \<Longrightarrow> fold (kset_insert key) xs acc = acc @ xs"
proof (induction xs arbitrary: acc)
  case (Cons x xs)
  have "\<forall>y \<in> set acc. key y < key x" using Cons.prems by (auto simp: kset_ok_def sorted_wrt_append)
  then have "kset_insert key x acc = acc @ [x]" by (rule kset_insert_last)
  then show ?case using Cons by simp
qed simp

text \<open>
  Reading back what was written gives the log without its collectives and without the logs
  that have no valid region.
\<close>

lemma comm_log_roundtrip:
  assumes ty: "types_ok ty" and c: "comm_log_fits ty c"
  shows "\<exists>b. write_comm_log ty c = Some b \<and>
    (\<forall>rest. read_comm_log ty (cl_rank c) (b @ rest) = Some ((new_comm_log (cl_rank c) (cl_max c))\<lparr>cl_active := cl_active c,
      cl_regions := cl_regions c, cl_ranks := filter (\<lambda>l. lr_valid (cur_region l)) (cl_ranks c)\<rparr>, rest))"
proof -
  let ?ls = "filter (\<lambda>l. lr_valid (cur_region l)) (cl_ranks c)"
  have f: "fits (cl_rank c)" "fits (int (cl_max c))" "fits (cl_active c)" "int (cl_max c) \<le> INT32_MAX"
    and reg: "\<forall>r \<in> set (cl_regions c). inverts write_cregion read_cregion r" "int (length (cl_regions c)) \<le> INT32_MAX"
    and ks: "kset_ok rl_rank (cl_ranks c)" "\<forall>l \<in> set (cl_ranks c). rank_log_fits ty (cl_max c) l"
      "int (length (cl_ranks c)) \<le> INT32_MAX"
    using c inverts_cregion by (simp_all add: comm_log_fits_def fits_def)
  have ls: "\<forall>l \<in> set ?ls. inverts (write_ranked ty) (read_ranked ty (cl_max c)) l"
    using inverts_ranked [OF ty _ _ f(4)] ks(2) by simp
  have "length ?ls \<le> length (cl_ranks c)" by simp
  then have len: "int (length ?ls) \<le> INT32_MAX" using ks(3) by linarith
  obtain b1 where b1: "write_list write_cregion (cl_regions c) = Some b1"
      "\<forall>rest. read_list read_cregion (b1 @ rest) = Some (cl_regions c, rest)"
    using inverts_list [OF reg] by (auto simp: inverts_def)
  obtain b2 where b2: "write_list (write_ranked ty) ?ls = Some b2"
      "\<forall>rest. read_list (read_ranked ty (cl_max c)) (b2 @ rest) = Some (?ls, rest)"
    using inverts_list [OF ls len] by (auto simp: inverts_def)
  have kf: "kset_ok rl_rank ?ls" using ks(1) by (simp add: kset_ok_def sorted_wrt_filter)
  then have fold: "fold (kset_insert rl_rank) ?ls [] = ?ls" using fold_kset_insert [of rl_rank "[]" ?ls] by simp
  have "sorted_wrt (<) (map rl_rank ?ls)" using kf by (simp add: kset_ok_def sorted_wrt_map)
  then have dist: "distinct (map rl_rank ?ls)" using strict_sorted_iff by blast
  show ?thesis using f b1 b2 fold dist
    by (intro exI [of _ "int_bytes (cl_rank c) @ int_bytes (int (cl_max c)) @ int_bytes (cl_active c) @ b1 @ b2"])
      (simp add: write_comm_log_def read_comm_log_def)
qed

end
