(* ===== verification/Runtime.thy ===== *)
theory Runtime
  imports Component Log_Serial
begin

text \<open>
  The runtime state that the whole library shares (\<open>fenix_t\<close>, include/fenix_ext.hpp), its
  settings (\<open>set_option\<close>, \<open>get_option\<close> in src/fenix.cpp), options and message logs that are
  changed for the time of a scope (include/fenix_util.hpp), and what every function of the
  interface does around its body: \<open>FENIX_CPP_API_BEGIN\<close> to \<open>FENIX_CPP_API_END\<close>.  Settings and
  their values are the numbers of the enumerators of include/fenix.h.
\<close>

section \<open>Settings\<close>

record settings =
  se_recovery :: nat
  se_resume :: nat
  se_cb_exception :: nat
  se_unhandled :: nat
  se_mlog_recovery :: nat
  se_spare_wait :: nat
  se_spare_finalize :: nat

definition initial_settings :: settings where
  "initial_settings =
     \<lparr>se_recovery = 2, se_resume = 3, se_cb_exception = 1, se_unhandled = 2, se_mlog_recovery = 0,
      se_spare_wait = 1, se_spare_finalize = 1\<rparr>"

abbreviation (input) RECOVERY_MODE :: nat where "RECOVERY_MODE \<equiv> 0"
abbreviation (input) RESUME_MODE :: nat where "RESUME_MODE \<equiv> 1"
abbreviation (input) UNHANDLED_MODE :: nat where "UNHANDLED_MODE \<equiv> 2"
abbreviation (input) CALLBACK_EXCEPTION_MODE :: nat where "CALLBACK_EXCEPTION_MODE \<equiv> 3"
abbreviation (input) MLOG_RECOVERY_MODE :: nat where "MLOG_RECOVERY_MODE \<equiv> 4"
abbreviation (input) SPARE_WAIT_MODE :: nat where "SPARE_WAIT_MODE \<equiv> 5"
abbreviation (input) SPARE_FINALIZE_MODE :: nat where "SPARE_FINALIZE_MODE \<equiv> 6"
abbreviation (input) SETTING_NAME_MAXCODE :: nat where "SETTING_NAME_MAXCODE \<equiv> 7"

abbreviation (input) IGNORE :: nat where "IGNORE \<equiv> 0"
abbreviation (input) JUMP :: nat where "JUMP \<equiv> 0"
abbreviation (input) RETURN :: nat where "RETURN \<equiv> 1"
abbreviation (input) THROW :: nat where "THROW \<equiv> 2"
abbreviation (input) ABORT :: nat where "ABORT \<equiv> 2"
abbreviation (input) MANUAL :: nat where "MANUAL \<equiv> 0"

text \<open>The \<open>MAXCODE\<close> of every setting.\<close>

definition option_bound :: "nat \<Rightarrow> nat" where
  "option_bound n = [4, 3, 3, 2, 3, 3, 2] ! n"

definition put_setting :: "nat \<Rightarrow> nat \<Rightarrow> settings \<Rightarrow> settings" where
  "put_setting n v s =
     (if n = RECOVERY_MODE then s\<lparr>se_recovery := v\<rparr>
      else if n = RESUME_MODE then s\<lparr>se_resume := v\<rparr>
      else if n = UNHANDLED_MODE then s\<lparr>se_unhandled := v\<rparr>
      else if n = CALLBACK_EXCEPTION_MODE then s\<lparr>se_cb_exception := v\<rparr>
      else if n = MLOG_RECOVERY_MODE then s\<lparr>se_mlog_recovery := v\<rparr>
      else if n = SPARE_WAIT_MODE then s\<lparr>se_spare_wait := v\<rparr>
      else s\<lparr>se_spare_finalize := v\<rparr>)"

definition setting_of :: "nat \<Rightarrow> settings \<Rightarrow> nat" where
  "setting_of n s =
     (if n = RECOVERY_MODE then se_recovery s
      else if n = RESUME_MODE then se_resume s
      else if n = UNHANDLED_MODE then se_unhandled s
      else if n = CALLBACK_EXCEPTION_MODE then se_cb_exception s
      else if n = MLOG_RECOVERY_MODE then se_mlog_recovery s
      else if n = SPARE_WAIT_MODE then se_spare_wait s
      else se_spare_finalize s)"

section \<open>The runtime\<close>

text \<open>
  The active log is held by its id; the code also keeps a pointer to it, which is null exactly
  when the id is \<open>FENIX_MLOG_NONE\<close>.  \<open>rt_heap\<close> is the user's memory, \<open>rt_found\<close> and \<open>rt_stamp\<close>
  are the variables that the caller passes by reference for the elements found and for the
  timestamp.
\<close>

record runtime =
  rt_init :: bool
  rt_final :: bool
  rt_settings :: settings
  rt_defaults :: settings
  rt_data :: component
  rt_heap :: heap
  rt_found :: data_subset
  rt_stamp :: int
  rt_linked :: bool
  rt_mlogs :: "(int \<times> comm_log) list"
  rt_mlog_order :: "int list"
  rt_active :: int

definition set_option :: "nat \<Rightarrow> nat \<Rightarrow> (runtime, unit) comp" where
  "set_option n v =
     andThen (throwIf (n \<ge> SETTING_NAME_MAXCODE) FENIX_ERROR_INVALID_SETTING_NAME) (\<lambda>_.
     andThen (throwIf (v \<ge> option_bound n) FENIX_ERROR_INVALID_SETTING_OPTION) (\<lambda>_.
     modS (\<lambda>rt. if rt_init rt then rt\<lparr>rt_settings := put_setting n v (rt_settings rt)\<rparr>
       else rt\<lparr>rt_defaults := put_setting n v (rt_defaults rt)\<rparr>)))"

definition get_option :: "nat \<Rightarrow> (runtime, nat) comp" where
  "get_option n =
     andThen getS (\<lambda>rt.
     andThen (throwIf (\<not> rt_init rt) FENIX_ERROR_UNINITIALIZED) (\<lambda>_.
     andThen (throwIf (n \<ge> SETTING_NAME_MAXCODE) FENIX_ERROR_INTERN) (\<lambda>_.
     ret (setting_of n (rt_settings rt)))))"

text \<open>
  \<open>ScopedOption\<close>: the old value comes back at the end of the scope, however it is left; an
  exception in the destructor ends the process.
\<close>

definition scoped_option :: "nat \<Rightarrow> nat \<Rightarrow> (runtime, 'a) comp \<Rightarrow> (runtime, 'a) comp" where
  "scoped_option n v body =
     andThen (get_option n) (\<lambda>old.
     andThen (set_option n v) (\<lambda>_ rt.
       (case body rt of (r, rt') \<Rightarrow>
          if rt_init rt' then
            (case set_option n old rt' of (Inl _, rt'') \<Rightarrow> (Inl Abort, rt'') | (Inr _, rt'') \<Rightarrow> (r, rt''))
          else (r, rt'))))"

definition default_runtime_options :: "(runtime, 'a) comp \<Rightarrow> (runtime, 'a) comp" where
  "default_runtime_options body = scoped_option RESUME_MODE THROW (scoped_option UNHANDLED_MODE ABORT body)"

definition ignore_and_return :: "(runtime, 'a) comp \<Rightarrow> (runtime, 'a) comp" where
  "ignore_and_return body = scoped_option RECOVERY_MODE IGNORE (scoped_option RESUME_MODE RETURN body)"

section \<open>Around every function of the interface\<close>

text \<open>How a function of the interface ends; \<open>Jumped\<close> is a \<open>longjmp\<close> to \<open>Fenix_Init\<close>.\<close>

datatype 'a api_end = Returned 'a | Failed failure | Jumped

definition resume_application :: "(fenix_code \<Rightarrow> 'a) \<Rightarrow> runtime \<Rightarrow> 'a api_end" where
  "resume_application code rt =
     (if \<not> rt_init rt \<or> rt_final rt then Returned (code FENIX_ERROR_CANCELLED)
      else let mode = se_resume (rt_settings rt) in
        if mode = JUMP then Jumped
        else if mode = THROW then Failed Comm
        else if mode = RETURN then Returned (code FENIX_ERROR_CANCELLED)
        else Failed Abort)"

text \<open>
  \<open>catch\<close>: the library is built to return the errors of its runtime exceptions; \<open>code\<close> is the
  conversion of an error code to the return type of the function.
\<close>

definition api :: "bool \<Rightarrow> (fenix_code \<Rightarrow> 'a) \<Rightarrow> (runtime, 'a) comp \<Rightarrow> runtime \<Rightarrow> 'a api_end \<times> runtime" where
  "api catch code body rt =
     (case default_runtime_options (andThen getS (\<lambda>rt.
          andThen (throwIf (\<not> rt_init rt) FENIX_ERROR_UNINITIALIZED) (\<lambda>_. body))) rt of
        (Inr x, rt') \<Rightarrow> (Returned x, rt')
      | (Inl e, rt') \<Rightarrow> (case e of
            Throw c \<Rightarrow> (if catch then Returned (code c) else Failed e, rt')
          | Comm \<Rightarrow> (resume_application code rt', rt')
          | Abort \<Rightarrow> (Failed Abort, rt')))"

text \<open>A function of the interface called inside the library.\<close>

definition api_comp :: "bool \<Rightarrow> (fenix_code \<Rightarrow> 'a) \<Rightarrow> (runtime, 'a) comp \<Rightarrow> (runtime, 'a) comp" where
  "api_comp catch code body rt =
     (case api catch code body rt of
        (Returned x, rt') \<Rightarrow> (Inr x, rt')
      | (Failed e, rt') \<Rightarrow> (Inl e, rt')
      | (Jumped, rt') \<Rightarrow> (Inl Abort, rt'))"

section \<open>What the settings promise\<close>

definition settings_ok :: "settings \<Rightarrow> bool" where
  "settings_ok s \<longleftrightarrow> (\<forall>n < SETTING_NAME_MAXCODE. setting_of n s < option_bound n)"

lemma setting_put:
  assumes "n < SETTING_NAME_MAXCODE" "k < SETTING_NAME_MAXCODE"
  shows "setting_of k (put_setting n v s) = (if k = n then v else setting_of k s)"
proof -
  have "n \<in> {0, 1, 2, 3, 4, 5, 6}" "k \<in> {0, 1, 2, 3, 4, 5, 6}" using assms by auto
  then show ?thesis by (auto simp: setting_of_def put_setting_def)
qed

lemma put_setting_ok:
  "settings_ok s \<Longrightarrow> n < SETTING_NAME_MAXCODE \<Longrightarrow> v < option_bound n \<Longrightarrow> settings_ok (put_setting n v s)"
  by (simp add: settings_ok_def setting_put)

lemma setting_ext:
  assumes "\<And>n. n < SETTING_NAME_MAXCODE \<Longrightarrow> setting_of n s = setting_of n t"
  shows "s = t"
proof -
  have "setting_of 0 s = setting_of 0 t" "setting_of 1 s = setting_of 1 t" "setting_of 2 s = setting_of 2 t"
    "setting_of 3 s = setting_of 3 t" "setting_of 4 s = setting_of 4 t" "setting_of 5 s = setting_of 5 t"
    "setting_of 6 s = setting_of 6 t" by (intro assms; simp)+
  then show ?thesis by (cases s; cases t) (simp add: setting_of_def)
qed

text \<open>The options that a scope has in its place, and after it.\<close>

lemma scoped_run:
  assumes i: "rt_init rt" "settings_ok (rt_settings rt)" and n: "n < SETTING_NAME_MAXCODE" "v < option_bound n"
    and b: "body (rt\<lparr>rt_settings := put_setting n v (rt_settings rt)\<rparr>) = (r, rt')" "rt_init rt'"
  shows "scoped_option n v body rt = (r, rt'\<lparr>rt_settings := put_setting n (setting_of n (rt_settings rt)) (rt_settings rt')\<rparr>)"
proof -
  have "setting_of n (rt_settings rt) < option_bound n" using i(2) n(1) by (simp add: settings_ok_def)
  then show ?thesis using i n b by (simp add: scoped_option_def get_option_def set_option_def comp)
qed

lemma scoped_ended:
  assumes i: "rt_init rt" "settings_ok (rt_settings rt)" and n: "n < SETTING_NAME_MAXCODE" "v < option_bound n"
    and b: "body (rt\<lparr>rt_settings := put_setting n v (rt_settings rt)\<rparr>) = (r, rt')" "\<not> rt_init rt'"
  shows "scoped_option n v body rt = (r, rt')"
  using i n b by (simp add: scoped_option_def get_option_def set_option_def comp)

definition internal_settings :: "settings \<Rightarrow> settings" where
  "internal_settings s = put_setting UNHANDLED_MODE ABORT (put_setting RESUME_MODE THROW s)"

definition restore_settings :: "settings \<Rightarrow> settings \<Rightarrow> settings" where
  "restore_settings old s = put_setting RESUME_MODE (setting_of RESUME_MODE old)
     (put_setting UNHANDLED_MODE (setting_of UNHANDLED_MODE old) s)"

lemma internal_ok: "settings_ok s \<Longrightarrow> settings_ok (internal_settings s)"
  by (simp add: internal_settings_def put_setting_ok option_bound_def)

lemma restore_internal: "restore_settings s (internal_settings s) = s"
  by (rule setting_ext) (simp add: restore_settings_def internal_settings_def setting_put)

lemma default_options_run:
  assumes i: "rt_init rt" "settings_ok (rt_settings rt)"
    and b: "body (rt\<lparr>rt_settings := internal_settings (rt_settings rt)\<rparr>) = (r, rt')" "rt_init rt'"
  shows "default_runtime_options body rt = (r, rt'\<lparr>rt_settings := restore_settings (rt_settings rt) (rt_settings rt')\<rparr>)"
proof -
  let ?s = "rt_settings rt" and ?rt1 = "rt\<lparr>rt_settings := put_setting RESUME_MODE THROW (rt_settings rt)\<rparr>"
  have s1: "settings_ok (rt_settings ?rt1)" using i(2) by (simp add: put_setting_ok option_bound_def)
  have u: "setting_of UNHANDLED_MODE (rt_settings ?rt1) = setting_of UNHANDLED_MODE ?s" by (simp add: setting_put)
  have b1: "body (?rt1\<lparr>rt_settings := put_setting UNHANDLED_MODE ABORT (rt_settings ?rt1)\<rparr>) = (r, rt')"
    using b(1) by (simp add: internal_settings_def)
  have inner: "scoped_option UNHANDLED_MODE ABORT body ?rt1
      = (r, rt'\<lparr>rt_settings := put_setting UNHANDLED_MODE (setting_of UNHANDLED_MODE ?s) (rt_settings rt')\<rparr>)"
    using scoped_run [of ?rt1 UNHANDLED_MODE ABORT body, OF _ s1 _ _ b1 b(2)] i(1) u by (simp add: option_bound_def)
  then show ?thesis
    using scoped_run [of rt RESUME_MODE THROW "scoped_option UNHANDLED_MODE ABORT body", OF i _ _ inner] b(2)
    by (simp add: default_runtime_options_def option_bound_def restore_settings_def)
qed

text \<open>A call of the interface, on an initialised runtime whose body leaves it initialised.\<close>

definition api_result :: "bool \<Rightarrow> (fenix_code \<Rightarrow> 'a) \<Rightarrow> failure + 'a \<Rightarrow> runtime \<Rightarrow> 'a api_end" where
  "api_result catch code r rt =
     (case r of
        Inr x \<Rightarrow> Returned x
      | Inl (Throw c) \<Rightarrow> if catch then Returned (code c) else Failed (Throw c)
      | Inl Comm \<Rightarrow> resume_application code rt
      | Inl Abort \<Rightarrow> Failed Abort)"

lemma api_run:
  assumes i: "rt_init rt" "settings_ok (rt_settings rt)"
    and b: "body (rt\<lparr>rt_settings := internal_settings (rt_settings rt)\<rparr>) = (r, rt')" "rt_init rt'"
  shows "api catch code body rt =
    (let rt'' = rt'\<lparr>rt_settings := restore_settings (rt_settings rt) (rt_settings rt')\<rparr>
     in (api_result catch code r rt'', rt''))"
proof -
  let ?b = "andThen getS (\<lambda>rt. andThen (throwIf (\<not> rt_init rt) FENIX_ERROR_UNINITIALIZED) (\<lambda>_. body))"
  have "?b (rt\<lparr>rt_settings := internal_settings (rt_settings rt)\<rparr>) = (r, rt')" using i(1) b(1) by (simp add: comp)
  from default_options_run [of rt ?b, OF i this b(2)] show ?thesis
    by (cases r) (simp_all add: api_def api_result_def Let_def split: failure.split)
qed

lemma api_uninitialized:
  "\<not> rt_init rt \<Longrightarrow> api catch code body rt =
    (if catch then Returned (code FENIX_ERROR_UNINITIALIZED) else Failed (Throw FENIX_ERROR_UNINITIALIZED), rt)"
  by (simp add: api_def default_runtime_options_def scoped_option_def get_option_def comp)

text \<open>
  A function of the interface that is called by another one: inside, exceptions of failed
  communicators pass through it, so that only the outermost call resumes the application.
\<close>

lemma restore_resume: "se_resume (restore_settings old s) = se_resume old"
  by (simp add: restore_settings_def put_setting_def setting_of_def)

lemma internal_resume: "se_resume (internal_settings s) = THROW"
  by (simp add: internal_settings_def put_setting_def)

definition pass_codes :: "bool \<Rightarrow> (fenix_code \<Rightarrow> 'a) \<Rightarrow> failure + 'a \<Rightarrow> failure + 'a" where
  "pass_codes catch code r = (case r of Inl (Throw c) \<Rightarrow> if catch then Inr (code c) else r | _ \<Rightarrow> r)"

lemma api_comp_nested:
  assumes i: "rt_init rt" "\<not> rt_final rt'" "settings_ok (rt_settings rt)" "se_resume (rt_settings rt) = THROW"
    and b: "body (rt\<lparr>rt_settings := internal_settings (rt_settings rt)\<rparr>) = (r, rt')" "rt_init rt'"
  shows "api_comp catch code body rt =
    (pass_codes catch code r, rt'\<lparr>rt_settings := restore_settings (rt_settings rt) (rt_settings rt')\<rparr>)"
proof -
  let ?rt'' = "rt'\<lparr>rt_settings := restore_settings (rt_settings rt) (rt_settings rt')\<rparr>"
  have "resume_application code ?rt'' = Failed Comm"
    using i b(2) by (simp add: resume_application_def restore_resume)
  then show ?thesis
    using api_run [of rt body, OF i(1,3) b]
    by (cases r) (simp_all add: api_comp_def Let_def api_result_def pass_codes_def split: failure.split)
qed

end
