(* ===== verification/Mlog.thy ===== *)
theory Mlog
  imports Runtime
begin

text \<open>
  The registry of message logs (src/logging/message_logging.cpp): creating, activating, syncing
  and deleting a log, the scope without logging that the data interface runs in
  (\<open>ScopedActiveMlog\<close>, include/fenix_util.hpp), and the data member that checkpoints a log.
\<close>

section \<open>The registry\<close>

definition MLOG_NONE :: int where
  "MLOG_NONE = -1"

definition search_mlog :: "int \<Rightarrow> runtime \<Rightarrow> comm_log option" where
  "search_mlog i rt = map_option snd (kset_find fst i (rt_mlogs rt))"

definition find_mlog :: "int \<Rightarrow> (runtime, comm_log) comp" where
  "find_mlog i rt = (case search_mlog i rt of
       None \<Rightarrow> (Inl (Throw FENIX_ERROR_INVALID_MLOGID), rt) | Some c \<Rightarrow> (Inr c, rt))"

definition put_mlog :: "int \<Rightarrow> comm_log \<Rightarrow> runtime \<Rightarrow> runtime" where
  "put_mlog i c rt = rt\<lparr>rt_mlogs := kset_update fst (i, c) (rt_mlogs rt)\<rparr>"

text \<open>An operation on a log that may fail an assertion.\<close>

definition on_mlog :: "int \<Rightarrow> (comm_log \<Rightarrow> comm_log option) \<Rightarrow> (runtime, fenix_code) comp" where
  "on_mlog i f =
     andThen (find_mlog i) (\<lambda>c.
     andThen (liftO (f c)) (\<lambda>c'.
     andThen (modS (put_mlog i c')) (\<lambda>_. ret FENIX_SUCCESS)))"

abbreviation code_api :: "bool \<Rightarrow> (runtime, fenix_code) comp \<Rightarrow> (runtime, fenix_code) comp" where
  "code_api catch \<equiv> api_comp catch (\<lambda>c. c)"

text \<open>\<open>r\<close> is the rank in the communicator of the log.\<close>

definition mlog_create :: "int \<Rightarrow> int \<Rightarrow> nat \<Rightarrow> (runtime, fenix_code) comp" where
  "mlog_create r i depth =
     andThen getS (\<lambda>rt.
     andThen (throwIf (\<not> rt_linked rt) FENIX_ERROR_MLOG_LIBRARY_UNAVAILABLE) (\<lambda>_.
     andThen (throwIf (search_mlog i rt \<noteq> None) FENIX_ERROR_MLOG_EXISTS) (\<lambda>_.
     andThen (modS (\<lambda>rt. rt\<lparr>rt_mlogs := kset_insert fst (i, new_comm_log r depth) (rt_mlogs rt),
       rt_mlog_order := rt_mlog_order rt @ [i]\<rparr>)) (\<lambda>_. ret FENIX_SUCCESS))))"

text \<open>No log is active until the new one has been found.\<close>

definition mlog_activate :: "int \<Rightarrow> (runtime, fenix_code) comp" where
  "mlog_activate i =
     andThen (modS (\<lambda>rt. rt\<lparr>rt_active := MLOG_NONE\<rparr>)) (\<lambda>_.
     if i \<noteq> MLOG_NONE then
       andThen (find_mlog i) (\<lambda>_.
       andThen (modS (\<lambda>rt. rt\<lparr>rt_active := i\<rparr>)) (\<lambda>_. ret FENIX_SUCCESS))
     else ret FENIX_SUCCESS)"

definition mlog_begin_region :: "int \<Rightarrow> int \<Rightarrow> (runtime, fenix_code) comp" where
  "mlog_begin_region i region = on_mlog i (comm_begin_region region)"

definition mlog_activate_region :: "bool \<Rightarrow> int \<Rightarrow> int \<Rightarrow> (runtime, fenix_code) comp" where
  "mlog_activate_region catch i region =
     andThen (throwIf (i = MLOG_NONE) FENIX_ERROR_INVALID_MLOGID) (\<lambda>_.
     andThen (code_api catch (mlog_activate i)) (\<lambda>c.
     if c = FENIX_SUCCESS then code_api catch (mlog_begin_region i region) else ret c))"

definition mlog_active :: "runtime \<Rightarrow> int" where
  "mlog_active rt = (if rt_final rt then MLOG_NONE else rt_active rt)"

text \<open>
  \<open>sync\<close> resets the log; what the ranks then exchange and replay is \<open>converge\<close>, told whether
  this rank starts the consistency task of the collectives.
\<close>

definition mlog_sync :: "(bool \<Rightarrow> comm_log \<Rightarrow> comm_log option) \<Rightarrow> int \<Rightarrow> int \<Rightarrow> (runtime, fenix_code) comp" where
  "mlog_sync converge i target =
     on_mlog i (\<lambda>c. do { (go, c) \<leftarrow> comm_reset target c; converge go c })"

definition mlog_delete :: "int \<Rightarrow> (runtime, fenix_code) comp" where
  "mlog_delete i =
     andThen (modS (\<lambda>rt. rt\<lparr>rt_active := (if rt_active rt = i then MLOG_NONE else rt_active rt),
       rt_mlogs := kset_erase fst i (rt_mlogs rt), rt_mlog_order := remove1 i (rt_mlog_order rt)\<rparr>)) (\<lambda>_.
     ret FENIX_SUCCESS)"

text \<open>The serializer of \<open>define_data_member\<close>: writing a log out, and replacing it by what is read.\<close>

definition mlog_save :: "mpi_records \<Rightarrow> int \<Rightarrow> (runtime, byte list) comp" where
  "mlog_save ty i = andThen (find_mlog i) (\<lambda>c. liftO (write_comm_log ty c))"

definition mlog_restore :: "mpi_records \<Rightarrow> int \<Rightarrow> int \<Rightarrow> byte list \<Rightarrow> (runtime, byte list) comp" where
  "mlog_restore ty r i bs =
     andThen (find_mlog i) (\<lambda>_.
     andThen (liftO (read_comm_log ty r bs)) (\<lambda>(c, bs').
     andThen (modS (put_mlog i c)) (\<lambda>_. ret bs')))"

text \<open>
  \<open>ScopedActiveMlog\<close>: another log, or none, for the time of a scope.  The codes that
  \<open>activate\<close> returns are not looked at; an exception of the destructor ends the process.
\<close>

definition leave_mlog :: "bool \<Rightarrow> int \<Rightarrow> failure + 'a \<Rightarrow> runtime \<Rightarrow> (failure + 'a) \<times> runtime" where
  "leave_mlog catch old r rt =
     (if rt_init rt then
        (case code_api catch (mlog_activate old) rt of
           (Inl _, rt') \<Rightarrow> (Inl Abort, rt') | (Inr _, rt') \<Rightarrow> (r, rt'))
      else (r, rt))"

definition scoped_mlog :: "bool \<Rightarrow> int \<Rightarrow> (runtime, 'a) comp \<Rightarrow> (runtime, 'a) comp" where
  "scoped_mlog catch i body =
     andThen getS (\<lambda>rt0.
     andThen (code_api catch (mlog_activate i)) (\<lambda>_ rt.
       (case body rt of (r, rt') \<Rightarrow> leave_mlog catch (mlog_active rt0) r rt')))"

section \<open>What the registry promises\<close>

interpretation mlogs: keyed_set "fst :: int \<times> comm_log \<Rightarrow> int" "kset_ok fst" "kset_find fst" "kset_insert fst" "kset_erase fst"
  by (rule kset_keyed)

definition mlogs_ok :: "runtime \<Rightarrow> bool" where
  "mlogs_ok rt \<longleftrightarrow> kset_ok fst (rt_mlogs rt) \<and> distinct (rt_mlog_order rt) \<and>
     set (rt_mlog_order rt) = fst ` set (rt_mlogs rt) \<and>
     (rt_active rt = MLOG_NONE \<or> rt_active rt \<in> set (rt_mlog_order rt))"

lemma search_mlog_None: "mlogs_ok rt \<Longrightarrow> search_mlog i rt = None \<longleftrightarrow> i \<notin> set (rt_mlog_order rt)"
  unfolding mlogs_ok_def search_mlog_def using mlogs.look_None [of "rt_mlogs rt" i] by simp

lemma search_mlog_active [simp]: "search_mlog i (rt\<lparr>rt_active := a\<rparr>) = search_mlog i rt"
  by (simp add: search_mlog_def)

lemma put_mlog_ok:
  assumes "mlogs_ok rt"
  shows "mlogs_ok (put_mlog i c rt)"
proof -
  have "fst ` set (kset_update fst (i, c) (rt_mlogs rt)) = fst ` set (rt_mlogs rt)"
    using arg_cong [OF kset_update_keys [of fst "(i, c)" "rt_mlogs rt"], of set] by simp
  then show ?thesis using assms by (auto simp: mlogs_ok_def put_mlog_def kset_update_ok)
qed

lemma find_mlog_keeps [keep]: "keeps mlogs_ok (find_mlog i)"
  by (simp add: keeps_def find_mlog_def split: option.split)

lemma mlog_create_keeps: "keeps mlogs_ok (mlog_create r i depth)"
proof (unfold keeps_def, intro allI impI)
  fix rt assume ok: "mlogs_ok rt"
  then have ks: "kset_ok fst (rt_mlogs rt)" by (simp add: mlogs_ok_def)
  show "mlogs_ok (snd (mlog_create r i depth rt))"
    using ok mlogs.ok_add [OF ks, of "(i, new_comm_log r depth)"] mlogs.keys_add [OF ks, of "(i, new_comm_log r depth)"]
      search_mlog_None [OF ok, of i]
    by (auto simp: mlog_create_def comp mlogs_ok_def)
qed

lemma mlog_activate_cases:
  "mlog_activate i rt = (if i = MLOG_NONE then (Inr FENIX_SUCCESS, rt\<lparr>rt_active := MLOG_NONE\<rparr>)
     else if search_mlog i rt = None then (Inl (Throw FENIX_ERROR_INVALID_MLOGID), rt\<lparr>rt_active := MLOG_NONE\<rparr>)
     else (Inr FENIX_SUCCESS, rt\<lparr>rt_active := i\<rparr>))"
  by (simp add: mlog_activate_def find_mlog_def comp split: option.split)

lemma mlog_activate_keeps: "keeps mlogs_ok (mlog_activate i)"
proof (unfold keeps_def, intro allI impI)
  fix rt assume ok: "mlogs_ok rt"
  have "i \<in> set (rt_mlog_order rt)" if "search_mlog i rt \<noteq> None" using that search_mlog_None [OF ok, of i] by simp
  then show "mlogs_ok (snd (mlog_activate i rt))"
    using ok by (auto simp: mlog_activate_cases mlogs_ok_def)
qed

lemma on_mlog_keeps: "keeps mlogs_ok (on_mlog i f)"
  unfolding on_mlog_def by (intro keep keeps_modS put_mlog_ok)

lemma mlog_delete_keeps: "keeps mlogs_ok (mlog_delete i)"
proof (unfold keeps_def, intro allI impI)
  fix rt assume ok: "mlogs_ok rt"
  then have ks: "kset_ok fst (rt_mlogs rt)" by (simp add: mlogs_ok_def)
  show "mlogs_ok (snd (mlog_delete i rt))"
    using ok mlogs.ok_rem [OF ks, of i] mlogs.keys_rem [OF ks, of i]
    by (auto simp: mlog_delete_def comp mlogs_ok_def)
qed

section \<open>Checkpointing a log\<close>

text \<open>
  A log that is saved and restored comes back without its collectives.
\<close>

definition saved_log :: "comm_log \<Rightarrow> comm_log" where
  "saved_log c = (new_comm_log (cl_rank c) (cl_max c))\<lparr>cl_active := cl_active c, cl_regions := cl_regions c,
     cl_ranks := filter (\<lambda>l. lr_valid (cur_region l)) (cl_ranks c)\<rparr>"

lemma mlog_save_restore:
  assumes i: "search_mlog i rt = Some c" and f: "comm_log_fits ty c" and ty: "types_ok ty"
  shows "\<exists>bs. mlog_save ty i rt = (Inr bs, rt) \<and>
    (\<forall>rest rt'. search_mlog i rt' \<noteq> None \<longrightarrow>
      mlog_restore ty (cl_rank c) i (bs @ rest) rt' = (Inr rest, put_mlog i (saved_log c) rt'))"
proof -
  obtain b where b: "write_comm_log ty c = Some b"
    "\<forall>rest. read_comm_log ty (cl_rank c) (b @ rest) = Some (saved_log c, rest)"
    using comm_log_roundtrip [OF ty f] unfolding saved_log_def by blast
  then show ?thesis
    using i by (intro exI [of _ b]) (auto simp: mlog_save_def mlog_restore_def find_mlog_def comp split: option.split)
qed

section \<open>Scopes without logging\<close>

text \<open>
  What a data operation sees in its scope, and what it leaves: the log that was active is
  active again, whether the operation succeeds or fails.
\<close>

lemma put_same_setting [simp]: "put_setting n (setting_of n s) s = s"
  by (simp add: put_setting_def setting_of_def)

lemma code_api_activate:
  assumes rt: "rt_init rt" "settings_ok (rt_settings rt)" and i: "i = MLOG_NONE \<or> search_mlog i rt \<noteq> None"
  shows "code_api catch (mlog_activate i) rt = (Inr FENIX_SUCCESS, rt\<lparr>rt_active := i\<rparr>)"
proof -
  let ?rt = "rt\<lparr>rt_settings := internal_settings (rt_settings rt)\<rparr>"
  have s: "search_mlog i ?rt = search_mlog i rt" by (simp add: search_mlog_def)
  have "mlog_activate i ?rt = (Inr FENIX_SUCCESS, ?rt\<lparr>rt_active := i\<rparr>)" using i s by (auto simp: mlog_activate_cases)
  from api_run [of rt "mlog_activate i", OF rt this] show ?thesis
    using rt(1) by (simp add: api_comp_def Let_def api_result_def restore_internal)
qed

lemma scoped_mlog_run:
  assumes rt: "rt_init rt" "\<not> rt_final rt" "settings_ok (rt_settings rt)" "mlogs_ok rt"
    and b: "body (rt\<lparr>rt_active := MLOG_NONE\<rparr>) = (r, rt')" "rt_init rt'" "settings_ok (rt_settings rt')"
      "rt_mlogs rt' = rt_mlogs rt"
  shows "scoped_mlog catch MLOG_NONE body rt = (r, rt'\<lparr>rt_active := rt_active rt\<rparr>)"
proof -
  have s: "search_mlog (rt_active rt) rt' = search_mlog (rt_active rt) rt" using b(4) by (simp add: search_mlog_def)
  have "rt_active rt = MLOG_NONE \<or> search_mlog (rt_active rt) rt' \<noteq> None"
    unfolding s using rt(4) search_mlog_None [OF rt(4)] by (auto simp: mlogs_ok_def)
  from code_api_activate [OF b(2,3) this] show ?thesis
    using code_api_activate [OF rt(1,3), of MLOG_NONE] rt(2) b(1,2)
    by (simp add: scoped_mlog_def leave_mlog_def comp mlog_active_def)
qed

end
