(* ===== verification/Data_Api.thy ===== *)
theory Data_Api
  imports Mlog
begin

text \<open>
  The interface of data recovery (src/data/recovery.cpp) on the runtime: every function's body,
  between \<open>FENIX_CPP_API_BEGIN\<close> and \<open>FENIX_CPP_API_END\<close> (\<open>api\<close>).  The groups have the default
  operations of \<open>DataGroup\<close> and \<open>DataMember\<close>.  The functions that only print
  "unimplemented" are left out.
\<close>

section \<open>The environment\<close>

text \<open>
  What the bodies take from outside: new memory, the encoding of datatypes, the collectives of
  a group and of a member's exchange, the agreement on \<open>user_world\<close> (the location and whether
  the call succeeded) and the error handler, and whether exceptions become return codes.
\<close>

record env =
  ev_fresh :: "nat \<Rightarrow> byte list"
  ev_put :: "mpi_type \<Rightarrow> byte list"
  ev_get :: "byte list \<Rightarrow> failure + mpi_type"
  ev_group :: "int \<Rightarrow> group_coll"
  ev_subsets :: "int \<Rightarrow> int \<Rightarrow> collectives"
  ev_agree :: "int \<Rightarrow> failure + (int \<times> bool)"
  ev_handler :: "(runtime, unit) comp"
  ev_catch :: bool

definition data_do :: "(component, 'a) comp \<Rightarrow> (runtime, 'a) comp" where
  "data_do = zoom rt_data (\<lambda>cp rt. rt\<lparr>rt_data := cp\<rparr>)"

definition done_by :: "(runtime, 'a) comp \<Rightarrow> (runtime, fenix_code) comp" where
  "done_by c = andThen c (\<lambda>_. ret FENIX_SUCCESS)"

definition unlogged :: "env \<Rightarrow> (runtime, 'a) comp \<Rightarrow> (runtime, 'a) comp" where
  "unlogged ev = scoped_mlog (ev_catch ev) MLOG_NONE"

section \<open>Groups and members\<close>

definition data_group_create :: "env \<Rightarrow> int \<Rightarrow> comm \<Rightarrow> int \<Rightarrow> int \<Rightarrow> int \<Rightarrow> int list option \<Rightarrow> (runtime, fenix_code) comp" where
  "data_group_create ev gid c timestart depth name vals =
     unlogged ev (
       andThen (throwIf (timestart < 0) FENIX_ERROR_INVALID_TIMESTART) (\<lambda>_.
       andThen (throwIf (depth < -1) FENIX_ERROR_INVALID_DEPTH) (\<lambda>_.
       done_by (data_do (component_group_create (ev_fresh ev) (ev_group ev gid) gid c timestart depth name vals)))))"

definition data_group_created :: "int \<Rightarrow> (runtime, bool) comp" where
  "data_group_created gid = andThen getS (\<lambda>rt. ret (search_group gid (rt_data rt) \<noteq> None))"

definition data_member_create :: "env \<Rightarrow> int \<Rightarrow> int \<Rightarrow> ptr \<Rightarrow> int \<Rightarrow> mpi_type \<Rightarrow> (runtime, fenix_code) comp" where
  "data_member_create ev gid mid p count dt =
     done_by (data_do (in_group gid (group_member_create (ev_fresh ev) mid p count dt)))"

text \<open>\<open>member_define\<close> creates the member or changes its attributes one after the other.\<close>

definition data_member_define :: "env \<Rightarrow> int \<Rightarrow> int \<Rightarrow> ptr \<Rightarrow> int \<Rightarrow> mpi_type \<Rightarrow> (runtime, fenix_code) comp" where
  "data_member_define ev gid mid p count dt =
     andThen getS (\<lambda>rt.
     andThen (liftE (find_group gid (rt_data rt))) (\<lambda>g.
     if search_member mid g = None then code_api (ev_catch ev) (data_member_create ev gid mid p count dt)
     else done_by (data_do (in_member gid mid (
       andThen (attr_set (BufferAttr p)) (\<lambda>_.
       andThen (attr_set (CountAttr count)) (\<lambda>_.
       andThen (attr_set (TypeAttr dt)) (\<lambda>_.
       modS (\<lambda>m. m\<lparr>mb_ser := None\<rparr>)))))))))"

text \<open>With a serializer function, which is given by its number.\<close>

definition data_member_create_fun :: "env \<Rightarrow> int \<Rightarrow> int \<Rightarrow> ptr \<Rightarrow> int \<Rightarrow> mpi_type \<Rightarrow> nat \<Rightarrow> (runtime, fenix_code) comp" where
  "data_member_create_fun ev gid mid p count dt k =
     done_by (data_do (in_group gid (group_member_create_fun (ev_fresh ev) mid p count dt k)))"

definition set_function :: "int \<Rightarrow> int \<Rightarrow> nat \<Rightarrow> (runtime, unit) comp" where
  "set_function gid mid k = data_do (in_member gid mid (modS (\<lambda>m. m\<lparr>mb_ser := Some k\<rparr>)))"

definition data_member_define_fun :: "env \<Rightarrow> int \<Rightarrow> int \<Rightarrow> ptr \<Rightarrow> int \<Rightarrow> mpi_type \<Rightarrow> nat \<Rightarrow> (runtime, fenix_code) comp" where
  "data_member_define_fun ev gid mid p count dt k =
     andThen (code_api (ev_catch ev) (data_member_define ev gid mid p count dt)) (\<lambda>c.
     andThen (if c = FENIX_SUCCESS then set_function gid mid k else ret ()) (\<lambda>_. ret c))"

definition data_member_attr_set :: "int \<Rightarrow> int \<Rightarrow> attr_value \<Rightarrow> (runtime, fenix_code) comp" where
  "data_member_attr_set gid mid v = done_by (data_do (in_member gid mid (attr_set v)))"

definition data_member_attr_get :: "int \<Rightarrow> int \<Rightarrow> int \<Rightarrow> (runtime, attr_value) comp" where
  "data_member_attr_get gid mid a =
     data_do (in_member gid mid (andThen getS (\<lambda>m. liftE (attr_get a m))))"

definition data_member_created :: "int \<Rightarrow> int \<Rightarrow> (runtime, bool) comp" where
  "data_member_created gid mid =
     andThen getS (\<lambda>rt. ret (component_search_member gid mid (rt_data rt) \<noteq> None))"

definition data_member_delete :: "int \<Rightarrow> int \<Rightarrow> (runtime, fenix_code) comp" where
  "data_member_delete gid mid = done_by (data_do (in_group gid (group_member_delete mid)))"

definition data_group_delete :: "int \<Rightarrow> (runtime, fenix_code) comp" where
  "data_group_delete gid = done_by (data_do (remove_group gid))"

definition group_members :: "int \<Rightarrow> runtime \<Rightarrow> int list option" where
  "group_members gid rt = map_option get_member_ids (search_group gid (rt_data rt))"

definition group_snapshots :: "int \<Rightarrow> runtime \<Rightarrow> int list option" where
  "group_snapshots gid rt = map_option get_snapshots (search_group gid (rt_data rt))"

text \<open>Queries of a group.\<close>

definition ask_group :: "int \<Rightarrow> (group \<Rightarrow> failure + 'a) \<Rightarrow> (runtime, 'a) comp" where
  "ask_group gid f = data_do (in_group gid (andThen getS (\<lambda>g. liftE (f g))))"

definition data_number_of_snapshots :: "int \<Rightarrow> (runtime, nat) comp" where
  "data_number_of_snapshots gid = ask_group gid (\<lambda>g. Inr (get_number_of_snapshots g))"

definition data_snapshot_at_position :: "int \<Rightarrow> int \<Rightarrow> (runtime, int) comp" where
  "data_snapshot_at_position gid pos = ask_group gid (get_snapshot_at_position pos)"

definition data_number_of_members :: "int \<Rightarrow> (runtime, nat) comp" where
  "data_number_of_members gid = ask_group gid (\<lambda>g. Inr (length (gr_members g)))"

definition data_member_at_position :: "int \<Rightarrow> int \<Rightarrow> (runtime, int) comp" where
  "data_member_at_position gid pos = ask_group gid (\<lambda>g.
     if pos < 0 \<or> length (gr_members g) \<le> size_of_int pos then Inl (Throw FENIX_ERROR_INVALID_POSITION)
     else Inr (mb_id (gr_members g ! nat pos)))"

section \<open>Staging and storing\<close>

definition data_member_stage :: "env \<Rightarrow> int \<Rightarrow> int \<Rightarrow> data_subset \<Rightarrow> (runtime, fenix_code) comp" where
  "data_member_stage ev gid mid d =
     andThen getS (\<lambda>rt. done_by (data_do (in_member gid mid (member_stage (ev_fresh ev) (rt_heap rt) d))))"

definition data_stage_inplace :: "env \<Rightarrow> int \<Rightarrow> int \<Rightarrow> ptr \<Rightarrow> data_subset \<Rightarrow> (runtime, fenix_code) comp" where
  "data_stage_inplace ev gid mid p d =
     andThen getS (\<lambda>rt. done_by (data_do (in_member gid mid (stage_inplace (ev_fresh ev) (rt_heap rt) p d))))"

definition data_stage_begin :: "env \<Rightarrow> int \<Rightarrow> int \<Rightarrow> (runtime, fenix_code) comp" where
  "data_stage_begin ev gid mid = done_by (data_do (in_member gid mid (stage_begin (ev_fresh ev))))"

definition data_stage_end :: "env \<Rightarrow> int \<Rightarrow> int \<Rightarrow> (runtime, fenix_code) comp" where
  "data_stage_end ev gid mid = done_by (data_do (in_member gid mid (stage_end (ev_fresh ev))))"

definition MEMBER_ALL :: int where
  "MEMBER_ALL = -1"

fun store_each :: "(int \<Rightarrow> (member, fenix_code) comp) \<Rightarrow> int list \<Rightarrow> (group, fenix_code) comp" where
  "store_each op [] = ret FENIX_SUCCESS"
| "store_each op (k # ks) =
     andThen (on_member k (op k)) (\<lambda>c. if c \<noteq> FENIX_SUCCESS then ret c else store_each op ks)"

text \<open>One member, or with \<open>FENIX_DATA_MEMBER_ALL\<close> every member in the order of the ids.\<close>

definition store_into :: "(int \<Rightarrow> (member, fenix_code) comp) \<Rightarrow> int \<Rightarrow> (group, fenix_code) comp" where
  "store_into op mid =
     (if mid = MEMBER_ALL then andThen getS (\<lambda>g. store_each op (map mb_id (gr_members g)))
      else with_member mid (op mid))"

definition data_member_store :: "env \<Rightarrow> int \<Rightarrow> int \<Rightarrow> data_subset \<Rightarrow> (runtime, fenix_code) comp" where
  "data_member_store ev gid mid d =
     unlogged ev (andThen getS (\<lambda>rt.
       data_do (in_group gid (store_into (\<lambda>_. member_store (ev_fresh ev) (rt_heap rt) d) mid))))"

definition storev_op :: "env \<Rightarrow> int \<Rightarrow> comm \<Rightarrow> heap \<Rightarrow> data_subset \<Rightarrow> int \<Rightarrow> (member, fenix_code) comp" where
  "storev_op ev gid c h d mid = member_storev (ev_fresh ev) (ev_subsets ev gid mid) c h d"

definition data_member_storev :: "env \<Rightarrow> int \<Rightarrow> int \<Rightarrow> data_subset \<Rightarrow> (runtime, fenix_code) comp" where
  "data_member_storev ev gid mid d =
     unlogged ev (andThen getS (\<lambda>rt.
       data_do (in_group gid (andThen getS (\<lambda>g. andThen (liftO (gr_cohort g)) (\<lambda>c.
         store_into (storev_op ev gid c (rt_heap rt) d) mid))))))"

section \<open>Committing\<close>

definition next_stamp :: "group \<Rightarrow> int" where
  "next_stamp g = (if gr_timestamp g = -1 then gr_timestart g else i32 (gr_timestamp g + 1))"

definition advance :: "(group, int) comp" where
  "advance = andThen getS (\<lambda>g. andThen (modS (\<lambda>g. g\<lparr>gr_timestamp := next_stamp g\<rparr>)) (\<lambda>_. ret (next_stamp g)))"

text \<open>The timestamp is advanced and reported before the group commits.\<close>

definition advance_commit :: "env \<Rightarrow> int \<Rightarrow> (runtime, unit) comp" where
  "advance_commit ev gid =
     andThen (data_do (in_group gid advance)) (\<lambda>t.
     andThen (modS (\<lambda>rt. rt\<lparr>rt_stamp := t\<rparr>)) (\<lambda>_.
     data_do (in_group gid (group_commit (ev_fresh ev)))))"

definition data_commit :: "env \<Rightarrow> int \<Rightarrow> (runtime, fenix_code) comp" where
  "data_commit ev gid = done_by (advance_commit ev gid)"

text \<open>\<open>FENIX_DATA_COMMIT_BARRIER_LOC\<close>\<close>

definition BARRIER_LOC :: int where
  "BARRIER_LOC = 4"

definition data_commit_barrier :: "env \<Rightarrow> int \<Rightarrow> (runtime, fenix_code) comp" where
  "data_commit_barrier ev gid =
     unlogged ev (
       andThen getS (\<lambda>rt.
       andThen (liftE (find_group gid (rt_data rt))) (\<lambda>_.
       andThen (liftE (ev_agree ev BARRIER_LOC)) (\<lambda>(loc, ok).
       (let can_commit = (loc = BARRIER_LOC); must_recover = (\<not> can_commit \<or> \<not> ok) in
       andThen (if can_commit then done_by (advance_commit ev gid) else ret FENIX_ERROR_COMMIT_BARRIER) (\<lambda>c.
       andThen (if must_recover then ev_handler ev else ret ()) (\<lambda>_. ret c)))))))"

text \<open>
  \<open>checkpoint\<close>: every member is stored and the group committed; with inline recovery an
  attempt that a failure interrupts is repeated.  \<open>tries\<close> are the environments of the
  attempts; \<open>None\<close>: still trying after all of them.
\<close>

definition checkpoint_store :: "env \<Rightarrow> int \<Rightarrow> data_subset \<Rightarrow> int list \<Rightarrow> int \<Rightarrow> (runtime, unit) comp" where
  "checkpoint_store ev gid d storev_ids mid =
     andThen getS (\<lambda>rt.
     andThen (data_do (in_group gid (
       if mid \<in> set storev_ids then andThen getS (\<lambda>g. andThen (liftO (gr_cohort g)) (\<lambda>c.
         with_member mid (storev_op ev gid c (rt_heap rt) d mid)))
       else with_member mid (member_store (ev_fresh ev) (rt_heap rt) d)))) (\<lambda>c.
     if c = FENIX_SUCCESS then ret () else
       andThen (assertS (c \<noteq> FENIX_ERROR_CANCELLED)) (\<lambda>_. fail (Throw c))))"

definition checkpoint_try :: "env \<Rightarrow> int \<Rightarrow> data_subset \<Rightarrow> int list \<Rightarrow> (runtime, unit) comp" where
  "checkpoint_try ev gid d storev_ids =
     andThen getS (\<lambda>rt.
     andThen (liftE (find_group gid (rt_data rt))) (\<lambda>g.
     andThen (forEach (gr_order g) (checkpoint_store ev gid d storev_ids)) (\<lambda>_.
     advance_commit ev gid)))"

definition stamp_of :: "int \<Rightarrow> runtime \<Rightarrow> int" where
  "stamp_of gid rt = (case search_group gid (rt_data rt) of None \<Rightarrow> -1 | Some g \<Rightarrow> gr_timestamp g)"

fun checkpoint_loop :: "bool \<Rightarrow> int \<Rightarrow> int \<Rightarrow> (runtime, unit) comp list \<Rightarrow> runtime \<Rightarrow> ((failure + unit) \<times> runtime) option" where
  "checkpoint_loop inline gid old tries rt =
     (if stamp_of gid rt \<noteq> old then Some (Inr (), rt)
      else (case tries of
          [] \<Rightarrow> None
        | t # ts \<Rightarrow> (case t rt of
              (Inl Comm, rt') \<Rightarrow> if inline then checkpoint_loop inline gid old ts rt' else Some (Inl Comm, rt')
            | (Inl e, rt') \<Rightarrow> Some (Inl e, rt')
            | (Inr _, rt') \<Rightarrow> checkpoint_loop inline gid old ts rt')))"

declare checkpoint_loop.simps [simp del]

definition inline_recovery :: "runtime \<Rightarrow> bool" where
  "inline_recovery rt \<longleftrightarrow> mlog_active rt \<noteq> MLOG_NONE \<and> se_mlog_recovery (rt_settings rt) \<noteq> MANUAL \<and>
     se_recovery (rt_settings rt) \<noteq> IGNORE"

definition checkpoint_body :: "bool \<Rightarrow> env list \<Rightarrow> int \<Rightarrow> data_subset \<Rightarrow> int list \<Rightarrow> runtime \<Rightarrow> ((failure + fenix_code) \<times> runtime) option" where
  "checkpoint_body inline tries gid d storev_ids rt =
     (case find_group gid (rt_data rt) of
        Inl e \<Rightarrow> Some (Inl e, rt)
      | Inr g \<Rightarrow> (case checkpoint_loop inline gid (gr_timestamp g) (map (\<lambda>ev. checkpoint_try ev gid d storev_ids) tries) rt of
            None \<Rightarrow> None
          | Some (Inl e, rt') \<Rightarrow> Some (Inl e, rt')
          | Some (Inr _, rt') \<Rightarrow> Some (Inr FENIX_SUCCESS, rt'\<lparr>rt_stamp := stamp_of gid rt'\<rparr>)))"

definition data_checkpoint :: "bool \<Rightarrow> env list \<Rightarrow> int \<Rightarrow> data_subset \<Rightarrow> int list \<Rightarrow> runtime \<Rightarrow> ((failure + fenix_code) \<times> runtime) option" where
  "data_checkpoint catch tries gid d storev_ids rt =
     (case code_api catch (mlog_activate MLOG_NONE) rt of
        (Inl e, rt') \<Rightarrow> Some (Inl e, rt')
      | (Inr _, rt') \<Rightarrow> (case checkpoint_body (inline_recovery rt) tries gid d storev_ids rt' of
            None \<Rightarrow> None
          | Some (r, rt'') \<Rightarrow> Some (leave_mlog catch (mlog_active rt) r rt'')))"

definition data_checkpointv :: "bool \<Rightarrow> env list \<Rightarrow> int \<Rightarrow> data_subset \<Rightarrow> runtime \<Rightarrow> ((failure + fenix_code) \<times> runtime) option" where
  "data_checkpointv catch tries gid d rt =
     (case find_group gid (rt_data rt) of
        Inl e \<Rightarrow> Some (Inl e, rt)
      | Inr g \<Rightarrow> data_checkpoint catch tries gid d (gr_order g) rt)"

section \<open>Loading\<close>

text \<open>\<open>load\<close> changes user memory and the caller's \<open>data_found\<close>, whether it throws or not.\<close>

definition load_member :: "int \<Rightarrow> int \<Rightarrow> ptr \<Rightarrow> int \<Rightarrow> int \<Rightarrow> (runtime, unit) comp" where
  "load_member gid mid target count ts rt =
     (case find_group gid (rt_data rt) of
        Inl e \<Rightarrow> (Inl e, rt)
      | Inr g \<Rightarrow> (case find_member mid g of
            Inl e \<Rightarrow> (Inl e, rt)
          | Inr m \<Rightarrow> (case member_load m target count ts \<lparr>ls_heap = rt_heap rt, ls_found = rt_found rt\<rparr> of
                (r, l) \<Rightarrow> (r, rt\<lparr>rt_heap := ls_heap l, rt_found := ls_found l\<rparr>))))"

definition data_member_load :: "int \<Rightarrow> int \<Rightarrow> ptr \<Rightarrow> int \<Rightarrow> int \<Rightarrow> (runtime, fenix_code) comp" where
  "data_member_load gid mid target count ts = done_by (load_member gid mid target count ts)"

definition data_load_begin :: "int \<Rightarrow> int \<Rightarrow> int \<Rightarrow> (runtime, fenix_code) comp" where
  "data_load_begin gid mid ts =
     andThen (data_do (in_member gid mid (load_begin ts))) (\<lambda>found.
     done_by (modS (\<lambda>rt. rt\<lparr>rt_found := found\<rparr>)))"

definition data_load_end :: "int \<Rightarrow> int \<Rightarrow> (runtime, fenix_code) comp" where
  "data_load_end gid mid = done_by (data_do (in_member gid mid load_end))"

definition data_member_repair :: "env \<Rightarrow> int \<Rightarrow> int \<Rightarrow> (runtime, fenix_code) comp" where
  "data_member_repair ev gid mid =
     done_by (data_do (in_group gid (group_member_repair (ev_fresh ev) (ev_put ev) (ev_get ev) (ev_group ev gid) mid)))"

text \<open>\<open>member_restore\<close> repairs the member; one that the repair created loads to the caller's buffer.\<close>

definition data_member_restore :: "env \<Rightarrow> int \<Rightarrow> int \<Rightarrow> ptr \<Rightarrow> int \<Rightarrow> int \<Rightarrow> (runtime, fenix_code) comp" where
  "data_member_restore ev gid mid target count ts =
     andThen getS (\<lambda>rt.
     andThen (liftE (find_group gid (rt_data rt))) (\<lambda>g.
     andThen (data_do (in_group gid (group_member_repair (ev_fresh ev) (ev_put ev) (ev_get ev) (ev_group ev gid) mid))) (\<lambda>_.
     andThen (if search_member mid g = None then
         data_do (in_member gid mid (if target \<noteq> Null then attr_set (BufferAttr target) else ret ()))
       else ret ()) (\<lambda>_.
     done_by (load_member gid mid target count ts)))))"

definition data_snapshot_delete :: "env \<Rightarrow> int \<Rightarrow> int \<Rightarrow> (runtime, fenix_code) comp" where
  "data_snapshot_delete ev gid ts =
     andThen (throwIf (ts < 0) FENIX_ERROR_INVALID_TIMESTAMP) (\<lambda>_.
     done_by (data_do (in_group gid (group_snapshot_delete (ev_fresh ev) ts))))"

end
