(* ===== verification/Data_Facts.thy ===== *)
theory Data_Facts
  imports Data_Api
begin

text \<open>
  What the data interface does to the registry and to a group (src/data/recovery.cpp): how the
  bodies reach the group they are about, the timestamps that commits get, the commit barrier,
  and the calls that are refused.
\<close>

section \<open>Reaching a group\<close>

lemma data_do_run: "data_do c rt = (case c (rt_data rt) of (r, cp) \<Rightarrow> (r, rt\<lparr>rt_data := cp\<rparr>))"
  by (simp add: data_do_def zoom_run)

lemma in_group_run:
  "search_group gid (rt_data rt) = Some g \<Longrightarrow> c g = (r, g') \<Longrightarrow>
     data_do (in_group gid c) rt = (r, rt\<lparr>rt_data := put_group g' (rt_data rt)\<rparr>)"
  by (simp add: data_do_run in_group_def find_group_def)

lemma in_group_missing:
  "search_group gid (rt_data rt) = None \<Longrightarrow>
     data_do (in_group gid c) rt = (Inl (Throw FENIX_ERROR_INVALID_GROUPID), rt)"
  by (simp add: data_do_run in_group_def find_group_def)

lemma search_group_id: "component_ok cp \<Longrightarrow> search_group gid cp = Some g \<Longrightarrow> gr_id g = gid"
  unfolding search_group_def component_ok_def by (simp add: gids.look_iff)

lemma put_put [simp]: "gr_id a = gr_id b \<Longrightarrow> put_group a (put_group b cp) = put_group a cp"
  by (simp add: put_group_def kset_update_def)

section \<open>Commits\<close>

text \<open>Both ways of committing run the group's commit at the next timestamp.\<close>

lemma group_commit_id: "group_commit fresh g = (r, g') \<Longrightarrow> gr_id g' = gr_id g"
  by (auto simp: group_commit_def comp liftO_def group_do_def commit_all_def
      split: sum.splits prod.splits option.splits if_splits Option.bind_splits)

lemma advance_commit_run:
  assumes ok: "component_ok (rt_data rt)" and g: "search_group gid (rt_data rt) = Some g"
    and run: "group_commit (ev_fresh ev) (commit_at (next_stamp g) g) = (r, g')"
  shows "advance_commit ev gid rt = (r, rt\<lparr>rt_stamp := next_stamp g, rt_data := put_group g' (rt_data rt)\<rparr>)"
proof -
  have id: "gr_id g = gid" "gr_id g' = gid"
    using search_group_id [OF ok g] group_commit_id [OF run] by (simp_all add: commit_at_def)
  let ?g = "commit_at (next_stamp g) g"
  have adv: "advance g = (Inr (next_stamp g), ?g)" by (simp add: advance_def comp commit_at_def)
  have s: "search_group gid (rt_data (rt\<lparr>rt_data := put_group ?g (rt_data rt), rt_stamp := next_stamp g\<rparr>)) = Some ?g"
    using g id(1) by (simp add: search_put commit_at_def)
  show ?thesis
    using in_group_run [of gid rt g advance, OF g adv] in_group_run [of gid _ ?g "group_commit (ev_fresh ev)", OF s run] id
    by (simp add: advance_commit_def comp commit_at_def)
qed

text \<open>
  With everything stored, a commit keeps the newest \<open>depth + 1\<close> timestamps; the first one is
  \<open>timestart\<close> and each later one the next number.
\<close>

lemma next_stamp_newer:
  assumes "group_ok g" "0 \<le> gr_timestart g" "gr_timestamp g < INT32_MAX"
  shows "next_stamp g = (if gr_timestamp g = -1 then gr_timestart g else gr_timestamp g + 1)"
    "gr_timestamp g < next_stamp g"
proof -
  have "- 1 \<le> gr_timestamp g" using assms(1) by (simp add: group_ok_def)
  then have "i32 (gr_timestamp g + 1) = gr_timestamp g + 1"
    using assms(3) by (intro i32_exact) (simp_all add: INT32_MAX_def)
  then show "next_stamp g = (if gr_timestamp g = -1 then gr_timestart g else gr_timestamp g + 1)"
    by (simp add: next_stamp_def)
  then show "gr_timestamp g < next_stamp g" using assms(2) by simp
qed

lemma data_commit_ok:
  assumes mal: "malloc_ok (ev_fresh ev)" and ok: "component_ok (rt_data rt)"
    and g: "search_group gid (rt_data rt) = Some g" "group_ok g" "gr_cohort g = Some c"
    and t: "0 \<le> gr_timestart g" "gr_timestamp g < INT32_MAX" and st: "\<forall>m \<in> set (gr_members g). unstored m = {}"
  shows "\<exists>g'. data_commit ev gid rt
      = (Inr FENIX_SUCCESS, rt\<lparr>rt_stamp := next_stamp g, rt_data := put_group g' (rt_data rt)\<rparr>) \<and>
    group_ok g' \<and> gr_timestamp g' = next_stamp g \<and>
    gr_timestamps g' = next_stamp g # take (nat (gr_depth g)) (gr_timestamps g) \<and>
    list_all2 (committed c (next_stamp g)) (gr_members g) (gr_members g')"
proof -
  obtain ms where ms: "group_commit (ev_fresh ev) (commit_at (next_stamp g) g) = (Inr (), (commit_at (next_stamp g) g)
      \<lparr>gr_timestamps := next_stamp g # take (nat (gr_depth g)) (gr_timestamps g), gr_members := ms\<rparr>)"
    "list_all2 (committed c (next_stamp g)) (gr_members g) ms"
    "group_ok ((commit_at (next_stamp g) g)
      \<lparr>gr_timestamps := next_stamp g # take (nat (gr_depth g)) (gr_timestamps g), gr_members := ms\<rparr>)"
    using group_commit_ok [OF mal g(2,3) next_stamp_newer(2) [OF g(2) t] st] by blast
  show ?thesis
    using ms advance_commit_run [OF ok g(1) ms(1)]
    by (intro exI [of _ "(commit_at (next_stamp g) g)
      \<lparr>gr_timestamps := next_stamp g # take (nat (gr_depth g)) (gr_timestamps g), gr_members := ms\<rparr>"])
      (simp add: data_commit_def done_by_def comp, simp add: commit_at_def)
qed

text \<open>A member with staged data that is not stored: the commit throws, but the timestamp has moved on.\<close>

lemma data_commit_unstored:
  assumes ok: "component_ok (rt_data rt)" and g: "search_group gid (rt_data rt) = Some g"
    and un: "\<forall>m \<in> set (gr_members g). some_member m" "\<exists>m \<in> set (gr_members g). unstored m \<noteq> {}"
  shows "data_commit ev gid rt = (Inl (Throw FENIX_ERROR_MEMBER_UNSTORED),
    rt\<lparr>rt_stamp := next_stamp g, rt_data := put_group (commit_at (next_stamp g) g) (rt_data rt)\<rparr>)"
proof -
  have "group_commit (ev_fresh ev) (commit_at (next_stamp g) g)
      = (Inl (Throw FENIX_ERROR_MEMBER_UNSTORED), commit_at (next_stamp g) g)"
    using un by (intro group_commit_unstored) (simp_all add: commit_at_def)
  from advance_commit_run [OF ok g this] show ?thesis by (simp add: data_commit_def done_by_def comp)
qed

text \<open>
  A depth of -1, which \<open>group_create\<close> accepts: the first commit removes the oldest timestamp
  of an empty set.
\<close>

lemma depth_minus_one:
  assumes ok: "component_ok (rt_data rt)" and g: "search_group gid (rt_data rt) = Some g"
    and d: "gr_depth g = -1" "gr_timestamps g = []" "gr_members g = []"
  shows "fst (data_commit ev gid rt) = Inl Abort"
proof -
  have "make_room (- 1) [] = None" by (simp add: make_room_def i32_def size_of_int_def fenix_assert_def)
  then have "fst (group_commit (ev_fresh ev) (commit_at (next_stamp g) g)) = Inl Abort"
    using d by (cases "gr_cohort g") (simp_all add: group_commit_def comp group_do_def commit_all_def commit_at_def)
  then obtain g' where "group_commit (ev_fresh ev) (commit_at (next_stamp g) g) = (Inl Abort, g')"
    by (metis prod.collapse)
  from advance_commit_run [OF ok g this] show ?thesis by (simp add: data_commit_def done_by_def comp)
qed

section \<open>The commit barrier\<close>

text \<open>
  When the ranks agree that nobody is in the error handler, the barrier commits as \<open>commit\<close>
  does, even if the agreement reports a failure, which is then handled; otherwise nothing is
  committed and the failure is handled.
\<close>

definition barrier_body :: "env \<Rightarrow> int \<Rightarrow> (runtime, fenix_code) comp" where
  "barrier_body ev gid =
     andThen getS (\<lambda>rt.
     andThen (liftE (find_group gid (rt_data rt))) (\<lambda>_.
     andThen (liftE (ev_agree ev BARRIER_LOC)) (\<lambda>(loc, ok).
     (let can_commit = (loc = BARRIER_LOC); must_recover = (\<not> can_commit \<or> \<not> ok) in
     andThen (if can_commit then done_by (advance_commit ev gid) else ret FENIX_ERROR_COMMIT_BARRIER) (\<lambda>c.
     andThen (if must_recover then ev_handler ev else ret ()) (\<lambda>_. ret c))))))"

lemma data_commit_barrier_eq: "data_commit_barrier ev gid = unlogged ev (barrier_body ev gid)"
  by (simp add: data_commit_barrier_def barrier_body_def)

lemma barrier_agreed:
  assumes "search_group gid (rt_data rt) = Some g" "ev_agree ev BARRIER_LOC = Inr (BARRIER_LOC, True)"
  shows "barrier_body ev gid rt = data_commit ev gid rt"
  using assms by (simp add: barrier_body_def comp find_group_def Let_def data_commit_def done_by_def
      split: prod.split sum.split)

lemma barrier_late_failure:
  assumes "search_group gid (rt_data rt) = Some g" "ev_agree ev BARRIER_LOC = Inr (BARRIER_LOC, False)"
    "data_commit ev gid rt = (Inr FENIX_SUCCESS, rt')"
  shows "barrier_body ev gid rt = andThen (ev_handler ev) (\<lambda>_. ret FENIX_SUCCESS) rt'"
  using assms by (simp add: barrier_body_def comp find_group_def Let_def data_commit_def split: prod.splits sum.splits)

lemma barrier_failed:
  assumes "search_group gid (rt_data rt) = Some g" "ev_agree ev BARRIER_LOC = Inr (loc, ok)" "loc \<noteq> BARRIER_LOC"
  shows "barrier_body ev gid rt = andThen (ev_handler ev) (\<lambda>_. ret FENIX_ERROR_COMMIT_BARRIER) rt"
  using assms by (simp add: barrier_body_def comp find_group_def Let_def)

section \<open>Storing all members\<close>

text \<open>\<open>FENIX_DATA_MEMBER_ALL\<close> stores the members in the order of their ids, each as on its own.\<close>

lemma store_each_all:
  assumes "kset_ok mb_id (gr_members g)" "set ks \<subseteq> mb_id ` set (gr_members g)" "distinct ks"
    and op: "\<And>k m. m \<in> set (gr_members g) \<Longrightarrow> k = mb_id m \<Longrightarrow> k \<in> set ks \<Longrightarrow>
      op k m = (Inr FENIX_SUCCESS, f m) \<and> mb_id (f m) = mb_id m"
  shows "store_each op ks g
    = (Inr FENIX_SUCCESS, g\<lparr>gr_members := map (\<lambda>m. if mb_id m \<in> set ks then f m else m) (gr_members g)\<rparr>)"
  using assms
proof (induction ks arbitrary: g)
  case Nil
  show ?case by (simp add: comp)
next
  case (Cons k ks)
  have "k \<in> mb_id ` set (gr_members g)" using Cons.prems(2) by simp
  then obtain m where m: "m \<in> set (gr_members g)" "mb_id m = k" by blast
  have s: "search_member k g = Some m"
    using ids.look_iff [OF Cons.prems(1), of k m] m by (simp add: search_member_def)
  have opm: "op k m = (Inr FENIX_SUCCESS, f m)" "mb_id (f m) = k" using Cons.prems(4) [of m k] m by simp_all
  let ?g = "put_member (f m) g"
  have run: "on_member k (op k) g = (Inr FENIX_SUCCESS, ?g)" using s opm(1) by (simp add: on_member_def)
  have only: "x = m" if "x \<in> set (gr_members g)" "mb_id x = k" for x
    using ids.same_key [OF Cons.prems(1) that(1) m(1)] that(2) m(2) by simp
  have mem: "gr_members ?g = map (\<lambda>x. if mb_id x = k then f x else x) (gr_members g)"
    using opm(2) only by (auto simp: put_member_def kset_update_def)
  have keys: "mb_id ` set (gr_members ?g) = mb_id ` set (gr_members g)"
    using arg_cong [OF kset_update_keys [of mb_id "f m" "gr_members g"], of set] by (simp add: put_member_def)
  have ok: "kset_ok mb_id (gr_members ?g)" using Cons.prems(1) by (simp add: put_member_def kset_update_ok)
  have op': "op j x = (Inr FENIX_SUCCESS, f x) \<and> mb_id (f x) = mb_id x"
    if "x \<in> set (gr_members ?g)" "j = mb_id x" "j \<in> set ks" for j x
  proof -
    have "j \<noteq> k" using that(3) Cons.prems(3) by auto
    moreover have "x \<in> insert (f m) (set (gr_members g))"
      using that(1) unfolding put_member_def by (simp add: kset_update_set split: if_splits) blast
    ultimately have "x \<in> set (gr_members g)" using that(2) opm(2) by auto
    then show ?thesis using Cons.prems(4) [of x j] that(2,3) by simp
  qed
  have "store_each op ks ?g = (Inr FENIX_SUCCESS, ?g\<lparr>gr_members := map (\<lambda>x. if mb_id x \<in> set ks then f x else x) (gr_members ?g)\<rparr>)"
    using Cons.IH [OF ok _ _ op'] keys Cons.prems(2,3) by simp
  moreover have "map (\<lambda>x. if mb_id x \<in> set ks then f x else x) (gr_members ?g)
      = map (\<lambda>x. if mb_id x \<in> set (k # ks) then f x else x) (gr_members g)"
  proof -
    have "(if mb_id y \<in> set ks then f y else y) = (if mb_id x \<in> set (k # ks) then f x else x)"
      if "x \<in> set (gr_members g)" "y = (if mb_id x = k then f x else x)" for x y
      using that only [of x] opm(2) Cons.prems(3) by auto
    then show ?thesis unfolding mem by simp
  qed
  ultimately show ?case using run opm by (simp add: comp put_member_def)
qed

section \<open>Refused calls\<close>

text \<open>\<open>snapshot_delete\<close> of the interface refuses the names of the latest and of all snapshots.\<close>

lemma snapshot_delete_names:
  "data_snapshot_delete ev gid SNAPSHOT_LATEST rt = (Inl (Throw FENIX_ERROR_INVALID_TIMESTAMP), rt)"
  "data_snapshot_delete ev gid SNAPSHOT_ALL rt = (Inl (Throw FENIX_ERROR_INVALID_TIMESTAMP), rt)"
  by (simp_all add: data_snapshot_delete_def SNAPSHOT_LATEST_def SNAPSHOT_ALL_def comp)

text \<open>A checkpoint with inline recovery repeats what a failure interrupts, and nothing else.\<close>

lemma checkpoint_loop_retry:
  assumes "stamp_of gid rt = old" "t rt = (Inl Comm, rt')"
  shows "checkpoint_loop inline gid old (t # ts) rt =
    (if inline then checkpoint_loop inline gid old ts rt' else Some (Inl Comm, rt'))"
  using assms by (subst checkpoint_loop.simps) simp

lemma checkpoint_loop_throw:
  assumes "stamp_of gid rt = old" "t rt = (Inl e, rt')" "e \<noteq> Comm"
  shows "checkpoint_loop inline gid old (t # ts) rt = Some (Inl e, rt')"
  using assms by (subst checkpoint_loop.simps) (simp split: failure.split)

lemma checkpoint_loop_done:
  assumes "stamp_of gid rt = old" "t rt = (Inr (), rt')" "stamp_of gid rt' \<noteq> old"
  shows "checkpoint_loop inline gid old (t # ts) rt = Some (Inr (), rt')"
  using assms checkpoint_loop.simps [of inline gid old ts rt'] by (subst checkpoint_loop.simps) simp

lemma checkpoint_retries:
  assumes "stamp_of gid rt = old" "\<forall>t \<in> set fails. \<forall>r. stamp_of gid r = old \<longrightarrow> (\<exists>r'. t r = (Inl Comm, r') \<and> stamp_of gid r' = old)"
    and good: "\<forall>r. stamp_of gid r = old \<longrightarrow> (\<exists>r'. good r = (Inr (), r') \<and> stamp_of gid r' \<noteq> old)"
  shows "\<exists>rt'. checkpoint_loop True gid old (fails @ [good]) rt = Some (Inr (), rt') \<and> stamp_of gid rt' \<noteq> old"
  using assms(1,2)
proof (induction fails arbitrary: rt)
  case Nil
  from good Nil(1) have "\<exists>r'. good rt = (Inr (), r') \<and> stamp_of gid r' \<noteq> old" by blast
  then obtain r' where "good rt = (Inr (), r')" "stamp_of gid r' \<noteq> old" by blast
  then have "checkpoint_loop True gid old [good] rt = Some (Inr (), r')" by (rule checkpoint_loop_done [OF Nil(1)])
  then show ?case using \<open>stamp_of gid r' \<noteq> old\<close> by simp
next
  case (Cons t ts)
  from Cons.prems(2) have "\<exists>r'. t rt = (Inl Comm, r') \<and> stamp_of gid r' = old"
    using Cons.prems(1) by simp
  then obtain r' where r': "t rt = (Inl Comm, r')" "stamp_of gid r' = old" by blast
  have "\<exists>rt'. checkpoint_loop True gid old (ts @ [good]) r' = Some (Inr (), rt') \<and> stamp_of gid rt' \<noteq> old"
    by (rule Cons.IH [OF r'(2)]) (use Cons.prems(2) in simp)
  then show ?case using checkpoint_loop_retry [of gid rt old t, OF Cons.prems(1) r'(1)] by simp
qed

end
