(* ===== verification/Data_Properties.thy ===== *)
theory Data_Properties
  imports Data_Facts
begin

text \<open>
  The properties of data members, groups and the recovery interface (src/data/member.cpp,
  src/data/group.cpp, src/data/component.cpp, src/data/recovery.cpp), with the concrete member,
  group and runtime at which they are evaluated: one rank, one member of four elements of two
  bytes.
\<close>

section \<open>A concrete member, group and runtime\<close>

definition example_type :: mpi_type where
  "example_type = \<lparr>mt_id = 1, mt_extent = 2, mt_size = 2\<rparr>"

definition example_comm :: comm where
  "example_comm = \<lparr>cm_ranks = [0], cm_rank = 0\<rparr>"

definition example_heap :: heap where
  "example_heap a = (if a = 0 then [10, 11, 12, 13, 14, 15, 16, 17] else [0, 0, 0, 0, 0, 0, 0, 0])"

definition example_member :: member where
  "example_member = the (init_snapshots zeroed (Some example_comm) (new_member 7 (At 0) 4 example_type 2))"

definition fresh_group :: group where
  "fresh_group = (new_group 1 example_comm 0 2 LocalPolicy)\<lparr>gr_cohort := Some example_comm\<rparr>"

definition example_group :: group where
  "example_group = snd (group_member_create zeroed 7 (At 0) 4 example_type fresh_group)"

definition example_component :: component where
  "example_component = register_group example_group no_groups"

definition example_runtime :: runtime where
  "example_runtime = \<lparr>rt_init = True, rt_final = False, rt_settings = initial_settings\<lparr>se_resume := THROW\<rparr>,
     rt_defaults = initial_settings, rt_data = example_component, rt_heap = example_heap,
     rt_found = empty_subset, rt_stamp = 0, rt_linked = True, rt_mlogs = [], rt_mlog_order = [],
     rt_active = MLOG_NONE\<rparr>"

text \<open>The collectives of a cohort of one rank.\<close>

definition alone :: group_coll where
  "alone = \<lparr>gc_create = Inr, gc_barrier = Inr (), gc_max = Inr, gc_max_vec = Inr,
     gc_gather = (\<lambda>x. Inr [x]), gc_bcast = (\<lambda>_. Inr)\<rparr>"

definition example_env :: env where
  "example_env = \<lparr>ev_fresh = zeroed, ev_put = (\<lambda>_. []), ev_get = (\<lambda>_. Inr example_type), ev_group = (\<lambda>_. alone),
     ev_subsets = (\<lambda>_ _. gather_all []), ev_agree = (\<lambda>l. Inr (l, True)), ev_handler = ret (), ev_catch = False\<rparr>"

lemma example_comm_ok: "cm_rank example_comm < comm_size example_comm"
  by (simp add: example_comm_def comm_size_def)

lemma example_size: "4 * mt_extent example_type \<le> INT_MAX" "0 < mt_extent example_type" "mt_extent example_type = 2"
  by (simp_all add: example_type_def INT_MAX_def)

lemma example_member_ok:
  "member_ok 10 2 4 example_member \<and> mb_commits example_member = [] \<and>
   mb_user example_member = \<lparr>dr_data = At 0, dr_size = 8\<rparr>"
proof -
  obtain m where "init_snapshots zeroed (Some example_comm) (new_member 7 (At 0) (int 4) example_type 2) = Some m"
    "member_ok 10 2 4 m" "mb_commits m = []" "mb_user m = \<lparr>dr_data = At 0, dr_size = 4 * 2\<rparr>"
    using new_member_ok [where depth = 2 and st = 10 and mid = 7 and p = "At 0",
      OF zeroed_ok example_size(2) _ example_size(1) _ _ example_comm_ok]
    unfolding example_size(3) by (auto simp: INT32_MAX_def)
  then show ?thesis by (simp add: example_member_def)
qed

lemma fresh_group_ok: "group_ok fresh_group"
  by (simp add: fresh_group_def new_group_def group_ok_def registry_ok_def cohort_ok_def kset_ok_def
      example_comm_def comm_size_def INT32_MAX_def)

lemma fresh_group_sel: "gr_cohort fresh_group = Some example_comm" "search_member i fresh_group = None"
  "gr_id fresh_group = 1" "gr_timestart fresh_group = 0" "gr_timestamp fresh_group = -1" "gr_timestamps fresh_group = []"
  "gr_depth fresh_group = 2" "gr_members fresh_group = []" "gr_order fresh_group = []"
  by (simp_all add: fresh_group_def new_group_def search_member_def kset_find_def)

lemma example_group_eq:
  "\<exists>m. example_group = push_order 7 (emplace_member m fresh_group) \<and> member_ok 10 2 4 m \<and> mb_id m = 7 \<and>
     unstored m = {} \<and> group_ok example_group \<and> search_member 7 example_group = Some m"
proof -
  obtain m where "group_member_create zeroed 7 (At 0) (int 4) example_type fresh_group
      = (Inr (), push_order 7 (emplace_member m fresh_group))"
    "member_ok 10 (mt_extent example_type) 4 m" "mb_id m = 7" "unstored m = {}"
    "group_ok (push_order 7 (emplace_member m fresh_group))"
    "search_member 7 (push_order 7 (emplace_member m fresh_group)) = Some m"
    using member_create_ok [where mid = 7 and st = 10 and p = "At 0",
      OF zeroed_ok fresh_group_ok fresh_group_sel(1,2) example_size(2) _ example_size(1)]
    by auto
  then show ?thesis by (intro exI [of _ m]) (simp add: example_group_def example_size(3))
qed

lemma example_group_facts:
  "group_ok example_group" "gr_cohort example_group = Some example_comm" "gr_id example_group = 1"
  "gr_timestart example_group = 0" "gr_timestamp example_group = -1" "gr_timestamps example_group = []" "gr_depth example_group = 2"
  "\<forall>m \<in> set (gr_members example_group). unstored m = {} \<and> some_member m" "search_member 7 example_group \<noteq> None"
  "search_member 8 example_group = None" "gr_members example_group \<noteq> []"
proof -
  obtain m where e: "example_group = push_order 7 (emplace_member m fresh_group)"
    and m: "member_ok 10 2 4 m" "mb_id m = 7" "unstored m = {}" "group_ok example_group" "search_member 7 example_group = Some m"
    using example_group_eq by blast
  have ms: "gr_members example_group = [m]"
    unfolding e by (simp add: push_order_def emplace_member_def kset_insert_def fresh_group_sel)
  show "gr_cohort example_group = Some example_comm" "gr_id example_group = 1" "gr_timestart example_group = 0"
    "gr_timestamp example_group = -1" "gr_timestamps example_group = []" "gr_depth example_group = 2"
    unfolding e by (simp_all add: push_order_def emplace_member_def fresh_group_sel)
  show "group_ok example_group" "search_member 7 example_group \<noteq> None" "gr_members example_group \<noteq> []"
    "search_member 8 example_group = None"
    using m ms by (simp_all add: search_member_def kset_find_def)
  show "\<forall>m \<in> set (gr_members example_group). unstored m = {} \<and> some_member m"
    using m ms by (auto simp: some_member_def)
qed

lemma example_component_ok: "component_ok example_component" "search_group 1 example_component = Some example_group"
  "search_group 2 example_component = None"
  by (simp_all add: example_component_def register_group_def no_groups_def component_ok_def kset_insert_def kset_ok_def
      search_group_def kset_find_def example_group_facts)

lemma example_runtime_sel: "rt_data example_runtime = example_component" "rt_init example_runtime" "\<not> rt_final example_runtime"
  "rt_heap example_runtime = example_heap"
  by (simp_all add: example_runtime_def)

section \<open>Storing, committing and restoring\<close>

text \<open>
  C1. What a member stores and commits is what a restore of that timestamp brings back: the
  store succeeds, the commit makes a snapshot, and loading it puts the stored elements into the
  target, whatever the user's memory holds by then.  The load succeeds when the elements asked
  for are among those that were stored.
\<close>

theorem store_commit_restore:
  assumes mal: "malloc_ok fresh" and m: "member_ok st es n m" and d: "storable st n d"
    and h: "n * es \<le> length (load_obj h (dr_data (mb_user m)))"
    and c: "cm_rank c < comm_size c" and ts: "0 \<le> ts" "\<forall>s \<in> set (mb_commits m). sn_timestamp s < ts"
    and a: "load_args_ok es n m target count h'"
  shows "\<exists>m1 m2 r new found. member_store fresh h d m = (Inr FENIX_SUCCESS, m1) \<and>
    member_commit fresh c ts m1 = Some m2 \<and> member_ok st es n m2 \<and>
    member_load m2 target count ts \<lparr>ls_heap = h', ls_found = f\<rparr>
      = (r, \<lparr>ls_heap = store_obj (load_into m target) new h', ls_found = found\<rparr>) \<and>
    subset_elems d \<inter> {..<n} \<subseteq> subset_elems found \<and> length new = length (load_obj h' (load_into m target)) \<and>
    (\<forall>i < length new. i div es \<in> subset_elems d \<inter> {..<n} \<and> i div es < wanted n count \<longrightarrow>
      new ! i = load_obj h (dr_data (mb_user m)) ! i) \<and>
    (count \<noteq> RESTORE_FULL \<and> {..<wanted n count} \<subseteq> subset_elems d \<inter> {..<n} \<longrightarrow> r = Inr ())"
proof -
  obtain m1 m2 s where sc: "member_store fresh h d m = (Inr FENIX_SUCCESS, m1)" "member_commit fresh c ts m1 = Some m2"
    "member_ok st es n m2" "s \<in> set (mb_commits m2)" "sn_timestamp s = ts"
    and el: "subset_elems d \<inter> {..<n} \<subseteq> subset_elems (own_protected s)" and user: "mb_user m2 = mb_user m"
    and data: "\<forall>i < n * es. i div es \<in> subset_elems d \<longrightarrow> db_data (sn_buf s) ! i = load_obj h (dr_data (mb_user m)) ! i"
    by (rule store_commit [OF mal m d h c ts])
  have find: "find_snapshot m2 ts = Inr s"
    using find_snapshot_commit [OF _ sc(4)] sc(3,5) ts(1) by (simp add: member_ok_def)
  have into: "load_into m2 target = load_into m target" using user by (simp add: load_into_def)
  have args: "load_args_ok es n m2 target count h'" using a unfolding load_args_ok_def into .
  have all: "ts \<noteq> SNAPSHOT_ALL" using ts(1) by (simp add: SNAPSHOT_ALL_def)
  obtain new where new: "member_load m2 target count ts \<lparr>ls_heap = h', ls_found = f\<rparr> =
      (load_result (if count = RESTORE_FULL then \<exists>j. subset_elems (own_protected s) = {..<j}
         else {..<wanted n count} \<subseteq> subset_elems (own_protected s)),
       \<lparr>ls_heap = store_obj (load_into m target) new h', ls_found = own_protected s\<rparr>)"
    "moved es (subset_elems (own_protected s) \<inter> {..<wanted n count}) (db_data (sn_buf s)) (load_obj h' (load_into m target)) new"
    using member_load_one [OF sc(3) find sc(4) all, of target count "\<lparr>ls_heap = h', ls_found = f\<rparr>"] into args by auto
  have es: "0 < es" using m by (simp add: member_ok_def)
  have bytes: "new ! i = load_obj h (dr_data (mb_user m)) ! i"
    if "i < length new" "i div es \<in> subset_elems d \<inter> {..<n}" "i div es < wanted n count" for i
    using that el data new(2) es by (auto simp: moved_def div_less_iff_less_mult)
  have len: "length new = length (load_obj h' (load_into m target))" using new(2) by (simp add: moved_def)
  have full: "{..<wanted n count} \<subseteq> subset_elems (own_protected s)"
    if "{..<wanted n count} \<subseteq> subset_elems d \<inter> {..<n}" using that el by blast
  show ?thesis
    by (intro exI conjI) (rule sc(1), rule sc(2), rule sc(3), rule new(1), rule el, rule len,
      use bytes in blast, use full in \<open>simp add: load_result_def\<close>)
qed

lemma example_load_args: "load_args_ok 2 4 example_member (At 1) 4 example_heap"
  using example_member_ok by (simp add: load_args_ok_def load_into_def wanted_def load_obj_def example_heap_def INT32_MAX_def INT_MAX_def RESTORE_FULL_def)

lemma example_storable: "storable 10 4 (basic_subset [block 0 3])"
  by (auto simp: storable_def subset_ok_def regions_ok_single region_ok_def same_stride_def IDX_MAX_def
      subset_elems_def region_elems_block)

lemma store_commit_restore_witness:
  "\<exists>m1 m2 r new found. member_store zeroed example_heap (basic_subset [block 0 3]) example_member = (Inr FENIX_SUCCESS, m1) \<and>
    member_commit zeroed example_comm 0 m1 = Some m2 \<and> member_ok 10 2 4 m2 \<and>
    member_load m2 (At 1) 4 0 \<lparr>ls_heap = example_heap, ls_found = empty_subset\<rparr>
      = (r, \<lparr>ls_heap = store_obj (load_into example_member (At 1)) new example_heap, ls_found = found\<rparr>) \<and>
    subset_elems (basic_subset [block 0 3]) \<inter> {..<4} \<subseteq> subset_elems found \<and>
    length new = length (load_obj example_heap (load_into example_member (At 1))) \<and>
    (\<forall>i < length new. i div 2 \<in> subset_elems (basic_subset [block 0 3]) \<inter> {..<4} \<and> i div 2 < wanted 4 4 \<longrightarrow>
      new ! i = load_obj example_heap (dr_data (mb_user example_member)) ! i) \<and>
    ((4::int) \<noteq> RESTORE_FULL \<and> {..<wanted 4 4} \<subseteq> subset_elems (basic_subset [block 0 3]) \<inter> {..<4} \<longrightarrow> r = Inr ())"
  by (rule store_commit_restore [OF zeroed_ok _ example_storable _ example_comm_ok _ _ example_load_args])
    (use example_member_ok in \<open>simp_all add: load_obj_def example_heap_def\<close>)

text \<open>
  C20. A restore of all snapshots takes every element from the newest snapshot that has it, and
  is complete exactly when every element asked for is in some snapshot.
\<close>

theorem restore_newest:
  assumes "member_ok st es n m" "mb_commits m \<noteq> []" "load_args_ok es n m target count (ls_heap l)"
  shows "\<exists>r new found. member_load m target count SNAPSHOT_ALL l =
      (r, \<lparr>ls_heap = store_obj (load_into m target) new (ls_heap l), ls_found = found\<rparr>) \<and>
    loaded es (wanted n count) {} (rev (mb_commits m)) (load_obj (ls_heap l) (load_into m target)) new \<and>
    subset_elems found \<subseteq> (\<Union>s \<in> set (mb_commits m). subset_elems (own_protected s)) \<and>
    (count \<noteq> RESTORE_FULL \<longrightarrow> r = load_result ({..<wanted n count}
      \<subseteq> (\<Union>s \<in> set (mb_commits m). subset_elems (own_protected s))))"
  by (rule member_load_newest [OF assms])

definition example_stored :: member where
  "example_stored = the (member_commit zeroed example_comm 0
     (snd (member_store zeroed example_heap (basic_subset [block 0 3]) example_member)))"

lemma example_stored_ok: "member_ok 10 2 4 example_stored" "mb_commits example_stored \<noteq> []"
  "load_args_ok 2 4 example_stored (At 1) 4 example_heap"
proof -
  have pre: "member_ok 10 2 4 example_member" "4 * 2 \<le> length (load_obj example_heap (dr_data (mb_user example_member)))"
    "(0::int) \<le> 0" "\<forall>s \<in> set (mb_commits example_member). sn_timestamp s < 0"
    using example_member_ok by (simp_all add: load_obj_def example_heap_def)
  obtain m1 m2 s where sc: "member_store zeroed example_heap (basic_subset [block 0 3]) example_member = (Inr FENIX_SUCCESS, m1)"
    "member_commit zeroed example_comm 0 m1 = Some m2" "member_ok 10 2 4 m2" "s \<in> set (mb_commits m2)"
    "mb_user m2 = mb_user example_member"
    by (rule store_commit [OF zeroed_ok pre(1) example_storable pre(2) example_comm_ok pre(3,4)])
  then have e: "example_stored = m2" by (simp add: example_stored_def)
  show "member_ok 10 2 4 example_stored" "mb_commits example_stored \<noteq> []"
    "load_args_ok 2 4 example_stored (At 1) 4 example_heap"
    using e sc example_load_args by (auto simp: load_args_ok_def load_into_def)
qed

lemma restore_newest_witness:
  "\<exists>r new found. member_load example_stored (At 1) 4 SNAPSHOT_ALL \<lparr>ls_heap = example_heap, ls_found = empty_subset\<rparr> =
      (r, \<lparr>ls_heap = store_obj (load_into example_stored (At 1)) new example_heap, ls_found = found\<rparr>) \<and>
    loaded 2 (wanted 4 4) {} (rev (mb_commits example_stored)) (load_obj example_heap (load_into example_stored (At 1))) new \<and>
    subset_elems found \<subseteq> (\<Union>s \<in> set (mb_commits example_stored). subset_elems (own_protected s)) \<and>
    ((4::int) \<noteq> RESTORE_FULL \<longrightarrow> r = load_result ({..<wanted 4 4}
      \<subseteq> (\<Union>s \<in> set (mb_commits example_stored). subset_elems (own_protected s))))"
  using restore_newest [OF example_stored_ok(1,2), of "At 1" 4 "\<lparr>ls_heap = example_heap, ls_found = empty_subset\<rparr>"]
    example_stored_ok(3) by simp

section \<open>Metadata\<close>

text \<open>
  The metadata of a member survives the exchange that recreates it on a recovered rank: the
  id, the number of elements and the datatype come back, with the buffer left unset.
\<close>

theorem member_metadata_roundtrip:
  assumes "- 2147483648 \<le> mb_id m" "mb_id m \<le> INT32_MAX" "elm_count m = Some c" "- 2147483648 \<le> c" "c \<le> INT32_MAX"
    "length (ds_put (mb_type m)) + 12 \<le> INT_MAX" "ds_get (ds_put (mb_type m)) = Inr (mb_type m)"
  shows "\<exists>buf. member_serialize ds_put m = Some buf \<and>
    member_deserialize ds_get buf depth = Inr (new_member (mb_id m) Null c (mb_type m) depth)"
  by (rule metadata_roundtrip [of m c ds_put ds_get, OF assms])

lemma member_metadata_roundtrip_witness:
  "\<exists>buf. member_serialize (\<lambda>_. [1, 2, 3]) (new_member 7 (At 0) 4 example_type 2) = Some buf \<and>
    member_deserialize (\<lambda>_. Inr example_type) buf 2 = Inr (new_member 7 Null 4 example_type 2)"
  using member_metadata_roundtrip [of "new_member 7 (At 0) 4 example_type 2" 4 "\<lambda>_. [1, 2, 3]" "\<lambda>_. Inr example_type" 2]
  by (simp add: new_member_def example_type_def elm_count_def ref_is_bounded_def SIZE_MAX_def INT_MAX_def INT32_MAX_def
      i32_def size_of_int_def int_of_size_def)

text \<open>
  After the exchange of subsets every rank has the same vector: at each index the subset
  that the rank of this index sent.
\<close>

theorem subsets_exchanged:
  assumes "\<forall>row \<in> set rows. length row = length rows \<and> (\<forall>d \<in> set row. subset_ok st d)"
    "r < length rows" "comm_size c = length rows" "cm_rank c = r"
    "length (concat (map subset_serialize (sent rows))) \<le> INT_MAX"
  shows "exchange_subsets (gather_all (map subset_serialize (sent rows))) c (rows ! r) = Inr (sent rows)"
  by (rule exchange_all [OF assms])

definition example_rows :: "data_subset list list" where
  "example_rows = [[basic_subset [block 0 3], empty_subset], [empty_subset, basic_subset [block 5 5]]]"

lemma subsets_exchanged_witness:
  "exchange_subsets (gather_all (map subset_serialize (sent example_rows))) \<lparr>cm_ranks = [0, 4], cm_rank = 1\<rparr> (example_rows ! 1)
    = Inr (sent example_rows)"
proof (rule subsets_exchanged [where st = 10])
  have e: "sent example_rows = [basic_subset [block 0 3], basic_subset [block 5 5]]"
    by (simp add: sent_def example_rows_def)
  show "length (concat (map subset_serialize (sent example_rows))) \<le> INT_MAX"
    unfolding e by (simp add: subset_serialize_def basic_subset_def INT_MAX_def length_region_bytes)
  show "\<forall>row \<in> set example_rows. length row = length example_rows \<and> (\<forall>d \<in> set row. subset_ok 10 d)"
    by (auto simp: example_rows_def empty_subset_def subset_ok_def regions_ok_single region_ok_def same_stride_def IDX_MAX_def)
qed (simp_all add: example_rows_def comm_size_def)

section \<open>Groups\<close>

text \<open>
  Creating a member in a well-formed group succeeds when its id is new, registers it under
  that id with an empty history, and keeps the group well-formed.
\<close>

theorem group_member_created:
  assumes "malloc_ok fresh" "group_ok g" "gr_cohort g = Some c" "search_member mid g = None"
    "0 < mt_extent dt" "0 < n" "n * mt_extent dt \<le> INT_MAX"
  shows "\<exists>m. group_member_create fresh mid p (int n) dt g = (Inr (), push_order mid (emplace_member m g)) \<and>
    member_ok st (mt_extent dt) n m \<and> mb_id m = mid \<and> mb_commits m = [] \<and> unstored m = {} \<and>
    mb_user m = \<lparr>dr_data = p, dr_size = n * mt_extent dt\<rparr> \<and>
    group_ok (push_order mid (emplace_member m g)) \<and>
    search_member mid (push_order mid (emplace_member m g)) = Some m"
  by (rule member_create_ok [OF assms])

lemma group_member_created_witness:
  "\<exists>m. group_member_create zeroed 8 (At 1) (int 4) example_type example_group = (Inr (), push_order 8 (emplace_member m example_group)) \<and>
    member_ok 10 (mt_extent example_type) 4 m \<and> mb_id m = 8 \<and> mb_commits m = [] \<and> unstored m = {} \<and>
    mb_user m = \<lparr>dr_data = At 1, dr_size = 4 * mt_extent example_type\<rparr> \<and>
    group_ok (push_order 8 (emplace_member m example_group)) \<and>
    search_member 8 (push_order 8 (emplace_member m example_group)) = Some m"
  by (rule group_member_created [OF zeroed_ok example_group_facts(1,2,10) example_size(2) _ example_size(1)]) simp

text \<open>
  Deleting a member removes it, keeps every other member and the order of the rest, and
  keeps the group well-formed.
\<close>

theorem group_member_deleted:
  assumes "group_ok g" "search_member mid g \<noteq> None"
  shows "\<exists>g'. group_member_delete mid g = (Inr (), g') \<and> group_ok g' \<and> search_member mid g' = None \<and>
    (\<forall>k. k \<noteq> mid \<longrightarrow> search_member k g' = search_member k g) \<and> gr_order g' = remove1 mid (gr_order g)"
  by (rule member_delete_ok [OF assms])

lemma group_member_deleted_witness:
  "\<exists>g'. group_member_delete 7 example_group = (Inr (), g') \<and> group_ok g' \<and> search_member 7 g' = None \<and>
    (\<forall>k. k \<noteq> 7 \<longrightarrow> search_member k g' = search_member k example_group) \<and> gr_order g' = remove1 7 (gr_order example_group)"
  by (rule group_member_deleted [OF example_group_facts(1,9)])

text \<open>
  C19. A commit of a group with nothing left to store succeeds: the group gets the next
  timestamp, keeps the newest \<open>depth + 1\<close> of them, every member commits its staged snapshot at
  that timestamp, and the group stays well-formed.
\<close>

theorem commit_advances:
  assumes "malloc_ok (ev_fresh ev)" "component_ok (rt_data rt)"
    "search_group gid (rt_data rt) = Some g" "group_ok g" "gr_cohort g = Some c"
    "0 \<le> gr_timestart g" "gr_timestamp g < INT32_MAX" "\<forall>m \<in> set (gr_members g). unstored m = {}"
  shows "\<exists>g'. data_commit ev gid rt
      = (Inr FENIX_SUCCESS, rt\<lparr>rt_stamp := next_stamp g, rt_data := put_group g' (rt_data rt)\<rparr>) \<and>
    group_ok g' \<and> gr_timestamp g' = next_stamp g \<and>
    gr_timestamps g' = next_stamp g # take (nat (gr_depth g)) (gr_timestamps g) \<and>
    list_all2 (committed c (next_stamp g)) (gr_members g) (gr_members g')"
  by (rule data_commit_ok [OF assms])

lemma commit_advances_witness:
  "\<exists>g'. data_commit example_env 1 example_runtime = (Inr FENIX_SUCCESS,
      example_runtime\<lparr>rt_stamp := next_stamp example_group, rt_data := put_group g' (rt_data example_runtime)\<rparr>) \<and>
    group_ok g' \<and> gr_timestamp g' = next_stamp example_group \<and>
    gr_timestamps g' = next_stamp example_group # take (nat (gr_depth example_group)) (gr_timestamps example_group) \<and>
    list_all2 (committed example_comm (next_stamp example_group)) (gr_members example_group) (gr_members g')"
  by (rule commit_advances)
    (simp_all add: example_env_def zeroed_ok example_runtime_sel example_component_ok example_group_facts INT32_MAX_def)

text \<open>
  C30. With a member whose staged data is not stored, the commit throws and commits nothing;
  but the group's timestamp, and the one reported to the caller, have moved on.
\<close>

theorem commit_unstored:
  assumes "component_ok (rt_data rt)" "search_group gid (rt_data rt) = Some g"
    "\<forall>m \<in> set (gr_members g). some_member m" "\<exists>m \<in> set (gr_members g). unstored m \<noteq> {}"
  shows "data_commit ev gid rt = (Inl (Throw FENIX_ERROR_MEMBER_UNSTORED),
    rt\<lparr>rt_stamp := next_stamp g, rt_data := put_group (commit_at (next_stamp g) g) (rt_data rt)\<rparr>)"
  by (rule data_commit_unstored [OF assms])

definition staged_member :: member where
  "staged_member = snd (member_stage zeroed example_heap (basic_subset [block 0 3]) example_member)"

definition staged_group :: group where
  "staged_group = fresh_group\<lparr>gr_members := [staged_member], gr_order := [7]\<rparr>"

definition staged_runtime :: runtime where
  "staged_runtime = example_runtime\<lparr>rt_data := register_group staged_group no_groups\<rparr>"

lemma staged_member_facts: "some_member staged_member" "unstored staged_member \<noteq> {}"
proof -
  have m: "member_ok 10 2 4 example_member" "mb_user example_member = \<lparr>dr_data = At 0, dr_size = 8\<rparr>"
    using example_member_ok by simp_all
  obtain s where s: "mb_stage example_member = Some s" "fixed_snap 10 2 4 s" using m(1) by (auto simp: member_ok_def)
  obtain R where R: "basic_subset [block 0 3] = basic_subset R" "regions_ok 10 R" "end_fits 2 R"
    by (rule storableE [OF example_storable, of 2]) (simp_all add: INT_MAX_def)
  have es: "mt_extent (mb_type example_member) = 2" "dr_size (mb_user example_member) = 4 * 2" "4 * 2 \<le> INT_MAX"
    using m by (simp_all add: member_ok_def)
  have h: "4 * 2 \<le> length (load_obj example_heap (dr_data (mb_user example_member)))"
    using m(2) by (simp add: load_obj_def example_heap_def)
  obtain s' where s': "member_stage zeroed example_heap (basic_subset R) example_member
      = (Inr (), example_member\<lparr>mb_stage := Some s'\<rparr>)"
    "staged_by 10 2 4 (basic_subset R) (load_obj example_heap (dr_data (mb_user example_member))) s s'"
    using member_stage_fixed [OF zeroed_ok _ _ es(3) s(2,1) es(1,2) h R(2,3)] by auto
  have e: "staged_member = example_member\<lparr>mb_stage := Some s'\<rparr>" using s'(1) R(1) by (simp add: staged_member_def)
  have fs: "fixed_snap 10 2 4 s'" using s'(2) by (simp add: staged_by_def)
  then have "member_ok 10 2 4 staged_member" using m(1) unfolding e member_ok_def by simp
  then show "some_member staged_member" by (auto simp: some_member_def)
  obtain u where u: "sn_staged s' = (sn_staged s)[nat (sn_rank s) := u]" "sn_rank s' = sn_rank s"
    "subset_elems u = subset_elems (sn_staged s ! nat (sn_rank s)) \<union> (subset_elems (basic_subset [block 0 3]) \<inter> {..<4})"
    using s'(2) unfolding R(1) [symmetric] staged_by_def by blast
  have in_u: "0 \<in> subset_elems u" unfolding u(3) by (simp add: subset_elems_def region_elems_block)
  have "nat (sn_rank s) < length (sn_staged s)" using s(2) by (simp add: fixed_snap_def)
  then have "unstored staged_member = subset_elems u" using u(1,2) unfolding e by (simp add: unstored_def)
  then show "unstored staged_member \<noteq> {}" using in_u by auto
qed

lemma commit_unstored_witness:
  "data_commit example_env 1 staged_runtime = (Inl (Throw FENIX_ERROR_MEMBER_UNSTORED),
    staged_runtime\<lparr>rt_stamp := next_stamp staged_group,
      rt_data := put_group (commit_at (next_stamp staged_group) staged_group) (rt_data staged_runtime)\<rparr>)"
  by (rule commit_unstored)
    (simp_all add: staged_runtime_def register_group_def no_groups_def component_ok_def kset_insert_def kset_ok_def
      search_group_def kset_find_def staged_group_def fresh_group_sel staged_member_facts)

text \<open>
  Deleting a snapshot, or all of them, keeps a group well-formed: the timestamps of the
  group and of its members stay in order and bounded.
\<close>

theorem snapshot_deletes_keep:
  assumes "malloc_ok fresh" "group_ok g"
  shows "group_ok (delete_one fresh t g) \<and> group_ok (delete_all fresh g) \<and> gr_timestamps (delete_all fresh g) = []"
  using delete_one_ok [OF assms] delete_all_ok [OF assms] by simp

lemma snapshot_deletes_keep_witness:
  "group_ok (delete_one zeroed 0 example_group) \<and> group_ok (delete_all zeroed example_group) \<and>
   gr_timestamps (delete_all zeroed example_group) = []"
  by (rule snapshot_deletes_keep [OF zeroed_ok example_group_facts(1)])

text \<open>
  C21. After a failure the ranks of a cohort agree on the timestamps: each ends up with the
  maximum, position by position, of the lists they had, and with the newest of them as the
  current timestamp; members drop what is not in it and the group stays well-formed.
\<close>

theorem timestamps_agreed:
  assumes "malloc_ok fresh" "group_ok g" "gr_cohort g \<noteq> None" "gr_timestamps g \<in> set rows"
    "\<forall>r \<in> set rows. ts_ok r \<and> (\<forall>t \<in> set r. 0 \<le> t) \<and> int (length r) \<le> gr_depth g + 1" "reduces_max rows co"
  shows "\<exists>g'. sync_timestamps fresh co g = (Inr (), g') \<and> group_ok g' \<and>
    gr_timestamps g' = column_max rows \<and>
    gr_timestamp g' = (if longest rows = 0 then - 1 else hd (column_max rows)) \<and>
    gr_members g' = map (cleanup_timestamps fresh (column_max rows)) (gr_members g)"
  by (rule sync_agrees [OF assms])

definition example_coll :: group_coll where
  "example_coll = alone\<lparr>gc_max := (\<lambda>_. Inr 2), gc_max_vec := (\<lambda>_. Inr [5, 4])\<rparr>"

lemma timestamps_agreed_witness:
  "\<exists>g'. sync_timestamps zeroed example_coll example_group = (Inr (), g') \<and> group_ok g' \<and>
    gr_timestamps g' = column_max [[], [5, 4]] \<and>
    gr_timestamp g' = (if longest [[], [5, 4]] = 0 then - 1 else hd (column_max [[], [5, 4]])) \<and>
    gr_members g' = map (cleanup_timestamps zeroed (column_max [[], [5, 4]])) (gr_members example_group)"
  by (rule timestamps_agreed)
    (simp_all add: zeroed_ok example_group_facts kset_ok_def reduces_max_def example_coll_def longest_def column_max_def
      pad_timestamps_def upt_rec)

section \<open>The registry and checkpoints\<close>

text \<open>
  C31. Creating a group keeps the registry well-formed, whatever happens on the way: each
  registered id is listed once in the order of creation and belongs to one group.
\<close>

theorem group_create_registry:
  assumes "component_ok cp"
  shows "component_ok (snd (component_group_create fresh co gid c ts depth name vals cp))"
  using group_create_keeps assms by (auto simp: keeps_def)

lemma group_create_registry_witness:
  "component_ok (snd (component_group_create zeroed alone 2 example_comm 0 2 14 None example_component))"
  by (rule group_create_registry [OF example_component_ok(1)])



end
