(* ===== verification/Imr.thy ===== *)
theory Imr
  imports Group
begin

text \<open>
  The in-memory redundancy of src/data/policy_imr.cpp: snapshots with a partner snapshot, the
  buddy members of mode 1 and the parity members of mode 5, and the checks of an \<open>IMRGroup\<close>.
  The code of one rank and the MPI calls that join it to the others are stated over the whole
  cohort: a list with the state of every rank.  \<open>MPI_Reduce\<close> with \<open>MPI_BXOR\<close> gives the receiving
  rank the exclusive or of what all ranks contribute; a message longer than the receive buffer
  is an error.  \<open>None\<close> is a failed assertion, an access outside of a buffer or such an error.
\<close>

unbundle bit_operations_syntax

section \<open>Snapshots and members\<close>

text \<open>\<open>IMRSnapshot\<close>: the snapshot that it inherits and the one it holds for its partner.\<close>

record imr_snapshot =
  im_own :: snapshot
  im_partner :: snapshot

record imr_member =
  iv_stage :: imr_snapshot
  iv_commits :: "imr_snapshot list"
  iv_avail :: "imr_snapshot list"

definition new_imr_snapshot :: "(nat \<Rightarrow> byte list) \<Rightarrow> nat \<Rightarrow> int \<Rightarrow> imr_snapshot option" where
  "new_imr_snapshot fresh es c = do {
     s \<leftarrow> new_snapshot fresh es c;
     Some \<lparr>im_own = s, im_partner = s\<rparr>
   }"

definition imr_init_cohort :: "comm \<Rightarrow> imr_snapshot \<Rightarrow> imr_snapshot" where
  "imr_init_cohort c e = \<lparr>im_own = init_cohort c (im_own e), im_partner = init_cohort c (im_partner e)\<rparr>"

definition imr_reinit_cohort :: "comm \<Rightarrow> imr_snapshot \<Rightarrow> imr_snapshot" where
  "imr_reinit_cohort c e = \<lparr>im_own = reinit_cohort c (im_own e), im_partner = reinit_cohort c (im_partner e)\<rparr>"

text \<open>\<open>reset\<close> is the one of \<open>DataSnapshot\<close>: the partner stays as it is.\<close>

definition imr_reset :: "(nat \<Rightarrow> byte list) \<Rightarrow> imr_snapshot \<Rightarrow> imr_snapshot" where
  "imr_reset fresh e = e\<lparr>im_own := snap_reset fresh (im_own e)\<rparr>"

definition resize_partner :: "(nat \<Rightarrow> byte list) \<Rightarrow> int \<Rightarrow> imr_snapshot \<Rightarrow> imr_snapshot option" where
  "resize_partner fresh n e = do {
     p \<leftarrow> snap_resize fresh (size_of_int n) (im_partner e);
     Some (e\<lparr>im_partner := p\<rparr>)
   }"

text \<open>What the constructors do after \<open>init_snapshots\<close>; \<open>user\<close> is the member's user buffer.\<close>

definition resize_partners :: "(nat \<Rightarrow> byte list) \<Rightarrow> int \<Rightarrow> imr_member \<Rightarrow> imr_member option" where
  "resize_partners fresh n m = do {
     st \<leftarrow> resize_partner fresh n (iv_stage m);
     av \<leftarrow> those (map (resize_partner fresh n) (iv_avail m));
     Some (m\<lparr>iv_stage := st, iv_avail := av\<rparr>)
   }"

definition buddy_member :: "(nat \<Rightarrow> byte list) \<Rightarrow> data_ref \<Rightarrow> imr_member \<Rightarrow> imr_member option" where
  "buddy_member fresh user m =
     (if ref_is_bounded user then resize_partners fresh (int_of_size (dr_size user)) m else Some m)"

definition parity_member :: "(nat \<Rightarrow> byte list) \<Rightarrow> int \<Rightarrow> int \<Rightarrow> data_ref \<Rightarrow> imr_member \<Rightarrow> imr_member option" where
  "parity_member fresh csz rank user m = do {
     fenix_assert (csz \<noteq> 1);
     (let data_len = (if ref_is_bounded user then int_of_size (dr_size user) else 0);
          parity_len = data_len sdiv (csz - 1);
          remainder = data_len smod (csz - 1);
          remainder = (if remainder \<noteq> 0 then remainder + 1 else remainder)
      in resize_partners fresh (if remainder < rank then parity_len + 1 else parity_len) m)
   }"

text \<open>\<open>emplace_member\<close>: the member of the group's mode; any other mode is a failed assertion.\<close>

definition imr_emplace :: "(nat \<Rightarrow> byte list) \<Rightarrow> int \<Rightarrow> int \<Rightarrow> int \<Rightarrow> data_ref \<Rightarrow> imr_member \<Rightarrow> imr_member option" where
  "imr_emplace fresh mode csz rank user m =
     (if mode = 1 then buddy_member fresh user m
      else if mode = 5 then parity_member fresh csz rank user m
      else None)"

text \<open>\<open>IMRGroup::init\<close>: the check that follows the initialisation of the base class.\<close>

definition imr_init :: "(nat \<Rightarrow> byte list) \<Rightarrow> group_coll \<Rightarrow> (group, unit) comp" where
  "imr_init fresh co =
     andThen (group_init fresh co) (\<lambda>_.
     andThen getS (\<lambda>g.
     andThen (liftO (gr_cohort g)) (\<lambda>c.
     throwIf (imr_mode (gr_policy g) = 5 \<and> comm_size c < 3) FENIX_ERROR_INVALID_POLICY_VALUE)))"

definition get_redundant_policy :: "policy \<Rightarrow> int \<times> int list" where
  "get_redundant_policy p = (13, [imr_mode p, imr_sep p] @ (if imr_mode p = 5 then [imr_set_size p] else []))"

section \<open>Parity\<close>

text \<open>How many elements are staged or protected by any rank.\<close>

definition data_count :: "imr_snapshot \<Rightarrow> nat option" where
  "data_count e = do {
     st \<leftarrow> those (map subset_max_count (sn_staged (im_own e)));
     pr \<leftarrow> those (map subset_max_count (sn_protected (im_own e)));
     Some (fold max (st @ pr) 0)
   }"

text \<open>
  The parity bytes of every rank: the data divided by the number of partners; if that leaves a
  remainder, one rank more than the remainder has one byte more.
\<close>

definition parity_split :: "int \<Rightarrow> int \<Rightarrow> int list" where
  "parity_split data_bytes n_partners =
     (let parity_bytes = data_bytes sdiv n_partners;
          remainder_bytes = data_bytes smod n_partners;
          remainder_bytes = (if remainder_bytes \<noteq> 0 then remainder_bytes + 1 else remainder_bytes)
      in map (\<lambda>i. if int i < remainder_bytes then parity_bytes + 1 else parity_bytes) [0..<nat (n_partners + 1)])"

definition prepare_for_parity :: "(nat \<Rightarrow> byte list) \<Rightarrow> nat \<Rightarrow> imr_snapshot \<Rightarrow> (int list \<times> imr_snapshot) option" where
  "prepare_for_parity fresh rank e = do {
     count \<leftarrow> data_count e;
     (let data_bytes = int_of_size (sz_mul count (sn_elm_size (im_own e)));
          n_partners = int (length (sn_staged (im_own e))) - 1;
          parity = parity_split data_bytes n_partners
      in do {
        fenix_assert (n_partners \<noteq> 0 \<and> rank < length parity);
        own \<leftarrow> (if int_of_size (db_size (sn_buf (im_own e))) < data_bytes
               then snap_resize fresh (size_of_int data_bytes) (im_own e) else Some (im_own e));
        e \<leftarrow> resize_partner fresh (parity ! rank) (e\<lparr>im_own := own\<rparr>);
        Some (parity, e)
      })
   }"

text \<open>Where a rank's bytes of one reduction are: its partner buffer, or its data from an offset.\<close>

datatype place = InPartner | InData nat

definition parity_place :: "nat \<Rightarrow> nat \<Rightarrow> nat \<Rightarrow> nat \<Rightarrow> nat \<Rightarrow> (place \<times> nat) option" where
  "parity_place rank bytes root len offset =
     (if rank = root then Some (InPartner, offset)
      else if offset + len > bytes then do {
        fenix_assert (offset + len = bytes + 1 \<and> 0 < offset);
        Some (InData (offset - 1), offset + len - 1)
      } else Some (InData offset, offset + len))"

fun parity_places :: "nat \<Rightarrow> nat \<Rightarrow> nat \<Rightarrow> nat \<Rightarrow> nat list \<Rightarrow> place list option" where
  "parity_places rank bytes root offset [] = Some []"
| "parity_places rank bytes root offset (len # lens) = do {
     (p, offset) \<leftarrow> parity_place rank bytes root len offset;
     ps \<leftarrow> parity_places rank bytes (Suc root) offset lens;
     Some (p # ps)
   }"

definition snap_bytes :: "snapshot \<Rightarrow> byte list" where
  "snap_bytes s = db_data (sn_buf s)"

definition set_bytes :: "byte list \<Rightarrow> snapshot \<Rightarrow> snapshot" where
  "set_bytes xs s = s\<lparr>sn_buf := put_data xs (sn_buf s)\<rparr>"

definition bytes_at :: "nat \<Rightarrow> place \<Rightarrow> imr_snapshot \<Rightarrow> byte list" where
  "bytes_at len p e = (case p of
       InPartner \<Rightarrow> take len (snap_bytes (im_partner e))
     | InData s \<Rightarrow> take len (drop s (snap_bytes (im_own e))))"

definition put_at :: "place \<Rightarrow> byte list \<Rightarrow> imr_snapshot \<Rightarrow> imr_snapshot" where
  "put_at p bs e = (case p of
       InPartner \<Rightarrow> e\<lparr>im_partner := set_bytes (overwrite 0 bs (snap_bytes (im_partner e))) (im_partner e)\<rparr>
     | InData s \<Rightarrow> e\<lparr>im_own := set_bytes (overwrite s bs (snap_bytes (im_own e))) (im_own e)\<rparr>)"

definition zero_partner :: "imr_snapshot \<Rightarrow> imr_snapshot" where
  "zero_partner e = e\<lparr>im_partner := set_bytes (replicate (db_size (sn_buf (im_partner e))) 0) (im_partner e)\<rparr>"

definition zero_own :: "imr_snapshot \<Rightarrow> imr_snapshot" where
  "zero_own e = e\<lparr>im_own := set_bytes (replicate (db_size (sn_buf (im_own e))) 0) (im_own e)\<rparr>"

text \<open>One reduction, received in place by the rank \<open>k\<close>.\<close>

definition xor_bytes :: "nat \<Rightarrow> byte list list \<Rightarrow> byte list" where
  "xor_bytes len rows = map (\<lambda>i. foldr (\<lambda>row x. row ! i XOR x) rows 0) [0..<len]"

definition reduce_into :: "nat \<Rightarrow> nat \<Rightarrow> place list \<Rightarrow> imr_snapshot list \<Rightarrow> imr_snapshot list" where
  "reduce_into k len ps es = es[k := put_at (ps ! k) (xor_bytes len (map2 (bytes_at len) ps es)) (es ! k)]"

text \<open>
  The loop over the roots: the offsets of a rank depend on no data, so \<open>places ! r\<close> are those of
  the rank \<open>r\<close> for every root.
\<close>

fun reduce_all :: "(nat \<Rightarrow> nat) \<Rightarrow> place list list \<Rightarrow> nat \<Rightarrow> nat list \<Rightarrow> imr_snapshot list \<Rightarrow> imr_snapshot list" where
  "reduce_all receiver places root [] es = es"
| "reduce_all receiver places root (len # lens) es =
     reduce_all receiver places (Suc root) lens
       (reduce_into (receiver root) len (map (\<lambda>ps. ps ! root) places) es)"

text \<open>Something that every rank computes, which MPI needs to be the same.\<close>

definition agreed :: "'a list \<Rightarrow> 'a option" where
  "agreed xs = (case xs of [] \<Rightarrow> None | x # ys \<Rightarrow> if \<forall>y \<in> set ys. y = x then Some x else None)"

definition on_ranks :: "(nat \<Rightarrow> 'a \<Rightarrow> 'b option) \<Rightarrow> 'a list \<Rightarrow> 'b list option" where
  "on_ranks f xs = those (map2 f [0..<length xs] xs)"

definition rank_places :: "nat list \<Rightarrow> imr_snapshot list \<Rightarrow> place list list option" where
  "rank_places lens = on_ranks (\<lambda>r e. parity_places r (db_size (sn_buf (im_own e))) 0 0 lens)"

text \<open>\<open>ParityMember::iprotect\<close> on the staging snapshots of a cohort.\<close>

definition imr_protected :: "imr_snapshot \<Rightarrow> imr_snapshot option" where
  "imr_protected e = do { s \<leftarrow> iprotect (im_own e); Some (e\<lparr>im_own := s\<rparr>) }"

definition parity_protect :: "(nat \<Rightarrow> byte list) \<Rightarrow> imr_snapshot list \<Rightarrow> imr_snapshot list option" where
  "parity_protect fresh es = do {
     prepared \<leftarrow> on_ranks (prepare_for_parity fresh) es;
     parity \<leftarrow> agreed (map fst prepared);
     fenix_assert (length parity = length es);
     (let lens = map nat parity; es = map (zero_partner \<circ> snd) prepared
      in do {
        places \<leftarrow> rank_places lens es;
        those (map imr_protected (reduce_all (\<lambda>root. root) places 0 lens es))
      })
   }"

text \<open>
  The part of \<open>ParityMember::repair\<close> that rebuilds the snapshot of the rank \<open>k\<close>.  The subsets
  come from the first rank that has them, by the broadcast of \<open>broadcast_subsets\<close>.
\<close>

definition same_protected :: "data_subset list \<Rightarrow> imr_snapshot \<Rightarrow> imr_snapshot" where
  "same_protected ds e = e\<lparr>im_own := (im_own e)\<lparr>sn_protected := ds\<rparr>\<rparr>"

definition rejoin :: "nat list \<Rightarrow> nat \<Rightarrow> imr_snapshot list \<Rightarrow> imr_snapshot list option" where
  "rejoin ranks sender es =
     (let es = map2 (\<lambda>r e. imr_reinit_cohort \<lparr>cm_ranks = ranks, cm_rank = r\<rparr> e) [0..<length es] es
      in do {
        fenix_assert (sender < length es);
        Some (map (same_protected (sn_protected (im_own (es ! sender)))) es)
      })"

definition parity_rebuild :: "(nat \<Rightarrow> byte list) \<Rightarrow> nat list \<Rightarrow> nat \<Rightarrow> imr_snapshot list \<Rightarrow> imr_snapshot list option" where
  "parity_rebuild fresh ranks k es = do {
     es \<leftarrow> rejoin ranks (if k = 0 then 1 else 0) es;
     prepared \<leftarrow> on_ranks (prepare_for_parity fresh) es;
     parity \<leftarrow> agreed (map fst prepared);
     (let lens = map nat parity; es = map snd prepared; es = es[k := zero_partner (zero_own (es ! k))]
      in do {
        places \<leftarrow> rank_places lens es;
        Some (reduce_all (\<lambda>_. k) places 0 lens es)
      })
   }"

section \<open>Buddies\<close>

definition left_of :: "nat \<Rightarrow> nat \<Rightarrow> nat" where
  "left_of n r = (if r = 0 then n - 1 else r - 1)"

definition right_of :: "nat \<Rightarrow> nat \<Rightarrow> nat" where
  "right_of n r = (if r = n - 1 then 0 else r + 1)"

text \<open>
  \<open>sendrecv\<close> of the elements that \<open>to_datatype\<close> selects: the sender packs them, and they arrive
  at the elements that the receiver's type selects.
\<close>

definition transfer :: "data_subset \<Rightarrow> data_subset \<Rightarrow> nat \<Rightarrow> byte list \<Rightarrow> byte list \<Rightarrow> byte list option" where
  "transfer d d' es src dst = do {
     _ \<leftarrow> to_datatype d;
     _ \<leftarrow> to_datatype d';
     p \<leftarrow> pack_data d es src;
     dst' \<leftarrow> unpack_data (\<lambda>_. []) d' es p dst;
     fenix_assert (length dst' = length dst);
     Some dst'
   }"

text \<open>\<open>BuddyMember::iprotect\<close> of the rank \<open>r\<close>, given the rank on its left.\<close>

definition buddy_receive :: "(nat \<Rightarrow> byte list) \<Rightarrow> imr_snapshot list \<Rightarrow> nat \<Rightarrow> imr_snapshot \<Rightarrow> imr_snapshot option" where
  "buddy_receive fresh es r e =
     (let left = left_of (length es) r; sender = im_own (es ! left)
      in do {
        mine \<leftarrow> staged_subset sender;
        theirs \<leftarrow> at_rank (sn_staged (im_own e)) (int left);
        partner \<leftarrow> add_and_fit fresh theirs (im_partner e);
        bytes \<leftarrow> transfer mine theirs (sn_elm_size (im_own e)) (snap_bytes sender) (snap_bytes partner);
        Some (e\<lparr>im_partner := set_bytes bytes partner\<rparr>)
      })"

definition buddy_protect :: "(nat \<Rightarrow> byte list) \<Rightarrow> imr_snapshot list \<Rightarrow> imr_snapshot list option" where
  "buddy_protect fresh es = do {
     es \<leftarrow> on_ranks (buddy_receive fresh es) es;
     those (map imr_protected es)
   }"

text \<open>\<open>recv_buf.recv(n)\<close>; the buffer may be longer than the message, not shorter.\<close>

definition receive :: "(nat \<Rightarrow> byte list) \<Rightarrow> int \<Rightarrow> byte list \<Rightarrow> byte list option" where
  "receive fresh n msg = do {
     fenix_assert (length msg \<le> size_of_int n \<and> size_of_int n \<le> IDX_MAX);
     Some (msg @ drop (length msg) (fresh (size_of_int n)))
   }"

text \<open>A snapshot takes a subset of a message of as many elements as it expects.\<close>

definition max_element :: "snapshot \<Rightarrow> nat" where
  "max_element s = size_of_int (i32 (sn_max_count s - 1))"

definition receive_elements :: "(nat \<Rightarrow> byte list) \<Rightarrow> data_subset \<Rightarrow> nat \<Rightarrow> nat \<Rightarrow> byte list \<Rightarrow> snapshot \<Rightarrow> snapshot option" where
  "receive_elements fresh d last_elm es msg s = do {
     n \<leftarrow> subset_count d last_elm;
     buf \<leftarrow> receive fresh (i32 (int_of_size n * int es)) msg;
     xs \<leftarrow> unpack_data fresh d es buf (snap_bytes s);
     Some (s\<lparr>sn_buf := (if length xs = db_size (sn_buf s) then put_data xs (sn_buf s)
       else put_data xs (resize fresh (length xs) (sn_buf s)))\<rparr>)
   }"

text \<open>
  \<open>BuddyMember::repair\<close>: the snapshot of the rank \<open>k\<close> from its neighbours, after all have the
  protected subsets from the last rank that has the snapshot.
\<close>

definition buddy_refill :: "(nat \<Rightarrow> byte list) \<Rightarrow> nat \<Rightarrow> imr_snapshot list \<Rightarrow> imr_snapshot list option" where
  "buddy_refill fresh k es =
     (let right = es ! right_of (length es) k; left = es ! left_of (length es) k; e = es ! k
      in do {
        theirs \<leftarrow> staged_subset (im_partner right);
        from_right \<leftarrow> pack_data theirs (sn_elm_size (im_own right)) (snap_bytes (im_partner right));
        sent \<leftarrow> protected_subset (im_own left);
        from_left \<leftarrow> pack_data sent (sn_elm_size (im_own left)) (snap_bytes (im_own left));
        mine \<leftarrow> protected_subset (im_own e);
        own \<leftarrow> add_and_fit fresh mine (im_own e);
        own \<leftarrow> receive_elements fresh mine (max_element own) (sn_elm_size own) from_right own;
        kept \<leftarrow> at_rank (sn_protected own) (int (left_of (length es) k));
        partner \<leftarrow> add_and_fit fresh kept (im_partner e);
        wanted \<leftarrow> staged_subset partner;
        partner \<leftarrow> receive_elements fresh wanted (max_element own) (sn_elm_size own) from_left partner;
        Some (es[k := \<lparr>im_own = own, im_partner = partner\<rparr>])
      })"

definition buddy_rebuild :: "(nat \<Rightarrow> byte list) \<Rightarrow> nat list \<Rightarrow> nat \<Rightarrow> imr_snapshot list \<Rightarrow> imr_snapshot list option" where
  "buddy_rebuild fresh ranks k es = do {
     fenix_assert (2 \<le> length es \<and> length es \<le> 3);
     es \<leftarrow> rejoin ranks (if k = length es - 1 then length es - 2 else length es - 1) es;
     buddy_refill fresh k es
   }"

section \<open>Repair of every committed snapshot\<close>

abbreviation im_timestamp :: "imr_snapshot \<Rightarrow> int" where
  "im_timestamp e \<equiv> sn_timestamp (im_own e)"

text \<open>The snapshot of a timestamp, or an unused one that is reset for it.\<close>

definition repair_entry :: "(nat \<Rightarrow> byte list) \<Rightarrow> int \<Rightarrow> imr_member \<Rightarrow> (bool \<times> imr_snapshot) option" where
  "repair_entry fresh ts m = (case kset_find im_timestamp ts (iv_commits m) of
       Some e \<Rightarrow> Some (True, e)
     | None \<Rightarrow> if iv_avail m = [] then None else Some (False, imr_reset fresh (last (iv_avail m))))"

definition put_entry :: "bool \<times> imr_snapshot \<Rightarrow> imr_member \<Rightarrow> imr_member" where
  "put_entry fe m = (case fe of
       (True, e) \<Rightarrow> m\<lparr>iv_commits := kset_update im_timestamp e (iv_commits m)\<rparr>
     | (False, e) \<Rightarrow> m\<lparr>iv_avail := butlast (iv_avail m) @ [e]\<rparr>)"

definition commit_entry :: "int \<Rightarrow> imr_snapshot \<Rightarrow> imr_member \<Rightarrow> imr_member" where
  "commit_entry ts e m = m\<lparr>iv_avail := butlast (iv_avail m),
     iv_commits := kset_insert im_timestamp (e\<lparr>im_own := (im_own e)\<lparr>sn_timestamp := ts\<rparr>\<rparr>) (iv_commits m)\<rparr>"

text \<open>The only rank without the snapshot; more than one cannot be repaired.\<close>

definition single_missing :: "bool list \<Rightarrow> nat option" where
  "single_missing found = (case filter (\<lambda>i. \<not> found ! i) [0..<length found] of [k] \<Rightarrow> Some k | _ \<Rightarrow> None)"

definition repair_ts ::
  "(nat \<Rightarrow> byte list) \<Rightarrow> (nat \<Rightarrow> imr_snapshot list \<Rightarrow> imr_snapshot list option) \<Rightarrow> int \<Rightarrow> imr_member list \<Rightarrow> imr_member list option" where
  "repair_ts fresh rebuild ts ms = do {
     entries \<leftarrow> those (map (repair_entry fresh ts) ms);
     (case single_missing (map fst entries) of
        None \<Rightarrow> Some (map2 put_entry entries ms)
      | Some k \<Rightarrow> do {
          es \<leftarrow> rebuild k (map snd entries);
          Some (map2 (\<lambda>(found, e) m. if found then put_entry (True, e) m else commit_entry ts e m)
            (zip (map fst entries) es) ms)
        })
   }"

fun repair_each :: "(int \<Rightarrow> 'a \<Rightarrow> 'a option) \<Rightarrow> int list \<Rightarrow> 'a \<Rightarrow> 'a option" where
  "repair_each f [] x = Some x"
| "repair_each f (t # ts) x = do { x \<leftarrow> f t x; repair_each f ts x }"

definition reinit_stages :: "nat list \<Rightarrow> imr_member list \<Rightarrow> imr_member list" where
  "reinit_stages ranks ms =
     map2 (\<lambda>r m. m\<lparr>iv_stage := imr_reinit_cohort \<lparr>cm_ranks = ranks, cm_rank = r\<rparr> (iv_stage m)\<rparr>) [0..<length ms] ms"

definition parity_repair :: "(nat \<Rightarrow> byte list) \<Rightarrow> nat list \<Rightarrow> int list \<Rightarrow> imr_member list \<Rightarrow> imr_member list option" where
  "parity_repair fresh ranks timestamps ms =
     repair_each (repair_ts fresh (parity_rebuild fresh ranks)) timestamps (reinit_stages ranks ms)"

definition buddy_repair :: "(nat \<Rightarrow> byte list) \<Rightarrow> nat list \<Rightarrow> int list \<Rightarrow> imr_member list \<Rightarrow> imr_member list option" where
  "buddy_repair fresh ranks timestamps ms =
     repair_each (repair_ts fresh (buddy_rebuild fresh ranks)) timestamps (reinit_stages ranks ms)"

section \<open>The group\<close>

text \<open>
  An \<open>IMRGroup\<close> is a group with two buffers for its messages, which it empties after a commit and a repair; restoring from a
  rank is not supported.
\<close>

record imr_group =
  ig_group :: group
  ig_send :: data_buffer
  ig_recv :: data_buffer

definition scrub :: "(nat \<Rightarrow> byte list) \<Rightarrow> data_buffer \<Rightarrow> data_buffer" where
  "scrub fresh b = shrink_to_fit fresh (db_clear fresh b)"

definition then_scrub :: "(nat \<Rightarrow> byte list) \<Rightarrow> (group, unit) comp \<Rightarrow> (imr_group, unit) comp" where
  "then_scrub fresh body s =
     (case body (ig_group s) of
        (Inl e, g) \<Rightarrow> (Inl e, s\<lparr>ig_group := g\<rparr>)
      | (Inr _, g) \<Rightarrow> (Inr (), \<lparr>ig_group = g, ig_send = scrub fresh (ig_send s), ig_recv = scrub fresh (ig_recv s)\<rparr>))"

definition imr_commit :: "(nat \<Rightarrow> byte list) \<Rightarrow> (imr_group, unit) comp" where
  "imr_commit fresh = then_scrub fresh (group_commit fresh)"

definition imr_member_repair ::
  "(nat \<Rightarrow> byte list) \<Rightarrow> (mpi_type \<Rightarrow> byte list) \<Rightarrow> (byte list \<Rightarrow> failure + mpi_type) \<Rightarrow> group_coll \<Rightarrow> int \<Rightarrow> (imr_group, unit) comp" where
  "imr_member_repair fresh ds_put ds_get co mid = then_scrub fresh (group_member_repair fresh ds_put ds_get co mid)"

definition imr_restore_from_rank :: "(imr_group, unit) comp" where
  "imr_restore_from_rank = fail Abort"

lemma scrub_frees: "alloc_size (scrub fresh b) = 0 \<and> db_size (scrub fresh b) = 0"
  by (simp add: scrub_def db_clear_def resize_def shrink_to_fit_def realloc_buf_def free_buf_def empty_buffer_def alloc_size_def Let_def)

end
