(* ===== verification/Parity_Facts.thy ===== *)
theory Parity_Facts
  imports Imr Member_Facts
begin

text \<open>
  The parity members of src/data/policy_imr.cpp: what the reductions of \<open>iprotect\<close> leave in the
  partner buffers, and when those of \<open>repair\<close> restore the rank that lost its snapshot.
\<close>

section \<open>Exclusive or of rows\<close>

definition xor_sum :: "nat list \<Rightarrow> nat" where
  "xor_sum xs = foldr (XOR) xs 0"

lemma xor_sum_simps [simp]: "xor_sum [] = 0" "xor_sum (x # xs) = x XOR xor_sum xs"
  by (simp_all add: xor_sum_def)

lemma xor_cancel: "x XOR (x XOR y) = (y :: nat)"
  by (simp flip: xor.assoc)

lemma xor_sum_update: "k < length xs \<Longrightarrow> xor_sum (xs[k := v]) = xor_sum xs XOR (xs ! k XOR v)"
proof (induction xs arbitrary: k)
  case (Cons x xs)
  then show ?case by (cases k) (simp_all add: xor_cancel ac_simps)
qed simp

lemma xor_bytes_nth: "i < len \<Longrightarrow> xor_bytes len rows ! i = xor_sum (map (\<lambda>row. row ! i) rows)"
  by (simp add: xor_bytes_def xor_sum_def foldr_map o_def)

lemma length_xor_bytes [simp]: "length (xor_bytes len rows) = len"
  by (simp add: xor_bytes_def)

text \<open>Replacing a row by another changes the result by both.\<close>

lemma xor_bytes_update:
  assumes "k < length rows" "i < len"
  shows "xor_bytes len (rows[k := v]) ! i = xor_bytes len rows ! i XOR (rows ! k ! i XOR v ! i)"
  using assms by (simp add: xor_bytes_nth map_update xor_sum_update)

lemma xor_bytes_zero_row:
  assumes k: "k < length rows" and z: "xor_bytes len rows = replicate len 0" and l: "length (rows ! k) = len"
  shows "xor_bytes len (rows[k := replicate len 0]) = rows ! k"
proof (rule nth_equalityI)
  fix i assume i: "i < length (xor_bytes len (rows[k := replicate len 0]))"
  then show "xor_bytes len (rows[k := replicate len 0]) ! i = rows ! k ! i"
    using k z by (simp add: xor_bytes_update)
qed (simp add: l)

lemma xor_bytes_close_row:
  assumes k: "k < length rows" and z: "rows ! k = replicate len 0"
  shows "xor_bytes len (rows[k := xor_bytes len rows]) = replicate len 0"
  by (rule nth_equalityI) (use k z in \<open>simp_all add: xor_bytes_update\<close>)

section \<open>Buffers\<close>

lemma length_snap_bytes: "db_ok (sn_buf s) \<Longrightarrow> length (snap_bytes s) = db_size (sn_buf s)"
  by (simp add: snap_bytes_def db_data_def db_ok_def alloc_size_def)

lemma set_bytes_sel:
  assumes "length xs = db_size (sn_buf s)"
  shows "snap_bytes (set_bytes xs s) = xs" "db_ok (sn_buf (set_bytes xs s))"
    "db_size (sn_buf (set_bytes xs s)) = db_size (sn_buf s)"
  using put_data_sel [OF assms] by (simp_all add: snap_bytes_def set_bytes_def)

lemma set_bytes_twice: "length xs = db_size (sn_buf s) \<Longrightarrow> length ys = length xs \<Longrightarrow> set_bytes ys (set_bytes xs s) = set_bytes ys s"
  by (simp add: set_bytes_def put_data_def)

lemma set_bytes_same:
  assumes "db_ok (sn_buf s)"
  shows "set_bytes (snap_bytes s) s = s"
  using assms by (simp add: set_bytes_def put_data_def snap_bytes_def db_data_def)

lemma set_bytes_fields [simp]: "sn_protected (set_bytes xs s) = sn_protected s" "sn_staged (set_bytes xs s) = sn_staged s"
  "sn_rank (set_bytes xs s) = sn_rank s" "sn_elm_size (set_bytes xs s) = sn_elm_size s"
  "db_size (sn_buf (set_bytes xs s)) = db_size (sn_buf s)"
  by (simp_all add: set_bytes_def put_data_def)

lemma overwrite_zeros:
  assumes "length xs = n" "o' = s + len" "o' \<le> n"
  shows "overwrite s (take len (drop s xs)) (take s xs @ replicate (n - s) 0) = take o' xs @ replicate (n - o') 0"
proof -
  have "take o' xs = take s xs @ take len (drop s xs)" using assms by (simp add: take_add)
  then show ?thesis using assms by (simp add: overwrite_def)
qed

section \<open>The loop over the roots\<close>

definition column :: "place list list \<Rightarrow> nat \<Rightarrow> place list" where
  "column places j = map (\<lambda>ps. ps ! j) places"

definition rows :: "place list list \<Rightarrow> nat list \<Rightarrow> nat \<Rightarrow> imr_snapshot list \<Rightarrow> byte list list" where
  "rows places lens j es = map2 (bytes_at (lens ! j)) (column places j) es"

lemma rows_nth: "r < length es \<Longrightarrow> r < length places \<Longrightarrow> rows places lens j es ! r = bytes_at (lens ! j) (places ! r ! j) (es ! r)"
  by (simp add: rows_def column_def)

lemma length_rows: "length places = length es \<Longrightarrow> length (rows places lens j es) = length es"
  by (simp add: rows_def column_def)

lemma reduce_all_fold:
  "reduce_all receiver places root lens es
    = fold (\<lambda>j. reduce_into (receiver j) (lens ! (j - root)) (column places j)) [root..<root + length lens] es"
proof (induction lens arbitrary: root es)
  case (Cons len lens)
  let ?f = "\<lambda>lens root j. reduce_into (receiver j) (lens ! (j - root)) (column places j)"
  have up: "[root..<root + length (len # lens)] = root # [Suc root..<Suc root + length lens]" by (simp add: upt_rec)
  have "fold (?f (len # lens) root) [Suc root..<Suc root + length lens] es'
      = fold (?f lens (Suc root)) [Suc root..<Suc root + length lens] es'" for es'
    by (rule fold_cong) (auto simp: Suc_le_eq nth_Cons' intro!: ext)
  then show ?case unfolding up using Cons.IH by (simp add: column_def)
qed simp

text \<open>The state after the first \<open>n\<close> reductions.\<close>

definition reduced :: "(nat \<Rightarrow> nat) \<Rightarrow> place list list \<Rightarrow> nat list \<Rightarrow> nat \<Rightarrow> imr_snapshot list \<Rightarrow> imr_snapshot list" where
  "reduced receiver places lens n = fold (\<lambda>j. reduce_into (receiver j) (lens ! j) (column places j)) [0..<n]"

lemma reduced_Suc:
  assumes "receiver n < length places"
  shows "reduced receiver places lens (Suc n) es
    = (let es' = reduced receiver places lens n es
       in es'[receiver n := put_at (places ! receiver n ! n) (xor_bytes (lens ! n) (rows places lens n es')) (es' ! receiver n)])"
  using assms by (simp_all add: reduced_def reduce_into_def rows_def column_def Let_def)

lemma reduced_0 [simp]: "reduced receiver places lens 0 es = es"
  by (simp add: reduced_def)

lemma length_reduced [simp]: "length (reduced receiver places lens n es) = length es"
  by (induction n) (simp_all add: reduced_def reduce_into_def)

lemma reduce_all_reduced: "reduce_all receiver places 0 lens es = reduced receiver places lens (length lens) es"
  by (simp add: reduce_all_fold reduced_def)

text \<open>Every rank takes part with its partner buffer in the reduction to itself only.\<close>

definition placed :: "nat \<Rightarrow> nat \<Rightarrow> place list \<Rightarrow> bool" where
  "placed n r ps \<longleftrightarrow> (\<forall>j < n. if j = r then ps ! j = InPartner else ps ! j \<noteq> InPartner)"

definition all_placed :: "nat \<Rightarrow> place list list \<Rightarrow> bool" where
  "all_placed n places \<longleftrightarrow> length places = n \<and> (\<forall>r < n. placed n r (places ! r))"

lemma bytes_at_data: "p \<noteq> InPartner \<Longrightarrow> im_own e = im_own e' \<Longrightarrow> bytes_at len p e = bytes_at len p e'"
  by (simp add: bytes_at_def split: place.split)

section \<open>What the reductions of \<open>iprotect\<close> leave\<close>

text \<open>The parity: at every root, the rows of all ranks cancel.\<close>

definition parity_holds :: "place list list \<Rightarrow> nat list \<Rightarrow> imr_snapshot list \<Rightarrow> bool" where
  "parity_holds places lens es \<longleftrightarrow> (\<forall>j < length lens. xor_bytes (lens ! j) (rows places lens j es) = replicate (lens ! j) 0)"

definition zero_partners :: "nat list \<Rightarrow> imr_snapshot list \<Rightarrow> bool" where
  "zero_partners lens es \<longleftrightarrow> (\<forall>r < length es. db_ok (sn_buf (im_partner (es ! r))) \<and>
     snap_bytes (im_partner (es ! r)) = replicate (lens ! r) 0)"

definition with_parity :: "place list list \<Rightarrow> nat list \<Rightarrow> imr_snapshot list \<Rightarrow> nat \<Rightarrow> imr_snapshot" where
  "with_parity places lens es r =
     (es ! r)\<lparr>im_partner := set_bytes (xor_bytes (lens ! r) (rows places lens r es)) (im_partner (es ! r))\<rparr>"

lemma protect_reduced:
  assumes p: "all_placed (length es) places" and z: "zero_partners lens es" and n: "n \<le> length es"
  shows "reduced (\<lambda>j. j) places lens n es = map (with_parity places lens es) [0..<n] @ drop n es"
  using n
proof (induction n)
  case (Suc n)
  let ?E = "map (with_parity places lens es) [0..<n] @ drop n es"
  have n: "n < length es" "length places = length es" using Suc.prems p by (simp_all add: all_placed_def)
  have IH: "reduced (\<lambda>j. j) places lens n es = ?E" using Suc by simp
  have at: "?E ! n = es ! n" "length ?E = length es" using n by (simp_all add: nth_append)
  have own: "im_own (?E ! r) = im_own (es ! r)" if "r < length es" for r
    using that by (simp add: nth_append with_parity_def)
  have same: "rows places lens n ?E = rows places lens n es"
  proof (rule nth_equalityI)
    fix r assume "r < length (rows places lens n ?E)"
    then have r: "r < length es" using n(2) at(2) by (simp add: length_rows)
    have pl: "placed (length es) r (places ! r)" using p r by (simp add: all_placed_def)
    show "rows places lens n ?E ! r = rows places lens n es ! r"
    proof (cases "r = n")
      case True
      then show ?thesis using r n at by (simp add: rows_nth)
    next
      case False
      then have "places ! r ! n \<noteq> InPartner" using pl n(1) by (auto simp: placed_def)
      then show ?thesis
        using r n(2) at(2) bytes_at_data [of "places ! r ! n" "?E ! r" "es ! r"] own [of r] by (simp add: rows_nth)
    qed
  qed (use n(2) at(2) in \<open>simp add: length_rows\<close>)
  have here: "places ! n ! n = InPartner" using p n(1) by (simp add: all_placed_def placed_def)
  have "length (snap_bytes (im_partner (es ! n))) = lens ! n" using z n(1) by (simp add: zero_partners_def)
  then have put: "put_at (places ! n ! n) (xor_bytes (lens ! n) (rows places lens n es)) (es ! n) = with_parity places lens es n"
    by (simp add: here put_at_def with_parity_def overwrite_all)
  have "reduced (\<lambda>j. j) places lens (Suc n) es = ?E[n := with_parity places lens es n]"
    using reduced_Suc [of "\<lambda>j. j" n places lens es] n by (simp add: IH same at put)
  also have "\<dots> = map (with_parity places lens es) [0..<Suc n] @ drop (Suc n) es"
    using n(1) by (simp add: list_update_append flip: Cons_nth_drop_Suc)
  finally show ?case .
qed simp

lemma protect_parity:
  assumes p: "all_placed (length es) places" and z: "zero_partners lens es" and l: "length lens = length es"
  shows "reduced (\<lambda>j. j) places lens (length es) es = map (with_parity places lens es) [0..<length es]"
    "parity_holds places lens (map (with_parity places lens es) [0..<length es])"
proof -
  let ?W = "map (with_parity places lens es) [0..<length es]"
  show "reduced (\<lambda>j. j) places lens (length es) es = ?W" using protect_reduced [OF p z order_refl] by simp
  have len: "length places = length es" using p by (simp add: all_placed_def)
  show "parity_holds places lens ?W"
    unfolding parity_holds_def
  proof (intro allI impI)
    fix j assume "j < length lens"
    then have j: "j < length es" using l by simp
    have zj: "snap_bytes (im_partner (es ! j)) = replicate (lens ! j) 0" "db_ok (sn_buf (im_partner (es ! j)))"
      using z j by (simp_all add: zero_partners_def)
    have here: "places ! j ! j = InPartner" using p j by (simp add: all_placed_def placed_def)
    have size: "db_size (sn_buf (im_partner (es ! j))) = lens ! j" using length_snap_bytes [OF zj(2)] zj(1) by simp
    have zero: "rows places lens j es ! j = replicate (lens ! j) 0"
      using j len here zj(1) by (simp add: rows_nth bytes_at_def)
    have new: "rows places lens j ?W = (rows places lens j es)[j := xor_bytes (lens ! j) (rows places lens j es)]"
    proof (rule nth_equalityI)
      fix r assume "r < length (rows places lens j ?W)"
      then have r: "r < length es" using len by (simp add: length_rows)
      show "rows places lens j ?W ! r = (rows places lens j es)[j := xor_bytes (lens ! j) (rows places lens j es)] ! r"
      proof (cases "r = j")
        case True
        then show ?thesis
          using j len here size by (simp add: rows_nth length_rows bytes_at_def with_parity_def set_bytes_sel)
      next
        case False
        then have "places ! r ! j \<noteq> InPartner" using p r j by (auto simp: all_placed_def placed_def)
        then show ?thesis
          using False r len bytes_at_data [of "places ! r ! j" "with_parity places lens es r" "es ! r"]
          by (simp add: rows_nth with_parity_def)
      qed
    qed (simp add: length_rows len)
    show "xor_bytes (lens ! j) (rows places lens j ?W) = replicate (lens ! j) 0"
      unfolding new by (rule xor_bytes_close_row) (use j len zero in \<open>simp_all add: length_rows\<close>)
  qed
qed

section \<open>What the reductions of \<open>repair\<close> restore\<close>

text \<open>The bytes of the data that the rank \<open>k\<close> contributes before the root \<open>j\<close>.\<close>

definition before :: "nat \<Rightarrow> nat list \<Rightarrow> nat \<Rightarrow> nat" where
  "before k lens j = (\<Sum>i < j. if i = k then 0 else lens ! i)"

lemma before_simps [simp]: "before k lens 0 = 0"
  "before k lens (Suc j) = before k lens j + (if j = k then 0 else lens ! j)"
  by (simp_all add: before_def)

lemma before_mono: "i \<le> j \<Longrightarrow> before k lens i \<le> before k lens j"
  by (induction j) (auto simp: le_Suc_eq)

definition exact_place :: "nat \<Rightarrow> nat list \<Rightarrow> nat \<Rightarrow> place" where
  "exact_place k lens j = (if j = k then InPartner else InData (before k lens j))"

text \<open>A snapshot with other bytes in both buffers.\<close>

definition with_bytes :: "byte list \<Rightarrow> byte list \<Rightarrow> imr_snapshot \<Rightarrow> imr_snapshot" where
  "with_bytes own partner e =
     e\<lparr>im_own := set_bytes own (im_own e), im_partner := set_bytes partner (im_partner e)\<rparr>"

definition sized :: "nat \<Rightarrow> nat \<Rightarrow> imr_snapshot \<Rightarrow> bool" where
  "sized D P e \<longleftrightarrow> db_ok (sn_buf (im_own e)) \<and> db_ok (sn_buf (im_partner e)) \<and>
     db_size (sn_buf (im_own e)) = D \<and> db_size (sn_buf (im_partner e)) = P"

lemma sized_bytes:
  assumes "sized D P e"
  shows "length (snap_bytes (im_own e)) = D" "length (snap_bytes (im_partner e)) = P"
  using assms by (simp_all add: sized_def length_snap_bytes)

lemma with_bytes_sel:
  assumes "sized D P e" "length own = D" "length partner = P"
  shows "snap_bytes (im_own (with_bytes own partner e)) = own"
    "snap_bytes (im_partner (with_bytes own partner e)) = partner" "sized D P (with_bytes own partner e)"
  using assms by (simp_all add: with_bytes_def sized_def set_bytes_sel)

lemma with_bytes_same: "sized D P e \<Longrightarrow> with_bytes (snap_bytes (im_own e)) (snap_bytes (im_partner e)) e = e"
  by (simp add: with_bytes_def sized_def set_bytes_same)

lemma put_at_with_bytes:
  assumes e: "sized D P e" "length own = D" "length partner = P"
  shows "length bs = P \<Longrightarrow> put_at InPartner bs (with_bytes own partner e) = with_bytes own bs e"
    "s + length bs \<le> D \<Longrightarrow> put_at (InData s) bs (with_bytes own partner e) = with_bytes (overwrite s bs own) partner e"
proof -
  note sel = with_bytes_sel(1,2) [OF e]
  have sz: "db_size (sn_buf (im_own e)) = D" "db_size (sn_buf (im_partner e)) = P" using e(1) by (simp_all add: sized_def)
  show "length bs = P \<Longrightarrow> put_at InPartner bs (with_bytes own partner e) = with_bytes own bs e"
    using sz e(2,3) by (simp add: put_at_def sel overwrite_all) (simp add: with_bytes_def set_bytes_twice)
  show "s + length bs \<le> D \<Longrightarrow> put_at (InData s) bs (with_bytes own partner e) = with_bytes (overwrite s bs own) partner e"
    using sz e(2,3) by (simp add: put_at_def sel) (simp add: with_bytes_def set_bytes_twice length_overwrite)
qed

text \<open>One reduction into the rank \<open>k\<close>, when what it contributes is all zero.\<close>

lemma rows_update:
  assumes "length places = length es" "k < length es"
  shows "rows places lens j (es[k := e]) = (rows places lens j es)[k := bytes_at (lens ! j) (places ! k ! j) e]"
  using assms by (intro nth_equalityI) (auto simp: length_rows rows_nth nth_list_update)

lemma reduce_missing:
  assumes p: "length places = length es" "k < length es" and j: "j < length lens" and h: "parity_holds places lens es"
    and z: "bytes_at (lens ! j) (places ! k ! j) e = replicate (lens ! j) 0"
    and l: "length (bytes_at (lens ! j) (places ! k ! j) (es ! k)) = lens ! j"
  shows "xor_bytes (lens ! j) (rows places lens j (es[k := e])) = bytes_at (lens ! j) (places ! k ! j) (es ! k)"
  using xor_bytes_zero_row [of k "rows places lens j es" "lens ! j"] assms
  by (simp add: rows_update length_rows rows_nth parity_holds_def)

lemma repair_reduced:
  assumes p: "length places = length es" "k < length es" "length lens = length es" and h: "parity_holds places lens es"
    and ex: "\<forall>j < m. places ! k ! j = exact_place k lens j" "m \<le> length es"
    and own: "sized S (lens ! k) (es ! k)" "D \<le> S" and D: "before k lens m \<le> D"
    and z: "sized D (lens ! k) z" "snap_bytes (im_own z) = replicate D 0" "snap_bytes (im_partner z) = replicate (lens ! k) 0"
    and n: "n \<le> m"
  shows "reduced (\<lambda>_. k) places lens n (es[k := z]) =
    es[k := with_bytes (take (before k lens n) (take D (snap_bytes (im_own (es ! k)))) @ replicate (D - before k lens n) 0)
      (if k < n then snap_bytes (im_partner (es ! k)) else replicate (lens ! k) 0) z]"
  using n
proof (induction n)
  case 0
  then show ?case using with_bytes_same [OF z(1)] z(2,3) by simp
next
  case (Suc n)
  let ?X = "take D (snap_bytes (im_own (es ! k)))" and ?P = "snap_bytes (im_partner (es ! k))" and ?b = "before k lens n"
  let ?own = "take ?b ?X @ replicate (D - ?b) 0" and ?partner = "if k < n then ?P else replicate (lens ! k) 0"
  let ?e = "with_bytes ?own ?partner z" and ?len = "lens ! n"
  have n: "n < m" "n < length es" using Suc.prems ex(2) by simp_all
  have IH: "reduced (\<lambda>_. k) places lens n (es[k := z]) = es[k := ?e]" using Suc by simp
  have lX: "length ?X = D" "length (snap_bytes (im_own (es ! k))) = S" "length ?P = lens ! k"
    using sized_bytes [OF own(1)] own(2) by simp_all
  have bD: "before k lens (Suc n) \<le> D" using before_mono [of "Suc n" m k lens] n D by simp
  have bn: "?b \<le> D" using before_mono [of n "Suc n" k lens] bD by simp
  have lo: "length ?own = D" "length ?partner = lens ! k" using lX bn by simp_all
  note sel = with_bytes_sel(1,2) [OF z(1) lo]
  have pk: "places ! k ! n = exact_place k lens n" using ex(1) n(1) by simp
  have "bytes_at ?len (places ! k ! n) ?e = (if n = k then take ?len ?partner else take ?len (drop ?b ?own))"
    unfolding pk exact_place_def bytes_at_def sel by (simp only: place.case split: if_splits) blast
  moreover have "drop ?b ?own = replicate (D - ?b) 0" "?len \<le> D - ?b" if "n \<noteq> k" using that lX bn bD by simp_all
  ultimately have zero: "bytes_at ?len (places ! k ! n) ?e = replicate ?len 0"
    by (cases "n = k") (simp_all only: if_True if_False, simp_all add: min_absorb1)
  have there: "bytes_at ?len (places ! k ! n) (es ! k) = (if n = k then ?P else take ?len (drop ?b ?X))"
    using bD lX own(2) by (auto simp: pk exact_place_def bytes_at_def drop_take min_absorb1)
  have lt: "length (bytes_at ?len (places ! k ! n) (es ! k)) = ?len" using bD lX by (auto simp: there)
  have xor: "xor_bytes ?len (rows places lens n (es[k := ?e])) = bytes_at ?len (places ! k ! n) (es ! k)"
    by (rule reduce_missing [OF p(1,2) _ h zero lt]) (use n p(3) in simp)
  have put: "put_at (places ! k ! n) (bytes_at ?len (places ! k ! n) (es ! k)) ?e
      = with_bytes (take (before k lens (Suc n)) ?X @ replicate (D - before k lens (Suc n)) 0)
        (if k < Suc n then ?P else replicate (lens ! k) 0) z"
  proof (cases "n = k")
    case True
    then have pl: "places ! k ! n = InPartner" "bytes_at ?len (places ! k ! n) (es ! k) = ?P"
      using pk there by (simp_all add: exact_place_def)
    have "before k lens (Suc n) = ?b" "k < Suc n" using True by simp_all
    then show ?thesis
      unfolding pl(2) unfolding pl(1) using put_at_with_bytes(1) [OF z(1) lo, of ?P] lX(3) by (simp only: if_True)
  next
    case False
    then have pl: "places ! k ! n = InData ?b" "bytes_at ?len (places ! k ! n) (es ! k) = take ?len (drop ?b ?X)"
      using pk there by (simp_all add: exact_place_def)
    have ov: "overwrite ?b (take ?len (drop ?b ?X)) ?own
        = take (before k lens (Suc n)) ?X @ replicate (D - before k lens (Suc n)) 0"
      by (rule overwrite_zeros) (use lX bD False in simp_all)
    have "k < Suc n \<longleftrightarrow> k < n" "?b + length (take ?len (drop ?b ?X)) \<le> D" using False lX bD by auto
    then show ?thesis
      unfolding pl(2) unfolding pl(1) using put_at_with_bytes(2) [OF z(1) lo, of ?b "take ?len (drop ?b ?X)"]
      by (simp only: ov)
  qed
  have "k < length places" using p by simp
  from reduced_Suc [of "\<lambda>_. k" n places lens "es[k := z]", OF this] p(2)
  show ?case unfolding IH Let_def
    by (simp only: nth_list_update_eq length_list_update list_update_overwrite xor put)
qed

lemma repair_exact:
  assumes p: "length places = length es" "k < length es" "length lens = length es" and h: "parity_holds places lens es"
    and ex: "\<forall>j < length es. places ! k ! j = exact_place k lens j"
    and own: "sized S (lens ! k) (es ! k)" "D \<le> S" and D: "D = before k lens (length es)"
    and z: "sized D (lens ! k) z" "snap_bytes (im_own z) = replicate D 0" "snap_bytes (im_partner z) = replicate (lens ! k) 0"
  shows "reduced (\<lambda>_. k) places lens (length es) (es[k := z]) =
    es[k := with_bytes (take D (snap_bytes (im_own (es ! k)))) (snap_bytes (im_partner (es ! k))) z]"
  using repair_reduced [OF p h ex order_refl own _ z order_refl] p D by simp

end
