(* ===== verification/Parity_Layout.thy ===== *)
theory Parity_Layout
  imports Parity_Facts
begin

text \<open>
  How the parity of a cohort is laid out: the data bytes that \<open>prepare_for_parity\<close> counts, the
  parity bytes it gives to every rank, and where the loops over the roots find a rank's bytes.
\<close>

section \<open>Counting the data\<close>

text \<open>The number of elements that holds a set of indices.\<close>

definition bound_of :: "nat set \<Rightarrow> nat \<Rightarrow> bool" where
  "bound_of U c \<longleftrightarrow> U \<subseteq> {..<c} \<and> (c = 0 \<or> c - 1 \<in> U)"

lemma bound_of_le: "bound_of U c \<Longrightarrow> U \<subseteq> {..<n} \<Longrightarrow> c \<le> n"
  by (auto simp: bound_of_def)

lemma bound_of_unique: "bound_of U a \<Longrightarrow> bound_of U b \<Longrightarrow> a = b"
  using bound_of_le [of U a b] bound_of_le [of U b a] by (auto simp: bound_of_def)

lemma bound_of_union: "bound_of A a \<Longrightarrow> bound_of B b \<Longrightarrow> bound_of (A \<union> B) (max a b)"
  by (auto simp: bound_of_def max_def)

lemma bound_of_empty: "bound_of {} 0"
  by (simp add: bound_of_def)

definition elems_of :: "data_subset list \<Rightarrow> nat set" where
  "elems_of ds = (\<Union>d \<in> set ds. subset_elems d)"

lemma max_count_bound:
  assumes "subset_ok st d" "subset_elems d \<subseteq> {..<n}" "n \<le> IDX_MAX"
  shows "\<exists>c. subset_max_count d = Some c \<and> bound_of (subset_elems d) c"
proof -
  obtain R where R: "d = basic_subset R" "regions_ok st R"
    using subset_ok_basic [OF assms(1)] by blast
  have e: "subset_elems d = regions_elems R" by (simp add: R(1) subset_elems_def)
  show ?thesis
  proof (cases "R = []")
    case True
    then show ?thesis
      by (simp add: e R(1) basic_queries bound_of_def regions_elems_def subset_elems_def sz_add_def SIZE_MAX_def)
  next
    case False
    have lt: "regions_end R < n" using regions_end_lt [OF R(2) False] assms(2) e by simp
    then have "sz_add (regions_end R) 1 = Suc (regions_end R)" using assms(3) by (simp add: sz IDX_MAX_def SIZE_MAX_def)
    then show ?thesis
      using regions_le_end [OF R(2)] regions_end_in [OF R(2) False]
      by (auto simp: e R(1) basic_queries bound_of_def less_Suc_eq_le subset_elems_def)
  qed
qed

lemma max_counts_bound:
  assumes "subsets_within st n ds" "n \<le> IDX_MAX"
  shows "\<exists>cs. those (map subset_max_count ds) = Some cs \<and>
    (\<forall>U b. bound_of U b \<longrightarrow> bound_of (U \<union> elems_of ds) (fold max cs b))"
  using assms(1)
proof (induction ds)
  case Nil
  then show ?case by (simp add: elems_of_def)
next
  case (Cons d ds)
  have d: "subset_ok st d" "subset_elems d \<subseteq> {..<n}" and ds: "subsets_within st n ds"
    using Cons.prems by (simp_all add: subsets_within_def)
  obtain c where c: "subset_max_count d = Some c" "bound_of (subset_elems d) c"
    using max_count_bound [OF d assms(2)] by blast
  obtain cs where cs: "those (map subset_max_count ds) = Some cs"
    "\<forall>U b. bound_of U b \<longrightarrow> bound_of (U \<union> elems_of ds) (fold max cs b)"
    using Cons.IH [OF ds] by blast
  have "bound_of (U \<union> elems_of (d # ds)) (fold max (c # cs) b)" if "bound_of U b" for U b
  proof -
    have "elems_of (d # ds) = subset_elems d \<union> elems_of ds" by (simp add: elems_of_def)
    then show ?thesis using cs(2) bound_of_union [OF c(2) that] by (simp add: ac_simps) (metis Un_assoc Un_commute)
  qed
  then show ?case using c(1) cs(1) by simp
qed

lemma data_count_bound:
  assumes "subsets_within st n (sn_staged (im_own e))" "subsets_within st n (sn_protected (im_own e))" "n \<le> IDX_MAX"
    and b: "bound_of (elems_of (sn_staged (im_own e)) \<union> elems_of (sn_protected (im_own e))) c"
  shows "data_count e = Some c"
proof -
  obtain cs where cs: "those (map subset_max_count (sn_staged (im_own e))) = Some cs"
    "\<forall>U b. bound_of U b \<longrightarrow> bound_of (U \<union> elems_of (sn_staged (im_own e))) (fold max cs b)"
    using max_counts_bound [OF assms(1,3)] by blast
  obtain ps where ps: "those (map subset_max_count (sn_protected (im_own e))) = Some ps"
    "\<forall>U b. bound_of U b \<longrightarrow> bound_of (U \<union> elems_of (sn_protected (im_own e))) (fold max ps b)"
    using max_counts_bound [OF assms(2,3)] by blast
  have "bound_of ({} \<union> elems_of (sn_staged (im_own e)) \<union> elems_of (sn_protected (im_own e))) (fold max ps (fold max cs 0))"
    using cs(2) ps(2) bound_of_empty by blast
  then show ?thesis using bound_of_unique [OF _ b] by (simp add: data_count_def cs(1) ps(1))
qed

section \<open>Splitting the parity\<close>

definition parity_lens :: "nat \<Rightarrow> nat \<Rightarrow> nat list" where
  "parity_lens D n = map (\<lambda>i. D div n + (if D mod n \<noteq> 0 \<and> i \<le> D mod n then 1 else 0)) [0..<Suc n]"

lemma length_parity_lens [simp]: "length (parity_lens D n) = Suc n"
  by (simp add: parity_lens_def)

lemma parity_split_lens:
  assumes "0 < n"
  shows "map nat (parity_split (int D) (int n)) = parity_lens D n" "length (parity_split (int D) (int n)) = Suc n"
    "\<forall>i < Suc n. parity_split (int D) (int n) ! i = int (parity_lens D n ! i)"
proof -
  have q: "int D sdiv int n = int (D div n)" "int D smod int n = int (D mod n)"
    using assms by (simp_all add: sdiv_nonneg smod_nonneg zdiv_int zmod_int)
  have "parity_split (int D) (int n) = map int (parity_lens D n)"
    unfolding parity_split_def q Let_def parity_lens_def by (auto simp: nat_add_distrib)
  then show "map nat (parity_split (int D) (int n)) = parity_lens D n" "length (parity_split (int D) (int n)) = Suc n"
    "\<forall>i < Suc n. parity_split (int D) (int n) ! i = int (parity_lens D n ! i)"
    by (simp_all add: o_def)
qed

lemma parity_lens_nth: "i \<le> n \<Longrightarrow> parity_lens D n ! i = D div n + (if D mod n \<noteq> 0 \<and> i \<le> D mod n then 1 else 0)"
  unfolding parity_lens_def by (simp del: upt_Suc)

lemma parity_total:
  assumes "0 < n"
  shows "(\<Sum>i < Suc n. parity_lens D n ! i) = Suc n * (D div n) + (if D mod n \<noteq> 0 then D mod n + 1 else 0)"
proof -
  have "D mod n < n" using assms by simp
  then have "{i. i < Suc n \<and> i \<le> D mod n} = {..D mod n}" by auto
  then have c: "(\<Sum>i < Suc n. if i \<le> D mod n then 1 else 0) = D mod n + (1 :: nat)"
    by (simp add: lessThan_def flip: sum.inter_filter)
  have "(\<Sum>i < Suc n. parity_lens D n ! i) = (\<Sum>i < Suc n. D div n + (if D mod n \<noteq> 0 then if i \<le> D mod n then 1 else 0 else 0))"
    by (rule sum.cong) (simp_all add: parity_lens_nth)
  also have "\<dots> = Suc n * (D div n) + (if D mod n \<noteq> 0 then D mod n + 1 else 0)"
    unfolding sum.distrib using c by simp
  finally show ?thesis .
qed

text \<open>What the rank \<open>k\<close> contributes with its data: all of it, or one byte more than it has.\<close>

lemma before_all:
  assumes "0 < n" "k \<le> n"
  shows "before k (parity_lens D n) (Suc n) = D + (if D mod n \<noteq> 0 \<and> D mod n < k then 1 else 0)"
proof -
  have k: "k \<in> {..<Suc n}" using assms(2) by simp
  have "(\<Sum>i < Suc n. parity_lens D n ! i) = parity_lens D n ! k + (\<Sum>i \<in> {..<Suc n} - {k}. parity_lens D n ! i)"
    by (rule sum.remove) (use k in simp_all)
  moreover have "before k (parity_lens D n) (Suc n) = (\<Sum>i \<in> {..<Suc n} - {k}. parity_lens D n ! i)"
    unfolding before_def using k by (subst sum.remove [OF _ k]) (auto intro: sum.cong)
  ultimately have "parity_lens D n ! k + before k (parity_lens D n) (Suc n)
      = Suc n * (D div n) + (if D mod n \<noteq> 0 then D mod n + 1 else 0)" using parity_total [OF assms(1)] by simp
  moreover have "n * (D div n) + D mod n = D" by simp
  ultimately show ?thesis using parity_lens_nth [OF assms(2), of D] by (auto split: if_splits)
qed

lemma parity_lens_le:
  assumes "2 \<le> n" "len \<in> set (parity_lens D n)"
  shows "len \<le> D"
proof -
  have "D div n * 2 \<le> D" using assms(1) by (metis div_times_less_eq_dividend le_trans mult_le_mono2)
  moreover have "D mod n \<noteq> 0 \<Longrightarrow> D div n + 1 \<le> D"
  proof -
    assume m: "D mod n \<noteq> 0"
    have "D div n * n + D mod n = D" by simp
    moreover have "D div n \<le> D div n * n" using assms(1) by simp
    ultimately show "D div n + 1 \<le> D" using m by linarith
  qed
  ultimately show ?thesis using assms(2) by (auto simp: parity_lens_def split: if_splits)
qed

section \<open>Where the bytes are\<close>

text \<open>Places of a rank that has as many bytes as it contributes, or one less.\<close>

definition fits_places :: "nat \<Rightarrow> nat \<Rightarrow> nat \<Rightarrow> nat list \<Rightarrow> place list \<Rightarrow> bool" where
  "fits_places rank bytes root lens ps \<longleftrightarrow> length ps = length lens \<and>
     (\<forall>j < length lens. case ps ! j of InPartner \<Rightarrow> root + j = rank | InData s \<Rightarrow> root + j \<noteq> rank \<and> s + lens ! j \<le> bytes)"

definition skipped :: "nat \<Rightarrow> nat \<Rightarrow> nat list \<Rightarrow> nat \<Rightarrow> nat" where
  "skipped rank root lens j = (\<Sum>i < j. if root + i = rank then 0 else lens ! i)"

lemma skipped_0 [simp]: "skipped rank root lens 0 = 0"
  by (simp add: skipped_def)

lemma skipped_Cons [simp]:
  "skipped rank root (len # lens) (Suc j) = (if root = rank then 0 else len) + skipped rank (Suc root) lens j"
  unfolding skipped_def sum.lessThan_Suc_shift by (simp cong: if_cong)

abbreviation rest :: "nat \<Rightarrow> nat \<Rightarrow> nat list \<Rightarrow> nat" where
  "rest rank root lens \<equiv> skipped rank root lens (length lens)"

lemma before_skipped: "before k lens j = skipped k 0 lens j"
  by (simp add: before_def skipped_def)

lemma fits_Cons: "fits_places rank bytes root (len # lens) (p # ps) \<longleftrightarrow>
    (case p of InPartner \<Rightarrow> root = rank | InData s \<Rightarrow> root \<noteq> rank \<and> s + len \<le> bytes) \<and>
    fits_places rank bytes (Suc root) lens ps"
  by (auto simp: fits_places_def nth_Cons less_Suc_eq_0_disj split: nat.splits place.splits)

lemma places_fit:
  assumes "offset \<le> bytes" "offset + rest rank root lens \<le> bytes + 1" "offset = 0 \<longrightarrow> (\<forall>len \<in> set lens. len \<le> bytes)"
  shows "\<exists>ps. parity_places rank bytes root offset lens = Some ps \<and> fits_places rank bytes root lens ps"
  using assms
proof (induction lens arbitrary: root offset)
  case Nil
  then show ?case by (simp add: fits_places_def)
next
  case (Cons len lens)
  have step: ?case
    if "parity_place rank bytes root len offset = Some (p, o')"
      "case p of InPartner \<Rightarrow> root = rank | InData s \<Rightarrow> root \<noteq> rank \<and> s + len \<le> bytes"
      "o' \<le> bytes" "o' + rest rank (Suc root) lens \<le> bytes + 1" "o' = 0 \<longrightarrow> (\<forall>len \<in> set lens. len \<le> bytes)" for p o'
    using Cons.IH [OF that(3-5)] that(1,2) by (auto simp: fits_Cons)
  consider "root = rank" | "root \<noteq> rank" "offset + len \<le> bytes" | "root \<noteq> rank" "offset + len = bytes + 1" "0 < offset"
  proof -
    have "offset + len = bytes + 1 \<and> 0 < offset" if "root \<noteq> rank" "\<not> offset + len \<le> bytes"
      using that Cons.prems by (cases "offset = 0") auto
    then show thesis using that by blast
  qed
  then show ?case
  proof cases
    case 1
    then show ?thesis using Cons.prems by (intro step [of InPartner offset]) (simp_all add: parity_place_def)
  next
    case 2
    then show ?thesis using Cons.prems by (intro step [of "InData offset" "offset + len"]) (auto simp: parity_place_def)
  next
    case 3
    then show ?thesis
      using Cons.prems by (intro step [of "InData (offset - 1)" bytes]) (auto simp: parity_place_def)
  qed
qed

lemma places_exact:
  assumes "offset + rest rank root lens \<le> bytes"
  shows "\<exists>ps. parity_places rank bytes root offset lens = Some ps \<and> length ps = length lens \<and>
    (\<forall>j < length lens. ps ! j = (if root + j = rank then InPartner
      else InData (offset + skipped rank root lens j)))"
  using assms
proof (induction lens arbitrary: root offset)
  case (Cons len lens)
  let ?o = "offset + (if root = rank then 0 else len)"
  have "?o + rest rank (Suc root) lens \<le> bytes" using Cons.prems by simp
  from Cons.IH [OF this] obtain ps where ps: "parity_places rank bytes (Suc root) ?o lens = Some ps" "length ps = length lens"
    "\<forall>j < length lens. ps ! j = (if Suc root + j = rank then InPartner
      else InData (?o + skipped rank (Suc root) lens j))" by blast
  let ?p = "if root = rank then InPartner else InData offset"
  have "parity_place rank bytes root len offset = Some (?p, ?o)" using Cons.prems by (auto simp: parity_place_def)
  moreover have "(?p # ps) ! j = (if root + j = rank then InPartner
      else InData (offset + skipped rank root (len # lens) j))" if "j < length (len # lens)" for j
    using that ps(3) by (cases j) simp_all
  ultimately show ?case using ps(1,2) by simp
qed simp

lemma places_exact_all:
  assumes "before k lens (length lens) \<le> bytes"
  shows "\<exists>ps. parity_places k bytes 0 0 lens = Some ps \<and> length ps = length lens \<and>
    (\<forall>j < length lens. ps ! j = exact_place k lens j)"
  using places_exact [of 0 k 0 lens bytes] assms unfolding before_skipped exact_place_def by (simp only: add_0)

lemma fits_placed:
  assumes "fits_places r bytes 0 lens ps"
  shows "placed (length lens) r ps"
proof -
  have "if j = r then ps ! j = InPartner else ps ! j \<noteq> InPartner" if "j < length lens" for j
    using assms that by (cases "ps ! j") (auto simp: fits_places_def)
  then show ?thesis by (simp add: placed_def)
qed

lemma parity_places_fit:
  assumes "2 \<le> n" "r \<le> n" "D \<le> bytes"
  shows "\<exists>ps. parity_places r bytes 0 0 (parity_lens D n) = Some ps \<and> fits_places r bytes 0 (parity_lens D n) ps"
proof (rule places_fit)
  have "before r (parity_lens D n) (Suc n) \<le> bytes + 1" using before_all [of n r D] assms by auto
  then show "0 + rest r 0 (parity_lens D n) \<le> bytes + 1" by (simp add: before_skipped)
  show "0 = (0 :: nat) \<longrightarrow> (\<forall>len \<in> set (parity_lens D n). len \<le> bytes)"
    using parity_lens_le [OF assms(1)] assms(3) by fastforce
qed simp

end
