(* ===== verification/Parity_Repair.thy ===== *)
theory Parity_Repair
  imports Parity_Layout
begin

text \<open>
  \<open>ParityMember::iprotect\<close> and \<open>repair\<close> over a cohort: what \<open>iprotect\<close> establishes, and that
  \<open>repair\<close> gives a rank that lost its snapshot all of its data back, when the parity bytes divide
  evenly or the rank is one of those that hold the longer parity.
\<close>

section \<open>Every rank does the same\<close>

lemma those_map_Some: "those (map Some xs) = Some xs"
  by (induction xs) simp_all

lemma on_ranks_some:
  assumes "\<forall>r < length xs. f r (xs ! r) = Some (g r)"
  shows "on_ranks f xs = Some (map g [0..<length xs])"
proof -
  have "map2 f [0..<length xs] xs = map Some (map g [0..<length xs])"
    by (rule nth_equalityI) (use assms in simp_all)
  then show ?thesis by (simp only: on_ranks_def those_map_Some)
qed

lemma agreed_map:
  assumes "0 < n" "\<forall>r < n. h r = x"
  shows "agreed (map h [0..<n]) = Some x"
proof -
  obtain m where m: "n = Suc m" using assms(1) gr0_implies_Suc by blast
  have "map h [0..<n] = replicate (Suc m) x" by (rule nth_equalityI) (use assms m in \<open>simp_all del: upt_Suc replicate_Suc\<close>)
  then show ?thesis by (simp add: agreed_def)
qed

lemma rows_cong:
  assumes "length es = length es'" "length places = length es"
    and "\<forall>r < length es. snap_bytes (im_own (es ! r)) = snap_bytes (im_own (es' ! r)) \<and>
      snap_bytes (im_partner (es ! r)) = snap_bytes (im_partner (es' ! r))"
  shows "rows places lens j es = rows places lens j es'"
  by (rule nth_equalityI) (use assms in \<open>auto simp: length_rows rows_nth bytes_at_def split: place.split\<close>)

lemma parity_holds_cong:
  assumes "length es = length es'" "length places = length es"
    and "\<forall>r < length es. snap_bytes (im_own (es ! r)) = snap_bytes (im_own (es' ! r)) \<and>
      snap_bytes (im_partner (es ! r)) = snap_bytes (im_partner (es' ! r))"
  shows "parity_holds places lens es = parity_holds places lens es'"
  using rows_cong [OF assms, of lens] by (simp add: parity_holds_def)

section \<open>Preparing\<close>

definition prepared :: "(nat \<Rightarrow> byte list) \<Rightarrow> nat \<Rightarrow> nat \<Rightarrow> imr_snapshot \<Rightarrow> imr_snapshot" where
  "prepared fresh D P e = e\<lparr>im_own := (im_own e)\<lparr>sn_buf := grow fresh D (sn_buf (im_own e))\<rparr>,
     im_partner := (im_partner e)\<lparr>sn_buf := resize fresh P (sn_buf (im_partner e))\<rparr>\<rparr>"

definition buffers_ok :: "imr_snapshot \<Rightarrow> bool" where
  "buffers_ok e \<longleftrightarrow> db_ok (sn_buf (im_own e)) \<and> db_ok (sn_buf (im_partner e)) \<and> db_size (sn_buf (im_own e)) \<le> INT_MAX"

lemma sizes_int: "m \<le> INT_MAX \<Longrightarrow> int_of_size m = int m" "m \<le> INT_MAX \<Longrightarrow> size_of_int (int m) = m"
  using int_of_size_small [of m] INT_MAX_32 by (simp_all add: size_of_int_exact)

lemma prepare_eq:
  assumes mal: "malloc_ok fresh" and n: "2 \<le> n" "length (sn_staged (im_own e)) = Suc n" "r \<le> n"
    and c: "data_count e = Some c" "D = c * sn_elm_size (im_own e)" "D \<le> INT_MAX" and b: "buffers_ok e"
  shows "prepare_for_parity fresh r e = Some (parity_split (int D) (int n), prepared fresh D (parity_lens D n ! r) e)"
proof -
  have mul: "sz_mul c (sn_elm_size (im_own e)) = D" using c INT_MAX_lt by (simp add: sz)
  have split: "length (parity_split (int D) (int n)) = Suc n" "parity_split (int D) (int n) ! r = int (parity_lens D n ! r)"
    using parity_split_lens [of n D] n by simp_all
  have "parity_lens D n ! r \<in> set (parity_lens D n)" using n(3) by (intro nth_mem) simp
  then have "parity_lens D n ! r \<le> D" by (rule parity_lens_le [OF n(1)])
  then have P: "parity_lens D n ! r \<le> INT_MAX" using c(3) by simp
  have le: "D \<le> IDX_MAX" "parity_lens D n ! r \<le> IDX_MAX" using c(3) P INT_MAX_lt by simp_all
  have i: "int_of_size D = int D" "int_of_size (db_size (sn_buf (im_own e))) = int (db_size (sn_buf (im_own e)))"
    "size_of_int (int D) = D" "size_of_int (int (parity_lens D n ! r)) = parity_lens D n ! r"
    using sizes_int c(3) P b by (simp_all add: buffers_ok_def)
  have "int (length (sn_staged (im_own e))) - 1 = int n" using n(2) by simp
  then show ?thesis
    using n le
    by (simp add: prepare_for_parity_def c(1) mul i split Let_def resize_partner_def snap_resize_def prepared_def grow_def)
qed

lemma prepared_sel:
  assumes "malloc_ok fresh" "buffers_ok e"
  shows "db_ok (sn_buf (im_own (prepared fresh D P e)))" "db_ok (sn_buf (im_partner (prepared fresh D P e)))"
    "db_size (sn_buf (im_own (prepared fresh D P e))) = max D (db_size (sn_buf (im_own e)))"
    "db_size (sn_buf (im_partner (prepared fresh D P e))) = P"
    "take (db_size (sn_buf (im_own e))) (snap_bytes (im_own (prepared fresh D P e))) = snap_bytes (im_own e)"
    "sn_staged (im_own (prepared fresh D P e)) = sn_staged (im_own e)"
    "sn_protected (im_own (prepared fresh D P e)) = sn_protected (im_own e)"
    "sn_elm_size (im_own (prepared fresh D P e)) = sn_elm_size (im_own e)"
proof -
  show ok: "db_ok (sn_buf (im_own (prepared fresh D P e)))" "db_ok (sn_buf (im_partner (prepared fresh D P e)))"
    using assms by (simp_all add: prepared_def buffers_ok_def grow_ok resize_ok)
  show sz: "db_size (sn_buf (im_own (prepared fresh D P e))) = max D (db_size (sn_buf (im_own e)))"
    by (simp add: prepared_def grow_size)
  show "take (db_size (sn_buf (im_own e))) (snap_bytes (im_own (prepared fresh D P e))) = snap_bytes (im_own e)"
    by (rule nth_equalityI)
      (use ok sz assms length_snap_bytes [OF ok(1)] length_snap_bytes [of "im_own e"]
        in \<open>auto simp: buffers_ok_def snap_bytes_def prepared_def grow_nth\<close>)
qed (simp_all add: prepared_def)

text \<open>Buffers that have the size already keep their bytes.\<close>

lemma prepared_same:
  assumes "malloc_ok fresh" "buffers_ok e" "D \<le> db_size (sn_buf (im_own e))" "db_size (sn_buf (im_partner e)) = P"
  shows "snap_bytes (im_own (prepared fresh D P e)) = snap_bytes (im_own e)"
    "snap_bytes (im_partner (prepared fresh D P e)) = snap_bytes (im_partner e)"
proof -
  show "snap_bytes (im_own (prepared fresh D P e)) = snap_bytes (im_own e)"
    using assms(3) by (simp add: prepared_def grow_def snap_bytes_def)
  have "length (db_data (sn_buf (im_partner e))) = P" using assms(2,4) by (simp add: buffers_ok_def db_data_length)
  then show "snap_bytes (im_partner (prepared fresh D P e)) = snap_bytes (im_partner e)"
    using byte_store.set_size_same [OF buffer_store [OF assms(1)], of "sn_buf (im_partner e)" P] assms(2)
    by (simp add: prepared_def snap_bytes_def buffers_ok_def)
qed

section \<open>\<open>iprotect\<close>\<close>

text \<open>A cohort that has exchanged its subsets: every rank knows what all of them have staged.\<close>

definition parity_cohort :: "nat \<Rightarrow> nat \<Rightarrow> nat \<Rightarrow> data_subset list \<Rightarrow> data_subset list \<Rightarrow> imr_snapshot list \<Rightarrow> bool" where
  "parity_cohort st n sz staged prot es \<longleftrightarrow>
     length staged = length es \<and> length prot = length es \<and> subsets_within st n staged \<and> subsets_within st n prot \<and>
     n * sz \<le> INT_MAX \<and> 0 < sz \<and>
     (\<forall>e \<in> set es. sn_staged (im_own e) = staged \<and> sn_protected (im_own e) = prot \<and> sn_elm_size (im_own e) = sz \<and> buffers_ok e)"

definition cohort_bytes :: "nat \<Rightarrow> data_subset list \<Rightarrow> data_subset list \<Rightarrow> nat \<Rightarrow> bool" where
  "cohort_bytes sz staged prot D \<longleftrightarrow> (\<exists>c. bound_of (elems_of staged \<union> elems_of prot) c \<and> D = c * sz)"

lemma cohort_prepare:
  assumes mal: "malloc_ok fresh" and co: "parity_cohort st n sz staged prot es" and D: "cohort_bytes sz staged prot D"
    and N: "3 \<le> length es" and r: "r < length es"
  shows "prepare_for_parity fresh r (es ! r)
    = Some (parity_split (int D) (int (length es - 1)), prepared fresh D (parity_lens D (length es - 1) ! r) (es ! r))"
    "D \<le> INT_MAX"
proof -
  obtain c where c: "bound_of (elems_of staged \<union> elems_of prot) c" "D = c * sz" using D by (auto simp: cohort_bytes_def)
  have e: "sn_staged (im_own (es ! r)) = staged" "sn_protected (im_own (es ! r)) = prot" "sn_elm_size (im_own (es ! r)) = sz"
    "buffers_ok (es ! r)" "length staged = length es" and w: "subsets_within st n staged" "subsets_within st n prot"
    and n: "n * sz \<le> INT_MAX" "0 < sz" using co r by (simp_all add: parity_cohort_def)
  have "elems_of staged \<union> elems_of prot \<subseteq> {..<n}" using w by (auto simp: elems_of_def subsets_within_def)
  then have cn: "c \<le> n" by (rule bound_of_le [OF c(1)])
  then have "D \<le> n * sz" using c(2) by simp
  then show DI: "D \<le> INT_MAX" using n(1) by simp
  have "n \<le> n * sz" using n(2) by simp
  then have "n \<le> IDX_MAX" using n(1) INT_MAX_lt(1) by linarith
  then have "data_count (es ! r) = Some c" using data_count_bound [of st n "es ! r" c] w c(1) by (simp add: e)
  then show "prepare_for_parity fresh r (es ! r)
      = Some (parity_split (int D) (int (length es - 1)), prepared fresh D (parity_lens D (length es - 1) ! r) (es ! r))"
    by (intro prepare_eq [where c = c, OF mal _ _ _ _ _ DI e(4)]) (use N r c(2) e in simp_all)
qed

text \<open>What \<open>iprotect\<close> leaves: the subsets of every rank are protected and the parity holds.\<close>

definition parity_protected ::
  "nat \<Rightarrow> nat \<Rightarrow> nat \<Rightarrow> data_subset list \<Rightarrow> nat \<Rightarrow> imr_snapshot list \<Rightarrow> bool" where
  "parity_protected st n sz prot D es \<longleftrightarrow>
     parity_cohort st n sz (replicate (length es) empty_subset) prot es \<and>
     cohort_bytes sz (replicate (length es) empty_subset) prot D \<and>
     (\<exists>places. rank_places (parity_lens D (length es - 1)) es = Some places \<and>
       length places = length es \<and> parity_holds places (parity_lens D (length es - 1)) es) \<and>
     (\<forall>r < length es. D \<le> db_size (sn_buf (im_own (es ! r))) \<and>
       db_size (sn_buf (im_partner (es ! r))) = parity_lens D (length es - 1) ! r)"

lemma ranks_placed:
  assumes N: "3 \<le> length es" and b: "\<forall>r < length es. D \<le> db_size (sn_buf (im_own (es ! r)))"
  shows "\<exists>places. rank_places (parity_lens D (length es - 1)) es = Some places \<and> all_placed (length es) places \<and>
    (\<forall>r < length es. fits_places r (db_size (sn_buf (im_own (es ! r)))) 0 (parity_lens D (length es - 1)) (places ! r))"
proof -
  let ?L = "parity_lens D (length es - 1)"
  have "\<forall>r < length es. \<exists>ps. parity_places r (db_size (sn_buf (im_own (es ! r)))) 0 0 ?L = Some ps \<and>
      fits_places r (db_size (sn_buf (im_own (es ! r)))) 0 ?L ps"
    using parity_places_fit [of "length es - 1" _ D] N b by auto
  then obtain g where g: "\<forall>r < length es. parity_places r (db_size (sn_buf (im_own (es ! r)))) 0 0 ?L = Some (g r) \<and>
      fits_places r (db_size (sn_buf (im_own (es ! r)))) 0 ?L (g r)" by metis
  have "rank_places ?L es = Some (map g [0..<length es])" using g by (simp add: rank_places_def on_ranks_some)
  moreover have "placed (length es) r (g r)" if "r < length es" for r
  proof -
    have "Suc (length es - 1) = length es" using N by simp
    then show ?thesis using fits_placed [of r "db_size (sn_buf (im_own (es ! r)))" ?L "g r"] g that by simp
  qed
  ultimately show ?thesis using g by (simp add: all_placed_def)
qed

lemma those_map_nth:
  assumes "\<forall>r < length xs. f (xs ! r) = Some (g r)"
  shows "those (map f xs) = Some (map g [0..<length xs])"
proof -
  have "map f xs = map Some (map g [0..<length xs])" by (rule nth_equalityI) (use assms in simp_all)
  then show ?thesis by (simp only: those_map_Some)
qed

definition protected_as :: "data_subset list \<Rightarrow> imr_snapshot \<Rightarrow> imr_snapshot" where
  "protected_as qs e = e\<lparr>im_own := (im_own e)\<lparr>sn_protected := qs, sn_staged := replicate (length qs) empty_subset\<rparr>\<rparr>"

lemma imr_protected_eq:
  assumes "protect_all (sn_protected (im_own e)) (sn_staged (im_own e)) = Some qs"
    "length qs = length (sn_protected (im_own e))" "length (sn_staged (im_own e)) = length (sn_protected (im_own e))"
  shows "imr_protected e = Some (protected_as qs e)"
  using assms by (simp add: imr_protected_def iprotect_def protected_as_def)

lemma elems_of_union:
  assumes "length qs = length ps" "length ds = length ps"
    "\<forall>i < length ps. subset_elems (qs ! i) = subset_elems (ps ! i) \<union> subset_elems (ds ! i)"
  shows "elems_of qs = elems_of ds \<union> elems_of ps"
proof -
  have n: "elems_of xs = (\<Union>i < length xs. subset_elems (xs ! i))" for xs
    unfolding elems_of_def set_conv_nth by blast
  show ?thesis unfolding n using assms by auto
qed

lemma elems_of_empty [simp]: "elems_of (replicate k empty_subset) = {}"
  by (simp add: elems_of_def)

theorem parity_protect_correct:
  assumes mal: "malloc_ok fresh" and co: "parity_cohort st n sz staged prot es" and D: "cohort_bytes sz staged prot D"
    and N: "3 \<le> length es"
  shows "\<exists>es1 prot1. parity_protect fresh es = Some es1 \<and> length es1 = length es \<and>
    parity_protected st n sz prot1 D es1 \<and>
    (\<forall>r < length es. take (db_size (sn_buf (im_own (es ! r)))) (snap_bytes (im_own (es1 ! r))) = snap_bytes (im_own (es ! r))) \<and>
    (\<forall>i < length es. subset_elems (prot1 ! i) = subset_elems (prot ! i) \<union> subset_elems (staged ! i))"
proof -
  let ?n = "length es - 1" and ?N = "length es"
  let ?L = "parity_lens D ?n"
  let ?P = "\<lambda>r. prepared fresh D (?L ! r) (es ! r)"
  define E where "E = map (\<lambda>r. zero_partner (?P r)) [0..<?N]"
  note prep = cohort_prepare [OF mal co D N]
  have n1: "0 < ?n" "Suc ?n = ?N" using N by simp_all
  have all: "on_ranks (prepare_for_parity fresh) es = Some (map (\<lambda>r. (parity_split (int D) (int ?n), ?P r)) [0..<?N])"
    by (rule on_ranks_some) (use prep(1) in simp)
  have ag: "agreed (map fst (map (\<lambda>r. (parity_split (int D) (int ?n), ?P r)) [0..<?N])) = Some (parity_split (int D) (int ?n))"
    unfolding map_map by (rule agreed_map) (use n1 in auto)
  have lens: "map nat (parity_split (int D) (int ?n)) = ?L" "length (parity_split (int D) (int ?n)) = ?N"
    using parity_split_lens [OF n1(1), of D] n1(2) by simp_all
  have Ez: "map (zero_partner \<circ> snd) (map (\<lambda>r. (parity_split (int D) (int ?n), ?P r)) [0..<?N]) = E"
    by (simp add: E_def o_def)
  have er: "buffers_ok (es ! r)" "sn_staged (im_own (es ! r)) = staged" "sn_protected (im_own (es ! r)) = prot"
    "sn_elm_size (im_own (es ! r)) = sz" if "r < ?N" for r using co that by (simp_all add: parity_cohort_def)
  have lE: "length E = ?N" by (simp add: E_def)
  have E_own: "im_own (E ! r) = im_own (?P r)" if "r < ?N" for r using that by (simp add: E_def zero_partner_def)
  have E_partner: "db_ok (sn_buf (im_partner (E ! r)))" "snap_bytes (im_partner (E ! r)) = replicate (?L ! r) 0"
    "db_size (sn_buf (im_partner (E ! r))) = ?L ! r" if "r < ?N" for r
    using that prepared_sel [OF mal er(1) [OF that], of D "?L ! r"] by (simp_all add: E_def zero_partner_def set_bytes_sel)
  have E_size: "db_size (sn_buf (im_own (E ! r))) = max D (db_size (sn_buf (im_own (es ! r))))" if "r < ?N" for r
    using prepared_sel(3) [OF mal er(1) [OF that]] E_own [OF that] by simp
  obtain places where pl: "rank_places ?L E = Some places" "all_placed ?N places"
    using ranks_placed [of E D] N lE E_size by auto
  have zp: "zero_partners ?L E" using E_partner lE by (simp add: zero_partners_def)
  define W where "W = map (with_parity places ?L E) [0..<?N]"
  have red: "reduce_all (\<lambda>root. root) places 0 ?L E = W" and hold: "parity_holds places ?L W"
    using protect_parity [of E places ?L] pl(2) zp lE n1(2) by (simp_all add: reduce_all_reduced W_def)
  have W_own: "im_own (W ! r) = im_own (E ! r)" if "r < ?N" for r using that by (simp add: W_def with_parity_def)
  have W_partner: "db_ok (sn_buf (im_partner (W ! r)))" "db_size (sn_buf (im_partner (W ! r))) = ?L ! r" if "r < ?N" for r
    using that E_partner [OF that] by (simp_all add: W_def with_parity_def set_bytes_sel)
  have len: "length staged = ?N" "length prot = ?N" and w: "subsets_within st n staged" "subsets_within st n prot"
    and sz: "n * sz \<le> INT_MAX" "0 < sz" using co by (simp_all add: parity_cohort_def)
  obtain qs where qs: "protect_all prot staged = Some qs" "length qs = ?N" "subsets_within st n qs"
    "\<forall>i < ?N. subset_elems (qs ! i) = subset_elems (prot ! i) \<union> subset_elems (staged ! i)"
    using protect_all_correct [of prot staged st n] len w by auto
  define es1 where "es1 = map (\<lambda>r. protected_as qs (W ! r)) [0..<?N]"
  have own: "sn_staged (im_own (W ! r)) = staged" "sn_protected (im_own (W ! r)) = prot" "sn_elm_size (im_own (W ! r)) = sz"
    if "r < ?N" for r
    using that er [OF that] prepared_sel(6-8) [OF mal er(1) [OF that]] by (simp_all add: W_own E_own)
  have lW: "length W = ?N" by (simp add: W_def)
  have "those (map imr_protected W) = Some es1"
    unfolding es1_def lW [symmetric]
    by (rule those_map_nth) (use own qs(1,2) len lW in \<open>simp add: imr_protected_eq\<close>)
  then have result: "parity_protect fresh es = Some es1"
    using all ag lens Ez pl(1) red by (simp add: parity_protect_def Let_def)
  have es1_bytes: "snap_bytes (im_own (es1 ! r)) = snap_bytes (im_own (?P r))"
    "snap_bytes (im_partner (es1 ! r)) = snap_bytes (im_partner (W ! r))" if "r < ?N" for r
    using that by (simp_all add: es1_def protected_as_def W_own E_own snap_bytes_def)
  have es1_buf: "sn_buf (im_own (es1 ! r)) = sn_buf (im_own (?P r))" "sn_buf (im_partner (es1 ! r)) = sn_buf (im_partner (W ! r))"
    if "r < ?N" for r using that by (simp_all add: es1_def protected_as_def W_own E_own)
  have l1: "length es1 = ?N" by (simp add: es1_def)
  have elems: "elems_of qs = elems_of staged \<union> elems_of prot"
    by (rule elems_of_union) (use qs(2,4) len in simp_all)
  have b1: "buffers_ok (es1 ! r)" if "r < ?N" for r
    using es1_buf [OF that] prepared_sel(1,3) [OF mal er(1) [OF that], of D "?L ! r"] W_partner(1) [OF that]
      er(1) [OF that] prep(2) [OF that] by (simp add: buffers_ok_def)
  have c1: "parity_cohort st n sz (replicate ?N empty_subset) qs es1"
    unfolding parity_cohort_def
  proof (intro conjI ballI)
    fix e assume "e \<in> set es1"
    then obtain r where r: "r < ?N" "e = es1 ! r" using l1 by (auto simp: in_set_conv_nth)
    show "sn_staged (im_own e) = replicate ?N empty_subset" "sn_protected (im_own e) = qs" "sn_elm_size (im_own e) = sz"
      using r qs(2) own(3) by (simp_all add: es1_def protected_as_def)
    show "buffers_ok e" using b1 r by simp
  qed (use qs within_empty sz l1 in simp_all)
  have D1: "cohort_bytes sz (replicate ?N empty_subset) qs D" using D by (simp add: cohort_bytes_def elems)
  have sizes: "db_size (sn_buf (im_own (es1 ! r))) = db_size (sn_buf (im_own (E ! r)))" if "r < ?N" for r
    using es1_buf(1) [OF that] E_own [OF that] by simp
  have "rank_places ?L es1 = rank_places ?L E"
    unfolding rank_places_def on_ranks_def l1 lE
    by (rule arg_cong [of _ _ those], rule nth_equalityI) (use l1 lE sizes in simp_all)
  moreover have "parity_holds places ?L es1"
    using hold parity_holds_cong [of es1 W places ?L] l1 lW es1_bytes pl(2) W_own E_own by (simp add: all_placed_def)
  ultimately have "parity_protected st n sz qs D es1"
    using c1 D1 pl l1 W_partner es1_buf E_size sizes by (auto simp: parity_protected_def all_placed_def)
  moreover have "take (db_size (sn_buf (im_own (es ! r)))) (snap_bytes (im_own (es1 ! r))) = snap_bytes (im_own (es ! r))"
    if "r < ?N" for r using es1_bytes(1) [OF that] prepared_sel(5) [OF mal er(1) [OF that]] by simp
  ultimately show ?thesis using result l1 qs(4) by blast
qed

section \<open>\<open>repair\<close>\<close>

text \<open>An unused snapshot after \<open>reset\<close>: what the rank that lost its own starts from.\<close>

definition blank :: "nat \<Rightarrow> imr_snapshot \<Rightarrow> bool" where
  "blank sz e \<longleftrightarrow> sn_staged (im_own e) = [] \<and> sn_protected (im_own e) = [] \<and> sn_elm_size (im_own e) = sz \<and>
     db_ok (sn_buf (im_own e)) \<and> db_ok (sn_buf (im_partner e)) \<and> db_size (sn_buf (im_own e)) = 0"

lemma reset_blank:
  assumes "malloc_ok fresh" "db_ok (sn_buf (im_own e))" "db_ok (sn_buf (im_partner e))" "sn_elm_size (im_own e) = sz"
  shows "blank sz (imr_reset fresh e)"
  using assms by (simp add: blank_def imr_reset_def snap_reset_def db_clear_def resize_ok)

lemma vec_resize_same [simp]: "length xs = n \<Longrightarrow> vec_resize n xs = xs" "vec_resize n [] = replicate n empty_subset"
  by (simp_all add: vec_resize_def)

lemma reinit_sel [simp]:
  "sn_buf (im_own (imr_reinit_cohort c e)) = sn_buf (im_own e)" "sn_buf (im_partner (imr_reinit_cohort c e)) = sn_buf (im_partner e)"
  "sn_staged (im_own (imr_reinit_cohort c e)) = vec_resize (comm_size c) (sn_staged (im_own e))"
  "sn_protected (im_own (imr_reinit_cohort c e)) = vec_resize (comm_size c) (sn_protected (im_own e))"
  "sn_elm_size (im_own (imr_reinit_cohort c e)) = sn_elm_size (im_own e)"
  by (simp_all add: imr_reinit_cohort_def reinit_cohort_def)

definition rejoined :: "nat list \<Rightarrow> data_subset list \<Rightarrow> nat \<Rightarrow> imr_snapshot \<Rightarrow> imr_snapshot" where
  "rejoined ranks prot r e = same_protected prot (imr_reinit_cohort \<lparr>cm_ranks = ranks, cm_rank = r\<rparr> e)"

lemma rejoined_sel [simp]:
  "sn_buf (im_own (rejoined ranks prot r e)) = sn_buf (im_own e)" "sn_buf (im_partner (rejoined ranks prot r e)) = sn_buf (im_partner e)"
  "sn_staged (im_own (rejoined ranks prot r e)) = vec_resize (length ranks) (sn_staged (im_own e))"
  "sn_protected (im_own (rejoined ranks prot r e)) = prot" "sn_elm_size (im_own (rejoined ranks prot r e)) = sn_elm_size (im_own e)"
  by (simp_all add: rejoined_def same_protected_def comm_size_def)

lemma rejoin_eq:
  assumes "sender < length es" "sn_protected (im_own (es ! sender)) = prot" "length prot = length ranks"
  shows "rejoin ranks sender es = Some (map (\<lambda>r. rejoined ranks prot r (es ! r)) [0..<length es])"
proof -
  let ?es = "map2 (\<lambda>r e. imr_reinit_cohort \<lparr>cm_ranks = ranks, cm_rank = r\<rparr> e) [0..<length es] es"
  have "sn_protected (im_own (?es ! sender)) = prot" using assms by (simp add: comm_size_def)
  moreover have "map (same_protected prot) ?es = map (\<lambda>r. rejoined ranks prot r (es ! r)) [0..<length es]"
    by (rule nth_equalityI) (simp_all add: rejoined_def)
  ultimately show ?thesis using assms(1) by (simp add: rejoin_def Let_def)
qed

lemma places_exact_same:
  assumes "before k lens (length lens) \<le> D" "D \<le> S"
  shows "parity_places k D 0 0 lens = parity_places k S 0 0 lens"
proof -
  obtain ps where ps: "parity_places k D 0 0 lens = Some ps" "length ps = length lens"
    "\<forall>j < length lens. ps ! j = exact_place k lens j" using places_exact_all [OF assms(1)] by blast
  have "before k lens (length lens) \<le> S" using assms by simp
  then obtain ps' where ps': "parity_places k S 0 0 lens = Some ps'" "length ps' = length lens"
    "\<forall>j < length lens. ps' ! j = exact_place k lens j" using places_exact_all by blast
  have "ps = ps'" by (rule nth_equalityI) (use ps ps' in simp_all)
  then show ?thesis using ps(1) ps'(1) by simp
qed

lemma rank_places_nth:
  assumes "rank_places lens es = Some places" "k < length es"
  shows "parity_places k (db_size (sn_buf (im_own (es ! k)))) 0 0 lens = Some (places ! k)"
proof -
  let ?f = "\<lambda>r e. parity_places r (db_size (sn_buf (im_own e))) 0 0 lens"
  have "those xs = Some ys \<Longrightarrow> xs = map Some ys" for xs :: "place list option list" and ys
    by (induction xs arbitrary: ys) (auto split: option.splits)
  then have "map2 ?f [0..<length es] es = map Some places" using assms(1) by (simp add: rank_places_def on_ranks_def)
  then have "map2 ?f [0..<length es] es ! k = map Some places ! k" "length (map2 ?f [0..<length es] es) = length places"
    by simp_all
  then show ?thesis using assms(2) by simp
qed

text \<open>
  What \<open>repair\<close> runs: the reductions into the rank \<open>k\<close>, from buffers of its own that are zero,
  the other ranks having the bytes they had.
\<close>

lemma parity_rebuild_run:
  assumes mal: "malloc_ok fresh" and P: "parity_protected st n sz prot D es" and N: "3 \<le> length es" and k: "k < length es"
    and e0: "blank sz e0" and ranks: "length ranks = length es"
    and alike: "parity_places k D 0 0 (parity_lens D (length es - 1))
      = parity_places k (db_size (sn_buf (im_own (es ! k)))) 0 0 (parity_lens D (length es - 1))"
  obtains places G z where
    "parity_rebuild fresh ranks k (es[k := e0])
      = Some (reduced (\<lambda>_. k) places (parity_lens D (length es - 1)) (length es) (G[k := z]))"
    "length places = length es" "length G = length es" "G ! k = es ! k"
    "parity_places k (db_size (sn_buf (im_own (es ! k)))) 0 0 (parity_lens D (length es - 1)) = Some (places ! k)"
    "parity_holds places (parity_lens D (length es - 1)) G"
    "sized (db_size (sn_buf (im_own (es ! k)))) (parity_lens D (length es - 1) ! k) (es ! k)"
    "D \<le> db_size (sn_buf (im_own (es ! k)))"
    "sized D (parity_lens D (length es - 1) ! k) z" "snap_bytes (im_own z) = replicate D 0"
    "snap_bytes (im_partner z) = replicate (parity_lens D (length es - 1) ! k) 0" "sn_protected (im_own z) = prot"
    "\<forall>r < length es. r \<noteq> k \<longrightarrow> sn_protected (im_own (G ! r)) = prot \<and>
      snap_bytes (im_own (G ! r)) = snap_bytes (im_own (es ! r)) \<and>
      snap_bytes (im_partner (G ! r)) = snap_bytes (im_partner (es ! r))"
proof -
  let ?N = "length es" and ?n = "length es - 1"
  let ?L = "parity_lens D ?n" and ?es = "es[k := e0]"
  let ?J = "\<lambda>r. rejoined ranks prot r (?es ! r)"
  have n1: "0 < ?n" "Suc ?n = ?N" using N by simp_all
  have co: "parity_cohort st n sz (replicate ?N empty_subset) prot es"
    and D: "cohort_bytes sz (replicate ?N empty_subset) prot D"
    and size: "\<forall>r < ?N. D \<le> db_size (sn_buf (im_own (es ! r))) \<and> db_size (sn_buf (im_partner (es ! r))) = ?L ! r"
    using P by (simp_all add: parity_protected_def)
  obtain places where pl: "rank_places ?L es = Some places" "length places = ?N" "parity_holds places ?L es"
    using P by (auto simp: parity_protected_def)
  have er: "buffers_ok (es ! r)" "sn_staged (im_own (es ! r)) = replicate ?N empty_subset" "sn_protected (im_own (es ! r)) = prot"
    "sn_elm_size (im_own (es ! r)) = sz" if "r < ?N" for r using co that by (simp_all add: parity_cohort_def)
  have lp: "length prot = ?N" using co by (simp add: parity_cohort_def)
  define E where "E = map ?J [0..<?N]"
  let ?s = "if k = 0 then 1 else 0 :: nat"
  have rj: "rejoin ranks ?s ?es = Some E"
  proof -
    have "?s < ?N" "?s \<noteq> k" using N by auto
    then show ?thesis using rejoin_eq [of ?s ?es prot ranks] er(3) lp ranks by (simp add: E_def)
  qed
  have lE: "length E = ?N" by (simp add: E_def)
  have Eco: "parity_cohort st n sz (replicate ?N empty_subset) prot E"
    unfolding parity_cohort_def
  proof (intro conjI ballI)
    fix e assume "e \<in> set E"
    then obtain r where r: "r < ?N" "e = ?J r" by (auto simp: E_def)
    show "sn_protected (im_own e) = prot" using r by simp
    show "sn_staged (im_own e) = replicate ?N empty_subset" "sn_elm_size (im_own e) = sz" "buffers_ok e"
      using r er [OF r(1)] e0 ranks by (cases "r = k"; simp add: blank_def buffers_ok_def)+
  qed (use co lE in \<open>simp_all add: parity_cohort_def\<close>)
  note prep = cohort_prepare [OF mal Eco D, unfolded lE, OF N]
  let ?R = "\<lambda>r. prepared fresh D (?L ! r) (E ! r)"
  have all: "on_ranks (prepare_for_parity fresh) E = Some (map (\<lambda>r. (parity_split (int D) (int ?n), ?R r)) [0..<?N])"
    using on_ranks_some [of E "prepare_for_parity fresh" "\<lambda>r. (parity_split (int D) (int ?n), ?R r)"] prep(1) lE by simp
  have ag: "agreed (map fst (map (\<lambda>r. (parity_split (int D) (int ?n), ?R r)) [0..<?N])) = Some (parity_split (int D) (int ?n))"
    unfolding map_map by (rule agreed_map) (use n1 in auto)
  have lens: "map nat (parity_split (int D) (int ?n)) = ?L" using parity_split_lens [OF n1(1), of D] by simp
  have snds: "map snd (map (\<lambda>r. (parity_split (int D) (int ?n), ?R r)) [0..<?N]) = map ?R [0..<?N]" by (simp add: o_def)
  have Eb: "buffers_ok (E ! r)" if "r < ?N" for r using Eco that lE by (simp add: parity_cohort_def)
  define z where "z = zero_partner (zero_own (?R k))"
  have Ek: "db_size (sn_buf (im_own (E ! k))) = 0" using k e0 by (simp add: E_def blank_def)
  note Rk = prepared_sel [OF mal Eb [OF k], of D "?L ! k"]
  have z: "sized D (?L ! k) z" "snap_bytes (im_own z) = replicate D 0" "snap_bytes (im_partner z) = replicate (?L ! k) 0"
    "sn_protected (im_own z) = prot"
    using Rk Ek k by (simp_all add: z_def sized_def zero_partner_def zero_own_def set_bytes_sel) (simp add: E_def)
  have same: "E ! r = rejoined ranks prot r (es ! r)" if "r < ?N" "r \<noteq> k" for r using that by (simp add: E_def)
  have keep: "snap_bytes (im_own (?R r)) = snap_bytes (im_own (es ! r))" "snap_bytes (im_partner (?R r)) = snap_bytes (im_partner (es ! r))"
    "db_size (sn_buf (im_own (?R r))) = db_size (sn_buf (im_own (es ! r)))" "sn_protected (im_own (?R r)) = prot"
    if "r < ?N" "r \<noteq> k" for r
    using prepared_same [OF mal Eb [OF that(1)], of D "?L ! r"] prepared_sel(3,7) [OF mal Eb [OF that(1)], of D "?L ! r"] size that
    by (simp_all add: same snap_bytes_def)
  define F where "F = (map ?R [0..<?N])[k := z]"
  have "rank_places ?L F = rank_places ?L es"
    unfolding rank_places_def on_ranks_def
  proof (rule arg_cong [of _ _ those], rule nth_equalityI)
    fix r assume "r < length (map2 (\<lambda>r e. parity_places r (db_size (sn_buf (im_own e))) 0 0 ?L) [0..<length F] F)"
    then have r: "r < ?N" by (simp add: F_def)
    show "map2 (\<lambda>r e. parity_places r (db_size (sn_buf (im_own e))) 0 0 ?L) [0..<length F] F ! r
        = map2 (\<lambda>r e. parity_places r (db_size (sn_buf (im_own e))) 0 0 ?L) [0..<?N] es ! r"
      using r z(1) keep(3) [OF r] alike by (cases "r = k") (simp_all add: F_def sized_def)
  qed (simp add: F_def)
  then have plF: "rank_places ?L F = Some places" using pl(1) by simp
  define G where "G = (map ?R [0..<?N])[k := es ! k]"
  have G: "length G = ?N" "G ! k = es ! k" "G[k := z] = F" using k by (simp_all add: G_def F_def)
  have "\<forall>r < ?N. snap_bytes (im_own (es ! r)) = snap_bytes (im_own (G ! r)) \<and>
      snap_bytes (im_partner (es ! r)) = snap_bytes (im_partner (G ! r))"
    using keep k by (auto simp: G_def nth_list_update)
  then have hold: "parity_holds places ?L G" using parity_holds_cong [of es G places ?L] pl(2,3) G(1) by simp
  have sk: "sized (db_size (sn_buf (im_own (es ! k)))) (?L ! k) (G ! k)" using er(1) size k G(2) by (simp add: sized_def buffers_ok_def)
  have "reduce_all (\<lambda>_. k) places 0 ?L F = reduced (\<lambda>_. k) places ?L ?N (G[k := z])"
    using G n1(2) by (simp add: reduce_all_reduced)
  then have run: "parity_rebuild fresh ranks k ?es = Some (reduced (\<lambda>_. k) places ?L ?N (G[k := z]))"
    using rj all ag lens snds plF by (simp add: parity_rebuild_def Let_def F_def z_def k o_def)
  show thesis
    by (rule that [OF run pl(2) G(1,2) rank_places_nth [OF pl(1) k] hold sk [unfolded G(2)] _ z])
      (use keep size k in \<open>auto simp: G_def nth_list_update\<close>)
qed

theorem parity_repair_correct:
  assumes mal: "malloc_ok fresh" and P: "parity_protected st n sz prot D es" and N: "3 \<le> length es"
    and k: "k < length es" "D mod (length es - 1) = 0 \<or> k \<le> D mod (length es - 1)"
    and e0: "blank sz e0" and ranks: "length ranks = length es"
  shows "\<exists>es2. parity_rebuild fresh ranks k (es[k := e0]) = Some es2 \<and> length es2 = length es \<and>
    snap_bytes (im_own (es2 ! k)) = take D (snap_bytes (im_own (es ! k))) \<and>
    snap_bytes (im_partner (es2 ! k)) = snap_bytes (im_partner (es ! k)) \<and>
    (\<forall>r < length es. sn_protected (im_own (es2 ! r)) = prot) \<and>
    (\<forall>r < length es. r \<noteq> k \<longrightarrow> snap_bytes (im_own (es2 ! r)) = snap_bytes (im_own (es ! r)) \<and>
      snap_bytes (im_partner (es2 ! r)) = snap_bytes (im_partner (es ! r)))"
proof -
  let ?N = "length es" and ?n = "length es - 1"
  let ?L = "parity_lens D ?n" and ?S = "db_size (sn_buf (im_own (es ! k)))"
  have n1: "0 < ?n" "Suc ?n = ?N" "k \<le> ?n" using N k(1) by simp_all
  have bk: "before k ?L (length ?L) = D"
    using before_all [OF n1(1,3), of D] k(2) unfolding length_parity_lens by (auto simp del: before_simps)
  have S: "D \<le> ?S" using P k(1) by (simp add: parity_protected_def)
  have alike: "parity_places k D 0 0 ?L = parity_places k ?S 0 0 ?L"
    by (rule places_exact_same) (use bk S in simp_all)
  obtain places G z where run: "parity_rebuild fresh ranks k (es[k := e0]) = Some (reduced (\<lambda>_. k) places ?L ?N (G[k := z]))"
    and len: "length places = ?N" "length G = ?N" "G ! k = es ! k" and pk: "parity_places k ?S 0 0 ?L = Some (places ! k)"
    and hold: "parity_holds places ?L G" and sk: "sized ?S (?L ! k) (es ! k)"
    and z: "sized D (?L ! k) z" "snap_bytes (im_own z) = replicate D 0" "snap_bytes (im_partner z) = replicate (?L ! k) 0"
      "sn_protected (im_own z) = prot"
    and others: "\<forall>r < ?N. r \<noteq> k \<longrightarrow> sn_protected (im_own (G ! r)) = prot \<and>
      snap_bytes (im_own (G ! r)) = snap_bytes (im_own (es ! r)) \<and>
      snap_bytes (im_partner (G ! r)) = snap_bytes (im_partner (es ! r))"
    by (rule parity_rebuild_run [OF mal P N k(1) e0 ranks alike])
  have "before k ?L (length ?L) \<le> ?S" using bk S by simp
  from places_exact_all [OF this] have ex: "\<forall>j < ?N. places ! k ! j = exact_place k ?L j" using pk n1(2) by auto
  let ?W = "G[k := with_bytes (take D (snap_bytes (im_own (es ! k)))) (snap_bytes (im_partner (es ! k))) z]"
  have "reduced (\<lambda>_. k) places ?L ?N (G[k := z]) = ?W"
    using repair_exact [of places G k ?L ?S D z] len k(1) n1(2) hold ex sk S bk z(1-3) by simp
  then have "parity_rebuild fresh ranks k (es[k := e0]) = Some ?W" using run by simp
  moreover have lk: "length (take D (snap_bytes (im_own (es ! k)))) = D" "length (snap_bytes (im_partner (es ! k))) = ?L ! k"
    using sized_bytes [OF sk] S by simp_all
  moreover have "sn_protected (im_own (with_bytes a b z)) = prot" for a b using z(4) by (simp add: with_bytes_def)
  ultimately show ?thesis
    using with_bytes_sel [OF z(1) lk] len k(1) others by (intro exI [of _ ?W]) (auto simp: nth_list_update)
qed

end
