(* ===== verification/Parity_Loss.thy ===== *)
theory Parity_Loss
  imports Parity_Repair
begin

text \<open>
  The other ranks of an uneven parity: their last bytes of data overlap by one, and \<open>repair\<close>, which
  reduces into the recovered data in place, clears the byte that it has already recovered.
\<close>

section \<open>Where the bytes overlap\<close>

text \<open>\<open>j0\<close> is the reduction whose bytes would end one after the data.\<close>

definition short_places :: "nat \<Rightarrow> nat \<Rightarrow> nat \<Rightarrow> nat \<Rightarrow> nat list \<Rightarrow> nat \<Rightarrow> place list \<Rightarrow> bool" where
  "short_places rank bytes root offset lens j0 ps \<longleftrightarrow>
     length ps = length lens \<and> j0 < length lens \<and> root + j0 \<noteq> rank \<and> 0 < lens ! j0 \<and>
     offset + skipped rank root lens j0 + lens ! j0 = bytes + 1 \<and> 0 < offset + skipped rank root lens j0 \<and>
     (\<forall>j < j0. ps ! j = (if root + j = rank then InPartner else InData (offset + skipped rank root lens j))) \<and>
     ps ! j0 = InData (offset + skipped rank root lens j0 - 1) \<and>
     (\<forall>j. j0 < j \<and> j < length lens \<longrightarrow> (if root + j = rank then ps ! j = InPartner else ps ! j = InData bytes \<and> lens ! j = 0))"

lemma places_after:
  assumes "rest rank root lens = 0"
  shows "\<exists>ps. parity_places rank bytes root bytes lens = Some ps \<and> length ps = length lens \<and>
    (\<forall>j < length lens. if root + j = rank then ps ! j = InPartner else ps ! j = InData bytes \<and> lens ! j = 0)"
proof -
  have z: "root + j \<noteq> rank \<Longrightarrow> lens ! j = 0" if "j < length lens" for j
    using assms that by (auto simp: skipped_def split: if_splits)
  have "skipped rank root lens j = 0" if "j \<le> length lens" for j using z that by (auto simp: skipped_def)
  then show ?thesis using places_exact [of bytes rank root lens bytes] assms z by auto
qed

lemma places_short:
  assumes "offset \<le> bytes" "offset + rest rank root lens = bytes + 1" "offset = 0 \<longrightarrow> (\<forall>len \<in> set lens. len \<le> bytes)"
  shows "\<exists>ps j0. parity_places rank bytes root offset lens = Some ps \<and> short_places rank bytes root offset lens j0 ps"
  using assms
proof (induction lens arbitrary: root offset)
  case (Cons len lens)
  have step: ?case
    if p: "parity_place rank bytes root len offset = Some (p, o')" and o': "o' = offset + (if root = rank then 0 else len)"
      and pe: "p = (if root = rank then InPartner else InData offset)"
      and ih: "o' \<le> bytes" "o' + rest rank (Suc root) lens = bytes + 1" "o' = 0 \<longrightarrow> (\<forall>len \<in> set lens. len \<le> bytes)" for p o'
  proof -
    obtain ps j0 where ps: "parity_places rank bytes (Suc root) o' lens = Some ps" "short_places rank bytes (Suc root) o' lens j0 ps"
      using Cons.IH [OF ih] by blast
    note sp = ps(2) [unfolded short_places_def]
    have "\<forall>j < Suc j0. (p # ps) ! j = (if root + j = rank then InPartner
        else InData (offset + skipped rank root (len # lens) j))"
    proof (intro allI impI)
      fix j assume "j < Suc j0"
      then show "(p # ps) ! j = (if root + j = rank then InPartner
          else InData (offset + skipped rank root (len # lens) j))" using sp pe o' by (cases j) (simp_all add: add.assoc)
    qed
    moreover have "\<forall>j. Suc j0 < j \<and> j < length (len # lens) \<longrightarrow> (if root + j = rank then (p # ps) ! j = InPartner
        else (p # ps) ! j = InData bytes \<and> (len # lens) ! j = 0)"
    proof (intro allI impI)
      fix j assume "Suc j0 < j \<and> j < length (len # lens)"
      then show "if root + j = rank then (p # ps) ! j = InPartner
        else (p # ps) ! j = InData bytes \<and> (len # lens) ! j = 0" using sp by (cases j) simp_all
    qed
    ultimately have "short_places rank bytes root offset (len # lens) (Suc j0) (p # ps)"
      unfolding short_places_def using sp o' by (intro conjI) simp_all
    then show ?thesis using p ps(1) by auto
  qed
  show ?case
  proof (cases "root \<noteq> rank \<and> offset + len > bytes")
    case True
    then have e: "offset + len = bytes + 1" "0 < offset" "rest rank (Suc root) lens = 0"
      using Cons.prems by (auto split: if_splits)
    obtain ps where ps: "parity_places rank bytes (Suc root) bytes lens = Some ps" "length ps = length lens"
      "\<forall>j < length lens. if Suc root + j = rank then ps ! j = InPartner else ps ! j = InData bytes \<and> lens ! j = 0"
      using places_after [OF e(3)] by blast
    have "parity_place rank bytes root len offset = Some (InData (offset - 1), bytes)" using True e by (simp add: parity_place_def)
    moreover have "\<forall>j. 0 < j \<and> j < length (len # lens) \<longrightarrow> (if root + j = rank then (InData (offset - 1) # ps) ! j = InPartner
        else (InData (offset - 1) # ps) ! j = InData bytes \<and> (len # lens) ! j = 0)"
    proof (intro allI impI)
      fix j assume "0 < j \<and> j < length (len # lens)"
      then show "if root + j = rank then (InData (offset - 1) # ps) ! j = InPartner
        else (InData (offset - 1) # ps) ! j = InData bytes \<and> (len # lens) ! j = 0" using ps(3) by (cases j) auto
    qed
    then have "short_places rank bytes root offset (len # lens) 0 (InData (offset - 1) # ps)"
      unfolding short_places_def using e ps(2) True Cons.prems(1) by (intro conjI) simp_all
    ultimately show ?thesis using ps(1) by auto
  next
    case False
    then show ?thesis
      using Cons.prems
      by (intro step [of "if root = rank then InPartner else InData offset" "offset + (if root = rank then 0 else len)"])
        (auto simp: parity_place_def)
  qed
qed simp

section \<open>The reductions into such a rank\<close>

lemma overwrite_cleared:
  assumes b: "0 < b" "b \<le> D" and X: "length X = D"
    and v: "length v = Suc (D - b)" "\<forall>i < Suc (D - b). v ! i = X ! (b - 1 + i) XOR (if i = 0 then X ! (b - 1) else 0)"
  shows "overwrite (b - 1) v (take b X @ replicate (D - b) 0) = X[b - 1 := 0]"
proof (rule nth_equalityI)
  show "length (overwrite (b - 1) v (take b X @ replicate (D - b) 0)) = length (X[b - 1 := 0])"
    using b X v(1) by (simp add: overwrite_def)
  fix i assume "i < length (overwrite (b - 1) v (take b X @ replicate (D - b) 0))"
  then have i: "i < D" using b X v(1) by (simp add: overwrite_def)
  obtain c where c: "b = Suc c" using b(1) gr0_implies_Suc by blast
  show "overwrite (b - 1) v (take b X @ replicate (D - b) 0) ! i = X[b - 1 := 0] ! i"
  proof (cases "i < c")
    case True
    then show ?thesis using b X by (simp add: overwrite_def nth_append c)
  next
    case False
    then obtain j where j: "i = c + j" using le_add_diff_inverse not_less by metis
    then have "v ! j = X ! (c + j) XOR (if j = 0 then X ! c else 0)" "j < length v" using i v b by (simp_all add: c)
    then show ?thesis using b X j i by (cases "j = 0") (simp_all add: overwrite_def nth_append c)
  qed
qed

lemma repair_short:
  assumes p: "length places = length es" "k < length es" "length lens = length es" and h: "parity_holds places lens es"
    and sp: "short_places k D 0 0 lens j0 (places ! k)"
    and own: "sized D (lens ! k) (es ! k)"
    and z: "sized D (lens ! k) z" "snap_bytes (im_own z) = replicate D 0" "snap_bytes (im_partner z) = replicate (lens ! k) 0"
  shows "reduced (\<lambda>_. k) places lens (length es) (es[k := z]) =
    es[k := with_bytes ((snap_bytes (im_own (es ! k)))[D - lens ! j0 := 0]) (snap_bytes (im_partner (es ! k))) z]"
proof -
  let ?X = "snap_bytes (im_own (es ! k))" and ?P = "snap_bytes (im_partner (es ! k))" and ?b = "before k lens j0"
  let ?len = "lens ! j0"
  have j0: "j0 < length es" "j0 \<noteq> k" "0 < ?len" "?b + ?len = D + 1" "0 < ?b"
    and pl: "\<forall>j < j0. places ! k ! j = exact_place k lens j" "places ! k ! j0 = InData (?b - 1)"
    and after: "\<And>j. j0 < j \<Longrightarrow> j < length es \<Longrightarrow> if j = k then places ! k ! j = InPartner
      else places ! k ! j = InData D \<and> lens ! j = 0"
    using sp p(3) by (auto simp: short_places_def before_skipped exact_place_def)
  have lX: "length ?X = D" "length ?P = lens ! k" using sized_bytes [OF own] by simp_all
  have bD: "?b \<le> D" using j0 by simp
  have Db: "D - ?len = ?b - 1" "?len = Suc (D - ?b)" using j0 by simp_all
  let ?own = "take ?b ?X @ replicate (D - ?b) 0" and ?pt = "\<lambda>n. if k < n then ?P else replicate (lens ! k) 0"
  have lo: "length ?own = D" "length (?pt n) = lens ! k" for n using lX bD by simp_all
  have first: "reduced (\<lambda>_. k) places lens j0 (es[k := z]) = es[k := with_bytes ?own (?pt j0) z]"
    using repair_reduced [OF p h pl(1) _ own order_refl bD z order_refl] j0(1) lX by simp
  let ?e = "with_bytes ?own (?pt j0) z"
  note sel = with_bytes_sel(1,2) [OF z(1) lo]
  have here: "bytes_at ?len (places ! k ! j0) ?e = take ?len (drop (?b - 1) ?own)"
    "bytes_at ?len (places ! k ! j0) (es ! k) = take ?len (drop (?b - 1) ?X)"
    unfolding pl(2) bytes_at_def sel by simp_all
  have nths: "take ?len (drop (?b - 1) ?own) ! i = (if i = 0 then ?X ! (?b - 1) else 0)"
    "take ?len (drop (?b - 1) ?X) ! i = ?X ! (?b - 1 + i)" if "i < ?len" for i
    using that j0 lX bD by (auto simp: nth_append)
  let ?v = "xor_bytes ?len (rows places lens j0 (es[k := ?e]))"
  have v: "?v ! i = ?X ! (?b - 1 + i) XOR (if i = 0 then ?X ! (?b - 1) else 0)" if "i < ?len" for i
  proof -
    have "?v ! i = xor_bytes ?len (rows places lens j0 es) ! i XOR (rows places lens j0 es ! k ! i XOR bytes_at ?len (places ! k ! j0) ?e ! i)"
      unfolding rows_update [OF p(1,2)] by (rule xor_bytes_update) (use p that in \<open>simp_all add: length_rows\<close>)
    also have "xor_bytes ?len (rows places lens j0 es) ! i = 0" using h j0(1) p(3) that by (simp add: parity_holds_def)
    also have "rows places lens j0 es ! k = bytes_at ?len (places ! k ! j0) (es ! k)" using p by (simp add: rows_nth)
    finally show ?thesis unfolding here using nths [OF that] by simp
  qed
  have ov: "overwrite (?b - 1) ?v ?own = ?X[?b - 1 := 0]"
    by (rule overwrite_cleared) (use j0(5) bD lX Db(2) v in simp_all)
  have "?b - 1 + length ?v \<le> D" using j0 by simp
  then have "put_at (places ! k ! j0) ?v ?e = with_bytes (?X[?b - 1 := 0]) (?pt j0) z"
    unfolding pl(2) using put_at_with_bytes(2) [OF z(1) lo, of "?b - 1" ?v] by (simp only: ov)
  moreover have kp: "k < length places" using p by simp
  ultimately have mid: "reduced (\<lambda>_. k) places lens (Suc j0) (es[k := z]) = es[k := with_bytes (?X[?b - 1 := 0]) (?pt (Suc j0)) z]"
    using reduced_Suc [of "\<lambda>_. k" j0 places lens "es[k := z]", OF kp] first p(2) j0(2) by (simp add: Let_def less_Suc_eq)
  let ?Y = "?X[?b - 1 := 0]"
  have lY: "length ?Y = D" using lX by simp
  have "reduced (\<lambda>_. k) places lens n (es[k := z]) = es[k := with_bytes ?Y (?pt n) z]" if "Suc j0 \<le> n" "n \<le> length es" for n
    using that
  proof (induction n rule: dec_induct)
    case base
    show ?case by (rule mid)
  next
    case (step n)
    let ?e = "with_bytes ?Y (?pt n) z"
    have n: "n < length es" "j0 < n" using step by simp_all
    have IH: "reduced (\<lambda>_. k) places lens n (es[k := z]) = es[k := ?e]" using step by simp
    note sel = with_bytes_sel(1,2) [OF z(1) lY lo(2) [of n]]
    have nl: "n < length lens" using n(1) p(3) by simp
    have "put_at (places ! k ! n) (xor_bytes (lens ! n) (rows places lens n (es[k := ?e]))) ?e = with_bytes ?Y (?pt (Suc n)) z"
    proof (cases "n = k")
      case True
      then have pk: "places ! k ! n = InPartner" using after [OF n(2,1)] by simp
      have zero: "bytes_at (lens ! n) (places ! k ! n) ?e = replicate (lens ! n) 0"
        unfolding pk bytes_at_def sel using True by simp
      have there: "bytes_at (lens ! n) (places ! k ! n) (es ! k) = ?P" unfolding pk bytes_at_def using True lX by simp
      have "xor_bytes (lens ! n) (rows places lens n (es[k := ?e])) = ?P"
        using reduce_missing [OF p(1,2) nl h zero] there lX True by simp
      moreover have "k < Suc n" using True by simp
      ultimately show ?thesis unfolding pk using put_at_with_bytes(1) [OF z(1) lY lo(2) [of n], of ?P] lX(2) by (simp only: if_True)
    next
      case False
      then have pk: "places ! k ! n = InData D" "lens ! n = 0" using after [OF n(2,1)] by simp_all
      then have "xor_bytes (lens ! n) (rows places lens n (es[k := ?e])) = []" by (simp add: xor_bytes_def)
      moreover have "overwrite D [] ?Y = ?Y" using lY by (simp add: overwrite_def)
      moreover have "k < Suc n \<longleftrightarrow> k < n" using False by auto
      ultimately show ?thesis
        unfolding pk(1) using put_at_with_bytes(2) [OF z(1) lY lo(2) [of n], of D "[]"] by (simp only: list.size add_0_right order_refl)
    qed
    then show ?case
      using reduced_Suc [of "\<lambda>_. k" n places lens "es[k := z]", OF kp] p(2)
      unfolding IH Let_def by (simp only: nth_list_update_eq length_list_update list_update_overwrite)
  qed
  from this [of "length es"] show ?thesis using j0(1) p(2) Db(1) by simp
qed

theorem parity_repair_clears:
  assumes mal: "malloc_ok fresh" and P: "parity_protected st n sz prot D es" and N: "3 \<le> length es"
    and k: "k < length es" "D mod (length es - 1) \<noteq> 0" "D mod (length es - 1) < k"
    and S: "db_size (sn_buf (im_own (es ! k))) = D"
    and e0: "blank sz e0" and ranks: "length ranks = length es"
  shows "\<exists>es2 p. parity_rebuild fresh ranks k (es[k := e0]) = Some es2 \<and> p < D \<and>
    snap_bytes (im_own (es2 ! k)) = (snap_bytes (im_own (es ! k)))[p := 0]"
proof -
  let ?N = "length es" and ?n = "length es - 1"
  let ?L = "parity_lens D ?n"
  have n1: "0 < ?n" "Suc ?n = ?N" "k \<le> ?n" "2 \<le> ?n" using N k(1) by simp_all
  obtain places G z where run: "parity_rebuild fresh ranks k (es[k := e0]) = Some (reduced (\<lambda>_. k) places ?L ?N (G[k := z]))"
    and len: "length places = ?N" "length G = ?N" "G ! k = es ! k" and pk: "parity_places k D 0 0 ?L = Some (places ! k)"
    and hold: "parity_holds places ?L G" and sk: "sized D (?L ! k) (es ! k)"
    and z: "sized D (?L ! k) z" "snap_bytes (im_own z) = replicate D 0" "snap_bytes (im_partner z) = replicate (?L ! k) 0"
    by (rule parity_rebuild_run [OF mal P N k(1) e0 ranks]) (use S in simp_all)
  have "rest k 0 ?L = D + 1" using before_all [OF n1(1,3), of D] k by (simp add: before_skipped del: skipped_Cons)
  then obtain j0 where sp: "short_places k D 0 0 ?L j0 (places ! k)"
    using places_short [of 0 D k 0 ?L] parity_lens_le [OF n1(4)] pk by auto
  let ?W = "G[k := with_bytes ((snap_bytes (im_own (es ! k)))[D - ?L ! j0 := 0]) (snap_bytes (im_partner (es ! k))) z]"
  have "reduced (\<lambda>_. k) places ?L ?N (G[k := z]) = ?W"
    using repair_short [of places G k ?L D j0 z] len k(1) n1(2) hold sp sk z by simp
  then have "parity_rebuild fresh ranks k (es[k := e0]) = Some ?W" using run by simp
  moreover have "length ((snap_bytes (im_own (es ! k)))[D - ?L ! j0 := 0]) = D" "length (snap_bytes (im_partner (es ! k))) = ?L ! k"
    using sized_bytes [OF sk] by simp_all
  moreover have "D - ?L ! j0 < D" using sp k(2) by (cases D) (auto simp: short_places_def)
  ultimately show ?thesis
    using with_bytes_sel [OF z(1)] len k(1) by (intro exI [of _ ?W] exI [of _ "D - ?L ! j0"]) simp
qed

end
