(* ===== verification/Buddy_Facts.thy ===== *)
theory Buddy_Facts
  imports Parity_Repair
begin

text \<open>
  The buddy members of src/data/policy_imr.cpp: \<open>iprotect\<close> makes every rank hold a copy of what
  its left neighbour protects, and \<open>repair\<close> gives a rank that lost its snapshot both copies back.
\<close>

section \<open>Sending elements\<close>

lemma protect_all_nth:
  assumes "protect_all ps ds = Some qs" "length ds = length ps"
  shows "length qs = length ps \<and> (\<forall>i < length ps. subset_union (ps ! i) (ds ! i) = Some (qs ! i))"
  using assms
proof (induction ps ds arbitrary: qs rule: protect_all.induct)
  case (3 p ps s st)
  then obtain q qs' where "subset_union p s = Some q" "protect_all ps st = Some qs'" "qs = q # qs'"
    by (auto simp: bind_eq_Some_conv)
  then show ?case using 3 by (auto simp: nth_Cons split: nat.splits)
qed simp_all

definition same_on :: "nat \<Rightarrow> nat set \<Rightarrow> byte list \<Rightarrow> byte list \<Rightarrow> bool" where
  "same_on es U xs ys \<longleftrightarrow> (U \<noteq> {} \<longrightarrow> length xs = length ys) \<and> (\<forall>i < length xs. i div es \<in> U \<longrightarrow> xs ! i = ys ! i)"

lemma same_on_sym: "same_on es U xs ys \<Longrightarrow> same_on es U ys xs"
  by (cases "U = {}") (simp_all add: same_on_def)

lemma same_on_trans: "same_on es U xs ys \<Longrightarrow> same_on es U ys zs \<Longrightarrow> same_on es U xs zs"
  by (cases "U = {}") (simp_all add: same_on_def)

text \<open>The bytes after the elements of \<open>d\<close> have arrived.\<close>

definition arrived :: "nat \<Rightarrow> nat set \<Rightarrow> byte list \<Rightarrow> byte list \<Rightarrow> byte list \<Rightarrow> bool" where
  "arrived es U src dst xs \<longleftrightarrow> length xs = length dst \<and>
     (\<forall>i < length dst. xs ! i = (if i div es \<in> U then src ! i else dst ! i))"

lemma count_int: "n * es \<le> INT_MAX \<Longrightarrow> 0 < es \<Longrightarrow> n \<le> INT_MAX"
  by (rule order_trans [of n "n * es"]) simp_all

lemma no_regions: "regions_ok st R \<Longrightarrow> regions_elems R = {} \<Longrightarrow> R = []"
  using regions_end_in by blast

lemma pack_unpack:
  assumes d: "subset_ok st d" and n: "0 < n" "n * es \<le> INT_MAX" "0 < es"
    and src: "length src = n * es \<or> subset_elems d = {}" and dst: "length dst = n * es"
  obtains p xs where "pack_data d es src = Some p" "length p = card (subset_elems d \<inter> {..<n}) * es"
    "unpack_data fresh d es p dst = Some xs" "arrived es (subset_elems d) src dst xs"
proof -
  obtain R where R: "d = basic_subset R" "regions_ok st R" using subset_ok_basic [OF d] by blast
  have e: "subset_elems d = regions_elems R" by (simp add: R(1) subset_elems_def)
  have nI: "n * es \<le> IDX_MAX" using n(2) INT_MAX_lt(1) by linarith
  show thesis
  proof (cases "R = []")
    case True
    then have "subset_elems (basic_subset []) = {}" by (simp add: subset_elems_def regions_elems_def)
    then show thesis
      using True by (intro that [of "[]" dst]) (simp_all add: R(1) pack_data_def unpack_data_def arrived_def)
  next
    case False
    then have s: "length src = n * es" using src e no_regions [OF R(2)] by auto
    obtain p xs where p: "pack_data (basic_subset R) es src = Some p"
      "unpack_data fresh (basic_subset R) es p dst = Some xs" "length xs = n * es"
      "\<forall>i < n * es. xs ! i = (if i div es \<in> regions_elems R then src ! i else dst ! i)"
      by (rule unpack_pack_data [OF R(2) n(1) nI _ s dst, of fresh]) (use n(3) in simp)
    obtain bs where "pack_data (basic_subset R) es src = Some (concat (map (slice es src) bs))"
      "length (concat (map (slice es src) bs)) = card (regions_elems R \<inter> {..<n}) * es"
      by (rule pack_data_correct [OF R(2) False n(1) nI _ s]) (use n(3) in simp_all)
    then show thesis using p dst e by (intro that [of p xs]) (simp_all add: R(1) arrived_def)
  qed
qed

lemma within_int:
  assumes "subset_ok st d" "subset_elems d \<subseteq> {..<n}" "n * es \<le> INT_MAX" "0 < es"
  shows "\<exists>t. to_datatype d = Some t"
proof -
  obtain R where R: "d = basic_subset R" "regions_ok st R" using subset_ok_basic [OF assms(1)] by blast
  have "n \<le> INT_MAX" using count_int assms(3,4) by blast
  then have "regions_elems R \<subseteq> {..<INT_MAX}" using assms(2) by (auto simp: R(1) subset_elems_def)
  then show ?thesis unfolding R(1) by (rule to_datatype_correct [OF R(2)]) blast
qed

lemma transfer_correct:
  assumes d: "subset_ok st d" "subset_elems d \<subseteq> {..<n}" and n: "0 < n" "n * es \<le> INT_MAX" "0 < es"
    and src: "length src = n * es \<or> subset_elems d = {}" and dst: "length dst = n * es"
  obtains xs where "transfer d d es src dst = Some xs" "arrived es (subset_elems d) src dst xs"
proof -
  obtain p xs where p: "pack_data d es src = Some p" "unpack_data (\<lambda>_. []) d es p dst = Some xs"
    "arrived es (subset_elems d) src dst xs" by (rule pack_unpack [OF d(1) n src dst])
  obtain t where "to_datatype d = Some t" using within_int [OF d n(2,3)] by blast
  then show thesis using p by (intro that [of xs]) (simp_all add: transfer_def arrived_def)
qed

lemma receive_correct:
  assumes mal: "malloc_ok fresh" and d: "subset_ok st d" and n: "0 < n" "n * es \<le> INT_MAX" "0 < es"
    and src: "length src = n * es \<or> subset_elems d = {}" and s: "db_ok (sn_buf s)" "db_size (sn_buf s) = n * es"
  obtains p xs where "pack_data d es src = Some p" "receive_elements fresh d (n - 1) es p s = Some (set_bytes xs s)"
    "arrived es (subset_elems d) src (snap_bytes s) xs"
proof -
  have dst: "length (snap_bytes s) = n * es" using s by (simp add: length_snap_bytes)
  obtain p xs where p: "pack_data d es src = Some p" "length p = card (subset_elems d \<inter> {..<n}) * es"
    "unpack_data fresh d es p (snap_bytes s) = Some xs" "arrived es (subset_elems d) src (snap_bytes s) xs"
    by (rule pack_unpack [OF d n src dst])
  obtain R where R: "d = basic_subset R" "regions_ok st R" using subset_ok_basic [OF d] by blast
  let ?c = "card (subset_elems d \<inter> {..<n})"
  have nI: "n \<le> INT_MAX" using count_int n(2,3) by blast
  have "{..n - 1} = {..<n}" using n(1) by auto
  then have count: "subset_count d (n - 1) = Some ?c"
    using subset_count_regions [OF R(2), of "n - 1"] nI INT_MAX_lt(1) by (simp add: R(1) subset_elems_def)
  have "?c \<le> card {..<n}" by (intro card_mono) auto
  then have cn: "?c \<le> n" by simp
  then have "?c * es \<le> n * es" by simp
  with cn have c: "?c \<le> INT_MAX" "?c * es \<le> INT_MAX" using nI n(2) by linarith+
  have i: "int_of_size ?c * int es = int (?c * es)" using sizes_int(1) [OF c(1)] by simp
  have "size_of_int (i32 (int_of_size ?c * int es)) = ?c * es" unfolding i by (rule size_i32 [OF c(2)])
  moreover have "?c * es \<le> IDX_MAX" using c(2) INT_MAX_lt(1) by linarith
  moreover have "length (fresh (?c * es)) = ?c * es" using mal by (simp add: malloc_ok_def)
  ultimately have "receive fresh (i32 (int_of_size ?c * int es)) p = Some p" using p(2) by (simp add: receive_def)
  moreover have "length xs = db_size (sn_buf s)" using p(4) dst s(2) by (simp add: arrived_def)
  ultimately show thesis
    using that p count by (simp add: receive_elements_def set_bytes_def)
qed

section \<open>Cohorts of buddies\<close>

lemma neighbours:
  assumes "2 \<le> N" "N \<le> 3" "k < N"
  shows "left_of N k < N" "right_of N k < N" "left_of N k \<noteq> k" "right_of N k \<noteq> k" "left_of N (right_of N k) = k"
  using assms by (auto simp: left_of_def right_of_def)

lemma left_lt: "r < N \<Longrightarrow> left_of N r < N"
  by (auto simp: left_of_def)

text \<open>
  The subsets \<open>prot\<close> are protected by every rank; on the elements that are not \<open>staged\<close> anew, a
  rank's partner snapshot has the bytes of its left neighbour.
\<close>

definition holds_copy :: "nat \<Rightarrow> nat \<Rightarrow> nat \<Rightarrow> data_subset \<Rightarrow> nat set \<Rightarrow> nat \<Rightarrow> imr_snapshot \<Rightarrow> imr_snapshot \<Rightarrow> bool" where
  "holds_copy st n es d U r left e \<longleftrightarrow>
     fixed_snap st es n (im_partner e) \<and> sn_rank (im_partner e) = int r \<and> staged_subset (im_partner e) = Some d \<and>
     same_on es (subset_elems d - U) (snap_bytes (im_own left)) (snap_bytes (im_partner e))"

definition buddy_cohort :: "nat \<Rightarrow> nat \<Rightarrow> nat \<Rightarrow> data_subset list \<Rightarrow> data_subset list \<Rightarrow> imr_snapshot list \<Rightarrow> bool" where
  "buddy_cohort st n es prot staged E \<longleftrightarrow>
     0 < n \<and> 0 < es \<and> n * es \<le> INT_MAX \<and> length prot = length E \<and> length staged = length E \<and>
     (\<forall>r < length E. fixed_snap st es n (im_own (E ! r)) \<and> sn_rank (im_own (E ! r)) = int r \<and>
       sn_protected (im_own (E ! r)) = prot \<and> sn_staged (im_own (E ! r)) = staged \<and>
       length (sn_staged (im_partner (E ! r))) = length E \<and>
       holds_copy st n es (prot ! left_of (length E) r) (subset_elems (staged ! left_of (length E) r)) r
         (E ! left_of (length E) r) (E ! r))"

lemma buddy_rank:
  assumes "buddy_cohort st n es prot staged E" "r < length E"
  shows "fixed_snap st es n (im_own (E ! r))" "sn_rank (im_own (E ! r)) = int r"
    "sn_protected (im_own (E ! r)) = prot" "sn_staged (im_own (E ! r)) = staged"
    "length (sn_staged (im_partner (E ! r))) = length E"
    "holds_copy st n es (prot ! left_of (length E) r) (subset_elems (staged ! left_of (length E) r)) r
       (E ! left_of (length E) r) (E ! r)"
  using assms by (simp_all add: buddy_cohort_def)

lemma fixed_size:
  assumes "fixed_snap st es n s" "d \<in> set (sn_staged s) \<union> set (sn_protected s)"
  shows "length (snap_bytes s) = n * es \<or> subset_elems d = {}" "subset_ok st d" "subset_elems d \<subseteq> {..<n}"
  using assms by (auto simp: fixed_snap_def subsets_within_def length_snap_bytes)

text \<open>What a rank receives.\<close>

lemma grow_bytes:
  assumes "malloc_ok fresh" "db_ok (sn_buf s)" "length (snap_bytes s) = m"
  shows "snap_bytes (s\<lparr>sn_buf := grow fresh m (sn_buf s)\<rparr>) = snap_bytes s"
  using assms by (simp add: grow_def snap_bytes_def db_data_length)

lemma buddy_receive_correct:
  assumes mal: "malloc_ok fresh" and co: "buddy_cohort st n es prot staged E" and r: "r < length E"
    and U: "subset_union (prot ! left_of (length E) r) (staged ! left_of (length E) r) = Some U"
  shows "\<exists>e. buddy_receive fresh E r (E ! r) = Some e \<and> im_own e = im_own (E ! r) \<and>
    length (sn_staged (im_partner e)) = length E \<and>
    holds_copy st n es U {} r (E ! left_of (length E) r) e"
proof -
  let ?l = "left_of (length E) r"
  let ?own = "im_own (E ! ?l)" and ?p = "im_partner (E ! r)" and ?d = "staged ! ?l" and ?c = "prot ! ?l"
  have n: "0 < n" "n * es \<le> INT_MAX" "0 < es" and len: "length prot = length E" "length staged = length E"
    using co by (simp_all add: buddy_cohort_def)
  have l: "?l < length E" using left_lt [OF r] .
  note own = buddy_rank [OF co l] and me = buddy_rank [OF co r]
  have copy: "fixed_snap st es n ?p" "sn_rank ?p = int r" "staged_subset ?p = Some ?c"
    "same_on es (subset_elems ?c - subset_elems ?d) (snap_bytes ?own) (snap_bytes ?p)"
    using me(6) by (simp_all add: holds_copy_def)
  have mine: "staged_subset ?own = Some ?d" using own(2,4) l len by (simp add: staged_subset_def at_rank_def)
  have theirs: "at_rank (sn_staged (im_own (E ! r))) (int ?l) = Some ?d" using me(4) l len by (simp add: at_rank_def)
  have "?d \<in> set (sn_staged ?own)" using own(4) l len by simp
  then have d: "length (snap_bytes ?own) = n * es \<or> subset_elems ?d = {}" "subset_ok st ?d" "subset_elems ?d \<subseteq> {..<n}"
    using fixed_size [OF own(1)] by blast+
  have "?c \<in> set (sn_protected ?own)" using own(3) l len by simp
  then have c: "length (snap_bytes ?own) = n * es \<or> subset_elems ?c = {}" "subset_ok st ?c" "subset_elems ?c \<subseteq> {..<n}"
    using fixed_size [OF own(1)] by blast+
  have "sn_staged ?p ! r = ?c" "r < length (sn_staged ?p)"
    using copy(2,3) me(5) r by (auto simp: staged_subset_def at_rank_def split: if_splits)
  then have "?c \<in> set (sn_staged ?p)" using nth_mem by metis
  then have pc: "length (snap_bytes ?p) = n * es \<or> subset_elems ?c = {}" using fixed_size [OF copy(1)] by blast
  obtain A B where A: "?c = basic_subset A" "regions_ok st A" and B: "?d = basic_subset B" "regions_ok st B"
    using subset_ok_basic [OF c(2)] subset_ok_basic [OF d(2)] by blast
  obtain V where V: "subset_union ?c ?d = Some V" "subset_ok st V" "subset_elems V = subset_elems ?c \<union> subset_elems ?d"
    by (rule subset_union_same [OF c(2) d(2)])
  then have UV: "U = V" using U by simp
  obtain R where R: "V = basic_subset R" "regions_ok st R" using subset_ok_basic [OF V(2)] by blast
  let ?q = "(set_staged V ?p)\<lparr>sn_buf := grow fresh (n * es) (sn_buf ?p)\<rparr>"
  have fit: "add_and_fit fresh ?d ?p = Some ?q"
    unfolding B(1) R(1)
    by (rule add_and_fit_union [of es n ?p A st B R])
      (use n copy(1,3) A B R V c(3) d(3) in \<open>simp_all add: fixed_snap_def subset_elems_def\<close>)
  have okp: "db_ok (sn_buf ?p)" "db_size (sn_buf ?p) = 0 \<or> db_size (sn_buf ?p) = n * es" "sn_rank ?p = int r"
    "sn_elm_size ?p = es" "sn_max_count ?p = int n" using copy(1,2) by (simp_all add: fixed_snap_def)
  have okq: "db_ok (sn_buf ?q)" "db_size (sn_buf ?q) = n * es" using okp mal grow_size [of fresh "n * es" "sn_buf ?p"]
    by (auto simp: grow_ok)
  have lq: "length (snap_bytes ?q) = n * es" using okq by (simp add: length_snap_bytes)
  obtain xs where xs: "transfer ?d ?d es (snap_bytes ?own) (snap_bytes ?q) = Some xs"
    "arrived es (subset_elems ?d) (snap_bytes ?own) (snap_bytes ?q) xs"
    by (rule transfer_correct [OF d(2,3) n d(1) lq])
  let ?e = "(E ! r)\<lparr>im_partner := set_bytes xs ?q\<rparr>"
  have lxs: "length xs = n * es" "length xs = db_size (sn_buf ?q)" using xs(2) lq okq(2) by (simp_all add: arrived_def)
  have ees: "sn_elm_size (im_own (E ! r)) = es" using me(1) by (simp add: fixed_snap_def)
  have run: "buddy_receive fresh E r (E ! r) = Some ?e"
    unfolding buddy_receive_def Let_def using mine theirs fit xs(1) ees by simp
  have bytes: "same_on es (subset_elems V) (snap_bytes ?own) xs"
  proof -
    have "snap_bytes ?own ! i = xs ! i" if i: "i < length (snap_bytes ?own)" "i div es \<in> subset_elems V" for i
    proof (cases "i div es \<in> subset_elems ?d")
      case True
      then have "length (snap_bytes ?own) = n * es" using d(1) by auto
      then show ?thesis using True xs(2) lq i by (simp add: arrived_def)
    next
      case False
      then have ic: "i div es \<in> subset_elems ?c" using i(2) V(3) by simp
      then have lo: "length (snap_bytes ?own) = n * es" "length (snap_bytes ?p) = n * es" using c(1) pc by auto
      have "snap_bytes ?q = snap_bytes ?p" using grow_bytes [OF mal okp(1) lo(2)] by (simp add: set_staged_def snap_bytes_def)
      then have "xs ! i = snap_bytes ?p ! i" using False xs(2) lq i lo by (simp add: arrived_def)
      then show ?thesis using copy(4) False ic i by (simp add: same_on_def)
    qed
    moreover have "length (snap_bytes ?own) = length xs" if "subset_elems V \<noteq> {}" using that V(3) c(1) d(1) lxs(1) by auto
    ultimately show ?thesis by (simp add: same_on_def)
  qed
  have rl: "r < length (sn_staged ?p)" using me(5) r by simp
  have "staged_subset (set_bytes xs ?q) = Some V" using okp(3) rl by (simp add: staged_subset_def at_rank_def set_staged_def)
  moreover have "fixed_snap st es n (set_bytes xs ?q)"
    using copy(1) okp rl okq lxs set_bytes_sel [OF lxs(2)] V(2,3) c(3) d(3) n subsets_within_update [of st n "sn_staged ?p" V r]
    by (simp add: fixed_snap_def) (simp add: set_staged_def set_bytes_def)
  moreover have "sn_rank (set_bytes xs ?q) = int r" "length (sn_staged (set_bytes xs ?q)) = length E"
    using okp(3) me(5) by (simp_all add: set_staged_def)
  ultimately show ?thesis
    using run bytes set_bytes_sel(1) [OF lxs(2)] by (intro exI [of _ ?e]) (simp add: holds_copy_def UV)
qed

theorem buddy_protect_correct:
  assumes mal: "malloc_ok fresh" and co: "buddy_cohort st n es prot staged E"
  shows "\<exists>E' prot'. buddy_protect fresh E = Some E' \<and> length E' = length E \<and>
    buddy_cohort st n es prot' (replicate (length E) empty_subset) E' \<and>
    (\<forall>i < length E. subset_elems (prot' ! i) = subset_elems (prot ! i) \<union> subset_elems (staged ! i)) \<and>
    (\<forall>r < length E. snap_bytes (im_own (E' ! r)) = snap_bytes (im_own (E ! r)))"
proof (cases "E = []")
  case True
  then show ?thesis using co
    by (intro exI [of _ "[]"] exI [of _ "[]"]) (simp add: buddy_protect_def on_ranks_def buddy_cohort_def)
next
  case False
  let ?N = "length E"
  have len: "length prot = ?N" "length staged = ?N" and n: "0 < n" "n * es \<le> INT_MAX" "0 < es"
    using co by (simp_all add: buddy_cohort_def)
  have "0 < ?N" using False by simp
  note any = buddy_rank [OF co this]
  have w: "subsets_within st n prot" "subsets_within st n staged" using any(1,3,4) by (simp_all add: fixed_snap_def)
  obtain qs where qs: "protect_all prot staged = Some qs" "length qs = ?N" "subsets_within st n qs"
    "\<forall>i < ?N. subset_elems (qs ! i) = subset_elems (prot ! i) \<union> subset_elems (staged ! i)"
    using protect_all_correct [of prot staged st n] len w by auto
  have U: "subset_union (prot ! i) (staged ! i) = Some (qs ! i)" if "i < ?N" for i
    using protect_all_nth [OF qs(1)] len that by simp
  have "\<forall>r < ?N. \<exists>e. buddy_receive fresh E r (E ! r) = Some e \<and> im_own e = im_own (E ! r) \<and>
      length (sn_staged (im_partner e)) = ?N \<and> holds_copy st n es (qs ! left_of ?N r) {} r (E ! left_of ?N r) e"
    using buddy_receive_correct [OF mal co] U left_lt by blast
  then obtain g where g: "\<forall>r < ?N. buddy_receive fresh E r (E ! r) = Some (g r) \<and> im_own (g r) = im_own (E ! r) \<and>
      length (sn_staged (im_partner (g r))) = ?N \<and> holds_copy st n es (qs ! left_of ?N r) {} r (E ! left_of ?N r) (g r)" by metis
  define F where "F = map g [0..<?N]"
  define E' where "E' = map (\<lambda>r. protected_as qs (F ! r)) [0..<?N]"
  have lF: "length F = ?N" by (simp add: F_def)
  have recv: "on_ranks (buddy_receive fresh E) E = Some F" unfolding F_def by (rule on_ranks_some) (use g in simp)
  have own: "im_own (F ! r) = im_own (E ! r)" if "r < ?N" for r using g that by (simp add: F_def)
  have "those (map imr_protected F) = Some E'"
    unfolding E'_def lF [symmetric]
    by (rule those_map_nth) (use own buddy_rank [OF co] qs(1,2) len lF in \<open>simp add: imr_protected_eq\<close>)
  then have run: "buddy_protect fresh E = Some E'" by (simp add: buddy_protect_def recv)
  have lE: "length E' = ?N" by (simp add: E'_def)
  have E'_own: "im_own (E' ! r) = (im_own (E ! r))\<lparr>sn_protected := qs, sn_staged := replicate ?N empty_subset\<rparr>"
    "im_partner (E' ! r) = im_partner (g r)" if "r < ?N" for r
    using that own qs(2) by (simp_all add: E'_def protected_as_def F_def)
  have bytes: "snap_bytes (im_own (E' ! r)) = snap_bytes (im_own (E ! r))" if "r < ?N" for r
    using that by (simp add: E'_own snap_bytes_def)
  have fixed: "fixed_snap st es n (im_own (E' ! r))" if r: "r < ?N" for r
  proof -
    note me = buddy_rank [OF co r]
    have sub: "subset_elems q = {}" if e: "db_size (sn_buf (im_own (E ! r))) = 0" and q: "q \<in> set qs" for q
    proof -
      obtain i where i: "i < ?N" "q = qs ! i" using q qs(2) by (auto simp: in_set_conv_nth)
      then have "prot ! i \<in> set prot" "staged ! i \<in> set staged" using len by simp_all
      then have "subset_elems (prot ! i) = {}" "subset_elems (staged ! i) = {}"
        using me(1,3,4) e by (auto simp: fixed_snap_def)
      then show ?thesis using qs(4) i by simp
    qed
    show ?thesis using me(1,2) qs(2,3) sub within_empty r by (auto simp: fixed_snap_def E'_own)
  qed
  have "buddy_cohort st n es qs (replicate ?N empty_subset) E'"
    unfolding buddy_cohort_def lE
  proof (intro conjI allI impI)
    fix r assume r: "r < ?N"
    show "fixed_snap st es n (im_own (E' ! r))" using fixed [OF r] .
    show "sn_rank (im_own (E' ! r)) = int r" "sn_protected (im_own (E' ! r)) = qs"
      "sn_staged (im_own (E' ! r)) = replicate ?N empty_subset" "length (sn_staged (im_partner (E' ! r))) = ?N"
      using r buddy_rank(2) [OF co r] g by (simp_all add: E'_own)
    have l: "left_of ?N r < ?N" using left_lt [OF r] .
    show "holds_copy st n es (qs ! left_of ?N r) (subset_elems (replicate ?N empty_subset ! left_of ?N r)) r (E' ! left_of ?N r) (E' ! r)"
      using g r l by (simp add: holds_copy_def E'_own(2) bytes)
  qed (use n qs(2) in simp_all)
  then show ?thesis using run lE qs(4) bytes by blast
qed

end
