(* ===== verification/Buddy_Repair.thy ===== *)
theory Buddy_Repair
  imports Buddy_Facts
begin

text \<open>
  \<open>BuddyMember::repair\<close>: the rank that lost its snapshot gets its own data from its right
  neighbour and the copy it keeps from its left one; and what goes wrong when the right neighbour's
  copy still names elements of an earlier use of the snapshot, which \<open>reset\<close> does not remove.
\<close>

text \<open>An unused snapshot for \<open>n\<close> elements, whose partner is unused as well.\<close>

definition spare :: "nat \<Rightarrow> nat \<Rightarrow> imr_snapshot \<Rightarrow> bool" where
  "spare n es e \<longleftrightarrow> blank es e \<and> sn_max_count (im_own e) = int n \<and>
     sn_elm_size (im_partner e) = es \<and> sn_max_count (im_partner e) = int n \<and>
     (db_size (sn_buf (im_partner e)) = 0 \<or> db_size (sn_buf (im_partner e)) = n * es) \<and>
     set (sn_staged (im_partner e)) \<subseteq> {empty_subset} \<and> set (sn_protected (im_partner e)) \<subseteq> {empty_subset}"

lemma vec_resize_empty:
  assumes "set xs \<subseteq> {empty_subset}"
  shows "vec_resize n xs = replicate n empty_subset"
proof -
  have "length (vec_resize n xs) = n" by (simp add: vec_resize_def)
  moreover have "\<forall>d \<in> set (vec_resize n xs). d = empty_subset"
    using assms set_take_subset [of n xs] by (auto simp: vec_resize_def)
  ultimately show ?thesis by (metis replicate_length_same)
qed

lemma rejoined_partner:
  "im_partner (rejoined ranks prot r e) = (im_partner e)\<lparr>sn_cohort := Some ranks, sn_rank := int r,
     sn_protected := vec_resize (length ranks) (sn_protected (im_partner e)),
     sn_staged := vec_resize (length ranks) (sn_staged (im_partner e))\<rparr>"
  "sn_rank (im_own (rejoined ranks prot r e)) = int r" "sn_max_count (im_own (rejoined ranks prot r e)) = sn_max_count (im_own e)"
  by (simp_all add: rejoined_def same_protected_def imr_reinit_cohort_def reinit_cohort_def comm_size_def)

lemma same_own_protected: "im_own (rejoined ranks prot r e) = (im_own e)\<lparr>sn_cohort := Some ranks, sn_rank := int r,
     sn_protected := prot, sn_staged := vec_resize (length ranks) (sn_staged (im_own e))\<rparr>"
  by (simp add: rejoined_def same_protected_def imr_reinit_cohort_def reinit_cohort_def comm_size_def)

text \<open>A subset and its elements arrive in a snapshot that has staged nothing.\<close>

lemma refill:
  assumes mal: "malloc_ok fresh" and d: "subset_ok st d" "subset_elems d \<subseteq> {..<n}" and n: "0 < n" "n * es \<le> INT_MAX" "0 < es"
    and src: "length src = n * es \<or> subset_elems d = {}"
    and s: "db_ok (sn_buf s)" "db_size (sn_buf s) = 0 \<or> db_size (sn_buf s) = n * es" "sn_elm_size s = es" "sn_max_count s = int n"
      "sn_rank s = int k" "sn_staged s = replicate N empty_subset" "k < N"
  obtains p q xs where "pack_data d es src = Some p" "add_and_fit fresh d s = Some q"
    "receive_elements fresh d (n - 1) es p q = Some (set_bytes xs q)"
    "length xs = n * es" "db_size (sn_buf q) = n * es" "same_on es (subset_elems d) src xs"
    "sn_staged q = (replicate N empty_subset)[k := d]" "staged_subset q = Some d" "sn_protected q = sn_protected s"
    "sn_rank q = int k" "sn_elm_size q = es" "sn_max_count q = int n"
proof -
  obtain R where R: "d = basic_subset R" "regions_ok st R" using subset_ok_basic [OF d(1)] by blast
  have e: "subset_elems d = regions_elems R" by (simp add: R(1) subset_elems_def)
  let ?q = "(set_staged d s)\<lparr>sn_buf := grow fresh (n * es) (sn_buf s)\<rparr>"
  have st: "staged_subset s = Some (basic_subset [])"
    using s(5-7) by (simp add: staged_subset_def at_rank_def empty_subset_def)
  have "subset_union (basic_subset []) (basic_subset R) = Some (basic_subset R)"
    by (simp add: subset_union_def basic_subset_def is_basic_def)
  then have fit: "add_and_fit fresh d s = Some ?q"
    unfolding R(1)
    by (intro add_and_fit_union [of es n s "[]" st R R]) (use n s st R d(2) e in \<open>simp_all add: regions_elems_def\<close>)
  have okq: "db_ok (sn_buf ?q)" "db_size (sn_buf ?q) = n * es"
    using s(1,2) mal grow_size [of fresh "n * es" "sn_buf s"] by (auto simp: grow_ok)
  obtain p xs where p: "pack_data d es src = Some p" "receive_elements fresh d (n - 1) es p ?q = Some (set_bytes xs ?q)"
    "arrived es (subset_elems d) src (snap_bytes ?q) xs"
    by (rule receive_correct [OF mal d(1) n src okq])
  have lq: "length (snap_bytes ?q) = n * es" using okq by (simp add: length_snap_bytes)
  have "same_on es (subset_elems d) src xs"
    using p(3) src lq by (auto simp: same_on_def arrived_def)
  moreover have "staged_subset ?q = Some d" using s(5-7) by (simp add: staged_subset_def at_rank_def set_staged_def)
  ultimately show thesis
    using p(1,2) fit okq(2) lq p(3) s by (intro that [of p ?q xs]) (simp_all add: arrived_def set_staged_def)
qed

lemma buddy_rebuild_refill:
  assumes "2 \<le> length E" "length E \<le> 3" and p: "\<forall>r < length E. r \<noteq> k \<longrightarrow> sn_protected (im_own (E ! r)) = prot"
    and "k < length E" "length ranks = length E" "length prot = length E"
  shows "buddy_rebuild fresh ranks k (E[k := e0])
    = buddy_refill fresh k (map (\<lambda>r. rejoined ranks prot r (E[k := e0] ! r)) [0..<length E])"
proof -
  let ?s = "if k = length E - 1 then length E - 2 else length E - 1"
  have "?s < length E" "?s \<noteq> k" using assms(1,4) by auto
  then have "rejoin ranks ?s (E[k := e0]) = Some (map (\<lambda>r. rejoined ranks prot r (E[k := e0] ! r)) [0..<length E])"
    using rejoin_eq [of ?s "E[k := e0]" prot ranks] p assms(5,6) by simp
  then show ?thesis using assms(1,2) unfolding buddy_rebuild_def length_list_update by (simp only:) (simp add: fenix_assert_bind)
qed

lemma max_element_fixed: "sn_max_count s = int n \<Longrightarrow> 0 < n \<Longrightarrow> n * es \<le> INT_MAX \<Longrightarrow> 0 < es \<Longrightarrow> max_element s = n - 1"
  using fixed_count(1) [of n es] by (simp add: max_element_def)

theorem buddy_repair_correct:
  assumes mal: "malloc_ok fresh" and co: "buddy_cohort st n es prot staged E"
    and old: "\<forall>d \<in> set staged. subset_elems d = {}"
    and N: "2 \<le> length E" "length E \<le> 3" and k: "k < length E" and e0: "spare n es e0" and ranks: "length ranks = length E"
  shows "\<exists>E2. buddy_rebuild fresh ranks k (E[k := e0]) = Some E2 \<and> length E2 = length E \<and>
    sn_protected (im_own (E2 ! k)) = prot \<and>
    same_on es (subset_elems (prot ! k)) (snap_bytes (im_own (E ! k))) (snap_bytes (im_own (E2 ! k))) \<and>
    holds_copy st n es (prot ! left_of (length E) k) {} k (E ! left_of (length E) k) (E2 ! k) \<and>
    (\<forall>r < length E. r \<noteq> k \<longrightarrow> snap_bytes (im_own (E2 ! r)) = snap_bytes (im_own (E ! r)) \<and>
      snap_bytes (im_partner (E2 ! r)) = snap_bytes (im_partner (E ! r)))"
proof -
  let ?N = "length E"
  let ?L = "left_of ?N k" and ?R = "right_of ?N k" and ?J = "\<lambda>r. rejoined ranks prot r (E[k := e0] ! r)"
  define F where "F = map ?J [0..<?N]"
  note nb = neighbours [OF N k]
  have n: "0 < n" "n * es \<le> INT_MAX" "0 < es" and len: "length prot = ?N" "length staged = ?N"
    using co by (simp_all add: buddy_cohort_def)
  have F: "length F = ?N" "F ! k = rejoined ranks prot k e0" "F ! ?L = rejoined ranks prot ?L (E ! ?L)"
    "F ! ?R = rejoined ranks prot ?R (E ! ?R)" using nb k by (simp_all add: F_def)
  note atL = buddy_rank [OF co nb(1)] and atR = buddy_rank [OF co nb(2)] and atk = buddy_rank [OF co k]
  have within: "subset_ok st (prot ! i)" "subset_elems (prot ! i) \<subseteq> {..<n}"
    "length (snap_bytes (im_own (E ! i))) = n * es \<or> subset_elems (prot ! i) = {}" if "i < ?N" for i
    using fixed_size [OF buddy_rank(1) [OF co that], of "prot ! i"] buddy_rank(3) [OF co that] len that by auto
  have emptyst: "subset_elems (staged ! i) = {}" if "i < ?N" for i using old that len by simp
  have copy: "fixed_snap st es n (im_partner (E ! ?R))" "staged_subset (im_partner (E ! ?R)) = Some (prot ! k)"
    "same_on es (subset_elems (prot ! k)) (snap_bytes (im_own (E ! k))) (snap_bytes (im_partner (E ! ?R)))"
    "sn_rank (im_partner (E ! ?R)) = int ?R"
    using atR(6) emptyst [OF k] by (simp_all add: holds_copy_def nb(5))
  have st: "sn_staged (im_partner (E ! ?R)) ! ?R = prot ! k"
    using copy(2,4) by (auto simp: staged_subset_def at_rank_def split: if_splits)
  then have "prot ! k \<in> set (sn_staged (im_partner (E ! ?R)))" using nth_mem [of ?R "sn_staged (im_partner (E ! ?R))"] atR(5) nb(2) by simp
  then have srcR: "length (snap_bytes (im_partner (E ! ?R))) = n * es \<or> subset_elems (prot ! k) = {}"
    using fixed_size(1) [OF copy(1)] by blast
  have theirs: "staged_subset (im_partner (F ! ?R)) = Some (prot ! k)"
    using st atR(5) nb(2) ranks by (simp add: F(4) rejoined_partner staged_subset_def at_rank_def)
  have sent: "protected_subset (im_own (F ! ?L)) = Some (prot ! ?L)"
    using len nb(1) by (simp add: F(3) same_own_protected protected_subset_def at_rank_def)
  have mine: "protected_subset (im_own (F ! k)) = Some (prot ! k)"
    using len k by (simp add: F(2) same_own_protected protected_subset_def at_rank_def)
  have e: "blank es e0" "sn_max_count (im_own e0) = int n" "sn_elm_size (im_partner e0) = es" "sn_max_count (im_partner e0) = int n"
    "db_size (sn_buf (im_partner e0)) = 0 \<or> db_size (sn_buf (im_partner e0)) = n * es"
    "set (sn_staged (im_partner e0)) \<subseteq> {empty_subset}" "set (sn_protected (im_partner e0)) \<subseteq> {empty_subset}"
    using e0 by (simp_all add: spare_def)
  obtain p q xs where own: "pack_data (prot ! k) es (snap_bytes (im_partner (E ! ?R))) = Some p"
    "add_and_fit fresh (prot ! k) (im_own (F ! k)) = Some q"
    "receive_elements fresh (prot ! k) (n - 1) es p q = Some (set_bytes xs q)"
    "length xs = n * es" "db_size (sn_buf q) = n * es"
    "same_on es (subset_elems (prot ! k)) (snap_bytes (im_partner (E ! ?R))) xs"
    "sn_protected q = sn_protected (im_own (F ! k))" "sn_elm_size q = es" "sn_max_count q = int n"
    by (rule refill [OF mal within(1,2) [OF k] n srcR, of "im_own (F ! k)" k ?N])
      (use e(1,2) k ranks in \<open>simp_all add: F(2) blank_def rejoined_partner\<close>)
  obtain p' q' ys where part: "pack_data (prot ! ?L) es (snap_bytes (im_own (E ! ?L))) = Some p'"
    "add_and_fit fresh (prot ! ?L) (im_partner (F ! k)) = Some q'"
    "receive_elements fresh (prot ! ?L) (n - 1) es p' q' = Some (set_bytes ys q')"
    "length ys = n * es" "db_size (sn_buf q') = n * es" "same_on es (subset_elems (prot ! ?L)) (snap_bytes (im_own (E ! ?L))) ys"
    "sn_staged q' = (replicate ?N empty_subset)[k := prot ! ?L]" "staged_subset q' = Some (prot ! ?L)"
    "sn_protected q' = sn_protected (im_partner (F ! k))" "sn_rank q' = int k" "sn_elm_size q' = es" "sn_max_count q' = int n"
    by (rule refill [OF mal within(1,2) [OF nb(1)] n within(3) [OF nb(1)], of "im_partner (F ! k)" k ?N])
      (use e k ranks in \<open>simp_all add: F(2) blank_def rejoined_partner vec_resize_empty\<close>)
  let ?own = "set_bytes xs q" and ?partner = "set_bytes ys q'"
  let ?W = "F[k := \<lparr>im_own = ?own, im_partner = ?partner\<rparr>]"
  have mx: "max_element q = n - 1" "max_element ?own = n - 1"
    using own(9) n by (simp_all add: max_element_fixed [of _ n es] set_bytes_def)
  have ees: "sn_elm_size (im_own (F ! ?R)) = es" "sn_elm_size (im_own (F ! ?L)) = es"
    using atR(1) atL(1) by (simp_all add: F fixed_snap_def)
  have kept: "at_rank (sn_protected ?own) (int ?L) = Some (prot ! ?L)"
    using own(7) len nb(1) by (simp add: F(2) at_rank_def)
  have bytesF: "snap_bytes (im_partner (F ! ?R)) = snap_bytes (im_partner (E ! ?R))" "snap_bytes (im_own (F ! ?L)) = snap_bytes (im_own (E ! ?L))"
    by (simp_all add: F snap_bytes_def)
  have wanted: "sn_elm_size ?own = es" using own(8) by simp
  have "buddy_refill fresh k F = Some ?W"
    unfolding buddy_refill_def Let_def F(1) using theirs sent mine own(1-3) part(1-3) kept
    by (simp add: ees bytesF mx wanted part(8) own(8))
  then have run: "buddy_rebuild fresh ranks k (E[k := e0]) = Some ?W"
    using buddy_rebuild_refill [of E k prot ranks fresh e0] N buddy_rank(3) [OF co] k ranks len(1) by (simp add: F_def)
  have lx: "length xs = db_size (sn_buf q)" "length ys = db_size (sn_buf q')" using own(4,5) part(4,5) by simp_all
  have "same_on es (subset_elems (prot ! k)) (snap_bytes (im_own (E ! k))) (snap_bytes ?own)"
    using same_on_trans [OF copy(3) own(6)] set_bytes_sel(1) [OF lx(1)] by simp
  moreover have "holds_copy st n es (prot ! ?L) {} k (E ! ?L) \<lparr>im_own = ?own, im_partner = ?partner\<rparr>"
  proof -
    have "subsets_within st n ((replicate ?N empty_subset)[k := prot ! ?L])"
      using subsets_within_update [OF within_empty within(1,2) [OF nb(1)]] .
    moreover have "sn_protected q' = replicate ?N empty_subset"
      using part(9) e(7) ranks by (simp add: F(2) rejoined_partner vec_resize_empty)
    ultimately have "fixed_snap st es n ?partner"
      using part set_bytes_sel [OF lx(2)] k n within_empty [of st n ?N] by (simp add: fixed_snap_def) (simp add: set_bytes_def)
    then show ?thesis using part(6,8,10) set_bytes_sel(1) [OF lx(2)] by (simp add: holds_copy_def staged_subset_def)
  qed
  moreover have "sn_protected ?own = prot" using own(7) by (simp add: F(2))
  moreover have "snap_bytes (im_own (?W ! r)) = snap_bytes (im_own (E ! r)) \<and> snap_bytes (im_partner (?W ! r)) = snap_bytes (im_partner (E ! r))"
    if "r < ?N" "r \<noteq> k" for r using that by (simp add: F_def snap_bytes_def)
  ultimately show ?thesis using run F(1) k by (intro exI [of _ ?W]) simp
qed

text \<open>
  \<open>IMRSnapshot\<close> inherits \<open>reset\<close>, which leaves the partner's subset: a copy of fewer elements in a
  snapshot used before cannot be sent back.
\<close>

theorem buddy_repair_stale:
  assumes mal: "malloc_ok fresh" and co: "buddy_cohort st n es prot staged E"
    and N: "2 \<le> length E" "length E \<le> 3" and k: "k < length E" and e0: "spare n es e0" and ranks: "length ranks = length E"
    and stale: "fixed_snap st es n s" "sn_rank s = int (right_of (length E) k)" "length (sn_staged s) = length E"
      "staged_subset s = Some d" "subset_elems (prot ! k) \<subset> subset_elems d"
  shows "buddy_rebuild fresh ranks k (E[right_of (length E) k := (E ! right_of (length E) k)\<lparr>im_partner := s\<rparr>, k := e0]) = None"
proof -
  let ?N = "length E"
  let ?R = "right_of ?N k" and ?L = "left_of ?N k"
  let ?E = "E[?R := (E ! ?R)\<lparr>im_partner := s\<rparr>]"
  note nb = neighbours [OF N k]
  have n: "0 < n" "n * es \<le> INT_MAX" "0 < es" and len: "length prot = ?N" using co by (simp_all add: buddy_cohort_def)
  define F where "F = map (\<lambda>r. rejoined ranks prot r (?E[k := e0] ! r)) [0..<?N]"
  have F: "length F = ?N" "F ! k = rejoined ranks prot k e0" "F ! ?R = rejoined ranks prot ?R ((E ! ?R)\<lparr>im_partner := s\<rparr>)"
    using nb k by (simp_all add: F_def)
  have run: "buddy_rebuild fresh ranks k (?E[k := e0]) = buddy_refill fresh k F"
    using buddy_rebuild_refill [of ?E k prot ranks fresh e0] N buddy_rank(3) [OF co] k ranks len nb(2)
    by (simp add: F_def nth_list_update)
  have st: "sn_staged s ! ?R = d" using stale(2,4) by (auto simp: staged_subset_def at_rank_def split: if_splits)
  then have "d \<in> set (sn_staged s)" using nth_mem [of ?R "sn_staged s"] stale(3) nb(2) by simp
  then have d: "length (snap_bytes s) = n * es \<or> subset_elems d = {}" "subset_ok st d" "subset_elems d \<subseteq> {..<n}"
    using fixed_size [OF stale(1)] by blast+
  have theirs: "staged_subset (im_partner (F ! ?R)) = Some d"
    using st stale(3) nb(2) ranks by (simp add: F(3) rejoined_partner staged_subset_def at_rank_def)
  obtain p xs where p: "pack_data d es (snap_bytes s) = Some p" "length p = card (subset_elems d \<inter> {..<n}) * es"
    by (rule pack_unpack [OF d(2) n d(1), of "replicate (n * es) 0" fresh]) simp_all
  have mine: "protected_subset (im_own (F ! k)) = Some (prot ! k)"
    using len k by (simp add: F(2) same_own_protected protected_subset_def at_rank_def)
  have pk: "subset_ok st (prot ! k)" "subset_elems (prot ! k) \<subseteq> {..<n}"
    "length (snap_bytes (im_own (E ! k))) = n * es \<or> subset_elems (prot ! k) = {}"
    using fixed_size [OF buddy_rank(1) [OF co k], of "prot ! k"] buddy_rank(3) [OF co k] len k by auto
  have e: "blank es e0" "sn_max_count (im_own e0) = int n" using e0 by (simp_all add: spare_def)
  obtain q where q: "add_and_fit fresh (prot ! k) (im_own (F ! k)) = Some q" "sn_elm_size q = es" "sn_max_count q = int n"
    by (rule refill [OF mal pk(1,2) n pk(3), of "im_own (F ! k)" k ?N])
      (use e k ranks in \<open>simp_all add: F(2) blank_def rejoined_partner\<close>)
  have mx: "max_element q = n - 1" using q(3) n by (simp add: max_element_fixed [of _ n es])
  obtain R where R: "prot ! k = basic_subset R" "regions_ok st R" using subset_ok_basic [OF pk(1)] by blast
  have nI: "n \<le> INT_MAX" using count_int n(2,3) by blast
  let ?c = "card (subset_elems (prot ! k))"
  have "{..n - 1} = {..<n}" using n(1) by auto
  then have count: "subset_count (prot ! k) (n - 1) = Some ?c"
    using subset_count_regions [OF R(2), of "n - 1"] nI INT_MAX_lt(1) pk(2)
    by (simp add: R(1) subset_elems_def Int_absorb2)
  have dn: "subset_elems d \<inter> {..<n} = subset_elems d" "finite (subset_elems d)" using d(3) finite_subset by auto
  have cd: "?c < card (subset_elems d)" using psubset_card_mono [OF dn(2) stale(5)] .
  have "card (subset_elems d) \<le> card {..<n}" using d(3) by (intro card_mono) auto
  then have cn: "?c \<le> n" using cd by simp
  then have "?c * es \<le> n * es" by simp
  with cn have c: "?c \<le> INT_MAX" "?c * es \<le> INT_MAX" using nI n(2) by linarith+
  have i: "int_of_size ?c * int es = int (?c * es)" using sizes_int(1) [OF c(1)] by simp
  have "size_of_int (i32 (int_of_size ?c * int es)) = ?c * es" unfolding i by (rule size_i32 [OF c(2)])
  moreover have "?c * es < length p" using cd n(3) p(2) dn(1) by simp
  ultimately have "receive fresh (i32 (int_of_size ?c * int es)) p = None" by (simp add: receive_def fenix_assert_def)
  then have "receive_elements fresh (prot ! k) (n - 1) es p q = None" using count by (simp add: receive_elements_def)
  moreover have "sn_elm_size (im_own (F ! ?R)) = es" "snap_bytes (im_partner (F ! ?R)) = snap_bytes s"
    using buddy_rank(1) [OF co nb(2)] by (simp_all add: F(3) fixed_snap_def snap_bytes_def)
  ultimately have "buddy_refill fresh k F = None"
    unfolding buddy_refill_def Let_def F(1) using theirs mine q p(1) mx by (simp add: bind_eq_None_conv)
  then show ?thesis using run by simp
qed

end
