(* ===== verification/Imr_Properties.thy ===== *)
theory Imr_Properties
  imports Parity_Loss Buddy_Repair
begin

text \<open>
  The properties of the in-memory redundancy (src/data/policy_imr.cpp): who holds the copies of
  whom, what the loss of one rank costs, and what its repair brings back.
\<close>

interpretation copies: keyed_set "\<lambda>e. im_timestamp e" "kset_ok im_timestamp" "kset_find im_timestamp"
  "kset_insert im_timestamp" "kset_erase im_timestamp"
  by (rule kset_keyed)

section \<open>The repair of one timestamp\<close>

lemma single_missing_one:
  assumes "k < length found" "\<forall>i < length found. found ! i \<longleftrightarrow> i \<noteq> k"
  shows "single_missing found = Some k"
proof -
  have "[0..<length found] = [0..<k] @ k # [Suc k..<length found]"
    using upt_add_eq_append [of 0 k "length found - k"] upt_conv_Cons [of k "length found"] assms(1) by simp
  moreover have "filter (\<lambda>i. \<not> found ! i) [0..<k] = []" "filter (\<lambda>i. \<not> found ! i) [Suc k..<length found] = []"
    using assms by (simp_all add: filter_empty_conv)
  ultimately show ?thesis using assms by (simp add: single_missing_def)
qed

lemma those_all: "(\<forall>r < length xs. f (xs ! r) = Some (g r)) \<Longrightarrow> those (map f xs) = Some (map g [0..<length xs])"
  by (rule those_map_nth)

text \<open>
  All ranks but \<open>k\<close> have the snapshot \<open>E ! r\<close> of the timestamp; the rank \<open>k\<close> takes an unused one.
\<close>

definition lost_at :: "int \<Rightarrow> nat \<Rightarrow> imr_snapshot list \<Rightarrow> imr_member list \<Rightarrow> bool" where
  "lost_at ts k E ms \<longleftrightarrow> length ms = length E \<and> k < length E \<and>
     (\<forall>r < length E. r \<noteq> k \<longrightarrow> kset_find im_timestamp ts (iv_commits (ms ! r)) = Some (E ! r)) \<and>
     kset_find im_timestamp ts (iv_commits (ms ! k)) = None \<and> kset_ok im_timestamp (iv_commits (ms ! k)) \<and>
     iv_avail (ms ! k) \<noteq> []"

lemma repair_ts_run:
  assumes lost: "lost_at ts k E ms"
    and run: "rebuild k (E[k := imr_reset fresh (last (iv_avail (ms ! k)))]) = Some E2" "length E2 = length E"
  shows "\<exists>ms'. repair_ts fresh rebuild ts ms = Some ms' \<and> length ms' = length ms \<and>
    kset_find im_timestamp ts (iv_commits (ms' ! k)) = Some ((E2 ! k)\<lparr>im_own := (im_own (E2 ! k))\<lparr>sn_timestamp := ts\<rparr>\<rparr>)"
proof -
  let ?e = "imr_reset fresh (last (iv_avail (ms ! k)))"
  have N: "length ms = length E" "k < length E" using lost by (simp_all add: lost_at_def)
  have ent: "those (map (repair_entry fresh ts) ms) = Some (map (\<lambda>r. (r \<noteq> k, (E[k := ?e]) ! r)) [0..<length ms])"
    by (rule those_all) (use lost in \<open>auto simp: lost_at_def repair_entry_def nth_list_update split: option.split\<close>)
  let ?ent = "map (\<lambda>r. (r \<noteq> k, (E[k := ?e]) ! r)) [0..<length ms]"
  have one: "single_missing (map fst ?ent) = Some k"
    by (rule single_missing_one) (use N in simp_all)
  have snds: "map snd ?ent = E[k := ?e]" by (rule nth_equalityI) (use N in simp_all)
  let ?ms = "map2 (\<lambda>(found, e) m. if found then put_entry (True, e) m else commit_entry ts e m) (zip (map fst ?ent) E2) ms"
  have "?ms ! k = commit_entry ts (E2 ! k) (ms ! k)" using N run(2) by simp
  moreover have "kset_find im_timestamp ts (iv_commits (commit_entry ts (E2 ! k) (ms ! k)))
      = Some ((E2 ! k)\<lparr>im_own := (im_own (E2 ! k))\<lparr>sn_timestamp := ts\<rparr>\<rparr>)"
  proof -
    let ?x = "(E2 ! k)\<lparr>im_own := (im_own (E2 ! k))\<lparr>sn_timestamp := ts\<rparr>\<rparr>"
    show ?thesis using copies.look_add_fresh [of "iv_commits (ms ! k)" ?x] lost by (simp add: lost_at_def commit_entry_def)
  qed
  ultimately show ?thesis
    using ent one snds run N by (simp add: repair_ts_def del: map_map)
qed

lemma stamped_bytes [simp]: "snap_bytes (s\<lparr>sn_timestamp := t\<rparr>) = snap_bytes s"
  by (simp add: snap_bytes_def)

definition usable :: "nat \<Rightarrow> imr_snapshot \<Rightarrow> bool" where
  "usable sz e \<longleftrightarrow> db_ok (sn_buf (im_own e)) \<and> db_ok (sn_buf (im_partner e)) \<and> sn_elm_size (im_own e) = sz"

lemma usable_blank: "malloc_ok fresh \<Longrightarrow> usable sz e \<Longrightarrow> blank sz (imr_reset fresh e)"
  by (rule reset_blank) (simp_all add: usable_def)

section \<open>A cohort with parity\<close>

text \<open>
  C2. Parity survives the loss of a rank: after the cohort has protected its staged data, any
  members that hold these snapshots at some timestamp, except for the rank \<open>k\<close> that lost its
  own, repair that timestamp: the rank \<open>k\<close> has a snapshot of it again, with the same protected
  subsets and the bytes it staged.  This holds when the data divides evenly over the other
  ranks, and for the ranks up to the remainder otherwise.
\<close>

theorem parity_survives_loss:
  assumes mal: "malloc_ok fresh" and co: "parity_cohort st n sz staged prot es" and D: "cohort_bytes sz staged prot D"
    and N: "3 \<le> length es" and k: "k < length es" "D mod (length es - 1) = 0 \<or> k \<le> D mod (length es - 1)"
    and ranks: "length ranks = length es"
  shows "\<exists>es1. parity_protect fresh es = Some es1 \<and>
    (\<forall>ts ms. lost_at ts k es1 ms \<and> usable sz (last (iv_avail (ms ! k))) \<longrightarrow>
      (\<exists>ms' e. repair_ts fresh (parity_rebuild fresh ranks) ts ms = Some ms' \<and>
        kset_find im_timestamp ts (iv_commits (ms' ! k)) = Some e \<and>
        sn_protected (im_own e) = sn_protected (im_own (es1 ! k)) \<and>
        (\<forall>i < min D (db_size (sn_buf (im_own (es ! k)))). snap_bytes (im_own e) ! i = snap_bytes (im_own (es ! k)) ! i)))"
proof -
  obtain es1 prot1 where p: "parity_protect fresh es = Some es1" "length es1 = length es" "parity_protected st n sz prot1 D es1"
    and bytes: "\<forall>r < length es. take (db_size (sn_buf (im_own (es ! r)))) (snap_bytes (im_own (es1 ! r))) = snap_bytes (im_own (es ! r))"
    using parity_protect_correct [OF mal co D N] by blast
  have "\<exists>ms' e. repair_ts fresh (parity_rebuild fresh ranks) ts ms = Some ms' \<and>
      kset_find im_timestamp ts (iv_commits (ms' ! k)) = Some e \<and>
      sn_protected (im_own e) = sn_protected (im_own (es1 ! k)) \<and>
      (\<forall>i < min D (db_size (sn_buf (im_own (es ! k)))). snap_bytes (im_own e) ! i = snap_bytes (im_own (es ! k)) ! i)"
    if lost: "lost_at ts k es1 ms" and u: "usable sz (last (iv_avail (ms ! k)))" for ts ms
  proof -
    obtain es2 where es2: "parity_rebuild fresh ranks k (es1[k := imr_reset fresh (last (iv_avail (ms ! k)))]) = Some es2"
      "length es2 = length es1" "snap_bytes (im_own (es2 ! k)) = take D (snap_bytes (im_own (es1 ! k)))"
      "\<forall>r < length es1. sn_protected (im_own (es2 ! r)) = prot1"
      using parity_repair_correct [OF mal p(3) _ _ _ usable_blank [OF mal u], of k ranks] N k ranks p(2) by auto
    obtain ms' where ms': "repair_ts fresh (parity_rebuild fresh ranks) ts ms = Some ms'"
      "kset_find im_timestamp ts (iv_commits (ms' ! k)) = Some ((es2 ! k)\<lparr>im_own := (im_own (es2 ! k))\<lparr>sn_timestamp := ts\<rparr>\<rparr>)"
      using repair_ts_run [of ts k es1 ms "parity_rebuild fresh ranks" fresh es2, OF lost es2(1,2)] by blast
    have same: "es1 ! k \<in> set es1" using k(1) p(2) by simp
    then have pr: "sn_protected (im_own (es1 ! k)) = prot1" using p(3) by (simp add: parity_protected_def parity_cohort_def)
    have own: "snap_bytes (im_own (es2 ! k)) ! i = snap_bytes (im_own (es ! k)) ! i"
      if "i < min D (db_size (sn_buf (im_own (es ! k))))" for i
    proof -
      have "take (db_size (sn_buf (im_own (es ! k)))) (snap_bytes (im_own (es1 ! k))) ! i = snap_bytes (im_own (es ! k)) ! i"
        using bytes k(1) by simp
      then show ?thesis using that es2(3) by simp
    qed
    show ?thesis using ms' es2(4) k(1) p(2) pr own by simp
  qed
  then show ?thesis using p(1) by blast
qed

definition example_buf :: "byte list \<Rightarrow> data_buffer" where
  "example_buf xs = \<lparr>db_mem = xs, db_size = length xs, db_mmap = False\<rparr>"

text \<open>A snapshot of two elements of two bytes.\<close>

definition example_snap :: "int \<Rightarrow> data_subset list \<Rightarrow> data_subset list \<Rightarrow> byte list \<Rightarrow> snapshot" where
  "example_snap r prot staged xs = \<lparr>sn_buf = example_buf xs, sn_timestamp = 5, sn_elm_size = 2, sn_max_count = 2,
     sn_cohort = Some [0, 1, 2], sn_rank = r, sn_protected = prot, sn_staged = staged\<rparr>"

definition two :: data_subset where
  "two = basic_subset [block 0 1]"

definition parity_example :: "imr_snapshot list" where
  "parity_example = map (\<lambda>(r, xs). \<lparr>im_own = example_snap r (replicate 3 empty_subset) (replicate 3 two) xs,
       im_partner = example_snap r [] [] []\<rparr>)
     [(0, [1, 2, 3, 4]), (1, [5, 6, 7, 8]), (2, [9, 10, 11, 12])]"

lemma two_ok: "subset_ok 10 two" "subset_elems two = {0, 1}" "subset_ok 10 empty_subset" "subset_elems empty_subset = {}"
  by (auto simp: two_def empty_subset_def subset_ok_def regions_ok_single region_ok_def same_stride_def IDX_MAX_def
      subset_elems_def region_elems_block)

lemma example_buf_sel [simp]: "db_size (example_buf xs) = length xs" "db_data (example_buf xs) = xs" "db_ok (example_buf xs)"
  by (simp_all add: example_buf_def db_data_def db_ok_def alloc_size_def)

lemma parity_example_cohort: "parity_cohort 10 2 2 (replicate 3 two) (replicate 3 empty_subset) parity_example"
  by (auto simp: parity_cohort_def parity_example_def subsets_within_def two_ok example_snap_def buffers_ok_def INT_MAX_def)

lemma parity_example_bytes: "cohort_bytes 2 (replicate 3 two) (replicate 3 empty_subset) 4"
  unfolding cohort_bytes_def by (intro exI [of _ 2]) (auto simp: bound_of_def elems_of_def two_ok)

lemma parity_example_length [simp]: "length parity_example = 3"
  by (simp add: parity_example_def)

lemma parity_survives_loss_witness:
  "\<exists>es1. parity_protect zeroed parity_example = Some es1 \<and>
    (\<forall>ts ms. lost_at ts 2 es1 ms \<and> usable 2 (last (iv_avail (ms ! 2))) \<longrightarrow>
      (\<exists>ms' e. repair_ts zeroed (parity_rebuild zeroed [0, 1, 2]) ts ms = Some ms' \<and>
        kset_find im_timestamp ts (iv_commits (ms' ! 2)) = Some e \<and>
        sn_protected (im_own e) = sn_protected (im_own (es1 ! 2)) \<and>
        (\<forall>i < min 4 (db_size (sn_buf (im_own (parity_example ! 2)))).
          snap_bytes (im_own e) ! i = snap_bytes (im_own (parity_example ! 2)) ! i)))"
  by (rule parity_survives_loss [OF zeroed_ok parity_example_cohort parity_example_bytes])
    (simp_all add: parity_example_length)

text \<open>
  C32. When the data does not divide evenly, the repair of a rank beyond the remainder loses a
  byte: two of the reductions cover the same byte of its data, and the second one clears what
  the first one restored.
\<close>

theorem parity_repair_loses:
  assumes "malloc_ok fresh" "parity_protected st n sz prot D es" "3 \<le> length es"
    "k < length es" "D mod (length es - 1) \<noteq> 0" "D mod (length es - 1) < k"
    "db_size (sn_buf (im_own (es ! k))) = D" "blank sz e0" "length ranks = length es"
  shows "\<exists>es2 p. parity_rebuild fresh ranks k (es[k := e0]) = Some es2 \<and> p < D \<and>
    snap_bytes (im_own (es2 ! k)) = (snap_bytes (im_own (es ! k)))[p := 0]"
  by (rule parity_repair_clears [OF assms])

definition uneven_example :: "imr_snapshot list" where
  "uneven_example = map (\<lambda>(r, xs, ps). \<lparr>im_own = example_snap r (replicate 4 two) (replicate 4 empty_subset) xs,
       im_partner = example_snap r [] [] ps\<rparr>)
     [(0, [0, 0, 0, 0], [0, 0]), (1, [0, 0, 0, 0], [0, 7]), (2, [0, 0, 0, 7], [0]), (3, [0, 0, 0, 0], [7])]"

definition blank_example :: imr_snapshot where
  "blank_example = \<lparr>im_own = example_snap 2 [] [] [], im_partner = example_snap 2 [] [] []\<rparr>"

lemma uneven_example_length [simp]: "length uneven_example = 4"
  by (simp add: uneven_example_def)

lemma uneven_lens: "parity_lens 4 3 = [2, 2, 1, 1]"
  by (simp add: parity_lens_def upt_rec)

lemma uneven_places:
  "rank_places [2, 2, 1, 1] uneven_example = Some
     [[InPartner, InData 0, InData 2, InData 3], [InData 0, InPartner, InData 2, InData 3],
      [InData 0, InData 2, InPartner, InData 3], [InData 0, InData 2, InData 3, InPartner]]"
  by (simp add: rank_places_def on_ranks_def uneven_example_def upt_rec parity_place_def example_snap_def)

lemma uneven_parity:
  "parity_holds [[InPartner, InData 0, InData 2, InData 3], [InData 0, InPartner, InData 2, InData 3],
      [InData 0, InData 2, InPartner, InData 3], [InData 0, InData 2, InData 3, InPartner]] [2, 2, 1, 1] uneven_example"
  by (simp add: parity_holds_def All_less_Suc numeral_eq_Suc rows_def column_def uneven_example_def bytes_at_def
      snap_bytes_def example_snap_def xor_bytes_def)

lemma uneven_protected: "parity_protected 10 2 2 (replicate 4 two) 4 uneven_example"
proof -
  have co: "parity_cohort 10 2 2 (replicate 4 empty_subset) (replicate 4 two) uneven_example"
    by (auto simp: parity_cohort_def uneven_example_def subsets_within_def two_ok example_snap_def buffers_ok_def INT_MAX_def)
  have cb: "cohort_bytes 2 (replicate 4 empty_subset) (replicate 4 two) 4"
    unfolding cohort_bytes_def by (intro exI [of _ 2]) (auto simp: bound_of_def elems_of_def two_ok)
  have sz: "\<forall>r < 4. 4 \<le> db_size (sn_buf (im_own (uneven_example ! r))) \<and>
      db_size (sn_buf (im_partner (uneven_example ! r))) = [2, 2, 1, 1] ! r"
    by (simp add: uneven_example_def example_snap_def numeral_eq_Suc All_less_Suc)
  show ?thesis using co cb sz uneven_places uneven_parity by (simp add: parity_protected_def uneven_lens)
qed

lemma parity_repair_loses_witness:
  "\<exists>es2 p. parity_rebuild zeroed [0, 1, 2, 3] 2 (uneven_example[2 := blank_example]) = Some es2 \<and> p < 4 \<and>
    snap_bytes (im_own (es2 ! 2)) = (snap_bytes (im_own (uneven_example ! 2)))[p := 0]"
  by (rule parity_repair_loses [OF zeroed_ok uneven_protected])
    (simp_all add: uneven_example_def blank_example_def blank_def example_snap_def)

section \<open>Buddies\<close>

text \<open>
  C3. Buddies survive the loss of a rank: after a pair or a triple has protected its staged
  data, any members that hold these snapshots at some timestamp, except for the rank \<open>k\<close>, repair
  that timestamp: the rank \<open>k\<close> has a snapshot of it again, with the same protected subsets and the
  bytes of all protected elements.
\<close>

theorem buddy_survives_loss:
  assumes mal: "malloc_ok fresh" and co: "buddy_cohort st n es prot staged E"
    and N: "2 \<le> length E" "length E \<le> 3" and k: "k < length E" and ranks: "length ranks = length E"
  shows "\<exists>E1. buddy_protect fresh E = Some E1 \<and>
    (\<forall>ts ms. lost_at ts k E1 ms \<and> spare n es (imr_reset fresh (last (iv_avail (ms ! k)))) \<longrightarrow>
      (\<exists>ms' e. repair_ts fresh (buddy_rebuild fresh ranks) ts ms = Some ms' \<and>
        kset_find im_timestamp ts (iv_commits (ms' ! k)) = Some e \<and>
        sn_protected (im_own e) = sn_protected (im_own (E1 ! k)) \<and>
        same_on es (subset_elems (prot ! k) \<union> subset_elems (staged ! k)) (snap_bytes (im_own (E ! k))) (snap_bytes (im_own e))))"
proof -
  obtain E1 prot1 where p: "buddy_protect fresh E = Some E1" "length E1 = length E"
    "buddy_cohort st n es prot1 (replicate (length E) empty_subset) E1"
    and el: "\<forall>i < length E. subset_elems (prot1 ! i) = subset_elems (prot ! i) \<union> subset_elems (staged ! i)"
    and bytes: "\<forall>r < length E. snap_bytes (im_own (E1 ! r)) = snap_bytes (im_own (E ! r))"
    using buddy_protect_correct [OF mal co] by blast
  have old: "\<forall>d \<in> set (replicate (length E) empty_subset). subset_elems d = {}" by (simp add: two_ok)
  have pr: "sn_protected (im_own (E1 ! k)) = prot1" using buddy_rank(3) [OF p(3)] k p(2) by simp
  have "\<exists>ms' e. repair_ts fresh (buddy_rebuild fresh ranks) ts ms = Some ms' \<and>
      kset_find im_timestamp ts (iv_commits (ms' ! k)) = Some e \<and>
      sn_protected (im_own e) = sn_protected (im_own (E1 ! k)) \<and>
      same_on es (subset_elems (prot ! k) \<union> subset_elems (staged ! k)) (snap_bytes (im_own (E ! k))) (snap_bytes (im_own e))"
    if lost: "lost_at ts k E1 ms" and sp: "spare n es (imr_reset fresh (last (iv_avail (ms ! k))))" for ts ms
  proof -
    obtain E2 where E2: "buddy_rebuild fresh ranks k (E1[k := imr_reset fresh (last (iv_avail (ms ! k)))]) = Some E2"
      "length E2 = length E1" "sn_protected (im_own (E2 ! k)) = prot1"
      "same_on es (subset_elems (prot1 ! k)) (snap_bytes (im_own (E1 ! k))) (snap_bytes (im_own (E2 ! k)))"
      using buddy_repair_correct [OF mal p(3) old _ _ _ sp, of k ranks] N k ranks p(2) by auto
    obtain ms' where ms': "repair_ts fresh (buddy_rebuild fresh ranks) ts ms = Some ms'"
      "kset_find im_timestamp ts (iv_commits (ms' ! k)) = Some ((E2 ! k)\<lparr>im_own := (im_own (E2 ! k))\<lparr>sn_timestamp := ts\<rparr>\<rparr>)"
      using repair_ts_run [of ts k E1 ms "buddy_rebuild fresh ranks" fresh E2, OF lost E2(1,2)] by blast
    show ?thesis using ms' E2(3,4) el bytes k pr by simp
  qed
  then show ?thesis using p(1) by blast
qed

text \<open>A pair; \<open>d\<close> is what each has protected, \<open>u\<close> what it has staged.\<close>

definition pair_example :: "data_subset \<Rightarrow> data_subset \<Rightarrow> imr_snapshot list" where
  "pair_example d u = map (\<lambda>(r, xs, ps). \<lparr>im_own = example_snap r [d, d] [u, u] xs,
       im_partner = example_snap r [empty_subset, empty_subset] [d, d] ps\<rparr>)
     [(0, [1, 2, 3, 4], [5, 6, 7, 8]), (1, [5, 6, 7, 8], [1, 2, 3, 4])]"

lemma pair_example_length [simp]: "length (pair_example d u) = 2"
  by (simp add: pair_example_def)

lemma pair_example_cohort:
  assumes "subset_ok 10 d" "subset_elems d \<subseteq> {..<2}" "subset_ok 10 u" "subset_elems u \<subseteq> {..<2}"
  shows "buddy_cohort 10 2 2 [d, d] [u, u] (pair_example d u)"
  using assms two_ok(3,4)
  by (simp add: buddy_cohort_def All_less_Suc numeral_2_eq_2 left_of_def holds_copy_def pair_example_def fixed_snap_def
      subsets_within_def example_snap_def staged_subset_def at_rank_def same_on_def snap_bytes_def INT_MAX_def)

lemma buddy_survives_loss_witness:
  "\<exists>E1. buddy_protect zeroed (pair_example empty_subset two) = Some E1 \<and>
    (\<forall>ts ms. lost_at ts 1 E1 ms \<and> spare 2 2 (imr_reset zeroed (last (iv_avail (ms ! 1)))) \<longrightarrow>
      (\<exists>ms' e. repair_ts zeroed (buddy_rebuild zeroed [0, 1]) ts ms = Some ms' \<and>
        kset_find im_timestamp ts (iv_commits (ms' ! 1)) = Some e \<and>
        sn_protected (im_own e) = sn_protected (im_own (E1 ! 1)) \<and>
        same_on 2 (subset_elems ([empty_subset, empty_subset] ! 1) \<union> subset_elems ([two, two] ! 1))
          (snap_bytes (im_own (pair_example empty_subset two ! 1))) (snap_bytes (im_own e))))"
  by (rule buddy_survives_loss [OF zeroed_ok pair_example_cohort]) (simp_all add: two_ok)

text \<open>
  A partner snapshot that still names elements of an earlier use, which \<open>reset\<close> does not
  remove, makes the repair fail: the right neighbour sends more than the rank expects.
\<close>

theorem stale_partner_fails:
  assumes "malloc_ok fresh" "buddy_cohort st n es prot staged E" "2 \<le> length E" "length E \<le> 3" "k < length E"
    "spare n es e0" "length ranks = length E" "fixed_snap st es n s" "sn_rank s = int (right_of (length E) k)"
    "length (sn_staged s) = length E" "staged_subset s = Some d" "subset_elems (prot ! k) \<subset> subset_elems d"
  shows "buddy_rebuild fresh ranks k (E[right_of (length E) k := (E ! right_of (length E) k)\<lparr>im_partner := s\<rparr>, k := e0]) = None"
  by (rule buddy_repair_stale [OF assms])

definition one :: data_subset where
  "one = basic_subset [block 0 0]"

definition spare_example :: imr_snapshot where
  "spare_example = \<lparr>im_own = example_snap 1 [] [] [], im_partner = example_snap 1 [] [] []\<rparr>"

lemma one_ok: "subset_ok 10 one" "subset_elems one = {0}"
  by (auto simp: one_def subset_ok_def regions_ok_single region_ok_def same_stride_def IDX_MAX_def
      subset_elems_def region_elems_block)

lemma stale_partner_fails_witness:
  "buddy_rebuild zeroed [0, 1] 1 ((pair_example one empty_subset)
    [right_of (length (pair_example one empty_subset)) 1 := (pair_example one empty_subset ! right_of (length (pair_example one empty_subset)) 1)
      \<lparr>im_partner := example_snap 0 [empty_subset, empty_subset] [two, two] [5, 6, 7, 8]\<rparr>, 1 := spare_example]) = None"
proof (rule stale_partner_fails [where d = two, OF zeroed_ok pair_example_cohort])
  let ?s = "example_snap 0 [empty_subset, empty_subset] [two, two] [5, 6, 7, 8]"
  show "spare 2 2 spare_example" by (simp add: spare_example_def spare_def blank_def example_snap_def)
  show "fixed_snap 10 2 2 ?s"
    using two_ok by (simp add: fixed_snap_def subsets_within_def example_snap_def)
  show "staged_subset ?s = Some two" by (simp add: staged_subset_def at_rank_def example_snap_def)
  show "subset_elems ([one, one] ! 1) \<subset> subset_elems two" by (auto simp: one_ok two_ok)
qed (simp_all add: one_ok two_ok right_of_def example_snap_def)

section \<open>Who is whose buddy\<close>

text \<open>
  The ranks agree on who is whose buddy: for any positive separation every rank of two or
  more has a set of partners that contains it and another rank, within the communicator, and
  every member of that set computes the same set.
\<close>

theorem buddies_agree:
  assumes "2 \<le> csz" "0 < s" "0 \<le> r" "r < csz"
  shows "\<exists>ps. buddies csz s r = Some ps \<and> 2 \<le> length ps \<and> r \<in> set ps \<and>
    (\<forall>p \<in> set ps. 0 \<le> p \<and> p < csz \<and> buddies csz s p = Some ps)"
  by (rule buddies_agree_core [OF assms])

lemma buddies_agree_witness:
  "\<exists>ps. buddies 7 2 3 = Some ps \<and> 2 \<le> length ps \<and> 3 \<in> set ps \<and>
    (\<forall>p \<in> set ps. 0 \<le> p \<and> p < 7 \<and> buddies 7 2 p = Some ps)"
  by (rule buddies_agree) simp_all

end
