(* ===== verification/Log_Properties.thy ===== *)
theory Log_Properties
  imports Data_Properties
begin

text \<open>
  The properties of the message logs (src/logging/rank_log.cpp, src/logging/comm_log.cpp,
  src/logging/message_logging.cpp) and of the frame around every function of the interface
  (include/fenix_util.hpp).
\<close>

section \<open>Point-to-point messages\<close>


definition example_msg :: "int \<Rightarrow> send_log" where
  "example_msg i = \<lparr>sl_idx = i, sl_buf = \<lparr>bf_type = 0, bf_count = 1, bf_data = [7]\<rparr>, sl_tag = 3\<rparr>"

text \<open>A log with two sends in its region 0, and the regions of a remote rank that received one.\<close>

definition example_log :: wired where
  "example_log = \<lparr>rl_rank = 1, rl_task = True, rl_irecv = None, rl_sends = [example_msg 0, example_msg 1], rl_already = -1,
     rl_regions = [no_region, \<lparr>lr_id = 0, lr_send = \<lparr>mr_first = 0, mr_next = 2\<rparr>, lr_recv = range_at 0\<rparr>], wire = []\<rparr>"

definition example_remote :: "log_region list" where
  "example_remote = [no_region, \<lparr>lr_id = 0, lr_send = range_at 0, lr_recv = \<lparr>mr_first = 0, mr_next = 1\<rparr>\<rparr>]"

lemma example_log_ok: "log_ok example_log" "wire example_log = []" "log_sorted example_remote"
  by (simp_all add: log_ok_def rank_ok_def example_log_def example_remote_def next_send_def cur_region_def example_msg_def
      log_sorted_def lr_valid_def range_valid_def range_at_def no_region_def no_range_def upto.simps)



text \<open>
  C23. Two ranks that merge their regions agree, whichever of them computes it: merging from the
  other side gives the same two vectors.
\<close>

theorem regions_agree:
  assumes "log_sorted a" "log_sorted b" "merge_regions_of a b = Some (a', b')"
  shows "merge_regions_of b a = Some (b', a')"
  by (rule merge_regions_sym [OF assms])

lemma regions_agree_witness:
  "merge_regions_of example_remote (rl_regions example_log) = Some (example_remote, rl_regions example_log)"
proof (rule regions_agree)
  show "merge_regions_of (rl_regions example_log) example_remote = Some (rl_regions example_log, example_remote)"
    by (simp add: merge_regions_of_def check_consistent_def check_ahead_def lower_bound_def
      example_log_def example_remote_def lr_valid_def range_valid_def range_at_def no_region_def no_range_def)
qed (use example_log_ok in \<open>simp_all add: log_ok_def\<close>)

section \<open>Collectives\<close>

text \<open>
  A collective that completes is logged once, under the next index of its region, and the
  log is ready for the next one.
\<close>

theorem collective_logged:
  assumes "ready c" "\<And>i. cg_idx (mk i) = i"
  shows "\<exists>c'. comm_begin manual mk [completes] c = Some (Inr MPI_SUCCESS, c') \<and> ready c' \<and>
    cl_colls c' = cl_colls c @ [mk (cr_next (coll_region c))] \<and>
    cr_next (coll_region c') = cr_next (coll_region c) + 1"
  by (rule comm_begin_ok [OF assms])

text \<open>A log with one collective in its region 0.\<close>

definition example_comm_log :: comm_log where
  "example_comm_log = (new_comm_log 0 2)\<lparr>cl_regions := [no_cregion, \<lparr>cr_id = 0, cr_first = 0, cr_next = 1\<rparr>],
     cl_colls := [barrier_log 0]\<rparr>"

lemma example_comm_ready: "ready example_comm_log"
  by (simp add: ready_def colls_ok_def example_comm_log_def new_comm_log_def coll_region_def cr_valid_def barrier_log_def)

lemma collective_logged_witness:
  "\<exists>c'. comm_begin False barrier_log [completes] example_comm_log = Some (Inr MPI_SUCCESS, c') \<and> ready c' \<and>
    cl_colls c' = cl_colls example_comm_log @ [barrier_log (cr_next (coll_region example_comm_log))] \<and>
    cr_next (coll_region c') = cr_next (coll_region example_comm_log) + 1"
  by (rule collective_logged [OF example_comm_ready]) (simp add: barrier_log_def)

text \<open>
  A replay from an index runs the logged collectives from that index to the last one, each
  once and in order, when the log still holds them.
\<close>

theorem collectives_replayed:
  assumes "colls_ok c" "cr_valid (coll_region c)" "cr_next (coll_region c) - int (length (cl_colls c)) \<le> start"
  shows "\<exists>xs. replay_collectives start c = Some xs \<and> map cg_idx xs = [start .. cr_next (coll_region c) - 1]"
  by (rule replay_from [OF assms])

lemma collectives_replayed_witness:
  "\<exists>xs. replay_collectives 0 example_comm_log = Some xs \<and> map cg_idx xs = [0 .. cr_next (coll_region example_comm_log) - 1]"
  by (rule collectives_replayed)
    (simp_all add: colls_ok_def example_comm_log_def new_comm_log_def coll_region_def cr_valid_def barrier_log_def)

text \<open>
  With manual recovery a collective that a failure interrupts has used up its index and
  leaves no log.
\<close>

theorem collective_interrupted:
  assumes "ready c" "\<And>i. cg_idx (mk i) = i"
  shows "\<exists>c'. comm_begin True mk [interrupted] c = Some (Inl Comm, c') \<and>
    cl_colls c' = cl_colls c \<and> cr_next (coll_region c') = cr_next (coll_region c) + 1"
  by (rule comm_begin_interrupted [OF assms])

lemma collective_interrupted_witness:
  "\<exists>c'. comm_begin True barrier_log [interrupted] example_comm_log = Some (Inl Comm, c') \<and>
    cl_colls c' = cl_colls example_comm_log \<and> cr_next (coll_region c') = cr_next (coll_region example_comm_log) + 1"
  by (rule collective_interrupted [OF example_comm_ready]) (simp add: barrier_log_def)

section \<open>Checkpointing a log\<close>

text \<open>
  A log that a data member saved comes back when it is restored, into whatever log is
  registered under its id by then: with its regions and the messages of every rank whose
  region is valid, and without its collectives.
\<close>

theorem log_save_restore:
  assumes "search_mlog i rt = Some c" "comm_log_fits ty c" "types_ok ty"
  shows "\<exists>bs. mlog_save ty i rt = (Inr bs, rt) \<and>
    (\<forall>rest rt'. search_mlog i rt' \<noteq> None \<longrightarrow>
      mlog_restore ty (cl_rank c) i (bs @ rest) rt' = (Inr rest, put_mlog i (saved_log c) rt'))"
  by (rule mlog_save_restore [OF assms])

definition example_rank_log :: rank_log where
  "example_rank_log = \<lparr>rl_rank = 1, rl_task = False, rl_irecv = None, rl_sends = [example_msg 0, example_msg 1], rl_already = 0,
     rl_regions = [no_region, \<lparr>lr_id = 0, lr_send = \<lparr>mr_first = 0, mr_next = 2\<rparr>, lr_recv = range_at 0\<rparr>]\<rparr>"

definition example_saved :: comm_log where
  "example_saved = example_comm_log\<lparr>cl_ranks := [example_rank_log]\<rparr>"

definition logging_runtime :: runtime where
  "logging_runtime = example_runtime\<lparr>rt_mlogs := [(4, example_saved)], rt_mlog_order := [4], rt_active := 4\<rparr>"

lemma example_saved_fits: "comm_log_fits [(3, 0)] example_saved"
  by (simp add: comm_log_fits_def example_saved_def example_comm_log_def new_comm_log_def fits_def INT32_MAX_def
      cregion_fits_def no_cregion_def rank_log_fits_def example_rank_log_def send_fits_def example_msg_def buffer_fits_def
      has_object_def region_fits_def range_fits_def no_region_def no_range_def range_at_def kset_ok_def)

lemma logging_runtime_ok: "search_mlog 4 logging_runtime = Some example_saved" "mlogs_ok logging_runtime"
  "rt_init logging_runtime" "\<not> rt_final logging_runtime" "settings_ok (rt_settings logging_runtime)"
  by (simp_all add: logging_runtime_def search_mlog_def kset_find_def mlogs_ok_def kset_ok_def example_runtime_def
      settings_ok_def initial_settings_def setting_of_def option_bound_def All_less_Suc numeral_eq_Suc)

lemma log_save_restore_witness:
  "\<exists>bs. mlog_save [(3, 0)] 4 logging_runtime = (Inr bs, logging_runtime) \<and>
    (\<forall>rest rt'. search_mlog 4 rt' \<noteq> None \<longrightarrow>
      mlog_restore [(3, 0)] (cl_rank example_saved) 4 (bs @ rest) rt' = (Inr rest, put_mlog 4 (saved_log example_saved) rt'))"
  by (rule log_save_restore [OF logging_runtime_ok(1) example_saved_fits]) (simp add: types_ok_def fits_def INT32_MAX_def)

section \<open>Scopes\<close>

text \<open>
  A data operation runs without message logging, and leaves the log that was active as the
  active one, whether it succeeds, throws or is interrupted.
\<close>

theorem data_scope_restores:
  assumes "rt_init rt" "\<not> rt_final rt" "settings_ok (rt_settings rt)" "mlogs_ok rt"
    "body (rt\<lparr>rt_active := MLOG_NONE\<rparr>) = (r, rt')" "rt_init rt'" "settings_ok (rt_settings rt')"
    "rt_mlogs rt' = rt_mlogs rt"
  shows "scoped_mlog catch MLOG_NONE body rt = (r, rt'\<lparr>rt_active := rt_active rt\<rparr>)"
  by (rule scoped_mlog_run [of rt body r rt', OF assms])

lemma data_scope_restores_witness:
  "scoped_mlog True MLOG_NONE (\<lambda>rt. (Inl Comm :: failure + unit, rt)) logging_runtime
    = (Inl Comm, (logging_runtime\<lparr>rt_active := MLOG_NONE\<rparr>)\<lparr>rt_active := rt_active logging_runtime\<rparr>)"
  by (rule data_scope_restores [OF logging_runtime_ok(3-5,2)]) (use logging_runtime_ok in simp_all)

text \<open>
  C24. A function of the interface runs with failures thrown and unhandled errors fatal, and
  gives the caller back the two settings it had, however its body ends; an error code is
  thrown or returned as the library is built, and an interrupted call resumes the application
  in the mode that the caller has set.
\<close>

theorem api_restores_settings:
  assumes "rt_init rt" "settings_ok (rt_settings rt)"
    "body (rt\<lparr>rt_settings := internal_settings (rt_settings rt)\<rparr>) = (r, rt')" "rt_init rt'"
  shows "api catch code body rt =
    (let rt'' = rt'\<lparr>rt_settings := restore_settings (rt_settings rt) (rt_settings rt')\<rparr>
     in (api_result catch code r rt'', rt''))"
  by (rule api_run [of rt body r rt', OF assms])

lemma api_restores_settings_witness:
  "api True (\<lambda>c. c) (\<lambda>rt. (Inl Comm, rt)) logging_runtime =
    (let rt'' = (logging_runtime\<lparr>rt_settings := internal_settings (rt_settings logging_runtime)\<rparr>)
         \<lparr>rt_settings := restore_settings (rt_settings logging_runtime)
           (rt_settings (logging_runtime\<lparr>rt_settings := internal_settings (rt_settings logging_runtime)\<rparr>))\<rparr>
     in (api_result True (\<lambda>c. c) (Inl Comm) rt'', rt''))"
  by (rule api_restores_settings [OF logging_runtime_ok(3,5) refl]) (use logging_runtime_ok in simp_all)

end
