(* ===== verification/Datatype_Codec.thy ===== *)
theory Datatype_Codec
  imports Member_Exchange
begin

text \<open>
  \<open>mpixx::Datatype\<close> (include/fenix/mpixx/datatype.hpp, src/mpixx/datatype.cpp): an MPI datatype
  written to bytes and rebuilt from them on another rank.  A datatype is the tree that
  \<open>MPI_Type_get_envelope\<close> and \<open>MPI_Type_get_contents\<close> show; handles and reference counts have
  no counterpart.
\<close>

section \<open>Datatypes\<close>

text \<open>
  \<open>OtherType\<close> has a combiner that the code does not know.  The lists of a type are as long as
  the counts that MPI keeps for it (\<open>dtype_ok\<close> below).
\<close>

datatype dtype =
    NullType
  | Named string
  | OtherType
  | Dup dtype
  | Contiguous int dtype
  | Vector int int int dtype
  | Hvector int int int dtype
  | Indexed "int list" "int list" dtype
  | Hindexed "int list" "int list" dtype
  | IndexedBlock int "int list" dtype
  | HindexedBlock int "int list" dtype
  | Struct "int list" "int list" "dtype list"
  | Subarray "int list" "int list" "int list" int dtype
  | Darray int int "int list" "int list" "int list" "int list" int dtype
  | Resized int int dtype

text \<open>The table of the named types, without the prefix \<open>MPI_\<close> of the names.\<close>

definition builtin_mappings :: "(string \<times> byte) list" where
  "builtin_mappings =
     [(''CHAR'', 0x00), (''SHORT'', 0x01), (''INT'', 0x02), (''LONG'', 0x03),
      (''LONG_LONG'', 0x04), (''SIGNED_CHAR'', 0x05), (''UNSIGNED_CHAR'', 0x06),
      (''UNSIGNED_SHORT'', 0x07), (''UNSIGNED'', 0x08), (''UNSIGNED_LONG'', 0x09),
      (''UNSIGNED_LONG_LONG'', 0x0A), (''FLOAT'', 0x0B), (''DOUBLE'', 0x0C),
      (''LONG_DOUBLE'', 0x0D), (''BYTE'', 0x0E), (''PACKED'', 0x0F), (''WCHAR'', 0x10),
      (''C_BOOL'', 0x11), (''INT8_T'', 0x12), (''INT16_T'', 0x13), (''INT32_T'', 0x14),
      (''INT64_T'', 0x15), (''UINT8_T'', 0x16), (''UINT16_T'', 0x17), (''UINT32_T'', 0x18),
      (''UINT64_T'', 0x19), (''AINT'', 0x1A), (''COUNT'', 0x1B), (''OFFSET'', 0x1C),
      (''FLOAT_INT'', 0x1D), (''DOUBLE_INT'', 0x1E), (''LONG_INT'', 0x1F),
      (''SHORT_INT'', 0x20), (''2INT'', 0x21), (''LONG_DOUBLE_INT'', 0x22)]"

definition builtin_to_combiner :: "string \<Rightarrow> failure + byte" where
  "builtin_to_combiner name = (case List.find (\<lambda>b. fst b = name) builtin_mappings of
       None \<Rightarrow> Inl (Throw FENIX_ERROR_INTERN) | Some b \<Rightarrow> Inr (snd b))"

definition combiner_to_builtin :: "byte \<Rightarrow> failure + string" where
  "combiner_to_builtin c = (case List.find (\<lambda>b. snd b = c) builtin_mappings of
       None \<Rightarrow> Inl (Throw FENIX_ERROR_INTERN) | Some b \<Rightarrow> Inr (fst b))"

text \<open>The byte of a combiner; \<open>None\<close> for a named type, the null type and an unknown combiner.\<close>

fun combiner_code :: "dtype \<Rightarrow> byte option" where
  "combiner_code (Dup _) = Some 0x40"
| "combiner_code (Contiguous _ _) = Some 0x41"
| "combiner_code (Vector _ _ _ _) = Some 0x42"
| "combiner_code (Hvector _ _ _ _) = Some 0x43"
| "combiner_code (Indexed _ _ _) = Some 0x44"
| "combiner_code (Hindexed _ _ _) = Some 0x45"
| "combiner_code (IndexedBlock _ _ _) = Some 0x46"
| "combiner_code (HindexedBlock _ _ _) = Some 0x47"
| "combiner_code (Struct _ _ _) = Some 0x48"
| "combiner_code (Subarray _ _ _ _ _) = Some 0x49"
| "combiner_code (Darray _ _ _ _ _ _ _ _) = Some 0x4A"
| "combiner_code (Resized _ _ _) = Some 0x4B"
| "combiner_code _ = None"

text \<open>The contents of a type, in the order that MPI documents.\<close>

fun type_integers :: "dtype \<Rightarrow> int list" where
  "type_integers (Contiguous n _) = [n]"
| "type_integers (Vector n b s _) = [n, b, s]"
| "type_integers (Hvector n b _ _) = [n, b]"
| "type_integers (Indexed bs ds _) = int (length bs) # bs @ ds"
| "type_integers (Hindexed bs _ _) = int (length bs) # bs"
| "type_integers (IndexedBlock b ds _) = [int (length ds), b] @ ds"
| "type_integers (HindexedBlock b ds _) = [int (length ds), b]"
| "type_integers (Struct bs _ _) = int (length bs) # bs"
| "type_integers (Subarray gs ss st o' _) = int (length gs) # gs @ ss @ st @ [o']"
| "type_integers (Darray n r gs ds as ps o' _) = [n, r, int (length gs)] @ gs @ ds @ as @ ps @ [o']"
| "type_integers _ = []"

fun type_addresses :: "dtype \<Rightarrow> int list" where
  "type_addresses (Hvector _ _ s _) = [s]"
| "type_addresses (Hindexed _ ds _) = ds"
| "type_addresses (HindexedBlock _ ds _) = ds"
| "type_addresses (Struct _ ds _) = ds"
| "type_addresses (Resized lb e _) = [lb, e]"
| "type_addresses _ = []"

section \<open>Writing\<close>

text \<open>\<open>write_val<int32_t>\<close> and \<open>write_val<int64_t>\<close>: \<open>w\<close> bytes, least significant first.\<close>

definition write_val :: "nat \<Rightarrow> int \<Rightarrow> byte list" where
  "write_val w x = map (\<lambda>k. nat (x mod 256 ^ w) div 256 ^ k mod 256) [0..<w]"

definition write_array :: "nat \<Rightarrow> int list \<Rightarrow> byte list" where
  "write_array w xs = concat (map (write_val w) xs)"

definition type_head :: "dtype \<Rightarrow> byte list" where
  "type_head t = (case combiner_code t of None \<Rightarrow> [] | Some c \<Rightarrow> [c])
     @ write_array 4 (type_integers t) @ write_array 8 (type_addresses t)"

definition after :: "byte list \<Rightarrow> failure + byte list \<Rightarrow> failure + byte list" where
  "after h r = (case r of Inl e \<Rightarrow> Inl e | Inr bs \<Rightarrow> Inr (h @ bs))"

fun serialize_type :: "dtype \<Rightarrow> failure + byte list"
  and serialize_types :: "dtype list \<Rightarrow> failure + byte list" where
  "serialize_type NullType = Inr [0xFF]"
| "serialize_type (Named s) = (case builtin_to_combiner s of Inl e \<Rightarrow> Inl e | Inr c \<Rightarrow> Inr [c])"
| "serialize_type OtherType = Inl (Throw FENIX_ERROR_INTERN)"
| "serialize_type (Dup t) = after (type_head (Dup t)) (serialize_type t)"
| "serialize_type (Contiguous n t) = after (type_head (Contiguous n t)) (serialize_type t)"
| "serialize_type (Vector n b s t) = after (type_head (Vector n b s t)) (serialize_type t)"
| "serialize_type (Hvector n b s t) = after (type_head (Hvector n b s t)) (serialize_type t)"
| "serialize_type (Indexed bs ds t) = after (type_head (Indexed bs ds t)) (serialize_type t)"
| "serialize_type (Hindexed bs ds t) = after (type_head (Hindexed bs ds t)) (serialize_type t)"
| "serialize_type (IndexedBlock b ds t) = after (type_head (IndexedBlock b ds t)) (serialize_type t)"
| "serialize_type (HindexedBlock b ds t) = after (type_head (HindexedBlock b ds t)) (serialize_type t)"
| "serialize_type (Struct bs ds ts) = after (type_head (Struct bs ds ts)) (serialize_types ts)"
| "serialize_type (Subarray gs ss st o' t) = after (type_head (Subarray gs ss st o' t)) (serialize_type t)"
| "serialize_type (Darray n r gs ds as ps o' t) = after (type_head (Darray n r gs ds as ps o' t)) (serialize_type t)"
| "serialize_type (Resized lb e t) = after (type_head (Resized lb e t)) (serialize_type t)"
| "serialize_types [] = Inr []"
| "serialize_types (t # ts) = (case serialize_type t of Inl e \<Rightarrow> Inl e | Inr bs \<Rightarrow> after bs (serialize_types ts))"

text \<open>\<open>serialize\<close>: the magic number \<open>0x46445450\<close>, then the tree.\<close>

definition type_magic :: "byte list" where
  "type_magic = [0x50, 0x54, 0x44, 0x46]"

definition dtype_serialize :: "dtype \<Rightarrow> failure + byte list" where
  "dtype_serialize t = after type_magic (serialize_type t)"

section \<open>Reading\<close>

text \<open>
  A reader takes the bytes that are left; \<open>None\<close>: out of fuel.  Reading past the end throws the
  string that becomes \<open>FENIX_ERROR_NOCATEGORY\<close>; a vector of negative length is an exception that
  nobody catches.
\<close>

type_synonym 'a type_reader = "byte list \<Rightarrow> (failure + ('a \<times> byte list)) option"

definition rd_ret :: "'a \<Rightarrow> 'a type_reader" where
  "rd_ret x bs = Some (Inr (x, bs))"

definition rd_fail :: "failure \<Rightarrow> 'a type_reader" where
  "rd_fail e bs = Some (Inl e)"

definition rd_bind :: "'a type_reader \<Rightarrow> ('a \<Rightarrow> 'b type_reader) \<Rightarrow> 'b type_reader" where
  "rd_bind p f bs = (case p bs of
       None \<Rightarrow> None | Some (Inl e) \<Rightarrow> Some (Inl e) | Some (Inr (x, bs')) \<Rightarrow> f x bs')"

definition read_val :: "nat \<Rightarrow> int type_reader" where
  "read_val w bs =
     (if length bs < w then Some (Inl (Throw FENIX_ERROR_NOCATEGORY))
      else let n = int (bytes_size (take w bs)); h = 256 ^ w div 2
           in Some (Inr ((n + h) mod 256 ^ w - h, drop w bs)))"

fun read_array :: "nat \<Rightarrow> nat \<Rightarrow> int list type_reader" where
  "read_array w 0 = rd_ret []"
| "read_array w (Suc k) = rd_bind (read_val w) (\<lambda>x. rd_bind (read_array w k) (\<lambda>xs. rd_ret (x # xs)))"

definition read_vector :: "nat \<Rightarrow> int \<Rightarrow> int list type_reader" where
  "read_vector w n = (if n < 0 then rd_fail Abort else read_array w (nat n))"

fun read_types :: "dtype type_reader \<Rightarrow> nat \<Rightarrow> dtype list type_reader" where
  "read_types r 0 = rd_ret []"
| "read_types r (Suc k) = rd_bind r (\<lambda>t. rd_bind (read_types r k) (\<lambda>ts. rd_ret (t # ts)))"

text \<open>\<open>mpi t\<close>: MPI builds the type \<open>t\<close>; a factory method throws when it does not.\<close>

definition make_type :: "(dtype \<Rightarrow> bool) \<Rightarrow> dtype \<Rightarrow> dtype type_reader" where
  "make_type mpi t = (if mpi t then rd_ret t else rd_fail (Throw FENIX_ERROR_INTERN))"

definition derived_type :: "(dtype \<Rightarrow> bool) \<Rightarrow> dtype type_reader \<Rightarrow> byte \<Rightarrow> dtype type_reader" where
  "derived_type mpi child c =
     (if c = 0x40 then rd_bind child (\<lambda>t. make_type mpi (Dup t))
      else if c = 0x41 then
        rd_bind (read_val 4) (\<lambda>n. rd_bind child (\<lambda>t. make_type mpi (Contiguous n t)))
      else if c = 0x42 then
        rd_bind (read_val 4) (\<lambda>n. rd_bind (read_val 4) (\<lambda>b. rd_bind (read_val 4) (\<lambda>s.
        rd_bind child (\<lambda>t. make_type mpi (Vector n b s t)))))
      else if c = 0x43 then
        rd_bind (read_val 4) (\<lambda>n. rd_bind (read_val 4) (\<lambda>b. rd_bind (read_val 8) (\<lambda>s.
        rd_bind child (\<lambda>t. make_type mpi (Hvector n b s t)))))
      else if c = 0x44 then
        rd_bind (read_val 4) (\<lambda>n. rd_bind (read_vector 4 n) (\<lambda>bs. rd_bind (read_vector 4 n) (\<lambda>ds.
        rd_bind child (\<lambda>t. make_type mpi (Indexed bs ds t)))))
      else if c = 0x45 then
        rd_bind (read_val 4) (\<lambda>n. rd_bind (read_vector 4 n) (\<lambda>bs. rd_bind (read_vector 8 n) (\<lambda>ds.
        rd_bind child (\<lambda>t. make_type mpi (Hindexed bs ds t)))))
      else if c = 0x46 then
        rd_bind (read_val 4) (\<lambda>n. rd_bind (read_val 4) (\<lambda>b. rd_bind (read_vector 4 n) (\<lambda>ds.
        rd_bind child (\<lambda>t. make_type mpi (IndexedBlock b ds t)))))
      else if c = 0x47 then
        rd_bind (read_val 4) (\<lambda>n. rd_bind (read_val 4) (\<lambda>b. rd_bind (read_vector 8 n) (\<lambda>ds.
        rd_bind child (\<lambda>t. make_type mpi (HindexedBlock b ds t)))))
      else if c = 0x48 then
        rd_bind (read_val 4) (\<lambda>n. rd_bind (read_vector 4 n) (\<lambda>bs. rd_bind (read_vector 8 n) (\<lambda>ds.
        rd_bind (read_types child (nat n)) (\<lambda>ts. make_type mpi (Struct bs ds ts)))))
      else if c = 0x49 then
        rd_bind (read_val 4) (\<lambda>n. rd_bind (read_vector 4 n) (\<lambda>gs. rd_bind (read_vector 4 n) (\<lambda>ss.
        rd_bind (read_vector 4 n) (\<lambda>st. rd_bind (read_val 4) (\<lambda>o'.
        rd_bind child (\<lambda>t. make_type mpi (Subarray gs ss st o' t)))))))
      else if c = 0x4A then
        rd_bind (read_val 4) (\<lambda>sz. rd_bind (read_val 4) (\<lambda>r. rd_bind (read_val 4) (\<lambda>n.
        rd_bind (read_vector 4 n) (\<lambda>gs. rd_bind (read_vector 4 n) (\<lambda>ds. rd_bind (read_vector 4 n) (\<lambda>as.
        rd_bind (read_vector 4 n) (\<lambda>ps. rd_bind (read_val 4) (\<lambda>o'.
        rd_bind child (\<lambda>t. make_type mpi (Darray sz r gs ds as ps o' t))))))))))
      else if c = 0x4B then
        rd_bind (read_val 8) (\<lambda>lb. rd_bind (read_val 8) (\<lambda>e.
        rd_bind child (\<lambda>t. make_type mpi (Resized lb e t))))
      else rd_fail (Throw FENIX_ERROR_INTERN))"

fun deserialize_type :: "(dtype \<Rightarrow> bool) \<Rightarrow> nat \<Rightarrow> dtype type_reader" where
  "deserialize_type mpi 0 bs = None"
| "deserialize_type mpi (Suc n) [] = Some (Inl (Throw FENIX_ERROR_NOCATEGORY))"
| "deserialize_type mpi (Suc n) (c # bs) =
     (if c = 0xFF then Some (Inr (NullType, bs))
      else if c < 0x40 then (case combiner_to_builtin c of Inl e \<Rightarrow> Some (Inl e) | Inr s \<Rightarrow> Some (Inr (Named s, bs)))
      else derived_type mpi (deserialize_type mpi n) c bs)"

text \<open>
  \<open>deserialize\<close>: the length of the buffer is fuel enough (\<open>deserialize_enough\<close> below).  What
  follows the tree is not looked at.  \<open>commits t\<close>: MPI commits the type.
\<close>

definition dtype_deserialize :: "(dtype \<Rightarrow> bool) \<Rightarrow> (dtype \<Rightarrow> bool) \<Rightarrow> byte list \<Rightarrow> failure + dtype" where
  "dtype_deserialize mpi commits buf =
     (if length buf < 4 then Inl (Throw FENIX_ERROR_INTERN)
      else if take 4 buf \<noteq> type_magic then Inl (Throw FENIX_ERROR_INTERN)
      else (case deserialize_type mpi (length buf) (drop 4 buf) of
          None \<Rightarrow> Inl Abort
        | Some (Inl e) \<Rightarrow> Inl e
        | Some (Inr (t, _)) \<Rightarrow>
            if combiner_code t \<noteq> None \<and> \<not> commits t then Inl (Throw FENIX_ERROR_INTERN) else Inr t))"

section \<open>Well-formed types\<close>

definition fits_in :: "nat \<Rightarrow> int \<Rightarrow> bool" where
  "fits_in w x \<longleftrightarrow> - (256 ^ w div 2) \<le> x \<and> x < 256 ^ w div 2"

fun dtype_shape :: "dtype \<Rightarrow> bool" where
  "dtype_shape (Indexed bs ds t) = (length ds = length bs)"
| "dtype_shape (Hindexed bs ds t) = (length ds = length bs)"
| "dtype_shape (Struct bs ds ts) = (length ds = length bs \<and> length ts = length bs)"
| "dtype_shape (Subarray gs ss st o' t) = (length ss = length gs \<and> length st = length gs)"
| "dtype_shape (Darray n r gs ds as ps o' t) = (length ds = length gs \<and> length as = length gs \<and> length ps = length gs)"
| "dtype_shape (Named s) = (s \<in> fst ` set builtin_mappings)"
| "dtype_shape OtherType = False"
| "dtype_shape _ = True"

fun subtypes :: "dtype \<Rightarrow> dtype list" where
  "subtypes (Dup t) = [t]"
| "subtypes (Contiguous n t) = [t]"
| "subtypes (Vector n b s t) = [t]"
| "subtypes (Hvector n b s t) = [t]"
| "subtypes (Indexed bs ds t) = [t]"
| "subtypes (Hindexed bs ds t) = [t]"
| "subtypes (IndexedBlock b ds t) = [t]"
| "subtypes (HindexedBlock b ds t) = [t]"
| "subtypes (Struct bs ds ts) = ts"
| "subtypes (Subarray gs ss st o' t) = [t]"
| "subtypes (Darray n r gs ds as ps o' t) = [t]"
| "subtypes (Resized lb e t) = [t]"
| "subtypes _ = []"

text \<open>Types that MPI can hold: counts and values in range, in every part; and that MPI rebuilds.\<close>

inductive dtype_ok :: "(dtype \<Rightarrow> bool) \<Rightarrow> dtype \<Rightarrow> bool" for mpi where
  "dtype_shape t \<Longrightarrow> \<forall>x \<in> set (type_integers t). fits_in 4 x \<Longrightarrow> \<forall>x \<in> set (type_addresses t). fits_in 8 x \<Longrightarrow>
   combiner_code t \<noteq> None \<longrightarrow> mpi t \<Longrightarrow> \<forall>u \<in> set (subtypes t). dtype_ok mpi u \<Longrightarrow> dtype_ok mpi t"

inductive_cases dtype_okE: "dtype_ok mpi t"

section \<open>Integers\<close>

lemma length_write_val [simp]: "length (write_val w x) = w"
  by (simp add: write_val_def)

lemma read_write_val:
  assumes "0 < w" "fits_in w x"
  shows "read_val w (write_val w x @ rest) = Some (Inr (x, rest))"
proof -
  let ?m = "256 ^ w :: int"
  have ev: "?m div 2 + ?m div 2 = ?m" using assms(1) by (cases w) simp_all
  have "0 \<le> x mod ?m" "x mod ?m < ?m" by simp_all
  then have "nat (x mod ?m) < 256 ^ w" by (simp add: nat_less_iff)
  then have b: "bytes_size (write_val w x) = nat (x mod ?m)" unfolding write_val_def bytes_size_digits by simp
  have "(x mod ?m + ?m div 2) mod ?m = (x + ?m div 2) mod ?m" by (simp add: mod_add_left_eq)
  also have "\<dots> = x + ?m div 2" using assms(2) ev by (intro mod_pos_pos_trivial) (simp_all add: fits_in_def)
  finally show ?thesis using b by (simp add: read_val_def Let_def)
qed

lemma read_write_array:
  assumes "0 < w" "\<forall>x \<in> set xs. fits_in w x"
  shows "read_array w (length xs) (write_array w xs @ rest) = Some (Inr (xs, rest))"
  using assms(2)
proof (induction xs)
  case (Cons x xs)
  then show ?case
    using read_write_val [OF assms(1), of x "write_array w xs @ rest"]
    by (simp add: rd_bind_def rd_ret_def write_array_def)
qed (simp add: rd_ret_def write_array_def)

lemma read_write_vector:
  assumes "0 < w" "\<forall>x \<in> set xs. fits_in w x" "n = int (length xs)"
  shows "read_vector w n (write_array w xs @ rest) = Some (Inr (xs, rest))"
  using read_write_array [OF assms(1,2)] assms(3) by (simp add: read_vector_def)

lemma write_array_simps [simp]:
  "write_array w [] = []" "write_array w (x # xs) = write_val w x @ write_array w xs"
  "write_array w (xs @ ys) = write_array w xs @ write_array w ys"
  by (simp_all add: write_array_def)

section \<open>The round trip\<close>

lemma rd_bind_step: "p bs = Some (Inr (x, bs')) \<Longrightarrow> rd_bind p f bs = f x bs'"
  by (simp add: rd_bind_def)

lemma builtin_roundtrip:
  assumes "s \<in> fst ` set builtin_mappings"
  shows "\<exists>c. builtin_to_combiner s = Inr c \<and> c < 0x40 \<and> combiner_to_builtin c = Inr s"
proof -
  have "list_all (\<lambda>b. case builtin_to_combiner (fst b) of Inl _ \<Rightarrow> False
      | Inr c \<Rightarrow> c < 0x40 \<and> (case combiner_to_builtin c of Inl _ \<Rightarrow> False | Inr s \<Rightarrow> s = fst b)) builtin_mappings"
    by code_simp
  moreover obtain b where "b \<in> set builtin_mappings" "s = fst b" using assms by blast
  ultimately have "case builtin_to_combiner s of Inl _ \<Rightarrow> False
      | Inr c \<Rightarrow> c < 0x40 \<and> (case combiner_to_builtin c of Inl _ \<Rightarrow> False | Inr s' \<Rightarrow> s' = s)"
    by (simp only: list_all_iff)
  then show ?thesis by (simp split: sum.splits)
qed

definition restores :: "(dtype \<Rightarrow> bool) \<Rightarrow> dtype \<Rightarrow> bool" where
  "restores mpi t \<longleftrightarrow> (\<exists>bs. serialize_type t = Inr bs \<and>
     (\<forall>n rest. length bs \<le> n \<longrightarrow> deserialize_type mpi n (bs @ rest) = Some (Inr (t, rest))))"

lemma restores_types:
  assumes "\<forall>t \<in> set ts. restores mpi t"
  shows "\<exists>bs. serialize_types ts = Inr bs \<and>
    (\<forall>n rest. length bs \<le> n \<longrightarrow> read_types (deserialize_type mpi n) (length ts) (bs @ rest) = Some (Inr (ts, rest)))"
  using assms
proof (induction ts)
  case Nil
  show ?case by (simp add: rd_ret_def)
next
  case (Cons t ts)
  obtain b where b: "serialize_type t = Inr b" "\<forall>n rest. length b \<le> n \<longrightarrow> deserialize_type mpi n (b @ rest) = Some (Inr (t, rest))"
    using Cons.prems by (auto simp: restores_def)
  obtain bs where bs: "serialize_types ts = Inr bs" "\<forall>n rest. length bs \<le> n \<longrightarrow>
      read_types (deserialize_type mpi n) (length ts) (bs @ rest) = Some (Inr (ts, rest))"
    using Cons by auto
  then show ?case using b by (intro exI [of _ "b @ bs"]) (simp add: after_def rd_bind_def rd_ret_def)
qed

text \<open>A derived type with one part: its head, then the part.\<close>

lemma restores_derived:
  assumes c: "combiner_code t = Some c" and ser: "serialize_type t = after (type_head t) (Inr us)"
    and read: "\<And>n rest. length us \<le> n \<Longrightarrow> derived_type mpi (deserialize_type mpi n) c
      (write_array 4 (type_integers t) @ write_array 8 (type_addresses t) @ us @ rest) = Some (Inr (t, rest))"
  shows "restores mpi t"
proof -
  have c40: "0x40 \<le> c" "c \<noteq> 0xFF" using c by (cases t; simp)+
  let ?bs = "c # write_array 4 (type_integers t) @ write_array 8 (type_addresses t) @ us"
  have "serialize_type t = Inr ?bs" using ser c by (simp add: after_def type_head_def)
  moreover have "deserialize_type mpi n (?bs @ rest) = Some (Inr (t, rest))" if "length ?bs \<le> n" for n rest
  proof (cases n)
    case (Suc m)
    then have "length us \<le> m" using that by simp
    from read [OF this, of rest] show ?thesis using Suc c40 by simp
  qed (use that in simp)
  ultimately show ?thesis unfolding restores_def by blast
qed

lemma read_ret [simp]: "make_type mpi t bs = (if mpi t then Some (Inr (t, bs)) else Some (Inl (Throw FENIX_ERROR_INTERN)))"
  by (simp add: make_type_def rd_ret_def rd_fail_def)

lemmas reading = rd_bind_def read_write_val read_write_vector

text \<open>Types with one part, all at once: only the part's bytes \<open>us\<close> matter.\<close>

lemma restores_one:
  assumes ok: "dtype_shape t" "\<forall>x \<in> set (type_integers t). fits_in 4 x" "\<forall>x \<in> set (type_addresses t). fits_in 8 x"
    and mpi: "combiner_code t \<noteq> None \<longrightarrow> mpi t" and u: "subtypes t = [u]" "restores mpi u"
    and no: "combiner_code t \<noteq> Some 0x48"
  shows "restores mpi t"
proof -
  obtain us where us: "serialize_type u = Inr us"
    "\<And>n rest. length us \<le> n \<Longrightarrow> deserialize_type mpi n (us @ rest) = Some (Inr (u, rest))"
    using u(2) unfolding restores_def by blast
  obtain c where c: "combiner_code t = Some c" using u(1) by (cases t) simp_all
  show ?thesis
  proof (rule restores_derived [OF c, of us])
    show "serialize_type t = after (type_head t) (Inr us)" using u(1) us(1) no by (cases t) (simp_all add: after_def)
    fix n rest assume n: "length us \<le> n"
    note us2 = us(2) [OF n, of rest]
    show "derived_type mpi (deserialize_type mpi n) c
      (write_array 4 (type_integers t) @ write_array 8 (type_addresses t) @ us @ rest) = Some (Inr (t, rest))"
      using ok mpi u(1) no c us2 by (cases t) (simp_all add: derived_type_def reading)
  qed
qed

lemma dtype_restores: "dtype_ok mpi t \<Longrightarrow> restores mpi t"
proof (induction rule: dtype_ok.induct)
  case (1 t)
  show ?case
  proof (cases "(\<exists>u. subtypes t = [u]) \<and> combiner_code t \<noteq> Some 0x48")
    case True
    then show ?thesis using restores_one 1 by auto
  next
    case False
    then consider "t = NullType" | s where "t = Named s" | bs ds ts where "t = Struct bs ds ts"
      using 1(1) by (cases t) auto
    then show ?thesis
    proof cases
      case 1
      have "deserialize_type mpi n (0xFF # rest) = Some (Inr (NullType, rest))" if "1 \<le> n" for n rest
        using that by (cases n) simp_all
      then show ?thesis using 1 by (auto simp: restores_def)
    next
      case (2 s)
      then have "s \<in> fst ` set builtin_mappings" using \<open>dtype_shape t\<close> by simp
      then obtain c where c: "builtin_to_combiner s = Inr c" "c < 0x40" "combiner_to_builtin c = Inr s"
        using builtin_roundtrip by blast
      have "deserialize_type mpi n (c # rest) = Some (Inr (Named s, rest))" if "1 \<le> n" for n rest
        using that c by (cases n) simp_all
      then show ?thesis using 2 c(1) by (auto simp: restores_def)
    next
      case (3 bs ds ts)
      have parts: "\<forall>u \<in> set ts. restores mpi u" using 1(5) 3 by simp
      obtain us where us: "serialize_types ts = Inr us" "\<And>n rest. length us \<le> n \<Longrightarrow>
          read_types (deserialize_type mpi n) (length ts) (us @ rest) = Some (Inr (ts, rest))"
        using restores_types [OF parts] by blast
      show ?thesis
      proof (rule restores_derived [of t "0x48" us])
        show "combiner_code t = Some 0x48" "serialize_type t = after (type_head t) (Inr us)" using 3 us(1) by simp_all
        fix n rest assume n: "length us \<le> n"
        show "derived_type mpi (deserialize_type mpi n) 0x48
          (write_array 4 (type_integers t) @ write_array 8 (type_addresses t) @ us @ rest) = Some (Inr (t, rest))"
          using 1(1-4) 3 us(2) [OF n, of rest] by (simp add: derived_type_def reading)
      qed
    qed
  qed
qed

lemma dtype_roundtrip:
  assumes t: "dtype_ok mpi t" and c: "combiner_code t \<noteq> None \<longrightarrow> commits t"
  shows "\<exists>buf. dtype_serialize t = Inr buf \<and> dtype_deserialize mpi commits buf = Inr t"
proof -
  obtain bs where bs: "serialize_type t = Inr bs"
    "\<forall>n rest. length bs \<le> n \<longrightarrow> deserialize_type mpi n (bs @ rest) = Some (Inr (t, rest))"
    using dtype_restores [OF t] by (auto simp: restores_def)
  have "deserialize_type mpi (length (type_magic @ bs)) bs = Some (Inr (t, []))"
    using bs(2) [rule_format, of "length (type_magic @ bs)" "[]"] by simp
  then show ?thesis
    using bs(1) c by (cases "combiner_code t") (simp_all add: dtype_serialize_def after_def dtype_deserialize_def type_magic_def)
qed

section \<open>Fuel\<close>

text \<open>
  A reader that is defined on inputs shorter than \<open>n\<close> and never returns more than it was given.
\<close>

definition bounded_reader :: "nat \<Rightarrow> 'a type_reader \<Rightarrow> bool" where
  "bounded_reader n p \<longleftrightarrow> (\<forall>bs. length bs < n \<longrightarrow> p bs \<noteq> None) \<and>
     (\<forall>bs x rest. p bs = Some (Inr (x, rest)) \<longrightarrow> length rest \<le> length bs)"

lemma bounded_ret [intro]: "bounded_reader n (rd_ret x)"
  by (simp add: bounded_reader_def rd_ret_def)

lemma bounded_fail [intro]: "bounded_reader n (rd_fail e)"
  by (simp add: bounded_reader_def rd_fail_def)

lemma bounded_bind [intro]:
  assumes p: "bounded_reader n p" and f: "\<And>x. bounded_reader n (f x)"
  shows "bounded_reader n (rd_bind p f)"
  unfolding bounded_reader_def
proof (intro conjI allI impI)
  fix bs :: "byte list" assume "length bs < n"
  moreover have "length rest < n" if "p bs = Some (Inr (x, rest))" "length bs < n" for x rest
    using p that unfolding bounded_reader_def by (meson le_less_trans)
  ultimately show "rd_bind p f bs \<noteq> None"
    using p f by (auto simp: rd_bind_def bounded_reader_def split: option.split sum.split)
next
  fix bs y rest assume "rd_bind p f bs = Some (Inr (y, rest))"
  then obtain x bs' where "p bs = Some (Inr (x, bs'))" "f x bs' = Some (Inr (y, rest))"
    by (auto simp: rd_bind_def split: option.splits sum.splits)
  then show "length rest \<le> length bs" using p f unfolding bounded_reader_def by (meson le_trans)
qed

lemma bounded_read_val [intro]: "bounded_reader n (read_val w)"
  by (simp add: bounded_reader_def read_val_def Let_def)

lemma bounded_read_array [intro]: "bounded_reader n (read_array w k)"
  by (induction k) auto

lemma bounded_read_vector [intro]: "bounded_reader n (read_vector w k)"
  by (auto simp: read_vector_def)

lemma bounded_read_types [intro]: "bounded_reader n r \<Longrightarrow> bounded_reader n (read_types r k)"
  by (induction k) auto

lemma bounded_make [intro]: "bounded_reader n (make_type mpi t)"
  by (auto simp: make_type_def)

lemma bounded_derived: "bounded_reader n r \<Longrightarrow> bounded_reader n (derived_type mpi r c)"
  unfolding derived_type_def by (simp split: if_split) (intro conjI impI bounded_bind; auto)

lemma bounded_type: "bounded_reader n (deserialize_type mpi n)"
proof (induction n)
  case 0
  show ?case by (simp add: bounded_reader_def)
next
  case (Suc n)
  note d = bounded_derived [OF Suc, of mpi]
  show ?case
    unfolding bounded_reader_def
  proof (intro conjI allI impI)
    fix bs :: "byte list" assume "length bs < Suc n"
    then show "deserialize_type mpi (Suc n) bs \<noteq> None"
      using d by (cases bs) (auto simp: bounded_reader_def split: sum.split)
  next
    fix bs t rest assume "deserialize_type mpi (Suc n) bs = Some (Inr (t, rest))"
    then show "length rest \<le> length bs"
      using d unfolding bounded_reader_def
      by (cases bs) (auto split: if_splits sum.splits intro: le_SucI)
  qed
qed

lemma deserialize_enough: "length bs < n \<Longrightarrow> deserialize_type mpi n bs \<noteq> None"
  using bounded_type unfolding bounded_reader_def by blast

text \<open>More fuel does not change a result.\<close>

definition extends :: "'a type_reader \<Rightarrow> 'a type_reader \<Rightarrow> bool" where
  "extends p q \<longleftrightarrow> (\<forall>bs r. p bs = Some r \<longrightarrow> q bs = Some r)"

lemma extends_refl [intro]: "extends p p"
  by (simp add: extends_def)

lemma extends_bind [intro]: "extends p q \<Longrightarrow> (\<And>x. extends (f x) (g x)) \<Longrightarrow> extends (rd_bind p f) (rd_bind q g)"
  by (fastforce simp: extends_def rd_bind_def split: option.splits sum.splits)

lemma extends_types [intro]: "extends p q \<Longrightarrow> extends (read_types p k) (read_types q k)"
  by (induction k) auto

lemma extends_derived: "extends p q \<Longrightarrow> extends (derived_type mpi p c) (derived_type mpi q c)"
  unfolding derived_type_def by (simp split: if_split) (intro conjI impI extends_bind; auto)

lemma deserialize_more: "n \<le> m \<Longrightarrow> extends (deserialize_type mpi n) (deserialize_type mpi m)"
proof (induction n arbitrary: m)
  case 0
  show ?case by (simp add: extends_def)
next
  case (Suc n)
  then obtain m' where m: "m = Suc m'" "n \<le> m'" by (cases m) simp_all
  have "deserialize_type mpi m bs = Some r" if "deserialize_type mpi (Suc n) bs = Some r" for bs r
    using that m(1) extends_derived [OF Suc.IH [OF m(2)], of mpi]
    by (cases bs) (auto simp: extends_def split: if_splits)
  then show ?case by (simp add: extends_def)
qed

lemma deserialize_same:
  assumes "length bs < n" "deserialize_type mpi m bs = Some r"
  shows "deserialize_type mpi n bs = Some r"
proof -
  obtain q where q: "deserialize_type mpi n bs = Some q" using deserialize_enough [OF assms(1)] by blast
  have "extends (deserialize_type mpi n) (deserialize_type mpi (max n m))"
    "extends (deserialize_type mpi m) (deserialize_type mpi (max n m))" by (rule deserialize_more; simp)+
  then have "deserialize_type mpi (max n m) bs = Some q" "deserialize_type mpi (max n m) bs = Some r"
    using q assms(2) unfolding extends_def by blast+
  then show ?thesis using q by simp
qed

section \<open>Truncated buffers\<close>

text \<open>
  A reader that looks at exactly what it consumes: with less, it throws; with more, it leaves it.
\<close>

definition exact_reader :: "'a type_reader \<Rightarrow> bool" where
  "exact_reader p \<longleftrightarrow> (\<forall>bs x rest. p bs = Some (Inr (x, rest)) \<longrightarrow>
     (\<exists>c. bs = c @ rest \<and> (\<forall>s. p (c @ s) = Some (Inr (x, s))) \<and>
       (\<forall>k < length c. \<exists>e. p (take k c) = Some (Inl (Throw e)))))"

lemma exactD:
  assumes "exact_reader p" "p bs = Some (Inr (x, rest))"
  obtains c where "bs = c @ rest" "\<And>s. p (c @ s) = Some (Inr (x, s))"
    "\<And>k. k < length c \<Longrightarrow> \<exists>e. p (take k c) = Some (Inl (Throw e))"
  using assms unfolding exact_reader_def by blast

lemma exact_ret [intro]: "exact_reader (rd_ret x)"
  by (simp add: exact_reader_def rd_ret_def)

lemma exact_fail [intro]: "exact_reader (rd_fail e)"
  by (simp add: exact_reader_def rd_fail_def)

lemma exact_bind [intro]:
  assumes p: "exact_reader p" and f: "\<And>x. exact_reader (f x)"
  shows "exact_reader (rd_bind p f)"
  unfolding exact_reader_def
proof (intro allI impI)
  fix bs y rest assume "rd_bind p f bs = Some (Inr (y, rest))"
  then obtain x bs' where x: "p bs = Some (Inr (x, bs'))" "f x bs' = Some (Inr (y, rest))"
    by (auto simp: rd_bind_def split: option.splits sum.splits)
  obtain c where c: "bs = c @ bs'" "\<And>s. p (c @ s) = Some (Inr (x, s))"
    "\<And>k. k < length c \<Longrightarrow> \<exists>e. p (take k c) = Some (Inl (Throw e))" using exactD [OF p x(1)] by metis
  obtain d where d: "bs' = d @ rest" "\<And>s. f x (d @ s) = Some (Inr (y, s))"
    "\<And>k. k < length d \<Longrightarrow> \<exists>e. f x (take k d) = Some (Inl (Throw e))" using exactD [OF f x(2)] by metis
  show "\<exists>c. bs = c @ rest \<and> (\<forall>s. rd_bind p f (c @ s) = Some (Inr (y, s))) \<and>
      (\<forall>k < length c. \<exists>e. rd_bind p f (take k c) = Some (Inl (Throw e)))"
  proof (intro exI [of _ "c @ d"] conjI allI impI)
    show "bs = (c @ d) @ rest" using c(1) d(1) by simp
    show "rd_bind p f ((c @ d) @ s) = Some (Inr (y, s))" for s
      using c(2) [of "d @ s"] d(2) by (simp add: rd_bind_def)
    fix k assume k: "k < length (c @ d)"
    show "\<exists>e. rd_bind p f (take k (c @ d)) = Some (Inl (Throw e))"
    proof (cases "k < length c")
      case True
      then show ?thesis using c(3) [OF True] by (auto simp: rd_bind_def)
    next
      case False
      then have "k - length c < length d" using k by simp
      from d(3) [OF this] show ?thesis using False c(2) [of "take (k - length c) d"] by (auto simp: rd_bind_def)
    qed
  qed
qed

lemma exact_read_val [intro]: "exact_reader (read_val w)"
  unfolding exact_reader_def
proof (intro allI impI)
  fix bs x rest assume r: "read_val w bs = Some (Inr (x, rest))"
  then have l: "w \<le> length bs" "rest = drop w bs" by (auto simp: read_val_def Let_def split: if_splits)
  show "\<exists>c. bs = c @ rest \<and> (\<forall>s. read_val w (c @ s) = Some (Inr (x, s))) \<and>
      (\<forall>k < length c. \<exists>e. read_val w (take k c) = Some (Inl (Throw e)))"
    using r l by (intro exI [of _ "take w bs"]) (auto simp: read_val_def Let_def)
qed

lemma exact_read_array [intro]: "exact_reader (read_array w k)"
  by (induction k) auto

lemma exact_read_vector [intro]: "exact_reader (read_vector w k)"
  by (auto simp: read_vector_def)

lemma exact_read_types [intro]: "exact_reader r \<Longrightarrow> exact_reader (read_types r k)"
  by (induction k) auto

lemma exact_make [intro]: "exact_reader (make_type mpi t)"
  by (auto simp: make_type_def)

lemma exact_derived: "exact_reader r \<Longrightarrow> exact_reader (derived_type mpi r c)"
  unfolding derived_type_def by (simp split: if_split) (intro conjI impI exact_bind; auto)

lemma exact_type: "exact_reader (deserialize_type mpi n)"
proof (induction n)
  case 0
  show ?case by (simp add: exact_reader_def)
next
  case (Suc n)
  show ?case
    unfolding exact_reader_def
  proof (intro allI impI)
    fix bs t rest assume r: "deserialize_type mpi (Suc n) bs = Some (Inr (t, rest))"
    then obtain c bs' where bs: "bs = c # bs'" by (cases bs) auto
    show "\<exists>c. bs = c @ rest \<and> (\<forall>s. deserialize_type mpi (Suc n) (c @ s) = Some (Inr (t, s))) \<and>
        (\<forall>k < length c. \<exists>e. deserialize_type mpi (Suc n) (take k c) = Some (Inl (Throw e)))"
    proof (cases "c = 0xFF \<or> c < 0x40")
      case True
      then show ?thesis
        using r bs by (intro exI [of _ "[c]"]) (auto split: if_splits sum.splits)
    next
      case False
      then have "derived_type mpi (deserialize_type mpi n) c bs' = Some (Inr (t, rest))" using r bs by simp
      then obtain d where d: "bs' = d @ rest" "\<And>s. derived_type mpi (deserialize_type mpi n) c (d @ s) = Some (Inr (t, s))"
        "\<And>k. k < length d \<Longrightarrow> \<exists>e. derived_type mpi (deserialize_type mpi n) c (take k d) = Some (Inl (Throw e))"
        using exactD [OF exact_derived [OF Suc]] by metis
      have "\<exists>e. deserialize_type mpi (Suc n) (take k (c # d)) = Some (Inl (Throw e))" if "k < length (c # d)" for k
        using that d(3) [of "k - 1"] False by (cases k) auto
      then show ?thesis using False d(1,2) bs by (intro exI [of _ "c # d"]) simp
    qed
  qed
qed

text \<open>A buffer that was cut off anywhere throws.\<close>

lemma dtype_truncated:
  assumes t: "dtype_ok mpi t" and s: "dtype_serialize t = Inr buf" and k: "k < length buf"
  shows "\<exists>e. dtype_deserialize mpi commits (take k buf) = Inl (Throw e)"
proof -
  obtain bs where bs: "serialize_type t = Inr bs"
    "\<forall>n rest. length bs \<le> n \<longrightarrow> deserialize_type mpi n (bs @ rest) = Some (Inr (t, rest))"
    using dtype_restores [OF t] by (auto simp: restores_def)
  have buf: "buf = type_magic @ bs" using s bs(1) by (simp add: dtype_serialize_def after_def)
  show ?thesis
  proof (cases "k < 4")
    case True
    then have "length (take k buf) < 4" by simp
    then show ?thesis unfolding dtype_deserialize_def by simp
  next
    case False
    let ?j = "k - 4"
    have tk: "take 4 (take k buf) = type_magic" "drop 4 (take k buf) = take ?j bs"
      using False buf by (simp_all add: type_magic_def take_append drop_take)
    have j: "?j < length bs" using k False buf by (simp add: type_magic_def)
    have len: "length (take k buf) = k" using k by simp
    have whole: "deserialize_type mpi (length bs) (bs @ []) = Some (Inr (t, []))"
      using bs(2) by blast
    obtain c where c: "bs @ [] = c @ []" "\<And>i. i < length c \<Longrightarrow> \<exists>e. deserialize_type mpi (length bs) (take i c) = Some (Inl (Throw e))"
      using exactD [OF exact_type whole] by metis
    obtain e where "deserialize_type mpi (length bs) (take ?j bs) = Some (Inl (Throw e))" using c j by auto
    then have r: "deserialize_type mpi k (take ?j bs) = Some (Inl (Throw e))"
      using j False k by (intro deserialize_same [of _ k mpi "length bs"]) simp_all
    have "dtype_deserialize mpi commits (take k buf) = Inl (Throw e)"
      by (simp only: dtype_deserialize_def len tk False r if_False option.case sum.case simp_thms)
    then show ?thesis by blast
  qed
qed

end
