(* ===== verification/Codec_Properties.thy ===== *)
theory Codec_Properties
  imports Datatype_Codec
begin

text \<open>
  The properties of the encoding of MPI datatypes (src/mpixx/datatype.cpp): the round trip, the
  refusal of what is cut off, and the fuel that decoding needs.
\<close>

text \<open>
  C28. A datatype that MPI can hold and rebuild survives its encoding: what the other rank
  decodes is the same tree of constructors.
\<close>

theorem datatype_roundtrip:
  assumes "dtype_ok mpi t" "combiner_code t \<noteq> None \<longrightarrow> commits t"
  shows "\<exists>buf. dtype_serialize t = Inr buf \<and> dtype_deserialize mpi commits buf = Inr t"
  by (rule dtype_roundtrip [of mpi t commits, OF assms])

definition example_dtype :: dtype where
  "example_dtype = Struct [1, 2] [0, 8] [Named ''INT'', Vector 3 1 2 (Named ''DOUBLE'')]"

lemma example_dtype_ok: "dtype_ok (\<lambda>_. True) example_dtype"
proof -
  have i: "dtype_ok (\<lambda>_. True) (Named ''INT'')" and d: "dtype_ok (\<lambda>_. True) (Named ''DOUBLE'')"
    by (intro dtype_ok.intros; simp add: builtin_mappings_def)+
  then have "dtype_ok (\<lambda>_. True) (Vector 3 1 2 (Named ''DOUBLE''))"
    by (intro dtype_ok.intros) (simp_all add: fits_in_def)
  then show ?thesis unfolding example_dtype_def using i
    by (intro dtype_ok.intros) (auto simp: fits_in_def)
qed

lemma datatype_roundtrip_witness:
  "\<exists>buf. dtype_serialize example_dtype = Inr buf \<and> dtype_deserialize (\<lambda>_. True) (\<lambda>_. True) buf = Inr example_dtype"
  by (rule datatype_roundtrip [OF example_dtype_ok]) simp

text \<open>
  An encoding that is cut off anywhere is refused with an error: it never decodes to a type.
\<close>

theorem datatype_truncated:
  assumes "dtype_ok mpi t" "dtype_serialize t = Inr buf" "k < length buf"
  shows "\<exists>e. dtype_deserialize mpi commits (take k buf) = Inl (Throw e)"
  by (rule dtype_truncated [OF assms])

lemma datatype_truncated_witness:
  "\<exists>e. dtype_deserialize (\<lambda>_. True) (\<lambda>_. True) (take 20 (case dtype_serialize example_dtype of Inr b \<Rightarrow> b | Inl _ \<Rightarrow> [])) = Inl (Throw e)"
proof -
  obtain buf where b: "dtype_serialize example_dtype = Inr buf" "20 < length buf"
    by (simp add: example_dtype_def dtype_serialize_def builtin_to_combiner_def builtin_mappings_def after_def type_head_def)
  show ?thesis using datatype_truncated [OF example_dtype_ok b, of "\<lambda>_. True"] b(1) by simp
qed

text \<open>
  C29. Decoding ends: with more fuel than there are bytes the decoder never runs out of it, on
  any input, so the recursion of the code returns or throws.
\<close>

theorem datatype_decoding_ends:
  assumes "length bs < n"
  shows "deserialize_type mpi n bs \<noteq> None"
  by (rule deserialize_enough [OF assms])

lemma datatype_decoding_ends_witness: "deserialize_type (\<lambda>_. True) 4 [0x40, 0x40, 0x40] \<noteq> None"
  by (rule datatype_decoding_ends) simp

end
