(* ===== verification/Proc_Group.thy ===== *)
theory Proc_Group
  imports Outcome
begin

text \<open>
  \<open>mpixx::Group\<close> (include/fenix/mpixx/group.hpp, src/mpixx/group.cpp): groups of processes.  The
  MPI functions behind it are a parameter, a \<open>group_api\<close>: each returns \<open>None\<close> when its error code
  is not \<open>MPI_SUCCESS\<close>, and the wrapper throws.  \<open>groups_ok\<close> states what MPI documents of them: a
  group is an ordered list of distinct processes.
\<close>

section \<open>The MPI functions\<close>

text \<open>A rank is \<open>None\<close> for \<open>MPI_UNDEFINED\<close>.  A range is its first and last rank and its stride.\<close>

datatype group_order = Ident | Similar | Unequal

record 'g group_api =
  ga_empty :: 'g
  ga_size :: "'g \<Rightarrow> nat option"
  ga_rank :: "'g \<Rightarrow> nat option option"
  ga_translate :: "'g \<Rightarrow> nat list \<Rightarrow> 'g \<Rightarrow> nat option list option"
  ga_compare :: "'g \<Rightarrow> 'g \<Rightarrow> group_order option"
  ga_union :: "'g \<Rightarrow> 'g \<Rightarrow> 'g option"
  ga_intersection :: "'g \<Rightarrow> 'g \<Rightarrow> 'g option"
  ga_difference :: "'g \<Rightarrow> 'g \<Rightarrow> 'g option"
  ga_incl :: "'g \<Rightarrow> nat list \<Rightarrow> 'g option"
  ga_excl :: "'g \<Rightarrow> nat list \<Rightarrow> 'g option"
  ga_range_incl :: "'g \<Rightarrow> (int \<times> int \<times> int) list \<Rightarrow> 'g option"
  ga_range_excl :: "'g \<Rightarrow> (int \<times> int \<times> int) list \<Rightarrow> 'g option"

section \<open>The wrapper\<close>

definition or_intern :: "'a option \<Rightarrow> failure + 'a" where
  "or_intern x = (case x of None \<Rightarrow> Inl (Throw FENIX_ERROR_INTERN) | Some y \<Rightarrow> Inr y)"

definition group_size :: "'g group_api \<Rightarrow> 'g \<Rightarrow> failure + nat" where
  "group_size api g = or_intern (ga_size api g)"

definition group_rank :: "'g group_api \<Rightarrow> 'g \<Rightarrow> failure + nat option" where
  "group_rank api g = or_intern (ga_rank api g)"

definition translate_ranks :: "'g group_api \<Rightarrow> 'g \<Rightarrow> nat list \<Rightarrow> 'g \<Rightarrow> failure + nat option list" where
  "translate_ranks api g ranks h = (if ranks = [] then Inr [] else or_intern (ga_translate api g ranks h))"

definition translate_all :: "'g group_api \<Rightarrow> 'g \<Rightarrow> 'g \<Rightarrow> failure + nat option list" where
  "translate_all api g h = (case group_size api g of Inl e \<Rightarrow> Inl e | Inr n \<Rightarrow> translate_ranks api g [0..<n] h)"

definition translate_rank :: "'g group_api \<Rightarrow> 'g \<Rightarrow> nat \<Rightarrow> 'g \<Rightarrow> failure + nat option" where
  "translate_rank api g r h = (case or_intern (ga_translate api g [r] h) of Inl e \<Rightarrow> Inl e | Inr xs \<Rightarrow> Inr (hd xs))"

definition group_compare :: "'g group_api \<Rightarrow> 'g \<Rightarrow> 'g \<Rightarrow> failure + group_order" where
  "group_compare api g h = or_intern (ga_compare api g h)"

definition group_same :: "'g group_api \<Rightarrow> 'g \<Rightarrow> 'g \<Rightarrow> failure + bool" where
  "group_same api g h = (case group_compare api g h of Inl e \<Rightarrow> Inl e | Inr c \<Rightarrow> Inr (c = Ident))"

definition group_similar :: "'g group_api \<Rightarrow> 'g \<Rightarrow> 'g \<Rightarrow> failure + bool" where
  "group_similar api g h = (case group_compare api g h of Inl e \<Rightarrow> Inl e | Inr c \<Rightarrow> Inr (c = Ident \<or> c = Similar))"

definition group_union :: "'g group_api \<Rightarrow> 'g \<Rightarrow> 'g \<Rightarrow> failure + 'g" where
  "group_union api g h = or_intern (ga_union api g h)"

definition group_intersection :: "'g group_api \<Rightarrow> 'g \<Rightarrow> 'g \<Rightarrow> failure + 'g" where
  "group_intersection api g h = or_intern (ga_intersection api g h)"

definition group_difference :: "'g group_api \<Rightarrow> 'g \<Rightarrow> 'g \<Rightarrow> failure + 'g" where
  "group_difference api g h = or_intern (ga_difference api g h)"

text \<open>The copy of a group; a null group, here \<open>None\<close>, has a null copy.\<close>

definition group_dup :: "'g group_api \<Rightarrow> 'g option \<Rightarrow> failure + 'g option" where
  "group_dup api source = (case source of
       None \<Rightarrow> Inr None
     | Some g \<Rightarrow> (case group_difference api g (ga_empty api) of Inl e \<Rightarrow> Inl e | Inr h \<Rightarrow> Inr (Some h)))"

definition group_incl :: "'g group_api \<Rightarrow> 'g \<Rightarrow> nat list \<Rightarrow> failure + 'g" where
  "group_incl api g ranks = (if ranks = [] then Inr (ga_empty api) else or_intern (ga_incl api g ranks))"

text \<open>The copy that excluding nothing gives; the size is not checked for errors there.\<close>

definition incl_all :: "'g group_api \<Rightarrow> 'g \<Rightarrow> failure + 'g" where
  "incl_all api g = (case ga_size api g of None \<Rightarrow> Inl Abort | Some n \<Rightarrow> group_incl api g [0..<n])"

definition group_excl :: "'g group_api \<Rightarrow> 'g \<Rightarrow> nat list \<Rightarrow> failure + 'g" where
  "group_excl api g ranks = (if ranks = [] then incl_all api g else or_intern (ga_excl api g ranks))"

definition group_range_incl :: "'g group_api \<Rightarrow> 'g \<Rightarrow> (int \<times> int \<times> int) list \<Rightarrow> failure + 'g" where
  "group_range_incl api g ranges = (if ranges = [] then Inr (ga_empty api) else or_intern (ga_range_incl api g ranges))"

definition group_range_excl :: "'g group_api \<Rightarrow> 'g \<Rightarrow> (int \<times> int \<times> int) list \<Rightarrow> failure + 'g" where
  "group_range_excl api g ranges = (if ranges = [] then incl_all api g else or_intern (ga_range_excl api g ranges))"

section \<open>What MPI documents\<close>

text \<open>The rank of a process in a list of processes.\<close>

definition rank_in :: "nat list \<Rightarrow> nat \<Rightarrow> nat option" where
  "rank_in xs p = (if p \<in> set xs then Some (length (takeWhile (\<lambda>q. q \<noteq> p) xs)) else None)"

text \<open>
  \<open>mem g\<close> are the processes of a group in the order of their ranks, \<open>me\<close> is the calling process.
  A group keeps the order of the first operand; \<open>incl\<close> takes the order of its argument.
\<close>

definition groups_ok :: "'g group_api \<Rightarrow> ('g \<Rightarrow> nat list) \<Rightarrow> nat \<Rightarrow> bool" where
  "groups_ok api mem me \<longleftrightarrow>
     (\<forall>g. distinct (mem g)) \<and> mem (ga_empty api) = [] \<and>
     (\<forall>g. ga_size api g = Some (length (mem g)) \<and> ga_rank api g = Some (rank_in (mem g) me)) \<and>
     (\<forall>g ranks h. (\<forall>r \<in> set ranks. r < length (mem g)) \<longrightarrow>
       ga_translate api g ranks h = Some (map (\<lambda>r. rank_in (mem h) (mem g ! r)) ranks)) \<and>
     (\<forall>g h. ga_compare api g h = Some (if mem g = mem h then Ident
       else if set (mem g) = set (mem h) then Similar else Unequal)) \<and>
     (\<forall>g h. \<exists>k. ga_union api g h = Some k \<and> mem k = mem g @ filter (\<lambda>p. p \<notin> set (mem g)) (mem h)) \<and>
     (\<forall>g h. \<exists>k. ga_intersection api g h = Some k \<and> mem k = filter (\<lambda>p. p \<in> set (mem h)) (mem g)) \<and>
     (\<forall>g h. \<exists>k. ga_difference api g h = Some k \<and> mem k = filter (\<lambda>p. p \<notin> set (mem h)) (mem g)) \<and>
     (\<forall>g ranks. distinct ranks \<and> (\<forall>r \<in> set ranks. r < length (mem g)) \<longrightarrow>
       (\<exists>k. ga_incl api g ranks = Some k \<and> mem k = map ((!) (mem g)) ranks)) \<and>
     (\<forall>g ranks. distinct ranks \<and> (\<forall>r \<in> set ranks. r < length (mem g)) \<longrightarrow>
       (\<exists>k. ga_excl api g ranks = Some k \<and> mem k = map ((!) (mem g)) (filter (\<lambda>r. r \<notin> set ranks) [0..<length (mem g)]))) \<and>
     (\<forall>g n. 0 < n \<and> n \<le> int (length (mem g)) \<longrightarrow>
       (\<exists>k. ga_range_incl api g [(0, n - 1, 1)] = Some k \<and> mem k = take (nat n) (mem g)))"

end
