(* ===== verification/Process.thy ===== *)
theory Process
  imports Proc_Group
begin

text \<open>
  Process recovery (src/fenix_process_recovery.cpp): the groups of processes that Fenix manages,
  the two tables between processes and the ranks they stand for, how failed processes are replaced
  by spares or left out, and the roles that follow (src/fenix.cpp).  A communicator is the
  group of its processes; what MPI returns while communicators are rebuilt is a parameter.
\<close>

section \<open>State\<close>

datatype rank_role = InitialRank | RecoveredRank | SurvivorRank | SpareRank | FailedRank

text \<open>
  A pid is a rank in \<open>pr_procs\<close>.  In the tables \<open>None\<close> is \<open>MPI_UNDEFINED\<close>; elsewhere it is a null
  group or communicator.
\<close>

record 'g procs =
  pr_procs :: 'g
  pr_user :: 'g
  pr_spare :: 'g
  pr_dead :: 'g
  pr_pid_rank :: "nat option list"
  pr_rank_pid :: "nat option list"
  pr_fail :: "'g option"
  pr_recovered :: "'g option"
  pr_survivor :: "'g option"
  pr_fail_ranks :: "nat option list"
  pr_world :: 'g
  pr_new_world :: "'g option"
  pr_user_world :: "'g option"
  pr_role :: rank_role
  pr_result :: fenix_code
  pr_final :: bool

definition is_spare :: "'g group_api \<Rightarrow> ('g procs, bool) comp" where
  "is_spare api = andThen getS (\<lambda>s. andThen (liftE (group_rank api (pr_spare s))) (\<lambda>r. ret (r \<noteq> None)))"

section \<open>Rebuilding the groups\<close>

text \<open>An entry of a vector; an index that is undefined or out of range is an access outside of it.\<close>

definition entry :: "'a list \<Rightarrow> nat option \<Rightarrow> 'a option" where
  "entry xs i = (case i of None \<Rightarrow> None | Some k \<Rightarrow> if k < length xs then Some (xs ! k) else None)"

definition held_rank :: "nat option \<Rightarrow> 'g procs \<Rightarrow> nat option" where
  "held_rank pid s = (case entry (pr_pid_rank s) pid of None \<Rightarrow> None | Some r \<Rightarrow> r)"

definition find_dead :: "'g group_api \<Rightarrow> ('g procs, unit) comp" where
  "find_dead api =
     andThen getS (\<lambda>s.
     andThen (liftE (group_difference api (pr_procs s) (pr_world s))) (\<lambda>d.
     andThen (modS (\<lambda>s. s\<lparr>pr_dead := d\<rparr>)) (\<lambda>_.
     andThen (liftE (group_difference api (pr_spare s) d)) (\<lambda>sp.
     modS (\<lambda>s. s\<lparr>pr_spare := sp\<rparr>)))))"

text \<open>The spare \<open>i\<close> takes the place \<open>idx\<close> of a dead process, and the rank that it stood for.\<close>

definition replace_one :: "'g group_api \<Rightarrow> nat \<Rightarrow> nat option \<Rightarrow> nat option list \<Rightarrow> ('g procs, nat option list) comp" where
  "replace_one api i idx pids =
     andThen (liftO (entry pids idx)) (\<lambda>pid.
     andThen getS (\<lambda>s.
     andThen (liftO (held_rank pid s)) (\<lambda>rank.
     andThen (liftE (translate_rank api (pr_spare s) i (pr_procs s))) (\<lambda>spare_pid.
     andThen (assertS (rank < length (pr_rank_pid s) \<and> entry (pr_pid_rank s) spare_pid \<noteq> None)) (\<lambda>_.
     andThen (modS (\<lambda>s. s\<lparr>pr_rank_pid := (pr_rank_pid s)[rank := spare_pid],
       pr_pid_rank := (pr_pid_rank s)[the spare_pid := Some rank]\<rparr>)) (\<lambda>_.
     ret (pids[the idx := spare_pid])))))))"

fun replace_all :: "'g group_api \<Rightarrow> nat \<Rightarrow> nat option list \<Rightarrow> nat option list \<Rightarrow> ('g procs, nat option list) comp" where
  "replace_all api i [] pids = ret pids"
| "replace_all api i (idx # dead) pids = andThen (replace_one api i idx pids) (replace_all api (Suc i) dead)"

text \<open>A dead process that nobody replaces: its place is erased and its rank is no longer available.\<close>

definition shrink_one :: "nat option \<Rightarrow> nat option list \<Rightarrow> ('g procs, nat option list) comp" where
  "shrink_one idx pids =
     andThen (liftO (entry pids idx)) (\<lambda>pid.
     andThen getS (\<lambda>s.
     andThen (liftO (held_rank pid s)) (\<lambda>rank.
     andThen (assertS (rank < length (pr_rank_pid s))) (\<lambda>_.
     andThen (modS (\<lambda>s. s\<lparr>pr_rank_pid := (pr_rank_pid s)[rank := None]\<rparr>)) (\<lambda>_.
     ret (take (the idx) pids @ drop (Suc (the idx)) pids))))))"

fun shrink_all :: "nat option list \<Rightarrow> nat option list \<Rightarrow> ('g procs, nat option list) comp" where
  "shrink_all [] pids = ret pids"
| "shrink_all (idx # dead) pids = andThen (shrink_one idx pids) (shrink_all dead)"

text \<open>The new user processes; an undefined pid is an invalid rank for MPI.\<close>

definition set_user :: "'g group_api \<Rightarrow> nat option list \<Rightarrow> ('g procs, unit) comp" where
  "set_user api pids =
     andThen getS (\<lambda>s.
     andThen (liftE (case those pids of None \<Rightarrow> Inl (Throw FENIX_ERROR_INTERN) | Some ps \<Rightarrow> group_incl api (pr_procs s) ps)) (\<lambda>u.
     andThen (modS (\<lambda>s. s\<lparr>pr_user := u\<rparr>)) (\<lambda>_.
     andThen (liftE (group_difference api (pr_spare s) u)) (\<lambda>sp.
     modS (\<lambda>s. s\<lparr>pr_spare := sp\<rparr>)))))"

definition rebuild_proc_groups :: "'g group_api \<Rightarrow> ('g procs, unit) comp" where
  "rebuild_proc_groups api =
     andThen (find_dead api) (\<lambda>_.
     andThen getS (\<lambda>s.
     andThen (liftE (group_intersection api (pr_user s) (pr_dead s))) (\<lambda>both.
     andThen (liftE (translate_all api both (pr_user s))) (\<lambda>dead_user.
     andThen (liftE (translate_all api (pr_user s) (pr_procs s))) (\<lambda>pids.
     andThen (liftE (group_size api (pr_spare s))) (\<lambda>n_spare.
     (let n_replace = min (length dead_user) n_spare in
     andThen (replace_all api 0 (take n_replace dead_user) pids) (\<lambda>pids.
     andThen (shrink_all (rev (drop n_replace dead_user)) pids) (set_user api)))))))))"

section \<open>Rebuilding the communicators\<close>

text \<open>
  What MPI returns in one attempt: whether the communicators could be created and duplicated
  on this process, and what the processes agree on, given this process's flag.
\<close>

record attempt =
  at_created :: bool
  at_agreed :: "nat \<Rightarrow> nat"
  at_dupped :: bool
  at_agreed2 :: "nat \<Rightarrow> nat"

definition flag_of :: "bool \<Rightarrow> nat" where
  "flag_of b = (if b then 1 else 0)"

text \<open>\<open>create\<close> gives the null communicator to the processes that are not in the group.\<close>

definition create_world :: "'g group_api \<Rightarrow> attempt \<Rightarrow> ('g procs, unit) comp" where
  "create_world api a =
     andThen getS (\<lambda>s.
     andThen (liftE (group_rank api (pr_user s))) (\<lambda>r.
     modS (\<lambda>s. s\<lparr>pr_new_world := (if at_created a \<and> r \<noteq> None then Some (pr_user s) else None)\<rparr>)))"

definition dup_world :: "attempt \<Rightarrow> ('g procs, unit) comp" where
  "dup_world a =
     andThen getS (\<lambda>s.
     andThen (assertS (pr_new_world s \<noteq> None)) (\<lambda>_.
     modS (\<lambda>s. s\<lparr>pr_user_world := (if at_dupped a then pr_new_world s else None)\<rparr>)))"

definition try_build :: "'g group_api \<Rightarrow> attempt \<Rightarrow> ('g procs, fenix_code) comp" where
  "try_build api a =
     andThen (create_world api a) (\<lambda>_.
     andThen (is_spare api) (\<lambda>spare.
     andThen getS (\<lambda>s.
     if at_agreed a (flag_of (spare \<or> pr_new_world s \<noteq> None)) \<noteq> 1 then ret FENIX_ERROR_CANCELLED
     else
       andThen (if spare then ret () else dup_world a) (\<lambda>_.
       andThen getS (\<lambda>s.
       if at_agreed2 a (flag_of (spare \<or> pr_user_world s \<noteq> None)) \<noteq> 1 then ret FENIX_ERROR_CANCELLED
       else ret FENIX_SUCCESS)))))"

text \<open>
  The loop of \<open>preinit\<close> and of \<open>__fenix_repair_ranks\<close>, given the group of \<open>world\<close> after the shrink of
  every attempt; \<open>None\<close> when no attempt succeeds.
\<close>

fun rebuild_until :: "'g group_api \<Rightarrow> ('g \<times> attempt) list \<Rightarrow> 'g procs \<Rightarrow> ((failure + unit) \<times> 'g procs) option" where
  "rebuild_until api [] s = None"
| "rebuild_until api ((w, a) # tries) s =
     (case andThen (rebuild_proc_groups api) (\<lambda>_. try_build api a) (s\<lparr>pr_world := w\<rparr>) of
        (Inl e, s') \<Rightarrow> Some (Inl e, s')
      | (Inr c, s') \<Rightarrow> if c = FENIX_SUCCESS then Some (Inr (), s') else rebuild_until api tries s')"

section \<open>Initialisation\<close>

text \<open>
  The groups that \<open>preinit\<close> makes of the \<open>in_comm\<close> group: the last \<open>spares\<close> processes are
  spares.  \<open>fatal_print\<close> ends the process.
\<close>

definition initial_procs :: "'g group_api \<Rightarrow> 'g \<Rightarrow> int \<Rightarrow> failure + 'g procs" where
  "initial_procs api all spares =
     (case group_size api all of
        Inl e \<Rightarrow> Inl e
      | Inr n \<Rightarrow>
          if spares \<ge> int n then Inl Abort
          else (let n_active = int n - spares in
            (case group_range_incl api all [(0, n_active - 1, 1)] of
               Inl e \<Rightarrow> Inl e
             | Inr user \<Rightarrow> (case group_difference api all user of
                   Inl e \<Rightarrow> Inl e
                 | Inr spare \<Rightarrow>
                     if int n < n_active then Inl Abort
                     else Inr \<lparr>pr_procs = all, pr_user = user, pr_spare = spare, pr_dead = ga_empty api,
                       pr_pid_rank = map (\<lambda>i. if int i < n_active then Some i else None) [0..<n],
                       pr_rank_pid = map Some [0..<nat n_active],
                       pr_fail = None, pr_recovered = None, pr_survivor = None, pr_fail_ranks = [],
                       pr_world = all, pr_new_world = None, pr_user_world = None,
                       pr_role = InitialRank, pr_result = FENIX_SUCCESS, pr_final = False\<rparr>))))"

text \<open>Failures during the initialisation that left fewer processes than asked for are a warning.\<close>

definition note_shrunk :: "'g group_api \<Rightarrow> nat \<Rightarrow> ('g procs, unit) comp" where
  "note_shrunk api n_active =
     andThen getS (\<lambda>s.
     andThen (liftE (group_size api (pr_user s))) (\<lambda>n.
     modS (\<lambda>s. if n < n_active then s\<lparr>pr_result := FENIX_WARNING_SPARE_RANKS_DEPLETED\<rparr> else s)))"

definition init_procs :: "'g group_api \<Rightarrow> 'g \<Rightarrow> int \<Rightarrow> ('g \<times> attempt) list \<Rightarrow> (failure + 'g procs) option" where
  "init_procs api all spares tries =
     (case initial_procs api all spares of
        Inl e \<Rightarrow> Some (Inl e)
      | Inr s \<Rightarrow> (case rebuild_until api tries s of
            None \<Rightarrow> None
          | Some (Inl e, _) \<Rightarrow> Some (Inl e)
          | Some (Inr _, s') \<Rightarrow> (case note_shrunk api (length (pr_rank_pid s)) s' of
                (Inl e, _) \<Rightarrow> Some (Inl e) | (Inr _, s'') \<Rightarrow> Some (Inr s''))))"

section \<open>Repair\<close>

text \<open>The metadata about a recovery; \<open>old_user\<close> is the group of user processes before it.\<close>

definition recovered_groups :: "'g group_api \<Rightarrow> 'g \<Rightarrow> ('g procs, unit) comp" where
  "recovered_groups api old_user =
     andThen getS (\<lambda>s.
     andThen (liftE (group_difference api old_user (pr_user s))) (\<lambda>f.
     andThen (modS (\<lambda>s. s\<lparr>pr_fail := Some f\<rparr>)) (\<lambda>_.
     andThen (liftE (translate_all api f old_user)) (\<lambda>rs.
     andThen (modS (\<lambda>s. s\<lparr>pr_fail_ranks := rs\<rparr>)) (\<lambda>_.
     andThen (liftE (group_difference api (pr_user s) old_user)) (\<lambda>r.
     andThen (modS (\<lambda>s. s\<lparr>pr_recovered := Some r\<rparr>)) (\<lambda>_.
     andThen (liftE (group_difference api (pr_user s) r)) (\<lambda>v.
     modS (\<lambda>s. s\<lparr>pr_survivor := Some v\<rparr>)))))))))"

definition rank_in_opt :: "'g group_api \<Rightarrow> 'g option \<Rightarrow> failure + nat option" where
  "rank_in_opt api g = (case g of None \<Rightarrow> Inl (Throw FENIX_ERROR_INTERN) | Some g \<Rightarrow> group_rank api g)"

definition assign_role :: "'g group_api \<Rightarrow> ('g procs, unit) comp" where
  "assign_role api =
     andThen (is_spare api) (\<lambda>spare.
     if spare then modS (\<lambda>s. s\<lparr>pr_role := SpareRank\<rparr>)
     else
       andThen getS (\<lambda>s.
       andThen (liftE (rank_in_opt api (pr_survivor s))) (\<lambda>v.
       if v \<noteq> None then modS (\<lambda>s. s\<lparr>pr_role := SurvivorRank\<rparr>)
       else
         andThen (liftE (rank_in_opt api (pr_recovered s))) (\<lambda>r.
         if r \<noteq> None then modS (\<lambda>s. s\<lparr>pr_role := RecoveredRank\<rparr>) else fail Abort))))"

definition finish_repair :: "'g group_api \<Rightarrow> 'g \<Rightarrow> ('g procs, fenix_code) comp" where
  "finish_repair api old_user =
     andThen getS (\<lambda>s.
     andThen (liftE (group_size api (pr_user s))) (\<lambda>n.
     andThen (recovered_groups api old_user) (\<lambda>_.
     andThen (assign_role api) (\<lambda>_.
     ret (if n < length (pr_rank_pid s) then FENIX_WARNING_SPARE_RANKS_DEPLETED else FENIX_SUCCESS)))))"

text \<open>
  \<open>__fenix_repair_ranks\<close>; \<open>recovery\<close> is the mode that the caller has set, \<open>locs\<close> are the locations
  that the processes agree on until all are in the error handler, with \<open>True\<close> for that one.
\<close>

abbreviation (input) NOOP :: nat where "NOOP \<equiv> 1"

definition repair_ranks ::
  "'g group_api \<Rightarrow> nat \<Rightarrow> bool list \<Rightarrow> ('g \<times> attempt) list \<Rightarrow> 'g procs \<Rightarrow> ((failure + fenix_code) \<times> 'g procs) option" where
  "repair_ranks api recovery locs tries s =
     (if recovery = NOOP then Some (Inr FENIX_SUCCESS, s)
      else (case is_spare api s of
          (Inl e, s) \<Rightarrow> Some (Inl e, s)
        | (Inr spare, s) \<Rightarrow>
            if \<not> spare \<and> True \<notin> set locs then None
            else (case group_dup api (Some (pr_user s)) of
                Inl e \<Rightarrow> Some (Inl e, s)
              | Inr None \<Rightarrow> Some (Inl Abort, s)
              | Inr (Some old_user) \<Rightarrow> (case rebuild_until api tries s of
                    None \<Rightarrow> None
                  | Some (Inl e, s') \<Rightarrow> Some (Inl e, s')
                  | Some (Inr _, s') \<Rightarrow> Some (finish_repair api old_user s')))))"

section \<open>Waiting as a spare\<close>

text \<open>What ends a wait for a message: a message, which says to finalize; a revoked world; another error.\<close>

datatype 'g spare_event = Message | Revoked "('g \<times> attempt) list" | OtherError

definition finalize_spare :: "'g group_api \<Rightarrow> 'g procs \<Rightarrow> 'g procs" where
  "finalize_spare api s =
     s\<lparr>pr_procs := ga_empty api, pr_user := ga_empty api, pr_spare := ga_empty api, pr_dead := ga_empty api,
       pr_pid_rank := [], pr_rank_pid := [], pr_fail := None, pr_recovered := None, pr_survivor := None, pr_fail_ranks := [],
       pr_world := ga_empty api, pr_new_world := None, pr_user_world := None,
       pr_role := SpareRank, pr_result := FENIX_SUCCESS, pr_final := True\<rparr>"

definition spare_step :: "'g group_api \<Rightarrow> nat \<Rightarrow> 'g spare_event \<Rightarrow> 'g procs \<Rightarrow> ((failure + unit) \<times> 'g procs) option" where
  "spare_step api recovery ev s = (case ev of
       Message \<Rightarrow> Some (Inr (), finalize_spare api s)
     | OtherError \<Rightarrow> Some (Inr (), s)
     | Revoked tries \<Rightarrow> (case repair_ranks api recovery [] tries s of
           None \<Rightarrow> None
         | Some (Inl e, s') \<Rightarrow> Some (Inl e, s')
         | Some (Inr c, s') \<Rightarrow> Some (Inr (), s'\<lparr>pr_result := c\<rparr>)))"

fun spare_rank_loop :: "'g group_api \<Rightarrow> nat \<Rightarrow> 'g spare_event list \<Rightarrow> 'g procs \<Rightarrow> ((failure + unit) \<times> 'g procs) option" where
  "spare_rank_loop api recovery evs s =
     (if pr_final s then Some (Inr (), s)
      else (case is_spare api s of
          (Inl e, s) \<Rightarrow> Some (Inl e, s)
        | (Inr False, s) \<Rightarrow> Some (Inr (), s\<lparr>pr_role := RecoveredRank\<rparr>)
        | (Inr True, s) \<Rightarrow> (case evs of
              [] \<Rightarrow> None
            | ev # evs \<Rightarrow> (case spare_step api recovery ev s of
                  None \<Rightarrow> None
                | Some (Inl e, s') \<Rightarrow> Some (Inl e, s')
                | Some (Inr _, s') \<Rightarrow> spare_rank_loop api recovery evs s'))))"

declare spare_rank_loop.simps [simp del]

section \<open>Roles\<close>

definition translate_opt :: "'g group_api \<Rightarrow> 'g \<Rightarrow> nat \<Rightarrow> 'g option \<Rightarrow> failure + nat option" where
  "translate_opt api g r h = (case h of None \<Rightarrow> Inl (Throw FENIX_ERROR_INTERN) | Some h \<Rightarrow> translate_rank api g r h)"

text \<open>\<open>role(comm, r)\<close>: the role of the rank \<open>r\<close> in a communicator with the group \<open>g\<close>.\<close>

definition role_of :: "'g group_api \<Rightarrow> 'g \<Rightarrow> nat \<Rightarrow> ('g procs, rank_role) comp" where
  "role_of api g r =
     andThen getS (\<lambda>s.
     andThen (liftE (translate_rank api g r (pr_procs s))) (\<lambda>p.
     andThen (assertS (p \<noteq> None)) (\<lambda>_.
     andThen (liftE (translate_rank api g r (pr_dead s))) (\<lambda>d.
     if d \<noteq> None then ret FailedRank else
     andThen (liftE (translate_rank api g r (pr_spare s))) (\<lambda>p.
     if p \<noteq> None then ret SpareRank else
     if pr_role s = InitialRank then ret InitialRank else
     andThen (liftE (translate_opt api g r (pr_recovered s))) (\<lambda>p.
     if p \<noteq> None then ret RecoveredRank else
     andThen (liftE (translate_opt api g r (pr_survivor s))) (\<lambda>p.
     andThen (assertS (p \<noteq> None)) (\<lambda>_. ret SurvivorRank))))))))"

definition size_or_zero :: "'g group_api \<Rightarrow> 'g option \<Rightarrow> failure + nat" where
  "size_or_zero api g = (case g of None \<Rightarrow> Inr 0 | Some g \<Rightarrow> group_size api g)"

definition n_ranks_with_role :: "'g group_api \<Rightarrow> rank_role \<Rightarrow> 'g procs \<Rightarrow> failure + nat" where
  "n_ranks_with_role api role s = (case role of
       InitialRank \<Rightarrow> if pr_role s = InitialRank then group_size api (pr_user s) else Inr 0
     | SurvivorRank \<Rightarrow> size_or_zero api (pr_survivor s)
     | RecoveredRank \<Rightarrow> size_or_zero api (pr_recovered s)
     | SpareRank \<Rightarrow> size_or_zero api (Some (pr_spare s))
     | FailedRank \<Rightarrow> size_or_zero api (Some (pr_dead s)))"

end
