(* ===== verification/Reassign.thy ===== *)
theory Reassign
  imports Process
begin

text \<open>
  What rebuilding the groups of processes promises, as a function on the table of ranks
  (\<open>reassign\<close>): a rank whose process is dead gets the next spare, or nobody when no spare is left.
  The two loops of \<open>rebuild_proc_groups\<close> are compared with it in \<open>Process_Facts\<close>.
\<close>

section \<open>The processes of a table\<close>

fun live :: "nat option list \<Rightarrow> nat list" where
  "live [] = []"
| "live (None # R) = live R"
| "live (Some p # R) = p # live R"

lemma live_append [simp]: "live (R @ S) = live R @ live S"
  by (induction R rule: live.induct) simp_all

lemma live_mem: "p \<in> set (live R) \<longleftrightarrow> (\<exists>r < length R. R ! r = Some p)"
proof (induction R rule: live.induct)
  case (2 R)
  then show ?case by (auto simp: less_Suc_eq_0_disj)
next
  case (3 q R)
  then show ?case by (auto simp: less_Suc_eq_0_disj)
qed simp

lemma live_some: "live (map Some ps) = ps"
  by (induction ps) simp_all

text \<open>The place that the process of a rank has among the processes.\<close>

definition place_of :: "nat option list \<Rightarrow> nat \<Rightarrow> nat" where
  "place_of R r = length (live (take r R))"

lemma live_split:
  assumes "r < length R" "R ! r = Some p"
  shows "live R = live (take r R) @ p # live (drop (Suc r) R)"
proof -
  have "R = take r R @ Some p # drop (Suc r) R" using assms by (metis id_take_nth_drop)
  then have "live R = live (take r R @ Some p # drop (Suc r) R)" by simp
  then show ?thesis by simp
qed

lemma live_place:
  assumes "r < length R" "R ! r = Some p"
  shows "place_of R r < length (live R)" "live R ! place_of R r = p"
  using live_split [OF assms] by (simp_all add: place_of_def)

lemma live_put:
  assumes "r < length R" "R ! r = Some p"
  shows "live (R[r := Some q]) = (live R)[place_of R r := q]"
proof -
  have "live (R[r := Some q]) = live (take r R) @ q # live (drop (Suc r) R)"
    using assms(1) by (simp add: upd_conv_take_nth_drop)
  then show ?thesis unfolding live_split [OF assms] place_of_def by simp
qed

lemma live_drop:
  assumes "r < length R" "R ! r = Some p"
  shows "live (R[r := None]) = take (place_of R r) (live R) @ drop (Suc (place_of R r)) (live R)"
proof -
  have "live (R[r := None]) = live (take r R) @ live (drop (Suc r) R)"
    using assms(1) by (simp add: upd_conv_take_nth_drop)
  then show ?thesis unfolding live_split [OF assms] place_of_def by simp
qed

lemma place_put: "R ! r = Some p \<Longrightarrow> place_of (R[r := Some q]) k = place_of R k"
proof (cases "r < length R \<and> r < k")
  case True
  assume r: "R ! r = Some p"
  have "take k (R[r := Some q]) = (take k R)[r := Some q]" using True by (simp add: take_update_swap)
  moreover have "live ((take k R)[r := Some q]) = (live (take k R))[place_of (take k R) r := q]"
    using True r by (intro live_put) simp_all
  ultimately show ?thesis by (simp add: place_of_def)
qed (auto simp: place_of_def list_update_beyond)

lemma place_drop: "k \<le> r \<Longrightarrow> place_of (R[r := x]) k = place_of R k"
  by (simp add: place_of_def)

section \<open>Dead ranks\<close>

definition is_dead :: "(nat \<Rightarrow> bool) \<Rightarrow> nat option \<Rightarrow> bool" where
  "is_dead alive x = (case x of None \<Rightarrow> False | Some p \<Rightarrow> \<not> alive p)"

definition dead_ranks :: "(nat \<Rightarrow> bool) \<Rightarrow> nat option list \<Rightarrow> nat list" where
  "dead_ranks alive R = filter (\<lambda>r. is_dead alive (R ! r)) [0..<length R]"

lemma dead_ranks_snoc: "dead_ranks alive (R @ [x]) = dead_ranks alive R @ (if is_dead alive x then [length R] else [])"
proof -
  have "filter (\<lambda>r. is_dead alive ((R @ [x]) ! r)) [0..<length R] = dead_ranks alive R"
    unfolding dead_ranks_def by (rule filter_cong) (simp_all add: nth_append)
  then show ?thesis by (simp add: dead_ranks_def)
qed

lemma dead_ranks_cons: "dead_ranks alive (x # R) = (if is_dead alive x then [0] else []) @ map Suc (dead_ranks alive R)"
proof -
  have "filter (\<lambda>r. is_dead alive ((x # R) ! r)) [1..<Suc (length R)] = map Suc (dead_ranks alive R)"
    unfolding dead_ranks_def map_Suc_upt [symmetric] One_nat_def filter_map o_def by simp
  moreover have "[0..<Suc (length R)] = 0 # [1..<Suc (length R)]" by (simp add: upt_rec)
  ultimately show ?thesis by (simp add: dead_ranks_def)
qed

lemma dead_ranks_mem: "r \<in> set (dead_ranks alive R) \<longleftrightarrow> r < length R \<and> (\<exists>p. R ! r = Some p \<and> \<not> alive p)"
  by (auto simp: dead_ranks_def is_dead_def split: option.splits)

lemma dead_ranks_sorted: "sorted_wrt (<) (dead_ranks alive R)" "distinct (dead_ranks alive R)"
  by (simp_all add: dead_ranks_def sorted_wrt_filter)

text \<open>The places of the dead ranks are the places of the dead processes.\<close>

lemma dead_places:
  "map (place_of R) (dead_ranks alive R) = filter (\<lambda>j. \<not> alive (live R ! j)) [0..<length (live R)]"
proof (induction R rule: rev_induct)
  case (snoc x R)
  have same: "map (place_of (R @ [x])) (dead_ranks alive R) = map (place_of R) (dead_ranks alive R)"
    by (intro map_cong refl) (simp add: place_of_def dead_ranks_mem)
  have pre: "filter (\<lambda>j. \<not> alive ((live R @ [p]) ! j)) [0..<length (live R)] = filter (\<lambda>j. \<not> alive (live R ! j)) [0..<length (live R)]" for p
    by (rule filter_cong) (simp_all add: nth_append)
  have new: "place_of (R @ [x]) (length R) = length (live R)" by (simp add: place_of_def)
  have pl: "map (place_of (R @ [x])) (dead_ranks alive (R @ [x]))
      = map (place_of R) (dead_ranks alive R) @ (if is_dead alive x then [length (live R)] else [])"
    unfolding dead_ranks_snoc using same new by simp
  show ?case unfolding pl snoc using pre by (cases x) (simp_all add: is_dead_def)
qed (simp add: dead_ranks_def)

lemma dead_split:
  assumes "r < length R" "is_dead alive (R ! r)"
  shows "length (dead_ranks alive (take r R)) < length (dead_ranks alive R) \<and>
    dead_ranks alive R ! length (dead_ranks alive (take r R)) = r"
proof -
  have "[0..<length R] = [0..<r] @ r # [Suc r..<length R]"
    using upt_add_eq_append [of 0 r "length R - r"] upt_conv_Cons [of r "length R"] assms(1) by simp
  then have "dead_ranks alive R = filter (\<lambda>k. is_dead alive (R ! k)) [0..<r] @ r # filter (\<lambda>k. is_dead alive (R ! k)) [Suc r..<length R]"
    using assms(2) by (simp add: dead_ranks_def)
  moreover have "filter (\<lambda>k. is_dead alive (R ! k)) [0..<r] = dead_ranks alive (take r R)"
    unfolding dead_ranks_def using assms(1) by (intro filter_cong) simp_all
  ultimately show ?thesis by simp
qed

section \<open>The abstract assignment\<close>

fun reassign :: "(nat \<Rightarrow> bool) \<Rightarrow> nat list \<Rightarrow> nat option list \<Rightarrow> nat option list" where
  "reassign alive sps [] = []"
| "reassign alive sps (x # R) =
     (if is_dead alive x then (case sps of [] \<Rightarrow> None # reassign alive [] R | q # sps \<Rightarrow> Some q # reassign alive sps R)
      else x # reassign alive sps R)"

lemma length_reassign [simp]: "length (reassign alive sps R) = length R"
  by (induction alive sps R rule: reassign.induct) (simp_all split: list.split)

lemma reassign_nth:
  "r < length R \<Longrightarrow> reassign alive sps R ! r =
     (if is_dead alive (R ! r) then (let i = length (dead_ranks alive (take r R)) in if i < length sps then Some (sps ! i) else None)
      else R ! r)"
proof (induction R arbitrary: r sps)
  case (Cons x R)
  show ?case
  proof (cases r)
    case 0
    have "dead_ranks alive [] = []" by (simp add: dead_ranks_def)
    then show ?thesis using 0 by (cases sps) simp_all
  next
    case (Suc k)
    then show ?thesis using Cons.prems Cons.IH [of k] by (cases sps) (simp_all add: dead_ranks_cons Let_def)
  qed
qed simp

section \<open>The assignment as updates of dead ranks\<close>

definition put_all :: "(nat \<times> nat option) list \<Rightarrow> nat option list \<Rightarrow> nat option list" where
  "put_all ups R = fold (\<lambda>(r, x) R. R[r := x]) ups R"

lemma put_all_simps [simp]: "put_all [] R = R" "put_all ((r, x) # ups) R = put_all ups (R[r := x])"
  "put_all (us @ vs) R = put_all vs (put_all us R)" "length (put_all ups R) = length R"
proof -
  show "length (put_all ups R) = length R"
    unfolding put_all_def by (induction ups arbitrary: R) (auto simp: case_prod_unfold)
qed (simp_all add: put_all_def)

lemma put_all_nth:
  "distinct (map fst ups) \<Longrightarrow> r < length R \<Longrightarrow> put_all ups R ! r = (case map_of ups r of None \<Rightarrow> R ! r | Some x \<Rightarrow> x)"
proof (induction ups arbitrary: R)
  case (Cons u ups)
  have "map_of ups (fst u) = None" using Cons.prems(1) by (simp add: map_of_eq_None_iff)
  then show ?case using Cons by (cases u) (auto split: option.splits)
qed simp

definition replacements :: "nat list \<Rightarrow> nat list \<Rightarrow> (nat \<times> nat option) list" where
  "replacements ds sps = zip (take (length sps) ds) (map Some sps) @ map (\<lambda>r. (r, None)) (rev (drop (length sps) ds))"

lemma reassign_put_all: "put_all (replacements (dead_ranks alive R) sps) R = reassign alive sps R"
proof (rule nth_equalityI)
  let ?ds = "dead_ranks alive R" and ?n = "length sps"
  let ?A = "zip (take ?n ?ds) (map Some sps)" and ?B = "map (\<lambda>r. (r, None :: nat option)) (rev (drop ?n ?ds))"
  have "distinct (take ?n ?ds @ drop ?n ?ds)" using dead_ranks_sorted(2) by simp
  then have dist: "distinct (take ?n ?ds)" "distinct (drop ?n ?ds)" "set (take ?n ?ds) \<inter> set (drop ?n ?ds) = {}"
    unfolding distinct_append by simp_all
  have fstA: "map fst ?A = take ?n ?ds" by (simp add: map_fst_zip_take min_def)
  have fstB: "map fst ?B = rev (drop ?n ?ds)" by (simp add: o_def)
  have dk: "distinct (map fst (replacements ?ds sps))"
    unfolding replacements_def map_append fstA fstB using dist by simp
  fix r
  assume "r < length (put_all (replacements ?ds sps) R)"
  then have r: "r < length R" by simp
  show "put_all (replacements ?ds sps) R ! r = reassign alive sps R ! r"
  proof (cases "is_dead alive (R ! r)")
    case False
    then have "r \<notin> set ?ds" using r by (auto simp: dead_ranks_def)
    then have "r \<notin> set (map fst (replacements ?ds sps))"
      unfolding replacements_def map_append fstA fstB by (auto dest: in_set_takeD in_set_dropD)
    then have "r \<notin> fst ` set (replacements ?ds sps)" by simp
    then have "map_of (replacements ?ds sps) r = None" by (simp add: map_of_eq_None_iff)
    then show ?thesis using False r dk by (simp add: put_all_nth reassign_nth)
  next
    case True
    define i where "i = length (dead_ranks alive (take r R))"
    have i: "i < length ?ds" "?ds ! i = r" using dead_split [OF r True] by (simp_all add: i_def)
    have "(r, if i < ?n then Some (sps ! i) else None) \<in> set (replacements ?ds sps)"
    proof (cases "i < ?n")
      case True
      then have "(take ?n ?ds ! i, map Some sps ! i) \<in> set ?A" using i(1) by (intro in_set_zip [THEN iffD2] exI [of _ i]) simp
      then show ?thesis using True i by (simp add: replacements_def)
    next
      case False
      then have "drop ?n ?ds ! (i - ?n) = r" "i - ?n < length (drop ?n ?ds)" using i by simp_all
      then have "r \<in> set (drop ?n ?ds)" by (metis nth_mem)
      then show ?thesis using False by (simp add: replacements_def)
    qed
    then have "map_of (replacements ?ds sps) r = Some (if i < ?n then Some (sps ! i) else None)"
      using dk by (rule map_of_is_SomeI [rotated])
    then show ?thesis using True r dk by (simp add: put_all_nth reassign_nth Let_def i_def)
  qed
qed simp

text \<open>Updates that give ranks to other processes leave every place as it is.\<close>

lemma put_some:
  assumes "\<forall>(r, x) \<in> set ups. x \<noteq> None \<and> R ! r \<noteq> None"
  shows "place_of (put_all ups R) k = place_of R k \<and> (k < length R \<longrightarrow> R ! k \<noteq> None \<longrightarrow> put_all ups R ! k \<noteq> None)"
  using assms
proof (induction ups arbitrary: R)
  case (Cons u ups)
  obtain r p q where u: "u = (r, Some q)" "R ! r = Some p" using Cons.prems by (cases u) auto
  have step: "place_of (R[r := Some q]) k = place_of R k" using place_put [OF u(2)] .
  have kept: "R[r := Some q] ! j \<noteq> None" if "R ! j \<noteq> None" for j
    using that by (cases "r < length R"; cases "j = r") (simp_all add: list_update_beyond)
  have "\<forall>(j, x) \<in> set ups. x \<noteq> None \<and> R[r := Some q] ! j \<noteq> None" using Cons.prems kept by auto
  from Cons.IH [OF this] show ?case using step kept [of k] by (simp add: u(1))
qed simp

lemma live_reassign: "set (live (reassign alive sps R)) = {p \<in> set (live R). alive p} \<union> set (take (length (dead_ranks alive R)) sps)"
proof (induction alive sps R rule: reassign.induct)
  case (2 alive sps x R)
  then show ?case by (cases x; cases sps) (auto simp: is_dead_def dead_ranks_cons)
qed (simp add: dead_ranks_def)

end
