(* ===== verification/Process_Facts.thy ===== *)
theory Process_Facts
  imports Reassign
begin

text \<open>
  Rebuilding the groups of processes refines \<open>reassign\<close>: the two loops on the positions of dead
  processes have the effect of giving dead ranks to spares and dropping the others, and the
  tables and groups stay consistent.
\<close>

lemma liftE_Inr: "andThen (liftE (Inr x)) f s = f x s"
  by (simp add: andThen_def liftE_def)

section \<open>The documented behaviour, one operation at a time\<close>

lemma rank_in_nth: "distinct xs \<Longrightarrow> j < length xs \<Longrightarrow> rank_in xs (xs ! j) = Some j"
proof -
  assume d: "distinct xs" and j: "j < length xs"
  have "takeWhile (\<lambda>q. q \<noteq> xs ! j) (take j xs @ xs ! j # drop (Suc j) xs) = take j xs"
    by (rule takeWhile_tail [THEN trans]) (use d j in \<open>auto simp: takeWhile_append in_set_conv_nth nth_eq_iff_index_eq\<close>)
  then show "rank_in xs (xs ! j) = Some j"
    using j by (simp add: rank_in_def id_take_nth_drop [symmetric])
qed

lemma rank_in_None: "rank_in xs p = None \<longleftrightarrow> p \<notin> set xs"
  by (simp add: rank_in_def)

lemma rank_in_Some: "rank_in xs p = Some j \<Longrightarrow> j < length xs \<and> xs ! j = p"
proof -
  assume r: "rank_in xs p = Some j"
  then have p: "p \<in> set xs" and j: "j = length (takeWhile (\<lambda>q. q \<noteq> p) xs)" by (auto simp: rank_in_def split: if_splits)
  have lt: "j < length xs"
  proof (rule ccontr)
    assume "\<not> j < length xs"
    then have "takeWhile (\<lambda>q. q \<noteq> p) xs = xs" unfolding j by (metis length_takeWhile_le linorder_le_less_linear order_antisym takeWhile_eq_take take_all)
    then show False using p set_takeWhileD by metis
  qed
  then have "\<not> xs ! j \<noteq> p" unfolding j by (rule nth_length_takeWhile)
  then show ?thesis using lt by simp
qed

lemma group_distinct: "groups_ok api mem me \<Longrightarrow> distinct (mem g)"
  by (simp add: groups_ok_def)

lemma group_size_run: "groups_ok api mem me \<Longrightarrow> group_size api g = Inr (length (mem g))"
  by (simp add: groups_ok_def group_size_def or_intern_def)

lemma group_rank_run: "groups_ok api mem me \<Longrightarrow> group_rank api g = Inr (rank_in (mem g) me)"
  by (simp add: groups_ok_def group_rank_def or_intern_def)

lemma translate_rank_run:
  "groups_ok api mem me \<Longrightarrow> r < length (mem g) \<Longrightarrow> translate_rank api g r h = Inr (rank_in (mem h) (mem g ! r))"
  by (simp add: groups_ok_def translate_rank_def or_intern_def)

lemma translate_all_run:
  assumes "groups_ok api mem me"
  shows "translate_all api g h = Inr (map (rank_in (mem h)) (mem g))"
proof -
  have "ga_translate api g [0..<length (mem g)] h = Some (map (\<lambda>r. rank_in (mem h) (mem g ! r)) [0..<length (mem g)])"
    using assms by (simp add: groups_ok_def)
  moreover have "map (\<lambda>r. rank_in (mem h) (mem g ! r)) [0..<length (mem g)] = map (rank_in (mem h)) (mem g)"
    by (rule nth_equalityI) simp_all
  ultimately show ?thesis
    using group_size_run [OF assms] by (simp add: translate_all_def translate_ranks_def or_intern_def)
qed

lemma difference_run:
  assumes "groups_ok api mem me"
  obtains k where "group_difference api g h = Inr k" "mem k = filter (\<lambda>p. p \<notin> set (mem h)) (mem g)"
proof -
  have "\<exists>k. ga_difference api g h = Some k \<and> mem k = filter (\<lambda>p. p \<notin> set (mem h)) (mem g)"
    using assms by (simp add: groups_ok_def)
  then show ?thesis using that by (auto simp: group_difference_def or_intern_def)
qed

lemma intersection_run:
  assumes "groups_ok api mem me"
  obtains k where "group_intersection api g h = Inr k" "mem k = filter (\<lambda>p. p \<in> set (mem h)) (mem g)"
proof -
  have "\<exists>k. ga_intersection api g h = Some k \<and> mem k = filter (\<lambda>p. p \<in> set (mem h)) (mem g)"
    using assms by (simp add: groups_ok_def)
  then show ?thesis using that by (auto simp: group_intersection_def or_intern_def)
qed

lemma incl_run:
  assumes "groups_ok api mem me" "distinct ranks" "\<forall>r \<in> set ranks. r < length (mem g)"
  obtains k where "group_incl api g ranks = Inr k" "mem k = map ((!) (mem g)) ranks"
proof (cases "ranks = []")
  case True
  then show ?thesis using that [of "ga_empty api"] assms(1) by (simp add: group_incl_def groups_ok_def)
next
  case False
  have "\<exists>k. ga_incl api g ranks = Some k \<and> mem k = map ((!) (mem g)) ranks"
    using assms unfolding groups_ok_def by blast
  then show ?thesis using that False by (auto simp: group_incl_def or_intern_def)
qed

lemma ranks_of_filter:
  assumes "distinct xs"
  shows "map (rank_in xs) (filter Q xs) = map Some (filter (\<lambda>j. Q (xs ! j)) [0..<length xs])"
proof -
  have "filter Q xs = filter Q (map ((!) xs) [0..<length xs])" by (simp only: map_nth)
  then have "filter Q xs = map ((!) xs) (filter (\<lambda>j. Q (xs ! j)) [0..<length xs])" by (simp add: filter_map o_def)
  then have "map (rank_in xs) (filter Q xs) = map (\<lambda>j. rank_in xs (xs ! j)) (filter (\<lambda>j. Q (xs ! j)) [0..<length xs])"
    by (simp add: o_def)
  also have "\<dots> = map Some (filter (\<lambda>j. Q (xs ! j)) [0..<length xs])"
    by (intro map_cong refl) (simp add: rank_in_nth [OF assms])
  finally show ?thesis .
qed

section \<open>The tables\<close>

text \<open>The table of ranks holds no process twice, and the table of pids leads back to it.\<close>

definition tables_ok :: "nat option list \<Rightarrow> nat option list \<Rightarrow> bool" where
  "tables_ok R Q \<longleftrightarrow> distinct (live R) \<and> (\<forall>r < length R. \<forall>p. R ! r = Some p \<longrightarrow> p < length Q \<and> Q ! p = Some r)"

lemma tables_put:
  assumes t: "tables_ok R Q" and r: "r < length R" "R ! r = Some p" and q: "q < length Q" "q \<notin> set (live R)"
  shows "tables_ok (R[r := Some q]) (Q[q := Some r])"
proof -
  have "distinct (live (R[r := Some q]))"
    unfolding live_put [OF r] using t q(2) by (simp add: tables_ok_def distinct_list_update)
  moreover have "k < length Q \<and> Q[q := Some r] ! k = Some i"
    if i: "i < length R" "R[r := Some q] ! i = Some k" for i k
  proof (cases "i = r")
    case False
    then have "R ! i = Some k" using i by simp
    moreover from this have "k \<noteq> q" using i(1) q(2) by (auto simp: live_mem)
    ultimately show ?thesis using t i(1) by (simp add: tables_ok_def)
  qed (use i r q in simp)
  ultimately show ?thesis by (simp add: tables_ok_def)
qed

lemma tables_drop:
  assumes t: "tables_ok R Q" and r: "r < length R" "R ! r = Some p"
  shows "tables_ok (R[r := None]) Q"
proof -
  have "distinct (live (R[r := None]))"
    unfolding live_drop [OF r] using t by (auto simp: tables_ok_def set_take_disj_set_drop_if_distinct)
  moreover have "k < length Q \<and> Q ! k = Some i" if i: "i < length R" "R[r := None] ! i = Some k" for i k
    using t i r by (cases "i = r") (simp_all add: tables_ok_def)
  ultimately show ?thesis by (simp add: tables_ok_def)
qed

lemma held_rank_run: "tables_ok R (pr_pid_rank s) \<Longrightarrow> r < length R \<Longrightarrow> R ! r = Some p \<Longrightarrow> held_rank (Some p) s = Some r"
  by (simp add: tables_ok_def held_rank_def entry_def)

lemma entry_place:
  assumes "r < length R" "R ! r = Some p"
  shows "entry (map Some (live R)) (Some (place_of R r)) = Some (Some p)"
  using live_place [OF assms] by (simp add: entry_def)

section \<open>The two loops\<close>

lemma replace_one_run:
  assumes t: "tables_ok (pr_rank_pid s) (pr_pid_rank s)" and r: "r < length (pr_rank_pid s)" "pr_rank_pid s ! r = Some p"
    and q: "translate_rank api (pr_spare s) i (pr_procs s) = Inr (Some q)" "q < length (pr_pid_rank s)"
  shows "replace_one api i (Some (place_of (pr_rank_pid s) r)) (map Some (live (pr_rank_pid s))) s
    = (Inr (map Some (live ((pr_rank_pid s)[r := Some q]))),
       s\<lparr>pr_rank_pid := (pr_rank_pid s)[r := Some q], pr_pid_rank := (pr_pid_rank s)[q := Some r]\<rparr>)"
  using entry_place [OF r] held_rank_run [OF t r] r q
  by (simp add: replace_one_def comp entry_def live_put map_update)

lemma replace_all_run:
  assumes "tables_ok (pr_rank_pid s) (pr_pid_rank s)" "distinct rs"
    "\<forall>r \<in> set rs. r < length (pr_rank_pid s) \<and> pr_rank_pid s ! r \<noteq> None"
    "distinct qs" "length qs = length rs" "\<forall>q \<in> set qs. q < length (pr_pid_rank s) \<and> q \<notin> set (live (pr_rank_pid s))"
    "\<forall>j < length qs. translate_rank api (pr_spare s) (i + j) (pr_procs s) = Inr (Some (qs ! j))"
  shows "\<exists>Q. replace_all api i (map (\<lambda>r. Some (place_of (pr_rank_pid s) r)) rs) (map Some (live (pr_rank_pid s))) s
      = (Inr (map Some (live (put_all (zip rs (map Some qs)) (pr_rank_pid s)))),
         s\<lparr>pr_rank_pid := put_all (zip rs (map Some qs)) (pr_rank_pid s), pr_pid_rank := Q\<rparr>) \<and>
    tables_ok (put_all (zip rs (map Some qs)) (pr_rank_pid s)) Q \<and> length Q = length (pr_pid_rank s)"
  using assms
proof (induction rs arbitrary: qs i s)
  case Nil
  then show ?case by (intro exI [of _ "pr_pid_rank s"]) (simp add: comp)
next
  case (Cons r rs)
  then obtain q qs' where qs: "qs = q # qs'" by (cases qs) simp_all
  let ?R = "pr_rank_pid s" and ?Q = "pr_pid_rank s"
  obtain p where r: "r < length ?R" "?R ! r = Some p" using Cons.prems(3) by auto
  have tr: "translate_rank api (pr_spare s) i (pr_procs s) = Inr (Some q)" "q < length ?Q" "q \<notin> set (live ?R)"
    using Cons.prems(6,7) by (auto simp: qs dest: spec [of _ 0])
  let ?s = "s\<lparr>pr_rank_pid := ?R[r := Some q], pr_pid_rank := ?Q[q := Some r]\<rparr>"
  have one: "replace_one api i (Some (place_of ?R r)) (map Some (live ?R)) s = (Inr (map Some (live (?R[r := Some q]))), ?s)"
    by (rule replace_one_run [OF Cons.prems(1) r tr(1,2)])
  have t: "tables_ok (pr_rank_pid ?s) (pr_pid_rank ?s)" using tables_put [OF Cons.prems(1) r tr(2,3)] by simp
  have places: "map (\<lambda>r. Some (place_of ?R r)) rs = map (\<lambda>r. Some (place_of (pr_rank_pid ?s) r)) rs"
    by (simp add: place_put [OF r(2)])
  have sub: "set (live (?R[r := Some q])) \<subseteq> insert q (set (live ?R))"
    unfolding live_put [OF r] by (rule set_update_subset_insert)
  have pre: "distinct rs" "\<forall>k \<in> set rs. k < length (pr_rank_pid ?s) \<and> pr_rank_pid ?s ! k \<noteq> None" "distinct qs'" "length qs' = length rs"
    "\<forall>k \<in> set qs'. k < length (pr_pid_rank ?s) \<and> k \<notin> set (live (pr_rank_pid ?s))"
    "\<forall>j < length qs'. translate_rank api (pr_spare ?s) (Suc i + j) (pr_procs ?s) = Inr (Some (qs' ! j))"
    using Cons.prems(2-7) sub by (auto simp: qs nth_list_update)
  obtain Q where "replace_all api (Suc i) (map (\<lambda>r. Some (place_of (pr_rank_pid ?s) r)) rs) (map Some (live (pr_rank_pid ?s))) ?s
      = (Inr (map Some (live (put_all (zip rs (map Some qs')) (pr_rank_pid ?s)))),
         ?s\<lparr>pr_rank_pid := put_all (zip rs (map Some qs')) (pr_rank_pid ?s), pr_pid_rank := Q\<rparr>)"
    "tables_ok (put_all (zip rs (map Some qs')) (pr_rank_pid ?s)) Q" "length Q = length (pr_pid_rank ?s)"
    using Cons.IH [OF t pre] by blast
  then show ?case
    unfolding list.map places by (intro exI [of _ Q]) (simp add: qs comp one)
qed

lemma shrink_one_run:
  assumes t: "tables_ok (pr_rank_pid s) (pr_pid_rank s)" and r: "r < length (pr_rank_pid s)" "pr_rank_pid s ! r = Some p"
  shows "shrink_one (Some (place_of (pr_rank_pid s) r)) (map Some (live (pr_rank_pid s))) s
    = (Inr (map Some (live ((pr_rank_pid s)[r := None]))), s\<lparr>pr_rank_pid := (pr_rank_pid s)[r := None]\<rparr>)"
  using entry_place [OF r] held_rank_run [OF t r] r
  by (simp add: shrink_one_def comp live_drop take_map drop_map)

lemma shrink_all_run:
  assumes "tables_ok (pr_rank_pid s) (pr_pid_rank s)" "sorted_wrt (>) rs"
    "\<forall>r \<in> set rs. r < length (pr_rank_pid s) \<and> pr_rank_pid s ! r \<noteq> None"
  shows "shrink_all (map (\<lambda>r. Some (place_of (pr_rank_pid s) r)) rs) (map Some (live (pr_rank_pid s))) s
      = (Inr (map Some (live (put_all (map (\<lambda>r. (r, None)) rs) (pr_rank_pid s)))),
         s\<lparr>pr_rank_pid := put_all (map (\<lambda>r. (r, None)) rs) (pr_rank_pid s)\<rparr>) \<and>
    tables_ok (put_all (map (\<lambda>r. (r, None)) rs) (pr_rank_pid s)) (pr_pid_rank s)"
  using assms
proof (induction rs arbitrary: s)
  case (Cons r rs)
  let ?R = "pr_rank_pid s"
  obtain p where r: "r < length ?R" "?R ! r = Some p" using Cons.prems(3) by auto
  let ?s = "s\<lparr>pr_rank_pid := ?R[r := None]\<rparr>"
  have places: "map (\<lambda>r. Some (place_of ?R r)) rs = map (\<lambda>r. Some (place_of (pr_rank_pid ?s) r)) rs"
    using Cons.prems(2) by (auto simp: place_drop)
  have t: "tables_ok (pr_rank_pid ?s) (pr_pid_rank ?s)" using tables_drop [OF Cons.prems(1) r] by simp
  have pre: "sorted_wrt (>) rs" "\<forall>k \<in> set rs. k < length (pr_rank_pid ?s) \<and> pr_rank_pid ?s ! k \<noteq> None"
    using Cons.prems(2,3) by (auto simp: nth_list_update)
  show ?case
    unfolding list.map places using Cons.IH [OF t pre] shrink_one_run [OF Cons.prems(1) r] by (simp add: comp)
qed (simp add: comp)

section \<open>The groups\<close>

text \<open>
  The user processes are those of the table of ranks, in its order; every process is a user, a
  spare or dead.
\<close>

definition procs_ok :: "('g \<Rightarrow> nat list) \<Rightarrow> 'g procs \<Rightarrow> bool" where
  "procs_ok mem s \<longleftrightarrow>
     tables_ok (pr_rank_pid s) (pr_pid_rank s) \<and> length (pr_pid_rank s) = length (mem (pr_procs s)) \<and>
     mem (pr_user s) = map ((!) (mem (pr_procs s))) (live (pr_rank_pid s)) \<and>
     set (mem (pr_procs s)) = set (mem (pr_user s)) \<union> set (mem (pr_spare s)) \<union> set (mem (pr_dead s)) \<and>
     set (mem (pr_user s)) \<inter> set (mem (pr_spare s)) = {} \<and>
     set (mem (pr_dead s)) \<inter> (set (mem (pr_user s)) \<union> set (mem (pr_spare s))) = {}"

lemma procs_okD:
  assumes "procs_ok mem s"
  shows "(!) (mem (pr_procs s)) ` set (live (pr_rank_pid s)) = set (mem (pr_user s))"
    "set (mem (pr_user s)) \<subseteq> set (mem (pr_procs s))" "set (mem (pr_spare s)) \<subseteq> set (mem (pr_procs s))"
    "set (mem (pr_dead s)) \<subseteq> set (mem (pr_procs s))" "x \<in> set (mem (pr_spare s)) \<Longrightarrow> x \<notin> set (mem (pr_user s))"
proof -
  show "(!) (mem (pr_procs s)) ` set (live (pr_rank_pid s)) = set (mem (pr_user s))" using assms by (simp add: procs_ok_def)
qed (use assms in \<open>unfold procs_ok_def, blast\<close>)+

text \<open>A process is alive when the shrunk world has it; spares are used in their order.\<close>

definition in_world :: "('g \<Rightarrow> nat list) \<Rightarrow> 'g procs \<Rightarrow> nat \<Rightarrow> bool" where
  "in_world mem s p \<longleftrightarrow> mem (pr_procs s) ! p \<in> set (mem (pr_world s))"

definition spare_pids :: "('g \<Rightarrow> nat list) \<Rightarrow> 'g procs \<Rightarrow> nat list" where
  "spare_pids mem s = map (\<lambda>x. the (rank_in (mem (pr_procs s)) x)) (filter (\<lambda>x. x \<in> set (mem (pr_world s))) (mem (pr_spare s)))"

lemma live_bound: "tables_ok R Q \<Longrightarrow> p \<in> set (live R) \<Longrightarrow> p < length Q"
  by (auto simp: tables_ok_def live_mem)

lemma pid_of:
  assumes "distinct xs" "x \<in> set xs"
  shows "rank_in xs x = Some (the (rank_in xs x)) \<and> the (rank_in xs x) < length xs \<and> xs ! the (rank_in xs x) = x"
proof -
  obtain j where "rank_in xs x = Some j" using assms(2) by (cases "rank_in xs x") (simp_all add: rank_in_None)
  then show ?thesis using rank_in_Some [of xs x j] by simp
qed

lemma spare_pids_facts:
  assumes g: "groups_ok api mem me" and ok: "procs_ok mem s"
  shows "distinct (spare_pids mem s)" "map ((!) (mem (pr_procs s))) (spare_pids mem s) = filter (\<lambda>x. x \<in> set (mem (pr_world s))) (mem (pr_spare s))"
    "q \<in> set (spare_pids mem s) \<Longrightarrow> q < length (mem (pr_procs s)) \<and> q \<notin> set (live (pr_rank_pid s)) \<and> in_world mem s q"
proof -
  let ?P = "mem (pr_procs s)" and ?xs = "filter (\<lambda>x. x \<in> set (mem (pr_world s))) (mem (pr_spare s))"
  have d: "distinct ?P" "distinct ?xs" using group_distinct [OF g] by simp_all
  have sub: "set ?xs \<subseteq> set ?P" using ok by (auto simp: procs_ok_def)
  have at: "?P ! the (rank_in ?P x) = x" "the (rank_in ?P x) < length ?P" if "x \<in> set ?xs" for x
    using pid_of [OF d(1), of x] sub that by blast+
  show m: "map ((!) ?P) (spare_pids mem s) = ?xs"
    unfolding spare_pids_def map_map by (rule map_idI) (simp add: at)
  show "distinct (spare_pids mem s)" using d(2) unfolding m [symmetric] by (simp add: distinct_map)
  assume "q \<in> set (spare_pids mem s)"
  then obtain x where x: "x \<in> set ?xs" "q = the (rank_in ?P x)" by (auto simp: spare_pids_def)
  have "x \<notin> (!) ?P ` set (live (pr_rank_pid s))" using x(1) procs_okD(1,5) [OF ok] by auto
  then have "q \<notin> set (live (pr_rank_pid s))" using at(1) [OF x(1)] x(2) by force
  then show "q < length ?P \<and> q \<notin> set (live (pr_rank_pid s)) \<and> in_world mem s q"
    using at [OF x(1)] x by (simp add: in_world_def)
qed

lemma dead_user_run:
  assumes g: "groups_ok api mem me" and ok: "procs_ok mem s" and both: "mem both = filter (\<lambda>x. x \<notin> set (mem (pr_world s))) (mem (pr_user s))"
  shows "translate_all api both (pr_user s)
    = Inr (map (\<lambda>r. Some (place_of (pr_rank_pid s) r)) (dead_ranks (in_world mem s) (pr_rank_pid s)))"
proof -
  let ?U = "mem (pr_user s)" and ?L = "live (pr_rank_pid s)"
  have u: "?U = map ((!) (mem (pr_procs s))) ?L" using ok by (simp add: procs_ok_def)
  have "filter (\<lambda>j. ?U ! j \<notin> set (mem (pr_world s))) [0..<length ?U] = filter (\<lambda>j. \<not> in_world mem s (?L ! j)) [0..<length ?L]"
    unfolding u by (auto simp: in_world_def intro!: filter_cong)
  then have "map (rank_in ?U) (mem both) = map Some (map (place_of (pr_rank_pid s)) (dead_ranks (in_world mem s) (pr_rank_pid s)))"
    unfolding both dead_places using ranks_of_filter [OF group_distinct [OF g, of "pr_user s"], of "\<lambda>x. x \<notin> set (mem (pr_world s))"] by simp
  then show ?thesis unfolding translate_all_run [OF g] by (simp add: o_def)
qed

lemma user_pids_run:
  assumes g: "groups_ok api mem me" and ok: "procs_ok mem s"
  shows "translate_all api (pr_user s) (pr_procs s) = Inr (map Some (live (pr_rank_pid s)))"
proof -
  have "rank_in (mem (pr_procs s)) (mem (pr_procs s) ! p) = Some p" if "p \<in> set (live (pr_rank_pid s))" for p
    using live_bound [of "pr_rank_pid s" "pr_pid_rank s" p] that ok by (intro rank_in_nth group_distinct [OF g]) (simp add: procs_ok_def)
  then show ?thesis unfolding translate_all_run [OF g] using ok by (simp add: procs_ok_def)
qed

section \<open>Rebuilding refines the assignment\<close>

definition replaced :: "('g \<Rightarrow> nat list) \<Rightarrow> 'g procs \<Rightarrow> nat option list" where
  "replaced mem s = reassign (in_world mem s) (spare_pids mem s) (pr_rank_pid s)"

lemma those_some: "those (map Some xs) = Some xs"
  by (induction xs) simp_all

lemma zip_take_both: "zip (take n xs) (take (length xs) ys) = zip (take n xs) ys"
  by (rule nth_equalityI) simp_all

lemma loops_run:
  fixes s :: "'g procs" and alive :: "nat \<Rightarrow> bool"
  assumes g: "groups_ok api mem me" and t: "tables_ok (pr_rank_pid s) (pr_pid_rank s)"
    and sp: "distinct sps" "\<forall>q \<in> set sps. q < length (pr_pid_rank s) \<and> q \<notin> set (live (pr_rank_pid s))"
    and tr: "mem (pr_spare s) = map ((!) (mem (pr_procs s))) sps" "\<forall>q \<in> set sps. q < length (mem (pr_procs s))"
  defines "ds \<equiv> dead_ranks alive (pr_rank_pid s)"
  shows "\<exists>Q. andThen (replace_all api 0 (take (min (length ds) (length sps)) (map (\<lambda>r. Some (place_of (pr_rank_pid s) r)) ds)) (map Some (live (pr_rank_pid s))))
      (\<lambda>pids. andThen (shrink_all (rev (drop (min (length ds) (length sps)) (map (\<lambda>r. Some (place_of (pr_rank_pid s) r)) ds))) pids) f) s
    = f (map Some (live (reassign alive sps (pr_rank_pid s)))) (s\<lparr>pr_rank_pid := reassign alive sps (pr_rank_pid s), pr_pid_rank := Q\<rparr>) \<and>
    tables_ok (reassign alive sps (pr_rank_pid s)) Q \<and> length Q = length (pr_pid_rank s)"
proof -
  let ?R = "pr_rank_pid s" and ?n = "length sps"
  let ?rs = "take ?n ds" and ?qs = "take (length ds) sps" and ?pl = "\<lambda>R r. Some (place_of R r)"
  define R1 where "R1 = put_all (zip ?rs (map Some ?qs)) ?R"
  have cut: "take (min (length ds) ?n) (map (?pl ?R) ds) = map (?pl ?R) ?rs" "rev (drop (min (length ds) ?n) (map (?pl ?R) ds)) = map (?pl ?R) (rev (drop ?n ds))"
    by (simp_all add: take_map drop_map rev_map min_def)
  have mem_ds: "r < length ?R \<and> ?R ! r \<noteq> None" if "r \<in> set ds" for r using that by (auto simp: ds_def dead_ranks_mem)
  have len: "length ?qs = length ?rs" by simp
  have "translate_rank api (pr_spare s) j (pr_procs s) = Inr (Some (?qs ! j))" if "j < length ?qs" for j
  proof -
    have "rank_in (mem (pr_procs s)) (mem (pr_procs s) ! (sps ! j)) = Some (sps ! j)"
      using tr(2) that by (intro rank_in_nth group_distinct [OF g]) simp
    then show ?thesis using translate_rank_run [OF g, of j "pr_spare s" "pr_procs s"] that by (simp add: tr(1))
  qed
  moreover have "distinct ?rs" "distinct ?qs" using dead_ranks_sorted(2) sp(1) by (simp_all add: ds_def)
  moreover have "\<forall>r \<in> set ?rs. r < length ?R \<and> ?R ! r \<noteq> None" using mem_ds by (meson in_set_takeD)
  moreover have "\<forall>q \<in> set ?qs. q < length (pr_pid_rank s) \<and> q \<notin> set (live ?R)" using sp(2) by (meson in_set_takeD)
  ultimately obtain Q where one: "replace_all api 0 (map (?pl ?R) ?rs) (map Some (live ?R)) s
      = (Inr (map Some (live R1)), s\<lparr>pr_rank_pid := R1, pr_pid_rank := Q\<rparr>)" and Q: "tables_ok R1 Q" "length Q = length (pr_pid_rank s)"
    using replace_all_run [OF t _ _ _ len, of api 0] unfolding R1_def by auto
  have ups: "\<forall>(r, x) \<in> set (zip ?rs (map Some ?qs)). x \<noteq> None \<and> ?R ! r \<noteq> None"
  proof clarify
    fix r x
    assume "(r, x) \<in> set (zip ?rs (map Some ?qs))"
    then have "r \<in> set ds" "x \<in> set (map Some ?qs)" by (blast dest: set_zip_leftD in_set_takeD, rule set_zip_rightD)
    then show "x \<noteq> None \<and> ?R ! r \<noteq> None" using mem_ds by auto
  qed
  have pl: "?pl ?R = ?pl R1" and len1: "length R1 = length ?R" using put_some [OF ups] by (auto simp: R1_def)
  have "sorted_wrt (<) ds" by (simp add: ds_def dead_ranks_sorted)
  then have sorted: "sorted_wrt (>) (rev (drop ?n ds))" by (simp add: sorted_wrt_rev sorted_wrt_drop)
  have pre: "\<forall>r \<in> set (rev (drop ?n ds)). r < length R1 \<and> R1 ! r \<noteq> None"
    using put_some [OF ups] mem_ds len1 unfolding R1_def by (auto dest!: in_set_dropD)
  have all: "put_all (map (\<lambda>r. (r, None)) (rev (drop ?n ds))) R1 = reassign alive sps ?R"
    using reassign_put_all [of alive ?R sps] unfolding R1_def replacements_def ds_def take_map [symmetric] zip_take_both by simp
  have two: "shrink_all (map (?pl R1) (rev (drop ?n ds))) (map Some (live R1)) (s\<lparr>pr_rank_pid := R1, pr_pid_rank := Q\<rparr>)
      = (Inr (map Some (live (reassign alive sps ?R))), s\<lparr>pr_rank_pid := reassign alive sps ?R, pr_pid_rank := Q\<rparr>) \<and> tables_ok (reassign alive sps ?R) Q"
    using shrink_all_run [of "s\<lparr>pr_rank_pid := R1, pr_pid_rank := Q\<rparr>" "rev (drop ?n ds)"] Q(1) sorted pre all by simp
  show ?thesis unfolding cut using one two Q(2) by (intro exI [of _ Q]) (simp add: comp pl)
qed

lemma filter_rest: "distinct xs \<Longrightarrow> filter (\<lambda>x. x \<notin> set (take k xs)) xs = drop k xs"
proof -
  assume d: "distinct xs"
  have "filter (\<lambda>x. x \<notin> set (take k xs)) (take k xs @ drop k xs) = drop k xs"
    using set_take_disj_set_drop_if_distinct [OF d, of k k] unfolding filter_append by (auto simp: filter_empty_conv filter_id_conv)
  then show ?thesis by simp
qed

text \<open>What the rebuilt state holds; \<open>alive\<close> spares that were not needed stay spares.\<close>

definition rebuilt :: "('g \<Rightarrow> nat list) \<Rightarrow> 'g procs \<Rightarrow> 'g procs \<Rightarrow> bool" where
  "rebuilt mem s s' \<longleftrightarrow>
     pr_rank_pid s' = replaced mem s \<and>
     mem (pr_user s') = map ((!) (mem (pr_procs s))) (live (replaced mem s)) \<and>
     mem (pr_spare s') = drop (length (dead_ranks (in_world mem s) (pr_rank_pid s))) (filter (\<lambda>x. x \<in> set (mem (pr_world s))) (mem (pr_spare s))) \<and>
     mem (pr_dead s') = filter (\<lambda>x. x \<notin> set (mem (pr_world s))) (mem (pr_procs s)) \<and>
     tables_ok (pr_rank_pid s') (pr_pid_rank s') \<and> length (pr_pid_rank s') = length (pr_pid_rank s) \<and>
     s' = s\<lparr>pr_user := pr_user s', pr_spare := pr_spare s', pr_dead := pr_dead s', pr_pid_rank := pr_pid_rank s', pr_rank_pid := pr_rank_pid s'\<rparr>"

lemma rebuiltD:
  assumes "rebuilt mem s s'"
  shows "pr_rank_pid s' = replaced mem s"
    "mem (pr_user s') = map ((!) (mem (pr_procs s))) (live (replaced mem s))"
    "mem (pr_spare s') = drop (length (dead_ranks (in_world mem s) (pr_rank_pid s))) (filter (\<lambda>x. x \<in> set (mem (pr_world s))) (mem (pr_spare s)))"
    "mem (pr_dead s') = filter (\<lambda>x. x \<notin> set (mem (pr_world s))) (mem (pr_procs s))"
    "tables_ok (pr_rank_pid s') (pr_pid_rank s')" "length (pr_pid_rank s') = length (pr_pid_rank s)"
    "s' = s\<lparr>pr_user := pr_user s', pr_spare := pr_spare s', pr_dead := pr_dead s', pr_pid_rank := pr_pid_rank s', pr_rank_pid := pr_rank_pid s'\<rparr>"
  using assms unfolding rebuilt_def by blast+

lemma rebuild_run:
  assumes g: "groups_ok api mem me" and ok: "procs_ok mem s"
  shows "\<exists>s'. rebuild_proc_groups api s = (Inr (), s') \<and> rebuilt mem s s'"
proof -
  let ?P = "mem (pr_procs s)" and ?W = "set (mem (pr_world s))" and ?R = "pr_rank_pid s" and ?alive = "in_world mem s" and ?sps = "spare_pids mem s"
  let ?xs = "filter (\<lambda>x. x \<in> ?W) (mem (pr_spare s))"
  note sp = spare_pids_facts [OF g ok]
  have t: "tables_ok ?R (pr_pid_rank s)" and lenQ: "length (pr_pid_rank s) = length ?P" using ok by (simp_all add: procs_ok_def)
  have sub: "set (mem (pr_user s)) \<subseteq> set ?P" "set (mem (pr_spare s)) \<subseteq> set ?P" using ok unfolding procs_ok_def by blast+
  obtain d where d: "group_difference api (pr_procs s) (pr_world s) = Inr d" "mem d = filter (\<lambda>x. x \<notin> ?W) ?P" by (rule difference_run [OF g])
  obtain sp1 where sp1: "group_difference api (pr_spare s) d = Inr sp1" "mem sp1 = filter (\<lambda>x. x \<notin> set (mem d)) (mem (pr_spare s))"
    by (rule difference_run [OF g])
  obtain both where both: "group_intersection api (pr_user s) d = Inr both" "mem both = filter (\<lambda>x. x \<in> set (mem d)) (mem (pr_user s))"
    by (rule intersection_run [OF g])
  have sp1': "mem sp1 = ?xs" unfolding sp1(2) d(2) using sub(2) by (intro filter_cong) auto
  have both': "mem both = filter (\<lambda>x. x \<notin> ?W) (mem (pr_user s))" unfolding both(2) d(2) using sub(1) by (intro filter_cong) auto
  let ?s = "s\<lparr>pr_dead := d, pr_spare := sp1\<rparr>"
  have "\<exists>Q. andThen (replace_all api 0 (take (min (length (dead_ranks ?alive ?R)) (length ?sps)) (map (\<lambda>r. Some (place_of ?R r)) (dead_ranks ?alive ?R))) (map Some (live ?R)))
      (\<lambda>pids. andThen (shrink_all (rev (drop (min (length (dead_ranks ?alive ?R)) (length ?sps)) (map (\<lambda>r. Some (place_of ?R r)) (dead_ranks ?alive ?R)))) pids) (set_user api)) ?s
    = set_user api (map Some (live (replaced mem s))) (?s\<lparr>pr_rank_pid := replaced mem s, pr_pid_rank := Q\<rparr>) \<and>
      tables_ok (replaced mem s) Q \<and> length Q = length (pr_pid_rank s)"
    using loops_run [OF g, of ?s ?sps ?alive "set_user api"] t sp lenQ sp1' unfolding replaced_def by simp
  then obtain Q where loops: "andThen (replace_all api 0 (take (min (length (dead_ranks ?alive ?R)) (length ?sps)) (map (\<lambda>r. Some (place_of ?R r)) (dead_ranks ?alive ?R))) (map Some (live ?R)))
      (\<lambda>pids. andThen (shrink_all (rev (drop (min (length (dead_ranks ?alive ?R)) (length ?sps)) (map (\<lambda>r. Some (place_of ?R r)) (dead_ranks ?alive ?R)))) pids) (set_user api)) ?s
    = set_user api (map Some (live (replaced mem s))) (?s\<lparr>pr_rank_pid := replaced mem s, pr_pid_rank := Q\<rparr>)"
    and Q: "tables_ok (replaced mem s) Q" "length Q = length (pr_pid_rank s)" by blast
  have n: "group_size api sp1 = Inr (length ?sps)"
    using group_size_run [OF g, of sp1] by (simp add: sp1' spare_pids_def)
  have find: "find_dead api s = (Inr (), ?s)" by (simp add: find_dead_def comp d sp1)
  have du: "translate_all api both (pr_user s) = Inr (map (\<lambda>r. Some (place_of ?R r)) (dead_ranks ?alive ?R))" by (rule dead_user_run [OF g ok both'])
  have run: "rebuild_proc_groups api s = set_user api (map Some (live (replaced mem s))) (?s\<lparr>pr_rank_pid := replaced mem s, pr_pid_rank := Q\<rparr>)"
    unfolding loops [symmetric] rebuild_proc_groups_def andThen_Inr [of "find_dead api", OF find] andThen_getS
    by (simp add: liftE_Inr both(1) du user_pids_run [OF g ok] n Let_def)
  have L: "distinct (live (replaced mem s))" "\<forall>p \<in> set (live (replaced mem s)). p < length (mem (pr_procs s))"
    using Q live_bound [OF Q(1)] lenQ by (simp_all add: tables_ok_def)
  obtain u where u: "group_incl api (pr_procs s) (live (replaced mem s)) = Inr u" "mem u = map ((!) ?P) (live (replaced mem s))"
    by (rule incl_run [OF g L])
  obtain sp2 where sp2: "group_difference api sp1 u = Inr sp2" "mem sp2 = filter (\<lambda>x. x \<notin> set (mem u)) (mem sp1)"
    by (rule difference_run [OF g])
  let ?k = "length (dead_ranks ?alive ?R)"
  have "set (mem u) = (!) ?P ` {p \<in> set (live ?R). ?alive p} \<union> set (take ?k ?xs)"
    unfolding u(2) list.set_map replaced_def live_reassign image_Un sp(2) [symmetric] take_map ..
  moreover have "(!) ?P ` set (live ?R) \<inter> set ?xs = {}" using procs_okD(1,5) [OF ok] by auto
  ultimately have "filter (\<lambda>x. x \<notin> set (mem u)) ?xs = filter (\<lambda>x. x \<notin> set (take ?k ?xs)) ?xs"
    by (intro filter_cong refl) blast
  then have rest: "mem sp2 = drop ?k ?xs" unfolding sp2(2) sp1' by (rule trans) (rule filter_rest, simp add: group_distinct [OF g])
  have "set_user api (map Some (live (replaced mem s))) (?s\<lparr>pr_rank_pid := replaced mem s, pr_pid_rank := Q\<rparr>)
      = (Inr (), ?s\<lparr>pr_rank_pid := replaced mem s, pr_pid_rank := Q, pr_user := u, pr_spare := sp2\<rparr>)"
    by (simp add: set_user_def comp those_some u(1) sp2(1))
  then show ?thesis
    unfolding run by (intro exI conjI, assumption) (simp add: rebuilt_def u(2) rest d(2) Q)
qed

text \<open>The dead stay dead: a process outside of a world is in no later one.\<close>

lemma rebuilt_ok:
  assumes g: "groups_ok api mem me" and ok: "procs_ok mem s" and dead: "set (mem (pr_dead s)) \<inter> set (mem (pr_world s)) = {}"
    and r: "rebuilt mem s s'"
  shows "procs_ok mem s'" "pr_procs s' = pr_procs s" "pr_world s' = pr_world s" "set (mem (pr_user s') ) \<subseteq> set (mem (pr_world s))"
    "set (mem (pr_dead s')) \<inter> set (mem (pr_world s)) = {}"
proof -
  let ?P = "mem (pr_procs s)" and ?W = "set (mem (pr_world s))" and ?xs = "filter (\<lambda>x. x \<in> set (mem (pr_world s))) (mem (pr_spare s))"
  let ?k = "length (dead_ranks (in_world mem s) (pr_rank_pid s))"
  note d = procs_okD [OF ok] and sp = spare_pids_facts [OF g ok]
  note R = rebuiltD [OF r]
  have s': "pr_procs s' = pr_procs s" "pr_world s' = pr_world s"
    using arg_cong [OF R(7), of pr_procs] arg_cong [OF R(7), of pr_world] by simp_all
  show "pr_procs s' = pr_procs s" "pr_world s' = pr_world s" by fact+
  have alive_users: "(!) ?P ` {p \<in> set (live (pr_rank_pid s)). in_world mem s p} = set (mem (pr_user s)) \<inter> ?W"
    unfolding d(1) [symmetric] by (auto simp: in_world_def)
  have "set (mem (pr_user s')) = (!) ?P ` (set (live (replaced mem s)))" by (simp add: R(2))
  also have "\<dots> = set (mem (pr_user s)) \<inter> ?W \<union> set (take ?k ?xs)"
    unfolding replaced_def live_reassign image_Un alive_users sp(2) [symmetric] take_map by simp
  finally have U: "set (mem (pr_user s')) = set (mem (pr_user s)) \<inter> ?W \<union> set (take ?k ?xs)" .
  have split: "set (take ?k ?xs) \<union> set (drop ?k ?xs) = set (mem (pr_spare s)) \<inter> ?W"
    unfolding set_append [symmetric] append_take_drop_id by auto
  have disj: "set (take ?k ?xs) \<inter> set (drop ?k ?xs) = {}" by (simp add: set_take_disj_set_drop_if_distinct group_distinct [OF g])
  have cover: "set ?P = set (mem (pr_user s)) \<union> set (mem (pr_spare s)) \<union> set (mem (pr_dead s))" using ok unfolding procs_ok_def by blast
  have "set ?P = set (mem (pr_user s')) \<union> set (mem (pr_spare s')) \<union> set (mem (pr_dead s'))"
    unfolding U R(3,4) using split cover dead d(2,3) by auto
  moreover have "set (mem (pr_user s')) \<inter> set (mem (pr_spare s')) = {}"
    unfolding U R(3) using split disj d(5) by auto
  moreover have "set (mem (pr_dead s')) \<inter> (set (mem (pr_user s')) \<union> set (mem (pr_spare s'))) = {}"
    unfolding U R(3,4) using split by auto
  ultimately show "procs_ok mem s'" using R(1,2,5,6) ok by (simp add: procs_ok_def s')
  show "set (mem (pr_user s')) \<subseteq> ?W" unfolding U using split by auto
  show "set (mem (pr_dead s')) \<inter> ?W = {}" unfolding R(4) by auto
qed

end
