(* ===== verification/Process_Run.thy ===== *)
theory Process_Run
  imports Process_Facts
begin

text \<open>
  A whole recovery: the attempts until the communicators are rebuilt, what a recovery changes in the
  table of ranks, and the states that a run of the program reaches.
\<close>

section \<open>Consistent states\<close>

definition consistent :: "('g \<Rightarrow> nat list) \<Rightarrow> 'g procs \<Rightarrow> bool" where
  "consistent mem s \<longleftrightarrow> procs_ok mem s \<and> set (mem (pr_dead s)) \<inter> set (mem (pr_world s)) = {} \<and>
     set (mem (pr_world s)) \<subseteq> set (mem (pr_procs s))"

text \<open>
  What a recovery may do to the ranks: a rank whose process is alive keeps it, a new process of a
  rank was a spare, and a rank without a process never gets one again.
\<close>

definition evolved :: "('g \<Rightarrow> nat list) \<Rightarrow> 'g procs \<Rightarrow> 'g procs \<Rightarrow> bool" where
  "evolved mem s s' \<longleftrightarrow>
     pr_procs s' = pr_procs s \<and> pr_final s' = pr_final s \<and> length (pr_rank_pid s') = length (pr_rank_pid s) \<and>
     set (mem (pr_world s')) \<subseteq> set (mem (pr_world s)) \<and> set (mem (pr_spare s')) \<subseteq> set (mem (pr_spare s)) \<and>
     (\<forall>r < length (pr_rank_pid s). \<forall>p. pr_rank_pid s ! r = Some p \<longrightarrow> in_world mem s' p \<longrightarrow> pr_rank_pid s' ! r = Some p) \<and>
     (\<forall>r < length (pr_rank_pid s). \<forall>q. pr_rank_pid s' ! r = Some q \<longrightarrow> pr_rank_pid s ! r \<noteq> None \<and>
       (pr_rank_pid s ! r = Some q \<or> mem (pr_procs s) ! q \<in> set (mem (pr_spare s))))"

lemma evolved_trans:
  assumes a: "evolved mem s t" and b: "evolved mem t u"
  shows "evolved mem s u"
proof -
  have same: "pr_procs t = pr_procs s" "pr_procs u = pr_procs s" "length (pr_rank_pid t) = length (pr_rank_pid s)"
      "length (pr_rank_pid u) = length (pr_rank_pid s)" "set (mem (pr_world u)) \<subseteq> set (mem (pr_world t))" "set (mem (pr_spare t)) \<subseteq> set (mem (pr_spare s))"
    using a b by (simp_all add: evolved_def)
  have "pr_rank_pid u ! r = Some p" if "r < length (pr_rank_pid s)" "pr_rank_pid s ! r = Some p" "in_world mem u p" for r p
  proof -
    have "in_world mem t p" using that(3) same by (auto simp: in_world_def)
    then have "pr_rank_pid t ! r = Some p" using a that by (simp add: evolved_def)
    then show ?thesis using b that same by (simp add: evolved_def)
  qed
  moreover have "pr_rank_pid s ! r \<noteq> None \<and> (pr_rank_pid s ! r = Some q \<or> mem (pr_procs s) ! q \<in> set (mem (pr_spare s)))"
    if "r < length (pr_rank_pid s)" "pr_rank_pid u ! r = Some q" for r q
  proof -
    have "pr_rank_pid t ! r \<noteq> None \<and> (pr_rank_pid t ! r = Some q \<or> mem (pr_procs s) ! q \<in> set (mem (pr_spare t)))"
      using b that same by (simp add: evolved_def)
    then show ?thesis using a that(1) same(6) unfolding evolved_def by blast
  qed
  ultimately show ?thesis using a b same by (auto simp: evolved_def)
qed

lemma rebuilt_evolved:
  assumes g: "groups_ok api mem me" and ok: "procs_ok mem s" and r: "rebuilt mem s s'"
  shows "evolved mem s s'"
proof -
  note R = rebuiltD [OF r] and sp = spare_pids_facts [OF g ok]
  have same: "pr_procs s' = pr_procs s" "pr_world s' = pr_world s" "pr_final s' = pr_final s"
    using arg_cong [OF R(7), of pr_procs] arg_cong [OF R(7), of pr_world] arg_cong [OF R(7), of pr_final] by simp_all
  let ?R = "pr_rank_pid s" and ?sps = "spare_pids mem s"
  have "mem (pr_procs s) ! q \<in> set (mem (pr_spare s))" if "q \<in> set ?sps" for q
  proof -
    have "mem (pr_procs s) ! q \<in> set (map ((!) (mem (pr_procs s))) ?sps)" using that by simp
    then show ?thesis unfolding sp(2) by simp
  qed
  then have new: "?R ! i \<noteq> None \<and> (?R ! i = Some q \<or> mem (pr_procs s) ! q \<in> set (mem (pr_spare s)))"
    if "i < length ?R" "replaced mem s ! i = Some q" for i q
    using that unfolding replaced_def by (auto simp: reassign_nth is_dead_def Let_def split: if_splits option.splits)
  have kept: "replaced mem s ! i = Some p" if "i < length ?R" "?R ! i = Some p" "in_world mem s' p" for i p
    using that same by (simp add: replaced_def reassign_nth is_dead_def in_world_def)
  have "set (mem (pr_spare s')) \<subseteq> set (mem (pr_spare s))" unfolding R(3) by (auto dest!: in_set_dropD)
  then show ?thesis using new kept by (simp add: evolved_def same R(1)) (simp add: replaced_def)
qed

section \<open>Rebuilding the communicators\<close>

text \<open>
  What MPI documents of an agreement: it is 1 only if every process, this one too, has given 1.
  A communicator that is shrunk again has no more processes than before, and the calling one.
\<close>

definition agrees :: "attempt \<Rightarrow> bool" where
  "agrees a \<longleftrightarrow> at_agreed a 0 \<noteq> 1 \<and> at_agreed2 a 0 \<noteq> 1"

fun shrinking :: "('g \<Rightarrow> nat list) \<Rightarrow> nat \<Rightarrow> 'g \<Rightarrow> ('g \<times> attempt) list \<Rightarrow> bool" where
  "shrinking mem me w0 [] \<longleftrightarrow> True"
| "shrinking mem me w0 ((w, a) # tries) \<longleftrightarrow> set (mem w) \<subseteq> set (mem w0) \<and> me \<in> set (mem w) \<and> agrees a \<and> shrinking mem me w tries"

text \<open>An attempt succeeds when MPI makes the communicators and every process says so.\<close>

definition succeeds :: "attempt \<Rightarrow> bool" where
  "succeeds a \<longleftrightarrow> at_created a \<and> at_dupped a \<and> at_agreed a 1 = 1 \<and> at_agreed2 a 1 = 1"

lemma is_spare_run: "groups_ok api mem me \<Longrightarrow> is_spare api s = (Inr (me \<in> set (mem (pr_spare s))), s)"
  by (simp add: is_spare_def comp group_rank_run rank_in_def)

text \<open>A successful build leaves this process as a spare or with a communicator of the user processes.\<close>

lemma try_build_run:
  assumes g: "groups_ok api mem me" and a: "agrees a"
  shows "\<exists>c nw uw. try_build api a s = (Inr c, s\<lparr>pr_new_world := nw, pr_user_world := uw\<rparr>) \<and>
    (c = FENIX_SUCCESS \<longrightarrow> me \<in> set (mem (pr_spare s)) \<or> uw = Some (pr_user s)) \<and>
    (succeeds a \<longrightarrow> me \<in> set (mem (pr_spare s)) \<union> set (mem (pr_user s)) \<longrightarrow> c = FENIX_SUCCESS)"
proof -
  let ?spare = "me \<in> set (mem (pr_spare s))" and ?user = "me \<in> set (mem (pr_user s))"
  define nw where "nw = (if at_created a \<and> ?user then Some (pr_user s) else None)"
  let ?s = "s\<lparr>pr_new_world := nw\<rparr>"
  have create: "create_world api a s = (Inr (), ?s)"
    by (simp add: create_world_def comp group_rank_run [OF g] nw_def rank_in_def)
  have run: "try_build api a s = (if at_agreed a (flag_of (?spare \<or> nw \<noteq> None)) \<noteq> 1 then ret FENIX_ERROR_CANCELLED
     else andThen (if ?spare then ret () else dup_world a) (\<lambda>_. andThen getS (\<lambda>s.
       if at_agreed2 a (flag_of (?spare \<or> pr_user_world s \<noteq> None)) \<noteq> 1 then ret FENIX_ERROR_CANCELLED
       else ret FENIX_SUCCESS))) ?s"
    using is_spare_run [OF g, of ?s] by (simp add: try_build_def andThen_Inr [of "create_world api a", OF create] andThen_Inr [of "is_spare api"] andThen_getS)
  consider (no) "at_agreed a (flag_of (?spare \<or> nw \<noteq> None)) \<noteq> 1" | (sp) "at_agreed a (flag_of (?spare \<or> nw \<noteq> None)) = 1" ?spare
    | (new) "at_agreed a (flag_of (?spare \<or> nw \<noteq> None)) = 1" "\<not> ?spare" "nw = Some (pr_user s)" "at_created a"
    using a by (cases ?spare; cases "at_created a \<and> ?user") (auto simp: agrees_def flag_of_def nw_def)
  then show ?thesis
  proof cases
    case no
    then have "try_build api a s = (Inr FENIX_ERROR_CANCELLED, s\<lparr>pr_new_world := nw, pr_user_world := pr_user_world s\<rparr>)" by (simp add: run comp)
    moreover have "\<not> (succeeds a \<and> (?spare \<or> ?user))" using no by (auto simp: succeeds_def flag_of_def nw_def split: if_splits)
    ultimately show ?thesis by (intro exI [of _ FENIX_ERROR_CANCELLED] exI [of _ nw] exI [of _ "pr_user_world s"]) simp
  next
    case sp
    then have "try_build api a s = (Inr (if at_agreed2 a 1 = 1 then FENIX_SUCCESS else FENIX_ERROR_CANCELLED), s\<lparr>pr_new_world := nw, pr_user_world := pr_user_world s\<rparr>)"
      by (simp add: run comp flag_of_def)
    then show ?thesis using sp by (intro exI [of _ "if at_agreed2 a 1 = 1 then FENIX_SUCCESS else FENIX_ERROR_CANCELLED"] exI [of _ nw] exI [of _ "pr_user_world s"])
      (simp add: succeeds_def)
  next
    case new
    let ?uw = "if at_dupped a then Some (pr_user s) else None"
    have "try_build api a s = (Inr (if at_agreed2 a (flag_of (at_dupped a)) = 1 then FENIX_SUCCESS else FENIX_ERROR_CANCELLED),
        s\<lparr>pr_new_world := nw, pr_user_world := ?uw\<rparr>)"
      using new by (simp add: run comp dup_world_def)
    then show ?thesis using new(2-4) a
      by (intro exI [of _ "if at_agreed2 a (flag_of (at_dupped a)) = 1 then FENIX_SUCCESS else FENIX_ERROR_CANCELLED"] exI [of _ nw] exI [of _ ?uw])
        (auto simp: succeeds_def agrees_def flag_of_def)
  qed
qed

definition built :: "('g \<Rightarrow> nat list) \<Rightarrow> nat \<Rightarrow> 'g procs \<Rightarrow> bool" where
  "built mem me s \<longleftrightarrow> me \<in> set (mem (pr_spare s)) \<or> pr_user_world s = Some (pr_user s)"

lemma consistent_update:
  assumes "consistent mem s" "set (mem w) \<subseteq> set (mem (pr_world s))"
  shows "consistent mem (s\<lparr>pr_world := w\<rparr>)" "consistent mem (s\<lparr>pr_new_world := nw, pr_user_world := uw\<rparr>)"
proof -
  have "procs_ok mem (s\<lparr>pr_world := w\<rparr>) = procs_ok mem s" "procs_ok mem (s\<lparr>pr_new_world := nw, pr_user_world := uw\<rparr>) = procs_ok mem s"
    by (simp_all add: procs_ok_def)
  then show "consistent mem (s\<lparr>pr_world := w\<rparr>)" "consistent mem (s\<lparr>pr_new_world := nw, pr_user_world := uw\<rparr>)"
    using assms unfolding consistent_def by auto
qed

text \<open>One attempt on a world \<open>w\<close>.\<close>

lemma attempt_run:
  assumes g: "groups_ok api mem me" and ok: "consistent mem s" and w: "set (mem w) \<subseteq> set (mem (pr_world s))" "me \<in> set (mem w)" and a: "agrees a"
  shows "\<exists>c s'. andThen (rebuild_proc_groups api) (\<lambda>_. try_build api a) (s\<lparr>pr_world := w\<rparr>) = (Inr c, s') \<and>
    consistent mem s' \<and> evolved mem s s' \<and> pr_world s' = w \<and> set (mem (pr_user s')) \<subseteq> set (mem w) \<and>
    pr_rank_pid s' = replaced mem (s\<lparr>pr_world := w\<rparr>) \<and> (c = FENIX_SUCCESS \<longrightarrow> built mem me s') \<and> (succeeds a \<longrightarrow> c = FENIX_SUCCESS)"
proof -
  let ?s = "s\<lparr>pr_world := w\<rparr>"
  have con: "consistent mem ?s" by (rule consistent_update [OF ok w(1)])
  then have okp: "procs_ok mem ?s" and dead: "set (mem (pr_dead ?s)) \<inter> set (mem (pr_world ?s)) = {}" by (simp_all add: consistent_def)
  obtain t where t: "rebuild_proc_groups api ?s = (Inr (), t)" "rebuilt mem ?s t" using rebuild_run [OF g okp] by blast
  note ok' = rebuilt_ok [OF g okp dead t(2)]
  have ev: "evolved mem s t" using rebuilt_evolved [OF g okp t(2)] w(1) by (auto simp: evolved_def)
  have wt: "pr_world t = w" using ok'(3) by simp
  have ct: "consistent mem t" using ok'(1,2,5) con by (simp add: consistent_def wt)
  have "me \<in> set (mem (pr_procs t))" using ct w(2) wt by (auto simp: consistent_def)
  then have "me \<in> set (mem (pr_spare t)) \<union> set (mem (pr_user t))" using ct w(2) wt unfolding consistent_def procs_ok_def by blast
  then obtain c nw uw where b: "try_build api a t = (Inr c, t\<lparr>pr_new_world := nw, pr_user_world := uw\<rparr>)"
      "c = FENIX_SUCCESS \<longrightarrow> me \<in> set (mem (pr_spare t)) \<or> uw = Some (pr_user t)" "succeeds a \<longrightarrow> c = FENIX_SUCCESS"
    using try_build_run [OF g a, of t] by blast
  let ?t = "t\<lparr>pr_new_world := nw, pr_user_world := uw\<rparr>"
  have "andThen (rebuild_proc_groups api) (\<lambda>_. try_build api a) ?s = (Inr c, ?t)" by (simp add: comp t(1) b(1))
  moreover have "consistent mem ?t" by (rule consistent_update(2) [OF ct subset_refl])
  moreover have "evolved mem s ?t" using ev by (simp add: evolved_def in_world_def)
  ultimately show ?thesis using wt ok'(4) b(2,3) rebuiltD(1) [OF t(2)] by (intro exI [of _ c] exI [of _ ?t]) (simp add: built_def)
qed

text \<open>The loop ends with the first attempt that succeeds, and there never is an error.\<close>

lemma rebuild_until_run:
  assumes g: "groups_ok api mem me" and ok: "consistent mem s" and tries: "shrinking mem me (pr_world s) tries"
  shows "rebuild_until api tries s = None \<and> \<not> (\<exists>(w, a) \<in> set tries. succeeds a) \<or>
    (\<exists>s'. rebuild_until api tries s = Some (Inr (), s') \<and> consistent mem s' \<and> evolved mem s s' \<and> built mem me s' \<and>
      me \<in> set (mem (pr_world s')) \<and> pr_world s' \<in> fst ` set tries \<and> set (mem (pr_user s')) \<subseteq> set (mem (pr_world s')))"
  using ok tries
proof (induction tries arbitrary: s)
  case (Cons t tries)
  obtain w a where t: "t = (w, a)" by (cases t)
  have w: "set (mem w) \<subseteq> set (mem (pr_world s))" "me \<in> set (mem w)" "agrees a" "shrinking mem me w tries" using Cons.prems(2) by (simp_all add: t)
  obtain c s1 where one: "andThen (rebuild_proc_groups api) (\<lambda>_. try_build api a) (s\<lparr>pr_world := w\<rparr>) = (Inr c, s1)"
    and s1: "consistent mem s1" "evolved mem s s1" "pr_world s1 = w" "set (mem (pr_user s1)) \<subseteq> set (mem w)"
    and c: "c = FENIX_SUCCESS \<longrightarrow> built mem me s1" "succeeds a \<longrightarrow> c = FENIX_SUCCESS"
    using attempt_run [OF g Cons.prems(1) w(1-3)] by blast
  show ?case
  proof (cases "c = FENIX_SUCCESS")
    case True
    then have "rebuild_until api (t # tries) s = Some (Inr (), s1)" by (simp add: t one)
    then show ?thesis using s1 c True w(2) by (simp add: t)
  next
    case False
    then have more: "rebuild_until api (t # tries) s = rebuild_until api tries s1" and no: "\<not> succeeds a" using c(2) by (simp_all add: t one)
    have "shrinking mem me (pr_world s1) tries" using w(4) s1(3) by simp
    from Cons.IH [OF s1(1) this] show ?thesis
    proof (elim disjE exE conjE)
      fix s'
      assume "evolved mem s1 s'" and rest: "rebuild_until api tries s1 = Some (Inr (), s')" "consistent mem s'" "built mem me s'"
        "me \<in> set (mem (pr_world s'))" "pr_world s' \<in> fst ` set tries" "set (mem (pr_user s')) \<subseteq> set (mem (pr_world s'))"
      then have "evolved mem s s'" using evolved_trans [OF s1(2)] by blast
      then show ?thesis using rest unfolding more by auto
    qed (use more no t in auto)
  qed
qed simp

end
