(* ===== verification/Process_Roles.thy ===== *)
theory Process_Roles
  imports Process_Run
begin

text \<open>
  The roles that processes have after a recovery, the result of \<open>__fenix_repair_ranks\<close> as a whole,
  the states that a run reaches, and the wait of the spares.
\<close>

section \<open>Roles\<close>

text \<open>The role of a process, given the user processes before the recovery.\<close>

definition role_in :: "('g \<Rightarrow> nat list) \<Rightarrow> nat list \<Rightarrow> 'g procs \<Rightarrow> nat \<Rightarrow> rank_role" where
  "role_in mem old s x =
     (if x \<in> set (mem (pr_dead s)) then FailedRank
      else if x \<in> set (mem (pr_spare s)) then SpareRank
      else if x \<in> set old then SurvivorRank else RecoveredRank)"

definition recovered :: "('g \<Rightarrow> nat list) \<Rightarrow> nat \<Rightarrow> nat list \<Rightarrow> 'g procs \<Rightarrow> bool" where
  "recovered mem me old s \<longleftrightarrow>
     (\<exists>f. pr_fail s = Some f \<and> mem f = filter (\<lambda>x. x \<notin> set (mem (pr_user s))) old) \<and>
     pr_fail_ranks s = map Some (filter (\<lambda>r. old ! r \<notin> set (mem (pr_user s))) [0..<length old]) \<and>
     (\<exists>r. pr_recovered s = Some r \<and> mem r = filter (\<lambda>x. x \<notin> set old) (mem (pr_user s))) \<and>
     (\<exists>v. pr_survivor s = Some v \<and> mem v = filter (\<lambda>x. x \<in> set old) (mem (pr_user s))) \<and>
     pr_role s = role_in mem old s me"

lemma recovered_groups_run:
  assumes g: "groups_ok api mem me"
  shows "\<exists>f r v. recovered_groups api old s = (Inr (), s\<lparr>pr_fail := Some f,
      pr_fail_ranks := map Some (filter (\<lambda>r. mem old ! r \<notin> set (mem (pr_user s))) [0..<length (mem old)]),
      pr_recovered := Some r, pr_survivor := Some v\<rparr>) \<and>
    mem f = filter (\<lambda>x. x \<notin> set (mem (pr_user s))) (mem old) \<and> mem r = filter (\<lambda>x. x \<notin> set (mem old)) (mem (pr_user s)) \<and>
    mem v = filter (\<lambda>x. x \<in> set (mem old)) (mem (pr_user s))"
proof -
  obtain f where f: "group_difference api old (pr_user s) = Inr f" "mem f = filter (\<lambda>x. x \<notin> set (mem (pr_user s))) (mem old)"
    by (rule difference_run [OF g])
  obtain r where r: "group_difference api (pr_user s) old = Inr r" "mem r = filter (\<lambda>x. x \<notin> set (mem old)) (mem (pr_user s))"
    by (rule difference_run [OF g])
  obtain v where v: "group_difference api (pr_user s) r = Inr v" "mem v = filter (\<lambda>x. x \<notin> set (mem r)) (mem (pr_user s))"
    by (rule difference_run [OF g])
  have "mem v = filter (\<lambda>x. x \<in> set (mem old)) (mem (pr_user s))" unfolding v(2) r(2) by (intro filter_cong) auto
  moreover have "translate_all api f old = Inr (map Some (filter (\<lambda>r. mem old ! r \<notin> set (mem (pr_user s))) [0..<length (mem old)]))"
    unfolding translate_all_run [OF g] f(2) by (simp add: ranks_of_filter [OF group_distinct [OF g]])
  ultimately show ?thesis using f r v(1)
    by (intro exI [of _ f] exI [of _ r] exI [of _ v]) (simp add: recovered_groups_def comp)
qed

lemma rank_in_opt_run: "groups_ok api mem me \<Longrightarrow> rank_in_opt api (Some g) = Inr (rank_in (mem g) me)"
  by (simp add: rank_in_opt_def group_rank_run)

lemma assign_role_run:
  assumes g: "groups_ok api mem me" and s: "pr_survivor s = Some v" "pr_recovered s = Some r"
    and me: "me \<in> set (mem (pr_spare s)) \<union> set (mem v) \<union> set (mem r)"
  shows "assign_role api s = (Inr (), s\<lparr>pr_role := if me \<in> set (mem (pr_spare s)) then SpareRank
    else if me \<in> set (mem v) then SurvivorRank else RecoveredRank\<rparr>)"
  using me by (auto simp: assign_role_def is_spare_run [OF g] comp s rank_in_opt_run [OF g] rank_in_def)

lemma finish_run:
  assumes g: "groups_ok api mem me" and ok: "consistent mem s" and me: "me \<in> set (mem (pr_world s))"
  shows "\<exists>s'. finish_repair api old s = (Inr (if length (live (pr_rank_pid s)) < length (pr_rank_pid s) then FENIX_WARNING_SPARE_RANKS_DEPLETED else FENIX_SUCCESS), s') \<and>
    consistent mem s' \<and> recovered mem me (mem old) s' \<and> pr_user_world s' = pr_user_world s \<and> pr_procs s' = pr_procs s \<and> pr_user s' = pr_user s \<and>
    pr_spare s' = pr_spare s \<and> pr_dead s' = pr_dead s \<and> pr_world s' = pr_world s \<and> pr_rank_pid s' = pr_rank_pid s \<and> pr_final s' = pr_final s"
proof -
  obtain f r v where run: "recovered_groups api old s = (Inr (), s\<lparr>pr_fail := Some f,
      pr_fail_ranks := map Some (filter (\<lambda>r. mem old ! r \<notin> set (mem (pr_user s))) [0..<length (mem old)]),
      pr_recovered := Some r, pr_survivor := Some v\<rparr>)" (is "_ = (_, ?s)")
    and m: "mem f = filter (\<lambda>x. x \<notin> set (mem (pr_user s))) (mem old)" "mem r = filter (\<lambda>x. x \<notin> set (mem old)) (mem (pr_user s))"
      "mem v = filter (\<lambda>x. x \<in> set (mem old)) (mem (pr_user s))"
    using recovered_groups_run [OF g, of old s] by blast
  have "set (mem (pr_world s)) \<subseteq> set (mem (pr_user s)) \<union> set (mem (pr_spare s))" and dead: "me \<notin> set (mem (pr_dead s))"
    using ok me unfolding consistent_def procs_ok_def by blast+
  then have "me \<in> set (mem (pr_spare s)) \<union> set (mem v) \<union> set (mem r)" using me by (auto simp: m)
  then have role: "assign_role api ?s = (Inr (), ?s\<lparr>pr_role := if me \<in> set (mem (pr_spare s)) then SpareRank
      else if me \<in> set (mem v) then SurvivorRank else RecoveredRank\<rparr>)" (is "_ = (_, ?t)")
    using assign_role_run [OF g, of ?s v r] by simp
  have n: "group_size api (pr_user s) = Inr (length (live (pr_rank_pid s)))"
    using ok by (simp add: group_size_run [OF g] consistent_def procs_ok_def)
  have "finish_repair api old s = (Inr (if length (live (pr_rank_pid s)) < length (pr_rank_pid s) then FENIX_WARNING_SPARE_RANKS_DEPLETED else FENIX_SUCCESS), ?t)"
    by (simp add: finish_repair_def andThen_getS n liftE_Inr andThen_Inr [of "recovered_groups api old", OF run] andThen_Inr [of "assign_role api", OF role] ret_run)
  moreover have "consistent mem ?t = consistent mem s" by (simp add: consistent_def procs_ok_def)
  then have "consistent mem ?t" using ok by simp
  moreover have "me \<notin> set (mem (pr_spare s)) \<Longrightarrow> me \<in> set (mem v) \<longleftrightarrow> me \<in> set (mem old)"
    using \<open>set (mem (pr_world s)) \<subseteq> _\<close> me by (auto simp: m)
  then have "recovered mem me (mem old) ?t"
    using dead by (simp add: recovered_def m role_in_def)
  ultimately show ?thesis by (intro exI [of _ ?t]) simp
qed

section \<open>A whole recovery\<close>

lemma group_dup_run:
  assumes "groups_ok api mem me"
  obtains h where "group_dup api (Some g) = Inr (Some h)" "mem h = mem g"
proof -
  obtain h where "group_difference api g (ga_empty api) = Inr h" "mem h = filter (\<lambda>p. p \<notin> set (mem (ga_empty api))) (mem g)"
    by (rule difference_run [OF assms])
  moreover have "mem (ga_empty api) = []" using assms by (simp add: groups_ok_def)
  ultimately show ?thesis using that by (simp add: group_dup_def)
qed

definition repaired :: "('g \<Rightarrow> nat list) \<Rightarrow> nat \<Rightarrow> 'g procs \<Rightarrow> fenix_code \<Rightarrow> 'g procs \<Rightarrow> bool" where
  "repaired mem me s c s' \<longleftrightarrow>
     consistent mem s' \<and> evolved mem s s' \<and> recovered mem me (mem (pr_user s)) s' \<and> built mem me s' \<and>
     me \<in> set (mem (pr_world s')) \<and> set (mem (pr_user s')) \<subseteq> set (mem (pr_world s')) \<and>
     c = (if length (live (pr_rank_pid s')) < length (pr_rank_pid s') then FENIX_WARNING_SPARE_RANKS_DEPLETED else FENIX_SUCCESS)"

lemma repair_run:
  assumes g: "groups_ok api mem me" and ok: "consistent mem s" and tries: "shrinking mem me (pr_world s) tries"
    and r: "recovery \<noteq> 1" "True \<in> set locs \<or> me \<in> set (mem (pr_spare s))"
  shows "repair_ranks api recovery locs tries s = None \<and> \<not> (\<exists>(w, a) \<in> set tries. succeeds a) \<or>
    (\<exists>c s'. repair_ranks api recovery locs tries s = Some (Inr c, s') \<and> repaired mem me s c s' \<and> pr_world s' \<in> fst ` set tries)"
proof -
  obtain old where old: "group_dup api (Some (pr_user s)) = Inr (Some old)" "mem old = mem (pr_user s)" by (rule group_dup_run [OF g])
  have run: "repair_ranks api recovery locs tries s = (case rebuild_until api tries s of
       None \<Rightarrow> None | Some (Inl e, s') \<Rightarrow> Some (Inl e, s') | Some (Inr _, s') \<Rightarrow> Some (finish_repair api old s'))"
    using r by (auto simp: repair_ranks_def is_spare_run [OF g] old(1) split: option.splits)
  from rebuild_until_run [OF g ok tries] show ?thesis
  proof (elim disjE exE conjE)
    fix t
    assume t: "rebuild_until api tries s = Some (Inr (), t)" "consistent mem t" "evolved mem s t" "built mem me t"
      "me \<in> set (mem (pr_world t))" "pr_world t \<in> fst ` set tries" "set (mem (pr_user t)) \<subseteq> set (mem (pr_world t))"
    obtain s' where s': "finish_repair api old t = (Inr (if length (live (pr_rank_pid t)) < length (pr_rank_pid t) then FENIX_WARNING_SPARE_RANKS_DEPLETED else FENIX_SUCCESS), s')"
      "consistent mem s'" "recovered mem me (mem old) s'" "pr_user_world s' = pr_user_world t" "pr_procs s' = pr_procs t" "pr_user s' = pr_user t"
      "pr_spare s' = pr_spare t" "pr_dead s' = pr_dead t" "pr_world s' = pr_world t" "pr_rank_pid s' = pr_rank_pid t" "pr_final s' = pr_final t"
      using finish_run [OF g t(2,5), of old] by blast
    have "evolved mem s s'" using t(3) s' by (simp add: evolved_def in_world_def)
    moreover have "built mem me s'" using t(4) s' by (simp add: built_def)
    ultimately show ?thesis using t s' run old(2) by (simp add: repaired_def)
  qed (simp add: run)
qed

section \<open>The role of any process\<close>

lemma translate_opt_run:
  "groups_ok api mem me \<Longrightarrow> r < length (mem g) \<Longrightarrow> translate_opt api g r (Some h) = Inr (rank_in (mem h) (mem g ! r))"
  by (simp add: translate_opt_def translate_rank_run)

lemma consistent_sets:
  assumes "consistent mem s"
  shows "x \<in> set (mem (pr_procs s)) \<Longrightarrow> x \<notin> set (mem (pr_dead s)) \<Longrightarrow> x \<notin> set (mem (pr_spare s)) \<Longrightarrow> x \<in> set (mem (pr_user s))"
    "x \<in> set (mem (pr_user s)) \<Longrightarrow> x \<in> set (mem (pr_procs s)) \<and> x \<notin> set (mem (pr_dead s)) \<and> x \<notin> set (mem (pr_spare s))"
    "x \<in> set (mem (pr_spare s)) \<Longrightarrow> x \<in> set (mem (pr_procs s)) \<and> x \<notin> set (mem (pr_dead s))"
    "x \<in> set (mem (pr_dead s)) \<Longrightarrow> x \<in> set (mem (pr_procs s))"
  using assms unfolding consistent_def procs_ok_def by blast+

lemma role_of_run:
  assumes g: "groups_ok api mem me" and ok: "consistent mem s" and rec: "recovered mem me old s"
    and r: "r < length (mem h)" "mem h ! r \<in> set (mem (pr_procs s))"
  shows "role_of api h r s = (Inr (role_in mem old s (mem h ! r)), s)"
proof -
  obtain rc v where s: "pr_recovered s = Some rc" "mem rc = filter (\<lambda>x. x \<notin> set old) (mem (pr_user s))"
      "pr_survivor s = Some v" "mem v = filter (\<lambda>x. x \<in> set old) (mem (pr_user s))" "pr_role s \<noteq> InitialRank"
    using rec by (auto simp: recovered_def role_in_def)
  note tr = translate_rank_run [OF g r(1)] translate_opt_run [OF g r(1)]
  have u: "mem h ! r \<notin> set (mem (pr_dead s)) \<Longrightarrow> mem h ! r \<notin> set (mem (pr_spare s)) \<Longrightarrow> mem h ! r \<in> set (mem (pr_user s))"
    using consistent_sets(1) [OF ok r(2)] .
  show ?thesis
    using u r(2) by (simp add: role_of_def comp tr s(1,3,5) rank_in_def role_in_def s(2,4))
qed

lemma same_length: "distinct xs \<Longrightarrow> distinct ys \<Longrightarrow> set xs = set ys \<Longrightarrow> length xs = length ys"
  using distinct_card [of xs] distinct_card [of ys] by simp

lemma roles_run:
  assumes g: "groups_ok api mem me" and ok: "consistent mem s" and rec: "recovered mem me old s" and role: "role \<noteq> InitialRank"
  shows "n_ranks_with_role api role s = Inr (length (filter (\<lambda>x. role_in mem old s x = role) (mem (pr_procs s))))"
proof -
  obtain rc v where s: "pr_recovered s = Some rc" "mem rc = filter (\<lambda>x. x \<notin> set old) (mem (pr_user s))"
      "pr_survivor s = Some v" "mem v = filter (\<lambda>x. x \<in> set old) (mem (pr_user s))"
    using rec by (auto simp: recovered_def)
  note c = consistent_sets [OF ok]
  define k where "k = (case role of SurvivorRank \<Rightarrow> v | RecoveredRank \<Rightarrow> rc | SpareRank \<Rightarrow> pr_spare s | _ \<Rightarrow> pr_dead s)"
  have "x \<in> set (mem k) \<longleftrightarrow> x \<in> set (mem (pr_procs s)) \<and> role_in mem old s x = role" for x
  proof -
    consider "x \<notin> set (mem (pr_procs s))" "x \<notin> set (mem (pr_dead s))" "x \<notin> set (mem (pr_spare s))" "x \<notin> set (mem (pr_user s))"
      | "x \<in> set (mem (pr_procs s))" "x \<in> set (mem (pr_dead s))" "x \<notin> set (mem (pr_spare s))" "x \<notin> set (mem (pr_user s))"
      | "x \<in> set (mem (pr_procs s))" "x \<notin> set (mem (pr_dead s))" "x \<in> set (mem (pr_spare s))" "x \<notin> set (mem (pr_user s))"
      | "x \<in> set (mem (pr_procs s))" "x \<notin> set (mem (pr_dead s))" "x \<notin> set (mem (pr_spare s))" "x \<in> set (mem (pr_user s))"
      using c by blast
    then show ?thesis using role by cases (cases role; simp add: k_def role_in_def s(2,4))+
  qed
  then have "set (mem k) = {x \<in> set (mem (pr_procs s)). role_in mem old s x = role}" by auto
  then have "length (mem k) = length (filter (\<lambda>x. role_in mem old s x = role) (mem (pr_procs s)))"
    by (intro same_length) (simp_all add: group_distinct [OF g])
  moreover have "n_ranks_with_role api role s = group_size api k"
    using role by (cases role) (simp_all add: n_ranks_with_role_def size_or_zero_def k_def s(1,3))
  ultimately show ?thesis by (simp add: group_size_run [OF g])
qed

section \<open>The start\<close>

lemma initial_run:
  assumes g: "groups_ok api mem me" and n: "0 \<le> spares" "spares < int (length (mem all))"
  shows "\<exists>s. initial_procs api all spares = Inr s \<and> consistent mem s \<and> pr_procs s = all \<and> pr_world s = all \<and>
    pr_rank_pid s = map Some [0..<length (mem all) - nat spares]"
proof -
  let ?P = "mem all"
  define m where "m = length (mem all) - nat spares"
  let ?n = m
  have na: "int (length ?P) - spares = int ?n" and n0: "0 < int ?n" "int ?n \<le> int (length ?P)" using n by (simp_all add: m_def)
  have "\<exists>k. ga_range_incl api all [(0, int ?n - 1, 1)] = Some k \<and> mem k = take (nat (int ?n)) ?P"
    using g n0 unfolding groups_ok_def by blast
  then obtain user where user: "group_range_incl api all [(0, int ?n - 1, 1)] = Inr user" "mem user = take ?n ?P"
    by (auto simp: group_range_incl_def or_intern_def)
  obtain spare where spare: "group_difference api all user = Inr spare" "mem spare = filter (\<lambda>x. x \<notin> set (mem user)) ?P"
    by (rule difference_run [OF g])
  define s where "s = \<lparr>pr_procs = all, pr_user = user, pr_spare = spare, pr_dead = ga_empty api,
    pr_pid_rank = map (\<lambda>i. if int i < int ?n then Some i else None) [0..<length ?P],
    pr_rank_pid = map Some [0..<?n], pr_fail = None, pr_recovered = None, pr_survivor = None, pr_fail_ranks = [],
    pr_world = all, pr_new_world = None, pr_user_world = None, pr_role = InitialRank, pr_result = FENIX_SUCCESS, pr_final = False\<rparr>"
  have "initial_procs api all spares = Inr s"
    using n n0 by (simp add: initial_procs_def group_size_run [OF g] na user(1) spare(1) Let_def s_def)
  moreover have "mem user = map ((!) ?P) (live (map Some [0..<?n]))"
    unfolding user(2) live_some using n0 by (intro nth_equalityI) simp_all
  moreover have "tables_ok (map Some [0..<?n]) (map (\<lambda>i. if int i < int ?n then Some i else None) [0..<length ?P])"
    using n0 by (auto simp: tables_ok_def live_some)
  moreover have "set (mem user) \<subseteq> set ?P" unfolding user(2) by (rule set_take_subset)
  moreover have "mem (ga_empty api) = []" using g by (simp add: groups_ok_def)
  ultimately show ?thesis
    by (intro exI [of _ s]) (auto simp: s_def consistent_def procs_ok_def spare(2) m_def simp del: list.set_map)
qed

lemma note_shrunk_run:
  assumes "groups_ok api mem me"
  shows "\<exists>c. note_shrunk api n s = (Inr (), s\<lparr>pr_result := c\<rparr>)"
  by (intro exI [of _ "if length (mem (pr_user s)) < n then FENIX_WARNING_SPARE_RANKS_DEPLETED else pr_result s"])
    (simp add: note_shrunk_def comp group_size_run [OF assms])

lemma consistent_note: "consistent mem (s\<lparr>pr_result := c\<rparr>) = consistent mem s"
  by (simp add: consistent_def procs_ok_def)

lemma init_run:
  assumes g: "groups_ok api mem me" and n: "0 \<le> spares" "spares < int (length (mem all))" and tries: "shrinking mem me all tries"
  shows "init_procs api all spares tries = None \<and> \<not> (\<exists>(w, a) \<in> set tries. succeeds a) \<or>
    (\<exists>s. init_procs api all spares tries = Some (Inr s) \<and> consistent mem s \<and> length (pr_rank_pid s) = length (mem all) - nat spares \<and> pr_procs s = all)"
proof -
  obtain s where s: "initial_procs api all spares = Inr s" "consistent mem s" "pr_procs s = all" "pr_world s = all"
      "pr_rank_pid s = map Some [0..<length (mem all) - nat spares]" using initial_run [OF g n] by blast
  have "shrinking mem me (pr_world s) tries" using tries s(4) by simp
  from rebuild_until_run [OF g s(2) this] show ?thesis
  proof (elim disjE exE conjE)
    fix t
    assume t: "rebuild_until api tries s = Some (Inr (), t)" "consistent mem t" "evolved mem s t"
    obtain c where "note_shrunk api (length (pr_rank_pid s)) t = (Inr (), t\<lparr>pr_result := c\<rparr>)" using note_shrunk_run [OF g] by blast
    then have "init_procs api all spares tries = Some (Inr (t\<lparr>pr_result := c\<rparr>))" by (simp add: init_procs_def s(1) t(1))
    moreover have "consistent mem (t\<lparr>pr_result := c\<rparr>)" using t(2) by (simp add: consistent_note)
    ultimately show ?thesis using t(3) s by (simp add: evolved_def)
  qed (simp add: init_procs_def s(1))
qed

section \<open>Reachable states\<close>

text \<open>The states after \<open>preinit\<close> and after any number of recoveries.\<close>

inductive reached :: "'g group_api \<Rightarrow> ('g \<Rightarrow> nat list) \<Rightarrow> nat \<Rightarrow> 'g \<Rightarrow> int \<Rightarrow> 'g procs \<Rightarrow> bool"
  for api mem me all spares where
  started: "init_procs api all spares tries = Some (Inr s) \<Longrightarrow> shrinking mem me all tries \<Longrightarrow> reached api mem me all spares s"
| repair: "reached api mem me all spares s \<Longrightarrow> repair_ranks api recovery locs tries s = Some (Inr c, s') \<Longrightarrow>
    shrinking mem me (pr_world s) tries \<Longrightarrow> reached api mem me all spares (s'\<lparr>pr_result := c\<rparr>)"

lemma repair_keeps:
  assumes g: "groups_ok api mem me" and ok: "consistent mem s" and tries: "shrinking mem me (pr_world s) tries"
    and r: "repair_ranks api recovery locs tries s = Some (Inr c, s')"
  shows "s' = s \<or> repaired mem me s c s' \<and> pr_world s' \<in> fst ` set tries"
proof (cases "recovery = 1")
  case False
  have "True \<in> set locs \<or> me \<in> set (mem (pr_spare s))"
    using r False by (auto simp: repair_ranks_def is_spare_run [OF g] split: if_splits)
  from repair_run [OF g ok tries False this] show ?thesis using r by auto
qed (use r in \<open>simp add: repair_ranks_def\<close>)

lemma reached_ok:
  assumes g: "groups_ok api mem me" and n: "0 \<le> spares" "spares < int (length (mem all))" and r: "reached api mem me all spares s"
  shows "consistent mem s \<and> pr_procs s = all \<and> length (pr_rank_pid s) = length (mem all) - nat spares"
  using r
proof (induction rule: reached.induct)
  case (started tries s)
  from init_run [OF g n started(2)] started(1) show ?case by auto
next
  case (repair s recovery locs tries c s')
  from repair_keeps [OF g _ repair(3,2)] repair.IH have "s' = s \<or> repaired mem me s c s'" by blast
  then show ?case using repair.IH by (auto simp: consistent_note repaired_def evolved_def)
qed

section \<open>Waiting as a spare\<close>

definition tries_of :: "'g spare_event \<Rightarrow> ('g \<times> attempt) list" where
  "tries_of ev = (case ev of Revoked tries \<Rightarrow> tries | _ \<Rightarrow> [])"

lemma tries_of_simps: "tries_of Message = []" "tries_of OtherError = []" "tries_of (Revoked tries) = tries"
  by (simp_all add: tries_of_def)

lemma shrinking_append: "shrinking mem me w (xs @ ys) \<Longrightarrow> shrinking mem me w xs"
  by (induction xs arbitrary: w) auto

lemma shrinking_mono: "shrinking mem me w ys \<Longrightarrow> set (mem w) \<subseteq> set (mem w') \<Longrightarrow> shrinking mem me w' ys"
  by (cases ys; fastforce)

lemma shrinking_rest:
  "shrinking mem me w (xs @ ys) \<Longrightarrow> w' = w \<or> w' \<in> fst ` set xs \<Longrightarrow> shrinking mem me w' ys"
proof (induction xs arbitrary: w w')
  case (Cons x xs)
  obtain v a where x: "x = (v, a)" by (cases x)
  have tail: "shrinking mem me v (xs @ ys)" and sub: "set (mem v) \<subseteq> set (mem w)" using Cons.prems(1) by (simp_all add: x)
  show ?case
  proof (cases "w' = w")
    case True
    have "shrinking mem me v ys" using Cons.IH [OF tail, of v] by simp
    then show ?thesis using shrinking_mono sub True by metis
  next
    case False
    then have "w' = v \<or> w' \<in> fst ` set xs" using Cons.prems(2) by (simp add: x)
    then show ?thesis by (rule Cons.IH [OF tail])
  qed
qed simp

lemma leaving:
  assumes ok: "consistent mem s" and me: "me \<in> set (mem (pr_world s))"
    and s': "s' = s \<and> pr_final s \<or> me \<notin> set (mem (pr_spare s)) \<and> s' = s\<lparr>pr_role := RecoveredRank\<rparr>"
  shows "pr_final s' \<or> consistent mem s' \<and> me \<in> set (mem (pr_user s')) \<and> pr_role s' = RecoveredRank"
proof -
  have "me \<in> set (mem (pr_procs s)) \<and> me \<notin> set (mem (pr_dead s))" using ok me unfolding consistent_def by blast
  moreover have "consistent mem (s\<lparr>pr_role := RecoveredRank\<rparr>) = consistent mem s" by (simp add: consistent_def procs_ok_def)
  ultimately show ?thesis using s' ok consistent_sets(1) [OF ok, of me] by auto
qed

lemma spare_loop_run:
  assumes g: "groups_ok api mem me"
  shows "consistent mem s \<Longrightarrow> me \<in> set (mem (pr_world s)) \<Longrightarrow> shrinking mem me (pr_world s) (concat (map tries_of evs)) \<Longrightarrow>
    spare_rank_loop api recovery evs s = Some (r, s') \<Longrightarrow>
    r = Inr () \<and> (pr_final s' \<or> consistent mem s' \<and> me \<in> set (mem (pr_user s')) \<and> pr_role s' = RecoveredRank)"
proof (induction evs arbitrary: s)
  case Nil
  then have "s' = s \<and> pr_final s \<or> me \<notin> set (mem (pr_spare s)) \<and> s' = s\<lparr>pr_role := RecoveredRank\<rparr>" "r = Inr ()"
    by (cases "me \<in> set (mem (pr_spare s))"; auto simp: spare_rank_loop.simps is_spare_run [OF g] split: if_splits)+
  then show ?case using leaving [OF Nil(1,2)] by blast
next
  case (Cons ev evs)
  show ?case
  proof (cases "pr_final s \<or> me \<notin> set (mem (pr_spare s))")
    case True
    then have "spare_rank_loop api recovery (ev # evs) s = Some (Inr (), if pr_final s then s else s\<lparr>pr_role := RecoveredRank\<rparr>)"
      by (auto simp: spare_rank_loop.simps [of _ _ "ev # evs"] is_spare_run [OF g])
    then have "r = Inr ()" "s' = (if pr_final s then s else s\<lparr>pr_role := RecoveredRank\<rparr>)" using Cons.prems(4) by simp_all
    then show ?thesis using leaving [OF Cons.prems(1,2), of s'] True by auto
  next
    case False
    then have loop: "Some (r, s') = (case spare_step api recovery ev s of None \<Rightarrow> None
        | Some (Inl e, s') \<Rightarrow> Some (Inl e, s') | Some (Inr _, s') \<Rightarrow> spare_rank_loop api recovery evs s')"
      using Cons.prems(4) by (simp add: spare_rank_loop.simps [of _ _ "ev # evs"] is_spare_run [OF g])
    show ?thesis
    proof (cases ev)
      case Message
      then have "spare_rank_loop api recovery evs (finalize_spare api s) = Some (r, s')" using loop by (simp add: spare_step_def)
      then show ?thesis by (auto simp: spare_rank_loop.simps finalize_spare_def)
    next
      case OtherError
      then have "spare_rank_loop api recovery evs s = Some (r, s')" using loop by (simp add: spare_step_def)
      moreover have "shrinking mem me (pr_world s) (concat (map tries_of evs))" using Cons.prems(3) OtherError by (simp add: tries_of_simps)
      ultimately show ?thesis using Cons.IH [OF Cons.prems(1,2)] by blast
    next
      case (Revoked tries)
      have all: "shrinking mem me (pr_world s) (tries @ concat (map tries_of evs))" using Cons.prems(3) Revoked by (simp add: tries_of_simps)
      have now: "shrinking mem me (pr_world s) tries" by (rule shrinking_append [OF all])
      have sp: "True \<in> set [] \<or> me \<in> set (mem (pr_spare s))" using False by simp
      obtain c t where t: "repair_ranks api recovery [] tries s = Some (Inr c, t)" "t = s \<or> repaired mem me s c t \<and> pr_world t \<in> fst ` set tries"
        using repair_run [OF g Cons.prems(1) now _ sp, of recovery] loop Revoked
        by (cases "recovery = 1") (auto simp: spare_step_def repair_ranks_def split: option.splits)
      have more: "spare_rank_loop api recovery evs (t\<lparr>pr_result := c\<rparr>) = Some (r, s')" using loop Revoked t(1) by (simp add: spare_step_def)
      have "consistent mem (t\<lparr>pr_result := c\<rparr>)" "me \<in> set (mem (pr_world (t\<lparr>pr_result := c\<rparr>)))"
        using t(2) Cons.prems(1,2) by (auto simp: consistent_note repaired_def)
      moreover have "shrinking mem me (pr_world (t\<lparr>pr_result := c\<rparr>)) (concat (map tries_of evs))"
        using t(2) shrinking_rest [OF all, of "pr_world t"] by auto
      ultimately show ?thesis using Cons.IH more by blast
    qed
  qed
qed

text \<open>The spare whose turn it is takes over the rank of a dead process, in one successful attempt.\<close>

lemma take_over_run:
  assumes g: "groups_ok api mem me" and ok: "consistent mem s" and s: "\<not> pr_final s" "recovery \<noteq> 1"
    and a: "shrinking mem me (pr_world s) [(w, a)]" "succeeds a"
    and i: "i < length (dead_ranks (in_world mem (s\<lparr>pr_world := w\<rparr>)) (pr_rank_pid s))" "i < length (spare_pids mem (s\<lparr>pr_world := w\<rparr>))"
      "mem (pr_procs s) ! (spare_pids mem (s\<lparr>pr_world := w\<rparr>) ! i) = me"
  shows "\<exists>s'. spare_rank_loop api recovery [Revoked [(w, a)]] s = Some (Inr (), s') \<and> \<not> pr_final s' \<and> pr_role s' = RecoveredRank \<and>
    pr_user_world s' = Some (pr_user s') \<and>
    pr_rank_pid s' ! (dead_ranks (in_world mem (s\<lparr>pr_world := w\<rparr>)) (pr_rank_pid s) ! i) = Some (spare_pids mem (s\<lparr>pr_world := w\<rparr>) ! i)"
proof -
  let ?w = "s\<lparr>pr_world := w\<rparr>"
  let ?ds = "dead_ranks (in_world mem ?w) (pr_rank_pid s)" and ?q = "spare_pids mem ?w ! i"
  have w: "set (mem w) \<subseteq> set (mem (pr_world s))" "me \<in> set (mem w)" "agrees a" using a(1) by simp_all
  have okp: "procs_ok mem ?w" using consistent_update(1) [OF ok w(1)] by (simp add: consistent_def)
  note sp = spare_pids_facts [OF g okp]
  have "me \<in> set (map ((!) (mem (pr_procs ?w))) (spare_pids mem ?w))" using nth_mem [OF i(2)] i(3) by force
  then have spare: "me \<in> set (mem (pr_spare s))" unfolding sp(2) by simp
  have d: "?ds ! i < length (pr_rank_pid s)" "is_dead (in_world mem ?w) (pr_rank_pid s ! (?ds ! i))"
    using nth_mem [OF i(1)] by (auto simp: dead_ranks_mem is_dead_def)
  have "length (dead_ranks (in_world mem ?w) (take (?ds ! i) (pr_rank_pid s))) = i"
    using dead_split [OF d] i(1) dead_ranks_sorted(2) by (metis nth_eq_iff_index_eq)
  then have new: "replaced mem ?w ! (?ds ! i) = Some ?q"
    using d i(2) by (simp add: replaced_def reassign_nth)
  obtain c t where t: "andThen (rebuild_proc_groups api) (\<lambda>_. try_build api a) ?w = (Inr c, t)" "consistent mem t" "evolved mem s t"
      "pr_world t = w" "built mem me t" "pr_rank_pid t = replaced mem ?w" "c = FENIX_SUCCESS"
    using attempt_run [OF g ok w] a(2) by blast
  have user: "me \<in> set (mem (pr_user t))"
  proof -
    have "?q \<in> set (live (pr_rank_pid t))" using new d(1) t(6) by (auto simp: live_mem replaced_def)
    then show ?thesis using t(2,3) i(3) unfolding consistent_def procs_ok_def evolved_def by force
  qed
  then have not_spare: "me \<notin> set (mem (pr_spare t))" using consistent_sets(2) [OF t(2)] by blast
  obtain old where old: "group_dup api (Some (pr_user s)) = Inr (Some old)" by (rule group_dup_run [OF g])
  have "me \<in> set (mem (pr_world t))" using w(2) t(4) by simp
  from finish_run [OF g t(2) this, of old] obtain e u where u: "finish_repair api old t = (Inr e, u)" "pr_user_world u = pr_user_world t"
      "pr_user u = pr_user t" "pr_spare u = pr_spare t" "pr_rank_pid u = pr_rank_pid t" "pr_final u = pr_final t" by blast
  have "repair_ranks api recovery [] [(w, a)] s = Some (Inr e, u)"
    using s(2) spare by (simp add: repair_ranks_def is_spare_run [OF g] old t(1,7) u(1))
  moreover have fin: "\<not> pr_final u" using s(1) t(3) u(6) by (simp add: evolved_def)
  ultimately have "spare_rank_loop api recovery [Revoked [(w, a)]] s = Some (Inr (), u\<lparr>pr_result := e, pr_role := RecoveredRank\<rparr>)"
    using s(1) spare not_spare u(4)
    by (simp add: spare_rank_loop.simps [of _ _ "_ # _"] spare_rank_loop.simps [of _ _ "[]"] is_spare_run [OF g] spare_step_def)
  then show ?thesis using fin u t(5) not_spare new by (intro exI [of _ "u\<lparr>pr_result := e, pr_role := RecoveredRank\<rparr>"]) (simp add: built_def t(6))
qed

section \<open>Enough spares\<close>

lemma full_table: "None \<notin> set R \<Longrightarrow> R = map Some (live R)"
  by (induction R rule: live.induct) auto

lemma lost_ranks: "length (live R) < length R \<longleftrightarrow> None \<in> set R"
proof (induction R rule: live.induct)
  case (2 R)
  have "length (live R) \<le> length R" by (induction R rule: live.induct) simp_all
  then show ?case by simp
qed simp_all

lemma reassign_full:
  assumes "None \<notin> set R" "length (dead_ranks alive R) \<le> length sps"
  shows "None \<notin> set (reassign alive sps R)"
  using assms
proof (induction alive sps R rule: reassign.induct)
  case (2 alive sps x R)
  then show ?case by (cases sps; cases "is_dead alive x") (auto simp: dead_ranks_cons)
qed simp

text \<open>Then the user processes that survive keep their ranks, and nobody's rank is lost.\<close>

lemma full_run:
  assumes g: "groups_ok api mem me" and ok: "consistent mem s" and s: "None \<notin> set (pr_rank_pid s)" and r: "recovery \<noteq> 1" "True \<in> set locs \<or> me \<in> set (mem (pr_spare s))"
    and a: "shrinking mem me (pr_world s) [(w, a)]" "succeeds a"
    and n: "length (dead_ranks (in_world mem (s\<lparr>pr_world := w\<rparr>)) (pr_rank_pid s)) \<le> length (spare_pids mem (s\<lparr>pr_world := w\<rparr>))"
  shows "\<exists>s'. repair_ranks api recovery locs [(w, a)] s = Some (Inr FENIX_SUCCESS, s') \<and> length (mem (pr_user s')) = length (mem (pr_user s)) \<and>
    (\<forall>x \<in> set (mem (pr_user s)) \<inter> set (mem w). rank_in (mem (pr_user s')) x = rank_in (mem (pr_user s)) x)"
proof -
  have w: "set (mem w) \<subseteq> set (mem (pr_world s))" "me \<in> set (mem w)" "agrees a" using a(1) by simp_all
  obtain c t where t: "andThen (rebuild_proc_groups api) (\<lambda>_. try_build api a) (s\<lparr>pr_world := w\<rparr>) = (Inr c, t)" "consistent mem t" "evolved mem s t"
      "pr_world t = w" "pr_rank_pid t = replaced mem (s\<lparr>pr_world := w\<rparr>)" "c = FENIX_SUCCESS"
    using attempt_run [OF g ok w] a(2) by blast
  obtain old where old: "group_dup api (Some (pr_user s)) = Inr (Some old)" by (rule group_dup_run [OF g])
  have me: "me \<in> set (mem (pr_world t))" using w(2) t(4) by simp
  have full: "None \<notin> set (pr_rank_pid t)" using reassign_full [OF s n] by (simp add: t(5) replaced_def)
  then have c: "\<not> length (live (pr_rank_pid t)) < length (pr_rank_pid t)" unfolding lost_ranks .
  from finish_run [OF g t(2) me, of old] obtain u where u: "finish_repair api old t = (Inr FENIX_SUCCESS, u)" "pr_user u = pr_user t"
    using c by auto
  have run: "repair_ranks api recovery locs [(w, a)] s = Some (Inr FENIX_SUCCESS, u)"
    using r by (auto simp: repair_ranks_def is_spare_run [OF g] old t(1,6) u(1))
  let ?P = "mem (pr_procs s)" and ?L = "live (pr_rank_pid s)" and ?L' = "live (pr_rank_pid t)"
  have R: "pr_rank_pid s = map Some ?L" "pr_rank_pid t = map Some ?L'" using full_table s full by blast+
  have len: "length ?L' = length ?L" using t(3) R by (metis evolved_def length_map)
  have us: "mem (pr_user s) = map ((!) ?P) ?L" "mem (pr_user t) = map ((!) ?P) ?L'"
    using ok t(2,3) by (simp_all add: consistent_def procs_ok_def evolved_def)
  have "rank_in (mem (pr_user t)) x = rank_in (mem (pr_user s)) x" if x: "x \<in> set (mem (pr_user s))" "x \<in> set (mem w)" for x
  proof -
    obtain j where j: "j < length ?L" "x = ?P ! (?L ! j)" using x(1) unfolding us(1) by (auto simp: in_set_conv_nth)
    have "pr_rank_pid s ! j = Some (?L ! j)" "j < length (pr_rank_pid s)" using j(1) R(1) by (metis nth_map, metis length_map)
    moreover have "in_world mem t (?L ! j)" using x(2) j(2) t(3,4) by (simp add: in_world_def evolved_def)
    ultimately have "pr_rank_pid t ! j = Some (?L ! j)" using t(3) by (simp add: evolved_def)
    then have "?L' ! j = ?L ! j" using j(1) len R(2) by (metis nth_map option.inject)
    then have "mem (pr_user t) ! j = x" "mem (pr_user s) ! j = x" using j len us by simp_all
    then show ?thesis using rank_in_nth [OF group_distinct [OF g], of j "pr_user t"] rank_in_nth [OF group_distinct [OF g], of j "pr_user s"] j(1) len us by simp
  qed
  then show ?thesis using run u(2) us len by (intro exI [of _ u]) simp
qed

end
