(* ===== verification/Process_Properties.thy ===== *)
theory Process_Properties
  imports Process_Roles
begin

text \<open>
  The properties of process recovery, with witnesses on groups that are lists of processes.
\<close>

section \<open>Groups as lists\<close>

definition list_api :: "nat \<Rightarrow> nat list group_api" where
  "list_api me = \<lparr>ga_empty = [],
     ga_size = (\<lambda>g. Some (length (remdups g))),
     ga_rank = (\<lambda>g. Some (rank_in (remdups g) me)),
     ga_translate = (\<lambda>g ranks h. Some (map (\<lambda>r. rank_in (remdups h) (remdups g ! r)) ranks)),
     ga_compare = (\<lambda>g h. Some (if remdups g = remdups h then Ident else if set g = set h then Similar else Unequal)),
     ga_union = (\<lambda>g h. Some (remdups g @ filter (\<lambda>p. p \<notin> set g) (remdups h))),
     ga_intersection = (\<lambda>g h. Some (filter (\<lambda>p. p \<in> set h) (remdups g))),
     ga_difference = (\<lambda>g h. Some (filter (\<lambda>p. p \<notin> set h) (remdups g))),
     ga_incl = (\<lambda>g ranks. Some (map ((!) (remdups g)) ranks)),
     ga_excl = (\<lambda>g ranks. Some (map ((!) (remdups g)) (filter (\<lambda>r. r \<notin> set ranks) [0..<length (remdups g)]))),
     ga_range_incl = (\<lambda>g ranges. Some (case ranges of [(_, n, _)] \<Rightarrow> take (nat (n + 1)) (remdups g) | _ \<Rightarrow> [])),
     ga_range_excl = (\<lambda>g ranges. None)\<rparr>"

lemma remdups_map_nth: "distinct xs \<Longrightarrow> distinct ranks \<Longrightarrow> \<forall>r \<in> set ranks. r < length xs \<Longrightarrow> remdups (map ((!) xs) ranks) = map ((!) xs) ranks"
  by (auto simp: distinct_map inj_on_def nth_eq_iff_index_eq)

lemma list_api_ok: "groups_ok (list_api me) remdups me"
proof -
  have "remdups (remdups g @ filter (\<lambda>p. p \<notin> set g) (remdups h)) = remdups g @ filter (\<lambda>p. p \<notin> set g) (remdups h)" for g h :: "nat list"
    by (intro distinct_remdups_id) auto
  moreover have "remdups (take k (remdups g)) = take k (remdups g)" for k and g :: "nat list"
    by (intro distinct_remdups_id distinct_take distinct_remdups)
  moreover have "remdups (filter Q (remdups g)) = filter Q (remdups g)" for Q and g :: "nat list"
    by (intro distinct_remdups_id distinct_filter distinct_remdups)
  moreover have "distinct (filter (\<lambda>r. r \<notin> set ranks) [0..<n])" for ranks n by simp
  ultimately show ?thesis
    by (simp add: groups_ok_def list_api_def remdups_map_nth)
qed

text \<open>Six processes, the last two spares; then 1, 2 and the spare 4 die.  The calling process is 5, a spare.\<close>

definition fine_attempt :: attempt where
  "fine_attempt = \<lparr>at_created = True, at_agreed = (\<lambda>x. x), at_dupped = True, at_agreed2 = (\<lambda>x. x)\<rparr>"

definition broken_attempt :: attempt where
  "broken_attempt = \<lparr>at_created = False, at_agreed = (\<lambda>_. 0), at_dupped = False, at_agreed2 = (\<lambda>_. 0)\<rparr>"

definition six_procs :: "nat \<Rightarrow> nat list procs" where
  "six_procs me = \<lparr>pr_procs = [0, 1, 2, 3, 4, 5], pr_user = [0, 1, 2, 3], pr_spare = [4, 5], pr_dead = [],
     pr_pid_rank = [Some 0, Some 1, Some 2, Some 3, None, None], pr_rank_pid = [Some 0, Some 1, Some 2, Some 3],
     pr_fail = None, pr_recovered = None, pr_survivor = None, pr_fail_ranks = [], pr_world = [0, 1, 2, 3, 4, 5],
     pr_new_world = (if me < 4 then Some [0, 1, 2, 3] else None), pr_user_world = (if me < 4 then Some [0, 1, 2, 3] else None),
     pr_role = InitialRank, pr_result = FENIX_SUCCESS, pr_final = False\<rparr>"

lemma six_started:
  "init_procs (list_api 5) [0, 1, 2, 3, 4, 5] 2 [([0, 1, 2, 3, 4, 5], fine_attempt)] = Some (Inr (six_procs 5))"
  "init_procs (list_api 0) [0, 1, 2, 3, 4, 5] 2 [([0, 1, 2, 3, 4, 5], fine_attempt)] = Some (Inr (six_procs 0))"
  by code_simp+

lemma six_reached:
  "reached (list_api 5) remdups 5 [0, 1, 2, 3, 4, 5] 2 (six_procs 5)"
  "reached (list_api 0) remdups 0 [0, 1, 2, 3, 4, 5] 2 (six_procs 0)"
  by (rule reached.started, rule six_started, simp add: agrees_def fine_attempt_def)+

lemma six_consistent: "consistent remdups (six_procs 5)" "consistent remdups (six_procs 0)"
  using reached_ok [OF list_api_ok _ _ six_reached(1)] reached_ok [OF list_api_ok _ _ six_reached(2)] by simp_all

text \<open>The state of process 0 after one attempt without the processes 2 and 4, which fails, and one that also misses 1.\<close>

definition six_tries :: "(nat list \<times> attempt) list" where
  "six_tries = [([0, 1, 3, 5], broken_attempt), ([0, 3, 5], fine_attempt)]"

definition six_repaired :: "nat list procs" where
  "six_repaired = \<lparr>pr_procs = [0, 1, 2, 3, 4, 5], pr_user = [0, 5, 3], pr_spare = [], pr_dead = [1, 2, 4],
     pr_pid_rank = [Some 0, Some 1, Some 2, Some 3, None, Some 2], pr_rank_pid = [Some 0, None, Some 5, Some 3],
     pr_fail = Some [1, 2], pr_recovered = Some [5], pr_survivor = Some [0, 3], pr_fail_ranks = [Some 1, Some 2],
     pr_world = [0, 3, 5], pr_new_world = Some [0, 5, 3], pr_user_world = Some [0, 5, 3],
     pr_role = SurvivorRank, pr_result = FENIX_SUCCESS, pr_final = False\<rparr>"

lemma six_repair:
  "repair_ranks (list_api 0) 0 [False, True] six_tries (six_procs 0) = Some (Inr FENIX_WARNING_SPARE_RANKS_DEPLETED, six_repaired)"
  by code_simp

lemma six_shrinking:
  "shrinking remdups 0 (pr_world (six_procs 0)) six_tries" "shrinking remdups 5 (pr_world (six_procs 5)) six_tries"
  "([0, 3, 5], fine_attempt) \<in> set six_tries" "succeeds fine_attempt"
  by (simp_all add: six_procs_def six_tries_def agrees_def fine_attempt_def broken_attempt_def succeeds_def)

section \<open>Rebuilding the groups\<close>

text \<open>
  C5. Rebuilding the groups of processes refines \<open>reassign\<close>: in a consistent state it never fails,
  every rank whose process is dead gets the next living spare, or nobody when no spare is left, and
  the user processes are those of the table, in the order of the ranks; the remaining living spares
  stay spares, in their order, and the dead processes are those outside of the world.
\<close>

theorem rebuild_refines_reassign:
  assumes "groups_ok api mem me" "consistent mem s" "set (mem w) \<subseteq> set (mem (pr_world s))"
  shows "\<exists>s'. rebuild_proc_groups api (s\<lparr>pr_world := w\<rparr>) = (Inr (), s') \<and>
    pr_rank_pid s' = reassign (\<lambda>p. mem (pr_procs s) ! p \<in> set (mem w)) (spare_pids mem (s\<lparr>pr_world := w\<rparr>)) (pr_rank_pid s) \<and>
    mem (pr_user s') = map ((!) (mem (pr_procs s))) (live (pr_rank_pid s')) \<and>
    mem (pr_spare s') = drop (length (dead_ranks (\<lambda>p. mem (pr_procs s) ! p \<in> set (mem w)) (pr_rank_pid s))) (filter (\<lambda>x. x \<in> set (mem w)) (mem (pr_spare s))) \<and>
    mem (pr_dead s') = filter (\<lambda>x. x \<notin> set (mem w)) (mem (pr_procs s)) \<and> consistent mem s'"
proof -
  let ?s = "s\<lparr>pr_world := w\<rparr>"
  have con: "consistent mem ?s" by (rule consistent_update [OF assms(2,3)])
  then have ok: "procs_ok mem ?s" and dead: "set (mem (pr_dead ?s)) \<inter> set (mem (pr_world ?s)) = {}" by (simp_all add: consistent_def)
  obtain s' where s': "rebuild_proc_groups api ?s = (Inr (), s')" "rebuilt mem ?s s'" using rebuild_run [OF assms(1) ok] by blast
  note R = rebuiltD [OF s'(2)] and ok' = rebuilt_ok [OF assms(1) ok dead s'(2)]
  have "in_world mem ?s = (\<lambda>p. mem (pr_procs s) ! p \<in> set (mem w))" by (simp add: in_world_def fun_eq_iff)
  moreover have "consistent mem s'" using ok' con by (simp add: consistent_def)
  ultimately show ?thesis using s'(1) R(1-4) by (intro exI [of _ s']) (simp add: replaced_def)
qed

theorem rebuild_refines_reassign_witness:
  "\<exists>s'. rebuild_proc_groups (list_api 5) (six_procs 5\<lparr>pr_world := [0, 3, 5]\<rparr>) = (Inr (), s') \<and>
    pr_rank_pid s' = [Some 0, Some 5, None, Some 3] \<and> remdups (pr_user s') = [0, 5, 3] \<and> remdups (pr_dead s') = [1, 2, 4]"
proof -
  have "set (remdups [0, 3, 5]) \<subseteq> set (remdups (pr_world (six_procs 5)))" by (simp add: six_procs_def)
  from rebuild_refines_reassign [OF list_api_ok six_consistent(1) this, of 5]
  obtain s' where s': "rebuild_proc_groups (list_api 5) (six_procs 5\<lparr>pr_world := [0, 3, 5]\<rparr>) = (Inr (), s')"
    "pr_rank_pid s' = reassign (\<lambda>p. remdups (pr_procs (six_procs 5)) ! p \<in> set (remdups [0, 3, 5])) (spare_pids remdups (six_procs 5\<lparr>pr_world := [0, 3, 5]\<rparr>)) (pr_rank_pid (six_procs 5))"
    "remdups (pr_user s') = map ((!) (remdups (pr_procs (six_procs 5)))) (live (pr_rank_pid s'))"
    "remdups (pr_dead s') = filter (\<lambda>x. x \<notin> set (remdups [0, 3, 5])) (remdups (pr_procs (six_procs 5)))" by blast
  have "reassign (\<lambda>p. remdups (pr_procs (six_procs 5)) ! p \<in> set (remdups [0, 3, 5])) (spare_pids remdups (six_procs 5\<lparr>pr_world := [0, 3, 5]\<rparr>)) (pr_rank_pid (six_procs 5))
      = [Some 0, Some 5, None, Some 3]" by code_simp
  then have R: "pr_rank_pid s' = [Some 0, Some 5, None, Some 3]" using s'(2) by simp
  then show ?thesis using s'(1,3,4) by (intro exI [of _ s']) (simp add: six_procs_def)
qed

text \<open>
  C7. Every state that initialisation and any number of recoveries reach is consistent: the tables of ranks
  and pids agree, no process stands for two ranks, and each process is either a user, a spare or
  dead.  The processes and the number of ranks never change.
\<close>

theorem reached_consistent:
  assumes "groups_ok api mem me" "0 \<le> spares" "spares < int (length (mem all))" "reached api mem me all spares s"
  shows "consistent mem s \<and> pr_procs s = all \<and> length (pr_rank_pid s) = length (mem all) - nat spares"
  by (rule reached_ok [OF assms])

theorem reached_consistent_witness: "consistent remdups (six_procs 5) \<and> length (pr_rank_pid (six_procs 5)) = 4"
  using reached_consistent [OF list_api_ok _ _ six_reached(1)] by simp

section \<open>Recovery\<close>

text \<open>
  C6. A recovery returns as soon as MPI can build the communicators once, and never with an error: it
  reports that the spares are depleted exactly when some rank has no process.  Afterwards every
  rank with a process has a living one, a rank whose process lives keeps it, a new process was a spare,
  and a rank that has lost its process never gets one again.
\<close>

theorem repair_assigns_ranks:
  assumes "groups_ok api mem me" "reached api mem me all spares s" "0 \<le> spares" "spares < int (length (mem all))"
    "shrinking mem me (pr_world s) tries" "recovery \<noteq> 1" "True \<in> set locs \<or> me \<in> set (mem (pr_spare s))" "(w, a) \<in> set tries" "succeeds a"
  shows "\<exists>c s'. repair_ranks api recovery locs tries s = Some (Inr c, s') \<and>
    c = (if None \<in> set (pr_rank_pid s') then FENIX_WARNING_SPARE_RANKS_DEPLETED else FENIX_SUCCESS) \<and>
    (\<forall>r < length (pr_rank_pid s). \<forall>p. pr_rank_pid s' ! r = Some p \<longrightarrow> mem all ! p \<in> set (mem (pr_world s'))) \<and>
    (\<forall>r < length (pr_rank_pid s). \<forall>p. pr_rank_pid s ! r = Some p \<longrightarrow> mem all ! p \<in> set (mem (pr_world s')) \<longrightarrow> pr_rank_pid s' ! r = Some p) \<and>
    (\<forall>r < length (pr_rank_pid s). \<forall>q. pr_rank_pid s' ! r = Some q \<longrightarrow> pr_rank_pid s ! r \<noteq> None \<and>
      (pr_rank_pid s ! r = Some q \<or> mem all ! q \<in> set (mem (pr_spare s))))"
proof -
  have ok: "consistent mem s" and all: "pr_procs s = all" using reached_ok [OF assms(1,3,4,2)] by simp_all
  obtain c s' where run: "repair_ranks api recovery locs tries s = Some (Inr c, s')" and s': "repaired mem me s c s'"
    using repair_run [OF assms(1) ok assms(5-7)] assms(8,9) by blast
  then have ev: "evolved mem s s'" and user: "set (mem (pr_user s')) \<subseteq> set (mem (pr_world s'))" and ok': "procs_ok mem s'" and procs: "pr_procs s' = all"
    by (simp_all add: repaired_def consistent_def evolved_def all)
  have alive: "mem all ! p \<in> set (mem (pr_world s'))" if "r < length (pr_rank_pid s')" "pr_rank_pid s' ! r = Some p" for r p
    using procs_okD(1) [OF ok'] user that procs live_mem [of p "pr_rank_pid s'"] by auto
  have len: "length (pr_rank_pid s') = length (pr_rank_pid s)" using ev by (simp add: evolved_def)
  have "c = (if None \<in> set (pr_rank_pid s') then FENIX_WARNING_SPARE_RANKS_DEPLETED else FENIX_SUCCESS)"
    using s' by (simp add: repaired_def lost_ranks)
  moreover have "\<forall>r < length (pr_rank_pid s). \<forall>p. pr_rank_pid s ! r = Some p \<longrightarrow> mem all ! p \<in> set (mem (pr_world s')) \<longrightarrow> pr_rank_pid s' ! r = Some p"
    using ev unfolding evolved_def in_world_def procs by blast
  moreover have "\<forall>r < length (pr_rank_pid s). \<forall>q. pr_rank_pid s' ! r = Some q \<longrightarrow> pr_rank_pid s ! r \<noteq> None \<and>
      (pr_rank_pid s ! r = Some q \<or> mem all ! q \<in> set (mem (pr_spare s)))"
    using ev unfolding evolved_def all by blast
  moreover have "\<forall>r < length (pr_rank_pid s). \<forall>p. pr_rank_pid s' ! r = Some p \<longrightarrow> mem all ! p \<in> set (mem (pr_world s'))"
    using alive unfolding len by blast
  ultimately show ?thesis using run by blast
qed

theorem repair_assigns_ranks_witness:
  "\<exists>c. repair_ranks (list_api 0) 0 [False, True] six_tries (six_procs 0) = Some (Inr c, six_repaired) \<and> c = FENIX_WARNING_SPARE_RANKS_DEPLETED"
  using repair_assigns_ranks [OF list_api_ok six_reached(2) _ _ six_shrinking(1) _ _ six_shrinking(3,4), of 0 "[False, True]"]
  by (simp add: six_repair six_repaired_def)

text \<open>
  C4. With a living spare for every dead user process, one successful attempt makes a recovery a success:
  there are as many user processes as before, and every user process that survives has the rank that it
  had in the communicator of the application.
\<close>

theorem survivors_keep_ranks:
  assumes "groups_ok api mem me" "consistent mem s" "None \<notin> set (pr_rank_pid s)" "recovery \<noteq> 1"
    "True \<in> set locs \<or> me \<in> set (mem (pr_spare s))" "shrinking mem me (pr_world s) [(w, a)]" "succeeds a"
    "length (dead_ranks (in_world mem (s\<lparr>pr_world := w\<rparr>)) (pr_rank_pid s)) \<le> length (spare_pids mem (s\<lparr>pr_world := w\<rparr>))"
  shows "\<exists>s'. repair_ranks api recovery locs [(w, a)] s = Some (Inr FENIX_SUCCESS, s') \<and>
    length (mem (pr_user s')) = length (mem (pr_user s)) \<and>
    (\<forall>x \<in> set (mem (pr_user s)) \<inter> set (mem w). rank_in (mem (pr_user s')) x = rank_in (mem (pr_user s)) x)"
  by (rule full_run [OF assms])

theorem survivors_keep_ranks_witness:
  "\<exists>s'. repair_ranks (list_api 0) 0 [True] [([0, 2, 3, 5], fine_attempt)] (six_procs 0) = Some (Inr FENIX_SUCCESS, s') \<and>
    length (remdups (pr_user s')) = 4 \<and> rank_in (remdups (pr_user s')) 3 = Some 3"
proof -
  have n: "length (dead_ranks (in_world remdups (six_procs 0\<lparr>pr_world := [0, 2, 3, 5]\<rparr>)) (pr_rank_pid (six_procs 0)))
      \<le> length (spare_pids remdups (six_procs 0\<lparr>pr_world := [0, 2, 3, 5]\<rparr>))" by code_simp
  have "\<exists>s'. repair_ranks (list_api 0) 0 [True] [([0, 2, 3, 5], fine_attempt)] (six_procs 0) = Some (Inr FENIX_SUCCESS, s') \<and>
    length (remdups (pr_user s')) = length (remdups (pr_user (six_procs 0))) \<and>
    (\<forall>x \<in> set (remdups (pr_user (six_procs 0))) \<inter> set (remdups [0, 2, 3, 5]). rank_in (remdups (pr_user s')) x = rank_in (remdups (pr_user (six_procs 0))) x)"
    by (rule survivors_keep_ranks [OF list_api_ok six_consistent(2) _ _ _ _ six_shrinking(4) n])
      (simp_all add: six_procs_def agrees_def fine_attempt_def)
  then show ?thesis by (elim ex_forward) (simp add: six_procs_def rank_in_def)
qed

section \<open>Roles\<close>

text \<open>
  After a recovery the role of every process, the calling one included, follows from its group before and after: the
  dead ones have failed, the users from before survive, the new users are recovered; the ranks
  that failed are those that the lost processes had in the old communicator.  No role ends in an error.
\<close>

theorem roles_after_recovery:
  assumes "groups_ok api mem me" "consistent mem s" "shrinking mem me (pr_world s) tries" "recovery \<noteq> 1"
    "repair_ranks api recovery locs tries s = Some (Inr c, s')" "r < length (mem h)" "mem h ! r \<in> set (mem (pr_procs s))"
  shows "role_of api h r s' = (Inr (role_in mem (mem (pr_user s)) s' (mem h ! r)), s') \<and>
    pr_role s' = role_in mem (mem (pr_user s)) s' me \<and>
    pr_fail_ranks s' = map Some (filter (\<lambda>r. mem (pr_user s) ! r \<notin> set (mem (pr_user s'))) [0..<length (mem (pr_user s))])"
proof -
  have "True \<in> set locs \<or> me \<in> set (mem (pr_spare s))"
    using assms(4,5) by (auto simp: repair_ranks_def is_spare_run [OF assms(1)] split: if_splits)
  from repair_run [OF assms(1-4) this] have s': "repaired mem me s c s'" using assms(5) by auto
  then have "mem h ! r \<in> set (mem (pr_procs s'))" using assms(7) by (simp add: repaired_def evolved_def)
  then show ?thesis using role_of_run [OF assms(1) _ _ assms(6), of s'] s' by (simp add: repaired_def recovered_def)
qed

theorem roles_after_recovery_witness:
  "role_of (list_api 0) [0, 3, 5, 2] 2 six_repaired = (Inr RecoveredRank, six_repaired) \<and> pr_role six_repaired = SurvivorRank"
  using roles_after_recovery [OF list_api_ok six_consistent(2) six_shrinking(1) _ six_repair, of 2 "[0, 3, 5, 2]"]
  by (simp add: six_procs_def role_in_def) (simp add: six_repaired_def role_in_def)

text \<open>
  \<open>n_ranks_with_role\<close> counts, after a recovery, the processes of Fenix that have the role, by the group
  that Fenix keeps for it.
\<close>

theorem roles_counted:
  assumes "groups_ok api mem me" "consistent mem s" "recovered mem me old s" "role \<noteq> InitialRank"
  shows "n_ranks_with_role api role s = Inr (length (filter (\<lambda>x. role_in mem old s x = role) (mem (pr_procs s))))"
  by (rule roles_run [OF assms])

theorem roles_counted_witness:
  "n_ranks_with_role (list_api 0) FailedRank six_repaired = Inr 3"
proof -
  have "six_repaired = six_procs 0 \<or> repaired remdups 0 (six_procs 0) FENIX_WARNING_SPARE_RANKS_DEPLETED six_repaired \<and> pr_world six_repaired \<in> fst ` set six_tries"
    by (rule repair_keeps [OF list_api_ok six_consistent(2) six_shrinking(1) six_repair])
  moreover have "six_repaired \<noteq> six_procs 0" by code_simp
  ultimately have r: "consistent remdups six_repaired" "recovered remdups 0 (remdups (pr_user (six_procs 0))) six_repaired" by (simp_all add: repaired_def)
  have "length (filter (\<lambda>x. role_in remdups (remdups (pr_user (six_procs 0))) six_repaired x = FailedRank) (remdups (pr_procs six_repaired))) = 3" by code_simp
  then show ?thesis using roles_counted [OF list_api_ok r, of FailedRank] by simp
qed

section \<open>Spares\<close>

text \<open>
  C8. When an attempt succeeds, the \<open>i\<close>th living spare takes over the \<open>i\<close>th rank with a dead process: its wait
  ends, it is a recovered rank, it stands for that rank and has the new communicator of the users.
\<close>

theorem spare_takes_over:
  assumes "groups_ok api mem me" "consistent mem s" "\<not> pr_final s" "recovery \<noteq> 1"
    "shrinking mem me (pr_world s) [(w, a)]" "succeeds a"
    "i < length (dead_ranks (in_world mem (s\<lparr>pr_world := w\<rparr>)) (pr_rank_pid s))" "i < length (spare_pids mem (s\<lparr>pr_world := w\<rparr>))"
    "mem (pr_procs s) ! (spare_pids mem (s\<lparr>pr_world := w\<rparr>) ! i) = me"
  shows "\<exists>s'. spare_rank_loop api recovery [Revoked [(w, a)]] s = Some (Inr (), s') \<and> \<not> pr_final s' \<and> pr_role s' = RecoveredRank \<and>
    pr_user_world s' = Some (pr_user s') \<and>
    pr_rank_pid s' ! (dead_ranks (in_world mem (s\<lparr>pr_world := w\<rparr>)) (pr_rank_pid s) ! i) = Some (spare_pids mem (s\<lparr>pr_world := w\<rparr>) ! i)"
  by (rule take_over_run [OF assms])

theorem spare_takes_over_witness:
  "\<exists>s'. spare_rank_loop (list_api 5) 0 [Revoked [([0, 3, 5], fine_attempt)]] (six_procs 5) = Some (Inr (), s') \<and>
    pr_role s' = RecoveredRank \<and> pr_rank_pid s' ! 1 = Some 5"
proof -
  let ?w = "six_procs 5\<lparr>pr_world := [0, 3, 5]\<rparr>"
  have d: "dead_ranks (in_world remdups ?w) (pr_rank_pid (six_procs 5)) = [1, 2]" and q: "spare_pids remdups ?w = [5]" by code_simp+
  have "0 < length (dead_ranks (in_world remdups ?w) (pr_rank_pid (six_procs 5)))" "0 < length (spare_pids remdups ?w)"
    "remdups (pr_procs (six_procs 5)) ! (spare_pids remdups ?w ! 0) = 5" unfolding d q by (simp_all add: six_procs_def)
  note at_zero = this
  have "\<not> pr_final (six_procs 5)" "(0 :: nat) \<noteq> 1" "shrinking remdups 5 (pr_world (six_procs 5)) [([0, 3, 5], fine_attempt)]"
    by (simp_all add: six_procs_def agrees_def fine_attempt_def)
  from spare_takes_over [OF list_api_ok six_consistent(1) this six_shrinking(4) at_zero] show ?thesis unfolding d q by (elim ex_forward) simp
qed

text \<open>
  The wait of a spare ends without an error, either because the program was finalized, or as a
  recovered rank among the user processes, in a consistent state; whatever errors it sees and
  however many recoveries leave it as a spare.
\<close>

theorem spare_wait_ends:
  assumes "groups_ok api mem me" "consistent mem s" "me \<in> set (mem (pr_world s))"
    "shrinking mem me (pr_world s) (concat (map tries_of evs))" "spare_rank_loop api recovery evs s = Some (r, s')"
  shows "r = Inr () \<and> (pr_final s' \<or> consistent mem s' \<and> me \<in> set (mem (pr_user s')) \<and> pr_role s' = RecoveredRank)"
  by (rule spare_loop_run [OF assms])

theorem spare_wait_ends_witness:
  "\<exists>r s'. spare_rank_loop (list_api 5) 0 [OtherError, Revoked six_tries, Message] (six_procs 5) = Some (r, s') \<and> r = Inr () \<and> 5 \<in> set (pr_user s')"
proof -
  have "\<not> Option.is_none (spare_rank_loop (list_api 5) 0 [OtherError, Revoked six_tries, Message] (six_procs 5))" by code_simp
  then obtain r s' where run: "spare_rank_loop (list_api 5) 0 [OtherError, Revoked six_tries, Message] (six_procs 5) = Some (r, s')"
    by (cases "spare_rank_loop (list_api 5) 0 [OtherError, Revoked six_tries, Message] (six_procs 5)") auto
  have "(case spare_rank_loop (list_api 5) 0 [OtherError, Revoked six_tries, Message] (six_procs 5) of Some (_, t) \<Rightarrow> \<not> pr_final t | _ \<Rightarrow> False)" by code_simp
  then have "\<not> pr_final s'" by (simp add: run)
  moreover have "r = Inr () \<and> (pr_final s' \<or> consistent remdups s' \<and> 5 \<in> set (remdups (pr_user s')) \<and> pr_role s' = RecoveredRank)"
    using six_shrinking(2) by (intro spare_wait_ends [OF list_api_ok six_consistent(1) _ _ run]) (simp_all add: six_procs_def tries_of_simps)
  ultimately show ?thesis using run by simp
qed

end
