(* ===== verification/Callbacks.thy ===== *)
theory Callbacks
  imports Mlog
begin

text \<open>
  The callbacks of the application around a recovery (src/fenix_callbacks.cpp).  A failure inside a callback is
  handled at once, which invokes the callbacks again, nested; only the most recent invocation goes on.
\<close>

section \<open>State\<close>

text \<open>
  The callbacks by location, 0 before and 1 after a recovery, and the static \<open>callbacks_depth\<close>.  What a callback
  is stays abstract.
\<close>

record 'c callbacks =
  cb_rt :: runtime
  cb_table :: "nat \<Rightarrow> 'c list"
  cb_depth :: nat

abbreviation (input) PRE_RECOVERY :: nat where "PRE_RECOVERY \<equiv> 0"
abbreviation (input) POST_RECOVERY :: nat where "POST_RECOVERY \<equiv> 1"
abbreviation (input) RETHROW :: nat where "RETHROW \<equiv> 0"

text \<open>The frame around a function of the interface.\<close>

definition cb_frame :: "bool \<Rightarrow> ('c callbacks, fenix_code) comp \<Rightarrow> 'c callbacks \<Rightarrow> fenix_code api_end \<times> 'c callbacks" where
  "cb_frame catch body s =
     (let inside = s\<lparr>cb_rt := (cb_rt s)\<lparr>rt_settings := internal_settings (rt_settings (cb_rt s))\<rparr>\<rparr> in
     case api catch (\<lambda>c. c) (\<lambda>rt. case body (s\<lparr>cb_rt := rt\<rparr>) of (r, s') \<Rightarrow> (r, cb_rt s')) (cb_rt s) of
       (e, rt') \<Rightarrow> (e, (if rt_init (cb_rt s) then snd (body inside) else s)\<lparr>cb_rt := rt'\<rparr>))"

definition callback_register :: "bool \<Rightarrow> 'c \<Rightarrow> nat \<Rightarrow> 'c callbacks \<Rightarrow> fenix_code api_end \<times> 'c callbacks" where
  "callback_register catch cb loc = cb_frame catch
     (andThen (modS (\<lambda>s. s\<lparr>cb_table := (cb_table s)(loc := cb_table s loc @ [cb])\<rparr>)) (\<lambda>_. ret FENIX_SUCCESS))"

definition callback_pop :: "bool \<Rightarrow> nat \<Rightarrow> 'c callbacks \<Rightarrow> fenix_code api_end \<times> 'c callbacks" where
  "callback_pop catch loc = cb_frame catch
     (andThen getS (\<lambda>s.
      if cb_table s loc = [] then ret FENIX_ERROR_CALLBACK_NOT_REGISTERED
      else andThen (modS (\<lambda>s. s\<lparr>cb_table := (cb_table s)(loc := butlast (cb_table s loc))\<rparr>)) (\<lambda>_. ret FENIX_SUCCESS)))"

section \<open>Invoking the callbacks\<close>

text \<open>
  How the callbacks of an invocation behave, in the order in which they are started: the failures during a callback, each
  with the invocation that handles it, and whether a \<open>CommException\<close> then leaves the callback.  A callback without
  an entry has no failures.
\<close>

datatype cb_run = Cb_Run "cb_call list" bool
  and cb_call = Cb_Call "cb_run list"

text \<open>
  Whether an exception leaves, the depth, and the callbacks that were started, with the layer of their
  invocation; \<open>cbs\<close> are all the callbacks.  The callbacks after a nested invocation find another depth.
\<close>

fun invoke :: "nat \<Rightarrow> 'c list \<Rightarrow> cb_call \<Rightarrow> nat \<Rightarrow> bool \<times> nat \<times> (nat \<times> 'c) list"
  and run_list :: "nat \<Rightarrow> 'c list \<Rightarrow> nat \<Rightarrow> 'c list \<Rightarrow> cb_run list \<Rightarrow> nat \<Rightarrow> bool \<times> nat \<times> (nat \<times> 'c) list"
  and run_callback :: "nat \<Rightarrow> 'c list \<Rightarrow> cb_run \<Rightarrow> nat \<Rightarrow> bool \<times> nat \<times> (nat \<times> 'c) list"
  and run_failures :: "nat \<Rightarrow> 'c list \<Rightarrow> cb_call list \<Rightarrow> nat \<Rightarrow> bool \<times> nat \<times> (nat \<times> 'c) list" where
  "invoke mode cbs (Cb_Call runs) depth =
     (case run_list mode cbs depth cbs runs (depth + 1) of (thrown, d, started) \<Rightarrow>
        (thrown \<and> mode = RETHROW, if depth = 0 then 0 else d, started))"
| "run_list mode cbs layer [] runs depth = (False, depth, [])"
| "run_list mode cbs layer (cb # rest) [] depth =
     (if depth \<noteq> layer + 1 then (False, depth, []) else (False, depth, map (Pair layer) (cb # rest)))"
| "run_list mode cbs layer (cb # rest) (run # runs) depth =
     (if depth \<noteq> layer + 1 then (False, depth, [])
      else (case run_callback mode cbs run depth of
          (True, d, started) \<Rightarrow> (True, d, (layer, cb) # started)
        | (False, d, started) \<Rightarrow> (case run_list mode cbs layer rest runs d of
              (thrown, d', later) \<Rightarrow> (thrown, d', (layer, cb) # started @ later))))"
| "run_callback mode cbs (Cb_Run calls throws) depth =
     (case run_failures mode cbs calls depth of (thrown, d, started) \<Rightarrow> (thrown \<or> throws, d, started))"
| "run_failures mode cbs [] depth = (False, depth, [])"
| "run_failures mode cbs (call # calls) depth =
     (case invoke mode cbs call depth of
        (True, d, started) \<Rightarrow> (True, d, started)
      | (False, d, started) \<Rightarrow> (case run_failures mode cbs calls d of
            (thrown, d', later) \<Rightarrow> (thrown, d', started @ later)))"

text \<open>The function of the interface; the callbacks that it starts are its last result.\<close>

definition invoke_body :: "nat \<Rightarrow> cb_call \<Rightarrow> ('c callbacks, fenix_code) comp" where
  "invoke_body loc call s =
     (let s = (if loc = PRE_RECOVERY then s\<lparr>cb_rt := (cb_rt s)\<lparr>rt_mlogs := map (\<lambda>(i, c). (i, comm_pre_recovery c)) (rt_mlogs (cb_rt s))\<rparr>\<rparr> else s) in
     case invoke (se_cb_exception (rt_settings (cb_rt s))) (cb_table s loc) call (cb_depth s) of
       (thrown, d, _) \<Rightarrow> (if thrown then Inl Comm else Inr FENIX_SUCCESS, s\<lparr>cb_depth := d\<rparr>))"

definition callback_invoke_all :: "bool \<Rightarrow> nat \<Rightarrow> cb_call \<Rightarrow> 'c callbacks \<Rightarrow> fenix_code api_end \<times> 'c callbacks" where
  "callback_invoke_all catch loc call = cb_frame catch (invoke_body loc call)"

definition started_by :: "nat \<Rightarrow> cb_call \<Rightarrow> 'c callbacks \<Rightarrow> (nat \<times> 'c) list" where
  "started_by loc call s =
     (if rt_init (cb_rt s) then snd (snd (invoke (se_cb_exception (rt_settings (cb_rt s))) (cb_table s loc) call (cb_depth s))) else [])"

end
