(* ===== verification/Handler.thy ===== *)
theory Handler
  imports Callbacks Process Data_Api
begin

text \<open>
  What happens when an MPI function reports a failure (\<open>__fenix_test_MPI\<close>), after a recovery (\<open>__fenix_postinit\<close>), in
  \<open>detect_failures\<close> and in \<open>Fenix_Finalize\<close> (src/fenix_process_recovery.cpp): the groups of processes, the
  callbacks, the logs and the settings together.
\<close>

section \<open>State\<close>

text \<open>
  The processes, the callbacks with the runtime, and the variables of the application for the role and the error.
  \<open>pr_final\<close> and \<open>rt_final\<close> are one flag of the code, as are \<open>pr_role\<close> and \<open>pr_result\<close> here and the ones that the interface returns.
\<close>

record ('g, 'c) fenix_state =
  fx_procs :: "'g procs"
  fx_cb :: "'c callbacks"
  fx_ret_role :: rank_role
  fx_ret_error :: fenix_code

abbreviation fx_rt :: "('g, 'c) fenix_state \<Rightarrow> runtime" where "fx_rt s \<equiv> cb_rt (fx_cb s)"

definition set_rt :: "runtime \<Rightarrow> ('g, 'c) fenix_state \<Rightarrow> ('g, 'c) fenix_state" where
  "set_rt rt s = s\<lparr>fx_cb := (fx_cb s)\<lparr>cb_rt := rt\<rparr>\<rparr>"

text \<open>One step after another; a jump and a failure end the sequence.\<close>

definition next_step :: "'a api_end \<times> 's \<Rightarrow> ('a \<Rightarrow> 's \<Rightarrow> 'b api_end \<times> 's) \<Rightarrow> 'b api_end \<times> 's" where
  "next_step r f = (case r of (Returned x, s) \<Rightarrow> f x s | (Failed e, s) \<Rightarrow> (Failed e, s) | (Jumped, s) \<Rightarrow> (Jumped, s))"

definition invoke_all :: "bool \<Rightarrow> nat \<Rightarrow> cb_call \<Rightarrow> ('g, 'c) fenix_state \<Rightarrow> fenix_code api_end \<times> ('g, 'c) fenix_state" where
  "invoke_all catch loc call s = (case callback_invoke_all catch loc call (fx_cb s) of (r, c) \<Rightarrow> (r, s\<lparr>fx_cb := c\<rparr>))"

definition on_rt :: "(runtime, 'a) comp \<Rightarrow> ('g, 'c) fenix_state \<Rightarrow> 'a api_end \<times> ('g, 'c) fenix_state" where
  "on_rt f s = (case f (fx_rt s) of (Inl e, rt) \<Rightarrow> (Failed e, set_rt rt s) | (Inr x, rt) \<Rightarrow> (Returned x, set_rt rt s))"

text \<open>\<open>ScopedActiveMlog\<close> around a step; a jump leaves the scope without its destructor.\<close>

definition enter_log :: "bool \<Rightarrow> ('g, 'c) fenix_state \<Rightarrow> fenix_code api_end \<times> ('g, 'c) fenix_state" where
  "enter_log catch = on_rt (code_api catch (mlog_activate MLOG_NONE))"

definition leave_log :: "bool \<Rightarrow> int \<Rightarrow> 'a api_end \<times> ('g, 'c) fenix_state \<Rightarrow> 'a api_end \<times> ('g, 'c) fenix_state" where
  "leave_log catch old r =
     (case r of
        (Jumped, s) \<Rightarrow> (Jumped, s)
      | (Failed e, s) \<Rightarrow> on_rt (leave_mlog catch old (Inl e)) s
      | (Returned x, s) \<Rightarrow> on_rt (leave_mlog catch old (Inr x)) s)"

definition without_log :: "bool \<Rightarrow> (('g, 'c) fenix_state \<Rightarrow> 'a api_end \<times> ('g, 'c) fenix_state) \<Rightarrow> ('g, 'c) fenix_state \<Rightarrow> 'a api_end \<times> ('g, 'c) fenix_state" where
  "without_log catch body s = next_step (enter_log catch s) (\<lambda>_ t. leave_log catch (mlog_active (fx_rt s)) (body t))"

section \<open>After a recovery\<close>

abbreviation (input) AUTOSYNC :: nat where "AUTOSYNC \<equiv> 2"

text \<open>\<open>sync\<close> of every log in the order of creation; the codes that it returns are not looked at.\<close>

fun sync_all :: "bool \<Rightarrow> (bool \<Rightarrow> comm_log \<Rightarrow> comm_log option) \<Rightarrow> int \<Rightarrow> int list \<Rightarrow> ('g, 'c) fenix_state \<Rightarrow> unit api_end \<times> ('g, 'c) fenix_state" where
  "sync_all catch converge continue [] s = (Returned (), s)"
| "sync_all catch converge continue (i # ids) s =
     next_step (on_rt (code_api catch (mlog_sync converge i continue)) s) (\<lambda>_. sync_all catch converge continue ids)"

definition postinit :: "bool \<Rightarrow> (bool \<Rightarrow> comm_log \<Rightarrow> comm_log option) \<Rightarrow> int \<Rightarrow> cb_call \<Rightarrow> ('g, 'c) fenix_state \<Rightarrow> unit api_end \<times> ('g, 'c) fenix_state" where
  "postinit catch converge continue call s =
     (if pr_final (fx_procs s) then (Returned (), s)
      else without_log catch (\<lambda>s.
        if pr_role (fx_procs s) = InitialRank then (Returned (), s)
        else next_step (invoke_all catch POST_RECOVERY call s) (\<lambda>_ s.
          if se_mlog_recovery (rt_settings (fx_rt s)) = AUTOSYNC then sync_all catch converge continue (rt_mlog_order (fx_rt s)) s
          else (Returned (), s)))
        (s\<lparr>fx_ret_role := pr_role (fx_procs s), fx_ret_error := pr_result (fx_procs s)\<rparr>))"

section \<open>The error handler\<close>

datatype mpi_error = ProcFailedPending | ProcFailed | CommRevoked | OtherMpiError

abbreviation (input) SILENT :: nat where "SILENT \<equiv> 0"
abbreviation (input) PRINT :: nat where "PRINT \<equiv> 1"

text \<open>
  \<open>ScopedIgnoreAndReturn\<close> around the repair gives the settings back, so that it only changes the processes.
  \<open>resume\<close> is how the handler returns to the application.
\<close>

definition resume_end :: "('g, 'c) fenix_state \<Rightarrow> unit api_end \<times> ('g, 'c) fenix_state" where
  "resume_end s = (resume_application (\<lambda>_. ()) (fx_rt s), s)"

definition repair_step ::
  "'g group_api \<Rightarrow> bool list \<Rightarrow> ('g \<times> attempt) list \<Rightarrow> ('g, 'c) fenix_state \<Rightarrow> (unit api_end \<times> ('g, 'c) fenix_state) option" where
  "repair_step gapi locs tries s =
     (case repair_ranks gapi (se_recovery (rt_settings (fx_rt s))) locs tries (fx_procs s) of
        None \<Rightarrow> None
      | Some (Inl e, p) \<Rightarrow> Some (Failed e, s\<lparr>fx_procs := p\<rparr>)
      | Some (Inr c, p) \<Rightarrow> Some (Returned (), s\<lparr>fx_procs := p\<lparr>pr_result := c, pr_role := SurvivorRank\<rparr>\<rparr>))"

text \<open>
  A failure that Fenix handles, inside the scope without a log; \<open>None\<close> when the repair does not end.  The
  communicators are revoked first.
\<close>

definition recover_step ::
  "bool \<Rightarrow> 'g group_api \<Rightarrow> bool list \<Rightarrow> ('g \<times> attempt) list \<Rightarrow> (bool \<Rightarrow> comm_log \<Rightarrow> comm_log option) \<Rightarrow> int \<Rightarrow> cb_call \<Rightarrow> cb_call \<Rightarrow>
    ('g, 'c) fenix_state \<Rightarrow> (unit api_end \<times> ('g, 'c) fenix_state) option" where
  "recover_step catch gapi locs tries converge continue pre post s =
     (case invoke_all catch PRE_RECOVERY pre s of
        (Failed e, s) \<Rightarrow> Some (Failed e, s)
      | (Jumped, s) \<Rightarrow> Some (Jumped, s)
      | (Returned _, s) \<Rightarrow> (case repair_step gapi locs tries s of
            None \<Rightarrow> None
          | Some r \<Rightarrow> Some (next_step r (\<lambda>_ s. next_step (postinit catch converge continue post s) (\<lambda>_ s. resume_end s)))))"

definition unhandled_step :: "('g, 'c) fenix_state \<Rightarrow> unit api_end \<times> ('g, 'c) fenix_state" where
  "unhandled_step s =
     (let mode = se_unhandled (rt_settings (fx_rt s)) in
     if mode = PRINT \<or> mode = SILENT then (Returned (), s) else (Failed Abort, s))"

definition error_handler ::
  "bool \<Rightarrow> 'g group_api \<Rightarrow> mpi_error \<Rightarrow> bool list \<Rightarrow> ('g \<times> attempt) list \<Rightarrow> (bool \<Rightarrow> comm_log \<Rightarrow> comm_log option) \<Rightarrow> int \<Rightarrow> cb_call \<Rightarrow> cb_call \<Rightarrow>
    ('g, 'c) fenix_state \<Rightarrow> (unit api_end \<times> ('g, 'c) fenix_state) option" where
  "error_handler catch gapi err locs tries converge continue pre post s =
     (if \<not> rt_init (fx_rt s) then Some (Returned (), s)
      else if err = OtherMpiError then Some (without_log catch unhandled_step s)
      else if se_recovery (rt_settings (fx_rt s)) = IGNORE then Some (without_log catch resume_end s)
      else
        (case enter_log catch s of
           (Returned _, t) \<Rightarrow> map_option (leave_log catch (mlog_active (fx_rt s))) (recover_step catch gapi locs tries converge continue pre post t)
         | (Failed e, t) \<Rightarrow> Some (Failed e, t)
         | (Jumped, t) \<Rightarrow> Some (Jumped, t)))"

section \<open>Looking for failures\<close>

text \<open>
  The loop of \<open>detect_failures\<close>: what every \<open>MPI_Test\<close> does, given as the code that it returns or the
  exception that the error handler throws; a message that matches the receive ends the process.  \<open>inline\<close> and \<open>must_return\<close> come from the settings.
\<close>

datatype test_result = Tested | TestFailed | TestMatched | TestThrew failure

fun detect_loop :: "bool \<Rightarrow> bool \<Rightarrow> test_result list \<Rightarrow> (failure + fenix_code) option" where
  "detect_loop inline must_return [] = None"
| "detect_loop inline must_return (t # ts) =
     (case t of
        Tested \<Rightarrow> Some (Inr FENIX_SUCCESS)
      | TestFailed \<Rightarrow> if inline then detect_loop inline must_return ts else Some (Inr FENIX_ERROR_PROCESS_FAILURE)
      | TestMatched \<Rightarrow> Some (Inl Abort)
      | TestThrew e \<Rightarrow>
          if e \<noteq> Comm then Some (Inl e)
          else if inline then detect_loop inline must_return ts
          else if must_return then Some (Inr FENIX_ERROR_PROCESS_FAILURE)
          else Some (Inl Comm))"

definition ignoring :: "bool \<Rightarrow> settings \<Rightarrow> settings" where
  "ignoring on se = (if on then put_setting RESUME_MODE RETURN (put_setting RECOVERY_MODE IGNORE se) else se)"

definition unignoring :: "bool \<Rightarrow> settings \<Rightarrow> settings \<Rightarrow> settings" where
  "unignoring on old se = (if on then put_setting RECOVERY_MODE (se_recovery old) (put_setting RESUME_MODE (se_resume old) se) else se)"

text \<open>Without recovery the function behaves as if the caller ignored failures and had errors returned.\<close>

definition detect_failures :: "bool \<Rightarrow> bool \<Rightarrow> test_result list \<Rightarrow> runtime \<Rightarrow> (fenix_code api_end \<times> runtime) option" where
  "detect_failures catch do_recovery tests rt =
     (if \<not> rt_init rt then Some (if catch then Returned FENIX_ERROR_UNINITIALIZED else Failed (Throw FENIX_ERROR_UNINITIALIZED), rt)
      else let rt1 = rt\<lparr>rt_settings := ignoring (\<not> do_recovery) (rt_settings rt)\<rparr> in
        map_option (\<lambda>r. case api catch (\<lambda>c. c) (\<lambda>rt. (r, rt)) rt1 of (e, rt2) \<Rightarrow>
            (e, rt2\<lparr>rt_settings := unignoring (\<not> do_recovery) (rt_settings rt) (rt_settings rt2)\<rparr>))
          (detect_loop (inline_recovery rt1) (se_resume (rt_settings rt1) = RETURN) tests))"

section \<open>Finalizing\<close>

text \<open>
  The first loop of \<open>Fenix_Finalize\<close> waits until all are here; in every round that is not the last one
  a barrier on the revoked communicator makes the error handler run.
\<close>

fun finalize_wait :: "(('g, 'c) fenix_state \<Rightarrow> unit api_end \<times> ('g, 'c) fenix_state) option list \<Rightarrow> ('g, 'c) fenix_state \<Rightarrow>
    (unit api_end \<times> ('g, 'c) fenix_state) option" where
  "finalize_wait [] s = None"
| "finalize_wait (None # rounds) s = Some (Returned (), s)"
| "finalize_wait (Some barrier # rounds) s =
     (case barrier s of
        (Returned _, s) \<Rightarrow> finalize_wait rounds s
      | r \<Rightarrow> Some r)"

text \<open>The second loop ends when the rank 0 has taken part; until then the user processes shrink.\<close>

fun finalize_notify :: "('g \<times> bool) list \<Rightarrow> 'g option \<Rightarrow> 'g option option" where
  "finalize_notify [] user = None"
| "finalize_notify ((w, retry) # rounds) user = (if retry then finalize_notify rounds (Some w) else Some user)"

definition finalized_procs :: "'g group_api \<Rightarrow> 'g procs \<Rightarrow> 'g procs" where
  "finalized_procs gapi p = (finalize_spare gapi p)\<lparr>pr_role := pr_role p\<rparr>"

definition initial_runtime :: "runtime \<Rightarrow> runtime" where
  "initial_runtime rt = rt\<lparr>rt_init := False, rt_final := True, rt_settings := initial_settings, rt_data := no_groups, rt_mlogs := [], rt_mlog_order := [], rt_active := MLOG_NONE\<rparr>"

definition finalize_body ::
  "'g group_api \<Rightarrow> (('g, 'c) fenix_state \<Rightarrow> unit api_end \<times> ('g, 'c) fenix_state) option list \<Rightarrow> ('g \<times> bool) list \<Rightarrow> ('g, 'c) fenix_state \<Rightarrow>
    (fenix_code api_end \<times> ('g, 'c) fenix_state) option" where
  "finalize_body gapi rounds notify s =
     (case finalize_wait rounds s of
        None \<Rightarrow> None
      | Some (Failed e, s) \<Rightarrow> Some (Failed e, s)
      | Some (Jumped, s) \<Rightarrow> Some (Jumped, s)
      | Some (Returned _, s) \<Rightarrow> (case finalize_notify notify (pr_user_world (fx_procs s)) of
            None \<Rightarrow> None
          | Some _ \<Rightarrow> Some (Returned FENIX_SUCCESS, s\<lparr>fx_procs := finalized_procs gapi (fx_procs s),
              fx_cb := \<lparr>cb_rt = initial_runtime (fx_rt s), cb_table = (\<lambda>_. []), cb_depth = cb_depth (fx_cb s)\<rparr>\<rparr>)))"

end
