(* ===== verification/Callback_Facts.thy ===== *)
theory Callback_Facts
  imports Callbacks
begin

text \<open>
  Nested invocations of callbacks: once a failure has started a newer invocation, no older one starts a
  callback, and the last one starts all of them.
\<close>

section \<open>Layers\<close>

definition layers_ok :: "nat \<Rightarrow> nat \<Rightarrow> (nat \<times> 'c) list \<Rightarrow> bool" where
  "layers_ok lo hi xs \<longleftrightarrow> sorted (map fst xs) \<and> (\<forall>x \<in> set xs. lo \<le> fst x \<and> fst x < hi)"

lemma layers_append:
  "layers_ok lo mid xs \<Longrightarrow> layers_ok mid hi ys \<Longrightarrow> lo \<le> mid \<Longrightarrow> mid \<le> hi \<Longrightarrow> layers_ok lo hi (xs @ ys)"
proof -
  assume a: "layers_ok lo mid xs" "layers_ok mid hi ys" "lo \<le> mid" "mid \<le> hi"
  have "x \<le> y" if "x \<in> fst ` set xs" "y \<in> fst ` set ys" for x y
  proof -
    have "x < mid" "mid \<le> y" using a(1,2) that by (auto simp: layers_ok_def)
    then show ?thesis by simp
  qed
  moreover have "lo \<le> fst x \<and> fst x < hi" if "x \<in> set xs \<union> set ys" for x
  proof -
    have "x \<in> set xs \<Longrightarrow> lo \<le> fst x \<and> fst x < mid" "x \<in> set ys \<Longrightarrow> mid \<le> fst x \<and> fst x < hi" using a(1,2) by (auto simp: layers_ok_def)
    then show ?thesis using that a(3,4) by auto
  qed
  ultimately show "layers_ok lo hi (xs @ ys)" using a(1,2) by (simp add: layers_ok_def sorted_append)
qed

lemma layers_cons: "layers_ok l hi xs \<Longrightarrow> l < hi \<Longrightarrow> layers_ok l hi ((l, c) # xs)"
  by (auto simp: layers_ok_def)

lemma layers_weaken: "layers_ok lo hi xs \<Longrightarrow> lo' \<le> lo \<Longrightarrow> hi \<le> hi' \<Longrightarrow> layers_ok lo' hi' xs"
  by (fastforce simp: layers_ok_def)

lemma layers_same: "l < hi \<Longrightarrow> layers_ok l hi (map (Pair l) cs)"
  by (induction cs) (auto simp: layers_ok_def)

lemma layers_nil [simp]: "layers_ok lo hi []"
  by (simp add: layers_ok_def)

lemma invoke_layers:
  fixes cbs :: "'c list"
  shows "\<And>t d st. invoke mode cbs call depth = (t, d, st) \<Longrightarrow> (\<exists>hi. depth < hi \<and> layers_ok depth hi st \<and> d = (if depth = 0 then 0 else hi))"
    and "\<And>t d st. run_list mode cbs layer rest runs depth' = (t, d, st) \<Longrightarrow>
      (if depth' = layer + 1 then layer + 1 \<le> d \<and> layers_ok layer d st else d = depth' \<and> st = [])"
    and "\<And>t d st. run_callback mode cbs run depth' = (t, d, st) \<Longrightarrow> 0 < depth' \<Longrightarrow> depth' \<le> d \<and> layers_ok depth' d st"
    and "\<And>t d st. run_failures mode cbs calls depth' = (t, d, st) \<Longrightarrow> 0 < depth' \<Longrightarrow> depth' \<le> d \<and> layers_ok depth' d st \<and> (calls \<noteq> [] \<longrightarrow> depth' < d)"
proof (induction mode cbs call depth and mode cbs layer rest runs depth' and mode cbs run depth' and mode cbs calls depth'
    rule: invoke_run_list_run_callback_run_failures.induct)
  case (1 mode cbs runs depth)
  obtain thrown hi started where r: "run_list mode cbs depth cbs runs (depth + 1) = (thrown, hi, started)" by (metis prod_cases3)
  then have "depth < hi \<and> layers_ok depth hi started" using "1.IH" [OF r] by simp
  moreover have "st = started" "d = (if depth = 0 then 0 else hi)" using "1.prems" r by simp_all
  ultimately show ?case by (intro exI [of _ hi]) simp
next
  case (3 mode cbs layer cb rest depth)
  then show ?case using layers_same [of layer depth "cb # rest"] by (auto split: if_splits)
next
  case (4 mode cbs layer cb rest run runs depth)
  show ?case
  proof (cases "depth = layer + 1")
    case True
    obtain thrown hi started where r: "run_callback mode cbs run depth = (thrown, hi, started)" by (metis prod_cases3)
    have one: "depth \<le> hi \<and> layers_ok depth hi started" using "4.IH"(1) [OF _ r] True by simp
    then have "layers_ok layer hi started" using layers_weaken [of depth hi started layer hi] True by simp
    then have here: "layers_ok layer hi ((layer, cb) # started)" using one True by (intro layers_cons) simp_all
    show ?thesis
    proof (cases thrown)
      case True
      then show ?thesis using "4.prems" r \<open>depth = layer + 1\<close> one here by simp
    next
      case False
      obtain thrown' hi' later where l: "run_list mode cbs layer rest runs hi = (thrown', hi', later)" by (metis prod_cases3)
      have e: "t = thrown'" "d = hi'" "st = (layer, cb) # started @ later" using "4.prems" r l \<open>depth = layer + 1\<close> False by simp_all
      have two: "if hi = layer + 1 then layer + 1 \<le> hi' \<and> layers_ok layer hi' later else hi' = hi \<and> later = []"
        using "4.IH"(2) [OF _ r [symmetric] _ refl l] False \<open>depth = layer + 1\<close> by simp
      show ?thesis
      proof (cases "hi = layer + 1")
        case True
        then have "layers_ok depth depth started" using one \<open>depth = layer + 1\<close> by simp
        then have "started = []" by (cases started) (auto simp: layers_ok_def)
        then show ?thesis using two True e \<open>depth = layer + 1\<close> layers_cons [of layer hi' later cb] by simp
      next
        case False
        then show ?thesis using two e here one \<open>depth = layer + 1\<close> by simp
      qed
    qed
  qed (use "4.prems" in simp)
next
  case (5 mode cbs calls throws depth)
  then show ?case by (auto split: prod.splits)
next
  case (7 mode cbs call calls depth)
  obtain thrown d1 started where r: "invoke mode cbs call depth = (thrown, d1, started)" by (metis prod_cases3)
  have one: "depth < d1 \<and> layers_ok depth d1 started" using "7.IH"(1) [OF r] "7.prems"(2) by auto
  show ?case
  proof (cases thrown)
    case True
    then show ?thesis using "7.prems" r one by auto
  next
    case False
    obtain thrown' d2 later where l: "run_failures mode cbs calls d1 = (thrown', d2, later)" by (metis prod_cases3)
    have two: "d1 \<le> d2 \<and> layers_ok d1 d2 later" using "7.IH"(2) [OF r [symmetric] _ refl l] False one by simp
    then show ?thesis using "7.prems" r l False one layers_append [of depth d1 started d2 later] by auto
  qed
qed auto

section \<open>The last invocation\<close>

text \<open>
  An invocation of \<open>n\<close> callbacks is settled when the last failure below it is followed by an invocation that nothing
  disturbs.
\<close>

fun settled :: "nat \<Rightarrow> cb_call \<Rightarrow> bool"
  and settled_runs :: "nat \<Rightarrow> nat \<Rightarrow> cb_run list \<Rightarrow> bool"
  and settled_run :: "nat \<Rightarrow> cb_run \<Rightarrow> bool"
  and settled_calls :: "nat \<Rightarrow> cb_call list \<Rightarrow> bool" where
  "settled n (Cb_Call runs) = settled_runs n n runs"
| "settled_runs n 0 runs = True"
| "settled_runs n (Suc k) [] = True"
| "settled_runs n (Suc k) (run # runs) = (case run of Cb_Run calls throws \<Rightarrow>
     if calls = [] then \<not> throws \<and> settled_runs n k runs else settled_run n run)"
| "settled_run n (Cb_Run calls throws) = settled_calls n calls"
| "settled_calls n [] = False"
| "settled_calls n (call # calls) = (if calls = [] then settled n call else settled_calls n calls)"

text \<open>The callbacks that were started last are all of them, in the order of registration.\<close>

definition ends_with_all :: "'c list \<Rightarrow> (nat \<times> 'c) list \<Rightarrow> bool" where
  "ends_with_all cs xs \<longleftrightarrow> (\<exists>pre layer. xs = pre @ map (Pair layer) cs)"

lemma ends_prepend: "ends_with_all cs xs \<Longrightarrow> ends_with_all cs (ys @ xs)"
  unfolding ends_with_all_def by (metis append_assoc)

lemma squashed: "mode \<noteq> RETHROW \<Longrightarrow> fst (invoke mode cbs call depth) = False"
  by (cases call) (auto split: prod.splits)

lemma last_invocation:
  fixes cbs :: "'c list"
  assumes mode: "mode \<noteq> RETHROW"
  shows "\<And>t d st. invoke mode cbs call depth = (t, d, st) \<Longrightarrow> settled (length cbs) call \<Longrightarrow> ends_with_all cbs st"
    and "\<And>t d st. run_list mode cbs layer rest runs depth' = (t, d, st) \<Longrightarrow> depth' = layer + 1 \<Longrightarrow> settled_runs (length cbs) (length rest) runs \<Longrightarrow>
      st = map (Pair layer) rest \<or> ends_with_all cbs st"
    and "\<And>t d st. run_callback mode cbs run depth' = (t, d, st) \<Longrightarrow> settled_run (length cbs) run \<Longrightarrow> ends_with_all cbs st"
    and "\<And>t d st. run_failures mode cbs calls depth' = (t, d, st) \<Longrightarrow> settled_calls (length cbs) calls \<Longrightarrow> ends_with_all cbs st"
  using mode
proof (induction mode cbs call depth and mode cbs layer rest runs depth' and mode cbs run depth' and mode cbs calls depth'
    rule: invoke_run_list_run_callback_run_failures.induct)
  case (1 mode cbs runs depth)
  obtain thrown hi started where r: "run_list mode cbs depth cbs runs (depth + 1) = (thrown, hi, started)" by (metis prod_cases3)
  have "started = map (Pair depth) cbs \<or> ends_with_all cbs started" using "1.IH" [OF r refl] "1.prems"(2,3) by simp
  moreover have "ends_with_all cbs (map (Pair depth) cbs)" unfolding ends_with_all_def by (metis append_Nil)
  moreover have "st = started" using "1.prems"(1) r by simp
  ultimately show ?case by blast
next
  case (4 mode cbs layer cb rest run runs depth)
  obtain calls throws where run: "run = Cb_Run calls throws" by (cases run)
  obtain thrown hi started where r: "run_callback mode cbs run depth = (thrown, hi, started)" by (metis prod_cases3)
  obtain thrown' hi' later where l: "run_list mode cbs layer rest runs hi = (thrown', hi', later)" by (metis prod_cases3)
  show ?case
  proof (cases "calls = []")
    case True
    then have q: "thrown = False" "hi = depth" "started = []" using r "4.prems"(3) run by simp_all
    have "later = map (Pair layer) rest \<or> ends_with_all cbs later"
      using "4.IH"(2) [OF _ r [symmetric] _ refl l] q "4.prems"(2-4) run True by simp
    moreover have "st = [(layer, cb)] @ later" using "4.prems"(1,2) r l q by simp
    ultimately show ?thesis using ends_prepend [of cbs later "[(layer, cb)]"] by auto
  next
    case False
    then have "settled_run (length cbs) run" using "4.prems"(3) run by simp
    then have ends: "ends_with_all cbs started" using "4.IH"(1) [OF _ r] "4.prems"(2,4) by simp
    have "depth < hi"
    proof -
      obtain th where f: "run_failures mode cbs calls depth = (th, hi, started)" using r run by (auto split: prod.splits)
      show ?thesis using invoke_layers(4) [OF f] False "4.prems"(2) by simp
    qed
    then have "later = []" using invoke_layers(2) [OF l] "4.prems"(2) by (simp split: if_splits)
    then have "st = [(layer, cb)] @ started" using "4.prems"(1,2) r l by (cases thrown) simp_all
    then show ?thesis using ends_prepend [OF ends, of "[(layer, cb)]"] by simp
  qed
next
  case (5 mode cbs calls throws depth)
  then show ?case by (auto split: prod.splits)
next
  case (7 mode cbs call calls depth)
  obtain thrown d1 started where r: "invoke mode cbs call depth = (thrown, d1, started)" by (metis prod_cases3)
  have no: "thrown = False" using squashed [OF "7.prems"(3), of cbs call depth] r by simp
  obtain thrown' d2 later where l: "run_failures mode cbs calls d1 = (thrown', d2, later)" by (metis prod_cases3)
  have st: "st = started @ later" using "7.prems"(1) r l no by simp
  show ?case
  proof (cases "calls = []")
    case True
    then have "later = []" using l by simp
    then show ?thesis using "7.IH"(1) [OF r] "7.prems"(2,3) True st by simp
  next
    case False
    then have "ends_with_all cbs later" using "7.IH"(2) [OF r [symmetric] _ refl l] no "7.prems"(2,3) by simp
    then show ?thesis unfolding st by (rule ends_prepend)
  qed
qed (auto split: if_splits)

end
