(* ===== verification/Handler_Facts.thy ===== *)
theory Handler_Facts
  imports Handler Callback_Facts Process_Roles
begin

text \<open>
  A failure that Fenix handles, from the error of an MPI function to the return to the application: the
  processes are repaired, the callbacks run, and the settings and the active log are as they were.
\<close>

section \<open>Callbacks in their frame\<close>

lemma internal_cb [simp]: "se_cb_exception (internal_settings se) = se_cb_exception se"
  by (simp add: internal_settings_def put_setting_def)

definition pre_recovered :: "nat \<Rightarrow> runtime \<Rightarrow> runtime" where
  "pre_recovered loc rt = (if loc = PRE_RECOVERY then rt\<lparr>rt_mlogs := map (\<lambda>(i, c). (i, comm_pre_recovery c)) (rt_mlogs rt)\<rparr> else rt)"

lemma pre_recovered_facts [simp]:
  "rt_init (pre_recovered loc rt) = rt_init rt" "rt_final (pre_recovered loc rt) = rt_final rt" "rt_settings (pre_recovered loc rt) = rt_settings rt"
  "rt_active (pre_recovered loc rt) = rt_active rt" "rt_mlog_order (pre_recovered loc rt) = rt_mlog_order rt"
  by (simp_all add: pre_recovered_def)

lemma pre_recovered_keys: "map fst (rt_mlogs (pre_recovered loc rt)) = map fst (rt_mlogs rt)"
  by (simp add: pre_recovered_def comp_def case_prod_unfold)

lemma pre_recovered_ok: "mlogs_ok rt \<Longrightarrow> mlogs_ok (pre_recovered loc rt)"
proof -
  assume ok: "mlogs_ok rt"
  have "kset_ok fst (rt_mlogs (pre_recovered loc rt)) = kset_ok fst (rt_mlogs rt)"
    using pre_recovered_keys [of loc rt] by (simp add: kset_ok_def sorted_wrt_map [of "(<)" fst, symmetric])
  moreover have "fst ` set (rt_mlogs (pre_recovered loc rt)) = fst ` set (rt_mlogs rt)"
    using arg_cong [OF pre_recovered_keys [of loc rt], of set] by simp
  ultimately show ?thesis using ok by (auto simp: mlogs_ok_def)
qed

text \<open>With exceptions squashed an invocation always returns, and the outermost one resets the depth.\<close>

lemma invoke_all_run:
  assumes rt: "rt_init (fx_rt s)" "settings_ok (rt_settings (fx_rt s))" and sq: "se_cb_exception (rt_settings (fx_rt s)) \<noteq> RETHROW" and d: "cb_depth (fx_cb s) = 0"
  shows "invoke_all catch loc call s = (Returned FENIX_SUCCESS, set_rt (pre_recovered loc (fx_rt s)) s)"
proof -
  let ?c = "fx_cb s" and ?rt = "fx_rt s"
  let ?inside = "?rt\<lparr>rt_settings := internal_settings (rt_settings ?rt)\<rparr>"
  obtain d st where i: "invoke (se_cb_exception (rt_settings ?rt)) (cb_table ?c loc) call 0 = (False, d, st)"
    using squashed [OF sq] by (metis prod.collapse)
  have "d = 0" using invoke_layers(1) [OF i] by auto
  then have body: "invoke_body loc call (?c\<lparr>cb_rt := ?inside\<rparr>) = (Inr FENIX_SUCCESS, ?c\<lparr>cb_rt := pre_recovered loc ?inside\<rparr>)"
    using i d by (cases "loc = 0") (simp_all add: invoke_body_def pre_recovered_def)
  have r: "(pre_recovered loc ?inside)\<lparr>rt_settings := restore_settings (rt_settings ?rt) (internal_settings (rt_settings ?rt))\<rparr> = pre_recovered loc ?rt"
    by (simp add: pre_recovered_def restore_internal)
  have "api catch (\<lambda>c. c) (\<lambda>rt. case invoke_body loc call (?c\<lparr>cb_rt := rt\<rparr>) of (r, s') \<Rightarrow> (r, cb_rt s')) ?rt = (Returned FENIX_SUCCESS, pre_recovered loc ?rt)"
    using api_run [of ?rt "\<lambda>rt. case invoke_body loc call (?c\<lparr>cb_rt := rt\<rparr>) of (r, s') \<Rightarrow> (r, cb_rt s')", OF rt, of "Inr FENIX_SUCCESS" "pre_recovered loc ?inside"] body rt(1)
    by (simp add: Let_def r api_result_def)
  then show ?thesis
    using body rt(1) by (simp add: invoke_all_def callback_invoke_all_def cb_frame_def Let_def set_rt_def)
qed

section \<open>Scopes\<close>

lemma on_rt_run: "f (fx_rt s) = (r, rt) \<Longrightarrow> on_rt f s = ((case r of Inl e \<Rightarrow> Failed e | Inr x \<Rightarrow> Returned x), set_rt rt s)"
  by (cases r) (simp_all add: on_rt_def)

lemma set_rt_facts [simp]:
  "fx_rt (set_rt rt s) = rt" "fx_procs (set_rt rt s) = fx_procs s" "fx_ret_role (set_rt rt s) = fx_ret_role s" "fx_ret_error (set_rt rt s) = fx_ret_error s"
  "cb_table (fx_cb (set_rt rt s)) = cb_table (fx_cb s)" "cb_depth (fx_cb (set_rt rt s)) = cb_depth (fx_cb s)" "set_rt rt (set_rt rt' s) = set_rt rt s"
  by (simp_all add: set_rt_def)

lemma enter_run:
  assumes "rt_init (fx_rt s)" "settings_ok (rt_settings (fx_rt s))"
  shows "enter_log catch s = (Returned FENIX_SUCCESS, set_rt ((fx_rt s)\<lparr>rt_active := MLOG_NONE\<rparr>) s)"
  using code_api_activate [OF assms, of MLOG_NONE catch] by (simp add: enter_log_def on_rt_def)

lemma leave_run:
  assumes "rt_init (fx_rt s)" "settings_ok (rt_settings (fx_rt s))" "old = MLOG_NONE \<or> search_mlog old (fx_rt s) \<noteq> None"
  shows "leave_log catch old (r, s) = (r, case r of Jumped \<Rightarrow> s | _ \<Rightarrow> set_rt ((fx_rt s)\<lparr>rt_active := old\<rparr>) s)"
  using code_api_activate [OF assms, of catch] assms(1)
  by (cases r) (simp_all add: leave_log_def on_rt_def leave_mlog_def)

lemma active_known: "mlogs_ok rt \<Longrightarrow> rt_active rt = MLOG_NONE \<or> search_mlog (rt_active rt) rt \<noteq> None"
  using search_mlog_None [of rt "rt_active rt"] by (auto simp: mlogs_ok_def)

lemma search_pre [simp]: "search_mlog i (pre_recovered loc rt) = None \<longleftrightarrow> search_mlog i rt = None"
proof -
  have "kset_find fst i (map (\<lambda>(i, c). (i, comm_pre_recovery c)) xs) = None \<longleftrightarrow> kset_find fst i xs = None" for xs :: "(int \<times> comm_log) list"
    by (induction xs) (auto simp: kset_find_def)
  then show ?thesis by (simp add: search_mlog_def pre_recovered_def)
qed

section \<open>A failure that is handled\<close>

lemma postinit_run:
  fixes s :: "('g, 'c) fenix_state"
  assumes rt: "rt_init (fx_rt s)" "\<not> rt_final (fx_rt s)" "settings_ok (rt_settings (fx_rt s))" "mlogs_ok (fx_rt s)"
    and se: "se_cb_exception (rt_settings (fx_rt s)) \<noteq> RETHROW" "se_mlog_recovery (rt_settings (fx_rt s)) \<noteq> AUTOSYNC"
    and cb: "cb_depth (fx_cb s) = 0" and p: "\<not> pr_final (fx_procs s)"
  shows "postinit catch converge continue call s = (Returned (), s\<lparr>fx_ret_role := pr_role (fx_procs s), fx_ret_error := pr_result (fx_procs s)\<rparr>)"
proof -
  let ?s = "s\<lparr>fx_ret_role := pr_role (fx_procs s), fx_ret_error := pr_result (fx_procs s)\<rparr>"
  let ?t = "set_rt ((fx_rt s)\<lparr>rt_active := MLOG_NONE\<rparr>) ?s"
  define body where "body = (\<lambda>s :: ('g, 'c) fenix_state. if pr_role (fx_procs s) = InitialRank then (Returned (), s)
    else next_step (invoke_all catch POST_RECOVERY call s) (\<lambda>_ s.
      if se_mlog_recovery (rt_settings (fx_rt s)) = AUTOSYNC then sync_all catch converge continue (rt_mlog_order (fx_rt s)) s
      else (Returned (), s)))"
  have "invoke_all catch POST_RECOVERY call ?t = (Returned FENIX_SUCCESS, ?t)"
    using invoke_all_run [of ?t catch POST_RECOVERY call] rt(1,3) se(1) cb by (simp add: pre_recovered_def)
  then have b: "body ?t = (Returned (), ?t)" using se(2) by (simp add: body_def next_step_def)
  have old: "mlog_active (fx_rt ?s) = rt_active (fx_rt s)" using rt(2) by (simp add: mlog_active_def)
  have known: "rt_active (fx_rt s) = MLOG_NONE \<or> search_mlog (rt_active (fx_rt s)) (fx_rt ?t) \<noteq> None" using active_known [OF rt(4)] by simp
  have "leave_log catch (rt_active (fx_rt s)) (Returned (), ?t) = (Returned (), ?s)"
    using leave_run [OF _ _ known, of catch "Returned ()"] rt(1,3) by (simp add: set_rt_def)
  then have "without_log catch body ?s = (Returned (), ?s)"
    using enter_run [of ?s catch] rt(1,3) old b by (simp add: without_log_def next_step_def)
  then show ?thesis using p by (simp add: postinit_def body_def)
qed

lemma handler_run:
  assumes g: "groups_ok gapi mem me" and ok: "consistent mem (fx_procs s)" "\<not> pr_final (fx_procs s)" and tries: "shrinking mem me (pr_world (fx_procs s)) tries"
    and good: "(w, a) \<in> set tries" "succeeds a" and locs: "True \<in> set locs"
    and rt: "rt_init (fx_rt s)" "\<not> rt_final (fx_rt s)" "settings_ok (rt_settings (fx_rt s))" "mlogs_ok (fx_rt s)"
    and se: "se_recovery (rt_settings (fx_rt s)) \<notin> {0, 1}" "se_cb_exception (rt_settings (fx_rt s)) \<noteq> RETHROW" "se_mlog_recovery (rt_settings (fx_rt s)) \<noteq> AUTOSYNC"
    and cb: "cb_depth (fx_cb s) = 0" and err: "err \<noteq> OtherMpiError"
  shows "\<exists>c p. repaired mem me (fx_procs s) c p \<and>
    error_handler catch gapi err locs tries converge continue pre post s
      = Some (resume_application (\<lambda>_. ()) (fx_rt s),
          set_rt (if se_resume (rt_settings (fx_rt s)) = JUMP then (pre_recovered PRE_RECOVERY (fx_rt s))\<lparr>rt_active := MLOG_NONE\<rparr> else pre_recovered PRE_RECOVERY (fx_rt s))
           (s\<lparr>fx_procs := p\<lparr>pr_result := c, pr_role := SurvivorRank\<rparr>, fx_ret_role := SurvivorRank, fx_ret_error := c\<rparr>))"
proof -
  let ?rt = "fx_rt s"
  let ?t = "set_rt (?rt\<lparr>rt_active := MLOG_NONE\<rparr>) s"
  let ?rt1 = "(pre_recovered PRE_RECOVERY ?rt)\<lparr>rt_active := MLOG_NONE\<rparr>"
  have eq1: "pre_recovered PRE_RECOVERY (?rt\<lparr>rt_active := MLOG_NONE\<rparr>) = ?rt1" by (simp add: pre_recovered_def)
  have pre: "invoke_all catch PRE_RECOVERY pre ?t = (Returned FENIX_SUCCESS, set_rt ?rt1 s)"
    using invoke_all_run [of ?t catch PRE_RECOVERY pre] rt(1,3) se(2) cb by (simp add: eq1)
  obtain c p where r: "repair_ranks gapi (se_recovery (rt_settings ?rt)) locs tries (fx_procs s) = Some (Inr c, p)" and rep: "repaired mem me (fx_procs s) c p"
    using repair_run [OF g ok(1) tries, of "se_recovery (rt_settings ?rt)" locs] se(1) locs good by auto
  have fin: "\<not> pr_final p" using rep ok(2) by (simp add: repaired_def evolved_def)
  let ?p = "p\<lparr>pr_result := c, pr_role := SurvivorRank\<rparr>"
  let ?u = "(set_rt ?rt1 s)\<lparr>fx_procs := ?p\<rparr>"
  let ?v = "?u\<lparr>fx_ret_role := SurvivorRank, fx_ret_error := c\<rparr>"
  have repair: "repair_step gapi locs tries (set_rt ?rt1 s) = Some (Returned (), ?u)" using r by (simp add: repair_step_def)
  have rtu: "fx_rt ?u = ?rt1" by (simp add: set_rt_def)
  have ok1: "mlogs_ok ?rt1" using pre_recovered_ok [OF rt(4), of PRE_RECOVERY] by (simp add: mlogs_ok_def)
  have post: "postinit catch converge continue post ?u = (Returned (), ?v)"
    using postinit_run [of ?u catch converge continue post] rt(1-3) se(2,3) cb fin ok1 by (simp add: rtu)
  have res: "resume_application (\<lambda>_. ()) (fx_rt ?v) = resume_application (\<lambda>_. ()) ?rt"
    by (simp add: resume_application_def set_rt_def)
  have step: "recover_step catch gapi locs tries converge continue pre post ?t = Some (resume_application (\<lambda>_. ()) ?rt, ?v)"
    using pre repair post res by (simp add: recover_step_def next_step_def resume_end_def)
  have known: "rt_active ?rt = MLOG_NONE \<or> search_mlog (rt_active ?rt) (fx_rt ?v) \<noteq> None" using active_known [OF rt(4)] by (simp add: set_rt_def)
  have old: "mlog_active ?rt = rt_active ?rt" using rt(2) by (simp add: mlog_active_def)
  have leave: "leave_log catch (rt_active ?rt) (resume_application (\<lambda>_. ()) ?rt, ?v)
      = (resume_application (\<lambda>_. ()) ?rt, case resume_application (\<lambda>_. ()) ?rt of Jumped \<Rightarrow> ?v | _ \<Rightarrow> set_rt ((fx_rt ?v)\<lparr>rt_active := rt_active ?rt\<rparr>) ?v)"
    using rt(1,3) by (intro leave_run [OF _ _ known]) (simp_all add: set_rt_def)
  have "error_handler catch gapi err locs tries converge continue pre post s
      = Some (resume_application (\<lambda>_. ()) ?rt, case resume_application (\<lambda>_. ()) ?rt of Jumped \<Rightarrow> ?v | _ \<Rightarrow> set_rt ((fx_rt ?v)\<lparr>rt_active := rt_active ?rt\<rparr>) ?v)"
    using rt(1) err se(1) enter_run [OF rt(1,3), of catch] step leave old by (simp add: error_handler_def)
  moreover have "(case resume_application (\<lambda>_. ()) ?rt of Jumped \<Rightarrow> ?v | _ \<Rightarrow> set_rt ((fx_rt ?v)\<lparr>rt_active := rt_active ?rt\<rparr>) ?v)
      = set_rt (if se_resume (rt_settings ?rt) = JUMP then ?rt1 else pre_recovered PRE_RECOVERY ?rt)
           (s\<lparr>fx_procs := ?p, fx_ret_role := SurvivorRank, fx_ret_error := c\<rparr>)"
    using rt(1,2) by (simp add: resume_application_def set_rt_def Let_def pre_recovered_def)
  ultimately show ?thesis using rep by (intro exI [of _ c] exI [of _ p]) simp
qed

section \<open>Looking for failures\<close>

text \<open>With inline recovery the loop goes on until a test succeeds.\<close>

lemma detect_inline:
  "\<forall>t \<in> set fails. t = TestFailed \<or> t = TestThrew Comm \<Longrightarrow> detect_loop True must_return (fails @ [Tested]) = Some (Inr FENIX_SUCCESS)"
  by (induction fails) auto

definition quiet :: "test_result \<Rightarrow> fenix_code" where
  "quiet t = (if t = Tested then FENIX_SUCCESS else FENIX_ERROR_PROCESS_FAILURE)"

lemma ignoring_ok: "settings_ok se \<Longrightarrow> settings_ok (ignoring on se)"
  by (simp add: ignoring_def put_setting_ok option_bound_def)

lemma ignoring_sel: "se_recovery (ignoring True se) = IGNORE" "se_resume (ignoring True se) = RETURN"
  by (simp_all add: ignoring_def put_setting_def)

lemma unignoring: "unignoring True old (ignoring True old) = old"
  by (simp add: unignoring_def ignoring_def put_setting_def)

text \<open>Without recovery the first test decides, and no exception is thrown.\<close>

lemma detect_run:
  assumes rt: "rt_init rt" "settings_ok (rt_settings rt)" and t: "t \<in> {Tested, TestFailed, TestThrew Comm}"
  shows "detect_failures catch False (t # ts) rt = Some (Returned (quiet t), rt)"
proof -
  let ?rt1 = "rt\<lparr>rt_settings := ignoring True (rt_settings rt)\<rparr>"
  have l: "detect_loop (inline_recovery ?rt1) (se_resume (rt_settings ?rt1) = RETURN) (t # ts) = Some (Inr (quiet t))"
    using t by (auto simp: inline_recovery_def ignoring_sel quiet_def)
  have ok: "settings_ok (rt_settings ?rt1)" using rt(2) by (simp add: ignoring_ok)
  have i: "rt_init ?rt1" using rt(1) by simp
  have "api catch (\<lambda>c. c) (\<lambda>rt. (Inr (quiet t), rt)) ?rt1 = (Returned (quiet t), ?rt1)"
    using api_run [of ?rt1 "\<lambda>rt. (Inr (quiet t), rt)" "Inr (quiet t)", OF i ok refl] rt(1)
    by (simp add: Let_def api_result_def restore_internal)
  then show ?thesis using rt(1) unfolding detect_failures_def Let_def not_False_eq_True l by (simp add: unignoring)
qed

section \<open>Finalizing\<close>

text \<open>When all are in \<open>Fenix_Finalize\<close> and the rank 0 takes part, the state is that of a finalized process.\<close>

lemma finalize_run:
  assumes "\<forall>b \<in> set rounds. \<forall>s. \<exists>t. b s = (Returned (), t)" "\<forall>r \<in> set shrinks. snd r"
  shows "\<exists>t. finalize_body gapi (map Some rounds @ [None]) (shrinks @ [(w, False)]) s = Some (Returned FENIX_SUCCESS, t) \<and>
    pr_final (fx_procs t) \<and> rt_final (fx_rt t) \<and> \<not> rt_init (fx_rt t) \<and> pr_rank_pid (fx_procs t) = [] \<and> rt_mlogs (fx_rt t) = []"
proof -
  have wait: "\<exists>t. finalize_wait (map Some rounds @ [None]) s = Some (Returned (), t)"
    using assms(1)
  proof (induction rounds arbitrary: s)
    case (Cons b rounds)
    obtain t where "b s = (Returned (), t)" using Cons.prems by (meson list.set_intros(1))
    then show ?case using Cons by simp
  qed simp
  have notify: "\<exists>u. finalize_notify (shrinks @ [(w, False)]) user = Some u" for user
    using assms(2) by (induction shrinks arbitrary: user) auto
  obtain t where t: "finalize_wait (map Some rounds @ [None]) s = Some (Returned (), t)" using wait by blast
  obtain u where "finalize_notify (shrinks @ [(w, False)]) (pr_user_world (fx_procs t)) = Some u" using notify by blast
  then show ?thesis using t
    by (simp add: finalize_body_def finalized_procs_def finalize_spare_def initial_runtime_def)
qed

end
