(* ===== verification/Mstream.thy ===== *)
theory Mstream
  imports Outcome Buffer Subset
begin

text \<open>
  Streams over memory (include/fenix/data/util/mstream.hpp, src/data/util/mstream.cpp), through which serializers of
  the application write their data: \<open>OMmapStreamBuf\<close> grows a mapping of claimed address space, of
  which a part is writable; \<open>MStreamBuf\<close> is a fixed buffer.  The pointers of a \<open>std::streambuf\<close> are addresses.
\<close>

section \<open>The mapped memory\<close>

text \<open>
  The sizes that the class is set to, the size of a page, and what \<open>mmap\<close> and \<open>mremap\<close> return: an
  address, or \<open>None\<close> when they fail.  \<open>mremap\<close> takes the address and the new length, and may move.
\<close>

record memory =
  mm_claim_target :: nat
  mm_write_target :: nat
  mm_page :: nat
  mm_map :: "nat option"
  mm_remap :: "nat \<Rightarrow> nat \<Rightarrow> nat option"
  mm_has_remap :: bool

text \<open>A multiple of the page size; \<open>chunk < 0.75 * target\<close> in double precision is exact for these sizes.\<close>

definition chunk_size :: "nat \<Rightarrow> nat \<Rightarrow> nat" where
  "chunk_size page target =
     (let chunk = target div page * page in if 4 * chunk < 3 * target then chunk + page else chunk)"

abbreviation claim_chunk :: "memory \<Rightarrow> nat" where "claim_chunk mm \<equiv> chunk_size (mm_page mm) (mm_claim_target mm)"
abbreviation write_chunk :: "memory \<Rightarrow> nat" where "write_chunk mm \<equiv> chunk_size (mm_page mm) (mm_write_target mm)"

section \<open>The growing stream\<close>

text \<open>
  \<open>ds_mem\<close> are the bytes of the claimed space, from \<open>ds_addr\<close> on; \<open>ds_ptr\<close> and \<open>ds_end\<close> are \<open>pptr\<close> and
  \<open>epptr\<close>.
\<close>

record dyn_stream =
  ds_addr :: nat
  ds_mem :: "byte list"
  ds_writable :: nat
  ds_high :: nat
  ds_ptr :: nat
  ds_end :: nat

definition ds_claim :: "dyn_stream \<Rightarrow> nat" where
  "ds_claim s = length (ds_mem s)"

definition open_stream :: "memory \<Rightarrow> failure + dyn_stream" where
  "open_stream mm =
     (if write_chunk mm \<le> claim_chunk mm then
        (case mm_map mm of
           None \<Rightarrow> Inl Abort
         | Some a \<Rightarrow> Inr \<lparr>ds_addr = a, ds_mem = replicate (claim_chunk mm) 0, ds_writable = write_chunk mm, ds_high = 0,
             ds_ptr = a, ds_end = a + write_chunk mm\<rparr>)
      else Inl Abort)"

definition written_len :: "dyn_stream \<Rightarrow> nat" where
  "written_len s = max (sz_sub (ds_ptr s) (ds_addr s)) (ds_high s)"

text \<open>A store through a pointer; outside of the writable pages it ends the process.\<close>

definition poke :: "nat \<Rightarrow> byte \<Rightarrow> (dyn_stream, unit) comp" where
  "poke p b s =
     (if ds_addr s \<le> p \<and> p < ds_addr s + ds_writable s \<and> p < ds_addr s + ds_claim s
      then (Inr (), s\<lparr>ds_mem := (ds_mem s)[p - ds_addr s := b]\<rparr>) else (Inl Abort, s))"

definition grow_len :: "nat \<Rightarrow> nat \<Rightarrow> nat \<Rightarrow> nat option" where
  "grow_len len chunk target =
     (if target \<le> len then Some len
      else let len = sz_mul (target div chunk) chunk; len = (if target mod chunk \<noteq> 0 then sz_add len chunk else len) in do {
        fenix_assert (target \<le> len);
        Some len
      })"

text \<open>The pages that \<open>mremap\<close> adds hold zeros.\<close>

definition grow_claim :: "memory \<Rightarrow> nat \<Rightarrow> (dyn_stream, unit) comp" where
  "grow_claim mm needed =
     andThen getS (\<lambda>s.
     if needed \<le> ds_claim s then ret ()
     else if \<not> mm_has_remap mm then fail Abort
     else
       andThen (liftO (grow_len (ds_claim s) (claim_chunk mm) needed)) (\<lambda>claim.
       andThen (liftO (mm_remap mm (ds_addr s) claim)) (\<lambda>a.
       modS (\<lambda>s. s\<lparr>ds_addr := a, ds_mem := ds_mem s @ replicate (claim - ds_claim s) 0\<rparr>))))"

definition ensure_space :: "memory \<Rightarrow> nat \<Rightarrow> (dyn_stream, unit) comp" where
  "ensure_space mm needed =
     andThen (grow_claim mm needed) (\<lambda>_.
     andThen getS (\<lambda>s.
     if needed \<le> ds_writable s then ret ()
     else
       andThen (liftO (grow_len (ds_writable s) (write_chunk mm) needed)) (\<lambda>w.
       modS (\<lambda>s. s\<lparr>ds_writable := w\<rparr>))))"

definition set_put :: "nat \<Rightarrow> dyn_stream \<Rightarrow> dyn_stream" where
  "set_put p s = s\<lparr>ds_ptr := p, ds_end := ds_addr s + ds_writable s\<rparr>"

text \<open>\<open>overflow\<close> with a character; the pointer is the one from before the space was ensured.\<close>

definition overflow :: "memory \<Rightarrow> byte \<Rightarrow> (dyn_stream, unit) comp" where
  "overflow mm b =
     andThen getS (\<lambda>s.
     andThen (modS (set_put (ds_ptr s))) (\<lambda>_.
     andThen (ensure_space mm (sz_add (sz_sub (ds_ptr s) (ds_addr s)) 1)) (\<lambda>_.
     andThen (poke (ds_ptr s) b) (\<lambda>_.
     modS (set_put (ds_ptr s + 1))))))"

text \<open>\<open>sputc\<close> and \<open>sputn\<close> of \<open>std::streambuf\<close>.\<close>

definition sputc :: "memory \<Rightarrow> byte \<Rightarrow> (dyn_stream, unit) comp" where
  "sputc mm b =
     andThen getS (\<lambda>s.
     if ds_ptr s < ds_end s then
       andThen (poke (ds_ptr s) b) (\<lambda>_. modS (\<lambda>s. s\<lparr>ds_ptr := ds_ptr s + 1\<rparr>))
     else overflow mm b)"

fun sputn :: "memory \<Rightarrow> byte list \<Rightarrow> (dyn_stream, unit) comp" where
  "sputn mm [] = ret ()"
| "sputn mm (b # bs) = andThen (sputc mm b) (\<lambda>_. sputn mm bs)"

definition note_written :: "(dyn_stream, unit) comp" where
  "note_written = modS (\<lambda>s. s\<lparr>ds_high := written_len s\<rparr>)"

definition seekpos :: "memory \<Rightarrow> bool \<Rightarrow> nat \<Rightarrow> (dyn_stream, nat) comp" where
  "seekpos mm out pos =
     (if \<not> out then ret 0
      else
        andThen note_written (\<lambda>_.
        andThen (ensure_space mm pos) (\<lambda>_.
        andThen (modS (\<lambda>s. set_put (ds_addr s + pos) s)) (\<lambda>_.
        ret pos))))"

datatype seek_dir = Beg | Cur | End

definition seekoff :: "memory \<Rightarrow> bool \<Rightarrow> seek_dir \<Rightarrow> int \<Rightarrow> (dyn_stream, nat) comp" where
  "seekoff mm out dir off =
     (if \<not> out then ret 0
      else
        andThen note_written (\<lambda>_.
        andThen getS (\<lambda>s.
        let base = (case dir of Beg \<Rightarrow> 0 | Cur \<Rightarrow> int (ds_ptr s) - int (ds_addr s) | End \<Rightarrow> int (written_len s));
            pos = size_of_int (base + off) in
        andThen (ensure_space mm pos) (\<lambda>_.
        andThen (modS (\<lambda>s. set_put (ds_addr s + pos) s)) (\<lambda>_.
        ret pos)))))"

text \<open>
  What \<open>release\<close> hands over: the bytes that were written.  \<open>mremap\<close> to nothing is an error, and the
  build without it copies.
\<close>

definition release_stream :: "memory \<Rightarrow> dyn_stream \<Rightarrow> failure + byte list" where
  "release_stream mm s =
     (if mm_has_remap mm \<and> (written_len s = 0 \<or> mm_remap mm (ds_addr s) (written_len s) = None) then Inl Abort
      else Inr (take (written_len s) (ds_mem s)))"

section \<open>The fixed stream\<close>

text \<open>\<open>fs_put\<close> and \<open>fs_get\<close> are \<open>pptr\<close> and \<open>gptr\<close> relative to the buffer, which ends at its length.\<close>

record fix_stream =
  fs_buf :: "byte list"
  fs_put :: int
  fs_get :: int

definition open_fix :: "byte list \<Rightarrow> fix_stream" where
  "open_fix bs = \<lparr>fs_buf = bs, fs_put = 0, fs_get = 0\<rparr>"

definition fix_put :: "byte \<Rightarrow> (fix_stream, unit) comp" where
  "fix_put b s =
     (if 0 \<le> fs_put s \<and> fs_put s < int (length (fs_buf s))
      then (Inr (), s\<lparr>fs_buf := (fs_buf s)[nat (fs_put s) := b], fs_put := fs_put s + 1\<rparr>)
      else (Inl Abort, s))"

fun fix_putn :: "byte list \<Rightarrow> (fix_stream, unit) comp" where
  "fix_putn [] = ret ()"
| "fix_putn (b # bs) = andThen (fix_put b) (\<lambda>_. fix_putn bs)"

text \<open>At the end of the buffer there is nothing to read: \<open>underflow\<close> is not overridden.\<close>

definition fix_take :: "(fix_stream, byte option) comp" where
  "fix_take s =
     (if fs_get s < 0 then (Inl Abort, s)
      else if fs_get s < int (length (fs_buf s)) then (Inr (Some (fs_buf s ! nat (fs_get s))), s\<lparr>fs_get := fs_get s + 1\<rparr>)
      else (Inr None, s))"

fun fix_taken :: "nat \<Rightarrow> (fix_stream, byte list) comp" where
  "fix_taken 0 = ret []"
| "fix_taken (Suc n) = andThen fix_take (\<lambda>b. case b of None \<Rightarrow> ret [] | Some b \<Rightarrow> andThen (fix_taken n) (\<lambda>bs. ret (b # bs)))"

definition fix_seekpos :: "bool \<Rightarrow> bool \<Rightarrow> int \<Rightarrow> (fix_stream, int) comp" where
  "fix_seekpos reads writes pos =
     andThen (modS (\<lambda>s. if writes then s\<lparr>fs_put := pos\<rparr> else s)) (\<lambda>_.
     andThen (modS (\<lambda>s. if reads then s\<lparr>fs_get := pos\<rparr> else s)) (\<lambda>_.
     ret pos))"

definition fix_seekoff :: "bool \<Rightarrow> bool \<Rightarrow> seek_dir \<Rightarrow> int \<Rightarrow> (fix_stream, int) comp" where
  "fix_seekoff reads writes dir off =
     andThen getS (\<lambda>s.
     case dir of
       Cur \<Rightarrow>
         andThen (modS (\<lambda>s. if writes then s\<lparr>fs_put := fs_put s + off\<rparr> else s)) (\<lambda>_.
         if writes \<and> \<not> reads then andThen getS (\<lambda>s. ret (fs_put s))
         else
           andThen (modS (\<lambda>s. s\<lparr>fs_get := fs_get s + off\<rparr>)) (\<lambda>_.
           andThen getS (\<lambda>s. ret (fs_get s))))
     | Beg \<Rightarrow> fix_seekpos reads writes off
     | End \<Rightarrow> fix_seekpos reads writes (int (length (fs_buf s)) + off))"

end
