(* ===== verification/Serializers.thy ===== *)
theory Serializers
  imports Mstream Member_Store
begin

text \<open>
  Members whose data a function of the application writes and reads (src/data/util/serializer.cpp,
  src/data/util/mfile.cpp and the uses in src/data/member.cpp): the function gets a \<open>FILE\<close> or a stream on the
  staging buffer, or one that grows when the member is resizeable.
\<close>

section \<open>Files in memory\<close>

text \<open>
  A file of \<open>fmemopen\<close> on the bytes of a buffer, which cannot grow, or of \<open>open_memstream\<close>, which can.  The
  first is opened to be written with its bytes kept: opening clears the first byte, and a byte is
  written at the end so that all of the buffer counts as contents; both are put back.
\<close>

record mfile =
  mf_bytes :: "byte list"
  mf_pos :: nat
  mf_dynamic :: bool

definition mfile_seek :: "nat \<Rightarrow> mfile \<Rightarrow> mfile" where
  "mfile_seek p f = (if mf_dynamic f \<or> p \<le> length (mf_bytes f) then f\<lparr>mf_pos := p\<rparr> else f)"

text \<open>What does not fit into a buffer is not written.\<close>

definition mfile_write :: "byte list \<Rightarrow> mfile \<Rightarrow> mfile" where
  "mfile_write bs f =
     (let old = mf_bytes f;
          old = (if mf_dynamic f \<and> bs \<noteq> [] then old @ replicate (mf_pos f - length old) 0 else old);
          bs = (if mf_dynamic f then bs else take (length old - mf_pos f) bs)
      in f\<lparr>mf_bytes := overwrite (mf_pos f) bs old, mf_pos := mf_pos f + length bs\<rparr>)"

definition fmemopen :: "bool \<Rightarrow> byte list \<Rightarrow> mfile" where
  "fmemopen writes bs = \<lparr>mf_bytes = (if writes \<and> bs \<noteq> [] then bs[0 := 0] else bs), mf_pos = 0, mf_dynamic = False\<rparr>"

definition mfile_open :: "bool \<Rightarrow> byte list \<Rightarrow> mfile" where
  "mfile_open writes bs =
     (let f = fmemopen writes bs in
      if writes \<and> bs \<noteq> [] then
        let f = mfile_write [32] (mfile_seek (length bs - 1) f)
        in f\<lparr>mf_bytes := (mf_bytes f)[0 := hd bs, length bs - 1 := last bs]\<rparr>
      else f)"

definition mfile_open_dynamic :: mfile where
  "mfile_open_dynamic = \<lparr>mf_bytes = [], mf_pos = 0, mf_dynamic = True\<rparr>"

text \<open>The size of a growing file ends at its position.\<close>

definition mfile_size :: "mfile \<Rightarrow> nat" where
  "mfile_size f = (if mf_dynamic f then min (length (mf_bytes f)) (mf_pos f) else length (mf_bytes f))"

definition mfile_close_dynamic :: "mfile \<Rightarrow> byte list option" where
  "mfile_close_dynamic f = do { fenix_assert (mf_dynamic f); Some (take (mfile_size f) (mf_bytes f)) }"

section \<open>Functions of the application\<close>

text \<open>
  A function is called with the user's buffer, the offset and the count of elements.  It writes bytes that depend on the
  application's state \<open>'a\<close>, or changes that state by what it can read, or throws; it works from the position at which it is
  called.
\<close>

record 'a ser_fun =
  sf_file :: bool
  sf_put :: "'a \<Rightarrow> ptr \<Rightarrow> int \<Rightarrow> int \<Rightarrow> failure + byte list"
  sf_get :: "byte list \<Rightarrow> ptr \<Rightarrow> int \<Rightarrow> int \<Rightarrow> 'a \<Rightarrow> failure + 'a"

text \<open>What a serializer writes to; until it is closed, a file or a fixed stream has the bytes of the buffer.\<close>

datatype sink = In_File mfile | In_Stream fix_stream | Grown dyn_stream

definition open_sink :: "memory \<Rightarrow> bool \<Rightarrow> serializer \<Rightarrow> data_buffer \<Rightarrow> failure + sink" where
  "open_sink mm file s stage =
     (if file then
        Inr (In_File (if sr_dynamic s then mfile_open_dynamic else mfile_open (sr_dir s = Serialize) (db_data stage)))
      else if sr_dynamic s then (case open_stream mm of Inl e \<Rightarrow> Inl e | Inr t \<Rightarrow> Inr (Grown t))
      else Inr (In_Stream (open_fix (db_data stage))))"

text \<open>The constructor with a function.\<close>

definition fun_serializer :: "memory \<Rightarrow> bool \<Rightarrow> data_buffer \<Rightarrow> data_ref \<Rightarrow> direction \<Rightarrow> nat \<Rightarrow> failure + serializer \<times> sink" where
  "fun_serializer mm file stage user dir elm =
     (let s = \<lparr>sr_user = user, sr_dir = dir, sr_dynamic = (\<not> ref_is_bounded user \<and> dir = Serialize), sr_elm_size = elm\<rparr> in
      if \<not> sr_dynamic s \<and> (case serializer_size s stage of None \<Rightarrow> True | Some n \<Rightarrow> n mod elm \<noteq> 0) then Inl Abort
      else (case open_sink mm file s stage of Inl e \<Rightarrow> Inl e | Inr k \<Rightarrow> Inr (s, k)))"

definition put_sink :: "memory \<Rightarrow> byte list \<Rightarrow> sink \<Rightarrow> (failure + unit) \<times> sink" where
  "put_sink mm bs k =
     (case k of
        In_File f \<Rightarrow> (Inr (), In_File (mfile_write bs f))
      | In_Stream t \<Rightarrow> (case fix_putn bs t of (r, t) \<Rightarrow> (r, In_Stream t))
      | Grown t \<Rightarrow> (case sputn mm bs t of (r, t) \<Rightarrow> (r, Grown t)))"

text \<open>\<open>fseek\<close>, or \<open>seekg\<close> and then \<open>seekp\<close>.\<close>

definition seek_sink :: "memory \<Rightarrow> nat \<Rightarrow> sink \<Rightarrow> (failure + unit) \<times> sink" where
  "seek_sink mm p k =
     (case k of
        In_File f \<Rightarrow> (Inr (), In_File (mfile_seek p f))
      | In_Stream t \<Rightarrow>
          (case andThen (fix_seekpos True False (int p)) (\<lambda>_. andThen (fix_seekpos False True (int p)) (\<lambda>_. ret ())) t of
             (r, t) \<Rightarrow> (r, In_Stream t))
      | Grown t \<Rightarrow>
          (case andThen (seekpos mm False p) (\<lambda>_. andThen (seekpos mm True p) (\<lambda>_. ret ())) t of (r, t) \<Rightarrow> (r, Grown t)))"

text \<open>What can be read from the position on; a growing stream has nothing to read.\<close>

definition sink_rest :: "sink \<Rightarrow> byte list" where
  "sink_rest k =
     (case k of
        In_File f \<Rightarrow> drop (mf_pos f) (mf_bytes f)
      | In_Stream t \<Rightarrow> drop (nat (fs_get t)) (fs_buf t)
      | Grown t \<Rightarrow> [])"

text \<open>\<open>serialize_elements\<close> with a function; a resizeable member has the count 0.\<close>

record 'a ser_run =
  ru_sink :: sink
  ru_app :: 'a

definition on_sink :: "(sink \<Rightarrow> (failure + unit) \<times> sink) \<Rightarrow> ('a ser_run, unit) comp" where
  "on_sink f r = (case f (ru_sink r) of (x, k) \<Rightarrow> (x, r\<lparr>ru_sink := k\<rparr>))"

definition fun_elements :: "memory \<Rightarrow> 'a ser_fun \<Rightarrow> serializer \<Rightarrow> nat \<Rightarrow> data_region \<Rightarrow> ('a ser_run, unit) comp" where
  "fun_elements mm f s max_elm b =
     (let first = int_of_size (r_start b); last = int_of_size (r_end b);
          count = (if sr_dynamic s then 0 else i32 (last - first + 1)) in
     andThen (assertS (if sr_dynamic s then first = 0 else first \<ge> 0 \<and> size_of_int last \<le> max_elm)) (\<lambda>_.
     andThen (on_sink (seek_sink mm (size_of_int (i32 (first * int (sr_elm_size s)))))) (\<lambda>_.
     andThen getS (\<lambda>r.
     if sr_dir s = Serialize then
       andThen (liftE (sf_put f (ru_app r) (dr_data (sr_user s)) first count)) (\<lambda>bs. on_sink (put_sink mm bs))
     else
       andThen (liftE (sf_get f (sink_rest (ru_sink r)) (dr_data (sr_user s)) first count (ru_app r))) (\<lambda>app.
       modS (\<lambda>r. r\<lparr>ru_app := app\<rparr>))))))"

fun fun_blocks :: "memory \<Rightarrow> 'a ser_fun \<Rightarrow> serializer \<Rightarrow> nat \<Rightarrow> data_region list \<Rightarrow> ('a ser_run, unit) comp" where
  "fun_blocks mm f s max_elm [] = ret ()"
| "fun_blocks mm f s max_elm (b # bs) = andThen (fun_elements mm f s max_elm b) (\<lambda>_. fun_blocks mm f s max_elm bs)"

definition fun_copy :: "memory \<Rightarrow> 'a ser_fun \<Rightarrow> data_subset \<Rightarrow> serializer \<Rightarrow> data_buffer \<Rightarrow> ('a ser_run, unit) comp" where
  "fun_copy mm f d s stage =
     andThen (liftO (max_element_of s stage)) (\<lambda>n.
     andThen (liftO (bounded_regions d n)) (\<lambda>R.
     andThen (liftO (block_iter R)) (\<lambda>bs.
     fun_blocks mm f s n bs)))"

text \<open>The destructor: what has grown becomes the buffer.\<close>

definition close_sink :: "memory \<Rightarrow> serializer \<Rightarrow> sink \<Rightarrow> data_buffer \<Rightarrow> failure + data_buffer" where
  "close_sink mm s k stage =
     (case k of
        In_File f \<Rightarrow>
          if sr_dynamic s then (case mfile_close_dynamic f of None \<Rightarrow> Inl Abort | Some bs \<Rightarrow> Inr (take_ownership bs stage))
          else Inr (put_data (mf_bytes f) stage)
      | In_Stream t \<Rightarrow> Inr (put_data (fs_buf t) stage)
      | Grown t \<Rightarrow> (case release_stream mm t of
            Inl e \<Rightarrow> Inl e
          | Inr bs \<Rightarrow> Inr (if mm_has_remap mm then take_ownership_mmapped bs stage else take_ownership bs stage)))"

section \<open>Staging and loading with a function\<close>

text \<open>A serializer from its constructor to its destructor.\<close>

definition fun_run :: "memory \<Rightarrow> 'a ser_fun \<Rightarrow> data_subset \<Rightarrow> data_ref \<Rightarrow> direction \<Rightarrow> nat \<Rightarrow> 'a \<Rightarrow> data_buffer \<Rightarrow> failure + 'a \<times> data_buffer" where
  "fun_run mm f d user dir elm app stage =
     (case fun_serializer mm (sf_file f) stage user dir elm of
        Inl e \<Rightarrow> Inl e
      | Inr (s, k) \<Rightarrow> (case fun_copy mm f d s stage \<lparr>ru_sink = k, ru_app = app\<rparr> of
            (Inl e, _) \<Rightarrow> Inl e
          | (Inr _, r) \<Rightarrow> (case close_sink mm s (ru_sink r) stage of Inl e \<Rightarrow> Inl e | Inr b \<Rightarrow> Inr (ru_app r, b))))"

text \<open>\<open>create_serializer\<close> of the snapshot, with a function: an unbounded reference is allowed.\<close>

definition fun_fit :: "(nat \<Rightarrow> byte list) \<Rightarrow> data_ref \<Rightarrow> data_subset \<Rightarrow> (snapshot, data_ref) comp" where
  "fun_fit fresh source d =
     andThen (liftO (subset_is_bounded d)) (\<lambda>bd.
     andThen (liftO (subset_max_count d)) (\<lambda>mc.
     andThen getS (\<lambda>s.
     let output = (if bd then ref_bounded source (sz_mul mc (sn_elm_size s)) else source) in
     andThen (if ref_is_bounded output \<and> db_size (sn_buf s) < dr_size output
              then snap_do (snap_resize fresh (dr_size output)) else ret ()) (\<lambda>_.
     ret output))))"

definition stage_fun :: "memory \<Rightarrow> (nat \<Rightarrow> byte list) \<Rightarrow> 'a ser_fun \<Rightarrow> 'a \<Rightarrow> data_subset \<Rightarrow> (member, unit) comp" where
  "stage_fun mm fresh f app d =
     andThen (not_prestaged d) (\<lambda>_.
     andThen getS (\<lambda>m. let es = mt_extent (mb_type m); user = mb_user m in
     andThen (on_stage (
       andThen (fun_fit fresh user d) (\<lambda>output.
       andThen getS (\<lambda>s.
       andThen (liftE (fun_run mm f d output Serialize (sn_elm_size s) app (sn_buf s))) (\<lambda>(_, b).
       modS (\<lambda>s. s\<lparr>sn_buf := b\<rparr>))))))
     (\<lambda>_. on_stage (
       andThen getS (\<lambda>s.
       andThen (assertS (es \<noteq> 0 \<and> db_size (sn_buf s) mod es = 0)) (\<lambda>_.
       andThen (assertS (db_size (sn_buf s) \<le> dr_size user)) (\<lambda>_.
       andThen (liftO (subset_bounded d (sz_sub (db_size (sn_buf s) div es) 1))) (\<lambda>b.
       snap_do (add_and_fit fresh b)))))))))"

definition store_fun :: "memory \<Rightarrow> (nat \<Rightarrow> byte list) \<Rightarrow> 'a ser_fun \<Rightarrow> 'a \<Rightarrow> data_subset \<Rightarrow> (member, fenix_code) comp" where
  "store_fun mm fresh f app d =
     andThen (unless_prestaged d (stage_fun mm fresh f app d)) (\<lambda>_.
     andThen (on_stage (snap_do same_for_all)) (\<lambda>_.
     andThen (on_stage (snap_do iprotect)) (\<lambda>_.
     ret FENIX_SUCCESS)))"

text \<open>A load: the application's state and the subset that was found.\<close>

record 'a app_load =
  al_app :: 'a
  al_found :: data_subset

definition fun_copy_out :: "memory \<Rightarrow> 'a ser_fun \<Rightarrow> snapshot \<Rightarrow> data_ref \<Rightarrow> data_subset \<Rightarrow> ('a app_load, unit) comp" where
  "fun_copy_out mm f s dst d =
     andThen getS (\<lambda>l.
     andThen (liftE (fun_run mm f d dst Deserialize (sn_elm_size s) (al_app l) (sn_buf s))) (\<lambda>(app, _).
     modS (\<lambda>l. l\<lparr>al_app := app\<rparr>)))"

fun load_all_fun :: "memory \<Rightarrow> 'a ser_fun \<Rightarrow> data_ref \<Rightarrow> int \<Rightarrow> snapshot list \<Rightarrow> ('a app_load, unit) comp" where
  "load_all_fun mm f dst count [] = ret ()"
| "load_all_fun mm f dst count (s # older) =
     andThen (assertS (sn_timestamp s \<ge> 0)) (\<lambda>_.
     andThen (liftO (protected_subset s)) (\<lambda>prot.
     andThen (if count > 0 then
         andThen getS (\<lambda>l.
         andThen (liftO (subset_diff prot (al_found l))) (\<lambda>partial. fun_copy_out mm f s dst partial))
       else ret ()) (\<lambda>_.
     andThen getS (\<lambda>l.
     andThen (liftO (subset_union (al_found l) prot)) (\<lambda>found.
     andThen (modS (\<lambda>l. l\<lparr>al_found := found\<rparr>)) (\<lambda>_.
     andThen (if count > 0 then liftO (subset_includes_all found (size_of_int (i32 (count - 1)))) else ret False) (\<lambda>done.
     if done then ret () else load_all_fun mm f dst count older)))))))"

definition load_fun :: "memory \<Rightarrow> 'a ser_fun \<Rightarrow> member \<Rightarrow> ptr \<Rightarrow> int \<Rightarrow> int \<Rightarrow> ('a app_load, unit) comp" where
  "load_fun mm f m target count ts =
     (let dst = load_target m target count in
      andThen (if ts \<noteq> SNAPSHOT_ALL then
          andThen (liftE (find_snapshot m ts)) (\<lambda>s.
          andThen (liftO (protected_subset s)) (\<lambda>prot.
          andThen (modS (\<lambda>l. l\<lparr>al_found := prot\<rparr>)) (\<lambda>_.
          if count > 0 then fun_copy_out mm f s dst prot else ret ())))
        else
          andThen (throwIf (mb_commits m = []) FENIX_ERROR_NODATA_FOUND) (\<lambda>_.
          andThen (modS (\<lambda>l. l\<lparr>al_found := empty_subset\<rparr>)) (\<lambda>_.
          load_all_fun mm f dst count (rev (mb_commits m))))) (\<lambda>_.
      andThen getS (\<lambda>l.
      andThen (if count = RESTORE_FULL then liftO (map_option int_of_size (subset_max_count (al_found l)))
               else ret count) (\<lambda>n.
      andThen (if n > 0 then liftO (subset_includes_all (al_found l) (size_of_int (i32 (n - 1)))) else ret True) (\<lambda>full.
      throwIf (\<not> full) FENIX_WARNING_PARTIAL_RESTORE)))))"

section \<open>A file for the application\<close>

text \<open>
  \<open>stage_begin\<close> and \<open>load_begin\<close> with a \<open>FILE\<close>: the application gets the file, and what it has become is handed to
  \<open>stage_end\<close>, since the serializer owns it.
\<close>

definition stage_begin_file :: "memory \<Rightarrow> (nat \<Rightarrow> byte list) \<Rightarrow> (member, sink) comp" where
  "stage_begin_file mm fresh =
     andThen (on_stage (snap_do (snap_resize fresh 0))) (\<lambda>_.
     andThen getS (\<lambda>m.
     andThen (on_stage (fun_fit fresh (mb_user m) subset_full)) (\<lambda>output.
     andThen (on_stage (andThen getS (\<lambda>s. liftE (fun_serializer mm True (sn_buf s) output Serialize (sn_elm_size s))))) (\<lambda>(s, k).
     andThen (modS (\<lambda>m. m\<lparr>mb_open := Some \<lparr>os_dir = Serialize, os_dynamic = sr_dynamic s, os_bytes = []\<rparr>\<rparr>)) (\<lambda>_.
     ret k)))))"

definition stage_end_file :: "memory \<Rightarrow> (nat \<Rightarrow> byte list) \<Rightarrow> sink \<Rightarrow> (member, unit) comp" where
  "stage_end_file mm fresh k =
     andThen getS (\<lambda>m. case mb_open m of
       None \<Rightarrow> fail (Throw FENIX_ERROR_INVALID_LOGIC_CALL)
     | Some o' \<Rightarrow>
         andThen (throwIf (os_dir o' \<noteq> Serialize) FENIX_ERROR_MEMBER_LOADING) (\<lambda>_.
         andThen (modS (\<lambda>m. m\<lparr>mb_open := None\<rparr>)) (\<lambda>_.
         on_stage (
           andThen getS (\<lambda>s.
           andThen (liftE (close_sink mm \<lparr>sr_user = mb_user m, sr_dir = Serialize, sr_dynamic = os_dynamic o', sr_elm_size = sn_elm_size s\<rparr> k (sn_buf s))) (\<lambda>b.
           andThen (modS (\<lambda>s. s\<lparr>sn_buf := b\<rparr>)) (\<lambda>_.
           andThen getS (\<lambda>s. let es = mt_extent (mb_type m) in
           andThen (assertS (es \<noteq> 0 \<and> db_size (sn_buf s) mod es = 0)) (\<lambda>_.
           andThen (liftO (subset_block (0, sz_sub (db_size (sn_buf s) div es) 1))) (\<lambda>d.
           snap_do (add_and_fit fresh d)))))))))))"

definition load_begin_file :: "memory \<Rightarrow> int \<Rightarrow> (member, data_subset \<times> sink) comp" where
  "load_begin_file mm ts =
     andThen getS (\<lambda>m.
     andThen (liftE (find_snapshot m ts)) (\<lambda>s.
     andThen (liftO (protected_subset s)) (\<lambda>prot.
     andThen (liftE (fun_serializer mm True (sn_buf s) (unbounded_ref Null) Deserialize (sn_elm_size s))) (\<lambda>(_, k).
     andThen (modS (\<lambda>m. m\<lparr>mb_open := Some \<lparr>os_dir = Deserialize, os_dynamic = False, os_bytes = db_data (sn_buf s)\<rparr>\<rparr>)) (\<lambda>_.
     ret (prot, k))))))"

end
