(* ===== verification/Mstream_Facts.thy ===== *)
theory Mstream_Facts
  imports Mstream
begin

text \<open>
  A growing stream is a file: its bytes and a position.  Writing and seeking on the mapped memory refine
  writing and seeking on the bytes, as long as the mapping can grow where it is.
\<close>

section \<open>Growing\<close>

definition space_ok :: "memory \<Rightarrow> dyn_stream \<Rightarrow> bool" where
  "space_ok mm s \<longleftrightarrow>
     0 < write_chunk mm \<and> write_chunk mm dvd claim_chunk mm \<and> write_chunk mm \<le> claim_chunk mm \<and>
     claim_chunk mm dvd ds_claim s \<and> ds_addr s + ds_claim s \<le> SIZE_MAX \<and> ds_writable s \<le> ds_claim s \<and> ds_high s \<le> ds_writable s"

definition stream_ok :: "memory \<Rightarrow> dyn_stream \<Rightarrow> bool" where
  "stream_ok mm s \<longleftrightarrow> space_ok mm s \<and> ds_addr s \<le> ds_ptr s \<and> ds_ptr s \<le> ds_addr s + ds_writable s \<and>
     ds_end s = ds_addr s + ds_writable s \<and> (\<forall>i < ds_claim s. written_len s \<le> i \<longrightarrow> ds_mem s ! i = 0)"

text \<open>There is room for \<open>n\<close> bytes, in the claimed space or because the mapping can stay where it is.\<close>

definition room :: "memory \<Rightarrow> dyn_stream \<Rightarrow> nat \<Rightarrow> bool" where
  "room mm s n \<longleftrightarrow> ds_addr s + n + claim_chunk mm \<le> SIZE_MAX \<and>
     (n \<le> ds_claim s \<or> mm_has_remap mm \<and> (\<forall>k. mm_remap mm (ds_addr s) k = Some (ds_addr s)))"

lemma grow_len_run:
  assumes "0 < chunk" "target + chunk \<le> SIZE_MAX" "len < target"
  shows "\<exists>l. grow_len len chunk target = Some l \<and> target \<le> l \<and> l < target + chunk \<and> chunk dvd l"
proof -
  let ?q = "target div chunk * chunk"
  have q: "?q \<le> target" by simp
  have e: "target = ?q + target mod chunk" by (simp add: div_mult_mod_eq)
  have m: "sz_mul (target div chunk) chunk = ?q" using assms(2) q by (intro sz_mul_exact) linarith
  show ?thesis
  proof (cases "target mod chunk = 0")
    case True
    then have "?q = target" using e by simp
    moreover have "chunk dvd ?q" by simp
    ultimately show ?thesis using assms(1,3) m True by (simp add: grow_len_def Let_def)
  next
    case False
    have "target mod chunk < chunk" using assms(1) by simp
    moreover have "sz_add ?q chunk = ?q + chunk" using assms(2) q by (intro sz_add_exact) linarith
    moreover have "chunk dvd ?q + chunk" by simp
    moreover have "target \<le> ?q + chunk" "?q + chunk < target + chunk" using e False calculation(1) by linarith+
    ultimately show ?thesis using assms(3) m False
      by (intro exI [of _ "?q + chunk"]) (simp add: grow_len_def Let_def)
  qed
qed

lemma multiple_below:
  assumes "(w :: nat) dvd c" "w dvd l" "n \<le> c" "l < n + w"
  shows "l \<le> c"
proof (rule ccontr)
  assume more: "\<not> l \<le> c"
  then have "w \<le> l - c" using assms(1,2) by (intro dvd_imp_le) (simp_all add: dvd_diff_nat)
  then show False using assms(3,4) more by linarith
qed

lemma ensure_run:
  assumes ok: "space_ok mm s" and room: "room mm s n"
  shows "\<exists>k w. ensure_space mm n s = (Inr (), s\<lparr>ds_mem := ds_mem s @ replicate k 0, ds_writable := w\<rparr>) \<and> n \<le> w \<and> ds_writable s \<le> w \<and>
    space_ok mm (s\<lparr>ds_mem := ds_mem s @ replicate k 0, ds_writable := w\<rparr>)"
proof -
  have chunk: "0 < write_chunk mm" "0 < claim_chunk mm" "write_chunk mm dvd claim_chunk mm" using ok by (auto simp: space_ok_def)
  obtain k where grow: "grow_claim mm n s = (Inr (), s\<lparr>ds_mem := ds_mem s @ replicate k 0\<rparr>)" and k: "n \<le> ds_claim s + k" "claim_chunk mm dvd ds_claim s + k"
    "ds_addr s + (ds_claim s + k) \<le> SIZE_MAX"
  proof (cases "n \<le> ds_claim s")
    case True
    then show ?thesis using that [of 0] ok by (simp add: grow_claim_def comp space_ok_def)
  next
    case False
    have "n + claim_chunk mm \<le> SIZE_MAX" using room by (simp add: room_def)
    then obtain l where l: "grow_len (ds_claim s) (claim_chunk mm) n = Some l" "n \<le> l" "l < n + claim_chunk mm" "claim_chunk mm dvd l"
      using grow_len_run [OF chunk(2), of n "ds_claim s"] False by auto
    have "grow_claim mm n s = (Inr (), s\<lparr>ds_mem := ds_mem s @ replicate (l - ds_claim s) 0\<rparr>)"
      using False room l(1) by (simp add: grow_claim_def comp room_def)
    then show ?thesis using that [of "l - ds_claim s"] False l room by (simp add: room_def)
  qed
  let ?t = "s\<lparr>ds_mem := ds_mem s @ replicate k 0\<rparr>"
  have claim: "ds_claim ?t = ds_claim s + k" by (simp add: ds_claim_def)
  show ?thesis
  proof (cases "n \<le> ds_writable s")
    case True
    then have "ensure_space mm n s = (Inr (), s\<lparr>ds_mem := ds_mem s @ replicate k 0, ds_writable := ds_writable s\<rparr>)"
      using grow by (simp add: ensure_space_def comp)
    then show ?thesis using True ok k claim by (intro exI [of _ k] exI [of _ "ds_writable s"]) (simp add: space_ok_def ds_claim_def)
  next
    case False
    have "n + write_chunk mm \<le> SIZE_MAX" using room ok by (simp add: room_def space_ok_def)
    then obtain w where w: "grow_len (ds_writable s) (write_chunk mm) n = Some w" "n \<le> w" "w < n + write_chunk mm" "write_chunk mm dvd w"
      using grow_len_run [OF chunk(1), of n "ds_writable s"] False by auto
    have "ensure_space mm n s = (Inr (), s\<lparr>ds_mem := ds_mem s @ replicate k 0, ds_writable := w\<rparr>)"
      using grow False w(1) by (simp add: ensure_space_def comp)
    moreover have "w \<le> ds_claim s + k" using multiple_below [OF dvd_trans [OF chunk(3) k(2)] w(4) k(1) w(3)] .
    ultimately show ?thesis using False w ok k by (intro exI [of _ k] exI [of _ w]) (auto simp: space_ok_def ds_claim_def)
  qed
qed

section \<open>The file of a stream\<close>

definition position :: "dyn_stream \<Rightarrow> nat" where
  "position s = ds_ptr s - ds_addr s"

definition contents :: "dyn_stream \<Rightarrow> byte list" where
  "contents s = take (written_len s) (ds_mem s)"

lemma written_run: "stream_ok mm s \<Longrightarrow> written_len s = max (position s) (ds_high s)"
  by (simp add: written_len_def position_def stream_ok_def space_ok_def sz_sub_exact)

lemma contents_facts:
  assumes "stream_ok mm s"
  shows "length (contents s) = written_len s" "position s \<le> written_len s" "written_len s \<le> ds_writable s" "written_len s \<le> ds_claim s"
proof -
  show "position s \<le> written_len s" by (simp add: written_run [OF assms])
  show w: "written_len s \<le> ds_writable s" using assms by (auto simp: written_run [OF assms] stream_ok_def space_ok_def position_def)
  then show "written_len s \<le> ds_claim s" using assms by (simp add: stream_ok_def space_ok_def)
  then show "length (contents s) = written_len s" by (simp add: contents_def ds_claim_def)
qed

text \<open>Putting a byte into the memory at the position, with what comes after as before.\<close>

lemma put_contents:
  assumes ok: "stream_ok mm s" and s': "ds_addr s' = ds_addr s" "ds_ptr s' = ds_ptr s + 1" "ds_high s' = ds_high s"
      "ds_mem s' = (ds_mem s @ replicate k 0)[position s := b]" "ds_end s' = ds_addr s + ds_writable s'" "ds_ptr s' \<le> ds_addr s + ds_writable s'" "space_ok mm s'"
  shows "stream_ok mm s' \<and> position s' = position s + 1 \<and> contents s' = take (position s) (contents s) @ [b] @ drop (position s + 1) (contents s)"
proof -
  note c = contents_facts [OF ok]
  have a: "ds_addr s \<le> ds_ptr s" "ds_ptr s \<le> ds_addr s + ds_writable s" using ok by (simp_all add: stream_ok_def)
  have pos: "position s' = position s + 1" using a s'(1,2) by (simp add: position_def)
  have "ds_ptr s' \<le> SIZE_MAX" using s'(1,2,6,7) by (simp add: space_ok_def)
  then have w': "written_len s' = max (position s + 1) (ds_high s)"
    using a(1) s'(1-3) pos by (simp add: written_len_def position_def sz_sub_exact)
  have w: "written_len s = max (position s) (ds_high s)" by (rule written_run [OF ok])
  have len: "length (ds_mem s') = ds_claim s + k" using s'(4) by (simp add: ds_claim_def)
  have "ds_ptr s + 1 \<le> ds_addr s + (ds_claim s + k)" using s'(1,2,6,7) len by (simp add: space_ok_def ds_claim_def)
  then have "position s + 1 \<le> ds_claim s + k" using a(1) by (simp add: position_def)
  moreover have "ds_high s \<le> ds_claim s" using ok by (simp add: stream_ok_def space_ok_def)
  ultimately have wl: "written_len s' \<le> length (ds_mem s')" unfolding w' len by simp
  have zero: "ds_mem s' ! i = 0" if "i < ds_claim s'" "written_len s' \<le> i" for i
  proof (cases "i < ds_claim s")
    case True
    then show ?thesis using that ok w w' s'(4) by (simp add: stream_ok_def ds_claim_def nth_append)
  next
    case False
    then show ?thesis using that w' s'(4) by (simp add: ds_claim_def nth_append)
  qed
  have "contents s' = take (position s) (contents s) @ [b] @ drop (position s + 1) (contents s)"
  proof (rule nth_equalityI)
    show "length (contents s') = length (take (position s) (contents s) @ [b] @ drop (position s + 1) (contents s))"
      using c wl w w' by (simp add: contents_def)
    fix i
    assume "i < length (contents s')"
    then have i: "i < written_len s'" by (simp add: contents_def)
    consider "i < position s" | "i = position s" | "position s < i" by linarith
    then show "contents s' ! i = (take (position s) (contents s) @ [b] @ drop (position s + 1) (contents s)) ! i"
    proof cases
      case 1
      then show ?thesis using i c wl s'(4) by (simp add: contents_def nth_append ds_claim_def)
    next
      case 2
      then show ?thesis using i c wl s'(4) len by (simp add: contents_def nth_append ds_claim_def)
    next
      case 3
      then have "i < written_len s" using i w w' by simp
      then show ?thesis using 3 i c wl s'(4) by (simp add: contents_def nth_append ds_claim_def)
    qed
  qed
  then show ?thesis using pos zero s' a by (simp add: stream_ok_def)
qed

lemma sputc_run:
  assumes ok: "stream_ok mm s" and room: "room mm s (position s + 1)"
  shows "\<exists>s'. sputc mm b s = (Inr (), s') \<and> stream_ok mm s' \<and> position s' = position s + 1 \<and> ds_addr s' = ds_addr s \<and> ds_claim s \<le> ds_claim s' \<and>
    contents s' = take (position s) (contents s) @ [b] @ drop (position s + 1) (contents s)"
proof (cases "ds_ptr s < ds_end s")
  case True
  let ?s = "s\<lparr>ds_mem := (ds_mem s)[position s := b], ds_ptr := ds_ptr s + 1\<rparr>"
  have a: "ds_addr s \<le> ds_ptr s" "ds_ptr s < ds_addr s + ds_writable s" "ds_writable s \<le> ds_claim s"
    using ok True by (simp_all add: stream_ok_def space_ok_def)
  then have "sputc mm b s = (Inr (), ?s)" using True by (simp add: sputc_def comp poke_def position_def)
  moreover have "stream_ok mm ?s \<and> position ?s = position s + 1 \<and> contents ?s = take (position s) (contents s) @ [b] @ drop (position s + 1) (contents s)"
    using put_contents [OF ok, of ?s 0 b] ok a by (simp add: stream_ok_def space_ok_def ds_claim_def)
  ultimately show ?thesis by (intro exI [of _ ?s]) (simp add: ds_claim_def)
next
  case False
  have a: "ds_addr s \<le> ds_ptr s" "ds_ptr s = ds_addr s + ds_writable s" "ds_addr s + ds_writable s \<le> SIZE_MAX"
    using ok False by (auto simp: stream_ok_def space_ok_def)
  have t: "s\<lparr>ds_end := ds_addr s + ds_writable s\<rparr> = s" using ok by (simp add: stream_ok_def)
  have "position s + 1 \<le> SIZE_MAX" using room by (simp add: room_def)
  then have n: "sz_add (sz_sub (ds_ptr s) (ds_addr s)) 1 = position s + 1"
    using a by (simp add: position_def sz_sub_exact sz_add_exact)
  have "space_ok mm s" using ok by (simp add: stream_ok_def)
  from ensure_run [OF this room] obtain k w where e: "ensure_space mm (position s + 1) s = (Inr (), s\<lparr>ds_mem := ds_mem s @ replicate k 0, ds_writable := w\<rparr>)"
    and w: "position s + 1 \<le> w" "space_ok mm (s\<lparr>ds_mem := ds_mem s @ replicate k 0, ds_writable := w\<rparr>)" by blast
  have wc: "w \<le> ds_claim s + k" using w(2) by (simp add: space_ok_def ds_claim_def)
  have inside: "ds_ptr s < ds_addr s + w" using w(1) a(1) by (simp add: position_def)
  let ?s = "s\<lparr>ds_mem := (ds_mem s @ replicate k 0)[position s := b], ds_writable := w, ds_ptr := ds_ptr s + 1, ds_end := ds_addr s + w\<rparr>"
  have "sputc mm b s = (Inr (), ?s)"
    using False a(1) inside wc by (simp add: sputc_def overflow_def comp t e [folded n, unfolded One_nat_def] poke_def position_def ds_claim_def set_put_def)
  moreover have "stream_ok mm ?s \<and> position ?s = position s + 1 \<and> contents ?s = take (position s) (contents s) @ [b] @ drop (position s + 1) (contents s)"
    using put_contents [OF ok, of ?s k b] w(2) inside by (simp add: space_ok_def ds_claim_def)
  ultimately show ?thesis by (intro exI [of _ ?s]) (simp add: ds_claim_def)
qed

section \<open>Writing and seeking\<close>

lemma overwrite_step:
  assumes "p \<le> length c"
  shows "overwrite (p + 1) bs (take p c @ [b] @ drop (p + 1) c) = overwrite p (b # bs) c"
  using assms by (simp add: overwrite_def min_absorb1 min_absorb2 add.commute)

lemma room_next: "room mm s (n + 1) \<Longrightarrow> ds_addr s' = ds_addr s \<Longrightarrow> ds_claim s \<le> ds_claim s' \<Longrightarrow> k \<le> n + 1 \<Longrightarrow> room mm s' k"
  by (auto simp: room_def)

lemma sputn_run:
  assumes "stream_ok mm s" "room mm s (position s + length bs)"
  shows "\<exists>s'. sputn mm bs s = (Inr (), s') \<and> stream_ok mm s' \<and> position s' = position s + length bs \<and> ds_addr s' = ds_addr s \<and>
    contents s' = overwrite (position s) bs (contents s)"
  using assms
proof (induction bs arbitrary: s)
  case Nil
  then show ?case by (simp add: comp overwrite_def)
next
  case (Cons b bs)
  have r: "room mm s (position s + length bs + 1)" using Cons.prems(2) by simp
  have "room mm s (position s + 1)" by (rule room_next [OF r]) simp_all
  from sputc_run [OF Cons.prems(1) this, of b] obtain t where t: "sputc mm b s = (Inr (), t)" "stream_ok mm t" "position t = position s + 1"
      "ds_addr t = ds_addr s" "ds_claim s \<le> ds_claim t" "contents t = take (position s) (contents s) @ [b] @ drop (position s + 1) (contents s)" by blast
  have "room mm t (position t + length bs)" by (rule room_next [OF r t(4,5)]) (simp add: t(3))
  from Cons.IH [OF t(2) this] obtain s' where s': "sputn mm bs t = (Inr (), s')" "stream_ok mm s'" "position s' = position t + length bs" "ds_addr s' = ds_addr t"
      "contents s' = overwrite (position t) bs (contents t)" by blast
  have "position s \<le> length (contents s)" using contents_facts [OF Cons.prems(1)] by simp
  then have "contents s' = overwrite (position s) (b # bs) (contents s)"
    unfolding s'(5) t(3,6) by (rule overwrite_step)
  then show ?case using t(1,3,4) s' by (simp add: comp)
qed

text \<open>While the claimed space suffices it stays as it is.\<close>

lemma ensure_claim: "n \<le> ds_claim s \<Longrightarrow> ds_claim (snd (ensure_space mm n s)) = ds_claim s"
  by (cases "grow_len (ds_writable s) (write_chunk mm) n") (simp_all add: ensure_space_def grow_claim_def comp ds_claim_def)

lemma sputc_claim:
  assumes ok: "stream_ok mm s" and room: "room mm s (position s + 1)" and fits: "position s < ds_claim s" and run: "sputc mm b s = (r, t)"
  shows "ds_claim t = ds_claim s"
proof (cases "ds_ptr s < ds_end s")
  case True
  then show ?thesis using run by (auto simp: sputc_def comp poke_def ds_claim_def split: if_splits)
next
  case False
  have a: "ds_addr s \<le> ds_ptr s" "ds_ptr s = ds_addr s + ds_writable s" "ds_addr s + ds_writable s \<le> SIZE_MAX"
    using ok False by (auto simp: stream_ok_def space_ok_def)
  have t: "set_put (ds_ptr s) s = s" using ok by (simp add: stream_ok_def set_put_def)
  have "position s + 1 \<le> SIZE_MAX" using room by (simp add: room_def)
  then have n: "sz_add (sz_sub (ds_ptr s) (ds_addr s)) 1 = position s + 1"
    using a by (simp add: position_def sz_sub_exact sz_add_exact)
  have "space_ok mm s" using ok by (simp add: stream_ok_def)
  from ensure_run [OF this room] obtain k w where e: "ensure_space mm (position s + 1) s = (Inr (), s\<lparr>ds_mem := ds_mem s @ replicate k 0, ds_writable := w\<rparr>)"
    by blast
  have "k = 0" using ensure_claim [of "position s + 1" s mm] fits e by (simp add: ds_claim_def)
  then show ?thesis using run False n e t
    by (auto simp: sputc_def overflow_def comp poke_def set_put_def ds_claim_def split: if_splits)
qed

lemma sputn_claim:
  assumes "stream_ok mm s" "room mm s (position s + length bs)" "position s + length bs \<le> ds_claim s"
  shows "ds_claim (snd (sputn mm bs s)) = ds_claim s"
  using assms
proof (induction bs arbitrary: s)
  case (Cons b bs)
  have r: "room mm s (position s + length bs + 1)" using Cons.prems(2) by simp
  then have r1: "room mm s (position s + 1)" by (rule room_next) simp_all
  from sputc_run [OF Cons.prems(1) this, of b] obtain t where t: "sputc mm b s = (Inr (), t)" "stream_ok mm t" "position t = position s + 1"
      "ds_addr t = ds_addr s" "ds_claim s \<le> ds_claim t" by blast
  have claim: "ds_claim t = ds_claim s" using sputc_claim [OF Cons.prems(1) r1 _ t(1)] Cons.prems(3) by simp
  have "room mm t (position t + length bs)" by (rule room_next [OF r t(4,5)]) (simp add: t(3))
  from Cons.IH [OF t(2) this] show ?case using t(1,3) claim Cons.prems(3) by (simp add: comp)
qed (simp add: comp)

text \<open>Seeking behind the end fills the file with zeros.\<close>

lemma seek_run:
  assumes ok: "stream_ok mm s" and room: "room mm s p"
  shows "\<exists>s'. seekpos mm True p s = (Inr p, s') \<and> stream_ok mm s' \<and> position s' = p \<and> ds_addr s' = ds_addr s \<and> ds_claim s \<le> ds_claim s' \<and>
    contents s' = contents s @ replicate (p - length (contents s)) 0"
proof -
  let ?t = "s\<lparr>ds_high := written_len s\<rparr>"
  note c = contents_facts [OF ok]
  have "space_ok mm s" using ok by (simp add: stream_ok_def)
  then have sp: "space_ok mm ?t" using c(3) by (simp add: space_ok_def ds_claim_def)
  have "room mm ?t p" using room by (simp add: room_def ds_claim_def)
  from ensure_run [OF sp this] obtain k w where e: "ensure_space mm p ?t = (Inr (), ?t\<lparr>ds_mem := ds_mem s @ replicate k 0, ds_writable := w\<rparr>)"
    and w: "p \<le> w" "space_ok mm (?t\<lparr>ds_mem := ds_mem s @ replicate k 0, ds_writable := w\<rparr>)" by auto
  define s' where "s' = set_put (ds_addr s + p) (?t\<lparr>ds_mem := ds_mem s @ replicate k 0, ds_writable := w\<rparr>)"
  have run: "seekpos mm True p s = (Inr p, s')" by (simp add: seekpos_def comp note_written_def e s'_def)
  have sel: "ds_addr s' = ds_addr s" "ds_ptr s' = ds_addr s + p" "ds_high s' = written_len s" "ds_mem s' = ds_mem s @ replicate k 0"
      "ds_writable s' = w" "ds_end s' = ds_addr s + w" by (simp_all add: s'_def set_put_def)
  have sp': "space_ok mm s'" using w(2) by (simp add: space_ok_def sel ds_claim_def)
  then have "ds_ptr s' \<le> SIZE_MAX" using w(1) by (simp add: space_ok_def sel)
  then have wl: "written_len s' = max p (written_len s)" by (simp add: written_len_def sel sz_sub_exact)
  have claim: "ds_claim s' = ds_claim s + k" by (simp add: ds_claim_def sel)
  have "p \<le> ds_claim s + k" using sp' w(1) by (simp add: space_ok_def sel claim)
  then have bound: "written_len s' \<le> ds_claim s + k" using c(4) by (simp add: wl)
  then have lc: "length (contents s') = written_len s'" unfolding contents_def using claim by (simp add: ds_claim_def)
  have zero: "ds_mem s' ! i = 0" if "i < ds_claim s'" "written_len s \<le> i" for i
    using that ok claim by (auto simp: sel nth_append ds_claim_def stream_ok_def)
  have "contents s' = contents s @ replicate (p - length (contents s)) 0"
  proof (rule nth_equalityI)
    show "length (contents s') = length (contents s @ replicate (p - length (contents s)) 0)"
      using lc c(1) wl by simp
    fix i
    assume "i < length (contents s')"
    then have i: "i < written_len s'" by (simp add: contents_def)
    show "contents s' ! i = (contents s @ replicate (p - length (contents s)) 0) ! i"
    proof (cases "i < written_len s")
      case True
      then show ?thesis using i c by (simp add: contents_def nth_append sel ds_claim_def)
    next
      case False
      then have "contents s' ! i = 0" using i bound zero [of i] claim by (simp add: contents_def)
      then show ?thesis using False i c(1) by (simp add: nth_append wl)
    qed
  qed
  moreover have "stream_ok mm s'" using sp' w(1) zero by (simp add: stream_ok_def sel wl)
  ultimately show ?thesis using run claim by (simp add: position_def sel)
qed

text \<open>A new stream is empty, and what is released are its contents.\<close>

definition memory_ok :: "memory \<Rightarrow> bool" where
  "memory_ok mm \<longleftrightarrow> 0 < write_chunk mm \<and> write_chunk mm dvd claim_chunk mm \<and> 0 < claim_chunk mm \<and>
     (\<exists>a. mm_map mm = Some a \<and> a + claim_chunk mm \<le> SIZE_MAX)"

lemma open_run:
  assumes "memory_ok mm"
  shows "\<exists>s. open_stream mm = Inr s \<and> stream_ok mm s \<and> position s = 0 \<and> contents s = [] \<and> mm_map mm = Some (ds_addr s) \<and> ds_claim s = claim_chunk mm"
proof -
  obtain a where a: "mm_map mm = Some a" "a + claim_chunk mm \<le> SIZE_MAX" and c: "0 < write_chunk mm" "write_chunk mm dvd claim_chunk mm" "0 < claim_chunk mm"
    using assms by (auto simp: memory_ok_def)
  have le: "write_chunk mm \<le> claim_chunk mm" using c(2,3) by (rule dvd_imp_le)
  let ?s = "\<lparr>ds_addr = a, ds_mem = replicate (claim_chunk mm) 0, ds_writable = write_chunk mm, ds_high = 0, ds_ptr = a, ds_end = a + write_chunk mm\<rparr>"
  have "open_stream mm = Inr ?s" using le a(1) by (simp add: open_stream_def)
  moreover have "written_len ?s = 0" using a(2) by (simp add: written_len_def sz_sub_exact)
  ultimately show ?thesis using a c le
    by (intro exI [of _ ?s]) (simp add: stream_ok_def space_ok_def ds_claim_def position_def contents_def)
qed

lemma release_run:
  assumes "contents s \<noteq> []" "mm_has_remap mm \<Longrightarrow> mm_remap mm (ds_addr s) (written_len s) \<noteq> None"
  shows "release_stream mm s = Inr (contents s)"
  using assms by (auto simp: release_stream_def contents_def)

text \<open>An empty stream cannot be released: \<open>mremap\<close> refuses to shrink to nothing.\<close>

lemma release_empty: "mm_has_remap mm \<Longrightarrow> written_len s = 0 \<Longrightarrow> release_stream mm s = Inl Abort"
  by (simp add: release_stream_def)

section \<open>A mapping that moves\<close>

text \<open>
  When the claimed space is full and \<open>mremap\<close> moves it, \<open>overflow\<close> stores through the old pointer, which
  is not in the new mapping any more.
\<close>

lemma overflow_moved:
  assumes ok: "stream_ok mm s" and full: "position s = ds_claim s" and small: "ds_claim s + 1 + claim_chunk mm \<le> SIZE_MAX"
    and moved: "mm_has_remap mm" "\<And>k. mm_remap mm (ds_addr s) k = Some a" and away: "ds_ptr s < a \<or> a + ds_claim s + 1 + claim_chunk mm \<le> ds_ptr s"
  shows "fst (sputc mm b s) = Inl Abort"
proof -
  have a: "ds_addr s \<le> ds_ptr s" "ds_ptr s = ds_addr s + ds_writable s" "ds_writable s = ds_claim s" "ds_addr s + ds_writable s \<le> SIZE_MAX" "ds_end s = ds_ptr s"
    "0 < claim_chunk mm" "0 < write_chunk mm"
    using ok full by (auto simp: stream_ok_def space_ok_def position_def)
  have t: "s\<lparr>ds_end := ds_addr s + ds_writable s\<rparr> = s" using ok by (simp add: stream_ok_def)
  have n: "sz_add (sz_sub (ds_ptr s) (ds_addr s)) (Suc 0) = ds_claim s + 1"
    using a small by (simp add: sz_sub_exact sz_add_exact)
  obtain l where l: "grow_len (ds_claim s) (claim_chunk mm) (ds_claim s + 1) = Some l" "ds_claim s + 1 \<le> l" "l < ds_claim s + 1 + claim_chunk mm"
    using grow_len_run [OF a(6), of "ds_claim s + 1" "ds_claim s"] small by auto
  let ?t = "s\<lparr>ds_addr := a, ds_mem := ds_mem s @ replicate (l - ds_claim s) 0\<rparr>"
  have grow: "grow_claim mm (Suc (ds_claim s)) s = (Inr (), ?t)" using moved l(1) by (simp add: grow_claim_def comp)
  have "ds_claim s + 1 + write_chunk mm \<le> SIZE_MAX" using small ok by (simp add: stream_ok_def space_ok_def)
  then obtain w where w: "grow_len (ds_writable s) (write_chunk mm) (ds_claim s + 1) = Some w"
    using grow_len_run [OF a(7), of "ds_claim s + 1" "ds_writable s"] a(3) by auto
  have "ensure_space mm (Suc (ds_claim s)) s = (Inr (), ?t\<lparr>ds_writable := w\<rparr>)" using grow w a(3) by (simp add: ensure_space_def comp)
  moreover have "\<not> (a \<le> ds_ptr s \<and> ds_ptr s < a + l)" using away l(3) by linarith
  ultimately show ?thesis using n a(5) l(2)
    by (auto simp: sputc_def overflow_def comp set_put_def t poke_def ds_claim_def)
qed

section \<open>The fixed stream\<close>

lemma fix_putn_run:
  assumes "fs_put s = int p" "p + length bs \<le> length (fs_buf s)"
  shows "fix_putn bs s = (Inr (), s\<lparr>fs_buf := overwrite p bs (fs_buf s), fs_put := int (p + length bs)\<rparr>)"
  using assms
proof (induction bs arbitrary: s p)
  case (Cons b bs)
  let ?t = "s\<lparr>fs_buf := (fs_buf s)[p := b], fs_put := int (p + 1)\<rparr>"
  have "fix_put b s = (Inr (), ?t)" using Cons.prems by (simp add: fix_put_def)
  moreover have "fix_putn bs ?t = (Inr (), ?t\<lparr>fs_buf := overwrite (p + 1) bs (fs_buf ?t), fs_put := int (p + 1 + length bs)\<rparr>)"
    using Cons.prems(2) by (intro Cons.IH) simp_all
  moreover have "overwrite (p + 1) bs ((fs_buf s)[p := b]) = overwrite p (b # bs) (fs_buf s)"
    using Cons.prems(2) overwrite_step [of p "fs_buf s" bs b] by (simp add: upd_conv_take_nth_drop)
  ultimately show ?case by (simp add: comp)
qed (simp add: comp overwrite_def)

lemma fix_taken_run:
  assumes "fs_get s = int p" "p + n \<le> length (fs_buf s)"
  shows "fix_taken n s = (Inr (take n (drop p (fs_buf s))), s\<lparr>fs_get := int (p + n)\<rparr>)"
  using assms
proof (induction n arbitrary: s p)
  case (Suc n)
  let ?t = "s\<lparr>fs_get := int (p + 1)\<rparr>"
  have "fix_take s = (Inr (Some (fs_buf s ! p)), ?t)" using Suc.prems by (simp add: fix_take_def)
  moreover have "fix_taken n ?t = (Inr (take n (drop (p + 1) (fs_buf ?t))), ?t\<lparr>fs_get := int (p + 1 + n)\<rparr>)"
    using Suc.prems(2) by (intro Suc.IH) simp_all
  moreover have "fs_buf s ! p # take n (drop (p + 1) (fs_buf s)) = take (Suc n) (drop p (fs_buf s))"
    using Suc.prems(2) by (simp add: take_Suc Cons_nth_drop_Suc [symmetric, of p])
  ultimately show ?case by (simp add: comp)
qed (simp add: comp)

text \<open>A write past the end of a fixed stream ends the process.\<close>

lemma fix_put_full: "int (length (fs_buf s)) \<le> fs_put s \<Longrightarrow> fix_putn (b # bs) s = (Inl Abort, s)"
  by (simp add: fix_put_def comp)

end
