(* ===== verification/Serializer_Facts.thy ===== *)
theory Serializer_Facts
  imports Serializers Mstream_Facts Snapshot_Facts
begin

text \<open>
  What a function of the application writes when it is staged is what it can read when it is loaded; and a file for
  a member that is not resizeable is at its end.
\<close>

section \<open>Files\<close>

lemma mfile_open_run:
  "mfile_open writes bs = \<lparr>mf_bytes = bs, mf_pos = (if writes then length bs else 0), mf_dynamic = False\<rparr>"
proof (cases "writes \<and> bs \<noteq> []")
  case True
  define xs where "xs = overwrite (length bs - 1) [32] (bs[0 := 0])"
  have len: "length xs = length bs" using True unfolding xs_def by (subst length_overwrite) (simp_all add: Suc_leI)
  have same: "xs ! i = bs ! i" if "0 < i" "i < length bs - 1" for i
    using that True by (simp add: xs_def overwrite_def nth_append)
  have "xs[0 := hd bs, length bs - 1 := last bs] = bs"
  proof (rule nth_equalityI)
    fix i assume i: "i < length (xs[0 := hd bs, length bs - 1 := last bs])"
    then have lt: "i < length bs" using len by simp
    have ne: "0 < length bs" "bs \<noteq> []" using lt by auto
    consider "i = length bs - 1" | "i \<noteq> length bs - 1" "i = 0" | "i \<noteq> length bs - 1" "0 < i" "i < length bs - 1" using lt by linarith
    then show "xs[0 := hd bs, length bs - 1 := last bs] ! i = bs ! i"
    proof cases
      case 1
      show ?thesis unfolding 1 using ne len last_conv_nth [OF ne(2)] by (simp only: nth_list_update_eq length_list_update diff_less zero_less_one)
    next
      case 2
      then show ?thesis using ne len hd_conv_nth [OF ne(2)] by (simp add: nth_list_update_neq)
    next
      case 3
      then show ?thesis using same [of i] by (simp add: nth_list_update_neq)
    qed
  qed (simp add: len)
  moreover have "mfile_write [32] (mfile_seek (length bs - 1) (fmemopen writes bs)) = \<lparr>mf_bytes = xs, mf_pos = length bs, mf_dynamic = False\<rparr>"
    using True by (simp add: mfile_seek_def mfile_write_def fmemopen_def Let_def xs_def take_Cons' Suc_leI)
  ultimately show ?thesis using True by (simp add: mfile_open_def Let_def)
next
  case False
  then show ?thesis by (auto simp: mfile_open_def fmemopen_def)
qed

text \<open>At the end of a buffer nothing is written.\<close>

lemma write_at_end: "\<not> mf_dynamic f \<Longrightarrow> mf_pos f = length (mf_bytes f) \<Longrightarrow> mfile_write xs f = f"
  by (cases f) (simp add: mfile_write_def overwrite_def)

lemma dynamic_write: "mfile_write bs (mfile_seek 0 mfile_open_dynamic) = \<lparr>mf_bytes = bs, mf_pos = length bs, mf_dynamic = True\<rparr>"
  by (simp add: mfile_write_def mfile_seek_def mfile_open_dynamic_def overwrite_def)

section \<open>Writing what grows\<close>

text \<open>The memory can hold \<open>n\<close> bytes, and resizing it leaves it where it is.\<close>

definition can_hold :: "memory \<Rightarrow> nat \<Rightarrow> bool" where
  "can_hold mm n \<longleftrightarrow> memory_ok mm \<and> (mm_has_remap mm \<or> n \<le> claim_chunk mm) \<and>
     (\<exists>a. mm_map mm = Some a \<and> a + n + claim_chunk mm \<le> SIZE_MAX \<and> (\<forall>k. mm_remap mm a k = Some a))"

lemma grown_run:
  assumes "can_hold mm (length w)" "w \<noteq> []"
  shows "\<exists>t t0 t1. open_stream mm = Inr t \<and> seek_sink mm 0 (Grown t) = (Inr (), Grown t0) \<and> put_sink mm w (Grown t0) = (Inr (), Grown t1) \<and>
    release_stream mm t1 = Inr w"
proof -
  obtain a where a: "mm_map mm = Some a" "a + length w + claim_chunk mm \<le> SIZE_MAX" "\<forall>k. mm_remap mm a k = Some a"
    and ok: "memory_ok mm" "mm_has_remap mm \<or> length w \<le> claim_chunk mm" using assms(1) by (auto simp: can_hold_def)
  from open_run [OF ok(1)] obtain t where t: "open_stream mm = Inr t" "stream_ok mm t" "position t = 0" "contents t = []" "ds_addr t = a"
    "ds_claim t = claim_chunk mm" using a(1) by auto
  have r0: "room mm t 0" using a t(5) by (simp add: room_def)
  from seek_run [OF t(2) r0] obtain t0 where t0: "seekpos mm True 0 t = (Inr 0, t0)" "stream_ok mm t0" "position t0 = 0" "ds_addr t0 = a"
    "ds_claim t \<le> ds_claim t0" "contents t0 = []" using t(4,5) by auto
  have "room mm t0 (position t0 + length w)" using a ok(2) t(6) t0(3-5) by (auto simp: room_def)
  from sputn_run [OF t0(2) this] obtain t1 where t1: "sputn mm w t0 = (Inr (), t1)" "ds_addr t1 = a" "contents t1 = overwrite 0 w []"
    using t0(3,4,6) by auto
  have w: "contents t1 = w" using t1(3) by (simp add: overwrite_def)
  have "release_stream mm t1 = Inr w" using release_run [of t1 mm] w assms(2) a(3) t1(2) by simp
  moreover have "seek_sink mm 0 (Grown t) = (Inr (), Grown t0)"
    using t0(1) by (simp add: seek_sink_def comp) (simp add: seekpos_def comp)
  ultimately show ?thesis using t(1) t1(1) by (auto simp: put_sink_def)
qed

lemma one_block:
  assumes "a \<le> b" "b \<le> SIZE_MAX"
  shows "block_iter [block a b] = Some [block a b]" "region_range (block a b) = (a, b)" "regions_end [block a b] = b"
proof -
  show r: "region_range (block a b) = (a, b)" using assms(2) by (simp add: region_range_def)
  show "block_iter [block a b] = Some [block a b]"
    using assms by (simp add: region_get_rep_def mk_block_eq)
  show "regions_end [block a b] = b" by (simp add: regions_end_def r)
qed

lemma all_in_bound:
  assumes "a \<le> b" "b \<le> SIZE_MAX" "b \<le> n"
  shows "bounded_regions (basic_subset [block a b]) n = Some [block a b]"
  using assms(3) one_block(3) [OF assms(1,2)] by (simp add: bounded_regions_def bounded_range_def)

lemma full_blocks: "bounded_regions subset_full SIZE_MAX = Some [full_region]" "block_iter [full_region] = Some [full_region]"
  "int_of_size (r_start full_region) = 0"
  using one_block(1) [of 0 SIZE_MAX] all_in_bound [of 0 SIZE_MAX SIZE_MAX]
  by (simp_all add: subset_full_def full_region_def int_of_size_def)

lemma one_elements:
  assumes "max_element_of s stage = Some n" "bounded_regions d n = Some [b]" "block_iter [b] = Some [b]"
  shows "fun_copy mm f d s stage = fun_elements mm f s n b"
  by (rule ext) (simp add: fun_copy_def assms comp del: block_iter.simps split: sum.split prod.split)

text \<open>A serializer for a resizeable member leaves what the function writes.\<close>

lemma fun_run_grows:
  assumes "\<not> ref_is_bounded user" "sf_put f app (dr_data user) 0 0 = Inr w" "sf_file f \<or> can_hold mm (length w) \<and> w \<noteq> []"
  shows "\<exists>b. fun_run mm f subset_full user Serialize es app stage = Inr (app, b) \<and> db_ok b \<and> db_data b = w \<and> db_size b = length w"
proof -
  let ?s = "\<lparr>sr_user = user, sr_dir = Serialize, sr_dynamic = True, sr_elm_size = es\<rparr>"
  have dyn: "fun_copy mm f subset_full ?s stage = fun_elements mm f ?s SIZE_MAX full_region"
    by (rule one_elements) (simp_all add: max_element_of_def full_blocks(1,2) del: block_iter.simps)
  have off: "size_of_int (i32 0) = 0" by (simp add: i32_def size_of_int_def)
  have owned: "db_ok (take_ownership w stage) \<and> db_data (take_ownership w stage) = w \<and> db_size (take_ownership w stage) = length w"
    "db_ok (take_ownership_mmapped w stage) \<and> db_data (take_ownership_mmapped w stage) = w \<and> db_size (take_ownership_mmapped w stage) = length w"
    by (simp_all add: take_ownership_def take_ownership_mmapped_def free_buf_def empty_buffer_def db_ok_def db_data_def alloc_size_def)
  show ?thesis
  proof (cases "sf_file f")
    case True
    have "fun_elements mm f ?s SIZE_MAX full_region \<lparr>ru_sink = In_File mfile_open_dynamic, ru_app = app\<rparr>
        = (Inr (), \<lparr>ru_sink = In_File \<lparr>mf_bytes = w, mf_pos = length w, mf_dynamic = True\<rparr>, ru_app = app\<rparr>)"
      using assms(2) by (simp add: fun_elements_def full_blocks(3) off comp on_sink_def seek_sink_def put_sink_def dynamic_write)
    then show ?thesis using True assms(1) dyn owned(1)
      by (simp add: fun_run_def fun_serializer_def open_sink_def close_sink_def mfile_close_dynamic_def mfile_size_def Let_def)
  next
    case False
    then have "can_hold mm (length w)" "w \<noteq> []" using assms(3) by simp_all
    from grown_run [OF this] obtain t t0 t1 where t: "open_stream mm = Inr t" "seek_sink mm 0 (Grown t) = (Inr (), Grown t0)"
      "put_sink mm w (Grown t0) = (Inr (), Grown t1)" "release_stream mm t1 = Inr w" by blast
    have "fun_elements mm f ?s SIZE_MAX full_region \<lparr>ru_sink = Grown t, ru_app = app\<rparr> = (Inr (), \<lparr>ru_sink = Grown t1, ru_app = app\<rparr>)"
      using t(2,3) assms(2) by (simp add: fun_elements_def full_blocks(3) off comp on_sink_def)
    then show ?thesis using False assms(1) dyn owned t(1,4)
      by (simp add: fun_run_def fun_serializer_def open_sink_def close_sink_def Let_def)
  qed
qed

section \<open>Reading all of a buffer\<close>

abbreviation first_elements :: "nat \<Rightarrow> data_subset" where "first_elements k \<equiv> basic_subset [block 0 (k - 1)]"

lemma first_queries:
  assumes "0 < k" "k \<le> INT_MAX"
  shows "subset_max_count (first_elements k) = Some k" "subset_includes_all (first_elements k) (k - 1) = Some True"
    "subset_is_bounded (first_elements k) = Some True" "subset_bounded subset_full (k - 1) = Some (first_elements k)"
proof -
  have k: "k - 1 \<le> SIZE_MAX" "k - 1 + 1 \<le> SIZE_MAX" "k - 1 \<noteq> SIZE_MAX" "k - 1 \<le> IDX_MAX" using assms INT_MAX_lt by linarith+
  note e = one_block(3) [OF le0 k(1)]
  show "subset_max_count (first_elements k) = Some k" using assms(1) k e by (simp add: sz_add_exact)
  show "subset_is_bounded (first_elements k) = Some True" using e k by simp
  have "regions_ok 1 [block 0 (k - 1)]" using k by (simp add: regions_ok_single region_ok_def same_stride_def)
  from includes_all_regions [OF this, of "k - 1"] k show "subset_includes_all (first_elements k) (k - 1) = Some True"
    by (simp add: region_elems_block atLeast0AtMost)
  have "region_and full_region (block 0 (k - 1)) = Some [block 0 (k - 1)]"
    using k by (simp add: region_and_def region_overlaps_def block_overlaps_def full_region_def one_block(2) mk_block_eq Let_def)
  then have "bound_loop (block 0 (k - 1)) [] [full_region] = Some [block 0 (k - 1)]"
    by (simp add: full_region_def one_block(2) sset_merge_def sset_insert_def)
  moreover have "regions_end [full_region] = SIZE_MAX" "mk_block (0, k - 1) = Some (block 0 (k - 1))"
    using one_block(3) [of 0 SIZE_MAX] k by (simp_all add: full_region_def mk_block_eq)
  ultimately show "subset_bounded subset_full (k - 1) = Some (first_elements k)"
    using k by (simp add: subset_bounded_def bounded_regions_def bounded_range_def subset_full_def)
qed

lemma fun_run_reads:
  assumes n: "0 < es" "0 < k" "k * es \<le> INT_MAX" and b: "db_size stage = k * es" and g: "sf_get f (db_data stage) p 0 (int k) app = Inr app'"
  shows "\<exists>b. fun_run mm f (first_elements k) (unbounded_ref p) Deserialize es app stage = Inr (app', b)"
proof -
  let ?s = "\<lparr>sr_user = unbounded_ref p, sr_dir = Deserialize, sr_dynamic = False, sr_elm_size = es\<rparr>"
  have kI: "k \<le> INT_MAX" using fixed_count(3) [OF n(2,3,1)] .
  have size: "serializer_size ?s stage = Some (k * es)" using n(1) b by (simp add: serializer_size_def ref_is_bounded_def unbounded_ref_def)
  have max: "max_element_of ?s stage = Some (k - 1)" by (rule max_element_eq) (use n size in simp_all)
  have kS: "k - 1 \<le> SIZE_MAX" using kI INT_MAX_lt by linarith
  have copy: "fun_copy mm f (first_elements k) ?s stage = fun_elements mm f ?s (k - 1) (block 0 (k - 1))"
    by (rule one_elements [OF max all_in_bound one_block(1)]) (use kS in simp_all)
  have num: "int_of_size 0 = 0" "int_of_size (k - Suc 0) = int k - 1" "size_of_int (int k - 1) = k - Suc 0" "i32 (int k) = int k" "size_of_int (i32 0) = 0"
    using kI n(2) INT_MAX_32 by (simp_all add: int_of_size_i32 i32_exact size_of_int_exact of_nat_diff nat_diff_distrib)
  have run: "fun_elements mm f ?s (k - 1) (block 0 (k - 1)) \<lparr>ru_sink = t, ru_app = app\<rparr> = (Inr (), \<lparr>ru_sink = t, ru_app = app'\<rparr>)"
    if "seek_sink mm 0 t = (Inr (), t)" "sink_rest t = db_data stage" for t
    using that num n(2) g by (simp add: fun_elements_def comp on_sink_def Let_def unbounded_ref_def)
  have fil: "seek_sink mm 0 (In_File (mfile_open False xs)) = (Inr (), In_File (mfile_open False xs))"
    "sink_rest (In_File (mfile_open False xs)) = xs" for xs
    by (simp_all add: seek_sink_def mfile_seek_def mfile_open_run sink_rest_def)
  have stream: "seek_sink mm 0 (In_Stream (open_fix xs)) = (Inr (), In_Stream (open_fix xs))" "sink_rest (In_Stream (open_fix xs)) = xs" for xs
    by (simp_all add: seek_sink_def fix_seekpos_def comp open_fix_def sink_rest_def)
  show ?thesis
  proof (cases "sf_file f")
    case True
    then show ?thesis using run [OF fil] size copy
      by (simp add: fun_run_def fun_serializer_def open_sink_def close_sink_def Let_def)
  next
    case False
    then show ?thesis using run [OF stream] size copy
      by (simp add: fun_run_def fun_serializer_def open_sink_def close_sink_def Let_def)
  qed
qed

section \<open>Storing and loading\<close>

text \<open>The staging snapshot of a resizeable member with nothing staged.\<close>

definition open_snap :: "nat \<Rightarrow> nat \<Rightarrow> snapshot \<Rightarrow> bool" where
  "open_snap es c s \<longleftrightarrow> sn_elm_size s = es \<and> sn_max_count s = 0 \<and> 0 \<le> sn_rank s \<and> nat (sn_rank s) < c \<and>
     sn_staged s = replicate c empty_subset \<and> sn_protected s = replicate c empty_subset"

lemma fit_first:
  assumes "open_snap es c s" "0 < es" "0 < k" "k * es \<le> INT_MAX" "db_size (sn_buf s) = k * es"
  shows "add_and_fit fresh (first_elements k) s = Some (set_staged (first_elements k) s)"
proof -
  have kI: "k \<le> INT_MAX" using fixed_count(3) [OF assms(3,4,2)] .
  have st: "staged_subset s = Some (basic_subset [])" using assms(1) by (simp add: open_snap_def staged_subset_def at_rank_def empty_subset_def)
  have u: "subset_union (basic_subset []) (first_elements k) = Some (first_elements k)" by (simp add: subset_union_def)
  have "size_of_int (i32 (int k * int es)) = k * es" using fixed_count(2) [OF assms(3,4,2)] .
  moreover have "int_of_size k = int k" using kI INT_MAX_32 by (simp add: int_of_size_i32 i32_exact)
  moreover have "subset_max_count (first_elements k) = Some k" using first_queries(1) [OF assms(3) kI] .
  ultimately show ?thesis
    using assms st u by (simp add: add_and_fit_def fenix_assert_bind open_snap_def Let_def)
qed

lemma full_queries: "subset_is_bounded subset_full = Some False" "subset_equal subset_full subset_prestaged = Some False"
    "\<exists>n. subset_max_count subset_full = Some n"
  using one_block(3) [of 0 SIZE_MAX] unfolding subset_full_def basic_queries by (simp_all add: full_region_def)

lemma stage_fun_run:
  assumes s: "open_snap es c s" "mb_stage m = Some s" "mt_extent (mb_type m) = es" "\<not> ref_is_bounded (mb_user m)"
    and n: "0 < es" "0 < k" "k * es \<le> INT_MAX" and w: "sf_put f app (dr_data (mb_user m)) 0 0 = Inr w" "length w = k * es" "sf_file f \<or> can_hold mm (k * es)"
  shows "\<exists>b. stage_fun mm fresh f app subset_full m = (Inr (), m\<lparr>mb_stage := Some (set_staged (first_elements k) (s\<lparr>sn_buf := b\<rparr>))\<rparr>) \<and>
    db_data b = w \<and> db_size b = k * es"
proof -
  have "w \<noteq> []" using w(2) n by auto
  then have "sf_file f \<or> can_hold mm (length w) \<and> w \<noteq> []" using w by auto
  from fun_run_grows [OF s(4) w(1) this, of es "sn_buf s"] obtain b where b: "fun_run mm f subset_full (mb_user m) Serialize es app (sn_buf s) = Inr (app, b)"
    "db_data b = w" "db_size b = k * es" using w(2) by auto
  have kI: "k \<le> INT_MAX" using fixed_count(3) [OF n(2,3,1)] .
  have div: "sz_sub (k * es div es) 1 = k - 1" using n(1,2) kI INT_MAX_lt by (simp add: sz_sub_exact)
  have el: "sn_elm_size s = es" using s(1) by (simp add: open_snap_def)
  have fit: "add_and_fit fresh (first_elements k) (s\<lparr>sn_buf := b\<rparr>) = Some (set_staged (first_elements k) (s\<lparr>sn_buf := b\<rparr>))"
    by (rule fit_first [of es c, OF _ n]) (use s(1) b(3) in \<open>simp_all add: open_snap_def\<close>)
  obtain mc where mc: "subset_max_count subset_full = Some mc" using full_queries(3) by blast
  have fun_fit: "fun_fit fresh (mb_user m) subset_full s = (Inr (mb_user m), s)"
    using s(4) full_queries(1) mc by (simp add: fun_fit_def comp Let_def)
  have user: "k * es \<le> dr_size (mb_user m)" using s(4) n(3) INT_MAX_lt by (simp add: ref_is_bounded_def)
  have "stage_fun mm fresh f app subset_full m = (Inr (), m\<lparr>mb_stage := Some (set_staged (first_elements k) (s\<lparr>sn_buf := b\<rparr>))\<rparr>)"
    using s(2,3) n(1) b fun_fit el fit user first_queries(4) [OF n(2) kI] full_queries(2) div
    by (simp add: stage_fun_def not_prestaged_def comp Let_def)
  then show ?thesis using b by blast
qed

text \<open>A store by the default policy protects what was staged.\<close>

lemma protect_empty: "\<forall>d \<in> set ds. ss_type d = BasicSubset \<Longrightarrow> protect_all (replicate (length ds) empty_subset) ds = Some ds"
  by (induction ds) (auto simp: subset_union_def empty_subset_def is_basic_def)

lemma store_fun_run:
  assumes "open_snap es c s" "mb_stage m = Some s" "mt_extent (mb_type m) = es" "\<not> ref_is_bounded (mb_user m)"
    "0 < es" "0 < k" "k * es \<le> INT_MAX" "sf_put f app (dr_data (mb_user m)) 0 0 = Inr w" "length w = k * es" "sf_file f \<or> can_hold mm (k * es)"
  shows "\<exists>t. store_fun mm fresh f app subset_full m = (Inr FENIX_SUCCESS, m\<lparr>mb_stage := Some t\<rparr>) \<and> sn_elm_size t = es \<and>
    db_data (sn_buf t) = w \<and> db_size (sn_buf t) = k * es \<and> protected_subset t = Some (first_elements k)"
proof -
  from stage_fun_run [OF assms] obtain b where b: "stage_fun mm fresh f app subset_full m = (Inr (), m\<lparr>mb_stage := Some (set_staged (first_elements k) (s\<lparr>sn_buf := b\<rparr>))\<rparr>)"
    "db_data b = w" "db_size b = k * es" by blast
  let ?s = "set_staged (first_elements k) (s\<lparr>sn_buf := b\<rparr>)"
  have r: "sn_elm_size s = es" "0 \<le> sn_rank s" "nat (sn_rank s) < c" "sn_staged s = replicate c empty_subset" "sn_protected s = replicate c empty_subset"
    using assms(1) by (simp_all add: open_snap_def)
  obtain ds where same: "same_for_all ?s = Some (?s\<lparr>sn_staged := ds\<rparr>)" and ds: "length ds = c" "ds ! nat (sn_rank s) = first_elements k" "\<forall>d \<in> set ds. ss_type d = BasicSubset"
  proof (cases "\<forall>i < length (sn_staged ?s). int i = sn_rank ?s")
    case True
    have "?s\<lparr>sn_staged := sn_staged ?s\<rparr> = ?s" by simp
    moreover have "\<forall>d \<in> set (sn_staged ?s). ss_type d = BasicSubset"
      using r(4) set_update_subset_insert [of "replicate c empty_subset" "nat (sn_rank s)" "first_elements k"]
      by (auto simp: empty_subset_def split: if_splits)
    ultimately show ?thesis using that [of "sn_staged ?s"] True r(3,4) by (simp add: same_for_all_def)
  next
    case False
    have "staged_subset ?s = Some (first_elements k)" using r by (simp add: staged_subset_def at_rank_def)
    then have "same_for_all ?s = Some (?s\<lparr>sn_staged := map (\<lambda>_. first_elements k) (sn_staged ?s)\<rparr>)" using False by (auto simp: same_for_all_def)
    then show ?thesis using that [of "map (\<lambda>_. first_elements k) (sn_staged ?s)"] r(3,4) by simp
  qed
  let ?t = "?s\<lparr>sn_protected := ds, sn_staged := replicate (length ds) empty_subset @ drop (length ds) ds\<rparr>"
  have "iprotect (?s\<lparr>sn_staged := ds\<rparr>) = Some ?t"
    using protect_empty [OF ds(3)] ds(1) r(5) by (simp add: iprotect_def)
  then have "store_fun mm fresh f app subset_full m = (Inr FENIX_SUCCESS, m\<lparr>mb_stage := Some ?t\<rparr>)"
    using b(1) same assms(2) full_queries(2) by (simp add: store_fun_def unless_prestaged_def comp)
  moreover have "protected_subset ?t = Some (first_elements k)" using r(2,3) ds(1,2) by (simp add: protected_subset_def at_rank_def)
  ultimately show ?thesis using b r(1) by (intro exI [of _ ?t]) simp
qed

text \<open>A load of the latest snapshot.\<close>

lemma load_fun_run:
  assumes n: "0 < es" "0 < k" "k * es \<le> INT_MAX" and t: "mb_commits m \<noteq> []" "sn_elm_size (last (mb_commits m)) = es"
    "db_size (sn_buf (last (mb_commits m))) = k * es" "protected_subset (last (mb_commits m)) = Some (first_elements k)"
    and g: "sf_get f (db_data (sn_buf (last (mb_commits m)))) (dr_data (load_target m target RESTORE_FULL)) 0 (int k) (al_app l) = Inr app'"
  shows "load_fun mm f m target RESTORE_FULL SNAPSHOT_LATEST l
    = (Inr (), \<lparr>al_app = app', al_found = first_elements k\<rparr>)"
proof -
  let ?t = "last (mb_commits m)"
  have kI: "k \<le> INT_MAX" using fixed_count(3) [OF n(2,3,1)] .
  obtain p where p: "load_target m target RESTORE_FULL = unbounded_ref p" using that by (simp add: load_target_def Let_def)
  obtain b where b: "fun_run mm f (first_elements k) (unbounded_ref p) Deserialize es (al_app l) (sn_buf ?t) = Inr (app', b)"
    using fun_run_reads [OF n t(3), of f p "al_app l" app' mm] g p by (auto simp: unbounded_ref_def)
  have num: "int_of_size k = int k" "size_of_int (i32 (int k - 1)) = k - 1"
    using kI n(2) INT_MAX_32 by (simp_all add: int_of_size_i32 i32_exact size_of_int_exact)
  have "find_snapshot m SNAPSHOT_LATEST = Inr ?t" using t(1) by (simp add: find_snapshot_def search_snapshot_def)
  moreover have "SNAPSHOT_LATEST \<noteq> SNAPSHOT_ALL" "0 < RESTORE_FULL" by (simp_all add: SNAPSHOT_LATEST_def SNAPSHOT_ALL_def RESTORE_FULL_def INT32_MAX_def)
  ultimately show ?thesis
    using p b t(2,4) num n(2) first_queries(1,2) [OF n(2) kI]
    by (cases l) (simp add: load_fun_def fun_copy_out_def comp Let_def del: basic_queries)
qed

text \<open>From a store to a load.\<close>

lemma function_stored_loaded:
  assumes "open_snap es c s" "mb_stage m = Some s" "mt_extent (mb_type m) = es" "\<not> ref_is_bounded (mb_user m)"
    "0 < es" "0 < k" "k * es \<le> INT_MAX" "sf_put f app (dr_data (mb_user m)) 0 0 = Inr w" "length w = k * es" "sf_file f \<or> can_hold mm (k * es)"
  shows "\<exists>t. store_fun mm fresh f app subset_full m = (Inr FENIX_SUCCESS, m\<lparr>mb_stage := Some t\<rparr>) \<and>
    (\<forall>m' target l ts app'. mb_commits m' \<noteq> [] \<and> last (mb_commits m') = t\<lparr>sn_timestamp := ts\<rparr> \<and>
      sf_get f w (dr_data (load_target m' target RESTORE_FULL)) 0 (int k) (al_app l) = Inr app' \<longrightarrow>
      load_fun mm f m' target RESTORE_FULL SNAPSHOT_LATEST l = (Inr (), \<lparr>al_app = app', al_found = first_elements k\<rparr>))"
proof -
  from store_fun_run [OF assms] obtain t where t: "store_fun mm fresh f app subset_full m = (Inr FENIX_SUCCESS, m\<lparr>mb_stage := Some t\<rparr>)"
    "sn_elm_size t = es" "db_data (sn_buf t) = w" "db_size (sn_buf t) = k * es" "protected_subset t = Some (first_elements k)" by blast
  have "load_fun mm f m' target RESTORE_FULL SNAPSHOT_LATEST l = (Inr (), \<lparr>al_app = app', al_found = first_elements k\<rparr>)"
    if "mb_commits m' \<noteq> []" "last (mb_commits m') = t\<lparr>sn_timestamp := ts\<rparr>"
      "sf_get f w (dr_data (load_target m' target RESTORE_FULL)) 0 (int k) (al_app l) = Inr app'" for m' target l ts app'
    using load_fun_run [OF assms(5-7) that(1), of f target l app' mm] that(2,3) t by (simp add: protected_subset_def)
  then show ?thesis using t(1) by blast
qed

text \<open>The file that a member which is not resizeable hands to the application is at its end.\<close>

lemma begin_file_run:
  assumes "ref_is_bounded (mb_user m)" "stage_begin_file mm fresh m = (Inr k, m')"
  shows "\<exists>bs. k = In_File \<lparr>mf_bytes = bs, mf_pos = length bs, mf_dynamic = False\<rparr>"
proof -
  have fit: "fun_fit fresh (mb_user m) subset_full s = (Inr u, s') \<Longrightarrow> u = mb_user m" for s s' u
    using full_queries(1,3) by (auto simp: fun_fit_def comp Let_def split: if_splits sum.splits prod.splits)
  have ser: "fun_serializer mm True b (mb_user m) Serialize e = Inr (q, j) \<Longrightarrow> \<exists>bs. j = In_File (mfile_open True bs)" for b e q j
    using assms(1) by (auto simp: fun_serializer_def open_sink_def Let_def split: if_splits option.splits)
  show ?thesis
    using assms(2)
    by (auto simp: stage_begin_file_def comp split: sum.splits prod.splits option.splits dest!: fit dest!: ser simp: mfile_open_run)
qed

end
