(* ===== verification/Runtime_Properties.thy ===== *)
theory Runtime_Properties
  imports Handler_Facts Process_Properties Log_Properties Serializer_Facts
begin

text \<open>
  The properties that span the runtime: a failure from the error handler back to the application, nested
  callbacks, the search for failures, and the streams of the serializers.
\<close>

section \<open>A failure\<close>

definition six_state :: "(nat list, nat) fenix_state" where
  "six_state = \<lparr>fx_procs = six_procs 0, fx_cb = \<lparr>cb_rt = logging_runtime\<lparr>rt_settings := (rt_settings logging_runtime)\<lparr>se_resume := THROW\<rparr>\<rparr>,
     cb_table = (\<lambda>loc. if loc = 1 then [10, 20] else []), cb_depth = 0\<rparr>, fx_ret_role = InitialRank, fx_ret_error = FENIX_SUCCESS\<rparr>"



section \<open>Callbacks\<close>

text \<open>
  C10. Failures during callbacks: with exceptions squashed the invocation returns with the depth reset.  Callbacks are started
  in the order of the layers of their invocations, so that no callback of an earlier invocation starts once a newer one has, and when
  nothing disturbs the last one, the callbacks that it starts are all of them, in the order of registration.
\<close>

theorem callbacks_most_recent:
  assumes "rt_init (fx_rt s)" "settings_ok (rt_settings (fx_rt s))" "se_cb_exception (rt_settings (fx_rt s)) \<noteq> RETHROW" "cb_depth (fx_cb s) = 0"
    "settled (length (cb_table (fx_cb s) loc)) call"
  shows "invoke_all catch loc call s = (Returned FENIX_SUCCESS, set_rt (pre_recovered loc (fx_rt s)) s) \<and>
    sorted (map fst (started_by loc call (fx_cb s))) \<and> ends_with_all (cb_table (fx_cb s) loc) (started_by loc call (fx_cb s))"
proof -
  obtain t d st where i: "invoke (se_cb_exception (rt_settings (fx_rt s))) (cb_table (fx_cb s) loc) call 0 = (t, d, st)" by (metis prod_cases3)
  have "started_by loc call (fx_cb s) = st" using assms(1,4) i by (simp add: started_by_def)
  moreover have "sorted (map fst st)" using invoke_layers(1) [OF i] by (auto simp: layers_ok_def)
  moreover have "ends_with_all (cb_table (fx_cb s) loc) st" by (rule last_invocation(1) [OF assms(3) i assms(5)])
  ultimately show ?thesis using invoke_all_run [OF assms(1-4)] by simp
qed

text \<open>A failure in the first of two callbacks, and the nested invocation runs both.\<close>

theorem callbacks_most_recent_witness:
  "started_by 1 (Cb_Call [Cb_Run [Cb_Call []] True]) (fx_cb six_state) = [(0, 10), (1, 10), (1, 20)] \<and>
   sorted (map fst (started_by 1 (Cb_Call [Cb_Run [Cb_Call []] True]) (fx_cb six_state)))"
proof -
  have rt: "rt_init (fx_rt six_state)" "settings_ok (rt_settings (fx_rt six_state))" "se_cb_exception (rt_settings (fx_rt six_state)) \<noteq> RETHROW" "cb_depth (fx_cb six_state) = 0"
    using logging_runtime_ok(2-5) by (simp_all add: six_state_def settings_ok_def setting_of_def option_bound_def All_less_Suc numeral_eq_Suc
        logging_runtime_def example_runtime_def initial_settings_def)
  have "settled (length (cb_table (fx_cb six_state) 1)) (Cb_Call [Cb_Run [Cb_Call []] True])" by (simp add: six_state_def numeral_eq_Suc)
  from callbacks_most_recent [OF rt this, of True] show ?thesis
    using rt by (simp add: started_by_def) (simp add: six_state_def)
qed

section \<open>Looking for failures\<close>

text \<open>
  Without recovery \<open>detect_failures\<close> reports in its code whether the first test has found a failure; it throws nothing, and the settings are
  those from before.
\<close>

theorem detect_without_recovery:
  assumes "rt_init rt" "settings_ok (rt_settings rt)" "t \<in> {Tested, TestFailed, TestThrew Comm}"
  shows "detect_failures catch False (t # ts) rt = Some (Returned (quiet t), rt)"
  by (rule detect_run [OF assms])

theorem detect_without_recovery_witness:
  "detect_failures True False [TestThrew Comm] logging_runtime = Some (Returned FENIX_ERROR_PROCESS_FAILURE, logging_runtime)"
  using detect_without_recovery [OF logging_runtime_ok(3,5), of "TestThrew Comm" True "[]"] by (simp add: quiet_def)

section \<open>Streams\<close>


definition small_memory :: memory where
  "small_memory = \<lparr>mm_claim_target = 8, mm_write_target = 4, mm_page = 4, mm_map = Some 1000, mm_remap = (\<lambda>a k. if k = 0 then None else Some a), mm_has_remap = True\<rparr>"


text \<open>
  When the claimed space is full and \<open>mremap\<close> moves the mapping, the next byte is stored through the old
  pointer, outside of the new mapping.
\<close>

theorem stream_move_fails:
  assumes "stream_ok mm s" "position s = ds_claim s" "ds_claim s + 1 + claim_chunk mm \<le> SIZE_MAX" "mm_has_remap mm"
    "\<forall>k. mm_remap mm (ds_addr s) k = Some a" "ds_ptr s < a \<or> a + ds_claim s + 1 + claim_chunk mm \<le> ds_ptr s"
  shows "fst (sputc mm b s) = Inl Abort"
  by (rule overflow_moved [OF assms(1-4) _ assms(6)]) (use assms(5) in simp)

theorem stream_move_fails_witness:
  "\<exists>s t. open_stream (small_memory\<lparr>mm_remap := \<lambda>a k. Some 5000\<rparr>) = Inr s \<and>
    sputn (small_memory\<lparr>mm_remap := \<lambda>a k. Some 5000\<rparr>) [1, 2, 3, 4, 5, 6, 7, 8] s = (Inr (), t) \<and>
    fst (sputc (small_memory\<lparr>mm_remap := \<lambda>a k. Some 5000\<rparr>) 9 t) = Inl Abort"
proof -
  let ?m = "small_memory\<lparr>mm_remap := \<lambda>a k. Some 5000\<rparr>" and ?bs = "[1, 2, 3, 4, 5, 6, 7, 8] :: byte list"
  have c: "claim_chunk ?m = 8" "write_chunk ?m = 4" by (simp_all add: small_memory_def chunk_size_def)
  have "memory_ok ?m" unfolding memory_ok_def c by (simp add: small_memory_def SIZE_MAX_def)
  from open_run [OF this] obtain s where s: "open_stream ?m = Inr s" "stream_ok ?m s" "position s = 0" "mm_map ?m = Some (ds_addr s)" "ds_claim s = claim_chunk ?m" by blast
  have addr: "ds_addr s = 1000" using s(4) by (simp add: small_memory_def)
  have room: "room ?m s (position s + length ?bs)" unfolding room_def s(3,5) c addr by (simp add: SIZE_MAX_def)
  from sputn_run [OF s(2) room] obtain t where t: "sputn ?m ?bs s = (Inr (), t)" "stream_ok ?m t" "position t = 8" "ds_addr t = 1000"
    using s(3) addr by auto
  have claim: "ds_claim t = 8" using sputn_claim [OF s(2) room] t(1) s(3,5) c by simp
  have "ds_ptr t = 1008" using t(2-4) by (simp add: stream_ok_def position_def)
  then have "fst (sputc ?m 9 t) = Inl Abort"
    by (intro stream_move_fails [OF t(2), of 5000]) (simp_all add: t(3) claim c del: One_nat_def, simp_all add: small_memory_def SIZE_MAX_def chunk_size_def)
  then show ?thesis using s(1) t(1) by blast
qed

section \<open>Functions of the application\<close>

text \<open>
  C12. What a function of the application writes to its file or stream when a resizeable member is stored is what it can
  read from the beginning when the snapshot is loaded, and the elements found are all that it has written.
\<close>

theorem function_roundtrip:
  assumes "open_snap es c s" "mb_stage m = Some s" "mt_extent (mb_type m) = es" "\<not> ref_is_bounded (mb_user m)"
    "0 < es" "0 < k" "k * es \<le> INT_MAX" "sf_put f app (dr_data (mb_user m)) 0 0 = Inr w" "length w = k * es" "sf_file f \<or> can_hold mm (k * es)"
  shows "\<exists>t. store_fun mm fresh f app subset_full m = (Inr FENIX_SUCCESS, m\<lparr>mb_stage := Some t\<rparr>) \<and>
    (\<forall>m' target l ts app'. mb_commits m' \<noteq> [] \<and> last (mb_commits m') = t\<lparr>sn_timestamp := ts\<rparr> \<and>
      sf_get f w (dr_data (load_target m' target RESTORE_FULL)) 0 (int k) (al_app l) = Inr app' \<longrightarrow>
      load_fun mm f m' target RESTORE_FULL SNAPSHOT_LATEST l = (Inr (), \<lparr>al_app = app', al_found = first_elements k\<rparr>))"
  by (rule function_stored_loaded [OF assms])

definition list_fun :: "bool \<Rightarrow> byte list ser_fun" where
  "list_fun in_file = \<lparr>sf_file = in_file, sf_put = (\<lambda>xs _ _ _. Inr xs), sf_get = (\<lambda>bs _ _ n _. Inr (take (4 * nat n) bs))\<rparr>"

definition fresh_stage :: "int \<Rightarrow> nat list \<Rightarrow> snapshot" where
  "fresh_stage n ranks = \<lparr>sn_buf = empty_buffer, sn_timestamp = -2, sn_elm_size = 4, sn_max_count = n, sn_cohort = Some ranks, sn_rank = 0,
     sn_protected = replicate (length ranks) empty_subset, sn_staged = replicate (length ranks) empty_subset\<rparr>"

definition open_member :: member where
  "open_member = (new_member 1 Null 0 \<lparr>mt_id = 0, mt_extent = 4, mt_size = 4\<rparr> 2)\<lparr>mb_stage := Some (fresh_stage 0 [0, 1])\<rparr>"

text \<open>Twelve bytes through a stream that claims eight and grows.\<close>

theorem function_roundtrip_witness:
  "\<exists>t. store_fun (small_memory\<lparr>mm_remap := \<lambda>a k. Some a\<rparr>) (\<lambda>n. replicate n 0) (list_fun False) [1, 2, 3, 4, 5, 6, 7, 8, 9, 10, 11, 12] subset_full open_member
      = (Inr FENIX_SUCCESS, open_member\<lparr>mb_stage := Some t\<rparr>) \<and>
    al_app (snd (load_fun (small_memory\<lparr>mm_remap := \<lambda>a k. Some a\<rparr>) (list_fun False) (open_member\<lparr>mb_commits := [t\<lparr>sn_timestamp := 7\<rparr>]\<rparr>) Null RESTORE_FULL SNAPSHOT_LATEST
        \<lparr>al_app = [], al_found = empty_subset\<rparr>)) = [1, 2, 3, 4, 5, 6, 7, 8, 9, 10, 11, 12]"
proof -
  let ?m = "small_memory\<lparr>mm_remap := \<lambda>a k. Some a\<rparr>" and ?w = "[1, 2, 3, 4, 5, 6, 7, 8, 9, 10, 11, 12] :: byte list"
  have c: "claim_chunk ?m = 8" "write_chunk ?m = 4" by (simp_all add: small_memory_def chunk_size_def)
  have "memory_ok ?m" unfolding memory_ok_def c by (simp add: small_memory_def SIZE_MAX_def)
  then have hold: "sf_file (list_fun False) \<or> can_hold ?m (3 * 4)" unfolding can_hold_def c by (simp add: small_memory_def SIZE_MAX_def)
  have s: "open_snap 4 2 (fresh_stage 0 [0, 1])" "mb_stage open_member = Some (fresh_stage 0 [0, 1])"
    by (simp_all add: open_snap_def open_member_def fresh_stage_def numeral_2_eq_2)
  have m: "mt_extent (mb_type open_member) = 4" "\<not> ref_is_bounded (mb_user open_member)"
    by (simp_all add: open_member_def new_member_def ref_is_bounded_def unbounded_ref_def)
  have w: "sf_put (list_fun False) ?w (dr_data (mb_user open_member)) 0 0 = Inr ?w" "length ?w = 3 * 4" by (simp_all add: list_fun_def)
  from function_roundtrip [OF s m _ _ _ w hold, of "\<lambda>n. replicate n 0"] obtain t where
    t: "store_fun ?m (\<lambda>n. replicate n 0) (list_fun False) ?w subset_full open_member = (Inr FENIX_SUCCESS, open_member\<lparr>mb_stage := Some t\<rparr>)"
      "\<And>m' target l ts app'. mb_commits m' \<noteq> [] \<Longrightarrow> last (mb_commits m') = t\<lparr>sn_timestamp := ts\<rparr> \<Longrightarrow>
        sf_get (list_fun False) ?w (dr_data (load_target m' target RESTORE_FULL)) 0 (int 3) (al_app l) = Inr app' \<Longrightarrow>
        load_fun ?m (list_fun False) m' target RESTORE_FULL SNAPSHOT_LATEST l = (Inr (), \<lparr>al_app = app', al_found = first_elements 3\<rparr>)"
    by (auto simp: INT_MAX_def)
  show ?thesis using t(1) t(2) [of "open_member\<lparr>mb_commits := [t\<lparr>sn_timestamp := 7\<rparr>]\<rparr>" 7 Null "\<lparr>al_app = [], al_found = empty_subset\<rparr>" ?w]
    by (intro exI [of _ t]) (simp add: list_fun_def)
qed

text \<open>
  A member that is not resizeable gets a file that stands at the end of its buffer: whatever the application writes there
  before it seeks is not stored.
\<close>

theorem begin_file_at_end:
  assumes "ref_is_bounded (mb_user m)" "stage_begin_file mm fresh m = (Inr k, m')"
  shows "put_sink mm xs k = (Inr (), k)"
  using begin_file_run [OF assms] by (auto simp: put_sink_def write_at_end)

definition two_member :: member where
  "two_member = (new_member 1 (At 0) 2 \<lparr>mt_id = 0, mt_extent = 4, mt_size = 4\<rparr> 2)\<lparr>mb_stage := Some (fresh_stage 2 [0])\<rparr>"

theorem begin_file_at_end_witness:
  "\<exists>k m'. stage_begin_file small_memory (\<lambda>n. replicate n 0) two_member = (Inr k, m') \<and> put_sink small_memory [1, 2, 3, 4, 5, 6, 7, 8] k = (Inr (), k)"
proof -
  have b: "ref_is_bounded (mb_user two_member)"
    by (simp add: two_member_def new_member_def ref_is_bounded_def i32_def size_of_int_def SIZE_MAX_def)
  obtain mc where mc: "subset_max_count subset_full = Some mc" using full_queries(3) by blast
  have e: "mb_user two_member = \<lparr>dr_data = At 0, dr_size = 8\<rparr>" "mb_stage two_member = Some (fresh_stage 2 [0])"
    by (simp_all add: two_member_def new_member_def i32_def size_of_int_def SIZE_MAX_def)
  have "\<exists>k m'. stage_begin_file small_memory (\<lambda>n. replicate n 0) two_member = (Inr k, m')"
    using b by (simp add: stage_begin_file_def comp e fresh_stage_def fun_fit_def full_queries(1) mc Let_def snap_resize_def IDX_MAX_def
        fun_serializer_def serializer_size_def open_sink_def resize_def)
  then show ?thesis using begin_file_at_end [OF b] by blast
qed

end
