(* ===== verification/Tasks.thy ===== *)
theory Tasks
  imports Prelude "HOL-Library.Monad_Syntax"
begin

text \<open>
  Tasks (include/fenix/tasks, include/fenix/mpixx/request.hpp): coroutines that await MPI requests and other tasks.
  \<open>resume\<close> runs a task to its next suspension, \<open>wait\<close> to its end; the logs of a communicator
  keep the tasks that are active (src/logging/comm_log.cpp).
\<close>

section \<open>Coroutines\<close>

text \<open>
  The code of a coroutine, as far as the rest of a task can tell: the actions between the suspensions, which are of
  any type \<open>'a\<close>, and what is awaited.  \<open>Yield\<close> awaits \<open>std::suspend_always\<close>.  A request is the number of tests that will
  still find it incomplete.  A promise has the code that is left, the subtask, \<open>await_mode\<close> and \<open>coro_done\<close>.
\<close>

datatype 'a coro = Finish | Act 'a "'a coro" | Await "'a subtask" "'a coro" | Yield "'a coro"
  and 'a subtask = Request nat | Child "'a promise"
  and 'a promise = Promise "'a coro" "'a subtask option" bool bool

text \<open>A lazy task has not run anything.\<close>

definition lazy_task :: "'a coro \<Rightarrow> 'a promise" where
  "lazy_task c = Promise c None False False"

fun task_done :: "'a promise \<Rightarrow> bool" where
  "task_done (Promise c s b d) = d"

text \<open>\<open>done\<close> of a subtask; that of a request is a test.\<close>

fun sub_done :: "'a subtask \<Rightarrow> bool \<times> 'a subtask" where
  "sub_done (Request n) = (n = 0, Request (n - 1))"
| "sub_done (Child p) = (task_done p, Child p)"

text \<open>
  \<open>resume\<close> and \<open>wait\<close> of promises and subtasks, and \<open>run_coro\<close>, which is \<open>handle.resume\<close>: from a suspension to the next one.  The
  results are the actions and the promise afterwards.  The first argument is fuel.
\<close>

fun resume :: "nat \<Rightarrow> 'a promise \<Rightarrow> ('a list \<times> 'a promise) option"
  and run_coro :: "nat \<Rightarrow> bool \<Rightarrow> 'a coro \<Rightarrow> ('a list \<times> 'a promise) option"
  and sub_resume :: "nat \<Rightarrow> 'a subtask \<Rightarrow> ('a list \<times> 'a subtask) option"
  and sub_wait :: "nat \<Rightarrow> 'a subtask \<Rightarrow> ('a list \<times> 'a subtask) option"
  and wait_loop :: "nat \<Rightarrow> 'a promise \<Rightarrow> ('a list \<times> 'a promise) option" where
  "resume 0 p = None"
| "resume (Suc n) (Promise c s b d) =
     (if d then Some ([], Promise c s b d)
      else (case s of
          None \<Rightarrow> run_coro n b c
        | Some t \<Rightarrow> do {
            (out, t) \<leftarrow> (if b then sub_wait n t else sub_resume n t);
            (case sub_done t of
               (True, _) \<Rightarrow> do { (out', p) \<leftarrow> run_coro n b c; Some (out @ out', p) }
             | (False, t) \<Rightarrow> Some (out, Promise c (Some t) b False))
          }))"
| "run_coro 0 b c = None"
| "run_coro (Suc n) b Finish = Some ([], Promise Finish None b True)"
| "run_coro (Suc n) b (Act a c) = do { (out, p) \<leftarrow> run_coro n b c; Some (a # out, p) }"
| "run_coro (Suc n) b (Yield c) = Some ([], Promise c None b False)"
| "run_coro (Suc n) b (Await t c) =
     (case sub_done t of
        (True, _) \<Rightarrow> run_coro n b c
      | (False, t) \<Rightarrow> do {
          (out, t) \<leftarrow> (if b then sub_wait n t else Some ([], t));
          (case sub_done t of
             (True, _) \<Rightarrow> do { (out', p) \<leftarrow> run_coro n b c; Some (out @ out', p) }
           | (False, t) \<Rightarrow> Some (out, Promise c (Some t) b False))
        })"
| "sub_resume 0 t = None"
| "sub_resume (Suc n) (Request k) = Some ([], Request (k - 1))"
| "sub_resume (Suc n) (Child p) = do { (out, p) \<leftarrow> resume n p; Some (out, Child p) }"
| "sub_wait 0 t = None"
| "sub_wait (Suc n) (Request k) = Some ([], Request 0)"
| "sub_wait (Suc n) (Child (Promise c s b d)) = do { (out, p) \<leftarrow> wait_loop n (Promise c s True d); Some (out, Child p) }"
| "wait_loop 0 p = None"
| "wait_loop (Suc n) p =
     (if task_done p then Some ([], p)
      else do {
        (out, p) \<leftarrow> resume n p;
        (out', p) \<leftarrow> wait_loop n p;
        Some (out @ out', p)
      })"

fun wait_task :: "nat \<Rightarrow> 'a promise \<Rightarrow> ('a list \<times> 'a promise) option" where
  "wait_task n (Promise c s b d) = wait_loop n (Promise c s True d)"

section \<open>The active tasks of a log\<close>

text \<open>\<open>progress\<close> resumes every task once, from the last one to the first, and erases those that are done.\<close>

fun progress_from :: "nat \<Rightarrow> nat \<Rightarrow> 'a promise list \<Rightarrow> ('a list \<times> 'a promise list) option" where
  "progress_from n 0 ts = Some ([], ts)"
| "progress_from n (Suc i) ts = do {
     (out, p) \<leftarrow> resume n (ts ! i);
     (let ts = ts[i := p]; ts = (if task_done p then take i ts @ drop (Suc i) ts else ts) in do {
        (out', ts) \<leftarrow> progress_from n i ts;
        Some (out @ out', ts)
     })
   }"

definition progress :: "nat \<Rightarrow> 'a promise list \<Rightarrow> ('a list \<times> 'a promise list) option" where
  "progress n ts = progress_from n (length ts) ts"

text \<open>
  The loop of \<open>reset_consistency\<close> that runs until no task is left; \<open>arrivals\<close> are the tasks that
  \<open>detect_incoming_consistency_request\<close> starts after each round.
\<close>

fun settle :: "nat \<Rightarrow> 'a promise list list \<Rightarrow> 'a promise list \<Rightarrow> ('a list) option" where
  "settle 0 arrivals ts = None"
| "settle (Suc n) arrivals ts = do {
     (out, ts) \<leftarrow> progress (Suc n) ts;
     (let ts = ts @ (case arrivals of [] \<Rightarrow> [] | a # _ \<Rightarrow> a) in
      if ts = [] then Some out
      else do { out' \<leftarrow> settle n (tl arrivals) ts; Some (out @ out') })
   }"

text \<open>\<open>progress_through\<close> a request: the rounds until a test of it succeeds.\<close>

fun through_request :: "nat \<Rightarrow> nat \<Rightarrow> 'a promise list \<Rightarrow> ('a list \<times> 'a promise list) option" where
  "through_request fuel k ts = do {
     (out, ts) \<leftarrow> progress fuel ts;
     (case k of
        0 \<Rightarrow> Some (out, ts)
      | Suc k \<Rightarrow> do { (out', ts) \<leftarrow> through_request fuel k ts; Some (out @ out', ts) })
   }"

end
