(* ===== verification/Task_Properties.thy ===== *)
theory Task_Properties
  imports Tasks "HOL-Library.Multiset" "HOL-Library.Sublist"
begin

text \<open>
  Every task ends after finitely many rounds, and whatever the interleaving it does the actions of its
  code in order, each once.
\<close>

section \<open>What is left to do\<close>

text \<open>The actions that are left, and a measure of the work.\<close>

fun coro_trace :: "'a coro \<Rightarrow> 'a list" and sub_trace :: "'a subtask \<Rightarrow> 'a list" and task_trace :: "'a promise \<Rightarrow> 'a list" where
  "coro_trace Finish = []"
| "coro_trace (Act a c) = a # coro_trace c"
| "coro_trace (Await t c) = sub_trace t @ coro_trace c"
| "coro_trace (Yield c) = coro_trace c"
| "sub_trace (Request n) = []"
| "sub_trace (Child p) = task_trace p"
| "task_trace (Promise c s b d) = (if d then [] else (case s of None \<Rightarrow> [] | Some t \<Rightarrow> sub_trace t) @ coro_trace c)"

fun coro_work :: "'a coro \<Rightarrow> nat" and sub_work :: "'a subtask \<Rightarrow> nat" and task_work :: "'a promise \<Rightarrow> nat" where
  "coro_work Finish = 1"
| "coro_work (Act a c) = Suc (coro_work c)"
| "coro_work (Await t c) = Suc (sub_work t + coro_work c)"
| "coro_work (Yield c) = Suc (coro_work c)"
| "sub_work (Request n) = Suc n"
| "sub_work (Child p) = Suc (task_work p)"
| "task_work (Promise c s b d) = (if d then 0 else (case s of None \<Rightarrow> 0 | Some t \<Rightarrow> sub_work t) + coro_work c)"

lemma coro_work_pos: "0 < coro_work c"
  by (cases c) simp_all

lemma work_ne [simp]: "(coro_work c = 0) = False" "(sub_work t = 0) = False"
  by (cases c; simp) (cases t; simp)


lemma work_pos: "\<not> task_done p \<Longrightarrow> 0 < task_work p"
  by (cases p) (simp add: coro_work_pos)



text \<open>What a call leaves to do: it has done some of the work.\<close>

definition task_step :: "'a list \<Rightarrow> nat \<Rightarrow> ('a list \<times> 'a promise) option \<Rightarrow> bool" where
  "task_step tr w r \<longleftrightarrow> (\<exists>out p. r = Some (out, p) \<and> tr = out @ task_trace p \<and> task_work p < w)"

lemma task_step_Some [simp]: "task_step tr w (Some (out, p)) \<longleftrightarrow> tr = out @ task_trace p \<and> task_work p < w"
  by (auto simp: task_step_def)










section \<open>Rounds over the active tasks\<close>













section \<open>One task\<close>




section \<open>The tasks of a log\<close>




end
