(* ===== verification/Comm_Sync.thy ===== *)
theory Comm_Sync
  imports Comm_Facts
begin

text \<open>
  The collective \<open>form_consistency\<close> (src/logging/comm_log.cpp) over all ranks of a communicator: the ranks find the one that is
  furthest, take over its regions, and agree on the first collective that has to be replayed.  Then the whole of \<open>reset_consistency\<close> on one rank.
\<close>

section \<open>The protocol\<close>

text \<open>\<open>MPI_MAXLOC\<close>: the greatest value and the smallest index that has it; the pairs come in the order of the indices.\<close>

fun maxloc :: "(int \<times> nat) list \<Rightarrow> int \<times> nat" where
  "maxloc [] = (0, 0)"
| "maxloc [p] = p"
| "maxloc (p # q # ps) = (let m = maxloc (q # ps) in if fst m \<le> fst p then p else m)"

definition next_colls :: "comm_log list \<Rightarrow> int list" where
  "next_colls cs = map (\<lambda>c. cr_next (coll_region c)) cs"

text \<open>
  Every rank contributes its log.  The first exchange, with the neighbours, only wakes them up.  \<open>None\<close>: some rank has found a conflict, which ends the program.
\<close>

definition form_all :: "comm_log list \<Rightarrow> comm_log list option" where
  "form_all cs = (case maxloc (zip (next_colls cs) [0..<length cs]) of (latest, root) \<Rightarrow> do {
     fenix_assert (root < length cs);
     cs' \<leftarrow> those (map (adopt_region latest (cl_regions (cs ! root))) cs);
     (let earliest = Min (set (next_colls cs')) in
      Some (map (end_consistency latest earliest) cs'))
   })"

lemma maxloc_run:
  "ps \<noteq> [] \<Longrightarrow> maxloc ps \<in> set ps \<and> (\<forall>p \<in> set ps. fst p \<le> fst (maxloc ps))"
proof (induction ps rule: maxloc.induct)
  case (3 p q ps)
  then show ?case by (auto simp: Let_def)
qed auto

section \<open>A history of regions\<close>

text \<open>
  The program begins the same regions at the same collectives on every rank.  \<open>H\<close> has their ids and first indices.  A rank that is
  \<open>placed\<close> has a part of \<open>H\<close> in its last regions, and has not gone beyond the beginning of the region after them.
\<close>

definition history :: "(int \<times> int) list \<Rightarrow> bool" where
  "history H \<longleftrightarrow> sorted_wrt (\<lambda>a b. fst a < fst b \<and> snd a \<le> snd b) H \<and> (\<forall>p \<in> set H. 0 \<le> fst p \<and> 0 \<le> snd p)"

definition region_key :: "cregion \<Rightarrow> int \<times> int" where
  "region_key r = (cr_id r, cr_first r)"

definition placed :: "(int \<times> int) list \<Rightarrow> comm_log \<Rightarrow> bool" where
  "placed H c \<longleftrightarrow> (\<exists>old window pre post. cl_regions c = old @ window \<and> window \<noteq> [] \<and> (\<forall>r \<in> set old. cr_id r = -1) \<and>
     H = pre @ map region_key window @ post \<and> cr_first (last window) \<le> cr_next (last window) \<and>
     (post \<noteq> [] \<longrightarrow> cr_next (last window) \<le> snd (hd post)))"

text \<open>A rank that does not know its index yet: it has no region, or one in which nothing has happened.\<close>

definition region_wanted :: "comm_log \<Rightarrow> int" where
  "region_wanted c = (if cr_valid (coll_region c) then cr_id (coll_region c) else cl_active c)"

definition unplaced :: "comm_log \<Rightarrow> bool" where
  "unplaced c \<longleftrightarrow> cl_regions c \<noteq> [] \<and> (coll_region c = no_cregion \<or> cr_fresh (coll_region c))"

text \<open>
  The logs of a communicator after a failure: every rank that knows its index is placed; the region that a rank is in has been reached by
  the rank that is furthest, and the regions that are remembered go back to it.
\<close>

definition coherent :: "(int \<times> int) list \<Rightarrow> comm_log list \<Rightarrow> bool" where
  "coherent H cs \<longleftrightarrow> history H \<and> (\<exists>c \<in> set cs. \<not> unplaced c) \<and> (\<forall>c \<in> set cs. placed H c \<or> unplaced c) \<and>
     (\<forall>c \<in> set cs. \<exists>f. (region_wanted c, f) \<in> set H \<and> f \<le> Max (set (next_colls cs))) \<and>
     (\<forall>c \<in> set cs. \<forall>d \<in> set cs. \<not> unplaced d \<longrightarrow> (\<exists>r \<in> set (cl_regions d). cr_valid r \<and> cr_id r \<le> region_wanted c))"

lemma historyD:
  assumes "history (xs @ a # ys @ b # zs)"
  shows "fst a < fst b" "snd a \<le> snd b"
  using assms by (auto simp: history_def sorted_wrt_append)

lemma lower_bound_eq:
  assumes "\<forall>r \<in> set xs. cr_id r < k" "ys \<noteq> [] \<longrightarrow> k \<le> cr_id (hd ys)"
  shows "cr_lower_bound k (xs @ ys) = length xs"
proof -
  have "takeWhile (\<lambda>r. cr_id r < k) (xs @ ys) = xs"
    using assms by (cases ys) (simp_all add: takeWhile_append)
  then show ?thesis by (simp add: cr_lower_bound_def)
qed

text \<open>Where the region \<open>(k, f)\<close> of the history is, seen from the regions of a placed rank.\<close>

lemma found_or_after:
  assumes H: "history H" and reg: "regs = old @ window" "window \<noteq> []" "\<forall>r \<in> set old. cr_id r = -1" "H = pre @ map region_key window @ post"
    and kf: "(k, f) \<in> set H" "cr_id (hd window) \<le> k"
  shows "(\<exists>xs r ys. regs = xs @ r # ys \<and> cr_lower_bound k regs = length xs \<and> region_key r = (k, f)) \<or>
    (cr_lower_bound k regs = length regs \<and> (k, f) \<in> set post)"
proof -
  obtain w ws where w: "window = w # ws" using reg(2) by (cases window) auto
  have "(k, f) \<notin> set pre"
  proof
    assume "(k, f) \<in> set pre"
    then obtain xs ys where "pre = xs @ (k, f) # ys" by (meson split_list)
    then have "history (xs @ (k, f) # ys @ region_key w # (map region_key ws @ post))" using H reg(4) w by simp
    from historyD(1) [OF this] show False using kf(2) w by (simp add: region_key_def)
  qed
  then consider "(k, f) \<in> set (map region_key window)" | "(k, f) \<in> set post" using kf(1) reg(4) by auto
  then show ?thesis
  proof cases
    case 1
    then obtain r where r: "r \<in> set window" "region_key r = (k, f)" by (metis imageE list.set_map)
    then obtain us vs where uv: "window = us @ r # vs" by (meson split_list)
    have us: "cr_id u < k" if u: "u \<in> set us" for u
    proof -
      from u obtain a b where "us = a @ u # b" by (meson split_list)
      then have "history ((pre @ map region_key a) @ region_key u # map region_key b @ region_key r # (map region_key vs @ post))"
        using H reg(4) uv by simp
      from historyD(1) [OF this] show ?thesis using r(2) by (simp add: region_key_def)
    qed
    have "0 \<le> k" using H kf(1) by (auto simp: history_def)
    then have "\<forall>x \<in> set (old @ us). cr_id x < k" using us reg(3) by auto
    then have "cr_lower_bound k ((old @ us) @ r # vs) = length (old @ us)"
      by (rule lower_bound_eq) (use r(2) in \<open>simp add: region_key_def\<close>)
    then show ?thesis using reg(1) uv r(2) by (intro disjI1 exI [of _ "old @ us"] exI [of _ r] exI [of _ vs]) simp
  next
    case 2
    then obtain a b where ab: "post = a @ (k, f) # b" by (meson split_list)
    have "cr_id u < k" if u: "u \<in> set window" for u
    proof -
      from u obtain x y where "window = x @ u # y" by (meson split_list)
      then have "history ((pre @ map region_key x) @ region_key u # (map region_key y @ a) @ (k, f) # b)" using H reg(4) ab by simp
      from historyD(1) [OF this] show ?thesis by (simp add: region_key_def)
    qed
    moreover have "0 \<le> k" using H kf(1) by (auto simp: history_def)
    ultimately have "\<forall>x \<in> set (old @ window). cr_id x < k" using reg(3) by auto
    then have "cr_lower_bound k ((old @ window) @ []) = length (old @ window)" by (rule lower_bound_eq) simp
    then show ?thesis using 2 reg(1) by simp
  qed
qed

section \<open>One rank\<close>

lemma adopt_run:
  assumes H: "history H" and root: "regs = old @ window" "window \<noteq> []" "\<forall>r \<in> set old. cr_id r = -1" "H = pre @ map region_key window @ post"
    and latest: "0 \<le> latest" "post \<noteq> [] \<longrightarrow> latest \<le> snd (hd post)"
    and c: "cl_regions c \<noteq> []" "(region_wanted c, f) \<in> set H" "cr_id (hd window) \<le> region_wanted c" "f \<le> latest"
    and st: "coll_region c = no_cregion \<or> cr_fresh (coll_region c) \<or> cr_valid (coll_region c) \<and> cr_first (coll_region c) = f \<and> cr_next (coll_region c) \<le> latest"
  shows "\<exists>r. adopt_region latest regs c = Some (set_coll_region r c) \<and> region_key r = (region_wanted c, f) \<and> cr_next r \<le> latest \<and>
    r = (if unplaced c then cregion_at (region_wanted c) f else coll_region c)"
proof -
  define m where "m = (if cr_valid (coll_region c) then coll_region c else (coll_region c)\<lparr>cr_id := cl_active c\<rparr>)"
  let ?k = "region_wanted c"
  have k: "cr_id m = ?k" by (simp add: m_def region_wanted_def)
  have "0 \<le> f" "0 \<le> ?k" using H c(2) by (auto simp: history_def)
  have un: "\<not> cr_valid m \<or> cr_fresh m \<longleftrightarrow> unplaced c"
    using c(1) st by (auto simp: m_def unplaced_def no_cregion_def cr_valid_def cr_fresh_def cr_empty_def)
  have known: "m = coll_region c" "cr_first m = f" "cr_next m \<le> latest" if "\<not> unplaced c"
    using that st c(1) by (auto simp: m_def unplaced_def)
  have upd: "set_coll_region (m\<lparr>cr_first := f, cr_next := f\<rparr>) (set_coll_region m c) = set_coll_region (cregion_at ?k f) c"
    using k by (cases m) (simp add: set_coll_region_def cregion_at_def)
  have m: "coll_region (set_coll_region m c) = m" by simp
  let ?r = "if unplaced c then cregion_at ?k f else coll_region c"
  have r: "region_key ?r = (?k, f)" "cr_next ?r \<le> latest"
    using known k c(4) by (auto simp: region_key_def cregion_at_def)
  from found_or_after [OF H root c(2,3)] have "adopt_region latest regs c = Some (set_coll_region ?r c)"
  proof
    assume "\<exists>xs r ys. regs = xs @ r # ys \<and> cr_lower_bound ?k regs = length xs \<and> region_key r = (?k, f)"
    then obtain xs r ys where x: "regs = xs @ r # ys" "cr_lower_bound ?k regs = length xs" "cr_id r = ?k" "cr_first r = f"
      by (auto simp: region_key_def)
    have it: "length xs < length regs" "regs ! length xs = r" using x(1) by simp_all
    show ?thesis
      unfolding adopt_region_def m_def [symmetric] Let_def m k x(2)
      using latest(1) it x(3,4) un upd known by (auto simp: fenix_assert_bind)
  next
    assume a: "cr_lower_bound ?k regs = length regs \<and> (?k, f) \<in> set post"
    have "f = latest"
    proof -
      obtain p ps where p: "post = p # ps" using a by (cases post) auto
      have "snd p \<le> f"
      proof (cases "(?k, f) = p")
        case False
        then obtain xs ys where "ps = xs @ (?k, f) # ys" using a p by (auto dest: split_list)
        then have "history ((pre @ map region_key window) @ p # xs @ (?k, f) # ys)" using H root(4) p by simp
        from historyD(2) [OF this] show ?thesis by simp
      qed auto
      then show ?thesis using latest(2) p c(4) by simp
    qed
    then show ?thesis
      unfolding adopt_region_def m_def [symmetric] Let_def m k
      using latest(1) a un upd known by (auto simp: fenix_assert_bind)
  qed
  then show ?thesis using r by blast
qed

section \<open>All ranks\<close>

lemma those_map:
  "\<forall>x \<in> set xs. f x = Some (g x) \<Longrightarrow> those (map f xs) = Some (map g xs)"
  by (induction xs) simp_all

text \<open>The region of a rank afterwards.\<close>

definition agreed_region :: "(int \<times> int) list \<Rightarrow> comm_log \<Rightarrow> cregion" where
  "agreed_region H c = (if unplaced c then cregion_at (region_wanted c) (the (map_of H (region_wanted c))) else coll_region c)"

lemma history_map:
  assumes "history H" "(k, f) \<in> set H"
  shows "map_of H k = Some f"
proof -
  have "distinct (map fst H)"
    using assms(1) by (auto simp: history_def distinct_conv_nth sorted_wrt_iff_nth_less) (metis less_irrefl linorder_neqE_nat)
  then show ?thesis using assms(2) by simp
qed

lemma placed_facts:
  assumes "history H" "placed H c"
  shows "cl_regions c \<noteq> []" "region_key (coll_region c) \<in> set H" "cr_valid (coll_region c)" "cr_first (coll_region c) \<le> cr_next (coll_region c)"
    "region_wanted c = cr_id (coll_region c)"
proof -
  obtain old window pre post where w: "cl_regions c = old @ window" "window \<noteq> []" "H = pre @ map region_key window @ post" "cr_first (last window) \<le> cr_next (last window)"
    using assms(2) by (auto simp: placed_def)
  have l: "coll_region c = last window" "last window \<in> set window" using w(1,2) by (simp_all add: coll_region_def)
  then have k: "region_key (coll_region c) \<in> set H" using w(3) by auto
  have n: "cr_first (coll_region c) \<le> cr_next (coll_region c)" using l(1) w(4) by simp
  have "0 \<le> fst (region_key (coll_region c)) \<and> 0 \<le> snd (region_key (coll_region c))" using assms(1) k unfolding history_def by blast
  then have v: "cr_valid (coll_region c)" using n by (simp add: cr_valid_def region_key_def)
  show "cl_regions c \<noteq> []" "region_key (coll_region c) \<in> set H" "cr_valid (coll_region c)" "cr_first (coll_region c) \<le> cr_next (coll_region c)"
    "region_wanted c = cr_id (coll_region c)" using w(1,2) k v n by (simp_all add: region_wanted_def)
qed

lemma unplaced_next: "unplaced c \<Longrightarrow> cr_next (coll_region c) \<le> 0"
  by (auto simp: unplaced_def no_cregion_def cr_fresh_def cr_empty_def)

lemma first_window:
  assumes H: "history H" and w: "H = pre @ map region_key window @ post" "r \<in> set window"
  shows "cr_id (hd window) \<le> cr_id r"
proof (cases "r = hd window")
  case False
  then obtain w0 ws where ws: "window = w0 # ws" "r \<in> set ws" using w(2) by (cases window) auto
  then obtain a b where "ws = a @ r # b" by (meson split_list)
  then have "history (pre @ region_key w0 # map region_key a @ region_key r # (map region_key b @ post))" using H w(1) ws(1) by simp
  from historyD(1) [OF this] show ?thesis using ws(1) by (simp add: region_key_def)
qed simp

lemma furthest:
  assumes "coherent H cs"
  obtains root where "root < length cs" "maxloc (zip (next_colls cs) [0..<length cs]) = (Max (set (next_colls cs)), root)"
    "placed H (cs ! root)" "\<not> unplaced (cs ! root)" "cr_next (coll_region (cs ! root)) = Max (set (next_colls cs))" "0 < Max (set (next_colls cs))"
proof -
  let ?n = "next_colls cs" and ?ps = "zip (next_colls cs) [0..<length cs]" and ?M = "Max (set (next_colls cs))"
  have len: "length ?n = length cs" by (simp add: next_colls_def)
  obtain c where c: "c \<in> set cs" "\<not> unplaced c" "placed H c" using assms by (auto simp: coherent_def)
  have H: "history H" using assms by (simp add: coherent_def)
  have mem: "cr_next (coll_region x) \<le> ?M" if "x \<in> set cs" for x using that by (simp add: next_colls_def)
  have "0 < cr_next (coll_region c)"
    using placed_facts [OF H c(3)] c(2) by (auto simp: unplaced_def cr_valid_def cr_fresh_def cr_empty_def)
  then have pos: "0 < ?M" using mem [OF c(1)] by simp
  have "?ps \<noteq> []" using c(1) len by (cases cs) (auto simp: upt_rec next_colls_def)
  from maxloc_run [OF this] obtain v root where m: "maxloc ?ps = (v, root)" "(v, root) \<in> set ?ps" "\<forall>p \<in> set ?ps. fst p \<le> v" by (metis fst_conv prod.collapse)
  have r: "root < length cs" "v = ?n ! root" using m(2) len by (auto simp: set_zip)
  have "\<forall>x \<in> set ?n. x \<le> v"
  proof
    fix x assume "x \<in> set ?n"
    then obtain i where "i < length cs" "x = ?n ! i" using len by (auto simp: in_set_conv_nth)
    then have "(x, i) \<in> set ?ps" using len by (auto simp: set_zip)
    then show "x \<le> v" using m(3) by force
  qed
  moreover have "v \<in> set ?n" using r len by simp
  ultimately have v: "v = ?M" by (intro Max_eqI [symmetric]) auto
  have n: "cr_next (coll_region (cs ! root)) = ?M" using r v by (simp add: next_colls_def)
  then have "\<not> unplaced (cs ! root)" using unplaced_next [of "cs ! root"] pos by auto
  moreover have "cs ! root \<in> set cs" using r(1) by simp
  ultimately show ?thesis using that [OF r(1) _ _ _ n pos] m(1) v assms by (auto simp: coherent_def)
qed

lemma form_all_run:
  assumes "coherent H cs"
  shows "form_all cs = Some (map (\<lambda>c. end_consistency (Max (set (next_colls cs))) (Min ((\<lambda>c. cr_next (agreed_region H c)) ` set cs))
    (set_coll_region (agreed_region H c) c)) cs) \<and>
    (\<forall>c \<in> set cs. region_key (agreed_region H c) \<in> set H \<and> cr_id (agreed_region H c) = region_wanted c \<and>
      cr_first (agreed_region H c) \<le> cr_next (agreed_region H c) \<and> cr_next (agreed_region H c) \<le> Max (set (next_colls cs)))"
proof -
  let ?M = "Max (set (next_colls cs))"
  have H: "history H" using assms by (simp add: coherent_def)
  from furthest [OF assms] obtain root where root: "root < length cs" "maxloc (zip (next_colls cs) [0..<length cs]) = (?M, root)"
    "placed H (cs ! root)" "\<not> unplaced (cs ! root)" "cr_next (coll_region (cs ! root)) = ?M" "0 < ?M" by blast
  let ?regs = "cl_regions (cs ! root)"
  obtain old window pre post where w: "?regs = old @ window" "window \<noteq> []" "\<forall>r \<in> set old. cr_id r = -1"
    "H = pre @ map region_key window @ post" "post \<noteq> [] \<longrightarrow> cr_next (last window) \<le> snd (hd post)" using root(3) by (auto simp: placed_def)
  have last: "post \<noteq> [] \<longrightarrow> ?M \<le> snd (hd post)" using w(1,2,5) root(5) by (simp add: coll_region_def)
  have one: "adopt_region ?M ?regs c = Some (set_coll_region (agreed_region H c) c) \<and> region_key (agreed_region H c) \<in> set H \<and>
      cr_id (agreed_region H c) = region_wanted c \<and> cr_first (agreed_region H c) \<le> cr_next (agreed_region H c) \<and> cr_next (agreed_region H c) \<le> ?M"
    if c: "c \<in> set cs" for c
  proof -
    obtain f where f: "(region_wanted c, f) \<in> set H" "f \<le> ?M" using assms c by (auto simp: coherent_def)
    have mf: "map_of H (region_wanted c) = Some f" by (rule history_map [OF H f(1)])
    have st: "placed H c \<or> unplaced c" using assms c by (simp add: coherent_def)
    have ne: "cl_regions c \<noteq> []" using st placed_facts(1) [OF H] by (auto simp: unplaced_def)
    obtain r where r: "r \<in> set ?regs" "cr_valid r" "cr_id r \<le> region_wanted c" using assms c root(1,4) unfolding coherent_def by (meson nth_mem)
    then have "r \<in> set window" using w(1,3) by (auto simp: cr_valid_def)
    then have "cr_id (hd window) \<le> region_wanted c" using first_window [OF H w(4)] r(3) by fastforce
    moreover have "cr_next (coll_region c) \<le> ?M" using c by (simp add: next_colls_def)
    moreover have "cr_first (coll_region c) = f" if "\<not> unplaced c"
    proof -
      have p: "placed H c" using that st by simp
      have "(region_wanted c, cr_first (coll_region c)) \<in> set H" using placed_facts(2,5) [OF H p] by (simp add: region_key_def)
      then show ?thesis using history_map [OF H] mf by fastforce
    qed
    ultimately obtain a where a: "adopt_region ?M ?regs c = Some (set_coll_region a c)" "region_key a = (region_wanted c, f)" "cr_next a \<le> ?M"
      "a = (if unplaced c then cregion_at (region_wanted c) f else coll_region c)"
      using adopt_run [OF H w(1-4) _ last ne f(1) _ f(2)] root(6) st placed_facts(3) [OF H] by (auto simp: unplaced_def)
    then have "a = agreed_region H c" using mf by (simp add: agreed_region_def)
    moreover have "cr_first a \<le> cr_next a" using a(4) placed_facts(4) [OF H, of c] st by (auto simp: cregion_at_def)
    ultimately show ?thesis using a(1-3) f(1) by (auto simp: region_key_def)
  qed
  have "those (map (adopt_region ?M ?regs) cs) = Some (map (\<lambda>c. set_coll_region (agreed_region H c) c) cs)"
    by (rule those_map) (use one in blast)
  moreover have "set (next_colls (map (\<lambda>c. set_coll_region (agreed_region H c) c) cs)) = (\<lambda>c. cr_next (agreed_region H c)) ` set cs"
    by (auto simp: next_colls_def)
  ultimately show ?thesis using one root(1,2) by (simp add: form_all_def Let_def comp_def)
qed

text \<open>The replay of a rank whose log reaches back to the first collective that is wanted.\<close>

lemma coll_region_end [simp]:
  "coll_region (end_consistency latest earliest c) = coll_region c" "cl_colls (end_consistency latest earliest c) = cl_colls c"
  by (simp_all add: end_consistency_def coll_region_def)

lemma replay_between:
  assumes "history H" "region_key a \<in> set H" "cr_first a \<le> cr_next a" "i \<le> start" "map cg_idx (cl_colls c) = [i .. cr_next a - 1]" "start \<le> cr_next a"
  shows "\<exists>xs. replay_collectives start (end_consistency latest earliest (set_coll_region a c)) = Some xs \<and> map cg_idx xs = [start .. cr_next a - 1]"
proof -
  let ?c = "end_consistency latest earliest (set_coll_region a c)"
  have "0 \<le> cr_id a \<and> 0 \<le> cr_first a" using assms(1,2) by (auto simp: history_def region_key_def)
  then have v: "cr_valid (coll_region ?c)" using assms(3) by (simp add: cr_valid_def)
  have "length (cl_colls c) = nat (cr_next a - i)" using arg_cong [OF assms(5), of length] by simp
  then have n: "int (length (cl_colls c)) = cr_next a - i" using assms(4,6) by simp
  have "colls_ok ?c" using assms(5) n by (simp add: colls_ok_def end_consistency_def coll_region_def set_coll_region_def)
  moreover have "cr_next (coll_region ?c) - int (length (cl_colls ?c)) \<le> start" using n assms(4) by simp
  ultimately show ?thesis using replay_from [OF _ v, of start] by simp
qed

text \<open>
  The whole of \<open>CommLog::reset_consistency\<close> (src/logging/comm_log.cpp): the reset, the rounds until this rank has no tasks, the rounds until all
  ranks have none, and the replay; and how requests of other ranks start tasks in between.
\<close>

section \<open>Requests of other ranks\<close>

text \<open>What the two probes find: a request for the collectives, and one of the rank \<open>src\<close>.\<close>

definition detect_request :: "bool \<Rightarrow> int option \<Rightarrow> comm_log \<Rightarrow> comm_log option" where
  "detect_request found src c =
     (let c = (if \<not> cl_task c \<and> found then c\<lparr>cl_task := True, cl_tasks := cl_tasks c + 1\<rparr> else c) in
      case src of
        None \<Rightarrow> Some c
      | Some r \<Rightarrow> do {
          (l, c) \<leftarrow> logs_of r c;
          if rl_task l then Some c
          else Some (c\<lparr>cl_ranks := kset_update rl_rank (reply_consistency l) (cl_ranks c), cl_tasks := cl_tasks c + 1\<rparr>)
        })"

section \<open>Rounds\<close>

text \<open>A round: what the tasks that are resumed do to the log, and what the probes find.\<close>

record sync_round =
  sr_progress :: "comm_log \<Rightarrow> comm_log option"
  sr_found :: bool
  sr_src :: "int option"

definition orAbort :: "'a option \<Rightarrow> failure + 'a" where
  "orAbort x = (case x of None \<Rightarrow> Inl Abort | Some y \<Rightarrow> Inr y)"

text \<open>The first loop; \<open>None\<close> when the rounds are used up, and the rounds that are left.\<close>

fun settle_log :: "sync_round list \<Rightarrow> comm_log \<Rightarrow> ((failure + comm_log) \<times> sync_round list) option" where
  "settle_log [] c = None"
| "settle_log (r # rs) c =
     (case Option.bind (sr_progress r c) (detect_request (sr_found r) (sr_src r)) of
        None \<Rightarrow> Some (Inl Abort, rs)
      | Some c \<Rightarrow> if cl_tasks c = 0 then Some (Inr c, rs) else settle_log rs c)"

text \<open>The second loop goes on until the barrier is complete, which the test at the beginning of a round says.\<close>

fun barrier_log_rounds :: "(bool \<times> sync_round) list \<Rightarrow> comm_log \<Rightarrow> (failure + comm_log) option" where
  "barrier_log_rounds [] c = None"
| "barrier_log_rounds ((complete, r) # rs) c =
     (case Option.bind (detect_request (sr_found r) (sr_src r) c) (sr_progress r) of
        None \<Rightarrow> Some (Inl Abort)
      | Some c \<Rightarrow> if complete then Some (Inr c) else barrier_log_rounds rs c)"

definition finish_sync :: "comm_log \<Rightarrow> failure + comm_log \<times> coll_log list" where
  "finish_sync c = orAbort (do {
     fenix_assert (cl_tasks c = 0);
     xs \<leftarrow> replay_collectives (cl_done_all c + 1) c;
     Some (c, xs)
   })"

text \<open>The log afterwards and the collectives that are replayed.\<close>

definition comm_sync :: "int \<Rightarrow> sync_round list \<Rightarrow> (bool \<times> sync_round) list \<Rightarrow> comm_log \<Rightarrow> (failure + comm_log \<times> coll_log list) option" where
  "comm_sync target rounds barrier c =
     (case comm_reset target c of
        None \<Rightarrow> Some (Inl Abort)
      | Some (_, c) \<Rightarrow> (case settle_log rounds c of
            None \<Rightarrow> None
          | Some (Inl e, _) \<Rightarrow> Some (Inl e)
          | Some (Inr c, _) \<Rightarrow> (case barrier_log_rounds barrier c of
                None \<Rightarrow> None
              | Some (Inl e) \<Rightarrow> Some (Inl e)
              | Some (Inr c) \<Rightarrow> Some (finish_sync c))))"

section \<open>The number of tasks\<close>

text \<open>There is one task for every rank that is forming consistency with this one, and one for the collectives.\<close>

definition tasks_counted :: "comm_log \<Rightarrow> bool" where
  "tasks_counted c \<longleftrightarrow> kset_ok rl_rank (cl_ranks c) \<and> cl_tasks c = length (filter rl_task (cl_ranks c)) + (if cl_task c then 1 else 0)"

lemma count_update:
  assumes "kset_ok key xs" "x \<in> set xs" "key y = key x" "\<not> P x" "P y"
  shows "length (filter P (kset_update key y xs)) = Suc (length (filter P xs))"
  using assms
proof (induction xs)
  case (Cons a xs)
  have ks: "\<forall>z \<in> set xs. key a < key z" "kset_ok key xs" using Cons.prems(1) by (simp_all add: kset_ok_Cons)
  show ?case
  proof (cases "a = x")
    case True
    then have "kset_update key y xs = xs" using ks(1) Cons.prems(3) unfolding kset_update_def by (intro map_idI) fastforce
    then show ?thesis using True Cons.prems(3-5) by (simp add: kset_update_def)
  next
    case False
    then have x: "x \<in> set xs" "key a \<noteq> key y" using Cons.prems(2,3) ks(1) by auto
    then show ?thesis using Cons.IH [OF ks(2) x(1) Cons.prems(3-5)] by (simp add: kset_update_def)
  qed
qed simp

lemma count_insert:
  assumes "kset_ok key xs" "\<not> P x"
  shows "length (filter P (kset_insert key x xs)) = length (filter P xs)"
proof (cases "\<exists>y \<in> set xs. key y = key x")
  case False
  have "filter (\<lambda>y. key y < key x) xs @ filter (\<lambda>y. key x < key y) xs = xs"
    using assms(1) False
  proof (induction xs)
    case (Cons a xs)
    have ks: "\<forall>z \<in> set xs. key a < key z" "kset_ok key xs" using Cons.prems(1) by (simp_all add: kset_ok_Cons)
    show ?case
    proof (cases "key a < key x")
      case False
      then have lt: "key x < key a" using Cons.prems(2) by (metis list.set_intros(1) neqE)
      then have "\<forall>z \<in> set xs. key x < key z" using ks(1) by (meson less_trans)
      then have "filter (\<lambda>y. key y < key x) xs = []" "filter (\<lambda>y. key x < key y) xs = xs" by (auto simp: filter_empty_conv)
      then show ?thesis using lt by simp
    qed (use Cons ks in auto)
  qed simp
  then have "filter P xs = filter P (filter (\<lambda>y. key y < key x) xs) @ filter P (filter (\<lambda>y. key x < key y) xs)" by (metis filter_append)
  then show ?thesis using False assms(2) by (simp add: kset_insert_def)
qed (simp add: kset_insert_def)

interpretation ranks: keyed_set "rl_rank :: rank_log \<Rightarrow> int" "kset_ok rl_rank" "kset_find rl_rank" "kset_insert rl_rank" "kset_erase rl_rank"
  by (rule kset_keyed)

lemma logs_of_counted:
  assumes "tasks_counted c" "logs_of r c = Some (l, c')"
  shows "tasks_counted c' \<and> kset_find rl_rank r (cl_ranks c') = Some l \<and> cl_task c' = cl_task c"
proof (cases "kset_find rl_rank r (cl_ranks c)")
  case None
  let ?l = "new_rank_log (cl_max c) r"
  have ks: "kset_ok rl_rank (cl_ranks c)" using assms(1) by (simp add: tasks_counted_def)
  have r: "rl_rank ?l = r" "\<not> rl_task ?l" by (simp_all add: new_rank_log_def)
  have eq: "l = ?l" "c' = c\<lparr>cl_ranks := kset_insert rl_rank ?l (cl_ranks c)\<rparr>"
    using assms(2) None by (auto simp: logs_of_def Let_def split: bind_splits)
  have "kset_find rl_rank r (kset_insert rl_rank ?l (cl_ranks c)) = Some ?l" using ranks.look_add_fresh [OF ks, of ?l] None r(1) by simp
  then show ?thesis using assms(1) eq kset_ok_insert [OF ks] count_insert [OF ks, of rl_task ?l] r(2) by (simp add: tasks_counted_def)
next
  case (Some l')
  then have "l' = l \<and> c' = c" using assms(2) by (auto simp: logs_of_def split: bind_splits)
  then show ?thesis using Some assms(1) by simp
qed

text \<open>A request adds its task.\<close>

lemma detect_counted:
  assumes "tasks_counted c" "detect_request found src c = Some c'"
  shows "tasks_counted c'"
proof -
  let ?c = "if \<not> cl_task c \<and> found then c\<lparr>cl_task := True, cl_tasks := cl_tasks c + 1\<rparr> else c"
  have c: "tasks_counted ?c" using assms(1) by (auto simp: tasks_counted_def)
  show ?thesis
  proof (cases src)
    case None
    then show ?thesis using assms(2) c by (simp add: detect_request_def Let_def)
  next
    case (Some r)
    then obtain l d where d: "logs_of r ?c = Some (l, d)"
      "c' = (if rl_task l then d else d\<lparr>cl_ranks := kset_update rl_rank (reply_consistency l) (cl_ranks d), cl_tasks := cl_tasks d + 1\<rparr>)"
      using assms(2) by (auto simp: detect_request_def Let_def split: bind_splits if_splits)
    from logs_of_counted [OF c d(1)] have dd: "tasks_counted d" "kset_find rl_rank r (cl_ranks d) = Some l" by simp_all
    have ks: "kset_ok rl_rank (cl_ranks d)" using dd(1) by (simp add: tasks_counted_def)
    have l: "l \<in> set (cl_ranks d)" using dd(2) kset_find_mem [OF ks] by blast
    have "rl_rank (reply_consistency l) = rl_rank l" "rl_task (reply_consistency l)" by (simp_all add: reply_consistency_def)
    then show ?thesis
      using d(2) dd(1) kset_update_ok [OF ks] count_update [OF ks l, of "reply_consistency l" rl_task] by (auto simp: tasks_counted_def)
  qed
qed

section \<open>A task that outlives a recovery\<close>

text \<open>
  Before a recovery the list of tasks is emptied and the tasks of the rank logs are forgotten, the one of the collectives is not.
\<close>

lemma reset_keeps_task:
  assumes "\<not> cr_valid (coll_region c)" "comm_reset target c = Some (go, c')"
  shows "\<not> go \<and> cl_task c' = cl_task c \<and> coll_region c' = coll_region c"
proof -
  have "reset_cregion target d = Some d" if "\<not> cr_valid (coll_region d)" for d
    using that by (simp add: reset_cregion_def)
  then show ?thesis
    using assms by (auto simp: comm_reset_def Let_def coll_region_def split: bind_splits if_splits)
qed

lemma pre_recovery_region [simp]:
  "coll_region (comm_pre_recovery c) = coll_region c" "cl_task (comm_pre_recovery c) = cl_task c"
  by (simp_all add: comm_pre_recovery_def coll_region_def)

lemma append_keeps_task: "append_cregion r c = Some c' \<Longrightarrow> cl_task c' = cl_task c"
  by (auto simp: append_cregion_def Let_def erase_logs_def split: bind_splits if_splits)

lemma begin_blocked:
  assumes "cl_task c"
  shows "\<exists>d. comm_begin manual mk (try # tries) c = Some (Inl Abort, d)"
proof (cases "take_index c")
  case (Some p)
  obtain i d where p: "p = (i, d)" by (cases p)
  have "cl_task d" using Some p assms append_keeps_task by (auto simp: take_index_def Let_def split: bind_splits if_splits)
  then show ?thesis using Some p by (simp add: comm_begin_def may_begin_def)
qed (simp add: comm_begin_def)

end
