(* ===== verification/Sync_Properties.thy ===== *)
theory Sync_Properties
  imports Comm_Sync
begin

text \<open>The properties of the collective consistency of a communicator's logs.\<close>

section \<open>Collectives after a failure\<close>

lemma upto_append:
  assumes "i \<le> j" "j \<le> (k :: int)"
  shows "[i .. j - 1] @ [j .. k - 1] = [i .. k - 1]"
proof (cases "j = k")
  case False
  then show ?thesis using assms upto_split1 [of i j "k - 1"] by simp
qed simp

text \<open>
  C17. When the logs of the ranks are coherent, the collective consistency succeeds on every rank: all know the first collective that has to be
  replayed and the last that any rank has begun, every rank is in the region that it wants at the index where all begin it, and what a rank
  replays followed by what it has still to call is the same sequence of collectives on all ranks.
\<close>

theorem collectives_resume:
  assumes "coherent H cs" "latest = Max (set (next_colls cs))" "earliest = Min ((\<lambda>c. cr_next (agreed_region H c)) ` set cs)"
    "\<forall>c \<in> set cs. \<exists>i \<le> earliest. map cg_idx (cl_colls c) = [i .. cr_next (agreed_region H c) - 1]"
  shows "\<exists>cs'. form_all cs = Some cs' \<and> length cs' = length cs \<and> (\<forall>r < length cs.
    cl_done_all (cs' ! r) = earliest - 1 \<and> cl_done_any (cs' ! r) = latest - 1 \<and>
    region_key (coll_region (cs' ! r)) \<in> set H \<and> cr_id (coll_region (cs' ! r)) = region_wanted (cs ! r) \<and>
    (\<exists>xs. replay_collectives (cl_done_all (cs' ! r) + 1) (cs' ! r) = Some xs \<and>
      map cg_idx xs @ [cr_next (coll_region (cs' ! r)) .. latest - 1] = [earliest .. latest - 1]))"
proof -
  note run = form_all_run [OF assms(1), folded assms(2,3)]
  let ?cs = "map (\<lambda>c. end_consistency latest earliest (set_coll_region (agreed_region H c) c)) cs"
  have "cl_done_all (?cs ! r) = earliest - 1 \<and> cl_done_any (?cs ! r) = latest - 1 \<and>
    region_key (coll_region (?cs ! r)) \<in> set H \<and> cr_id (coll_region (?cs ! r)) = region_wanted (cs ! r) \<and>
    (\<exists>xs. replay_collectives (cl_done_all (?cs ! r) + 1) (?cs ! r) = Some xs \<and>
      map cg_idx xs @ [cr_next (coll_region (?cs ! r)) .. latest - 1] = [earliest .. latest - 1])" if r: "r < length cs" for r
  proof -
    let ?c = "cs ! r" and ?a = "agreed_region H (cs ! r)"
    have c: "?c \<in> set cs" using r by simp
    then obtain i where i: "i \<le> earliest" "map cg_idx (cl_colls ?c) = [i .. cr_next ?a - 1]" using assms(4) by blast
    have key: "region_key ?a \<in> set H" "cr_id ?a = region_wanted ?c" "cr_first ?a \<le> cr_next ?a" "cr_next ?a \<le> latest" using run c by auto
    have e: "earliest \<le> cr_next ?a" using c unfolding assms(3) by simp
    have H: "history H" using assms(1) by (simp add: coherent_def)
    obtain xs where xs: "replay_collectives earliest (?cs ! r) = Some xs" "map cg_idx xs = [earliest .. cr_next ?a - 1]"
      using replay_between [OF H key(1,3) i e, of latest earliest] r by auto
    have "[earliest .. cr_next ?a - 1] @ [cr_next ?a .. latest - 1] = [earliest .. latest - 1]"
      by (rule upto_append [OF e key(4)])
    then show ?thesis using key r xs by (simp add: end_consistency_def coll_region_def)
  qed
  moreover have "form_all cs = Some ?cs" using run by blast
  moreover have "length ?cs = length cs" by simp
  ultimately show ?thesis by blast
qed

text \<open>
  Two survivors in the region 1, which begins at the collective 3: the one has begun two collectives there, the other one.  The third rank
  has been started again and knows nothing but the region.
\<close>

definition example_ahead :: comm_log where
  "example_ahead = (new_comm_log 0 2)\<lparr>cl_regions := [(cregion_at 0 0)\<lparr>cr_next := 3\<rparr>, (cregion_at 1 3)\<lparr>cr_next := 5\<rparr>],
     cl_colls := [barrier_log 2, barrier_log 3, barrier_log 4]\<rparr>"

definition example_behind :: comm_log where
  "example_behind = (new_comm_log 1 2)\<lparr>cl_regions := [(cregion_at 0 0)\<lparr>cr_next := 3\<rparr>, (cregion_at 1 3)\<lparr>cr_next := 4\<rparr>],
     cl_colls := [barrier_log 2, barrier_log 3]\<rparr>"

definition example_restarted :: comm_log where
  "example_restarted = (new_comm_log 2 2)\<lparr>cl_active := 1\<rparr>"

definition example_logs :: "comm_log list" where
  "example_logs = [example_ahead, example_behind, example_restarted]"

abbreviation example_history :: "(int \<times> int) list" where
  "example_history \<equiv> [(0, 0), (1, 3)]"

lemmas example_defs = example_ahead_def example_behind_def example_restarted_def new_comm_log_def barrier_log_def cregion_at_def no_cregion_def
  numeral_2_eq_2

lemmas region_defs = unplaced_def cr_fresh_def cr_empty_def cr_valid_def region_wanted_def coll_region_def

lemma example_history: "history example_history"
  by (simp add: history_def)

lemma example_placed:
  "\<not> unplaced example_ahead" "\<not> unplaced example_behind" "unplaced example_restarted"
  "region_wanted example_ahead = 1" "region_wanted example_behind = 1" "region_wanted example_restarted = 1"
  "placed example_history example_ahead" "placed example_history example_behind"
proof -
  show "placed example_history example_ahead" unfolding placed_def
    by (rule exI [of _ "[]"], rule exI [of _ "cl_regions example_ahead"], rule exI [of _ "[]"], rule exI [of _ "[]"]) (simp add: example_defs region_key_def)
  show "placed example_history example_behind" unfolding placed_def
    by (rule exI [of _ "[]"], rule exI [of _ "cl_regions example_behind"], rule exI [of _ "[]"], rule exI [of _ "[]"]) (simp add: example_defs region_key_def)
qed (simp_all add: example_defs region_defs)

lemma example_next:
  "next_colls example_logs = [5, 4, -1]"
  "map (\<lambda>c. cr_next (agreed_region example_history c)) example_logs = [5, 4, 3]"
  "map (map cg_idx \<circ> cl_colls) example_logs = [[2, 3, 4], [2, 3], []]"
  by (simp_all add: next_colls_def example_logs_def agreed_region_def example_placed) (simp_all add: example_defs coll_region_def)

lemma example_coherent: "coherent example_history example_logs"
proof -
  have "\<exists>r \<in> set (cl_regions d). cr_valid r \<and> cr_id r \<le> 1" if "d = example_ahead \<or> d = example_behind" for d
    using that by (auto simp: example_defs cr_valid_def)
  then show ?thesis
    unfolding coherent_def example_next(1)
    using example_history by (auto simp: example_logs_def example_placed)
qed

theorem collectives_resume_witness:
  "coherent example_history example_logs \<and> map (map cg_idx \<circ> cl_colls) example_logs = [[2, 3, 4], [2, 3], []] \<and>
   (\<exists>cs'. form_all example_logs = Some cs' \<and> cl_done_all (cs' ! 2) = 2 \<and> cl_done_any (cs' ! 2) = 4 \<and>
     cr_id (coll_region (cs' ! 2)) = 1)"
proof -
  have m: "(5 :: int) = Max (set (next_colls example_logs))" by (simp add: example_next)
  have "(\<lambda>c. cr_next (agreed_region example_history c)) ` set example_logs = {5, 4, 3}"
    using arg_cong [OF example_next(2), of set] by simp
  then have e: "(3 :: int) = Min ((\<lambda>c. cr_next (agreed_region example_history c)) ` set example_logs)" by simp
  have "\<forall>c \<in> set example_logs. \<exists>i \<le> 3. map cg_idx (cl_colls c) = [i .. cr_next (agreed_region example_history c) - 1]"
    using example_next(2,3) by (auto simp: example_logs_def upto_rec1 intro: exI [of _ "2 :: int"] exI [of _ "3 :: int"])
  from collectives_resume [OF example_coherent m e this] obtain cs' where
    "form_all example_logs = Some cs'" and r: "\<forall>r < length example_logs. cl_done_all (cs' ! r) = 3 - 1 \<and> cl_done_any (cs' ! r) = 5 - 1 \<and>
      cr_id (coll_region (cs' ! r)) = region_wanted (example_logs ! r)" by blast
  moreover have "2 < length example_logs" "region_wanted (example_logs ! 2) = 1"
    by (simp_all add: example_logs_def example_placed numeral_2_eq_2)
  ultimately show ?thesis using example_coherent example_next(3) r [rule_format, of 2] by auto
qed

section \<open>A task that outlives a recovery\<close>

text \<open>
  C35. A rank that has no region yet is forming the collective consistency when another failure occurs.  After the recovery the next
  synchronisation, to whatever region, starts no task for the collectives but takes one to be active: requests of other ranks are not
  answered, and every logged collective fails an assertion.
\<close>

theorem stale_task_blocks:
  assumes "cl_task c" "\<not> cr_valid (coll_region c)" "comm_reset target (comm_pre_recovery c) = Some (go, c')"
  shows "\<not> go \<and> cl_task c' \<and> detect_request True None c' = Some c' \<and>
    (\<forall>manual mk try tries. \<exists>d. comm_begin manual mk (try # tries) c' = Some (Inl Abort, d))"
proof -
  have "\<not> go" "cl_task c'" using reset_keeps_task [OF _ assms(3)] assms(1,2) by simp_all
  then show ?thesis using begin_blocked by (simp add: detect_request_def)
qed

theorem stale_task_blocks_witness:
  "\<exists>c'. detect_request True None (new_comm_log 0 2) = Some ((new_comm_log 0 2)\<lparr>cl_task := True, cl_tasks := 1\<rparr>) \<and>
    comm_reset 0 (comm_pre_recovery ((new_comm_log 0 2)\<lparr>cl_task := True, cl_tasks := 1\<rparr>)) = Some (False, c') \<and> cl_tasks c' = 0 \<and>
    detect_request True None c' = Some c'"
proof -
  let ?c = "(new_comm_log 0 2)\<lparr>cl_task := True, cl_tasks := 1\<rparr>"
  have v: "cl_task ?c" "\<not> cr_valid (coll_region ?c)"
    by (simp_all add: new_comm_log_def coll_region_def cr_valid_def no_cregion_def numeral_2_eq_2)
  have r: "comm_reset 0 (comm_pre_recovery ?c) = Some (False, ?c\<lparr>cl_tasks := 0\<rparr>)"
    by (simp add: comm_reset_def comm_pre_recovery_def new_comm_log_def reset_cregion_def coll_region_def cr_valid_def no_cregion_def numeral_2_eq_2 Let_def)
  have "detect_request True None (new_comm_log 0 2) = Some ?c" by (simp add: detect_request_def new_comm_log_def)
  then show ?thesis using stale_task_blocks [OF v r] r by auto
qed

end
