(* ===== verification/Overload.thy ===== *)
theory Overload
  imports Mlog
begin

text \<open>
  The overloads of MPI functions (src/logging/mpi_overload.cpp), by which a program that knows nothing of message logs
  reaches the active log.  What the functions of MPI itself do is a parameter of each overload, \<open>pmpi\<close>.
\<close>

unbundle bit_operations_syntax

section \<open>The active log\<close>

definition active_log :: "runtime \<Rightarrow> comm_log option" where
  "active_log rt = (if rt_active rt = MLOG_NONE then None else search_mlog (rt_active rt) rt)"

definition on_active :: "(comm_log \<Rightarrow> ((failure + 'x) \<times> comm_log) option) \<Rightarrow> runtime \<Rightarrow> ((failure + 'x) \<times> runtime) option" where
  "on_active f rt =
     (case active_log rt of
        None \<Rightarrow> Some (Inl Abort, rt)
      | Some c \<Rightarrow> map_option (\<lambda>(x, c'). (x, put_mlog (rt_active rt) c' rt)) (f c))"

text \<open>
  The log of one rank with all the rest of the log of its communicator: what happens while a message is under way, a recovery
  for one, may change both.
\<close>

record log_view = rank_log +
  lv_rest :: comm_log

definition open_rank :: "int \<Rightarrow> comm_log \<Rightarrow> log_view option" where
  "open_rank r c = map_option (\<lambda>(l, c'). rank_log.extend l (log_view.fields c')) (logs_of r c)"

definition close_rank :: "log_view \<Rightarrow> comm_log" where
  "close_rank v = (lv_rest v)\<lparr>cl_ranks := kset_update rl_rank (rank_log.truncate v) (cl_ranks (lv_rest v))\<rparr>"

definition on_rank :: "int \<Rightarrow> (log_view \<Rightarrow> ((failure + 'x) \<times> log_view) option) \<Rightarrow> comm_log \<Rightarrow> ((failure + 'x) \<times> comm_log) option" where
  "on_rank r f c =
     (case open_rank r c of
        None \<Rightarrow> Some (Inl Abort, c)
      | Some v \<Rightarrow> map_option (\<lambda>(x, v'). (x, close_rank v')) (f v))"

definition on_active_rank :: "int \<Rightarrow> (int \<Rightarrow> log_view \<Rightarrow> ((failure + 'x) \<times> log_view) option) \<Rightarrow> runtime \<Rightarrow> ((failure + 'x) \<times> runtime) option" where
  "on_active_rank r f = on_active (\<lambda>c. on_rank r (f (cl_active c)) c)"

text \<open>
  The communicator of every log; what MPI does for the logs: starting a send or a receive, waiting for the send, the rounds of waiting
  for a receive with the code of the test that completes it; whether a request is null; and waiting for one that is not logged.
\<close>

record overload_env =
  ov_comm :: "int \<Rightarrow> nat"
  ov_isend :: "send_log \<Rightarrow> (log_view, int) comp"
  ov_progress :: "(log_view, int) comp"
  ov_irecv :: "irecv_log \<Rightarrow> (log_view, int) comp"
  ov_tries :: "(log_view, unit) comp list"
  ov_code :: int
  ov_null :: "nat \<Rightarrow> bool"
  ov_through :: "(comm_log, int) comp"

definition is_logging :: "overload_env \<Rightarrow> nat \<Rightarrow> runtime \<Rightarrow> bool" where
  "is_logging ov c rt \<longleftrightarrow> active_log rt \<noteq> None \<and> ov_comm ov (rt_active rt) = c"

definition manual_recovery :: "runtime \<Rightarrow> bool" where
  "manual_recovery rt \<longleftrightarrow> se_mlog_recovery (rt_settings rt) = MANUAL"

section \<open>Messages\<close>

definition over_init :: "(runtime, int) comp \<Rightarrow> (runtime, int) comp" where
  "over_init pmpi = andThen (modS (\<lambda>rt. rt\<lparr>rt_linked := True\<rparr>)) (\<lambda>_. pmpi)"

definition over_send :: "overload_env \<Rightarrow> (runtime, int) comp \<Rightarrow> nat \<Rightarrow> mpi_buffer \<Rightarrow> int \<Rightarrow> int \<Rightarrow> runtime \<Rightarrow> ((failure + int) \<times> runtime) option" where
  "over_send ov pmpi c b dst tag rt =
     (if \<not> is_logging ov c rt then Some (pmpi rt)
      else on_active_rank dst (\<lambda>active v. Some (rank_send (ov_isend ov) (ov_progress ov) (manual_recovery rt) active b tag v)) rt)"

text \<open>\<open>log_irecv\<close> is \<open>CommLog::irecv\<close>; \<open>MPI_ANY_SOURCE\<close> is refused by an assertion.\<close>

definition log_irecv :: "overload_env \<Rightarrow> irecv_log \<Rightarrow> int \<Rightarrow> runtime \<Rightarrow> ((failure + int) \<times> runtime) option" where
  "log_irecv ov i src rt = on_active_rank src (\<lambda>active v. Some (rank_irecv (ov_irecv ov) (manual_recovery rt) active i v)) rt"

definition ANY_SOURCE :: int where
  "ANY_SOURCE = -1"

definition over_irecv :: "overload_env \<Rightarrow> (runtime, int) comp \<Rightarrow> nat \<Rightarrow> irecv_log \<Rightarrow> int \<Rightarrow> runtime \<Rightarrow> ((failure + int) \<times> runtime) option" where
  "over_irecv ov pmpi c i src rt =
     (if \<not> is_logging ov c rt then Some (pmpi rt)
      else if src = ANY_SOURCE then Some (Inl Abort, rt)
      else log_irecv ov i src rt)"

text \<open>A wait looks for the log whose receive has the request.\<close>

definition over_wait :: "overload_env \<Rightarrow> (runtime, int) comp \<Rightarrow> nat \<Rightarrow> runtime \<Rightarrow> ((failure + int) \<times> runtime) option" where
  "over_wait ov pmpi r rt =
     (case active_log rt of
        None \<Rightarrow> Some (pmpi rt)
      | Some c \<Rightarrow>
          if ov_null ov r then Some (pmpi rt)
          else (case List.find (\<lambda>l. map_option ir_request (rl_irecv l) = Some r) (cl_ranks c) of
              Some l \<Rightarrow> map_option (map_prod (map_sum id (\<lambda>_. ov_code ov)) id)
                (on_active_rank (rl_rank l) (\<lambda>_. rank_wait (manual_recovery rt) r (ov_tries ov)) rt)
            | None \<Rightarrow> on_active (\<lambda>c. Some (ov_through ov c)) rt))"

definition over_recv :: "overload_env \<Rightarrow> (runtime, int) comp \<Rightarrow> (runtime, int) comp \<Rightarrow> nat \<Rightarrow> irecv_log \<Rightarrow> int \<Rightarrow> runtime
    \<Rightarrow> ((failure + int) \<times> runtime) option" where
  "over_recv ov pmpi pwait c i src rt =
     (if \<not> is_logging ov c rt then Some (pmpi rt)
      else (case over_irecv ov pmpi c i src rt of
          Some (Inr code, rt) \<Rightarrow> if code = MPI_SUCCESS then over_wait ov pwait (ir_request i) rt else Some (Inr code, rt)
        | other \<Rightarrow> other))"

definition over_sendrecv :: "overload_env \<Rightarrow> (runtime, int) comp \<Rightarrow> (runtime, int) comp \<Rightarrow> nat \<Rightarrow> mpi_buffer \<Rightarrow> int \<Rightarrow> int
    \<Rightarrow> irecv_log \<Rightarrow> int \<Rightarrow> runtime \<Rightarrow> ((failure + int) \<times> runtime) option" where
  "over_sendrecv ov pmpi pwait c b dst tag i src rt =
     (if \<not> is_logging ov c rt then Some (pmpi rt)
      else (case log_irecv ov i src rt of
          Some (Inr code, rt) \<Rightarrow>
            if code \<noteq> MPI_SUCCESS then Some (Inr code, rt)
            else (case over_send ov pmpi c b dst tag rt of
                Some (Inr c1, rt) \<Rightarrow> map_option (map_prod (map_sum id (\<lambda>c2. c1 OR c2)) id) (over_wait ov pwait (ir_request i) rt)
              | other \<Rightarrow> other)
        | other \<Rightarrow> other))"

section \<open>Collectives\<close>

text \<open>
  \<open>tries\<close> are the calls of the operation itself; \<open>err\<close> is the code of the failure that interrupts it, which is returned with
  manual recovery unless the application is resumed in another way.
\<close>

definition ended :: "int \<Rightarrow> failure + int \<Rightarrow> runtime \<Rightarrow> int api_end" where
  "ended err r rt = (case r of Inr code \<Rightarrow> Returned code | Inl Comm \<Rightarrow> resume_application (\<lambda>_. err) rt | Inl e \<Rightarrow> Failed e)"

definition over_coll :: "overload_env \<Rightarrow> (runtime, int) comp \<Rightarrow> nat \<Rightarrow> (comm_log \<Rightarrow> int \<Rightarrow> coll_log) \<Rightarrow> (comm_log, int) comp list \<Rightarrow> int
    \<Rightarrow> runtime \<Rightarrow> (int api_end \<times> runtime) option" where
  "over_coll ov pmpi c mk tries err rt =
     (if \<not> is_logging ov c rt then (case pmpi rt of (Inr code, rt) \<Rightarrow> Some (Returned code, rt) | (Inl e, rt) \<Rightarrow> Some (Failed e, rt))
      else map_option (\<lambda>(r, rt). (ended err r rt, rt)) (on_active (\<lambda>cl. comm_begin (manual_recovery rt) (mk cl) tries cl) rt))"

definition over_barrier where
  "over_barrier ov pmpi c = over_coll ov pmpi c (\<lambda>_. barrier_log)"

definition over_bcast where
  "over_bcast ov pmpi c type_size root user count ty = over_coll ov pmpi c (\<lambda>cl. bcast_log type_size (cl_rank cl) root user count ty)"

definition over_reduce where
  "over_reduce ov pmpi c type_size send recv count ty op root = over_coll ov pmpi c (\<lambda>_. reduce_log type_size send recv count ty op root)"

definition over_allreduce where
  "over_allreduce ov pmpi c type_size send recv count ty op = over_coll ov pmpi c (\<lambda>_. allreduce_log type_size send recv count ty op)"

end
