(* ===== verification/Overload_Properties.thy ===== *)
theory Overload_Properties
  imports Overload Log_Properties
begin

text \<open>
  A receive of the program through the overloads: how it passes through the log of its rank, and the properties of one
  that is interrupted.
\<close>

section \<open>The log of a rank\<close>

lemma logs_of_existing:
  "kset_find rl_rank r (cl_ranks c) = Some l \<Longrightarrow> 0 \<le> r \<Longrightarrow> logs_of r c = Some (l, c)"
  by (simp add: logs_of_def fenix_assert_bind)

abbreviation rank_view :: "rank_log \<Rightarrow> comm_log \<Rightarrow> log_view" where
  "rank_view l c \<equiv> rank_log.extend l (log_view.fields c)"

lemma rank_view_simps [simp]:
  "rl_rank (rank_view l c) = rl_rank l" "rl_task (rank_view l c) = rl_task l" "rl_irecv (rank_view l c) = rl_irecv l"
  "rl_regions (rank_view l c) = rl_regions l" "cur_region (rank_view l c) = cur_region l" "lv_rest (rank_view l c) = c"
  "rank_log.truncate (rank_view l c) = l" "rank_view l c\<lparr>rl_irecv := i\<rparr> = rank_view (l\<lparr>rl_irecv := i\<rparr>) c"
  by (simp_all add: rank_log.defs log_view.defs cur_region_def)

lemma on_active_rank_run:
  assumes "active_log rt = Some c" "kset_find rl_rank r (cl_ranks c) = Some l" "0 \<le> r"
  shows "on_active_rank r f rt = map_option (\<lambda>(x, v). (x, put_mlog (rt_active rt) (close_rank v) rt)) (f (cl_active c) (rank_view l c))"
  using assms by (simp add: on_active_rank_def on_active_def on_rank_def open_rank_def logs_of_existing option.map_comp comp_def case_prod_unfold)

lemma kset_find_key: "kset_find key k s = Some x \<Longrightarrow> key x = k"
  by (auto simp: kset_find_def find_Some_iff)

lemma close_rank_log:
  assumes "kset_find rl_rank r (cl_ranks (lv_rest v)) \<noteq> None" "rl_rank v = r"
  shows "kset_find rl_rank r (cl_ranks (close_rank v)) = Some (rank_log.truncate v)"
    "cl_active (close_rank v) = cl_active (lv_rest v)"
  using assms by (simp_all add: close_rank_def kset_find_update) (simp_all add: rank_log.defs)

lemma active_put:
  assumes "active_log rt = Some c"
  shows "active_log (put_mlog (rt_active rt) c' rt) = Some c'" "rt_active (put_mlog i c' rt) = rt_active rt"
    "rt_settings (put_mlog i c' rt) = rt_settings rt"
proof -
  have "kset_find fst (rt_active rt) (rt_mlogs rt) \<noteq> None" using assms by (auto simp: active_log_def search_mlog_def split: if_splits)
  then show "active_log (put_mlog (rt_active rt) c' rt) = Some c'"
    using assms by (auto simp: active_log_def search_mlog_def put_mlog_def kset_find_update split: if_splits)
qed (simp_all add: put_mlog_def)

lemma put_twice: "put_mlog i c (put_mlog i d rt) = put_mlog i c rt"
  by (simp add: put_mlog_def kset_update_def comp_def if_distrib cong: if_cong)

section \<open>A receive\<close>

text \<open>A log in whose region the program is, with no receive under way.\<close>

definition may_receive :: "int \<Rightarrow> rank_log \<Rightarrow> bool" where
  "may_receive active l \<longleftrightarrow> rl_irecv l = None \<and> \<not> rl_task l \<and> rl_regions l \<noteq> [] \<and> lr_valid (cur_region l) \<and> lr_id (cur_region l) = active"

text \<open>MPI posts the receive.\<close>

definition posts :: "irecv_log \<Rightarrow> (log_view, int) comp" where
  "posts i v = (Inr MPI_SUCCESS, v)"

lemma irecv_posted:
  assumes "may_receive active l"
  shows "rank_irecv posts manual active i (rank_view l c) = (Inr MPI_SUCCESS, rank_view (l\<lparr>rl_irecv := Some i\<rparr>) c)"
  using assms by (simp add: may_receive_def posts_def rank_irecv_def comp unitO_def ensure_consistency_def fenix_assert_bind catchComm_def)

text \<open>
  What a recovery in the middle of a receive leaves: the logs of the ranks, the receive itself, which is posted again, and the place in the
  sequence of messages.
\<close>

definition keeps_receive :: "(log_view \<Rightarrow> log_view) \<Rightarrow> bool" where
  "keeps_receive g \<longleftrightarrow> (\<forall>v. rl_rank (g v) = rl_rank v \<and> rl_irecv (g v) = rl_irecv v \<and> next_recv (g v) = next_recv v \<and>
     (lr_valid (cur_region v) \<longrightarrow> lr_valid (cur_region (g v))) \<and>
     rl_rank ` set (cl_ranks (lv_rest v)) \<subseteq> rl_rank ` set (cl_ranks (lv_rest (g v))))"

lemma next_recv_set: "next_recv (set_next_recv n v) = n"
  by (simp add: next_recv_def set_next_recv_def set_cur_def cur_region_def)


text \<open>The wait finds the log that has the receive.\<close>

lemma find_rank:
  "kset_find key k s \<noteq> None \<longleftrightarrow> k \<in> key ` set s"
  by (induction s) (auto simp: kset_find_def)

lemma find_waiting:
  assumes "kset_find rl_rank r ls = Some l" "\<forall>x \<in> set ls. map_option ir_request (rl_irecv x) \<noteq> Some k" "ir_request i = k"
  shows "List.find (\<lambda>x. map_option ir_request (rl_irecv x) = Some k) (kset_update rl_rank (l\<lparr>rl_irecv := Some i\<rparr>) ls) = Some (l\<lparr>rl_irecv := Some i\<rparr>)"
  using assms by (induction ls) (auto simp: kset_find_def kset_update_def split: if_splits)

lemma recv_waits:
  assumes log: "is_logging ov c rt" "active_log rt = Some cl" "kset_find rl_rank src (cl_ranks cl) = Some l" "0 \<le> src" "may_receive (cl_active cl) l"
    and free: "\<forall>x \<in> set (cl_ranks cl). map_option ir_request (rl_irecv x) \<noteq> Some (ir_request i)"
    and ov: "ov_irecv ov = posts" "\<not> ov_null ov (ir_request i)"
  obtains cl' where
    "over_recv ov pmpi pwait c i src rt = map_option (\<lambda>(x, v). (map_sum id (\<lambda>_. ov_code ov) x, put_mlog (rt_active rt) (close_rank v) rt))
       (rank_wait (manual_recovery rt) (ir_request i) (ov_tries ov) (rank_view (l\<lparr>rl_irecv := Some i\<rparr>) cl'))"
    "rl_rank ` set (cl_ranks cl') = rl_rank ` set (cl_ranks cl)"
proof -
  let ?l = "l\<lparr>rl_irecv := Some i\<rparr>"
  let ?cl = "close_rank (rank_view ?l cl)"
  let ?rt = "put_mlog (rt_active rt) ?cl rt"
  have rank: "rl_rank l = src" using kset_find_key [OF log(3)] .
  have cl: "?cl = cl\<lparr>cl_ranks := kset_update rl_rank ?l (cl_ranks cl)\<rparr>" by (simp add: close_rank_def)
  have "log_irecv ov i src rt = Some (Inr MPI_SUCCESS, ?rt)"
    unfolding log_irecv_def on_active_rank_run [OF log(2-4)] ov(1) irecv_posted [OF log(5)] by simp
  then have ic: "over_irecv ov pmpi c i src rt = Some (Inr MPI_SUCCESS, ?rt)"
    using log(1,4) by (simp add: over_irecv_def ANY_SOURCE_def)
  have at: "active_log ?rt = Some ?cl" "rt_active ?rt = rt_active rt" "manual_recovery ?rt = manual_recovery rt"
    using active_put [OF log(2)] by (simp_all add: manual_recovery_def)
  have fw: "List.find (\<lambda>x. map_option ir_request (rl_irecv x) = Some (ir_request i)) (cl_ranks ?cl) = Some ?l"
    using find_waiting [OF log(3) free refl] unfolding cl by simp
  have kf: "kset_find rl_rank src (cl_ranks ?cl) = Some ?l" unfolding cl using log(3) rank by (simp add: kset_find_update)
  have "over_recv ov pmpi pwait c i src rt = over_wait ov pwait (ir_request i) ?rt"
    using log(1) ic by (simp add: over_recv_def)
  also have "\<dots> = map_option (map_prod (map_sum id (\<lambda>_. ov_code ov)) id) (on_active_rank src (\<lambda>_. rank_wait (manual_recovery rt) (ir_request i) (ov_tries ov)) ?rt)"
    using ov(2) fw at rank by (simp add: over_wait_def)
  also have "\<dots> = map_option (\<lambda>(x, v). (map_sum id (\<lambda>_. ov_code ov) x, put_mlog (rt_active rt) (close_rank v) rt))
       (rank_wait (manual_recovery rt) (ir_request i) (ov_tries ov) (rank_view ?l ?cl))"
    unfolding on_active_rank_run [OF at(1) kf log(4)] at(2) put_twice by (simp add: option.map_comp comp_def case_prod_unfold)
  finally show ?thesis
    using that [of ?cl] unfolding cl using arg_cong [OF kset_update_keys [of rl_rank ?l "cl_ranks cl"], of set] by simp
qed

text \<open>With manual recovery the receive stays in the log when its wait is interrupted.\<close>

lemma wait_abandoned:
  assumes "lr_valid (cur_region v)" "map_option ir_request (rl_irecv v) = Some r"
  shows "rank_wait True r ((\<lambda>v. (Inl Comm, g v)) # rest) v = Some (Inl Comm, g v)"
  using assms by (simp add: rank_wait_def)

lemma reset_ranks_blocked:
  "l \<in> set ls \<Longrightarrow> rl_irecv l \<noteq> None \<Longrightarrow> 0 \<le> target \<Longrightarrow> reset_ranks target ls = None"
proof (induction ls)
  case (Cons x ls)
  show ?case
  proof (cases "l = x")
    case True
    then obtain i where "rl_irecv x = Some i" using Cons.prems(2) by auto
    then have "reset_consistency target x = None" using Cons.prems(3) by (cases "rl_task x") (simp_all add: reset_consistency_def fenix_assert_def del: map_option_eq_Some)
    then show ?thesis by simp
  next
    case False
    then have "reset_ranks target ls = None" using Cons by simp
    then show ?thesis by (auto split: bind_splits)
  qed
qed simp

lemma sync_blocked:
  assumes "kset_find rl_rank r (cl_ranks c) = Some l" "rl_irecv l \<noteq> None" "0 \<le> target"
  shows "comm_reset target c = None"
proof -
  have "l \<in> set (cl_ranks c)" using assms(1) by (auto simp: kset_find_def find_Some_iff)
  then show ?thesis using reset_ranks_blocked [of l "cl_ranks c" target] assms(2,3) by (simp add: comm_reset_def fenix_assert_bind)
qed

lemma irecv_blocked:
  assumes "rl_irecv l \<noteq> None"
  shows "rank_irecv post manual active i (rank_view l c) = (Inl Abort, rank_view l c)"
proof -
  obtain j where "rl_irecv l = Some j" using assms by auto
  then show ?thesis by (simp add: rank_irecv_def comp)
qed

section \<open>A receive that is repeated\<close>


text \<open>Process 3 sends a message; the first wait is interrupted.\<close>

definition example_peer :: rank_log where
  "example_peer = (new_rank_log 2 3)\<lparr>rl_regions := [no_region, region_from 0 0 4]\<rparr>"

definition example_recv_log :: comm_log where
  "example_recv_log = (new_comm_log 0 2)\<lparr>cl_ranks := [example_peer]\<rparr>"

definition example_recv :: irecv_log where
  "example_recv = \<lparr>ir_buf = Null, ir_count = 1, ir_type = 0, ir_tag = 7, ir_request = 11\<rparr>"

definition receiving :: "nat \<Rightarrow> runtime" where
  "receiving mode = example_runtime\<lparr>rt_mlogs := [(4, example_recv_log)], rt_mlog_order := [4], rt_active := 4,
     rt_settings := initial_settings\<lparr>se_mlog_recovery := mode\<rparr>\<rparr>"

definition example_overload :: "(log_view, unit) comp list \<Rightarrow> overload_env" where
  "example_overload tries = \<lparr>ov_comm = (\<lambda>_. 9), ov_isend = (\<lambda>_. ret MPI_SUCCESS), ov_progress = ret MPI_SUCCESS, ov_irecv = posts, ov_tries = tries,
     ov_code = MPI_SUCCESS, ov_null = (\<lambda>r. r = 0), ov_through = ret MPI_SUCCESS\<rparr>"

lemma receiving_ready:
  "active_log (receiving mode) = Some example_recv_log" "is_logging (example_overload tries) 9 (receiving mode)"
  "kset_find rl_rank 3 (cl_ranks example_recv_log) = Some example_peer" "may_receive (cl_active example_recv_log) example_peer"
  "\<forall>x \<in> set (cl_ranks example_recv_log). map_option ir_request (rl_irecv x) \<noteq> Some (ir_request example_recv)"
  "\<not> ov_null (example_overload tries) (ir_request example_recv)" "next_recv example_peer = 4" "ov_irecv (example_overload tries) = posts"
  "manual_recovery (receiving mode) \<longleftrightarrow> mode = MANUAL" "ov_tries (example_overload tries) = tries" "ov_code (example_overload tries) = MPI_SUCCESS"
proof -
  show a: "active_log (receiving mode) = Some example_recv_log"
    by (simp add: active_log_def receiving_def search_mlog_def kset_find_def MLOG_NONE_def)
  show "is_logging (example_overload tries) 9 (receiving mode)" using a by (simp add: is_logging_def example_overload_def)
qed (simp_all add: receiving_def manual_recovery_def example_overload_def example_recv_log_def new_comm_log_def example_peer_def new_rank_log_def
    kset_find_def may_receive_def cur_region_def next_recv_def region_from_def range_at_def lr_valid_def range_valid_def example_recv_def)

lemma keeps_receive_id: "keeps_receive (\<lambda>v. v)"
  by (simp add: keeps_receive_def)


section \<open>A receive that is abandoned\<close>

text \<open>
  C34. With manual recovery an \<open>MPI_Recv\<close> that is interrupted leaves its receive in the log, with a request that was a variable of the call.
  No other message can be received from that rank, and the log cannot be synchronised to a region: both fail an assertion.
\<close>

theorem interrupted_receive_stays:
  assumes "is_logging ov c rt" "active_log rt = Some cl" "kset_find rl_rank src (cl_ranks cl) = Some l" "0 \<le> src" "may_receive (cl_active cl) l"
    "\<forall>x \<in> set (cl_ranks cl). map_option ir_request (rl_irecv x) \<noteq> Some (ir_request i)"
    "ov_irecv ov = posts" "\<not> ov_null ov (ir_request i)" "manual_recovery rt"
    "ov_tries ov = (\<lambda>v. (Inl Comm, g v)) # rest" "keeps_receive g"
  shows "\<exists>rt' cl'. over_recv ov pmpi pwait c i src rt = Some (Inl Comm, rt') \<and> active_log rt' = Some cl' \<and>
    (\<forall>target \<ge> 0. comm_reset target cl' = None) \<and>
    (\<forall>again j pmpi'. is_logging again c rt' \<longrightarrow> (\<exists>rt''. over_irecv again pmpi' c j src rt' = Some (Inl Abort, rt'')))"
proof -
  from recv_waits [OF assms(1-8)] obtain cl1 where
    run: "over_recv ov pmpi pwait c i src rt = map_option (\<lambda>(x, v). (map_sum id (\<lambda>_. ov_code ov) x, put_mlog (rt_active rt) (close_rank v) rt))
       (rank_wait (manual_recovery rt) (ir_request i) (ov_tries ov) (rank_view (l\<lparr>rl_irecv := Some i\<rparr>) cl1))"
    and ranks: "rl_rank ` set (cl_ranks cl1) = rl_rank ` set (cl_ranks cl)" by blast
  let ?v = "rank_view (l\<lparr>rl_irecv := Some i\<rparr>) cl1"
  let ?rt = "put_mlog (rt_active rt) (close_rank (g ?v)) rt"
  have v: "lr_valid (cur_region ?v)" "map_option ir_request (rl_irecv ?v) = Some (ir_request i)" "rl_rank ?v = src"
    using assms(5) kset_find_key [OF assms(3)] by (simp_all add: may_receive_def cur_region_def)
  have g: "rl_rank (g ?v) = src" "rl_irecv (g ?v) = Some i" "rl_rank ` set (cl_ranks cl1) \<subseteq> rl_rank ` set (cl_ranks (lv_rest (g ?v)))"
    using assms(11) [unfolded keeps_receive_def, rule_format, of ?v] v(3) by simp_all
  have "rank_wait (manual_recovery rt) (ir_request i) (ov_tries ov) ?v = Some (Inl Comm, g ?v)"
    using wait_abandoned [OF v(1,2), of g rest] assms(9,10) by simp
  then have r: "over_recv ov pmpi pwait c i src rt = Some (Inl Comm, ?rt)" using run by simp
  have "src \<in> rl_rank ` set (cl_ranks cl)" using assms(3) find_rank [of rl_rank src "cl_ranks cl"] by simp
  then have "src \<in> rl_rank ` set (cl_ranks (lv_rest (g ?v)))" using g(3) ranks by auto
  then have "kset_find rl_rank src (cl_ranks (lv_rest (g ?v))) \<noteq> None" by (rule find_rank [THEN iffD2])
  note k = close_rank_log(1) [OF this g(1)]
  have i: "rl_irecv (rank_log.truncate (g ?v)) \<noteq> None" using g(2) by (simp add: rank_log.defs)
  have a: "active_log ?rt = Some (close_rank (g ?v))" by (rule active_put(1) [OF assms(2)])
  have "\<forall>target \<ge> 0. comm_reset target (close_rank (g ?v)) = None" using sync_blocked [OF k i] by blast
  moreover have "\<exists>rt''. over_irecv again pmpi' c j src ?rt = Some (Inl Abort, rt'')" if "is_logging again c ?rt" for again j pmpi'
  proof -
    let ?l = "rank_log.truncate (g ?v)" and ?c = "close_rank (g ?v)"
    have "log_irecv again j src ?rt = Some (Inl Abort, put_mlog (rt_active ?rt) (close_rank (rank_view ?l ?c)) ?rt)"
      unfolding log_irecv_def on_active_rank_run [OF a k assms(4)] irecv_blocked [OF i] by simp
    then show ?thesis using that assms(4) by (simp add: over_irecv_def ANY_SOURCE_def)
  qed
  ultimately have "(\<forall>target \<ge> 0. comm_reset target (close_rank (g ?v)) = None) \<and> (\<forall>again j pmpi'. is_logging again c ?rt \<longrightarrow> (\<exists>rt''. over_irecv again pmpi' c j src ?rt = Some (Inl Abort, rt'')))" by blast
  then show ?thesis using r a by (intro exI [of _ ?rt] exI [of _ "close_rank (g ?v)"]) simp
qed

theorem interrupted_receive_stays_witness:
  "\<exists>rt' cl'. over_recv (example_overload [\<lambda>v. (Inl Comm, v)]) (ret 1) (ret 1) 9 example_recv 3 (receiving 0) = Some (Inl Comm, rt') \<and>
    active_log rt' = Some cl' \<and> comm_reset 0 cl' = None"
proof -
  have m: "manual_recovery (receiving 0)" "ov_tries (example_overload [\<lambda>v. (Inl Comm, v)]) = (\<lambda>v. (Inl Comm, (\<lambda>v. v) v)) # []"
    by (simp_all add: receiving_ready)
  have s: "(0 :: int) \<le> 3" by simp
  from interrupted_receive_stays [where g = "\<lambda>v. v" and rest = "[]" and pmpi = "ret 1" and pwait = "ret 1",
      OF receiving_ready(2,1,3) s receiving_ready(4,5,8,6) m keeps_receive_id]
  show ?thesis by (meson order_refl)
qed

end
