(* ===== verification/Fun_Api.thy ===== *)
theory Fun_Api
  imports Data_Api Serializers
begin

text \<open>
  The interface of data recovery for members with a function of the application (src/data/recovery.cpp), and the
  data member that checkpoints a message log (\<open>create_data_member\<close>, \<open>define_data_member\<close> in
  src/logging/message_logging.cpp), whose function writes and replaces the log.
\<close>

section \<open>Members with and without a function\<close>

text \<open>The functions that the application has registered, and the memory for their streams.\<close>

record 'a fun_table =
  fn_memory :: memory
  fn_of :: "nat \<Rightarrow> 'a ser_fun"

definition stage_any :: "'a fun_table \<Rightarrow> (nat \<Rightarrow> byte list) \<Rightarrow> 'a \<Rightarrow> heap \<Rightarrow> data_subset \<Rightarrow> (member, unit) comp" where
  "stage_any fs fresh app h d m =
     (case mb_ser m of
        None \<Rightarrow> member_stage fresh h d m
      | Some k \<Rightarrow> stage_fun (fn_memory fs) fresh (fn_of fs k) app d m)"

definition store_any :: "'a fun_table \<Rightarrow> (nat \<Rightarrow> byte list) \<Rightarrow> 'a \<Rightarrow> heap \<Rightarrow> data_subset \<Rightarrow> (member, fenix_code) comp" where
  "store_any fs fresh app h d =
     andThen (unless_prestaged d (stage_any fs fresh app h d)) (\<lambda>_.
     andThen (on_stage (snap_do same_for_all)) (\<lambda>_.
     andThen (on_stage (snap_do iprotect)) (\<lambda>_.
     ret FENIX_SUCCESS)))"

definition storev_any :: "'a fun_table \<Rightarrow> (nat \<Rightarrow> byte list) \<Rightarrow> collectives \<Rightarrow> comm \<Rightarrow> 'a \<Rightarrow> heap \<Rightarrow> data_subset \<Rightarrow> (member, fenix_code) comp" where
  "storev_any fs fresh co c app h d =
     andThen (unless_prestaged d (stage_any fs fresh app h d)) (\<lambda>_.
     andThen (on_stage (
       andThen getS (\<lambda>s.
       andThen (liftE (exchange_subsets co c (sn_staged s))) (\<lambda>ds.
       modS (\<lambda>s. s\<lparr>sn_staged := ds\<rparr>))))) (\<lambda>_.
     andThen (on_stage (snap_do iprotect)) (\<lambda>_.
     ret FENIX_SUCCESS)))"

definition data_stage_any :: "'a fun_table \<Rightarrow> env \<Rightarrow> 'a \<Rightarrow> int \<Rightarrow> int \<Rightarrow> data_subset \<Rightarrow> (runtime, fenix_code) comp" where
  "data_stage_any fs ev app gid mid d =
     andThen getS (\<lambda>rt. done_by (data_do (in_member gid mid (stage_any fs (ev_fresh ev) app (rt_heap rt) d))))"

definition data_store_any :: "'a fun_table \<Rightarrow> env \<Rightarrow> 'a \<Rightarrow> int \<Rightarrow> int \<Rightarrow> data_subset \<Rightarrow> (runtime, fenix_code) comp" where
  "data_store_any fs ev app gid mid d =
     unlogged ev (andThen getS (\<lambda>rt.
       data_do (in_group gid (store_into (\<lambda>_. store_any fs (ev_fresh ev) app (rt_heap rt) d) mid))))"

definition data_storev_any :: "'a fun_table \<Rightarrow> env \<Rightarrow> 'a \<Rightarrow> int \<Rightarrow> int \<Rightarrow> data_subset \<Rightarrow> (runtime, fenix_code) comp" where
  "data_storev_any fs ev app gid mid d =
     unlogged ev (andThen getS (\<lambda>rt.
       data_do (in_group gid (andThen getS (\<lambda>g. andThen (liftO (gr_cohort g)) (\<lambda>c.
         store_into (\<lambda>k. storev_any fs (ev_fresh ev) (ev_subsets ev gid k) c app (rt_heap rt) d) mid))))))"

text \<open>A load changes the runtime or, by a function, the application's state; the subset that is found goes to the caller.\<close>

definition load_any :: "'a fun_table \<Rightarrow> int \<Rightarrow> int \<Rightarrow> ptr \<Rightarrow> int \<Rightarrow> int \<Rightarrow> (runtime \<times> 'a, unit) comp" where
  "load_any fs gid mid target count ts = (\<lambda>(rt, app).
     (case component_search_member gid mid (rt_data rt) of
        Some m \<Rightarrow> (case mb_ser m of
            Some k \<Rightarrow> (case load_fun (fn_memory fs) (fn_of fs k) m target count ts \<lparr>al_app = app, al_found = rt_found rt\<rparr> of
                (r, l) \<Rightarrow> (r, rt\<lparr>rt_found := al_found l\<rparr>, al_app l))
          | None \<Rightarrow> (case load_member gid mid target count ts rt of (r, rt) \<Rightarrow> (r, rt, app)))
      | None \<Rightarrow> (case load_member gid mid target count ts rt of (r, rt) \<Rightarrow> (r, rt, app))))"

definition data_load_any :: "'a fun_table \<Rightarrow> int \<Rightarrow> int \<Rightarrow> ptr \<Rightarrow> int \<Rightarrow> int \<Rightarrow> (runtime \<times> 'a, fenix_code) comp" where
  "data_load_any fs gid mid target count ts = andThen (load_any fs gid mid target count ts) (\<lambda>_. ret FENIX_SUCCESS)"

text \<open>The files that the application gets.\<close>

definition data_stage_begin_file :: "memory \<Rightarrow> env \<Rightarrow> int \<Rightarrow> int \<Rightarrow> (runtime, fenix_code \<times> sink) comp" where
  "data_stage_begin_file mm ev gid mid =
     andThen (data_do (in_member gid mid (stage_begin_file mm (ev_fresh ev)))) (\<lambda>k. ret (FENIX_SUCCESS, k))"

definition data_load_begin_file :: "memory \<Rightarrow> int \<Rightarrow> int \<Rightarrow> int \<Rightarrow> (runtime, fenix_code \<times> sink) comp" where
  "data_load_begin_file mm gid mid ts =
     andThen (data_do (in_member gid mid (load_begin_file mm ts))) (\<lambda>(found, k).
     andThen (modS (\<lambda>rt. rt\<lparr>rt_found := found\<rparr>)) (\<lambda>_. ret (FENIX_SUCCESS, k)))"

text \<open>Members without a function are stored as the plain interface does.\<close>

lemma stage_any_plain: "mb_ser m = None \<Longrightarrow> stage_any fs fresh app h d m = member_stage fresh h d m"
  by (simp add: stage_any_def)

lemma unless_cong: "c m = c' m \<Longrightarrow> unless_prestaged d c m = unless_prestaged d c' m"
  by (cases "subset_equal d subset_prestaged") (simp_all add: unless_prestaged_def comp)

lemma andThen_cong: "c m = c' m \<Longrightarrow> andThen c f m = andThen c' f m"
  by (simp add: comp)

lemma store_any_plain:
  "mb_ser m = None \<Longrightarrow> store_any fs fresh app h d m = member_store fresh h d m"
  "mb_ser m = None \<Longrightarrow> storev_any fs fresh co c app h d m = member_storev fresh co c h d m"
  unfolding store_any_def member_store_def storev_any_def member_storev_def
  by (intro andThen_cong unless_cong stage_any_plain; assumption)+

lemma store_any_fun: "mb_ser m = Some k \<Longrightarrow> store_any fs fresh app h d m = store_fun (fn_memory fs) fresh (fn_of fs k) app d m"
  unfolding store_any_def store_fun_def by (intro andThen_cong unless_cong) (simp add: stage_any_def)

section \<open>A data member for a log\<close>

text \<open>\<open>MPI_BYTE\<close>\<close>

definition byte_type :: mpi_type where
  "byte_type = \<lparr>mt_id = 0, mt_extent = 1, mt_size = 1\<rparr>"

text \<open>The function: its state is the runtime, which has the logs; \<open>r\<close> is the rank in the communicator of the log.\<close>

definition mlog_fun :: "mpi_records \<Rightarrow> int \<Rightarrow> int \<Rightarrow> runtime ser_fun" where
  "mlog_fun ty r i =
     \<lparr>sf_file = False,
      sf_put = (\<lambda>rt buf off n. if off = 0 \<and> n = 0 \<and> buf = Null then fst (mlog_save ty i rt) else Inl Abort),
      sf_get = (\<lambda>bs buf off n rt. if off = 0 \<and> buf = Null then
        (case mlog_restore ty r i bs rt of (Inl e, _) \<Rightarrow> Inl e | (Inr _, rt) \<Rightarrow> Inr rt) else Inl Abort)\<rparr>"

text \<open>\<open>k\<close> is the number of the function for the log.\<close>

definition mlog_define_data_member :: "env \<Rightarrow> nat \<Rightarrow> int \<Rightarrow> int \<Rightarrow> (runtime, fenix_code) comp" where
  "mlog_define_data_member ev k gid mid = code_api (ev_catch ev) (data_member_define_fun ev gid mid Null 0 byte_type k)"

definition mlog_create_data_member :: "env \<Rightarrow> nat \<Rightarrow> int \<Rightarrow> int \<Rightarrow> (runtime, fenix_code) comp" where
  "mlog_create_data_member ev k gid mid =
     andThen getS (\<lambda>rt.
     andThen (throwIf (component_search_member gid mid (rt_data rt) \<noteq> None) FENIX_ERROR_MEMBER_EXISTS) (\<lambda>_.
     code_api (ev_catch ev) (mlog_define_data_member ev k gid mid)))"

end
