(* ===== verification/C_Api.thy ===== *)
theory C_Api
  imports Fun_Api
begin

text \<open>
  The C interface (src/fenix.cpp and the end of src/data/recovery.cpp).  A C function calls the C++ function of the same
  purpose in a frame of its own (\<open>FENIX_C_API_BEGIN\<close> to \<open>FENIX_C_API_END\<close>), passes data subsets by handles to
  objects on the heap, and reports what a restore has found in a new one.
\<close>

section \<open>The frames\<close>

text \<open>\<open>cc\<close>: the library is built with \<open>FENIX_C_CATCH_RUNTIME_EXCEPTIONS\<close>; \<open>ev_catch\<close> is the option for C++.\<close>

definition c_call :: "bool \<Rightarrow> env \<Rightarrow> (runtime, fenix_code) comp \<Rightarrow> runtime \<Rightarrow> fenix_code api_end \<times> runtime" where
  "c_call cc ev body = api cc (\<lambda>c. c) (code_api (ev_catch ev) body)"

text \<open>A function that returns a value through a pointer.\<close>

definition c_ask :: "bool \<Rightarrow> (runtime, 'a) comp \<Rightarrow> runtime \<Rightarrow> (fenix_code \<times> 'a option) api_end \<times> runtime" where
  "c_ask cc body = api cc (\<lambda>c. (c, None)) (andThen body (\<lambda>x. ret (FENIX_SUCCESS, Some x)))"

text \<open>
  A C++ function that returns \<open>bool\<close>: an error code is converted to it.  Its C function returns the \<open>bool\<close>, or an error
  code, as an \<open>int\<close>.
\<close>

definition bool_api :: "bool \<Rightarrow> (runtime, bool) comp \<Rightarrow> runtime \<Rightarrow> bool api_end \<times> runtime" where
  "bool_api catch = api catch (\<lambda>c. c \<noteq> FENIX_SUCCESS)"

datatype c_int = Code fenix_code | Flag bool

definition c_created :: "bool \<Rightarrow> env \<Rightarrow> (runtime, bool) comp \<Rightarrow> runtime \<Rightarrow> c_int api_end \<times> runtime" where
  "c_created cc ev body = api cc Code (andThen (api_comp (ev_catch ev) (\<lambda>c. c \<noteq> FENIX_SUCCESS) body) (\<lambda>b. ret (Flag b)))"

text \<open>\<open>Fenix_set_option\<close> has no frame, and the macro that would add a handler is misspelled.\<close>

definition c_set_option :: "nat \<Rightarrow> nat \<Rightarrow> runtime \<Rightarrow> fenix_code api_end \<times> runtime" where
  "c_set_option n v rt = (case set_option n v rt of (Inr _, rt) \<Rightarrow> (Returned FENIX_SUCCESS, rt) | (Inl e, rt) \<Rightarrow> (Failed e, rt))"

definition c_get_option :: "bool \<Rightarrow> nat \<Rightarrow> runtime \<Rightarrow> (fenix_code \<times> nat option) api_end \<times> runtime" where
  "c_get_option cc n = c_ask cc (get_option n)"

section \<open>Groups and members\<close>

definition c_group_create :: "bool \<Rightarrow> env \<Rightarrow> int \<Rightarrow> comm \<Rightarrow> int \<Rightarrow> int \<Rightarrow> int \<Rightarrow> int list option \<Rightarrow> runtime \<Rightarrow> fenix_code api_end \<times> runtime" where
  "c_group_create cc ev gid c ts depth pol vals = c_call cc ev (data_group_create ev gid c ts depth pol vals)"

text \<open>\<open>group_create\<close> of C++ with default arguments: \<open>None\<close> is \<open>MPI_COMM_NULL\<close>, which stands for \<open>user_world\<close>.\<close>

definition cpp_group_create :: "env \<Rightarrow> comm \<Rightarrow> int \<Rightarrow> comm option \<Rightarrow> int \<Rightarrow> int \<Rightarrow> int \<Rightarrow> int list option \<Rightarrow> runtime \<Rightarrow> fenix_code api_end \<times> runtime" where
  "cpp_group_create ev user_world gid c ts depth pol vals = api (ev_catch ev) (\<lambda>c. c)
     (code_api (ev_catch ev) (data_group_create ev gid (case c of None \<Rightarrow> user_world | Some c \<Rightarrow> c) ts depth pol vals))"

definition c_group_created :: "bool \<Rightarrow> env \<Rightarrow> int \<Rightarrow> runtime \<Rightarrow> c_int api_end \<times> runtime" where
  "c_group_created cc ev gid = c_created cc ev (data_group_created gid)"

definition c_member_create :: "bool \<Rightarrow> env \<Rightarrow> int \<Rightarrow> int \<Rightarrow> ptr \<Rightarrow> int \<Rightarrow> mpi_type \<Rightarrow> runtime \<Rightarrow> fenix_code api_end \<times> runtime" where
  "c_member_create cc ev gid mid p count dt = c_call cc ev (data_member_create ev gid mid p count dt)"

definition c_member_fcreate :: "bool \<Rightarrow> env \<Rightarrow> int \<Rightarrow> int \<Rightarrow> ptr \<Rightarrow> int \<Rightarrow> mpi_type \<Rightarrow> nat \<Rightarrow> runtime \<Rightarrow> fenix_code api_end \<times> runtime" where
  "c_member_fcreate cc ev gid mid p count dt k = c_call cc ev (data_member_create_fun ev gid mid p count dt k)"

definition c_member_define :: "bool \<Rightarrow> env \<Rightarrow> int \<Rightarrow> int \<Rightarrow> ptr \<Rightarrow> int \<Rightarrow> mpi_type \<Rightarrow> runtime \<Rightarrow> fenix_code api_end \<times> runtime" where
  "c_member_define cc ev gid mid p count dt = c_call cc ev (data_member_define ev gid mid p count dt)"

text \<open>The function is set in the frame of the C function itself.\<close>

definition c_member_fdefine :: "bool \<Rightarrow> env \<Rightarrow> int \<Rightarrow> int \<Rightarrow> ptr \<Rightarrow> int \<Rightarrow> mpi_type \<Rightarrow> nat \<Rightarrow> runtime \<Rightarrow> fenix_code api_end \<times> runtime" where
  "c_member_fdefine cc ev gid mid p count dt k = api cc (\<lambda>c. c)
     (andThen (code_api (ev_catch ev) (data_member_define ev gid mid p count dt)) (\<lambda>c.
      andThen (if c = FENIX_SUCCESS then set_function gid mid k else ret ()) (\<lambda>_. ret c)))"

definition c_attr_set :: "bool \<Rightarrow> env \<Rightarrow> int \<Rightarrow> int \<Rightarrow> attr_value \<Rightarrow> runtime \<Rightarrow> fenix_code api_end \<times> runtime" where
  "c_attr_set cc ev gid mid v = c_call cc ev (data_member_attr_set gid mid v)"

definition c_attr_get :: "bool \<Rightarrow> env \<Rightarrow> int \<Rightarrow> int \<Rightarrow> int \<Rightarrow> runtime \<Rightarrow> (fenix_code \<times> attr_value option) api_end \<times> runtime" where
  "c_attr_get cc ev gid mid a = api cc (\<lambda>c. (c, None))
     (api_comp (ev_catch ev) (\<lambda>c. (c, None)) (andThen (data_member_attr_get gid mid a) (\<lambda>v. ret (FENIX_SUCCESS, Some v))))"

definition c_member_created :: "bool \<Rightarrow> env \<Rightarrow> int \<Rightarrow> int \<Rightarrow> runtime \<Rightarrow> c_int api_end \<times> runtime" where
  "c_member_created cc ev gid mid = c_created cc ev (data_member_created gid mid)"

definition c_commit :: "bool \<Rightarrow> env \<Rightarrow> int \<Rightarrow> runtime \<Rightarrow> fenix_code api_end \<times> runtime" where
  "c_commit cc ev gid = c_call cc ev (data_commit ev gid)"

definition c_commit_barrier :: "bool \<Rightarrow> env \<Rightarrow> int \<Rightarrow> runtime \<Rightarrow> fenix_code api_end \<times> runtime" where
  "c_commit_barrier cc ev gid = c_call cc ev (data_commit_barrier ev gid)"

definition c_snapshot_delete :: "bool \<Rightarrow> env \<Rightarrow> int \<Rightarrow> int \<Rightarrow> runtime \<Rightarrow> fenix_code api_end \<times> runtime" where
  "c_snapshot_delete cc ev gid ts = c_call cc ev (data_snapshot_delete ev gid ts)"

definition c_group_delete :: "bool \<Rightarrow> env \<Rightarrow> int \<Rightarrow> runtime \<Rightarrow> fenix_code api_end \<times> runtime" where
  "c_group_delete cc ev gid = c_call cc ev (data_group_delete gid)"

definition c_member_delete :: "bool \<Rightarrow> env \<Rightarrow> int \<Rightarrow> int \<Rightarrow> runtime \<Rightarrow> fenix_code api_end \<times> runtime" where
  "c_member_delete cc ev gid mid = c_call cc ev (data_member_delete gid mid)"

text \<open>The cohort of a group, and its policy with the values that it writes.\<close>

definition cohort_ranks :: "int \<Rightarrow> (runtime, nat list) comp" where
  "cohort_ranks gid = ask_group gid (\<lambda>g. case gr_cohort g of None \<Rightarrow> Inl Abort | Some c \<Rightarrow> Inr (cm_ranks c))"

definition group_cohort :: "int \<Rightarrow> runtime \<Rightarrow> failure + nat list" where
  "group_cohort gid rt = (if \<not> rt_init rt then Inl Abort else fst (cohort_ranks gid rt))"

definition c_group_cohort :: "bool \<Rightarrow> int \<Rightarrow> runtime \<Rightarrow> (fenix_code \<times> nat list option) api_end \<times> runtime" where
  "c_group_cohort cc gid = c_ask cc (cohort_ranks gid)"

fun redundant_policy :: "policy \<Rightarrow> int \<times> int list" where
  "redundant_policy LocalPolicy = (14, [])"
| "redundant_policy (ImrPolicy mode sep set_size) = (13, mode # sep # (if mode = 5 then [set_size] else []))"

definition c_redundancy_policy :: "bool \<Rightarrow> int \<Rightarrow> runtime \<Rightarrow> (fenix_code \<times> (int \<times> int list) option) api_end \<times> runtime" where
  "c_redundancy_policy cc gid = c_ask cc (ask_group gid (\<lambda>g. Inr (redundant_policy (gr_policy g))))"

text \<open>Functions that are not implemented end the process.\<close>

definition data_istore :: "(runtime, fenix_code) comp" where
  "data_istore = fail Abort"

definition c_istore :: "bool \<Rightarrow> env \<Rightarrow> runtime \<Rightarrow> fenix_code api_end \<times> runtime" where
  "c_istore cc ev = c_call cc ev data_istore"

definition c_wait :: "bool \<Rightarrow> env \<Rightarrow> runtime \<Rightarrow> fenix_code api_end \<times> runtime" where
  "c_wait cc ev = api cc (\<lambda>c. c) (unlogged ev (fail Abort))"

section \<open>Message logs\<close>

definition c_mlog_create :: "bool \<Rightarrow> env \<Rightarrow> int \<Rightarrow> int \<Rightarrow> nat \<Rightarrow> runtime \<Rightarrow> fenix_code api_end \<times> runtime" where
  "c_mlog_create cc ev r i depth = c_call cc ev (mlog_create r i depth)"

definition c_mlog_activate :: "bool \<Rightarrow> env \<Rightarrow> int \<Rightarrow> runtime \<Rightarrow> fenix_code api_end \<times> runtime" where
  "c_mlog_activate cc ev i = c_call cc ev (mlog_activate i)"

definition c_mlog_active :: "bool \<Rightarrow> runtime \<Rightarrow> (fenix_code \<times> int option) api_end \<times> runtime" where
  "c_mlog_active cc = c_ask cc (andThen getS (\<lambda>rt. ret (mlog_active rt)))"

definition c_mlog_begin_region :: "bool \<Rightarrow> env \<Rightarrow> int \<Rightarrow> int \<Rightarrow> runtime \<Rightarrow> fenix_code api_end \<times> runtime" where
  "c_mlog_begin_region cc ev i region = c_call cc ev (mlog_begin_region i region)"

definition c_mlog_activate_region :: "bool \<Rightarrow> env \<Rightarrow> int \<Rightarrow> int \<Rightarrow> runtime \<Rightarrow> fenix_code api_end \<times> runtime" where
  "c_mlog_activate_region cc ev i region = c_call cc ev (mlog_activate_region (ev_catch ev) i region)"

definition c_mlog_sync :: "bool \<Rightarrow> env \<Rightarrow> (bool \<Rightarrow> comm_log \<Rightarrow> comm_log option) \<Rightarrow> int \<Rightarrow> int \<Rightarrow> runtime \<Rightarrow> fenix_code api_end \<times> runtime" where
  "c_mlog_sync cc ev converge i region = c_call cc ev (mlog_sync converge i region)"

definition c_mlog_create_data_member :: "bool \<Rightarrow> env \<Rightarrow> nat \<Rightarrow> int \<Rightarrow> int \<Rightarrow> runtime \<Rightarrow> fenix_code api_end \<times> runtime" where
  "c_mlog_create_data_member cc ev k gid mid = c_call cc ev (mlog_create_data_member ev k gid mid)"

definition c_mlog_define_data_member :: "bool \<Rightarrow> env \<Rightarrow> nat \<Rightarrow> int \<Rightarrow> int \<Rightarrow> runtime \<Rightarrow> fenix_code api_end \<times> runtime" where
  "c_mlog_define_data_member cc ev k gid mid = c_call cc ev (mlog_define_data_member ev k gid mid)"

definition c_mlog_delete :: "bool \<Rightarrow> env \<Rightarrow> int \<Rightarrow> runtime \<Rightarrow> fenix_code api_end \<times> runtime" where
  "c_mlog_delete cc ev i = c_call cc ev (mlog_delete i)"

section \<open>Subsets by handles\<close>

text \<open>
  \<open>Fenix_Data_subset\<close> holds a pointer: \<open>None\<close> or an address.  The addresses 0, 1 and 2 are those of the constants for all elements,
  none, and what is staged already.
\<close>

record c_state =
  cs_rt :: runtime
  cs_subsets :: "nat \<Rightarrow> data_subset option"
  cs_next :: nat

definition c_subsets0 :: "nat \<Rightarrow> data_subset option" where
  "c_subsets0 = [0 \<mapsto> subset_full, 1 \<mapsto> empty_subset, 2 \<mapsto> subset_prestaged]"

definition c_initial :: "runtime \<Rightarrow> c_state" where
  "c_initial rt = \<lparr>cs_rt = rt, cs_subsets = c_subsets0, cs_next = 3\<rparr>"

definition deref :: "nat option \<Rightarrow> c_state \<Rightarrow> data_subset option" where
  "deref h s = (case h of None \<Rightarrow> None | Some a \<Rightarrow> cs_subsets s a)"

definition new_subset :: "data_subset \<Rightarrow> c_state \<Rightarrow> c_state" where
  "new_subset d s = s\<lparr>cs_subsets := (cs_subsets s)(cs_next s \<mapsto> d), cs_next := Suc (cs_next s)\<rparr>"

definition on_runtime :: "(runtime \<Rightarrow> 'a \<times> runtime) \<Rightarrow> c_state \<Rightarrow> 'a \<times> c_state" where
  "on_runtime f s = (case f (cs_rt s) of (r, rt) \<Rightarrow> (r, s\<lparr>cs_rt := rt\<rparr>))"

text \<open>The frame looks at the runtime before the handle is followed; following a null pointer or a deleted object is undefined.\<close>

definition with_subset :: "bool \<Rightarrow> nat option \<Rightarrow> (data_subset \<Rightarrow> runtime \<Rightarrow> fenix_code api_end \<times> runtime) \<Rightarrow> c_state \<Rightarrow> fenix_code api_end \<times> c_state" where
  "with_subset cc h f s =
     (if rt_init (cs_rt s) then
        (case deref h s of None \<Rightarrow> (Failed Abort, s) | Some d \<Rightarrow> on_runtime (f d) s)
      else on_runtime (api cc (\<lambda>c. c) (fail Abort)) s)"

definition c_member_store :: "bool \<Rightarrow> 'a fun_table \<Rightarrow> env \<Rightarrow> 'a \<Rightarrow> int \<Rightarrow> int \<Rightarrow> nat option \<Rightarrow> c_state \<Rightarrow> fenix_code api_end \<times> c_state" where
  "c_member_store cc fs ev app gid mid h = with_subset cc h (\<lambda>d. c_call cc ev (data_store_any fs ev app gid mid d))"

definition c_member_storev :: "bool \<Rightarrow> 'a fun_table \<Rightarrow> env \<Rightarrow> 'a \<Rightarrow> int \<Rightarrow> int \<Rightarrow> nat option \<Rightarrow> c_state \<Rightarrow> fenix_code api_end \<times> c_state" where
  "c_member_storev cc fs ev app gid mid h = with_subset cc h (\<lambda>d. c_call cc ev (data_storev_any fs ev app gid mid d))"

text \<open>
  A restore allocates the subset first.  When an exception leaves the C++ function, the C frame catches it, or not, and the
  subset is neither deleted nor given to the caller.  \<open>wants\<close>: \<open>data_found\<close> is not null.
\<close>

definition restore_into :: "bool \<Rightarrow> env \<Rightarrow> (runtime, fenix_code) comp \<Rightarrow> bool \<Rightarrow> c_state \<Rightarrow> (fenix_code api_end \<times> nat option) \<times> c_state" where
  "restore_into cc ev body wants s =
     (if \<not> rt_init (cs_rt s) then (case on_runtime (api cc (\<lambda>c. c) (fail Abort)) s of (r, s) \<Rightarrow> ((r, None), s))
      else (case api cc (\<lambda>c. (c, False)) (andThen (code_api (ev_catch ev) body) (\<lambda>c. ret (c, True))) ((cs_rt s)\<lparr>rt_found := empty_subset\<rparr>) of
          (Returned (c, True), rt) \<Rightarrow>
            (if wants then ((Returned c, Some (cs_next s)), new_subset (rt_found rt) (s\<lparr>cs_rt := rt\<rparr>))
             else ((Returned c, None), s\<lparr>cs_rt := rt, cs_next := Suc (cs_next s)\<rparr>))
        | (Returned (c, False), rt) \<Rightarrow> ((Returned c, None), new_subset (rt_found rt) (s\<lparr>cs_rt := rt\<rparr>))
        | (Failed e, rt) \<Rightarrow> ((Failed e, None), new_subset (rt_found rt) (s\<lparr>cs_rt := rt\<rparr>))
        | (Jumped, rt) \<Rightarrow> ((Jumped, None), new_subset (rt_found rt) (s\<lparr>cs_rt := rt\<rparr>))))"

definition c_member_restore :: "bool \<Rightarrow> env \<Rightarrow> int \<Rightarrow> int \<Rightarrow> ptr \<Rightarrow> int \<Rightarrow> int \<Rightarrow> bool \<Rightarrow> c_state \<Rightarrow> (fenix_code api_end \<times> nat option) \<times> c_state" where
  "c_member_restore cc ev gid mid target count ts = restore_into cc ev (data_member_restore ev gid mid target count ts)"

text \<open>\<open>member_lrestore\<close> of C++ and the C function, which calls \<open>member_load\<close>.\<close>

definition data_member_lrestore :: "int \<Rightarrow> int \<Rightarrow> ptr \<Rightarrow> int \<Rightarrow> int \<Rightarrow> (runtime, fenix_code) comp" where
  "data_member_lrestore gid mid target count ts = done_by (load_member gid mid target count ts)"

definition data_load_inplace :: "env \<Rightarrow> int \<Rightarrow> int \<Rightarrow> int \<Rightarrow> (runtime, fenix_code) comp" where
  "data_load_inplace ev gid mid ts = code_api (ev_catch ev) (data_member_load gid mid Null RESTORE_FULL ts)"

definition c_member_lrestore :: "bool \<Rightarrow> env \<Rightarrow> int \<Rightarrow> int \<Rightarrow> ptr \<Rightarrow> int \<Rightarrow> int \<Rightarrow> bool \<Rightarrow> c_state \<Rightarrow> (fenix_code api_end \<times> nat option) \<times> c_state" where
  "c_member_lrestore cc ev gid mid target count ts = restore_into cc ev (data_member_load gid mid target count ts)"

text \<open>The functions on subsets may be called before Fenix is initialised.  \<open>int\<close> arguments become \<open>size_t\<close>.\<close>

definition made_subset :: "data_subset option \<Rightarrow> c_state \<Rightarrow> (fenix_code api_end \<times> nat option) \<times> c_state" where
  "made_subset r s = (case r of None \<Rightarrow> ((Failed Abort, None), s) | Some d \<Rightarrow> ((Returned FENIX_SUCCESS, Some (cs_next s)), new_subset d s))"

definition c_subset_create :: "int \<Rightarrow> int \<Rightarrow> int \<Rightarrow> int \<Rightarrow> c_state \<Rightarrow> (fenix_code api_end \<times> nat option) \<times> c_state" where
  "c_subset_create n start fin stride =
     made_subset (subset_strided (size_of_int start, size_of_int fin) (size_of_int n) (size_of_int stride))"

definition c_subset_createv :: "int \<Rightarrow> int list \<Rightarrow> int list \<Rightarrow> c_state \<Rightarrow> (fenix_code api_end \<times> nat option) \<times> c_state" where
  "c_subset_createv n starts fins = made_subset (subset_arrays n starts fins)"

text \<open>Deleting a null pointer does nothing; a constant or an object that is gone must not be deleted.\<close>

definition c_subset_delete :: "nat option \<Rightarrow> c_state \<Rightarrow> (fenix_code api_end \<times> nat option) \<times> c_state" where
  "c_subset_delete h s =
     (case h of
        None \<Rightarrow> ((Returned FENIX_SUCCESS, None), s)
      | Some a \<Rightarrow>
          if a < 3 \<or> cs_subsets s a = None then ((Failed Abort, Some a), s)
          else ((Returned FENIX_SUCCESS, None), s\<lparr>cs_subsets := (cs_subsets s)(a := None)\<rparr>))"

section \<open>Checkpoints\<close>

text \<open>The frame around a function that may still be trying.\<close>

definition api_opt :: "bool \<Rightarrow> (fenix_code \<Rightarrow> 'a) \<Rightarrow> (runtime \<Rightarrow> ((failure + 'a) \<times> runtime) option) \<Rightarrow> runtime \<Rightarrow> ('a api_end \<times> runtime) option" where
  "api_opt catch code body rt =
     (if rt_init rt then map_option (\<lambda>out. api catch code (\<lambda>_. out) rt) (body (rt\<lparr>rt_settings := internal_settings (rt_settings rt)\<rparr>))
      else Some (api catch code (fail Abort) rt))"

definition api_opt_comp :: "bool \<Rightarrow> (fenix_code \<Rightarrow> 'a) \<Rightarrow> (runtime \<Rightarrow> ((failure + 'a) \<times> runtime) option) \<Rightarrow> runtime \<Rightarrow> ((failure + 'a) \<times> runtime) option" where
  "api_opt_comp catch code body rt = map_option (\<lambda>(r, rt).
     (case r of Returned x \<Rightarrow> Inr x | Failed e \<Rightarrow> Inl e | Jumped \<Rightarrow> Inl Abort, rt)) (api_opt catch code body rt)"

definition STOREV_ALL :: int where
  "STOREV_ALL = -1"

definition c_checkpoint_body :: "bool \<Rightarrow> env list \<Rightarrow> int \<Rightarrow> data_subset \<Rightarrow> int \<Rightarrow> int list \<Rightarrow> runtime \<Rightarrow> ((failure + fenix_code) \<times> runtime) option" where
  "c_checkpoint_body catch tries gid d n ids =
     api_opt_comp catch (\<lambda>c. c)
       (if n = STOREV_ALL then data_checkpointv catch tries gid d else data_checkpoint catch tries gid d (take (nat n) ids))"

definition c_checkpoint :: "bool \<Rightarrow> bool \<Rightarrow> env list \<Rightarrow> int \<Rightarrow> nat option \<Rightarrow> int \<Rightarrow> int list \<Rightarrow> c_state \<Rightarrow> (fenix_code api_end \<times> c_state) option" where
  "c_checkpoint cc catch tries gid h n ids s =
     (if rt_init (cs_rt s) then
        (case deref h s of
           None \<Rightarrow> Some (Failed Abort, s)
         | Some d \<Rightarrow> map_option (\<lambda>(r, rt). (r, s\<lparr>cs_rt := rt\<rparr>))
             (api_opt cc (\<lambda>c. c) (c_checkpoint_body catch tries gid d n ids) (cs_rt s)))
      else Some (on_runtime (api cc (\<lambda>c. c) (fail Abort)) s))"

end
