(* ===== verification/C_Facts.thy ===== *)
theory C_Facts
  imports C_Api
begin

text \<open>
  What the C interface adds: two frames are one, handles stay with their subsets, and what happens to the
  subset of a restore that fails.
\<close>

section \<open>Two frames\<close>

lemma setting_restore:
  "n < SETTING_NAME_MAXCODE \<Longrightarrow> setting_of n (restore_settings old s)
     = (if n = RESUME_MODE \<or> n = UNHANDLED_MODE then setting_of n old else setting_of n s)"
  by (simp add: restore_settings_def setting_put)

lemma restore_restore: "restore_settings s (restore_settings t u) = restore_settings s u"
  by (rule setting_ext) (simp add: setting_restore)

lemma internal_internal: "internal_settings (internal_settings s) = internal_settings s"
  by (rule setting_ext) (simp add: internal_settings_def setting_put)

lemma pass_result:
  "api_result cc (\<lambda>c. c) (pass_codes catch (\<lambda>c. c) r) rt = api_result (cc \<or> catch) (\<lambda>c. c) r rt"
  by (cases r) (auto simp: pass_codes_def api_result_def split: failure.split)

text \<open>The settings in which a body runs, and those that are left.\<close>

lemma nested_run:
  assumes i: "rt_init rt" "settings_ok (rt_settings rt)"
    and b: "body (rt\<lparr>rt_settings := internal_settings (rt_settings rt)\<rparr>) = (r, rt')" "rt_init rt'" "\<not> rt_final rt'"
  shows "api_comp catch code body (rt\<lparr>rt_settings := internal_settings (rt_settings rt)\<rparr>)
    = (pass_codes catch code r, rt'\<lparr>rt_settings := restore_settings (internal_settings (rt_settings rt)) (rt_settings rt')\<rparr>)"
proof -
  let ?rt = "rt\<lparr>rt_settings := internal_settings (rt_settings rt)\<rparr>"
  have b': "body (?rt\<lparr>rt_settings := internal_settings (rt_settings ?rt)\<rparr>) = (r, rt')" using b(1) by (simp add: internal_internal)
  show ?thesis
    using api_comp_nested [of ?rt rt' body r catch code, OF _ b(3) _ _ b' b(2)] i by (simp add: internal_ok internal_resume)
qed

text \<open>A C function around a C++ function does what one frame does that catches when either is built to.\<close>

lemma c_call_once:
  assumes i: "rt_init rt" "settings_ok (rt_settings rt)"
    and b: "body (rt\<lparr>rt_settings := internal_settings (rt_settings rt)\<rparr>) = (r, rt')" "rt_init rt'" "\<not> rt_final rt'"
  shows "c_call cc ev body rt = api (cc \<or> ev_catch ev) (\<lambda>c. c) body rt"
proof -
  let ?in = "rt'\<lparr>rt_settings := restore_settings (internal_settings (rt_settings rt)) (rt_settings rt')\<rparr>"
  have n: "code_api (ev_catch ev) body (rt\<lparr>rt_settings := internal_settings (rt_settings rt)\<rparr>) = (pass_codes (ev_catch ev) (\<lambda>c. c) r, ?in)"
    by (rule nested_run [where rt = rt and body = body and r = r and rt' = rt', OF i b])
  show ?thesis
    using api_run [of rt "code_api (ev_catch ev) body", OF i n] api_run [of rt body, OF i b(1,2)] b(2)
    by (simp add: c_call_def Let_def pass_result restore_restore)
qed

section \<open>Handles\<close>

text \<open>No object is at an address that is still to be given out, and the constants are in their places.\<close>

definition handles_ok :: "c_state \<Rightarrow> bool" where
  "handles_ok s \<longleftrightarrow> (\<forall>a \<ge> cs_next s. cs_subsets s a = None) \<and> 3 \<le> cs_next s \<and> (\<forall>a < 3. cs_subsets s a = c_subsets0 a)"

lemma initial_handles: "handles_ok (c_initial rt)"
  by (simp add: handles_ok_def c_initial_def c_subsets0_def)

lemma new_subset_facts:
  assumes "handles_ok s"
  shows "handles_ok (new_subset d s)" "deref (Some (cs_next s)) (new_subset d s) = Some d"
    "h \<noteq> Some (cs_next s) \<Longrightarrow> deref h (new_subset d s) = deref h s" "deref (Some (cs_next s)) s = None"
  using assms by (auto simp: handles_ok_def new_subset_def deref_def split: option.split)

lemma runtime_facts [simp]:
  "handles_ok (s\<lparr>cs_rt := rt\<rparr>) = handles_ok s" "deref h (s\<lparr>cs_rt := rt\<rparr>) = deref h s" "cs_next (s\<lparr>cs_rt := rt\<rparr>) = cs_next s"
  by (simp_all add: handles_ok_def deref_def split: option.split)

lemma next_facts [simp]: "handles_ok s \<Longrightarrow> handles_ok (s\<lparr>cs_rt := rt, cs_next := Suc (cs_next s)\<rparr>)"
  "deref h (s\<lparr>cs_next := n\<rparr>) = deref h s"
  by (auto simp: handles_ok_def deref_def split: option.split)

text \<open>The operations on handles, for a program that calls them in any order.\<close>

datatype handle_op =
    Create int int int int
  | Createv int "int list" "int list"
  | Delete "nat option"
  | Restore "(runtime, fenix_code) comp" bool
  | Store "nat option" "data_subset \<Rightarrow> runtime \<Rightarrow> fenix_code api_end \<times> runtime"

fun handle_step :: "bool \<Rightarrow> env \<Rightarrow> handle_op \<Rightarrow> c_state \<Rightarrow> c_state" where
  "handle_step cc ev (Create n a b st) s = snd (c_subset_create n a b st s)"
| "handle_step cc ev (Createv n xs ys) s = snd (c_subset_createv n xs ys s)"
| "handle_step cc ev (Delete h) s = snd (c_subset_delete h s)"
| "handle_step cc ev (Restore body wants) s = snd (restore_into cc ev body wants s)"
| "handle_step cc ev (Store h f) s = snd (with_subset cc h f s)"

lemma restore_cases:
  "(\<exists>rt. snd (restore_into cc ev body wants s) = s\<lparr>cs_rt := rt\<rparr>) \<or>
   (\<exists>rt. snd (restore_into cc ev body wants s) = s\<lparr>cs_rt := rt, cs_next := Suc (cs_next s)\<rparr>) \<or>
   (\<exists>rt d. snd (restore_into cc ev body wants s) = new_subset d (s\<lparr>cs_rt := rt\<rparr>))"
proof (cases "rt_init (cs_rt s)")
  case True
  obtain e rt where "api cc (\<lambda>c. (c, False)) (andThen (code_api (ev_catch ev) body) (\<lambda>c. ret (c, True))) ((cs_rt s)\<lparr>rt_found := empty_subset\<rparr>) = (e, rt)"
    by fastforce
  then show ?thesis using True by (auto simp: restore_into_def split: api_end.split bool.split)
qed (auto simp: restore_into_def on_runtime_def split: prod.split)

text \<open>A step keeps the handles in order, and every object but the one that it deletes.\<close>

lemma handle_step_ok:
  assumes "handles_ok s" "a < cs_next s"
  shows "handles_ok (handle_step cc ev op s) \<and> cs_next s \<le> cs_next (handle_step cc ev op s) \<and>
    (op \<noteq> Delete (Some a) \<longrightarrow> deref (Some a) (handle_step cc ev op s) = deref (Some a) s)"
proof (cases op)
  case (Create n x y st)
  then show ?thesis using assms new_subset_facts [OF assms(1)]
    by (auto simp: c_subset_create_def made_subset_def new_subset_def split: option.split)
next
  case (Createv n xs ys)
  then show ?thesis using assms new_subset_facts [OF assms(1)]
    by (auto simp: c_subset_createv_def made_subset_def new_subset_def split: option.split)
next
  case (Delete h)
  then show ?thesis using assms
    by (auto simp: c_subset_delete_def handles_ok_def deref_def split: option.splits if_splits)
next
  case (Restore body wants)
  have ne: "Some a \<noteq> Some (cs_next s)" using assms(2) by simp
  have n: "handles_ok (s\<lparr>cs_rt := rt\<rparr>)" for rt using assms(1) by simp
  consider rt where "snd (restore_into cc ev body wants s) = s\<lparr>cs_rt := rt\<rparr>"
    | rt where "snd (restore_into cc ev body wants s) = s\<lparr>cs_rt := rt, cs_next := Suc (cs_next s)\<rparr>"
    | rt d where "snd (restore_into cc ev body wants s) = new_subset d (s\<lparr>cs_rt := rt\<rparr>)" using restore_cases [of cc ev body wants s] by blast
  then show ?thesis
  proof cases
    case 1
    then show ?thesis using Restore assms(1) by simp
  next
    case 2
    then show ?thesis using Restore assms(1) by (simp add: deref_def)
  next
    case 3
    then show ?thesis using Restore new_subset_facts(1,3) [OF n] ne by (simp add: new_subset_def)
  qed
next
  case (Store h f)
  then show ?thesis using assms(1) by (auto simp: with_subset_def on_runtime_def split: option.split prod.split)
qed

text \<open>A run of the operations.\<close>

lemma handle_run:
  assumes "handles_ok s" "a < cs_next s" "Delete (Some a) \<notin> set ops"
  shows "handles_ok (fold (handle_step cc ev) ops s) \<and> deref (Some a) (fold (handle_step cc ev) ops s) = deref (Some a) s"
  using assms
proof (induction ops arbitrary: s)
  case (Cons op ops)
  have "op \<noteq> Delete (Some a)" using Cons.prems(3) by auto
  then have s: "handles_ok (handle_step cc ev op s)" "a < cs_next (handle_step cc ev op s)" "deref (Some a) (handle_step cc ev op s) = deref (Some a) s"
    using handle_step_ok [OF Cons.prems(1,2), of cc ev op] Cons.prems(2) by auto
  show ?case using Cons.IH [OF s(1,2)] Cons.prems(3) s(3) by simp
qed simp

text \<open>A restore whose C++ function lets an exception pass leaves its subset without a handle.\<close>

lemma restore_leaks:
  assumes i: "rt_init (cs_rt s)" "settings_ok (rt_settings (cs_rt s))" and h: "handles_ok s"
    and b: "body ((cs_rt s)\<lparr>rt_found := empty_subset, rt_settings := internal_settings (rt_settings (cs_rt s))\<rparr>) = (Inl (Throw c), rt')"
      "rt_init rt'" "\<not> rt_final rt'" "\<not> ev_catch ev"
  shows "snd (fst (restore_into cc ev body True s)) = None \<and>
    deref (Some (cs_next s)) (snd (restore_into cc ev body True s)) = Some (rt_found rt')"
proof -
  let ?rt = "(cs_rt s)\<lparr>rt_found := empty_subset\<rparr>"
  have i': "rt_init ?rt" "settings_ok (rt_settings ?rt)" using i by simp_all
  have b': "body (?rt\<lparr>rt_settings := internal_settings (rt_settings ?rt)\<rparr>) = (Inl (Throw c), rt')" using b(1) by simp
  let ?in = "rt'\<lparr>rt_settings := restore_settings (internal_settings (rt_settings ?rt)) (rt_settings rt')\<rparr>"
  have n: "code_api (ev_catch ev) body (?rt\<lparr>rt_settings := internal_settings (rt_settings ?rt)\<rparr>) = (Inl (Throw c), ?in)"
    using nested_run [of ?rt body _ rt' "ev_catch ev" "\<lambda>c. c", OF i' b' b(2,3)] b(4) by (simp add: pass_codes_def)
  have f: "andThen (code_api (ev_catch ev) body) (\<lambda>c. ret (c, True)) (?rt\<lparr>rt_settings := internal_settings (rt_settings ?rt)\<rparr>) = (Inl (Throw c), ?in)"
    using n by (simp add: comp)
  obtain e rt where a: "api cc (\<lambda>c. (c, False)) (andThen (code_api (ev_catch ev) body) (\<lambda>c. ret (c, True))) ?rt = (e, rt)"
    "rt_found rt = rt_found rt'" "e = Failed (Throw c) \<or> e = Returned (c, False)"
    using api_run [of ?rt "andThen (code_api (ev_catch ev) body) (\<lambda>c. ret (c, True))", OF i' f, of cc "\<lambda>c. (c, False)"] b(2)
    by (auto simp: Let_def api_result_def split: if_splits)
  have h': "handles_ok (s\<lparr>cs_rt := rt\<rparr>)" for rt using h by simp
  show ?thesis using a i(1) new_subset_facts(2) [OF h'] by (auto simp: restore_into_def)
qed

end
