(* ===== verification/Api_Properties.thy ===== *)
theory Api_Properties
  imports C_Facts Runtime_Properties
begin

text \<open>
  The properties of the C interface and of the data member that checkpoints a message log.
\<close>

section \<open>The frames of the C interface\<close>

text \<open>
  C25. A C function runs the body of its C++ function in two frames, and that does what one frame does: the same result, the same state, the
  caller's settings put back, and the application resumed once.  Errors are returned as codes when either interface is built
  to do so.
\<close>

theorem c_call_is_one_frame:
  assumes "rt_init rt" "settings_ok (rt_settings rt)"
    "body (rt\<lparr>rt_settings := internal_settings (rt_settings rt)\<rparr>) = (r, rt')" "rt_init rt'" "\<not> rt_final rt'"
  shows "c_call cc ev body rt = api (cc \<or> ev_catch ev) (\<lambda>c. c) body rt \<and>
    rt_settings (snd (c_call cc ev body rt)) = restore_settings (rt_settings rt) (rt_settings rt') \<and>
    fst (c_call cc ev body rt) = api_result (cc \<or> ev_catch ev) (\<lambda>c. c) r (rt'\<lparr>rt_settings := restore_settings (rt_settings rt) (rt_settings rt')\<rparr>)"
  using c_call_once [where cc = cc and ev = ev and r = r and rt' = rt' and rt = rt and body = body, OF assms]
    api_run [of rt body r rt' "cc \<or> ev_catch ev" "\<lambda>c. c", OF assms(1-4)] by (simp add: Let_def)

text \<open>A log that does not exist is activated: C++ throws, C returns the code, and no log is active.\<close>

definition no_env :: env where
  "no_env = \<lparr>ev_fresh = (\<lambda>n. replicate n 0), ev_put = (\<lambda>_. []), ev_get = (\<lambda>_. Inl Abort),
     ev_group = (\<lambda>_. undefined), ev_subsets = (\<lambda>_ _. undefined), ev_agree = (\<lambda>n. Inr (n, True)), ev_handler = ret (), ev_catch = False\<rparr>"

theorem c_call_is_one_frame_witness:
  "fst (c_mlog_activate True no_env 9 logging_runtime) = Returned FENIX_ERROR_INVALID_MLOGID"
proof -
  let ?rt = "logging_runtime\<lparr>rt_settings := internal_settings (rt_settings logging_runtime)\<rparr>"
  have no: "search_mlog 9 ?rt = None"
    by (simp add: search_mlog_def kset_find_def logging_runtime_def)
  have b: "mlog_activate 9 ?rt = (Inl (Throw FENIX_ERROR_INVALID_MLOGID), ?rt\<lparr>rt_active := MLOG_NONE\<rparr>)"
    unfolding mlog_activate_cases using no by (simp add: MLOG_NONE_def)
  have "rt_init (?rt\<lparr>rt_active := MLOG_NONE\<rparr>)" "\<not> rt_final (?rt\<lparr>rt_active := MLOG_NONE\<rparr>)" using logging_runtime_ok(3,4) by simp_all
  note frame = c_call_is_one_frame [of logging_runtime "mlog_activate 9" _ _ True no_env, OF logging_runtime_ok(3,5) b this]
  show ?thesis unfolding c_mlog_activate_def frame [THEN conjunct2, THEN conjunct2] by (simp add: api_result_def)
qed

section \<open>Handles of subsets\<close>



text \<open>
  C33. When a restore throws, the subset that was allocated for what it finds is neither handed out nor deleted.
\<close>

theorem restore_leaks_subset:
  assumes "rt_init (cs_rt s)" "settings_ok (rt_settings (cs_rt s))" "handles_ok s"
    "data_member_restore ev gid mid target count ts ((cs_rt s)\<lparr>rt_found := empty_subset, rt_settings := internal_settings (rt_settings (cs_rt s))\<rparr>)
      = (Inl (Throw c), rt')"
    "rt_init rt'" "\<not> rt_final rt'" "\<not> ev_catch ev"
  shows "snd (fst (c_member_restore cc ev gid mid target count ts True s)) = None \<and>
    deref (Some (cs_next s)) (snd (c_member_restore cc ev gid mid target count ts True s)) = Some (rt_found rt')"
  unfolding c_member_restore_def
  by (rule restore_leaks [where body = "data_member_restore ev gid mid target count ts" and c = c, OF assms])

text \<open>A restore from a group that does not exist.\<close>

theorem restore_leaks_subset_witness:
  "snd (fst (c_member_restore True no_env 1 2 Null 4 SNAPSHOT_LATEST True (c_initial (logging_runtime\<lparr>rt_data := no_groups\<rparr>)))) = None \<and>
   deref (Some 3) (snd (c_member_restore True no_env 1 2 Null 4 SNAPSHOT_LATEST True (c_initial (logging_runtime\<lparr>rt_data := no_groups\<rparr>)))) = Some empty_subset"
proof -
  let ?s = "c_initial (logging_runtime\<lparr>rt_data := no_groups\<rparr>)"
  let ?rt = "(cs_rt ?s)\<lparr>rt_found := empty_subset, rt_settings := internal_settings (rt_settings (cs_rt ?s))\<rparr>"
  have i: "rt_init (cs_rt ?s)" "settings_ok (rt_settings (cs_rt ?s))" using logging_runtime_ok(3,5) by (simp_all add: c_initial_def)
  have b: "data_member_restore no_env 1 2 Null 4 SNAPSHOT_LATEST ?rt = (Inl (Throw FENIX_ERROR_INVALID_GROUPID), ?rt)"
    by (simp add: data_member_restore_def comp find_group_def search_group_def c_initial_def kset_find_def no_groups_def)
  have r: "rt_init ?rt" "\<not> rt_final ?rt" "\<not> ev_catch no_env" using logging_runtime_ok(3,4) by (simp_all add: c_initial_def no_env_def)
  from restore_leaks_subset [OF i initial_handles b r, of True] show ?thesis by (simp add: c_initial_def)
qed

text \<open>
  In a build that turns C++ exceptions into codes, a function that returns \<open>bool\<close> answers yes before Fenix is initialised: the
  code is converted to \<open>bool\<close>.
\<close>

theorem created_uninitialized:
  assumes "\<not> rt_init rt"
  shows "bool_api True (data_group_created gid) rt = (Returned True, rt) \<and> bool_api True (data_member_created gid mid) rt = (Returned True, rt)"
  using assms by (simp add: bool_api_def api_uninitialized)

theorem created_uninitialized_witness:
  "bool_api True (data_group_created 1) (logging_runtime\<lparr>rt_init := False\<rparr>) = (Returned True, logging_runtime\<lparr>rt_init := False\<rparr>)"
  using created_uninitialized [of "logging_runtime\<lparr>rt_init := False\<rparr>" 1] by simp

section \<open>Checkpoints of logs\<close>

text \<open>
  C13. A message log that is stored as a data member comes back when that member is loaded, in the runtime of a recovered
  process that has a log with the same id: with its regions and its sent messages, and without collectives.
\<close>

theorem log_checkpointed:
  assumes "search_mlog i rt = Some c" "comm_log_fits ty c" "types_ok ty"
    "mb_ser m = Some k" "fn_of fs k = mlog_fun ty (cl_rank c) i"
    "open_snap 1 n s" "mb_stage m = Some s" "mt_extent (mb_type m) = 1" "\<not> ref_is_bounded (mb_user m)" "dr_data (mb_user m) = Null"
    "\<forall>bs. write_comm_log ty c = Some bs \<longrightarrow> length bs \<le> INT_MAX \<and> can_hold (fn_memory fs) (length bs)"
  shows "\<exists>t len. store_any fs fresh rt h subset_full m = (Inr FENIX_SUCCESS, m\<lparr>mb_stage := Some t\<rparr>) \<and>
    (\<forall>m' l ts. mb_commits m' \<noteq> [] \<and> last (mb_commits m') = t\<lparr>sn_timestamp := ts\<rparr> \<and> dr_data (mb_user m') = Null \<and> search_mlog i (al_app l) \<noteq> None \<longrightarrow>
      load_fun (fn_memory fs) (fn_of fs k) m' Null RESTORE_FULL SNAPSHOT_LATEST l
        = (Inr (), \<lparr>al_app = put_mlog i (saved_log c) (al_app l), al_found = first_elements len\<rparr>))"
proof -
  from mlog_save_restore [OF assms(1-3)] obtain bs where save: "mlog_save ty i rt = (Inr bs, rt)"
    and restore: "\<And>rest rt'. search_mlog i rt' \<noteq> None \<Longrightarrow> mlog_restore ty (cl_rank c) i (bs @ rest) rt' = (Inr rest, put_mlog i (saved_log c) rt')" by blast
  have w: "write_comm_log ty c = Some bs" using save assms(1) by (auto simp: mlog_save_def find_mlog_def comp liftO_def split: option.splits)
  then have ne: "0 < length bs" by (auto simp: write_comm_log_def int_bytes_def split: option.splits bind_splits)
  have put: "sf_put (fn_of fs k) rt (dr_data (mb_user m)) 0 0 = Inr bs" using save assms(5,10) by (simp add: mlog_fun_def)
  have len: "length bs = length bs * 1" "length bs * 1 \<le> INT_MAX" "sf_file (fn_of fs k) \<or> can_hold (fn_memory fs) (length bs * 1)"
    using assms(11) w by simp_all
  from function_stored_loaded [OF assms(6-9) zero_less_one ne len(2) put len(1) len(3)] obtain t where
    t: "store_fun (fn_memory fs) fresh (fn_of fs k) rt subset_full m = (Inr FENIX_SUCCESS, m\<lparr>mb_stage := Some t\<rparr>)"
    "\<And>m' target l ts app'. mb_commits m' \<noteq> [] \<Longrightarrow> last (mb_commits m') = t\<lparr>sn_timestamp := ts\<rparr> \<Longrightarrow>
      sf_get (fn_of fs k) bs (dr_data (load_target m' target RESTORE_FULL)) 0 (int (length bs)) (al_app l) = Inr app' \<Longrightarrow>
      load_fun (fn_memory fs) (fn_of fs k) m' target RESTORE_FULL SNAPSHOT_LATEST l = (Inr (), \<lparr>al_app = app', al_found = first_elements (length bs)\<rparr>)"
    by blast
  have get: "sf_get (fn_of fs k) bs Null 0 (int (length bs)) rt' = Inr (put_mlog i (saved_log c) rt')" if "search_mlog i rt' \<noteq> None" for rt'
    using restore [OF that, of "[]"] assms(5) by (simp add: mlog_fun_def)
  have null: "dr_data (load_target m' Null RESTORE_FULL) = dr_data (mb_user m')" for m'
    by (simp add: load_target_def Let_def unbounded_ref_def)
  show ?thesis
    using t get null store_any_fun [of m k fs fresh rt h subset_full, OF assms(4)]
    by (intro exI [of _ t] exI [of _ "length bs"]) auto
qed

definition log_functions :: "runtime fun_table" where
  "log_functions = \<lparr>fn_memory = small_memory\<lparr>mm_remap := \<lambda>a k. Some a\<rparr>, fn_of = (\<lambda>_. mlog_fun [(3, 0)] (cl_rank example_saved) 4)\<rparr>"

definition log_member :: member where
  "log_member = (new_member 7 Null 0 byte_type 2)\<lparr>mb_ser := Some 0, mb_stage := Some (fresh_stage 0 [0, 1]\<lparr>sn_elm_size := 1\<rparr>)\<rparr>"

theorem log_checkpointed_witness:
  "\<exists>t. store_any log_functions (\<lambda>n. replicate n 0) logging_runtime (\<lambda>_. []) subset_full log_member = (Inr FENIX_SUCCESS, log_member\<lparr>mb_stage := Some t\<rparr>) \<and>
    al_app (snd (load_fun (fn_memory log_functions) (fn_of log_functions 0) (log_member\<lparr>mb_commits := [t\<lparr>sn_timestamp := 5\<rparr>]\<rparr>) Null RESTORE_FULL SNAPSHOT_LATEST
        \<lparr>al_app = logging_runtime, al_found = empty_subset\<rparr>)) = put_mlog 4 (saved_log example_saved) logging_runtime"
proof -
  let ?c = example_saved and ?m = "fn_memory log_functions"
  have len: "length bs \<le> 300" if "write_comm_log [(3, 0)] ?c = Some bs" for bs
    using that by (auto simp: write_comm_log_def write_list_def example_saved_def example_comm_log_def new_comm_log_def write_ranked_def
        write_rank_log_def example_rank_log_def write_send_def write_buffer_def find_index_def example_msg_def write_region_def range_bytes_def range_at_def
        write_cregion_def no_region_def no_range_def no_cregion_def length_int_bytes fenix_assert_bind split: bind_splits if_splits)
  have "can_hold ?m n" if "n \<le> 300" for n
  proof -
    have "claim_chunk (small_memory\<lparr>mm_remap := \<lambda>a k. Some a\<rparr>) = 8" "write_chunk (small_memory\<lparr>mm_remap := \<lambda>a k. Some a\<rparr>) = 4"
      by (simp_all add: small_memory_def chunk_size_def)
    then show ?thesis using that by (simp add: can_hold_def memory_ok_def log_functions_def) (simp add: small_memory_def SIZE_MAX_def)
  qed
  then have hold: "\<forall>bs. write_comm_log [(3, 0)] ?c = Some bs \<longrightarrow> length bs \<le> INT_MAX \<and> can_hold ?m (length bs)"
    using len by (fastforce simp: INT_MAX_def)
  have m: "mb_ser log_member = Some 0" "open_snap 1 2 (fresh_stage 0 [0, 1]\<lparr>sn_elm_size := 1\<rparr>)" "mb_stage log_member = Some (fresh_stage 0 [0, 1]\<lparr>sn_elm_size := 1\<rparr>)"
    "mt_extent (mb_type log_member) = 1" "\<not> ref_is_bounded (mb_user log_member)" "dr_data (mb_user log_member) = Null"
    by (simp_all add: log_member_def new_member_def byte_type_def open_snap_def fresh_stage_def numeral_2_eq_2 ref_is_bounded_def unbounded_ref_def)
  have f: "fn_of log_functions 0 = mlog_fun [(3, 0)] (cl_rank ?c) 4" by (simp add: log_functions_def)
  have ty: "types_ok [(3, 0)]" by (simp add: types_ok_def fits_def INT32_MAX_def)
  let ?m' = "\<lambda>t. log_member\<lparr>mb_commits := [t\<lparr>sn_timestamp := 5\<rparr>]\<rparr>" and ?l = "\<lparr>al_app = logging_runtime, al_found = empty_subset\<rparr>"
  from log_checkpointed [OF logging_runtime_ok(1) example_saved_fits ty m(1) f m(2-6) hold, of "\<lambda>n. replicate n 0" "\<lambda>_. []"] obtain t len where
    t: "store_any log_functions (\<lambda>n. replicate n 0) logging_runtime (\<lambda>_. []) subset_full log_member = (Inr FENIX_SUCCESS, log_member\<lparr>mb_stage := Some t\<rparr>)"
    and l: "\<And>m' l ts. mb_commits m' \<noteq> [] \<and> last (mb_commits m') = t\<lparr>sn_timestamp := ts\<rparr> \<and> dr_data (mb_user m') = Null \<and> search_mlog 4 (al_app l) \<noteq> None \<Longrightarrow>
      load_fun ?m (fn_of log_functions 0) m' Null RESTORE_FULL SNAPSHOT_LATEST l = (Inr (), \<lparr>al_app = put_mlog 4 (saved_log ?c) (al_app l), al_found = first_elements len\<rparr>)"
    by blast
  have "load_fun ?m (fn_of log_functions 0) (?m' t) Null RESTORE_FULL SNAPSHOT_LATEST ?l = (Inr (), \<lparr>al_app = put_mlog 4 (saved_log ?c) (al_app ?l), al_found = first_elements len\<rparr>)"
    by (rule l [of _ 5]) (use m(6) logging_runtime_ok(1) in simp)
  then show ?thesis using t by (intro exI [of _ t]) simp
qed

end
