(* ===== verification/Handles.thy ===== *)
theory Handles
  imports Outcome
begin

text \<open>
  The wrappers that own a handle of MPI and free it: \<open>Comm\<close> with \<open>CommRef\<close> (src/mpixx/comm.cpp, include/fenix/mpixx/comm.hpp), \<open>Group\<close>
  (src/mpixx/group.cpp) and \<open>Datatype\<close> (src/mpixx/datatype.cpp).  They move, release and free in the same way and differ in
  the handles that they never free.
\<close>

section \<open>Handles\<close>

datatype comm_handle = CommNull | CommWorld | CommSelf | CommAt nat
datatype group_handle = GroupNull | GroupEmpty | GroupAt nat
datatype type_handle = TypeNull | TypeNamed nat | TypeDerived nat

text \<open>What a class of wrappers never frees, and what it refuses to free by an assertion.\<close>

record 'h handle_class =
  hc_null :: 'h
  hc_kept :: "'h \<Rightarrow> bool"
  hc_refused :: "'h \<Rightarrow> bool"

definition comm_class :: "comm_handle handle_class" where
  "comm_class = \<lparr>hc_null = CommNull, hc_kept = (\<lambda>h. h = CommNull), hc_refused = (\<lambda>h. h = CommWorld \<or> h = CommSelf)\<rparr>"

definition is_builtin_group :: "group_handle \<Rightarrow> bool" where
  "is_builtin_group h \<longleftrightarrow> h = GroupNull \<or> h = GroupEmpty"

definition group_class :: "group_handle handle_class" where
  "group_class = \<lparr>hc_null = GroupNull, hc_kept = is_builtin_group, hc_refused = (\<lambda>_. False)\<rparr>"

definition is_builtin_type :: "type_handle \<Rightarrow> bool" where
  "is_builtin_type h = (case h of TypeNull \<Rightarrow> False | TypeNamed _ \<Rightarrow> True | TypeDerived _ \<Rightarrow> False)"

definition datatype_class :: "type_handle handle_class" where
  "datatype_class = \<lparr>hc_null = TypeNull, hc_kept = (\<lambda>h. h = TypeNull \<or> is_builtin_type h), hc_refused = (\<lambda>_. False)\<rparr>"

section \<open>MPI and the objects\<close>

text \<open>MPI is between its initialisation and its end; the handles that exist, and those that have been freed; and the handle in every object.\<close>

record 'h wrappers =
  wr_active :: bool
  wr_live :: "'h list"
  wr_freed :: "'h list"
  wr_obj :: "nat \<Rightarrow> 'h"

text \<open>Freeing a handle that does not exist is an error of MPI.\<close>

definition mpi_free :: "'h \<Rightarrow> ('h wrappers, unit) comp" where
  "mpi_free h =
     andThen getS (\<lambda>s.
     andThen (assertS (h \<in> set (wr_live s))) (\<lambda>_.
     modS (\<lambda>s. s\<lparr>wr_live := remove1 h (wr_live s), wr_freed := h # wr_freed s\<rparr>)))"

definition set_obj :: "nat \<Rightarrow> 'h \<Rightarrow> ('h wrappers, unit) comp" where
  "set_obj v h = modS (\<lambda>s. s\<lparr>wr_obj := (wr_obj s)(v := h)\<rparr>)"

definition w_get :: "'h handle_class \<Rightarrow> nat \<Rightarrow> 'h wrappers \<Rightarrow> 'h" where
  "w_get k v s = (if wr_active s then wr_obj s v else hc_null k)"

definition w_release :: "'h handle_class \<Rightarrow> nat \<Rightarrow> ('h wrappers, 'h) comp" where
  "w_release k v =
     andThen getS (\<lambda>s.
     andThen (set_obj v (hc_null k)) (\<lambda>_. ret (wr_obj s v)))"

definition w_free :: "'h handle_class \<Rightarrow> nat \<Rightarrow> ('h wrappers, unit) comp" where
  "w_free k v =
     andThen getS (\<lambda>s.
     andThen (assertS (\<not> hc_refused k (wr_obj s v))) (\<lambda>_.
     andThen (if wr_active s \<and> \<not> hc_kept k (wr_obj s v) then mpi_free (wr_obj s v) else ret ()) (\<lambda>_.
     set_obj v (hc_null k))))"

text \<open>The move assignment of \<open>w\<close> to \<open>v\<close>; the move constructor is one to a new object, which holds no handle.\<close>

definition w_move :: "'h handle_class \<Rightarrow> nat \<Rightarrow> nat \<Rightarrow> ('h wrappers, unit) comp" where
  "w_move k v w =
     (if v = w then ret ()
      else andThen (w_free k v) (\<lambda>_. andThen (w_release k w) (set_obj v)))"

text \<open>The assignment of a handle goes through a temporary object \<open>t\<close>, which is destroyed.\<close>

definition w_assign :: "'h handle_class \<Rightarrow> nat \<Rightarrow> nat \<Rightarrow> 'h \<Rightarrow> ('h wrappers, unit) comp" where
  "w_assign k t v h = andThen (set_obj t h) (\<lambda>_. andThen (w_move k v t) (\<lambda>_. w_free k t))"

text \<open>\<open>CommRef\<close> does not own its handle.\<close>

definition ref_assign :: "nat \<Rightarrow> nat \<Rightarrow> comm_handle \<Rightarrow> (comm_handle wrappers, unit) comp" where
  "ref_assign t v c = andThen (w_release comm_class v) (\<lambda>_. w_assign comm_class t v c)"

definition ref_move :: "nat \<Rightarrow> nat \<Rightarrow> nat \<Rightarrow> (comm_handle wrappers, unit) comp" where
  "ref_move t v w =
     (if v = w then ret ()
      else andThen (w_release comm_class v) (\<lambda>_. andThen (w_release comm_class w) (ref_assign t v)))"

definition ref_destroy :: "nat \<Rightarrow> (comm_handle wrappers, unit) comp" where
  "ref_destroy v = andThen (w_release comm_class v) (\<lambda>_. andThen (w_free comm_class v) (\<lambda>_. ret ()))"

section \<open>New communicators\<close>

text \<open>
  The functions that create a communicator: \<open>made\<close> is what MPI makes, nothing when it returns an error, \<open>arg\<close> says that the
  arguments are not null.
\<close>

definition comm_make :: "bool \<Rightarrow> comm_handle option \<Rightarrow> (comm_handle wrappers, comm_handle) comp" where
  "comm_make arg made =
     andThen (assertS arg) (\<lambda>_.
     andThen getS (\<lambda>s.
     andThen (assertS (wr_active s)) (\<lambda>_.
     (case made of
        None \<Rightarrow> ret CommNull
      | Some h \<Rightarrow> andThen (modS (\<lambda>s. s\<lparr>wr_live := h # wr_live s\<rparr>)) (\<lambda>_. ret h)))))"

definition comm_dup :: "comm_handle \<Rightarrow> comm_handle option \<Rightarrow> (comm_handle wrappers, comm_handle) comp" where
  "comm_dup c = comm_make (c \<noteq> CommNull)"

definition comm_create :: "comm_handle \<Rightarrow> comm_handle option \<Rightarrow> (comm_handle wrappers, comm_handle) comp" where
  "comm_create c = comm_make (c \<noteq> CommNull)"

definition comm_split :: "comm_handle \<Rightarrow> comm_handle option \<Rightarrow> (comm_handle wrappers, comm_handle) comp" where
  "comm_split c = comm_make (c \<noteq> CommNull)"

definition comm_split_type :: "comm_handle \<Rightarrow> bool \<Rightarrow> comm_handle option \<Rightarrow> (comm_handle wrappers, comm_handle) comp" where
  "comm_split_type c info = comm_make (c \<noteq> CommNull \<and> info)"

definition comm_inter :: "comm_handle \<Rightarrow> comm_handle \<Rightarrow> comm_handle option \<Rightarrow> (comm_handle wrappers, comm_handle) comp" where
  "comm_inter c peer = comm_make (c \<noteq> CommNull \<and> peer \<noteq> CommNull)"

text \<open>The handle that \<open>shrink\<close> returns when MPI fails has never been set: \<open>junk\<close>.\<close>

definition comm_shrink :: "comm_handle \<Rightarrow> comm_handle \<Rightarrow> comm_handle option \<Rightarrow> (comm_handle wrappers, comm_handle) comp" where
  "comm_shrink junk c made = andThen (comm_make (c \<noteq> CommNull) made) (\<lambda>h. ret (if made = None then junk else h))"

text \<open>A function on the communicator of an object, which must not be null.\<close>

definition comm_ask :: "nat \<Rightarrow> (comm_handle \<Rightarrow> 'a) \<Rightarrow> (comm_handle wrappers, 'a) comp" where
  "comm_ask v f = andThen getS (\<lambda>s. andThen (assertS (w_get comm_class v s \<noteq> CommNull)) (\<lambda>_. ret (f (w_get comm_class v s))))"

text \<open>The group of a communicator.\<close>

definition group_from_comm :: "group_handle option \<Rightarrow> (group_handle wrappers, group_handle) comp" where
  "group_from_comm made =
     (case made of
        None \<Rightarrow> fail (Throw FENIX_ERROR_INTERN)
      | Some h \<Rightarrow> andThen (modS (\<lambda>s. s\<lparr>wr_live := (if is_builtin_group h then wr_live s else h # wr_live s)\<rparr>)) (\<lambda>_. ret h))"

text \<open>Asking MPI about a type: \<open>None\<close> is an error.\<close>

definition type_ask :: "nat \<Rightarrow> (type_handle \<Rightarrow> 'a option) \<Rightarrow> (type_handle wrappers, 'a) comp" where
  "type_ask v f = andThen getS (\<lambda>s. case f (wr_obj s v) of None \<Rightarrow> fail (Throw FENIX_ERROR_INTERN) | Some x \<Rightarrow> ret x)"

section \<open>What a program does with wrappers\<close>

text \<open>A handle that MPI makes is assigned to an object; an object is moved; an object is destroyed.\<close>

datatype 'h wrap_op = Make nat 'h | Move nat nat | Destroy nat

fun wrap_step :: "'h handle_class \<Rightarrow> nat \<Rightarrow> 'h wrap_op \<Rightarrow> ('h wrappers, unit) comp" where
  "wrap_step k t (Make v h) = andThen (modS (\<lambda>s. s\<lparr>wr_live := h # wr_live s\<rparr>)) (\<lambda>_. w_assign k t v h)"
| "wrap_step k t (Move v w) = w_move k v w"
| "wrap_step k t (Destroy v) = w_free k v"

fun wrap_run :: "'h handle_class \<Rightarrow> nat \<Rightarrow> 'h wrap_op list \<Rightarrow> ('h wrappers, unit) comp" where
  "wrap_run k t [] = ret ()"
| "wrap_run k t (op # ops) = andThen (wrap_step k t op) (\<lambda>_. wrap_run k t ops)"

fun made_by :: "'h wrap_op list \<Rightarrow> 'h list" where
  "made_by [] = []"
| "made_by (Make v h # ops) = h # made_by ops"
| "made_by (_ # ops) = made_by ops"

text \<open>The temporary object is not used otherwise.\<close>

fun spares :: "nat \<Rightarrow> 'h wrap_op \<Rightarrow> bool" where
  "spares t (Make v h) \<longleftrightarrow> v \<noteq> t"
| "spares t (Move v w) \<longleftrightarrow> v \<noteq> t \<and> w \<noteq> t"
| "spares t (Destroy v) \<longleftrightarrow> v \<noteq> t"

definition no_objects :: "'h handle_class \<Rightarrow> 'h wrappers" where
  "no_objects k = \<lparr>wr_active = True, wr_live = [], wr_freed = [], wr_obj = (\<lambda>_. hc_null k)\<rparr>"

section \<open>Ownership\<close>

text \<open>Every handle that exists is in exactly one object, and has not been freed.\<close>

definition owned :: "'h handle_class \<Rightarrow> 'h wrappers \<Rightarrow> bool" where
  "owned k s \<longleftrightarrow> wr_active s \<and> distinct (wr_live s @ wr_freed s) \<and> (\<forall>v. \<not> hc_refused k (wr_obj s v)) \<and>
     set (wr_live s) = {h. \<not> hc_kept k h \<and> (\<exists>v. wr_obj s v = h)} \<and>
     (\<forall>v w. wr_obj s v = wr_obj s w \<and> \<not> hc_kept k (wr_obj s v) \<longrightarrow> v = w)"

locale wrapper_class =
  fixes k :: "'h handle_class"
  assumes null_kept: "hc_kept k (hc_null k)"
    and null_allowed: "\<not> hc_refused k (hc_null k)"
begin

lemma no_objects_owned: "owned k (no_objects k)"
  using null_kept null_allowed by (auto simp: owned_def no_objects_def)

text \<open>Freeing an object takes its handle out of the others' sight.\<close>

lemma free_owned:
  assumes "owned k s"
  shows "\<exists>s'. w_free k v s = (Inr (), s') \<and> owned k s' \<and> wr_obj s' = (wr_obj s)(v := hc_null k) \<and>
    set (wr_live s') \<union> set (wr_freed s') = set (wr_live s) \<union> set (wr_freed s)"
proof (cases "hc_kept k (wr_obj s v)")
  case True
  let ?s = "s\<lparr>wr_obj := (wr_obj s)(v := hc_null k)\<rparr>"
  have "w_free k v s = (Inr (), ?s)" using assms True by (simp add: w_free_def comp set_obj_def owned_def)
  moreover have "owned k ?s" using assms True null_kept null_allowed unfolding owned_def by (auto split: if_splits)
  ultimately show ?thesis by auto
next
  case False
  let ?h = "wr_obj s v"
  let ?s = "s\<lparr>wr_live := remove1 ?h (wr_live s), wr_freed := ?h # wr_freed s, wr_obj := (wr_obj s)(v := hc_null k)\<rparr>"
  have l: "?h \<in> set (wr_live s)" "distinct (wr_live s)" using assms False by (auto simp: owned_def)
  have "w_free k v s = (Inr (), ?s)" using assms False l(1) by (simp add: w_free_def comp set_obj_def owned_def mpi_free_def)
  moreover have "owned k ?s" using assms False null_kept null_allowed l unfolding owned_def by (auto simp: distinct_remove1 set_remove1_eq)
  ultimately show ?thesis using l by (auto simp: set_remove1_eq)
qed

text \<open>The handle of \<open>w\<close> passes to \<open>v\<close>, which holds none.\<close>

lemma moved_owned:
  assumes "owned k s" "wr_obj s v = hc_null k" "v \<noteq> w"
  shows "owned k (s\<lparr>wr_obj := (wr_obj s)(w := hc_null k, v := wr_obj s w)\<rparr>)"
proof -
  define f where "f = wr_obj s"
  define g where "g = f(w := hc_null k, v := f w)"
  have g: "g v = f w" "g w = hc_null k" "\<And>x. x \<noteq> v \<Longrightarrow> x \<noteq> w \<Longrightarrow> g x = f x" using assms(3) by (simp_all add: g_def)
  have v: "f v = hc_null k" using assms(2) by (simp add: f_def)
  have o: "\<And>x. \<not> hc_refused k (f x)" "\<And>x y. f x = f y \<Longrightarrow> \<not> hc_kept k (f x) \<Longrightarrow> x = y"
    "set (wr_live s) = {h. \<not> hc_kept k h \<and> (\<exists>x. f x = h)}" "wr_active s" "distinct (wr_live s @ wr_freed s)"
    using assms(1) unfolding owned_def f_def by blast+
  have fro: "\<exists>y. f y = g x \<and> (x = v \<longrightarrow> y = w) \<and> (x \<noteq> v \<longrightarrow> y = x)" if "\<not> hc_kept k (g x)" for x
    using that g null_kept by (cases "x = v"; cases "x = w") auto
  have there: "\<exists>y. g y = f x" if x: "\<not> hc_kept k (f x)" for x
  proof (cases "x = w")
    case False
    have "x \<noteq> v" using x v null_kept by auto
    then show ?thesis using g(3) False by auto
  qed (use g(1) in auto)
  have 1: "\<not> hc_refused k (g x)" for x using g o(1) null_allowed by (cases "x = v"; cases "x = w") simp_all
  have 2: "{h. \<not> hc_kept k h \<and> (\<exists>x. f x = h)} = {h. \<not> hc_kept k h \<and> (\<exists>x. g x = h)}"
  proof (intro Collect_cong conj_cong refl iffI; elim exE)
    fix h x assume "\<not> hc_kept k h" "f x = h"
    then show "\<exists>x. g x = h" using there [of x] by simp
  next
    fix h x assume "\<not> hc_kept k h" "g x = h"
    then show "\<exists>x. f x = h" using fro [of x] by blast
  qed
  have 3: "x = y" if xy: "g x = g y \<and> \<not> hc_kept k (g x)" for x y
  proof -
    have nk: "\<not> hc_kept k (g x)" "\<not> hc_kept k (g y)" "g x = g y" using xy by auto
    obtain a where a: "f a = g x" "x = v \<longrightarrow> a = w" "x \<noteq> v \<longrightarrow> a = x" using fro [OF nk(1)] by blast
    obtain b where b: "f b = g y" "y = v \<longrightarrow> b = w" "y \<noteq> v \<longrightarrow> b = y" using fro [OF nk(2)] by blast
    have ab: "a = b" using o(2) [of a b] a(1) b(1) nk by simp
    have "x \<noteq> w" "y \<noteq> w" using nk(1,2) null_kept g(2) by auto
    then show ?thesis using ab a(2,3) b(2,3) by metis
  qed
  then have 3: "\<forall>x y. g x = g y \<and> \<not> hc_kept k (g x) \<longrightarrow> x = y" by blast
  have "owned k (s\<lparr>wr_obj := g\<rparr>)" unfolding owned_def using 1 2 3 o(3-5) by simp
  then show ?thesis by (simp add: g_def f_def)
qed

lemma move_owned:
  assumes "owned k s"
  shows "\<exists>s'. w_move k v w s = (Inr (), s') \<and> owned k s' \<and> set (wr_live s') \<union> set (wr_freed s') = set (wr_live s) \<union> set (wr_freed s)"
proof (cases "v = w")
  case False
  obtain s1 where s1: "w_free k v s = (Inr (), s1)" "owned k s1" "wr_obj s1 v = hc_null k"
    "set (wr_live s1) \<union> set (wr_freed s1) = set (wr_live s) \<union> set (wr_freed s)" using free_owned [OF assms, of v] by auto
  let ?s = "s1\<lparr>wr_obj := (wr_obj s1)(w := hc_null k, v := wr_obj s1 w)\<rparr>"
  have "w_move k v w s = (Inr (), ?s)" using False s1(1) by (simp add: w_move_def comp w_release_def set_obj_def)
  moreover have "owned k ?s" using moved_owned [OF s1(2,3) False] by simp
  ultimately show ?thesis using s1(4) by auto
qed (use assms in \<open>simp add: w_move_def comp\<close>)

text \<open>A new handle goes through the temporary object into its own.\<close>

lemma make_owned:
  assumes "owned k s" "hc_kept k (wr_obj s t)" "\<not> hc_kept k h" "\<not> hc_refused k h" "h \<notin> set (wr_live s) \<union> set (wr_freed s)"
  shows "\<exists>s'. wrap_step k t (Make v h) s = (Inr (), s') \<and> owned k s' \<and> hc_kept k (wr_obj s' t) \<and>
    set (wr_live s') \<union> set (wr_freed s') = insert h (set (wr_live s) \<union> set (wr_freed s))"
proof -
  let ?s = "s\<lparr>wr_live := h # wr_live s, wr_obj := (wr_obj s)(t := h)\<rparr>"
  have "owned k ?s" using assms unfolding owned_def by (auto split: if_splits)
  then obtain s1 where s1: "w_move k v t ?s = (Inr (), s1)" "owned k s1"
    "set (wr_live s1) \<union> set (wr_freed s1) = insert h (set (wr_live s) \<union> set (wr_freed s))" using move_owned [of ?s v t] by auto
  obtain s2 where s2: "w_free k t s1 = (Inr (), s2)" "owned k s2" "wr_obj s2 = (wr_obj s1)(t := hc_null k)"
    "set (wr_live s2) \<union> set (wr_freed s2) = set (wr_live s1) \<union> set (wr_freed s1)" using free_owned [OF s1(2), of t] by auto
  have "wrap_step k t (Make v h) s = (Inr (), s2)"
    using s1(1) s2(1) by (simp add: w_assign_def comp set_obj_def)
  then show ?thesis using s2 s1(3) null_kept by auto
qed

text \<open>A move and a destruction leave the temporary object alone.\<close>

lemma others_kept:
  assumes "spares t op" "\<And>v h. op \<noteq> Make v h" "wrap_step k t op s = (Inr (), s')"
  shows "wr_obj s' t = wr_obj s t"
  using assms
  by (cases op) (auto simp: w_move_def w_free_def w_release_def set_obj_def mpi_free_def comp split: if_splits)

text \<open>A run of the program.\<close>

lemma run_owned:
  assumes "owned k s" "hc_kept k (wr_obj s t)" "\<forall>op \<in> set ops. spares t op" "distinct (made_by ops)"
    "\<forall>h \<in> set (made_by ops). \<not> hc_kept k h \<and> \<not> hc_refused k h \<and> h \<notin> set (wr_live s) \<union> set (wr_freed s)"
  shows "\<exists>s'. wrap_run k t ops s = (Inr (), s') \<and> owned k s' \<and>
    set (wr_live s') \<union> set (wr_freed s') = set (wr_live s) \<union> set (wr_freed s) \<union> set (made_by ops)"
  using assms
proof (induction ops arbitrary: s)
  case (Cons op ops)
  have t: "spares t op" "\<forall>op \<in> set ops. spares t op" using Cons.prems(3) by simp_all
  obtain s1 where s1: "wrap_step k t op s = (Inr (), s1)" "owned k s1" "hc_kept k (wr_obj s1 t)"
    "set (wr_live s1) \<union> set (wr_freed s1) = set (wr_live s) \<union> set (wr_freed s) \<union> set (made_by [op])"
  proof (cases op)
    case (Make v h)
    then have "\<not> hc_kept k h" "\<not> hc_refused k h" "h \<notin> set (wr_live s) \<union> set (wr_freed s)" using Cons.prems(5) by simp_all
    from make_owned [OF Cons.prems(1,2) this, of v] show ?thesis using that Make by auto
  next
    case (Move v w)
    obtain s1 where "w_move k v w s = (Inr (), s1)" "owned k s1" "set (wr_live s1) \<union> set (wr_freed s1) = set (wr_live s) \<union> set (wr_freed s)"
      using move_owned [OF Cons.prems(1), of v w] by auto
    then show ?thesis using that [of s1] Move others_kept [OF t(1), of s s1] Cons.prems(2) by simp
  next
    case (Destroy v)
    obtain s1 where "w_free k v s = (Inr (), s1)" "owned k s1" "set (wr_live s1) \<union> set (wr_freed s1) = set (wr_live s) \<union> set (wr_freed s)"
      using free_owned [OF Cons.prems(1), of v] by auto
    then show ?thesis using that [of s1] Destroy others_kept [OF t(1), of s s1] Cons.prems(2) by simp
  qed
  have m: "distinct (made_by ops)" "set (made_by (op # ops)) = set (made_by [op]) \<union> set (made_by ops)"
    "set (made_by [op]) \<inter> set (made_by ops) = {}" using Cons.prems(4) by (cases op; auto)+
  then have "\<forall>h \<in> set (made_by ops). \<not> hc_kept k h \<and> \<not> hc_refused k h \<and> h \<notin> set (wr_live s1) \<union> set (wr_freed s1)"
    using Cons.prems(5) unfolding s1(4) by blast
  from Cons.IH [OF s1(2,3) t(2) m(1) this] obtain s2 where
    "wrap_run k t ops s1 = (Inr (), s2)" "owned k s2"
    "set (wr_live s2) \<union> set (wr_freed s2) = set (wr_live s1) \<union> set (wr_freed s1) \<union> set (made_by ops)" by blast
  then show ?case using s1(1,4) m(2) by (simp add: comp Un_assoc)
qed (simp add: comp)

end

interpretation comms: wrapper_class comm_class
  by unfold_locales (simp_all add: comm_class_def)

interpretation groups: wrapper_class group_class
  by unfold_locales (simp_all add: group_class_def is_builtin_group_def)

interpretation types: wrapper_class datatype_class
  by unfold_locales (simp_all add: datatype_class_def)

section \<open>References\<close>

text \<open>A reference frees nothing, and may hold the world.\<close>

lemma ref_assign_run:
  assumes "t \<noteq> v" "wr_obj s t = CommNull"
  shows "ref_assign t v c s = (Inr (), s\<lparr>wr_obj := (wr_obj s)(v := c)\<rparr>)"
  using assms by (simp add: ref_assign_def w_release_def w_assign_def w_move_def w_free_def set_obj_def comp comm_class_def fun_upd_twist fun_upd_idem)

lemma ref_destroy_run: "ref_destroy v s = (Inr (), s\<lparr>wr_obj := (wr_obj s)(v := CommNull)\<rparr>)"
  by (simp add: ref_destroy_def w_release_def w_free_def set_obj_def comp comm_class_def)

section \<open>Ownership\<close>

text \<open>
  C27. However a program creates, moves and destroys communicators: no assertion and no call of MPI fails, every communicator that was
  made is either freed, once, or held by exactly one object, and those that no object holds have been freed.
\<close>

theorem communicators_freed_once:
  assumes "\<forall>op \<in> set ops. spares t op" "distinct (made_by ops)" "set (made_by ops) \<subseteq> range CommAt"
  shows "\<exists>s. wrap_run comm_class t ops (no_objects comm_class) = (Inr (), s) \<and> distinct (wr_live s @ wr_freed s) \<and>
    set (wr_live s @ wr_freed s) = set (made_by ops) \<and> set (wr_live s) = {h. h \<noteq> CommNull \<and> (\<exists>v. wr_obj s v = h)} \<and>
    (\<forall>v w. wr_obj s v = wr_obj s w \<and> wr_obj s v \<noteq> CommNull \<longrightarrow> v = w)"
proof -
  have made: "\<forall>h \<in> set (made_by ops). \<not> hc_kept comm_class h \<and> \<not> hc_refused comm_class h \<and>
      h \<notin> set (wr_live (no_objects comm_class)) \<union> set (wr_freed (no_objects comm_class))"
    using assms(3) by (auto simp: comm_class_def no_objects_def)
  have "hc_kept comm_class (wr_obj (no_objects comm_class) t)" by (simp add: no_objects_def comm_class_def)
  from comms.run_owned [OF comms.no_objects_owned this assms(1,2) made] show ?thesis
    by (auto simp: owned_def no_objects_def comm_class_def)
qed

text \<open>A communicator is moved, its object gets another, and is destroyed.\<close>

theorem communicators_freed_once_witness:
  "\<exists>s. wrap_run comm_class 0 [Make 1 (CommAt 5), Move 2 1, Make 2 (CommAt 6), Destroy 2] (no_objects comm_class) = (Inr (), s) \<and>
    distinct (wr_live s @ wr_freed s) \<and> set (wr_live s @ wr_freed s) = {CommAt 5, CommAt 6}"
  using communicators_freed_once [of "[Make 1 (CommAt 5), Move 2 1, Make 2 (CommAt 6), Destroy 2]" 0] by auto

end
