(* ===== verification/Proc_Api.thy ===== *)
theory Proc_Api
  imports Handler C_Api
begin

text \<open>
  The C interface to processes and callbacks, and what it asks of the state (src/fenix.cpp): the callbacks after a recovery, the flags
  of initialisation, the failed ranks, the roles and the test of a request.
\<close>

section \<open>Callbacks\<close>

text \<open>A function of the interface, called inside the frame of another.\<close>

definition cb_inner :: "('c callbacks \<Rightarrow> fenix_code api_end \<times> 'c callbacks) \<Rightarrow> ('c callbacks, fenix_code) comp" where
  "cb_inner f s = (case f s of (Returned c, s) \<Rightarrow> (Inr c, s) | (Failed e, s) \<Rightarrow> (Inl e, s) | (Jumped, s) \<Rightarrow> (Inl Abort, s))"

text \<open>The location is \<open>POST_RECOVERY\<close>; a callback is a function of C with its data.\<close>

definition c_callback_register :: "bool \<Rightarrow> bool \<Rightarrow> 'c \<Rightarrow> 'c callbacks \<Rightarrow> fenix_code api_end \<times> 'c callbacks" where
  "c_callback_register cc catch cb = cb_frame cc (cb_inner (callback_register catch cb POST_RECOVERY))"

definition c_callback_pop :: "bool \<Rightarrow> bool \<Rightarrow> 'c callbacks \<Rightarrow> fenix_code api_end \<times> 'c callbacks" where
  "c_callback_pop cc catch = cb_frame cc (cb_inner (callback_pop catch POST_RECOVERY))"

definition c_callback_invoke_all :: "bool \<Rightarrow> bool \<Rightarrow> cb_call \<Rightarrow> 'c callbacks \<Rightarrow> fenix_code api_end \<times> 'c callbacks" where
  "c_callback_invoke_all cc catch call = cb_frame cc (cb_inner (callback_invoke_all catch POST_RECOVERY call))"

section \<open>Flags and roles\<close>

definition c_initialized :: "runtime \<Rightarrow> fenix_code \<times> nat" where
  "c_initialized rt = (FENIX_SUCCESS, if rt_init rt then 1 else 0)"

definition c_finalized :: "runtime \<Rightarrow> fenix_code \<times> nat" where
  "c_finalized rt = (FENIX_SUCCESS, if rt_final rt then 1 else 0)"

text \<open>A number, or an error code in its place.\<close>

datatype c_number = Error_Code fenix_code | Number nat

definition c_fail_list :: "bool \<Rightarrow> 'g procs \<Rightarrow> runtime \<Rightarrow> (c_number \<times> nat option list option) api_end \<times> runtime" where
  "c_fail_list cc p = api cc (\<lambda>c. (Error_Code c, None)) (ret (Number (length (pr_fail_ranks p)), Some (pr_fail_ranks p)))"

definition fail_list :: "'g procs \<Rightarrow> runtime \<Rightarrow> failure + nat option list" where
  "fail_list p rt = (if rt_init rt then Inr (pr_fail_ranks p) else Inl Abort)"

definition get_role :: "'g procs \<Rightarrow> runtime \<Rightarrow> failure + rank_role" where
  "get_role p rt = (if rt_init rt \<or> rt_final rt then Inr (pr_role p) else Inl Abort)"

definition get_error :: "'g procs \<Rightarrow> runtime \<Rightarrow> failure + fenix_code" where
  "get_error p rt = (if rt_init rt then Inr (pr_result p) else Inl Abort)"

definition get_nspare :: "'g group_api \<Rightarrow> 'g procs \<Rightarrow> runtime \<Rightarrow> failure + nat" where
  "get_nspare gapi p rt = (if rt_init rt then group_size gapi (pr_spare p) else Inl Abort)"

text \<open>An \<open>int\<close> as a role.\<close>

definition role_named :: "int \<Rightarrow> rank_role option" where
  "role_named i = (if 0 \<le> i \<and> i < 5 then Some ([InitialRank, RecoveredRank, SurvivorRank, SpareRank, FailedRank] ! nat i) else None)"

definition c_n_ranks_with_role :: "bool \<Rightarrow> 'g group_api \<Rightarrow> 'g procs \<Rightarrow> int \<Rightarrow> runtime \<Rightarrow> (fenix_code \<times> nat option) api_end \<times> runtime" where
  "c_n_ranks_with_role cc gapi p i = c_ask cc
     (liftE (case role_named i of None \<Rightarrow> Inl (Throw FENIX_ERROR_INVALID_ROLE) | Some role \<Rightarrow> n_ranks_with_role gapi role p))"

definition c_rank_role :: "bool \<Rightarrow> 'g group_api \<Rightarrow> 'g procs \<Rightarrow> 'g \<Rightarrow> nat \<Rightarrow> runtime \<Rightarrow> (fenix_code \<times> rank_role option) api_end \<times> runtime" where
  "c_rank_role cc gapi p g r = c_ask cc (liftE (fst (role_of gapi g r p)))"

section \<open>Failures\<close>

definition throw_exception :: "runtime \<Rightarrow> failure" where
  "throw_exception rt = (if rt_init rt then Comm else Abort)"

text \<open>What \<open>PMPI_Test\<close> does, the error handler included, with failures ignored and errors returned; it returns a code of MPI.\<close>

datatype test_code = Test_Success | Test_Proc_Failed | Test_Revoked | Test_Other

datatype c_flag = Error_Flag fenix_code | Cancelled bool

definition c_check_cancelled :: "bool \<Rightarrow> (runtime, test_code) comp \<Rightarrow> runtime \<Rightarrow> c_flag api_end \<times> runtime" where
  "c_check_cancelled cc test = api cc Error_Flag
     (ignore_and_return (andThen test (\<lambda>c. ret (Cancelled (c = Test_Proc_Failed \<or> c = Test_Revoked)))))"

definition c_detect_failures :: "bool \<Rightarrow> bool \<Rightarrow> bool \<Rightarrow> test_result list \<Rightarrow> runtime \<Rightarrow> (fenix_code api_end \<times> runtime) option" where
  "c_detect_failures cc catch do_recovery tests = api_opt cc (\<lambda>c. c)
     (\<lambda>rt. map_option (\<lambda>(r, rt). (case r of Returned c \<Rightarrow> Inr c | Failed e \<Rightarrow> Inl e | Jumped \<Rightarrow> Inl Abort, rt)) (detect_failures catch do_recovery tests rt))"

end
