(* ===== verification/Spec2Isabelle.thy ===== *)
theory Spec2Isabelle
  imports Subset_Properties Data_Properties Imr_Properties Log_Properties Codec_Properties Process_Properties Runtime_Properties
    Task_Properties Sync_Properties Overload_Properties Api_Properties Handles
    Proc_Api
begin

text \<open>
  Fenix is a C++ library that lets an MPI program go on after processes have failed.  It keeps spare
  processes that take the place of failed ones, keeps copies of the program's data in the memory of
  other processes, and logs messages so that recovered processes can replay them.  This development
  models the library as functions of Isabelle/HOL, written from the files under src/src and
  src/include, and states what makes its parts correct.

  \<^bold>\<open>The parts and how they interact.\<close>  The program calls the interface (src/fenix.cpp, src/data/recovery.cpp,
  src/logging/message_logging.cpp).  Every call runs in a frame that fixes some settings, turns an
  exception into an error code and resumes the program as the settings say.  The interface works on one
  global state (\<open>fenix_t\<close>): the registry of data groups, the registry of message logs, the
  settings, and the groups of processes.  A data group has members, a member has snapshots, a
  snapshot has a byte buffer and the subset of elements that it holds; a redundancy policy decides
  who keeps copies of what.  After a failure process recovery rebuilds the groups of processes,
  then the data groups agree on timestamps and repair their snapshots, then the logs agree on
  where to go on.

  \<^bold>\<open>Conventions.\<close>  \<open>Prelude\<close> has \<open>size_t\<close> as natural numbers with the wrap-around written out (\<open>usub\<close>,
  \<open>umod\<close>, \<open>SIZE_MAX\<close>); the \<open>sz\<close> lemmas say when nothing wraps.  \<open>Outcome\<close> has the error codes, the
  ways an operation fails (\<open>Throw\<close>, \<open>Comm\<close>, \<open>Abort\<close> for a failed assertion or the end of the process) and
  computations \<open>('s, 'a) comp\<close>, which keep the state that they have reached when they fail.  A pure
  function that may fail an assertion returns an option.  A loop that may not end takes a list of
  what MPI returns in its rounds, and is \<open>None\<close> when the list is used up.  \<open>Keyed\<close> has
  \<open>std::set\<close> with lookup by key as the locale \<open>keyed_set\<close>, interpreted for members, timestamps, commits, groups
  and logs.

  \<^bold>\<open>Data subsets\<close> (src/data/subset.cpp, include/fenix/data/subset.hpp).  \<open>Region\<close> and \<open>Region_Ops\<close> have \<open>DataRegion\<close>
  and its operations; \<open>Region_And\<close>, \<open>Region_Sub\<close>, \<open>Region_Diff\<close>, \<open>Region_Merge\<close> prove them against sets of
  indices.  \<open>Subset\<close> has \<open>DataSubset\<close>; \<open>Subset_Merge\<close>, \<open>Subset_Ops\<close>, \<open>Subset_Build\<close>, \<open>Subset_Data\<close>, \<open>Subset_Form\<close> prove
  the merging pass, the set operations, the constructors, the copies of elements and the external
  forms.  The passes of \<open>merge_regions\<close> have fuel, the number of regions; the proofs show that it suffices.

  \<^bold>\<open>Data recovery.\<close>  \<open>Buffer\<close> and \<open>Snapshot\<close> (src/data/util, src/data/snapshot.cpp), \<open>Member\<close>, \<open>Member_Store\<close>,
  \<open>Member_Exchange\<close> (src/data/member.cpp), \<open>Group\<close> (src/data/group.cpp), \<open>Component\<close> (src/data/component.cpp) and
  \<open>Data_Api\<close> (src/data/recovery.cpp) have the operations in the order of the code.  \<open>Snapshot_Copy\<close>,
  \<open>Snapshot_Facts\<close>, \<open>Member_Facts\<close>, \<open>Member_Load\<close>, \<open>Member_Run\<close>, \<open>Group_Facts\<close> and \<open>Data_Facts\<close> lead to the
  round trip through store, commit and load, the timestamps, and the well-formedness of groups.

  \<^bold>\<open>Redundancy\<close> (src/data/policy_imr.cpp).  \<open>Cohort\<close> has who protects whom, \<open>Imr\<close> the buddy and the parity
  members over a whole cohort.  \<open>Parity_Layout\<close>, \<open>Parity_Facts\<close>, \<open>Parity_Repair\<close>, \<open>Parity_Loss\<close>, \<open>Buddy_Facts\<close> and
  \<open>Buddy_Repair\<close> show what \<open>iprotect\<close> leaves on every rank and what \<open>repair\<close> makes of it when one rank lost its snapshot.

  \<^bold>\<open>Message logs\<close> (src/logging).  \<open>Rank_Log\<close> has the log of one remote rank, \<open>Comm_Log\<close> that of a
  communicator with its collectives, \<open>Log_Serial\<close> their serialisation, \<open>Mlog\<close> their registry.  \<open>Rank_Facts\<close> and
  \<open>Comm_Facts\<close> show that messages are delivered once and in order after recovery, and that collectives are replayed without gaps.
  \<open>Overload\<close> (src/logging/mpi_overload.cpp) has the MPI functions that lead a program to the active log, and \<open>Overload_Properties\<close> follows a
  receive through them.
  \<open>Comm_Sync\<close> has the consistency of the collectives over all ranks of a communicator, with the regions of the program as a
  history that every rank has a part of, and the whole synchronisation of one log with the requests that start its tasks.

  \<^bold>\<open>Process recovery\<close> (src/fenix_process_recovery.cpp, src/mpixx/group.cpp).  \<open>Proc_Group\<close> has the wrapper of MPI
  groups over a parameter with what MPI documents of it (\<open>groups_ok\<close>); \<open>Process\<close> has the tables, the rebuilding of
  the groups, the repair, the waiting spares and the roles.  \<open>Reassign\<close> is the specification,
  a function on the table of ranks; \<open>Process_Facts\<close> proves that the loops of \<open>rebuild_proc_groups\<close> refine it,
  \<open>Process_Run\<close> follows a recovery through its attempts, \<open>Process_Roles\<close> has the states that a run reaches.

  \<^bold>\<open>Handling a failure\<close> (src/fenix_callbacks.cpp, src/fenix_process_recovery.cpp).  \<open>Callbacks\<close> has the callbacks and their nested
  invocations, \<open>Handler\<close> the error handler, \<open>__fenix_postinit\<close>, \<open>detect_failures\<close> and \<open>Fenix_Finalize\<close> over one state with
  the processes, the callbacks, the logs and the settings.  \<open>Callback_Facts\<close> shows which callbacks an invocation
  starts, \<open>Handler_Facts\<close> follows a failure back to the application.

  \<^bold>\<open>Streams\<close> (src/data/util/mstream.cpp).  \<open>Mstream\<close> has the growing and the fixed stream of the serializers,
  \<open>Mstream_Facts\<close> proves that the growing one is a file, its bytes and a position.  \<open>Serializers\<close> (src/data/util/serializer.cpp,
  src/data/util/mfile.cpp) has the members whose data a function of the application writes to a file or a stream, and
  \<open>Serializer_Facts\<close> follows such data from a store to a load.

  \<^bold>\<open>Tasks\<close> (include/fenix/tasks, include/fenix/mpixx/request.hpp).  \<open>Tasks\<close> has the coroutines that await requests and other
  tasks, and the rounds in which a log runs them; \<open>Task_Properties\<close> shows that they end and what they have done then.  The fuel is four
  times the work that is left.

  \<^bold>\<open>Datatypes\<close> (src/mpixx/datatype.cpp).  \<open>Datatype_Codec\<close> has the encoding of MPI datatypes, whose decoding takes
  the length of the input as fuel.

  \<^bold>\<open>The frame\<close> (include/fenix_util.hpp, src/fenix.cpp).  \<open>Runtime\<close> has the settings, scoped options and the frame.

  \<^bold>\<open>The C interface\<close> (src/fenix.cpp, the end of src/data/recovery.cpp).  \<open>Fun_Api\<close> has the interface for members with a function
  and the member that checkpoints a message log, \<open>C_Api\<close> the C functions, which run their C++ functions in a frame of
  their own and name subsets by handles to objects on a heap.  \<open>C_Facts\<close> shows that two frames are one, and that handles
  stay with their subsets.  \<open>Proc_Api\<close> has the C functions on callbacks, roles and failures.

  \<^bold>\<open>Handles of MPI\<close> (src/mpixx).  \<open>Handles\<close> has the wrappers that own communicators, groups and datatypes, as one
  set of operations over a class of handles; the locale \<open>wrapper_class\<close> shows that they free each handle once, and is
  interpreted for the three classes.  \<open>Member_Exchange\<close> has the buffers as messages and the move of a data member.

  \<^bold>\<open>The properties.\<close>  The theories whose names end in \<open>Properties\<close> hold them, each with a witness at a
  concrete input where it has hypotheses, and the examples that the witnesses are about.

  \<^bold>\<open>Parameters.\<close>  MPI is not part of the program.  What it returns is an argument: the groups (\<open>group_api\<close>), the attempts
  to build communicators (\<open>attempt\<close>), the structure of datatypes (\<open>mpi\<close>), and the data that arrives.  The
  hypotheses \<open>groups_ok\<close>, \<open>agrees\<close>, \<open>shrinking\<close> and \<open>dtype_ok\<close> state documented behaviour of MPI
  and of its fault tolerance extension: groups are lists of distinct processes, an agreement is 1 only if everybody
  gives 1, and a shrunk communicator has no process that the one before had not.

  \<^bold>\<open>Not modelled.\<close>  The statuses and the tasks around single calls of MPI (include/fenix/mpixx) pass their arguments on to MPI.  The macro
  \<open>Fenix_Init\<close> and the jump buffer are only seen as the way the frame resumes.
  Debugging output and options (src/fenix_opt.cpp), the tests, the examples and the Fortran
  interface are left out.
\<close>

end
